(* ===== verification/Prelude.thy ===== *)
theory Prelude
  imports
    Main
    "HOL-Library.Word"
    "HOL-Library.Monad_Syntax"
    "HOL-Library.Extended_Nat"
begin

text \<open>
  Shared vocabulary of the development: the machine integers of the Rust sources, the
  conventions for their return values, and the list and word lemmas that several components
  use.

  Conventions. Rust's unsigned integers are words of their width, so \<open>wrapping_add\<close> and
  \<open>wrapping_sub\<close> are \<open>+\<close> and \<open>-\<close>; \<open>usize\<close> is 64 bits wide on every board of the
  repository. A function that returns the C status codes \<open>0\<close> and \<open>-1\<close> returns an
  \<open>int\<close>. A Rust \<open>Result<T, E>\<close> is a sum \<open>'e + 'a\<close> with \<open>Inl\<close> the error. A panic
  (a failed \<open>assert!\<close>, \<open>expect\<close> or checked index) is the value \<open>None\<close> of an option.
\<close>

unbundle bit_operations_syntax

type_synonym u8 = "8 word"
type_synonym u16 = "16 word"
type_synonym u32 = "32 word"
type_synonym u64 = "64 word"
type_synonym usize = "64 word"

named_theorems queue_defs \<open>definitions of the queue operations\<close>
named_theorems wf_defs \<open>well-formedness predicates of the shared structures\<close>

subsection \<open>Status codes\<close>

text \<open>
  The queues of the driver framework report success as \<open>0\<close> and write their result through
  out-parameters. \<open>ok_code\<close> and \<open>opt_code\<close> read such a result as a boolean and as an
  option.
\<close>

fun ok_code :: "int \<times> 'q \<Rightarrow> bool \<times> 'q" where
  "ok_code (s, q) = (s = 0, q)"

fun opt_code :: "int \<times> 'a \<times> 'q \<Rightarrow> 'a option \<times> 'q" where
  "opt_code (s, x, q) = (if s = 0 then Some x else None, q)"

subsection \<open>Lists\<close>

lemma map_upt_last: "map f [0..<Suc n] = map f [0..<n] @ [f n]"
  by simp

lemma map_upt_first: "map f [0..<Suc n] = f 0 # map (\<lambda>i. f (Suc i)) [0..<n]"
  by (induction n) simp_all

lemma hd_map_upt: "0 < n \<Longrightarrow> map f [0..<n] = f 0 # map (\<lambda>i. f (Suc i)) [0..<n - 1]"
  by (cases n) (auto simp: map_upt_first simp del: upt_Suc)

subsection \<open>Words\<close>

lemma unat_plus_of_nat:
  "unat ((w :: 'w::len word) + of_nat i) = (unat w + i) mod 2 ^ LENGTH('w)"
  by (simp add: unat_word_ariths unat_of_nat mod_add_right_eq)

lemma unat_less_exp [simp]: "unat (w :: 'w::len word) < 2 ^ LENGTH('w)"
  by (fact unsigned_less)

lemma unat_ucast_up:
  fixes w :: "'a::len word"
  assumes "LENGTH('a) \<le> LENGTH('b::len)"
  shows "unat (ucast w :: 'b word) = unat w"
proof -
  have "unat w < 2 ^ LENGTH('b)"
    using assms unat_less_exp [of w] by (meson le_trans less_le_trans one_le_numeral power_increasing)
  then show ?thesis
    by (simp add: unsigned_ucast_eq take_bit_nat_eq_self_iff)
qed

lemma word_neq_max_Suc:
  fixes w :: "'w::len word"
  assumes "unat w + 1 < 2 ^ LENGTH('w)"
  shows "unat (w + 1) = unat w + 1"
  using assms unat_plus_of_nat [of w 1] by simp

lemma unat_diff_Suc:
  fixes t h :: "'w::len word"
  assumes "unat (t - h) < m" and "m < 2 ^ LENGTH('w)"
  shows "unat (t + 1 - h) = unat (t - h) + 1"
proof -
  have "unat (t - h) + 1 < 2 ^ LENGTH('w)"
    using assms by simp
  then have "unat (t - h + 1) = unat (t - h) + 1"
    by (rule word_neq_max_Suc)
  then show ?thesis
    by (simp add: algebra_simps)
qed

lemma unat_diff_pred:
  fixes t h :: "'w::len word"
  assumes "t \<noteq> h"
  shows "unat (t - (h + 1)) + 1 = unat (t - h)"
proof -
  have "t - h \<noteq> 0"
    using assms by simp
  then have "unat (t - h - 1) = unat (t - h) - 1" and "0 < unat (t - h)"
    by (simp_all add: unat_minus_one word_neq_0_conv unat_gt_0)
  then show ?thesis
    by (simp add: algebra_simps)
qed

end
