(* ===== verification/Ring.thy ===== *)
theory Ring
  imports Prelude
begin

text \<open>
  Index arithmetic of a single-producer single-consumer ring: the crate \<open>lerux-ring\<close>.
  The macro \<open>ring_word!\<close> generates the same functions for \<open>u16\<close>, \<open>u32\<close> and
  \<open>u64\<close>; the definitions below are polymorphic in the word length and stand for the three
  modules.

  \<open>ring_items\<close> reads the live window of a ring as a list. The lemmas show what a push and
  a pop do to that list. They need the capacity to divide the range of the counters or the
  window not to cross the wrap-around; \<open>ring_ok\<close> is that invariant and \<open>ring_left\<close>
  is the number of pushes for which it is kept.
\<close>

definition ring_len :: "'w::len word \<Rightarrow> 'w word \<Rightarrow> 'w word" where
  "ring_len tail head = tail - head"

definition ring_is_empty :: "'w::len word \<Rightarrow> 'w word \<Rightarrow> bool" where
  "ring_is_empty tail head \<longleftrightarrow> tail = head"

definition ring_is_full :: "'w::len word \<Rightarrow> 'w word \<Rightarrow> 'w word \<Rightarrow> bool" where
  "ring_is_full tail head capacity \<longleftrightarrow> ring_len tail head = capacity"

definition ring_index :: "'w::len word \<Rightarrow> 'w word \<Rightarrow> 'w word" where
  "ring_index cursor capacity = cursor mod capacity"

definition ring_advance :: "'w::len word \<Rightarrow> 'w word" where
  "ring_advance cursor = cursor + 1"

definition ring_advance_tail :: "'w::len word \<Rightarrow> 'w word \<Rightarrow> 'w word \<Rightarrow> 'w word" where
  "ring_advance_tail tail head capacity = ring_advance tail"

definition ring_advance_head :: "'w::len word \<Rightarrow> 'w word \<Rightarrow> 'w word" where
  "ring_advance_head head tail = ring_advance head"

lemmas ring_simps = ring_len_def ring_is_empty_def ring_is_full_def ring_index_def
  ring_advance_def ring_advance_tail_def ring_advance_head_def

subsection \<open>The live window as a list\<close>

definition ring_slot :: "'w::len word \<Rightarrow> nat \<Rightarrow> nat" where
  "ring_slot cursor cap = unat cursor mod cap"

definition ring_items :: "'w::len word \<Rightarrow> 'w word \<Rightarrow> nat \<Rightarrow> 'a list \<Rightarrow> 'a list" where
  "ring_items head tail cap slots =
     map (\<lambda>i. slots ! ring_slot (head + of_nat i) cap) [0..<unat (tail - head)]"

definition ring_divides :: "'w::len word \<Rightarrow> nat \<Rightarrow> bool" where
  "ring_divides cursor cap \<longleftrightarrow> (2 :: nat) ^ LENGTH('w) mod cap = 0"

definition ring_ok :: "'w::len word \<Rightarrow> 'w word \<Rightarrow> nat \<Rightarrow> bool" where
  "ring_ok head tail cap \<longleftrightarrow>
     0 < cap \<and> cap < 2 ^ LENGTH('w) \<and> unat (tail - head) \<le> cap
     \<and> (ring_divides tail cap \<or> unat head \<le> unat tail)"

definition ring_left :: "'w::len word \<Rightarrow> nat \<Rightarrow> enat" where
  "ring_left tail cap =
     (if ring_divides tail cap then \<infinity> else enat (2 ^ LENGTH('w) - 1 - unat tail))"

lemma ring_slot_less: "0 < cap \<Longrightarrow> ring_slot cursor cap < cap"
  by (simp add: ring_slot_def)

lemma ring_slot_index: "unat (ring_index cursor capacity) = ring_slot cursor (unat capacity)"
  by (simp add: ring_index_def ring_slot_def unat_mod)

lemma length_ring_items [simp]: "length (ring_items head tail cap slots) = unat (tail - head)"
  by (simp add: ring_items_def)

lemma ring_items_empty [simp]: "ring_items c c cap slots = []"
  by (simp add: ring_items_def)

lemma ring_items_Nil_iff: "ring_items head tail cap slots = [] \<longleftrightarrow> tail = head"
  by (metis length_ring_items length_0_conv ring_items_empty unat_eq_zero right_minus_eq)

text \<open>Within a window that keeps \<open>ring_ok\<close>, the slot of the i-th cursor is computed
  without the wrap-around of the counter.\<close>

lemma ring_slot_plus:
  fixes head :: "'w::len word"
  assumes "ring_divides head cap \<or> unat head + i < 2 ^ LENGTH('w)"
  shows "ring_slot (head + of_nat i) cap = (unat head + i) mod cap"
  using assms
proof
  assume "ring_divides head cap"
  then have "cap dvd (2 :: nat) ^ LENGTH('w)"
    by (simp add: ring_divides_def dvd_eq_mod_eq_0)
  then show ?thesis
    by (simp add: ring_slot_def unat_plus_of_nat mod_mod_cancel)
next
  assume "unat head + i < 2 ^ LENGTH('w)"
  then show ?thesis
    by (simp add: ring_slot_def unat_plus_of_nat)
qed

lemma ring_ok_window:
  fixes head :: "'w::len word"
  assumes "ring_ok head tail cap" and "i \<le> unat (tail - head)"
  shows "ring_divides head cap \<or> unat head + i < 2 ^ LENGTH('w)"
proof (cases "ring_divides tail cap")
  case True
  then show ?thesis by (simp add: ring_divides_def)
next
  case False
  with assms have "unat head \<le> unat tail"
    by (simp add: ring_ok_def)
  then have "unat (tail - head) = unat tail - unat head"
    by (simp add: unat_sub_if')
  with assms \<open>unat head \<le> unat tail\<close> have "unat head + i \<le> unat tail"
    by simp
  then show ?thesis
    using unat_less_exp [of tail] by (meson le_less_trans)
qed

lemma mod_shift_inj:
  fixes a i j m :: nat
  assumes "(a + i) mod m = (a + j) mod m" and "i < j" and "j - i < m"
  shows "False"
proof -
  have "(j - i) mod m = 0"
    using assms(1,2) by (metis (no_types) add.assoc add_diff_cancel_left' le_add1
        le_add_diff_inverse less_imp_le mod_eq_dvd_iff_nat mod_eq_0_iff_dvd)
  with assms(2,3) show False
    by simp
qed

lemma ring_slot_inj:
  assumes "ring_ok head tail cap" and "i < j" and "j \<le> unat (tail - head)" and "j < i + cap"
  shows "ring_slot (head + of_nat i) cap \<noteq> ring_slot (head + of_nat j) cap"
proof
  assume "ring_slot (head + of_nat i) cap = ring_slot (head + of_nat j) cap"
  moreover have "ring_slot (head + of_nat i) cap = (unat head + i) mod cap"
    using assms by (intro ring_slot_plus ring_ok_window [where tail = tail]) auto
  moreover have "ring_slot (head + of_nat j) cap = (unat head + j) mod cap"
    using assms by (intro ring_slot_plus ring_ok_window [where tail = tail]) auto
  ultimately have "(unat head + i) mod cap = (unat head + j) mod cap"
    by simp
  then show False
    using assms by (intro mod_shift_inj [of "unat head" i cap j]) auto
qed

subsection \<open>Push and pop\<close>

lemma tail_eq_head_plus: "head + of_nat (unat (tail - head)) = (tail :: 'w::len word)"
  by simp

lemma ring_items_write_tail:
  assumes ok: "ring_ok head tail cap" and room: "unat (tail - head) < cap"
  shows "ring_items head tail cap (slots[ring_slot tail cap := x]) = ring_items head tail cap slots"
proof -
  have "ring_slot tail cap \<noteq> ring_slot (head + of_nat i) cap" if "i < unat (tail - head)" for i
    using ring_slot_inj [OF ok that order_refl] room that by simp
  then show ?thesis
    by (simp add: ring_items_def)
qed

lemma ring_items_push:
  fixes head :: "'w::len word"
  assumes ok: "ring_ok head tail cap" and room: "unat (tail - head) < cap"
    and len: "length slots = cap"
  shows "ring_items head (tail + 1) cap (slots[ring_slot tail cap := x])
           = ring_items head tail cap slots @ [x]"
proof -
  let ?s = "slots[ring_slot tail cap := x]"
  have "unat (tail + 1 - head) = Suc (unat (tail - head))"
    using unat_diff_Suc [of tail head cap] ok room by (simp add: ring_ok_def)
  then have "ring_items head (tail + 1) cap ?s = ring_items head tail cap ?s @ [?s ! ring_slot tail cap]"
    by (simp add: ring_items_def)
  moreover have "?s ! ring_slot tail cap = x"
    using ok len by (simp add: ring_slot_less ring_ok_def)
  ultimately show ?thesis
    using ring_items_write_tail [OF ok room] by simp
qed

lemma ring_items_pop:
  fixes head :: "'w::len word"
  assumes "tail \<noteq> head"
  shows "ring_items head tail cap slots
           = slots ! ring_slot head cap # ring_items (head + 1) tail cap slots"
proof -
  have n: "unat (tail - head) = Suc (unat (tail - (head + 1)))"
    using unat_diff_pred [OF assms] by simp
  have "head + of_nat (Suc i) = head + 1 + of_nat i" for i
    by (simp add: algebra_simps)
  then show ?thesis
    unfolding ring_items_def n map_upt_first by (simp only: semiring_1_class.of_nat_0 add_0_right)
qed

lemma ring_ok_push:
  fixes head :: "'w::len word"
  assumes "ring_ok head tail cap" and "unat (tail - head) < cap" and "0 < ring_left tail cap"
  shows "ring_ok head (tail + 1) cap" and "ring_left tail cap \<le> eSuc (ring_left (tail + 1) cap)"
proof -
  have u: "unat (tail + 1 - head) = unat (tail - head) + 1"
    using unat_diff_Suc [of tail head cap] assms by (simp add: ring_ok_def)
  have t: "unat (tail + 1) = unat tail + 1" if "\<not> ring_divides tail cap"
    using assms(3) that by (intro word_neq_max_Suc) (simp add: ring_left_def zero_enat_def)
  show "ring_ok head (tail + 1) cap"
  proof (cases "ring_divides tail cap")
    case True
    with assms u show ?thesis by (auto simp: ring_ok_def ring_divides_def)
  next
    case False
    with assms u t show ?thesis by (auto simp: ring_ok_def)
  qed
  show "ring_left tail cap \<le> eSuc (ring_left (tail + 1) cap)"
    using t by (auto simp: ring_left_def ring_divides_def eSuc_enat)
qed

lemma ring_ok_pop:
  fixes head :: "'w::len word"
  assumes "ring_ok head tail cap" and "tail \<noteq> head"
  shows "ring_ok (head + 1) tail cap"
proof -
  have "unat (tail - (head + 1)) + 1 = unat (tail - head)"
    using assms(2) by (rule unat_diff_pred)
  moreover have "unat (head + 1) \<le> unat tail" if "unat head \<le> unat tail"
  proof -
    have "unat head < unat tail"
      using that assms(2) by (metis le_neq_implies_less unsigned_word_eqI)
    then have "unat head + 1 < 2 ^ LENGTH('w)"
      using unat_less_exp [of tail] by linarith
    then show ?thesis
      using \<open>unat head < unat tail\<close> word_neq_max_Suc [of head] by simp
  qed
  ultimately show ?thesis
    using assms(1) by (auto simp: ring_ok_def)
qed

end
