(* ===== verification/Fifo.thy ===== *)
theory Fifo
  imports Prelude
begin

text \<open>
  The contract of a bounded first-in first-out queue, as the clients of the queue crates use
  it, and what follows from the contract alone.

  \<open>fifo_run\<close> runs a sequence of enqueues and dequeues of an implementation;
  \<open>spec_run\<close> runs it on a plain list with a bound. The locale \<open>bounded_fifo\<close> states
  the laws of one enqueue and one dequeue: a full queue refuses and is unchanged, an empty
  queue returns nothing and is unchanged, otherwise the list of queued elements grows at the
  back or shrinks at the front. Its theorem \<open>run_refines\<close> lifts the laws to any
  sequence. \<open>left q\<close> is how many more elements the queue can ever accept: \<open>\<infinity>\<close>
  where the capacity divides the range of the counters, finite otherwise.
\<close>

datatype 'a qop = Enq 'a | Deq

datatype 'a qres = Pushed bool | Popped "'a option"

fun fifo_step ::
  "('a \<Rightarrow> 'q \<Rightarrow> bool \<times> 'q) \<Rightarrow> ('q \<Rightarrow> 'a option \<times> 'q) \<Rightarrow> 'a qop \<Rightarrow> 'q \<Rightarrow> 'a qres \<times> 'q" where
  "fifo_step enq deq (Enq x) q = (case enq x q of (b, q') \<Rightarrow> (Pushed b, q'))"
| "fifo_step enq deq Deq q = (case deq q of (r, q') \<Rightarrow> (Popped r, q'))"

fun fifo_run ::
  "('a \<Rightarrow> 'q \<Rightarrow> bool \<times> 'q) \<Rightarrow> ('q \<Rightarrow> 'a option \<times> 'q) \<Rightarrow> 'a qop list \<Rightarrow> 'q \<Rightarrow> 'a qres list \<times> 'q"
where
  "fifo_run enq deq [] q = ([], q)"
| "fifo_run enq deq (op # ops) q =
     (let (r, q') = fifo_step enq deq op q; (rs, q'') = fifo_run enq deq ops q' in (r # rs, q''))"

definition spec_enq :: "nat \<Rightarrow> 'a \<Rightarrow> 'a list \<Rightarrow> bool \<times> 'a list" where
  "spec_enq cap x xs = (if length xs = cap then (False, xs) else (True, xs @ [x]))"

fun spec_deq :: "'a list \<Rightarrow> 'a option \<times> 'a list" where
  "spec_deq [] = (None, [])"
| "spec_deq (x # xs) = (Some x, xs)"

definition spec_run :: "nat \<Rightarrow> 'a qop list \<Rightarrow> 'a list \<Rightarrow> 'a qres list \<times> 'a list" where
  "spec_run cap = fifo_run (spec_enq cap) spec_deq"

text \<open>The elements that a run accepted and the elements that it returned, in order.\<close>

fun accepted :: "'a qop list \<Rightarrow> 'a qres list \<Rightarrow> 'a list" where
  "accepted (Enq x # ops) (Pushed True # rs) = x # accepted ops rs"
| "accepted (_ # ops) (_ # rs) = accepted ops rs"
| "accepted _ _ = []"

fun returned :: "'a qres list \<Rightarrow> 'a list" where
  "returned [] = []"
| "returned (Popped (Some x) # rs) = x # returned rs"
| "returned (_ # rs) = returned rs"

lemma spec_run_simps [simp]:
  "spec_run cap [] xs = ([], xs)"
  "spec_run cap (op # ops) xs =
     (let (r, ys) = fifo_step (spec_enq cap) spec_deq op xs; (rs, zs) = spec_run cap ops ys
      in (r # rs, zs))"
  by (simp_all add: spec_run_def)

text \<open>The specification is first-in first-out: what was queued, followed by what was accepted,
  is what was returned, followed by what is left.\<close>

lemma spec_run_fifo:
  "spec_run cap ops xs = (rs, ys) \<Longrightarrow> xs @ accepted ops rs = returned rs @ ys"
proof (induction ops arbitrary: xs rs)
  case Nil
  then show ?case by simp
next
  case (Cons op ops)
  obtain r zs where step: "fifo_step (spec_enq cap) spec_deq op xs = (r, zs)"
    by fastforce
  obtain rs' where run: "spec_run cap ops zs = (rs', ys)" and rs: "rs = r # rs'"
    using Cons.prems step by (auto split: prod.splits)
  have "zs @ accepted ops rs' = returned rs' @ ys"
    using run by (rule Cons.IH)
  then show ?case
    using step rs by (cases op; cases xs) (auto simp: spec_enq_def split: if_splits)
qed

lemma spec_run_bound:
  "length xs \<le> cap \<Longrightarrow> spec_run cap ops xs = (rs, ys) \<Longrightarrow> length ys \<le> cap"
proof (induction ops arbitrary: xs rs)
  case Nil
  then show ?case by simp
next
  case (Cons op ops)
  obtain r zs where step: "fifo_step (spec_enq cap) spec_deq op xs = (r, zs)"
    by fastforce
  obtain rs' where run: "spec_run cap ops zs = (rs', ys)"
    using Cons.prems step by (auto split: prod.splits)
  have "length zs \<le> cap"
    using step Cons.prems(1) by (cases op; cases xs) (auto simp: spec_enq_def split: if_splits)
  then show ?case
    using run by (rule Cons.IH)
qed

locale bounded_fifo =
  fixes wf :: "'q \<Rightarrow> bool"
    and items :: "'q \<Rightarrow> 'a list"
    and cap :: "'q \<Rightarrow> nat"
    and left :: "'q \<Rightarrow> enat"
    and enq :: "'a \<Rightarrow> 'q \<Rightarrow> bool \<times> 'q"
    and deq :: "'q \<Rightarrow> 'a option \<times> 'q"
  assumes bound: "wf q \<Longrightarrow> length (items q) \<le> cap q"
    and enq_full: "wf q \<Longrightarrow> length (items q) = cap q \<Longrightarrow> enq x q = (False, q)"
    and enq_room: "wf q \<Longrightarrow> length (items q) < cap q \<Longrightarrow> 0 < left q \<Longrightarrow>
      \<exists>q'. enq x q = (True, q') \<and> wf q' \<and> items q' = items q @ [x] \<and> cap q' = cap q
        \<and> left q \<le> eSuc (left q')"
    and deq_empty: "wf q \<Longrightarrow> items q = [] \<Longrightarrow> deq q = (None, q)"
    and deq_some: "wf q \<Longrightarrow> items q = x # xs \<Longrightarrow>
      \<exists>q'. deq q = (Some x, q') \<and> wf q' \<and> items q' = xs \<and> cap q' = cap q \<and> left q' = left q"
begin

lemma enq_spec:
  assumes "wf q" and "0 < left q"
  shows "\<exists>q'. enq x q = (fst (spec_enq (cap q) x (items q)), q') \<and> wf q'
    \<and> items q' = snd (spec_enq (cap q) x (items q)) \<and> cap q' = cap q \<and> left q \<le> eSuc (left q')"
proof (cases "length (items q) = cap q")
  case True
  have "left q \<le> eSuc (left q)"
    by (cases "left q") (simp_all add: eSuc_enat)
  with True assms(1) show ?thesis
    by (simp add: enq_full spec_enq_def)
next
  case False
  then have "length (items q) < cap q"
    using bound [OF assms(1)] by simp
  with False show ?thesis
    using enq_room [OF assms(1) _ assms(2), of x] by (auto simp: spec_enq_def)
qed

lemma deq_spec:
  assumes "wf q"
  shows "\<exists>q'. deq q = (fst (spec_deq (items q)), q') \<and> wf q'
    \<and> items q' = snd (spec_deq (items q)) \<and> cap q' = cap q \<and> left q' = left q"
proof (cases "items q")
  case Nil
  with assms show ?thesis by (simp add: deq_empty)
next
  case (Cons x xs)
  with assms show ?thesis using deq_some by fastforce
qed

lemma step_spec:
  assumes "wf q" and "0 < left q"
  shows "\<exists>r q'. fifo_step enq deq op q = (r, q') \<and> wf q'
    \<and> fifo_step (spec_enq (cap q)) spec_deq op (items q) = (r, items q')
    \<and> cap q' = cap q \<and> left q \<le> eSuc (left q')"
proof (cases op)
  case (Enq x)
  then show ?thesis
    using enq_spec [OF assms, of x] by (auto split: prod.splits)
next
  case Deq
  have "left q \<le> eSuc (left q)"
    by (cases "left q") (simp_all add: eSuc_enat)
  then show ?thesis
    using Deq deq_spec [OF assms(1)] by (auto split: prod.splits)
qed

lemma run_refines:
  "wf q \<Longrightarrow> enat (length ops) \<le> left q \<Longrightarrow> fifo_run enq deq ops q = (rs, q') \<Longrightarrow>
    wf q' \<and> cap q' = cap q \<and> spec_run (cap q) ops (items q) = (rs, items q')"
proof (induction ops arbitrary: q rs)
  case Nil
  then show ?case by simp
next
  case (Cons op ops)
  have "0 < left q"
    using Cons.prems(2) by (cases "left q") (simp_all add: zero_enat_def)
  then obtain r p where step: "fifo_step enq deq op q = (r, p)" and p: "wf p" "cap p = cap q"
    "left q \<le> eSuc (left p)"
    and spec: "fifo_step (spec_enq (cap q)) spec_deq op (items q) = (r, items p)"
    using step_spec [OF Cons.prems(1), of op] by blast
  have "enat (length ops) \<le> left p"
    using Cons.prems(2) p(3) by (cases "left q"; cases "left p") (simp_all add: eSuc_enat)
  moreover obtain rs' where "fifo_run enq deq ops p = (rs', q')" and rs: "rs = r # rs'"
    using Cons.prems(3) step by (auto split: prod.splits)
  ultimately have "wf q' \<and> cap q' = cap p \<and> spec_run (cap p) ops (items p) = (rs', items q')"
    using Cons.IH [OF p(1)] by blast
  then show ?case
    using spec rs p(2) by simp
qed

theorem run_fifo:
  assumes "wf q" and "enat (length ops) \<le> left q" and "fifo_run enq deq ops q = (rs, q')"
  shows "items q @ accepted ops rs = returned rs @ items q' \<and> length (items q') \<le> cap q"
proof -
  have "wf q'" "cap q' = cap q" "spec_run (cap q) ops (items q) = (rs, items q')"
    using run_refines [OF assms] by auto
  then show ?thesis
    using spec_run_fifo bound by metis
qed

end

end
