(* ===== verification/RingQueue.thy ===== *)
theory RingQueue
  imports Ring Fifo
begin

text \<open>
  The interface between the index arithmetic and the queues built on it. The locale
  \<open>ring_queue\<close> lists what a queue does with its two counters and its slot array: an
  enqueue of a queue that is not full writes the slot of \<open>tail\<close> and advances \<open>tail\<close>,
  a dequeue of a queue that is not empty reads the slot of \<open>head\<close> and advances
  \<open>head\<close>; \<open>inv\<close> is whatever else the queue needs and keeps. The sublocale shows that this is enough for the contract of
  \<open>bounded_fifo\<close>, so each queue of the framework is proved by an interpretation of
  \<open>ring_queue\<close> only.
\<close>

definition ring_wf :: "'w::len word \<Rightarrow> 'w word \<Rightarrow> nat \<Rightarrow> 'a list \<Rightarrow> bool" where
  "ring_wf head tail cap slots \<longleftrightarrow> ring_ok head tail cap \<and> length slots = cap"

locale ring_queue =
  fixes inv :: "'q \<Rightarrow> bool"
    and head :: "'q \<Rightarrow> 'w::len word"
    and tail :: "'q \<Rightarrow> 'w word"
    and cap :: "'q \<Rightarrow> nat"
    and slots :: "'q \<Rightarrow> 'a list"
    and enq :: "'a \<Rightarrow> 'q \<Rightarrow> bool \<times> 'q"
    and deq :: "'q \<Rightarrow> 'a option \<times> 'q"
  assumes enq_refused:
      "inv q \<Longrightarrow> ring_wf (head q) (tail q) (cap q) (slots q) \<Longrightarrow> unat (tail q - head q) = cap q \<Longrightarrow>
        enq x q = (False, q)"
    and enq_done:
      "inv q \<Longrightarrow> ring_wf (head q) (tail q) (cap q) (slots q) \<Longrightarrow> unat (tail q - head q) < cap q \<Longrightarrow>
        \<exists>q'. enq x q = (True, q') \<and> inv q' \<and> head q' = head q \<and> tail q' = tail q + 1 \<and> cap q' = cap q
          \<and> slots q' = (slots q)[ring_slot (tail q) (cap q) := x]"
    and deq_refused:
      "inv q \<Longrightarrow> ring_wf (head q) (tail q) (cap q) (slots q) \<Longrightarrow> tail q = head q \<Longrightarrow> deq q = (None, q)"
    and deq_done:
      "inv q \<Longrightarrow> ring_wf (head q) (tail q) (cap q) (slots q) \<Longrightarrow> tail q \<noteq> head q \<Longrightarrow>
        \<exists>q'. deq q = (Some (slots q ! ring_slot (head q) (cap q)), q') \<and> inv q' \<and> head q' = head q + 1
          \<and> tail q' = tail q \<and> cap q' = cap q \<and> slots q' = slots q"
begin

lemma enq_append:
  assumes inv: "inv q" and wf: "ring_wf (head q) (tail q) (cap q) (slots q)"
    and room: "unat (tail q - head q) < cap q" and left: "0 < ring_left (tail q) (cap q)"
  shows "\<exists>q'. enq x q = (True, q') \<and> inv q' \<and> ring_wf (head q') (tail q') (cap q') (slots q')
    \<and> ring_items (head q') (tail q') (cap q') (slots q')
        = ring_items (head q) (tail q) (cap q) (slots q) @ [x]
    \<and> cap q' = cap q \<and> ring_left (tail q) (cap q) \<le> eSuc (ring_left (tail q') (cap q'))"
proof -
  obtain q' where q': "enq x q = (True, q')" "inv q'" "head q' = head q" "tail q' = tail q + 1"
    "cap q' = cap q" "slots q' = (slots q)[ring_slot (tail q) (cap q) := x]"
    using enq_done [OF inv wf room] by blast
  have ok: "ring_ok (head q) (tail q) (cap q)" "length (slots q) = cap q"
    using wf by (simp_all add: ring_wf_def)
  show ?thesis
    using q' ring_ok_push [OF ok(1) room left] ring_items_push [OF ok(1) room ok(2), of x] ok(2)
    by (auto simp: ring_wf_def)
qed

lemma deq_first:
  assumes inv: "inv q" and wf: "ring_wf (head q) (tail q) (cap q) (slots q)"
    and items: "ring_items (head q) (tail q) (cap q) (slots q) = x # xs"
  shows "\<exists>q'. deq q = (Some x, q') \<and> inv q' \<and> ring_wf (head q') (tail q') (cap q') (slots q')
    \<and> ring_items (head q') (tail q') (cap q') (slots q') = xs
    \<and> cap q' = cap q \<and> ring_left (tail q') (cap q') = ring_left (tail q) (cap q)"
proof -
  have ne: "tail q \<noteq> head q"
    using items by (auto simp flip: ring_items_Nil_iff)
  then obtain q' where q': "deq q = (Some (slots q ! ring_slot (head q) (cap q)), q')"
    "inv q'" "head q' = head q + 1" "tail q' = tail q" "cap q' = cap q" "slots q' = slots q"
    using deq_done [OF inv wf] by blast
  show ?thesis
    using q' wf items ring_ok_pop [OF _ ne, of "cap q"] ring_items_pop [OF ne, of "cap q" "slots q"]
    by (auto simp: ring_wf_def)
qed

end

sublocale ring_queue \<subseteq> fifo: bounded_fifo
  "\<lambda>q. inv q \<and> ring_wf (head q) (tail q) (cap q) (slots q)"
  "\<lambda>q. ring_items (head q) (tail q) (cap q) (slots q)"
  cap
  "\<lambda>q. ring_left (tail q) (cap q)"
  enq
  deq
proof (unfold_locales, goal_cases)
  case (1 q)
  then show ?case by (simp add: ring_wf_def ring_ok_def)
next
  case (2 q x)
  then show ?case by (simp add: enq_refused)
next
  case (3 q x)
  then show ?case using enq_append [of q x] by simp
next
  case (4 q)
  then show ?case by (simp add: ring_items_Nil_iff deq_refused)
next
  case (5 q x xs)
  then show ?case using deq_first [of q x xs] by simp
qed

end
