(* ===== verification/BlkQueue.thy ===== *)
theory BlkQueue
  imports RingQueue
begin

text \<open>
  Block request and response queues: \<open>lerux-sddf/src/blk.rs\<close> and
  \<open>lerux-sddf/src/blk_queue.rs\<close>. A queue is its two counters, its flags and the flexible
  array that follows them. A handle names a request queue and a response queue of one capacity;
  the model keeps the shared queues inside the handle. \<open>capacity\<close> is non-zero by the
  contract of \<open>blk_queue_init\<close>, which \<open>blk_handle_wf\<close> records.
\<close>

definition BLK_TRANSFER_SIZE :: u32 where
  "BLK_TRANSFER_SIZE = 4096"

definition SDDF_BLK_MAGIC_LEN :: nat where
  "SDDF_BLK_MAGIC_LEN = 5"

definition SDDF_BLK_MAGIC :: "u8 list" where
  "SDDF_BLK_MAGIC = [0x73, 0x44, 0x44, 0x46, 0x02]"

datatype blk_req_code_t = BLK_REQ_READ | BLK_REQ_WRITE | BLK_REQ_FLUSH | BLK_REQ_BARRIER

datatype blk_resp_status_t =
  BLK_RESP_OK | BLK_RESP_ERR_UNSPEC | BLK_RESP_ERR_INVALID_PARAM | BLK_RESP_ERR_IO
| BLK_RESP_ERR_NO_DEVICE

record blk_req_t =
  req_code :: blk_req_code_t
  req_io_or_offset :: u64
  req_block_number :: u64
  req_count :: u16
  req_id :: u32

record blk_resp_t =
  resp_status :: blk_resp_status_t
  resp_success_count :: u16
  resp_id :: u32

record blk_req_queue_t =
  rq_head :: u32
  rq_tail :: u32
  rq_plugged :: bool
  rq_slots :: "blk_req_t list"

record blk_resp_queue_t =
  rp_head :: u32
  rp_tail :: u32
  rp_slots :: "blk_resp_t list"

record blk_queue_handle_t =
  req_queue :: blk_req_queue_t
  resp_queue :: blk_resp_queue_t
  bq_capacity :: u32

record blk_storage_info_t =
  si_serial_number :: "u8 list"
  si_read_only :: bool
  si_ready :: bool
  si_sector_size :: u16
  si_block_size :: u16
  si_queue_depth :: u16
  si_cylinders :: u16
  si_heads :: u16
  si_blocks :: u16
  si_capacity :: u64

definition blk_config_check_magic :: "u8 list \<Rightarrow> bool" where
  "blk_config_check_magic config \<longleftrightarrow>
     SDDF_BLK_MAGIC_LEN \<le> length config \<and> take SDDF_BLK_MAGIC_LEN config = SDDF_BLK_MAGIC"

definition blk_storage_set_ready :: "blk_storage_info_t \<Rightarrow> bool \<Rightarrow> blk_storage_info_t" where
  "blk_storage_set_ready storage_info ready = storage_info\<lparr>si_ready := ready\<rparr>"

definition blk_storage_is_ready :: "blk_storage_info_t \<Rightarrow> bool" where
  "blk_storage_is_ready storage_info = si_ready storage_info"

subsection \<open>Operations\<close>

definition req_slot :: "u32 \<Rightarrow> u32 \<Rightarrow> nat" where
  "req_slot index capacity = unat (ring_index index capacity)"

definition resp_slot :: "u32 \<Rightarrow> u32 \<Rightarrow> nat" where
  "resp_slot index capacity = unat (ring_index index capacity)"

definition blk_queue_init ::
  "blk_queue_handle_t \<Rightarrow> blk_req_queue_t \<Rightarrow> blk_resp_queue_t \<Rightarrow> u32 \<Rightarrow> blk_queue_handle_t" where
  "blk_queue_init handle request response capacity =
     handle\<lparr>req_queue := request, resp_queue := response, bq_capacity := capacity\<rparr>"

definition blk_queue_full_req :: "blk_queue_handle_t \<Rightarrow> bool" where
  "blk_queue_full_req handle =
     (let queue = req_queue handle; tail = rq_tail queue; head = rq_head queue
      in ring_is_full tail head (bq_capacity handle))"

definition blk_queue_full_resp :: "blk_queue_handle_t \<Rightarrow> bool" where
  "blk_queue_full_resp handle =
     (let queue = resp_queue handle; tail = rp_tail queue; head = rp_head queue
      in ring_is_full tail head (bq_capacity handle))"

definition blk_enqueue_req ::
  "blk_queue_handle_t \<Rightarrow> blk_req_code_t \<Rightarrow> u64 \<Rightarrow> u64 \<Rightarrow> u16 \<Rightarrow> u32 \<Rightarrow> int \<times> blk_queue_handle_t" where
  "blk_enqueue_req handle code io_or_offset block_number count rid =
     (let queue = req_queue handle; tail = rq_tail queue; head = rq_head queue
      in if ring_is_full tail head (bq_capacity handle) then (-1, handle)
         else
           let req = \<lparr>req_code = code, req_io_or_offset = io_or_offset,
                 req_block_number = block_number, req_count = count, req_id = rid\<rparr>;
             slots = (rq_slots queue)[req_slot tail (bq_capacity handle) := req];
             queue' = queue\<lparr>rq_slots := slots,
               rq_tail := ring_advance_tail tail head (bq_capacity handle)\<rparr>
           in (0, handle\<lparr>req_queue := queue'\<rparr>))"

definition blk_dequeue_req ::
  "blk_queue_handle_t \<Rightarrow> blk_req_t \<Rightarrow> int \<times> blk_req_t \<times> blk_queue_handle_t" where
  "blk_dequeue_req handle out =
     (let queue = req_queue handle; head = rq_head queue; tail = rq_tail queue
      in if ring_is_empty tail head then (-1, out, handle)
         else
           let req = rq_slots queue ! req_slot head (bq_capacity handle);
             queue' = queue\<lparr>rq_head := ring_advance_head head tail\<rparr>
           in (0, req, handle\<lparr>req_queue := queue'\<rparr>))"

definition blk_enqueue_resp ::
  "blk_queue_handle_t \<Rightarrow> blk_resp_status_t \<Rightarrow> u16 \<Rightarrow> u32 \<Rightarrow> int \<times> blk_queue_handle_t" where
  "blk_enqueue_resp handle status success_count rid =
     (let queue = resp_queue handle; tail = rp_tail queue; head = rp_head queue
      in if ring_is_full tail head (bq_capacity handle) then (-1, handle)
         else
           let resp = \<lparr>resp_status = status, resp_success_count = success_count, resp_id = rid\<rparr>;
             slots = (rp_slots queue)[resp_slot tail (bq_capacity handle) := resp];
             queue' = queue\<lparr>rp_slots := slots,
               rp_tail := ring_advance_tail tail head (bq_capacity handle)\<rparr>
           in (0, handle\<lparr>resp_queue := queue'\<rparr>))"

definition blk_dequeue_resp ::
  "blk_queue_handle_t \<Rightarrow> blk_resp_t \<Rightarrow> int \<times> blk_resp_t \<times> blk_queue_handle_t" where
  "blk_dequeue_resp handle out =
     (let queue = resp_queue handle; head = rp_head queue; tail = rp_tail queue
      in if ring_is_empty tail head then (-1, out, handle)
         else
           let resp = rp_slots queue ! resp_slot head (bq_capacity handle);
             queue' = queue\<lparr>rp_head := ring_advance_head head tail\<rparr>
           in (0, resp, handle\<lparr>resp_queue := queue'\<rparr>))"

lemmas [queue_defs] =
  blk_queue_full_req_def blk_queue_full_resp_def blk_enqueue_req_def blk_dequeue_req_def
  blk_enqueue_resp_def blk_dequeue_resp_def req_slot_def resp_slot_def

subsection \<open>Both queues are first-in first-out\<close>

definition req_items :: "blk_queue_handle_t \<Rightarrow> blk_req_t list" where
  "req_items h = ring_items (rq_head (req_queue h)) (rq_tail (req_queue h))
     (unat (bq_capacity h)) (rq_slots (req_queue h))"

definition resp_items :: "blk_queue_handle_t \<Rightarrow> blk_resp_t list" where
  "resp_items h = ring_items (rp_head (resp_queue h)) (rp_tail (resp_queue h))
     (unat (bq_capacity h)) (rp_slots (resp_queue h))"

definition blk_handle_wf :: "blk_queue_handle_t \<Rightarrow> bool" where
  "blk_handle_wf h \<longleftrightarrow>
     ring_wf (rq_head (req_queue h)) (rq_tail (req_queue h)) (unat (bq_capacity h))
       (rq_slots (req_queue h))
     \<and> ring_wf (rp_head (resp_queue h)) (rp_tail (resp_queue h)) (unat (bq_capacity h))
       (rp_slots (resp_queue h))"

text \<open>The two queues behind their status codes, as the forwarding clients use them.\<close>

definition enq_req :: "blk_req_t \<Rightarrow> blk_queue_handle_t \<Rightarrow> bool \<times> blk_queue_handle_t" where
  "enq_req r h = ok_code (blk_enqueue_req h (req_code r) (req_io_or_offset r)
     (req_block_number r) (req_count r) (req_id r))"

definition deq_req :: "blk_req_t \<Rightarrow> blk_queue_handle_t \<Rightarrow> blk_req_t option \<times> blk_queue_handle_t" where
  "deq_req out h = opt_code (blk_dequeue_req h out)"

definition enq_resp :: "blk_resp_t \<Rightarrow> blk_queue_handle_t \<Rightarrow> bool \<times> blk_queue_handle_t" where
  "enq_resp r h = ok_code (blk_enqueue_resp h (resp_status r) (resp_success_count r) (resp_id r))"

definition deq_resp :: "blk_resp_t \<Rightarrow> blk_queue_handle_t \<Rightarrow> blk_resp_t option \<times> blk_queue_handle_t" where
  "deq_resp out h = opt_code (blk_dequeue_resp h out)"

lemma req_eta [simp]:
  "\<lparr>req_code = req_code r, req_io_or_offset = req_io_or_offset r,
     req_block_number = req_block_number r, req_count = req_count r, req_id = req_id r\<rparr> = r"
  by simp

lemma resp_eta [simp]:
  "\<lparr>resp_status = resp_status r, resp_success_count = resp_success_count r, resp_id = resp_id r\<rparr> = r"
  by simp

interpretation breq: ring_queue
  "\<lambda>h. ring_wf (rp_head (resp_queue h)) (rp_tail (resp_queue h)) (unat (bq_capacity h))
     (rp_slots (resp_queue h))"
  "\<lambda>h. rq_head (req_queue h)" "\<lambda>h. rq_tail (req_queue h)" "\<lambda>h. unat (bq_capacity h)"
  "\<lambda>h. rq_slots (req_queue h)" enq_req "deq_req out" for out
  by unfold_locales
    (auto simp: enq_req_def deq_req_def queue_defs ring_simps ring_slot_index [unfolded ring_index_def]
      Let_def unsigned_word_eqI)

interpretation bresp: ring_queue
  "\<lambda>h. ring_wf (rq_head (req_queue h)) (rq_tail (req_queue h)) (unat (bq_capacity h))
     (rq_slots (req_queue h))"
  "\<lambda>h. rp_head (resp_queue h)" "\<lambda>h. rp_tail (resp_queue h)" "\<lambda>h. unat (bq_capacity h)"
  "\<lambda>h. rp_slots (resp_queue h)" enq_resp "deq_resp out" for out
  by unfold_locales
    (auto simp: enq_resp_def deq_resp_def queue_defs ring_simps ring_slot_index [unfolded ring_index_def]
      Let_def unsigned_word_eqI)

subsection \<open>The operations on a handle whose capacity divides the range of the counters\<close>

definition blk_ready :: "blk_queue_handle_t \<Rightarrow> bool" where
  "blk_ready h \<longleftrightarrow> blk_handle_wf h \<and> (2 :: nat) ^ 32 mod unat (bq_capacity h) = 0"

lemma blk_ready_left:
  assumes "blk_ready h"
  shows "ring_left (rq_tail (req_queue h)) (unat (bq_capacity h)) = \<infinity>"
    and "ring_left (rp_tail (resp_queue h)) (unat (bq_capacity h)) = \<infinity>"
  using assms by (simp_all add: blk_ready_def ring_left_def ring_divides_def)

lemma req_items_bound: "blk_ready h \<Longrightarrow> length (req_items h) \<le> unat (bq_capacity h)"
  by (simp add: blk_ready_def blk_handle_wf_def req_items_def ring_wf_def ring_ok_def)

lemma resp_items_bound: "blk_ready h \<Longrightarrow> length (resp_items h) \<le> unat (bq_capacity h)"
  by (simp add: blk_ready_def blk_handle_wf_def resp_items_def ring_wf_def ring_ok_def)

lemma blk_full_req_iff: "blk_queue_full_req h \<longleftrightarrow> length (req_items h) = unat (bq_capacity h)"
  by (auto simp: blk_queue_full_req_def ring_is_full_def ring_len_def req_items_def Let_def unsigned_word_eqI)

lemma blk_full_resp_iff: "blk_queue_full_resp h \<longleftrightarrow> length (resp_items h) = unat (bq_capacity h)"
  by (auto simp: blk_queue_full_resp_def ring_is_full_def ring_len_def resp_items_def Let_def unsigned_word_eqI)

lemma blk_enqueue_req_resp [simp]:
  "resp_items (snd (blk_enqueue_req h c o' b n i)) = resp_items h"
  "resp_queue (snd (blk_enqueue_req h c o' b n i)) = resp_queue h"
  by (simp_all add: blk_enqueue_req_def resp_items_def Let_def)

lemma blk_dequeue_req_resp [simp]:
  "resp_queue (snd (snd (blk_dequeue_req h r))) = resp_queue h"
  by (simp add: blk_dequeue_req_def Let_def)

lemma blk_enqueue_resp_req [simp]:
  "req_queue (snd (blk_enqueue_resp h s n i)) = req_queue h"
  by (simp add: blk_enqueue_resp_def Let_def)

lemma blk_dequeue_resp_req [simp]:
  "req_queue (snd (snd (blk_dequeue_resp h r))) = req_queue h"
  by (simp add: blk_dequeue_resp_def Let_def)

lemma blk_enqueue_req_room:
  assumes ready: "blk_ready h" and room: "length (req_items h) < unat (bq_capacity h)"
  shows "\<exists>h'. blk_enqueue_req h (req_code r) (req_io_or_offset r) (req_block_number r) (req_count r)
      (req_id r) = (0, h') \<and> blk_ready h' \<and> req_items h' = req_items h @ [r]
      \<and> resp_queue h' = resp_queue h \<and> bq_capacity h' = bq_capacity h"
proof -
  let ?e = "blk_enqueue_req h (req_code r) (req_io_or_offset r) (req_block_number r) (req_count r) (req_id r)"
  obtain s h' where e: "?e = (s, h')"
    by fastforce
  have "resp_queue h' = resp_queue h"
    using arg_cong [OF e, of "\<lambda>x. resp_queue (snd x)"] by simp
  moreover have "bq_capacity h' = bq_capacity h"
    using e by (auto simp: blk_enqueue_req_def Let_def split: if_splits)
  ultimately show ?thesis
    using breq.enq_append [of h r] ready room e blk_ready_left [OF ready]
    by (auto simp: enq_req_def blk_ready_def blk_handle_wf_def req_items_def)
qed

lemma blk_enqueue_resp_room:
  assumes ready: "blk_ready h" and room: "length (resp_items h) < unat (bq_capacity h)"
  shows "\<exists>h'. blk_enqueue_resp h (resp_status r) (resp_success_count r) (resp_id r) = (0, h')
      \<and> blk_ready h' \<and> resp_items h' = resp_items h @ [r]
      \<and> req_queue h' = req_queue h \<and> bq_capacity h' = bq_capacity h"
proof -
  let ?e = "blk_enqueue_resp h (resp_status r) (resp_success_count r) (resp_id r)"
  obtain s h' where e: "?e = (s, h')"
    by fastforce
  have "req_queue h' = req_queue h"
    using arg_cong [OF e, of "\<lambda>x. req_queue (snd x)"] by simp
  moreover have "bq_capacity h' = bq_capacity h"
    using e by (auto simp: blk_enqueue_resp_def Let_def split: if_splits)
  ultimately show ?thesis
    using bresp.enq_append [of h r] ready room e blk_ready_left [OF ready]
    by (auto simp: enq_resp_def blk_ready_def blk_handle_wf_def resp_items_def)
qed

lemma blk_dequeue_req_empty:
  "req_items h = [] \<Longrightarrow> blk_dequeue_req h out = (-1, out, h)"
  by (simp add: req_items_def ring_items_Nil_iff blk_dequeue_req_def ring_is_empty_def)

lemma blk_dequeue_resp_empty:
  "resp_items h = [] \<Longrightarrow> blk_dequeue_resp h out = (-1, out, h)"
  by (simp add: resp_items_def ring_items_Nil_iff blk_dequeue_resp_def ring_is_empty_def)

lemma blk_dequeue_req_first:
  assumes ready: "blk_ready h" and items: "req_items h = r # rs"
  shows "\<exists>h'. blk_dequeue_req h out = (0, r, h') \<and> blk_ready h' \<and> req_items h' = rs
      \<and> resp_queue h' = resp_queue h \<and> bq_capacity h' = bq_capacity h"
proof -
  obtain s r' h' where e: "blk_dequeue_req h out = (s, r', h')"
    by (cases "blk_dequeue_req h out")
  have "resp_queue h' = resp_queue h"
    using arg_cong [OF e, of "\<lambda>x. resp_queue (snd (snd x))"] by simp
  moreover have "bq_capacity h' = bq_capacity h"
    using e by (auto simp: blk_dequeue_req_def Let_def split: if_splits)
  ultimately show ?thesis
    using breq.deq_first [of h r rs out] ready items e
    by (auto simp: deq_req_def blk_ready_def blk_handle_wf_def req_items_def split: if_splits)
qed

lemma blk_dequeue_resp_first:
  assumes ready: "blk_ready h" and items: "resp_items h = r # rs"
  shows "\<exists>h'. blk_dequeue_resp h out = (0, r, h') \<and> blk_ready h' \<and> resp_items h' = rs
      \<and> req_queue h' = req_queue h \<and> bq_capacity h' = bq_capacity h"
proof -
  obtain s r' h' where e: "blk_dequeue_resp h out = (s, r', h')"
    by (cases "blk_dequeue_resp h out")
  have "req_queue h' = req_queue h"
    using arg_cong [OF e, of "\<lambda>x. req_queue (snd (snd x))"] by simp
  moreover have "bq_capacity h' = bq_capacity h"
    using e by (auto simp: blk_dequeue_resp_def Let_def split: if_splits)
  ultimately show ?thesis
    using bresp.deq_first [of h r rs out] ready items e
    by (auto simp: deq_resp_def blk_ready_def blk_handle_wf_def resp_items_def split: if_splits)
qed

subsection \<open>Properties\<close>

text \<open>C2: Any sequence of enqueues and dequeues on the request queue of a handle behaves as a
  list bounded by the capacity: the results agree with the list specification, the handle stays
  well formed, and the requests leave in the order in which they were accepted, none lost and
  none twice. The sequence is limited only by \<open>ring_left\<close>, which is infinite when the
  capacity divides the range of the counters.\<close>

theorem blk_request_queue_fifo:
  assumes "blk_handle_wf h"
    and "enat (length ops) \<le> ring_left (rq_tail (req_queue h)) (unat (bq_capacity h))"
  shows "case fifo_run enq_req (deq_req out) ops h of (rs, h') \<Rightarrow>
    blk_handle_wf h' \<and> spec_run (unat (bq_capacity h)) ops (req_items h) = (rs, req_items h')
    \<and> req_items h @ accepted ops rs = returned rs @ req_items h'"
proof -
  obtain rs h' where run: "fifo_run enq_req (deq_req out) ops h = (rs, h')"
    by fastforce
  then have "blk_handle_wf h'
      \<and> spec_run (unat (bq_capacity h)) ops (req_items h) = (rs, req_items h')"
    using breq.fifo.run_refines [of h ops out rs h'] assms
    by (auto simp: blk_handle_wf_def req_items_def)
  then show ?thesis
    using run spec_run_fifo by auto
qed

definition zero_req :: blk_req_t where
  "zero_req = \<lparr>req_code = BLK_REQ_READ, req_io_or_offset = 0, req_block_number = 0, req_count = 0,
     req_id = 0\<rparr>"

definition zero_resp :: blk_resp_t where
  "zero_resp = \<lparr>resp_status = BLK_RESP_OK, resp_success_count = 0, resp_id = 0\<rparr>"

text \<open>A handle of capacity 2 whose request counters are about to wrap.\<close>

definition blk_handle_sample :: blk_queue_handle_t where
  "blk_handle_sample =
     (let r = zero_req; p = zero_resp
      in \<lparr>req_queue = \<lparr>rq_head = 0xffffffff, rq_tail = 0xffffffff, rq_plugged = False, rq_slots = [r, r]\<rparr>,
        resp_queue = \<lparr>rp_head = 0, rp_tail = 0, rp_slots = [p, p]\<rparr>, bq_capacity = 2\<rparr>)"

lemma blk_handle_sample_wf:
  "blk_handle_wf blk_handle_sample"
  "ring_left (rq_tail (req_queue blk_handle_sample)) (unat (bq_capacity blk_handle_sample)) = \<infinity>"
  by (simp_all add: blk_handle_sample_def blk_handle_wf_def ring_wf_def ring_ok_def ring_divides_def
      ring_left_def Let_def)

theorem blk_request_queue_fifo_witness:
  "case fifo_run enq_req (deq_req zero_req) [Enq zero_req, Enq zero_req, Enq zero_req, Deq] blk_handle_sample of
    (rs, h') \<Rightarrow> blk_handle_wf h'"
  using blk_request_queue_fifo [OF blk_handle_sample_wf(1), of "[Enq zero_req, Enq zero_req, Enq zero_req, Deq]" zero_req]
  by (auto simp: blk_handle_sample_wf(2))

end
