(* ===== verification/BlkVirt.thy ===== *)
theory BlkVirt
  imports BlkQueue
begin

text \<open>
  The block virtualiser \<open>pds/sddf-blk-virt\<close>: requests go from the client queue to the
  driver queue, responses from the driver queue to the client queue. A handler runs with the
  peers stopped, so the four shared queues change only by its own steps; notifications are
  recorded in the order they are sent.
\<close>

record blk_virt_config =
  bvc_magic :: "u8 list"
  bvc_num_clients :: u64
  bvc_partition :: u32
  bvc_driver_id :: u8
  bvc_client_id :: u8
  bvc_num_buffers_driver :: u16
  bvc_num_buffers_client :: u16

definition BLK_VIRT_NUM_CLIENTS :: u64 where "BLK_VIRT_NUM_CLIENTS = 1"
definition BLK_CLIENT_PARTITION :: u32 where "BLK_CLIENT_PARTITION = 0"

record blk_virt =
  bv_driver :: blk_queue_handle_t
  bv_client :: blk_queue_handle_t
  bv_driver_ch :: u8
  bv_client_ch :: u8
  bv_notified :: "u8 list"

definition null_blk_handle :: blk_queue_handle_t where
  "null_blk_handle = \<lparr>req_queue = \<lparr>rq_head = 0, rq_tail = 0, rq_plugged = False, rq_slots = []\<rparr>,
     resp_queue = \<lparr>rp_head = 0, rp_tail = 0, rp_slots = []\<rparr>, bq_capacity = 0\<rparr>"

definition blk_queue_from ::
  "blk_req_queue_t \<Rightarrow> blk_resp_queue_t \<Rightarrow> u16 \<Rightarrow> blk_queue_handle_t" where
  "blk_queue_from request response num_buffers =
     blk_queue_init null_blk_handle request response (ucast num_buffers)"

text \<open>The queues at the addresses of the configuration are arguments; \<open>None\<close> is a failed
  assertion.\<close>

definition blk_virt_init ::
  "blk_virt_config \<Rightarrow> blk_req_queue_t \<times> blk_resp_queue_t \<Rightarrow> blk_req_queue_t \<times> blk_resp_queue_t
     \<Rightarrow> blk_virt option" where
  "blk_virt_init config driver client =
     (if bvc_magic config \<noteq> SDDF_BLK_MAGIC \<or> bvc_num_clients config \<noteq> BLK_VIRT_NUM_CLIENTS
         \<or> bvc_partition config \<noteq> BLK_CLIENT_PARTITION then None
      else Some \<lparr>bv_driver = blk_queue_from (fst driver) (snd driver) (bvc_num_buffers_driver config),
        bv_client = blk_queue_from (fst client) (snd client) (bvc_num_buffers_client config),
        bv_driver_ch = bvc_driver_id config, bv_client_ch = bvc_client_id config,
        bv_notified = []\<rparr>)"

definition blk_req_len :: "blk_queue_handle_t \<Rightarrow> nat" where
  "blk_req_len h = unat (rq_tail (req_queue h) - rq_head (req_queue h))"

definition blk_resp_len :: "blk_queue_handle_t \<Rightarrow> nat" where
  "blk_resp_len h = unat (rp_tail (resp_queue h) - rp_head (resp_queue h))"

lemma blk_dequeue_req_len:
  "blk_dequeue_req h out = (0, r, h') \<Longrightarrow> blk_req_len h' < blk_req_len h"
  using unat_diff_pred [of "rq_tail (req_queue h)" "rq_head (req_queue h)"]
  by (auto simp: blk_dequeue_req_def blk_req_len_def Let_def ring_simps split: if_splits)

lemma blk_dequeue_resp_len:
  "blk_dequeue_resp h out = (0, r, h') \<Longrightarrow> blk_resp_len h' < blk_resp_len h"
  using unat_diff_pred [of "rp_tail (resp_queue h)" "rp_head (resp_queue h)"]
  by (auto simp: blk_dequeue_resp_def blk_resp_len_def Let_def ring_simps split: if_splits)

function forward_requests :: "bool \<Rightarrow> blk_virt \<Rightarrow> bool \<times> blk_virt" where
  "forward_requests moved s =
     (if blk_queue_full_req (bv_driver s) then (moved, s)
      else case blk_dequeue_req (bv_client s) zero_req of (status, r, client) \<Rightarrow>
        let s1 = s\<lparr>bv_client := client\<rparr>
        in if status \<noteq> 0 then (moved, s1)
           else case blk_enqueue_req (bv_driver s1) (req_code r) (req_io_or_offset r)
               (req_block_number r) (req_count r) (req_id r) of (status', driver) \<Rightarrow>
             let s2 = s1\<lparr>bv_driver := driver\<rparr>
             in if status' \<noteq> 0 then (moved, s2)
                else forward_requests True (s2\<lparr>bv_notified := bv_notified s2 @ [bv_driver_ch s2]\<rparr>))"
  by pat_completeness auto

termination forward_requests
  by (relation "measure (\<lambda>(_, s). blk_req_len (bv_client s))") (auto dest!: blk_dequeue_req_len [OF sym])

function forward_responses :: "bool \<Rightarrow> blk_virt \<Rightarrow> bool \<times> blk_virt" where
  "forward_responses moved s =
     (if blk_queue_full_resp (bv_client s) then (moved, s)
      else case blk_dequeue_resp (bv_driver s) zero_resp of (status, r, driver) \<Rightarrow>
        let s1 = s\<lparr>bv_driver := driver\<rparr>
        in if status \<noteq> 0 then (moved, s1)
           else case blk_enqueue_resp (bv_client s1) (resp_status r) (resp_success_count r) (resp_id r)
               of (status', client) \<Rightarrow>
             let s2 = s1\<lparr>bv_client := client\<rparr>
             in if status' \<noteq> 0 then (moved, s2)
                else forward_responses True (s2\<lparr>bv_notified := bv_notified s2 @ [bv_client_ch s2]\<rparr>))"
  by pat_completeness auto

termination forward_responses
  by (relation "measure (\<lambda>(_, s). blk_resp_len (bv_driver s))") (auto dest!: blk_dequeue_resp_len [OF sym])

declare forward_requests.simps [simp del] forward_responses.simps [simp del]

subsection \<open>The pump ends\<close>

lemma blk_enqueue_req_keeps:
  "blk_enqueue_req h c i b n r = (s, h') \<Longrightarrow> blk_resp_len h' = blk_resp_len h"
  using blk_enqueue_req_resp(2) [of h c i b n r] by (simp add: blk_resp_len_def)

lemma blk_dequeue_req_keeps:
  "blk_dequeue_req h out = (s, r, h') \<Longrightarrow> blk_resp_len h' = blk_resp_len h"
  using blk_dequeue_req_resp [of h out] by (simp add: blk_resp_len_def)

lemma blk_enqueue_resp_keeps:
  "blk_enqueue_resp h c n r = (s, h') \<Longrightarrow> blk_req_len h' = blk_req_len h"
  using blk_enqueue_resp_req [of h c n r] by (simp add: blk_req_len_def)

lemma blk_dequeue_resp_keeps:
  "blk_dequeue_resp h out = (s, r, h') \<Longrightarrow> blk_req_len h' = blk_req_len h"
  using blk_dequeue_resp_req [of h out] by (simp add: blk_req_len_def)

definition pump_size :: "blk_virt \<Rightarrow> nat" where
  "pump_size s = blk_req_len (bv_client s) + blk_resp_len (bv_driver s)"

lemma blk_dequeue_req_fail: "blk_dequeue_req h out = (st, r, h') \<Longrightarrow> st \<noteq> 0 \<Longrightarrow> h' = h"
  by (auto simp: blk_dequeue_req_def Let_def split: if_splits)

lemma blk_dequeue_resp_fail: "blk_dequeue_resp h out = (st, r, h') \<Longrightarrow> st \<noteq> 0 \<Longrightarrow> h' = h"
  by (auto simp: blk_dequeue_resp_def Let_def split: if_splits)

lemma forward_requests_size:
  "forward_requests moved s = (m, s') \<Longrightarrow>
    pump_size s' \<le> pump_size s \<and> (m \<longrightarrow> moved \<or> pump_size s' < pump_size s)"
proof (induction "blk_req_len (bv_client s)" arbitrary: moved s rule: less_induct)
  case less
  obtain st r client where d: "blk_dequeue_req (bv_client s) zero_req = (st, r, client)"
    by (cases "blk_dequeue_req (bv_client s) zero_req")
  obtain st' driver where e: "blk_enqueue_req (bv_driver s) (req_code r) (req_io_or_offset r)
      (req_block_number r) (req_count r) (req_id r) = (st', driver)"
    by fastforce
  show ?case
  proof (cases "blk_queue_full_req (bv_driver s) \<or> st \<noteq> 0 \<or> st' \<noteq> 0")
    case True
    then show ?thesis
      using less.prems d e blk_dequeue_req_len [of "bv_client s" zero_req r client]
        blk_dequeue_req_fail [OF d] blk_enqueue_req_keeps [OF e]
      by (auto simp: forward_requests.simps [of moved s] pump_size_def Let_def split: if_splits)
  next
    case False
    let ?s = "s\<lparr>bv_client := client, bv_driver := driver, bv_notified := bv_notified s @ [bv_driver_ch s]\<rparr>"
    have "forward_requests True ?s = (m, s')"
      using False less.prems d e by (simp add: forward_requests.simps [of moved s])
    moreover have "blk_req_len client < blk_req_len (bv_client s)"
      using False d by (auto intro: blk_dequeue_req_len)
    ultimately show ?thesis
      using less.hyps [of ?s True] blk_enqueue_req_keeps [OF e] by (auto simp: pump_size_def)
  qed
qed

lemma forward_responses_size:
  "forward_responses moved s = (m, s') \<Longrightarrow>
    pump_size s' \<le> pump_size s \<and> (m \<longrightarrow> moved \<or> pump_size s' < pump_size s)"
proof (induction "blk_resp_len (bv_driver s)" arbitrary: moved s rule: less_induct)
  case less
  obtain st r driver where d: "blk_dequeue_resp (bv_driver s) zero_resp = (st, r, driver)"
    by (cases "blk_dequeue_resp (bv_driver s) zero_resp")
  obtain st' client where e: "blk_enqueue_resp (bv_client s) (resp_status r) (resp_success_count r)
      (resp_id r) = (st', client)"
    by fastforce
  show ?case
  proof (cases "blk_queue_full_resp (bv_client s) \<or> st \<noteq> 0 \<or> st' \<noteq> 0")
    case True
    then show ?thesis
      using less.prems d e blk_dequeue_resp_len [of "bv_driver s" zero_resp r driver]
        blk_dequeue_resp_fail [OF d] blk_enqueue_resp_keeps [OF e]
      by (auto simp: forward_responses.simps [of moved s] pump_size_def Let_def split: if_splits)
  next
    case False
    let ?s = "s\<lparr>bv_driver := driver, bv_client := client, bv_notified := bv_notified s @ [bv_client_ch s]\<rparr>"
    have "forward_responses True ?s = (m, s')"
      using False less.prems d e by (simp add: forward_responses.simps [of moved s])
    moreover have "blk_resp_len driver < blk_resp_len (bv_driver s)"
      using False d by (auto intro: blk_dequeue_resp_len)
    ultimately show ?thesis
      using less.hyps [of ?s True] blk_enqueue_resp_keeps [OF e] by (auto simp: pump_size_def)
  qed
qed

function pump :: "blk_virt \<Rightarrow> blk_virt" where
  "pump s =
     (case forward_responses False s of (responses, s1) \<Rightarrow>
        case forward_requests False s1 of (requests, s2) \<Rightarrow>
          if \<not> responses \<and> \<not> requests then s2 else pump s2)"
  by pat_completeness auto

termination pump
  by (relation "measure pump_size")
    (auto dest!: forward_responses_size [OF sym] forward_requests_size [OF sym])

declare pump.simps [simp del]

definition blk_virt_notified :: "blk_virt \<Rightarrow> u8 set \<Rightarrow> blk_virt" where
  "blk_virt_notified s channels =
     (if bv_driver_ch s \<in> channels \<or> bv_client_ch s \<in> channels then pump s else s)"

subsection \<open>What the handler moves\<close>

definition blk_virt_ready :: "blk_virt \<Rightarrow> bool" where
  "blk_virt_ready s \<longleftrightarrow> blk_ready (bv_driver s) \<and> blk_ready (bv_client s)"

definition req_room :: "blk_virt \<Rightarrow> nat" where
  "req_room s = unat (bq_capacity (bv_driver s)) - length (req_items (bv_driver s))"

definition resp_room :: "blk_virt \<Rightarrow> nat" where
  "resp_room s = unat (bq_capacity (bv_client s)) - length (resp_items (bv_client s))"

definition req_moves :: "blk_virt \<Rightarrow> nat" where
  "req_moves s = min (length (req_items (bv_client s))) (req_room s)"

definition resp_moves :: "blk_virt \<Rightarrow> nat" where
  "resp_moves s = min (length (resp_items (bv_driver s))) (resp_room s)"

text \<open>\<open>moved_requests k s s'\<close>: the first \<open>k\<close> requests went over and nothing else
  changed but the notifications.\<close>

definition moved_requests :: "nat \<Rightarrow> blk_virt \<Rightarrow> blk_virt \<Rightarrow> bool" where
  "moved_requests k s s' \<longleftrightarrow>
     blk_virt_ready s'
     \<and> req_items (bv_driver s') = req_items (bv_driver s) @ take k (req_items (bv_client s))
     \<and> req_items (bv_client s') = drop k (req_items (bv_client s))
     \<and> resp_queue (bv_driver s') = resp_queue (bv_driver s)
     \<and> resp_queue (bv_client s') = resp_queue (bv_client s)
     \<and> bq_capacity (bv_driver s') = bq_capacity (bv_driver s)
     \<and> bq_capacity (bv_client s') = bq_capacity (bv_client s)
     \<and> bv_driver_ch s' = bv_driver_ch s \<and> bv_client_ch s' = bv_client_ch s
     \<and> bv_notified s' = bv_notified s @ replicate k (bv_driver_ch s)"

definition moved_responses :: "nat \<Rightarrow> blk_virt \<Rightarrow> blk_virt \<Rightarrow> bool" where
  "moved_responses k s s' \<longleftrightarrow>
     blk_virt_ready s'
     \<and> resp_items (bv_client s') = resp_items (bv_client s) @ take k (resp_items (bv_driver s))
     \<and> resp_items (bv_driver s') = drop k (resp_items (bv_driver s))
     \<and> req_queue (bv_driver s') = req_queue (bv_driver s)
     \<and> req_queue (bv_client s') = req_queue (bv_client s)
     \<and> bq_capacity (bv_driver s') = bq_capacity (bv_driver s)
     \<and> bq_capacity (bv_client s') = bq_capacity (bv_client s)
     \<and> bv_driver_ch s' = bv_driver_ch s \<and> bv_client_ch s' = bv_client_ch s
     \<and> bv_notified s' = bv_notified s @ replicate k (bv_client_ch s)"

lemma forward_requests_moves:
  "blk_virt_ready s \<Longrightarrow>
    \<exists>s'. forward_requests moved s = (moved \<or> 0 < req_moves s, s') \<and> moved_requests (req_moves s) s s'"
proof (induction "req_items (bv_client s)" arbitrary: moved s)
  case Nil
  have "blk_dequeue_req (bv_client s) zero_req = (-1, zero_req, bv_client s)"
    using Nil.hyps [symmetric] by (rule blk_dequeue_req_empty)
  then show ?case
    using Nil by (simp add: forward_requests.simps [of moved s] req_moves_def moved_requests_def)
next
  case (Cons r rs)
  have ready: "blk_ready (bv_driver s)" "blk_ready (bv_client s)"
    using Cons.prems by (simp_all add: blk_virt_ready_def)
  show ?case
  proof (cases "blk_queue_full_req (bv_driver s)")
    case True
    then have "req_moves s = 0"
      by (simp add: req_moves_def req_room_def blk_full_req_iff)
    with True Cons.prems show ?thesis
      by (simp add: forward_requests.simps [of moved s] moved_requests_def)
  next
    case False
    then have room: "length (req_items (bv_driver s)) < unat (bq_capacity (bv_driver s))"
      using req_items_bound [OF ready(1)] by (simp add: blk_full_req_iff)
    obtain c where c: "blk_dequeue_req (bv_client s) zero_req = (0, r, c)" "blk_ready c"
      "req_items c = rs" "resp_queue c = resp_queue (bv_client s)"
      "bq_capacity c = bq_capacity (bv_client s)"
      using blk_dequeue_req_first [OF ready(2) Cons.hyps(2) [symmetric]] by blast
    obtain d where d: "blk_enqueue_req (bv_driver s) (req_code r) (req_io_or_offset r)
        (req_block_number r) (req_count r) (req_id r) = (0, d)" "blk_ready d"
      "req_items d = req_items (bv_driver s) @ [r]" "resp_queue d = resp_queue (bv_driver s)"
      "bq_capacity d = bq_capacity (bv_driver s)"
      using blk_enqueue_req_room [OF ready(1) room] by blast
    let ?s = "s\<lparr>bv_client := c, bv_driver := d, bv_notified := bv_notified s @ [bv_driver_ch s]\<rparr>"
    have step: "forward_requests moved s = forward_requests True ?s"
      using False c(1) d(1) by (simp add: forward_requests.simps [of moved s])
    have k: "req_moves s = Suc (req_moves ?s)"
      using room c(3) d(3,5) Cons.hyps(2) [symmetric] by (simp add: req_moves_def req_room_def)
    obtain s' where s': "forward_requests True ?s = (True, s')" "moved_requests (req_moves ?s) ?s s'"
      using Cons.hyps(1) [of ?s True] c(2,3) d(2) by (auto simp: blk_virt_ready_def)
    have "moved_requests (req_moves s) s s'"
      using s'(2) c(3-5) d(3-5) Cons.hyps(2) [symmetric] by (simp add: moved_requests_def k)
    then show ?thesis
      using step s'(1) k by simp
  qed
qed

lemma forward_responses_moves:
  "blk_virt_ready s \<Longrightarrow>
    \<exists>s'. forward_responses moved s = (moved \<or> 0 < resp_moves s, s') \<and> moved_responses (resp_moves s) s s'"
proof (induction "resp_items (bv_driver s)" arbitrary: moved s)
  case Nil
  have "blk_dequeue_resp (bv_driver s) zero_resp = (-1, zero_resp, bv_driver s)"
    using Nil.hyps [symmetric] by (rule blk_dequeue_resp_empty)
  then show ?case
    using Nil by (simp add: forward_responses.simps [of moved s] resp_moves_def moved_responses_def)
next
  case (Cons r rs)
  have ready: "blk_ready (bv_driver s)" "blk_ready (bv_client s)"
    using Cons.prems by (simp_all add: blk_virt_ready_def)
  show ?case
  proof (cases "blk_queue_full_resp (bv_client s)")
    case True
    then have "resp_moves s = 0"
      by (simp add: resp_moves_def resp_room_def blk_full_resp_iff)
    with True Cons.prems show ?thesis
      by (simp add: forward_responses.simps [of moved s] moved_responses_def)
  next
    case False
    then have room: "length (resp_items (bv_client s)) < unat (bq_capacity (bv_client s))"
      using resp_items_bound [OF ready(2)] by (simp add: blk_full_resp_iff)
    obtain d where d: "blk_dequeue_resp (bv_driver s) zero_resp = (0, r, d)" "blk_ready d"
      "resp_items d = rs" "req_queue d = req_queue (bv_driver s)"
      "bq_capacity d = bq_capacity (bv_driver s)"
      using blk_dequeue_resp_first [OF ready(1) Cons.hyps(2) [symmetric]] by blast
    obtain c where c: "blk_enqueue_resp (bv_client s) (resp_status r) (resp_success_count r)
        (resp_id r) = (0, c)" "blk_ready c"
      "resp_items c = resp_items (bv_client s) @ [r]" "req_queue c = req_queue (bv_client s)"
      "bq_capacity c = bq_capacity (bv_client s)"
      using blk_enqueue_resp_room [OF ready(2) room] by blast
    let ?s = "s\<lparr>bv_driver := d, bv_client := c, bv_notified := bv_notified s @ [bv_client_ch s]\<rparr>"
    have step: "forward_responses moved s = forward_responses True ?s"
      using False c(1) d(1) by (simp add: forward_responses.simps [of moved s])
    have k: "resp_moves s = Suc (resp_moves ?s)"
      using room d(3) c(3,5) Cons.hyps(2) [symmetric] by (simp add: resp_moves_def resp_room_def)
    obtain s' where s': "forward_responses True ?s = (True, s')" "moved_responses (resp_moves ?s) ?s s'"
      using Cons.hyps(1) [of ?s True] d(2,3) c(2) by (auto simp: blk_virt_ready_def)
    have "moved_responses (resp_moves s) s s'"
      using s'(2) d(3-5) c(3-5) Cons.hyps(2) [symmetric] by (simp add: moved_responses_def k)
    then show ?thesis
      using step s'(1) k by simp
  qed
qed

text \<open>One pass moves everything that can move, so the second pass moves nothing.\<close>

lemma req_items_cong:
  "req_queue h' = req_queue h \<Longrightarrow> bq_capacity h' = bq_capacity h \<Longrightarrow> req_items h' = req_items h"
  by (simp add: req_items_def)

lemma resp_items_cong:
  "resp_queue h' = resp_queue h \<Longrightarrow> bq_capacity h' = bq_capacity h \<Longrightarrow> resp_items h' = resp_items h"
  by (simp add: resp_items_def)

lemma moved_requests_frame:
  assumes "moved_requests k s s'"
  shows "resp_items (bv_client s') = resp_items (bv_client s)"
    and "resp_items (bv_driver s') = resp_items (bv_driver s)"
    and "resp_moves s' = resp_moves s"
proof -
  show "resp_items (bv_client s') = resp_items (bv_client s)"
    and "resp_items (bv_driver s') = resp_items (bv_driver s)"
    using assms by (auto simp: moved_requests_def intro: resp_items_cong)
  then show "resp_moves s' = resp_moves s"
    using assms by (simp add: resp_moves_def resp_room_def moved_requests_def)
qed

lemma moved_responses_frame:
  assumes "moved_responses k s s'"
  shows "req_items (bv_client s') = req_items (bv_client s)"
    and "req_items (bv_driver s') = req_items (bv_driver s)"
    and "req_moves s' = req_moves s"
proof -
  show "req_items (bv_client s') = req_items (bv_client s)"
    and "req_items (bv_driver s') = req_items (bv_driver s)"
    using assms by (auto simp: moved_responses_def intro: req_items_cong)
  then show "req_moves s' = req_moves s"
    using assms by (simp add: req_moves_def req_room_def moved_responses_def)
qed

lemma moved_requests_all: "moved_requests (req_moves s) s s' \<Longrightarrow> req_moves s' = 0"
  by (auto simp: moved_requests_def req_moves_def req_room_def min_def)

lemma moved_responses_all: "moved_responses (resp_moves s) s s' \<Longrightarrow> resp_moves s' = 0"
  by (auto simp: moved_responses_def resp_moves_def resp_room_def min_def)

definition pumped :: "blk_virt \<Rightarrow> blk_virt \<Rightarrow> bool" where
  "pumped s s' \<longleftrightarrow>
     (\<exists>s1. moved_responses (resp_moves s) s s1 \<and> moved_requests (req_moves s) s1 s')"

lemma req_moves_0_iff:
  "blk_virt_ready s \<Longrightarrow>
    req_moves s = 0 \<longleftrightarrow> req_items (bv_client s) = [] \<or> blk_queue_full_req (bv_driver s)"
  using req_items_bound [of "bv_driver s"]
  by (auto simp: req_moves_def req_room_def blk_full_req_iff blk_virt_ready_def min_def)

lemma resp_moves_0_iff:
  "blk_virt_ready s \<Longrightarrow>
    resp_moves s = 0 \<longleftrightarrow> resp_items (bv_driver s) = [] \<or> blk_queue_full_resp (bv_client s)"
  using resp_items_bound [of "bv_client s"]
  by (auto simp: resp_moves_def resp_room_def blk_full_resp_iff blk_virt_ready_def min_def)

lemma forward_idle:
  assumes "blk_virt_ready s" and "req_moves s = 0" and "resp_moves s = 0"
  shows "forward_requests False s = (False, s)" and "forward_responses False s = (False, s)"
  using assms blk_dequeue_req_empty [of "bv_client s" zero_req]
    blk_dequeue_resp_empty [of "bv_driver s" zero_resp]
  by (auto simp: req_moves_0_iff resp_moves_0_iff forward_requests.simps [of False s]
      forward_responses.simps [of False s])

lemma pump_moves:
  assumes "blk_virt_ready s"
  shows "pumped s (pump s)" and "req_moves (pump s) = 0" and "resp_moves (pump s) = 0"
proof -
  obtain s1 where r: "forward_responses False s = (0 < resp_moves s, s1)"
    "moved_responses (resp_moves s) s s1"
    using forward_responses_moves [OF assms, of False] by auto
  have "blk_virt_ready s1" and eq: "req_moves s1 = req_moves s"
    using r(2) moved_responses_frame(3) by (auto simp: moved_responses_def)
  then obtain s2 where q: "forward_requests False s1 = (0 < req_moves s, s2)"
    "moved_requests (req_moves s) s1 s2"
    using forward_requests_moves [of s1 False] by auto
  have zero: "req_moves s2 = 0" "resp_moves s2 = 0"
    using q(2) eq moved_requests_all [of s1 s2] moved_requests_frame(3) [OF q(2)]
      moved_responses_all [OF r(2)] by simp_all
  have "blk_virt_ready s2"
    using q(2) by (simp add: moved_requests_def)
  then have "pump s2 = s2"
    using forward_idle [OF _ zero] by (simp add: pump.simps [of s2])
  then have "pump s = s2"
    using r(1) q(1) by (simp add: pump.simps [of s])
  then show "pumped s (pump s)" and "req_moves (pump s) = 0" and "resp_moves (pump s) = 0"
    using r(2) q(2) zero by (auto simp: pumped_def)
qed

subsection \<open>Properties\<close>

text \<open>C1: The handler of the block virtualiser loses, duplicates and reorders nothing. As many
  requests as the driver queue has room for go over in order, likewise the responses to the
  client; the rest stays queued; each moved message is followed by one notification of its
  receiver.\<close>

theorem blk_virt_moves_in_order:
  assumes "blk_virt_ready s" and "bv_driver_ch s \<in> channels \<or> bv_client_ch s \<in> channels"
  defines "s' \<equiv> blk_virt_notified s channels"
  shows "blk_virt_ready s'
    \<and> req_items (bv_driver s') = req_items (bv_driver s) @ take (req_moves s) (req_items (bv_client s))
    \<and> req_items (bv_client s') = drop (req_moves s) (req_items (bv_client s))
    \<and> resp_items (bv_client s') = resp_items (bv_client s) @ take (resp_moves s) (resp_items (bv_driver s))
    \<and> resp_items (bv_driver s') = drop (resp_moves s) (resp_items (bv_driver s))
    \<and> bv_notified s' = bv_notified s @ replicate (resp_moves s) (bv_client_ch s)
        @ replicate (req_moves s) (bv_driver_ch s)"
proof -
  have s': "s' = pump s"
    using assms(2) by (simp add: s'_def blk_virt_notified_def)
  obtain s1 where s1: "moved_responses (resp_moves s) s s1" "moved_requests (req_moves s) s1 s'"
    using pump_moves(1) [OF assms(1)] by (auto simp: pumped_def s')
  show ?thesis
    using s1(2) moved_responses_frame [OF s1(1)] moved_requests_frame [OF s1(2)] s1(1)
    by (simp add: moved_requests_def moved_responses_def)
qed

text \<open>A virtualiser with two requests waiting in front of a driver queue with one free slot.\<close>

definition blk_virt_sample :: blk_virt where
  "blk_virt_sample =
     \<lparr>bv_driver = \<lparr>req_queue = \<lparr>rq_head = 0, rq_tail = 1, rq_plugged = False,
          rq_slots = [zero_req, zero_req]\<rparr>,
        resp_queue = \<lparr>rp_head = 0xffffffff, rp_tail = 0, rp_slots = [zero_resp, zero_resp]\<rparr>,
        bq_capacity = 2\<rparr>,
      bv_client = \<lparr>req_queue = \<lparr>rq_head = 0xffffffff, rq_tail = 1, rq_plugged = False,
          rq_slots = [zero_req\<lparr>req_id := 7\<rparr>, zero_req\<lparr>req_id := 8\<rparr>]\<rparr>,
        resp_queue = \<lparr>rp_head = 5, rp_tail = 5, rp_slots = [zero_resp, zero_resp]\<rparr>,
        bq_capacity = 2\<rparr>,
      bv_driver_ch = 0, bv_client_ch = 1, bv_notified = []\<rparr>"

lemma blk_virt_sample_ready: "blk_virt_ready blk_virt_sample"
  by (simp add: blk_virt_sample_def blk_virt_ready_def blk_ready_def blk_handle_wf_def ring_wf_def
      ring_ok_def ring_divides_def)

lemma blk_virt_sample_moves:
  "req_moves blk_virt_sample = 1" "resp_moves blk_virt_sample = 1"
  "bv_driver_ch blk_virt_sample = 0" "bv_client_ch blk_virt_sample = 1" "bv_notified blk_virt_sample = []"
  by (simp_all add: blk_virt_sample_def req_moves_def resp_moves_def req_room_def resp_room_def
      req_items_def resp_items_def)

theorem blk_virt_moves_in_order_witness:
  "bv_notified (blk_virt_notified blk_virt_sample {0}) = [1, 0]
    \<and> req_items (bv_client (blk_virt_notified blk_virt_sample {0})) = drop 1 (req_items (bv_client blk_virt_sample))"
  using blk_virt_moves_in_order [OF blk_virt_sample_ready, of "{0}"] by (simp add: blk_virt_sample_moves)

end
