(* ===== verification/NetQueue.thy ===== *)
theory NetQueue
  imports RingQueue
begin

text \<open>
  Network buffer descriptors and the free and active queues of a connection:
  \<open>lerux-sddf/src/net.rs\<close> and \<open>lerux-sddf/src/net_queue.rs\<close>. The counters have 16
  bits and the capacity has 32; the slot is \<open>tail % capacity\<close> in 32 bits. A handle keeps
  its two shared queues. The fences and memory orders of the source are not part of the model:
  an operation is one atomic step here.

  The queues are first-in first-out for ever when the capacity divides 65536 and up to the
  first wrap of the counter otherwise (\<open>ring_left\<close>).
\<close>

definition NET_BUFFER_SIZE :: u32 where
  "NET_BUFFER_SIZE = 2048"

definition SDDF_NET_MAGIC_LEN :: nat where
  "SDDF_NET_MAGIC_LEN = 5"

definition SDDF_NET_MAGIC :: "u8 list" where
  "SDDF_NET_MAGIC = [0x73, 0x44, 0x44, 0x46, 0x05]"

record net_buff_desc_t =
  nb_io_or_offset :: u64
  nb_len :: u16
  nb_oid :: u8

definition net_buff_desc_new :: "u64 \<Rightarrow> u16 \<Rightarrow> u8 \<Rightarrow> net_buff_desc_t" where
  "net_buff_desc_new io_or_offset len oid =
     \<lparr>nb_io_or_offset = io_or_offset, nb_len = len, nb_oid = oid AND 0x3f\<rparr>"

definition net_buff_desc_oid :: "net_buff_desc_t \<Rightarrow> u8" where
  "net_buff_desc_oid d = nb_oid d AND 0x3f"

definition net_buff_desc_set_oid :: "net_buff_desc_t \<Rightarrow> u8 \<Rightarrow> net_buff_desc_t" where
  "net_buff_desc_set_oid d oid = d\<lparr>nb_oid := oid AND 0x3f\<rparr>"

record net_queue_t =
  nq_tail :: u16
  nq_head :: u16
  nq_consumer_signalled :: u32
  nq_slots :: "net_buff_desc_t list"

record net_queue_handle_t =
  nq_free :: net_queue_t
  nq_active :: net_queue_t
  nq_capacity :: u32

definition net_config_check_magic :: "u8 list \<Rightarrow> bool" where
  "net_config_check_magic config \<longleftrightarrow>
     SDDF_NET_MAGIC_LEN \<le> length config \<and> take SDDF_NET_MAGIC_LEN config = SDDF_NET_MAGIC"

subsection \<open>Operations\<close>

definition net_length :: "u16 \<Rightarrow> u16 \<Rightarrow> u16" where
  "net_length tail head = ring_len tail head"

text \<open>The two \<open>debug_assert\<close>s of the initialisation are not compiled into a release build;
  the well-formedness predicate below records them.\<close>

definition net_queue_init ::
  "net_queue_handle_t \<Rightarrow> net_queue_t \<Rightarrow> net_queue_t \<Rightarrow> u32 \<Rightarrow> net_queue_handle_t" where
  "net_queue_init queue free active capacity =
     queue\<lparr>nq_free := free, nq_active := active, nq_capacity := capacity\<rparr>"

definition net_queue_length :: "net_queue_t \<Rightarrow> u16" where
  "net_queue_length queue = (let tail = nq_tail queue; head = nq_head queue in net_length tail head)"

definition net_queue_empty_free :: "net_queue_handle_t \<Rightarrow> bool" where
  "net_queue_empty_free queue =
     (let tail = nq_tail (nq_free queue); head = nq_head (nq_free queue)
      in ring_is_empty tail head)"

definition net_queue_empty_active :: "net_queue_handle_t \<Rightarrow> bool" where
  "net_queue_empty_active queue =
     (let tail = nq_tail (nq_active queue); head = nq_head (nq_active queue)
      in ring_is_empty tail head)"

definition net_queue_full_free :: "net_queue_handle_t \<Rightarrow> bool" where
  "net_queue_full_free queue =
     (let tail = nq_tail (nq_free queue); head = nq_head (nq_free queue)
      in (ucast (net_length tail head) :: u32) = nq_capacity queue)"

definition net_queue_full_active :: "net_queue_handle_t \<Rightarrow> bool" where
  "net_queue_full_active queue =
     (let tail = nq_tail (nq_active queue); head = nq_head (nq_active queue)
      in (ucast (net_length tail head) :: u32) = nq_capacity queue)"

definition net_enqueue :: "net_queue_t \<Rightarrow> u32 \<Rightarrow> net_buff_desc_t \<Rightarrow> bool \<Rightarrow> int \<times> net_queue_t" where
  "net_enqueue queue capacity buffer full =
     (if full then (-1, queue)
      else
        let tail = nq_tail queue;
          index = ring_index (ucast tail :: u32) capacity;
          slots = (nq_slots queue)[unat index := buffer]
        in (0, queue\<lparr>nq_slots := slots, nq_tail := ring_advance tail\<rparr>))"

definition net_dequeue ::
  "net_queue_t \<Rightarrow> u32 \<Rightarrow> net_buff_desc_t \<Rightarrow> bool \<Rightarrow> int \<times> net_buff_desc_t \<times> net_queue_t" where
  "net_dequeue queue capacity buffer emp =
     (if emp then (-1, buffer, queue)
      else
        let head = nq_head queue;
          index = ring_index (ucast head :: u32) capacity
        in (0, nq_slots queue ! unat index, queue\<lparr>nq_head := ring_advance head\<rparr>))"

definition net_enqueue_free :: "net_queue_handle_t \<Rightarrow> net_buff_desc_t \<Rightarrow> int \<times> net_queue_handle_t" where
  "net_enqueue_free queue buffer =
     (case net_enqueue (nq_free queue) (nq_capacity queue) buffer (net_queue_full_free queue) of
        (status, q) \<Rightarrow> (status, queue\<lparr>nq_free := q\<rparr>))"

definition net_enqueue_active :: "net_queue_handle_t \<Rightarrow> net_buff_desc_t \<Rightarrow> int \<times> net_queue_handle_t" where
  "net_enqueue_active queue buffer =
     (case net_enqueue (nq_active queue) (nq_capacity queue) buffer (net_queue_full_active queue) of
        (status, q) \<Rightarrow> (status, queue\<lparr>nq_active := q\<rparr>))"

definition net_dequeue_free ::
  "net_queue_handle_t \<Rightarrow> net_buff_desc_t \<Rightarrow> int \<times> net_buff_desc_t \<times> net_queue_handle_t" where
  "net_dequeue_free queue buffer =
     (case net_dequeue (nq_free queue) (nq_capacity queue) buffer (net_queue_empty_free queue) of
        (status, b, q) \<Rightarrow> (status, b, queue\<lparr>nq_free := q\<rparr>))"

definition net_dequeue_active ::
  "net_queue_handle_t \<Rightarrow> net_buff_desc_t \<Rightarrow> int \<times> net_buff_desc_t \<times> net_queue_handle_t" where
  "net_dequeue_active queue buffer =
     (case net_dequeue (nq_active queue) (nq_capacity queue) buffer (net_queue_empty_active queue) of
        (status, b, q) \<Rightarrow> (status, b, queue\<lparr>nq_active := q\<rparr>))"

text \<open>The buffer of each iteration and the loop over \<open>0..capacity\<close>; the status of an
  enqueue is only looked at by a \<open>debug_assert\<close>.\<close>

definition net_buffer :: "u64 \<Rightarrow> nat \<Rightarrow> net_buff_desc_t" where
  "net_buffer base_addr index =
     net_buff_desc_new (ucast NET_BUFFER_SIZE * of_nat index + base_addr) 0 0"

definition net_buffers_init :: "net_queue_handle_t \<Rightarrow> u64 \<Rightarrow> net_queue_handle_t" where
  "net_buffers_init queue base_addr =
     fold (\<lambda>index q. snd (net_enqueue_free q (net_buffer base_addr index)))
       [0..<unat (nq_capacity queue)] queue"

definition net_request_signal :: "net_queue_t \<Rightarrow> net_queue_t" where
  "net_request_signal queue = queue\<lparr>nq_consumer_signalled := 0\<rparr>"

definition net_cancel_signal :: "net_queue_t \<Rightarrow> net_queue_t" where
  "net_cancel_signal queue = queue\<lparr>nq_consumer_signalled := 1\<rparr>"

definition net_require_signal :: "net_queue_t \<Rightarrow> bool" where
  "net_require_signal queue \<longleftrightarrow> nq_consumer_signalled queue = 0"

definition net_request_signal_free :: "net_queue_handle_t \<Rightarrow> net_queue_handle_t" where
  "net_request_signal_free queue = queue\<lparr>nq_free := net_request_signal (nq_free queue)\<rparr>"

definition net_request_signal_active :: "net_queue_handle_t \<Rightarrow> net_queue_handle_t" where
  "net_request_signal_active queue = queue\<lparr>nq_active := net_request_signal (nq_active queue)\<rparr>"

definition net_cancel_signal_free :: "net_queue_handle_t \<Rightarrow> net_queue_handle_t" where
  "net_cancel_signal_free queue = queue\<lparr>nq_free := net_cancel_signal (nq_free queue)\<rparr>"

definition net_cancel_signal_active :: "net_queue_handle_t \<Rightarrow> net_queue_handle_t" where
  "net_cancel_signal_active queue = queue\<lparr>nq_active := net_cancel_signal (nq_active queue)\<rparr>"

definition net_require_signal_free :: "net_queue_handle_t \<Rightarrow> bool" where
  "net_require_signal_free queue = net_require_signal (nq_free queue)"

definition net_require_signal_active :: "net_queue_handle_t \<Rightarrow> bool" where
  "net_require_signal_active queue = net_require_signal (nq_active queue)"

lemmas net_queue_defs [queue_defs] =
  net_queue_empty_free_def net_queue_empty_active_def net_queue_full_free_def
  net_queue_full_active_def net_enqueue_def net_dequeue_def net_enqueue_free_def
  net_enqueue_active_def net_dequeue_free_def net_dequeue_active_def net_length_def

lemmas net_signal_defs =
  net_request_signal_def net_cancel_signal_def net_require_signal_def net_request_signal_free_def
  net_request_signal_active_def net_cancel_signal_free_def net_cancel_signal_active_def
  net_require_signal_free_def net_require_signal_active_def

subsection \<open>Both queues are first-in first-out\<close>

definition net_items :: "u32 \<Rightarrow> net_queue_t \<Rightarrow> net_buff_desc_t list" where
  "net_items capacity q = ring_items (nq_head q) (nq_tail q) (unat capacity) (nq_slots q)"

definition net_queue_wf :: "u32 \<Rightarrow> net_queue_t \<Rightarrow> bool" where
  "net_queue_wf capacity q \<longleftrightarrow> ring_wf (nq_head q) (nq_tail q) (unat capacity) (nq_slots q)"

definition net_handle_wf :: "net_queue_handle_t \<Rightarrow> bool" where
  "net_handle_wf h \<longleftrightarrow> net_queue_wf (nq_capacity h) (nq_free h) \<and> net_queue_wf (nq_capacity h) (nq_active h)"

definition enq_free :: "net_buff_desc_t \<Rightarrow> net_queue_handle_t \<Rightarrow> bool \<times> net_queue_handle_t" where
  "enq_free b h = ok_code (net_enqueue_free h b)"

definition enq_active :: "net_buff_desc_t \<Rightarrow> net_queue_handle_t \<Rightarrow> bool \<times> net_queue_handle_t" where
  "enq_active b h = ok_code (net_enqueue_active h b)"

definition deq_free ::
  "net_buff_desc_t \<Rightarrow> net_queue_handle_t \<Rightarrow> net_buff_desc_t option \<times> net_queue_handle_t" where
  "deq_free out h = opt_code (net_dequeue_free h out)"

definition deq_active ::
  "net_buff_desc_t \<Rightarrow> net_queue_handle_t \<Rightarrow> net_buff_desc_t option \<times> net_queue_handle_t" where
  "deq_active out h = opt_code (net_dequeue_active h out)"

lemma ucast_16_32_slot:
  "unat (ring_index (ucast (c :: u16) :: u32) capacity) = ring_slot c (unat capacity)"
  by (simp add: ring_index_def ring_slot_def unat_mod unat_ucast_up)

lemma ucast_16_32_eq: "((ucast (n :: u16) :: u32) = capacity) = (unat n = unat capacity)"
proof -
  have "unat (ucast n :: u32) = unat n"
    by (simp add: unat_ucast_up)
  then show ?thesis
    by (metis unsigned_word_eqI)
qed

interpretation nfree: ring_queue
  "\<lambda>h. net_queue_wf (nq_capacity h) (nq_active h)"
  "\<lambda>h. nq_head (nq_free h)" "\<lambda>h. nq_tail (nq_free h)" "\<lambda>h. unat (nq_capacity h)"
  "\<lambda>h. nq_slots (nq_free h)" enq_free "deq_free out" for out
  by unfold_locales
    (auto simp: enq_free_def deq_free_def queue_defs ucast_16_32_slot ucast_16_32_eq Let_def
      ring_is_empty_def ring_len_def ring_advance_def)

interpretation nactive: ring_queue
  "\<lambda>h. net_queue_wf (nq_capacity h) (nq_free h)"
  "\<lambda>h. nq_head (nq_active h)" "\<lambda>h. nq_tail (nq_active h)" "\<lambda>h. unat (nq_capacity h)"
  "\<lambda>h. nq_slots (nq_active h)" enq_active "deq_active out" for out
  by unfold_locales
    (auto simp: enq_active_def deq_active_def queue_defs ucast_16_32_slot ucast_16_32_eq Let_def
      ring_is_empty_def ring_len_def ring_advance_def)

subsection \<open>The operations on a handle whose capacity divides the range of the counters\<close>

definition free_items :: "net_queue_handle_t \<Rightarrow> net_buff_desc_t list" where
  "free_items h = net_items (nq_capacity h) (nq_free h)"

definition active_items :: "net_queue_handle_t \<Rightarrow> net_buff_desc_t list" where
  "active_items h = net_items (nq_capacity h) (nq_active h)"

definition net_ready :: "net_queue_handle_t \<Rightarrow> bool" where
  "net_ready h \<longleftrightarrow> net_handle_wf h \<and> (2 :: nat) ^ 16 mod unat (nq_capacity h) = 0"

lemmas net_item_defs = free_items_def active_items_def net_items_def
lemmas net_ready_defs = net_ready_def net_handle_wf_def net_queue_wf_def

lemma net_ready_left:
  assumes "net_ready h"
  shows "ring_left (nq_tail (nq_free h)) (unat (nq_capacity h)) = \<infinity>"
    and "ring_left (nq_tail (nq_active h)) (unat (nq_capacity h)) = \<infinity>"
  using assms by (simp_all add: net_ready_def ring_left_def ring_divides_def)

lemma net_items_bound:
  assumes "net_ready h"
  shows "length (free_items h) \<le> unat (nq_capacity h)"
    and "length (active_items h) \<le> unat (nq_capacity h)"
  using assms by (simp_all add: net_ready_defs net_item_defs ring_wf_def ring_ok_def)

lemma net_empty_full_iff:
  shows "net_queue_empty_free h \<longleftrightarrow> free_items h = []"
    and "net_queue_empty_active h \<longleftrightarrow> active_items h = []"
    and "net_queue_full_free h \<longleftrightarrow> length (free_items h) = unat (nq_capacity h)"
    and "net_queue_full_active h \<longleftrightarrow> length (active_items h) = unat (nq_capacity h)"
  by (simp_all add: net_queue_defs net_item_defs ring_items_Nil_iff ring_is_empty_def ring_len_def
      Let_def ucast_16_32_eq)

lemma net_enqueue_free_room:
  assumes ready: "net_ready h" and room: "length (free_items h) < unat (nq_capacity h)"
  shows "\<exists>h'. net_enqueue_free h b = (0, h') \<and> net_ready h' \<and> free_items h' = free_items h @ [b]
    \<and> nq_active h' = nq_active h \<and> nq_capacity h' = nq_capacity h
    \<and> nq_consumer_signalled (nq_free h') = nq_consumer_signalled (nq_free h)"
proof -
  obtain st h' where e: "net_enqueue_free h b = (st, h')"
    by fastforce
  then have "nq_active h' = nq_active h" "nq_capacity h' = nq_capacity h"
    "nq_consumer_signalled (nq_free h') = nq_consumer_signalled (nq_free h)"
    by (auto simp: net_enqueue_free_def net_enqueue_def Let_def split: if_splits prod.splits)
  then show ?thesis
    using nfree.enq_append [of h b] ready room e net_ready_left [OF ready]
    by (auto simp: enq_free_def net_ready_defs net_item_defs)
qed

lemma net_enqueue_active_room:
  assumes ready: "net_ready h" and room: "length (active_items h) < unat (nq_capacity h)"
  shows "\<exists>h'. net_enqueue_active h b = (0, h') \<and> net_ready h' \<and> active_items h' = active_items h @ [b]
    \<and> nq_free h' = nq_free h \<and> nq_capacity h' = nq_capacity h
    \<and> nq_consumer_signalled (nq_active h') = nq_consumer_signalled (nq_active h)"
proof -
  obtain st h' where e: "net_enqueue_active h b = (st, h')"
    by fastforce
  then have "nq_free h' = nq_free h" "nq_capacity h' = nq_capacity h"
    "nq_consumer_signalled (nq_active h') = nq_consumer_signalled (nq_active h)"
    by (auto simp: net_enqueue_active_def net_enqueue_def Let_def split: if_splits prod.splits)
  then show ?thesis
    using nactive.enq_append [of h b] ready room e net_ready_left [OF ready]
    by (auto simp: enq_active_def net_ready_defs net_item_defs)
qed

lemma net_dequeue_free_first:
  assumes ready: "net_ready h" and items: "free_items h = b # bs"
  shows "\<exists>h'. net_dequeue_free h out = (0, b, h') \<and> net_ready h' \<and> free_items h' = bs
    \<and> nq_active h' = nq_active h \<and> nq_capacity h' = nq_capacity h
    \<and> nq_consumer_signalled (nq_free h') = nq_consumer_signalled (nq_free h)"
proof -
  obtain st b' h' where e: "net_dequeue_free h out = (st, b', h')"
    by (cases "net_dequeue_free h out")
  then have "nq_active h' = nq_active h" "nq_capacity h' = nq_capacity h"
    "nq_consumer_signalled (nq_free h') = nq_consumer_signalled (nq_free h)"
    by (auto simp: net_dequeue_free_def net_dequeue_def Let_def split: if_splits prod.splits)
  then show ?thesis
    using nfree.deq_first [of h b bs out] ready items e
    by (auto simp: deq_free_def net_ready_defs net_item_defs split: if_splits)
qed

lemma net_dequeue_active_first:
  assumes ready: "net_ready h" and items: "active_items h = b # bs"
  shows "\<exists>h'. net_dequeue_active h out = (0, b, h') \<and> net_ready h' \<and> active_items h' = bs
    \<and> nq_free h' = nq_free h \<and> nq_capacity h' = nq_capacity h
    \<and> nq_consumer_signalled (nq_active h') = nq_consumer_signalled (nq_active h)"
proof -
  obtain st b' h' where e: "net_dequeue_active h out = (st, b', h')"
    by (cases "net_dequeue_active h out")
  then have "nq_free h' = nq_free h" "nq_capacity h' = nq_capacity h"
    "nq_consumer_signalled (nq_active h') = nq_consumer_signalled (nq_active h)"
    by (auto simp: net_dequeue_active_def net_dequeue_def Let_def split: if_splits prod.splits)
  then show ?thesis
    using nactive.deq_first [of h b bs out] ready items e
    by (auto simp: deq_active_def net_ready_defs net_item_defs split: if_splits)
qed

text \<open>Signals change neither queue.\<close>

lemma net_signal_items [simp]:
  "free_items (net_request_signal_free h) = free_items h"
  "free_items (net_request_signal_active h) = free_items h"
  "free_items (net_cancel_signal_free h) = free_items h"
  "free_items (net_cancel_signal_active h) = free_items h"
  "active_items (net_request_signal_free h) = active_items h"
  "active_items (net_request_signal_active h) = active_items h"
  "active_items (net_cancel_signal_free h) = active_items h"
  "active_items (net_cancel_signal_active h) = active_items h"
  by (simp_all add: net_item_defs net_signal_defs)

lemma net_signal_ready [simp]:
  "net_ready (net_request_signal_free h) = net_ready h"
  "net_ready (net_request_signal_active h) = net_ready h"
  "net_ready (net_cancel_signal_free h) = net_ready h"
  "net_ready (net_cancel_signal_active h) = net_ready h"
  by (simp_all add: net_ready_defs net_signal_defs)

lemma net_signal_capacity [simp]:
  "nq_capacity (net_request_signal_free h) = nq_capacity h"
  "nq_capacity (net_request_signal_active h) = nq_capacity h"
  "nq_capacity (net_cancel_signal_free h) = nq_capacity h"
  "nq_capacity (net_cancel_signal_active h) = nq_capacity h"
  by (simp_all add: net_signal_defs)

subsection \<open>Filling the free queue\<close>

lemma net_buffers_init_upto:
  assumes "net_ready h" and "free_items h = []" and "n \<le> unat (nq_capacity h)"
  shows "\<exists>h'. fold (\<lambda>i q. snd (net_enqueue_free q (net_buffer base i))) [0..<n] h = h'
    \<and> net_ready h' \<and> free_items h' = map (net_buffer base) [0..<n]
    \<and> nq_active h' = nq_active h \<and> nq_capacity h' = nq_capacity h"
  using assms(3)
proof (induction n)
  case 0
  then show ?case using assms by simp
next
  case (Suc n)
  then obtain h' where h': "fold (\<lambda>i q. snd (net_enqueue_free q (net_buffer base i))) [0..<n] h = h'"
    "net_ready h'" "free_items h' = map (net_buffer base) [0..<n]" "nq_active h' = nq_active h"
    "nq_capacity h' = nq_capacity h"
    by auto
  then show ?case
    using net_enqueue_free_room [of h' "net_buffer base n"] Suc.prems by auto
qed

subsection \<open>Properties\<close>

text \<open>Any sequence of enqueues and dequeues on the active queue of a connection behaves as a
  list bounded by the capacity, keeps the handle well formed, and returns the descriptors in the
  order in which they were accepted.\<close>

theorem net_active_queue_fifo:
  assumes "net_handle_wf h"
    and "enat (length ops) \<le> ring_left (nq_tail (nq_active h)) (unat (nq_capacity h))"
  shows "case fifo_run enq_active (deq_active out) ops h of (rs, h') \<Rightarrow>
    net_handle_wf h' \<and> spec_run (unat (nq_capacity h)) ops (active_items h) = (rs, active_items h')
    \<and> active_items h @ accepted ops rs = returned rs @ active_items h'"
proof -
  obtain rs h' where run: "fifo_run enq_active (deq_active out) ops h = (rs, h')"
    by fastforce
  then have "net_handle_wf h'
      \<and> spec_run (unat (nq_capacity h)) ops (active_items h) = (rs, active_items h')"
    using nactive.fifo.run_refines [of h ops out rs h'] assms
    by (auto simp: net_handle_wf_def net_queue_wf_def net_item_defs)
  then show ?thesis
    using run spec_run_fifo by auto
qed

text \<open>\<open>net_buffers_init\<close> on an empty free queue fills it: one descriptor per buffer, the
  i-th at offset \<open>2048 * i\<close> from the base, so the queue is full afterwards and the active
  queue is untouched.\<close>

theorem net_buffers_init_fills:
  assumes "net_ready h" and "free_items h = []"
  shows "net_ready (net_buffers_init h base) \<and> net_queue_full_free (net_buffers_init h base)
    \<and> free_items (net_buffers_init h base) = map (net_buffer base) [0..<unat (nq_capacity h)]
    \<and> nq_active (net_buffers_init h base) = nq_active h"
  using net_buffers_init_upto [OF assms order_refl, of base]
  by (auto simp: net_buffers_init_def net_empty_full_iff)

text \<open>A handle of the capacity of the network image at the wrap of its counters, and one whose
  capacity does not divide 65536.\<close>

definition net_handle_at :: "u32 \<Rightarrow> u16 \<Rightarrow> net_queue_handle_t" where
  "net_handle_at capacity cursor =
     (let q = \<lparr>nq_tail = cursor, nq_head = cursor, nq_consumer_signalled = 0,
        nq_slots = replicate (unat capacity) (net_buff_desc_new 0 0 0)\<rparr>
      in \<lparr>nq_free = q, nq_active = q, nq_capacity = capacity\<rparr>)"

lemma net_handle_at_ready:
  "net_ready (net_handle_at 16 0xffff)"
  "free_items (net_handle_at 16 0xffff) = []" "active_items (net_handle_at 16 0xffff) = []"
  by (simp_all add: net_handle_at_def net_ready_defs ring_wf_def ring_ok_def ring_divides_def
      net_item_defs Let_def)

theorem net_active_queue_fifo_witness:
  "case fifo_run enq_active (deq_active (net_buff_desc_new 0 0 0))
      [Enq (net_buff_desc_new 2048 60 0), Enq (net_buff_desc_new 4096 61 0), Deq]
      (net_handle_at 16 0xffff) of (rs, h') \<Rightarrow> net_handle_wf h'"
proof -
  have "net_handle_wf (net_handle_at 16 0xffff)"
    using net_handle_at_ready(1) by (simp add: net_ready_def)
  from net_active_queue_fifo [OF this, of "[Enq (net_buff_desc_new 2048 60 0),
        Enq (net_buff_desc_new 4096 61 0), Deq]" "net_buff_desc_new 0 0 0"] show ?thesis
    using net_ready_left(2) [OF net_handle_at_ready(1)] by (auto split: prod.splits)
qed

theorem net_buffers_init_fills_witness:
  "net_queue_full_free (net_buffers_init (net_handle_at 16 0xffff) 0x10000)"
  using net_buffers_init_fills [OF net_handle_at_ready(1,2)] by simp

lemma enq_active_many:
  assumes "unat (nq_tail (nq_active h) - nq_head (nq_active h)) + length bs \<le> unat (nq_capacity h)" and "unat (nq_capacity h) < 65536"
  shows "\<exists>h'. fifo_run enq_active deq (map Enq bs @ ops) h = (case fifo_run enq_active deq ops h' of (rs, h'') \<Rightarrow> (replicate (length bs) (Pushed True) @ rs, h''))
    \<and> nq_tail (nq_active h') = nq_tail (nq_active h) + of_nat (length bs) \<and> nq_head (nq_active h') = nq_head (nq_active h)
    \<and> nq_capacity h' = nq_capacity h \<and> length (nq_slots (nq_active h')) = length (nq_slots (nq_active h))"
  using assms
proof (induction bs arbitrary: h)
  case Nil
  show ?case by (intro exI [of _ h]) (simp split: prod.split)
next
  case (Cons b bs)
  let ?d = "nq_tail (nq_active h) - nq_head (nq_active h)"
  have ne: "unat ?d \<noteq> unat (nq_capacity h)" using Cons.prems(1) by simp
  then obtain h1 where h1: "enq_active b h = (True, h1)" "nq_tail (nq_active h1) = nq_tail (nq_active h) + 1" "nq_head (nq_active h1) = nq_head (nq_active h)"
    "nq_capacity h1 = nq_capacity h" "length (nq_slots (nq_active h1)) = length (nq_slots (nq_active h))"
    by (simp add: enq_active_def net_queue_defs ucast_16_32_eq ring_simps Let_def)
  have "unat (?d + 1) = unat ?d + 1" using Cons.prems by (intro word_neq_max_Suc) simp
  then have "unat (nq_tail (nq_active h1) - nq_head (nq_active h1)) + length bs \<le> unat (nq_capacity h1)"
    using Cons.prems(1) h1 by (simp add: algebra_simps)
  then obtain h' where "fifo_run enq_active deq (map Enq bs @ ops) h1 = (case fifo_run enq_active deq ops h' of (rs, h'') \<Rightarrow> (replicate (length bs) (Pushed True) @ rs, h''))"
    "nq_tail (nq_active h') = nq_tail (nq_active h1) + of_nat (length bs)" "nq_head (nq_active h') = nq_head (nq_active h1)"
    "nq_capacity h' = nq_capacity h1" "length (nq_slots (nq_active h')) = length (nq_slots (nq_active h1))"
    using Cons.IH [of h1] Cons.prems(2) h1(4) by auto
  then show ?case using h1 by (intro exI [of _ h']) (auto split: prod.split)
qed

text \<open>C31: With a capacity \<open>n\<close> that does not divide 65536 the queue is not first-in first-out at the
  wrap of its counter. In an empty queue whose counter has \<open>65536 mod n\<close> steps to the wrap, fewer than
  the capacity and at least one, that many descriptors and one more are accepted, but the last is stored in the slot
  of the first: the next dequeue returns the last descriptor, and the first is lost.\<close>

theorem net_queue_wrap_overwrites:
  assumes "\<not> unat (nq_capacity h) dvd 65536" and "0 < unat (nq_capacity h)" and "unat (nq_capacity h) < 65536"
    and "length (nq_slots (nq_active h)) = unat (nq_capacity h)" and "length bs = 65536 mod unat (nq_capacity h)"
    and "nq_tail (nq_active h) = - of_nat (length bs)" and "nq_head (nq_active h) = - of_nat (length bs)"
  shows "bs \<noteq> [] \<and> length bs < unat (nq_capacity h)
    \<and> fst (fifo_run enq_active (deq_active out) (map Enq bs @ [Enq b, Deq]) h) = replicate (length bs + 1) (Pushed True) @ [Popped (Some b)]"
proof -
  let ?n = "unat (nq_capacity h)"
  have k: "length bs \<noteq> 0" "length bs < ?n" using assms(1,2,5) by (simp_all add: dvd_eq_mod_eq_0)
  obtain h' where h': "fifo_run enq_active (deq_active out) (map Enq bs @ [Enq b, Deq]) h
      = (case fifo_run enq_active (deq_active out) [Enq b, Deq] h' of (rs, h'') \<Rightarrow> (replicate (length bs) (Pushed True) @ rs, h''))"
    "nq_tail (nq_active h') = 0" "nq_head (nq_active h') = - of_nat (length bs)" "nq_capacity h' = nq_capacity h" "length (nq_slots (nq_active h')) = ?n"
    using enq_active_many [of h bs "deq_active out" "[Enq b, Deq]"] assms k by auto
  have u: "unat (of_nat (length bs) :: u16) = length bs" using k(2) assms(3) by (simp add: unat_of_nat)
  have nz: "(of_nat (length bs) :: u16) \<noteq> 0" using u k(1) by (metis unsigned_0)
  have "of_nat (65536 - length bs) + of_nat (length bs) = (of_nat 65536 :: u16)" using k(2) assms(3) by (simp flip: of_nat_add)
  then have "of_nat (65536 - length bs) = (- of_nat (length bs) :: u16)" by (simp add: eq_neg_iff_add_eq_0)
  moreover have "unat (of_nat (65536 - length bs) :: u16) = 65536 - length bs" using k(1) by (simp add: unat_of_nat)
  ultimately have um: "unat (- of_nat (length bs) :: u16) = 65536 - length bs" by simp
  then have ne: "(0 :: u16) + 1 \<noteq> - of_nat (length bs)" using k(2) assms(3) by (auto dest!: arg_cong [of _ _ unat])
  note um moreover have "(65536 - length bs) mod ?n = 0" using assms(5) by (simp add: minus_mod_eq_mult_div)
  ultimately have slot: "ring_slot (- of_nat (length bs) :: u16) ?n = 0" by (simp add: ring_slot_def)
  have full: "unat (0 - - of_nat (length bs) :: u16) \<noteq> ?n" using u k(2) by simp
  have "fst (fifo_run enq_active (deq_active out) [Enq b, Deq] h') = [Pushed True, Popped (Some b)]"
    using h'(2-5) full slot ne assms(2)
    by (simp add: enq_active_def deq_active_def net_queue_defs ucast_16_32_eq ucast_16_32_slot ring_len_def ring_is_empty_def ring_advance_def Let_def
        ring_slot_def [of 0])
  then show ?thesis using h'(1) k by (auto simp: replicate_append_same split: prod.splits)
qed

theorem net_queue_wrap_overwrites_witness:
  "fst (fifo_run enq_active (deq_active (net_buff_desc_new 0 0 0))
      [Enq (net_buff_desc_new 2048 60 0), Enq (net_buff_desc_new 4096 61 0), Deq] (net_handle_at 3 0xffff))
    = [Pushed True, Pushed True, Popped (Some (net_buff_desc_new 4096 61 0))]"
proof -
  let ?h = "net_handle_at 3 0xffff"
  have "nq_capacity ?h = 3" "length (nq_slots (nq_active ?h)) = 3" "nq_tail (nq_active ?h) = - 1" "nq_head (nq_active ?h) = - 1"
    by (simp_all add: net_handle_at_def Let_def)
  moreover have "\<not> (3 :: nat) dvd 65536" by presburger
  ultimately show ?thesis
    using net_queue_wrap_overwrites [of ?h "[net_buff_desc_new 2048 60 0]" "net_buff_desc_new 0 0 0" "net_buff_desc_new 4096 61 0"] by simp
qed

end
