(* ===== verification/SerialQueue.thy ===== *)
theory SerialQueue
  imports RingQueue
begin

text \<open>
  Serial byte queues: \<open>lerux-sddf/src/serial_queue.rs\<close> with the types of
  \<open>lerux-sddf/src/serial.rs\<close>. A handle is the shared indexes, the capacity and the shared
  data region. A producer may also stage bytes behind a local copy of the tail and publish them
  at once (\<open>serial_enqueue_local\<close>, \<open>serial_update_shared_tail\<close>);
  \<open>staged_items\<close> is the queue as it will be after the publication.
\<close>

record serial_queue_t =
  sq_tail :: u32
  sq_head :: u32
  sq_producer_signalled :: u32

record serial_queue_handle_t =
  sq_queue :: serial_queue_t
  sq_capacity :: u32
  sq_data :: "u8 list"

definition serial_queue_init ::
  "serial_queue_handle_t \<Rightarrow> serial_queue_t \<Rightarrow> u32 \<Rightarrow> u8 list \<Rightarrow> serial_queue_handle_t" where
  "serial_queue_init queue_handle queue capacity data_region =
     queue_handle\<lparr>sq_queue := queue, sq_capacity := capacity, sq_data := data_region\<rparr>"

definition serial_queue_length_producer :: "serial_queue_handle_t \<Rightarrow> u32" where
  "serial_queue_length_producer h =
     (let tail = sq_tail (sq_queue h); head = sq_head (sq_queue h) in ring_len tail head)"

text \<open>The subtraction is unchecked in a release build.\<close>

definition serial_queue_free :: "serial_queue_handle_t \<Rightarrow> u32" where
  "serial_queue_free h = sq_capacity h - serial_queue_length_producer h"

definition serial_queue_length_consumer :: "serial_queue_handle_t \<Rightarrow> u32" where
  "serial_queue_length_consumer h =
     (let tail = sq_tail (sq_queue h); head = sq_head (sq_queue h) in ring_len tail head)"

definition serial_queue_empty :: "serial_queue_handle_t \<Rightarrow> u32 \<Rightarrow> bool" where
  "serial_queue_empty h local_head = ring_is_empty (sq_tail (sq_queue h)) local_head"

definition serial_queue_full :: "serial_queue_handle_t \<Rightarrow> u32 \<Rightarrow> bool" where
  "serial_queue_full h local_tail = ring_is_full local_tail (sq_head (sq_queue h)) (sq_capacity h)"

definition serial_enqueue :: "serial_queue_handle_t \<Rightarrow> u8 \<Rightarrow> int \<times> serial_queue_handle_t" where
  "serial_enqueue h character =
     (let tail = sq_tail (sq_queue h); head = sq_head (sq_queue h)
      in if ring_is_full tail head (sq_capacity h) then (-1, h)
         else
           let index = unat (ring_index tail (sq_capacity h));
             data = (sq_data h)[index := character];
             queue = (sq_queue h)\<lparr>sq_tail := ring_advance_tail tail head (sq_capacity h)\<rparr>
           in (0, h\<lparr>sq_data := data, sq_queue := queue\<rparr>))"

definition serial_enqueue_local ::
  "serial_queue_handle_t \<Rightarrow> u32 \<Rightarrow> u8 \<Rightarrow> int \<times> u32 \<times> serial_queue_handle_t" where
  "serial_enqueue_local h local_tail character =
     (let head = sq_head (sq_queue h)
      in if ring_is_full local_tail head (sq_capacity h) then (-1, local_tail, h)
         else
           let index = unat (ring_index local_tail (sq_capacity h));
             data = (sq_data h)[index := character]
           in (0, ring_advance_tail local_tail head (sq_capacity h), h\<lparr>sq_data := data\<rparr>))"

definition serial_dequeue :: "serial_queue_handle_t \<Rightarrow> u8 \<Rightarrow> int \<times> u8 \<times> serial_queue_handle_t" where
  "serial_dequeue h character =
     (let head = sq_head (sq_queue h); tail = sq_tail (sq_queue h)
      in if ring_is_empty tail head then (-1, character, h)
         else
           let index = unat (ring_index head (sq_capacity h));
             queue = (sq_queue h)\<lparr>sq_head := ring_advance_head head tail\<rparr>
           in (0, sq_data h ! index, h\<lparr>sq_queue := queue\<rparr>))"

definition serial_update_shared_tail ::
  "serial_queue_handle_t \<Rightarrow> u32 \<Rightarrow> serial_queue_handle_t" where
  "serial_update_shared_tail h local_tail = h\<lparr>sq_queue := (sq_queue h)\<lparr>sq_tail := local_tail\<rparr>\<rparr>"

definition serial_update_shared_head ::
  "serial_queue_handle_t \<Rightarrow> u32 \<Rightarrow> serial_queue_handle_t" where
  "serial_update_shared_head h local_head = h\<lparr>sq_queue := (sq_queue h)\<lparr>sq_head := local_head\<rparr>\<rparr>"

definition serial_request_consumer_signal :: "serial_queue_handle_t \<Rightarrow> serial_queue_handle_t" where
  "serial_request_consumer_signal h = h\<lparr>sq_queue := (sq_queue h)\<lparr>sq_producer_signalled := 0\<rparr>\<rparr>"

definition serial_cancel_consumer_signal :: "serial_queue_handle_t \<Rightarrow> serial_queue_handle_t" where
  "serial_cancel_consumer_signal h = h\<lparr>sq_queue := (sq_queue h)\<lparr>sq_producer_signalled := 1\<rparr>\<rparr>"

definition serial_require_consumer_signal :: "serial_queue_handle_t \<Rightarrow> bool" where
  "serial_require_consumer_signal h \<longleftrightarrow> sq_producer_signalled (sq_queue h) = 0"

text \<open>A connection names the shared queue and the data region with its size; the cast of the
  size to \<open>u32\<close> truncates.\<close>

definition serial_handle_from_connection ::
  "serial_queue_t \<Rightarrow> u8 list \<Rightarrow> u64 \<Rightarrow> serial_queue_handle_t" where
  "serial_handle_from_connection queue data data_size =
     (let capacity = ucast data_size :: u32;
        handle = \<lparr>sq_queue = \<lparr>sq_tail = 0, sq_head = 0, sq_producer_signalled = 0\<rparr>,
          sq_capacity = 0, sq_data = []\<rparr>
      in serial_queue_init handle queue capacity data)"

lemmas serial_queue_defs [queue_defs] =
  serial_queue_length_producer_def serial_queue_free_def serial_queue_length_consumer_def
  serial_queue_empty_def serial_queue_full_def serial_enqueue_def serial_enqueue_local_def
  serial_dequeue_def serial_update_shared_tail_def serial_update_shared_head_def

subsection \<open>First-in first-out\<close>

definition serial_items :: "serial_queue_handle_t \<Rightarrow> u8 list" where
  "serial_items h =
     ring_items (sq_head (sq_queue h)) (sq_tail (sq_queue h)) (unat (sq_capacity h)) (sq_data h)"

definition serial_handle_wf :: "serial_queue_handle_t \<Rightarrow> bool" where
  "serial_handle_wf h \<longleftrightarrow>
     ring_wf (sq_head (sq_queue h)) (sq_tail (sq_queue h)) (unat (sq_capacity h)) (sq_data h)"

definition enq_byte :: "u8 \<Rightarrow> serial_queue_handle_t \<Rightarrow> bool \<times> serial_queue_handle_t" where
  "enq_byte c h = ok_code (serial_enqueue h c)"

definition deq_byte :: "u8 \<Rightarrow> serial_queue_handle_t \<Rightarrow> u8 option \<times> serial_queue_handle_t" where
  "deq_byte out h = opt_code (serial_dequeue h out)"

interpretation serial: ring_queue
  "\<lambda>_. True"
  "\<lambda>h. sq_head (sq_queue h)" "\<lambda>h. sq_tail (sq_queue h)" "\<lambda>h. unat (sq_capacity h)"
  sq_data enq_byte "deq_byte out" for out
  by unfold_locales
    (auto simp: enq_byte_def deq_byte_def queue_defs ring_simps
      ring_slot_index [unfolded ring_index_def] Let_def unsigned_word_eqI)

subsection \<open>A serial queue whose capacity divides the range of its counters\<close>

definition serial_ready :: "serial_queue_handle_t \<Rightarrow> bool" where
  "serial_ready h \<longleftrightarrow> serial_handle_wf h \<and> ring_divides (sq_tail (sq_queue h)) (unat (sq_capacity h))"

text \<open>What an operation of one side leaves to the other.\<close>

definition same_side :: "serial_queue_handle_t \<Rightarrow> serial_queue_handle_t \<Rightarrow> bool" where
  "same_side h h' \<longleftrightarrow> sq_capacity h' = sq_capacity h
     \<and> sq_producer_signalled (sq_queue h') = sq_producer_signalled (sq_queue h)"

lemma serial_enqueue_ready:
  assumes r: "serial_ready h" and l: "length (serial_items h) < unat (sq_capacity h)"
  shows "\<exists>h'. serial_enqueue h b = (0, h') \<and> serial_ready h' \<and> serial_items h' = serial_items h @ [b] \<and> same_side h h'"
proof -
  let ?t = "sq_tail (sq_queue h)" and ?h = "sq_head (sq_queue h)" and ?c = "unat (sq_capacity h)"
  have ok: "ring_ok ?h ?t ?c" "length (sq_data h) = ?c" and lt: "unat (?t - ?h) < ?c" and left: "0 < ring_left ?t ?c"
    using r l by (simp_all add: serial_ready_def serial_handle_wf_def ring_wf_def serial_items_def ring_left_def)
  then have "\<not> ring_is_full ?t ?h (sq_capacity h)" by (auto simp: ring_simps)
  then show ?thesis
    using ok ring_ok_push(1) [OF ok(1) lt left] ring_items_push [OF ok(1) lt ok(2), of b] r
    by (simp add: serial_enqueue_def Let_def ring_slot_index ring_advance_tail_def ring_advance_def serial_ready_def
        serial_handle_wf_def ring_wf_def serial_items_def same_side_def ring_divides_def)
qed

lemma serial_dequeue_ready:
  assumes r: "serial_ready h" and l: "serial_items h = b # bs"
  shows "\<exists>h'. serial_dequeue h out = (0, b, h') \<and> serial_ready h' \<and> serial_items h' = bs \<and> same_side h h'"
proof -
  let ?t = "sq_tail (sq_queue h)" and ?h = "sq_head (sq_queue h)" and ?c = "unat (sq_capacity h)"
  have ok: "ring_ok ?h ?t ?c" using r by (simp add: serial_ready_def serial_handle_wf_def ring_wf_def)
  have ne: "?t \<noteq> ?h" using l by (auto simp: serial_items_def simp flip: ring_items_Nil_iff)
  have i: "ring_items ?h ?t ?c (sq_data h) = b # bs" using l by (simp add: serial_items_def)
  show ?thesis
    using ne ring_ok_pop [OF ok ne] ring_items_pop [OF ne, of ?c "sq_data h"] r i
    by (simp add: serial_dequeue_def Let_def ring_slot_index ring_is_empty_def ring_advance_head_def ring_advance_def
        serial_ready_def serial_handle_wf_def ring_wf_def serial_items_def same_side_def)
qed

lemma serial_dequeue_none: "serial_items h = [] \<Longrightarrow> serial_dequeue h out = (-1, out, h)"
  by (simp add: serial_items_def ring_items_Nil_iff serial_dequeue_def Let_def ring_is_empty_def)

lemma serial_lengths:
  assumes "serial_ready h"
  shows "unat (serial_queue_length_consumer h) = length (serial_items h)"
    and "unat (serial_queue_free h) = unat (sq_capacity h) - length (serial_items h)"
    and "length (serial_items h) \<le> unat (sq_capacity h)"
proof -
  have le: "unat (sq_tail (sq_queue h) - sq_head (sq_queue h)) \<le> unat (sq_capacity h)"
    using assms by (simp add: serial_ready_def serial_handle_wf_def ring_wf_def ring_ok_def)
  then show "length (serial_items h) \<le> unat (sq_capacity h)" by (simp add: serial_items_def)
  show "unat (serial_queue_length_consumer h) = length (serial_items h)"
    by (simp add: serial_queue_length_consumer_def serial_items_def ring_len_def)
  have "sq_tail (sq_queue h) - sq_head (sq_queue h) \<le> sq_capacity h" using le by (simp add: word_le_nat_alt)
  then show "unat (serial_queue_free h) = unat (sq_capacity h) - length (serial_items h)"
    by (simp add: serial_queue_free_def serial_queue_length_producer_def serial_items_def ring_len_def unat_sub)
qed

lemma serial_signal_simps [simp]:
  "serial_items (serial_request_consumer_signal h) = serial_items h" "serial_items (serial_cancel_consumer_signal h) = serial_items h"
  "serial_ready (serial_request_consumer_signal h) = serial_ready h" "serial_ready (serial_cancel_consumer_signal h) = serial_ready h"
  "sq_capacity (serial_request_consumer_signal h) = sq_capacity h" "sq_capacity (serial_cancel_consumer_signal h) = sq_capacity h"
  "serial_queue_free (serial_request_consumer_signal h) = serial_queue_free h"
  "serial_require_consumer_signal (serial_request_consumer_signal h)" "\<not> serial_require_consumer_signal (serial_cancel_consumer_signal h)"
  by (simp_all add: serial_request_consumer_signal_def serial_cancel_consumer_signal_def serial_items_def serial_ready_def
      serial_handle_wf_def serial_queue_free_def serial_queue_length_producer_def serial_require_consumer_signal_def)

subsection \<open>Staging behind a local tail\<close>

definition staged_items :: "serial_queue_handle_t \<Rightarrow> u32 \<Rightarrow> u8 list" where
  "staged_items h local_tail = serial_items (serial_update_shared_tail h local_tail)"

definition staged_ok :: "serial_queue_handle_t \<Rightarrow> u32 \<Rightarrow> bool" where
  "staged_ok h local_tail \<longleftrightarrow> serial_handle_wf (serial_update_shared_tail h local_tail)"

lemmas staged_defs = staged_items_def staged_ok_def serial_items_def serial_handle_wf_def
  serial_update_shared_tail_def ring_wf_def

lemma staged_full:
  "serial_queue_full h t \<longleftrightarrow> unat (t - sq_head (sq_queue h)) = unat (sq_capacity h)"
  by (auto simp: serial_queue_full_def ring_is_full_def ring_len_def unsigned_word_eqI)

lemma serial_enqueue_local_full:
  "serial_queue_full h t \<Longrightarrow> serial_enqueue_local h t c = (-1, t, h)"
  by (simp add: serial_enqueue_local_def serial_queue_full_def)

lemma serial_enqueue_local_append:
  assumes ok: "staged_ok h t" and room: "\<not> serial_queue_full h t"
    and left: "0 < ring_left t (unat (sq_capacity h))"
  shows "\<exists>h'. serial_enqueue_local h t c = (0, t + 1, h') \<and> staged_ok h' (t + 1)
    \<and> staged_items h' (t + 1) = staged_items h t @ [c] \<and> sq_queue h' = sq_queue h
    \<and> sq_capacity h' = sq_capacity h"
proof -
  let ?cap = "unat (sq_capacity h)"
  have wf: "ring_ok (sq_head (sq_queue h)) t ?cap" "length (sq_data h) = ?cap"
    using ok by (simp_all add: staged_defs)
  then have lt: "unat (t - sq_head (sq_queue h)) < ?cap"
    using room by (simp add: staged_full ring_ok_def)
  show ?thesis
    using room wf ring_ok_push(1) [OF wf(1) lt left] ring_items_push [OF wf(1) lt wf(2), of c]
    by (simp add: serial_enqueue_local_def serial_queue_full_def Let_def ring_slot_index
        ring_advance_tail_def ring_advance_def staged_defs)
qed

subsection \<open>Properties\<close>

text \<open>Any sequence of enqueues and dequeues on a serial queue behaves as a list bounded by the
  capacity, keeps the handle well formed, and returns the bytes in the order in which they were
  accepted.\<close>

theorem serial_queue_fifo:
  assumes "serial_handle_wf h"
    and "enat (length ops) \<le> ring_left (sq_tail (sq_queue h)) (unat (sq_capacity h))"
  shows "case fifo_run enq_byte (deq_byte out) ops h of (rs, h') \<Rightarrow>
    serial_handle_wf h' \<and> spec_run (unat (sq_capacity h)) ops (serial_items h) = (rs, serial_items h')
    \<and> serial_items h @ accepted ops rs = returned rs @ serial_items h'"
proof -
  obtain rs h' where run: "fifo_run enq_byte (deq_byte out) ops h = (rs, h')"
    by fastforce
  then have "serial_handle_wf h'
      \<and> spec_run (unat (sq_capacity h)) ops (serial_items h) = (rs, serial_items h')"
    using serial.fifo.run_refines [of h ops out rs h'] assms
    by (auto simp: serial_handle_wf_def serial_items_def)
  then show ?thesis
    using run spec_run_fifo by auto
qed

definition serial_handle_at :: "u32 \<Rightarrow> u32 \<Rightarrow> serial_queue_handle_t" where
  "serial_handle_at capacity cursor =
     \<lparr>sq_queue = \<lparr>sq_tail = cursor, sq_head = cursor, sq_producer_signalled = 0\<rparr>,
      sq_capacity = capacity, sq_data = replicate (unat capacity) 0\<rparr>"

lemma serial_handle_at_wf:
  "serial_handle_wf (serial_handle_at 0x1000 0xffffffff)"
  "ring_left (sq_tail (sq_queue (serial_handle_at 0x1000 0xffffffff)))
     (unat (sq_capacity (serial_handle_at 0x1000 0xffffffff))) = \<infinity>"
  by (simp_all add: serial_handle_at_def serial_handle_wf_def ring_wf_def ring_ok_def
      ring_divides_def ring_left_def)

theorem serial_queue_fifo_witness:
  "case fifo_run enq_byte (deq_byte 0) [Enq 0x68, Enq 0x69, Deq]
      (serial_handle_at 0x1000 0xffffffff) of (rs, h') \<Rightarrow> serial_handle_wf h'"
  using serial_queue_fifo [OF serial_handle_at_wf(1), of "[Enq 0x68, Enq 0x69, Deq]" 0]
    serial_handle_at_wf(2) by (auto split: prod.splits)

end
