(* ===== verification/ByteQueue.thy ===== *)
theory ByteQueue
  imports RingQueue
begin

text \<open>
  The byte queue of the crate \<open>lerux-serial-queue\<close>: free-running \<open>usize\<close> indexes masked
  with \<open>capacity - 1\<close>, so the capacity has to be a power of two. The masked index is the
  remainder by the capacity, and the queue meets the same contract as the others.
\<close>

record SerialQueue =
  bq_head :: usize
  bq_tail :: usize
  bq_signalled :: bool

definition SerialQueue_new :: SerialQueue where
  "SerialQueue_new = \<lparr>bq_head = 0, bq_tail = 0, bq_signalled = True\<rparr>"

record SerialQueueHandle =
  bh_queue :: SerialQueue
  bh_data :: "u8 list"
  bh_capacity :: usize

definition SerialQueueHandle_new :: "SerialQueue \<Rightarrow> u8 list \<Rightarrow> usize \<Rightarrow> SerialQueueHandle" where
  "SerialQueueHandle_new queue data capacity =
     \<lparr>bh_queue = queue, bh_data = data, bh_capacity = capacity\<rparr>"

definition bh_mask :: "SerialQueueHandle \<Rightarrow> usize" where
  "bh_mask h = bh_capacity h - 1"

definition bh_len :: "SerialQueueHandle \<Rightarrow> usize" where
  "bh_len h = bq_tail (bh_queue h) - bq_head (bh_queue h)"

definition bh_is_empty :: "SerialQueueHandle \<Rightarrow> bool" where
  "bh_is_empty h \<longleftrightarrow> bh_len h = 0"

definition bh_is_full :: "SerialQueueHandle \<Rightarrow> bool" where
  "bh_is_full h \<longleftrightarrow> bh_capacity h \<le> bh_len h"

definition bh_free_space :: "SerialQueueHandle \<Rightarrow> usize" where
  "bh_free_space h = (if bh_len h \<le> bh_capacity h then bh_capacity h - bh_len h else 0)"

definition bh_enqueue :: "SerialQueueHandle \<Rightarrow> u8 \<Rightarrow> bool \<times> SerialQueueHandle" where
  "bh_enqueue h byte =
     (let head = bq_head (bh_queue h); tail = bq_tail (bh_queue h)
      in if bh_capacity h \<le> tail - head then (False, h)
         else
           let idx = unat (tail AND bh_mask h)
           in (True, h\<lparr>bh_data := (bh_data h)[idx := byte],
                 bh_queue := (bh_queue h)\<lparr>bq_tail := tail + 1\<rparr>\<rparr>))"

definition bh_dequeue :: "SerialQueueHandle \<Rightarrow> u8 option \<times> SerialQueueHandle" where
  "bh_dequeue h =
     (let head = bq_head (bh_queue h); tail = bq_tail (bh_queue h)
      in if head = tail then (None, h)
         else
           let idx = unat (head AND bh_mask h)
           in (Some (bh_data h ! idx), h\<lparr>bh_queue := (bh_queue h)\<lparr>bq_head := head + 1\<rparr>\<rparr>))"

definition bh_request_signal :: "SerialQueueHandle \<Rightarrow> SerialQueueHandle" where
  "bh_request_signal h = h\<lparr>bh_queue := (bh_queue h)\<lparr>bq_signalled := False\<rparr>\<rparr>"

definition bh_consumer_should_signal_producer :: "SerialQueueHandle \<Rightarrow> bool \<times> SerialQueueHandle" where
  "bh_consumer_should_signal_producer h =
     (\<not> bq_signalled (bh_queue h), h\<lparr>bh_queue := (bh_queue h)\<lparr>bq_signalled := True\<rparr>\<rparr>)"

definition bh_init_shared :: "SerialQueueHandle \<Rightarrow> SerialQueueHandle" where
  "bh_init_shared h =
     h\<lparr>bh_queue := (bh_queue h)\<lparr>bq_head := 0, bq_tail := 0, bq_signalled := True\<rparr>\<rparr>"

lemmas byte_queue_defs = bh_mask_def bh_len_def bh_is_empty_def bh_is_full_def bh_free_space_def
  bh_enqueue_def bh_dequeue_def bh_request_signal_def bh_consumer_should_signal_producer_def
  bh_init_shared_def

subsection \<open>First-in first-out\<close>

definition power_of_two :: "nat \<Rightarrow> bool" where
  "power_of_two n \<longleftrightarrow> (\<exists>k \<in> {0..<64}. n = 2 ^ k)"

definition bh_items :: "SerialQueueHandle \<Rightarrow> u8 list" where
  "bh_items h = ring_items (bq_head (bh_queue h)) (bq_tail (bh_queue h)) (unat (bh_capacity h)) (bh_data h)"

definition bh_wf :: "SerialQueueHandle \<Rightarrow> bool" where
  "bh_wf h \<longleftrightarrow> power_of_two (unat (bh_capacity h))
     \<and> ring_wf (bq_head (bh_queue h)) (bq_tail (bh_queue h)) (unat (bh_capacity h)) (bh_data h)"

lemma unat_power_of_two: "k < 64 \<Longrightarrow> unat (2 ^ k :: usize) = 2 ^ k"
proof -
  assume "k < 64"
  then have "(2 :: nat) ^ k < 2 ^ 64"
    by (intro power_strict_increasing) simp_all
  then show ?thesis
    using unat_of_nat [of "2 ^ k", where 'a = 64] by simp
qed

lemma masked_index:
  assumes "power_of_two (unat (c :: usize))"
  shows "unat (i AND (c - 1)) = unat i mod unat c"
proof -
  obtain k where k: "k < 64" "unat c = 2 ^ k"
    using assms by (auto simp: power_of_two_def)
  then have "c = 2 ^ k"
    by (metis unat_power_of_two unsigned_word_eqI)
  then have "i AND (c - 1) = i mod c"
    by (metis take_bit_eq_mask mask_eq_exp_minus_1 take_bit_eq_mod)
  then show ?thesis
    by (simp add: unat_mod)
qed

interpretation bytes: ring_queue
  "\<lambda>h. power_of_two (unat (bh_capacity h))"
  "\<lambda>h. bq_head (bh_queue h)" "\<lambda>h. bq_tail (bh_queue h)" "\<lambda>h. unat (bh_capacity h)"
  bh_data "\<lambda>b h. bh_enqueue h b" bh_dequeue
  by unfold_locales
    (auto simp: bh_enqueue_def bh_dequeue_def bh_mask_def masked_index ring_slot_def Let_def
      word_le_nat_alt)

lemma power_of_two_divides:
  assumes "power_of_two n"
  shows "2 ^ 64 mod n = 0"
proof -
  obtain k where "k < 64" "n = 2 ^ k"
    using assms by (auto simp: power_of_two_def)
  then have "n dvd 2 ^ 64"
    by (simp only: le_imp_power_dvd less_imp_le)
  then show ?thesis
    by (simp only: dvd_eq_mod_eq_0)
qed

subsection \<open>Properties\<close>

text \<open>With a power-of-two capacity, any sequence of enqueues and dequeues on a
  \<open>SerialQueueHandle\<close> behaves as a list bounded by the capacity, keeps the handle well
  formed, and returns the bytes in the order in which they were accepted.\<close>

theorem byte_queue_fifo:
  assumes "bh_wf h"
  shows "case fifo_run (\<lambda>b h. bh_enqueue h b) bh_dequeue ops h of (rs, h') \<Rightarrow>
    bh_wf h' \<and> spec_run (unat (bh_capacity h)) ops (bh_items h) = (rs, bh_items h')
    \<and> bh_items h @ accepted ops rs = returned rs @ bh_items h'"
proof -
  have "ring_divides (bq_tail (bh_queue h)) (unat (bh_capacity h))"
    using assms power_of_two_divides by (simp add: bh_wf_def ring_divides_def)
  then have "ring_left (bq_tail (bh_queue h)) (unat (bh_capacity h)) = \<infinity>"
    by (simp add: ring_left_def)
  moreover obtain rs h' where run: "fifo_run (\<lambda>b h. bh_enqueue h b) bh_dequeue ops h = (rs, h')"
    by fastforce
  ultimately have "bh_wf h' \<and> spec_run (unat (bh_capacity h)) ops (bh_items h) = (rs, bh_items h')"
    using bytes.fifo.run_refines [of h ops rs h'] assms by (auto simp: bh_wf_def bh_items_def)
  then show ?thesis
    using run spec_run_fifo by auto
qed

theorem byte_queue_fifo_witness:
  "case fifo_run (\<lambda>b h. bh_enqueue h b) bh_dequeue [Enq 1, Enq 2, Deq]
      (SerialQueueHandle_new SerialQueue_new [0, 0, 0, 0] 4) of (rs, h') \<Rightarrow> bh_wf h'"
proof -
  have "power_of_two 4"
    unfolding power_of_two_def by (intro bexI [of _ 2]) simp_all
  then have "bh_wf (SerialQueueHandle_new SerialQueue_new [0, 0, 0, 0] 4)"
    by (simp add: SerialQueueHandle_new_def SerialQueue_new_def bh_wf_def ring_wf_def ring_ok_def
        ring_divides_def)
  from byte_queue_fifo [OF this, of "[Enq 1, Enq 2, Deq]"] show ?thesis
    by (auto split: prod.splits)
qed

end
