(* ===== verification/FsQueue.thy ===== *)
theory FsQueue
  imports RingQueue
begin

text \<open>
  The filesystem protocol: message types and command codes of \<open>lerux-sddf/src/fs.rs\<close> and
  the rings of \<open>lerux-sddf/src/fs_queue.rs\<close>. Every member of the unions
  \<open>fs_cmd_params_t\<close>, \<open>fs_cmpl_data_t\<close> and \<open>fs_msg_t\<close> is made of 64-bit words, so
  the model keeps the parameters of a command as its six words, the data of a completion as its
  one word, and a message as its eight words; the views \<open>msg_cmd\<close> and \<open>msg_cmpl\<close>
  read the union members.

  The ring holds 511 messages and its counters have 64 bits. 511 does not divide the range of
  the counters, so a ring is first-in first-out for the first \<open>2 ^ 64 - 1\<close> messages.
\<close>

definition FS_QUEUE_CAPACITY :: nat where "FS_QUEUE_CAPACITY = 511"
definition FS_MAX_NAME_LENGTH :: nat where "FS_MAX_NAME_LENGTH = 255"
definition FS_MAX_PATH_LENGTH :: nat where "FS_MAX_PATH_LENGTH = 4095"

definition FS_OPEN_FLAGS_READ_ONLY :: u64 where "FS_OPEN_FLAGS_READ_ONLY = 0"
definition FS_OPEN_FLAGS_WRITE_ONLY :: u64 where "FS_OPEN_FLAGS_WRITE_ONLY = 1"
definition FS_OPEN_FLAGS_READ_WRITE :: u64 where "FS_OPEN_FLAGS_READ_WRITE = 2"
definition FS_OPEN_FLAGS_CREATE :: u64 where "FS_OPEN_FLAGS_CREATE = 4"

definition FS_STATUS_SUCCESS :: u64 where "FS_STATUS_SUCCESS = 0"
definition FS_STATUS_ERROR :: u64 where "FS_STATUS_ERROR = 1"
definition FS_STATUS_INVALID_BUFFER :: u64 where "FS_STATUS_INVALID_BUFFER = 2"
definition FS_STATUS_INVALID_PATH :: u64 where "FS_STATUS_INVALID_PATH = 3"
definition FS_STATUS_INVALID_FD :: u64 where "FS_STATUS_INVALID_FD = 4"
definition FS_STATUS_ALLOCATION_ERROR :: u64 where "FS_STATUS_ALLOCATION_ERROR = 5"
definition FS_STATUS_OUTSTANDING_OPERATIONS :: u64 where "FS_STATUS_OUTSTANDING_OPERATIONS = 6"
definition FS_STATUS_INVALID_NAME :: u64 where "FS_STATUS_INVALID_NAME = 7"
definition FS_STATUS_TOO_MANY_OPEN_FILES :: u64 where "FS_STATUS_TOO_MANY_OPEN_FILES = 8"
definition FS_STATUS_SERVER_WAS_DENIED :: u64 where "FS_STATUS_SERVER_WAS_DENIED = 9"
definition FS_STATUS_INVALID_WRITE :: u64 where "FS_STATUS_INVALID_WRITE = 10"
definition FS_STATUS_INVALID_READ :: u64 where "FS_STATUS_INVALID_READ = 11"
definition FS_STATUS_DIRECTORY_IS_FULL :: u64 where "FS_STATUS_DIRECTORY_IS_FULL = 12"
definition FS_STATUS_INVALID_COMMAND :: u64 where "FS_STATUS_INVALID_COMMAND = 13"
definition FS_STATUS_END_OF_DIRECTORY :: u64 where "FS_STATUS_END_OF_DIRECTORY = 14"
definition FS_STATUS_NO_FILE :: u64 where "FS_STATUS_NO_FILE = 15"
definition FS_STATUS_NOT_DIRECTORY :: u64 where "FS_STATUS_NOT_DIRECTORY = 16"
definition FS_STATUS_ALREADY_EXISTS :: u64 where "FS_STATUS_ALREADY_EXISTS = 17"
definition FS_STATUS_NOT_EMPTY :: u64 where "FS_STATUS_NOT_EMPTY = 18"

definition FS_CMD_INITIALISE :: u64 where "FS_CMD_INITIALISE = 0"
definition FS_CMD_DEINITIALISE :: u64 where "FS_CMD_DEINITIALISE = 1"
definition FS_CMD_FILE_OPEN :: u64 where "FS_CMD_FILE_OPEN = 2"
definition FS_CMD_FILE_CLOSE :: u64 where "FS_CMD_FILE_CLOSE = 3"
definition FS_CMD_STAT :: u64 where "FS_CMD_STAT = 4"
definition FS_CMD_FILE_READ :: u64 where "FS_CMD_FILE_READ = 5"
definition FS_CMD_FILE_WRITE :: u64 where "FS_CMD_FILE_WRITE = 6"
definition FS_CMD_FILE_SIZE :: u64 where "FS_CMD_FILE_SIZE = 7"
definition FS_CMD_RENAME :: u64 where "FS_CMD_RENAME = 8"
definition FS_CMD_FILE_REMOVE :: u64 where "FS_CMD_FILE_REMOVE = 9"
definition FS_CMD_FILE_TRUNCATE :: u64 where "FS_CMD_FILE_TRUNCATE = 10"
definition FS_CMD_DIR_CREATE :: u64 where "FS_CMD_DIR_CREATE = 11"
definition FS_CMD_DIR_REMOVE :: u64 where "FS_CMD_DIR_REMOVE = 12"
definition FS_CMD_DIR_OPEN :: u64 where "FS_CMD_DIR_OPEN = 13"
definition FS_CMD_DIR_CLOSE :: u64 where "FS_CMD_DIR_CLOSE = 14"
definition FS_CMD_FILE_SYNC :: u64 where "FS_CMD_FILE_SYNC = 15"
definition FS_CMD_DIR_READ :: u64 where "FS_CMD_DIR_READ = 16"
definition FS_CMD_DIR_SEEK :: u64 where "FS_CMD_DIR_SEEK = 17"
definition FS_CMD_DIR_TELL :: u64 where "FS_CMD_DIR_TELL = 18"
definition FS_CMD_DIR_REWIND :: u64 where "FS_CMD_DIR_REWIND = 19"

lemmas fs_status_defs = FS_STATUS_SUCCESS_def FS_STATUS_ERROR_def FS_STATUS_INVALID_BUFFER_def
  FS_STATUS_INVALID_PATH_def FS_STATUS_INVALID_FD_def FS_STATUS_ALLOCATION_ERROR_def
  FS_STATUS_OUTSTANDING_OPERATIONS_def FS_STATUS_INVALID_NAME_def
  FS_STATUS_TOO_MANY_OPEN_FILES_def FS_STATUS_SERVER_WAS_DENIED_def FS_STATUS_INVALID_WRITE_def
  FS_STATUS_INVALID_READ_def FS_STATUS_DIRECTORY_IS_FULL_def FS_STATUS_INVALID_COMMAND_def
  FS_STATUS_END_OF_DIRECTORY_def FS_STATUS_NO_FILE_def FS_STATUS_NOT_DIRECTORY_def
  FS_STATUS_ALREADY_EXISTS_def FS_STATUS_NOT_EMPTY_def

lemmas fs_cmd_defs = FS_CMD_INITIALISE_def FS_CMD_DEINITIALISE_def FS_CMD_FILE_OPEN_def
  FS_CMD_FILE_CLOSE_def FS_CMD_STAT_def FS_CMD_FILE_READ_def FS_CMD_FILE_WRITE_def
  FS_CMD_FILE_SIZE_def FS_CMD_RENAME_def FS_CMD_FILE_REMOVE_def FS_CMD_FILE_TRUNCATE_def
  FS_CMD_DIR_CREATE_def FS_CMD_DIR_REMOVE_def FS_CMD_DIR_OPEN_def FS_CMD_DIR_CLOSE_def
  FS_CMD_FILE_SYNC_def FS_CMD_DIR_READ_def FS_CMD_DIR_SEEK_def FS_CMD_DIR_TELL_def
  FS_CMD_DIR_REWIND_def

subsection \<open>Messages\<close>

record fs_buffer_t =
  fb_offset :: u64
  fb_size :: u64

text \<open>The parameter structures by their words; a structure shorter than the union leaves the
  other words zero, as the senders zero the command first.\<close>

type_synonym fs_cmd_params_t = "u64 list"

record fs_cmd_t =
  cmd_id :: u64
  cmd_type :: u64
  cmd_params :: fs_cmd_params_t

record fs_cmpl_t =
  cmpl_id :: u64
  cmpl_status :: u64
  cmpl_data :: u64

type_synonym fs_msg_t = "u64 list"

definition params_path :: "fs_buffer_t \<Rightarrow> fs_cmd_params_t" where
  "params_path path = [fb_offset path, fb_size path, 0, 0, 0, 0]"

definition params_path_flags :: "fs_buffer_t \<Rightarrow> u64 \<Rightarrow> fs_cmd_params_t" where
  "params_path_flags path flags = [fb_offset path, fb_size path, flags, 0, 0, 0]"

definition params_two_buffers :: "fs_buffer_t \<Rightarrow> fs_buffer_t \<Rightarrow> fs_cmd_params_t" where
  "params_two_buffers a b = [fb_offset a, fb_size a, fb_offset b, fb_size b, 0, 0]"

definition params_fd :: "u64 \<Rightarrow> fs_cmd_params_t" where
  "params_fd fd = [fd, 0, 0, 0, 0, 0]"

definition params_fd_length :: "u64 \<Rightarrow> u64 \<Rightarrow> fs_cmd_params_t" where
  "params_fd_length fd len = [fd, len, 0, 0, 0, 0]"

definition params_fd_buffer :: "u64 \<Rightarrow> fs_buffer_t \<Rightarrow> fs_cmd_params_t" where
  "params_fd_buffer fd buf = [fd, fb_offset buf, fb_size buf, 0, 0, 0]"

definition params_fd_offset_buffer :: "u64 \<Rightarrow> u64 \<Rightarrow> fs_buffer_t \<Rightarrow> fs_cmd_params_t" where
  "params_fd_offset_buffer fd offset buf = [fd, offset, fb_offset buf, fb_size buf, 0, 0]"

definition param_word :: "fs_cmd_params_t \<Rightarrow> nat \<Rightarrow> u64" where
  "param_word ps i = ps ! i"

definition param_buffer :: "fs_cmd_params_t \<Rightarrow> nat \<Rightarrow> fs_buffer_t" where
  "param_buffer ps i = \<lparr>fb_offset = ps ! i, fb_size = ps ! Suc i\<rparr>"

definition msg_of_cmd :: "fs_cmd_t \<Rightarrow> fs_msg_t" where
  "msg_of_cmd cmd = cmd_id cmd # cmd_type cmd # cmd_params cmd"

definition msg_cmd :: "fs_msg_t \<Rightarrow> fs_cmd_t" where
  "msg_cmd msg = \<lparr>cmd_id = msg ! 0, cmd_type = msg ! 1, cmd_params = drop 2 msg\<rparr>"

definition msg_of_cmpl :: "fs_cmpl_t \<Rightarrow> fs_msg_t" where
  "msg_of_cmpl cmpl = [cmpl_id cmpl, cmpl_status cmpl, cmpl_data cmpl, 0, 0, 0, 0, 0]"

definition msg_cmpl :: "fs_msg_t \<Rightarrow> fs_cmpl_t" where
  "msg_cmpl msg = \<lparr>cmpl_id = msg ! 0, cmpl_status = msg ! 1, cmpl_data = msg ! 2\<rparr>"

lemma msg_cmd_inverse [simp]: "msg_cmd (msg_of_cmd c) = c"
  by (simp add: msg_cmd_def msg_of_cmd_def)

lemma msg_cmpl_inverse [simp]: "msg_cmpl (msg_of_cmpl c) = c"
  by (simp add: msg_cmpl_def msg_of_cmpl_def)

subsection \<open>Rings\<close>

record fs_queue_t =
  fq_head :: u64
  fq_tail :: u64
  fq_buffer :: "fs_msg_t list"

definition LIONS_FS_MAGIC_LEN :: nat where "LIONS_FS_MAGIC_LEN = 8"

definition LIONS_FS_MAGIC :: "u8 list" where
  "LIONS_FS_MAGIC = [0x4c, 0x69, 0x6f, 0x6e, 0x73, 0x4f, 0x53, 0x01]"

definition fs_config_check_magic :: "u8 list \<Rightarrow> bool" where
  "fs_config_check_magic config \<longleftrightarrow>
     LIONS_FS_MAGIC_LEN \<le> length config \<and> take LIONS_FS_MAGIC_LEN config = LIONS_FS_MAGIC"

definition fs_queue_length_consumer :: "fs_queue_t \<Rightarrow> u64" where
  "fs_queue_length_consumer queue =
     (let tail = fq_tail queue; head = fq_head queue in ring_len tail head)"

definition fs_queue_length_producer :: "fs_queue_t \<Rightarrow> u64" where
  "fs_queue_length_producer queue =
     (let tail = fq_tail queue; head = fq_head queue in ring_len tail head)"

definition fs_queue_publish_consumption :: "fs_queue_t \<Rightarrow> u64 \<Rightarrow> fs_queue_t" where
  "fs_queue_publish_consumption queue amount_consumed =
     queue\<lparr>fq_head := fq_head queue + amount_consumed\<rparr>"

definition fs_queue_publish_production :: "fs_queue_t \<Rightarrow> u64 \<Rightarrow> fs_queue_t" where
  "fs_queue_publish_production queue amount_produced =
     queue\<lparr>fq_tail := fq_tail queue + amount_produced\<rparr>"

definition fs_command_enqueue :: "fs_queue_t \<Rightarrow> fs_cmd_t \<Rightarrow> int \<times> fs_queue_t" where
  "fs_command_enqueue queue cmd =
     (let tail = fq_tail queue; head = fq_head queue;
        capacity = of_nat FS_QUEUE_CAPACITY :: u64
      in if ring_is_full tail head capacity then (-1, queue)
         else
           let index = unat (ring_index tail capacity)
           in (0, queue\<lparr>fq_buffer := (fq_buffer queue)[index := msg_of_cmd cmd],
                 fq_tail := ring_advance_tail tail head capacity\<rparr>))"

definition fs_completion_enqueue :: "fs_queue_t \<Rightarrow> fs_cmpl_t \<Rightarrow> int \<times> fs_queue_t" where
  "fs_completion_enqueue queue cmpl =
     (let tail = fq_tail queue; head = fq_head queue;
        capacity = of_nat FS_QUEUE_CAPACITY :: u64
      in if ring_is_full tail head capacity then (-1, queue)
         else
           let index = unat (ring_index tail capacity)
           in (0, queue\<lparr>fq_buffer := (fq_buffer queue)[index := msg_of_cmpl cmpl],
                 fq_tail := ring_advance_tail tail head capacity\<rparr>))"

definition fs_message_dequeue :: "fs_queue_t \<Rightarrow> fs_msg_t \<Rightarrow> int \<times> fs_msg_t \<times> fs_queue_t" where
  "fs_message_dequeue queue msg =
     (let head = fq_head queue; tail = fq_tail queue
      in if ring_is_empty tail head then (-1, msg, queue)
         else
           let index = unat (ring_index head (of_nat FS_QUEUE_CAPACITY :: u64))
           in (0, fq_buffer queue ! index, queue\<lparr>fq_head := ring_advance_head head tail\<rparr>))"

lemmas fs_queue_defs = fs_command_enqueue_def fs_completion_enqueue_def fs_message_dequeue_def

subsection \<open>First-in first-out\<close>

definition fs_items :: "fs_queue_t \<Rightarrow> fs_msg_t list" where
  "fs_items q = ring_items (fq_head q) (fq_tail q) FS_QUEUE_CAPACITY (fq_buffer q)"

definition fs_queue_wf :: "fs_queue_t \<Rightarrow> bool" where
  "fs_queue_wf q \<longleftrightarrow> ring_wf (fq_head q) (fq_tail q) FS_QUEUE_CAPACITY (fq_buffer q)"

definition fs_left :: "fs_queue_t \<Rightarrow> enat" where
  "fs_left q = ring_left (fq_tail q) FS_QUEUE_CAPACITY"

definition enq_cmd :: "fs_cmd_t \<Rightarrow> fs_queue_t \<Rightarrow> bool \<times> fs_queue_t" where
  "enq_cmd c q = ok_code (fs_command_enqueue q c)"

definition enq_cmpl :: "fs_cmpl_t \<Rightarrow> fs_queue_t \<Rightarrow> bool \<times> fs_queue_t" where
  "enq_cmpl c q = ok_code (fs_completion_enqueue q c)"

definition deq_msg :: "fs_msg_t \<Rightarrow> fs_queue_t \<Rightarrow> fs_msg_t option \<times> fs_queue_t" where
  "deq_msg out q = opt_code (fs_message_dequeue q out)"

definition deq_cmd :: "fs_msg_t \<Rightarrow> fs_queue_t \<Rightarrow> fs_cmd_t option \<times> fs_queue_t" where
  "deq_cmd out q = (case deq_msg out q of (r, q') \<Rightarrow> (map_option msg_cmd r, q'))"

definition deq_cmpl :: "fs_msg_t \<Rightarrow> fs_queue_t \<Rightarrow> fs_cmpl_t option \<times> fs_queue_t" where
  "deq_cmpl out q = (case deq_msg out q of (r, q') \<Rightarrow> (map_option msg_cmpl r, q'))"

lemma unat_fs_capacity [simp]: "unat (of_nat FS_QUEUE_CAPACITY :: u64) = FS_QUEUE_CAPACITY"
  by (simp add: FS_QUEUE_CAPACITY_def)

lemma fs_full_iff:
  "ring_is_full t h (of_nat FS_QUEUE_CAPACITY :: u64) \<longleftrightarrow> unat (t - h) = FS_QUEUE_CAPACITY"
  by (metis ring_is_full_def ring_len_def unat_fs_capacity unsigned_word_eqI)

lemma fs_slot: "unat (ring_index c (of_nat FS_QUEUE_CAPACITY :: u64)) = ring_slot c FS_QUEUE_CAPACITY"
  by (simp add: ring_slot_index)

lemmas fs_ring_simps = fs_full_iff fs_slot ring_is_empty_def ring_advance_tail_def
  ring_advance_head_def ring_advance_def

text \<open>The slots of a command ring seen through the \<open>cmd\<close> member, and of a completion ring
  through the \<open>cmpl\<close> member.\<close>

interpretation cmds: ring_queue
  "\<lambda>_. True" fq_head fq_tail "\<lambda>_. FS_QUEUE_CAPACITY" "\<lambda>q. map msg_cmd (fq_buffer q)"
  enq_cmd "deq_cmd out" for out
  by unfold_locales
    (auto simp: enq_cmd_def deq_cmd_def deq_msg_def fs_queue_defs fs_ring_simps Let_def map_update
      ring_wf_def ring_ok_def ring_slot_less)

interpretation cmpls: ring_queue
  "\<lambda>_. True" fq_head fq_tail "\<lambda>_. FS_QUEUE_CAPACITY" "\<lambda>q. map msg_cmpl (fq_buffer q)"
  enq_cmpl "deq_cmpl out" for out
  by unfold_locales
    (auto simp: enq_cmpl_def deq_cmpl_def deq_msg_def fs_queue_defs fs_ring_simps Let_def map_update
      ring_wf_def ring_ok_def ring_slot_less)

definition cmd_items :: "fs_queue_t \<Rightarrow> fs_cmd_t list" where
  "cmd_items q = map msg_cmd (fs_items q)"

definition cmpl_items :: "fs_queue_t \<Rightarrow> fs_cmpl_t list" where
  "cmpl_items q = map msg_cmpl (fs_items q)"

lemma ring_items_map:
  assumes "ring_wf head tail cap slots"
  shows "ring_items head tail cap (map f slots) = map f (ring_items head tail cap slots)"
proof -
  have "0 < cap" and "length slots = cap"
    using assms by (simp_all add: ring_wf_def ring_ok_def)
  then show ?thesis
    by (auto simp: ring_items_def ring_slot_less)
qed

lemma fs_items_views:
  assumes "fs_queue_wf q"
  shows "ring_items (fq_head q) (fq_tail q) FS_QUEUE_CAPACITY (map msg_cmd (fq_buffer q)) = cmd_items q"
    and "ring_items (fq_head q) (fq_tail q) FS_QUEUE_CAPACITY (map msg_cmpl (fq_buffer q)) = cmpl_items q"
  using assms by (simp_all add: fs_queue_wf_def fs_items_def cmd_items_def cmpl_items_def ring_items_map)

lemma ring_wf_map [simp]: "ring_wf head tail cap (map f slots) = ring_wf head tail cap slots"
  by (simp add: ring_wf_def)

subsection \<open>Properties\<close>

text \<open>Any sequence of command enqueues and message dequeues on a filesystem ring behaves as a
  list of at most 511 commands and returns the commands, with their parameter words, in the
  order in which they were accepted, as long as fewer messages are sent than the tail counter
  has values left.\<close>

theorem fs_command_queue_fifo:
  assumes "fs_queue_wf q" and "enat (length ops) \<le> fs_left q"
  shows "case fifo_run enq_cmd (deq_cmd out) ops q of (rs, q') \<Rightarrow>
    fs_queue_wf q' \<and> spec_run FS_QUEUE_CAPACITY ops (cmd_items q) = (rs, cmd_items q')
    \<and> cmd_items q @ accepted ops rs = returned rs @ cmd_items q'"
proof -
  obtain rs q' where run: "fifo_run enq_cmd (deq_cmd out) ops q = (rs, q')"
    by fastforce
  then have "fs_queue_wf q' \<and> spec_run FS_QUEUE_CAPACITY ops (cmd_items q) = (rs, cmd_items q')"
    using cmds.fifo.run_refines [of q ops out rs q'] assms fs_items_views(1) [of q]
      fs_items_views(1) [of q'] by (auto simp: fs_queue_wf_def fs_left_def)
  then show ?thesis
    using run spec_run_fifo by auto
qed

definition fs_queue_empty :: fs_queue_t where
  "fs_queue_empty = \<lparr>fq_head = 0, fq_tail = 0, fq_buffer = replicate FS_QUEUE_CAPACITY (replicate 8 0)\<rparr>"

lemma fs_queue_empty_wf: "fs_queue_wf fs_queue_empty" "fs_left fs_queue_empty = enat (2 ^ 64 - 1)"
  by (simp_all add: fs_queue_empty_def fs_queue_wf_def ring_wf_def ring_ok_def ring_divides_def
      fs_left_def ring_left_def FS_QUEUE_CAPACITY_def)

theorem fs_command_queue_fifo_witness:
  "case fifo_run enq_cmd (deq_cmd []) [Enq \<lparr>cmd_id = 1, cmd_type = 2, cmd_params = replicate 6 0\<rparr>, Deq]
      fs_queue_empty of (rs, q') \<Rightarrow> fs_queue_wf q'"
  using fs_command_queue_fifo [OF fs_queue_empty_wf(1),
      of "[Enq \<lparr>cmd_id = 1, cmd_type = 2, cmd_params = replicate 6 0\<rparr>, Deq]" "[]"]
  by (auto simp: fs_queue_empty_wf(2) split: prod.splits)

end
