(* ===== verification/Cothread.thy ===== *)
theory Cothread
  imports Fifo "HOL-Library.Multiset"
begin

text \<open>
  The stackful cothread runtime \<open>lerux-cothread\<close>: the controller with its task control
  blocks, the free pool, the scheduling queue and the channel semaphores, and every operation of
  the interface. A panic is \<open>None\<close>. An operation is modelled up to the point where the
  kernel thread continues in another cothread; the context that \<open>co_switch\<close> selects is the
  field \<open>rt_active\<close>, the swap of the registers itself is assembly. Pointers (stacks,
  contexts, entry points, arguments) are \<open>usize\<close> values and the bytes of the stacks are not
  modelled. Semaphores that client code owns are the list \<open>rt_sems\<close>.

  The invariant \<open>rt_inv\<close> says that the eight handles are divided among the running
  cothread, the scheduling queue, the free pool and the waiter lists of the semaphores, that the
  state field of every handle agrees with its place, and that the waiter lists are the linked
  lists through \<open>next_blocked\<close>. Every operation keeps it and panics only on the contract
  breaks that the crate documents.
\<close>

definition MAX_COTHREADS :: nat where "MAX_COTHREADS = 8"
definition STACK_SLOTS :: nat where "STACK_SLOTS = MAX_COTHREADS - 1"
definition MIN_STACK_SIZE :: usize where "MIN_STACK_SIZE = 0x1000"
definition MICROKIT_MAX_CHANNELS :: nat where "MICROKIT_MAX_CHANNELS = 62"
definition NULL_HANDLE :: int where "NULL_HANDLE = -1"
definition ROOT_HANDLE :: int where "ROOT_HANDLE = 0"

datatype co_state = NotActive | Blocked | Ready | Running

record Semaphore =
  sem_set :: bool
  sem_head :: int
  sem_tail :: int

definition Semaphore_new :: Semaphore where
  "Semaphore_new = \<lparr>sem_set = False, sem_head = NULL_HANDLE, sem_tail = NULL_HANDLE\<rparr>"

definition sem_is_set :: "Semaphore \<Rightarrow> bool" where
  "sem_is_set sem = sem_set sem"

definition sem_is_queue_empty :: "Semaphore \<Rightarrow> bool" where
  "sem_is_queue_empty sem \<longleftrightarrow> sem_head sem = NULL_HANDLE"

text \<open>\<open>SemLinks\<close> is a copy of the three fields of a semaphore.\<close>

record SemLinks =
  lk_set :: bool
  lk_head :: int
  lk_tail :: int

definition SemLinks_from :: "Semaphore \<Rightarrow> SemLinks" where
  "SemLinks_from sem = \<lparr>lk_set = sem_set sem, lk_head = sem_head sem, lk_tail = sem_tail sem\<rparr>"

definition SemLinks_apply :: "SemLinks \<Rightarrow> Semaphore \<Rightarrow> Semaphore" where
  "SemLinks_apply links sem =
     sem\<lparr>sem_set := lk_set links, sem_head := lk_head links, sem_tail := lk_tail links\<rparr>"

record Tcb =
  tcb_stack :: usize
  tcb_co_handle :: usize
  tcb_entry :: "usize option"
  tcb_private_arg :: usize
  tcb_state :: co_state
  tcb_next_blocked :: int

definition Tcb_empty :: Tcb where
  "Tcb_empty = \<lparr>tcb_stack = 0, tcb_co_handle = 0, tcb_entry = None, tcb_private_arg = 0,
     tcb_state = NotActive, tcb_next_blocked = NULL_HANDLE\<rparr>"

subsection \<open>Queues of handles\<close>

record co_queue =
  cq_items :: nat
  cq_head :: nat
  cq_tail :: nat
  cq_mem :: "int list"

definition Queue_new :: co_queue where
  "Queue_new = \<lparr>cq_items = 0, cq_head = 0, cq_tail = 0, cq_mem = replicate MAX_COTHREADS 0\<rparr>"

definition Queue_push :: "co_queue \<Rightarrow> int \<Rightarrow> co_queue option" where
  "Queue_push q handle =
     (if cq_items q = MAX_COTHREADS then None
      else Some (q\<lparr>cq_mem := (cq_mem q)[cq_tail q := handle], cq_items := cq_items q + 1,
        cq_tail := (cq_tail q + 1) mod MAX_COTHREADS\<rparr>))"

definition Queue_pop :: "co_queue \<Rightarrow> int option \<times> co_queue" where
  "Queue_pop q =
     (if cq_items q = 0 then (None, q)
      else (Some (cq_mem q ! cq_head q),
        q\<lparr>cq_head := (cq_head q + 1) mod MAX_COTHREADS, cq_items := cq_items q - 1\<rparr>))"

text \<open>The loop of \<open>retain\<close> pops every element and pushes the kept ones to \<open>fresh\<close>.\<close>

function Queue_retain_loop :: "(int \<Rightarrow> bool) \<Rightarrow> co_queue \<Rightarrow> co_queue \<Rightarrow> co_queue option" where
  "Queue_retain_loop keep q fresh =
     (case Queue_pop q of
        (None, q') \<Rightarrow> Some fresh
      | (Some handle, q') \<Rightarrow>
          if keep handle then
            (case Queue_push fresh handle of
               None \<Rightarrow> None
             | Some fresh' \<Rightarrow> Queue_retain_loop keep q' fresh')
          else Queue_retain_loop keep q' fresh)"
  by pat_completeness auto

lemma Queue_pop_items: "Queue_pop q = (Some h, q') \<Longrightarrow> cq_items q' < cq_items q"
  by (auto simp: Queue_pop_def split: if_splits)

termination Queue_retain_loop
  by (relation "measure (\<lambda>(_, q, _). cq_items q)") (auto dest!: Queue_pop_items [OF sym])

declare Queue_retain_loop.simps [simp del]

definition Queue_retain :: "(int \<Rightarrow> bool) \<Rightarrow> co_queue \<Rightarrow> co_queue option" where
  "Queue_retain keep q = Queue_retain_loop keep q Queue_new"

definition cq_list :: "co_queue \<Rightarrow> int list" where
  "cq_list q = map (\<lambda>i. cq_mem q ! ((cq_head q + i) mod MAX_COTHREADS)) [0..<cq_items q]"

definition cq_wf :: "co_queue \<Rightarrow> bool" where
  "cq_wf q \<longleftrightarrow> cq_items q \<le> MAX_COTHREADS \<and> cq_head q < MAX_COTHREADS
     \<and> cq_tail q = (cq_head q + cq_items q) mod MAX_COTHREADS \<and> length (cq_mem q) = MAX_COTHREADS"

lemma length_cq_list [simp]: "length (cq_list q) = cq_items q"
  by (simp add: cq_list_def)

lemma MAX_COTHREADS_pos [simp]: "0 < MAX_COTHREADS"
  by (simp add: MAX_COTHREADS_def)

lemma Queue_new_list [simp]: "cq_list Queue_new = []" "cq_wf Queue_new" "cq_items Queue_new = 0"
  by (simp_all add: Queue_new_def cq_list_def cq_wf_def)

lemma Queue_push_append:
  assumes "cq_wf q" and "cq_items q < MAX_COTHREADS"
  shows "\<exists>q'. Queue_push q h = Some q' \<and> cq_wf q' \<and> cq_list q' = cq_list q @ [h]"
proof -
  let ?q = "q\<lparr>cq_mem := (cq_mem q)[cq_tail q := h], cq_items := cq_items q + 1,
    cq_tail := (cq_tail q + 1) mod MAX_COTHREADS\<rparr>"
  have t: "cq_tail q = (cq_head q + cq_items q) mod MAX_COTHREADS" "length (cq_mem q) = MAX_COTHREADS"
    using assms by (simp_all add: cq_wf_def)
  have ne: "cq_tail q \<noteq> (cq_head q + i) mod MAX_COTHREADS" if "i < cq_items q" for i
  proof
    assume "cq_tail q = (cq_head q + i) mod MAX_COTHREADS"
    then have "(cq_items q - i) mod MAX_COTHREADS = 0"
      using that t(1) by (metis (no_types) add_diff_cancel_left less_imp_le mod_eq_dvd_iff_nat
          mod_eq_0_iff_dvd nat_add_left_cancel_le)
    then show False
      using that assms(2) by simp
  qed
  have "cq_mem ?q ! cq_tail q = h"
    using t by simp
  then have "cq_list ?q = cq_list q @ [h]"
    using ne by (simp add: cq_list_def flip: t(1))
  moreover have "cq_wf ?q"
    using assms by (simp add: cq_wf_def mod_simps)
  ultimately show ?thesis
    using assms(2) by (simp add: Queue_push_def)
qed

lemma Queue_push_full: "cq_items q = MAX_COTHREADS \<Longrightarrow> Queue_push q h = None"
  by (simp add: Queue_push_def)

lemma Queue_pop_empty: "cq_list q = [] \<Longrightarrow> Queue_pop q = (None, q)"
  by (simp add: Queue_pop_def flip: length_cq_list)

lemma Queue_pop_first:
  assumes "cq_wf q" and "cq_list q = h # hs"
  shows "\<exists>q'. Queue_pop q = (Some h, q') \<and> cq_wf q' \<and> cq_list q' = hs"
proof -
  have n: "cq_items q = Suc (length hs)"
    using arg_cong [OF assms(2), of length] by simp
  have "cq_list q = cq_mem q ! cq_head q # map (\<lambda>i. cq_mem q ! ((cq_head q + Suc i) mod MAX_COTHREADS))
      [0..<length hs]"
    using assms(1) by (simp only: cq_list_def n map_upt_first) (simp add: cq_wf_def)
  then have "h = cq_mem q ! cq_head q"
    "hs = map (\<lambda>i. cq_mem q ! ((cq_head q + Suc i) mod MAX_COTHREADS)) [0..<length hs]"
    using assms(2) by auto
  then show ?thesis
    using assms(1) n by (auto simp: Queue_pop_def cq_list_def cq_wf_def mod_simps)
qed

text \<open>A queue of handles is a bounded queue; a push to a full queue panics.\<close>

definition enq_handle :: "int \<Rightarrow> co_queue \<Rightarrow> bool \<times> co_queue" where
  "enq_handle h q = (case Queue_push q h of None \<Rightarrow> (False, q) | Some q' \<Rightarrow> (True, q'))"

interpretation handles: bounded_fifo cq_wf cq_list "\<lambda>_. MAX_COTHREADS" "\<lambda>_. \<infinity>" enq_handle Queue_pop
proof (unfold_locales, goal_cases)
  case (1 q)
  then show ?case by (simp add: cq_wf_def)
next
  case (2 q x)
  then show ?case by (simp add: enq_handle_def Queue_push_full)
next
  case (3 q x)
  then show ?case using Queue_push_append [of q x] by (auto simp: enq_handle_def)
next
  case (4 q)
  then show ?case by (simp add: Queue_pop_empty)
next
  case (5 q x xs)
  then show ?case using Queue_pop_first [of q x xs] by auto
qed

lemma Queue_retain_loop_filter:
  "cq_wf q \<Longrightarrow> cq_wf fresh \<Longrightarrow> cq_items q + cq_items fresh \<le> MAX_COTHREADS \<Longrightarrow>
    \<exists>q'. Queue_retain_loop keep q fresh = Some q' \<and> cq_wf q' \<and> cq_list q' = cq_list fresh @ filter keep (cq_list q)"
proof (induction "cq_list q" arbitrary: q fresh)
  case Nil
  then show ?case
    by (simp add: Queue_retain_loop.simps [of keep q] Queue_pop_empty)
next
  case (Cons h hs)
  have n: "cq_items q = Suc (length hs)"
    using arg_cong [OF Cons.hyps(2), of length] by simp
  obtain q1 where q1: "Queue_pop q = (Some h, q1)" "cq_wf q1" "cq_list q1 = hs"
    using Queue_pop_first [OF Cons.prems(1) Cons.hyps(2) [symmetric]] by blast
  then have n1: "cq_items q1 = length hs"
    using length_cq_list [of q1] by simp
  show ?case
  proof (cases "keep h")
    case True
    obtain f where f: "Queue_push fresh h = Some f" "cq_wf f" "cq_list f = cq_list fresh @ [h]"
      using Queue_push_append [OF Cons.prems(2), of h] Cons.prems(3) n by auto
    then have "cq_items f = cq_items fresh + 1"
      using length_cq_list [of f] by simp
    then show ?thesis
      using Cons.hyps(1) [OF q1(3) [symmetric] q1(2) f(2)] Cons.prems(3) True q1 f n n1
      by (auto simp: Queue_retain_loop.simps [of keep q] Cons.hyps(2) [symmetric])
  next
    case False
    then show ?thesis
      using Cons.hyps(1) [OF q1(3) [symmetric] q1(2) Cons.prems(2)] Cons.prems(3) q1 n n1
      by (auto simp: Queue_retain_loop.simps [of keep q] Cons.hyps(2) [symmetric])
  qed
qed

lemma Queue_retain_filter:
  assumes "cq_wf q"
  shows "\<exists>q'. Queue_retain keep q = Some q' \<and> cq_wf q' \<and> cq_list q' = filter keep (cq_list q)"
  using Queue_retain_loop_filter [OF assms Queue_new_list(2), of keep] assms
  by (simp add: Queue_retain_def) (simp add: cq_wf_def)

subsection \<open>The controller\<close>

record Control =
  initialised :: bool
  stack_size :: usize
  running :: int
  tcbs :: "Tcb list"
  free :: co_queue
  sched :: co_queue
  channels :: "Semaphore list"

definition Control_empty :: Control where
  "Control_empty = \<lparr>initialised = False, stack_size = 0, running = ROOT_HANDLE,
     tcbs = replicate MAX_COTHREADS Tcb_empty, free = Queue_new, sched = Queue_new,
     channels = replicate MICROKIT_MAX_CHANNELS Semaphore_new\<rparr>"

text \<open>The processor the library is compiled for.\<close>

datatype arch = X86_64 | Aarch64 | Riscv64

record rt =
  rt_control :: Control
  rt_active :: usize
  rt_arch :: arch
  rt_sems :: "Semaphore list"

definition with_control :: "(Control \<Rightarrow> ('r \<times> Control) option) \<Rightarrow> rt \<Rightarrow> ('r \<times> rt) option" where
  "with_control body s =
     (if initialised (rt_control s)
      then map_option (\<lambda>(r, c). (r, s\<lparr>rt_control := c\<rparr>)) (body (rt_control s))
      else None)"

definition idx :: "int \<Rightarrow> nat option" where
  "idx handle = (if 0 \<le> handle \<and> nat handle < MAX_COTHREADS then Some (nat handle) else None)"

definition channel_index :: "nat \<Rightarrow> nat option" where
  "channel_index channel = (if channel < MICROKIT_MAX_CHANNELS then Some channel else None)"

definition upd_tcb :: "nat \<Rightarrow> (Tcb \<Rightarrow> Tcb) \<Rightarrow> Control \<Rightarrow> Control" where
  "upd_tcb i f c = c\<lparr>tcbs := (tcbs c)[i := f (tcbs c ! i)]\<rparr>"

definition co_switch :: "usize \<Rightarrow> rt \<Rightarrow> rt option" where
  "co_switch to s = (if to = 0 \<or> rt_active s = 0 then None else Some (s\<lparr>rt_active := to\<rparr>))"

text \<open>\<open>derive\<close> plants the first frame in the stack and returns the context: the bottom of the stack
  on x86-64, its topmost word on the two other processors. The planted registers belong to the swap.\<close>

definition derive :: "arch \<Rightarrow> usize \<Rightarrow> usize \<Rightarrow> usize" where
  "derive arch memory sz =
     (case arch of
        X86_64 \<Rightarrow> memory
      | Aarch64 \<Rightarrow> memory + 8 * (sz div 8 - 1)
      | Riscv64 \<Rightarrow> memory + 8 * (sz div 8 - 1))"

text \<open>The two stores that probe a stack write only its own bytes. \<open>stack_end\<close> is the checked
  addition.\<close>

definition stack_end :: "usize \<Rightarrow> usize \<Rightarrow> usize option" where
  "stack_end start sz = (if unat start + unat sz < 2 ^ 64 then Some (start + sz) else None)"

definition stacks_disjoint :: "usize \<Rightarrow> usize \<Rightarrow> usize \<Rightarrow> bool" where
  "stacks_disjoint sz start other =
     (case (stack_end start sz, stack_end other sz) of
        (Some end', Some other_end) \<Rightarrow> \<not> (start < other_end \<and> other < end')
      | _ \<Rightarrow> False)"

fun validate_ranges :: "usize \<Rightarrow> usize list \<Rightarrow> bool" where
  "validate_ranges sz [] = True"
| "validate_ranges sz (start # rest) \<longleftrightarrow>
     stack_end start sz \<noteq> None \<and> list_all (stacks_disjoint sz start) rest \<and> validate_ranges sz rest"

definition validate_stacks :: "usize \<Rightarrow> usize list \<Rightarrow> unit option" where
  "validate_stacks sz stacks =
     (if list_all (\<lambda>stack. stack \<noteq> 0 \<and> stack mod 16 = 0) stacks \<and> validate_ranges sz stacks
      then Some () else None)"

fun init_workers :: "nat \<Rightarrow> usize list \<Rightarrow> Control \<Rightarrow> Control option" where
  "init_workers handle [] c = Some c"
| "init_workers handle (stack # rest) c = do {
     let c1 = upd_tcb handle (\<lambda>t. t\<lparr>tcb_stack := stack\<rparr>) c;
     q \<leftarrow> Queue_push (free c1) (int handle);
     init_workers (handle + 1) rest (c1\<lparr>free := q\<rparr>)
   }"

text \<open>\<open>root_ctx\<close> is the address of the static root buffer that \<open>install_root\<close> makes
  active.\<close>

definition microkit_cothread_init :: "usize \<Rightarrow> usize list \<Rightarrow> usize \<Rightarrow> rt \<Rightarrow> rt option" where
  "microkit_cothread_init sz stacks root_ctx s =
     (if sz < MIN_STACK_SIZE \<or> sz mod 16 \<noteq> 0 then None
      else do {
        validate_stacks sz stacks;
        if initialised (rt_control s) then None
        else do {
          let c = Control_empty\<lparr>stack_size := sz, running := ROOT_HANDLE\<rparr>;
          let c1 = upd_tcb 0 (\<lambda>t. t\<lparr>tcb_state := Running, tcb_co_handle := root_ctx\<rparr>) c;
          c2 \<leftarrow> init_workers 1 stacks c1;
          Some (s\<lparr>rt_control := c2\<lparr>initialised := True\<rparr>, rt_active := root_ctx\<rparr>)
        }
      })"

definition microkit_cothread_spawn :: "usize \<Rightarrow> usize \<Rightarrow> rt \<Rightarrow> (int \<times> rt) option" where
  "microkit_cothread_spawn entry private_arg s =
     with_control (\<lambda>c. case Queue_pop (free c) of
         (None, q) \<Rightarrow> Some (NULL_HANDLE, c\<lparr>free := q\<rparr>)
       | (Some handle, q) \<Rightarrow> do {
           let c1 = c\<lparr>free := q\<rparr>;
           index \<leftarrow> idx handle;
           let co_handle = derive (rt_arch s) (tcb_stack (tcbs c1 ! index)) (stack_size c1);
           let c2 = upd_tcb index (\<lambda>t. t\<lparr>tcb_co_handle := co_handle, tcb_entry := Some entry,
             tcb_private_arg := private_arg, tcb_state := Ready, tcb_next_blocked := NULL_HANDLE\<rparr>) c1;
           q' \<leftarrow> Queue_push (sched c2) handle;
           Some (handle, c2\<lparr>sched := q'\<rparr>)
         }) s"

definition microkit_cothread_my_handle :: "rt \<Rightarrow> (int \<times> rt) option" where
  "microkit_cothread_my_handle = with_control (\<lambda>c. Some (running c, c))"

definition microkit_cothread_my_arg :: "rt \<Rightarrow> (usize \<times> rt) option" where
  "microkit_cothread_my_arg =
     with_control (\<lambda>c. if running c = ROOT_HANDLE then None
       else map_option (\<lambda>i. (tcb_private_arg (tcbs c ! i), c)) (idx (running c)))"

definition microkit_cothread_query_state :: "int \<Rightarrow> rt \<Rightarrow> (co_state \<times> rt) option" where
  "microkit_cothread_query_state handle =
     with_control (\<lambda>c. map_option (\<lambda>i. (tcb_state (tcbs c ! i), c)) (idx handle))"

text \<open>The loop of \<open>take_next\<close>, then its last three statements.\<close>

function take_ready :: "Control \<Rightarrow> (int \<times> Control) option" where
  "take_ready c =
     (case Queue_pop (sched c) of
        (None, q) \<Rightarrow> Some (ROOT_HANDLE, c\<lparr>sched := q\<rparr>)
      | (Some handle, q) \<Rightarrow>
          if handle = ROOT_HANDLE then Some (handle, c\<lparr>sched := q\<rparr>)
          else case idx handle of
              None \<Rightarrow> None
            | Some i \<Rightarrow>
                if tcb_state (tcbs c ! i) = Ready then Some (handle, c\<lparr>sched := q\<rparr>)
                else take_ready (c\<lparr>sched := q\<rparr>))"
  by pat_completeness auto

termination take_ready
  by (relation "measure (\<lambda>c. cq_items (sched c))") (auto dest!: Queue_pop_items [OF sym])

declare take_ready.simps [simp del]

definition take_next :: "Control \<Rightarrow> (usize \<times> Control) option" where
  "take_next c = do {
     (next, c1) \<leftarrow> take_ready c;
     i \<leftarrow> idx next;
     let c2 = (upd_tcb i (\<lambda>t. t\<lparr>tcb_state := Running\<rparr>) c1)\<lparr>running := next\<rparr>;
     Some (tcb_co_handle (tcbs c2 ! i), c2)
   }"

definition microkit_cothread_yield :: "rt \<Rightarrow> rt option" where
  "microkit_cothread_yield s = do {
     (switched, s1) \<leftarrow> with_control (\<lambda>c. do {
         q \<leftarrow> Queue_push (sched c) (running c);
         i \<leftarrow> idx (running c);
         take_next (upd_tcb i (\<lambda>t. t\<lparr>tcb_state := Ready\<rparr>) (c\<lparr>sched := q\<rparr>))
       }) s;
     co_switch switched s1
   }"

definition release :: "int \<Rightarrow> Control \<Rightarrow> (usize option \<times> Control) option" where
  "release handle c = do {
     index \<leftarrow> idx handle;
     if handle = ROOT_HANDLE then None
     else if tcb_state (tcbs c ! index) = NotActive \<or> tcb_state (tcbs c ! index) = Blocked
       \<or> tcb_state (tcbs c ! index) = Running \<and> handle \<noteq> running c then None
     else do {
       q \<leftarrow> Queue_retain (\<lambda>queued. queued \<noteq> handle) (sched c);
       p \<leftarrow> Queue_push (free c) handle;
       let c1 = upd_tcb index (\<lambda>t. t\<lparr>tcb_state := NotActive, tcb_entry := None\<rparr>)
         (c\<lparr>sched := q, free := p\<rparr>);
       if handle = running c1 then map_option (\<lambda>(next, c2). (Some next, c2)) (take_next c1)
       else Some (None, c1)
     }
   }"

text \<open>After the switch the destroyed cothread does not run again.\<close>

definition microkit_cothread_destroy :: "int \<Rightarrow> rt \<Rightarrow> rt option" where
  "microkit_cothread_destroy handle s = do {
     (switched, s1) \<leftarrow> with_control (release handle) s;
     case switched of None \<Rightarrow> Some s1 | Some next \<Rightarrow> co_switch next s1
   }"

definition block_running :: "SemLinks \<Rightarrow> rt \<Rightarrow> (bool \<times> SemLinks \<times> rt) option" where
  "block_running links s =
     (if lk_set links then Some (False, links\<lparr>lk_set := False\<rparr>, s)
      else do {
        (links', s1) \<leftarrow> with_control (\<lambda>c.
          if running c = ROOT_HANDLE then None
          else do {
            index \<leftarrow> idx (running c);
            let c1 = upd_tcb index (\<lambda>t. t\<lparr>tcb_state := Blocked, tcb_next_blocked := NULL_HANDLE\<rparr>) c;
            if lk_head links = NULL_HANDLE
            then Some (links\<lparr>lk_head := running c, lk_tail := running c\<rparr>, c1)
            else do {
              tail \<leftarrow> idx (lk_tail links);
              Some (links\<lparr>lk_tail := running c\<rparr>,
                upd_tcb tail (\<lambda>t. t\<lparr>tcb_next_blocked := running c\<rparr>) c1)
            }
          }) s;
        Some (True, links', s1)
      })"

definition signal_one :: "SemLinks \<Rightarrow> Control \<Rightarrow> ((usize option \<times> SemLinks) \<times> Control) option" where
  "signal_one links c =
     (if lk_set links then Some ((None, links), c)
      else if lk_head links = NULL_HANDLE then Some ((None, links\<lparr>lk_set := True\<rparr>), c)
      else do {
        let head = lk_head links;
        h \<leftarrow> idx head;
        let next = tcb_next_blocked (tcbs c ! h);
        let c1 = upd_tcb h (\<lambda>t. t\<lparr>tcb_next_blocked := NULL_HANDLE\<rparr>) c;
        q \<leftarrow> Queue_push (sched c1) (running c1);
        r \<leftarrow> idx (running c1);
        let c2 = upd_tcb r (\<lambda>t. t\<lparr>tcb_state := Ready\<rparr>) (c1\<lparr>sched := q\<rparr>);
        let links1 = (if next = NULL_HANDLE
          then links\<lparr>lk_head := next, lk_tail := NULL_HANDLE, lk_set := False\<rparr>
          else links\<lparr>lk_head := next\<rparr>);
        let c3 = upd_tcb h (\<lambda>t. t\<lparr>tcb_state := Running\<rparr>) (c2\<lparr>running := head\<rparr>);
        Some ((Some (tcb_co_handle (tcbs c3 ! h)), links1), c3)
      })"

definition scheduled_handle :: "rt \<Rightarrow> (usize \<times> rt) option" where
  "scheduled_handle = with_control take_next"

definition switch_next :: "bool \<Rightarrow> rt \<Rightarrow> rt option" where
  "switch_next blocked s =
     (if blocked then do { (next, s1) \<leftarrow> scheduled_handle s; co_switch next s1 } else Some s)"

text \<open>A semaphore of the client is named by its position in \<open>rt_sems\<close>.\<close>

definition microkit_cothread_semaphore_wait :: "nat \<Rightarrow> rt \<Rightarrow> rt option" where
  "microkit_cothread_semaphore_wait i s = do {
     (blocked, links, s1) \<leftarrow> block_running (SemLinks_from (rt_sems s ! i)) s;
     switch_next blocked (s1\<lparr>rt_sems := (rt_sems s1)[i := SemLinks_apply links (rt_sems s1 ! i)]\<rparr>)
   }"

definition microkit_cothread_semaphore_signal :: "nat \<Rightarrow> rt \<Rightarrow> rt option" where
  "microkit_cothread_semaphore_signal i s = do {
     ((wake, links), s1) \<leftarrow> with_control (signal_one (SemLinks_from (rt_sems s ! i))) s;
     let s2 = s1\<lparr>rt_sems := (rt_sems s1)[i := SemLinks_apply links (rt_sems s1 ! i)]\<rparr>;
     case wake of None \<Rightarrow> Some s2 | Some handle \<Rightarrow> co_switch handle s2
   }"

definition microkit_cothread_semaphore_init :: "nat \<Rightarrow> rt \<Rightarrow> rt" where
  "microkit_cothread_semaphore_init i s = s\<lparr>rt_sems := (rt_sems s)[i := Semaphore_new]\<rparr>"

definition set_channel :: "nat \<Rightarrow> SemLinks \<Rightarrow> Control \<Rightarrow> Control" where
  "set_channel i links c = c\<lparr>channels := (channels c)[i := SemLinks_apply links (channels c ! i)]\<rparr>"

definition microkit_cothread_wait_on_channel :: "nat \<Rightarrow> rt \<Rightarrow> rt option" where
  "microkit_cothread_wait_on_channel channel s = do {
     i \<leftarrow> channel_index channel;
     (links, s1) \<leftarrow> with_control (\<lambda>c. Some (SemLinks_from (channels c ! i), c)) s;
     (blocked, links', s2) \<leftarrow> block_running links s1;
     (u, s3) \<leftarrow> with_control (\<lambda>c. Some ((), set_channel i links' c)) s2;
     switch_next blocked s3
   }"

definition microkit_cothread_recv_ntfn :: "nat \<Rightarrow> rt \<Rightarrow> rt option" where
  "microkit_cothread_recv_ntfn channel s = do {
     i \<leftarrow> channel_index channel;
     (wake, s1) \<leftarrow> with_control (\<lambda>c.
       if running c \<noteq> ROOT_HANDLE then None
       else do {
         ((wake, links), c1) \<leftarrow> signal_one (SemLinks_from (channels c ! i)) c;
         Some (wake, set_channel i links c1)
       }) s;
     case wake of None \<Rightarrow> Some s1 | Some handle \<Rightarrow> co_switch handle s1
   }"

text \<open>The first instruction of a cothread looks up its entry; when the entry returns, the
  cothread destroys itself.\<close>

definition lerux_cothread_started :: "rt \<Rightarrow> (usize \<times> rt) option" where
  "lerux_cothread_started =
     with_control (\<lambda>c. do {
       i \<leftarrow> idx (running c);
       entry \<leftarrow> tcb_entry (tcbs c ! i);
       Some (entry, c)
     })"

definition cothread_returns :: "rt \<Rightarrow> rt option" where
  "cothread_returns s = do {
     (handle, s1) \<leftarrow> microkit_cothread_my_handle s;
     microkit_cothread_destroy handle s1
   }"

end
