(* ===== verification/CothreadInv.thy ===== *)
theory CothreadInv
  imports Cothread
begin

text \<open>
  The invariant of the cothread runtime and its preservation by every operation.
  \<open>placed\<close> divides the handles among the places; \<open>ex\<close> lists handles that are between
  two places in the middle of an operation. One lemma per elementary move (to the back of the
  scheduling queue, to the free pool, onto and off a waiter list, to the processor) carries the
  proofs of the operations.
\<close>

abbreviation st :: "Tcb list \<Rightarrow> int \<Rightarrow> co_state" where
  "st ts h \<equiv> tcb_state (ts ! nat h)"

abbreviation nxt :: "Tcb list \<Rightarrow> int \<Rightarrow> int" where
  "nxt ts h \<equiv> tcb_next_blocked (ts ! nat h)"

definition all_handles :: "int list" where
  "all_handles = [0..7]"

definition live :: "Tcb list \<Rightarrow> int \<Rightarrow> bool" where
  "live ts h \<longleftrightarrow> tcb_co_handle (ts ! nat h) \<noteq> 0 \<and> (h \<noteq> ROOT_HANDLE \<longrightarrow> tcb_entry (ts ! nat h) \<noteq> None)"

fun linked :: "Tcb list \<Rightarrow> int \<Rightarrow> int list \<Rightarrow> bool" where
  "linked ts h [] \<longleftrightarrow> h = NULL_HANDLE"
| "linked ts h (x # xs) \<longleftrightarrow> h = x \<and> linked ts (nxt ts x) xs"

definition sem_ok :: "Tcb list \<Rightarrow> Semaphore \<Rightarrow> int list \<Rightarrow> bool" where
  "sem_ok ts sem w \<longleftrightarrow> linked ts (sem_head sem) w
     \<and> sem_tail sem = (if w = [] then NULL_HANDLE else last w) \<and> (sem_set sem \<longrightarrow> w = [])"

text \<open>A stack that was validated: not null, at least a page and inside the address space.\<close>

definition stack_fits :: "usize \<Rightarrow> usize \<Rightarrow> bool" where
  "stack_fits sz stack \<longleftrightarrow> stack \<noteq> 0 \<and> MIN_STACK_SIZE \<le> sz \<and> unat stack + unat sz < 2 ^ 64"

lemma derive_nonzero:
  assumes "stack_fits sz stack"
  shows "derive arch stack sz \<noteq> 0"
proof -
  have sz: "8 \<le> unat sz" and room: "unat stack + unat sz < 2 ^ 64" and nz: "stack \<noteq> 0"
    using assms by (auto simp: stack_fits_def MIN_STACK_SIZE_def word_le_nat_alt)
  have "1 \<le> unat sz div 8" using sz by simp
  then have k: "unat (sz div 8 - 1) = unat sz div 8 - 1"
    by (simp add: unat_sub word_le_nat_alt unat_div)
  have "unat (8 * j) \<le> 8 * unat j" for j :: usize by (simp add: unat_word_ariths)
  from this [of "sz div 8 - 1"] have "unat (8 * (sz div 8 - 1)) \<le> 8 * (unat sz div 8 - 1)" unfolding k .
  also have "\<dots> \<le> unat sz" by linarith
  finally have "unat (stack + 8 * (sz div 8 - 1)) = unat stack + unat (8 * (sz div 8 - 1))"
    using room by (subst unat_add_lem [THEN iffD1]) simp_all
  then have "stack + 8 * (sz div 8 - 1) \<noteq> 0"
    using nz by (metis add_is_0 unat_eq_0)
  then show ?thesis using nz by (simp add: derive_def split: arch.split)
qed

definition placed ::
  "usize \<Rightarrow> Tcb list \<Rightarrow> int list \<Rightarrow> int list \<Rightarrow> Semaphore list \<Rightarrow> int list list \<Rightarrow> int list \<Rightarrow> bool" where
  "placed sz ts rdy fre sems ws ex \<longleftrightarrow>
     length ts = MAX_COTHREADS
     \<and> mset (ex @ rdy @ fre @ concat ws) = mset all_handles
     \<and> (\<forall>h\<in>set rdy. st ts h = Ready \<and> live ts h)
     \<and> (\<forall>h\<in>set fre. st ts h = NotActive)
     \<and> (\<forall>h\<in>set (concat ws). st ts h = Blocked \<and> live ts h)
     \<and> ROOT_HANDLE \<notin> set fre \<and> ROOT_HANDLE \<notin> set (concat ws)
     \<and> list_all2 (sem_ok ts) sems ws
     \<and> (\<forall>h\<in>set all_handles. h \<noteq> ROOT_HANDLE \<longrightarrow> stack_fits sz (tcb_stack (ts ! nat h)))"

definition all_sems :: "rt \<Rightarrow> Semaphore list" where
  "all_sems s = channels (rt_control s) @ rt_sems s"

definition ctl_ok :: "Control \<Rightarrow> bool" where
  "ctl_ok c \<longleftrightarrow> initialised c \<and> cq_wf (free c) \<and> cq_wf (sched c)
     \<and> length (channels c) = MICROKIT_MAX_CHANNELS"

definition cplaced :: "Control \<Rightarrow> Semaphore list \<Rightarrow> int list list \<Rightarrow> int list \<Rightarrow> bool" where
  "cplaced c sems ws ex \<longleftrightarrow>
     ctl_ok c \<and> placed (stack_size c) (tcbs c) (cq_list (sched c)) (cq_list (free c)) sems ws ex"

definition cinv :: "Control \<Rightarrow> Semaphore list \<Rightarrow> int list list \<Rightarrow> bool" where
  "cinv c sems ws \<longleftrightarrow> cplaced c sems ws [running c]
     \<and> st (tcbs c) (running c) = Running \<and> live (tcbs c) (running c)"

definition rt_inv :: "rt \<Rightarrow> bool" where
  "rt_inv s \<longleftrightarrow> (\<exists>ws. cinv (rt_control s) (all_sems s) ws)
     \<and> rt_active s = tcb_co_handle (tcbs (rt_control s) ! nat (running (rt_control s)))"

subsection \<open>Permutations\<close>

lemma all_handles_set: "h \<in> set all_handles \<longleftrightarrow> 0 \<le> h \<and> h < 8"
  by (auto simp: all_handles_def)

lemma all_handles_distinct: "distinct all_handles"
  by (simp add: all_handles_def)

lemma placed_members:
  assumes "placed sz ts rdy fre sems ws ex"
  shows "set (ex @ rdy @ fre @ concat ws) = set all_handles"
    and "distinct (ex @ rdy @ fre @ concat ws)"
    and "length (ex @ rdy @ fre @ concat ws) = 8"
proof -
  have m: "mset (ex @ rdy @ fre @ concat ws) = mset all_handles"
    using assms by (simp add: placed_def)
  show "set (ex @ rdy @ fre @ concat ws) = set all_handles"
    using m by (rule mset_eq_setD)
  show "distinct (ex @ rdy @ fre @ concat ws)"
    using mset_eq_imp_distinct_iff [OF m] all_handles_distinct by simp
  show "length (ex @ rdy @ fre @ concat ws) = 8"
    using mset_eq_length [OF m] by (simp add: all_handles_def)
qed

lemma placed_idx:
  assumes "placed sz ts rdy fre sems ws ex" and "h \<in> set (ex @ rdy @ fre @ concat ws)"
  shows "idx h = Some (nat h)" and "nat h < length ts" and "0 \<le> h"
proof -
  have "h \<in> set all_handles" and "length ts = 8"
    using assms placed_members(1) [OF assms(1)] by (auto simp: placed_def MAX_COTHREADS_def)
  then show "idx h = Some (nat h)" and "nat h < length ts" and "0 \<le> h"
    by (auto simp: all_handles_set idx_def MAX_COTHREADS_def)
qed

lemma mset_concat_update:
  "i < length ws \<Longrightarrow> mset (concat (ws[i := xs])) + mset (ws ! i) = mset (concat ws) + mset xs"
proof (induction ws arbitrary: i)
  case Nil
  then show ?case by simp
next
  case (Cons w ws)
  then show ?case by (cases i) (auto simp: algebra_simps)
qed

lemma mset_exchange:
  fixes a b c d v w :: "'a multiset"
  assumes "a + w = b + v" and "c + v = d + w"
  shows "a + c = b + d"
proof -
  have "(a + c) + (v + w) = (a + w) + (c + v)"
    by (simp only: ac_simps)
  also have "\<dots> = (b + d) + (v + w)"
    by (simp only: assms ac_simps)
  finally show ?thesis
    by (simp only: add_right_cancel)
qed

lemma set_concat_update:
  assumes "i < length ws"
  shows "set (concat (ws[i := xs])) \<subseteq> set xs \<union> set (concat ws)"
  using assms by (auto dest!: set_update_subset_insert [THEN subsetD])

lemma nth_in_concat: "i < length ws \<Longrightarrow> x \<in> set (ws ! i) \<Longrightarrow> x \<in> set (concat ws)"
  using nth_mem by fastforce

lemma distinct_concat_disjoint:
  "distinct (concat ws) \<Longrightarrow> i < j \<Longrightarrow> j < length ws \<Longrightarrow> set (ws ! i) \<inter> set (ws ! j) = {}"
proof (induction ws arbitrary: i j)
  case Nil
  then show ?case by simp
next
  case (Cons w ws)
  obtain k where k: "j = Suc k" "k < length ws"
    using Cons.prems(2,3) by (cases j) auto
  show ?case
  proof (cases i)
    case 0
    have "set (ws ! k) \<subseteq> set (concat ws)"
      using nth_in_concat [OF k(2)] by blast
    then show ?thesis
      using 0 k Cons.prems(1) by auto
  next
    case (Suc m)
    then show ?thesis
      using Cons.IH [of m k] Cons.prems k by simp
  qed
qed

lemma distinct_concat_apart:
  "distinct (concat ws) \<Longrightarrow> i < length ws \<Longrightarrow> j < length ws \<Longrightarrow> i \<noteq> j \<Longrightarrow> x \<in> set (ws ! i) \<Longrightarrow>
    x \<notin> set (ws ! j)"
  using distinct_concat_disjoint [of ws i j] distinct_concat_disjoint [of ws j i]
  by (cases "i < j") auto

lemma linked_frame:
  "\<forall>x\<in>set w. nxt ts' x = nxt ts x \<Longrightarrow> linked ts' h w = linked ts h w"
  by (induction w arbitrary: h) auto

lemma sem_ok_frame: "\<forall>x\<in>set w. nxt ts' x = nxt ts x \<Longrightarrow> sem_ok ts' sem w = sem_ok ts sem w"
  using linked_frame [of w ts' ts "sem_head sem"] by (simp add: sem_ok_def)

lemma nth_update_if: "xs[k := v] ! x = (if k = x \<and> k < length xs then v else xs ! x)"
  by (cases "k < length xs") (auto simp: nth_list_update list_update_beyond)

lemma nat_handle_eq: "0 \<le> h \<Longrightarrow> 0 \<le> x \<Longrightarrow> (nat x = nat h) = (x = (h :: int))"
  by auto

subsection \<open>Moves\<close>

lemma placed_frame:
  assumes p: "placed sz ts rdy fre sems ws ex" and len: "length ts' = length ts"
    and frame: "\<And>x. x \<in> set rdy \<union> set fre \<union> set (concat ws) \<Longrightarrow> ts' ! nat x = ts ! nat x"
    and stk: "\<And>x. x \<in> set ex \<Longrightarrow> tcb_stack (ts' ! nat x) = tcb_stack (ts ! nat x)"
  shows "placed sz ts' rdy fre sems ws ex"
proof -
  have "tcb_stack (ts' ! nat x) = tcb_stack (ts ! nat x)" if "x \<in> set all_handles" for x
  proof -
    have "x \<in> set ex \<or> x \<in> set rdy \<union> set fre \<union> set (concat ws)"
      using that placed_members(1) [OF p] by auto
    then show ?thesis
      by (metis frame stk)
  qed
  moreover have "list_all2 (sem_ok ts') sems ws"
  proof -
    have "sem_ok ts' (sems ! j) (ws ! j)" if "j < length ws" "sem_ok ts (sems ! j) (ws ! j)" for j
      using that sem_ok_frame [of "ws ! j" ts' ts] frame nth_in_concat [OF that(1)] by simp
    then show ?thesis
      using p by (simp add: placed_def list_all2_conv_all_nth)
  qed
  ultimately show ?thesis
    using p len by (auto simp: placed_def live_def frame)
qed

lemma placed_update:
  assumes p: "placed sz ts rdy fre sems ws ex" and h: "h \<in> set ex"
    and stk: "tcb_stack (f (ts ! nat h)) = tcb_stack (ts ! nat h)"
  shows "placed sz (ts[nat h := f (ts ! nat h)]) rdy fre sems ws ex"
proof (rule placed_frame [OF p])
  fix x
  assume x: "x \<in> set rdy \<union> set fre \<union> set (concat ws)"
  then have "x \<noteq> h" and "x \<in> set (ex @ rdy @ fre @ concat ws)"
    using h placed_members(2) [OF p] by auto
  then have "nat x \<noteq> nat h"
    using placed_idx(3) [OF p, of x] placed_idx(3) [OF p, of h] h by auto
  then show "ts[nat h := f (ts ! nat h)] ! nat x = ts ! nat x"
    by simp
next
  fix x
  assume "x \<in> set ex"
  then show "tcb_stack (ts[nat h := f (ts ! nat h)] ! nat x) = tcb_stack (ts ! nat x)"
    using stk placed_idx(2) [OF p, of x] by (cases "nat x = nat h") auto
qed simp

lemma placed_to_ready:
  "placed sz ts rdy fre sems ws (h # ex) \<Longrightarrow> live ts h \<Longrightarrow> st ts h = Ready \<Longrightarrow>
    placed sz ts (rdy @ [h]) fre sems ws ex"
  by (auto simp: placed_def)

lemma placed_to_free:
  "placed sz ts rdy fre sems ws (h # ex) \<Longrightarrow> h \<noteq> ROOT_HANDLE \<Longrightarrow> st ts h = NotActive \<Longrightarrow>
    placed sz ts rdy (fre @ [h]) sems ws ex"
  by (auto simp: placed_def)

lemma placed_from_ready: "placed sz ts (h # rdy) fre sems ws ex \<Longrightarrow> placed sz ts rdy fre sems ws (h # ex)"
  by (auto simp: placed_def)

lemma placed_from_free: "placed sz ts rdy (h # fre) sems ws ex \<Longrightarrow> placed sz ts rdy fre sems ws (h # ex)"
  by (auto simp: placed_def)

lemma mset_filter_neq:
  "distinct xs \<Longrightarrow> h \<in> set xs \<Longrightarrow> mset xs = add_mset h (mset (filter (\<lambda>x. x \<noteq> h) xs))"
proof (induction xs)
  case Nil
  then show ?case by simp
next
  case (Cons x xs)
  then have "x = h \<Longrightarrow> filter (\<lambda>x. x \<noteq> h) xs = xs"
    by (auto simp: filter_id_conv)
  with Cons show ?case by (cases "x = h") auto
qed

lemma placed_remove_ready:
  assumes "placed sz ts rdy fre sems ws ex" and "h \<in> set rdy"
  shows "placed sz ts (filter (\<lambda>x. x \<noteq> h) rdy) fre sems ws (h # ex)"
proof -
  have "mset rdy = add_mset h (mset (filter (\<lambda>x. x \<noteq> h) rdy))"
    using placed_members(2) [OF assms(1)] assms(2) by (intro mset_filter_neq) auto
  then show ?thesis
    using assms(1) by (auto simp: placed_def simp del: mset_filter)
qed

text \<open>A new last waiter, and the first waiter off the list.\<close>

lemma linked_append:
  "linked ts h w \<Longrightarrow> w \<noteq> [] \<Longrightarrow> linked ts' h (w @ [r])" 
  if "nxt ts' r = NULL_HANDLE" "w \<noteq> [] \<Longrightarrow> nxt ts' (last w) = r"
    "\<forall>x\<in>set (butlast w). nxt ts' x = nxt ts x" for ts ts' r
  using that
proof (induction w arbitrary: h)
  case Nil
  then show ?case by simp
next
  case (Cons x w)
  then show ?case by (cases w) auto
qed

lemma placed_waiters:
  assumes p: "placed sz ts rdy fre sems ws ex" and i: "i < length sems"
  shows "i < length ws" and "sem_ok ts (sems ! i) (ws ! i)" and "set (ws ! i) \<subseteq> set (concat ws)"
    and "distinct (ws ! i)"
proof -
  show "i < length ws" and "sem_ok ts (sems ! i) (ws ! i)"
    using p i by (auto simp: placed_def list_all2_conv_all_nth)
  then show "set (ws ! i) \<subseteq> set (concat ws)"
    using nth_in_concat [of i ws] by blast
  have "distinct (concat ws)"
    using placed_members(2) [OF p] by simp
  then show "distinct (ws ! i)"
    using \<open>i < length ws\<close> by (induction ws arbitrary: i) (auto simp: nth_Cons split: nat.splits)
qed

lemma placed_sem_update:
  assumes p: "placed sz ts rdy fre sems ws ex" and i: "i < length sems"
    and ok: "sem_ok ts' sem' w'" and others: "\<And>j. j < length sems \<Longrightarrow> j \<noteq> i \<Longrightarrow> sem_ok ts' (sems ! j) (ws ! j)"
    and same: "\<And>x. tcb_state (ts' ! x) = tcb_state (ts ! x) \<and> tcb_co_handle (ts' ! x) = tcb_co_handle (ts ! x)
      \<and> tcb_entry (ts' ! x) = tcb_entry (ts ! x) \<and> tcb_stack (ts' ! x) = tcb_stack (ts ! x)"
    and len: "length ts' = length ts"
    and perm: "mset ex' + mset w' = mset ex + mset (ws ! i)"
    and new: "\<And>x. x \<in> set w' \<Longrightarrow> st ts x = Blocked \<and> live ts x \<and> x \<noteq> ROOT_HANDLE"
  shows "placed sz ts' rdy fre (sems[i := sem']) (ws[i := w']) ex'"
proof -
  note w = placed_waiters [OF p i]
  have live: "live ts' x = live ts x" for x
    using same [of "nat x"] by (simp add: live_def)
  have "mset (concat (ws[i := w'])) + mset (ws ! i) = mset (concat ws) + mset w'"
    using w(1) by (rule mset_concat_update)
  then have e: "mset ex' + mset (concat (ws[i := w'])) = mset ex + mset (concat ws)"
    by (rule mset_exchange [OF perm])
  have "mset (ex' @ rdy @ fre @ concat (ws[i := w'])) = (mset ex' + mset (concat (ws[i := w']))) + mset (rdy @ fre)"
    by (simp add: ac_simps)
  also have "\<dots> = mset (ex @ rdy @ fre @ concat ws)"
    by (simp add: e ac_simps)
  finally have "mset (ex' @ rdy @ fre @ concat (ws[i := w'])) = mset all_handles"
    using p by (simp only: placed_def)
  moreover have "\<forall>x\<in>set (concat (ws[i := w'])). st ts x = Blocked \<and> live ts x \<and> x \<noteq> ROOT_HANDLE"
  proof -
    have "\<forall>x\<in>set (concat ws). st ts x = Blocked \<and> live ts x \<and> x \<noteq> ROOT_HANDLE"
      using p unfolding placed_def by blast
    then show ?thesis
      using set_concat_update [OF w(1), of w'] new by blast
  qed
  moreover have "list_all2 (sem_ok ts') (sems[i := sem']) (ws[i := w'])"
    using p ok others i w(1) by (auto simp: placed_def list_all2_conv_all_nth nth_list_update)
  ultimately show ?thesis
    using p len unfolding placed_def by (simp only: same live length_list_update) blast
qed

text \<open>\<open>enqueue_waiter\<close> and \<open>dequeue_waiter\<close> are what \<open>block_running\<close> and
  \<open>signal_one\<close> do to the semaphore and the links.\<close>

definition enqueue_waiter :: "int \<Rightarrow> Semaphore \<Rightarrow> Semaphore" where
  "enqueue_waiter r sem =
     (if sem_head sem = NULL_HANDLE then sem\<lparr>sem_head := r, sem_tail := r\<rparr> else sem\<lparr>sem_tail := r\<rparr>)"

definition dequeue_waiter :: "int \<Rightarrow> Semaphore \<Rightarrow> Semaphore" where
  "dequeue_waiter next sem =
     (if next = NULL_HANDLE then sem\<lparr>sem_head := next, sem_tail := NULL_HANDLE, sem_set := False\<rparr>
      else sem\<lparr>sem_head := next\<rparr>)"

lemma linked_Nil_iff:
  assumes "linked ts h w" and "\<forall>x\<in>set w. 0 \<le> x"
  shows "h = NULL_HANDLE \<longleftrightarrow> w = []"
  using assms by (cases w) (auto simp: NULL_HANDLE_def)

lemma placed_block:
  assumes p: "placed sz ts rdy fre sems ws [r]" and i: "i < length sems" and clear: "\<not> sem_set (sems ! i)"
    and r: "st ts r = Blocked" "live ts r" "r \<noteq> ROOT_HANDLE" "nxt ts r = NULL_HANDLE"
    and ts': "ts' = (if sem_head (sems ! i) = NULL_HANDLE then ts
      else ts[nat (sem_tail (sems ! i)) := (ts ! nat (sem_tail (sems ! i)))\<lparr>tcb_next_blocked := r\<rparr>])"
  shows "placed sz ts' rdy fre (sems[i := enqueue_waiter r (sems ! i)]) (ws[i := ws ! i @ [r]]) []"
    and "sem_head (sems ! i) \<noteq> NULL_HANDLE \<Longrightarrow> idx (sem_tail (sems ! i)) = Some (nat (sem_tail (sems ! i)))"
proof -
  let ?w = "ws ! i" and ?sem = "sems ! i"
  note w = placed_waiters [OF p i]
  have pos: "0 \<le> x" "idx x = Some (nat x)" "nat x < length ts" if "x \<in> set (concat ws) \<or> x = r" for x
    using placed_idx [OF p, of x] that by auto
  have lk: "linked ts (sem_head ?sem) ?w" "?w \<noteq> [] \<Longrightarrow> sem_tail ?sem = last ?w"
    using w(2) by (auto simp: sem_ok_def split: if_splits)
  have empty: "sem_head ?sem = NULL_HANDLE \<longleftrightarrow> ?w = []"
    using linked_Nil_iff [OF lk(1)] w(3) pos(1) by auto
  have last: "?w \<noteq> [] \<Longrightarrow> last ?w \<in> set (concat ws)"
    using w(3) last_in_set by blast
  have nr: "r \<notin> set (concat ws)"
    using placed_members(2) [OF p] by auto
  show "sem_head ?sem \<noteq> NULL_HANDLE \<Longrightarrow> idx (sem_tail ?sem) = Some (nat (sem_tail ?sem))"
    using pos(2) last lk(2) empty by auto
  have nx: "nxt ts' x = (if ?w \<noteq> [] \<and> x = last ?w then r else nxt ts x)" if "x \<in> set (concat ws) \<or> x = r" for x
    using pos(1,3) [OF that] pos(1,3) [of "last ?w"] last empty lk(2)
    by (auto simp: ts' nth_list_update)
  have "sem_ok ts' (enqueue_waiter r ?sem) (?w @ [r])"
  proof (cases "?w = []")
    case True
    then show ?thesis
      using empty clear nx [of r] r(4) by (simp add: sem_ok_def enqueue_waiter_def)
  next
    case False
    have "nxt ts' r = NULL_HANDLE"
      using nx [of r] r(4) nr last False by auto
    moreover have "\<forall>x\<in>set (butlast ?w). nxt ts' x = nxt ts x"
    proof
      fix x
      assume x: "x \<in> set (butlast ?w)"
      have "distinct (butlast ?w @ [last ?w])"
        using w(4) False by simp
      then have "x \<noteq> last ?w" and "x \<in> set (concat ws)"
        using x w(3) in_set_butlastD [OF x] by (auto simp: subset_iff)
      then show "nxt ts' x = nxt ts x"
        using nx [of x] by simp
    qed
    ultimately have "linked ts' (sem_head ?sem) (?w @ [r])"
      using linked_append [of ts' r ?w ts] nx [of "last ?w"] last lk(1) False by auto
    then show ?thesis
      using False empty clear by (simp add: sem_ok_def enqueue_waiter_def)
  qed
  moreover have "sem_ok ts' (sems ! j) (ws ! j)" if "j < length sems" "j \<noteq> i" for j
  proof -
    have "distinct (concat ws)"
      using placed_members(2) [OF p] by simp
    then have "last ?w \<notin> set (ws ! j)" if "?w \<noteq> []"
      using distinct_concat_apart [OF _ w(1) placed_waiters(1) [OF p \<open>j < length sems\<close>]] \<open>j \<noteq> i\<close> that by auto
    moreover have "x \<in> set (concat ws)" if "x \<in> set (ws ! j)" for x
      using placed_waiters(3) [OF p \<open>j < length sems\<close>] that by blast
    ultimately have "\<forall>x\<in>set (ws ! j). nxt ts' x = nxt ts x"
      using nx by (metis (no_types, lifting))
    then show ?thesis
      using placed_waiters(2) [OF p that(1)] sem_ok_frame [of "ws ! j" ts' ts "sems ! j"] by simp
  qed
  moreover have "length ts' = length ts"
    by (simp add: ts')
  moreover have "tcb_state (ts' ! x) = tcb_state (ts ! x) \<and> tcb_co_handle (ts' ! x) = tcb_co_handle (ts ! x)
      \<and> tcb_entry (ts' ! x) = tcb_entry (ts ! x) \<and> tcb_stack (ts' ! x) = tcb_stack (ts ! x)" for x
    by (simp add: ts' nth_update_if)
  moreover have "st ts x = Blocked \<and> live ts x \<and> x \<noteq> ROOT_HANDLE" if "x \<in> set (?w @ [r])" for x
    using that p w(3) r by (auto simp: placed_def)
  ultimately show "placed sz ts' rdy fre (sems[i := enqueue_waiter r ?sem]) (ws[i := ?w @ [r]]) []"
    using placed_sem_update [OF p i, of ts' "enqueue_waiter r ?sem" "?w @ [r]" "[]"] by simp
qed

lemma placed_wake:
  assumes p: "placed sz ts rdy fre sems ws ex" and i: "i < length sems" and w: "ws ! i = x # xs"
  shows "placed sz (ts[nat x := (ts ! nat x)\<lparr>tcb_next_blocked := NULL_HANDLE\<rparr>]) rdy fre
      (sems[i := dequeue_waiter (nxt ts x) (sems ! i)]) (ws[i := xs]) (x # ex)"
    and "sem_head (sems ! i) = x" and "\<not> sem_set (sems ! i)" and "st ts x = Blocked" and "live ts x"
    and "x \<noteq> ROOT_HANDLE" and "x \<in> set all_handles"
proof -
  let ?sem = "sems ! i"
  note q = placed_waiters [OF p i]
  have lk: "sem_head ?sem = x" "linked ts (nxt ts x) xs" "\<not> sem_set ?sem" "sem_tail ?sem = last (x # xs)"
    using q(2) w by (auto simp: sem_ok_def)
  have blocked: "st ts y = Blocked \<and> live ts y \<and> y \<noteq> ROOT_HANDLE" if "y \<in> set (x # xs)" for y
  proof -
    have "y \<in> set (concat ws)"
      using q(3) w that by auto
    then show ?thesis
      using p unfolding placed_def by blast
  qed
  have pos: "0 \<le> y" "y \<in> set all_handles" if "y \<in> set (x # xs)" for y
  proof -
    have "y \<in> set (ex @ rdy @ fre @ concat ws)"
      using q(3) w that by auto
    then show "0 \<le> y" and "y \<in> set all_handles"
      using placed_members(1) [OF p] all_handles_set by blast+
  qed
  show "sem_head ?sem = x" and "\<not> sem_set ?sem" and "st ts x = Blocked" and "live ts x"
    and "x \<noteq> ROOT_HANDLE" and "x \<in> set all_handles"
    using lk blocked [of x] pos [of x] by simp_all
  have "nxt ts x = NULL_HANDLE \<longleftrightarrow> xs = []"
    using linked_Nil_iff [OF lk(2)] pos(1) by simp
  then have "sem_ok ts (dequeue_waiter (nxt ts x) ?sem) xs"
    using lk by (auto simp: sem_ok_def dequeue_waiter_def)
  then have "placed sz ts rdy fre (sems[i := dequeue_waiter (nxt ts x) ?sem]) (ws[i := xs]) (x # ex)"
    using placed_sem_update [OF p i, of ts "dequeue_waiter (nxt ts x) ?sem" xs "x # ex"]
      placed_waiters(2) [OF p] blocked w by simp
  then show "placed sz (ts[nat x := (ts ! nat x)\<lparr>tcb_next_blocked := NULL_HANDLE\<rparr>]) rdy fre
      (sems[i := dequeue_waiter (nxt ts x) ?sem]) (ws[i := xs]) (x # ex)"
    using placed_update [where h = x and f = "\<lambda>t. t\<lparr>tcb_next_blocked := NULL_HANDLE\<rparr>"] by simp
qed

subsection \<open>The controller\<close>

lemma root_ready:
  assumes "placed sz ts rdy fre sems ws ex" and "ROOT_HANDLE \<notin> set ex"
  shows "ROOT_HANDLE \<in> set rdy"
proof -
  have "ROOT_HANDLE \<in> set (ex @ rdy @ fre @ concat ws)"
    using placed_members(1) [OF assms(1)] by (simp add: all_handles_set ROOT_HANDLE_def)
  then show ?thesis
    using assms by (auto simp: placed_def)
qed

lemma cplaced_update:
  assumes "cplaced c sems ws ex" and "h \<in> set ex" and "\<And>t. tcb_stack (f t) = tcb_stack t"
  shows "cplaced (upd_tcb (nat h) f c) sems ws ex"
  using assms placed_update [of "stack_size c" "tcbs c" "cq_list (sched c)" "cq_list (free c)" sems ws ex h f]
  by (simp add: cplaced_def upd_tcb_def ctl_ok_def)

lemma upd_tcb_simps [simp]:
  "running (upd_tcb i f c) = running c" "sched (upd_tcb i f c) = sched c" "free (upd_tcb i f c) = free c"
  "channels (upd_tcb i f c) = channels c" "stack_size (upd_tcb i f c) = stack_size c"
  "initialised (upd_tcb i f c) = initialised c" "length (tcbs (upd_tcb i f c)) = length (tcbs c)"
  by (simp_all add: upd_tcb_def)

lemma upd_tcb_nth:
  "tcbs (upd_tcb i f c) ! j = (if i = j \<and> i < length (tcbs c) then f (tcbs c ! i) else tcbs c ! j)"
  by (simp add: upd_tcb_def nth_update_if)

lemma cplaced_idx:
  assumes "cplaced c sems ws ex" and "h \<in> set ex"
  shows "idx h = Some (nat h)" and "nat h < length (tcbs c)"
  using placed_idx [of "stack_size c" "tcbs c" _ _ sems ws ex h] assms by (auto simp: cplaced_def)

lemma cplaced_member:
  assumes "cplaced c sems ws ex" and "h \<in> set ex"
  shows "h \<in> set all_handles" and "0 \<le> h"
proof -
  have p: "placed (stack_size c) (tcbs c) (cq_list (sched c)) (cq_list (free c)) sems ws ex"
    using assms(1) by (simp add: cplaced_def)
  show "h \<in> set all_handles"
    using placed_members(1) [OF p] assms(2) by auto
  then show "0 \<le> h"
    by (simp add: all_handles_set)
qed

lemma cplaced_distinct: "cplaced c sems ws ex \<Longrightarrow> distinct ex"
  using placed_members(2) [of "stack_size c" "tcbs c" "cq_list (sched c)" "cq_list (free c)" sems ws ex]
  by (simp add: cplaced_def)

lemma cplaced_push_sched:
  assumes p: "cplaced c sems ws (h # ex)" and s: "st (tcbs c) h = Ready" and l: "live (tcbs c) h"
  shows "\<exists>q. Queue_push (sched c) h = Some q \<and> cq_list q = cq_list (sched c) @ [h]
    \<and> cplaced (c\<lparr>sched := q\<rparr>) sems ws ex"
proof -
  have "length (cq_list (sched c)) < 8"
    using p placed_members(3) by (fastforce simp: cplaced_def)
  then obtain q where "Queue_push (sched c) h = Some q" "cq_wf q" "cq_list q = cq_list (sched c) @ [h]"
    using Queue_push_append [of "sched c" h] p by (auto simp: cplaced_def ctl_ok_def MAX_COTHREADS_def)
  then show ?thesis
    using p placed_to_ready [OF _ l s] by (auto simp: cplaced_def ctl_ok_def)
qed

lemma cplaced_push_free:
  assumes p: "cplaced c sems ws (h # ex)" and s: "st (tcbs c) h = NotActive" and r: "h \<noteq> ROOT_HANDLE"
  shows "\<exists>q. Queue_push (free c) h = Some q \<and> cq_list q = cq_list (free c) @ [h]
    \<and> cplaced (c\<lparr>free := q\<rparr>) sems ws ex"
proof -
  have "length (cq_list (free c)) < 8"
    using p placed_members(3) by (fastforce simp: cplaced_def)
  then obtain q where "Queue_push (free c) h = Some q" "cq_wf q" "cq_list q = cq_list (free c) @ [h]"
    using Queue_push_append [of "free c" h] p by (auto simp: cplaced_def ctl_ok_def MAX_COTHREADS_def)
  then show ?thesis
    using p placed_to_free [OF _ r s] by (auto simp: cplaced_def ctl_ok_def)
qed

text \<open>With every handle placed, the scheduler finds the front of the scheduling queue ready.\<close>

lemma take_next_placed:
  assumes p: "cplaced c sems ws []"
  shows "\<exists>c' h rest. cq_list (sched c) = h # rest \<and> take_next c = Some (tcb_co_handle (tcbs c' ! nat h), c')
    \<and> running c' = h \<and> cinv c' sems ws \<and> channels c' = channels c \<and> cq_list (sched c') = rest
    \<and> free c' = free c"
proof -
  have "cq_list (sched c) \<noteq> []"
    using root_ready [of "stack_size c" "tcbs c" "cq_list (sched c)" "cq_list (free c)" sems ws "[]"] p
    by (auto simp: cplaced_def)
  then obtain h rest where hr: "cq_list (sched c) = h # rest"
    by (cases "cq_list (sched c)") auto
  then obtain q where q: "Queue_pop (sched c) = (Some h, q)" "cq_wf q" "cq_list q = rest"
    using Queue_pop_first [of "sched c" h rest] p by (auto simp: cplaced_def ctl_ok_def)
  let ?c = "c\<lparr>sched := q\<rparr>"
  have p1: "cplaced ?c sems ws [h]"
    using p hr q placed_from_ready by (auto simp: cplaced_def ctl_ok_def)
  have hs: "st (tcbs c) h = Ready" "live (tcbs c) h"
    using p hr by (auto simp: cplaced_def placed_def)
  note i = cplaced_idx [OF p1, of h]
  have "take_ready c = Some (h, ?c)"
    using q(1) hs i by (simp add: take_ready.simps [of c])
  moreover have "cplaced (upd_tcb (nat h) (\<lambda>t. t\<lparr>tcb_state := Running\<rparr>) ?c) sems ws [h]"
    using p1 by (rule cplaced_update) simp_all
  then have "cinv ((upd_tcb (nat h) (\<lambda>t. t\<lparr>tcb_state := Running\<rparr>) ?c)\<lparr>running := h\<rparr>) sems ws"
    using i(2) hs by (simp add: cinv_def cplaced_def ctl_ok_def upd_tcb_nth live_def)
  ultimately show ?thesis
    using hr q(3) i by (auto simp: take_next_def)
qed

subsection \<open>Operations that schedule\<close>

lemma rt_invE:
  assumes "rt_inv s"
  obtains ws where "cinv (rt_control s) (all_sems s) ws" and "initialised (rt_control s)"
    and "cplaced (rt_control s) (all_sems s) ws [running (rt_control s)]"
    and "rt_active s = tcb_co_handle (tcbs (rt_control s) ! nat (running (rt_control s)))"
    and "rt_active s \<noteq> 0"
  using assms by (auto simp: rt_inv_def cinv_def cplaced_def ctl_ok_def live_def)

lemma with_control_ready:
  "initialised (rt_control s) \<Longrightarrow> body (rt_control s) = Some (r, c) \<Longrightarrow>
    with_control body s = Some (r, s\<lparr>rt_control := c\<rparr>)"
  by (simp add: with_control_def)

lemma rt_inv_switch_state:
  assumes "cinv (rt_control s) (all_sems s) ws" and "rt_active s \<noteq> 0"
  shows "\<exists>s'. co_switch (tcb_co_handle (tcbs (rt_control s) ! nat (running (rt_control s)))) s = Some s'
    \<and> rt_inv s' \<and> rt_control s' = rt_control s \<and> rt_sems s' = rt_sems s"
  using assms by (auto simp: co_switch_def rt_inv_def all_sems_def cinv_def live_def)

lemma rt_inv_switch:
  assumes "cinv c (channels c @ rt_sems s) ws" and "rt_active s \<noteq> 0"
  shows "\<exists>s'. co_switch (tcb_co_handle (tcbs c ! nat (running c))) (s\<lparr>rt_control := c\<rparr>) = Some s'
    \<and> rt_inv s' \<and> rt_control s' = c \<and> rt_sems s' = rt_sems s"
  using rt_inv_switch_state [of "s\<lparr>rt_control := c\<rparr>" ws] assms by (simp add: all_sems_def)

lemma yield_round_robin:
  assumes "rt_inv s"
  shows "\<exists>s'. microkit_cothread_yield s = Some s' \<and> rt_inv s' \<and> rt_sems s' = rt_sems s
    \<and> channels (rt_control s') = channels (rt_control s)
    \<and> running (rt_control s') # cq_list (sched (rt_control s'))
        = cq_list (sched (rt_control s)) @ [running (rt_control s)]"
proof -
  obtain ws where ws: "cinv (rt_control s) (all_sems s) ws" "initialised (rt_control s)"
    "cplaced (rt_control s) (all_sems s) ws [running (rt_control s)]" "rt_active s \<noteq> 0"
    using assms by (rule rt_invE)
  let ?c = "rt_control s" and ?f = "\<lambda>t. t\<lparr>tcb_state := Ready\<rparr>"
  let ?r = "running ?c"
  note i = cplaced_idx [OF ws(3), of ?r]
  let ?c1 = "upd_tcb (nat ?r) ?f ?c"
  have "cplaced ?c1 (all_sems s) ws [?r]"
    using ws(3) by (rule cplaced_update) simp_all
  moreover have "st (tcbs ?c1) ?r = Ready" "live (tcbs ?c1) ?r"
    using ws(1) i(2) by (simp_all add: upd_tcb_nth live_def cinv_def)
  ultimately obtain q where q: "Queue_push (sched ?c) ?r = Some q" "cq_list q = cq_list (sched ?c) @ [?r]"
    "cplaced (?c1\<lparr>sched := q\<rparr>) (all_sems s) ws []"
    using cplaced_push_sched [of ?c1 "all_sems s" ws ?r "[]"] by auto
  have swap: "upd_tcb (nat ?r) ?f (?c\<lparr>sched := q\<rparr>) = ?c1\<lparr>sched := q\<rparr>"
    by (simp add: upd_tcb_def)
  obtain c' h rest where c': "cq_list q = h # rest"
    "take_next (?c1\<lparr>sched := q\<rparr>) = Some (tcb_co_handle (tcbs c' ! nat h), c')" "running c' = h"
    "cinv c' (all_sems s) ws" "channels c' = channels ?c" "cq_list (sched c') = rest"
    using take_next_placed [OF q(3)] by auto
  obtain s' where s': "co_switch (tcb_co_handle (tcbs c' ! nat h)) (s\<lparr>rt_control := c'\<rparr>) = Some s'"
    "rt_inv s'" "rt_control s' = c'" "rt_sems s' = rt_sems s"
    using rt_inv_switch [of c' s ws] c'(3-5) ws(4) by (auto simp: all_sems_def)
  have "with_control (\<lambda>c. do { q \<leftarrow> Queue_push (sched c) (running c); i \<leftarrow> idx (running c);
      take_next (upd_tcb i ?f (c\<lparr>sched := q\<rparr>)) }) s
      = Some (tcb_co_handle (tcbs c' ! nat h), s\<lparr>rt_control := c'\<rparr>)"
    using ws(2) q(1) i c'(2) swap by (intro with_control_ready) simp_all
  then show ?thesis
    using s' c'(1,3,5,6) q(2) by (simp add: microkit_cothread_yield_def)
qed

lemma spawn_ready:
  assumes "rt_inv s" and "cq_list (free (rt_control s)) = h # rest"
  shows "\<exists>s'. microkit_cothread_spawn entry arg s = Some (h, s') \<and> rt_inv s' \<and> rt_sems s' = rt_sems s
    \<and> channels (rt_control s') = channels (rt_control s)
    \<and> cq_list (sched (rt_control s')) = cq_list (sched (rt_control s)) @ [h]
    \<and> cq_list (free (rt_control s')) = rest \<and> running (rt_control s') = running (rt_control s)
    \<and> tcb_entry (tcbs (rt_control s') ! nat h) = Some entry
    \<and> tcb_private_arg (tcbs (rt_control s') ! nat h) = arg"
proof -
  obtain ws where ws: "cinv (rt_control s) (all_sems s) ws" "initialised (rt_control s)"
    "cplaced (rt_control s) (all_sems s) ws [running (rt_control s)]"
    "rt_active s = tcb_co_handle (tcbs (rt_control s) ! nat (running (rt_control s)))" "rt_active s \<noteq> 0"
    using assms(1) by (rule rt_invE)
  let ?c = "rt_control s"
  let ?r = "running ?c"
  obtain q where q: "Queue_pop (free ?c) = (Some h, q)" "cq_wf q" "cq_list q = rest"
    using Queue_pop_first [OF _ assms(2)] ws(3) by (auto simp: cplaced_def ctl_ok_def)
  let ?c1 = "?c\<lparr>free := q\<rparr>"
  have p1: "cplaced ?c1 (all_sems s) ws [h, ?r]"
    using ws(3) q assms(2) placed_from_free by (auto simp: cplaced_def ctl_ok_def)
  note i = cplaced_idx [OF p1, of h] cplaced_idx [OF p1, of ?r]
  have h: "h \<noteq> ROOT_HANDLE" "h \<in> set all_handles"
    using ws(3) assms(2) cplaced_member(1) [OF p1] by (auto simp: cplaced_def placed_def)
  let ?ctx = "derive (rt_arch s) (tcb_stack (tcbs ?c ! nat h)) (stack_size ?c)"
  have stk: "?ctx \<noteq> 0"
    using ws(3) h by (intro derive_nonzero) (simp add: cplaced_def placed_def)
  let ?f = "\<lambda>t. t\<lparr>tcb_co_handle := ?ctx, tcb_entry := Some entry,
    tcb_private_arg := arg, tcb_state := Ready, tcb_next_blocked := NULL_HANDLE\<rparr>"
  let ?c2 = "upd_tcb (nat h) ?f ?c1"
  have "cplaced ?c2 (all_sems s) ws [h, ?r]"
    using p1 by (rule cplaced_update) simp_all
  moreover have "st (tcbs ?c2) h = Ready" "live (tcbs ?c2) h"
    using i(2) stk by (simp_all add: upd_tcb_nth live_def)
  ultimately obtain p where p: "Queue_push (sched ?c) h = Some p" "cq_list p = cq_list (sched ?c) @ [h]"
    "cplaced (?c2\<lparr>sched := p\<rparr>) (all_sems s) ws [?r]"
    using cplaced_push_sched [of ?c2 "all_sems s" ws h "[?r]"] by auto
  have "nat ?r \<noteq> nat h"
    using cplaced_distinct [OF p1] cplaced_member(2) [OF p1, of h] cplaced_member(2) [OF p1, of ?r] by auto
  then have "rt_inv (s\<lparr>rt_control := ?c2\<lparr>sched := p\<rparr>\<rparr>)"
    using p(3) ws(1,4) by (auto simp: rt_inv_def cinv_def all_sems_def upd_tcb_nth live_def)
  moreover have "microkit_cothread_spawn entry arg s = Some (h, s\<lparr>rt_control := ?c2\<lparr>sched := p\<rparr>\<rparr>)"
    using ws(2) q(1) i(1) p(1)
    by (auto simp: microkit_cothread_spawn_def intro!: with_control_ready)
  ultimately show ?thesis
    using p(2) q(3) i(2) by (simp add: upd_tcb_nth)
qed

lemma spawn_full:
  assumes "rt_inv s" and "cq_list (free (rt_control s)) = []"
  shows "microkit_cothread_spawn entry arg s = Some (NULL_HANDLE, s)"
proof -
  have "initialised (rt_control s)"
    using assms(1) by (auto elim: rt_invE)
  then show ?thesis
    using Queue_pop_empty [OF assms(2)] by (simp add: microkit_cothread_spawn_def with_control_def)
qed

lemma cplaced_perm: "cplaced c sems ws ex \<Longrightarrow> mset ex = mset ex' \<Longrightarrow> cplaced c sems ws ex'"
  by (simp add: cplaced_def placed_def)

text \<open>The common part of a destroy: the handle is off the scheduling queue and in no place.\<close>

lemma release_free:
  assumes p: "cplaced c sems ws (h # ex)" and root: "h \<noteq> ROOT_HANDLE"
  shows "\<exists>q. Queue_push (free c) h = Some q \<and> cq_list q = cq_list (free c) @ [h]
    \<and> cplaced (upd_tcb (nat h) (\<lambda>t. t\<lparr>tcb_state := NotActive, tcb_entry := None\<rparr>) (c\<lparr>free := q\<rparr>)) sems ws ex"
proof -
  let ?f = "\<lambda>t. t\<lparr>tcb_state := NotActive, tcb_entry := None\<rparr>"
  let ?c1 = "upd_tcb (nat h) ?f c"
  have "cplaced ?c1 sems ws (h # ex)"
    using p by (rule cplaced_update) simp_all
  moreover have "st (tcbs ?c1) h = NotActive"
    using cplaced_idx(2) [OF p, of h] by (simp add: upd_tcb_nth)
  ultimately obtain q where "Queue_push (free c) h = Some q" "cq_list q = cq_list (free c) @ [h]"
    "cplaced (?c1\<lparr>free := q\<rparr>) sems ws ex"
    using cplaced_push_free [of ?c1 sems ws h ex] root by auto
  moreover have "?c1\<lparr>free := q\<rparr> = upd_tcb (nat h) ?f (c\<lparr>free := q\<rparr>)" for q
    by (simp add: upd_tcb_def)
  ultimately show ?thesis
    by auto
qed

lemma retain_sched:
  assumes p: "cplaced c sems ws ex" and out: "h \<in> set (cq_list (sched c)) \<Longrightarrow> ex' = h # ex"
    and away: "h \<notin> set (cq_list (sched c)) \<Longrightarrow> ex' = ex"
  shows "\<exists>q. Queue_retain (\<lambda>x. x \<noteq> h) (sched c) = Some q
    \<and> cq_list q = filter (\<lambda>x. x \<noteq> h) (cq_list (sched c)) \<and> cplaced (c\<lparr>sched := q\<rparr>) sems ws ex'"
proof -
  obtain q where q: "Queue_retain (\<lambda>x. x \<noteq> h) (sched c) = Some q" "cq_wf q"
    "cq_list q = filter (\<lambda>x. x \<noteq> h) (cq_list (sched c))"
    using Queue_retain_filter [of "sched c"] p by (auto simp: cplaced_def ctl_ok_def)
  have "placed (stack_size c) (tcbs c) (filter (\<lambda>x. x \<noteq> h) (cq_list (sched c))) (cq_list (free c)) sems ws ex'"
  proof (cases "h \<in> set (cq_list (sched c))")
    case True
    then show ?thesis
      using p placed_remove_ready out by (simp add: cplaced_def)
  next
    case False
    then have "filter (\<lambda>x. x \<noteq> h) (cq_list (sched c)) = cq_list (sched c)"
      by (auto simp: filter_id_conv)
    then show ?thesis
      using p away False by (simp add: cplaced_def)
  qed
  then show ?thesis
    using q p by (auto simp: cplaced_def ctl_ok_def)
qed

lemma running_not_ready:
  assumes "cplaced c sems ws [running c]"
  shows "running c \<notin> set (cq_list (sched c))"
  using placed_members(2) [of "stack_size c" "tcbs c" "cq_list (sched c)" "cq_list (free c)" sems ws "[running c]"] assms
  by (simp add: cplaced_def)

lemma destroy_running:
  assumes "rt_inv s" and h: "h = running (rt_control s)" "h \<noteq> ROOT_HANDLE"
  shows "\<exists>s'. microkit_cothread_destroy h s = Some s' \<and> rt_inv s'
    \<and> running (rt_control s') # cq_list (sched (rt_control s')) = cq_list (sched (rt_control s))
    \<and> cq_list (free (rt_control s')) = cq_list (free (rt_control s)) @ [h]"
proof -
  obtain ws where ws: "cinv (rt_control s) (all_sems s) ws" "initialised (rt_control s)"
    "cplaced (rt_control s) (all_sems s) ws [h]" "rt_active s \<noteq> 0"
    using assms(1) h(1) by (auto elim: rt_invE)
  let ?c = "rt_control s"
  have nr: "h \<notin> set (cq_list (sched ?c))"
    using running_not_ready [of ?c] ws(3) h(1) by auto
  then obtain q where q: "Queue_retain (\<lambda>x. x \<noteq> h) (sched ?c) = Some q"
    "cq_list q = filter (\<lambda>x. x \<noteq> h) (cq_list (sched ?c))" "cplaced (?c\<lparr>sched := q\<rparr>) (all_sems s) ws [h]"
    using retain_sched [OF ws(3), of h "[h]"] by auto
  have same: "cq_list q = cq_list (sched ?c)"
    using q(2) nr by (auto simp: filter_id_conv)
  let ?f = "\<lambda>t. t\<lparr>tcb_state := NotActive, tcb_entry := None\<rparr>"
  obtain p where p: "Queue_push (free ?c) h = Some p" "cq_list p = cq_list (free ?c) @ [h]"
    "cplaced (upd_tcb (nat h) ?f (?c\<lparr>sched := q, free := p\<rparr>)) (all_sems s) ws []"
    using release_free [OF q(3) h(2)] by auto
  let ?c1 = "upd_tcb (nat h) ?f (?c\<lparr>sched := q, free := p\<rparr>)"
  obtain c' n rest where c': "cq_list q = n # rest"
    "take_next ?c1 = Some (tcb_co_handle (tcbs c' ! nat n), c')" "running c' = n"
    "cinv c' (all_sems s) ws" "channels c' = channels ?c" "cq_list (sched c') = rest" "free c' = p"
    using take_next_placed [OF p(3)] by auto
  obtain s' where s': "co_switch (tcb_co_handle (tcbs c' ! nat n)) (s\<lparr>rt_control := c'\<rparr>) = Some s'"
    "rt_inv s'" "rt_control s' = c'"
    using rt_inv_switch [of c' s ws] c'(3-5) ws(4) by (auto simp: all_sems_def)
  have "st (tcbs ?c) h = Running"
    using ws(1) h(1) by (simp add: cinv_def)
  then have "release h ?c = Some (Some (tcb_co_handle (tcbs c' ! nat n)), c')"
    using cplaced_idx(1) [OF ws(3)] h q(1) p(1) c'(2) by (simp add: release_def)
  then show ?thesis
    using s' c' p(2) same ws(2) by (simp add: microkit_cothread_destroy_def with_control_ready)
qed

lemma destroy_ready:
  assumes "rt_inv s" and h: "h \<in> set (cq_list (sched (rt_control s)))" "h \<noteq> ROOT_HANDLE"
  shows "\<exists>s'. microkit_cothread_destroy h s = Some s' \<and> rt_inv s'
    \<and> running (rt_control s') = running (rt_control s)
    \<and> cq_list (sched (rt_control s')) = filter (\<lambda>x. x \<noteq> h) (cq_list (sched (rt_control s)))
    \<and> cq_list (free (rt_control s')) = cq_list (free (rt_control s)) @ [h]"
proof -
  let ?c = "rt_control s"
  let ?r = "running ?c"
  obtain ws where ws: "cinv ?c (all_sems s) ws" "initialised ?c" "cplaced ?c (all_sems s) ws [?r]"
    "rt_active s = tcb_co_handle (tcbs ?c ! nat ?r)"
    using assms(1) by (auto elim: rt_invE)
  have nr: "h \<noteq> ?r"
    using running_not_ready [OF ws(3)] h(1) by auto
  obtain q where q: "Queue_retain (\<lambda>x. x \<noteq> h) (sched ?c) = Some q"
    "cq_list q = filter (\<lambda>x. x \<noteq> h) (cq_list (sched ?c))" "cplaced (?c\<lparr>sched := q\<rparr>) (all_sems s) ws [h, ?r]"
    using retain_sched [OF ws(3), of h "[h, ?r]"] h(1) by auto
  let ?f = "\<lambda>t. t\<lparr>tcb_state := NotActive, tcb_entry := None\<rparr>"
  obtain p where p: "Queue_push (free ?c) h = Some p" "cq_list p = cq_list (free ?c) @ [h]"
    "cplaced (upd_tcb (nat h) ?f (?c\<lparr>sched := q, free := p\<rparr>)) (all_sems s) ws [?r]"
    using release_free [OF q(3) h(2)] by auto
  let ?c1 = "upd_tcb (nat h) ?f (?c\<lparr>sched := q, free := p\<rparr>)"
  have "nat h \<noteq> nat ?r"
    using nr cplaced_member(2) [OF q(3), of h] cplaced_member(2) [OF q(3), of ?r] by auto
  then have "rt_inv (s\<lparr>rt_control := ?c1\<rparr>)"
    using p(3) ws(1,4) by (auto simp: rt_inv_def cinv_def all_sems_def upd_tcb_nth live_def)
  moreover have "st (tcbs ?c) h = Ready"
    using ws(3) h(1) by (simp add: cplaced_def placed_def)
  then have "release h ?c = Some (None, ?c1)"
    using cplaced_idx(1) [OF q(3), of h] h nr q(1) p(1) by (simp add: release_def)
  then have "microkit_cothread_destroy h s = Some (s\<lparr>rt_control := ?c1\<rparr>)"
    using ws(2) by (simp add: microkit_cothread_destroy_def with_control_ready)
  ultimately show ?thesis
    using q(2) p(2) by simp
qed

subsection \<open>Semaphores\<close>

lemma sem_links_roundtrip [simp]: "SemLinks_apply (SemLinks_from sem) sem = sem"
  by (simp add: SemLinks_apply_def SemLinks_from_def)

lemma block_running_sticky:
  "sem_set sem \<Longrightarrow> block_running (SemLinks_from sem) s
    = Some (False, (SemLinks_from sem)\<lparr>lk_set := False\<rparr>, s)"
  by (simp add: block_running_def SemLinks_from_def)

lemma block_running_blocks:
  assumes inv: "cinv (rt_control s) (all_sems s) ws" and i: "i < length (all_sems s)"
    and sem: "sem = all_sems s ! i" "\<not> sem_set sem"
    and r: "r = running (rt_control s)" "r \<noteq> ROOT_HANDLE"
  shows "\<exists>links c. block_running (SemLinks_from sem) s = Some (True, links, s\<lparr>rt_control := c\<rparr>)
    \<and> SemLinks_apply links sem = enqueue_waiter r sem
    \<and> cplaced c ((all_sems s)[i := enqueue_waiter r sem]) (ws[i := ws ! i @ [r]]) []
    \<and> channels c = channels (rt_control s) \<and> sched c = sched (rt_control s)"
proof -
  let ?c = "rt_control s"
  have ws: "cinv ?c (all_sems s) ws" "initialised ?c" "cplaced ?c (all_sems s) ws [r]"
    using inv r(1) by (simp_all add: cinv_def cplaced_def ctl_ok_def)
  let ?f = "\<lambda>t. t\<lparr>tcb_state := Blocked, tcb_next_blocked := NULL_HANDLE\<rparr>"
  let ?c1 = "upd_tcb (nat r) ?f ?c"
  have p1: "cplaced ?c1 (all_sems s) ws [r]"
    using ws(3) by (rule cplaced_update) simp_all
  note ir = cplaced_idx [OF ws(3), of r]
  have r1: "st (tcbs ?c1) r = Blocked" "live (tcbs ?c1) r" "nxt (tcbs ?c1) r = NULL_HANDLE"
    using ws(1) ir(2) r(1) by (simp_all add: cinv_def upd_tcb_nth live_def)
  let ?t = "nat (sem_tail sem)"
  let ?c2 = "if sem_head sem = NULL_HANDLE then ?c1 else upd_tcb ?t (\<lambda>t. t\<lparr>tcb_next_blocked := r\<rparr>) ?c1"
  have pl: "placed (stack_size ?c1) (tcbs ?c1) (cq_list (sched ?c1)) (cq_list (free ?c1)) (all_sems s) ws [r]"
    using p1 by (simp add: cplaced_def)
  note b = placed_block [OF pl i _ r1(1,2) r(2) r1(3) refl, folded sem(1), OF sem(2)]
  have "cplaced ?c2 ((all_sems s)[i := enqueue_waiter r sem]) (ws[i := ws ! i @ [r]]) []"
    using b(1) p1
    by (cases "sem_head sem = NULL_HANDLE") (simp_all add: cplaced_def ctl_ok_def upd_tcb_def)
  moreover have "block_running (SemLinks_from sem) s
      = Some (True, SemLinks_from (enqueue_waiter r sem), s\<lparr>rt_control := ?c2\<rparr>)"
    using sem(2) r ws(2) ir b(2)
    by (auto simp: block_running_def SemLinks_from_def with_control_def enqueue_waiter_def)
  moreover have "SemLinks_apply (SemLinks_from (enqueue_waiter r sem)) sem = enqueue_waiter r sem"
    by (simp add: SemLinks_apply_def SemLinks_from_def)
  moreover have "channels ?c2 = channels ?c" and "sched ?c2 = sched ?c"
    by simp_all
  ultimately show ?thesis
    by blast
qed

lemma signal_one_wakes:
  assumes inv: "cinv c sems ws" and i: "i < length sems" and w: "ws ! i = x # xs"
  shows "\<exists>links c'. signal_one (SemLinks_from (sems ! i)) c
      = Some ((Some (tcb_co_handle (tcbs c' ! nat x)), links), c')
    \<and> SemLinks_apply links (sems ! i) = dequeue_waiter (nxt (tcbs c) x) (sems ! i)
    \<and> cinv c' (sems[i := dequeue_waiter (nxt (tcbs c) x) (sems ! i)]) (ws[i := xs])
    \<and> running c' = x \<and> channels c' = channels c
    \<and> cq_list (sched c') = cq_list (sched c) @ [running c]"
proof -
  let ?r = "running c" and ?n = "nxt (tcbs c) x" and ?sem = "sems ! i"
  let ?sems = "sems[i := dequeue_waiter ?n ?sem]"
  have p: "placed (stack_size c) (tcbs c) (cq_list (sched c)) (cq_list (free c)) sems ws [?r]" and ok: "ctl_ok c"
    using inv by (simp_all add: cinv_def cplaced_def)
  note wk = placed_wake [OF p i w]
  let ?c1 = "upd_tcb (nat x) (\<lambda>t. t\<lparr>tcb_next_blocked := NULL_HANDLE\<rparr>) c"
  have p1: "cplaced ?c1 ?sems (ws[i := xs]) [x, ?r]"
    using wk(1) ok by (simp add: cplaced_def upd_tcb_def ctl_ok_def)
  have ne: "nat x \<noteq> nat ?r"
    using cplaced_distinct [OF p1] cplaced_member(2) [OF p1, of x] cplaced_member(2) [OF p1, of ?r] by auto
  note ix = cplaced_idx [OF p1, of x] cplaced_idx [OF p1, of ?r]
  let ?c2 = "upd_tcb (nat ?r) (\<lambda>t. t\<lparr>tcb_state := Ready\<rparr>) ?c1"
  have "cplaced ?c2 ?sems (ws[i := xs]) [x, ?r]"
    using p1 by (rule cplaced_update) simp_all
  then have "cplaced ?c2 ?sems (ws[i := xs]) [?r, x]"
    by (rule cplaced_perm) simp
  moreover have "st (tcbs ?c2) ?r = Ready" "live (tcbs ?c2) ?r"
    using inv ix ne by (simp_all add: cinv_def upd_tcb_nth live_def)
  ultimately obtain q where q: "Queue_push (sched c) ?r = Some q" "cq_list q = cq_list (sched c) @ [?r]"
    "cplaced (?c2\<lparr>sched := q\<rparr>) ?sems (ws[i := xs]) [x]"
    using cplaced_push_sched [of ?c2 ?sems "ws[i := xs]" ?r "[x]"] by auto
  let ?c3 = "upd_tcb (nat x) (\<lambda>t. t\<lparr>tcb_state := Running\<rparr>) (?c2\<lparr>sched := q, running := x\<rparr>)"
  have "cplaced ?c3 ?sems (ws[i := xs]) [x]"
    using cplaced_update [OF q(3), of x "\<lambda>t. t\<lparr>tcb_state := Running\<rparr>"]
    by (simp add: cplaced_def ctl_ok_def upd_tcb_def)
  then have c3: "cinv ?c3 ?sems (ws[i := xs])"
    using ix ne wk(5) by (simp add: cinv_def upd_tcb_nth live_def)
  have "x \<noteq> NULL_HANDLE"
    using cplaced_member(2) [OF p1, of x] by (auto simp: NULL_HANDLE_def)
  then have "signal_one (SemLinks_from ?sem) c
      = Some ((Some (tcb_co_handle (tcbs ?c3 ! nat x)), SemLinks_from (dequeue_waiter ?n ?sem)), ?c3)"
    using wk(2,3) ix q(1) by (simp add: signal_one_def SemLinks_from_def dequeue_waiter_def upd_tcb_def)
  moreover have "SemLinks_apply (SemLinks_from (dequeue_waiter ?n ?sem)) ?sem = dequeue_waiter ?n ?sem"
    by (simp add: SemLinks_apply_def SemLinks_from_def)
  ultimately show ?thesis
    using c3 q(2) by auto
qed

lemma signal_one_sticks:
  assumes inv: "cinv c sems ws" and i: "i < length sems" and w: "ws ! i = []"
  shows "\<exists>links. signal_one (SemLinks_from (sems ! i)) c = Some ((None, links), c)
    \<and> SemLinks_apply links (sems ! i) = (sems ! i)\<lparr>sem_set := True\<rparr>
    \<and> cinv c (sems[i := (sems ! i)\<lparr>sem_set := True\<rparr>]) ws"
proof -
  have p: "placed (stack_size c) (tcbs c) (cq_list (sched c)) (cq_list (free c)) sems ws [running c]"
    using inv by (simp add: cinv_def cplaced_def)
  note q = placed_waiters [OF p i]
  have head: "sem_head (sems ! i) = NULL_HANDLE" and ok: "sem_ok (tcbs c) ((sems ! i)\<lparr>sem_set := True\<rparr>) []"
    using q(2) w by (simp_all add: sem_ok_def)
  then have "placed (stack_size c) (tcbs c) (cq_list (sched c)) (cq_list (free c))
      (sems[i := (sems ! i)\<lparr>sem_set := True\<rparr>]) (ws[i := []]) [running c]"
    using placed_waiters(2) [OF p] w by (intro placed_sem_update [OF p i]) simp_all
  moreover have "ws[i := []] = ws"
    using w by (metis list_update_id)
  ultimately have "cinv c (sems[i := (sems ! i)\<lparr>sem_set := True\<rparr>]) ws"
    using inv by (simp add: cinv_def cplaced_def)
  then show ?thesis
    using head by (auto simp: signal_one_def SemLinks_from_def SemLinks_apply_def)
qed

lemma sem_clear_inv:
  assumes inv: "cinv c sems ws" and i: "i < length sems" and set: "sem_set (sems ! i)"
  shows "cinv c (sems[i := (sems ! i)\<lparr>sem_set := False\<rparr>]) ws"
proof -
  have p: "placed (stack_size c) (tcbs c) (cq_list (sched c)) (cq_list (free c)) sems ws [running c]"
    using inv by (simp add: cinv_def cplaced_def)
  note q = placed_waiters [OF p i]
  have w: "ws ! i = []" and ok: "sem_ok (tcbs c) ((sems ! i)\<lparr>sem_set := False\<rparr>) []"
    using q(2) set by (auto simp: sem_ok_def)
  then have "placed (stack_size c) (tcbs c) (cq_list (sched c)) (cq_list (free c))
      (sems[i := (sems ! i)\<lparr>sem_set := False\<rparr>]) (ws[i := []]) [running c]"
    using placed_waiters(2) [OF p] by (intro placed_sem_update [OF p i]) simp_all
  moreover have "ws[i := []] = ws"
    using w by (metis list_update_id)
  ultimately show ?thesis
    using inv by (simp add: cinv_def cplaced_def)
qed

end
