(* ===== verification/CothreadRun.thy ===== *)
theory CothreadRun
  imports CothreadInv
begin

text \<open>
  Runs of the cothread runtime: semaphore and channel operations keep the invariant, every
  operation is a step of one transition system, and no sequence of calls that respects the
  documented contract panics. \<open>co_contract\<close> is the documented contract, \<open>co_legal\<close> the condition
  that the code checks, which also lets the root cothread take a sticky signal.
\<close>

lemma all_sems_channel:
  "i < length (channels c) \<Longrightarrow> (channels c @ ss)[i := x] = (channels c)[i := x] @ ss"
  by (simp add: list_update_append)

lemma all_sems_client:
  "(cs @ ss)[length cs + i := x] = cs @ ss[i := x]"
  by (simp add: list_update_append)

text \<open>The cothreads waiting on a semaphore, in the order of the links.\<close>

fun chain :: "Tcb list \<Rightarrow> nat \<Rightarrow> int \<Rightarrow> int list" where
  "chain ts 0 h = []"
| "chain ts (Suc n) h = (if h = NULL_HANDLE then [] else h # chain ts n (nxt ts h))"

definition waiters :: "rt \<Rightarrow> Semaphore \<Rightarrow> int list" where
  "waiters s sem = chain (tcbs (rt_control s)) MAX_COTHREADS (sem_head sem)"

lemma chain_linked:
  "linked ts h w \<Longrightarrow> \<forall>x\<in>set w. 0 \<le> x \<Longrightarrow> length w \<le> n \<Longrightarrow> chain ts n h = w"
proof (induction w arbitrary: h n)
  case Nil
  then show ?case by (cases n) simp_all
next
  case (Cons x w)
  then show ?case by (cases n) (auto simp: NULL_HANDLE_def)
qed

lemma waiters_ws:
  assumes inv: "cinv (rt_control s) (all_sems s) ws" and i: "i < length (all_sems s)"
  shows "waiters s (all_sems s ! i) = ws ! i"
proof -
  have p: "placed (stack_size (rt_control s)) (tcbs (rt_control s)) (cq_list (sched (rt_control s))) (cq_list (free (rt_control s)))
      (all_sems s) ws [running (rt_control s)]"
    using inv by (simp add: cinv_def cplaced_def)
  note q = placed_waiters [OF p i]
  have sub: "set (ws ! i) \<subseteq> set all_handles"
    using placed_members(1) [OF p] q(3) by auto
  moreover have "length (ws ! i) \<le> 8"
  proof -
    have "length (ws ! i) = card (set (ws ! i))"
      using q(4) by (simp add: distinct_card)
    also have "\<dots> \<le> card (set all_handles)"
      using sub by (intro card_mono) simp_all
    finally show ?thesis
      by (simp add: all_handles_def)
  qed
  moreover have "linked (tcbs (rt_control s)) (sem_head (all_sems s ! i)) (ws ! i)"
    using q(2) by (simp add: sem_ok_def)
  ultimately show ?thesis
    unfolding waiters_def MAX_COTHREADS_def by (intro chain_linked) (auto simp: all_handles_set subset_iff)
qed

lemma switch_next_inv:
  assumes p: "cplaced (rt_control s) (all_sems s) ws []" and act: "rt_active s \<noteq> 0"
  shows "\<exists>s'. switch_next True s = Some s' \<and> rt_inv s' \<and> all_sems s' = all_sems s
    \<and> rt_sems s' = rt_sems s \<and> channels (rt_control s') = channels (rt_control s)
    \<and> cinv (rt_control s') (all_sems s') ws
    \<and> running (rt_control s') # cq_list (sched (rt_control s')) = cq_list (sched (rt_control s))"
proof -
  let ?c = "rt_control s"
  obtain c' h rest where c': "cq_list (sched ?c) = h # rest"
    "take_next ?c = Some (tcb_co_handle (tcbs c' ! nat h), c')" "running c' = h"
    "cinv c' (all_sems s) ws" "channels c' = channels ?c" "cq_list (sched c') = rest"
    using take_next_placed [OF p] by auto
  have init: "initialised ?c"
    using p by (simp add: cplaced_def ctl_ok_def)
  obtain s' where s': "co_switch (tcb_co_handle (tcbs c' ! nat h)) (s\<lparr>rt_control := c'\<rparr>) = Some s'"
    "rt_inv s'" "rt_control s' = c'" "rt_sems s' = rt_sems s"
    using rt_inv_switch [of c' s ws] c'(3-5) act by (auto simp: all_sems_def)
  have "scheduled_handle s = Some (tcb_co_handle (tcbs c' ! nat h), s\<lparr>rt_control := c'\<rparr>)"
    using init c'(2) by (simp add: scheduled_handle_def with_control_ready)
  then show ?thesis
    using s' c' by (simp add: switch_next_def all_sems_def)
qed

lemma client_sem:
  assumes "i < length (rt_sems s)"
  shows "all_sems s ! (length (channels (rt_control s)) + i) = rt_sems s ! i"
    and "length (channels (rt_control s)) + i < length (all_sems s)"
  using assms by (simp_all add: all_sems_def nth_append)

lemma channel_sem:
  assumes "rt_inv s" and "i < MICROKIT_MAX_CHANNELS"
  shows "all_sems s ! i = channels (rt_control s) ! i" and "i < length (all_sems s)"
    and "i < length (channels (rt_control s))"
  using assms by (auto simp: all_sems_def nth_append elim!: rt_invE simp: cplaced_def ctl_ok_def)

subsection \<open>Semaphores of the client\<close>

lemma semaphore_wait_sticky:
  assumes inv: "rt_inv s" and i: "i < length (rt_sems s)" and set: "sem_set (rt_sems s ! i)"
  shows "microkit_cothread_semaphore_wait i s
      = Some (s\<lparr>rt_sems := (rt_sems s)[i := (rt_sems s ! i)\<lparr>sem_set := False\<rparr>]\<rparr>)"
    and "rt_inv (s\<lparr>rt_sems := (rt_sems s)[i := (rt_sems s ! i)\<lparr>sem_set := False\<rparr>]\<rparr>)"
proof -
  show "microkit_cothread_semaphore_wait i s
      = Some (s\<lparr>rt_sems := (rt_sems s)[i := (rt_sems s ! i)\<lparr>sem_set := False\<rparr>]\<rparr>)"
    using set by (simp add: microkit_cothread_semaphore_wait_def block_running_def switch_next_def
        SemLinks_apply_def SemLinks_from_def)
  show "rt_inv (s\<lparr>rt_sems := (rt_sems s)[i := (rt_sems s ! i)\<lparr>sem_set := False\<rparr>]\<rparr>)"
    using inv sem_clear_inv [OF _ client_sem(2) [OF i]] set client_sem(1) [OF i]
    by (auto simp: rt_inv_def all_sems_def all_sems_client)
qed

lemma semaphore_wait_blocks:
  assumes inv: "rt_inv s" and i: "i < length (rt_sems s)" and clear: "\<not> sem_set (rt_sems s ! i)"
    and r: "running (rt_control s) \<noteq> ROOT_HANDLE"
  shows "\<exists>s'. microkit_cothread_semaphore_wait i s = Some s' \<and> rt_inv s'
    \<and> waiters s' (rt_sems s' ! i) = waiters s (rt_sems s ! i) @ [running (rt_control s)]
    \<and> length (rt_sems s') = length (rt_sems s)
    \<and> running (rt_control s') # cq_list (sched (rt_control s')) = cq_list (sched (rt_control s))"
proof -
  let ?n = "length (channels (rt_control s)) + i" and ?r = "running (rt_control s)"
  let ?sem = "rt_sems s ! i"
  obtain ws where ws: "cinv (rt_control s) (all_sems s) ws" and act: "rt_active s \<noteq> 0"
    using inv by (auto elim: rt_invE)
  obtain links c where b: "block_running (SemLinks_from ?sem) s = Some (True, links, s\<lparr>rt_control := c\<rparr>)"
    "SemLinks_apply links ?sem = enqueue_waiter ?r ?sem"
    "cplaced c ((all_sems s)[?n := enqueue_waiter ?r ?sem]) (ws[?n := ws ! ?n @ [?r]]) []"
    "channels c = channels (rt_control s)" "sched c = sched (rt_control s)"
    using block_running_blocks [OF ws client_sem(2) [OF i] client_sem(1) [OF i, symmetric] clear refl r]
    by auto
  let ?s = "s\<lparr>rt_control := c, rt_sems := (rt_sems s)[i := enqueue_waiter ?r ?sem]\<rparr>"
  have "cplaced (rt_control ?s) (all_sems ?s) (ws[?n := ws ! ?n @ [?r]]) []"
    using b(3,4) by (simp add: all_sems_def all_sems_client)
  then obtain s' where s': "switch_next True ?s = Some s'" "rt_inv s'" "rt_sems s' = rt_sems ?s"
    "channels (rt_control s') = channels c" "cinv (rt_control s') (all_sems s') (ws[?n := ws ! ?n @ [?r]])"
    "running (rt_control s') # cq_list (sched (rt_control s')) = cq_list (sched (rt_control ?s))"
    using switch_next_inv [of ?s] act by auto
  have "i < length (rt_sems s')" and n: "length (channels (rt_control s')) + i = ?n"
    using i s'(3,4) b(4) by simp_all
  then have "waiters s' (rt_sems s' ! i) = (ws[?n := ws ! ?n @ [?r]]) ! ?n"
    using waiters_ws [OF s'(5) client_sem(2)] client_sem(1) by (metis)
  moreover have "?n < length ws"
    using ws client_sem(2) [OF i] by (auto simp: cinv_def cplaced_def placed_def dest: list_all2_lengthD)
  moreover have "waiters s ?sem = ws ! ?n"
    using waiters_ws [OF ws client_sem(2) [OF i]] client_sem(1) [OF i] by simp
  ultimately show ?thesis
    using b(1,2,5) s'(1,2,3,6) by (simp add: microkit_cothread_semaphore_wait_def)
qed

lemma semaphore_wait_root:
  assumes "\<not> sem_set (rt_sems s ! i)" and "running (rt_control s) = ROOT_HANDLE"
  shows "microkit_cothread_semaphore_wait i s = None"
  using assms
  by (simp add: microkit_cothread_semaphore_wait_def block_running_def SemLinks_from_def with_control_def)

lemma semaphore_signal_wakes:
  assumes inv: "rt_inv s" and i: "i < length (rt_sems s)" and w: "waiters s (rt_sems s ! i) = x # xs"
  shows "\<exists>s'. microkit_cothread_semaphore_signal i s = Some s' \<and> rt_inv s'
    \<and> running (rt_control s') = x \<and> waiters s' (rt_sems s' ! i) = xs
    \<and> cq_list (sched (rt_control s')) = cq_list (sched (rt_control s)) @ [running (rt_control s)]"
proof -
  let ?n = "length (channels (rt_control s)) + i" and ?sem = "rt_sems s ! i"
  obtain ws where ws: "cinv (rt_control s) (all_sems s) ws" and act: "rt_active s \<noteq> 0"
    and init: "initialised (rt_control s)"
    using inv by (auto elim: rt_invE)
  have wn: "ws ! ?n = x # xs"
    using waiters_ws [OF ws client_sem(2) [OF i]] client_sem(1) [OF i] w by simp
  let ?d = "dequeue_waiter (nxt (tcbs (rt_control s)) x) ?sem"
  obtain links c where g: "signal_one (SemLinks_from ?sem) (rt_control s)
      = Some ((Some (tcb_co_handle (tcbs c ! nat x)), links), c)"
    "SemLinks_apply links ?sem = ?d" "cinv c ((all_sems s)[?n := ?d]) (ws[?n := xs])" "running c = x"
    "channels c = channels (rt_control s)"
    "cq_list (sched c) = cq_list (sched (rt_control s)) @ [running (rt_control s)]"
    using signal_one_wakes [OF ws client_sem(2) [OF i] wn] client_sem(1) [OF i] by auto
  let ?s = "s\<lparr>rt_control := c, rt_sems := (rt_sems s)[i := ?d]\<rparr>"
  have c: "cinv (rt_control ?s) (all_sems ?s) (ws[?n := xs])"
    using g(3,5) by (simp add: all_sems_def all_sems_client)
  then obtain s' where s': "co_switch (tcb_co_handle (tcbs c ! nat x)) ?s = Some s'"
    "rt_inv s'" "rt_control s' = c" "rt_sems s' = rt_sems ?s"
    using rt_inv_switch_state [OF c] act g(4) by auto
  have cs: "cinv (rt_control s') (all_sems s') (ws[?n := xs])"
    using c s'(3,4) by (simp add: all_sems_def)
  have "i < length (rt_sems s')" and "length (channels (rt_control s')) + i = ?n"
    using i s'(3,4) g(5) by simp_all
  then have "waiters s' (rt_sems s' ! i) = (ws[?n := xs]) ! ?n"
    using waiters_ws [OF cs client_sem(2)] client_sem(1) by metis
  moreover have "?n < length ws"
    using ws client_sem(2) [OF i] by (auto simp: cinv_def cplaced_def placed_def dest: list_all2_lengthD)
  ultimately show ?thesis
    using g s' init by (simp add: microkit_cothread_semaphore_signal_def with_control_ready)
qed

lemma semaphore_signal_sticks:
  assumes inv: "rt_inv s" and i: "i < length (rt_sems s)" and w: "waiters s (rt_sems s ! i) = []"
  defines "s' \<equiv> s\<lparr>rt_sems := (rt_sems s)[i := (rt_sems s ! i)\<lparr>sem_set := True\<rparr>]\<rparr>"
  shows "microkit_cothread_semaphore_signal i s = Some s'" and "rt_inv s'"
proof -
  let ?n = "length (channels (rt_control s)) + i" and ?sem = "rt_sems s ! i"
  obtain ws where ws: "cinv (rt_control s) (all_sems s) ws" and init: "initialised (rt_control s)"
    using inv by (auto elim: rt_invE)
  have "ws ! ?n = []"
    using waiters_ws [OF ws client_sem(2) [OF i]] client_sem(1) [OF i] w by simp
  then obtain links where g: "signal_one (SemLinks_from ?sem) (rt_control s) = Some ((None, links), rt_control s)"
    "SemLinks_apply links ?sem = ?sem\<lparr>sem_set := True\<rparr>"
    "cinv (rt_control s) ((all_sems s)[?n := ?sem\<lparr>sem_set := True\<rparr>]) ws"
    using signal_one_sticks [OF ws client_sem(2) [OF i]] client_sem(1) [OF i] by auto
  show "microkit_cothread_semaphore_signal i s = Some s'"
    using g(1,2) init
    by (simp add: microkit_cothread_semaphore_signal_def with_control_ready [of s _ _ "rt_control s"] s'_def)
  show "rt_inv s'"
    using g(3) inv by (auto simp: rt_inv_def all_sems_def all_sems_client s'_def)
qed

subsection \<open>Channels\<close>

lemma wait_on_channel_sticky:
  assumes inv: "rt_inv s" and i: "i < MICROKIT_MAX_CHANNELS" and set: "sem_set (channels (rt_control s) ! i)"
  shows "\<exists>s'. microkit_cothread_wait_on_channel i s = Some s' \<and> rt_inv s'
    \<and> running (rt_control s') = running (rt_control s) \<and> \<not> sem_set (channels (rt_control s') ! i)"
proof -
  let ?c = "rt_control s"
  obtain ws where ws: "cinv ?c (all_sems s) ws" and init: "initialised ?c"
    using inv by (auto elim: rt_invE)
  note ch = channel_sem [OF inv i]
  let ?c' = "?c\<lparr>channels := (channels ?c)[i := (channels ?c ! i)\<lparr>sem_set := False\<rparr>]\<rparr>"
  have "cinv ?c ((all_sems s)[i := (channels ?c ! i)\<lparr>sem_set := False\<rparr>]) ws"
    using sem_clear_inv [OF ws ch(2)] set ch(1) by simp
  then have "cinv ?c' (channels ?c' @ rt_sems s) ws"
    using ch(3) by (simp add: all_sems_def all_sems_channel cinv_def cplaced_def ctl_ok_def)
  then have "rt_inv (s\<lparr>rt_control := ?c'\<rparr>)"
    using inv by (auto simp: rt_inv_def all_sems_def)
  moreover have "microkit_cothread_wait_on_channel i s = Some (s\<lparr>rt_control := ?c'\<rparr>)"
    using i init set
    by (simp add: microkit_cothread_wait_on_channel_def channel_index_def with_control_def
        block_running_def switch_next_def SemLinks_from_def SemLinks_apply_def set_channel_def)
  ultimately show ?thesis
    using ch(3) by simp
qed

lemma wait_on_channel_blocks:
  assumes inv: "rt_inv s" and i: "i < MICROKIT_MAX_CHANNELS"
    and clear: "\<not> sem_set (channels (rt_control s) ! i)" and r: "running (rt_control s) \<noteq> ROOT_HANDLE"
  shows "\<exists>s'. microkit_cothread_wait_on_channel i s = Some s' \<and> rt_inv s'
    \<and> waiters s' (channels (rt_control s') ! i)
        = waiters s (channels (rt_control s) ! i) @ [running (rt_control s)]
    \<and> running (rt_control s') # cq_list (sched (rt_control s')) = cq_list (sched (rt_control s))"
proof -
  let ?c = "rt_control s" and ?r = "running (rt_control s)"
  let ?sem = "channels ?c ! i"
  obtain ws where ws: "cinv ?c (all_sems s) ws" and act: "rt_active s \<noteq> 0" and init: "initialised ?c"
    using inv by (auto elim: rt_invE)
  note ch = channel_sem [OF inv i]
  obtain links c where b: "block_running (SemLinks_from ?sem) s = Some (True, links, s\<lparr>rt_control := c\<rparr>)"
    "SemLinks_apply links ?sem = enqueue_waiter ?r ?sem"
    "cplaced c ((all_sems s)[i := enqueue_waiter ?r ?sem]) (ws[i := ws ! i @ [?r]]) []"
    "channels c = channels ?c" "sched c = sched ?c"
    using block_running_blocks [OF ws ch(2) ch(1) [symmetric] clear refl r] by auto
  let ?c2 = "set_channel i links c"
  let ?s = "s\<lparr>rt_control := ?c2\<rparr>"
  have ini2: "initialised c"
    using b(3) by (simp add: cplaced_def ctl_ok_def)
  have "cplaced (rt_control ?s) (all_sems ?s) (ws[i := ws ! i @ [?r]]) []"
    using b(2-4) ch(3)
    by (simp add: all_sems_def all_sems_channel set_channel_def cplaced_def ctl_ok_def)
  then obtain s' where s': "switch_next True ?s = Some s'" "rt_inv s'"
    "channels (rt_control s') = channels ?c2" "cinv (rt_control s') (all_sems s') (ws[i := ws ! i @ [?r]])"
    "running (rt_control s') # cq_list (sched (rt_control s')) = cq_list (sched (rt_control ?s))"
    using switch_next_inv [of ?s] act by auto
  have "waiters s' (channels (rt_control s') ! i) = (ws[i := ws ! i @ [?r]]) ! i"
    using waiters_ws [OF s'(4) channel_sem(2) [OF s'(2) i]] channel_sem(1) [OF s'(2) i] by simp
  moreover have "i < length ws"
    using ws ch(2) by (auto simp: cinv_def cplaced_def placed_def dest: list_all2_lengthD)
  moreover have "waiters s ?sem = ws ! i"
    using waiters_ws [OF ws ch(2)] ch(1) by simp
  moreover have "microkit_cothread_wait_on_channel i s = switch_next True ?s"
    using i init ini2 b(1)
    by (simp add: microkit_cothread_wait_on_channel_def channel_index_def with_control_def)
  ultimately show ?thesis
    using s'(1,2,5) b(5) by (simp add: set_channel_def)
qed

lemma recv_ntfn_wakes:
  assumes inv: "rt_inv s" and i: "i < MICROKIT_MAX_CHANNELS" and r: "running (rt_control s) = ROOT_HANDLE"
    and w: "waiters s (channels (rt_control s) ! i) = x # xs"
  shows "\<exists>s'. microkit_cothread_recv_ntfn i s = Some s' \<and> rt_inv s'
    \<and> running (rt_control s') = x \<and> waiters s' (channels (rt_control s') ! i) = xs
    \<and> cq_list (sched (rt_control s')) = cq_list (sched (rt_control s)) @ [ROOT_HANDLE]"
proof -
  let ?c = "rt_control s"
  let ?sem = "channels ?c ! i"
  obtain ws where ws: "cinv ?c (all_sems s) ws" and act: "rt_active s \<noteq> 0" and init: "initialised ?c"
    using inv by (auto elim: rt_invE)
  note ch = channel_sem [OF inv i]
  have wn: "ws ! i = x # xs"
    using waiters_ws [OF ws ch(2)] ch(1) w by simp
  let ?d = "dequeue_waiter (nxt (tcbs ?c) x) ?sem"
  obtain links c where g: "signal_one (SemLinks_from ?sem) ?c
      = Some ((Some (tcb_co_handle (tcbs c ! nat x)), links), c)"
    "SemLinks_apply links ?sem = ?d" "cinv c ((all_sems s)[i := ?d]) (ws[i := xs])" "running c = x"
    "channels c = channels ?c" "cq_list (sched c) = cq_list (sched ?c) @ [running ?c]"
    using signal_one_wakes [OF ws ch(2) wn] ch(1) by auto
  let ?s = "s\<lparr>rt_control := set_channel i links c\<rparr>"
  have c: "cinv (rt_control ?s) (all_sems ?s) (ws[i := xs])"
    using g(2,3,5) ch(3)
    by (simp add: all_sems_def all_sems_channel set_channel_def cinv_def cplaced_def ctl_ok_def)
  obtain s' where s': "co_switch (tcb_co_handle (tcbs c ! nat x)) ?s = Some s'"
    "rt_inv s'" "rt_control s' = rt_control ?s" "rt_sems s' = rt_sems ?s"
    using rt_inv_switch_state [OF c] act g(4) by (auto simp: set_channel_def)
  have cs: "cinv (rt_control s') (all_sems s') (ws[i := xs])"
    using c s'(3,4) by (simp add: all_sems_def)
  have "waiters s' (channels (rt_control s') ! i) = (ws[i := xs]) ! i"
    using waiters_ws [OF cs channel_sem(2) [OF s'(2) i]] channel_sem(1) [OF s'(2) i] by simp
  moreover have "i < length ws"
    using ws ch(2) by (auto simp: cinv_def cplaced_def placed_def dest: list_all2_lengthD)
  moreover have "microkit_cothread_recv_ntfn i s = co_switch (tcb_co_handle (tcbs c ! nat x)) ?s"
    using i init r g(1) by (simp add: microkit_cothread_recv_ntfn_def channel_index_def with_control_def)
  ultimately show ?thesis
    using s' g(4,6) r by (simp add: set_channel_def)
qed

lemma recv_ntfn_sticks:
  assumes inv: "rt_inv s" and i: "i < MICROKIT_MAX_CHANNELS" and r: "running (rt_control s) = ROOT_HANDLE"
    and w: "waiters s (channels (rt_control s) ! i) = []"
  shows "\<exists>s'. microkit_cothread_recv_ntfn i s = Some s' \<and> rt_inv s'
    \<and> running (rt_control s') = ROOT_HANDLE \<and> sem_set (channels (rt_control s') ! i)"
proof -
  let ?c = "rt_control s"
  let ?sem = "channels ?c ! i"
  obtain ws where ws: "cinv ?c (all_sems s) ws" and init: "initialised ?c"
    using inv by (auto elim: rt_invE)
  note ch = channel_sem [OF inv i]
  have "ws ! i = []"
    using waiters_ws [OF ws ch(2)] ch(1) w by simp
  then obtain links where g: "signal_one (SemLinks_from ?sem) ?c = Some ((None, links), ?c)"
    "SemLinks_apply links ?sem = ?sem\<lparr>sem_set := True\<rparr>"
    "cinv ?c ((all_sems s)[i := ?sem\<lparr>sem_set := True\<rparr>]) ws"
    using signal_one_sticks [OF ws ch(2)] ch(1) by auto
  let ?s = "s\<lparr>rt_control := set_channel i links ?c\<rparr>"
  have "cinv (rt_control ?s) (all_sems ?s) ws"
    using g(2,3) ch(3)
    by (simp add: all_sems_def all_sems_channel set_channel_def cinv_def cplaced_def ctl_ok_def)
  then have "rt_inv ?s"
    using inv by (auto simp: rt_inv_def set_channel_def)
  moreover have "microkit_cothread_recv_ntfn i s = Some ?s"
    using i init r g(1) by (simp add: microkit_cothread_recv_ntfn_def channel_index_def with_control_def)
  ultimately show ?thesis
    using r g(2) ch(3) by (simp add: set_channel_def)
qed

subsection \<open>Initialisation\<close>

definition fresh_sem :: "Semaphore \<Rightarrow> bool" where
  "fresh_sem sem \<longleftrightarrow> sem_head sem = NULL_HANDLE \<and> sem_tail sem = NULL_HANDLE"

lemma length_7: "length xs = 7 \<Longrightarrow> \<exists>a b c d e f g. xs = [a, b, c, d, e, f, g]"
  by (simp add: numeral_eq_Suc length_Suc_conv) blast

fun set_stacks :: "nat \<Rightarrow> usize list \<Rightarrow> Tcb list \<Rightarrow> Tcb list" where
  "set_stacks k [] ts = ts"
| "set_stacks k (x # xs) ts = set_stacks (Suc k) xs (ts[k := (ts ! k)\<lparr>tcb_stack := x\<rparr>])"

lemma init_workers_pool:
  "cq_wf (free c) \<Longrightarrow> cq_items (free c) + length stacks \<le> MAX_COTHREADS \<Longrightarrow>
    \<exists>q. init_workers k stacks c = Some (c\<lparr>tcbs := set_stacks k stacks (tcbs c), free := q\<rparr>)
      \<and> cq_wf q \<and> cq_list q = cq_list (free c) @ map int [k..<k + length stacks]"
proof (induction stacks arbitrary: k c)
  case Nil
  then show ?case by (intro exI [of _ "free c"]) simp
next
  case (Cons x xs)
  then obtain q where q: "Queue_push (free c) (int k) = Some q" "cq_wf q" "cq_list q = cq_list (free c) @ [int k]"
    using Queue_push_append [of "free c" "int k"] by auto
  then have "cq_items q = cq_items (free c) + 1"
    using length_cq_list [of q] by simp
  moreover have "[k..<k + length (x # xs)] = k # [Suc k..<Suc k + length xs]"
    by (simp add: upt_conv_Cons del: upt_Suc)
  ultimately show ?case
    using q Cons.prems Cons.IH [of "(upd_tcb k (\<lambda>t. t\<lparr>tcb_stack := x\<rparr>) c)\<lparr>free := q\<rparr>" "Suc k"]
    by (auto simp: upd_tcb_def)
qed

lemma set_stacks_7:
  "set_stacks 1 [a, b, c, d, e, f, g] (t0 # replicate 7 t)
    = t0 # map (\<lambda>x. t\<lparr>tcb_stack := x\<rparr>) [a, b, c, d, e, f, g]"
  by (simp add: eval_nat_numeral)

lemma init_result:
  assumes "microkit_cothread_init sz [a, b, c, d, e, f, g] root_ctx s = Some s'"
  shows "\<exists>q. s' = s\<lparr>rt_control := \<lparr>initialised = True, stack_size = sz, running = ROOT_HANDLE,
      tcbs = Tcb_empty\<lparr>tcb_state := Running, tcb_co_handle := root_ctx\<rparr>
        # map (\<lambda>x. Tcb_empty\<lparr>tcb_stack := x\<rparr>) [a, b, c, d, e, f, g],
      free = q, sched = Queue_new, channels = replicate MICROKIT_MAX_CHANNELS Semaphore_new\<rparr>,
      rt_active := root_ctx\<rparr> \<and> cq_wf q \<and> cq_list q = [1..7]"
proof -
  let ?c = "Control_empty\<lparr>stack_size := sz, running := ROOT_HANDLE\<rparr>"
  let ?c1 = "upd_tcb 0 (\<lambda>t. t\<lparr>tcb_state := Running, tcb_co_handle := root_ctx\<rparr>) ?c"
  have "replicate MAX_COTHREADS Tcb_empty = Tcb_empty # replicate 7 Tcb_empty"
    by (simp add: MAX_COTHREADS_def eval_nat_numeral)
  then have c1: "tcbs ?c1 = Tcb_empty\<lparr>tcb_state := Running, tcb_co_handle := root_ctx\<rparr> # replicate 7 Tcb_empty"
    "free ?c1 = Queue_new"
    by (simp_all add: Control_empty_def upd_tcb_def)
  obtain c2 where c2: "init_workers 1 [a, b, c, d, e, f, g] ?c1 = Some c2"
    and s': "s' = s\<lparr>rt_control := c2\<lparr>initialised := True\<rparr>, rt_active := root_ctx\<rparr>"
    using assms unfolding microkit_cothread_init_def
    by (auto simp del: init_workers.simps split: if_splits bind_splits)
  obtain q where q: "c2 = ?c1\<lparr>tcbs := set_stacks 1 [a, b, c, d, e, f, g] (tcbs ?c1), free := q\<rparr>" "cq_wf q"
    "cq_list q = map int [1..<1 + length [a, b, c, d, e, f, g]]"
    using init_workers_pool [of ?c1 "[a, b, c, d, e, f, g]" 1] c2 c1(2)
    by (auto simp: MAX_COTHREADS_def simp del: init_workers.simps set_stacks.simps)
  have "cq_list q = [1..7]"
    unfolding q(3) by (simp add: upt_rec upto_rec1)
  then show ?thesis
    using q(1,2) unfolding s' c1 set_stacks_7 by (auto simp: Control_empty_def upd_tcb_def)
qed

lemma validated_stacks_fit:
  assumes "validate_stacks sz stacks = Some ()" and "\<not> sz < MIN_STACK_SIZE"
  shows "list_all (stack_fits sz) stacks"
proof -
  have "list_all (\<lambda>x. unat x + unat sz < 2 ^ 64) xs" if "validate_ranges sz xs" for xs
    using that by (induction xs) (auto simp: stack_end_def split: if_splits)
  then show ?thesis
    using assms by (auto simp: validate_stacks_def stack_fits_def list_all_iff split: if_splits)
qed

lemma init_establishes:
  assumes "microkit_cothread_init sz stacks root_ctx s = Some s'"
    and "length stacks = STACK_SLOTS" and "root_ctx \<noteq> 0" and fresh: "\<forall>sem\<in>set (rt_sems s). fresh_sem sem"
  shows "rt_inv s'"
    and "running (rt_control s') = ROOT_HANDLE" and "cq_list (sched (rt_control s')) = []"
    and "cq_list (free (rt_control s')) = [1..7]"
    and "channels (rt_control s') = replicate MICROKIT_MAX_CHANNELS Semaphore_new"
proof -
  obtain a b c d e f g where stacks: "stacks = [a, b, c, d, e, f, g]"
    using length_7 [of stacks] assms(2) by (auto simp: STACK_SLOTS_def MAX_COTHREADS_def)
  have "list_all (stack_fits sz) stacks"
    using assms(1) validated_stacks_fit [of sz stacks] by (auto simp: microkit_cothread_init_def split: if_splits bind_splits)
  then have fits: "stack_fits sz a" "stack_fits sz b" "stack_fits sz c" "stack_fits sz d" "stack_fits sz e" "stack_fits sz f" "stack_fits sz g"
    by (simp_all add: stacks)
  obtain q where s': "s' = s\<lparr>rt_control := \<lparr>initialised = True, stack_size = sz, running = ROOT_HANDLE,
      tcbs = Tcb_empty\<lparr>tcb_state := Running, tcb_co_handle := root_ctx\<rparr>
        # map (\<lambda>x. Tcb_empty\<lparr>tcb_stack := x\<rparr>) [a, b, c, d, e, f, g],
      free = q, sched = Queue_new, channels = replicate MICROKIT_MAX_CHANNELS Semaphore_new\<rparr>,
      rt_active := root_ctx\<rparr>" and q: "cq_wf q" "cq_list q = [1..7]"
    using init_result [OF assms(1) [unfolded stacks]] by blast
  let ?ts = "Tcb_empty\<lparr>tcb_state := Running, tcb_co_handle := root_ctx\<rparr>
    # map (\<lambda>x. Tcb_empty\<lparr>tcb_stack := x\<rparr>) [a, b, c, d, e, f, g]"
  show "running (rt_control s') = ROOT_HANDLE" and "cq_list (sched (rt_control s')) = []"
    and "channels (rt_control s') = replicate MICROKIT_MAX_CHANNELS Semaphore_new"
    by (simp_all add: s')
  show "cq_list (free (rt_control s')) = [1..7]"
    by (simp add: s' q)
  let ?sems = "replicate MICROKIT_MAX_CHANNELS Semaphore_new @ rt_sems s"
  have "placed sz ?ts [] [1..7] ?sems (replicate (length ?sems) []) [ROOT_HANDLE]"
  proof -
    have "sem_ok ?ts sem []" if "sem \<in> set ?sems" for sem
      using that fresh by (auto simp: sem_ok_def fresh_sem_def Semaphore_new_def)
    then have "list_all2 (sem_ok ?ts) ?sems (replicate (length ?sems) [])"
      by (intro list_all2_all_nthI) (simp_all only: length_replicate nth_replicate nth_mem)
    moreover have "\<forall>h\<in>set all_handles. h \<noteq> ROOT_HANDLE \<longrightarrow> stack_fits sz (tcb_stack (?ts ! nat h))"
      using fits by (simp add: all_handles_def upto_rec1 ROOT_HANDLE_def)
    moreover have "\<forall>h\<in>set [1..7]. st ?ts h = NotActive"
      by (simp add: upto_rec1 Tcb_empty_def)
    moreover have "mset ([ROOT_HANDLE] @ [] @ [1..7] @ concat (replicate (length ?sems) [])) = mset all_handles"
      by (simp add: all_handles_def upto_rec1 [of 0] ROOT_HANDLE_def)
    ultimately show ?thesis
      by (simp add: placed_def MAX_COTHREADS_def ROOT_HANDLE_def)
  qed
  then show "rt_inv s'"
    using assms(3) q
    by (auto simp: rt_inv_def cinv_def cplaced_def ctl_ok_def s' all_sems_def live_def ROOT_HANDLE_def)
qed

subsection \<open>The transition system\<close>

datatype co_op =
  Spawn usize usize
| Yield
| Destroy int
| SemWait nat
| SemSignal nat
| WaitChannel nat
| RecvNtfn nat
| Returns

fun co_exec :: "co_op \<Rightarrow> rt \<Rightarrow> rt option" where
  "co_exec (Spawn entry arg) s = map_option snd (microkit_cothread_spawn entry arg s)"
| "co_exec Yield s = microkit_cothread_yield s"
| "co_exec (Destroy h) s = microkit_cothread_destroy h s"
| "co_exec (SemWait i) s = microkit_cothread_semaphore_wait i s"
| "co_exec (SemSignal i) s = microkit_cothread_semaphore_signal i s"
| "co_exec (WaitChannel i) s = microkit_cothread_wait_on_channel i s"
| "co_exec (RecvNtfn i) s = microkit_cothread_recv_ntfn i s"
| "co_exec Returns s = cothread_returns s"

text \<open>The contract as the comments of the crate state it: only a ready or running worker is
  destroyed, the root cothread does not wait, only the root receives notifications, and channels
  are below 62.\<close>

fun co_contract :: "co_op \<Rightarrow> rt \<Rightarrow> bool" where
  "co_contract (Spawn entry arg) s = True"
| "co_contract Yield s = True"
| "co_contract (Destroy h) s \<longleftrightarrow> idx h \<noteq> None \<and> h \<noteq> ROOT_HANDLE
     \<and> (let t = tcb_state (tcbs (rt_control s) ! nat h) in t = Ready \<or> t = Running)"
| "co_contract (SemWait i) s \<longleftrightarrow> running (rt_control s) \<noteq> ROOT_HANDLE"
| "co_contract (SemSignal i) s = True"
| "co_contract (WaitChannel i) s \<longleftrightarrow> i < MICROKIT_MAX_CHANNELS \<and> running (rt_control s) \<noteq> ROOT_HANDLE"
| "co_contract (RecvNtfn i) s \<longleftrightarrow> i < MICROKIT_MAX_CHANNELS \<and> running (rt_control s) = ROOT_HANDLE"
| "co_contract Returns s \<longleftrightarrow> running (rt_control s) \<noteq> ROOT_HANDLE"

text \<open>A wait of the root cothread on a semaphore or channel that holds a sticky signal.\<close>

fun root_takes_signal :: "co_op \<Rightarrow> rt \<Rightarrow> bool" where
  "root_takes_signal (SemWait i) s \<longleftrightarrow> running (rt_control s) = ROOT_HANDLE \<and> sem_set (rt_sems s ! i)"
| "root_takes_signal (WaitChannel i) s \<longleftrightarrow>
     i < MICROKIT_MAX_CHANNELS \<and> running (rt_control s) = ROOT_HANDLE \<and> sem_set (channels (rt_control s) ! i)"
| "root_takes_signal _ s = False"

text \<open>The condition that the code checks.\<close>

fun co_legal :: "co_op \<Rightarrow> rt \<Rightarrow> bool" where
  "co_legal (Spawn entry arg) s = True"
| "co_legal Yield s = True"
| "co_legal (Destroy h) s \<longleftrightarrow> idx h \<noteq> None \<and> h \<noteq> ROOT_HANDLE
     \<and> (let t = tcb_state (tcbs (rt_control s) ! nat h) in t = Ready \<or> t = Running)"
| "co_legal (SemWait i) s \<longleftrightarrow> sem_set (rt_sems s ! i) \<or> running (rt_control s) \<noteq> ROOT_HANDLE"
| "co_legal (SemSignal i) s = True"
| "co_legal (WaitChannel i) s \<longleftrightarrow> i < MICROKIT_MAX_CHANNELS
     \<and> (sem_set (channels (rt_control s) ! i) \<or> running (rt_control s) \<noteq> ROOT_HANDLE)"
| "co_legal (RecvNtfn i) s \<longleftrightarrow> i < MICROKIT_MAX_CHANNELS \<and> running (rt_control s) = ROOT_HANDLE"
| "co_legal Returns s \<longleftrightarrow> running (rt_control s) \<noteq> ROOT_HANDLE"

lemma co_legal_contract: "co_legal op s \<longleftrightarrow> co_contract op s \<or> root_takes_signal op s"
  by (cases op) auto

fun sem_exists :: "co_op \<Rightarrow> rt \<Rightarrow> bool" where
  "sem_exists (SemWait i) s \<longleftrightarrow> i < length (rt_sems s)"
| "sem_exists (SemSignal i) s \<longleftrightarrow> i < length (rt_sems s)"
| "sem_exists _ s = True"

lemma destroy_legal:
  assumes "rt_inv s" and "co_legal (Destroy h) s"
  shows "h = running (rt_control s) \<or> h \<in> set (cq_list (sched (rt_control s)))"
proof -
  let ?c = "rt_control s"
  obtain ws where "placed (stack_size ?c) (tcbs ?c) (cq_list (sched ?c)) (cq_list (free ?c)) (all_sems s) ws [running ?c]"
    using assms(1) by (rule rt_invE) (auto simp: cplaced_def)
  note p = this and m = placed_members(1) [OF this]
  have "h \<in> set all_handles"
    using assms(2) by (auto simp: idx_def all_handles_set MAX_COTHREADS_def split: if_splits)
  then have "h \<in> set ([running ?c] @ cq_list (sched ?c) @ cq_list (free ?c) @ concat ws)"
    using m by simp
  moreover have "h \<notin> set (cq_list (free ?c))" "h \<notin> set (concat ws)"
    using p assms(2) by (auto simp: placed_def Let_def)
  ultimately show ?thesis
    by auto
qed

lemma destroy_step:
  assumes "rt_inv s" and "co_legal (Destroy h) s"
  shows "\<exists>s'. microkit_cothread_destroy h s = Some s' \<and> rt_inv s'"
  using destroy_legal [OF assms] destroy_running [OF assms(1), of h] destroy_ready [OF assms(1), of h] assms(2)
  by auto

lemma co_exec_legal:
  assumes inv: "rt_inv s" and ok: "sem_exists op s" and legal: "co_legal op s"
  shows "\<exists>s'. co_exec op s = Some s' \<and> rt_inv s'"
proof (cases op)
  case (Spawn entry arg)
  then show ?thesis
    using spawn_ready [OF inv, of _ _ entry arg] spawn_full [OF inv, of entry arg] inv
    by (cases "cq_list (free (rt_control s))") auto
next
  case Yield
  then show ?thesis using yield_round_robin [OF inv] by auto
next
  case (Destroy h)
  then show ?thesis using destroy_step [OF inv] legal by simp
next
  case (SemWait i)
  then show ?thesis
    using semaphore_wait_sticky [OF inv, of i] semaphore_wait_blocks [OF inv, of i] ok legal
    by (cases "sem_set (rt_sems s ! i)") auto
next
  case (SemSignal i)
  then show ?thesis
    using semaphore_signal_wakes [OF inv, of i] semaphore_signal_sticks [OF inv, of i] ok
    by (cases "waiters s (rt_sems s ! i)") auto
next
  case (WaitChannel i)
  then show ?thesis
    using wait_on_channel_sticky [OF inv, of i] wait_on_channel_blocks [OF inv, of i] legal
    by (cases "sem_set (channels (rt_control s) ! i)") auto
next
  case (RecvNtfn i)
  then show ?thesis
    using recv_ntfn_wakes [OF inv, of i] recv_ntfn_sticks [OF inv, of i] legal
    by (cases "waiters s (channels (rt_control s) ! i)") auto
next
  case Returns
  have "initialised (rt_control s)"
    using inv by (auto elim: rt_invE)
  then show ?thesis
    using Returns destroy_running [OF inv refl] legal
    by (auto simp: cothread_returns_def microkit_cothread_my_handle_def with_control_def)
qed

lemma release_illegal:
  assumes "\<not> co_legal (Destroy h) s"
  shows "microkit_cothread_destroy h s = None"
proof -
  have "release h (rt_control s) = None"
  proof (cases "idx h")
    case None
    then show ?thesis by (simp add: release_def)
  next
    case (Some i)
    then have "i = nat h"
      by (auto simp: idx_def split: if_splits)
    with Some show ?thesis
      using assms by (cases "tcb_state (tcbs (rt_control s) ! nat h)") (auto simp: release_def Let_def)
  qed
  then show ?thesis
    by (simp add: microkit_cothread_destroy_def with_control_def)
qed

lemma co_exec_illegal: "\<not> co_legal op s \<Longrightarrow> co_exec op s = None"
proof (cases op)
  case (Destroy h)
  assume "\<not> co_legal op s"
  then show ?thesis using Destroy release_illegal by simp
next
  case (SemWait i)
  assume "\<not> co_legal op s"
  then show ?thesis using SemWait semaphore_wait_root by simp
next
  case (WaitChannel i)
  assume "\<not> co_legal op s"
  then show ?thesis
    using WaitChannel
    by (auto simp: microkit_cothread_wait_on_channel_def channel_index_def with_control_def
        block_running_def SemLinks_from_def)
next
  case (RecvNtfn i)
  assume "\<not> co_legal op s"
  then show ?thesis
    using RecvNtfn by (auto simp: microkit_cothread_recv_ntfn_def channel_index_def with_control_def)
next
  case Returns
  assume "\<not> co_legal op s"
  then show ?thesis
    using Returns
    by (auto simp: cothread_returns_def microkit_cothread_my_handle_def microkit_cothread_destroy_def
        with_control_def release_def idx_def ROOT_HANDLE_def)
qed simp_all

text \<open>States reached from an initialised runtime by operations that do not panic.\<close>

inductive co_reachable :: "rt \<Rightarrow> rt \<Rightarrow> bool" for s0 where
  start: "co_reachable s0 s0"
| step: "co_reachable s0 s \<Longrightarrow> sem_exists op s \<Longrightarrow> co_exec op s = Some s' \<Longrightarrow> co_reachable s0 s'"

inductive_simps co_reachable_simps: "co_reachable s0 s"

lemma co_reachable_inv: "co_reachable s0 s \<Longrightarrow> rt_inv s0 \<Longrightarrow> rt_inv s"
proof (induction rule: co_reachable.induct)
  case start
  then show ?case by simp
next
  case (step s op s')
  then have "co_legal op s"
    using co_exec_illegal [of op s] by (metis option.distinct(1))
  with step show ?case
    using co_exec_legal [of s op] by auto
qed

subsection \<open>Properties\<close>

text \<open>C3: After a successful initialisation, whatever calls have been made, an operation that keeps
  the documented contract does not panic: no queue of handles overflows, no handle taken from a
  queue is out of range, the scheduler always finds a cothread to run, and no switch goes to a null
  context. An operation that breaks the contract panics, with one exception that the comments do
  not mention: the root cothread may wait on a semaphore or channel that holds a sticky signal.\<close>

theorem cothread_panics_exactly_on_contract_breaks:
  assumes "microkit_cothread_init sz stacks root_ctx s = Some s0"
    and "length stacks = STACK_SLOTS" and "root_ctx \<noteq> 0" and "\<forall>sem\<in>set (rt_sems s). fresh_sem sem"
    and "co_reachable s0 s1" and "sem_exists op s1"
  shows "co_exec op s1 \<noteq> None \<longleftrightarrow> co_contract op s1 \<or> root_takes_signal op s1"
proof -
  have "rt_inv s1"
    using init_establishes(1) [OF assms(1-4)] co_reachable_inv [OF assms(5)] by blast
  then show ?thesis
    using co_exec_legal [of s1 op] co_exec_illegal [of op s1] assms(6) by (cases "co_legal op s1") (auto simp: co_legal_contract)
qed

text \<open>C4: In every reachable state the running cothread is the only one in state
  \<open>Running\<close>, the active context is its context, exactly the handles of the scheduling queue
  are \<open>Ready\<close>, exactly those of the free pool are \<open>NotActive\<close>, and the root cothread
  is running or ready.\<close>

theorem cothread_states_agree_with_queues:
  assumes "microkit_cothread_init sz stacks root_ctx s = Some s0"
    and "length stacks = STACK_SLOTS" and "root_ctx \<noteq> 0" and "\<forall>sem\<in>set (rt_sems s). fresh_sem sem"
    and "co_reachable s0 s1"
  defines "c \<equiv> rt_control s1"
  shows "rt_active s1 = tcb_co_handle (tcbs c ! nat (running c))
    \<and> {h. 0 \<le> h \<and> h < 8 \<and> st (tcbs c) h = Running} = {running c}
    \<and> {h. 0 \<le> h \<and> h < 8 \<and> st (tcbs c) h = Ready} = set (cq_list (sched c))
    \<and> {h. 0 \<le> h \<and> h < 8 \<and> st (tcbs c) h = NotActive} = set (cq_list (free c))
    \<and> ROOT_HANDLE \<in> insert (running c) (set (cq_list (sched c)))"
proof -
  have inv: "rt_inv s1"
    using init_establishes(1) [OF assms(1-4)] co_reachable_inv [OF assms(5)] by blast
  then obtain ws where ws: "cinv c (all_sems s1) ws" and act: "rt_active s1 = tcb_co_handle (tcbs c ! nat (running c))"
    unfolding c_def by (rule rt_invE)
  then have p: "placed (stack_size c) (tcbs c) (cq_list (sched c)) (cq_list (free c)) (all_sems s1) ws [running c]"
    and run: "st (tcbs c) (running c) = Running"
    by (simp_all add: cinv_def cplaced_def)
  have hs: "0 \<le> h \<and> h < 8 \<longleftrightarrow> h \<in> {running c} \<union> set (cq_list (sched c)) \<union> set (cq_list (free c)) \<union> set (concat ws)" for h
    using placed_members(1) [OF p] all_handles_set [of h] by auto
  have sts: "h \<in> set (cq_list (sched c)) \<Longrightarrow> st (tcbs c) h = Ready"
    "h \<in> set (cq_list (free c)) \<Longrightarrow> st (tcbs c) h = NotActive"
    "h \<in> set (concat ws) \<Longrightarrow> st (tcbs c) h = Blocked" for h
    using p unfolding placed_def by blast+
  have "0 \<le> h \<and> h < 8 \<and> st (tcbs c) h = Running \<longleftrightarrow> h = running c"
    "0 \<le> h \<and> h < 8 \<and> st (tcbs c) h = Ready \<longleftrightarrow> h \<in> set (cq_list (sched c))"
    "0 \<le> h \<and> h < 8 \<and> st (tcbs c) h = NotActive \<longleftrightarrow> h \<in> set (cq_list (free c))" for h
    using run sts [of h] hs [of h] by (auto simp del: set_concat)
  moreover have "ROOT_HANDLE \<in> insert (running c) (set (cq_list (sched c)))"
    using root_ready [OF p] by auto
  ultimately show ?thesis
    using act by simp
qed

text \<open>A yield is round robin: the caller goes to the back of the scheduling queue and the front
  of the queue, which is the caller itself when nobody else is ready, becomes the running
  cothread.\<close>

theorem yield_is_round_robin:
  assumes "rt_inv s"
  shows "\<exists>s'. microkit_cothread_yield s = Some s' \<and> rt_inv s'
    \<and> running (rt_control s') # cq_list (sched (rt_control s'))
        = cq_list (sched (rt_control s)) @ [running (rt_control s)]"
  using yield_round_robin [OF assms] by blast

text \<open>A semaphore wakes its waiters in the order in which they blocked. A wait on a clear
  semaphore appends the caller to the waiters and runs the next ready cothread; a signal
  switches to the first waiter at once and queues the signaller.\<close>

theorem semaphore_wakes_in_order:
  assumes "rt_inv s" and "i < length (rt_sems s)"
  shows "(\<not> sem_set (rt_sems s ! i) \<and> running (rt_control s) \<noteq> ROOT_HANDLE \<longrightarrow>
      (\<exists>s'. microkit_cothread_semaphore_wait i s = Some s' \<and> rt_inv s'
        \<and> waiters s' (rt_sems s' ! i) = waiters s (rt_sems s ! i) @ [running (rt_control s)]))
    \<and> (\<forall>x xs. waiters s (rt_sems s ! i) = x # xs \<longrightarrow>
      (\<exists>s'. microkit_cothread_semaphore_signal i s = Some s' \<and> rt_inv s'
        \<and> running (rt_control s') = x \<and> waiters s' (rt_sems s' ! i) = xs
        \<and> cq_list (sched (rt_control s')) = cq_list (sched (rt_control s)) @ [running (rt_control s)]))"
  using semaphore_wait_blocks [OF assms] semaphore_signal_wakes [OF assms] by blast

text \<open>A signal that finds no waiter is not lost: the next wait on the semaphore returns at once,
  consumes the signal, and changes nothing else.\<close>

theorem signal_without_waiter_sticks:
  assumes "rt_inv s" and "i < length (rt_sems s)" and "waiters s (rt_sems s ! i) = []"
    and "\<not> sem_set (rt_sems s ! i)"
  shows "\<exists>s'. microkit_cothread_semaphore_signal i s = Some s' \<and> sem_set (rt_sems s' ! i)
    \<and> microkit_cothread_semaphore_wait i s' = Some s"
proof -
  let ?s = "s\<lparr>rt_sems := (rt_sems s)[i := (rt_sems s ! i)\<lparr>sem_set := True\<rparr>]\<rparr>"
  note sg = semaphore_signal_sticks [OF assms(1-3)]
  have clear: "(rt_sems s ! i)\<lparr>sem_set := False\<rparr> = rt_sems s ! i"
    using assms(4) by (cases "rt_sems s ! i") simp
  have "microkit_cothread_semaphore_wait i ?s
      = Some (?s\<lparr>rt_sems := (rt_sems ?s)[i := (rt_sems ?s ! i)\<lparr>sem_set := False\<rparr>]\<rparr>)"
    using assms(2) by (intro semaphore_wait_sticky(1) [OF sg(2)]) simp_all
  also have "?s\<lparr>rt_sems := (rt_sems ?s)[i := (rt_sems ?s ! i)\<lparr>sem_set := False\<rparr>]\<rparr> = s"
    using assms(2) clear by simp
  finally show ?thesis
    using sg(1) assms(2) by simp
qed

text \<open>A notification for a channel wakes the first cothread that waits on it, and the root
  cothread is queued behind the ready ones, so it runs again after the woken worker blocks,
  yields or returns.\<close>

theorem notification_wakes_first_waiter:
  assumes "rt_inv s" and "channel < MICROKIT_MAX_CHANNELS" and "running (rt_control s) = ROOT_HANDLE"
    and "waiters s (channels (rt_control s) ! channel) = x # xs"
  shows "\<exists>s'. microkit_cothread_recv_ntfn channel s = Some s' \<and> rt_inv s'
    \<and> running (rt_control s') = x \<and> waiters s' (channels (rt_control s') ! channel) = xs
    \<and> cq_list (sched (rt_control s')) = cq_list (sched (rt_control s)) @ [ROOT_HANDLE]"
  using assms by (rule recv_ntfn_wakes)

text \<open>The stacks that initialisation accepts lie in the address space and do not overlap.\<close>

theorem validated_stacks_disjoint:
  assumes "validate_stacks sz stacks = Some ()" and "i < j" and "j < length stacks"
  shows "unat (stacks ! i) + unat sz < 2 ^ 64 \<and> unat (stacks ! j) + unat sz < 2 ^ 64
    \<and> {unat (stacks ! i)..<unat (stacks ! i) + unat sz} \<inter> {unat (stacks ! j)..<unat (stacks ! j) + unat sz} = {}"
proof -
  have disj: "stacks_disjoint sz (xs ! i) (xs ! j)" if "validate_ranges sz xs" "i < j" "j < length xs" for xs i j
    using that
  proof (induction xs arbitrary: i j)
    case (Cons x xs)
    then show ?case
      by (cases i; cases j) (auto simp: list_all_length)
  qed simp
  have "stacks_disjoint sz (stacks ! i) (stacks ! j)"
    using assms disj by (auto simp: validate_stacks_def split: if_splits)
  then show ?thesis
    by (auto simp: stacks_disjoint_def stack_end_def word_less_nat_alt unat_word_ariths split: if_splits)
qed

subsection \<open>A concrete runtime\<close>

definition rt_blank :: rt where
  "rt_blank = \<lparr>rt_control = Control_empty, rt_active = 0, rt_arch = X86_64, rt_sems = [Semaphore_new]\<rparr>"

definition sample_stacks :: "usize list" where
  "sample_stacks = [0x1000, 0x2000, 0x3000, 0x4000, 0x5000, 0x6000, 0x7000]"

lemma sample_validates: "validate_stacks 0x1000 sample_stacks = Some ()"
  by (simp add: validate_stacks_def sample_stacks_def stacks_disjoint_def stack_end_def)

lemma sample_init: "\<exists>s0. microkit_cothread_init 0x1000 sample_stacks 0x8000 rt_blank = Some s0 \<and> rt_sems s0 = [Semaphore_new]"
proof -
  let ?c = "Control_empty\<lparr>stack_size := 0x1000, running := ROOT_HANDLE\<rparr>"
  let ?c1 = "upd_tcb 0 (\<lambda>t. t\<lparr>tcb_state := Running, tcb_co_handle := 0x8000\<rparr>) ?c"
  have "\<exists>c2. init_workers 1 sample_stacks ?c1 = Some c2"
    using init_workers_pool [of ?c1 sample_stacks 1]
    by (auto simp: Control_empty_def MAX_COTHREADS_def sample_stacks_def simp del: init_workers.simps)
  then show ?thesis
    using sample_validates
    by (auto simp: microkit_cothread_init_def MIN_STACK_SIZE_def rt_blank_def Control_empty_def
        simp del: init_workers.simps)
qed

lemma sample_fresh: "length sample_stacks = STACK_SLOTS" "\<forall>sem\<in>set (rt_sems rt_blank). fresh_sem sem"
  by (simp_all add: sample_stacks_def STACK_SLOTS_def MAX_COTHREADS_def rt_blank_def fresh_sem_def
      Semaphore_new_def)

text \<open>The first worker running, with nobody waiting on the semaphore of the client.\<close>

lemma sample_worker:
  "\<exists>s. rt_inv s \<and> rt_sems s = [Semaphore_new] \<and> running (rt_control s) = 1
    \<and> channels (rt_control s) = replicate MICROKIT_MAX_CHANNELS Semaphore_new
    \<and> cq_list (sched (rt_control s)) = [ROOT_HANDLE]"
proof -
  obtain s0 where i: "microkit_cothread_init 0x1000 sample_stacks 0x8000 rt_blank = Some s0" "rt_sems s0 = [Semaphore_new]"
    using sample_init by blast
  note e = init_establishes [OF i(1) sample_fresh(1) _ sample_fresh(2)]
  have "cq_list (free (rt_control s0)) = 1 # [2..7]"
    using e(4) by (simp add: upto_rec1)
  then obtain s1 where s1: "rt_inv s1" "rt_sems s1 = rt_sems s0" "cq_list (sched (rt_control s1)) = [1]"
    "running (rt_control s1) = ROOT_HANDLE" "channels (rt_control s1) = channels (rt_control s0)"
    using spawn_ready [of s0 1 "[2..7]" 0 0] e(1-3) by auto
  then show ?thesis
    using yield_round_robin [OF s1(1)] i(2) e(5) by auto
qed

lemma sample_waiting:
  "\<exists>s. rt_inv s \<and> length (rt_sems s) = 1 \<and> waiters s (rt_sems s ! 0) = [1] \<and> running (rt_control s) = ROOT_HANDLE"
proof -
  obtain s where s: "rt_inv s" "rt_sems s = [Semaphore_new]" "running (rt_control s) = 1"
    "cq_list (sched (rt_control s)) = [ROOT_HANDLE]"
    using sample_worker by blast
  moreover have "waiters s Semaphore_new = []"
    by (simp add: waiters_def MAX_COTHREADS_def Semaphore_new_def eval_nat_numeral)
  ultimately show ?thesis
    using semaphore_wait_blocks [OF s(1), of 0] by (auto simp: Semaphore_new_def ROOT_HANDLE_def)
qed

lemma sample_waiting_channel:
  "\<exists>s. rt_inv s \<and> waiters s (channels (rt_control s) ! 3) = [1] \<and> running (rt_control s) = ROOT_HANDLE"
proof -
  obtain s where s: "rt_inv s" "running (rt_control s) = 1"
    "channels (rt_control s) = replicate MICROKIT_MAX_CHANNELS Semaphore_new"
    "cq_list (sched (rt_control s)) = [ROOT_HANDLE]"
    using sample_worker by blast
  have "waiters s Semaphore_new = []"
    by (simp add: waiters_def MAX_COTHREADS_def Semaphore_new_def eval_nat_numeral)
  then show ?thesis
    using wait_on_channel_blocks [OF s(1), of 3] s
    by (auto simp: Semaphore_new_def ROOT_HANDLE_def MICROKIT_MAX_CHANNELS_def)
qed

theorem cothread_panics_exactly_on_contract_breaks_witness:
  "\<exists>s0. microkit_cothread_init 0x1000 sample_stacks 0x8000 rt_blank = Some s0
    \<and> co_exec (SemSignal 0) s0 \<noteq> None \<and> co_exec (SemWait 0) s0 = None"
proof -
  obtain s0 where i: "microkit_cothread_init 0x1000 sample_stacks 0x8000 rt_blank = Some s0"
    "rt_sems s0 = [Semaphore_new]"
    using sample_init by blast
  have r: "running (rt_control s0) = ROOT_HANDLE"
    by (rule init_establishes(2) [OF i(1) sample_fresh(1) _ sample_fresh(2)]) simp
  have p: "co_exec op s0 \<noteq> None \<longleftrightarrow> co_contract op s0 \<or> root_takes_signal op s0" if "sem_exists op s0" for op
    using that by (intro cothread_panics_exactly_on_contract_breaks [OF i(1) sample_fresh(1) _ sample_fresh(2)
        co_reachable.start]) simp_all
  show ?thesis
    using p [of "SemSignal 0"] p [of "SemWait 0"] i r by (auto simp: Semaphore_new_def)
qed

theorem cothread_states_agree_with_queues_witness:
  "\<exists>s0. microkit_cothread_init 0x1000 sample_stacks 0x8000 rt_blank = Some s0
    \<and> {h. 0 \<le> h \<and> h < 8 \<and> st (tcbs (rt_control s0)) h = Running} = {running (rt_control s0)}"
proof -
  obtain s0 where i: "microkit_cothread_init 0x1000 sample_stacks 0x8000 rt_blank = Some s0"
    using sample_init by blast
  show ?thesis
    using cothread_states_agree_with_queues [OF i sample_fresh(1) _ sample_fresh(2) co_reachable.start] i
    by auto
qed

theorem yield_is_round_robin_witness:
  "\<exists>s s'. running (rt_control s) = 1 \<and> microkit_cothread_yield s = Some s' \<and> running (rt_control s') = ROOT_HANDLE"
  using sample_worker yield_is_round_robin by fastforce

theorem semaphore_wakes_in_order_witness:
  "\<exists>s s'. running (rt_control s) = ROOT_HANDLE \<and> microkit_cothread_semaphore_signal 0 s = Some s'
    \<and> running (rt_control s') = 1"
  using sample_waiting semaphore_wakes_in_order [of _ 0] by fastforce

theorem signal_without_waiter_sticks_witness:
  "\<exists>s s'. microkit_cothread_semaphore_signal 0 s = Some s' \<and> microkit_cothread_semaphore_wait 0 s' = Some s"
proof -
  obtain s where s: "rt_inv s" "rt_sems s = [Semaphore_new]"
    using sample_worker by blast
  have "waiters s Semaphore_new = []"
    by (simp add: waiters_def MAX_COTHREADS_def Semaphore_new_def eval_nat_numeral)
  then show ?thesis
    using signal_without_waiter_sticks [OF s(1), of 0] s(2) by (auto simp: Semaphore_new_def)
qed

theorem notification_wakes_first_waiter_witness:
  "\<exists>s s'. microkit_cothread_recv_ntfn 3 s = Some s' \<and> running (rt_control s') = 1"
  using sample_waiting_channel notification_wakes_first_waiter [of _ 3 1 "[]"]
  by (fastforce simp: MICROKIT_MAX_CHANNELS_def)

theorem validated_stacks_disjoint_witness:
  "{unat (sample_stacks ! 0)..<unat (sample_stacks ! 0) + unat (0x1000 :: usize)}
    \<inter> {unat (sample_stacks ! 1)..<unat (sample_stacks ! 1) + unat (0x1000 :: usize)} = {}"
  using validated_stacks_disjoint [OF sample_validates, of 0 1] by (simp add: sample_stacks_def)

end
