(* ===== verification/Gate.thy ===== *)
theory Gate
  imports RingQueue
begin

text \<open>
  The crate \<open>lerux-gate\<close>: the table of claimed address ranges, the windows on memory and
  device registers, the cell with dynamically checked borrows, and the two ends of a serial
  ring. A failed assertion is \<open>None\<close>. Memory behind a window is a function from addresses
  to bytes; the ring shared by a producer and a consumer is a value of its own that both ends
  work on.
\<close>

subsection \<open>Claims\<close>

definition MAX_CLAIMS :: nat where "MAX_CLAIMS = 64"

record ClaimTable =
  ct_n :: nat
  ct_ranges :: "(usize \<times> usize) list"

definition CLAIMS :: ClaimTable where
  "CLAIMS = \<lparr>ct_n = 0, ct_ranges = replicate MAX_CLAIMS (0, 0)\<rparr>"

definition saturating_add :: "usize \<Rightarrow> usize \<Rightarrow> usize" where
  "saturating_add a b = (if unat a + unat b < 2 ^ 64 then a + b else - 1)"

definition claim :: "usize \<Rightarrow> usize \<Rightarrow> ClaimTable \<Rightarrow> ClaimTable option" where
  "claim start len table =
     (if len = 0 then Some table
      else
        let end' = saturating_add start len
        in if list_all (\<lambda>i. case ct_ranges table ! i of (claimed_start, claimed_end) \<Rightarrow>
                 \<not> (start < claimed_end \<and> claimed_start < end')) [0..<ct_n table]
             \<and> ct_n table < MAX_CLAIMS
           then Some (table\<lparr>ct_ranges := (ct_ranges table)[ct_n table := (start, end')],
             ct_n := ct_n table + 1\<rparr>)
           else None)"

record Region =
  rg_ptr :: usize
  rg_len :: usize

definition Region_from_ref :: "usize \<Rightarrow> usize \<Rightarrow> ClaimTable \<Rightarrow> (Region \<times> ClaimTable) option" where
  "Region_from_ref ptr len t = map_option (\<lambda>t'. (\<lparr>rg_ptr = ptr, rg_len = len\<rparr>, t')) (claim ptr len t)"

definition Region_from_mut :: "usize \<Rightarrow> usize \<Rightarrow> ClaimTable \<Rightarrow> (Region \<times> ClaimTable) option" where
  "Region_from_mut ptr len t = map_option (\<lambda>t'. (\<lparr>rg_ptr = ptr, rg_len = len\<rparr>, t')) (claim ptr len t)"

definition Region_is_empty :: "Region \<Rightarrow> bool" where
  "Region_is_empty r \<longleftrightarrow> rg_len r = 0"

definition Region_aligned_to :: "Region \<Rightarrow> usize \<Rightarrow> bool" where
  "Region_aligned_to r align \<longleftrightarrow> rg_ptr r mod align = 0"

record Mmio =
  mm_ptr :: usize
  mm_len :: usize

definition Mmio_from_ref :: "usize \<Rightarrow> usize \<Rightarrow> ClaimTable \<Rightarrow> (Mmio \<times> ClaimTable) option" where
  "Mmio_from_ref ptr len t = map_option (\<lambda>t'. (\<lparr>mm_ptr = ptr, mm_len = len\<rparr>, t')) (claim ptr len t)"

definition Mmio_from_mut :: "usize \<Rightarrow> usize \<Rightarrow> ClaimTable \<Rightarrow> (Mmio \<times> ClaimTable) option" where
  "Mmio_from_mut ptr len t = map_option (\<lambda>t'. (\<lparr>mm_ptr = ptr, mm_len = len\<rparr>, t')) (claim ptr len t)"

definition Mmio_read_u8 :: "Mmio \<Rightarrow> usize \<Rightarrow> (usize \<Rightarrow> u8) \<Rightarrow> u8 option" where
  "Mmio_read_u8 w offset mem = (if offset < mm_len w then Some (mem (mm_ptr w + offset)) else None)"

definition Mmio_write_u8 :: "Mmio \<Rightarrow> usize \<Rightarrow> u8 \<Rightarrow> (usize \<Rightarrow> u8) \<Rightarrow> (usize \<Rightarrow> u8) option" where
  "Mmio_write_u8 w offset value mem =
     (if offset < mm_len w then Some (mem(mm_ptr w + offset := value)) else None)"

subsection \<open>Shared cells\<close>

text \<open>\<open>BORROWS\<close> is one counter for all cells of the protection domain; the closure runs with
  the raised counter and the guard lowers it afterwards.\<close>

definition Shared_with ::
  "(nat \<Rightarrow> 't \<Rightarrow> ('r \<times> nat \<times> 't) option) \<Rightarrow> nat \<Rightarrow> 't \<Rightarrow> ('r \<times> nat \<times> 't) option" where
  "Shared_with f borrows value =
     (if borrows \<noteq> 0 then None
      else case f (borrows + 1) value of
          None \<Rightarrow> None
        | Some (r, borrows', value') \<Rightarrow> Some (r, borrows' - 1, value'))"

subsection \<open>Serial rings\<close>

record gate_ring =
  gr_tail :: u32
  gr_head :: u32
  gr_producer_signalled :: u32
  gr_data :: "u8 list"

record SerialProducer =
  sp_queue :: usize
  sp_data :: usize
  sp_capacity :: u32

record SerialConsumer =
  sc_queue :: usize
  sc_data :: usize
  sc_capacity :: u32

datatype PairError = EmptyCapacity | ShortData | ShortQueue | UnalignedQueue

datatype QueueError = QFull | QEmpty

text \<open>The header of the queue is three 32-bit atomics: 12 bytes, aligned to 4.\<close>

definition serial_queue_bytes :: usize where "serial_queue_bytes = 12"
definition serial_queue_align :: usize where "serial_queue_align = 4"

definition serial_pair ::
  "Region \<Rightarrow> Region \<Rightarrow> u32 \<Rightarrow> PairError + (SerialProducer \<times> SerialConsumer)" where
  "serial_pair queue data capacity =
     (if capacity = 0 then Inl EmptyCapacity
      else if unat (rg_len data) \<ge> 2 ^ 32 then Inl ShortData
      else if (ucast (rg_len data) :: u32) < capacity then Inl ShortData
      else if rg_len queue < serial_queue_bytes then Inl ShortQueue
      else if \<not> Region_aligned_to queue serial_queue_align then Inl UnalignedQueue
      else Inr (\<lparr>sp_queue = rg_ptr queue, sp_data = rg_ptr data, sp_capacity = capacity\<rparr>,
        \<lparr>sc_queue = rg_ptr queue, sc_data = rg_ptr data, sc_capacity = capacity\<rparr>))"

definition producer_enqueue ::
  "SerialProducer \<Rightarrow> u8 \<Rightarrow> gate_ring \<Rightarrow> (QueueError + unit) \<times> gate_ring" where
  "producer_enqueue p byte ring =
     (let tail = gr_tail ring; head = gr_head ring
      in if tail - head = sp_capacity p then (Inl QFull, ring)
         else
           let index = unat (tail mod sp_capacity p)
           in (Inr (), ring\<lparr>gr_data := (gr_data ring)[index := byte], gr_tail := tail + 1\<rparr>))"

definition consumer_dequeue :: "SerialConsumer \<Rightarrow> gate_ring \<Rightarrow> (QueueError + u8) \<times> gate_ring" where
  "consumer_dequeue c ring =
     (let head = gr_head ring; tail = gr_tail ring
      in if head = tail then (Inl QEmpty, ring)
         else
           let index = unat (head mod sc_capacity c)
           in (Inr (gr_data ring ! index), ring\<lparr>gr_head := head + 1\<rparr>))"

subsection \<open>Claimed ranges are disjoint\<close>

definition claims_ok :: "ClaimTable \<Rightarrow> bool" where
  "claims_ok t \<longleftrightarrow> ct_n t \<le> MAX_CLAIMS \<and> length (ct_ranges t) = MAX_CLAIMS
     \<and> (\<forall>i < ct_n t. \<forall>j < ct_n t. i \<noteq> j \<longrightarrow>
          {fst (ct_ranges t ! i)..<snd (ct_ranges t ! i)} \<inter> {fst (ct_ranges t ! j)..<snd (ct_ranges t ! j)} = {})"

lemma CLAIMS_ok: "claims_ok CLAIMS"
  by (simp add: claims_ok_def CLAIMS_def)

lemma claim_keeps:
  assumes ok: "claims_ok t" and c: "claim start len t = Some t'"
  shows "claims_ok t'"
proof (cases "len = 0")
  case True
  then show ?thesis using assms by (simp add: claim_def)
next
  case False
  let ?stop = "saturating_add start len"
  have n: "ct_n t < MAX_CLAIMS"
    and t': "t' = t\<lparr>ct_ranges := (ct_ranges t)[ct_n t := (start, ?stop)], ct_n := ct_n t + 1\<rparr>"
    and apart: "\<And>i. i < ct_n t \<Longrightarrow> \<not> (start < snd (ct_ranges t ! i) \<and> fst (ct_ranges t ! i) < ?stop)"
    using c False by (auto simp: claim_def Let_def list_all_iff split: if_splits prod.splits)
  have new: "{start..<?stop} \<inter> {fst (ct_ranges t ! i)..<snd (ct_ranges t ! i)} = {}" if "i < ct_n t" for i
    using apart [OF that] by (auto simp: not_less)
  have len: "length (ct_ranges t) = MAX_CLAIMS"
    using ok by (simp add: claims_ok_def)
  have "{fst (ct_ranges t' ! i)..<snd (ct_ranges t' ! i)} \<inter> {fst (ct_ranges t' ! j)..<snd (ct_ranges t' ! j)} = {}"
    if ij: "i < ct_n t'" "j < ct_n t'" "i \<noteq> j" for i j
  proof -
    consider "i < ct_n t" "j < ct_n t" | "i = ct_n t" "j < ct_n t" | "i < ct_n t" "j = ct_n t"
      using ij t' by (fastforce simp: less_Suc_eq)
    then show ?thesis
    proof cases
      case 1
      then show ?thesis using ok ij(3) t' by (simp add: claims_ok_def)
    next
      case 2
      then show ?thesis using new [of j] n len t' by simp
    next
      case 3
      then show ?thesis using new [of i] n len t' by (simp add: Int_commute)
    qed
  qed
  then show ?thesis
    using n len t' by (simp add: claims_ok_def)
qed

text \<open>The claims that a domain makes while it starts, in order.\<close>

fun claim_all :: "(usize \<times> usize) list \<Rightarrow> ClaimTable \<Rightarrow> ClaimTable option" where
  "claim_all [] t = Some t"
| "claim_all ((start, len) # rest) t = (case claim start len t of None \<Rightarrow> None | Some t' \<Rightarrow> claim_all rest t')"

lemma claim_all_keeps: "claim_all rs t = Some t' \<Longrightarrow> claims_ok t \<Longrightarrow> claims_ok t'"
proof (induction rs t rule: claim_all.induct)
  case (2 start len rest t)
  then show ?case using claim_keeps by (auto split: option.splits)
qed simp

lemma claim_records:
  "claim start len t = Some t' \<Longrightarrow> len \<noteq> 0 \<Longrightarrow> claims_ok t \<Longrightarrow>
    ct_n t' = ct_n t + 1 \<and> ct_ranges t' ! ct_n t = (start, saturating_add start len)
    \<and> take (ct_n t) (ct_ranges t') = take (ct_n t) (ct_ranges t)"
  by (auto simp: claim_def Let_def claims_ok_def split: if_splits)

subsection \<open>The ring of a pair\<close>

definition gate_items :: "u32 \<Rightarrow> gate_ring \<Rightarrow> u8 list" where
  "gate_items capacity r =
     ring_items (gr_head r) (gr_tail r) (unat capacity) (take (unat capacity) (gr_data r))"

definition gate_wf :: "u32 \<Rightarrow> gate_ring \<Rightarrow> bool" where
  "gate_wf capacity r \<longleftrightarrow>
     ring_wf (gr_head r) (gr_tail r) (unat capacity) (take (unat capacity) (gr_data r))"

definition enq_pair :: "SerialProducer \<Rightarrow> u8 \<Rightarrow> gate_ring \<Rightarrow> bool \<times> gate_ring" where
  "enq_pair p b r = (case producer_enqueue p b r of (res, r') \<Rightarrow> (res = Inr (), r'))"

definition deq_pair :: "SerialConsumer \<Rightarrow> gate_ring \<Rightarrow> u8 option \<times> gate_ring" where
  "deq_pair c r = (case consumer_dequeue c r of
     (Inl _, r') \<Rightarrow> (None, r') | (Inr b, r') \<Rightarrow> (Some b, r'))"

lemma unat_mod_slot: "unat (c mod m) = ring_slot c (unat m)"
  by (simp add: ring_slot_def unat_mod)

text \<open>Both ends of a pair have the capacity of the call.\<close>

abbreviation both_ends :: "u32 \<Rightarrow> usize \<Rightarrow> usize \<Rightarrow> SerialProducer \<times> SerialConsumer" where
  "both_ends capacity q d \<equiv> (\<lparr>sp_queue = q, sp_data = d, sp_capacity = capacity\<rparr>,
     \<lparr>sc_queue = q, sc_data = d, sc_capacity = capacity\<rparr>)"

interpretation gate: ring_queue
  "\<lambda>_. True" gr_head gr_tail "\<lambda>_. unat capacity" "\<lambda>r. take (unat capacity) (gr_data r)"
  "enq_pair (fst (both_ends capacity q d))" "deq_pair (snd (both_ends capacity q d))" for capacity q d
  by unfold_locales
    (auto simp: enq_pair_def deq_pair_def producer_enqueue_def consumer_dequeue_def Let_def
      unat_mod_slot take_update_swap ring_wf_def ring_ok_def ring_slot_less unsigned_word_eqI)

subsection \<open>Properties\<close>

lemma claim_all_records:
  "claim_all rs t = Some t' \<Longrightarrow> claims_ok t \<Longrightarrow> \<forall>r\<in>set rs. snd r \<noteq> 0 \<Longrightarrow>
    ct_n t' = ct_n t + length rs \<and> take (ct_n t) (ct_ranges t') = take (ct_n t) (ct_ranges t)
    \<and> (\<forall>k < length rs. ct_ranges t' ! (ct_n t + k) = (fst (rs ! k), saturating_add (fst (rs ! k)) (snd (rs ! k))))"
proof (induction rs arbitrary: t)
  case Nil
  then show ?case by simp
next
  case (Cons r rs)
  obtain start len where r: "r = (start, len)"
    by fastforce
  then obtain t1 where t1: "claim start len t = Some t1" "claim_all rs t1 = Some t'"
    using Cons.prems(1) by (auto split: option.splits)
  have rec: "ct_n t1 = ct_n t + 1" "ct_ranges t1 ! ct_n t = (start, saturating_add start len)"
    "take (ct_n t) (ct_ranges t1) = take (ct_n t) (ct_ranges t)"
    using claim_records [OF t1(1)] Cons.prems r by auto
  have ih: "ct_n t' = ct_n t1 + length rs" "take (ct_n t1) (ct_ranges t') = take (ct_n t1) (ct_ranges t1)"
    "\<forall>k < length rs. ct_ranges t' ! (ct_n t1 + k) = (fst (rs ! k), saturating_add (fst (rs ! k)) (snd (rs ! k)))"
    using Cons.IH [OF t1(2) claim_keeps [OF Cons.prems(2) t1(1)]] Cons.prems(3) by auto
  have first: "ct_ranges t' ! ct_n t = (start, saturating_add start len)"
    using ih(2) rec(1,2) by (metis less_add_one nth_take)
  have keep: "take (ct_n t) (ct_ranges t') = take (ct_n t) (ct_ranges t)"
  proof -
    have "take (ct_n t) (ct_ranges t') = take (ct_n t) (take (ct_n t1) (ct_ranges t'))"
      by (simp add: rec(1))
    then show ?thesis
      using rec(3) by (simp add: ih(2)) (simp add: rec(1))
  qed
  have "ct_ranges t' ! (ct_n t + k) = (fst ((r # rs) ! k), saturating_add (fst ((r # rs) ! k)) (snd ((r # rs) ! k)))"
    if "k < length (r # rs)" for k
    using that first ih(3) rec(1) r by (cases k) auto
  then show ?case
    using ih(1) rec(1) keep by simp
qed

text \<open>C5: The claim table keeps the windows of a protection domain apart: after any series of
  claims that did not panic, a write through one device window leaves every read through
  another window as it was. A window may start anywhere as long as it ends below the top of the
  address space.\<close>

theorem claimed_windows_do_not_alias:
  assumes "claim_all rs CLAIMS = Some t" and "\<forall>r\<in>set rs. snd r \<noteq> 0"
    and "\<forall>r\<in>set rs. unat (fst r) + unat (snd r) < 2 ^ 64"
    and "i < length rs" and "j < length rs" and "i \<noteq> j"
    and "Mmio_write_u8 \<lparr>mm_ptr = fst (rs ! i), mm_len = snd (rs ! i)\<rparr> off byte mem = Some mem'"
  shows "Mmio_read_u8 \<lparr>mm_ptr = fst (rs ! j), mm_len = snd (rs ! j)\<rparr> off' mem'
    = Mmio_read_u8 \<lparr>mm_ptr = fst (rs ! j), mm_len = snd (rs ! j)\<rparr> off' mem"
proof -
  note rec = claim_all_records [OF assms(1) CLAIMS_ok assms(2)]
  have ok: "claims_ok t"
    using claim_all_keeps [OF assms(1) CLAIMS_ok] .
  have range: "ct_ranges t ! k = (fst (rs ! k), saturating_add (fst (rs ! k)) (snd (rs ! k)))" "k < ct_n t"
    if "k < length rs" for k
    using rec that by (simp_all add: CLAIMS_def)
  have inside: "fst (rs ! k) + x \<in> {fst (rs ! k)..<saturating_add (fst (rs ! k)) (snd (rs ! k))}"
    if "k < length rs" "x < snd (rs ! k)" for k x
  proof -
    have b: "unat (fst (rs ! k)) + unat (snd (rs ! k)) < 2 ^ 64"
      using assms(3) that(1) by simp
    moreover have "unat x < unat (snd (rs ! k))"
      using that(2) by (simp add: word_less_nat_alt)
    ultimately show ?thesis
      by (simp add: saturating_add_def word_le_nat_alt word_less_nat_alt unat_word_ariths)
  qed
  have "{fst (rs ! i)..<saturating_add (fst (rs ! i)) (snd (rs ! i))}
      \<inter> {fst (rs ! j)..<saturating_add (fst (rs ! j)) (snd (rs ! j))} = {}"
    using ok range [OF assms(4)] range [OF assms(5)] assms(6) unfolding claims_ok_def by fastforce
  then have "fst (rs ! i) + off \<noteq> fst (rs ! j) + off'" if "off < snd (rs ! i)" "off' < snd (rs ! j)"
    using inside [OF assms(4) that(1)] inside [OF assms(5) that(2)] by (metis IntI empty_iff)
  then show ?thesis
    using assms(7) by (auto simp: Mmio_write_u8_def Mmio_read_u8_def split: if_splits)
qed

theorem claimed_windows_do_not_alias_witness:
  "\<exists>t mem'. claim_all [(0x1000, 0x1000), (0x2000, 0x1000)] CLAIMS = Some t
    \<and> Mmio_write_u8 \<lparr>mm_ptr = 0x1000, mm_len = 0x1000\<rparr> 0xfff 7 (\<lambda>_. 0) = Some mem'
    \<and> Mmio_read_u8 \<lparr>mm_ptr = 0x2000, mm_len = 0x1000\<rparr> 0 mem' = Some 0"
proof -
  let ?rs = "[(0x1000, 0x1000), (0x2000, 0x1000)] :: (usize \<times> usize) list"
  obtain t where t: "claim_all ?rs CLAIMS = Some t"
    by (simp add: CLAIMS_def MAX_CLAIMS_def claim_def saturating_add_def)
  obtain mem' where w: "Mmio_write_u8 \<lparr>mm_ptr = 0x1000, mm_len = 0x1000\<rparr> 0xfff 7 (\<lambda>_. 0) = Some mem'"
    by (simp add: Mmio_write_u8_def)
  have "Mmio_read_u8 \<lparr>mm_ptr = 0x2000, mm_len = 0x1000\<rparr> 0 mem'
      = Mmio_read_u8 \<lparr>mm_ptr = 0x2000, mm_len = 0x1000\<rparr> 0 (\<lambda>_. 0)"
    using claimed_windows_do_not_alias [where i = 0 and j = 1 and off = "0xfff" and byte = 7
        and mem = "\<lambda>_. 0" and mem' = mem' and off' = 0, OF t] w by simp
  then show ?thesis
    using t w by (simp add: Mmio_read_u8_def)
qed

text \<open>A pair that \<open>serial_pair\<close> accepts is a first-in first-out ring of the requested
  capacity: every run of the producer's enqueues and the consumer's dequeues on a fresh ring in
  the two regions refines the bounded list, for capacities that divide the counter range or runs
  that end before the wrap.\<close>

theorem serial_pair_fifo:
  assumes "serial_pair queue data capacity = Inr (p, c)"
    and "gr_head r = gr_tail r" and "length (gr_data r) = unat (rg_len data)"
    and "enat (length ops) \<le> ring_left (gr_tail r) (unat capacity)"
  shows "case fifo_run (enq_pair p) (deq_pair c) ops r of (rs, r') \<Rightarrow>
    gate_wf capacity r' \<and> spec_run (unat capacity) ops [] = (rs, gate_items capacity r')
    \<and> accepted ops rs = returned rs @ gate_items capacity r'"
proof -
  have cap: "0 < unat capacity" "unat capacity \<le> unat (rg_len data)"
    and ends: "p = fst (both_ends capacity (rg_ptr queue) (rg_ptr data))"
    "c = snd (both_ends capacity (rg_ptr queue) (rg_ptr data))"
    using assms(1)
    by (auto simp: serial_pair_def word_less_nat_alt unsigned_ucast_eq take_bit_eq_mod
        unat_gt_0 not_le split: if_splits)
  then have wf: "gate_wf capacity r" and items: "gate_items capacity r = []"
    using assms(2,3) unat_less_exp [of capacity]
    by (auto simp: gate_wf_def gate_items_def ring_wf_def ring_ok_def)
  obtain rs r' where run: "fifo_run (enq_pair p) (deq_pair c) ops r = (rs, r')"
    by fastforce
  then have "gate_wf capacity r' \<and> spec_run (unat capacity) ops [] = (rs, gate_items capacity r')"
    using gate.fifo.run_refines [of r capacity ops "rg_ptr queue" "rg_ptr data" rs r'] wf items assms(4) ends
    by (auto simp: gate_wf_def gate_items_def)
  then show ?thesis
    using run spec_run_fifo [of "unat capacity" ops "[]"] by auto
qed

theorem serial_pair_fifo_witness:
  "\<exists>p c. serial_pair \<lparr>rg_ptr = 0x1000, rg_len = 12\<rparr> \<lparr>rg_ptr = 0x2000, rg_len = 4\<rparr> 4 = Inr (p, c)
    \<and> (case fifo_run (enq_pair p) (deq_pair c) [Enq 1, Enq 2, Deq]
        \<lparr>gr_tail = 0, gr_head = 0, gr_producer_signalled = 0, gr_data = [0, 0, 0, 0]\<rparr> of
      (rs, r') \<Rightarrow> gate_wf 4 r')"
proof -
  obtain p c where pc: "serial_pair \<lparr>rg_ptr = 0x1000, rg_len = 12\<rparr> \<lparr>rg_ptr = 0x2000, rg_len = 4\<rparr> 4 = Inr (p, c)"
    by (simp add: serial_pair_def serial_queue_bytes_def serial_queue_align_def Region_aligned_to_def)
  from serial_pair_fifo [OF this, of
      "\<lparr>gr_tail = 0, gr_head = 0, gr_producer_signalled = 0, gr_data = [0, 0, 0, 0]\<rparr>" "[Enq 1, Enq 2, Deq]"]
  show ?thesis
    using pc by (auto simp: ring_left_def ring_divides_def split: prod.splits)
qed

text \<open>A borrow cannot be nested: a call of \<open>with\<close> inside the closure of another panics,
  whatever the two closures do.\<close>

theorem nested_borrow_panics:
  "Shared_with (\<lambda>b v. case Shared_with g b w of None \<Rightarrow> None | Some (r, b', w') \<Rightarrow> k r b' w' v) borrows value = None"
  by (simp add: Shared_with_def)

end
