(* ===== verification/Outcome.thy ===== *)
theory Outcome
  imports Prelude
begin

text \<open>
  Stateful code that can fail. A Rust method on \<open>&mut self\<close> that returns
  \<open>Result<T, E>\<close> is a function from the state to \<open>None\<close> (it panics) or to the result and the
  new state. \<open>and_then\<close> is the operator \<open>?\<close> followed by the rest of the method: an error
  returns at once with the state reached so far.

  \<open>returns P m Q\<close> is total correctness: from a state with \<open>P\<close> the method does not panic, and
  its result and new state satisfy \<open>Q\<close>. The rules in \<open>returns_rules\<close> follow the structure
  of a method.
\<close>

type_synonym ('s, 'e, 'a) outcome = "'s \<Rightarrow> (('e + 'a) \<times> 's) option"

definition ok :: "'a \<Rightarrow> ('s, 'e, 'a) outcome" where
  "ok x s = Some (Inr x, s)"

definition err :: "'e \<Rightarrow> ('s, 'e, 'a) outcome" where
  "err e s = Some (Inl e, s)"

definition panics :: "('s, 'e, 'a) outcome" where
  "panics s = None"

definition and_then :: "('s, 'e, 'a) outcome \<Rightarrow> ('a \<Rightarrow> ('s, 'e, 'b) outcome) \<Rightarrow> ('s, 'e, 'b) outcome" where
  "and_then m f s = (case m s of None \<Rightarrow> None | Some (Inl e, s') \<Rightarrow> Some (Inl e, s') | Some (Inr x, s') \<Rightarrow> f x s')"

definition checked :: "'e + 'a \<Rightarrow> ('s, 'e, 'a) outcome" where
  "checked r s = Some (r, s)"

definition get :: "('s \<Rightarrow> 'a) \<Rightarrow> ('s, 'e, 'a) outcome" where
  "get f s = Some (Inr (f s), s)"

definition modify :: "('s \<Rightarrow> 's) \<Rightarrow> ('s, 'e, unit) outcome" where
  "modify f s = Some (Inr (), f s)"

definition unwrap :: "'a option \<Rightarrow> ('s, 'e, 'a) outcome" where
  "unwrap x s = (case x of None \<Rightarrow> None | Some y \<Rightarrow> Some (Inr y, s))"

lemmas outcome_defs = ok_def err_def panics_def and_then_def checked_def get_def modify_def unwrap_def

lemma and_then_simps [simp]:
  "and_then (ok x) f = f x"
  "and_then (err e) f = err e"
  "and_then panics g = panics"
  "and_then (checked (Inl e)) f = err e"
  "and_then (checked (Inr x)) f = f x"
  by (simp_all add: outcome_defs fun_eq_iff)

lemma and_then_assoc: "and_then (and_then m f) g = and_then m (\<lambda>x. and_then (f x) g)"
  by (simp add: and_then_def fun_eq_iff split: option.splits sum.splits)

definition returns :: "('s \<Rightarrow> bool) \<Rightarrow> ('s, 'e, 'a) outcome \<Rightarrow> ('e + 'a \<Rightarrow> 's \<Rightarrow> bool) \<Rightarrow> bool" where
  "returns P m Q \<longleftrightarrow> (\<forall>s. P s \<longrightarrow> (\<exists>r s'. m s = Some (r, s') \<and> Q r s'))"

named_theorems returns_rules \<open>rules for methods that return\<close>

lemma returnsI: "(\<And>s. P s \<Longrightarrow> \<exists>r s'. m s = Some (r, s') \<and> Q r s') \<Longrightarrow> returns P m Q"
  by (simp add: returns_def)

lemma returnsE: "returns P m Q \<Longrightarrow> P s \<Longrightarrow> (\<And>r s'. m s = Some (r, s') \<Longrightarrow> Q r s' \<Longrightarrow> thesis) \<Longrightarrow> thesis"
  by (auto simp: returns_def)

lemma returns_ok: "(\<And>s. P s \<Longrightarrow> Q (Inr x) s) \<Longrightarrow> returns P (ok x) Q"
  by (simp add: returns_def ok_def)

lemma returns_err: "(\<And>s. P s \<Longrightarrow> Q (Inl e) s) \<Longrightarrow> returns P (err e) Q"
  by (simp add: returns_def err_def)

lemma returns_checked: "(\<And>s. P s \<Longrightarrow> Q r s) \<Longrightarrow> returns P (checked r) Q"
  by (simp add: returns_def checked_def)

lemma returns_get: "(\<And>s. P s \<Longrightarrow> Q (Inr (f s)) s) \<Longrightarrow> returns P (get f) Q"
  by (simp add: returns_def get_def)

lemma returns_modify: "(\<And>s. P s \<Longrightarrow> Q (Inr ()) (f s)) \<Longrightarrow> returns P (modify f) Q"
  by (simp add: returns_def modify_def)

lemma returns_and_then:
  assumes "returns P m R"
    and "\<And>e s. R (Inl e) s \<Longrightarrow> Q (Inl e) s"
    and "\<And>x. returns (R (Inr x)) (f x) Q"
  shows "returns P (and_then m f) Q"
  unfolding returns_def and_then_def
proof (intro allI impI)
  fix s assume "P s"
  then obtain r s1 where m: "m s = Some (r, s1)" and R: "R r s1" using assms(1) by (auto simp: returns_def)
  show "\<exists>r s'. (case m s of None \<Rightarrow> None | Some (Inl e, s') \<Rightarrow> Some (Inl e, s') | Some (Inr x, s') \<Rightarrow> f x s')
    = Some (r, s') \<and> Q r s'"
    using m R assms(2,3) by (cases r) (auto simp: returns_def)
qed

lemma returns_strengthen:
  "returns P' m Q' \<Longrightarrow> (\<And>s. P s \<Longrightarrow> P' s) \<Longrightarrow> (\<And>r s. Q' r s \<Longrightarrow> Q r s) \<Longrightarrow> returns P m Q"
  unfolding returns_def by blast

lemma returns_if:
  "(b \<Longrightarrow> returns P m Q) \<Longrightarrow> (\<not> b \<Longrightarrow> returns P m' Q) \<Longrightarrow> returns P (if b then m else m') Q"
  by simp

declare returns_ok [returns_rules] returns_err [returns_rules] returns_checked [returns_rules]
  returns_get [returns_rules] returns_modify [returns_rules] returns_if [returns_rules]

end
