(* ===== verification/Bytes.thy ===== *)
theory Bytes
  imports Prelude
begin

text \<open>
  Byte memory shared by the file client and the file server: a region as a function from byte
  offsets, slices of byte lists and their update in place, and the little-endian encodings of
  the fixed-width integers with their round trips.
\<close>

subsection \<open>Regions\<close>

type_synonym mem = "nat \<Rightarrow> u8"

text \<open>\<open>copy_nonoverlapping\<close> into and out of a region, and an unaligned little-endian load.\<close>

definition mem_put :: "nat \<Rightarrow> u8 list \<Rightarrow> mem \<Rightarrow> mem" where
  "mem_put pos bytes m = (\<lambda>i. if pos \<le> i \<and> i < pos + length bytes then bytes ! (i - pos) else m i)"

definition mem_get :: "nat \<Rightarrow> nat \<Rightarrow> mem \<Rightarrow> u8 list" where
  "mem_get pos n m = map m [pos ..< pos + n]"

definition le_u64 :: "u8 list \<Rightarrow> u64" where
  "le_u64 bytes = foldr (\<lambda>b acc. ucast b OR push_bit 8 acc) bytes 0"

definition load_u64 :: "nat \<Rightarrow> mem \<Rightarrow> u64" where
  "load_u64 pos m = le_u64 (mem_get pos 8 m)"

lemma length_mem_get [simp]: "length (mem_get pos n m) = n"
  by (simp add: mem_get_def)

lemma mem_get_put: "length bytes = n \<Longrightarrow> mem_get pos n (mem_put pos bytes m) = bytes"
  by (intro nth_equalityI) (auto simp: mem_get_def mem_put_def)

lemma mem_get_put_within:
  "i + n \<le> length bytes \<Longrightarrow> mem_get (pos + i) n (mem_put pos bytes m) = take n (drop i bytes)"
  by (intro nth_equalityI) (auto simp: mem_get_def mem_put_def)

subsection \<open>Slices\<close>

definition slice :: "nat \<Rightarrow> nat \<Rightarrow> 'a list \<Rightarrow> 'a list" where
  "slice off n xs = take n (drop off xs)"

definition patch :: "nat \<Rightarrow> 'a list \<Rightarrow> 'a list \<Rightarrow> 'a list" where
  "patch off ys xs = take off xs @ ys @ drop (off + length ys) xs"

lemma length_slice [simp]: "off + n \<le> length xs \<Longrightarrow> length (slice off n xs) = n"
  by (simp add: slice_def)

lemma length_patch [simp]: "off + length ys \<le> length xs \<Longrightarrow> length (patch off ys xs) = length xs"
  by (simp add: patch_def)

lemma nth_slice: "off + n \<le> length xs \<Longrightarrow> i < n \<Longrightarrow> slice off n xs ! i = xs ! (off + i)"
  by (simp add: slice_def)

lemma nth_patch:
  "off + length ys \<le> length xs \<Longrightarrow> i < length xs \<Longrightarrow>
    patch off ys xs ! i = (if off \<le> i \<and> i < off + length ys then ys ! (i - off) else xs ! i)"
  by (auto simp: patch_def nth_append min_def)

lemma slice_patch_same [simp]: "off + length ys \<le> length xs \<Longrightarrow> slice off (length ys) (patch off ys xs) = ys"
  by (simp add: slice_def patch_def)

lemma slice_patch_apart:
  assumes "off + length ys \<le> length xs" and "o' + n \<le> length xs" and "o' + n \<le> off \<or> off + length ys \<le> o'"
  shows "slice o' n (patch off ys xs) = slice o' n xs"
  using assms by (intro nth_equalityI) (auto simp: nth_slice nth_patch)

lemma patch_patch_same:
  "off + length ys \<le> length xs \<Longrightarrow> length ys = length zs \<Longrightarrow> patch off zs (patch off ys xs) = patch off zs xs"
  by (simp add: patch_def)

lemma slice_slice: "i + n \<le> m \<Longrightarrow> slice i n (slice off m xs) = slice (off + i) n xs"
  by (simp add: slice_def take_drop min_def add.commute)

lemma slice_full [simp]: "slice 0 (length xs) xs = xs"
  by (simp add: slice_def)

lemma slice_replicate [simp]: "off + n \<le> m \<Longrightarrow> slice off n (replicate m x) = replicate n x"
  by (simp add: slice_def min_def)

lemma slice_patch_inner:
  assumes "off + m \<le> length xs" and "i + length ys \<le> m"
  shows "slice off m (patch (off + i) ys xs) = patch i ys (slice off m xs)"
  using assms by (intro nth_equalityI) (auto simp: nth_slice nth_patch)

lemma slice_patch_over:
  assumes "off + length ys \<le> length xs" and "off \<le> o'" and "o' + n \<le> off + length ys"
  shows "slice o' n (patch off ys xs) = slice (o' - off) n ys"
  using assms by (intro nth_equalityI) (auto simp: nth_slice nth_patch)

subsection \<open>Little-endian integers\<close>

definition le16 :: "u16 \<Rightarrow> u8 list" where
  "le16 w = [ucast w, ucast (drop_bit 8 w)]"

definition from_le16 :: "u8 list \<Rightarrow> u16" where
  "from_le16 bs = ucast (bs ! 0) OR push_bit 8 (ucast (bs ! 1))"

definition le32 :: "u32 \<Rightarrow> u8 list" where
  "le32 w = [ucast w, ucast (drop_bit 8 w), ucast (drop_bit 16 w), ucast (drop_bit 24 w)]"

definition from_le32 :: "u8 list \<Rightarrow> u32" where
  "from_le32 bs = ucast (bs ! 0) OR push_bit 8 (ucast (bs ! 1)) OR push_bit 16 (ucast (bs ! 2))
     OR push_bit 24 (ucast (bs ! 3))"

definition le64 :: "u64 \<Rightarrow> u8 list" where
  "le64 w = map (\<lambda>i. ucast (drop_bit (8 * i) w)) [0..<8]"

lemma length_le [simp]: "length (le16 w) = 2" "length (le32 v) = 4" "length (le64 u) = 8"
  by (simp_all add: le16_def le32_def le64_def)

lemma le16_roundtrip [simp]: "from_le16 (le16 w) = w"
  by (rule bit_word_eqI) (auto simp: from_le16_def le16_def bit_simps)

lemma le32_roundtrip [simp]: "from_le32 (le32 w) = w"
proof (rule bit_word_eqI)
  fix n assume "n < LENGTH(32)"
  then have "n < 8 \<or> 8 \<le> n \<and> n < 16 \<or> 16 \<le> n \<and> n < 24 \<or> 24 \<le> n \<and> n < 32" by auto
  then show "bit (from_le32 (le32 w)) n \<longleftrightarrow> bit w n"
    by (auto simp: from_le32_def le32_def bit_simps)
qed

lemma le64_roundtrip [simp]: "le_u64 (le64 w) = w"
proof (rule bit_word_eqI)
  fix n assume n: "n < LENGTH(64)"
  define k where "k = n div 8"
  have k: "8 * k \<le> n" "n < 8 * k + 8" "k < 8" using n by (auto simp: k_def)
  then consider "k = 0" | "k = 1" | "k = 2" | "k = 3" | "k = 4" | "k = 5" | "k = 6" | "k = 7" by linarith
  then show "bit (le_u64 (le64 w)) n \<longleftrightarrow> bit w n"
    using k by cases (auto simp: le_u64_def le64_def bit_simps upt_rec)
qed

end
