(* ===== verification/Posix.thy ===== *)
theory Posix
  imports Outcome FsQueue Bytes
begin

text \<open>
  The file-descriptor client of \<open>lerux-posix/src/lib.rs\<close>. \<open>Files\<close> issues one filesystem
  command at a time on a command ring, wakes its peer, and takes the completion from a second
  ring; paths, file bytes and metadata cross in a share region with fixed windows.

  The memory the client shares with its peer is the record \<open>world\<close>, the client's own fields
  the record \<open>Files\<close>. The wake function is the caller's: a parameter kept in the field
  \<open>wake\<close>, an arbitrary function on the shared memory and the peer's state \<open>w_cx\<close>. It cannot
  reach the client's own fields, as the safety comment of \<open>bind\<close> asks. The share is a function
  from byte offsets.
\<close>

definition MAX_FDS :: nat where "MAX_FDS = 128"
definition TABLE_LEN :: nat where "TABLE_LEN = MAX_FDS - 3"
definition SHARE_MIN :: nat where "SHARE_MIN = 0x8000"
definition PATH_LIMIT :: nat where "PATH_LIMIT = 4095"
definition PATH_A :: nat where "PATH_A = 0"
definition PATH_B :: nat where "PATH_B = 4096"
definition STAT_AT :: nat where "STAT_AT = 8192"
definition DATA_AT :: nat where "DATA_AT = 8336"
definition DATA_LEN :: nat where "DATA_LEN = SHARE_MIN - DATA_AT"

type_synonym errno = int

definition FILE_ERR :: errno where "FILE_ERR = 1"
definition EPERM :: errno where "EPERM = 1"
definition ENOENT :: errno where "ENOENT = 2"
definition EBADF :: errno where "EBADF = 9"
definition EAGAIN :: errno where "EAGAIN = 11"
definition ENOMEM :: errno where "ENOMEM = 12"
definition EACCES :: errno where "EACCES = 13"
definition EBUSY :: errno where "EBUSY = 16"
definition EEXIST :: errno where "EEXIST = 17"
definition ENOTDIR :: errno where "ENOTDIR = 20"
definition EINVAL :: errno where "EINVAL = 22"
definition EMFILE :: errno where "EMFILE = 24"
definition ENOSPC :: errno where "ENOSPC = 28"
definition EPIPE :: errno where "EPIPE = 32"
definition ENAMETOOLONG :: errno where "ENAMETOOLONG = 36"
definition ENOTEMPTY :: errno where "ENOTEMPTY = 39"
definition EOPNOTSUPP :: errno where "EOPNOTSUPP = 95"
definition EADDRINUSE :: errno where "EADDRINUSE = 98"
definition EISCONN :: errno where "EISCONN = 106"
definition ENOTCONN :: errno where "ENOTCONN = 107"
definition ETIMEDOUT :: errno where "ETIMEDOUT = 110"
definition ECONNREFUSED :: errno where "ECONNREFUSED = 111"

lemmas errno_defs = FILE_ERR_def EPERM_def ENOENT_def EBADF_def EAGAIN_def ENOMEM_def EACCES_def
  EBUSY_def EEXIST_def ENOTDIR_def EINVAL_def EMFILE_def ENOSPC_def EPIPE_def ENAMETOOLONG_def
  ENOTEMPTY_def EOPNOTSUPP_def EADDRINUSE_def EISCONN_def ENOTCONN_def ETIMEDOUT_def
  ECONNREFUSED_def

datatype Open = Read | Write | ReadWrite | CreateRead | CreateWrite | CreateReadWrite

datatype Fd = Fd u8

definition number :: "Fd \<Rightarrow> int" where
  "number fd = (case fd of Fd n \<Rightarrow> uint n)"

datatype Access = ARead | AWrite | AReadWrite

definition can_read :: "Access \<Rightarrow> bool" where
  "can_read a \<longleftrightarrow> a = ARead \<or> a = AReadWrite"

definition can_write :: "Access \<Rightarrow> bool" where
  "can_write a \<longleftrightarrow> a = AWrite \<or> a = AReadWrite"

datatype Slot = Empty | File (server: u64) (access: Access) (cursor: u64) | Dir (server: u64)

datatype Flight = Idle | Waiting u64

record Stat =
  st_dev :: u64
  st_ino :: u64
  st_mode :: u64
  st_nlink :: u64
  st_uid :: u64
  st_gid :: u64
  st_rdev :: u64
  st_size :: u64
  st_blksize :: u64
  st_blocks :: u64
  st_atime :: u64
  st_mtime :: u64
  st_ctime :: u64
  st_atime_nsec :: u64
  st_mtime_nsec :: u64
  st_ctime_nsec :: u64
  st_used :: u64

text \<open>\<open>fs_stat_t\<close> is seventeen words in the order of its fields.\<close>

type_synonym fs_stat_t = "u64 list"

definition Stat_from :: "fs_stat_t \<Rightarrow> Stat" where
  "Stat_from raw = \<lparr>st_dev = raw ! 0, st_ino = raw ! 1, st_mode = raw ! 2, st_nlink = raw ! 3,
     st_uid = raw ! 4, st_gid = raw ! 5, st_rdev = raw ! 6, st_size = raw ! 7,
     st_blksize = raw ! 8, st_blocks = raw ! 9, st_atime = raw ! 10, st_mtime = raw ! 11,
     st_ctime = raw ! 12, st_atime_nsec = raw ! 13, st_mtime_nsec = raw ! 14,
     st_ctime_nsec = raw ! 15, st_used = raw ! 16\<rparr>"

subsection \<open>The share\<close>

definition read_stat :: "mem \<Rightarrow> fs_stat_t" where
  "read_stat m = map (\<lambda>k. load_u64 (STAT_AT + 8 * k) m) [0..<17]"

subsection \<open>The client\<close>

record 'cx world =
  w_command :: fs_queue_t
  w_completion :: fs_queue_t
  w_share :: mem
  w_cx :: 'cx

record 'cx Files =
  f_world :: "'cx world"
  f_share_len :: nat
  f_wake :: "'cx world \<Rightarrow> 'cx world"
  f_next_id :: u64
  f_flight :: Flight
  f_slots :: "Slot list"

type_synonym ('cx, 'a) files = "('cx Files, errno, 'a) outcome"

text \<open>The pointers given to \<open>bind\<close> are options: \<open>None\<close> is null.\<close>

definition bind :: "fs_queue_t option \<Rightarrow> fs_queue_t option \<Rightarrow> mem option \<Rightarrow> nat \<Rightarrow>
    ('cx world \<Rightarrow> 'cx world) \<Rightarrow> 'cx \<Rightarrow> errno + 'cx Files" where
  "bind commands completions share share_len wake wake_cx =
     (case (commands, completions, share) of
        (Some command, Some completion, Some m) \<Rightarrow>
          if share_len < SHARE_MIN then Inl EINVAL
          else Inr \<lparr>f_world = \<lparr>w_command = command, w_completion = completion, w_share = m,
                 w_cx = wake_cx\<rparr>,
               f_share_len = share_len, f_wake = wake, f_next_id = 1, f_flight = Idle,
               f_slots = replicate TABLE_LEN Empty\<rparr>
      | _ \<Rightarrow> Inl EINVAL)"

definition index :: "Fd \<Rightarrow> nat option" where
  "index fd = (case fd of Fd n \<Rightarrow> if unat n < 3 then None else Some (unat n - 3))"

definition completed_len :: "u64 \<Rightarrow> nat \<Rightarrow> nat option" where
  "completed_len n chunk = (if unat n \<le> chunk then Some (unat n) else None)"

definition keep_or :: "nat \<Rightarrow> errno \<Rightarrow> errno + nat" where
  "keep_or done e = (if done > 0 then Inr done else Inl e)"

fun access_of :: "Open \<Rightarrow> Access" where
  "access_of Read = ARead"
| "access_of CreateRead = ARead"
| "access_of Write = AWrite"
| "access_of CreateWrite = AWrite"
| "access_of ReadWrite = AReadWrite"
| "access_of CreateReadWrite = AReadWrite"

fun wire_flags :: "Open \<Rightarrow> u64" where
  "wire_flags Read = FS_OPEN_FLAGS_READ_ONLY"
| "wire_flags Write = FS_OPEN_FLAGS_WRITE_ONLY"
| "wire_flags ReadWrite = FS_OPEN_FLAGS_READ_WRITE"
| "wire_flags CreateRead = FS_OPEN_FLAGS_CREATE OR FS_OPEN_FLAGS_READ_ONLY"
| "wire_flags CreateWrite = FS_OPEN_FLAGS_CREATE OR FS_OPEN_FLAGS_WRITE_ONLY"
| "wire_flags CreateReadWrite = FS_OPEN_FLAGS_CREATE OR FS_OPEN_FLAGS_READ_WRITE"

definition zeroed_params :: fs_cmd_params_t where
  "zeroed_params = replicate 6 0"

definition zeroed_command :: fs_cmd_t where
  "zeroed_command = \<lparr>cmd_id = 0, cmd_type = 0, cmd_params = zeroed_params\<rparr>"

text \<open>\<open>with_params\<close> zeroes the parameters and lets the closure overwrite one union member:
  \<open>fill\<close> are the words of that member.\<close>

definition with_params :: "u64 \<Rightarrow> u64 list \<Rightarrow> fs_cmd_t" where
  "with_params kind fill =
     \<lparr>cmd_id = 0, cmd_type = kind, cmd_params = fill @ drop (length fill) zeroed_params\<rparr>"

definition buffer_words :: "fs_buffer_t \<Rightarrow> u64 list" where
  "buffer_words b = [fb_offset b, fb_size b]"

definition open_command :: "fs_buffer_t \<Rightarrow> u64 \<Rightarrow> fs_cmd_t" where
  "open_command path flags = with_params FS_CMD_FILE_OPEN (buffer_words path @ [flags])"

definition read_command :: "u64 \<Rightarrow> u64 \<Rightarrow> fs_buffer_t \<Rightarrow> fs_cmd_t" where
  "read_command fd offset buf = with_params FS_CMD_FILE_READ (fd # offset # buffer_words buf)"

definition write_command :: "u64 \<Rightarrow> u64 \<Rightarrow> fs_buffer_t \<Rightarrow> fs_cmd_t" where
  "write_command fd offset buf = with_params FS_CMD_FILE_WRITE (fd # offset # buffer_words buf)"

definition close_command :: "u64 \<Rightarrow> fs_cmd_t" where
  "close_command fd = with_params FS_CMD_FILE_CLOSE [fd]"

definition dir_create_command :: "fs_buffer_t \<Rightarrow> fs_cmd_t" where
  "dir_create_command path = with_params FS_CMD_DIR_CREATE (buffer_words path)"

definition dir_open_command :: "fs_buffer_t \<Rightarrow> fs_cmd_t" where
  "dir_open_command path = with_params FS_CMD_DIR_OPEN (buffer_words path)"

definition dir_read_command :: "u64 \<Rightarrow> fs_buffer_t \<Rightarrow> fs_cmd_t" where
  "dir_read_command fd buf = with_params FS_CMD_DIR_READ (fd # buffer_words buf)"

definition dir_close_command :: "u64 \<Rightarrow> fs_cmd_t" where
  "dir_close_command fd = with_params FS_CMD_DIR_CLOSE [fd]"

definition remove_command :: "fs_buffer_t \<Rightarrow> fs_cmd_t" where
  "remove_command path = with_params FS_CMD_FILE_REMOVE (buffer_words path)"

definition rename_command :: "fs_buffer_t \<Rightarrow> fs_buffer_t \<Rightarrow> fs_cmd_t" where
  "rename_command old_path new_path =
     with_params FS_CMD_RENAME (buffer_words old_path @ buffer_words new_path)"

definition stat_command :: "fs_buffer_t \<Rightarrow> fs_cmd_t" where
  "stat_command path = with_params FS_CMD_STAT
     (buffer_words path @ buffer_words \<lparr>fb_offset = of_nat STAT_AT, fb_size = 136\<rparr>)"

definition map_status :: "u64 \<Rightarrow> errno + unit" where
  "map_status status =
     (if status = FS_STATUS_SUCCESS then Inr ()
      else if status \<in> {FS_STATUS_ERROR, FS_STATUS_END_OF_DIRECTORY, FS_STATUS_SERVER_WAS_DENIED}
        then Inl FILE_ERR
      else if status \<in> {FS_STATUS_INVALID_BUFFER, FS_STATUS_INVALID_NAME, FS_STATUS_INVALID_COMMAND}
        then Inl EINVAL
      else if status \<in> {FS_STATUS_INVALID_PATH, FS_STATUS_NO_FILE} then Inl ENOENT
      else if status = FS_STATUS_INVALID_FD then Inl EBADF
      else if status = FS_STATUS_ALLOCATION_ERROR then Inl ENOMEM
      else if status = FS_STATUS_OUTSTANDING_OPERATIONS then Inl EBUSY
      else if status = FS_STATUS_TOO_MANY_OPEN_FILES then Inl EMFILE
      else if status \<in> {FS_STATUS_INVALID_WRITE, FS_STATUS_INVALID_READ} then Inl EACCES
      else if status = FS_STATUS_DIRECTORY_IS_FULL then Inl ENOSPC
      else if status = FS_STATUS_NOT_DIRECTORY then Inl ENOTDIR
      else if status = FS_STATUS_ALREADY_EXISTS then Inl EEXIST
      else if status = FS_STATUS_NOT_EMPTY then Inl ENOTEMPTY
      else Inl FILE_ERR)"

subsection \<open>One exchange\<close>

definition idle :: "('cx, unit) files" where
  "idle s = (case f_flight s of Idle \<Rightarrow> ok () s | Waiting _ \<Rightarrow> err EBUSY s)"

text \<open>\<open>self.slots[index(fd)]\<close>, which panics outside the table.\<close>

definition slot_at :: "Fd \<Rightarrow> ('cx, Slot) files" where
  "slot_at fd s =
     (case index fd of None \<Rightarrow> None
      | Some i \<Rightarrow> if i < length (f_slots s) then ok (f_slots s ! i) s else None)"

definition set_slot :: "Fd \<Rightarrow> Slot \<Rightarrow> ('cx, unit) files" where
  "set_slot fd slot s =
     (case index fd of None \<Rightarrow> None
      | Some i \<Rightarrow> if i < length (f_slots s) then ok () (s\<lparr>f_slots := (f_slots s)[i := slot]\<rparr>) else None)"

definition live :: "Fd \<Rightarrow> ('cx, u64 \<times> Access \<times> u64) files" where
  "live fd = and_then (slot_at fd) (\<lambda>slot. case slot of File sv a c \<Rightarrow> ok (sv, a, c) | _ \<Rightarrow> err EBADF)"

definition dir_live :: "Fd \<Rightarrow> ('cx, u64) files" where
  "dir_live fd = and_then (slot_at fd) (\<lambda>slot. case slot of Dir sv \<Rightarrow> ok sv | _ \<Rightarrow> err EBADF)"

definition set_cursor :: "Fd \<Rightarrow> u64 \<Rightarrow> ('cx, unit) files" where
  "set_cursor fd c = and_then (slot_at fd)
     (\<lambda>slot. case slot of File sv a _ \<Rightarrow> set_slot fd (File sv a c) | _ \<Rightarrow> ok ())"

definition put_share :: "nat \<Rightarrow> u8 list \<Rightarrow> 'cx Files \<Rightarrow> 'cx Files" where
  "put_share pos bytes s =
     s\<lparr>f_world := (f_world s)\<lparr>w_share := mem_put pos bytes (w_share (f_world s))\<rparr>\<rparr>"

definition place :: "u8 list \<Rightarrow> nat \<Rightarrow> ('cx, fs_buffer_t) files" where
  "place path offset s =
     (if length path > PATH_LIMIT then err ENAMETOOLONG s
      else if offset + length path \<ge> 2 ^ 64 then err EINVAL s
      else if offset + length path > f_share_len s then err EINVAL s
      else ok \<lparr>fb_offset = of_nat offset, fb_size = of_nat (length path)\<rparr> (put_share offset path s))"

definition alloc_id :: "'cx Files \<Rightarrow> u64 \<times> 'cx Files" where
  "alloc_id s =
     (let n = f_next_id s + 1 in (f_next_id s, s\<lparr>f_next_id := (if n = 0 then 1 else n)\<rparr>))"

definition run_wake :: "'cx Files \<Rightarrow> 'cx Files" where
  "run_wake s = s\<lparr>f_world := f_wake s (f_world s)\<rparr>"

definition take_match :: "'cx Files \<Rightarrow> fs_cmpl_t option \<times> 'cx Files" where
  "take_match s =
     (case f_flight s of Idle \<Rightarrow> (None, s)
      | Waiting n \<Rightarrow>
          (case fs_message_dequeue (w_completion (f_world s)) (msg_of_cmd zeroed_command) of
             (got, msg, q) \<Rightarrow>
               let s' = s\<lparr>f_world := (f_world s)\<lparr>w_completion := q\<rparr>\<rparr>
               in if got \<noteq> 0 then (None, s')
                  else let cmpl = msg_cmpl msg
                       in (if cmpl_id cmpl = n then Some cmpl else None, s')))"

text \<open>The loop of two wakes.\<close>

fun await :: "nat \<Rightarrow> ('cx, fs_cmpl_t) files" where
  "await 0 s = err FILE_ERR (s\<lparr>f_flight := Idle\<rparr>)"
| "await (Suc k) s =
     (case take_match (run_wake s) of
        (Some cmpl, s') \<Rightarrow> ok cmpl (s'\<lparr>f_flight := Idle\<rparr>)
      | (None, s') \<Rightarrow> await k s')"

definition exchange :: "fs_cmd_t \<Rightarrow> ('cx, fs_cmpl_t) files" where
  "exchange cmd s =
     (case f_flight s of Waiting _ \<Rightarrow> err EBUSY s
      | Idle \<Rightarrow>
          (case alloc_id s of (n, s1) \<Rightarrow>
             let s2 = s1\<lparr>f_flight := Waiting n\<rparr>
             in case fs_command_enqueue (w_command (f_world s2)) (cmd\<lparr>cmd_id := n\<rparr>) of (enqueued, q) \<Rightarrow>
                  let s3 = s2\<lparr>f_world := (f_world s2)\<lparr>w_command := q\<rparr>\<rparr>
                  in if enqueued \<noteq> 0 then err ENOMEM (s3\<lparr>f_flight := Idle\<rparr>)
                     else await 2 s3))"

subsection \<open>Operations\<close>

definition first_empty :: "'cx Files \<Rightarrow> nat option" where
  "first_empty s =
     (let free = filter (\<lambda>i. f_slots s ! i = Empty) [0..<length (f_slots s)]
      in case free of [] \<Rightarrow> None | i # _ \<Rightarrow> Some i)"

text \<open>\<open>u8::try_from(index + 3).expect(..)\<close>\<close>

definition fd_of :: "nat \<Rightarrow> ('cx, Fd) files" where
  "fd_of i = (if i + 3 < 256 then ok (Fd (of_nat (i + 3))) else panics)"

definition store_slot :: "nat \<Rightarrow> Slot \<Rightarrow> ('cx, unit) files" where
  "store_slot i slot = modify (\<lambda>s. s\<lparr>f_slots := (f_slots s)[i := slot]\<rparr>)"

definition claim_slot :: "('cx, nat) files" where
  "claim_slot s = (case first_empty s of None \<Rightarrow> err EMFILE s | Some i \<Rightarrow> ok i s)"

definition Files_open :: "u8 list \<Rightarrow> Open \<Rightarrow> ('cx, Fd) files" where
  "Files_open path how =
     and_then idle (\<lambda>_.
     and_then claim_slot (\<lambda>i.
     and_then (place path PATH_A) (\<lambda>p.
     and_then (exchange (open_command p (wire_flags how))) (\<lambda>cmpl.
     and_then (checked (map_status (cmpl_status cmpl))) (\<lambda>_.
     and_then (store_slot i (File (cmpl_data cmpl) (access_of how) 0)) (\<lambda>_.
     fd_of i))))))"

definition Files_open_dir :: "u8 list \<Rightarrow> ('cx, Fd) files" where
  "Files_open_dir path =
     and_then idle (\<lambda>_.
     and_then claim_slot (\<lambda>i.
     and_then (place path PATH_A) (\<lambda>p.
     and_then (exchange (dir_open_command p)) (\<lambda>cmpl.
     and_then (checked (map_status (cmpl_status cmpl))) (\<lambda>_.
     and_then (store_slot i (Dir (cmpl_data cmpl))) (\<lambda>_.
     fd_of i))))))"

text \<open>The methods that copy into a caller's buffer return the new buffer beside the count.\<close>

definition data_window :: "nat \<Rightarrow> fs_buffer_t" where
  "data_window chunk = \<lparr>fb_offset = of_nat DATA_AT, fb_size = of_nat chunk\<rparr>"

definition copy_out :: "nat \<Rightarrow> nat \<Rightarrow> u8 list \<Rightarrow> 'cx Files \<Rightarrow> u8 list" where
  "copy_out pos n buf s = take pos buf @ mem_get DATA_AT n (w_share (f_world s)) @ drop (pos + n) buf"

definition Files_read_dir :: "Fd \<Rightarrow> u8 list \<Rightarrow> ('cx, (nat \<times> u8 list) option) files" where
  "Files_read_dir fd buf =
     and_then idle (\<lambda>_.
     and_then (dir_live fd) (\<lambda>sv.
     if buf = [] then err EINVAL
     else let chunk = min (length buf) DATA_LEN in
     and_then (exchange (dir_read_command sv (data_window chunk))) (\<lambda>cmpl.
     if cmpl_status cmpl = FS_STATUS_END_OF_DIRECTORY then ok None
     else and_then (checked (map_status (cmpl_status cmpl))) (\<lambda>_.
     case completed_len (cmpl_data cmpl) chunk of None \<Rightarrow> err FILE_ERR
     | Some n \<Rightarrow> get (\<lambda>s. Some (n, copy_out 0 n buf s))))))"

function read_loop :: "Fd \<Rightarrow> u64 \<Rightarrow> u64 \<Rightarrow> nat \<Rightarrow> u8 list \<Rightarrow> 'cx Files \<Rightarrow> ((errno + nat) \<times> u8 list \<times> 'cx Files) option" where
  "read_loop fd sv cur done buf s =
     (if done < length buf then
        let chunk = min (length buf - done) DATA_LEN
        in case exchange (read_command sv cur (data_window chunk)) s of
             None \<Rightarrow> None
           | Some (Inl e, s1) \<Rightarrow> Some (keep_or done e, buf, s1)
           | Some (Inr cmpl, s1) \<Rightarrow>
               (case map_status (cmpl_status cmpl) of
                  Inl e \<Rightarrow> Some (keep_or done e, buf, s1)
                | Inr _ \<Rightarrow>
                    (case completed_len (cmpl_data cmpl) chunk of
                       None \<Rightarrow> Some (keep_or done FILE_ERR, buf, s1)
                     | Some n \<Rightarrow>
                         let buf' = copy_out done n buf s1; cur' = cur + of_nat n
                         in case set_cursor fd cur' s1 of
                              None \<Rightarrow> None
                            | Some (_, s2) \<Rightarrow>
                                if n < chunk then Some (Inr (done + n), buf', s2)
                                else read_loop fd sv cur' (done + n) buf' s2))
      else Some (Inr done, buf, s))"
  by pat_completeness auto

lemma DATA_LEN_pos [simp]: "0 < DATA_LEN"
  by (simp add: DATA_LEN_def SHARE_MIN_def DATA_AT_def)

lemma completed_len_le: "completed_len n chunk = Some k \<Longrightarrow> k \<le> chunk"
  by (auto simp: completed_len_def split: if_splits)

lemma length_copy_out [simp]: "pos + n \<le> length buf \<Longrightarrow> length (copy_out pos n buf s) = length buf"
  by (simp add: copy_out_def mem_get_def)

termination read_loop
  by (relation "measure (\<lambda>(fd, sv, cur, done, buf, s). length buf - done)")
    (auto dest!: completed_len_le intro!: diff_less_mono2 simp: min_def split: if_splits)

declare read_loop.simps [simp del]

definition Files_read :: "Fd \<Rightarrow> u8 list \<Rightarrow> 'cx Files \<Rightarrow> ((errno + nat) \<times> u8 list \<times> 'cx Files) option" where
  "Files_read fd buf s =
     (case and_then idle (\<lambda>_. live fd) s of
        None \<Rightarrow> None
      | Some (Inl e, s') \<Rightarrow> Some (Inl e, buf, s')
      | Some (Inr (sv, a, cur), s') \<Rightarrow>
          if \<not> can_read a then Some (Inl EACCES, buf, s')
          else if buf = [] then Some (Inr 0, buf, s')
          else read_loop fd sv cur 0 buf s')"

function write_loop :: "Fd \<Rightarrow> u64 \<Rightarrow> u64 \<Rightarrow> nat \<Rightarrow> u8 list \<Rightarrow> 'cx Files \<Rightarrow> ((errno + nat) \<times> 'cx Files) option" where
  "write_loop fd sv cur done buf s =
     (if done < length buf then
        let chunk = min (length buf - done) DATA_LEN;
          s0 = put_share DATA_AT (take chunk (drop done buf)) s
        in case exchange (write_command sv cur (data_window chunk)) s0 of
             None \<Rightarrow> None
           | Some (Inl e, s1) \<Rightarrow> Some (keep_or done e, s1)
           | Some (Inr cmpl, s1) \<Rightarrow>
               (case map_status (cmpl_status cmpl) of
                  Inl e \<Rightarrow> Some (keep_or done e, s1)
                | Inr _ \<Rightarrow>
                    (case completed_len (cmpl_data cmpl) chunk of
                       None \<Rightarrow> Some (keep_or done FILE_ERR, s1)
                     | Some n \<Rightarrow>
                         let cur' = cur + of_nat n
                         in case set_cursor fd cur' s1 of
                              None \<Rightarrow> None
                            | Some (_, s2) \<Rightarrow>
                                if n < chunk then Some (Inr (done + n), s2)
                                else write_loop fd sv cur' (done + n) buf s2))
      else Some (Inr done, s))"
  by pat_completeness auto

termination write_loop
  by (relation "measure (\<lambda>(fd, sv, cur, done, buf, s). length buf - done)")
    (auto dest!: completed_len_le intro!: diff_less_mono2 simp: min_def split: if_splits)

declare write_loop.simps [simp del]

definition Files_write :: "Fd \<Rightarrow> u8 list \<Rightarrow> ('cx, nat) files" where
  "Files_write fd buf =
     and_then idle (\<lambda>_.
     and_then (live fd) (\<lambda>(sv, a, cur).
     if \<not> can_write a then err EACCES
     else if buf = [] then ok 0
     else write_loop fd sv cur 0 buf))"

definition Files_mkdir :: "u8 list \<Rightarrow> ('cx, unit) files" where
  "Files_mkdir path =
     and_then idle (\<lambda>_.
     and_then (place path PATH_A) (\<lambda>p.
     and_then (exchange (dir_create_command p)) (\<lambda>cmpl.
     checked (map_status (cmpl_status cmpl)))))"

definition Files_unlink :: "u8 list \<Rightarrow> ('cx, unit) files" where
  "Files_unlink path =
     and_then idle (\<lambda>_.
     and_then (place path PATH_A) (\<lambda>p.
     and_then (exchange (remove_command p)) (\<lambda>cmpl.
     checked (map_status (cmpl_status cmpl)))))"

definition Files_rename :: "u8 list \<Rightarrow> u8 list \<Rightarrow> ('cx, unit) files" where
  "Files_rename from to =
     and_then idle (\<lambda>_.
     and_then (place from PATH_A) (\<lambda>old_path.
     and_then (place to PATH_B) (\<lambda>new_path.
     and_then (exchange (rename_command old_path new_path)) (\<lambda>cmpl.
     checked (map_status (cmpl_status cmpl))))))"

definition Files_stat :: "u8 list \<Rightarrow> ('cx, Stat) files" where
  "Files_stat path =
     and_then idle (\<lambda>_.
     and_then (place path PATH_A) (\<lambda>p.
     and_then (exchange (stat_command p)) (\<lambda>cmpl.
     and_then (checked (map_status (cmpl_status cmpl))) (\<lambda>_.
     get (\<lambda>s. Stat_from (read_stat (w_share (f_world s))))))))"

definition Files_close :: "Fd \<Rightarrow> ('cx, unit) files" where
  "Files_close fd =
     and_then idle (\<lambda>_.
     and_then (slot_at fd) (\<lambda>slot.
     case slot of
       File sv _ _ \<Rightarrow>
         and_then (exchange (close_command sv)) (\<lambda>cmpl.
         and_then (set_slot fd Empty) (\<lambda>_.
         checked (map_status (cmpl_status cmpl))))
     | _ \<Rightarrow> err EBADF))"

definition Files_close_dir :: "Fd \<Rightarrow> ('cx, unit) files" where
  "Files_close_dir fd =
     and_then idle (\<lambda>_.
     and_then (slot_at fd) (\<lambda>slot.
     case slot of
       Dir sv \<Rightarrow>
         and_then (exchange (dir_close_command sv)) (\<lambda>cmpl.
         and_then (set_slot fd Empty) (\<lambda>_.
         checked (map_status (cmpl_status cmpl))))
     | _ \<Rightarrow> err EBADF))"

end
