(* ===== verification/PosixInv.thy ===== *)
theory PosixInv
  imports Posix
begin

text \<open>
  The descriptor table of the file client. Everything here holds for every wake function, so
  for every peer: the client's own state stays consistent whatever the peer writes.
  \<open>kept t\<close> says that the client is consistent and its table is \<open>t\<close>.
\<close>

definition files_inv :: "'cx Files \<Rightarrow> bool" where
  "files_inv s \<longleftrightarrow> f_flight s = Idle \<and> length (f_slots s) = TABLE_LEN \<and> f_next_id s \<noteq> 0 \<and>
     SHARE_MIN \<le> f_share_len s"

definition kept :: "Slot list \<Rightarrow> 'cx Files \<Rightarrow> bool" where
  "kept t s \<longleftrightarrow> files_inv s \<and> f_slots s = t"

lemma TABLE_LEN_125 [simp]: "TABLE_LEN = 125"
  by (simp add: TABLE_LEN_def MAX_FDS_def)

lemma bind_inv:
  assumes "bind cq pq m len wk cx = Inr s"
  shows "files_inv s" and "f_slots s = replicate TABLE_LEN Empty"
  using assms by (auto simp: bind_def files_inv_def split: option.splits if_splits)

subsection \<open>One exchange\<close>

lemma take_match_frame:
  assumes "take_match s = (r, s')"
  shows "f_slots s' = f_slots s" "f_flight s' = f_flight s" "f_share_len s' = f_share_len s"
    "f_wake s' = f_wake s" "f_next_id s' = f_next_id s"
    "\<And>c. r = Some c \<Longrightarrow> f_flight s = Waiting (cmpl_id c)"
  using assms by (auto simp: take_match_def Let_def split: Flight.splits prod.splits if_splits)

lemma await_frame:
  "\<exists>r s'. await k s = Some (r, s') \<and> f_slots s' = f_slots s \<and> f_flight s' = Idle \<and>
     f_share_len s' = f_share_len s \<and> f_wake s' = f_wake s \<and> f_next_id s' = f_next_id s \<and>
     (\<forall>e. r = Inl e \<longrightarrow> e = FILE_ERR) \<and> (\<forall>c. r = Inr c \<longrightarrow> f_flight s = Waiting (cmpl_id c))"
proof (induction k arbitrary: s)
  case 0
  then show ?case by (simp add: err_def)
next
  case (Suc k)
  obtain m s1 where m: "take_match (run_wake s) = (m, s1)" by fastforce
  note fr = take_match_frame [OF m]
  show ?case
  proof (cases m)
    case None
    then show ?thesis using Suc [of s1] m fr by (simp add: run_wake_def)
  next
    case (Some c)
    then show ?thesis using m fr by (auto simp: run_wake_def ok_def)
  qed
qed

definition next_of :: "u64 \<Rightarrow> u64" where
  "next_of n = (if n + 1 = 0 then 1 else n + 1)"

lemma next_of_nonzero [simp]: "next_of n \<noteq> 0"
  by (simp add: next_of_def)

lemma exchange_frame:
  assumes "f_flight s = Idle"
  obtains r s' where "exchange cmd s = Some (r, s')" "f_slots s' = f_slots s" "f_flight s' = Idle"
    "f_share_len s' = f_share_len s" "f_wake s' = f_wake s" "f_next_id s' = next_of (f_next_id s)"
    "\<And>c. r = Inr c \<Longrightarrow> cmpl_id c = f_next_id s" "\<And>e. r = Inl e \<Longrightarrow> e = ENOMEM \<or> e = FILE_ERR"
proof -
  obtain q c where enq: "fs_command_enqueue (w_command (f_world s)) (cmd\<lparr>cmd_id := f_next_id s\<rparr>) = (c, q)"
    by fastforce
  define s3 where "s3 = s\<lparr>f_next_id := next_of (f_next_id s), f_flight := Waiting (f_next_id s),
    f_world := (f_world s)\<lparr>w_command := q\<rparr>\<rparr>"
  have ex: "exchange cmd s = (if c \<noteq> 0 then err ENOMEM (s3\<lparr>f_flight := Idle\<rparr>) else await 2 s3)"
    using assms enq by (simp add: exchange_def alloc_id_def Let_def next_of_def s3_def)
  show ?thesis
  proof (cases "c = 0")
    case True
    then show ?thesis using that await_frame [of 2 s3] ex by (fastforce simp: s3_def)
  next
    case False
    then show ?thesis using that ex by (auto simp: err_def s3_def)
  qed
qed

lemma exchange_kept: "returns (kept t) (exchange cmd) (\<lambda>_. kept t)"
proof (rule returnsI)
  fix s assume k: "kept t s"
  then have "f_flight s = Idle" by (simp add: kept_def files_inv_def)
  then show "\<exists>r s'. exchange cmd s = Some (r, s') \<and> kept t s'"
    by (rule exchange_frame [of s cmd]) (use k in \<open>auto simp: kept_def files_inv_def\<close>)
qed

lemma idle_kept: "returns (kept t) idle (\<lambda>r s. r = Inr () \<and> kept t s)"
  by (auto simp: returns_def idle_def ok_def kept_def files_inv_def)

lemma place_kept: "returns (kept t) (place path pos) (\<lambda>_. kept t)"
  by (auto simp: returns_def place_def err_def ok_def put_share_def kept_def files_inv_def)

lemma returns_seq:
  "returns P m (\<lambda>_. P) \<Longrightarrow> (\<And>x. returns P (f x) (\<lambda>_. P)) \<Longrightarrow> returns P (and_then m f) (\<lambda>_. P)"
  by (rule returns_and_then)

lemma idle_seq: "returns (kept t) m Q \<Longrightarrow> returns (kept t) (and_then idle (\<lambda>_. m)) Q"
  by (rule returns_and_then [OF idle_kept]) (auto simp: returns_def)

lemmas kept_rules = idle_kept [THEN returns_strengthen] exchange_kept place_kept

text \<open>The operations that do not touch the table.\<close>

lemma mkdir_kept: "returns (kept t) (Files_mkdir path) (\<lambda>_. kept t)"
  unfolding Files_mkdir_def
  by (intro idle_seq returns_seq exchange_kept place_kept returns_checked)

lemma unlink_kept: "returns (kept t) (Files_unlink path) (\<lambda>_. kept t)"
  unfolding Files_unlink_def
  by (intro idle_seq returns_seq exchange_kept place_kept returns_checked)

lemma rename_kept: "returns (kept t) (Files_rename old new) (\<lambda>_. kept t)"
  unfolding Files_rename_def
  by (intro idle_seq returns_seq exchange_kept place_kept returns_checked)

lemma stat_kept: "returns (kept t) (Files_stat path) (\<lambda>_. kept t)"
  unfolding Files_stat_def
  by (intro idle_seq returns_seq exchange_kept place_kept returns_checked returns_get)

subsection \<open>Descriptors\<close>

definition fd_ok :: "Fd \<Rightarrow> bool" where
  "fd_ok fd \<longleftrightarrow> 3 \<le> number fd \<and> number fd \<le> 127"

definition slot_of :: "Fd \<Rightarrow> nat" where
  "slot_of fd = nat (number fd) - 3"

lemma index_slot:
  assumes "fd_ok fd"
  shows "index fd = Some (slot_of fd)" and "slot_of fd < 125"
proof -
  obtain n where fd: "fd = Fd n" by (cases fd)
  have u: "int (unat n) = uint n" by simp
  have "3 \<le> unat n" "unat n \<le> 127"
    using assms u unfolding fd fd_ok_def number_def Fd.case by linarith+
  then show "index fd = Some (slot_of fd)" "slot_of fd < 125"
    by (auto simp: fd number_def index_def slot_of_def)
qed

lemma slot_at_kept:
  "fd_ok fd \<Longrightarrow> returns (kept t) (slot_at fd) (\<lambda>r s. r = Inr (t ! slot_of fd) \<and> kept t s)"
  by (auto simp: returns_def slot_at_def ok_def index_slot kept_def files_inv_def)

lemma slot_at_seq:
  "fd_ok fd \<Longrightarrow> returns (kept t) (f (t ! slot_of fd)) Q \<Longrightarrow> returns (kept t) (and_then (slot_at fd) f) Q"
  by (rule returns_and_then [OF slot_at_kept]) (auto simp: returns_def)

lemma set_slot_kept:
  "fd_ok fd \<Longrightarrow> returns (kept t) (set_slot fd slot) (\<lambda>r s. r = Inr () \<and> kept (t[slot_of fd := slot]) s)"
  by (auto simp: returns_def set_slot_def ok_def index_slot kept_def files_inv_def)

lemma set_slot_seq:
  "fd_ok fd \<Longrightarrow> returns (kept (t[slot_of fd := slot])) m Q \<Longrightarrow> returns (kept t) (and_then (set_slot fd slot) (\<lambda>_. m)) Q"
  by (rule returns_and_then [OF set_slot_kept]) (auto simp: returns_def)

lemma read_dir_kept: "fd_ok fd \<Longrightarrow> returns (kept t) (Files_read_dir fd buf) (\<lambda>_. kept t)"
  unfolding Files_read_dir_def dir_live_def and_then_assoc Let_def
  by (rule idle_seq, rule slot_at_seq, assumption)
    (auto intro!: returns_seq returns_rules exchange_kept split: Slot.splits option.splits)

subsection \<open>Closing\<close>

text \<open>A completed close empties the slot; without a completion the table is unchanged and the
  error is \<open>FILE_ERR\<close> or \<open>ENOMEM\<close>.\<close>

definition closed :: "Fd \<Rightarrow> Slot list \<Rightarrow> errno + unit \<Rightarrow> 'cx Files \<Rightarrow> bool" where
  "closed fd t r s \<longleftrightarrow> kept (t[slot_of fd := Empty]) s \<or> kept t s \<and> (r = Inl FILE_ERR \<or> r = Inl ENOMEM)"

lemma exchange_kept_errors:
  "returns (kept t) (exchange cmd) (\<lambda>r s. kept t s \<and> (\<forall>e. r = Inl e \<longrightarrow> e = ENOMEM \<or> e = FILE_ERR))"
proof (rule returnsI)
  fix s assume k: "kept t s"
  then have "f_flight s = Idle" by (simp add: kept_def files_inv_def)
  then show "\<exists>r s'. exchange cmd s = Some (r, s') \<and> kept t s' \<and> (\<forall>e. r = Inl e \<longrightarrow> e = ENOMEM \<or> e = FILE_ERR)"
    by (rule exchange_frame [of s cmd]) (use k in \<open>auto simp: kept_def files_inv_def\<close>)
qed

lemma close_exchange:
  assumes "fd_ok fd"
  shows "returns (kept t) (and_then (exchange cmd) (\<lambda>cmpl. and_then (set_slot fd Empty) (\<lambda>_. checked (map_status (cmpl_status cmpl)))))
    (closed fd t)"
proof (rule returns_and_then [OF exchange_kept_errors])
  show "closed fd t (Inl e) s" if "kept t s \<and> (\<forall>e'. Inl e = Inl e' \<longrightarrow> e' = ENOMEM \<or> e' = FILE_ERR)" for e :: errno and s :: "'a Files"
    using that by (auto simp: closed_def)
next
  fix x :: fs_cmpl_t
  have "returns (kept t) (and_then (set_slot fd Empty) (\<lambda>_. checked (map_status (cmpl_status x)))) (closed fd t)"
    by (rule set_slot_seq [OF assms]) (auto intro!: returns_checked simp: closed_def)
  then show "returns (\<lambda>s. kept t s \<and> (\<forall>e. Inr x = Inl e \<longrightarrow> e = ENOMEM \<or> e = FILE_ERR))
      (and_then (set_slot fd Empty) (\<lambda>_. checked (map_status (cmpl_status x)))) (closed fd t)"
    by (auto simp: returns_def)
qed

lemma close_table:
  assumes "fd_ok fd"
  shows "returns (kept t) (Files_close fd)
    (\<lambda>r s. case t ! slot_of fd of File _ _ _ \<Rightarrow> closed fd t r s | _ \<Rightarrow> kept t s \<and> r = Inl EBADF)"
  unfolding Files_close_def
  by (rule idle_seq, rule slot_at_seq [OF assms])
    (auto split: Slot.splits intro!: returns_err close_exchange [OF assms])

lemma close_dir_table:
  assumes "fd_ok fd"
  shows "returns (kept t) (Files_close_dir fd)
    (\<lambda>r s. case t ! slot_of fd of Dir _ \<Rightarrow> closed fd t r s | _ \<Rightarrow> kept t s \<and> r = Inl EBADF)"
  unfolding Files_close_dir_def
  by (rule idle_seq, rule slot_at_seq [OF assms])
    (auto split: Slot.splits intro!: returns_err close_exchange [OF assms])

subsection \<open>Opening\<close>

definition first_free :: "Slot list \<Rightarrow> nat \<Rightarrow> bool" where
  "first_free t i \<longleftrightarrow> i < length t \<and> t ! i = Empty \<and> (\<forall>j<i. t ! j \<noteq> Empty)"

lemma first_free_unique: "first_free t i \<Longrightarrow> first_free t j \<Longrightarrow> i = j"
  unfolding first_free_def by (metis nat_neq_iff)

lemma filter_upt_first:
  assumes "filter P [0..<n] = i # js"
  shows "i < n \<and> P i \<and> (\<forall>j<i. \<not> P j)"
proof -
  obtain us vs where eq: "[0..<n] = us @ i # vs" and no: "\<forall>u\<in>set us. \<not> P u" and P: "P i"
    using assms by (auto simp: filter_eq_Cons_iff)
  have len: "length us < n" using arg_cong [OF eq, of length] by simp
  then have i: "i = length us" using arg_cong [OF eq, of "\<lambda>xs. xs ! length us"] by simp
  have "us ! j = j" if "j < i" for j
    using arg_cong [OF eq, of "\<lambda>xs. xs ! j"] that len i by (simp add: nth_append)
  then have "j \<in> set us" if "j < i" for j
    using that i by (metis nth_mem)
  then show ?thesis using no P i len by blast
qed

lemma first_empty_Some: "first_empty s = Some i \<Longrightarrow> first_free (f_slots s) i"
  by (auto simp: first_empty_def first_free_def Let_def split: list.splits dest!: filter_upt_first)

lemma first_empty_None: "first_empty s = None \<longleftrightarrow> Empty \<notin> set (f_slots s)"
  by (cases "filter (\<lambda>i. f_slots s ! i = Empty) [0..<length (f_slots s)]")
    (auto simp: first_empty_def Let_def filter_empty_conv in_set_conv_nth dest: filter_upt_first)

text \<open>The outcome of an open of a slot of the shape \<open>mk server\<close>.\<close>

definition opened :: "(u64 \<Rightarrow> Slot) \<Rightarrow> Slot list \<Rightarrow> errno + Fd \<Rightarrow> 'cx Files \<Rightarrow> bool" where
  "opened mk t r s \<longleftrightarrow>
     (case r of Inl e \<Rightarrow> kept t s
      | Inr fd \<Rightarrow> fd_ok fd \<and> first_free t (slot_of fd) \<and> (\<exists>sv. kept (t[slot_of fd := mk sv]) s))"

lemma fd_number:
  assumes "i < 125"
  shows "fd_ok (Fd (of_nat (i + 3)))" and "slot_of (Fd (of_nat (i + 3))) = i"
proof -
  have "uint (of_nat (i + 3) :: u8) = int (i + 3)"
    using assms by (simp only: uint_word_of_int_eq of_nat_add [symmetric] unsigned_of_nat)
      (simp add: take_bit_eq_mod)
  then show "fd_ok (Fd (of_nat (i + 3)))" "slot_of (Fd (of_nat (i + 3))) = i"
    using assms by (simp_all add: fd_ok_def slot_of_def number_def del: of_nat_add)
qed

lemma open_finish:
  assumes "first_free t i"
  shows "returns (kept t) (and_then (store_slot i (mk sv)) (\<lambda>_. fd_of i)) (opened mk t)"
proof (rule returnsI)
  fix s assume k: "kept t s"
  have i: "i < 125" using assms k by (auto simp: first_free_def kept_def files_inv_def)
  then have "and_then (store_slot i (mk sv)) (\<lambda>_. fd_of i) s
      = Some (Inr (Fd (of_nat (i + 3))), s\<lparr>f_slots := t[i := mk sv]\<rparr>)"
    using k by (simp add: store_slot_def fd_of_def and_then_def modify_def ok_def kept_def)
  then show "\<exists>r s'. and_then (store_slot i (mk sv)) (\<lambda>_. fd_of i) s = Some (r, s') \<and> opened mk t r s'"
    using fd_number [OF i] k assms by (auto simp: opened_def kept_def files_inv_def)
qed

lemma open_steps:
  "returns (kept t)
     (and_then claim_slot (\<lambda>i. and_then (place path PATH_A) (\<lambda>p. and_then (exchange (cmd p)) (\<lambda>cmpl.
        and_then (checked (map_status (cmpl_status cmpl))) (\<lambda>_.
        and_then (store_slot i (mk (cmpl_data cmpl))) (\<lambda>_. fd_of i))))))
     (opened mk t)"
proof -
  have rest: "returns (kept t) (and_then (place path PATH_A) (\<lambda>p. and_then (exchange (cmd p)) (\<lambda>cmpl.
        and_then (checked (map_status (cmpl_status cmpl))) (\<lambda>_.
        and_then (store_slot i (mk (cmpl_data cmpl))) (\<lambda>_. fd_of i))))) (opened mk t)"
    if "first_free t i" for i
    by (rule returns_and_then [OF place_kept], simp add: opened_def,
        rule returns_and_then [OF exchange_kept], simp add: opened_def,
        rule returns_and_then [OF returns_checked [where Q = "\<lambda>_. kept t"]], simp, simp add: opened_def,
        rule open_finish [OF that])
  have "returns (kept t) claim_slot (\<lambda>r s. kept t s \<and> (\<forall>i. r = Inr i \<longrightarrow> first_free t i))"
    by (auto simp: returns_def claim_slot_def err_def ok_def kept_def split: option.splits dest: first_empty_Some)
  then show ?thesis
    by (rule returns_and_then) (auto simp: opened_def returns_def intro: returnsE [OF rest])
qed

lemma open_table: "returns (kept t) (Files_open path how) (opened (\<lambda>sv. File sv (access_of how) 0) t)"
  unfolding Files_open_def by (rule idle_seq) (rule open_steps)

lemma open_dir_table: "returns (kept t) (Files_open_dir path) (opened Dir t)"
  unfolding Files_open_dir_def by (rule idle_seq) (rule open_steps)

subsection \<open>Reading and writing\<close>

text \<open>\<open>moved fd t n s\<close>: the table is \<open>t\<close> with the cursor of \<open>fd\<close> advanced by
  \<open>n\<close>.\<close>

definition moved :: "Fd \<Rightarrow> Slot list \<Rightarrow> nat \<Rightarrow> 'cx Files \<Rightarrow> bool" where
  "moved fd t n s \<longleftrightarrow> (case t ! slot_of fd of
     File sv a cur \<Rightarrow> kept (t[slot_of fd := File sv a (cur + of_nat n)]) s | _ \<Rightarrow> False)"

lemma set_cursor_kept:
  assumes "fd_ok fd" and "t ! slot_of fd = File sv a cur" and "kept t s"
  shows "\<exists>s'. set_cursor fd c s = Some (Inr (), s') \<and> kept (t[slot_of fd := File sv a c]) s' \<and>
    f_world s' = f_world s \<and> f_wake s' = f_wake s"
  using assms
  by (auto simp: set_cursor_def slot_at_def set_slot_def and_then_def ok_def index_slot kept_def
      files_inv_def)

lemma exchange_keptE:
  assumes "kept t s"
  obtains r s' where "exchange cmd s = Some (r, s')" "kept t s'"
  using exchange_kept [of t cmd] assms by (auto simp: returns_def)

lemma kept_slot:
  assumes "kept t s" and "fd_ok fd"
  shows "slot_of fd < length t"
  using assms index_slot(2) by (auto simp: kept_def files_inv_def)

lemma moved_0: "t ! slot_of fd = File sv a cur \<Longrightarrow> kept t s \<Longrightarrow> moved fd t 0 s"
  by (simp add: moved_def) (metis list_update_id)

lemma moved_step:
  assumes "t ! slot_of fd = File sv a cur" and "slot_of fd < length t"
    and "moved fd (t[slot_of fd := File sv a (cur + of_nat k)]) n s"
  shows "moved fd t (k + n) s"
  using assms by (simp add: moved_def add.assoc)

lemma copy_out_frame:
  assumes "d + n \<le> length buf"
  shows "take d (copy_out d n buf s) = take d buf" and "drop (d + n) (copy_out d n buf s) = drop (d + n) buf"
proof -
  have m: "length (mem_get DATA_AT n (w_share (f_world s))) = n" by (simp add: mem_get_def)
  show "take d (copy_out d n buf s) = take d buf" using assms by (simp add: copy_out_def)
  have "d + n - length (take d buf) = n" using assms by simp
  then show "drop (d + n) (copy_out d n buf s) = drop (d + n) buf"
    using assms m by (simp add: copy_out_def)
qed

lemma chunk_pos: "d < length buf \<Longrightarrow> 0 < min (length buf - d) DATA_LEN"
  by simp

text \<open>The four ways an exchange of a transfer can end.\<close>

lemma transfer_cases:
  obtains (error) e where "r = Inl e"
  | (status) c e where "r = Inr c" "map_status (cmpl_status c) = Inl e"
  | (long) c where "r = Inr c" "map_status (cmpl_status c) = Inr ()" "completed_len (cmpl_data c) chunk = None"
  | (bytes) c n where "r = Inr c" "map_status (cmpl_status c) = Inr ()" "completed_len (cmpl_data c) chunk = Some n" "n \<le> chunk"
proof (cases r)
  case (Inr c)
  then show ?thesis
    using that completed_len_le [of "cmpl_data c" chunk]
    by (cases "map_status (cmpl_status c)"; cases "completed_len (cmpl_data c) chunk") auto
qed (use that in auto)

text \<open>One iteration either stops with nothing changed, or moves the cursor by the \<open>n\<close> bytes
  the peer completed.\<close>

lemma read_loop_step:
  fixes s :: "'cx Files"
  assumes fd: "fd_ok fd" and slot: "t ! slot_of fd = File sv a cur" and k: "kept t s" and d: "d < length buf"
  obtains (stop) e s1 where "read_loop fd sv cur d buf s = Some (keep_or d e, buf, s1)" "kept t s1"
  | (step) n and s1 :: "'cx Files" and s2 where "n \<le> min (length buf - d) DATA_LEN" "kept (t[slot_of fd := File sv a (cur + of_nat n)]) s2"
      "read_loop fd sv cur d buf s =
        (if n < min (length buf - d) DATA_LEN then Some (Inr (d + n), copy_out d n buf s1, s2)
         else read_loop fd sv (cur + of_nat n) (d + n) (copy_out d n buf s1) s2)"
proof -
  let ?chunk = "min (length buf - d) DATA_LEN"
  obtain r s1 where ex: "exchange (read_command sv cur (data_window ?chunk)) s = Some (r, s1)"
    and k1: "kept t s1" using exchange_keptE [OF k] by metis
  note unf = read_loop.simps [of fd sv cur d buf s]
  show ?thesis
  proof (cases rule: transfer_cases [where r = r and chunk = ?chunk])
    case (error e)
    then show ?thesis using stop [of e s1] ex d k1 by (simp add: unf)
  next
    case (status c e)
    then show ?thesis using stop [of e s1] ex d k1 by (simp add: unf)
  next
    case (long c)
    then show ?thesis using stop [of FILE_ERR s1] ex d k1 by (simp add: unf)
  next
    case (bytes c n)
    obtain s2 where "set_cursor fd (cur + of_nat n) s1 = Some (Inr (), s2)"
      "kept (t[slot_of fd := File sv a (cur + of_nat n)]) s2" using set_cursor_kept [OF fd slot k1] by blast
    then show ?thesis using step [of n s2 s1] ex d bytes by (simp add: unf Let_def)
  qed
qed

lemma read_loop_table:
  assumes "fd_ok fd" and "t ! slot_of fd = File sv a cur" and "kept t s" and "d \<le> length buf"
  shows "\<exists>r buf' s' n. read_loop fd sv cur d buf s = Some (r, buf', s') \<and> d + n \<le> length buf \<and>
    length buf' = length buf \<and> take d buf' = take d buf \<and> drop (d + n) buf' = drop (d + n) buf \<and>
    moved fd t n s' \<and> (r = Inr (d + n) \<or> d = 0 \<and> n = 0 \<and> buf' = buf \<and> (\<exists>e. r = Inl e))"
  using assms
proof (induction "length buf - d" arbitrary: d buf t cur s rule: less_induct)
  case less
  note fd = less.prems(1) and slot = less.prems(2) and k = less.prems(3)
  show ?case
  proof (cases "d < length buf")
    case False
    then show ?thesis using less.prems(4) moved_0 [OF slot k]
      by (intro exI [of _ "Inr d"] exI [of _ buf] exI [of _ s] exI [of _ 0]) (simp add: read_loop.simps)
  next
    case True
    from fd slot k True show ?thesis
    proof (cases rule: read_loop_step)
      case (stop e s1)
      then show ?thesis using True moved_0 [OF slot stop(2)]
        by (intro exI [of _ "keep_or d e"] exI [of _ buf] exI [of _ s1] exI [of _ 0]) (auto simp: keep_or_def)
    next
      case (step n s1 s2)
      let ?t = "t[slot_of fd := File sv a (cur + of_nat n)]" and ?buf = "copy_out d n buf s1"
      have dn: "d + n \<le> length buf" using step(1) True by auto
      note cf = copy_out_frame [OF dn, of s1]
      show ?thesis
      proof (cases "n < min (length buf - d) DATA_LEN")
        case True
        have "moved fd t n s2" using step(2) slot by (simp add: moved_def)
        then show ?thesis using True step dn cf
          by (intro exI [of _ "Inr (d + n)"] exI [of _ ?buf] exI [of _ s2] exI [of _ n]) simp
      next
        case False
        then have pos: "0 < n" using chunk_pos [OF \<open>d < length buf\<close>] by linarith
        have slot': "?t ! slot_of fd = File sv a (cur + of_nat n)" using kept_slot [OF k fd] by simp
        have "length ?buf - (d + n) < length buf - d" using dn pos True by simp
        from less.hyps [OF this fd slot' step(2)] obtain r buf' s' m
          where ih: "read_loop fd sv (cur + of_nat n) (d + n) ?buf s2 = Some (r, buf', s')"
          "d + n + m \<le> length ?buf" "length buf' = length ?buf" "take (d + n) buf' = take (d + n) ?buf"
          "drop (d + n + m) buf' = drop (d + n + m) ?buf" "moved fd ?t m s'" "r = Inr (d + n + m)"
          using dn pos by fastforce
        have "take d buf' = take d buf" using arg_cong [OF ih(4), of "take d"] cf(1) by simp
        moreover have "drop (d + n + m) buf' = drop (d + n + m) buf"
          using ih(5) arg_cong [OF cf(2), of "drop m"] by (simp add: add.commute)
        moreover have "read_loop fd sv cur d buf s = read_loop fd sv (cur + of_nat n) (d + n) ?buf s2"
          using step(3) False by (simp only: if_False)
        ultimately show ?thesis using ih dn moved_step [OF slot kept_slot [OF k fd] ih(6)]
          by (intro exI [of _ r] exI [of _ buf'] exI [of _ s'] exI [of _ "n + m"]) (simp add: add.assoc)
      qed
    qed
  qed
qed

lemma put_share_kept [simp]: "kept t (put_share pos bytes s) = kept t s"
  by (simp add: put_share_def kept_def files_inv_def)

lemma write_loop_step:
  assumes fd: "fd_ok fd" and slot: "t ! slot_of fd = File sv a cur" and k: "kept t s" and d: "d < length buf"
  obtains (stop) e s1 where "write_loop fd sv cur d buf s = Some (keep_or d e, s1)" "kept t s1"
  | (step) n s2 where "n \<le> min (length buf - d) DATA_LEN" "kept (t[slot_of fd := File sv a (cur + of_nat n)]) s2"
      "write_loop fd sv cur d buf s =
        (if n < min (length buf - d) DATA_LEN then Some (Inr (d + n), s2)
         else write_loop fd sv (cur + of_nat n) (d + n) buf s2)"
proof -
  let ?chunk = "min (length buf - d) DATA_LEN"
  have "kept t (put_share DATA_AT (take ?chunk (drop d buf)) s)" using k by simp
  then obtain r s1 where ex: "exchange (write_command sv cur (data_window ?chunk))
      (put_share DATA_AT (take ?chunk (drop d buf)) s) = Some (r, s1)"
    and k1: "kept t s1" using exchange_keptE by metis
  note unf = write_loop.simps [of fd sv cur d buf s]
  show ?thesis
  proof (cases rule: transfer_cases [where r = r and chunk = ?chunk])
    case (error e)
    then show ?thesis using stop [of e s1] ex d k1 by (simp add: unf Let_def)
  next
    case (status c e)
    then show ?thesis using stop [of e s1] ex d k1 by (simp add: unf Let_def)
  next
    case (long c)
    then show ?thesis using stop [of FILE_ERR s1] ex d k1 by (simp add: unf Let_def)
  next
    case (bytes c n)
    obtain s2 where "set_cursor fd (cur + of_nat n) s1 = Some (Inr (), s2)"
      "kept (t[slot_of fd := File sv a (cur + of_nat n)]) s2" using set_cursor_kept [OF fd slot k1] by blast
    then show ?thesis using step [of n s2] ex d bytes by (simp add: unf Let_def)
  qed
qed

lemma write_loop_table:
  assumes "fd_ok fd" and "t ! slot_of fd = File sv a cur" and "kept t s" and "d \<le> length buf"
  shows "\<exists>r s' n. write_loop fd sv cur d buf s = Some (r, s') \<and> d + n \<le> length buf \<and>
    moved fd t n s' \<and> (r = Inr (d + n) \<or> d = 0 \<and> n = 0 \<and> (\<exists>e. r = Inl e))"
  using assms
proof (induction "length buf - d" arbitrary: d t cur s rule: less_induct)
  case less
  note fd = less.prems(1) and slot = less.prems(2) and k = less.prems(3)
  show ?case
  proof (cases "d < length buf")
    case False
    then show ?thesis using less.prems(4) moved_0 [OF slot k]
      by (intro exI [of _ "Inr d"] exI [of _ s] exI [of _ 0]) (simp add: write_loop.simps)
  next
    case True
    from fd slot k True show ?thesis
    proof (cases rule: write_loop_step)
      case (stop e s1)
      then show ?thesis using True moved_0 [OF slot stop(2)]
        by (intro exI [of _ "keep_or d e"] exI [of _ s1] exI [of _ 0]) (auto simp: keep_or_def)
    next
      case (step n s2)
      let ?t = "t[slot_of fd := File sv a (cur + of_nat n)]"
      have dn: "d + n \<le> length buf" using step(1) True by auto
      show ?thesis
      proof (cases "n < min (length buf - d) DATA_LEN")
        case True
        have "moved fd t n s2" using step(2) slot by (simp add: moved_def)
        then show ?thesis using True step dn
          by (intro exI [of _ "Inr (d + n)"] exI [of _ s2] exI [of _ n]) simp
      next
        case False
        then have pos: "0 < n" using chunk_pos [OF \<open>d < length buf\<close>] by linarith
        have slot': "?t ! slot_of fd = File sv a (cur + of_nat n)" using kept_slot [OF k fd] by simp
        have "length buf - (d + n) < length buf - d" using dn pos True by simp
        from less.hyps [OF this fd slot' step(2)] obtain r s' m
          where ih: "write_loop fd sv (cur + of_nat n) (d + n) buf s2 = Some (r, s')"
          "d + n + m \<le> length buf" "moved fd ?t m s'" "r = Inr (d + n + m)"
          using dn pos by fastforce
        moreover have "write_loop fd sv cur d buf s = write_loop fd sv (cur + of_nat n) (d + n) buf s2"
          using step(3) False by (simp only: if_False)
        ultimately show ?thesis using dn moved_step [OF slot kept_slot [OF k fd] ih(3)]
          by (intro exI [of _ r] exI [of _ s'] exI [of _ "n + m"]) (simp add: add.assoc)
      qed
    qed
  qed
qed

text \<open>Whole calls. \<open>transferred\<close> relates the result of a transfer of at most \<open>len\<close> bytes
  to the table.\<close>

definition transferred :: "(Access \<Rightarrow> bool) \<Rightarrow> Fd \<Rightarrow> nat \<Rightarrow> Slot list \<Rightarrow> errno + nat \<Rightarrow> 'cx Files \<Rightarrow> bool" where
  "transferred allowed fd len t r s \<longleftrightarrow>
     (case r of Inl e \<Rightarrow> kept t s
      | Inr n \<Rightarrow> n \<le> len \<and> moved fd t n s) \<and>
     (case t ! slot_of fd of File sv a cur \<Rightarrow> \<not> allowed a \<longrightarrow> r = Inl EACCES | _ \<Rightarrow> r = Inl EBADF)"

lemma live_kept:
  assumes "fd_ok fd" and "kept t s"
  shows "and_then idle (\<lambda>_. live fd) s =
    (case t ! slot_of fd of File sv a cur \<Rightarrow> Some (Inr (sv, a, cur), s) | _ \<Rightarrow> Some (Inl EBADF, s))"
  using assms index_slot [OF assms(1)]
  by (auto simp: and_then_def idle_def live_def slot_at_def ok_def err_def kept_def files_inv_def split: Slot.splits)

lemma moved_0_kept: "moved fd t 0 s \<Longrightarrow> kept t s"
  by (auto simp: moved_def split: Slot.splits) (metis list_update_id)

lemma read_table:
  assumes "fd_ok fd" and "kept t s"
  obtains r buf' s' where "Files_read fd buf s = Some (r, buf', s')" "transferred can_read fd (length buf) t r s'"
    "length buf' = length buf" "\<And>n. r = Inr n \<Longrightarrow> drop n buf' = drop n buf" "\<And>e. r = Inl e \<Longrightarrow> buf' = buf"
proof (cases "t ! slot_of fd")
  case (File sv a cur)
  show ?thesis
  proof (cases "can_read a \<and> buf \<noteq> []")
    case True
    then have "Files_read fd buf s = read_loop fd sv cur 0 buf s"
      using File by (simp add: Files_read_def live_kept [OF assms])
    then show ?thesis
      using that read_loop_table [OF assms(1) File assms(2), of 0 buf] True File
      by (auto simp: transferred_def dest: moved_0_kept)
  next
    case False
    then have "Files_read fd buf s = Some (if can_read a then Inr 0 else Inl EACCES, buf, s)"
      using File by (auto simp: Files_read_def live_kept [OF assms])
    then show ?thesis
      by (rule that) (use File assms(2) moved_0 [OF File assms(2)] in \<open>simp_all add: transferred_def\<close>)
  qed
next
  case Empty
  show ?thesis by (rule that [of "Inl EBADF" buf s])
      (use Empty assms(2) in \<open>simp_all add: Files_read_def live_kept [OF assms] transferred_def\<close>)
next
  case (Dir sv)
  show ?thesis by (rule that [of "Inl EBADF" buf s])
      (use Dir assms(2) in \<open>simp_all add: Files_read_def live_kept [OF assms] transferred_def\<close>)
qed

lemma write_live:
  "Files_write fd buf s =
     (case and_then idle (\<lambda>_. live fd) s of
        None \<Rightarrow> None
      | Some (Inl e, s') \<Rightarrow> Some (Inl e, s')
      | Some (Inr (sv, a, cur), s') \<Rightarrow>
          (if \<not> can_write a then err EACCES else if buf = [] then ok 0 else write_loop fd sv cur 0 buf) s')"
  unfolding Files_write_def and_then_assoc [symmetric]
  by (subst and_then_def) (auto split: option.splits sum.splits)

lemma write_table:
  assumes "fd_ok fd" and "kept t s"
  obtains r s' where "Files_write fd buf s = Some (r, s')" "transferred can_write fd (length buf) t r s'"
proof (cases "t ! slot_of fd")
  case (File sv a cur)
  have w: "Files_write fd buf s = (if \<not> can_write a then Some (Inl EACCES, s) else if buf = [] then Some (Inr 0, s)
      else write_loop fd sv cur 0 buf s)"
    using live_kept [OF assms] File by (simp add: write_live err_def ok_def)
  show ?thesis
  proof (cases "can_write a \<and> buf \<noteq> []")
    case True
    then show ?thesis
      using that write_loop_table [OF assms(1) File assms(2), of 0 buf] File w
      by (auto simp: transferred_def dest: moved_0_kept)
  next
    case False
    then have "Files_write fd buf s = Some (if can_write a then Inr 0 else Inl EACCES, s)" using w by auto
    then show ?thesis
      by (rule that) (use File assms(2) moved_0 [OF File assms(2)] in \<open>simp_all add: transferred_def\<close>)
  qed
next
  case Empty
  show ?thesis by (rule that [of "Inl EBADF" s])
      (use Empty assms(2) live_kept [OF assms] in \<open>simp_all add: write_live transferred_def\<close>)
next
  case (Dir sv)
  show ?thesis by (rule that [of "Inl EBADF" s])
      (use Dir assms(2) live_kept [OF assms] in \<open>simp_all add: write_live transferred_def\<close>)
qed

end
