(* ===== verification/PosixRun.thy ===== *)
theory PosixRun
  imports PosixInv
begin

text \<open>
  Properties of whole runs of the file client: sequences of calls against an arbitrary peer, and
  calls against a peer that serves one command per wake.
\<close>

datatype files_call =
    Call_open "u8 list" Open
  | Call_open_dir "u8 list"
  | Call_read_dir Fd "u8 list"
  | Call_read Fd "u8 list"
  | Call_write Fd "u8 list"
  | Call_mkdir "u8 list"
  | Call_unlink "u8 list"
  | Call_rename "u8 list" "u8 list"
  | Call_stat "u8 list"
  | Call_close Fd
  | Call_close_dir Fd

text \<open>\<open>files_exec\<close> runs a call and keeps only whether it failed.\<close>

fun verdict :: "(('e + 'a) \<times> 's) option \<Rightarrow> (('e + unit) \<times> 's) option" where
  "verdict None = None"
| "verdict (Some (Inl e, s)) = Some (Inl e, s)"
| "verdict (Some (Inr x, s)) = Some (Inr (), s)"

fun files_exec :: "files_call \<Rightarrow> 'cx Files \<Rightarrow> ((errno + unit) \<times> 'cx Files) option" where
  "files_exec (Call_open path how) s = verdict (Files_open path how s)"
| "files_exec (Call_open_dir path) s = verdict (Files_open_dir path s)"
| "files_exec (Call_read_dir fd buf) s = verdict (Files_read_dir fd buf s)"
| "files_exec (Call_read fd buf) s = verdict (map_option (\<lambda>(r, buf', s'). (r, s')) (Files_read fd buf s))"
| "files_exec (Call_write fd buf) s = verdict (Files_write fd buf s)"
| "files_exec (Call_mkdir path) s = verdict (Files_mkdir path s)"
| "files_exec (Call_unlink path) s = verdict (Files_unlink path s)"
| "files_exec (Call_rename old new) s = verdict (Files_rename old new s)"
| "files_exec (Call_stat path) s = verdict (Files_stat path s)"
| "files_exec (Call_close fd) s = verdict (Files_close fd s)"
| "files_exec (Call_close_dir fd) s = verdict (Files_close_dir fd s)"

fun call_fd_ok :: "files_call \<Rightarrow> bool" where
  "call_fd_ok (Call_read_dir fd _) = fd_ok fd"
| "call_fd_ok (Call_read fd _) = fd_ok fd"
| "call_fd_ok (Call_write fd _) = fd_ok fd"
| "call_fd_ok (Call_close fd) = fd_ok fd"
| "call_fd_ok (Call_close_dir fd) = fd_ok fd"
| "call_fd_ok _ = True"

fun files_run :: "files_call list \<Rightarrow> 'cx Files \<Rightarrow> 'cx Files option" where
  "files_run [] s = Some s"
| "files_run (c # cs) s = (case files_exec c s of None \<Rightarrow> None | Some (_, s') \<Rightarrow> files_run cs s')"

lemma verdict_returns:
  assumes "returns (kept (f_slots s)) m Q" and "files_inv s" and "\<And>r s'. Q r s' \<Longrightarrow> files_inv s'"
  shows "\<exists>r s'. verdict (m s) = Some (r, s') \<and> files_inv s'"
proof -
  have "kept (f_slots s) s" using assms(2) by (simp add: kept_def)
  with assms(1) obtain r s' where "m s = Some (r, s')" "Q r s'" by (rule returnsE)
  then show ?thesis using assms(3) by (cases r) auto
qed

lemma transferred_inv: "transferred allowed fd len t r s \<Longrightarrow> files_inv s"
  by (auto simp: transferred_def moved_def kept_def split: sum.splits Slot.splits)

lemma opened_inv: "opened mk t r s \<Longrightarrow> files_inv s"
  by (auto simp: opened_def kept_def split: sum.splits)

lemma closed_inv: "closed fd t r s \<Longrightarrow> files_inv s"
  by (auto simp: closed_def kept_def)

lemma kept_inv: "kept t s \<Longrightarrow> files_inv s"
  by (simp add: kept_def)

lemma close_post_inv:
  "(case sl of File _ _ _ \<Rightarrow> closed fd t r s | _ \<Rightarrow> kept t s \<and> r = Inl EBADF) \<Longrightarrow> files_inv s"
  by (auto dest: closed_inv kept_inv split: Slot.splits)

lemma close_dir_post_inv:
  "(case sl of Dir _ \<Rightarrow> closed fd t r s | _ \<Rightarrow> kept t s \<and> r = Inl EBADF) \<Longrightarrow> files_inv s"
  by (auto dest: closed_inv kept_inv split: Slot.splits)

lemma files_exec_inv:
  assumes inv: "files_inv s" and ok: "call_fd_ok c"
  shows "\<exists>r s'. files_exec c s = Some (r, s') \<and> files_inv s'"
proof (cases c)
  case (Call_read fd buf)
  then have fd: "fd_ok fd" and k: "kept (f_slots s) s" using ok inv by (simp_all add: kept_def)
  obtain r buf' s' where "Files_read fd buf s = Some (r, buf', s')" "transferred can_read fd (length buf) (f_slots s) r s'"
    using fd k by (rule read_table)
  then show ?thesis using Call_read by (cases r) (auto dest: transferred_inv)
next
  case (Call_write fd buf)
  then have fd: "fd_ok fd" and k: "kept (f_slots s) s" using ok inv by (simp_all add: kept_def)
  obtain r s' where "Files_write fd buf s = Some (r, s')" "transferred can_write fd (length buf) (f_slots s) r s'"
    using fd k by (rule write_table)
  then show ?thesis using Call_write by (cases r) (auto dest: transferred_inv)
next
  case (Call_open path how)
  then show ?thesis using verdict_returns [of s "Files_open path how", OF open_table inv opened_inv] by simp
next
  case (Call_open_dir path)
  then show ?thesis using verdict_returns [of s "Files_open_dir path", OF open_dir_table inv opened_inv] by simp
next
  case (Call_mkdir path)
  then show ?thesis using verdict_returns [of s "Files_mkdir path", OF mkdir_kept inv kept_inv] by simp
next
  case (Call_unlink path)
  then show ?thesis using verdict_returns [of s "Files_unlink path", OF unlink_kept inv kept_inv] by simp
next
  case (Call_rename old new)
  then show ?thesis using verdict_returns [of s "Files_rename old new", OF rename_kept inv kept_inv] by simp
next
  case (Call_stat path)
  then show ?thesis using verdict_returns [of s "Files_stat path", OF stat_kept inv kept_inv] by simp
next
  case (Call_read_dir fd buf)
  then have fd: "fd_ok fd" using ok by simp
  show ?thesis using verdict_returns [of s "Files_read_dir fd buf", OF read_dir_kept [OF fd] inv kept_inv] \<open>c = Call_read_dir fd buf\<close> by simp
next
  case (Call_close fd)
  then have fd: "fd_ok fd" using ok by simp
  show ?thesis using verdict_returns [of s "Files_close fd", OF close_table [OF fd] inv close_post_inv] \<open>c = Call_close fd\<close> by simp
next
  case (Call_close_dir fd)
  then have fd: "fd_ok fd" using ok by simp
  show ?thesis using verdict_returns [of s "Files_close_dir fd", OF close_dir_table [OF fd] inv close_dir_post_inv] \<open>c = Call_close_dir fd\<close> by simp
qed

lemma files_run_inv:
  "files_inv s \<Longrightarrow> list_all call_fd_ok cs \<Longrightarrow> \<exists>s'. files_run cs s = Some s' \<and> files_inv s'"
proof (induction cs arbitrary: s)
  case (Cons c cs)
  then obtain r s1 where "files_exec c s = Some (r, s1)" "files_inv s1" using files_exec_inv [of s c] by auto
  then show ?case using Cons by simp
qed simp

subsection \<open>A peer that serves one command per wake\<close>

text \<open>\<open>serve h\<close> takes one command, lets the server \<open>h\<close> answer it with a status, a data word
  and effects on the share and its own state, and queues the completion.\<close>

definition serve :: "(fs_cmd_t \<Rightarrow> mem \<Rightarrow> 'cx \<Rightarrow> u64 \<times> u64 \<times> mem \<times> 'cx) \<Rightarrow> 'cx world \<Rightarrow> 'cx world" where
  "serve h w =
     (case fs_message_dequeue (w_command w) (msg_of_cmd zeroed_command) of (got, msg, cq) \<Rightarrow>
        if got \<noteq> 0 then w
        else case h (msg_cmd msg) (w_share w) (w_cx w) of (status, d, m, cx) \<Rightarrow>
          w\<lparr>w_command := cq,
            w_completion := snd (fs_completion_enqueue (w_completion w)
              \<lparr>cmpl_id = cmd_id (msg_cmd msg), cmpl_status = status, cmpl_data = d\<rparr>),
            w_share := m, w_cx := cx\<rparr>)"

definition ring_idle :: "fs_queue_t \<Rightarrow> bool" where
  "ring_idle q \<longleftrightarrow> fq_head q = fq_tail q \<and> length (fq_buffer q) = FS_QUEUE_CAPACITY"

definition served_by :: "(fs_cmd_t \<Rightarrow> mem \<Rightarrow> 'cx \<Rightarrow> u64 \<times> u64 \<times> mem \<times> 'cx) \<Rightarrow> 'cx Files \<Rightarrow> bool" where
  "served_by h s \<longleftrightarrow> f_wake s = serve h \<and> ring_idle (w_command (f_world s)) \<and> ring_idle (w_completion (f_world s))"

lemma ring_idle_slot: "unat (ring_index (x :: u64) (of_nat FS_QUEUE_CAPACITY)) < FS_QUEUE_CAPACITY"
  by (simp add: ring_index_def unat_mod FS_QUEUE_CAPACITY_def)

lemma ring_roundtrip:
  assumes "ring_idle q"
  shows "\<exists>q'. fs_command_enqueue q c = (0, q') \<and>
      (\<exists>q''. fs_message_dequeue q' out = (0, msg_of_cmd c, q'') \<and> ring_idle q'')"
    and "\<exists>q'. fs_completion_enqueue q d = (0, q') \<and>
      (\<exists>q''. fs_message_dequeue q' out = (0, msg_of_cmpl d, q'') \<and> ring_idle q'')"
  using assms ring_idle_slot [of "fq_tail q"]
  by (auto simp: fs_queue_defs Let_def ring_idle_def ring_is_full_def ring_is_empty_def ring_len_def
      ring_advance_tail_def ring_advance_head_def ring_advance_def FS_QUEUE_CAPACITY_def)

lemma exchange_served:
  assumes "served_by h s" and "kept t s"
    and "h (cmd\<lparr>cmd_id := f_next_id s\<rparr>) (w_share (f_world s)) (w_cx (f_world s)) = (status, d, m, cx)"
  obtains s' where "exchange cmd s = Some (Inr \<lparr>cmpl_id = f_next_id s, cmpl_status = status, cmpl_data = d\<rparr>, s')"
    "served_by h s'" "kept t s'" "w_share (f_world s') = m" "w_cx (f_world s') = cx"
proof -
  let ?cmd = "cmd\<lparr>cmd_id := f_next_id s\<rparr>" and ?out = "msg_of_cmd zeroed_command"
  let ?cmpl = "\<lparr>cmpl_id = f_next_id s, cmpl_status = status, cmpl_data = d\<rparr>"
  obtain q q2 where q: "fs_command_enqueue (w_command (f_world s)) ?cmd = (0, q)"
    "fs_message_dequeue q ?out = (0, msg_of_cmd ?cmd, q2)" "ring_idle q2"
    using ring_roundtrip(1) [of "w_command (f_world s)" ?cmd ?out] assms(1) by (auto simp: served_by_def)
  obtain p p2 where p: "fs_completion_enqueue (w_completion (f_world s)) ?cmpl = (0, p)"
    "fs_message_dequeue p ?out = (0, msg_of_cmpl ?cmpl, p2)" "ring_idle p2"
    using ring_roundtrip(2) [of "w_completion (f_world s)" ?cmpl ?out] assms(1) by (auto simp: served_by_def)
  define w where "w = (f_world s)\<lparr>w_command := q2, w_completion := p2, w_share := m, w_cx := cx\<rparr>"
  define s' where "s' = s\<lparr>f_world := w, f_next_id := next_of (f_next_id s), f_flight := Idle\<rparr>"
  have "exchange cmd s = Some (Inr ?cmpl, s')"
    using assms q p unfolding s'_def w_def
    by (simp add: exchange_def alloc_id_def numeral_2_eq_2 take_match_def run_wake_def serve_def served_by_def
        kept_def files_inv_def next_of_def ok_def)
  then show ?thesis
    using that [of s'] assms q p by (auto simp: s'_def w_def served_by_def kept_def files_inv_def)
qed

lemma unat_small: "k \<le> DATA_LEN \<Longrightarrow> unat (of_nat k :: u64) = k" "unat (of_nat DATA_AT :: u64) = DATA_AT"
  by (simp_all add: DATA_LEN_def SHARE_MIN_def DATA_AT_def unat_of_nat)

lemma map_status_success [simp]: "map_status FS_STATUS_SUCCESS = Inr ()"
  by (simp add: map_status_def)

lemma completed_len_small: "n \<le> chunk \<Longrightarrow> chunk \<le> DATA_LEN \<Longrightarrow> completed_len (of_nat n) chunk = Some n"
  using unat_small(1) [of n] by (simp add: completed_len_def)

lemma set_cursor_served:
  assumes "fd_ok fd" and "t ! slot_of fd = File sv a cur" and "kept t s" and "served_by h s"
  obtains s' where "set_cursor fd c s = Some (Inr (), s')" "kept (t[slot_of fd := File sv a c]) s'"
    "served_by h s'" "w_cx (f_world s') = w_cx (f_world s)"
  using set_cursor_kept [OF assms(1,2,3)] assms(4) by (metis served_by_def)

lemma put_share_served [simp]:
  "served_by h (put_share pos bytes s) = served_by h s" "w_cx (f_world (put_share pos bytes s)) = w_cx (f_world s)"
  "w_share (f_world (put_share pos bytes s)) = mem_put pos bytes (w_share (f_world s))"
  "f_next_id (put_share pos bytes s) = f_next_id s"
  by (simp_all add: put_share_def served_by_def)

subsection \<open>Properties\<close>

text \<open>C6: Against any peer, a client bound by \<open>bind\<close> never panics, whatever sequence of calls
  it makes with descriptors between 3 and 127: every call returns, and no command is left in
  flight, so no call ever fails with \<open>EBUSY\<close> for an earlier one.\<close>

theorem files_calls_always_return:
  assumes "bind cq pq m len wk cx = Inr s" and "list_all call_fd_ok cs"
  shows "\<exists>s'. files_run cs s = Some s' \<and> f_flight s' = Idle \<and> length (f_slots s') = TABLE_LEN"
  using files_run_inv [OF bind_inv(1) [OF assms(1)] assms(2)] by (auto simp: files_inv_def)

text \<open>\<open>open\<close> returns the descriptor of the first free slot, a number between 3 and 127, and
  stores the file there with its cursor at 0; a failed open leaves the table as it was, and a
  full table fails with \<open>EMFILE\<close> before anything is sent.\<close>

theorem open_takes_first_free_descriptor:
  assumes "files_inv s"
  shows "\<exists>r s'. Files_open path how s = Some (r, s') \<and>
    (case r of
       Inl e \<Rightarrow> f_slots s' = f_slots s
     | Inr fd \<Rightarrow> 3 \<le> number fd \<and> number fd \<le> 127 \<and> first_free (f_slots s) (slot_of fd) \<and>
         (\<exists>sv. f_slots s' = (f_slots s)[slot_of fd := File sv (access_of how) 0])) \<and>
    (Empty \<notin> set (f_slots s) \<longrightarrow> r = Inl EMFILE \<and> s' = s)"
proof -
  have k: "kept (f_slots s) s" using assms by (simp add: kept_def)
  obtain r s' where o: "Files_open path how s = Some (r, s')" "opened (\<lambda>sv. File sv (access_of how) 0) (f_slots s) r s'"
    using open_table k by (rule returnsE)
  have "r = Inl EMFILE \<and> s' = s" if "Empty \<notin> set (f_slots s)"
    using o(1) that assms first_empty_None [of s]
    by (auto simp: Files_open_def and_then_def idle_def claim_slot_def ok_def err_def files_inv_def)
  then show ?thesis using o by (auto simp: opened_def kept_def fd_ok_def split: sum.splits)
qed

text \<open>Closing an open file frees its slot whenever the peer completed the command, even with
  a failure status; only a missing completion (\<open>FILE_ERR\<close>) or a full command ring (\<open>ENOMEM\<close>)
  leaves the table unchanged. A second close of a freed descriptor fails with \<open>EBADF\<close> and
  sends nothing.\<close>

theorem close_frees_the_descriptor:
  assumes "files_inv s" and "fd_ok fd" and "f_slots s ! slot_of fd = File sv a cur"
  shows "\<exists>r s'. Files_close fd s = Some (r, s') \<and>
    (f_slots s' = (f_slots s)[slot_of fd := Empty] \<and> Files_close fd s' = Some (Inl EBADF, s') \<or>
     f_slots s' = f_slots s \<and> (r = Inl FILE_ERR \<or> r = Inl ENOMEM))"
proof -
  have k: "kept (f_slots s) s" using assms by (simp add: kept_def)
  obtain r s' where c: "Files_close fd s = Some (r, s')" "closed fd (f_slots s) r s'"
    using close_table [OF assms(2)] k by (rule returnsE) (use assms(3) in simp)
  have "Files_close fd s' = Some (Inl EBADF, s')" if k': "kept ((f_slots s)[slot_of fd := Empty]) s'"
  proof -
    have "slot_of fd < length (f_slots s)" using k assms(2) by (rule kept_slot)
    then show ?thesis using k' assms(2)
      by (auto simp: Files_close_def and_then_def idle_def slot_at_def ok_def err_def index_slot kept_def files_inv_def)
  qed
  then show ?thesis using c by (auto simp: closed_def kept_def)
qed

text \<open>C8: Whatever the peer answers, \<open>read\<close> never reports more bytes than the buffer has,
  touches no byte of the buffer beyond the count it reports, and advances the cursor of its
  descriptor by exactly that count; on an error the buffer and the table are unchanged. A
  descriptor that is not an open file gives \<open>EBADF\<close>, one without read access \<open>EACCES\<close>.\<close>

theorem read_stays_in_the_buffer:
  assumes "files_inv s" and "fd_ok fd"
  shows "\<exists>r buf' s'. Files_read fd buf s = Some (r, buf', s') \<and> length buf' = length buf \<and>
    (case r of Inl e \<Rightarrow> buf' = buf \<and> f_slots s' = f_slots s
     | Inr n \<Rightarrow> n \<le> length buf \<and> drop n buf' = drop n buf \<and>
         (\<exists>sv a cur. f_slots s ! slot_of fd = File sv a cur \<and> can_read a \<and>
            f_slots s' = (f_slots s)[slot_of fd := File sv a (cur + of_nat n)])) \<and>
    (case f_slots s ! slot_of fd of File sv a cur \<Rightarrow> \<not> can_read a \<longrightarrow> r = Inl EACCES | _ \<Rightarrow> r = Inl EBADF)"
proof -
  have k: "kept (f_slots s) s" using assms by (simp add: kept_def)
  show ?thesis
  proof (rule read_table [OF assms(2) k, of buf], goal_cases)
    case (1 r buf' s')
    then show ?thesis by (cases r) (auto simp: transferred_def moved_def kept_def split: Slot.splits)
  qed
qed

subsection \<open>Witnesses\<close>

text \<open>A server that keeps a file and rejects every other command, and a client with that server,
  one descriptor open for writing and one for reading, both at offset 1.\<close>

definition file_handler :: "fs_cmd_t \<Rightarrow> mem \<Rightarrow> u8 list \<Rightarrow> u64 \<times> u64 \<times> mem \<times> u8 list" where
  "file_handler c m f =
     (let off = unat (param_word (cmd_params c) 1); b = param_buffer (cmd_params c) 2;
        pos = unat (fb_offset b); len = unat (fb_size b)
      in if cmd_type c = FS_CMD_FILE_READ then
           (FS_STATUS_SUCCESS, of_nat (min len (length f - off)), mem_put pos (take len (drop off f)) m, f)
         else if cmd_type c = FS_CMD_FILE_WRITE then
           (FS_STATUS_SUCCESS, of_nat len, m, take off f @ mem_get pos len m @ drop (off + len) f)
         else (FS_STATUS_INVALID_COMMAND, 0, m, f))"

definition sample_files :: "u8 list Files" where
  "sample_files = \<lparr>f_world = \<lparr>w_command = fs_queue_empty, w_completion = fs_queue_empty, w_share = (\<lambda>_. 0),
      w_cx = [1, 2, 3, 4, 5]\<rparr>,
    f_share_len = 0x8000, f_wake = serve file_handler, f_next_id = 1, f_flight = Idle,
    f_slots = File 7 AWrite 1 # File 7 ARead 1 # replicate 123 Empty\<rparr>"

lemma sample_files_inv: "files_inv sample_files"
  by (simp add: sample_files_def files_inv_def SHARE_MIN_def)

lemma sample_fds: "fd_ok (Fd 3)" "fd_ok (Fd 4)" "slot_of (Fd 3) = 0" "slot_of (Fd 4) = 1"
  by (simp_all add: fd_ok_def slot_of_def number_def)

lemmas sample_facts = sample_files_inv sample_fds

theorem files_calls_always_return_witness:
  "\<exists>s'. files_run [Call_open [0x61] Read, Call_close (Fd 3), Call_read (Fd 127) [0]]
      (projr (bind (Some fs_queue_empty) (Some fs_queue_empty) (Some (\<lambda>_. 0)) 0x8000 (\<lambda>w. w) ())) = Some s' \<and>
    f_flight s' = Idle \<and> length (f_slots s') = TABLE_LEN"
  by (rule files_calls_always_return [where cq = "Some fs_queue_empty" and pq = "Some fs_queue_empty"
        and m = "Some (\<lambda>_. 0)" and len = "0x8000" and wk = "\<lambda>w. w" and cx = "()"])
    (simp_all add: bind_def SHARE_MIN_def fd_ok_def number_def)

theorem open_takes_first_free_descriptor_witness:
  "\<exists>r s'. Files_open [0x61] Read sample_files = Some (r, s') \<and>
    (case r of
       Inl e \<Rightarrow> f_slots s' = f_slots sample_files
     | Inr fd \<Rightarrow> 3 \<le> number fd \<and> number fd \<le> 127 \<and> first_free (f_slots sample_files) (slot_of fd) \<and>
         (\<exists>sv. f_slots s' = (f_slots sample_files)[slot_of fd := File sv (access_of Read) 0])) \<and>
    (Empty \<notin> set (f_slots sample_files) \<longrightarrow> r = Inl EMFILE \<and> s' = sample_files)"
  by (rule open_takes_first_free_descriptor) (rule sample_files_inv)

theorem close_frees_the_descriptor_witness:
  "\<exists>r s'. Files_close (Fd 3) sample_files = Some (r, s') \<and>
    (f_slots s' = (f_slots sample_files)[slot_of (Fd 3) := Empty] \<and> Files_close (Fd 3) s' = Some (Inl EBADF, s') \<or>
     f_slots s' = f_slots sample_files \<and> (r = Inl FILE_ERR \<or> r = Inl ENOMEM))"
  by (rule close_frees_the_descriptor [where sv = 7 and a = AWrite and cur = 1])
    (simp_all add: sample_facts, simp add: sample_files_def)

theorem read_stays_in_the_buffer_witness:
  "\<exists>r buf' s'. Files_read (Fd 4) [0 :: u8, 0] sample_files = Some (r, buf', s') \<and> length buf' = length [0 :: u8, 0] \<and>
    (case r of Inl e \<Rightarrow> buf' = [0 :: u8, 0] \<and> f_slots s' = f_slots sample_files
     | Inr n \<Rightarrow> n \<le> length [0 :: u8, 0] \<and> drop n buf' = drop n [0 :: u8, 0] \<and>
         (\<exists>sv a cur. f_slots sample_files ! slot_of (Fd 4) = File sv a cur \<and> can_read a \<and>
            f_slots s' = (f_slots sample_files)[slot_of (Fd 4) := File sv a (cur + of_nat n)])) \<and>
    (case f_slots sample_files ! slot_of (Fd 4) of File sv a cur \<Rightarrow> \<not> can_read a \<longrightarrow> r = Inl EACCES | _ \<Rightarrow> r = Inl EBADF)"
  by (rule read_stays_in_the_buffer [OF sample_files_inv sample_fds(2)])

end
