(* ===== verification/Sockets.thy ===== *)
theory Sockets
  imports Posix
begin

text \<open>
  The socket table of \<open>lerux-posix/src/socket.rs\<close>: one TCP socket, its phase, and the calls
  that wait on a caller's pipe. The trait \<open>Tcp\<close> is the record \<open>Tcp\<close> of the caller's
  functions on the state of the pipe, a parameter of every call.

  The waiting loops run until the pipe answers or its poll reports that the time budget is
  spent. Nothing in the code bounds them otherwise, so they are partial functions: \<open>None\<close> is
  a call that never returns.
\<close>

record 't Tcp =
  tcp_start :: "'t \<Rightarrow> 't"
  tcp_poll :: "'t \<Rightarrow> bool \<times> 't"
  tcp_connect :: "u8 list \<Rightarrow> u16 \<Rightarrow> 't \<Rightarrow> (errno + unit) \<times> 't"
  tcp_ready :: "'t \<Rightarrow> bool"
  tcp_failed :: "'t \<Rightarrow> bool"
  tcp_send :: "u8 list \<Rightarrow> 't \<Rightarrow> (errno + nat) \<times> 't"
  tcp_recv :: "u8 list \<Rightarrow> 't \<Rightarrow> (errno + nat) \<times> u8 list \<times> 't"
  tcp_listen :: "u16 \<Rightarrow> 't \<Rightarrow> (errno + unit) \<times> 't"
  tcp_shutdown :: "'t \<Rightarrow> (errno + bool) \<times> 't"
  tcp_finish :: "'t \<Rightarrow> 't"

text \<open>The default methods of the trait.\<close>

definition default_listen :: "u16 \<Rightarrow> 't \<Rightarrow> (errno + unit) \<times> 't" where
  "default_listen port t = (Inl EOPNOTSUPP, t)"

definition default_shutdown :: "'t \<Rightarrow> (errno + bool) \<times> 't" where
  "default_shutdown t = (Inr True, t)"

definition default_finish :: "'t \<Rightarrow> 't" where
  "default_finish t = t"

datatype Phase = PEmpty | PIdle | Listening | Connecting | POpen | PClosed

datatype SockFd = SockFd u8

definition sock_number :: "SockFd \<Rightarrow> int" where
  "sock_number fd = (case fd of SockFd n \<Rightarrow> uint n)"

record 't Sockets =
  so_tcp :: 't
  so_phase :: Phase
  so_fd :: u8

definition Sockets_new :: "'t \<Rightarrow> 't Sockets" where
  "Sockets_new tcp = \<lparr>so_tcp = tcp, so_phase = PEmpty, so_fd = 3\<rparr>"

definition Sockets_socket :: "'t Sockets \<Rightarrow> (errno + SockFd) \<times> 't Sockets" where
  "Sockets_socket s =
     (if so_phase s \<noteq> PEmpty then (Inl EMFILE, s)
      else (Inr (SockFd (so_fd s)), s\<lparr>so_phase := PIdle\<rparr>))"

definition sock_live :: "SockFd \<Rightarrow> 't Sockets \<Rightarrow> errno + unit" where
  "sock_live fd s = (case fd of SockFd n \<Rightarrow> if n = so_fd s then Inr () else Inl EBADF)"

definition sock_open :: "SockFd \<Rightarrow> 't Sockets \<Rightarrow> errno + unit" where
  "sock_open fd s =
     (case sock_live fd s of Inl e \<Rightarrow> Inl e
      | Inr _ \<Rightarrow> if so_phase s = POpen then Inr () else Inl ENOTCONN)"

definition on_tcp :: "('t \<Rightarrow> 't) \<Rightarrow> 't Sockets \<Rightarrow> 't Sockets" where
  "on_tcp f s = s\<lparr>so_tcp := f (so_tcp s)\<rparr>"

definition poll :: "'t Tcp \<Rightarrow> 't Sockets \<Rightarrow> bool \<times> 't Sockets" where
  "poll tcp s = (case tcp_poll tcp (so_tcp s) of (b, t) \<Rightarrow> (b, s\<lparr>so_tcp := t\<rparr>))"

partial_function (option) wait_until_open :: "'t Tcp \<Rightarrow> 't Sockets \<Rightarrow> ((errno + unit) \<times> 't Sockets) option" where
  "wait_until_open tcp s =
     (if tcp_ready tcp (so_tcp s) then Some (Inr (), s\<lparr>so_phase := POpen\<rparr>)
      else if tcp_failed tcp (so_tcp s) then Some (Inl ECONNREFUSED, s\<lparr>so_phase := PClosed\<rparr>)
      else case poll tcp s of (again, s1) \<Rightarrow>
        if \<not> again then Some (Inl ETIMEDOUT, s1\<lparr>so_phase := PClosed\<rparr>)
        else wait_until_open tcp s1)"

definition Sockets_connect ::
    "'t Tcp \<Rightarrow> SockFd \<Rightarrow> u8 list \<Rightarrow> u16 \<Rightarrow> 't Sockets \<Rightarrow> ((errno + unit) \<times> 't Sockets) option" where
  "Sockets_connect tcp fd addr port s =
     (case sock_live fd s of Inl e \<Rightarrow> Some (Inl e, s)
      | Inr _ \<Rightarrow>
          (case so_phase s of
             POpen \<Rightarrow> Some (Inl EISCONN, s)
           | Connecting \<Rightarrow> Some (Inl EISCONN, s)
           | Listening \<Rightarrow> Some (Inl EINVAL, s)
           | PEmpty \<Rightarrow> Some (Inl ENOTCONN, s)
           | PClosed \<Rightarrow> Some (Inl ENOTCONN, s)
           | PIdle \<Rightarrow>
               let s1 = on_tcp (tcp_start tcp) s
               in case tcp_connect tcp addr port (so_tcp s1) of
                    (Inl e, t) \<Rightarrow> Some (Inl e, s1\<lparr>so_tcp := t\<rparr>)
                  | (Inr _, t) \<Rightarrow> wait_until_open tcp (s1\<lparr>so_tcp := t, so_phase := Connecting\<rparr>)))"

definition Sockets_listen :: "'t Tcp \<Rightarrow> SockFd \<Rightarrow> u16 \<Rightarrow> 't Sockets \<Rightarrow> (errno + unit) \<times> 't Sockets" where
  "Sockets_listen tcp fd port s =
     (case sock_live fd s of Inl e \<Rightarrow> (Inl e, s)
      | Inr _ \<Rightarrow>
          if so_phase s \<noteq> PIdle then (Inl EINVAL, s)
          else case tcp_listen tcp port (so_tcp s) of
                 (Inl e, t) \<Rightarrow> (Inl e, s\<lparr>so_tcp := t\<rparr>)
               | (Inr _, t) \<Rightarrow> (Inr (), s\<lparr>so_tcp := t, so_phase := Listening\<rparr>))"

definition Sockets_accept :: "'t Tcp \<Rightarrow> SockFd \<Rightarrow> 't Sockets \<Rightarrow> ((errno + unit) \<times> 't Sockets) option" where
  "Sockets_accept tcp fd s =
     (case sock_live fd s of Inl e \<Rightarrow> Some (Inl e, s)
      | Inr _ \<Rightarrow>
          if so_phase s \<noteq> Listening then Some (Inl EINVAL, s)
          else wait_until_open tcp (on_tcp (tcp_start tcp) s))"

partial_function (option) send_loop ::
    "'t Tcp \<Rightarrow> u8 list \<Rightarrow> nat \<Rightarrow> 't Sockets \<Rightarrow> ((errno + nat) \<times> 't Sockets) option" where
  "send_loop tcp bytes sent s =
     (if bytes = [] then Some (Inr sent, s)
      else case tcp_send tcp bytes (so_tcp s) of (r, t) \<Rightarrow>
        let s1 = s\<lparr>so_tcp := t\<rparr>
        in if r = Inr 0 \<or> r = Inl EAGAIN then
             (case poll tcp s1 of (again, s2) \<Rightarrow>
                if \<not> again then Some (Inl ETIMEDOUT, s2) else send_loop tcp bytes sent s2)
           else case r of
                  Inl e \<Rightarrow> Some (Inl e, s1)
                | Inr n \<Rightarrow> let n' = min n (length bytes) in send_loop tcp (drop n' bytes) (sent + n') s1)"

definition Sockets_send :: "'t Tcp \<Rightarrow> SockFd \<Rightarrow> u8 list \<Rightarrow> 't Sockets \<Rightarrow> ((errno + nat) \<times> 't Sockets) option" where
  "Sockets_send tcp fd bytes s =
     (case sock_open fd s of Inl e \<Rightarrow> Some (Inl e, s)
      | Inr _ \<Rightarrow>
          if bytes = [] then Some (Inr 0, s)
          else send_loop tcp bytes 0 (on_tcp (tcp_start tcp) s))"

partial_function (option) shutdown_loop :: "'t Tcp \<Rightarrow> 't Sockets \<Rightarrow> ((errno + unit) \<times> 't Sockets) option" where
  "shutdown_loop tcp s =
     (case tcp_shutdown tcp (so_tcp s) of (r, t) \<Rightarrow>
        let s1 = s\<lparr>so_tcp := t\<rparr>
        in case r of
             Inl e \<Rightarrow> Some (Inl e, s1\<lparr>so_phase := PClosed\<rparr>)
           | Inr drained \<Rightarrow>
               if drained then Some (Inr (), s1\<lparr>so_phase := PClosed\<rparr>)
               else case poll tcp s1 of (again, s2) \<Rightarrow>
                 if \<not> again then Some (Inl ETIMEDOUT, s2\<lparr>so_phase := PClosed\<rparr>) else shutdown_loop tcp s2)"

definition Sockets_shutdown :: "'t Tcp \<Rightarrow> SockFd \<Rightarrow> 't Sockets \<Rightarrow> ((errno + unit) \<times> 't Sockets) option" where
  "Sockets_shutdown tcp fd s =
     (case sock_open fd s of Inl e \<Rightarrow> Some (Inl e, s)
      | Inr _ \<Rightarrow> shutdown_loop tcp (on_tcp (tcp_start tcp) s))"

definition Sockets_close :: "'t Tcp \<Rightarrow> SockFd \<Rightarrow> 't Sockets \<Rightarrow> (errno + unit) \<times> 't Sockets" where
  "Sockets_close tcp fd s =
     (case sock_live fd s of Inl e \<Rightarrow> (Inl e, s)
      | Inr _ \<Rightarrow>
          if so_phase s = PEmpty then (Inl EBADF, s)
          else (Inr (), (on_tcp (tcp_finish tcp) s)\<lparr>so_phase := PEmpty\<rparr>))"

partial_function (option) recv_loop ::
    "'t Tcp \<Rightarrow> u8 list \<Rightarrow> 't Sockets \<Rightarrow> ((errno + nat) \<times> u8 list \<times> 't Sockets) option" where
  "recv_loop tcp buf s =
     (case tcp_recv tcp buf (so_tcp s) of (r, buf', t) \<Rightarrow>
        let s1 = s\<lparr>so_tcp := t\<rparr>
        in case r of
             Inr n \<Rightarrow> if n = 0 then Some (Inr 0, buf', s1\<lparr>so_phase := PClosed\<rparr>) else Some (Inr n, buf', s1)
           | Inl e \<Rightarrow>
               if e = EAGAIN then
                 (case poll tcp s1 of (again, s2) \<Rightarrow>
                    if \<not> again then Some (Inl ETIMEDOUT, buf', s2) else recv_loop tcp buf' s2)
               else Some (Inl e, buf', s1))"

definition Sockets_recv ::
    "'t Tcp \<Rightarrow> SockFd \<Rightarrow> u8 list \<Rightarrow> 't Sockets \<Rightarrow> ((errno + nat) \<times> u8 list \<times> 't Sockets) option" where
  "Sockets_recv tcp fd buf s =
     (case sock_open fd s of Inl e \<Rightarrow> Some (Inl e, buf, s)
      | Inr _ \<Rightarrow>
          if buf = [] then Some (Inr 0, buf, s)
          else recv_loop tcp buf (on_tcp (tcp_start tcp) s))"

subsection \<open>What the calls rely on\<close>

text \<open>\<open>budgeted\<close> is the contract of the trait's \<open>poll\<close>: it returns true only a bounded number
  of times before the budget is spent, and the other calls inside the loops do not refill the
  budget. \<open>carries\<close> is the contract of \<open>send\<close>: the pipe accepts the first \<open>n\<close> bytes it
  reports, in order, and nothing else puts bytes on the wire.\<close>

definition budgeted :: "'t Tcp \<Rightarrow> ('t \<Rightarrow> nat) \<Rightarrow> bool" where
  "budgeted tcp budget \<longleftrightarrow>
     (\<forall>t t'. tcp_poll tcp t = (True, t') \<longrightarrow> budget t' < budget t) \<and>
     (\<forall>b t r t'. tcp_send tcp b t = (r, t') \<longrightarrow> budget t' \<le> budget t) \<and>
     (\<forall>b t r b' t'. tcp_recv tcp b t = (r, b', t') \<longrightarrow> budget t' \<le> budget t) \<and>
     (\<forall>t r t'. tcp_shutdown tcp t = (r, t') \<longrightarrow> budget t' \<le> budget t)"

definition carries :: "'t Tcp \<Rightarrow> ('t \<Rightarrow> u8 list) \<Rightarrow> bool" where
  "carries tcp wire \<longleftrightarrow>
     (\<forall>t. wire (tcp_start tcp t) = wire t) \<and>
     (\<forall>t b t'. tcp_poll tcp t = (b, t') \<longrightarrow> wire t' = wire t) \<and>
     (\<forall>b t n t'. tcp_send tcp b t = (Inr n, t') \<longrightarrow> wire t' = wire t @ take n b) \<and>
     (\<forall>b t e t'. tcp_send tcp b t = (Inl e, t') \<longrightarrow> wire t' = wire t)"

lemma budget_poll: "budgeted tcp budget \<Longrightarrow> poll tcp s = (True, s') \<Longrightarrow> budget (so_tcp s') < budget (so_tcp s)"
  by (auto simp: budgeted_def poll_def split: prod.splits)

lemma poll_frame: "poll tcp s = (b, s') \<Longrightarrow> so_phase s' = so_phase s \<and> so_fd s' = so_fd s"
  by (auto simp: poll_def split: prod.splits)

lemma wire_poll: "carries tcp wire \<Longrightarrow> poll tcp s = (b, s') \<Longrightarrow> wire (so_tcp s') = wire (so_tcp s)"
  by (auto simp: carries_def poll_def split: prod.splits)

lemma wait_until_open_returns:
  assumes "budgeted tcp budget"
  shows "\<exists>r s'. wait_until_open tcp s = Some (r, s') \<and> so_fd s' = so_fd s \<and>
    (r = Inr () \<and> so_phase s' = POpen \<or> (r = Inl ECONNREFUSED \<or> r = Inl ETIMEDOUT) \<and> so_phase s' = PClosed)"
proof (induction "budget (so_tcp s)" arbitrary: s rule: less_induct)
  case less
  obtain b s1 where p: "poll tcp s = (b, s1)" by fastforce
  note unf = wait_until_open.simps [of tcp s]
  consider "tcp_ready tcp (so_tcp s)" | "\<not> tcp_ready tcp (so_tcp s)" "tcp_failed tcp (so_tcp s)"
    | "\<not> tcp_ready tcp (so_tcp s)" "\<not> tcp_failed tcp (so_tcp s)" "\<not> b"
    | "\<not> tcp_ready tcp (so_tcp s)" "\<not> tcp_failed tcp (so_tcp s)" b by blast
  then show ?case
  proof cases
    case 4
    then have "budget (so_tcp s1) < budget (so_tcp s)" using p budget_poll [OF assms, of s s1] by simp
    from less [OF this] show ?thesis using 4 p poll_frame [OF p] unf by simp
  qed (use p poll_frame [OF p] unf in simp_all)
qed

lemma shutdown_loop_returns:
  assumes "budgeted tcp budget"
  shows "\<exists>r s'. shutdown_loop tcp s = Some (r, s') \<and> so_fd s' = so_fd s \<and> so_phase s' = PClosed"
proof (induction "budget (so_tcp s)" arbitrary: s rule: less_induct)
  case less
  obtain r t where sh: "tcp_shutdown tcp (so_tcp s) = (r, t)" by fastforce
  obtain b s2 where p: "poll tcp (s\<lparr>so_tcp := t\<rparr>) = (b, s2)" by fastforce
  note unf = shutdown_loop.simps [of tcp s]
  show ?case
  proof (cases "r = Inr False \<and> b")
    case True
    then have "budget (so_tcp s2) < budget t" using p budget_poll [OF assms] by fastforce
    moreover have "budget t \<le> budget (so_tcp s)" using assms sh by (auto simp: budgeted_def)
    ultimately have "budget (so_tcp s2) < budget (so_tcp s)" by simp
    from less [OF this] show ?thesis using True sh p poll_frame [OF p] unf by (simp add: Let_def)
  next
    case False
    then show ?thesis using sh p poll_frame [OF p] unf by (cases r) (auto simp: Let_def)
  qed
qed

lemma recv_loop_returns:
  assumes "budgeted tcp budget"
  shows "\<exists>r buf' s'. recv_loop tcp buf s = Some (r, buf', s') \<and> so_fd s' = so_fd s \<and>
    (r = Inr 0 \<and> so_phase s' = PClosed \<or> r \<noteq> Inr 0 \<and> so_phase s' = so_phase s) \<and> r \<noteq> Inl EAGAIN"
proof (induction "budget (so_tcp s)" arbitrary: buf s rule: less_induct)
  case less
  obtain r buf' t where rc: "tcp_recv tcp buf (so_tcp s) = (r, buf', t)" by (metis prod_cases3)
  obtain b s2 where p: "poll tcp (s\<lparr>so_tcp := t\<rparr>) = (b, s2)" by fastforce
  note unf = recv_loop.simps [of tcp buf s]
  show ?case
  proof (cases "r = Inl EAGAIN \<and> b")
    case True
    then have "budget (so_tcp s2) < budget t" using p budget_poll [OF assms] by fastforce
    moreover have "budget t \<le> budget (so_tcp s)" using assms rc by (auto simp: budgeted_def)
    ultimately have "budget (so_tcp s2) < budget (so_tcp s)" by simp
    from less [OF this, of buf'] show ?thesis using True rc p poll_frame [OF p] unf by (simp add: Let_def)
  next
    case False
    then show ?thesis using rc p poll_frame [OF p] unf by (cases r) (auto simp: Let_def errno_defs)
  qed
qed

lemma send_loop_returns:
  assumes "budgeted tcp budget"
  shows "\<exists>r s' k. send_loop tcp bytes sent s = Some (r, s') \<and> so_fd s' = so_fd s \<and> so_phase s' = so_phase s \<and>
    (carries tcp wire \<longrightarrow> wire (so_tcp s') = wire (so_tcp s) @ take k bytes) \<and> r \<noteq> Inl EAGAIN \<and>
    (\<forall>m. r = Inr m \<longrightarrow> k = length bytes \<and> m = sent + length bytes)"
proof (induction "length bytes + budget (so_tcp s)" arbitrary: bytes sent s rule: less_induct)
  case less
  obtain r t where sd: "tcp_send tcp bytes (so_tcp s) = (r, t)" by fastforce
  obtain b s2 where p: "poll tcp (s\<lparr>so_tcp := t\<rparr>) = (b, s2)" by fastforce
  have bt: "budget t \<le> budget (so_tcp s)" using assms sd by (auto simp: budgeted_def)
  note unf = send_loop.simps [of tcp bytes sent s]
  have wire_ok: "wire t = wire (so_tcp s) @ take n bytes" if "carries tcp wire" "r = Inr n" for n
    using sd that by (auto simp: carries_def)
  have wire_err: "wire t = wire (so_tcp s)" if "carries tcp wire" "r = Inl e" for e
    using sd that by (auto simp: carries_def)
  consider (nothing) "bytes = []" | (again) "bytes \<noteq> []" "r = Inr 0 \<or> r = Inl EAGAIN"
    | (error) e where "bytes \<noteq> []" "r = Inl e" "e \<noteq> EAGAIN"
    | (some) n where "bytes \<noteq> []" "r = Inr n" "0 < n" by (cases r) auto
  then show ?case
  proof cases
    case nothing
    then show ?thesis using unf by (intro exI [of _ "Inr sent"] exI [of _ s] exI [of _ 0]) simp
  next
    case error
    then show ?thesis using unf sd wire_err by (intro exI [of _ "Inl e"] exI [of _ "s\<lparr>so_tcp := t\<rparr>"] exI [of _ 0]) (simp add: Let_def)
  next
    case again
    have w: "wire (so_tcp s2) = wire (so_tcp s)" if "carries tcp wire"
      using again(2) wire_ok [OF that, of 0] wire_err [OF that, of EAGAIN] wire_poll [OF that p] by auto
    show ?thesis
    proof (cases b)
      case True
      then have "budget (so_tcp s2) < budget t" using p budget_poll [OF assms] by fastforce
      then have "length bytes + budget (so_tcp s2) < length bytes + budget (so_tcp s)" using bt by simp
      from less [OF this, of sent] show ?thesis using again sd p poll_frame [OF p] True unf w by (simp add: Let_def)
    next
      case False
      then show ?thesis using again sd p poll_frame [OF p] unf w
        by (intro exI [of _ "Inl ETIMEDOUT"] exI [of _ s2] exI [of _ 0]) (simp add: Let_def errno_defs)
    qed
  next
    case some
    let ?n = "min n (length bytes)" and ?s = "s\<lparr>so_tcp := t\<rparr>"
    have step: "send_loop tcp bytes sent s = send_loop tcp (drop ?n bytes) (sent + ?n) ?s"
      using some sd unf by (auto simp: Let_def)
    have "length (drop ?n bytes) + budget (so_tcp ?s) < length bytes + budget (so_tcp s)"
      using some(1,3) bt by (cases bytes) (auto simp: min_def)
    from less [OF this, of "sent + ?n"] obtain r' s' k
      where ih: "send_loop tcp (drop ?n bytes) (sent + ?n) ?s = Some (r', s')" "so_fd s' = so_fd s" "so_phase s' = so_phase s"
        "carries tcp wire \<Longrightarrow> wire (so_tcp s') = wire t @ take k (drop ?n bytes)" "r' \<noteq> Inl EAGAIN"
        "\<forall>m. r' = Inr m \<longrightarrow> k = length bytes - ?n \<and> m = sent + ?n + (length bytes - ?n)" by auto
    have "take n bytes @ take k (drop ?n bytes) = take (?n + k) bytes" by (simp add: take_add min_def)
    then show ?thesis using step ih wire_ok [OF _ some(2)]
      by (intro exI [of _ r'] exI [of _ s'] exI [of _ "?n + k"]) auto
  qed
qed

subsection \<open>Runs\<close>

datatype sock_call =
    SC_socket | SC_connect SockFd "u8 list" u16 | SC_listen SockFd u16 | SC_accept SockFd
  | SC_send SockFd "u8 list" | SC_recv SockFd "u8 list" | SC_shutdown SockFd | SC_close SockFd

fun sock_exec :: "'t Tcp \<Rightarrow> sock_call \<Rightarrow> 't Sockets \<Rightarrow> 't Sockets option" where
  "sock_exec tcp SC_socket s = Some (snd (Sockets_socket s))"
| "sock_exec tcp (SC_connect fd addr port) s = map_option snd (Sockets_connect tcp fd addr port s)"
| "sock_exec tcp (SC_listen fd port) s = Some (snd (Sockets_listen tcp fd port s))"
| "sock_exec tcp (SC_accept fd) s = map_option snd (Sockets_accept tcp fd s)"
| "sock_exec tcp (SC_send fd bytes) s = map_option snd (Sockets_send tcp fd bytes s)"
| "sock_exec tcp (SC_recv fd buf) s = map_option (\<lambda>(r, buf', s'). s') (Sockets_recv tcp fd buf s)"
| "sock_exec tcp (SC_shutdown fd) s = map_option snd (Sockets_shutdown tcp fd s)"
| "sock_exec tcp (SC_close fd) s = Some (snd (Sockets_close tcp fd s))"

text \<open>The life of a socket: the phase changes a caller may see between two calls.\<close>

inductive phase_step :: "Phase \<Rightarrow> Phase \<Rightarrow> bool" where
  stays: "phase_step p p"
| made: "phase_step PEmpty PIdle"
| bound: "phase_step PIdle Listening"
| opened: "p = PIdle \<or> p = Listening \<Longrightarrow> phase_step p POpen"
| ended: "p = PIdle \<or> p = Listening \<or> p = POpen \<Longrightarrow> phase_step p PClosed"
| dropped: "p \<noteq> PEmpty \<Longrightarrow> phase_step p PEmpty"

inductive_simps phase_step_simps: "phase_step p q"

lemma sock_exec_step:
  assumes b: "budgeted tcp budget" and c: "so_phase s \<noteq> Connecting"
  shows "\<exists>s'. sock_exec tcp call s = Some s' \<and> so_fd s' = so_fd s \<and> so_phase s' \<noteq> Connecting \<and>
    phase_step (so_phase s) (so_phase s')"
proof (cases call)
  case (SC_connect fd addr port)
  obtain r t where tc: "tcp_connect tcp addr port (tcp_start tcp (so_tcp s)) = (r, t)" by fastforce
  show ?thesis
    using SC_connect c tc wait_until_open_returns [OF b, of "s\<lparr>so_tcp := t, so_phase := Connecting\<rparr>"]
    by (cases r; cases "so_phase s") (auto simp: Sockets_connect_def Let_def on_tcp_def phase_step_simps split: sum.splits)
next
  case (SC_accept fd)
  then show ?thesis using c wait_until_open_returns [OF b, of "on_tcp (tcp_start tcp) s"]
    by (auto simp: Sockets_accept_def on_tcp_def phase_step_simps split: sum.splits)
next
  case (SC_send fd bytes)
  have "\<exists>r s'. send_loop tcp bytes 0 (on_tcp (tcp_start tcp) s) = Some (r, s') \<and> so_fd s' = so_fd s \<and> so_phase s' = so_phase s"
    using send_loop_returns [OF b, of bytes 0 "on_tcp (tcp_start tcp) s" "\<lambda>_. []"] by (auto simp: on_tcp_def)
  then show ?thesis using SC_send c
    by (auto simp: Sockets_send_def phase_step_simps split: sum.splits)
next
  case (SC_recv fd buf)
  then show ?thesis using c recv_loop_returns [OF b, of buf "on_tcp (tcp_start tcp) s"]
    by (auto simp: Sockets_recv_def sock_open_def on_tcp_def phase_step_simps split: sum.splits if_splits)
next
  case (SC_shutdown fd)
  then show ?thesis using c shutdown_loop_returns [OF b, of "on_tcp (tcp_start tcp) s"]
    by (auto simp: Sockets_shutdown_def sock_open_def on_tcp_def phase_step_simps split: sum.splits if_splits)
qed (use c in \<open>auto simp: Sockets_socket_def Sockets_listen_def Sockets_close_def on_tcp_def phase_step_simps
      split: sum.splits prod.splits\<close>)

fun sock_run :: "'t Tcp \<Rightarrow> sock_call list \<Rightarrow> 't Sockets \<Rightarrow> 't Sockets option" where
  "sock_run tcp [] s = Some s"
| "sock_run tcp (c # cs) s = (case sock_exec tcp c s of None \<Rightarrow> None | Some s' \<Rightarrow> sock_run tcp cs s')"

lemma sock_run_returns:
  assumes "budgeted tcp budget"
  shows "so_phase s \<noteq> Connecting \<Longrightarrow>
    \<exists>s'. sock_run tcp cs s = Some s' \<and> so_fd s' = so_fd s \<and> so_phase s' \<noteq> Connecting"
proof (induction cs arbitrary: s)
  case (Cons c cs)
  then obtain s1 where "sock_exec tcp c s = Some s1" "so_fd s1 = so_fd s" "so_phase s1 \<noteq> Connecting"
    using sock_exec_step [OF assms] by blast
  then show ?case using Cons.IH [of s1] by simp
qed simp

text \<open>C9: On a pipe whose poll keeps to a time budget, every sequence of socket calls returns;
  the table keeps its one descriptor 3, no caller ever sees a half-made connection, and every
  call changes the phase along the life of a socket: made, listening, open, closed, dropped.\<close>

theorem socket_calls_return:
  assumes "budgeted tcp budget" and "sock_run tcp cs (Sockets_new t) = r"
  shows "\<exists>s. r = Some s \<and> so_fd s = 3 \<and> so_phase s \<noteq> Connecting \<and>
    (\<exists>s'. sock_exec tcp c s = Some s' \<and> phase_step (so_phase s) (so_phase s'))"
proof -
  obtain s where s: "sock_run tcp cs (Sockets_new t) = Some s" "so_fd s = 3" "so_phase s \<noteq> Connecting"
    using sock_run_returns [OF assms(1), of "Sockets_new t" cs] by (auto simp: Sockets_new_def)
  then show ?thesis using sock_exec_step [OF assms(1) s(3)] assms(2) by blast
qed

text \<open>A successful \<open>send\<close> reports the whole length and has put exactly the caller's bytes on
  the wire, in order, however the pipe splits them; a failed one has put a prefix of them there.
  A would-block answer of the pipe is never the caller's error.\<close>

theorem send_delivers_the_bytes:
  assumes "budgeted tcp budget" and "carries tcp wire" and "so_phase s = POpen" and "fd = SockFd (so_fd s)"
  shows "\<exists>r s' k. Sockets_send tcp fd bytes s = Some (r, s') \<and> so_phase s' = POpen \<and>
    wire (so_tcp s') = wire (so_tcp s) @ take k bytes \<and> r \<noteq> Inl EAGAIN \<and>
    (\<forall>m. r = Inr m \<longrightarrow> m = length bytes \<and> wire (so_tcp s') = wire (so_tcp s) @ bytes)"
proof -
  have o: "sock_open fd s = Inr ()" using assms(3,4) by (simp add: sock_open_def sock_live_def)
  have w: "wire (tcp_start tcp (so_tcp s)) = wire (so_tcp s)" using assms(2) by (simp add: carries_def)
  show ?thesis
  proof (cases "bytes = []")
    case True
    then show ?thesis using o assms(3) by (simp add: Sockets_send_def)
  next
    case False
    obtain r s' k where l: "send_loop tcp bytes 0 (on_tcp (tcp_start tcp) s) = Some (r, s')" "so_phase s' = POpen"
      "wire (so_tcp s') = wire (so_tcp s) @ take k bytes" "r \<noteq> Inl EAGAIN"
      "\<forall>m. r = Inr m \<longrightarrow> k = length bytes \<and> m = length bytes"
      using send_loop_returns [OF assms(1), of bytes 0 "on_tcp (tcp_start tcp) s" wire] assms(2,3) w
      by (auto simp: on_tcp_def)
    then show ?thesis using o False by (intro exI [of _ r] exI [of _ s'] exI [of _ k]) (auto simp: Sockets_send_def)
  qed
qed

text \<open>A pipe that accepts two bytes at a time, with a budget of polls, for the witnesses.\<close>

definition two_byte_pipe :: "(u8 list \<times> nat) Tcp" where
  "two_byte_pipe = \<lparr>tcp_start = (\<lambda>(w, n). (w, 5)), tcp_poll = (\<lambda>(w, n). (0 < n, (w, n - 1))),
     tcp_connect = (\<lambda>addr port t. (Inr (), t)), tcp_ready = (\<lambda>(w, n). n < 4), tcp_failed = (\<lambda>t. False),
     tcp_send = (\<lambda>b (w, n). (Inr (min 2 (length b)), (w @ take 2 b, n))),
     tcp_recv = (\<lambda>b t. (Inl EAGAIN, b, t)), tcp_listen = default_listen, tcp_shutdown = default_shutdown,
     tcp_finish = default_finish\<rparr>"

lemma two_byte_pipe_budgeted: "budgeted two_byte_pipe snd"
  by (auto simp: budgeted_def two_byte_pipe_def default_shutdown_def split: prod.splits)

lemma two_byte_pipe_carries: "carries two_byte_pipe fst"
  by (auto simp: carries_def two_byte_pipe_def min_def split: prod.splits)

theorem socket_calls_return_witness:
  "\<exists>s. sock_run two_byte_pipe [SC_socket, SC_connect (SockFd 3) [10, 0, 2, 2] 80] (Sockets_new ([], 0)) = Some s \<and>
    so_fd s = 3 \<and> so_phase s \<noteq> Connecting \<and>
    (\<exists>s'. sock_exec two_byte_pipe (SC_recv (SockFd 3) [0]) s = Some s' \<and> phase_step (so_phase s) (so_phase s'))"
  by (rule socket_calls_return [OF two_byte_pipe_budgeted refl])

theorem send_delivers_the_bytes_witness:
  "\<exists>r s' k. Sockets_send two_byte_pipe (SockFd 3) [1, 2, 3] \<lparr>so_tcp = ([9], 0), so_phase = POpen, so_fd = 3\<rparr> = Some (r, s') \<and>
    so_phase s' = POpen \<and> fst (so_tcp s') = [9] @ take k [1, 2, 3] \<and> r \<noteq> Inl EAGAIN \<and>
    (\<forall>m. r = Inr m \<longrightarrow> m = length [1 :: u8, 2, 3] \<and> fst (so_tcp s') = [9] @ [1, 2, 3])"
  using send_delivers_the_bytes [OF two_byte_pipe_budgeted two_byte_pipe_carries,
      of "\<lparr>so_tcp = ([9], 0), so_phase = POpen, so_fd = 3\<rparr>" "SockFd 3" "[1, 2, 3]"] by simp

end
