(* ===== verification/NetVirtRx.thy ===== *)
theory NetVirtRx
  imports NetQueue
begin

text \<open>
  The receive virtualiser \<open>pds/sddf-net-virt-rx\<close>. It takes frames from the driver's active
  queue, passes those for its client (or for everybody) to the copier, returns the others to the
  driver, and gives back the buffers the copier has finished with. One reference count per
  buffer, in a page only this domain maps, says how many readers still hold the buffer.

  The state is the handler structure with the shared queues it points to; \<open>vr_notes\<close> is the
  list of the channels it notified. The configuration the build embeds is the argument
  \<open>cfg\<close>, and \<open>data\<close> the bytes of the receive region. \<open>None\<close> is a failed assertion. A
  handler runs here without interference; theory \<open>NetRxPath\<close> interleaves the steps of the
  domains.
\<close>

definition MAC802_BYTES :: nat where "MAC802_BYTES = 6"
definition NET_QUEUE_CAPACITY :: u16 where "NET_QUEUE_CAPACITY = 16"
definition BROADCAST :: "u8 list" where "BROADCAST = replicate MAC802_BYTES 0xff"

text \<open>A connection names its two queues by address; the model keeps the queues themselves.\<close>

record net_connection_resource_t =
  conn_free :: net_queue_t
  conn_active :: net_queue_t
  conn_num_buffers :: u16
  conn_id :: u8

record net_virt_rx_config_t =
  vrc_magic :: "u8 list"
  vrc_driver :: net_connection_resource_t
  vrc_io_addr :: u64
  vrc_metadata :: "u8 list option"
  vrc_client :: net_connection_resource_t
  vrc_mac_addrs :: "u8 list list"
  vrc_num_macs :: u8
  vrc_num_clients :: u8

record net_virt_rx =
  vr_driver :: net_queue_handle_t
  vr_copier :: net_queue_handle_t
  vr_driver_ch :: u8
  vr_copier_ch :: u8
  vr_refs :: "u8 list"
  vr_notify_driver :: bool
  vr_notes :: "u8 list"

datatype Dest = Client | Broadcast | Drop

definition net_handle_null :: net_queue_handle_t where
  "net_handle_null =
     (let q = \<lparr>nq_tail = 0, nq_head = 0, nq_consumer_signalled = 0, nq_slots = []\<rparr>
      in \<lparr>nq_free = q, nq_active = q, nq_capacity = 0\<rparr>)"

definition net_queue_from :: "net_connection_resource_t \<Rightarrow> net_queue_handle_t" where
  "net_queue_from conn =
     net_queue_init net_handle_null (conn_free conn) (conn_active conn) (ucast (conn_num_buffers conn))"

definition buf_size :: u64 where
  "buf_size = ucast NET_BUFFER_SIZE"

definition ref_cell :: "u64 \<Rightarrow> nat option" where
  "ref_cell offset =
     (if offset mod buf_size \<noteq> 0 then None
      else let i = offset div buf_size
           in if i < ucast NET_QUEUE_CAPACITY then Some (unat i) else None)"

definition frame_dest :: "net_virt_rx_config_t \<Rightarrow> (nat \<Rightarrow> u8) \<Rightarrow> net_buff_desc_t \<Rightarrow> Dest option" where
  "frame_dest cfg data buffer =
     (if ucast (nb_len buffer) > NET_BUFFER_SIZE \<or> nb_len buffer < of_nat MAC802_BYTES then Some Drop
      else
        let dest = map (\<lambda>i. data (unat (nb_io_or_offset buffer) + i)) [0..<MAC802_BYTES];
          macs = unat (vrc_num_macs cfg)
        in if \<not> macs \<le> length (vrc_mac_addrs cfg) then None
           else if dest \<in> set (take macs (vrc_mac_addrs cfg)) then Some Client
           else if dest = BROADCAST then Some Broadcast
           else Some Drop)"

definition return_driver :: "net_buff_desc_t \<Rightarrow> u64 \<Rightarrow> net_virt_rx \<Rightarrow> net_virt_rx option" where
  "return_driver buffer base s =
     (let buffer = buffer\<lparr>nb_io_or_offset := nb_io_or_offset buffer + base\<rparr>
      in case net_enqueue_free (vr_driver s) buffer of (e, h) \<Rightarrow>
           if e \<noteq> 0 then None else Some (s\<lparr>vr_driver := h, vr_notify_driver := True\<rparr>))"

definition enqueue_copier :: "net_virt_rx_config_t \<Rightarrow> net_buff_desc_t \<Rightarrow> Dest \<Rightarrow> net_virt_rx \<Rightarrow> (bool \<times> net_virt_rx) option" where
  "enqueue_copier cfg buffer dest s =
     (case ref_cell (nb_io_or_offset buffer) of None \<Rightarrow> None
      | Some cell \<Rightarrow>
          if vr_refs s ! cell \<noteq> 0 then None
          else
            let count = (if dest = Broadcast then vrc_num_clients cfg else 1);
              s1 = s\<lparr>vr_refs := (vr_refs s)[cell := count]\<rparr>
            in case net_enqueue_active (vr_copier s1) buffer of (e, h) \<Rightarrow>
                 if e \<noteq> 0 then None else Some (True, s1\<lparr>vr_copier := h\<rparr>))"

definition forward_active :: "net_virt_rx_config_t \<Rightarrow> (nat \<Rightarrow> u8) \<Rightarrow> net_virt_rx \<Rightarrow> (bool \<times> net_virt_rx) option" where
  "forward_active cfg data s =
     (case net_dequeue_active (vr_driver s) (net_buff_desc_new 0 0 0) of (e, buffer, h) \<Rightarrow>
        let s1 = s\<lparr>vr_driver := h\<rparr>; base = vrc_io_addr cfg
        in if e \<noteq> 0 then None
           else if \<not> nb_io_or_offset buffer \<ge> base then None
           else
             let buffer = buffer\<lparr>nb_io_or_offset := nb_io_or_offset buffer - base\<rparr>
             in if \<not> (nb_io_or_offset buffer mod buf_size = 0
                   \<and> nb_io_or_offset buffer < buf_size * ucast NET_QUEUE_CAPACITY) then None
                else case frame_dest cfg data buffer of
                       None \<Rightarrow> None
                     | Some Drop \<Rightarrow> map_option (\<lambda>s2. (False, s2)) (return_driver buffer base s1)
                     | Some dest \<Rightarrow> enqueue_copier cfg buffer dest s1)"

definition active_pending :: "net_queue_handle_t \<Rightarrow> nat" where
  "active_pending h = unat (nq_tail (nq_active h) - nq_head (nq_active h))"

definition free_pending :: "net_queue_handle_t \<Rightarrow> nat" where
  "free_pending h = unat (nq_tail (nq_free h) - nq_head (nq_free h))"

lemma net_enqueue_pending:
  "net_enqueue_free h b = (e, h') \<Longrightarrow> active_pending h' = active_pending h"
  "net_enqueue_active h b = (e, h') \<Longrightarrow> free_pending h' = free_pending h"
  by (auto simp: net_enqueue_free_def net_enqueue_active_def active_pending_def free_pending_def split: prod.splits)

lemma net_dequeue_pending:
  "net_dequeue_active h out = (0, b, h') \<Longrightarrow> active_pending h' < active_pending h"
  "net_dequeue_free h out = (0, b, h') \<Longrightarrow> free_pending h' < free_pending h"
  using unat_diff_pred [of "nq_tail (nq_active h)" "nq_head (nq_active h)"]
    unat_diff_pred [of "nq_tail (nq_free h)" "nq_head (nq_free h)"]
  by (auto simp: net_dequeue_active_def net_dequeue_free_def net_dequeue_def active_pending_def free_pending_def
      net_queue_empty_active_def net_queue_empty_free_def ring_is_empty_def ring_advance_def Let_def
      split: prod.splits if_splits)

lemma forward_active_pending:
  "forward_active cfg data s = Some (b, s') \<Longrightarrow> active_pending (vr_driver s') < active_pending (vr_driver s)"
  by (auto simp: forward_active_def enqueue_copier_def return_driver_def Let_def
      dest!: net_enqueue_pending(1) dest: net_dequeue_pending(1) split: prod.splits if_splits option.splits Dest.splits)

text \<open>\<open>while !empty(driver.active) { .. }\<close>\<close>

function forward_all :: "net_virt_rx_config_t \<Rightarrow> (nat \<Rightarrow> u8) \<Rightarrow> bool \<Rightarrow> net_virt_rx \<Rightarrow> (bool \<times> net_virt_rx) option" where
  "forward_all cfg data notify s =
     (if net_queue_empty_active (vr_driver s) then Some (notify, s)
      else case forward_active cfg data s of
             None \<Rightarrow> None
           | Some (moved, s') \<Rightarrow> forward_all cfg data (notify \<or> moved) s')"
  by pat_completeness auto

termination forward_all
  by (relation "measure (\<lambda>(cfg, data, notify, s). active_pending (vr_driver s))") (auto dest: forward_active_pending)

declare forward_all.simps [simp del]

lemma forward_all_drains:
  "forward_all cfg data notify s = Some (b, s') \<Longrightarrow> net_queue_empty_active (vr_driver s')"
  by (induction cfg data notify s rule: forward_all.induct)
    (auto simp: forward_all.simps split: if_splits option.splits prod.splits)

lemma net_signal_empty [simp]:
  "net_queue_empty_active (net_request_signal_active h) = net_queue_empty_active h"
  "net_queue_empty_free (net_request_signal_free h) = net_queue_empty_free h"
  by (simp_all add: net_queue_empty_active_def net_queue_empty_free_def net_signal_defs)

text \<open>The outer loop: ask to be signalled, then look once more before sleeping.\<close>

function reprocess_active :: "net_virt_rx_config_t \<Rightarrow> (nat \<Rightarrow> u8) \<Rightarrow> bool \<Rightarrow> net_virt_rx \<Rightarrow> (bool \<times> net_virt_rx) option" where
  "reprocess_active cfg data notify s =
     (case forward_all cfg data notify s of
        None \<Rightarrow> None
      | Some (notify', s1) \<Rightarrow>
          let s2 = s1\<lparr>vr_driver := net_request_signal_active (vr_driver s1)\<rparr>
          in if \<not> net_queue_empty_active (vr_driver s2) then
               reprocess_active cfg data notify' (s2\<lparr>vr_driver := net_cancel_signal_active (vr_driver s2)\<rparr>)
             else Some (notify', s2))"
  by pat_completeness auto

termination reprocess_active
  by (relation "{}") (auto dest: forward_all_drains)

declare reprocess_active.simps [simp del]

definition vr_notify :: "u8 \<Rightarrow> net_virt_rx \<Rightarrow> net_virt_rx" where
  "vr_notify ch s = s\<lparr>vr_notes := vr_notes s @ [ch]\<rparr>"

definition rx_return :: "net_virt_rx_config_t \<Rightarrow> (nat \<Rightarrow> u8) \<Rightarrow> net_virt_rx \<Rightarrow> net_virt_rx option" where
  "rx_return cfg data s =
     (case reprocess_active cfg data False s of
        None \<Rightarrow> None
      | Some (notify_copier, s1) \<Rightarrow>
          Some (if notify_copier \<and> net_require_signal_active (vr_copier s1)
            then vr_notify (vr_copier_ch s1) (s1\<lparr>vr_copier := net_cancel_signal_active (vr_copier s1)\<rparr>)
            else s1))"

text \<open>The body of the inner loop of \<open>rx_provide\<close>.\<close>

definition provide_one :: "net_virt_rx_config_t \<Rightarrow> net_virt_rx \<Rightarrow> net_virt_rx option" where
  "provide_one cfg s =
     (case net_dequeue_free (vr_copier s) (net_buff_desc_new 0 0 0) of (e, buffer, h) \<Rightarrow>
        let s1 = s\<lparr>vr_copier := h\<rparr>
        in if e \<noteq> 0 then None
           else if \<not> (nb_io_or_offset buffer mod buf_size = 0
              \<and> nb_io_or_offset buffer < buf_size * ucast (nq_capacity (vr_driver s1))) then None
           else case ref_cell (nb_io_or_offset buffer) of
                  None \<Rightarrow> None
                | Some cell \<Rightarrow>
                    if vr_refs s1 ! cell = 0 then None
                    else
                      let refs = vr_refs s1 ! cell - 1; s2 = s1\<lparr>vr_refs := (vr_refs s1)[cell := refs]\<rparr>
                      in if refs \<noteq> 0 then Some s2
                         else case net_enqueue_free (vr_driver s2)
                                (buffer\<lparr>nb_io_or_offset := nb_io_or_offset buffer + vrc_io_addr cfg\<rparr>) of (e, h) \<Rightarrow>
                                if e \<noteq> 0 then None
                                else Some (s2\<lparr>vr_driver := h, vr_notify_driver := True\<rparr>))"

lemma provide_one_pending:
  "provide_one cfg s = Some s' \<Longrightarrow> free_pending (vr_copier s') < free_pending (vr_copier s)"
  by (auto simp: provide_one_def Let_def dest: net_dequeue_pending(2) split: prod.splits if_splits option.splits)

function provide_all :: "net_virt_rx_config_t \<Rightarrow> net_virt_rx \<Rightarrow> net_virt_rx option" where
  "provide_all cfg s =
     (if net_queue_empty_free (vr_copier s) then Some s
      else case provide_one cfg s of None \<Rightarrow> None | Some s' \<Rightarrow> provide_all cfg s')"
  by pat_completeness auto

termination provide_all
  by (relation "measure (\<lambda>(cfg, s). free_pending (vr_copier s))") (auto dest: provide_one_pending)

declare provide_all.simps [simp del]

lemma provide_all_drains: "provide_all cfg s = Some s' \<Longrightarrow> net_queue_empty_free (vr_copier s')"
  by (induction cfg s rule: provide_all.induct)
    (auto simp: provide_all.simps split: if_splits option.splits)

function reprocess_free :: "net_virt_rx_config_t \<Rightarrow> net_virt_rx \<Rightarrow> net_virt_rx option" where
  "reprocess_free cfg s =
     (case provide_all cfg s of
        None \<Rightarrow> None
      | Some s1 \<Rightarrow>
          let s2 = s1\<lparr>vr_copier := net_request_signal_free (vr_copier s1)\<rparr>
          in if \<not> net_queue_empty_free (vr_copier s2) then
               reprocess_free cfg (s2\<lparr>vr_copier := net_cancel_signal_free (vr_copier s2)\<rparr>)
             else Some s2)"
  by pat_completeness auto

termination reprocess_free
  by (relation "{}") (auto dest: provide_all_drains)

declare reprocess_free.simps [simp del]

definition rx_provide :: "net_virt_rx_config_t \<Rightarrow> net_virt_rx \<Rightarrow> net_virt_rx option" where
  "rx_provide cfg s =
     (case reprocess_free cfg s of
        None \<Rightarrow> None
      | Some s1 \<Rightarrow>
          Some (if vr_notify_driver s1 \<and> net_require_signal_free (vr_driver s1)
            then (vr_notify (vr_driver_ch s1) (s1\<lparr>vr_driver := net_cancel_signal_free (vr_driver s1)\<rparr>))\<lparr>vr_notify_driver := False\<rparr>
            else s1))"

definition net_virt_rx_notified :: "net_virt_rx_config_t \<Rightarrow> (nat \<Rightarrow> u8) \<Rightarrow> net_virt_rx \<Rightarrow> net_virt_rx option" where
  "net_virt_rx_notified cfg data s =
     (case rx_return cfg data s of None \<Rightarrow> None | Some s1 \<Rightarrow> rx_provide cfg s1)"

definition net_virt_rx_init :: "net_virt_rx_config_t \<Rightarrow> net_virt_rx option" where
  "net_virt_rx_init cfg =
     (if vrc_magic cfg \<noteq> SDDF_NET_MAGIC then None
      else if vrc_num_clients cfg \<noteq> 1 then None
      else case vrc_metadata cfg of
             None \<Rightarrow> None
           | Some page \<Rightarrow>
               let handler = \<lparr>vr_driver = net_queue_from (vrc_driver cfg), vr_copier = net_queue_from (vrc_client cfg),
                   vr_driver_ch = conn_id (vrc_driver cfg), vr_copier_ch = conn_id (vrc_client cfg),
                   vr_refs = page, vr_notify_driver = False, vr_notes = []\<rparr>
               in case rx_provide cfg handler of
                    None \<Rightarrow> None
                  | Some s1 \<Rightarrow>
                      let s2 = s1\<lparr>vr_driver := net_buffers_init (vr_driver s1) (vrc_io_addr cfg)\<rparr>
                      in Some (if net_require_signal_free (vr_driver s2)
                           then vr_notify (vr_driver_ch s2) (s2\<lparr>vr_driver := net_cancel_signal_free (vr_driver s2)\<rparr>)
                           else s2))"

end
