(* ===== verification/NetCopy.thy ===== *)
theory NetCopy
  imports NetVirtRx
begin

text \<open>
  The receive copier \<open>pds/sddf-net-copy\<close>. For every frame the virtualiser hands over it takes
  a free buffer of the client, copies the bytes there, and returns the receive buffer; without a
  free client buffer the frame is dropped. The two data regions are functions from byte
  offsets.
\<close>

record net_copy_config_t =
  ncc_magic :: "u8 list"
  ncc_rx :: net_connection_resource_t
  ncc_rx_data :: "(nat \<Rightarrow> u8) option"
  ncc_client :: net_connection_resource_t
  ncc_client_data :: "nat \<Rightarrow> u8"

record net_copy =
  nc_virt :: net_queue_handle_t
  nc_client :: net_queue_handle_t
  nc_virt_data :: "nat \<Rightarrow> u8"
  nc_client_data :: "nat \<Rightarrow> u8"
  nc_virt_ch :: u8
  nc_client_ch :: u8
  nc_notes :: "u8 list"

definition net_copy_init :: "net_copy_config_t \<Rightarrow> net_copy option" where
  "net_copy_init cfg =
     (if ncc_magic cfg \<noteq> SDDF_NET_MAGIC then None
      else case ncc_rx_data cfg of
             None \<Rightarrow> None
           | Some rx \<Rightarrow>
               let client = net_buffers_init (net_queue_from (ncc_client cfg)) 0
               in Some \<lparr>nc_virt = net_queue_from (ncc_rx cfg), nc_client = client, nc_virt_data = rx,
                    nc_client_data = ncc_client_data cfg, nc_virt_ch = conn_id (ncc_rx cfg),
                    nc_client_ch = conn_id (ncc_client cfg), nc_notes = []\<rparr>)"

definition offset_ok :: "u64 \<Rightarrow> u32 \<Rightarrow> bool" where
  "offset_ok offset capacity \<longleftrightarrow> offset mod buf_size = 0 \<and> offset < buf_size * ucast capacity"

text \<open>\<open>copy_nonoverlapping\<close> of \<open>len\<close> bytes between the two regions.\<close>

definition copy_bytes :: "(nat \<Rightarrow> u8) \<Rightarrow> nat \<Rightarrow> (nat \<Rightarrow> u8) \<Rightarrow> nat \<Rightarrow> nat \<Rightarrow> (nat \<Rightarrow> u8)" where
  "copy_bytes src from dst to len =
     (\<lambda>i. if to \<le> i \<and> i < to + len then src (from + (i - to)) else dst i)"

definition copy_frame :: "net_copy \<Rightarrow> net_copy option" where
  "copy_frame s =
     (case net_dequeue_free (nc_client s) (net_buff_desc_new 0 0 0) of (e, client_buffer, client) \<Rightarrow>
        if e \<noteq> 0 then None
        else if \<not> offset_ok (nb_io_or_offset client_buffer) (nq_capacity client) then None
        else case net_dequeue_active (nc_virt s) (net_buff_desc_new 0 0 0) of (e, virt_buffer, virt) \<Rightarrow>
          if e \<noteq> 0 then None
          else if net_buff_desc_oid virt_buffer \<noteq> 0 then None
          else if \<not> (ucast (nb_len virt_buffer) \<le> NET_BUFFER_SIZE
             \<and> offset_ok (nb_io_or_offset virt_buffer) (nq_capacity virt)) then None
          else
            let len = unat (nb_len virt_buffer);
              data = copy_bytes (nc_virt_data s) (unat (nb_io_or_offset virt_buffer))
                (nc_client_data s) (unat (nb_io_or_offset client_buffer)) len
            in case net_enqueue_active client (client_buffer\<lparr>nb_len := nb_len virt_buffer\<rparr>) of (e, client') \<Rightarrow>
                 if e \<noteq> 0 then None
                 else case net_enqueue_free virt virt_buffer of (e, virt') \<Rightarrow>
                   if e \<noteq> 0 then None
                   else Some (s\<lparr>nc_virt := virt', nc_client := client', nc_client_data := data\<rparr>))"

definition return_virt_buffer :: "net_copy \<Rightarrow> net_copy option" where
  "return_virt_buffer s =
     (case net_dequeue_active (nc_virt s) (net_buff_desc_new 0 0 0) of (e, virt_buffer, virt) \<Rightarrow>
        if e \<noteq> 0 then None
        else case net_enqueue_free virt virt_buffer of (e, virt') \<Rightarrow>
          if e \<noteq> 0 then None else Some (s\<lparr>nc_virt := virt'\<rparr>))"

text \<open>One iteration of the inner loop: copy if the client has a free buffer, else return.\<close>

definition copy_one :: "net_copy \<Rightarrow> (bool \<times> net_copy) option" where
  "copy_one s =
     (if \<not> net_queue_empty_free (nc_client s) then map_option (\<lambda>s'. (True, s')) (copy_frame s)
      else map_option (\<lambda>s'. (False, s')) (return_virt_buffer s))"

lemma net_enqueue_free_active: "net_enqueue_free h b = (e, h') \<Longrightarrow> nq_active h' = nq_active h"
  by (auto simp: net_enqueue_free_def split: prod.splits)

lemma copy_one_pending: "copy_one s = Some (b, s') \<Longrightarrow> active_pending (nc_virt s') < active_pending (nc_virt s)"
  by (auto simp: copy_one_def copy_frame_def return_virt_buffer_def Let_def
      dest!: net_enqueue_pending(1) dest: net_dequeue_pending(1) split: prod.splits if_splits)

function copy_all :: "bool \<Rightarrow> bool \<Rightarrow> net_copy \<Rightarrow> (bool \<times> bool \<times> net_copy) option" where
  "copy_all client_enqueued virt_enqueued s =
     (if net_queue_empty_active (nc_virt s) then Some (client_enqueued, virt_enqueued, s)
      else case copy_one s of
             None \<Rightarrow> None
           | Some (copied, s') \<Rightarrow> copy_all (client_enqueued \<or> copied) True s')"
  by pat_completeness auto

termination copy_all
  by (relation "measure (\<lambda>(c, v, s). active_pending (nc_virt s))") (auto dest: copy_one_pending)

declare copy_all.simps [simp del]

lemma copy_all_drains: "copy_all c v s = Some (c', v', s') \<Longrightarrow> net_queue_empty_active (nc_virt s')"
  by (induction c v s rule: copy_all.induct)
    (auto simp: copy_all.simps split: if_splits option.splits prod.splits)

function copy_reprocess :: "bool \<Rightarrow> bool \<Rightarrow> net_copy \<Rightarrow> (bool \<times> bool \<times> net_copy) option" where
  "copy_reprocess client_enqueued virt_enqueued s =
     (case copy_all client_enqueued virt_enqueued s of
        None \<Rightarrow> None
      | Some (c, v, s1) \<Rightarrow>
          let s2 = s1\<lparr>nc_virt := net_request_signal_active (nc_virt s1)\<rparr>
          in if \<not> net_queue_empty_active (nc_virt s2) then
               copy_reprocess c v (s2\<lparr>nc_virt := net_cancel_signal_active (nc_virt s2)\<rparr>)
             else Some (c, v, s2))"
  by pat_completeness auto

termination copy_reprocess
  by (relation "{}") (auto dest: copy_all_drains)

declare copy_reprocess.simps [simp del]

definition signal_queues :: "bool \<Rightarrow> bool \<Rightarrow> net_copy \<Rightarrow> net_copy" where
  "signal_queues client_enqueued virt_enqueued s =
     (let s1 = (if client_enqueued \<and> net_require_signal_active (nc_client s)
          then s\<lparr>nc_client := net_cancel_signal_active (nc_client s), nc_notes := nc_notes s @ [nc_client_ch s]\<rparr>
          else s)
      in if virt_enqueued \<and> net_require_signal_free (nc_virt s1)
         then s1\<lparr>nc_virt := net_cancel_signal_free (nc_virt s1), nc_notes := nc_notes s1 @ [nc_virt_ch s1]\<rparr>
         else s1)"

definition copy_rx_return :: "net_copy \<Rightarrow> net_copy option" where
  "copy_rx_return s =
     (case copy_reprocess False False s of None \<Rightarrow> None | Some (c, v, s1) \<Rightarrow> Some (signal_queues c v s1))"

definition net_copy_notified :: "net_copy \<Rightarrow> net_copy option" where
  "net_copy_notified s = copy_rx_return s"

end
