(* ===== verification/NetRxPath.thy ===== *)
theory NetRxPath
  imports NetCopy "HOL-Library.Multiset"
begin

text \<open>
  The receive path as a system: the driver, the receive virtualiser, the copier and the client,
  each running in its own domain, interleaved at the granularity of one buffer. The virtualiser
  and the copier run their code (\<open>forward_active\<close>, \<open>provide_one\<close>, \<open>copy_one\<close>); the driver and
  the client are any programs that keep to the queue protocol: they return the descriptors they
  took, with any length and any bytes.

  The invariant accounts for every buffer: the sixteen receive buffers are spread over the two
  queues of the driver, the two of the copier and the driver's hands, each exactly once, and a
  reference count is one exactly while the copier's side holds the buffer.
\<close>

subsection \<open>Buffers by number\<close>

definition idx_of :: "u64 \<Rightarrow> net_buff_desc_t \<Rightarrow> nat" where
  "idx_of base b = unat (nb_io_or_offset b - base) div 2048"

definition off :: "nat \<Rightarrow> u64" where
  "off i = of_nat (2048 * i)"

definition good :: "u64 \<Rightarrow> net_buff_desc_t \<Rightarrow> bool" where
  "good base b \<longleftrightarrow> idx_of base b < 16 \<and> nb_io_or_offset b = base + off (idx_of base b) \<and>
     net_buff_desc_oid b = 0"

definition base_ok :: "u64 \<Rightarrow> bool" where
  "base_ok base \<longleftrightarrow> unat base + 16 * 2048 \<le> 2 ^ 64"

lemma buf_size_2048 [simp]: "buf_size = 2048"
  by (simp add: buf_size_def NET_BUFFER_SIZE_def)

lemma unat_off: "i < 16 \<Longrightarrow> unat (off i) = 2048 * i"
  by (simp add: off_def unat_of_nat del: of_nat_mult)

lemma unat_eqI: "unat (a :: u64) = unat b \<Longrightarrow> a = b"
  by (rule unsigned_word_eqI)

lemma off_facts:
  assumes "i < 16"
  shows "off i mod 2048 = 0" and "off i < 32768" and "off i div 2048 = of_nat i" and "ref_cell (off i) = Some i"
proof -
  note u = unat_off [OF assms]
  have i: "unat (of_nat i :: u64) = i" using assms by (simp add: unat_of_nat)
  show m: "off i mod 2048 = 0" by (rule unat_eqI) (simp add: unat_mod u)
  show "off i < 32768" unfolding word_less_nat_alt u using assms by simp
  show d: "off i div 2048 = of_nat i" by (rule unat_eqI) (simp add: unat_div u i)
  have "(of_nat i :: u64) < 16" using assms by (simp add: word_less_nat_alt i)
  then show "ref_cell (off i) = Some i"
    by (simp add: ref_cell_def m d i NET_QUEUE_CAPACITY_def)
qed

lemma good_base:
  assumes "good base b" and "base_ok base"
  shows "base \<le> nb_io_or_offset b" and "nb_io_or_offset b - base = off (idx_of base b)"
proof -
  have io: "nb_io_or_offset b = base + off (idx_of base b)" and i: "idx_of base b < 16"
    using assms(1) by (auto simp: good_def)
  have "unat base + 2048 * idx_of base b < 2 ^ 64" using assms(2) i by (simp add: base_ok_def)
  then have "unat (nb_io_or_offset b) = unat base + 2048 * idx_of base b"
    unfolding io off_def by (subst unat_plus_of_nat) simp
  then show "base \<le> nb_io_or_offset b" by (simp add: word_le_nat_alt)
  show "nb_io_or_offset b - base = off (idx_of base b)" using io by simp
qed

lemma good_shift:
  assumes "good base b"
  shows "good base' (b\<lparr>nb_io_or_offset := nb_io_or_offset b - base + base'\<rparr>)"
    and "idx_of base' (b\<lparr>nb_io_or_offset := nb_io_or_offset b - base + base'\<rparr>) = idx_of base b"
proof -
  show i: "idx_of base' (b\<lparr>nb_io_or_offset := nb_io_or_offset b - base + base'\<rparr>) = idx_of base b"
    by (simp add: idx_of_def)
  show "good base' (b\<lparr>nb_io_or_offset := nb_io_or_offset b - base + base'\<rparr>)"
    using assms unfolding good_def i by (simp add: net_buff_desc_oid_def)
qed

lemma good_len [simp]: "good base (b\<lparr>nb_len := len\<rparr>) = good base b" "idx_of base (b\<lparr>nb_len := len\<rparr>) = idx_of base b"
  by (simp_all add: good_def idx_of_def net_buff_desc_oid_def)

subsection \<open>Where the buffers are\<close>

text \<open>\<open>spread\<close> on the contents of the queues: free and active queue of the driver, the driver's
  hands, free and active queue of the copier, and the reference counts.\<close>

definition spread :: "u64 \<Rightarrow> net_buff_desc_t list \<Rightarrow> net_buff_desc_t list \<Rightarrow> net_buff_desc_t list \<Rightarrow>
    net_buff_desc_t list \<Rightarrow> net_buff_desc_t list \<Rightarrow> u8 list \<Rightarrow> bool" where
  "spread base df da dh cf ca refs \<longleftrightarrow>
     (\<forall>b\<in>set df \<union> set da \<union> set dh. good base b) \<and> (\<forall>b\<in>set cf \<union> set ca. good 0 b) \<and>
     (\<forall>b\<in>set ca. ucast (nb_len b) \<le> NET_BUFFER_SIZE) \<and>
     mset (map (idx_of base) (df @ da @ dh)) + mset (map (idx_of 0) (cf @ ca)) = mset [0..<16] \<and>
     16 \<le> length refs \<and> (\<forall>i<16. refs ! i = (if i \<in> idx_of 0 ` (set cf \<union> set ca) then 1 else 0))"

lemma spread_length:
  assumes "spread base df da dh cf ca refs"
  shows "length df + length da + length dh + length cf + length ca = 16"
proof -
  have "size (mset (map (idx_of base) (df @ da @ dh)) + mset (map (idx_of 0) (cf @ ca))) = size (mset [0..<16])"
    using assms by (simp only: spread_def)
  then show ?thesis by simp
qed

lemma spread_distinct:
  assumes "spread base df da dh cf ca refs"
  shows "distinct (map (idx_of base) (df @ da @ dh) @ map (idx_of 0) (cf @ ca))"
proof -
  have "mset (map (idx_of base) (df @ da @ dh) @ map (idx_of 0) (cf @ ca)) = mset [0..<16]"
    using assms by (simp only: spread_def mset_append)
  then show ?thesis by (metis distinct_upt mset_eq_imp_distinct_iff)
qed

text \<open>The five moves.\<close>

lemma spread_drop: "spread base df (b # da) dh cf ca refs \<Longrightarrow> spread base (df @ [b]) da dh cf ca refs"
  by (auto simp: spread_def)

lemma spread_copied: "spread base df da dh cf (b # ca) refs \<Longrightarrow> spread base df da dh (cf @ [b]) ca refs"
  by (auto simp: spread_def)

lemma spread_forward:
  assumes sp: "spread base df (b # da) dh cf ca refs" and len: "ucast (nb_len b) \<le> NET_BUFFER_SIZE"
    and b': "b' = b\<lparr>nb_io_or_offset := nb_io_or_offset b - base\<rparr>"
  shows "refs ! idx_of base b = 0" and "spread base df da dh cf (ca @ [b']) (refs[idx_of base b := 1])"
proof -
  let ?i = "idx_of base b"
  have gb: "good base b" and i: "?i < 16" using sp by (auto simp: spread_def good_def)
  have b0: "good 0 b'" "idx_of 0 b' = ?i" using good_shift [OF gb, of 0] b' by simp_all
  have free: "?i \<notin> idx_of 0 ` (set cf \<union> set ca)" using spread_distinct [OF sp] by auto
  then show "refs ! ?i = 0" using sp i by (auto simp: spread_def)
  show "spread base df da dh cf (ca @ [b']) (refs[?i := 1])"
    using sp b0 i len b' by (auto simp: spread_def nth_list_update)
qed

lemma spread_provide:
  assumes sp: "spread base df da dh (b # cf) ca refs" and b': "b' = b\<lparr>nb_io_or_offset := nb_io_or_offset b + base\<rparr>"
  shows "refs ! idx_of 0 b = 1" and "spread base (df @ [b']) da dh cf ca (refs[idx_of 0 b := 0])"
proof -
  let ?i = "idx_of 0 b"
  have gb: "good 0 b" and i: "?i < 16" using sp by (auto simp: spread_def good_def)
  have b0: "good base b'" "idx_of base b' = ?i" using good_shift [OF gb, of base] b' by simp_all
  show "refs ! ?i = 1" using sp i by (auto simp: spread_def)
  have "?i \<notin> idx_of 0 ` (set cf \<union> set ca)" using spread_distinct [OF sp] by auto
  then show "spread base (df @ [b']) da dh cf ca (refs[?i := 0])"
    using sp b0 i by (auto simp: spread_def nth_list_update)
qed

lemma spread_take: "spread base (b # df) da dh cf ca refs \<Longrightarrow> spread base df da (dh @ [b]) cf ca refs"
  by (auto simp: spread_def)

lemma spread_deliver:
  assumes "spread base df da (hs @ b # hs') cf ca refs"
  shows "spread base df (da @ [b\<lparr>nb_len := len\<rparr>]) (hs @ hs') cf ca refs"
  using assms by (auto simp: spread_def)

subsection \<open>The system\<close>

text \<open>The queues between the virtualiser and the copier are kept in the virtualiser's state; a step
  of the copier runs on them.\<close>

record rx_path =
  rp_virt :: net_virt_rx
  rp_copy :: net_copy
  rp_drv_held :: "net_buff_desc_t list"
  rp_cli_held :: "net_buff_desc_t list"

definition copier_of :: "rx_path \<Rightarrow> net_copy" where
  "copier_of s = (rp_copy s)\<lparr>nc_virt := vr_copier (rp_virt s)\<rparr>"

definition with_copier :: "net_copy \<Rightarrow> rx_path \<Rightarrow> rx_path" where
  "with_copier c s = s\<lparr>rp_virt := (rp_virt s)\<lparr>vr_copier := nc_virt c\<rparr>, rp_copy := c\<rparr>"

definition handle16 :: "net_queue_handle_t \<Rightarrow> bool" where
  "handle16 h \<longleftrightarrow> net_ready h \<and> nq_capacity h = 16"

definition virt_inv :: "net_virt_rx_config_t \<Rightarrow> net_buff_desc_t list \<Rightarrow> net_virt_rx \<Rightarrow> bool" where
  "virt_inv cfg held v \<longleftrightarrow> handle16 (vr_driver v) \<and> handle16 (vr_copier v) \<and>
     spread (vrc_io_addr cfg) (free_items (vr_driver v)) (active_items (vr_driver v)) held
       (free_items (vr_copier v)) (active_items (vr_copier v)) (vr_refs v)"

definition client_inv :: "net_buff_desc_t list \<Rightarrow> net_queue_handle_t \<Rightarrow> bool" where
  "client_inv held h \<longleftrightarrow> handle16 h \<and> (\<forall>b\<in>set (free_items h @ active_items h @ held). good 0 b) \<and>
     mset (map (idx_of 0) (free_items h @ active_items h @ held)) = mset [0..<16]"

definition cfg_ok :: "net_virt_rx_config_t \<Rightarrow> bool" where
  "cfg_ok cfg \<longleftrightarrow> vrc_num_clients cfg = 1 \<and> unat (vrc_num_macs cfg) \<le> length (vrc_mac_addrs cfg) \<and>
     base_ok (vrc_io_addr cfg)"

lemma virt_inv_room:
  assumes "virt_inv cfg held v"
  shows "active_items (vr_driver v) \<noteq> [] \<Longrightarrow> length (free_items (vr_driver v)) < 16"
    and "active_items (vr_driver v) \<noteq> [] \<Longrightarrow> length (active_items (vr_copier v)) < 16"
    and "free_items (vr_copier v) \<noteq> [] \<Longrightarrow> length (free_items (vr_driver v)) < 16"
    and "active_items (vr_copier v) \<noteq> [] \<Longrightarrow> length (free_items (vr_copier v)) < 16"
    and "held \<noteq> [] \<Longrightarrow> length (active_items (vr_driver v)) < 16"
  using assms by (auto simp: virt_inv_def dest!: spread_length simp flip: length_greater_0_conv)

lemma deq_active16:
  assumes "handle16 h" and "active_items h = b # bs"
  obtains h' where "net_dequeue_active h out = (0, b, h')" "handle16 h'" "active_items h' = bs" "free_items h' = free_items h"
  using net_dequeue_active_first [of h b bs out] assms by (fastforce simp: handle16_def free_items_def)

lemma deq_free16:
  assumes "handle16 h" and "free_items h = b # bs"
  obtains h' where "net_dequeue_free h out = (0, b, h')" "handle16 h'" "free_items h' = bs" "active_items h' = active_items h"
  using net_dequeue_free_first [of h b bs out] assms by (fastforce simp: handle16_def active_items_def)

lemma enq_active16:
  assumes "handle16 h" and "length (active_items h) < 16"
  obtains h' where "net_enqueue_active h b = (0, h')" "handle16 h'" "active_items h' = active_items h @ [b]" "free_items h' = free_items h"
  using net_enqueue_active_room [of h b] assms by (fastforce simp: handle16_def free_items_def)

lemma enq_free16:
  assumes "handle16 h" and "length (free_items h) < 16"
  obtains h' where "net_enqueue_free h b = (0, h')" "handle16 h'" "free_items h' = free_items h @ [b]" "active_items h' = active_items h"
  using net_enqueue_free_room [of h b] assms by (fastforce simp: handle16_def active_items_def)

subsection \<open>Steps of the virtualiser and the copier\<close>

lemma frame_dest_cases:
  assumes "cfg_ok cfg"
  obtains "frame_dest cfg data b = Some Drop"
  | d where "frame_dest cfg data b = Some d" "d = Client \<or> d = Broadcast" "ucast (nb_len b) \<le> NET_BUFFER_SIZE"
proof -
  have "frame_dest cfg data b \<noteq> None" using assms by (simp add: frame_dest_def cfg_ok_def Let_def)
  moreover have "ucast (nb_len b) \<le> NET_BUFFER_SIZE" if "frame_dest cfg data b = Some d" "d \<noteq> Drop" for d
    using that by (auto simp: frame_dest_def not_less split: if_splits)
  ultimately show ?thesis using that by (cases "frame_dest cfg data b") (metis Dest.exhaust option.sel)+
qed

lemma forward_active_inv:
  assumes cfg: "cfg_ok cfg" and inv: "virt_inv cfg held v" and ne: "active_items (vr_driver v) = b # bs"
  shows "\<exists>moved v'. forward_active cfg data v = Some (moved, v') \<and> virt_inv cfg held v' \<and>
    active_items (vr_driver v') = bs \<and>
    (let b' = b\<lparr>nb_io_or_offset := nb_io_or_offset b - vrc_io_addr cfg\<rparr>
     in moved = (frame_dest cfg data b' \<noteq> Some Drop) \<and>
        active_items (vr_copier v') = active_items (vr_copier v) @ (if moved then [b'] else []))"
proof -
  let ?base = "vrc_io_addr cfg" and ?b = "b\<lparr>nb_io_or_offset := nb_io_or_offset b - vrc_io_addr cfg\<rparr>"
  have hd: "handle16 (vr_driver v)" and hc: "handle16 (vr_copier v)"
    and sp: "spread ?base (free_items (vr_driver v)) (b # bs) held (free_items (vr_copier v)) (active_items (vr_copier v)) (vr_refs v)"
    using inv ne by (auto simp: virt_inv_def)
  have gb: "good ?base b" and i: "idx_of ?base b < 16" using sp by (auto simp: spread_def good_def)
  have bo: "base_ok ?base" using cfg by (simp add: cfg_ok_def)
  note gbase = good_base [OF gb bo] and off = off_facts [OF i]
  have ne': "active_items (vr_driver v) \<noteq> []" using ne by simp
  obtain h where deq: "net_dequeue_active (vr_driver v) (net_buff_desc_new 0 0 0) = (0, b, h)" "handle16 h"
    "active_items h = bs" "free_items h = free_items (vr_driver v)" using hd ne by (rule deq_active16)
  have enter: "forward_active cfg data v =
      (case frame_dest cfg data ?b of None \<Rightarrow> None
       | Some Drop \<Rightarrow> map_option (\<lambda>s2. (False, s2)) (return_driver ?b ?base (v\<lparr>vr_driver := h\<rparr>))
       | Some dest \<Rightarrow> enqueue_copier cfg ?b dest (v\<lparr>vr_driver := h\<rparr>))"
    using deq(1) gbase off by (simp add: forward_active_def NET_QUEUE_CAPACITY_def Let_def split: option.split Dest.split)
  show ?thesis
  proof (cases rule: frame_dest_cases [OF cfg, of data ?b])
    case 1
    obtain h' where enq: "net_enqueue_free h b = (0, h')" "handle16 h'"
      "free_items h' = free_items h @ [b]" "active_items h' = active_items h"
      using enq_free16 [OF deq(2), of b] virt_inv_room(1) [OF inv ne'] deq(4) by metis
    have "return_driver ?b ?base (v\<lparr>vr_driver := h\<rparr>) = Some (v\<lparr>vr_driver := h', vr_notify_driver := True\<rparr>)"
      using enq(1) by (simp add: return_driver_def)
    then show ?thesis using enter 1 enq deq hc spread_drop [OF sp] by (auto simp: virt_inv_def)
  next
    case (2 d)
    obtain h' where enq: "net_enqueue_active (vr_copier v) ?b = (0, h')" "handle16 h'"
      "active_items h' = active_items (vr_copier v) @ [?b]" "free_items h' = free_items (vr_copier v)"
      using enq_active16 [OF hc, of ?b] virt_inv_room(2) [OF inv ne'] by metis
    have len: "ucast (nb_len b) \<le> NET_BUFFER_SIZE" using 2(3) by simp
    note fw = spread_forward [OF sp len refl]
    have "(if d = Broadcast then vrc_num_clients cfg else 1) = 1" using cfg by (simp add: cfg_ok_def)
    then have "enqueue_copier cfg ?b d (v\<lparr>vr_driver := h\<rparr>) =
        Some (True, v\<lparr>vr_driver := h, vr_copier := h', vr_refs := (vr_refs v)[idx_of ?base b := 1]\<rparr>)"
      using enq(1) gbase(2) off(4) fw(1) by (simp add: enqueue_copier_def Let_def)
    then show ?thesis using enter 2 enq deq fw(2) by (auto simp: virt_inv_def)
  qed
qed

lemma provide_one_inv:
  assumes cfg: "cfg_ok cfg" and inv: "virt_inv cfg held v" and ne: "free_items (vr_copier v) = b # bs"
  shows "\<exists>v'. provide_one cfg v = Some v' \<and> virt_inv cfg held v' \<and> free_items (vr_copier v') = bs \<and>
    active_items (vr_driver v') = active_items (vr_driver v)"
proof -
  let ?base = "vrc_io_addr cfg" and ?b = "b\<lparr>nb_io_or_offset := nb_io_or_offset b + vrc_io_addr cfg\<rparr>"
  have hd: "handle16 (vr_driver v)" and hc: "handle16 (vr_copier v)"
    and sp: "spread ?base (free_items (vr_driver v)) (active_items (vr_driver v)) held (b # bs) (active_items (vr_copier v)) (vr_refs v)"
    using inv ne by (auto simp: virt_inv_def)
  have io: "nb_io_or_offset b = off (idx_of 0 b)" and i: "idx_of 0 b < 16" using sp by (auto simp: spread_def good_def)
  note off = off_facts [OF i]
  have ne': "free_items (vr_copier v) \<noteq> []" using ne by simp
  obtain h where deq: "net_dequeue_free (vr_copier v) (net_buff_desc_new 0 0 0) = (0, b, h)" "handle16 h"
    "free_items h = bs" "active_items h = active_items (vr_copier v)" using hc ne by (rule deq_free16)
  obtain h' where enq: "net_enqueue_free (vr_driver v) ?b = (0, h')" "handle16 h'"
    "free_items h' = free_items (vr_driver v) @ [?b]" "active_items h' = active_items (vr_driver v)"
    using enq_free16 [OF hd, of ?b] virt_inv_room(3) [OF inv ne'] by metis
  note pv = spread_provide [OF sp refl]
  have "nq_capacity (vr_driver v) = 16" using hd by (simp add: handle16_def)
  then have "provide_one cfg v = Some (v\<lparr>vr_driver := h', vr_copier := h, vr_refs := (vr_refs v)[idx_of 0 b := 0], vr_notify_driver := True\<rparr>)"
    using deq(1) enq(1) off pv(1) by (simp add: provide_one_def io Let_def)
  then show ?thesis using deq enq pv(2) by (simp add: virt_inv_def)
qed

lemma client_inv_room:
  assumes "client_inv held h"
  shows "free_items h \<noteq> [] \<Longrightarrow> length (active_items h) < 16" and "held \<noteq> [] \<Longrightarrow> length (free_items h) < 16"
proof -
  have "size (mset (map (idx_of 0) (free_items h @ active_items h @ held))) = size (mset [0..<16])"
    using assms by (simp only: client_inv_def)
  then show "free_items h \<noteq> [] \<Longrightarrow> length (active_items h) < 16" "held \<noteq> [] \<Longrightarrow> length (free_items h) < 16"
    by (auto simp flip: length_greater_0_conv)
qed

lemma good_offset_ok: "good 0 b \<Longrightarrow> offset_ok (nb_io_or_offset b) 16"
  using off_facts [of "idx_of 0 b"] by (auto simp: good_def offset_ok_def)

text \<open>A copied frame arrives unchanged in the client's buffer, and no other byte of the client's
  region changes.\<close>

definition frame_copied :: "net_buff_desc_t \<Rightarrow> net_buff_desc_t \<Rightarrow> net_copy \<Rightarrow> net_copy \<Rightarrow> bool" where
  "frame_copied b cb c c' \<longleftrightarrow>
     (\<forall>k<unat (nb_len b). nc_client_data c' (unat (nb_io_or_offset cb) + k) = nc_virt_data c (unat (nb_io_or_offset b) + k)) \<and>
     (\<forall>i. i < unat (nb_io_or_offset cb) \<or> unat (nb_io_or_offset cb) + 2048 \<le> i \<longrightarrow> nc_client_data c' i = nc_client_data c i)"

lemma copy_frame_inv:
  assumes inv: "virt_inv cfg dheld v" and cinv: "client_inv cheld (nc_client c)" and vc: "nc_virt c = vr_copier v"
    and ne: "active_items (vr_copier v) = b # bs" and cne: "free_items (nc_client c) = cb # cbs"
  shows "\<exists>c'. copy_frame c = Some c' \<and> virt_inv cfg dheld (v\<lparr>vr_copier := nc_virt c'\<rparr>) \<and>
    client_inv cheld (nc_client c') \<and> active_items (nc_virt c') = bs \<and>
    active_items (nc_client c') = active_items (nc_client c) @ [cb\<lparr>nb_len := nb_len b\<rparr>] \<and>
    nc_virt_data c' = nc_virt_data c \<and> frame_copied b cb c c'"
proof -
  have hc: "handle16 (vr_copier v)" and sp: "spread (vrc_io_addr cfg) (free_items (vr_driver v)) (active_items (vr_driver v))
      dheld (free_items (vr_copier v)) (b # bs) (vr_refs v)" using inv ne by (auto simp: virt_inv_def)
  have gb: "good 0 b" and len: "ucast (nb_len b) \<le> NET_BUFFER_SIZE" and oid: "net_buff_desc_oid b = 0"
    using sp by (auto simp: spread_def good_def)
  have hl: "handle16 (nc_client c)" and gcb: "good 0 cb" using cinv cne by (auto simp: client_inv_def)
  have room: "length (free_items (vr_copier v)) < 16" "length (active_items (nc_client c)) < 16"
    using virt_inv_room(4) [OF inv] client_inv_room(1) [OF cinv] ne cne by auto
  obtain hl1 where d1: "net_dequeue_free (nc_client c) (net_buff_desc_new 0 0 0) = (0, cb, hl1)" "handle16 hl1"
    "free_items hl1 = cbs" "active_items hl1 = active_items (nc_client c)" using hl cne by (rule deq_free16)
  obtain hc1 where d2: "net_dequeue_active (vr_copier v) (net_buff_desc_new 0 0 0) = (0, b, hc1)" "handle16 hc1"
    "active_items hc1 = bs" "free_items hc1 = free_items (vr_copier v)" using hc ne by (rule deq_active16)
  obtain hl2 where e1: "net_enqueue_active hl1 (cb\<lparr>nb_len := nb_len b\<rparr>) = (0, hl2)" "handle16 hl2"
    "active_items hl2 = active_items hl1 @ [cb\<lparr>nb_len := nb_len b\<rparr>]" "free_items hl2 = free_items hl1"
    using enq_active16 [OF d1(2)] room(2) d1(4) by metis
  obtain hc2 where e2: "net_enqueue_free hc1 b = (0, hc2)" "handle16 hc2" "free_items hc2 = free_items hc1 @ [b]"
    "active_items hc2 = active_items hc1" using enq_free16 [OF d2(2)] room(1) d2(4) by metis
  have cap: "nq_capacity hl1 = 16" "nq_capacity hc1 = 16" using d1(2) d2(2) by (simp_all add: handle16_def)
  let ?c = "c\<lparr>nc_virt := hc2, nc_client := hl2, nc_client_data := copy_bytes (nc_virt_data c) (unat (nb_io_or_offset b))
    (nc_client_data c) (unat (nb_io_or_offset cb)) (unat (nb_len b))\<rparr>"
  have run: "copy_frame c = Some ?c"
    using d1(1) d2(1) e1(1) e2(1) vc cap oid len good_offset_ok [OF gb] good_offset_ok [OF gcb]
    by (simp add: copy_frame_def Let_def)
  have "unat (nb_len b) \<le> 2048"
    using len by (simp add: NET_BUFFER_SIZE_def word_le_nat_alt unat_ucast_up)
  then have "frame_copied b cb c ?c" by (auto simp: frame_copied_def copy_bytes_def)
  moreover have "client_inv cheld hl2"
    using cinv cne d1 e1 by (auto simp: client_inv_def)
  moreover have "virt_inv cfg dheld (v\<lparr>vr_copier := hc2\<rparr>)"
    using inv spread_copied [OF sp] d2 e2 by (auto simp: virt_inv_def)
  ultimately show ?thesis using run d1 d2 e1 e2 by auto
qed

lemma return_virt_buffer_inv:
  assumes inv: "virt_inv cfg dheld v" and vc: "nc_virt c = vr_copier v" and ne: "active_items (vr_copier v) = b # bs"
  shows "\<exists>h. return_virt_buffer c = Some (c\<lparr>nc_virt := h\<rparr>) \<and> virt_inv cfg dheld (v\<lparr>vr_copier := h\<rparr>) \<and> active_items h = bs"
proof -
  have hc: "handle16 (vr_copier v)" and sp: "spread (vrc_io_addr cfg) (free_items (vr_driver v)) (active_items (vr_driver v))
      dheld (free_items (vr_copier v)) (b # bs) (vr_refs v)" using inv ne by (auto simp: virt_inv_def)
  have room: "length (free_items (vr_copier v)) < 16" using virt_inv_room(4) [OF inv] ne by auto
  obtain hc1 where d: "net_dequeue_active (vr_copier v) (net_buff_desc_new 0 0 0) = (0, b, hc1)" "handle16 hc1"
    "active_items hc1 = bs" "free_items hc1 = free_items (vr_copier v)" using hc ne by (rule deq_active16)
  obtain hc2 where e: "net_enqueue_free hc1 b = (0, hc2)" "handle16 hc2" "free_items hc2 = free_items hc1 @ [b]"
    "active_items hc2 = active_items hc1" using enq_free16 [OF d(2)] room d(4) by metis
  have "return_virt_buffer c = Some (c\<lparr>nc_virt := hc2\<rparr>)" using d(1) e(1) vc by (simp add: return_virt_buffer_def)
  then show ?thesis using inv spread_copied [OF sp] d e by (auto simp: virt_inv_def)
qed

lemma copy_one_inv:
  assumes inv: "virt_inv cfg dheld v" and cinv: "client_inv cheld (nc_client c)" and vc: "nc_virt c = vr_copier v"
    and ne: "active_items (vr_copier v) = b # bs"
  shows "\<exists>copied c'. copy_one c = Some (copied, c') \<and> virt_inv cfg dheld (v\<lparr>vr_copier := nc_virt c'\<rparr>) \<and>
    client_inv cheld (nc_client c') \<and> active_items (nc_virt c') = bs \<and>
    copied = (free_items (nc_client c) \<noteq> [])"
proof (cases "free_items (nc_client c)")
  case Nil
  then show ?thesis using return_virt_buffer_inv [OF inv vc ne] cinv by (auto simp: copy_one_def net_empty_full_iff)
next
  case (Cons cb cbs)
  then show ?thesis using copy_frame_inv [OF inv cinv vc ne Cons] by (auto simp: copy_one_def net_empty_full_iff)
qed

subsection \<open>Interleaved runs\<close>

definition signal_ops :: "(net_queue_handle_t \<Rightarrow> net_queue_handle_t) set" where
  "signal_ops = {net_request_signal_free, net_request_signal_active, net_cancel_signal_free, net_cancel_signal_active}"

definition put_virt :: "net_virt_rx \<Rightarrow> rx_path \<Rightarrow> rx_path" where
  "put_virt v s = s\<lparr>rp_virt := v\<rparr>"

definition put_driver :: "net_queue_handle_t \<Rightarrow> rx_path \<Rightarrow> rx_path" where
  "put_driver h s = s\<lparr>rp_virt := (rp_virt s)\<lparr>vr_driver := h\<rparr>\<rparr>"

definition put_client :: "net_queue_handle_t \<Rightarrow> rx_path \<Rightarrow> rx_path" where
  "put_client h s = s\<lparr>rp_copy := (rp_copy s)\<lparr>nc_client := h\<rparr>\<rparr>"

inductive rx_step :: "net_virt_rx_config_t \<Rightarrow> rx_path \<Rightarrow> rx_path \<Rightarrow> bool" for cfg where
  virt_forward: "\<not> net_queue_empty_active (vr_driver (rp_virt s)) \<Longrightarrow>
    forward_active cfg (nc_virt_data (rp_copy s)) (rp_virt s) = Some (moved, v) \<Longrightarrow> rx_step cfg s (put_virt v s)"
| virt_provide: "\<not> net_queue_empty_free (vr_copier (rp_virt s)) \<Longrightarrow>
    provide_one cfg (rp_virt s) = Some v \<Longrightarrow> rx_step cfg s (put_virt v s)"
| copier: "\<not> net_queue_empty_active (vr_copier (rp_virt s)) \<Longrightarrow>
    copy_one (copier_of s) = Some (copied, c) \<Longrightarrow> rx_step cfg s (with_copier c s)"
| driver_take: "net_dequeue_free (vr_driver (rp_virt s)) (net_buff_desc_new 0 0 0) = (0, b, h) \<Longrightarrow>
    rx_step cfg s ((put_driver h s)\<lparr>rp_drv_held := rp_drv_held s @ [b]\<rparr>)"
| driver_deliver: "rp_drv_held s = hs @ b # hs' \<Longrightarrow>
    net_enqueue_active (vr_driver (rp_virt s)) (b\<lparr>nb_len := len\<rparr>) = (0, h) \<Longrightarrow>
    rx_step cfg s ((put_driver h s)\<lparr>rp_copy := (rp_copy s)\<lparr>nc_virt_data := data\<rparr>, rp_drv_held := hs @ hs'\<rparr>)"
| client_take: "net_dequeue_active (nc_client (rp_copy s)) (net_buff_desc_new 0 0 0) = (0, b, h) \<Longrightarrow>
    rx_step cfg s ((put_client h s)\<lparr>rp_cli_held := rp_cli_held s @ [b]\<rparr>)"
| client_return: "rp_cli_held s = hs @ b # hs' \<Longrightarrow>
    net_enqueue_free (nc_client (rp_copy s)) (b\<lparr>nb_len := len\<rparr>) = (0, h) \<Longrightarrow>
    rx_step cfg s ((put_client h s)\<lparr>rp_cli_held := hs @ hs'\<rparr>)"
| signal_driver: "f \<in> signal_ops \<Longrightarrow> rx_step cfg s (put_driver (f (vr_driver (rp_virt s))) s)"
| signal_copier: "f \<in> signal_ops \<Longrightarrow>
    rx_step cfg s (put_virt ((rp_virt s)\<lparr>vr_copier := f (vr_copier (rp_virt s))\<rparr>) s)"
| signal_client: "f \<in> signal_ops \<Longrightarrow> rx_step cfg s (put_client (f (nc_client (rp_copy s))) s)"

definition rx_inv :: "net_virt_rx_config_t \<Rightarrow> rx_path \<Rightarrow> bool" where
  "rx_inv cfg s \<longleftrightarrow> virt_inv cfg (rp_drv_held s) (rp_virt s) \<and> client_inv (rp_cli_held s) (nc_client (rp_copy s))"

lemma handle16_signal [simp]:
  "f \<in> signal_ops \<Longrightarrow> handle16 (f h) = handle16 h" "f \<in> signal_ops \<Longrightarrow> free_items (f h) = free_items h"
  "f \<in> signal_ops \<Longrightarrow> active_items (f h) = active_items h"
  by (auto simp: signal_ops_def handle16_def)

lemma dequeued16:
  assumes "handle16 h"
  shows "net_dequeue_free h out = (0, b, h') \<Longrightarrow>
      handle16 h' \<and> free_items h = b # free_items h' \<and> active_items h' = active_items h"
    and "net_dequeue_active h out = (0, b, h') \<Longrightarrow>
      handle16 h' \<and> active_items h = b # active_items h' \<and> free_items h' = free_items h"
proof -
  have f: "free_items h \<noteq> []" if "net_dequeue_free h out = (0, b, h')"
    using that net_empty_full_iff(1) [of h] by (auto simp: net_dequeue_free_def net_dequeue_def split: prod.splits if_splits)
  have a: "active_items h \<noteq> []" if "net_dequeue_active h out = (0, b, h')"
    using that net_empty_full_iff(2) [of h] by (auto simp: net_dequeue_active_def net_dequeue_def split: prod.splits if_splits)
  show "handle16 h' \<and> free_items h = b # free_items h' \<and> active_items h' = active_items h"
    if "net_dequeue_free h out = (0, b, h')"
    using f [OF that] that by (cases "free_items h") (auto elim!: deq_free16 [OF assms, where out = out])
  show "handle16 h' \<and> active_items h = b # active_items h' \<and> free_items h' = free_items h"
    if "net_dequeue_active h out = (0, b, h')"
    using a [OF that] that by (cases "active_items h") (auto elim!: deq_active16 [OF assms, where out = out])
qed

lemma enqueued16:
  assumes "handle16 h"
  shows "net_enqueue_free h b = (0, h') \<Longrightarrow> length (free_items h) < 16 \<Longrightarrow>
      handle16 h' \<and> free_items h' = free_items h @ [b] \<and> active_items h' = active_items h"
    and "net_enqueue_active h b = (0, h') \<Longrightarrow> length (active_items h) < 16 \<Longrightarrow>
      handle16 h' \<and> active_items h' = active_items h @ [b] \<and> free_items h' = free_items h"
  using enq_free16 [OF assms, of b] enq_active16 [OF assms, of b] by (metis Pair_inject)+

lemma rx_step_inv:
  assumes "rx_step cfg s s'" and cfg: "cfg_ok cfg" and inv: "rx_inv cfg s"
  shows "rx_inv cfg s'"
proof -
  have v: "virt_inv cfg (rp_drv_held s) (rp_virt s)" and c: "client_inv (rp_cli_held s) (nc_client (rp_copy s))"
    using inv by (simp_all add: rx_inv_def)
  from assms(1) show ?thesis
proof cases
  case (virt_forward moved v)
  then obtain b bs where ne: "active_items (vr_driver (rp_virt s)) = b # bs" by (metis net_empty_full_iff(2) neq_Nil_conv)
  show ?thesis using forward_active_inv [OF cfg v ne, of "nc_virt_data (rp_copy s)"] virt_forward c
    by (auto simp: rx_inv_def put_virt_def)
next
  case (virt_provide v)
  then obtain b bs where ne: "free_items (vr_copier (rp_virt s)) = b # bs" by (metis net_empty_full_iff(1) neq_Nil_conv)
  show ?thesis using provide_one_inv [OF cfg v ne] virt_provide c by (auto simp: rx_inv_def put_virt_def)
next
  case (copier copied c)
  then obtain b bs where ne: "active_items (vr_copier (rp_virt s)) = b # bs" by (metis net_empty_full_iff(2) neq_Nil_conv)
  have "client_inv (rp_cli_held s) (nc_client (copier_of s))" "nc_virt (copier_of s) = vr_copier (rp_virt s)"
    using c by (simp_all add: copier_of_def)
  from copy_one_inv [OF v this ne] show ?thesis using copier by (auto simp: rx_inv_def with_copier_def)
next
  case (driver_take b h)
  then have "handle16 h \<and> free_items (vr_driver (rp_virt s)) = b # free_items h \<and>
      active_items h = active_items (vr_driver (rp_virt s))"
    using inv by (intro dequeued16(1)) (simp_all add: rx_inv_def virt_inv_def)
  then show ?thesis using inv driver_take(1) spread_take by (simp add: rx_inv_def virt_inv_def put_driver_def)
next
  case (driver_deliver hs b hs' len h data)
  have "length (active_items (vr_driver (rp_virt s))) < 16"
    using virt_inv_room(5) [of cfg "rp_drv_held s"] inv driver_deliver by (simp add: rx_inv_def)
  then have "handle16 h \<and> active_items h = active_items (vr_driver (rp_virt s)) @ [b\<lparr>nb_len := len\<rparr>] \<and>
      free_items h = free_items (vr_driver (rp_virt s))"
    using inv driver_deliver(3) by (intro enqueued16(2)) (simp_all add: rx_inv_def virt_inv_def)
  then show ?thesis using inv driver_deliver(1,2) spread_deliver [of _ _ _ hs b hs']
    by (simp add: rx_inv_def virt_inv_def put_driver_def)
next
  case (client_take b h)
  then have "handle16 h \<and> active_items (nc_client (rp_copy s)) = b # active_items h \<and>
      free_items h = free_items (nc_client (rp_copy s))"
    using inv by (intro dequeued16(2)) (simp_all add: rx_inv_def client_inv_def)
  then show ?thesis using inv client_take(1) by (simp add: rx_inv_def client_inv_def put_client_def)
next
  case (client_return hs b hs' len h)
  have "length (free_items (nc_client (rp_copy s))) < 16"
    using client_inv_room(2) [of "rp_cli_held s"] inv client_return by (simp add: rx_inv_def)
  then have "handle16 h \<and> free_items h = free_items (nc_client (rp_copy s)) @ [b\<lparr>nb_len := len\<rparr>] \<and>
      active_items h = active_items (nc_client (rp_copy s))"
    using inv client_return(3) by (intro enqueued16(1)) (simp_all add: rx_inv_def client_inv_def)
  then show ?thesis using inv client_return(1,2) by (simp add: rx_inv_def client_inv_def put_client_def)
qed (use inv in \<open>simp_all add: rx_inv_def virt_inv_def client_inv_def put_virt_def put_driver_def put_client_def\<close>)
qed

definition rx_panics :: "net_virt_rx_config_t \<Rightarrow> rx_path \<Rightarrow> bool" where
  "rx_panics cfg s \<longleftrightarrow>
     \<not> net_queue_empty_active (vr_driver (rp_virt s)) \<and> forward_active cfg (nc_virt_data (rp_copy s)) (rp_virt s) = None \<or>
     \<not> net_queue_empty_free (vr_copier (rp_virt s)) \<and> provide_one cfg (rp_virt s) = None \<or>
     \<not> net_queue_empty_active (vr_copier (rp_virt s)) \<and> copy_one (copier_of s) = None"

lemma rx_inv_no_panic:
  assumes "cfg_ok cfg" and "rx_inv cfg s"
  shows "\<not> rx_panics cfg s"
proof -
  have v: "virt_inv cfg (rp_drv_held s) (rp_virt s)" and c: "client_inv (rp_cli_held s) (nc_client (copier_of s))"
    and q: "nc_virt (copier_of s) = vr_copier (rp_virt s)"
    using assms(2) by (simp_all add: rx_inv_def copier_of_def)
  have "forward_active cfg (nc_virt_data (rp_copy s)) (rp_virt s) \<noteq> None" if "active_items (vr_driver (rp_virt s)) = b # bs" for b bs
    using forward_active_inv [OF assms(1) v that] by fastforce
  moreover have "provide_one cfg (rp_virt s) \<noteq> None" if "free_items (vr_copier (rp_virt s)) = b # bs" for b bs
    using provide_one_inv [OF assms(1) v that] by fastforce
  moreover have "copy_one (copier_of s) \<noteq> None" if "active_items (vr_copier (rp_virt s)) = b # bs" for b bs
    using copy_one_inv [OF v c q that] by fastforce
  ultimately show ?thesis
    unfolding rx_panics_def net_empty_full_iff by (metis neq_Nil_conv)
qed

subsection \<open>Start and whole handlers\<close>

definition fresh_conn :: "net_connection_resource_t \<Rightarrow> bool" where
  "fresh_conn conn \<longleftrightarrow> handle16 (net_queue_from conn) \<and> free_items (net_queue_from conn) = [] \<and>
     active_items (net_queue_from conn) = []"

lemma net_buffer_good:
  assumes "i < 16"
  shows "good base (net_buffer base i)" and "idx_of base (net_buffer base i) = i"
proof -
  have io: "nb_io_or_offset (net_buffer base i) = base + off i"
    by (simp add: net_buffer_def net_buff_desc_new_def off_def NET_BUFFER_SIZE_def)
  then show i: "idx_of base (net_buffer base i) = i" using unat_off [OF assms] by (simp add: idx_of_def)
  show "good base (net_buffer base i)" unfolding good_def i io using assms
    by (simp add: net_buffer_def net_buff_desc_new_def net_buff_desc_oid_def)
qed

lemma buffers_init16:
  assumes "handle16 h" and "free_items h = []"
  shows "handle16 (net_buffers_init h base)" and "free_items (net_buffers_init h base) = map (net_buffer base) [0..<16]"
    and "active_items (net_buffers_init h base) = active_items h"
  using net_buffers_init_upto [of h 16 base] assms
  by (auto simp: handle16_def net_buffers_init_def active_items_def)

lemma all_buffers: "map (idx_of base) (map (net_buffer base) [0..<16]) = [0..<16]"
  by (rule nth_equalityI) (auto simp: net_buffer_good)

lemma all_buffers_mset [simp]:
  "image_mset (idx_of base) (image_mset (net_buffer base) (mset_set {0..<16})) = mset_set {0..<16}"
  using arg_cong [OF all_buffers [of base], of mset] by (simp del: map_map)

lemma virt_init_state:
  assumes "net_virt_rx_init cfg = Some v" and "fresh_conn (vrc_driver cfg)" and "fresh_conn (vrc_client cfg)"
    and "vrc_metadata cfg = Some page" and "16 \<le> length page" and "\<forall>i<16. page ! i = 0"
  shows "virt_inv cfg [] v" and "free_items (vr_driver v) = map (net_buffer (vrc_io_addr cfg)) [0..<16]"
    and "active_items (vr_driver v) = []" and "active_items (vr_copier v) = []"
proof -
  let ?h = "net_queue_from (vrc_driver cfg)" and ?k = "net_queue_from (vrc_client cfg)"
  define v0 where "v0 = \<lparr>vr_driver = ?h, vr_copier = ?k, vr_driver_ch = conn_id (vrc_driver cfg),
    vr_copier_ch = conn_id (vrc_client cfg), vr_refs = page, vr_notify_driver = False, vr_notes = []\<rparr>"
  have e: "net_queue_empty_free ?k" using assms(3) by (simp add: fresh_conn_def net_empty_full_iff)
  have "rx_provide cfg v0 = Some (v0\<lparr>vr_copier := net_request_signal_free ?k\<rparr>)"
    using e by (simp add: rx_provide_def reprocess_free.simps provide_all.simps v0_def Let_def)
  then have "v = (let h = net_buffers_init ?h (vrc_io_addr cfg); s = v0\<lparr>vr_driver := h, vr_copier := net_request_signal_free ?k\<rparr>
      in if net_require_signal_free h then vr_notify (vr_driver_ch s) (s\<lparr>vr_driver := net_cancel_signal_free h\<rparr>) else s)"
    using assms(1,4) by (auto simp: net_virt_rx_init_def v0_def [symmetric] Let_def split: if_splits) (auto simp: v0_def)
  then show "virt_inv cfg [] v" "free_items (vr_driver v) = map (net_buffer (vrc_io_addr cfg)) [0..<16]"
    "active_items (vr_driver v) = []" "active_items (vr_copier v) = []"
    using assms(2,3,5,6) buffers_init16 [of ?h "vrc_io_addr cfg"]
    by (auto simp: Let_def virt_inv_def fresh_conn_def vr_notify_def v0_def spread_def net_buffer_good
        handle16_def simp del: map_map)
qed

lemma copy_init_state:
  assumes "net_copy_init ccfg = Some c" and "fresh_conn (ncc_client ccfg)"
  shows "client_inv [] (nc_client c)" and "free_items (nc_client c) = map (net_buffer 0) [0..<16]"
  using assms buffers_init16 [of "net_queue_from (ncc_client ccfg)" 0]
  by (auto simp: net_copy_init_def client_inv_def fresh_conn_def net_buffer_good Let_def
      split: if_splits option.splits simp del: map_map)

lemma forward_all_inv:
  assumes "cfg_ok cfg"
  shows "virt_inv cfg held v \<Longrightarrow> \<exists>n v'. forward_all cfg data notify v = Some (n, v') \<and> virt_inv cfg held v' \<and>
    active_items (vr_driver v') = []"
proof (induction "length (active_items (vr_driver v))" arbitrary: v notify)
  case 0
  then show ?case by (simp add: forward_all.simps net_empty_full_iff)
next
  case (Suc n)
  then obtain b bs where ne: "active_items (vr_driver v) = b # bs" by (metis length_Suc_conv)
  obtain moved v1 where "forward_active cfg data v = Some (moved, v1)" "virt_inv cfg held v1" "active_items (vr_driver v1) = bs"
    using forward_active_inv [OF assms Suc(3) ne] by blast
  then show ?case using Suc.hyps(1) [of v1 "notify \<or> moved"] Suc.hyps(2) ne
    by (simp add: forward_all.simps [of cfg data notify v] net_empty_full_iff)
qed

lemma provide_all_inv:
  assumes "cfg_ok cfg"
  shows "virt_inv cfg held v \<Longrightarrow> \<exists>v'. provide_all cfg v = Some v' \<and> virt_inv cfg held v' \<and>
    free_items (vr_copier v') = [] \<and> active_items (vr_driver v') = active_items (vr_driver v)"
proof (induction "length (free_items (vr_copier v))" arbitrary: v)
  case 0
  then show ?case by (simp add: provide_all.simps net_empty_full_iff)
next
  case (Suc n)
  then obtain b bs where ne: "free_items (vr_copier v) = b # bs" by (metis length_Suc_conv)
  obtain v1 where "provide_one cfg v = Some v1" "virt_inv cfg held v1" "free_items (vr_copier v1) = bs"
    "active_items (vr_driver v1) = active_items (vr_driver v)"
    using provide_one_inv [OF assms Suc(3) ne] by blast
  then show ?case using Suc.hyps(1) [of v1] Suc.hyps(2) ne
    by (simp add: provide_all.simps [of cfg v] net_empty_full_iff)
qed

lemma signal_inv [simp]:
  "f \<in> signal_ops \<Longrightarrow> virt_inv cfg held (v\<lparr>vr_driver := f (vr_driver v)\<rparr>) = virt_inv cfg held v"
  "f \<in> signal_ops \<Longrightarrow> virt_inv cfg held (v\<lparr>vr_copier := f (vr_copier v)\<rparr>) = virt_inv cfg held v"
  "virt_inv cfg held (vr_notify ch v) = virt_inv cfg held v"
  "virt_inv cfg held (v\<lparr>vr_notify_driver := flag\<rparr>) = virt_inv cfg held v"
  by (simp_all add: virt_inv_def vr_notify_def)

lemma signal_op_members [simp]:
  "net_request_signal_free \<in> signal_ops" "net_request_signal_active \<in> signal_ops"
  "net_cancel_signal_free \<in> signal_ops" "net_cancel_signal_active \<in> signal_ops"
  by (simp_all add: signal_ops_def)

lemma rx_return_inv:
  assumes "cfg_ok cfg" and "virt_inv cfg held v"
  shows "\<exists>v'. rx_return cfg data v = Some v' \<and> virt_inv cfg held v' \<and> active_items (vr_driver v') = []"
proof -
  obtain n v1 where f: "forward_all cfg data False v = Some (n, v1)" "virt_inv cfg held v1" "active_items (vr_driver v1) = []"
    using forward_all_inv [OF assms] by blast
  let ?v2 = "v1\<lparr>vr_driver := net_request_signal_active (vr_driver v1)\<rparr>"
  have "reprocess_active cfg data False v = Some (n, ?v2)"
    using f(1,3) by (simp add: reprocess_active.simps Let_def net_empty_full_iff)
  moreover have "virt_inv cfg held ?v2" using f(2) by simp
  ultimately show ?thesis using f(3) by (auto simp: rx_return_def vr_notify_def virt_inv_def)
qed

lemma rx_provide_inv:
  assumes "cfg_ok cfg" and "virt_inv cfg held v"
  shows "\<exists>v'. rx_provide cfg v = Some v' \<and> virt_inv cfg held v' \<and> free_items (vr_copier v') = [] \<and>
    active_items (vr_driver v') = active_items (vr_driver v)"
proof -
  obtain v1 where f: "provide_all cfg v = Some v1" "virt_inv cfg held v1" "free_items (vr_copier v1) = []"
    "active_items (vr_driver v1) = active_items (vr_driver v)"
    using provide_all_inv [OF assms] by blast
  let ?v2 = "v1\<lparr>vr_copier := net_request_signal_free (vr_copier v1)\<rparr>"
  have "reprocess_free cfg v = Some ?v2"
    using f(1,3) by (simp add: reprocess_free.simps Let_def net_empty_full_iff)
  moreover have "virt_inv cfg held ?v2" using f(2) by simp
  ultimately show ?thesis using f(3,4) by (auto simp: rx_provide_def vr_notify_def virt_inv_def)
qed

subsection \<open>Properties\<close>

text \<open>The system after both domains have started on empty queues and a zeroed page of reference
  counts.\<close>

definition rx_started :: "net_virt_rx_config_t \<Rightarrow> net_copy_config_t \<Rightarrow> rx_path \<Rightarrow> bool" where
  "rx_started cfg ccfg s \<longleftrightarrow> cfg_ok cfg \<and>
     fresh_conn (vrc_driver cfg) \<and> fresh_conn (vrc_client cfg) \<and> fresh_conn (ncc_client ccfg) \<and>
     (case vrc_metadata cfg of None \<Rightarrow> False | Some page \<Rightarrow> 16 \<le> length page \<and> list_all (\<lambda>i. page ! i = 0) [0..<16]) \<and>
     (\<exists>v c. net_virt_rx_init cfg = Some v \<and> net_copy_init ccfg = Some c \<and>
       s = \<lparr>rp_virt = v, rp_copy = c, rp_drv_held = [], rp_cli_held = []\<rparr>)"

lemma rx_started_state:
  assumes "rx_started cfg ccfg s"
  shows "\<exists>page. net_virt_rx_init cfg = Some (rp_virt s) \<and> net_copy_init ccfg = Some (rp_copy s) \<and>
    vrc_metadata cfg = Some page \<and> 16 \<le> length page \<and> (\<forall>i<16. page ! i = 0) \<and>
    fresh_conn (vrc_driver cfg) \<and> fresh_conn (vrc_client cfg) \<and> fresh_conn (ncc_client ccfg) \<and> rp_drv_held s = []"
  using assms by (auto simp: rx_started_def list_all_iff split: option.splits)

lemma rx_started_inv: "rx_started cfg ccfg s \<Longrightarrow> rx_inv cfg s"
  by (auto simp: rx_started_def rx_inv_def list_all_iff split: option.splits
      intro!: virt_init_state(1) copy_init_state(1))

lemma rx_reachable_inv:
  assumes "(rx_step cfg)\<^sup>*\<^sup>* s s'" and "cfg_ok cfg" and "rx_inv cfg s"
  shows "rx_inv cfg s'"
  using assms by (induction rule: rtranclp_induct) (auto intro: rx_step_inv)

text \<open>C10: Start the virtualiser and the copier, let them run interleaved with any driver and any
  client that return the descriptors they took, with whatever lengths and bytes: in every
  reachable state no assertion of the virtualiser or the copier can fail, each of the sixteen
  receive buffers is in exactly one place, and so is each of the client's.\<close>

theorem net_receive_path_never_panics:
  assumes "rx_started cfg ccfg s0" and "(rx_step cfg)\<^sup>*\<^sup>* s0 s"
  shows "\<not> rx_panics cfg s \<and>
    mset (map (idx_of (vrc_io_addr cfg)) (free_items (vr_driver (rp_virt s)) @ active_items (vr_driver (rp_virt s)) @ rp_drv_held s))
      + mset (map (idx_of 0) (free_items (vr_copier (rp_virt s)) @ active_items (vr_copier (rp_virt s)))) = mset [0..<16] \<and>
    mset (map (idx_of 0) (free_items (nc_client (rp_copy s)) @ active_items (nc_client (rp_copy s)) @ rp_cli_held s)) = mset [0..<16]"
proof -
  have cfg: "cfg_ok cfg" using assms(1) by (simp add: rx_started_def)
  have "rx_inv cfg s" using rx_reachable_inv [OF assms(2) cfg rx_started_inv [OF assms(1)]] .
  then show ?thesis using rx_inv_no_panic [OF cfg] by (simp add: rx_inv_def virt_inv_def client_inv_def spread_def)
qed

text \<open>C11: From every reachable state the handler of the virtualiser returns, and it has worked off
  everything: no frame is left in the driver's active queue and no returned buffer in the
  copier's free queue.\<close>

theorem net_virt_rx_works_off_its_queues:
  assumes "rx_started cfg ccfg s0" and "(rx_step cfg)\<^sup>*\<^sup>* s0 s"
  shows "\<exists>v. net_virt_rx_notified cfg data (rp_virt s) = Some v \<and>
    active_items (vr_driver v) = [] \<and> free_items (vr_copier v) = []"
proof -
  have cfg: "cfg_ok cfg" using assms(1) by (simp add: rx_started_def)
  have "virt_inv cfg (rp_drv_held s) (rp_virt s)"
    using rx_reachable_inv [OF assms(2) cfg rx_started_inv [OF assms(1)]] by (simp add: rx_inv_def)
  then obtain v1 where "rx_return cfg data (rp_virt s) = Some v1" "virt_inv cfg (rp_drv_held s) v1" "active_items (vr_driver v1) = []"
    using rx_return_inv [OF cfg] by blast
  then show ?thesis using rx_provide_inv [OF cfg, of "rp_drv_held s" v1] by (auto simp: net_virt_rx_notified_def)
qed

text \<open>C12: When the client has a free buffer, the copier puts the next frame into it unchanged:
  the client's active queue gains that buffer with the frame's length, its bytes are the frame's
  bytes, and no byte of the client's region outside that buffer changes.\<close>

theorem copier_delivers_the_frame:
  assumes "rx_started cfg ccfg s0" and "(rx_step cfg)\<^sup>*\<^sup>* s0 s" and "c = copier_of s"
    and "active_items (nc_virt c) = b # bs" and "free_items (nc_client c) = cb # cbs"
  shows "\<exists>c'. copy_one c = Some (True, c') \<and> active_items (nc_virt c') = bs \<and>
    active_items (nc_client c') = active_items (nc_client c) @ [cb\<lparr>nb_len := nb_len b\<rparr>] \<and> frame_copied b cb c c'"
proof -
  have cfg: "cfg_ok cfg" using assms(1) by (simp add: rx_started_def)
  have "rx_inv cfg s" using rx_reachable_inv [OF assms(2) cfg rx_started_inv [OF assms(1)]] .
  then have v: "virt_inv cfg (rp_drv_held s) (rp_virt s)" and ci: "client_inv (rp_cli_held s) (nc_client c)"
    and q: "nc_virt c = vr_copier (rp_virt s)" using assms(3) by (simp_all add: rx_inv_def copier_of_def)
  have ne: "active_items (vr_copier (rp_virt s)) = b # bs" using assms(4) q by simp
  show ?thesis using copy_frame_inv [OF v ci q ne assms(5)] assms(5) by (auto simp: copy_one_def net_empty_full_iff)
qed

subsection \<open>Witnesses\<close>

definition sample_queue :: net_queue_t where
  "sample_queue = \<lparr>nq_tail = 0xfffe, nq_head = 0xfffe, nq_consumer_signalled = 0,
     nq_slots = replicate 16 (net_buff_desc_new 0 0 0)\<rparr>"

definition sample_conn :: "u8 \<Rightarrow> net_connection_resource_t" where
  "sample_conn ch = \<lparr>conn_free = sample_queue, conn_active = sample_queue, conn_num_buffers = 16, conn_id = ch\<rparr>"

definition sample_rx_config :: net_virt_rx_config_t where
  "sample_rx_config = \<lparr>vrc_magic = SDDF_NET_MAGIC, vrc_driver = sample_conn 0, vrc_io_addr = 0,
     vrc_metadata = Some (replicate 4096 0), vrc_client = sample_conn 1,
     vrc_mac_addrs = [[0x52, 0x54, 0, 0x12, 0x34, 0x56]], vrc_num_macs = 1, vrc_num_clients = 1\<rparr>"

definition sample_copy_config :: net_copy_config_t where
  "sample_copy_config = \<lparr>ncc_magic = SDDF_NET_MAGIC, ncc_rx = sample_conn 0, ncc_rx_data = Some (\<lambda>_. 0xff),
     ncc_client = sample_conn 1, ncc_client_data = (\<lambda>_. 0)\<rparr>"

definition sample_path :: rx_path where
  "sample_path = \<lparr>rp_virt = the (net_virt_rx_init sample_rx_config), rp_copy = the (net_copy_init sample_copy_config),
     rp_drv_held = [], rp_cli_held = []\<rparr>"

lemma sample_conn_fresh: "fresh_conn (sample_conn ch)"
  by (simp add: fresh_conn_def handle16_def net_ready_defs net_item_defs ring_wf_def ring_ok_def ring_divides_def
      sample_conn_def sample_queue_def net_queue_from_def net_queue_init_def net_handle_null_def ring_items_def)

lemma sample_cfg_ok: "cfg_ok sample_rx_config"
  by (simp add: cfg_ok_def sample_rx_config_def base_ok_def)

lemma sample_started: "rx_started sample_rx_config sample_copy_config sample_path"
proof -
  have e: "net_queue_empty_free (net_queue_from (sample_conn 1))"
    using sample_conn_fresh by (simp add: fresh_conn_def net_empty_full_iff)
  have "\<exists>v. net_virt_rx_init sample_rx_config = Some v"
    using e by (simp add: net_virt_rx_init_def sample_rx_config_def rx_provide_def reprocess_free.simps provide_all.simps Let_def)
  moreover have "\<exists>c. net_copy_init sample_copy_config = Some c"
    by (simp add: net_copy_init_def sample_copy_config_def Let_def)
  ultimately show ?thesis
    using sample_cfg_ok sample_conn_fresh
    by (auto simp: rx_started_def sample_path_def sample_rx_config_def sample_copy_config_def list_all_iff)
qed

theorem net_receive_path_never_panics_witness: "\<not> rx_panics sample_rx_config sample_path"
  using net_receive_path_never_panics [OF sample_started rtranclp.rtrancl_refl] by simp

theorem net_virt_rx_works_off_its_queues_witness:
  "\<exists>v. net_virt_rx_notified sample_rx_config (\<lambda>_. 0xff) (rp_virt sample_path) = Some v \<and>
    active_items (vr_driver v) = [] \<and> free_items (vr_copier v) = []"
  by (rule net_virt_rx_works_off_its_queues [OF sample_started rtranclp.rtrancl_refl])

text \<open>A broadcast frame of 64 bytes on its way: the driver takes a buffer, delivers the frame, and
  the virtualiser forwards it.\<close>

lemma three_steps: "rx_step cfg a b \<Longrightarrow> rx_step cfg b c \<Longrightarrow> rx_step cfg c d \<Longrightarrow> (rx_step cfg)\<^sup>*\<^sup>* a d"
  by (meson r_into_rtranclp rtranclp_trans)

lemma sample_frame_arrives:
  "\<exists>s b bs cb cbs. (rx_step sample_rx_config)\<^sup>*\<^sup>* sample_path s \<and>
    active_items (nc_virt (copier_of s)) = b # bs \<and> free_items (nc_client (copier_of s)) = cb # cbs"
proof -
  let ?cfg = sample_rx_config and ?v = "rp_virt sample_path" and ?c = "rp_copy sample_path"
  obtain page where st: "net_virt_rx_init ?cfg = Some ?v" "net_copy_init sample_copy_config = Some ?c"
    "vrc_metadata ?cfg = Some page" "16 \<le> length page" "\<forall>i<16. page ! i = 0"
    "fresh_conn (vrc_driver ?cfg)" "fresh_conn (vrc_client ?cfg)" "fresh_conn (ncc_client sample_copy_config)"
    and held: "rp_drv_held sample_path = []"
    using rx_started_state [OF sample_started] by blast
  note v0 = virt_init_state [OF st(1,6,7,3,4,5)]
  have cl: "free_items (nc_client ?c) = map (net_buffer 0) [0..<16]" using copy_init_state(2) [OF st(2,8)] .
  let ?b = "net_buffer 0 0"
  have fr: "free_items (vr_driver ?v) = ?b # map (net_buffer 0) [1..<16]"
    using v0(2) by (simp add: sample_rx_config_def upt_rec [of 0])
  have hd: "handle16 (vr_driver ?v)" using v0(1) by (simp add: virt_inv_def)
  obtain h1 where h1: "net_dequeue_free (vr_driver ?v) (net_buff_desc_new 0 0 0) = (0, ?b, h1)" "handle16 h1"
    "active_items h1 = []" using deq_free16 [OF hd fr] v0(3) by metis
  obtain h2 where h2: "net_enqueue_active h1 (?b\<lparr>nb_len := 64\<rparr>) = (0, h2)" "active_items h2 = [?b\<lparr>nb_len := 64\<rparr>]"
    using enq_active16 [OF h1(2), of "?b\<lparr>nb_len := 64\<rparr>"] h1(3) by auto
  let ?s1 = "(put_driver h1 sample_path)\<lparr>rp_drv_held := [?b]\<rparr>"
  let ?s2 = "(put_driver h2 ?s1)\<lparr>rp_copy := ?c\<lparr>nc_virt_data := (\<lambda>_. 0xff)\<rparr>, rp_drv_held := []\<rparr>"
  have step1: "rx_step ?cfg sample_path ?s1" using rx_step.driver_take [OF h1(1), of ?cfg] held by simp
  have step2: "rx_step ?cfg ?s1 ?s2"
    using rx_step.driver_deliver [of ?s1 "[]" ?b "[]" 64 h2 ?cfg "\<lambda>_. 0xff"] h2(1) by (simp add: put_driver_def)
  have "rx_inv ?cfg ?s2"
    using rx_step_inv [OF step2 sample_cfg_ok rx_step_inv [OF step1 sample_cfg_ok rx_started_inv [OF sample_started]]] .
  then have inv: "virt_inv ?cfg [] (rp_virt ?s2)" by (simp add: rx_inv_def)
  have ac: "active_items (vr_driver (rp_virt ?s2)) = [?b\<lparr>nb_len := 64\<rparr>]" using h2(2) by (simp add: put_driver_def)
  have "frame_dest ?cfg (\<lambda>_. 0xff) (?b\<lparr>nb_len := 64\<rparr>) = Some Broadcast"
  proof -
    have six: "replicate 6 (0xff :: u8) = [0xff, 0xff, 0xff, 0xff, 0xff, 0xff]" by code_simp
    show ?thesis
      by (simp add: frame_dest_def sample_rx_config_def NET_BUFFER_SIZE_def MAC802_BYTES_def BROADCAST_def Let_def
          map_replicate_const six)
  qed
  then obtain v3 where f: "forward_active ?cfg (\<lambda>_. 0xff) (rp_virt ?s2) = Some (True, v3)" "active_items (vr_copier v3) \<noteq> []"
    using forward_active_inv [OF sample_cfg_ok inv ac, of "\<lambda>_. 0xff"] by (auto simp: sample_rx_config_def Let_def)
  have step3: "rx_step ?cfg ?s2 (put_virt v3 ?s2)"
  proof (rule rx_step.virt_forward)
    show "\<not> net_queue_empty_active (vr_driver (rp_virt ?s2))" using ac by (simp only: net_empty_full_iff) simp
    show "forward_active ?cfg (nc_virt_data (rp_copy ?s2)) (rp_virt ?s2) = Some (True, v3)" using f(1) by simp
  qed
  have "free_items (nc_client (copier_of (put_virt v3 ?s2))) \<noteq> []" using cl by (simp add: copier_of_def put_virt_def put_driver_def)
  moreover have "active_items (nc_virt (copier_of (put_virt v3 ?s2))) \<noteq> []" using f(2) by (simp add: copier_of_def put_virt_def)
  moreover have "(rx_step ?cfg)\<^sup>*\<^sup>* sample_path (put_virt v3 ?s2)" 
    using step1 step2 step3 by (rule three_steps)
  ultimately show ?thesis by (metis neq_Nil_conv)
qed

theorem copier_delivers_the_frame_witness:
  "\<exists>s b cb c'. (rx_step sample_rx_config)\<^sup>*\<^sup>* sample_path s \<and> copy_one (copier_of s) = Some (True, c') \<and>
    frame_copied b cb (copier_of s) c'"
  using sample_frame_arrives copier_delivers_the_frame [OF sample_started _ refl] by metis

end
