(* ===== verification/Fat.thy ===== *)
theory Fat
  imports BlkQueue FsQueue Bytes
begin

text \<open>
  The FAT16 file server \<open>sddf-fatfs/src/main.rs\<close>: one worker cothread that takes a command
  from the command ring, works on a one-block write-back cache over a block device, and puts one
  completion on the completion ring.

  The memory shared with other protection domains is the record \<open>shared\<close>; the statics
  \<open>STATE\<close> and \<open>BLOCK\<close> are the record \<open>fat\<close>. While the worker is blocked on a channel the
  peers run: \<open>ft_wait ch\<close> is what they do to the shared memory and to their own state
  \<open>sh_peers\<close> until the channel is signalled, \<open>None\<close> when it never is. \<open>ft_past\<close> is
  the memory that follows the static block buffer. A function returns \<open>None\<close> when it panics
  or waits forever. \<open>ft_notes\<close> collects the notified channels. \<open>usize\<close> offsets and lengths
  are natural numbers once checked against the size of the share.
\<close>

subsection \<open>Constants\<close>

definition BLK_CH :: nat where "BLK_CH = 0"
definition FS_CH :: nat where "FS_CH = 1"
definition FS_REGION_SIZE :: nat where "FS_REGION_SIZE = 0x8000"
definition SECTOR_BYTES :: nat where "SECTOR_BYTES = 512"
definition TOTAL_SECTORS :: u16 where "TOTAL_SECTORS = 8192"
definition RESERVED_SECTORS :: u16 where "RESERVED_SECTORS = 1"
definition FAT_COUNT :: u8 where "FAT_COUNT = 2"
definition ROOT_ENTRIES :: u16 where "ROOT_ENTRIES = 512"
definition FAT_SECTORS :: u16 where "FAT_SECTORS = 32"
definition FAT1_LBA :: u32 where "FAT1_LBA = 1"
definition FAT2_LBA :: u32 where "FAT2_LBA = 33"
definition ROOT_LBA :: u32 where "ROOT_LBA = 65"
definition DATA_LBA :: u32 where "DATA_LBA = 97"
definition ENTRIES_PER_SECTOR :: u16 where "ENTRIES_PER_SECTOR = 16"
definition DIR_ENTRY :: nat where "DIR_ENTRY = 32"
definition TRANSFER :: nat where "TRANSFER = 4096"
definition SECTORS_PER_TRANSFER :: u32 where "SECTORS_PER_TRANSFER = 8"
definition REQ_ID :: u32 where "REQ_ID = 1"
definition ATTR_DIR :: u8 where "ATTR_DIR = 0x10"
definition ATTR_ARCHIVE :: u8 where "ATTR_ARCHIVE = 0x20"
definition FD_FILE :: u64 where "FD_FILE = 0"
definition FD_DIR :: u64 where "FD_DIR = 1"
definition CLUSTER_SCAN :: u16 where "CLUSTER_SCAN = 64"
definition S_IFDIR :: u64 where "S_IFDIR = 0x4000"
definition S_IFREG :: u64 where "S_IFREG = 0x8000"
definition MODE_BITS :: u64 where "MODE_BITS = 0x1ff"
definition STAT_BYTES :: nat where "STAT_BYTES = 136"

lemmas fat_consts = SECTOR_BYTES_def DIR_ENTRY_def TRANSFER_def SECTORS_PER_TRANSFER_def
  ENTRIES_PER_SECTOR_def ROOT_ENTRIES_def FAT1_LBA_def FAT2_LBA_def ROOT_LBA_def DATA_LBA_def
  CLUSTER_SCAN_def

subsection \<open>State\<close>

record OpenFile =
  fl_cluster :: u16
  fl_size :: u32
  fl_dir_index :: u16
  fl_parent :: u16

record OpenDir =
  dr_cluster :: u16
  dr_index :: u16
  dr_limit :: u16

record DirHit =
  hit_index :: u16
  hit_cluster :: u16
  hit_size :: u32
  hit_attr :: u8

datatype 'a Scan = Hit 'a | Missing | Failed

datatype Completion = CEmpty | CFd u64 | CRead u64 | CWrite u64 | CDirRead u64

record 'd shared =
  sh_blk :: blk_queue_handle_t
  sh_data :: "u8 list"
  sh_commands :: fs_queue_t
  sh_completions :: fs_queue_t
  sh_share :: mem
  sh_peers :: 'd

record 'd fat =
  ft_shared :: "'d shared"
  ft_wait :: "nat \<Rightarrow> 'd shared \<Rightarrow> 'd shared option"
  ft_past :: mem
  ft_storage :: blk_storage_info_t
  block_no :: u64
  block_valid :: bool
  block_dirty :: bool
  block :: "u8 list"
  ft_file :: "OpenFile option"
  ft_dir :: "OpenDir option"
  ft_notes :: "nat list"

definition notify :: "nat \<Rightarrow> 'd fat \<Rightarrow> 'd fat" where
  "notify ch s = s\<lparr>ft_notes := ft_notes s @ [ch]\<rparr>"

subsection \<open>Block transfers and the block cache\<close>

text \<open>The loop of \<open>blk_transfer\<close>: it waits until a response is there.\<close>

partial_function (option) blk_wait :: "'d fat \<Rightarrow> (bool \<times> 'd fat) option" where
  "blk_wait s =
     (case ft_wait s BLK_CH (ft_shared s) of None \<Rightarrow> None
      | Some w \<Rightarrow>
          (case blk_dequeue_resp (sh_blk w) \<lparr>resp_status = BLK_RESP_OK, resp_success_count = 0, resp_id = 0\<rparr> of
             (dequeued, resp, h) \<Rightarrow>
               if dequeued \<noteq> 0 then blk_wait (s\<lparr>ft_shared := w\<lparr>sh_blk := h\<rparr>\<rparr>)
               else Some (\<not> (resp_status resp \<noteq> BLK_RESP_OK \<or> resp_success_count resp \<noteq> 1 \<or> resp_id resp \<noteq> REQ_ID),
                 s\<lparr>ft_shared := w\<lparr>sh_blk := h\<rparr>\<rparr>)))"

definition blk_transfer :: "blk_req_code_t \<Rightarrow> u64 \<Rightarrow> bool \<Rightarrow> 'd fat \<Rightarrow> (bool \<times> 'd fat) option" where
  "blk_transfer code number write s =
     (let w = ft_shared s;
        w = (if write then w\<lparr>sh_data := patch 0 (block s) (sh_data w)\<rparr> else w)
      in case blk_enqueue_req (sh_blk w) code 0 number 1 REQ_ID of
           (enqueued, h) \<Rightarrow>
             let s = s\<lparr>ft_shared := w\<lparr>sh_blk := h\<rparr>\<rparr>
             in if enqueued \<noteq> 0 then Some (False, s)
                else do {
                  (ok, s) \<leftarrow> blk_wait (notify BLK_CH s);
                  if \<not> ok then Some (False, s)
                  else if \<not> write then Some (True, s\<lparr>block := take TRANSFER (sh_data (ft_shared s))\<rparr>)
                  else Some (True, s)
                })"

definition flush_block :: "'d fat \<Rightarrow> (bool \<times> 'd fat) option" where
  "flush_block s =
     (if \<not> block_dirty s then Some (True, s)
      else do {
        (ok, s) \<leftarrow> blk_transfer BLK_REQ_WRITE (block_no s) True s;
        if \<not> ok then Some (False, s) else Some (True, s\<lparr>block_dirty := False\<rparr>)
      })"

definition load_block :: "u64 \<Rightarrow> 'd fat \<Rightarrow> (bool \<times> 'd fat) option" where
  "load_block number s =
     (if block_valid s \<and> block_no s = number then Some (True, s)
      else do {
        (ok, s) \<leftarrow> flush_block s;
        if \<not> ok then Some (False, s)
        else do {
          (ok, s) \<leftarrow> blk_transfer BLK_REQ_READ number False s;
          if \<not> ok then Some (False, s)
          else Some (True, s\<lparr>block_no := number, block_valid := True, block_dirty := False\<rparr>)
        }
      })"

definition stage_zero :: "u64 \<Rightarrow> 'd fat \<Rightarrow> (bool \<times> 'd fat) option" where
  "stage_zero number s =
     do {
       (ok, s) \<leftarrow> flush_block s;
       if \<not> ok then Some (False, s)
       else Some (True, s\<lparr>block_no := number, block_valid := True, block_dirty := True,
         block := replicate (length (block s)) 0\<rparr>)
     }"

text \<open>The closure given to \<open>edit_sector\<close> is a function on the sector; \<open>None\<close> is a slice
  out of range, which panics.\<close>

definition edit_sector :: "u32 \<Rightarrow> (u8 list \<Rightarrow> u8 list option) \<Rightarrow> 'd fat \<Rightarrow> (bool \<times> 'd fat) option" where
  "edit_sector lba edit s =
     do {
       (ok, s) \<leftarrow> load_block (ucast (lba div SECTORS_PER_TRANSFER)) s;
       if \<not> ok then Some (False, s)
       else let offset = unat (lba mod SECTORS_PER_TRANSFER) * SECTOR_BYTES
         in do {
           sector \<leftarrow> edit (slice offset SECTOR_BYTES (block s));
           Some (True, s\<lparr>block_dirty := True, block := patch offset sector (block s)\<rparr>)
         }
     }"

text \<open>\<open>copy_from_slice\<close> into a subslice: it panics when the range leaves the slice.\<close>

definition put_slice :: "nat \<Rightarrow> u8 list \<Rightarrow> u8 list \<Rightarrow> u8 list option" where
  "put_slice off bytes xs = (if off + length bytes \<le> length xs then Some (patch off bytes xs) else None)"

subsection \<open>Completions and the share\<close>

fun completion_word :: "Completion \<Rightarrow> u64" where
  "completion_word CEmpty = 0"
| "completion_word (CFd fd) = fd"
| "completion_word (CRead len) = len"
| "completion_word (CWrite len) = len"
| "completion_word (CDirRead len) = len"

definition complete :: "u64 \<Rightarrow> u64 \<Rightarrow> Completion \<Rightarrow> 'd fat \<Rightarrow> bool \<times> 'd fat" where
  "complete rid status cdata s =
     (case fs_completion_enqueue (sh_completions (ft_shared s))
        \<lparr>cmpl_id = rid, cmpl_status = status, cmpl_data = completion_word cdata\<rparr> of
        (enqueued, q) \<Rightarrow>
          let s = s\<lparr>ft_shared := (ft_shared s)\<lparr>sh_completions := q\<rparr>\<rparr>
          in if enqueued \<noteq> 0 then (False, s) else (True, notify FS_CH s))"

text \<open>\<open>let _ = complete(id, FS_STATUS_ERROR, ..); return false\<close>\<close>

definition give_up :: "u64 \<Rightarrow> 'd fat \<Rightarrow> (bool \<times> 'd fat) option" where
  "give_up rid s = Some (False, snd (complete rid FS_STATUS_ERROR CEmpty s))"

definition reply :: "u64 \<Rightarrow> u64 \<Rightarrow> 'd fat \<Rightarrow> (bool \<times> 'd fat) option" where
  "reply rid status s = Some (complete rid status CEmpty s)"

definition in_share :: "u64 \<Rightarrow> nat \<Rightarrow> bool" where
  "in_share offset n \<longleftrightarrow> unat offset + n < 2 ^ 64 \<and> unat offset + n \<le> FS_REGION_SIZE"

definition copy_share :: "u64 \<Rightarrow> nat \<Rightarrow> 'd fat \<Rightarrow> u8 list option" where
  "copy_share offset n s =
     (if in_share offset n then Some (mem_get (unat offset) n (sh_share (ft_shared s))) else None)"

definition put_share_bytes :: "nat \<Rightarrow> u8 list \<Rightarrow> 'd fat \<Rightarrow> 'd fat" where
  "put_share_bytes off bytes s =
     s\<lparr>ft_shared := (ft_shared s)\<lparr>sh_share := mem_put off bytes (sh_share (ft_shared s))\<rparr>\<rparr>"

definition copy_to_share :: "u64 \<Rightarrow> u8 list \<Rightarrow> 'd fat \<Rightarrow> bool \<times> 'd fat" where
  "copy_to_share offset src s =
     (if \<not> in_share offset (length src) then (False, s) else (True, put_share_bytes (unat offset) src s))"

text \<open>\<open>write_share::<fs_stat_t>\<close>: the value is given by its bytes.\<close>

definition write_share :: "fs_buffer_t \<Rightarrow> u8 list \<Rightarrow> 'd fat \<Rightarrow> bool \<times> 'd fat" where
  "write_share buf raw s =
     (if unat (fb_size buf) < length raw then (False, s)
      else if \<not> in_share (fb_offset buf) (length raw) then (False, s)
      else (True, put_share_bytes (unat (fb_offset buf)) raw s))"

definition share_span :: "fs_buffer_t \<Rightarrow> (nat \<times> nat) option" where
  "share_span buf =
     (if in_share (fb_offset buf) (unat (fb_size buf)) then Some (unat (fb_offset buf), unat (fb_size buf)) else None)"

subsection \<open>Names\<close>

fun position :: "('a \<Rightarrow> bool) \<Rightarrow> 'a list \<Rightarrow> nat option" where
  "position p [] = None"
| "position p (x # xs) = (if p x then Some 0 else map_option Suc (position p xs))"

definition upper :: "u8 \<Rightarrow> u8" where
  "upper byte = (if 0x61 \<le> byte \<and> byte \<le> 0x7a then byte - 0x20 else byte)"

definition pack_name :: "u8 list \<Rightarrow> u8 list option" where
  "pack_name raw =
     (if raw = [] \<or> 11 < length raw then None
      else let name = replicate 11 0x20
        in case position (\<lambda>byte. byte = 0x2e) raw of
             None \<Rightarrow> if 8 < length raw then None else Some (patch 0 (map upper raw) name)
           | Some dot \<Rightarrow>
               let base = take dot raw; ext = drop (dot + 1) raw
               in if base = [] \<or> 8 < length base \<or> 3 < length ext then None
                  else Some (patch 8 (map upper ext) (patch 0 (map upper base) name)))"

definition two_components :: "u8 list \<Rightarrow> (u8 list \<times> u8 list) option" where
  "two_components path =
     (let path = (case path of b # rest \<Rightarrow> if b = 0x2f then rest else path | [] \<Rightarrow> path)
      in do {
        slash \<leftarrow> position (\<lambda>byte. byte = 0x2f) path;
        let dir = take slash path; file = drop (slash + 1) path
        in if dir = [] \<or> file = [] \<or> 0x2f \<in> set file then None else Some (dir, file)
      })"

definition dot_name :: "nat \<Rightarrow> u8 list" where
  "dot_name dots = replicate (min dots 11) 0x2e @ replicate (11 - dots) 0x20"

definition is_dot :: "u8 list \<Rightarrow> bool" where
  "is_dot entry \<longleftrightarrow> entry ! 0 = 0x2e \<and> (entry ! 1 = 0x20 \<or> entry ! 1 = 0x2e)"

text \<open>The copy loops of \<open>display_name\<close>: stop at a space, panic past the twelve bytes.\<close>

fun show_part :: "u8 list \<Rightarrow> u8 list \<Rightarrow> nat \<Rightarrow> (u8 list \<times> nat) option" where
  "show_part [] shown len = Some (shown, len)"
| "show_part (b # bs) shown len =
     (if b = 0x20 then Some (shown, len)
      else if length shown \<le> len then None
      else show_part bs (shown[len := b]) (len + 1))"

definition display_name :: "u8 list \<Rightarrow> (u8 list \<times> nat) option" where
  "display_name entry =
     do {
       (shown, len) \<leftarrow> show_part (take 8 entry) (replicate 12 0) 0;
       if entry ! 8 \<noteq> 0x20 then
         if length shown \<le> len then None
         else show_part (slice 8 3 entry) (shown[len := 0x2e]) (len + 1)
       else Some (shown, len)
     }"

definition is_root_path_buf :: "fs_buffer_t \<Rightarrow> 'd fat \<Rightarrow> bool" where
  "is_root_path_buf path s =
     (if fb_size path = 0 then True
      else if 11 < fb_size path then False
      else case copy_share (fb_offset path) (unat (fb_size path)) s of
             None \<Rightarrow> False
           | Some raw \<Rightarrow> raw = [0x2e] \<or> raw = [0x2f])"

definition read_packed_name :: "fs_buffer_t \<Rightarrow> 'd fat \<Rightarrow> u8 list option" where
  "read_packed_name path s =
     (if 11 < fb_size path then None
      else do {
        raw \<leftarrow> copy_share (fb_offset path) (unat (fb_size path)) s;
        pack_name raw
      })"

end
