(* ===== verification/FatServer.thy ===== *)
theory FatServer
  imports Fat Cothread
begin

text \<open>
  The directory, allocation and command layers of \<open>sddf-fatfs/src/main.rs\<close> over the block
  cache of \<open>Fat\<close>: the scans of the root directory and of one-sector subdirectories, the file
  allocation table, the handlers of the commands, the formatting of a volume and the worker.
  A \<open>for\<close> loop over indices is a recursion over the list of the indices left.
\<close>

subsection \<open>Directory entries\<close>

definition cluster_lba :: "u16 \<Rightarrow> u32 option" where
  "cluster_lba cluster = (if cluster < 2 then None else Some (DATA_LBA + ucast (cluster - 2)))"

definition root_place :: "u16 \<Rightarrow> u32 \<times> nat" where
  "root_place index =
     (ROOT_LBA + ucast (index div ENTRIES_PER_SECTOR), unat (index mod ENTRIES_PER_SECTOR) * DIR_ENTRY)"

definition take_slice :: "nat \<Rightarrow> nat \<Rightarrow> u8 list \<Rightarrow> u8 list option" where
  "take_slice off n xs = (if off + n \<le> length xs then Some (slice off n xs) else None)"

text \<open>The functions that fill \<open>dest\<close> and return \<open>bool\<close> return \<open>Some\<close> entry for \<open>true\<close>.\<close>

definition read_entry :: "u16 \<Rightarrow> 'd fat \<Rightarrow> (u8 list option \<times> 'd fat) option" where
  "read_entry index s =
     (let lba = fst (root_place index)
      in do {
        (ok, s) \<leftarrow> load_block (ucast (lba div SECTORS_PER_TRANSFER)) s;
        if \<not> ok then Some (None, s)
        else do {
          entry \<leftarrow> take_slice (unat (lba mod SECTORS_PER_TRANSFER) * SECTOR_BYTES + snd (root_place index)) DIR_ENTRY (block s);
          Some (Some entry, s)
        }
      })"

definition read_placed :: "u16 \<Rightarrow> u16 \<Rightarrow> 'd fat \<Rightarrow> (u8 list option \<times> 'd fat) option" where
  "read_placed cluster index s =
     (if cluster = 0 then read_entry index s
      else do {
        lba \<leftarrow> cluster_lba cluster;
        (ok, s) \<leftarrow> load_block (ucast (lba div SECTORS_PER_TRANSFER)) s;
        if \<not> ok then Some (None, s)
        else do {
          entry \<leftarrow> take_slice (unat (lba mod SECTORS_PER_TRANSFER) * SECTOR_BYTES + unat index * DIR_ENTRY) DIR_ENTRY (block s);
          Some (Some entry, s)
        }
      })"

definition hit_from :: "u16 \<Rightarrow> u8 list \<Rightarrow> DirHit" where
  "hit_from index entry = \<lparr>hit_index = index, hit_cluster = from_le16 (slice 26 2 entry),
     hit_size = from_le32 (slice 28 4 entry), hit_attr = entry ! 11\<rparr>"

definition is_dir :: "u8 \<Rightarrow> bool" where
  "is_dir attr \<longleftrightarrow> attr AND ATTR_DIR \<noteq> 0"

definition u16_range :: "u16 \<Rightarrow> u16 \<Rightarrow> u16 list" where
  "u16_range a b = map of_nat [unat a ..< unat b]"

fun find_name_loop :: "u8 list \<Rightarrow> u16 list \<Rightarrow> 'd fat \<Rightarrow> (DirHit Scan \<times> 'd fat) option" where
  "find_name_loop name [] s = Some (Missing, s)"
| "find_name_loop name (index # rest) s =
     do {
       (r, s) \<leftarrow> read_entry index s;
       (case r of None \<Rightarrow> Some (Failed, s)
        | Some entry \<Rightarrow>
            if entry ! 0 = 0x00 then Some (Missing, s)
            else if entry ! 0 = 0xe5 then find_name_loop name rest s
            else if take 11 entry = name then Some (Hit (hit_from index entry), s)
            else find_name_loop name rest s)
     }"

definition find_name :: "u8 list \<Rightarrow> 'd fat \<Rightarrow> (DirHit Scan \<times> 'd fat) option" where
  "find_name name = find_name_loop name (u16_range 0 ROOT_ENTRIES)"

fun find_free_loop :: "u16 list \<Rightarrow> 'd fat \<Rightarrow> (u16 Scan \<times> 'd fat) option" where
  "find_free_loop [] s = Some (Missing, s)"
| "find_free_loop (index # rest) s =
     do {
       (r, s) \<leftarrow> read_entry index s;
       (case r of None \<Rightarrow> Some (Failed, s)
        | Some entry \<Rightarrow>
            if entry ! 0 = 0x00 \<or> entry ! 0 = 0xe5 then Some (Hit index, s)
            else find_free_loop rest s)
     }"

definition find_free :: "'d fat \<Rightarrow> (u16 Scan \<times> 'd fat) option" where
  "find_free = find_free_loop (u16_range 0 ROOT_ENTRIES)"

fun find_in_cluster_loop :: "u16 \<Rightarrow> u8 list \<Rightarrow> u16 list \<Rightarrow> 'd fat \<Rightarrow> (DirHit Scan \<times> 'd fat) option" where
  "find_in_cluster_loop cluster name [] s = Some (Missing, s)"
| "find_in_cluster_loop cluster name (index # rest) s =
     do {
       (r, s) \<leftarrow> read_placed cluster index s;
       (case r of None \<Rightarrow> Some (Failed, s)
        | Some entry \<Rightarrow>
            if entry ! 0 = 0x00 then Some (Missing, s)
            else if entry ! 0 = 0xe5 then find_in_cluster_loop cluster name rest s
            else if take 11 entry = name then Some (Hit (hit_from index entry), s)
            else find_in_cluster_loop cluster name rest s)
     }"

definition find_in_cluster :: "u16 \<Rightarrow> u8 list \<Rightarrow> 'd fat \<Rightarrow> (DirHit Scan \<times> 'd fat) option" where
  "find_in_cluster cluster name s =
     (if cluster < 2 then Some (Failed, s)
      else find_in_cluster_loop cluster name (u16_range 0 ENTRIES_PER_SECTOR) s)"

fun find_free_in_cluster_loop :: "u16 \<Rightarrow> u16 list \<Rightarrow> 'd fat \<Rightarrow> (u16 Scan \<times> 'd fat) option" where
  "find_free_in_cluster_loop cluster [] s = Some (Missing, s)"
| "find_free_in_cluster_loop cluster (index # rest) s =
     do {
       (r, s) \<leftarrow> read_placed cluster index s;
       (case r of None \<Rightarrow> Some (Failed, s)
        | Some entry \<Rightarrow>
            if entry ! 0 = 0x00 \<or> entry ! 0 = 0xe5 then Some (Hit index, s)
            else find_free_in_cluster_loop cluster rest s)
     }"

definition find_free_in_cluster :: "u16 \<Rightarrow> 'd fat \<Rightarrow> (u16 Scan \<times> 'd fat) option" where
  "find_free_in_cluster cluster s =
     (if cluster < 2 then Some (Failed, s)
      else find_free_in_cluster_loop cluster (u16_range 0 ENTRIES_PER_SECTOR) s)"

fun directory_empty_loop :: "u16 \<Rightarrow> u16 list \<Rightarrow> 'd fat \<Rightarrow> (bool Scan \<times> 'd fat) option" where
  "directory_empty_loop cluster [] s = Some (Hit True, s)"
| "directory_empty_loop cluster (index # rest) s =
     do {
       (r, s) \<leftarrow> read_placed cluster index s;
       (case r of None \<Rightarrow> Some (Failed, s)
        | Some entry \<Rightarrow>
            if entry ! 0 = 0x00 then Some (Hit True, s)
            else if entry ! 0 = 0xe5 \<or> is_dot entry then directory_empty_loop cluster rest s
            else Some (Hit False, s))
     }"

definition directory_empty :: "u16 \<Rightarrow> 'd fat \<Rightarrow> (bool Scan \<times> 'd fat) option" where
  "directory_empty cluster s =
     (if cluster < 2 then Some (Missing, s)
      else directory_empty_loop cluster (u16_range 0 ENTRIES_PER_SECTOR) s)"

text \<open>\<open>put_entry\<close> on the 32 bytes of an entry.\<close>

definition put_entry :: "u8 list \<Rightarrow> u16 \<Rightarrow> u32 \<Rightarrow> u8 \<Rightarrow> u8 list \<Rightarrow> u8 list" where
  "put_entry name cluster sz attr entry =
     (let e = replicate (length entry) 0; e = patch 0 name e; e = e[11 := attr];
        e = patch 26 (le16 cluster) e
      in patch 28 (le32 sz) e)"

definition edit_entry :: "nat \<Rightarrow> (u8 list \<Rightarrow> u8 list) \<Rightarrow> u8 list \<Rightarrow> u8 list option" where
  "edit_entry off f sector = do {entry \<leftarrow> take_slice off DIR_ENTRY sector; put_slice off (f entry) sector}"

definition write_dir :: "u16 \<Rightarrow> u8 list \<Rightarrow> u16 \<Rightarrow> u32 \<Rightarrow> u8 \<Rightarrow> 'd fat \<Rightarrow> (bool \<times> 'd fat) option" where
  "write_dir index name cluster sz attr s =
     (case root_place index of (lba, off) \<Rightarrow>
        edit_sector lba (edit_entry off (put_entry name cluster sz attr)) s)"

definition write_in_cluster :: "u16 \<Rightarrow> u16 \<Rightarrow> u8 list \<Rightarrow> u16 \<Rightarrow> u32 \<Rightarrow> u8 \<Rightarrow> 'd fat \<Rightarrow> (bool \<times> 'd fat) option" where
  "write_in_cluster parent index name cluster sz attr s =
     (if parent < 2 \<or> ENTRIES_PER_SECTOR \<le> index then Some (False, s)
      else do {
        lba \<leftarrow> cluster_lba parent;
        edit_sector lba (edit_entry (unat index * DIR_ENTRY) (put_entry name cluster sz attr)) s
      })"

definition update_size :: "u16 \<Rightarrow> u16 \<Rightarrow> u32 \<Rightarrow> 'd fat \<Rightarrow> (bool \<times> 'd fat) option" where
  "update_size parent index sz s =
     (if parent = 0 then
        (case root_place index of (lba, off) \<Rightarrow> edit_sector lba (put_slice (off + 28) (le32 sz)) s)
      else if parent < 2 \<or> ENTRIES_PER_SECTOR \<le> index then Some (False, s)
      else do {
        lba \<leftarrow> cluster_lba parent;
        edit_sector lba (put_slice (unat index * DIR_ENTRY + 28) (le32 sz)) s
      })"

definition rename_entry :: "u16 \<Rightarrow> u8 list \<Rightarrow> 'd fat \<Rightarrow> (bool \<times> 'd fat) option" where
  "rename_entry index name s =
     (case root_place index of (lba, off) \<Rightarrow> edit_sector lba (put_slice off name) s)"

definition mark_deleted :: "u16 \<Rightarrow> 'd fat \<Rightarrow> (bool \<times> 'd fat) option" where
  "mark_deleted index s =
     (case root_place index of (lba, off) \<Rightarrow> edit_sector lba (put_slice off [0xe5]) s)"

definition format_directory :: "u16 \<Rightarrow> 'd fat \<Rightarrow> (bool \<times> 'd fat) option" where
  "format_directory cluster s =
     do {
       lba \<leftarrow> cluster_lba cluster;
       edit_sector lba (\<lambda>sector. do {
         sector \<leftarrow> edit_entry 0 (put_entry (dot_name 1) cluster 0 ATTR_DIR) (replicate (length sector) 0);
         edit_entry DIR_ENTRY (put_entry (dot_name 2) 0 0 ATTR_DIR) sector
       }) s
     }"

subsection \<open>The file allocation table\<close>

definition fat_place :: "u16 \<Rightarrow> u32 \<times> nat" where
  "fat_place cluster =
     (let byte = unat cluster * 2 in (of_nat (byte div SECTOR_BYTES), byte mod SECTOR_BYTES))"

definition set_fat :: "u16 \<Rightarrow> u16 \<Rightarrow> 'd fat \<Rightarrow> (bool \<times> 'd fat) option" where
  "set_fat cluster v s =
     (case fat_place cluster of (sector_index, inner) \<Rightarrow>
        do {
          (ok, s) \<leftarrow> edit_sector (FAT1_LBA + sector_index) (put_slice inner (le16 v)) s;
          if \<not> ok then Some (False, s)
          else do {
            (ok, s) \<leftarrow> edit_sector (FAT2_LBA + sector_index) (put_slice inner (le16 v)) s;
            if \<not> ok then Some (False, s) else Some (True, s)
          }
        })"

definition read_fat :: "u16 \<Rightarrow> 'd fat \<Rightarrow> (u16 Scan \<times> 'd fat) option" where
  "read_fat cluster s =
     (case fat_place cluster of (sector_index, inner) \<Rightarrow>
        let lba = FAT1_LBA + sector_index
        in do {
          (ok, s) \<leftarrow> load_block (ucast (lba div SECTORS_PER_TRANSFER)) s;
          if \<not> ok then Some (Failed, s)
          else do {
            bytes \<leftarrow> take_slice (unat (lba mod SECTORS_PER_TRANSFER) * SECTOR_BYTES + inner) 2 (block s);
            Some (Hit (from_le16 bytes), s)
          }
        })"

fun alloc_cluster_loop :: "u16 list \<Rightarrow> 'd fat \<Rightarrow> (u16 Scan \<times> 'd fat) option" where
  "alloc_cluster_loop [] s = Some (Missing, s)"
| "alloc_cluster_loop (cluster # rest) s =
     do {
       (r, s) \<leftarrow> read_fat cluster s;
       (case r of Hit v \<Rightarrow> if v = 0 then Some (Hit cluster, s) else alloc_cluster_loop rest s
        | Missing \<Rightarrow> Some (Missing, s)
        | Failed \<Rightarrow> Some (Failed, s))
     }"

definition alloc_cluster :: "'d fat \<Rightarrow> (u16 Scan \<times> 'd fat) option" where
  "alloc_cluster = alloc_cluster_loop (u16_range 2 CLUSTER_SCAN)"

text \<open>The chain \<open>!a() || !b() || ..\<close> of fallible steps.\<close>

fun all_ok :: "('d fat \<Rightarrow> (bool \<times> 'd fat) option) list \<Rightarrow> 'd fat \<Rightarrow> (bool \<times> 'd fat) option" where
  "all_ok [] s = Some (True, s)"
| "all_ok (m # ms) s = do {(ok, s) \<leftarrow> m s; if \<not> ok then Some (False, s) else all_ok ms s}"


subsection \<open>Opening, closing and moving bytes\<close>

definition file_busy :: "'d fat \<Rightarrow> bool" where
  "file_busy s \<longleftrightarrow> ft_file s \<noteq> None"

definition open_nested_read :: "u64 \<Rightarrow> u8 list \<Rightarrow> u8 list \<Rightarrow> 'd fat \<Rightarrow> (bool \<times> 'd fat) option" where
  "open_nested_read rid dir_name file_name s =
     (if file_busy s then reply rid FS_STATUS_TOO_MANY_OPEN_FILES s
      else do {
        (r, s) \<leftarrow> find_name dir_name s;
        (case r of
           Hit parent \<Rightarrow>
             if is_dir (hit_attr parent) \<and> 2 \<le> hit_cluster parent then do {
               (r, s) \<leftarrow> find_in_cluster (hit_cluster parent) file_name s;
               (case r of
                  Hit hit \<Rightarrow>
                    if is_dir (hit_attr hit) \<or> hit_cluster hit < 2 then reply rid FS_STATUS_ERROR s
                    else Some (complete rid FS_STATUS_SUCCESS (CFd FD_FILE)
                      (s\<lparr>ft_file := Some \<lparr>fl_cluster = hit_cluster hit, fl_size = hit_size hit,
                         fl_dir_index = hit_index hit, fl_parent = hit_cluster parent\<rparr>\<rparr>))
                | Missing \<Rightarrow> reply rid FS_STATUS_NO_FILE s
                | Failed \<Rightarrow> give_up rid s)
             }
             else reply rid FS_STATUS_ERROR s
         | Missing \<Rightarrow> reply rid FS_STATUS_NO_FILE s
         | Failed \<Rightarrow> give_up rid s)
      })"

text \<open>\<open>Err(done)\<close> of \<open>reserve_file\<close> and \<open>stage_file_bytes\<close> is \<open>Inl\<close>: the handler returns
  it at once.\<close>

definition stop_with :: "(bool \<times> 'd fat) option \<Rightarrow> ((bool + 'a) \<times> 'd fat) option" where
  "stop_with r = map_option (\<lambda>(done, s). (Inl done, s)) r"

definition reserve_file :: "u64 \<Rightarrow> u8 list \<Rightarrow> 'd fat \<Rightarrow> ((bool + u16 \<times> u16) \<times> 'd fat) option" where
  "reserve_file rid name s =
     do {
       (r, s) \<leftarrow> find_name name s;
       (case r of
          Hit _ \<Rightarrow> stop_with (reply rid FS_STATUS_ALREADY_EXISTS s)
        | Failed \<Rightarrow> stop_with (give_up rid s)
        | Missing \<Rightarrow> do {
            (r, s) \<leftarrow> find_free s;
            (case r of
               Missing \<Rightarrow> stop_with (reply rid FS_STATUS_DIRECTORY_IS_FULL s)
             | Failed \<Rightarrow> stop_with (give_up rid s)
             | Hit slot \<Rightarrow> do {
                 (r, s) \<leftarrow> alloc_cluster s;
                 (case r of
                    Hit cluster \<Rightarrow> Some (Inr (slot, cluster), s)
                  | Missing \<Rightarrow> stop_with (reply rid FS_STATUS_DIRECTORY_IS_FULL s)
                  | Failed \<Rightarrow> stop_with (give_up rid s))
               })
          })
     }"

definition create_file :: "u64 \<Rightarrow> u8 list \<Rightarrow> 'd fat \<Rightarrow> (bool \<times> 'd fat) option" where
  "create_file rid name s =
     (if file_busy s then reply rid FS_STATUS_TOO_MANY_OPEN_FILES s
      else do {
        (r, s) \<leftarrow> reserve_file rid name s;
        (case r of
           Inl done \<Rightarrow> Some (done, s)
         | Inr (slot, cluster) \<Rightarrow> do {
             (ok, s) \<leftarrow> all_ok [set_fat cluster 0xffff, write_dir slot name cluster 0 ATTR_ARCHIVE, flush_block] s;
             if \<not> ok then give_up rid s
             else Some (complete rid FS_STATUS_SUCCESS (CFd FD_FILE)
               (s\<lparr>ft_file := Some \<lparr>fl_cluster = cluster, fl_size = 0, fl_dir_index = slot, fl_parent = 0\<rparr>\<rparr>))
           })
      })"

definition open_read :: "u64 \<Rightarrow> u8 list \<Rightarrow> 'd fat \<Rightarrow> (bool \<times> 'd fat) option" where
  "open_read rid name s =
     (if file_busy s then reply rid FS_STATUS_TOO_MANY_OPEN_FILES s
      else do {
        (r, s) \<leftarrow> find_name name s;
        (case r of
           Hit hit \<Rightarrow>
             if is_dir (hit_attr hit) \<or> hit_cluster hit < 2 then reply rid FS_STATUS_ERROR s
             else Some (complete rid FS_STATUS_SUCCESS (CFd FD_FILE)
               (s\<lparr>ft_file := Some \<lparr>fl_cluster = hit_cluster hit, fl_size = hit_size hit,
                  fl_dir_index = hit_index hit, fl_parent = 0\<rparr>\<rparr>))
         | Missing \<Rightarrow> reply rid FS_STATUS_NO_FILE s
         | Failed \<Rightarrow> give_up rid s)
      })"

definition PATH_MAX :: nat where "PATH_MAX = 24"

definition handle_open :: "u64 \<Rightarrow> fs_buffer_t \<Rightarrow> u64 \<Rightarrow> 'd fat \<Rightarrow> (bool \<times> 'd fat) option" where
  "handle_open rid path flags s =
     (let sz = unat (fb_size path)
      in if PATH_MAX < sz then reply rid FS_STATUS_INVALID_NAME s
         else case (if 0 < sz then copy_share (fb_offset path) sz s else Some []) of
           None \<Rightarrow> reply rid FS_STATUS_INVALID_BUFFER s
         | Some raw \<Rightarrow>
             if 0x2f \<in> set raw then
               if flags \<noteq> FS_OPEN_FLAGS_READ_ONLY then reply rid FS_STATUS_ERROR s
               else case two_components raw of
                      None \<Rightarrow> reply rid FS_STATUS_INVALID_NAME s
                    | Some (dir, file) \<Rightarrow>
                        (case pack_name dir of
                           None \<Rightarrow> reply rid FS_STATUS_INVALID_NAME s
                         | Some dir_name \<Rightarrow>
                             (case pack_name file of
                                None \<Rightarrow> reply rid FS_STATUS_INVALID_NAME s
                              | Some file_name \<Rightarrow> open_nested_read rid dir_name file_name s))
             else if 11 < sz then reply rid FS_STATUS_INVALID_NAME s
             else case pack_name raw of
                    None \<Rightarrow> reply rid FS_STATUS_INVALID_NAME s
                  | Some name \<Rightarrow>
                      if flags = FS_OPEN_FLAGS_CREATE OR FS_OPEN_FLAGS_WRITE_ONLY then create_file rid name s
                      else if flags = FS_OPEN_FLAGS_READ_ONLY then open_read rid name s
                      else reply rid FS_STATUS_ERROR s)"

definition handle_close :: "u64 \<Rightarrow> u64 \<Rightarrow> 'd fat \<Rightarrow> (bool \<times> 'd fat) option" where
  "handle_close rid fd s =
     (if fd \<noteq> FD_FILE \<or> ft_file s = None then reply rid FS_STATUS_INVALID_FD s
      else reply rid FS_STATUS_SUCCESS (s\<lparr>ft_file := None\<rparr>))"

definition set_open_size :: "u32 \<Rightarrow> 'd fat \<Rightarrow> 'd fat" where
  "set_open_size sz s = s\<lparr>ft_file := map_option (\<lambda>f. f\<lparr>fl_size := sz\<rparr>) (ft_file s)\<rparr>"

definition handle_write :: "u64 \<Rightarrow> u64 \<Rightarrow> u64 \<Rightarrow> fs_buffer_t \<Rightarrow> 'd fat \<Rightarrow> (bool \<times> 'd fat) option" where
  "handle_write rid fd offset buf s =
     (case ft_file s of
        None \<Rightarrow> reply rid FS_STATUS_INVALID_FD s
      | Some f \<Rightarrow>
          if fd \<noteq> FD_FILE then reply rid FS_STATUS_INVALID_FD s
          else if fl_parent f \<noteq> 0 then reply rid FS_STATUS_INVALID_WRITE s
          else if offset \<noteq> 0 \<or> fb_size buf = 0 \<or> SECTOR_BYTES < unat (fb_size buf) then
            reply rid FS_STATUS_INVALID_WRITE s
          else case copy_share (fb_offset buf) (unat (fb_size buf)) s of
                 None \<Rightarrow> reply rid FS_STATUS_INVALID_BUFFER s
               | Some bytes \<Rightarrow> do {
                   lba \<leftarrow> cluster_lba (fl_cluster f);
                   (ok, s) \<leftarrow> edit_sector lba (put_slice 0 bytes) s;
                   if \<not> ok then give_up rid s
                   else let sz = ucast (fb_size buf)
                     in do {
                       (ok, s) \<leftarrow> all_ok [update_size (fl_parent f) (fl_dir_index f) sz, flush_block] s;
                       if \<not> ok then give_up rid s
                       else Some (complete rid FS_STATUS_SUCCESS (CWrite (fb_size buf)) (set_open_size sz s))
                     }
                 })"

text \<open>The copy reads \<open>copied\<close> bytes from the block buffer on, whatever lies behind it.\<close>

definition block_bytes :: "nat \<Rightarrow> nat \<Rightarrow> 'd fat \<Rightarrow> u8 list" where
  "block_bytes off n s =
     map (\<lambda>i. if i < length (block s) then block s ! i else ft_past s (i - length (block s))) [off ..< off + n]"

definition stage_file_bytes :: "u64 \<Rightarrow> OpenFile \<Rightarrow> nat \<Rightarrow> nat \<Rightarrow> 'd fat \<Rightarrow> ((bool + unit) \<times> 'd fat) option" where
  "stage_file_bytes rid f buf_off copied s =
     (case cluster_lba (fl_cluster f) of
        None \<Rightarrow> stop_with (reply rid FS_STATUS_ERROR s)
      | Some lba \<Rightarrow> do {
          (ok, s) \<leftarrow> load_block (ucast (lba div SECTORS_PER_TRANSFER)) s;
          if \<not> ok then stop_with (give_up rid s)
          else Some (Inr (), put_share_bytes buf_off
            (block_bytes (unat (lba mod SECTORS_PER_TRANSFER) * SECTOR_BYTES) copied s) s)
        })"

definition handle_read :: "u64 \<Rightarrow> u64 \<Rightarrow> u64 \<Rightarrow> fs_buffer_t \<Rightarrow> 'd fat \<Rightarrow> (bool \<times> 'd fat) option" where
  "handle_read rid fd offset buf s =
     (case ft_file s of
        None \<Rightarrow> reply rid FS_STATUS_INVALID_FD s
      | Some f \<Rightarrow>
          if fd \<noteq> FD_FILE then reply rid FS_STATUS_INVALID_FD s
          else if offset \<noteq> 0 then reply rid FS_STATUS_INVALID_READ s
          else case share_span buf of
                 None \<Rightarrow> reply rid FS_STATUS_INVALID_BUFFER s
               | Some (buf_off, buf_len) \<Rightarrow>
                   let copied = min buf_len (unat (fl_size f))
                   in do {
                     (r, s) \<leftarrow> (if 0 < copied then stage_file_bytes rid f buf_off copied s else Some (Inr (), s));
                     (case r of Inl done \<Rightarrow> Some (done, s)
                      | Inr _ \<Rightarrow> Some (complete rid FS_STATUS_SUCCESS (CRead (of_nat copied)) s))
                   })"

subsection \<open>Metadata commands\<close>

definition stat_words :: "DirHit option \<Rightarrow> u64 list" where
  "stat_words hit =
     (case hit of
        None \<Rightarrow> [0, 1, S_IFDIR OR MODE_BITS, 0, 0, 0, 0, 0, of_nat SECTOR_BYTES, 0, 0, 0, 0, 0, 0, 0, 0]
      | Some hit \<Rightarrow> [0, ucast (hit_index hit) + 2,
          if is_dir (hit_attr hit) then S_IFDIR OR MODE_BITS else S_IFREG OR MODE_BITS,
          0, 0, 0, 0, ucast (hit_size hit), of_nat SECTOR_BYTES, 0, 0, 0, 0, 0, 0, 0, 0])"

definition finish_stat :: "u64 \<Rightarrow> fs_buffer_t \<Rightarrow> DirHit option \<Rightarrow> 'd fat \<Rightarrow> (bool \<times> 'd fat) option" where
  "finish_stat rid buf hit s =
     (case write_share buf (concat (map le64 (stat_words hit))) s of
        (False, s) \<Rightarrow> reply rid FS_STATUS_INVALID_BUFFER s
      | (True, s) \<Rightarrow> reply rid FS_STATUS_SUCCESS s)"

definition handle_stat :: "u64 \<Rightarrow> fs_buffer_t \<Rightarrow> fs_buffer_t \<Rightarrow> 'd fat \<Rightarrow> (bool \<times> 'd fat) option" where
  "handle_stat rid path buf s =
     (if unat (fb_size buf) < STAT_BYTES then reply rid FS_STATUS_INVALID_BUFFER s
      else if is_root_path_buf path s then finish_stat rid buf None s
      else case read_packed_name path s of
             None \<Rightarrow> reply rid FS_STATUS_INVALID_NAME s
           | Some name \<Rightarrow> do {
               (r, s) \<leftarrow> find_name name s;
               (case r of
                  Hit hit \<Rightarrow> finish_stat rid buf (Some hit) s
                | Missing \<Rightarrow> reply rid FS_STATUS_NO_FILE s
                | Failed \<Rightarrow> give_up rid s)
             })"

definition finish_rename :: "u64 \<Rightarrow> u16 \<Rightarrow> u8 list \<Rightarrow> 'd fat \<Rightarrow> (bool \<times> 'd fat) option" where
  "finish_rename rid index new s =
     do {
       (ok, s) \<leftarrow> all_ok [rename_entry index new, flush_block] s;
       if \<not> ok then give_up rid s else reply rid FS_STATUS_SUCCESS s
     }"

definition handle_rename :: "u64 \<Rightarrow> fs_buffer_t \<Rightarrow> fs_buffer_t \<Rightarrow> 'd fat \<Rightarrow> (bool \<times> 'd fat) option" where
  "handle_rename rid old_path new_path s =
     (case read_packed_name old_path s of
        None \<Rightarrow> reply rid FS_STATUS_INVALID_NAME s
      | Some old \<Rightarrow>
          (case read_packed_name new_path s of
             None \<Rightarrow> reply rid FS_STATUS_INVALID_NAME s
           | Some new \<Rightarrow> do {
               (r, s) \<leftarrow> find_name old s;
               (case r of
                  Missing \<Rightarrow> reply rid FS_STATUS_NO_FILE s
                | Failed \<Rightarrow> give_up rid s
                | Hit hit \<Rightarrow>
                    if old \<noteq> new then do {
                      (r, s) \<leftarrow> find_name new s;
                      (case r of
                         Hit _ \<Rightarrow> reply rid FS_STATUS_ALREADY_EXISTS s
                       | Failed \<Rightarrow> give_up rid s
                       | Missing \<Rightarrow> finish_rename rid (hit_index hit) new s)
                    }
                    else finish_rename rid (hit_index hit) new s)
             }))"

definition forget_removed :: "u16 \<Rightarrow> 'd fat \<Rightarrow> 'd fat" where
  "forget_removed index s =
     (case ft_file s of
        Some f \<Rightarrow> if fl_parent f = 0 \<and> fl_dir_index f = index then s\<lparr>ft_file := None\<rparr> else s
      | None \<Rightarrow> s)"

definition finish_remove :: "u64 \<Rightarrow> DirHit \<Rightarrow> 'd fat \<Rightarrow> (bool \<times> 'd fat) option" where
  "finish_remove rid hit s =
     do {
       (ok, s) \<leftarrow> all_ok [\<lambda>s. if 2 \<le> hit_cluster hit then set_fat (hit_cluster hit) 0 s else Some (True, s),
         mark_deleted (hit_index hit), flush_block] s;
       if \<not> ok then give_up rid s
       else reply rid FS_STATUS_SUCCESS (forget_removed (hit_index hit) s)
     }"

definition handle_remove :: "u64 \<Rightarrow> fs_buffer_t \<Rightarrow> 'd fat \<Rightarrow> (bool \<times> 'd fat) option" where
  "handle_remove rid path s =
     (case read_packed_name path s of
        None \<Rightarrow> reply rid FS_STATUS_INVALID_NAME s
      | Some name \<Rightarrow> do {
          (r, s) \<leftarrow> find_name name s;
          (case r of
             Missing \<Rightarrow> reply rid FS_STATUS_NO_FILE s
           | Failed \<Rightarrow> give_up rid s
           | Hit hit \<Rightarrow>
               if is_dir (hit_attr hit) then do {
                 (r, s) \<leftarrow> directory_empty (hit_cluster hit) s;
                 (case r of
                    Hit True \<Rightarrow> finish_remove rid hit s
                  | Hit False \<Rightarrow> reply rid FS_STATUS_NOT_EMPTY s
                  | Missing \<Rightarrow> reply rid FS_STATUS_ERROR s
                  | Failed \<Rightarrow> give_up rid s)
               }
               else finish_remove rid hit s)
        })"

text \<open>\<open>handle_mkdir\<close> repeats the scans of \<open>reserve_file\<close> with the same answers.\<close>

definition handle_mkdir :: "u64 \<Rightarrow> fs_buffer_t \<Rightarrow> 'd fat \<Rightarrow> (bool \<times> 'd fat) option" where
  "handle_mkdir rid path s =
     (case read_packed_name path s of
        None \<Rightarrow> reply rid FS_STATUS_INVALID_NAME s
      | Some name \<Rightarrow> do {
          (r, s) \<leftarrow> reserve_file rid name s;
          (case r of
             Inl done \<Rightarrow> Some (done, s)
           | Inr (slot, cluster) \<Rightarrow> do {
               (ok, s) \<leftarrow> all_ok [set_fat cluster 0xffff, format_directory cluster,
                 write_dir slot name cluster 0 ATTR_DIR, flush_block] s;
               if \<not> ok then give_up rid s else reply rid FS_STATUS_SUCCESS s
             })
        })"

subsection \<open>Directories\<close>

definition handle_dir_open :: "u64 \<Rightarrow> fs_buffer_t \<Rightarrow> 'd fat \<Rightarrow> (bool \<times> 'd fat) option" where
  "handle_dir_open rid path s =
     (if ft_dir s \<noteq> None then reply rid FS_STATUS_TOO_MANY_OPEN_FILES s
      else if is_root_path_buf path s then
        Some (complete rid FS_STATUS_SUCCESS (CFd FD_DIR)
          (s\<lparr>ft_dir := Some \<lparr>dr_cluster = 0, dr_index = 0, dr_limit = ROOT_ENTRIES\<rparr>\<rparr>))
      else case read_packed_name path s of
             None \<Rightarrow> reply rid FS_STATUS_INVALID_NAME s
           | Some name \<Rightarrow> do {
               (r, s) \<leftarrow> find_name name s;
               (case r of
                  Hit hit \<Rightarrow>
                    if is_dir (hit_attr hit) \<and> 2 \<le> hit_cluster hit then
                      Some (complete rid FS_STATUS_SUCCESS (CFd FD_DIR)
                        (s\<lparr>ft_dir := Some \<lparr>dr_cluster = hit_cluster hit, dr_index = 0, dr_limit = ENTRIES_PER_SECTOR\<rparr>\<rparr>))
                    else reply rid FS_STATUS_NO_FILE s
                | Missing \<Rightarrow> reply rid FS_STATUS_NO_FILE s
                | Failed \<Rightarrow> give_up rid s)
             })"

definition set_dir_index :: "u16 \<Rightarrow> 'd fat \<Rightarrow> 'd fat" where
  "set_dir_index index s = s\<lparr>ft_dir := map_option (\<lambda>d. d\<lparr>dr_index := index\<rparr>) (ft_dir s)\<rparr>"

text \<open>The loop of \<open>handle_dir_read\<close> over the indices from \<open>dir.index\<close> up to \<open>dir.limit\<close>.\<close>

function dir_read_loop :: "u64 \<Rightarrow> fs_buffer_t \<Rightarrow> u16 \<Rightarrow> u16 \<Rightarrow> u16 \<Rightarrow> 'd fat \<Rightarrow> (bool \<times> 'd fat) option" where
  "dir_read_loop rid buf cluster limit index s =
     (if \<not> index < limit then Some (complete rid FS_STATUS_END_OF_DIRECTORY (CDirRead 0) s)
      else do {
        (r, s) \<leftarrow> read_placed cluster index s;
        (case r of None \<Rightarrow> give_up rid s
         | Some entry \<Rightarrow>
             if entry ! 0 = 0x00 then
               Some (complete rid FS_STATUS_END_OF_DIRECTORY (CDirRead 0) (set_dir_index (index + 1) s))
             else if entry ! 0 = 0xe5 \<or> is_dot entry then dir_read_loop rid buf cluster limit (index + 1) s
             else do {
               (shown, len) \<leftarrow> display_name entry;
               if unat (fb_size buf) < len then reply rid FS_STATUS_INVALID_BUFFER s
               else (case copy_to_share (fb_offset buf) (take len shown) s of
                 (False, s) \<Rightarrow> reply rid FS_STATUS_INVALID_BUFFER s
               | (True, s) \<Rightarrow>
                   Some (complete rid FS_STATUS_SUCCESS (CDirRead (of_nat len)) (set_dir_index (index + 1) s)))
             })
      })"
  by pat_completeness auto
termination
proof (relation "measure (\<lambda>(rid, buf, cluster, limit, index, s). unat limit - unat index)", goal_cases)
  case (2 rid buf cluster limit index s x xa y x2)
  then have "index < limit" by simp
  then have "unat (index + 1) = unat index + 1" and "unat index < unat limit"
    using unat_less_exp [of limit] by (simp_all add: word_less_nat_alt word_neq_max_Suc)
  then show ?case by simp
qed simp

definition handle_dir_read :: "u64 \<Rightarrow> u64 \<Rightarrow> fs_buffer_t \<Rightarrow> 'd fat \<Rightarrow> (bool \<times> 'd fat) option" where
  "handle_dir_read rid fd buf s =
     (case ft_dir s of
        None \<Rightarrow> reply rid FS_STATUS_INVALID_FD s
      | Some d \<Rightarrow>
          if fd \<noteq> FD_DIR then reply rid FS_STATUS_INVALID_FD s
          else dir_read_loop rid buf (dr_cluster d) (dr_limit d) (dr_index d) s)"

definition handle_dir_close :: "u64 \<Rightarrow> u64 \<Rightarrow> 'd fat \<Rightarrow> (bool \<times> 'd fat) option" where
  "handle_dir_close rid fd s =
     (if fd \<noteq> FD_DIR \<or> ft_dir s = None then reply rid FS_STATUS_INVALID_FD s
      else reply rid FS_STATUS_SUCCESS (s\<lparr>ft_dir := None\<rparr>))"

subsection \<open>The worker\<close>

text \<open>The command structures by the words of the parameter union, in the order of \<open>fs.rs\<close>.\<close>

definition dispatch :: "fs_cmd_t \<Rightarrow> 'd fat \<Rightarrow> (bool \<times> 'd fat) option" where
  "dispatch cmd s =
     (let rid = cmd_id cmd; ps = cmd_params cmd; ty = cmd_type cmd
      in if ty = FS_CMD_FILE_OPEN then handle_open rid (param_buffer ps 0) (param_word ps 2) s
         else if ty = FS_CMD_FILE_CLOSE then handle_close rid (param_word ps 0) s
         else if ty = FS_CMD_FILE_WRITE then handle_write rid (param_word ps 0) (param_word ps 1) (param_buffer ps 2) s
         else if ty = FS_CMD_FILE_READ then handle_read rid (param_word ps 0) (param_word ps 1) (param_buffer ps 2) s
         else if ty = FS_CMD_STAT then handle_stat rid (param_buffer ps 0) (param_buffer ps 2) s
         else if ty = FS_CMD_RENAME then handle_rename rid (param_buffer ps 0) (param_buffer ps 2) s
         else if ty = FS_CMD_FILE_REMOVE then handle_remove rid (param_buffer ps 0) s
         else if ty = FS_CMD_DIR_CREATE then handle_mkdir rid (param_buffer ps 0) s
         else if ty = FS_CMD_DIR_OPEN then handle_dir_open rid (param_buffer ps 0) s
         else if ty = FS_CMD_DIR_READ then handle_dir_read rid (param_word ps 0) (param_buffer ps 1) s
         else if ty = FS_CMD_DIR_CLOSE then handle_dir_close rid (param_word ps 0) s
         else reply rid FS_STATUS_INVALID_COMMAND s)"

definition serve_one :: "'d fat \<Rightarrow> (bool \<times> 'd fat) option" where
  "serve_one s =
     (case fs_message_dequeue (sh_commands (ft_shared s)) (replicate 8 0) of
        (got, msg, q) \<Rightarrow>
          let s = s\<lparr>ft_shared := (ft_shared s)\<lparr>sh_commands := q\<rparr>\<rparr>
          in if got \<noteq> 0 then Some (True, s) else dispatch (msg_cmd msg) s)"

definition volume_ok :: "'d fat \<Rightarrow> bool" where
  "volume_ok s \<longleftrightarrow> block s ! 510 = 0x55 \<and> block s ! 511 = 0xaa \<and> from_le16 (slice 11 2 (block s)) = of_nat SECTOR_BYTES"

definition write_boot :: "u8 list \<Rightarrow> u8 list" where
  "write_boot sector =
     (let b = replicate (length sector) 0; b = patch 0 [0xeb, 0x3c, 0x90] b;
        b = patch 3 [0x4c, 0x45, 0x52, 0x55, 0x58, 0x46, 0x41, 0x54] b;
        b = patch 11 (le16 (of_nat SECTOR_BYTES)) b; b = b[13 := 1];
        b = patch 14 (le16 RESERVED_SECTORS) b; b = b[16 := FAT_COUNT];
        b = patch 17 (le16 ROOT_ENTRIES) b; b = patch 19 (le16 TOTAL_SECTORS) b; b = b[21 := 0xf8];
        b = patch 22 (le16 FAT_SECTORS) b; b = b[510 := 0x55]
      in b[511 := 0xaa])"

definition write_fat_header :: "u8 list" where
  "write_fat_header = le16 0xfff8 @ le16 0xffff"

definition edit_block :: "(u8 list \<Rightarrow> u8 list) \<Rightarrow> 'd fat \<Rightarrow> (bool \<times> 'd fat) option" where
  "edit_block f s = Some (True, s\<lparr>block := f (block s)\<rparr>)"

definition format_volume :: "'d fat \<Rightarrow> (bool \<times> 'd fat) option" where
  "format_volume =
     all_ok ([stage_zero 0,
       edit_block (\<lambda>b. patch 0 (write_boot (take SECTOR_BYTES b)) b),
       edit_block (patch SECTOR_BYTES write_fat_header)]
       @ map stage_zero [1, 2, 3]
       @ [stage_zero 4, edit_block (patch SECTOR_BYTES write_fat_header)]
       @ map stage_zero [5, 6, 7, 8, 9, 10, 11, 12]
       @ [flush_block])"

definition create_directory :: "u8 list \<Rightarrow> 'd fat \<Rightarrow> (u16 option \<times> 'd fat) option" where
  "create_directory name s =
     do {
       (r, s) \<leftarrow> find_free s;
       (case r of
          Hit slot \<Rightarrow> do {
            (r, s) \<leftarrow> alloc_cluster s;
            (case r of
               Hit cluster \<Rightarrow> do {
                 (ok, s) \<leftarrow> all_ok [set_fat cluster 0xffff, format_directory cluster,
                   write_dir slot name cluster 0 ATTR_DIR, flush_block] s;
                 Some (if \<not> ok then None else Some cluster, s)
               }
             | _ \<Rightarrow> Some (None, s))
          }
        | _ \<Rightarrow> Some (None, s))
     }"

definition seed_bytes :: "u8 list" where
  "seed_bytes = [0x6c, 0x65, 0x72, 0x75, 0x78]"

definition write_seed_file :: "u16 \<Rightarrow> u8 list \<Rightarrow> 'd fat \<Rightarrow> (bool \<times> 'd fat) option" where
  "write_seed_file parent name s =
     do {
       (r, s) \<leftarrow> find_free_in_cluster parent s;
       (case r of
          Hit slot \<Rightarrow> do {
            (r, s) \<leftarrow> alloc_cluster s;
            (case r of
               Hit cluster \<Rightarrow> do {
                 lba \<leftarrow> cluster_lba cluster;
                 all_ok [set_fat cluster 0xffff,
                   edit_sector lba (\<lambda>sector. put_slice 0 seed_bytes (replicate (length sector) 0)),
                   write_in_cluster parent slot name cluster (of_nat (length seed_bytes)) ATTR_ARCHIVE,
                   flush_block] s
               }
             | _ \<Rightarrow> Some (False, s))
          }
        | _ \<Rightarrow> Some (False, s))
     }"

definition config_bytes :: "u8 list" where "config_bytes = [0x63, 0x6f, 0x6e, 0x66, 0x69, 0x67]"
definition hostname_bytes :: "u8 list" where "hostname_bytes = [0x68, 0x6f, 0x73, 0x74, 0x6e, 0x61, 0x6d, 0x65]"

definition seed_in :: "u8 list \<Rightarrow> u16 \<Rightarrow> 'd fat \<Rightarrow> (bool \<times> 'd fat) option" where
  "seed_in file_name dir_cluster s =
     do {
       (r, s) \<leftarrow> find_in_cluster dir_cluster file_name s;
       (case r of Hit _ \<Rightarrow> Some (True, s) | Missing \<Rightarrow> write_seed_file dir_cluster file_name s | Failed \<Rightarrow> Some (False, s))
     }"

definition seed_hostname :: "'d fat \<Rightarrow> (bool \<times> 'd fat) option" where
  "seed_hostname s =
     (case pack_name config_bytes of None \<Rightarrow> Some (False, s)
      | Some dir_name \<Rightarrow>
          (case pack_name hostname_bytes of None \<Rightarrow> Some (False, s)
           | Some file_name \<Rightarrow> do {
               (r, s) \<leftarrow> find_name dir_name s;
               (case r of
                  Hit hit \<Rightarrow>
                    if \<not> is_dir (hit_attr hit) \<or> hit_cluster hit < 2 then Some (False, s)
                    else seed_in file_name (hit_cluster hit) s
                | Missing \<Rightarrow> do {
                    (c, s) \<leftarrow> create_directory dir_name s;
                    (case c of Some cluster \<Rightarrow> seed_in file_name cluster s | None \<Rightarrow> Some (False, s))
                  }
                | Failed \<Rightarrow> Some (False, s))
             }))"

definition prepare :: "'d fat \<Rightarrow> (bool \<times> 'd fat) option" where
  "prepare s =
     (if \<not> blk_storage_is_ready (ft_storage s) then Some (False, s)
      else all_ok [load_block 0, \<lambda>s. if volume_ok s then Some (True, s) else format_volume s, seed_hostname] s)"

text \<open>The worker returns only when it gives up; \<open>None\<close> otherwise.\<close>

partial_function (option) worker_loop :: "'d fat \<Rightarrow> 'd fat option" where
  "worker_loop s =
     (case ft_wait s FS_CH (ft_shared s) of None \<Rightarrow> None
      | Some w \<Rightarrow>
          (case serve_one (s\<lparr>ft_shared := w\<rparr>) of None \<Rightarrow> None
           | Some (ok, s) \<Rightarrow> if \<not> ok then Some s else worker_loop s))"

definition worker :: "'d fat \<Rightarrow> 'd fat option" where
  "worker s = (case prepare s of None \<Rightarrow> None | Some (ok, s) \<Rightarrow> if \<not> ok then Some s else worker_loop s)"

text \<open>The protection domain: \<open>init\<close> checks the configuration and sets the state up for the
  worker; \<open>notified\<close> hands the channels to the cothread runtime, the block channel first.\<close>

record fat_config =
  fcf_blk_magic :: "u8 list"
  fcf_blk_id :: nat
  fcf_num_buffers :: u16
  fcf_fs_magic :: "u8 list"
  fcf_fs_id :: nat

definition fat_init ::
  "fat_config \<Rightarrow> 'd shared \<Rightarrow> blk_storage_info_t \<Rightarrow> (nat \<Rightarrow> 'd shared \<Rightarrow> 'd shared option) \<Rightarrow> mem \<Rightarrow> 'd fat option" where
  "fat_init config w storage wait past =
     (if fcf_blk_magic config \<noteq> SDDF_BLK_MAGIC \<or> fcf_fs_magic config \<noteq> LIONS_FS_MAGIC
         \<or> fcf_blk_id config \<noteq> BLK_CH \<or> fcf_fs_id config \<noteq> FS_CH then None
      else Some \<lparr>ft_shared = w\<lparr>sh_blk := blk_queue_init (sh_blk w) (req_queue (sh_blk w)) (resp_queue (sh_blk w))
          (ucast (fcf_num_buffers config))\<rparr>,
        ft_wait = wait, ft_past = past, ft_storage = storage, block_no = 0, block_valid = False,
        block_dirty = False, block = replicate TRANSFER 0, ft_file = None, ft_dir = None, ft_notes = []\<rparr>)"

definition fat_notified :: "nat list \<Rightarrow> rt \<Rightarrow> rt option" where
  "fat_notified chs r =
     do {
       r \<leftarrow> (if BLK_CH \<in> set chs then microkit_cothread_recv_ntfn BLK_CH r else Some r);
       if FS_CH \<in> set chs then microkit_cothread_recv_ntfn FS_CH r else Some r
     }"

end
