(* ===== verification/FatCache.thy ===== *)
theory FatCache
  imports FatServer
begin

text \<open>
  The block cache of the file server against a block device behind the block queues.

  \<open>block_peer\<close> states what the server relies on while it waits for a response: the one
  outstanding request is answered after finitely many wakes, a successful answer means that the
  block was read into the data region or written from it, and the file client only adds commands
  and takes completions. The share is left open: the client may write it at any time. Under
  \<open>good\<close> block numbers the answer is a success.

  \<open>vol\<close> is the volume the server works on: the device overlaid by the cached block. Every
  cache operation is described by what it does to \<open>vol\<close>; \<open>finishes\<close> is total correctness
  of one run.
\<close>

subsection \<open>Runs that return\<close>

definition finishes :: "('a \<times> 's) option \<Rightarrow> ('a \<Rightarrow> 's \<Rightarrow> bool) \<Rightarrow> bool" where
  "finishes r Q \<longleftrightarrow> (\<exists>x s. r = Some (x, s) \<and> Q x s)"

lemma finishes_simps [simp]:
  "finishes (Some p) Q = Q (fst p) (snd p)"
  "\<not> finishes None Q"
  by (auto simp: finishes_def split: prod.splits) (metis prod.collapse)

lemma finishes_bind: "finishes (r \<bind> (\<lambda>(x, s). f x s)) Q = finishes r (\<lambda>x s. finishes (f x s) Q)"
  by (cases r) (auto simp: finishes_def)

lemma finishes_mono: "finishes r R \<Longrightarrow> (\<And>x s. R x s \<Longrightarrow> Q x s) \<Longrightarrow> finishes r Q"
  by (auto simp: finishes_def)

lemma finishes_bindI:
  "finishes r R \<Longrightarrow> (\<And>x s. R x s \<Longrightarrow> finishes (f x s) Q) \<Longrightarrow> finishes (r \<bind> (\<lambda>(x, s). f x s)) Q"
  by (auto simp: finishes_bind intro: finishes_mono)

lemma finishesE: "finishes r Q \<Longrightarrow> (\<And>x s. r = Some (x, s) \<Longrightarrow> Q x s \<Longrightarrow> thesis) \<Longrightarrow> thesis"
  by (auto simp: finishes_def)

lemma finishes_conj: "finishes r P \<Longrightarrow> finishes r Q \<Longrightarrow> finishes r (\<lambda>x s. P x s \<and> Q x s)"
  by (auto simp: finishes_def)

subsection \<open>The peers\<close>

definition peers_ok :: "('d \<Rightarrow> u64 \<Rightarrow> u8 list) \<Rightarrow> 'd shared \<Rightarrow> bool" where
  "peers_ok disk w \<longleftrightarrow> blk_ready (sh_blk w) \<and> TRANSFER \<le> length (sh_data w)
     \<and> fs_queue_wf (sh_commands w) \<and> fs_queue_wf (sh_completions w)
     \<and> (\<forall>b. length (disk (sh_peers w) b) = TRANSFER)"

definition client_step :: "'d shared \<Rightarrow> 'd shared \<Rightarrow> bool" where
  "client_step w w' \<longleftrightarrow>
     (\<exists>new. cmd_items (sh_commands w') = cmd_items (sh_commands w) @ new)
     \<and> (\<exists>n. cmpl_items (sh_completions w') = drop n (cmpl_items (sh_completions w)))
     \<and> fq_tail (sh_completions w') = fq_tail (sh_completions w)"

definition transfer_done :: "('d \<Rightarrow> u64 \<Rightarrow> u8 list) \<Rightarrow> blk_req_t \<Rightarrow> 'd shared \<Rightarrow> 'd shared \<Rightarrow> bool" where
  "transfer_done disk r w w' \<longleftrightarrow>
     (if req_code r = BLK_REQ_READ then
        take TRANSFER (sh_data w') = disk (sh_peers w) (req_block_number r) \<and> disk (sh_peers w') = disk (sh_peers w)
      else disk (sh_peers w') = (disk (sh_peers w))(req_block_number r := take TRANSFER (sh_data w)))"

definition transfer_failed :: "('d \<Rightarrow> u64 \<Rightarrow> u8 list) \<Rightarrow> blk_req_t \<Rightarrow> 'd shared \<Rightarrow> 'd shared \<Rightarrow> bool" where
  "transfer_failed disk r w w' \<longleftrightarrow>
     (\<forall>b. req_code r = BLK_REQ_READ \<or> b \<noteq> req_block_number r \<longrightarrow> disk (sh_peers w') b = disk (sh_peers w) b)"

definition transferred :: "('d \<Rightarrow> u64 \<Rightarrow> u8 list) \<Rightarrow> blk_req_t \<Rightarrow> bool \<Rightarrow> 'd shared \<Rightarrow> 'd shared \<Rightarrow> bool" where
  "transferred disk r ok w w' \<longleftrightarrow> (if ok then transfer_done disk r w w' else transfer_failed disk r w w')"

definition one_block :: "blk_req_t \<Rightarrow> bool" where
  "one_block r \<longleftrightarrow> req_io_or_offset r = 0 \<and> req_count r = 1 \<and> (req_code r = BLK_REQ_READ \<or> req_code r = BLK_REQ_WRITE)"

definition success :: "blk_resp_t \<Rightarrow> blk_req_t \<Rightarrow> bool" where
  "success p r \<longleftrightarrow> resp_status p = BLK_RESP_OK \<and> resp_success_count p = 1 \<and> resp_id p = req_id r"

definition block_peer ::
  "('d \<Rightarrow> u64 \<Rightarrow> u8 list) \<Rightarrow> ('d \<Rightarrow> nat) \<Rightarrow> (u64 \<Rightarrow> bool) \<Rightarrow> ('d shared \<Rightarrow> 'd shared option) \<Rightarrow> bool" where
  "block_peer disk pend good wait \<longleftrightarrow>
     (\<forall>w r. peers_ok disk w \<and> req_items (sh_blk w) = [r] \<and> resp_items (sh_blk w) = [] \<and> one_block r \<longrightarrow>
       (\<exists>w'. wait w = Some w' \<and> peers_ok disk w' \<and> client_step w w' \<and>
         (req_items (sh_blk w') = [r] \<and> resp_items (sh_blk w') = [] \<and> sh_data w' = sh_data w
            \<and> disk (sh_peers w') = disk (sh_peers w) \<and> pend (sh_peers w') < pend (sh_peers w)
          \<or> req_items (sh_blk w') = [] \<and> (\<exists>p. resp_items (sh_blk w') = [p] \<and>
              resp_id p = req_id r \<and> (good (req_block_number r) \<longrightarrow> success p r) \<and> transferred disk r (success p r) w w'))))"

lemmas transfer_defs = transferred_def transfer_done_def transfer_failed_def

lemma client_step_refl [simp, intro]: "client_step w w"
  unfolding client_step_def by (auto intro: exI [of _ "0 :: nat"])

lemma client_step_trans [trans]: "client_step w w' \<Longrightarrow> client_step w' w'' \<Longrightarrow> client_step w w''"
  unfolding client_step_def by (auto simp: add.commute)

lemma client_step_same:
  "sh_commands w' = sh_commands w \<Longrightarrow> sh_completions w' = sh_completions w \<Longrightarrow> client_step w w'"
  unfolding client_step_def by (auto intro: exI [of _ "0 :: nat"])

lemma blk_items_cong:
  "resp_queue h' = resp_queue h \<Longrightarrow> bq_capacity h' = bq_capacity h \<Longrightarrow> resp_items h' = resp_items h"
  "req_queue h' = req_queue h \<Longrightarrow> bq_capacity h' = bq_capacity h \<Longrightarrow> req_items h' = req_items h"
  by (simp_all add: resp_items_def req_items_def)

subsection \<open>One transfer\<close>

definition drained :: "blk_queue_handle_t \<Rightarrow> bool" where
  "drained h \<longleftrightarrow> req_items h = [] \<and> resp_items h = []"

lemma blk_wait_answers:
  assumes peer: "block_peer disk pend good (ft_wait s BLK_CH)" and ok: "peers_ok disk (ft_shared s)"
    and items: "req_items (sh_blk (ft_shared s)) = [r]" "resp_items (sh_blk (ft_shared s)) = []"
    and r: "one_block r" "req_id r = REQ_ID"
  shows "finishes (blk_wait s) (\<lambda>ok s'. \<exists>w. s' = s\<lparr>ft_shared := w\<rparr> \<and> peers_ok disk w \<and> drained (sh_blk w)
    \<and> client_step (ft_shared s) w \<and> (good (req_block_number r) \<longrightarrow> ok)
    \<and> transferred disk r ok (ft_shared s) w)"
  using peer ok items
proof (induction "pend (sh_peers (ft_shared s))" arbitrary: s rule: less_induct)
  case less
  let ?out = "\<lparr>resp_status = BLK_RESP_OK, resp_success_count = 0, resp_id = 0\<rparr>"
  obtain w where w: "ft_wait s BLK_CH (ft_shared s) = Some w" "peers_ok disk w" "client_step (ft_shared s) w"
    and c: "req_items (sh_blk w) = [r] \<and> resp_items (sh_blk w) = [] \<and> sh_data w = sh_data (ft_shared s)
            \<and> disk (sh_peers w) = disk (sh_peers (ft_shared s)) \<and> pend (sh_peers w) < pend (sh_peers (ft_shared s))
          \<or> req_items (sh_blk w) = [] \<and> (\<exists>p. resp_items (sh_blk w) = [p] \<and>
              resp_id p = req_id r \<and> (good (req_block_number r) \<longrightarrow> success p r) \<and> transferred disk r (success p r) (ft_shared s) w)"
    using less.prems r unfolding block_peer_def by blast
  from c show ?case
  proof (elim disjE conjE)
    assume p: "req_items (sh_blk w) = [r]" "resp_items (sh_blk w) = []" "sh_data w = sh_data (ft_shared s)"
      "disk (sh_peers w) = disk (sh_peers (ft_shared s))" "pend (sh_peers w) < pend (sh_peers (ft_shared s))"
    have "blk_dequeue_resp (sh_blk w) ?out = (-1, ?out, sh_blk w)"
      using p(2) by (rule blk_dequeue_resp_empty)
    then have "blk_wait s = blk_wait (s\<lparr>ft_shared := w\<rparr>)"
      using w(1) by (subst blk_wait.simps) simp
    moreover have "finishes (blk_wait (s\<lparr>ft_shared := w\<rparr>)) (\<lambda>ok s'. \<exists>w'. s' = s\<lparr>ft_shared := w'\<rparr> \<and> peers_ok disk w'
      \<and> drained (sh_blk w') \<and> client_step w w' \<and> (good (req_block_number r) \<longrightarrow> ok)
      \<and> transferred disk r ok w w')"
      using less.hyps [of "s\<lparr>ft_shared := w\<rparr>"] less.prems(1) w(2) p by simp
    moreover have "transferred disk r ok w w' = transferred disk r ok (ft_shared s) w'" for ok w'
      using p(3,4) by (simp add: transfer_defs)
    ultimately show ?thesis
      using client_step_trans [OF w(3)] by (auto elim!: finishes_mono)
  next
    assume q: "req_items (sh_blk w) = []" and "\<exists>p. resp_items (sh_blk w) = [p] \<and>
      resp_id p = req_id r \<and> (good (req_block_number r) \<longrightarrow> success p r) \<and> transferred disk r (success p r) (ft_shared s) w"
    then obtain p where p: "resp_items (sh_blk w) = [p]" and d: "transferred disk r (success p r) (ft_shared s) w"
      "good (req_block_number r) \<longrightarrow> success p r" by blast
    obtain h where h: "blk_dequeue_resp (sh_blk w) ?out = (0, p, h)" "blk_ready h" "resp_items h = []"
      "req_queue h = req_queue (sh_blk w)" "bq_capacity h = bq_capacity (sh_blk w)"
      using blk_dequeue_resp_first [OF _ p, of ?out] w(2) by (auto simp: peers_ok_def)
    have "req_items h = []" using blk_items_cong(2) [OF h(4,5)] q by simp
    then have "peers_ok disk (w\<lparr>sh_blk := h\<rparr>)" "drained h" "client_step (ft_shared s) (w\<lparr>sh_blk := h\<rparr>)"
      using w(2,3) h(2,3) client_step_trans [OF w(3) client_step_same] by (auto simp: peers_ok_def drained_def)
    moreover have "transferred disk r (success p r) (ft_shared s) (w\<lparr>sh_blk := h\<rparr>)"
      using d(1) unfolding transfer_defs by simp
    moreover have "blk_wait s = Some (success p r, s\<lparr>ft_shared := w\<lparr>sh_blk := h\<rparr>\<rparr>)"
      using w(1) h(1) r(2) by (subst blk_wait.simps) (auto simp: success_def)
    ultimately show ?thesis
      using d(2) by auto
  qed
qed

subsection \<open>The cache\<close>

abbreviation device :: "('d \<Rightarrow> u64 \<Rightarrow> u8 list) \<Rightarrow> 'd fat \<Rightarrow> u64 \<Rightarrow> u8 list" where
  "device disk s \<equiv> disk (sh_peers (ft_shared s))"

definition tidy :: "('d \<Rightarrow> u64 \<Rightarrow> u8 list) \<Rightarrow> 'd fat \<Rightarrow> bool" where
  "tidy disk s \<longleftrightarrow> peers_ok disk (ft_shared s) \<and> drained (sh_blk (ft_shared s)) \<and> length (block s) = TRANSFER"

text \<open>A clean cached block agrees with the device, and only a valid block is dirty.\<close>

definition alive :: "('d \<Rightarrow> u64 \<Rightarrow> u8 list) \<Rightarrow> 'd fat \<Rightarrow> bool" where
  "alive disk s \<longleftrightarrow> tidy disk s \<and> (block_dirty s \<longrightarrow> block_valid s)
     \<and> (block_valid s \<and> \<not> block_dirty s \<longrightarrow> device disk s (block_no s) = block s)"

definition vol :: "('d \<Rightarrow> u64 \<Rightarrow> u8 list) \<Rightarrow> 'd fat \<Rightarrow> u64 \<Rightarrow> u8 list" where
  "vol disk s = (\<lambda>b. if block_valid s \<and> block_no s = b then block s else disk (sh_peers (ft_shared s)) b)"

text \<open>What no cache operation touches: the open handles, and of the shared rings only what the
  client does.\<close>

definition frame :: "'d fat \<Rightarrow> 'd fat \<Rightarrow> bool" where
  "frame s s' \<longleftrightarrow> ft_wait s' = ft_wait s \<and> ft_past s' = ft_past s \<and> ft_storage s' = ft_storage s
     \<and> ft_file s' = ft_file s \<and> ft_dir s' = ft_dir s \<and> client_step (ft_shared s) (ft_shared s')"

lemma frame_refl [simp, intro]: "frame s s"
  by (simp add: frame_def)

lemma frame_trans [trans]: "frame s s' \<Longrightarrow> frame s' s'' \<Longrightarrow> frame s s''"
  by (auto simp: frame_def intro: client_step_trans)

lemma blk_transfer_runs:
  assumes peer: "block_peer disk pend good (ft_wait s BLK_CH)" and al: "tidy disk s"
    and code: "code = (if write then BLK_REQ_WRITE else BLK_REQ_READ)"
  shows "finishes (blk_transfer code n write s) (\<lambda>ok s'. tidy disk s' \<and> frame s s' \<and>
    block_no s' = block_no s \<and> block_valid s' = block_valid s \<and> block_dirty s' = block_dirty s \<and> (good n \<longrightarrow> ok) \<and>
    (if ok then device disk s' = (if write then (device disk s)(n := block s) else device disk s) \<and>
        block s' = (if write then block s else device disk s n)
     else block s' = block s \<and> (\<forall>b. \<not> write \<or> b \<noteq> n \<longrightarrow> device disk s' b = device disk s b)))"
proof -
  let ?w = "if write then (ft_shared s)\<lparr>sh_data := patch 0 (block s) (sh_data (ft_shared s))\<rparr> else ft_shared s"
  let ?r = "\<lparr>req_code = code, req_io_or_offset = 0, req_block_number = n, req_count = 1, req_id = REQ_ID\<rparr>"
  have w: "peers_ok disk ?w" "sh_blk ?w = sh_blk (ft_shared s)" "client_step (ft_shared s) ?w"
    and len: "length (block s) = TRANSFER" and dl: "\<forall>b. length (device disk s b) = TRANSFER"
    using al by (auto simp: tidy_def peers_ok_def intro: client_step_same)
  have "blk_ready (sh_blk ?w)" "length (req_items (sh_blk ?w)) < unat (bq_capacity (sh_blk ?w))"
    using w al by (auto simp: tidy_def peers_ok_def drained_def blk_ready_def blk_handle_wf_def ring_wf_def ring_ok_def)
  then obtain h where h: "blk_enqueue_req (sh_blk ?w) code 0 n 1 REQ_ID = (0, h)" "blk_ready h"
    "req_items h = [?r]" "resp_queue h = resp_queue (sh_blk ?w)" "bq_capacity h = bq_capacity (sh_blk ?w)"
    using blk_enqueue_req_room [of "sh_blk ?w" ?r] al w(2) by (auto simp: tidy_def drained_def)
  have "resp_items h = []" using blk_items_cong(1) [OF h(4,5)] al w(2) by (simp add: tidy_def drained_def)
  let ?s = "notify BLK_CH (s\<lparr>ft_shared := ?w\<lparr>sh_blk := h\<rparr>\<rparr>)"
  have fin: "finishes (blk_wait ?s) (\<lambda>ok s'. \<exists>w. s' = ?s\<lparr>ft_shared := w\<rparr> \<and> peers_ok disk w \<and> drained (sh_blk w)
      \<and> client_step (ft_shared ?s) w \<and> (good n \<longrightarrow> ok)
      \<and> transferred disk ?r ok (ft_shared ?s) w)"
    using blk_wait_answers [of disk pend good ?s ?r] peer w(1) h(2,3) \<open>resp_items h = []\<close> code
    by (auto simp: notify_def one_block_def peers_ok_def)
  have cs: "client_step (ft_shared s) (ft_shared ?s)"
    using client_step_trans [OF w(3) client_step_same] by (simp add: notify_def)
  have sent: "take TRANSFER (patch 0 (block s) (sh_data (ft_shared s))) = block s"
    using len by (simp add: patch_def)
  have eq: "blk_transfer code n write s = blk_wait ?s \<bind> (\<lambda>(ok, s). if \<not> ok then Some (False, s)
      else if \<not> write then Some (True, s\<lparr>block := take TRANSFER (sh_data (ft_shared s))\<rparr>) else Some (True, s))"
    using h(1) by (simp add: blk_transfer_def Let_def)
  show ?thesis
    unfolding eq
  proof (rule finishes_bindI [OF fin], elim exE conjE, goal_cases)
    case (1 ok s' w')
    have "client_step (ft_shared s) w'" using cs 1(4) by (rule client_step_trans)
    then show ?case
      using 1(2,3,5,6) dl len sent code unfolding 1(1)
      by (auto simp: notify_def tidy_def frame_def transfer_defs peers_ok_def)
  qed
qed

text \<open>Flushing and loading leave the volume as it is, whether the device answers with success or
  with failure; a flush that succeeds leaves the volume on the device.\<close>

lemma flush_block_runs:
  assumes "block_peer disk pend good (ft_wait s BLK_CH)" and al: "alive disk s"
  shows "finishes (flush_block s) (\<lambda>ok s'. alive disk s' \<and> frame s s' \<and> vol disk s' = vol disk s
    \<and> ((block_dirty s \<longrightarrow> good (block_no s)) \<longrightarrow> ok) \<and> (block_dirty s' \<longrightarrow> block_dirty s) \<and> block_no s' = block_no s
    \<and> (ok \<longrightarrow> \<not> block_dirty s' \<and> device disk s' = vol disk s))"
proof (cases "block_dirty s")
  case False
  then show ?thesis using al by (auto simp: flush_block_def alive_def vol_def)
next
  case True
  then have v: "block_valid s" and t: "tidy disk s" using al by (simp_all add: alive_def)
  have eq: "flush_block s = blk_transfer BLK_REQ_WRITE (block_no s) True s \<bind>
      (\<lambda>(ok, s). if \<not> ok then Some (False, s) else Some (True, s\<lparr>block_dirty := False\<rparr>))"
    using True by (simp add: flush_block_def)
  show ?thesis
    unfolding eq
    by (rule finishes_bindI [OF blk_transfer_runs [OF assms(1) t]])
      (use True v in \<open>auto simp: alive_def vol_def tidy_def frame_def fun_eq_iff split: if_splits\<close>)
qed

lemma load_block_runs:
  assumes peer: "block_peer disk pend good (ft_wait s BLK_CH)" and al: "alive disk s"
  shows "finishes (load_block n s) (\<lambda>ok s'. alive disk s' \<and> frame s s' \<and> vol disk s' = vol disk s
    \<and> ((block_dirty s \<longrightarrow> good (block_no s)) \<longrightarrow> good n \<longrightarrow> ok)
    \<and> ((block_dirty s \<longrightarrow> good (block_no s)) \<longrightarrow> (block_dirty s' \<longrightarrow> good (block_no s')))
    \<and> (ok \<longrightarrow> block_valid s' \<and> block_no s' = n \<and> block s' = vol disk s n))"
proof (cases "block_valid s \<and> block_no s = n")
  case True
  then show ?thesis using al by (auto simp: load_block_def vol_def)
next
  case False
  have eq: "load_block n s = flush_block s \<bind> (\<lambda>(ok, s). if \<not> ok then Some (False, s)
      else blk_transfer BLK_REQ_READ n False s \<bind> (\<lambda>(ok, s). if \<not> ok then Some (False, s)
        else Some (True, s\<lparr>block_no := n, block_valid := True, block_dirty := False\<rparr>)))"
    using False by (auto simp: load_block_def)
  show ?thesis
    unfolding eq
  proof (rule finishes_bindI [OF flush_block_runs [OF peer al]], elim conjE, goal_cases)
    case (1 ok s1)
    show ?case
    proof (cases ok)
      case False
      then show ?thesis using 1 by auto
    next
      case True
      have t: "tidy disk s1" and w: "block_peer disk pend good (ft_wait s1 BLK_CH)"
        using 1 peer by (auto simp: alive_def frame_def)
      have vol: "vol disk s1 = device disk s1" using 1(3,7) True by simp
      have fr: "frame s s'" if "frame s1 s'" for s' using 1(2) that by (rule frame_trans)
      show ?thesis
        using True 1
        by (auto intro!: finishes_bindI [OF blk_transfer_runs [OF w t]]
            simp: alive_def vol_def tidy_def fun_eq_iff frame_def split: if_splits intro: client_step_trans)
    qed
  qed
qed

subsection \<open>Sectors\<close>

text \<open>The device as the later layers see it: its contents, a bound on the wakes without an
  answer, and the block numbers it serves without failing.\<close>

record 'd dev =
  dv_disk :: "'d \<Rightarrow> u64 \<Rightarrow> u8 list"
  dv_pend :: "'d \<Rightarrow> nat"
  dv_good :: "u64 \<Rightarrow> bool"

definition steady :: "'d dev \<Rightarrow> 'd fat \<Rightarrow> bool" where
  "steady D s \<longleftrightarrow> block_peer (dv_disk D) (dv_pend D) (dv_good D) (ft_wait s BLK_CH) \<and> alive (dv_disk D) s"

text \<open>The block to be written back next is one the device serves.\<close>

definition calm :: "'d dev \<Rightarrow> 'd fat \<Rightarrow> bool" where
  "calm D s \<longleftrightarrow> (block_dirty s \<longrightarrow> dv_good D (block_no s))"

definition sect :: "'d dev \<Rightarrow> 'd fat \<Rightarrow> u32 \<Rightarrow> u8 list" where
  "sect D s l = slice (unat (l mod SECTORS_PER_TRANSFER) * SECTOR_BYTES) SECTOR_BYTES
     (vol (dv_disk D) s (ucast (l div SECTORS_PER_TRANSFER)))"

definition good_lba :: "'d dev \<Rightarrow> u32 \<Rightarrow> bool" where
  "good_lba D l \<longleftrightarrow> dv_good D (ucast (l div SECTORS_PER_TRANSFER))"

lemma unat_mod8: "unat (l mod SECTORS_PER_TRANSFER :: u32) < 8" "unat (l mod SECTORS_PER_TRANSFER) = unat l mod 8"
  by (simp_all add: SECTORS_PER_TRANSFER_def unat_mod)

lemma sector_fits: "unat (l mod SECTORS_PER_TRANSFER :: u32) * SECTOR_BYTES + SECTOR_BYTES \<le> TRANSFER"
  using unat_mod8(1) [of l] by (simp add: SECTOR_BYTES_def TRANSFER_def)

lemma vol_length: "alive disk s \<Longrightarrow> length (vol disk s b) = TRANSFER"
  by (simp add: alive_def tidy_def vol_def peers_ok_def)

lemma length_sect [simp]: "steady D s \<Longrightarrow> length (sect D s l) = SECTOR_BYTES"
  using sector_fits [of l] by (simp add: sect_def steady_def vol_length)

lemma sector_unique:
  assumes "(ucast (l div SECTORS_PER_TRANSFER) :: u64) = ucast (k div SECTORS_PER_TRANSFER)"
    and "unat (l mod SECTORS_PER_TRANSFER) = unat (k mod SECTORS_PER_TRANSFER :: u32)"
  shows "(l :: u32) = k"
proof -
  have "unat (l div 8) = unat (k div 8)"
    using arg_cong [OF assms(1), of unat] by (simp add: SECTORS_PER_TRANSFER_def unat_ucast_up)
  then have "unat l div 8 = unat k div 8" "unat l mod 8 = unat k mod 8"
    using assms(2) by (simp_all add: unat_div unat_mod8)
  then have "unat l = unat k" by (metis div_mod_decomp)
  then show ?thesis by (rule unsigned_word_eqI)
qed

lemma frame_steady: "steady D s \<Longrightarrow> frame s s' \<Longrightarrow> alive (dv_disk D) s' \<Longrightarrow> steady D s'"
  by (simp add: steady_def frame_def)

lemma sect_vol: "vol (dv_disk D) s' = vol (dv_disk D) s \<Longrightarrow> sect D s' = sect D s"
  by (simp add: sect_def fun_eq_iff)

lemma steady_load:
  assumes "steady D s"
  shows "finishes (load_block (ucast (l div SECTORS_PER_TRANSFER)) s) (\<lambda>ok s'. steady D s' \<and> frame s s'
    \<and> sect D s' = sect D s \<and> (calm D s \<longrightarrow> calm D s' \<and> (good_lba D l \<longrightarrow> ok))
    \<and> (ok \<longrightarrow> block_valid s' \<and> block_no s' = ucast (l div SECTORS_PER_TRANSFER)
        \<and> slice (unat (l mod SECTORS_PER_TRANSFER) * SECTOR_BYTES) SECTOR_BYTES (block s') = sect D s l \<and> length (block s') = TRANSFER))"
proof -
  have p: "block_peer (dv_disk D) (dv_pend D) (dv_good D) (ft_wait s BLK_CH)" and al: "alive (dv_disk D) s"
    using assms by (simp_all add: steady_def)
  show ?thesis
  proof (rule finishes_mono [OF load_block_runs [OF p al]], elim conjE, goal_cases)
    case (1 ok s')
    have "steady D s'" using assms 1(2,1) by (rule frame_steady)
    moreover have "sect D s' = sect D s" using 1(3) by (rule sect_vol)
    moreover have "length (block s') = TRANSFER" using 1(1) by (simp add: alive_def tidy_def)
    ultimately show ?case using 1(2,4,5,6) by (auto simp: calm_def good_lba_def sect_def)
  qed
qed

lemma steady_flush:
  assumes "steady D s"
  shows "finishes (flush_block s) (\<lambda>ok s'. steady D s' \<and> frame s s' \<and> sect D s' = sect D s
    \<and> (calm D s \<longrightarrow> calm D s' \<and> ok) \<and> (ok \<longrightarrow> \<not> block_dirty s' \<and> device (dv_disk D) s' = vol (dv_disk D) s'))"
proof -
  have p: "block_peer (dv_disk D) (dv_pend D) (dv_good D) (ft_wait s BLK_CH)" and al: "alive (dv_disk D) s"
    using assms by (simp_all add: steady_def)
  show ?thesis
  proof (rule finishes_mono [OF flush_block_runs [OF p al]], elim conjE, goal_cases)
    case (1 ok s')
    have "steady D s'" using assms 1(2,1) by (rule frame_steady)
    moreover have "sect D s' = sect D s" using 1(3) by (rule sect_vol)
    ultimately show ?case using 1(2-7) by (auto simp: calm_def)
  qed
qed

text \<open>An edit changes its own sector of the volume and no other.\<close>

lemma patched_sector:
  assumes al: "alive disk s" and b: "block_valid s" "block_no s = ucast (l div SECTORS_PER_TRANSFER)"
    and D: "dv_disk D = disk" and x: "length x = SECTOR_BYTES"
  shows "sect D (s\<lparr>block_dirty := True, block := patch (unat (l mod SECTORS_PER_TRANSFER) * SECTOR_BYTES) x (block s)\<rparr>)
    = (sect D s)(l := x)"
proof (rule ext)
  fix k
  let ?off = "\<lambda>l. unat (l mod SECTORS_PER_TRANSFER :: u32) * SECTOR_BYTES"
  have len: "length (block s) = TRANSFER" using al by (simp add: alive_def tidy_def)
  have same: "slice (?off l) SECTOR_BYTES (patch (?off l) x (block s)) = x"
    using slice_patch_same [of "?off l" x "block s"] sector_fits [of l] len x by simp
  have apart: "slice (?off k) SECTOR_BYTES (patch (?off l) x (block s)) = slice (?off k) SECTOR_BYTES (block s)"
    if "unat (l mod SECTORS_PER_TRANSFER) \<noteq> unat (k mod SECTORS_PER_TRANSFER)"
    by (rule slice_patch_apart) (use that sector_fits [of l] sector_fits [of k] len x in \<open>auto simp: SECTOR_BYTES_def\<close>)
  show "sect D (s\<lparr>block_dirty := True, block := patch (?off l) x (block s)\<rparr>) k = ((sect D s)(l := x)) k"
  proof (cases "(ucast (k div SECTORS_PER_TRANSFER) :: u64) = ucast (l div SECTORS_PER_TRANSFER)")
    case True
    show ?thesis
    proof (cases "k = l")
      case True
      then show ?thesis using same b by (simp add: sect_def vol_def)
    next
      case False
      then have "unat (l mod SECTORS_PER_TRANSFER) \<noteq> unat (k mod SECTORS_PER_TRANSFER)"
        using sector_unique [OF True] by metis
      then show ?thesis using apart True False b by (simp add: sect_def vol_def)
    qed
  next
    case False
    then show ?thesis using b by (auto simp: sect_def vol_def D)
  qed
qed

lemma steady_edit:
  assumes st: "steady D s" and x: "edit (sect D s l) = Some x" "length x = SECTOR_BYTES"
  shows "finishes (edit_sector l edit s) (\<lambda>ok s'. steady D s' \<and> frame s s'
    \<and> sect D s' = (if ok then (sect D s)(l := x) else sect D s)
    \<and> (calm D s \<and> good_lba D l \<longrightarrow> calm D s' \<and> ok))"
  unfolding edit_sector_def
proof (rule finishes_bindI [OF steady_load [OF st, of l]], elim conjE, goal_cases)
  case (1 ok s')
  show ?case
  proof (cases ok)
    case False
    then show ?thesis using 1 by auto
  next
    case True
    let ?s = "s'\<lparr>block_dirty := True, block := patch (unat (l mod SECTORS_PER_TRANSFER) * SECTOR_BYTES) x (block s')\<rparr>"
    have b: "block_valid s'" "block_no s' = ucast (l div SECTORS_PER_TRANSFER)"
      "edit (slice (unat (l mod SECTORS_PER_TRANSFER) * SECTOR_BYTES) SECTOR_BYTES (block s')) = Some x"
      using 1 True x(1) by auto
    have "sect D ?s = (sect D s)(l := x)"
      using patched_sector [OF _ b(1,2) refl x(2)] 1(1,3) by (simp add: steady_def)
    moreover have "steady D ?s" "frame s ?s"
      using 1(1,2) b(1) sector_fits [of l] x(2) by (auto simp: steady_def alive_def tidy_def frame_def)
    moreover have "calm D s \<and> good_lba D l \<longrightarrow> calm D ?s" using b(2) by (simp add: calm_def good_lba_def)
    ultimately show ?thesis using True b(3) by (simp add: Let_def)
  qed
qed

end
