(* ===== verification/FatAnswer.thy ===== *)
theory FatAnswer
  imports FatCache
begin

text \<open>
  The file server answers. Over any device that keeps responding, with success or with failure,
  no operation of the server panics or waits forever, and every command that is taken from the
  command ring gets exactly one completion, with the identifier of the command, whatever its
  parameters, the contents of the volume and the client's concurrent writes to the share.

  \<open>survives\<close> describes the operations below the handlers, \<open>answers\<close> the handlers.
\<close>

subsection \<open>Operations\<close>

definition survives :: "'d dev \<Rightarrow> 'd fat \<Rightarrow> ('a \<times> 'd fat) option \<Rightarrow> ('a \<Rightarrow> bool) \<Rightarrow> bool" where
  "survives D s r P \<longleftrightarrow> finishes r (\<lambda>x s'. steady D s' \<and> frame s s' \<and> P x)"

lemma survives_return: "steady D s \<Longrightarrow> P x \<Longrightarrow> survives D s (Some (x, s)) P"
  by (simp add: survives_def)

lemma survives_bind:
  assumes "survives D s r R" and "\<And>x s'. steady D s' \<Longrightarrow> frame s s' \<Longrightarrow> R x \<Longrightarrow> survives D s' (f x s') P"
  shows "survives D s (r \<bind> (\<lambda>(x, s). f x s)) P"
  unfolding survives_def
proof (rule finishes_bindI)
  show "finishes r (\<lambda>x s'. steady D s' \<and> frame s s' \<and> R x)" using assms(1) by (simp add: survives_def)
  fix x s' assume "steady D s' \<and> frame s s' \<and> R x"
  then show "finishes (f x s') (\<lambda>x s'. steady D s' \<and> frame s s' \<and> P x)"
    using assms(2) [of s' x] by (auto simp: survives_def intro: frame_trans elim!: finishes_mono)
qed

lemma survives_mono: "survives D s r P \<Longrightarrow> (\<And>x. P x \<Longrightarrow> Q x) \<Longrightarrow> survives D s r Q"
  by (auto simp: survives_def elim: finishes_mono)

definition edits_ok :: "(u8 list \<Rightarrow> u8 list option) \<Rightarrow> bool" where
  "edits_ok edit \<longleftrightarrow> (\<forall>x. length x = SECTOR_BYTES \<longrightarrow> (\<exists>y. edit x = Some y \<and> length y = SECTOR_BYTES))"

lemma edit_sector_survives: "steady D s \<Longrightarrow> edits_ok edit \<Longrightarrow> survives D s (edit_sector l edit s) (\<lambda>_. True)"
proof -
  assume st: "steady D s" and "edits_ok edit"
  then obtain x where x: "edit (sect D s l) = Some x" "length x = SECTOR_BYTES" using length_sect [OF st, of l] by (metis edits_ok_def)
  show ?thesis unfolding survives_def by (rule finishes_mono [OF steady_edit [where edit = edit, OF st x]]) auto
qed

lemma flush_survives: "steady D s \<Longrightarrow> survives D s (flush_block s) (\<lambda>_. True)"
  unfolding survives_def by (rule finishes_mono [OF steady_flush]) auto

lemma put_slice_ok: "off + length bytes \<le> SECTOR_BYTES \<Longrightarrow> edits_ok (put_slice off bytes)"
  by (simp add: edits_ok_def put_slice_def)

lemma edit_entry_ok:
  "off + DIR_ENTRY \<le> SECTOR_BYTES \<Longrightarrow> (\<And>e. length e = DIR_ENTRY \<Longrightarrow> length (f e) = DIR_ENTRY) \<Longrightarrow> edits_ok (edit_entry off f)"
  by (simp add: edits_ok_def edit_entry_def put_slice_def take_slice_def)

lemma length_put_entry: "length name = 11 \<Longrightarrow> length e = DIR_ENTRY \<Longrightarrow> length (put_entry name c z a e) = DIR_ENTRY"
  by (simp add: put_entry_def Let_def DIR_ENTRY_def)

lemma root_place_fits: "snd (root_place index) + DIR_ENTRY \<le> SECTOR_BYTES"
  using unsigned_less [of "index mod 16"] by (simp add: root_place_def ENTRIES_PER_SECTOR_def DIR_ENTRY_def SECTOR_BYTES_def unat_mod)

lemma write_dir_survives:
  "steady D s \<Longrightarrow> length name = 11 \<Longrightarrow> survives D s (write_dir i name c z a s) (\<lambda>_. True)"
  using root_place_fits [of i]
  by (auto simp: write_dir_def split: prod.splits intro!: edit_sector_survives edit_entry_ok length_put_entry)

lemma small_place_fits: "index < ENTRIES_PER_SECTOR \<Longrightarrow> unat (index :: u16) * DIR_ENTRY + DIR_ENTRY \<le> SECTOR_BYTES"
  by (simp add: ENTRIES_PER_SECTOR_def DIR_ENTRY_def SECTOR_BYTES_def word_less_nat_alt)

lemma cluster_lba_ge: "2 \<le> c \<Longrightarrow> cluster_lba c = Some (DATA_LBA + ucast (c - 2))"
  by (simp add: cluster_lba_def)

lemma write_in_cluster_survives:
  "steady D s \<Longrightarrow> length name = 11 \<Longrightarrow> survives D s (write_in_cluster p i name c z a s) (\<lambda>_. True)"
  using small_place_fits [of i]
  by (auto simp: write_in_cluster_def cluster_lba_ge not_less not_le
      intro!: edit_sector_survives edit_entry_ok length_put_entry survives_return)

lemma update_size_survives: "steady D s \<Longrightarrow> survives D s (update_size p i z s) (\<lambda>_. True)"
  using root_place_fits [of i] small_place_fits [of i]
  by (auto simp: update_size_def cluster_lba_ge not_less not_le DIR_ENTRY_def split: prod.splits
      intro!: edit_sector_survives put_slice_ok survives_return)

lemma rename_entry_survives: "steady D s \<Longrightarrow> length name = 11 \<Longrightarrow> survives D s (rename_entry i name s) (\<lambda>_. True)"
  using root_place_fits [of i]
  by (auto simp: rename_entry_def DIR_ENTRY_def split: prod.splits intro!: edit_sector_survives put_slice_ok)

lemma mark_deleted_survives: "steady D s \<Longrightarrow> survives D s (mark_deleted i s) (\<lambda>_. True)"
  using root_place_fits [of i]
  by (auto simp: mark_deleted_def DIR_ENTRY_def split: prod.splits intro!: edit_sector_survives put_slice_ok)

lemma length_dot_name [simp]: "n \<le> 11 \<Longrightarrow> length (dot_name n) = 11"
  by (simp add: dot_name_def)

lemma format_directory_survives: "steady D s \<Longrightarrow> 2 \<le> c \<Longrightarrow> survives D s (format_directory c s) (\<lambda>_. True)"
  unfolding format_directory_def cluster_lba_ge
  by (auto intro!: edit_sector_survives simp: edits_ok_def edit_entry_def put_slice_def take_slice_def
      length_put_entry SECTOR_BYTES_def DIR_ENTRY_def)

lemma fat_place_fits: "snd (fat_place c) + 2 \<le> SECTOR_BYTES"
proof -
  have "even (snd (fat_place c))" by (simp add: fat_place_def Let_def SECTOR_BYTES_def dvd_mod)
  moreover have "snd (fat_place c) < 512" by (simp add: fat_place_def Let_def SECTOR_BYTES_def)
  ultimately have "snd (fat_place c) \<noteq> 511" by auto
  then show ?thesis using \<open>snd (fat_place c) < 512\<close> by (simp add: SECTOR_BYTES_def)
qed

lemma set_fat_survives: "steady D s \<Longrightarrow> survives D s (set_fat c v s) (\<lambda>_. True)"
  using fat_place_fits [of c]
  by (auto simp: set_fat_def split: prod.splits
      intro!: survives_bind [OF edit_sector_survives] put_slice_ok survives_return)

subsection \<open>Reading the directories and the table\<close>

lemma steady_load_survives:
  assumes "steady D s"
  shows "finishes (load_block (ucast (l div SECTORS_PER_TRANSFER)) s)
    (\<lambda>ok s'. steady D s' \<and> frame s s' \<and> length (block s') = TRANSFER)"
  by (rule finishes_mono [OF steady_load [OF assms]]) (auto simp: steady_def alive_def tidy_def)

lemma load_then_survives:
  assumes "steady D s"
    and "\<And>ok s'. steady D s' \<Longrightarrow> length (block s') = TRANSFER \<Longrightarrow> survives D s' (f ok s') P"
  shows "survives D s (load_block (ucast (l div SECTORS_PER_TRANSFER)) s \<bind> (\<lambda>(ok, s). f ok s)) P"
  unfolding survives_def
proof (rule finishes_bindI [OF steady_load_survives [OF assms(1)]], elim conjE)
  fix ok s' assume "steady D s'" "frame s s'" "length (block s') = TRANSFER"
  then show "finishes (f ok s') (\<lambda>x s'. steady D s' \<and> frame s s' \<and> P x)"
    using assms(2) [of s' ok] by (auto simp: survives_def intro: frame_trans elim!: finishes_mono)
qed

lemma read_entry_survives:
  assumes "steady D s"
  shows "survives D s (read_entry i s) (\<lambda>r. \<forall>e. r = Some e \<longrightarrow> length e = DIR_ENTRY)"
  unfolding read_entry_def Let_def
proof (rule load_then_survives [OF assms])
  fix ok s' assume "steady D s'" "length (block s') = TRANSFER"
  then show "survives D s' (if \<not> ok then Some (None, s') else take_slice (unat (fst (root_place i) mod SECTORS_PER_TRANSFER)
      * SECTOR_BYTES + snd (root_place i)) DIR_ENTRY (block s') \<bind> (\<lambda>entry. Some (Some entry, s')))
      (\<lambda>r. \<forall>e. r = Some e \<longrightarrow> length e = DIR_ENTRY)"
    using root_place_fits [of i] sector_fits [of "fst (root_place i)"]
    by (auto simp: take_slice_def intro!: survives_return)
qed

definition placed_ok :: "u16 \<Rightarrow> u16 \<Rightarrow> bool" where
  "placed_ok cluster index \<longleftrightarrow> cluster = 0 \<or> 2 \<le> cluster \<and> index < ENTRIES_PER_SECTOR"

lemma read_placed_survives:
  assumes "steady D s" and "placed_ok c i"
  shows "survives D s (read_placed c i s) (\<lambda>r. \<forall>e. r = Some e \<longrightarrow> length e = DIR_ENTRY)"
proof (cases "c = 0")
  case True
  then show ?thesis using read_entry_survives [OF assms(1)] by (simp add: read_placed_def)
next
  case False
  then have c: "cluster_lba c = Some (DATA_LBA + ucast (c - 2))" and i: "i < ENTRIES_PER_SECTOR"
    using assms(2) by (auto simp: placed_ok_def cluster_lba_ge)
  let ?l = "DATA_LBA + ucast (c - 2)"
  have fits: "unat (?l mod SECTORS_PER_TRANSFER) * SECTOR_BYTES + unat i * DIR_ENTRY + DIR_ENTRY \<le> TRANSFER"
    using small_place_fits [OF i] sector_fits [of ?l] by linarith
  show ?thesis
    using False fits unfolding read_placed_def c
    by (auto simp: take_slice_def intro!: load_then_survives [OF assms(1)] survives_return)
qed

lemma read_fat_survives: "steady D s \<Longrightarrow> survives D s (read_fat c s) (\<lambda>_. True)"
  using fat_place_fits [of c] sector_fits [of "FAT1_LBA + fst (fat_place c)"]
  by (auto simp: read_fat_def Let_def take_slice_def split: prod.splits
      intro!: load_then_survives survives_return)

lemma find_name_survives: "steady D s \<Longrightarrow> survives D s (find_name name s) (\<lambda>_. True)"
proof -
  have "survives D s (find_name_loop name is s) (\<lambda>_. True)" if "steady D s" for "is" and s :: "'a fat"
    using that
    by (induction "is" arbitrary: s)
      (auto intro!: survives_return survives_bind [OF read_entry_survives] split: option.splits)
  then show "steady D s \<Longrightarrow> ?thesis" by (simp add: find_name_def)
qed

lemma find_free_survives: "steady D s \<Longrightarrow> survives D s (find_free s) (\<lambda>_. True)"
proof -
  have "survives D s (find_free_loop is s) (\<lambda>_. True)" if "steady D s" for "is" and s :: "'a fat"
    using that
    by (induction "is" arbitrary: s)
      (auto intro!: survives_return survives_bind [OF read_entry_survives] split: option.splits)
  then show "steady D s \<Longrightarrow> ?thesis" by (simp add: find_free_def)
qed

lemma u16_range_less: "i \<in> set (u16_range a b) \<Longrightarrow> a \<le> i \<and> i < b"
proof -
  assume "i \<in> set (u16_range a b)"
  then obtain n where n: "i = of_nat n" "unat a \<le> n" "n < unat b" by (auto simp: u16_range_def)
  then have "n < 2 ^ 16" using unat_less_exp [of b] by simp
  then have "unat i = n" using n(1) by (simp add: unat_of_nat)
  then show ?thesis using n(2,3) by (simp add: word_le_nat_alt word_less_nat_alt)
qed

lemma small_range: "2 \<le> c \<Longrightarrow> \<forall>i\<in>set (u16_range 0 ENTRIES_PER_SECTOR). placed_ok c i"
  by (auto simp: placed_ok_def dest: u16_range_less)

lemma find_in_cluster_survives: "steady D s \<Longrightarrow> survives D s (find_in_cluster c name s) (\<lambda>_. True)"
proof -
  have "survives D s (find_in_cluster_loop c name is s) (\<lambda>_. True)"
    if "steady D s" "\<forall>i\<in>set is. placed_ok c i" for "is" and s :: "'a fat"
    using that
    by (induction "is" arbitrary: s)
      (auto intro!: survives_return survives_bind [OF read_placed_survives] split: option.splits)
  then show "steady D s \<Longrightarrow> ?thesis"
    using small_range [of c] by (simp add: find_in_cluster_def survives_return not_less)
qed

lemma find_free_in_cluster_survives: "steady D s \<Longrightarrow> survives D s (find_free_in_cluster c s) (\<lambda>_. True)"
proof -
  have "survives D s (find_free_in_cluster_loop c is s) (\<lambda>_. True)"
    if "steady D s" "\<forall>i\<in>set is. placed_ok c i" for "is" and s :: "'a fat"
    using that
    by (induction "is" arbitrary: s)
      (auto intro!: survives_return survives_bind [OF read_placed_survives] split: option.splits)
  then show "steady D s \<Longrightarrow> ?thesis"
    using small_range [of c] by (simp add: find_free_in_cluster_def survives_return not_less)
qed

lemma directory_empty_survives: "steady D s \<Longrightarrow> survives D s (directory_empty c s) (\<lambda>_. True)"
proof -
  have "survives D s (directory_empty_loop c is s) (\<lambda>_. True)"
    if "steady D s" "\<forall>i\<in>set is. placed_ok c i" for "is" and s :: "'a fat"
    using that
    by (induction "is" arbitrary: s)
      (auto intro!: survives_return survives_bind [OF read_placed_survives] split: option.splits)
  then show "steady D s \<Longrightarrow> ?thesis"
    using small_range [of c] by (simp add: directory_empty_def survives_return not_less)
qed

lemma alloc_cluster_survives: "steady D s \<Longrightarrow> survives D s (alloc_cluster s) (\<lambda>r. \<forall>c. r = Hit c \<longrightarrow> 2 \<le> c)"
proof -
  have "survives D s (alloc_cluster_loop cs s) (\<lambda>r. \<forall>c. r = Hit c \<longrightarrow> c \<in> set cs)"
    if "steady D s" for cs and s :: "'a fat"
    using that
  proof (induction cs arbitrary: s)
    case (Cons c cs)
    show ?case
      unfolding alloc_cluster_loop.simps
      by (rule survives_bind [OF read_fat_survives [OF Cons.prems]])
        (auto intro!: survives_return intro: survives_mono [OF Cons.IH] split: Scan.splits)
  qed (simp add: survives_return)
  then show "steady D s \<Longrightarrow> ?thesis"
    unfolding alloc_cluster_def by (rule survives_mono) (auto dest: u16_range_less)
qed

declare all_ok.simps [simp del]

lemma all_ok_survives:
  "steady D s \<Longrightarrow> (\<And>m s. m \<in> set ms \<Longrightarrow> steady D s \<Longrightarrow> survives D s (m s) (\<lambda>_. True)) \<Longrightarrow> survives D s (all_ok ms s) (\<lambda>_. True)"
proof (induction ms arbitrary: s)
  case (Cons m ms)
  have "survives D s (m s) (\<lambda>_. True)" using Cons.prems by simp
  then show ?case
    unfolding all_ok.simps
  proof (rule survives_bind)
    fix ok s' assume "steady D s'"
    then show "survives D s' (if \<not> ok then Some (False, s') else all_ok ms s') (\<lambda>_. True)"
      using Cons.IH [OF \<open>steady D s'\<close>] Cons.prems(2) by (simp add: survives_return)
  qed
qed (simp add: survives_return all_ok.simps)

lemmas op_survives = edit_sector_survives flush_survives write_dir_survives write_in_cluster_survives
  update_size_survives rename_entry_survives mark_deleted_survives format_directory_survives set_fat_survives

subsection \<open>Completions\<close>

definition room :: "'d fat \<Rightarrow> bool" where
  "room s \<longleftrightarrow> length (cmpl_items (sh_completions (ft_shared s))) < FS_QUEUE_CAPACITY
     \<and> 0 < fs_left (sh_completions (ft_shared s))"

text \<open>An open file has a data cluster; an open directory is the root or one sector.\<close>

definition handles_ok :: "'d fat \<Rightarrow> bool" where
  "handles_ok s \<longleftrightarrow> (\<forall>f. ft_file s = Some f \<longrightarrow> 2 \<le> fl_cluster f)
     \<and> (\<forall>d. ft_dir s = Some d \<longrightarrow> dr_cluster d = 0 \<or> 2 \<le> dr_cluster d \<and> dr_limit d \<le> ENTRIES_PER_SECTOR)"

definition answered :: "u64 \<Rightarrow> 'd fat \<Rightarrow> 'd fat \<Rightarrow> bool" where
  "answered rid s s' \<longleftrightarrow>
     (\<exists>n c. cmpl_id c = rid \<and>
       cmpl_items (sh_completions (ft_shared s')) = drop n (cmpl_items (sh_completions (ft_shared s))) @ [c])
     \<and> (\<exists>new. cmd_items (sh_commands (ft_shared s')) = cmd_items (sh_commands (ft_shared s)) @ new)"

definition answers :: "'d dev \<Rightarrow> 'd fat \<Rightarrow> u64 \<Rightarrow> (bool \<times> 'd fat) option \<Rightarrow> bool" where
  "answers D s rid r \<longleftrightarrow> finishes r (\<lambda>ok s'. steady D s' \<and> handles_ok s' \<and> answered rid s s')"

definition ready :: "'d dev \<Rightarrow> 'd fat \<Rightarrow> bool" where
  "ready D s \<longleftrightarrow> steady D s \<and> handles_ok s \<and> room s"

lemma completion_appended:
  assumes wf: "fs_queue_wf q" and room: "length (cmpl_items q) < FS_QUEUE_CAPACITY" and left: "0 < fs_left q"
  shows "\<exists>q'. fs_completion_enqueue q c = (0, q') \<and> fs_queue_wf q' \<and> cmpl_items q' = cmpl_items q @ [c]"
proof -
  have w: "ring_wf (fq_head q) (fq_tail q) FS_QUEUE_CAPACITY (map msg_cmpl (fq_buffer q))"
    using wf by (simp add: fs_queue_wf_def)
  have n: "unat (fq_tail q - fq_head q) < FS_QUEUE_CAPACITY"
    using room by (simp add: cmpl_items_def fs_items_def ring_items_def)
  obtain q' where q': "enq_cmpl c q = (True, q')"
    "ring_wf (fq_head q') (fq_tail q') FS_QUEUE_CAPACITY (map msg_cmpl (fq_buffer q'))"
    "ring_items (fq_head q') (fq_tail q') FS_QUEUE_CAPACITY (map msg_cmpl (fq_buffer q'))
      = ring_items (fq_head q) (fq_tail q) FS_QUEUE_CAPACITY (map msg_cmpl (fq_buffer q)) @ [c]"
    using cmpls.enq_append [OF _ w n, of c] left by (auto simp: fs_left_def)
  obtain r where "fs_completion_enqueue q c = (r, q')" "r = 0"
    using q'(1) by (cases "fs_completion_enqueue q c") (auto simp: enq_cmpl_def)
  moreover have "fs_queue_wf q'" using q'(2) by (simp add: fs_queue_wf_def)
  ultimately show ?thesis using q'(3) fs_items_views(2) [OF wf] fs_items_views(2) [of q'] by simp
qed

lemma peers_ok_completions:
  "peers_ok disk w \<Longrightarrow> fs_queue_wf q \<Longrightarrow> peers_ok disk (w\<lparr>sh_completions := q\<rparr>)"
  by (simp add: peers_ok_def)

lemma steady_shared:
  assumes "steady D s" and "peers_ok (dv_disk D) w" and "sh_blk w = sh_blk (ft_shared s)" and "sh_peers w = sh_peers (ft_shared s)"
  shows "steady D (s\<lparr>ft_shared := w, ft_notes := n\<rparr>)"
  using assms by (simp add: steady_def alive_def tidy_def)

lemma complete_answers:
  assumes "ready D s"
  shows "answers D s rid (Some (complete rid status d s))"
    and "fst (complete rid status d s)"
    and "cmpl_items (sh_completions (ft_shared (snd (complete rid status d s))))
      = cmpl_items (sh_completions (ft_shared s)) @ [\<lparr>cmpl_id = rid, cmpl_status = status, cmpl_data = completion_word d\<rparr>]"
proof -
  let ?q = "sh_completions (ft_shared s)" and ?c = "\<lparr>cmpl_id = rid, cmpl_status = status, cmpl_data = completion_word d\<rparr>"
  have wf: "fs_queue_wf ?q" and p: "peers_ok (dv_disk D) (ft_shared s)" and st: "steady D s"
    using assms by (simp_all add: ready_def steady_def alive_def tidy_def peers_ok_def)
  obtain q' where q': "fs_completion_enqueue ?q ?c = (0, q')" "fs_queue_wf q'" "cmpl_items q' = cmpl_items ?q @ [?c]"
    using completion_appended [OF wf] assms by (auto simp: ready_def room_def)
  let ?w = "(ft_shared s)\<lparr>sh_completions := q'\<rparr>"
  have c: "complete rid status d s = (True, s\<lparr>ft_shared := ?w, ft_notes := ft_notes s @ [FS_CH]\<rparr>)"
    using q'(1) by (simp add: complete_def notify_def Let_def)
  have "steady D (s\<lparr>ft_shared := ?w, ft_notes := ft_notes s @ [FS_CH]\<rparr>)"
    by (rule steady_shared [OF st]) (simp_all add: peers_ok_completions [OF p q'(2)])
  moreover have "\<exists>n c. cmpl_id c = rid \<and> cmpl_items q' = drop n (cmpl_items ?q) @ [c]"
    by (rule exI [of _ 0], rule exI [of _ ?c]) (simp add: q'(3))
  ultimately show "answers D s rid (Some (complete rid status d s))"
    using assms unfolding c by (simp add: answers_def answered_def ready_def handles_ok_def)
  show "fst (complete rid status d s)" "cmpl_items (sh_completions (ft_shared (snd (complete rid status d s))))
      = cmpl_items (sh_completions (ft_shared s)) @ [?c]"
    unfolding c by (simp_all add: q'(3))
qed

lemma reply_answers: "ready D s \<Longrightarrow> answers D s rid (reply rid status s)"
  by (simp add: reply_def complete_answers)

lemma give_up_answers: "ready D s \<Longrightarrow> answers D s rid (give_up rid s)"
  using complete_answers(1) [of D s rid FS_STATUS_ERROR CEmpty] by (simp add: give_up_def answers_def)

text \<open>Steps that touch neither rings nor device: new handles, bytes for the client.\<close>

lemma answers_from:
  assumes "answers D s1 rid r" and "sh_completions (ft_shared s1) = sh_completions (ft_shared s)"
    and "sh_commands (ft_shared s1) = sh_commands (ft_shared s)"
  shows "answers D s rid r"
  using assms by (simp add: answers_def answered_def)

lemma complete_with_answers:
  assumes "ready D s1" and "sh_completions (ft_shared s1) = sh_completions (ft_shared s)"
    and "sh_commands (ft_shared s1) = sh_commands (ft_shared s)"
  shows "answers D s rid (Some (complete rid status d s1))"
  using answers_from [OF complete_answers(1) [OF assms(1)] assms(2,3)] .

lemma ready_file: "ready D s \<Longrightarrow> (\<forall>f. x = Some f \<longrightarrow> 2 \<le> fl_cluster f) \<Longrightarrow> ready D (s\<lparr>ft_file := x\<rparr>)"
  by (simp add: ready_def steady_def alive_def tidy_def handles_ok_def room_def)

lemma ready_dir:
  "ready D s \<Longrightarrow> (\<forall>d. x = Some d \<longrightarrow> dr_cluster d = 0 \<or> 2 \<le> dr_cluster d \<and> dr_limit d \<le> ENTRIES_PER_SECTOR)
    \<Longrightarrow> ready D (s\<lparr>ft_dir := x\<rparr>)"
  by (simp add: ready_def steady_def alive_def tidy_def handles_ok_def room_def)

lemma ready_put_share: "ready D s \<Longrightarrow> ready D (put_share_bytes off bytes s)"
  by (simp add: put_share_bytes_def ready_def steady_def alive_def tidy_def handles_ok_def room_def peers_ok_def)

lemma ready_set_dir_index: "ready D s \<Longrightarrow> ready D (set_dir_index i s)"
  unfolding set_dir_index_def by (rule ready_dir) (auto simp: ready_def handles_ok_def)

lemma ready_set_open_size: "ready D s \<Longrightarrow> ready D (set_open_size z s)"
  unfolding set_open_size_def by (rule ready_file) (auto simp: ready_def handles_ok_def)

lemma ready_forget: "ready D s \<Longrightarrow> ready D (forget_removed i s)"
  using ready_file [of D s None] by (auto simp: forget_removed_def split: option.splits)

lemma unmoved [simp]:
  "ft_shared (set_dir_index i s) = ft_shared s" "ft_shared (set_open_size z s) = ft_shared s"
  "ft_shared (forget_removed i s) = ft_shared s"
  "sh_completions (ft_shared (put_share_bytes off bytes s)) = sh_completions (ft_shared s)"
  "sh_commands (ft_shared (put_share_bytes off bytes s)) = sh_commands (ft_shared s)"
  by (simp_all add: set_dir_index_def set_open_size_def forget_removed_def put_share_bytes_def split: option.splits)

lemma frame_ready: "ready D s \<Longrightarrow> steady D s' \<Longrightarrow> frame s s' \<Longrightarrow> ready D s'"
  by (auto simp: ready_def frame_def handles_ok_def room_def client_step_def fs_left_def)

text \<open>A handler that first runs an operation and then answers.\<close>

lemma answers_bind:
  assumes rd: "ready D s" and r: "survives D s r P"
    and f: "\<And>x s'. ready D s' \<Longrightarrow> frame s s' \<Longrightarrow> P x \<Longrightarrow> answers D s' rid (f x s')"
  shows "answers D s rid (r \<bind> (\<lambda>(x, s). f x s))"
  unfolding answers_def
proof (rule finishes_bindI, rule r [unfolded survives_def], elim conjE)
  fix x s' assume st: "steady D s'" and fr: "frame s s'" and P: "P x"
  have "answers D s' rid (f x s')" using frame_ready [OF rd st fr] fr P by (rule f)
  moreover have "answered rid s s''" if "answered rid s' s''" for s''
    using fr that by (fastforce simp: frame_def client_step_def answered_def)
  ultimately show "finishes (f x s') (\<lambda>ok s'. steady D s' \<and> handles_ok s' \<and> answered rid s s')"
    unfolding answers_def by (auto elim!: finishes_mono)
qed

lemmas answering = reply_answers give_up_answers complete_with_answers complete_answers(1) ready_file ready_dir
  ready_put_share ready_set_dir_index ready_set_open_size ready_forget

subsection \<open>Handlers\<close>

lemma position_less: "position p xs = Some i \<Longrightarrow> i < length xs"
  by (induction p xs arbitrary: i rule: position.induct) (auto split: if_splits)

lemma pack_name_length: "pack_name raw = Some name \<Longrightarrow> length name = 11"
  by (auto simp: pack_name_def Let_def split: if_splits option.splits)

lemma read_packed_length: "read_packed_name path s = Some name \<Longrightarrow> length name = 11"
  by (auto simp: read_packed_name_def bind_eq_Some_conv pack_name_length split: if_splits)

lemma ready_steady [simp]: "ready D s \<Longrightarrow> steady D s"
  by (simp add: ready_def)

lemma open_nested_read_answers: "ready D s \<Longrightarrow> answers D s rid (open_nested_read rid d f s)"
  unfolding open_nested_read_def
  by (auto intro!: answers_bind [OF _ find_name_survives] answers_bind [OF _ find_in_cluster_survives] answering
      simp: not_less split: Scan.splits)

lemma open_read_answers: "ready D s \<Longrightarrow> answers D s rid (open_read rid name s)"
  unfolding open_read_def
  by (auto intro!: answers_bind [OF _ find_name_survives] answering simp: not_less split: Scan.splits)

text \<open>\<open>reserve_file\<close> either has answered, or returns a slot and a cluster and has not.\<close>

lemma reserve_file_runs:
  assumes rd: "ready D s"
    and f: "\<And>slot c s'. ready D s' \<Longrightarrow> 2 \<le> c \<Longrightarrow> answers D s' rid (f slot c s')"
  shows "answers D s rid (reserve_file rid name s \<bind> (\<lambda>(r, s). case r of Inl done \<Rightarrow> Some (done, s) | Inr (slot, c) \<Rightarrow> f slot c s))"
proof -
  let ?k = "\<lambda>(r, s). case r of Inl done \<Rightarrow> Some (done, s) | Inr (slot, c) \<Rightarrow> f slot c s"
  have stop: "stop_with r \<bind> ?k = r" for r
    by (cases r) (auto simp: stop_with_def)
  have "reserve_file rid name s \<bind> ?k = find_name name s \<bind> (\<lambda>(r, s). case r of
       Hit _ \<Rightarrow> reply rid FS_STATUS_ALREADY_EXISTS s | Failed \<Rightarrow> give_up rid s
     | Missing \<Rightarrow> find_free s \<bind> (\<lambda>(r, s). case r of
         Missing \<Rightarrow> reply rid FS_STATUS_DIRECTORY_IS_FULL s | Failed \<Rightarrow> give_up rid s
       | Hit slot \<Rightarrow> alloc_cluster s \<bind> (\<lambda>(r, s). case r of
           Hit cluster \<Rightarrow> f slot cluster s
         | Missing \<Rightarrow> reply rid FS_STATUS_DIRECTORY_IS_FULL s | Failed \<Rightarrow> give_up rid s)))"
    unfolding reserve_file_def
    by (auto intro!: Option.bind_cong [OF refl] simp: bind_assoc stop split: Scan.split)
  also have "answers D s rid \<dots>"
    using rd f by (auto intro!: answers_bind [OF _ find_name_survives] answers_bind [OF _ find_free_survives]
        answers_bind [OF _ alloc_cluster_survives] answering split: Scan.splits)
  finally show ?thesis .
qed

lemma create_file_answers: "ready D s \<Longrightarrow> length name = 11 \<Longrightarrow> answers D s rid (create_file rid name s)"
  unfolding create_file_def
  by (auto intro!: reserve_file_runs
      answers_bind [OF _ all_ok_survives] op_survives answering)

lemma handle_open_answers: "ready D s \<Longrightarrow> answers D s rid (handle_open rid path flags s)"
  unfolding handle_open_def Let_def
  by (auto intro!: open_nested_read_answers create_file_answers open_read_answers answering
      split: option.splits intro: pack_name_length)

lemma handle_close_answers: "ready D s \<Longrightarrow> answers D s rid (handle_close rid fd s)"
  unfolding handle_close_def
  by (auto intro!: answering answers_from [OF reply_answers])

lemma handle_dir_close_answers: "ready D s \<Longrightarrow> answers D s rid (handle_dir_close rid fd s)"
  unfolding handle_dir_close_def
  by (auto intro!: answering answers_from [OF reply_answers])

lemma handle_write_answers:
  assumes "ready D s"
  shows "answers D s rid (handle_write rid fd off buf s)"
proof (cases "ft_file s")
  case (Some f)
  then have c: "cluster_lba (fl_cluster f) = Some (DATA_LBA + ucast (fl_cluster f - 2))"
    using assms by (intro cluster_lba_ge) (simp add: ready_def handles_ok_def)
  have "length bytes = unat (fb_size buf)" if "copy_share (fb_offset buf) (unat (fb_size buf)) s = Some bytes" for bytes
    using that by (auto simp: copy_share_def split: if_splits)
  then show ?thesis
    using assms unfolding handle_write_def Let_def
    by (auto simp: Some c not_less intro!: answers_bind [OF _ edit_sector_survives] put_slice_ok
        answers_bind [OF _ all_ok_survives] op_survives answering split: option.splits)
qed (use assms in \<open>auto simp: handle_write_def intro!: answering\<close>)

lemma stage_then_answers:
  assumes rd: "ready D s" and f: "\<And>s'. ready D s' \<Longrightarrow> answers D s' rid (g s')" and c: "2 \<le> fl_cluster f"
  shows "answers D s rid (stage_file_bytes rid f off n s \<bind> (\<lambda>(r, s). case r of Inl done \<Rightarrow> Some (done, s) | Inr _ \<Rightarrow> g s))"
proof -
  let ?k = "\<lambda>(r, s). case r of Inl done \<Rightarrow> Some (done, s) | Inr _ \<Rightarrow> g s"
  let ?l = "DATA_LBA + ucast (fl_cluster f - 2) :: u32"
  have "stop_with r \<bind> ?k = r" for r by (cases r) (auto simp: stop_with_def)
  then have "stage_file_bytes rid f off n s \<bind> ?k = load_block (ucast (?l div SECTORS_PER_TRANSFER)) s \<bind> (\<lambda>(ok, s).
      if \<not> ok then give_up rid s
      else g (put_share_bytes off (block_bytes (unat (?l mod SECTORS_PER_TRANSFER) * SECTOR_BYTES) n s) s))"
    by (auto simp: stage_file_bytes_def cluster_lba_ge [OF c] bind_assoc intro!: Option.bind_cong [OF refl])
  also have "answers D s rid \<dots>"
  proof (rule answers_bind [OF rd])
    show "survives D s (load_block (ucast (?l div SECTORS_PER_TRANSFER)) s) (\<lambda>_. True)"
      unfolding survives_def by (rule finishes_mono [OF steady_load_survives [OF ready_steady [OF rd]]]) simp
  qed (auto intro!: answering answers_from [OF f])
  finally show ?thesis .
qed

lemma handle_read_answers:
  assumes "ready D s"
  shows "answers D s rid (handle_read rid fd off buf s)"
proof (cases "ft_file s")
  case (Some f)
  then have "2 \<le> fl_cluster f" using assms by (simp add: ready_def handles_ok_def)
  then show ?thesis
    using assms unfolding handle_read_def Let_def
    by (auto simp: Some intro!: stage_then_answers answering split: option.splits)
qed (use assms in \<open>auto simp: handle_read_def intro!: answering\<close>)

lemma finish_stat_answers: "ready D s \<Longrightarrow> answers D s rid (finish_stat rid buf hit s)"
  by (auto simp: finish_stat_def write_share_def intro!: answering answers_from [OF reply_answers])

lemma handle_stat_answers: "ready D s \<Longrightarrow> answers D s rid (handle_stat rid path buf s)"
  unfolding handle_stat_def
  by (auto intro!: finish_stat_answers answers_bind [OF _ find_name_survives] answering split: option.splits Scan.splits)

lemma finish_rename_answers: "ready D s \<Longrightarrow> length new = 11 \<Longrightarrow> answers D s rid (finish_rename rid i new s)"
  unfolding finish_rename_def
  by (auto intro!: answers_bind [OF _ all_ok_survives] op_survives answering)

lemma handle_rename_answers: "ready D s \<Longrightarrow> answers D s rid (handle_rename rid old new s)"
  using read_packed_length [of new s]
  unfolding handle_rename_def
  by (auto intro!: finish_rename_answers answers_bind [OF _ find_name_survives] answering
      split: option.splits Scan.splits intro: read_packed_length)

lemma finish_remove_answers: "ready D s \<Longrightarrow> answers D s rid (finish_remove rid hit s)"
  unfolding finish_remove_def
  by (auto intro!: answers_bind [OF _ all_ok_survives] op_survives survives_return answering
      answers_from [OF reply_answers [OF ready_forget]])

lemma handle_remove_answers: "ready D s \<Longrightarrow> answers D s rid (handle_remove rid path s)"
  unfolding handle_remove_def
  by (auto intro!: finish_remove_answers answers_bind [OF _ find_name_survives]
      answers_bind [OF _ directory_empty_survives] answering split: option.splits Scan.splits bool.splits)

lemma handle_mkdir_answers: "ready D s \<Longrightarrow> answers D s rid (handle_mkdir rid path s)"
  unfolding handle_mkdir_def
  by (auto intro!: reserve_file_runs answers_bind [OF _ all_ok_survives] op_survives answering
      split: option.splits intro: read_packed_length)

lemma handle_dir_open_answers: "ready D s \<Longrightarrow> answers D s rid (handle_dir_open rid path s)"
  unfolding handle_dir_open_def
  by (auto intro!: answers_bind [OF _ find_name_survives] answering split: option.splits Scan.splits)

text \<open>The name of an entry always fits the twelve bytes.\<close>

lemma show_part_fits:
  "len + length bs \<le> length shown \<Longrightarrow>
    \<exists>shown' len'. show_part bs shown len = Some (shown', len') \<and> length shown' = length shown \<and> len' \<le> len + length bs"
proof (induction bs arbitrary: shown len)
  case (Cons b bs)
  then show ?case using Cons.IH [of "len + 1" "shown[len := b]"] by auto
qed simp

lemma display_name_total: "length entry = DIR_ENTRY \<Longrightarrow> \<exists>shown len. display_name entry = Some (shown, len)"
proof -
  assume e: "length entry = DIR_ENTRY"
  obtain shown len where p: "show_part (take 8 entry) (replicate 12 0) 0 = Some (shown, len)" "length shown = 12" "len \<le> 8"
    using show_part_fits [of 0 "take 8 entry" "replicate 12 0"] e by (auto simp: DIR_ENTRY_def)
  then show ?thesis
    using show_part_fits [of "len + 1" "slice 8 3 entry" "shown[len := 0x2e]"] e
    by (auto simp: display_name_def DIR_ENTRY_def)
qed

declare dir_read_loop.simps [simp del]

lemma dir_read_loop_answers:
  assumes "ready D s" and "c = 0 \<or> 2 \<le> c \<and> limit \<le> ENTRIES_PER_SECTOR"
  shows "answers D s rid (dir_read_loop rid buf c limit i s)"
  using assms
proof (induction "unat limit - unat i" arbitrary: i s rule: less_induct)
  case less
  show ?case
  proof (cases "i < limit")
    case False
    then show ?thesis using less.prems by (auto simp: dir_read_loop.simps intro!: answering)
  next
    case True
    then have step: "unat limit - unat (i + 1) < unat limit - unat i"
      using unat_less_exp [of limit] by (simp add: word_less_nat_alt word_neq_max_Suc)
    have "placed_ok c i" using less.prems(2) True by (auto simp: placed_ok_def)
    show ?thesis
      unfolding dir_read_loop.simps [of rid buf c limit i s]
    proof (simp only: True not_True_eq_False if_False, rule answers_bind [OF less.prems(1) read_placed_survives], goal_cases)
      case (3 r s')
      show ?case
      proof (cases r)
        case (Some e)
        then obtain shown len where d: "display_name e = Some (shown, len)" using display_name_total 3(3) by blast
        show ?thesis
          using 3(1) less.hyps [OF step 3(1) less.prems(2)] by (auto simp: Some d copy_to_share_def intro!: answering)
      qed (use 3(1) in \<open>auto intro!: answering\<close>)
    qed (use less.prems(1) \<open>placed_ok c i\<close> in simp_all)
  qed
qed

lemma handle_dir_read_answers: "ready D s \<Longrightarrow> answers D s rid (handle_dir_read rid fd buf s)"
  unfolding handle_dir_read_def
  by (auto intro!: dir_read_loop_answers answering split: option.splits simp: ready_def handles_ok_def)

lemma dispatch_answers: "ready D s \<Longrightarrow> answers D s (cmd_id cmd) (dispatch cmd s)"
  unfolding dispatch_def Let_def
  by (simp add: handle_open_answers handle_close_answers handle_write_answers handle_read_answers handle_stat_answers
      handle_rename_answers handle_remove_answers handle_mkdir_answers handle_dir_open_answers handle_dir_read_answers
      handle_dir_close_answers reply_answers)

subsection \<open>The command ring\<close>

lemma command_taken:
  assumes wf: "fs_queue_wf q" and items: "cmd_items q = cmd # cmds"
  shows "\<exists>msg q'. fs_message_dequeue q out = (0, msg, q') \<and> msg_cmd msg = cmd \<and> fs_queue_wf q' \<and> cmd_items q' = cmds"
proof -
  have w: "ring_wf (fq_head q) (fq_tail q) FS_QUEUE_CAPACITY (map msg_cmd (fq_buffer q))"
    using wf by (simp add: fs_queue_wf_def)
  obtain q' where q': "deq_cmd out q = (Some cmd, q')"
    "ring_wf (fq_head q') (fq_tail q') FS_QUEUE_CAPACITY (map msg_cmd (fq_buffer q'))"
    "ring_items (fq_head q') (fq_tail q') FS_QUEUE_CAPACITY (map msg_cmd (fq_buffer q')) = cmds"
    using cmds.deq_first [OF _ w, of cmd cmds out] items fs_items_views(1) [OF wf] by auto
  have wf': "fs_queue_wf q'" using q'(2) by (simp add: fs_queue_wf_def)
  obtain n msg q'' where d: "fs_message_dequeue q out = (n, msg, q'')" by (cases "fs_message_dequeue q out")
  then have "n = 0" "msg_cmd msg = cmd" "q'' = q'"
    using q'(1) by (auto simp: deq_cmd_def deq_msg_def split: if_splits)
  then show ?thesis using d wf' q'(3) fs_items_views(1) [OF wf'] by simp
qed

lemma serve_one_serves:
  assumes rd: "ready D s" and items: "cmd_items (sh_commands (ft_shared s)) = cmd # cmds"
  shows "finishes (serve_one s) (\<lambda>ok s'. steady D s' \<and> handles_ok s' \<and>
    (\<exists>n c. cmpl_id c = cmd_id cmd \<and> cmpl_items (sh_completions (ft_shared s'))
        = drop n (cmpl_items (sh_completions (ft_shared s))) @ [c]) \<and>
    (\<exists>new. cmd_items (sh_commands (ft_shared s')) = cmds @ new))"
proof -
  have wf: "fs_queue_wf (sh_commands (ft_shared s))"
    using rd by (simp add: ready_def steady_def alive_def tidy_def peers_ok_def)
  obtain msg q' where q': "fs_message_dequeue (sh_commands (ft_shared s)) (replicate 8 0) = (0, msg, q')"
    "msg_cmd msg = cmd" "fs_queue_wf q'" "cmd_items q' = cmds"
    using command_taken [OF wf items, of "replicate 8 0"] by auto
  let ?s = "s\<lparr>ft_shared := (ft_shared s)\<lparr>sh_commands := q'\<rparr>\<rparr>"
  have "ready D ?s"
    using rd q'(3) by (simp add: ready_def steady_def alive_def tidy_def peers_ok_def handles_ok_def room_def)
  then have "answers D ?s (cmd_id cmd) (dispatch cmd ?s)" by (rule dispatch_answers)
  then show ?thesis using q' by (simp add: serve_one_def answers_def answered_def)
qed

end
