(* ===== verification/FatVolume.thy ===== *)
theory FatVolume
  imports FatAnswer
begin

text \<open>
  What the operations of the file server do to the volume, over a device that serves its first
  1024 blocks. A volume is a function from sector numbers to sectors. Directory entries, table
  entries and data sectors are views of it, \<open>root_upd\<close>, \<open>fat_upd\<close> and plain updates of a data
  sector are the only changes, and each scan is a pure function of the entries.
\<close>

subsection \<open>Working devices\<close>

definition working :: "'d dev \<Rightarrow> 'd fat \<Rightarrow> bool" where
  "working D s \<longleftrightarrow> steady D s \<and> calm D s \<and> (\<forall>b. unat b < 1024 \<longrightarrow> dv_good D b)"

definition works :: "'d dev \<Rightarrow> 'd fat \<Rightarrow> ('a \<times> 'd fat) option \<Rightarrow> (u32 \<Rightarrow> u8 list) \<Rightarrow> 'a \<Rightarrow> bool" where
  "works D s r V x \<longleftrightarrow> finishes r (\<lambda>x' s'. working D s' \<and> frame s s' \<and> sect D s' = V \<and> x' = x)"

lemma works_return: "working D s \<Longrightarrow> sect D s = V \<Longrightarrow> works D s (Some (x, s)) V x"
  by (simp add: works_def)

lemma works_bind:
  assumes "works D s r V x"
    and "\<And>s'. working D s' \<Longrightarrow> frame s s' \<Longrightarrow> sect D s' = V \<Longrightarrow> works D s' (f x s') V' y"
  shows "works D s (r \<bind> (\<lambda>(x, s). f x s)) V' y"
  unfolding works_def
proof (rule finishes_bindI, rule assms(1) [unfolded works_def], elim conjE)
  fix x' s' assume w: "working D s'" and fr: "frame s s'" and v: "sect D s' = V" and x: "x' = x"
  have "works D s' (f x s') V' y" using w fr v by (rule assms(2))
  then show "finishes (f x' s') (\<lambda>x' s'. working D s' \<and> frame s s' \<and> sect D s' = V' \<and> x' = y)"
    using fr unfolding works_def x by (auto intro: frame_trans elim!: finishes_mono)
qed

lemma working_steady [simp]: "working D s \<Longrightarrow> steady D s"
  by (simp add: working_def)

lemma good_lba_small: "working D s \<Longrightarrow> l < 8192 \<Longrightarrow> good_lba D l"
proof -
  assume w: "working D s" and l: "l < 8192"
  have "unat (ucast (l div 8) :: u64) = unat l div 8" by (simp add: unat_ucast_up unat_div)
  moreover have "unat l < 8192" using l by (simp add: word_less_nat_alt)
  ultimately show ?thesis using w by (simp add: good_lba_def working_def SECTORS_PER_TRANSFER_def)
qed

lemma edit_works:
  assumes w: "working D s" and l: "l < 8192" and x: "edit (sect D s l) = Some x" "length x = SECTOR_BYTES"
  shows "works D s (edit_sector l edit s) ((sect D s)(l := x)) True"
  unfolding works_def
  by (rule finishes_mono [OF steady_edit [where edit = edit, OF working_steady [OF w] x]])
    (use w good_lba_small [OF w l] in \<open>auto simp: working_def\<close>)

lemma flush_works: "working D s \<Longrightarrow> works D s (flush_block s) (sect D s) True"
  unfolding works_def
  by (rule finishes_mono [OF steady_flush [of D s]]) (auto simp: working_def)

lemma load_then_works:
  assumes w: "working D s" and l: "l < 8192"
    and f: "\<And>s'. working D s' \<Longrightarrow> frame s s' \<Longrightarrow> sect D s' = sect D s \<Longrightarrow> length (block s') = TRANSFER \<Longrightarrow>
      slice (unat (l mod SECTORS_PER_TRANSFER) * SECTOR_BYTES) SECTOR_BYTES (block s') = sect D s l \<Longrightarrow>
      works D s' (f True s') V x"
  shows "works D s (load_block (ucast (l div SECTORS_PER_TRANSFER)) s \<bind> (\<lambda>(ok, s). f ok s)) V x"
  unfolding works_def
proof (rule finishes_bindI [OF steady_load [OF working_steady [OF w], of l]], elim conjE, goal_cases)
  case (1 ok s')
  have "working D s'" and ok using 1 w good_lba_small [OF w l] by (auto simp: working_def)
  then have "works D s' (f True s') V x" using 1 by (intro f) auto
  then show ?case using 1(2) \<open>ok\<close> by (auto simp: works_def intro: frame_trans elim!: finishes_mono)
qed

subsection \<open>Views of a volume\<close>

type_synonym volume = "u32 \<Rightarrow> u8 list"

definition root_entry :: "volume \<Rightarrow> u16 \<Rightarrow> u8 list" where
  "root_entry V i = slice (snd (root_place i)) DIR_ENTRY (V (fst (root_place i)))"

definition data_lba :: "u16 \<Rightarrow> u32" where
  "data_lba c = DATA_LBA + ucast (c - 2)"

definition sub_entry :: "volume \<Rightarrow> u16 \<Rightarrow> u16 \<Rightarrow> u8 list" where
  "sub_entry V c j = slice (unat j * DIR_ENTRY) DIR_ENTRY (V (data_lba c))"

definition fat_entry :: "volume \<Rightarrow> u16 \<Rightarrow> u16" where
  "fat_entry V c = from_le16 (slice (snd (fat_place c)) 2 (V (FAT1_LBA + fst (fat_place c))))"

definition root_upd :: "u16 \<Rightarrow> u8 list \<Rightarrow> volume \<Rightarrow> volume" where
  "root_upd i e V = V(fst (root_place i) := patch (snd (root_place i)) e (V (fst (root_place i))))"

definition sub_upd :: "u16 \<Rightarrow> u16 \<Rightarrow> u8 list \<Rightarrow> volume \<Rightarrow> volume" where
  "sub_upd c j e V = V(data_lba c := patch (unat j * DIR_ENTRY) e (V (data_lba c)))"

definition fat_upd :: "u16 \<Rightarrow> u16 \<Rightarrow> volume \<Rightarrow> volume" where
  "fat_upd c v V =
     (case fat_place c of (k, off) \<Rightarrow>
        let V = V(FAT1_LBA + k := patch off (le16 v) (V (FAT1_LBA + k)))
        in V(FAT2_LBA + k := patch off (le16 v) (V (FAT2_LBA + k))))"

definition sized :: "volume \<Rightarrow> bool" where
  "sized V \<longleftrightarrow> (\<forall>l. length (V l) = SECTOR_BYTES)"

lemma sized_sect: "working D s \<Longrightarrow> sized (sect D s)"
  by (simp add: sized_def)

subsection \<open>Where things are\<close>

lemma unat_root_lba: "i < ROOT_ENTRIES \<Longrightarrow> unat (fst (root_place i)) = 65 + unat i div 16"
  by (simp add: root_place_def fat_consts unat_word_ariths unat_ucast_up unat_div word_less_nat_alt)

lemma root_off: "snd (root_place i) = unat i mod 16 * 32"
  by (simp add: root_place_def fat_consts unat_mod)

lemma unat_data_lba: "2 \<le> c \<Longrightarrow> unat (data_lba c) = 95 + unat c"
  using unat_less_exp [of c]
  by (simp add: data_lba_def DATA_LBA_def unat_word_ariths unat_ucast_up word_le_nat_alt unat_sub)

lemma fat_place_small: "c < CLUSTER_SCAN \<Longrightarrow> fat_place c = (0, unat c * 2)"
  by (simp add: fat_place_def SECTOR_BYTES_def CLUSTER_SCAN_def word_less_nat_alt)


text \<open>The first table sector of each copy, the root directory and the data sectors are apart.\<close>

lemma lba_ranges:
  "i < ROOT_ENTRIES \<Longrightarrow> 65 \<le> unat (fst (root_place i)) \<and> unat (fst (root_place i)) < 97"
  "2 \<le> c \<Longrightarrow> 97 \<le> unat (data_lba c)"
  "unat FAT1_LBA = 1" "unat FAT2_LBA = 33"
  by (simp_all add: unat_root_lba unat_data_lba word_le_nat_alt word_less_nat_alt ROOT_ENTRIES_def FAT1_LBA_def FAT2_LBA_def)

lemma lba_apart:
  "i < ROOT_ENTRIES \<Longrightarrow> fst (root_place i) \<noteq> FAT1_LBA" "i < ROOT_ENTRIES \<Longrightarrow> fst (root_place i) \<noteq> FAT2_LBA"
  "2 \<le> c \<Longrightarrow> data_lba c \<noteq> FAT1_LBA" "2 \<le> c \<Longrightarrow> data_lba c \<noteq> FAT2_LBA"
  "i < ROOT_ENTRIES \<Longrightarrow> 2 \<le> c \<Longrightarrow> data_lba c \<noteq> fst (root_place i)" "FAT1_LBA \<noteq> FAT2_LBA"
  using lba_ranges by fastforce+

lemma data_lba_inj: "2 \<le> c \<Longrightarrow> 2 \<le> d \<Longrightarrow> data_lba c = data_lba d \<longleftrightarrow> c = d"
  by (metis add_left_cancel unat_data_lba unsigned_word_eqI)

lemma small_lba:
  "i < ROOT_ENTRIES \<Longrightarrow> fst (root_place i) < 8192" "2 \<le> c \<Longrightarrow> c < CLUSTER_SCAN \<Longrightarrow> data_lba c < 8192"
  "FAT1_LBA < 8192" "FAT2_LBA < 8192"
  using lba_ranges(1) [of i] by (auto simp: word_less_nat_alt unat_data_lba CLUSTER_SCAN_def FAT1_LBA_def FAT2_LBA_def)

lemma root_place_inj:
  assumes "i < ROOT_ENTRIES" and "j < ROOT_ENTRIES" and "i \<noteq> j" and "fst (root_place i) = fst (root_place j)"
  shows "snd (root_place i) + 32 \<le> snd (root_place j) \<or> snd (root_place j) + 32 \<le> snd (root_place i)"
proof -
  have "unat i div 16 = unat j div 16" using assms unat_root_lba [of i] unat_root_lba [of j] by simp
  moreover have "unat i \<noteq> unat j" using assms(3) by (metis unsigned_word_eqI)
  ultimately have "unat i mod 16 \<noteq> unat j mod 16" by (metis div_mod_decomp)
  then show ?thesis by (auto simp: root_off)
qed

subsection \<open>Changes of a volume\<close>

lemma root_entry_length: "sized V \<Longrightarrow> length (root_entry V i) = DIR_ENTRY"
  using root_place_fits [of i] by (simp add: root_entry_def sized_def)

lemma sub_entry_length: "sized V \<Longrightarrow> j < ENTRIES_PER_SECTOR \<Longrightarrow> length (sub_entry V c j) = DIR_ENTRY"
  using small_place_fits [of j] by (simp add: sub_entry_def sized_def)

lemma sized_upd [intro]:
  "sized V \<Longrightarrow> length e = DIR_ENTRY \<Longrightarrow> sized (root_upd i e V)"
  "sized V \<Longrightarrow> j < ENTRIES_PER_SECTOR \<Longrightarrow> length e = DIR_ENTRY \<Longrightarrow> sized (sub_upd c j e V)"
  "sized V \<Longrightarrow> sized (fat_upd c v V)"
  "sized V \<Longrightarrow> length x = SECTOR_BYTES \<Longrightarrow> sized (V(l := x))"
  using root_place_fits [of i] small_place_fits [of j] fat_place_fits [of c]
  by (auto simp: sized_def root_upd_def sub_upd_def fat_upd_def Let_def split: prod.splits)

lemma root_entry_root_upd:
  assumes V: "sized V" and e: "length e = DIR_ENTRY" and i: "i < ROOT_ENTRIES" and j: "j < ROOT_ENTRIES"
  shows "root_entry (root_upd i e V) j = (if j = i then e else root_entry V j)"
proof (cases "j = i")
  case True
  then show ?thesis
    using V root_place_fits [of i] slice_patch_same [of "snd (root_place i)" e] e
    by (simp add: root_entry_def root_upd_def sized_def)
next
  case False
  show ?thesis
  proof (cases "fst (root_place j) = fst (root_place i)")
    case True
    then show ?thesis
      using False V e root_place_fits [of i] root_place_fits [of j] root_place_inj [OF j i False True]
      by (simp add: root_entry_def root_upd_def sized_def slice_patch_apart DIR_ENTRY_def)
  qed (use False in \<open>simp add: root_entry_def root_upd_def\<close>)
qed

lemma fat_entry_fat_upd:
  assumes V: "sized V" and c: "c < CLUSTER_SCAN" and d: "d < CLUSTER_SCAN"
  shows "fat_entry (fat_upd c v V) d = (if d = c then v else fat_entry V d)"
proof (cases "d = c")
  case True
  then show ?thesis
    using V slice_patch_same [of "unat c * 2" "le16 v" "V FAT1_LBA"] lba_apart(6) c
    by (simp add: fat_entry_def fat_upd_def fat_place_small sized_def SECTOR_BYTES_def CLUSTER_SCAN_def word_less_nat_alt)
next
  case False
  then have "unat c \<noteq> unat d" by (metis unsigned_word_eqI)
  then have "unat d * 2 + 2 \<le> unat c * 2 \<or> unat c * 2 + length (le16 v) \<le> unat d * 2" by auto
  then have "slice (unat d * 2) 2 (patch (unat c * 2) (le16 v) (V FAT1_LBA)) = slice (unat d * 2) 2 (V FAT1_LBA)"
    using V c d by (intro slice_patch_apart) (simp_all add: sized_def SECTOR_BYTES_def CLUSTER_SCAN_def word_less_nat_alt)
  then show ?thesis
    using c d False lba_apart(6) by (simp add: fat_entry_def fat_upd_def fat_place_small)
qed

lemma other_parts [simp]:
  "c < CLUSTER_SCAN \<Longrightarrow> i < ROOT_ENTRIES \<Longrightarrow> root_entry (fat_upd c v V) i = root_entry V i"
  "c < CLUSTER_SCAN \<Longrightarrow> i < ROOT_ENTRIES \<Longrightarrow> fat_entry (root_upd i e V) c = fat_entry V c"
  "2 \<le> d \<Longrightarrow> i < ROOT_ENTRIES \<Longrightarrow> root_upd i e V (data_lba d) = V (data_lba d)"
  "2 \<le> d \<Longrightarrow> c < CLUSTER_SCAN \<Longrightarrow> fat_upd c v V (data_lba d) = V (data_lba d)"
  "2 \<le> d \<Longrightarrow> i < ROOT_ENTRIES \<Longrightarrow> root_entry (V(data_lba d := x)) i = root_entry V i"
  "2 \<le> d \<Longrightarrow> c < CLUSTER_SCAN \<Longrightarrow> fat_entry (V(data_lba d := x)) c = fat_entry V c"
  using lba_apart(1,2) [of i] lba_apart(3,4) [of d] lba_apart(5) [of i d] lba_apart(6)
  by (auto simp: root_entry_def fat_entry_def root_upd_def fat_upd_def fat_place_small Let_def)

text \<open>The two copies of the table stay equal.\<close>

definition mirrored :: "volume \<Rightarrow> bool" where
  "mirrored V \<longleftrightarrow> V FAT1_LBA = V FAT2_LBA"

lemma mirrored_upd:
  "mirrored V \<Longrightarrow> c < CLUSTER_SCAN \<Longrightarrow> mirrored (fat_upd c v V)"
  "mirrored V \<Longrightarrow> i < ROOT_ENTRIES \<Longrightarrow> mirrored (root_upd i e V)"
  "mirrored V \<Longrightarrow> 2 \<le> d \<Longrightarrow> mirrored (V(data_lba d := x))"
  using lba_apart(1,2) [of i] lba_apart(3,4) [of d] lba_apart(5) [of i d] lba_apart(6) by (auto simp: mirrored_def fat_upd_def fat_place_small root_upd_def Let_def)

subsection \<open>The operations on the volume\<close>

lemma cluster_lba_data: "2 \<le> c \<Longrightarrow> cluster_lba c = Some (data_lba c)"
  by (simp add: cluster_lba_ge data_lba_def)

lemma take_slice_sector:
  assumes "slice o' SECTOR_BYTES b = x" and "o' + SECTOR_BYTES \<le> length b" and "off + n \<le> SECTOR_BYTES"
  shows "take_slice (o' + off) n b = Some (slice off n x)"
  using assms slice_slice [of off n SECTOR_BYTES o' b] by (auto simp: take_slice_def)

lemma read_entry_works:
  assumes w: "working D s" and i: "i < ROOT_ENTRIES"
  shows "works D s (read_entry i s) (sect D s) (Some (root_entry (sect D s) i))"
  unfolding read_entry_def Let_def
proof (rule load_then_works [OF w small_lba(1) [OF i]])
  fix s' assume s': "working D s'" "sect D s' = sect D s" "length (block s') = TRANSFER"
    and b: "slice (unat (fst (root_place i) mod SECTORS_PER_TRANSFER) * SECTOR_BYTES) SECTOR_BYTES (block s') = sect D s (fst (root_place i))"
  show "works D s' (if \<not> True then Some (None, s') else take_slice (unat (fst (root_place i) mod SECTORS_PER_TRANSFER)
      * SECTOR_BYTES + snd (root_place i)) DIR_ENTRY (block s') \<bind> (\<lambda>entry. Some (Some entry, s'))) (sect D s)
      (Some (root_entry (sect D s) i))"
    using take_slice_sector [OF b _ root_place_fits] sector_fits s' by (simp add: root_entry_def works_return)
qed

lemma read_placed_works:
  assumes w: "working D s" and c: "2 \<le> c" "c < CLUSTER_SCAN" and j: "j < ENTRIES_PER_SECTOR"
  shows "works D s (read_placed c j s) (sect D s) (Some (sub_entry (sect D s) c j))"
proof -
  have "read_placed c j s = load_block (ucast (data_lba c div SECTORS_PER_TRANSFER)) s \<bind> (\<lambda>(ok, s). if \<not> ok then Some (None, s)
      else take_slice (unat (data_lba c mod SECTORS_PER_TRANSFER) * SECTOR_BYTES + unat j * DIR_ENTRY) DIR_ENTRY (block s)
        \<bind> (\<lambda>entry. Some (Some entry, s)))"
    using c(1) unfolding read_placed_def cluster_lba_data [OF c(1)] by auto
  also have "works D s \<dots> (sect D s) (Some (sub_entry (sect D s) c j))"
  proof (rule load_then_works [OF w small_lba(2) [OF c]])
    fix s' assume s': "working D s'" "sect D s' = sect D s" "length (block s') = TRANSFER"
      and b: "slice (unat (data_lba c mod SECTORS_PER_TRANSFER) * SECTOR_BYTES) SECTOR_BYTES (block s') = sect D s (data_lba c)"
    show "works D s' (if \<not> True then Some (None, s') else take_slice (unat (data_lba c mod SECTORS_PER_TRANSFER)
        * SECTOR_BYTES + unat j * DIR_ENTRY) DIR_ENTRY (block s') \<bind> (\<lambda>entry. Some (Some entry, s'))) (sect D s)
        (Some (sub_entry (sect D s) c j))"
      using take_slice_sector [OF b _ small_place_fits [OF j]] sector_fits s' by (simp add: sub_entry_def works_return)
  qed
  finally show ?thesis .
qed

lemma read_fat_works:
  assumes w: "working D s" and c: "c < CLUSTER_SCAN"
  shows "works D s (read_fat c s) (sect D s) (Hit (fat_entry (sect D s) c))"
  unfolding read_fat_def fat_place_small [OF c] prod.case Let_def
proof (rule load_then_works [OF w])
  show "FAT1_LBA + 0 < 8192" by (simp add: FAT1_LBA_def)
  fix s' assume s': "working D s'" "sect D s' = sect D s" "length (block s') = TRANSFER"
    and b: "slice (unat ((FAT1_LBA + 0) mod SECTORS_PER_TRANSFER) * SECTOR_BYTES) SECTOR_BYTES (block s') = sect D s (FAT1_LBA + 0)"
  have "unat c * 2 + 2 \<le> SECTOR_BYTES" using fat_place_fits [of c] c by (simp add: fat_place_small)
  then show "works D s' (if \<not> True then Some (Failed, s') else take_slice (unat ((FAT1_LBA + 0) mod SECTORS_PER_TRANSFER)
      * SECTOR_BYTES + unat c * 2) 2 (block s') \<bind> (\<lambda>bytes. Some (Hit (from_le16 bytes), s'))) (sect D s)
      (Hit (fat_entry (sect D s) c))"
    using take_slice_sector [OF b] sector_fits s' c by (simp add: fat_entry_def fat_place_small works_return)
qed

lemma patch_inside:
  assumes "off + n \<le> length xs" and "i + length ys \<le> n"
  shows "patch (off + i) ys xs = patch off (patch i ys (slice off n xs)) xs"
  using assms by (intro nth_equalityI) (auto simp: nth_patch nth_slice)

lemma edit_root_works:
  assumes w: "working D s" and i: "i < ROOT_ENTRIES" and n: "k + length ys \<le> DIR_ENTRY"
  shows "works D s (case root_place i of (lba, off) \<Rightarrow> edit_sector lba (put_slice (off + k) ys) s)
    (root_upd i (patch k ys (root_entry (sect D s) i)) (sect D s)) True"
proof -
  let ?l = "fst (root_place i)" and ?off = "snd (root_place i)"
  have len: "length (sect D s ?l) = SECTOR_BYTES" using w by simp
  have fits: "?off + k + length ys \<le> SECTOR_BYTES" using root_place_fits [of i] n by simp
  have "patch (?off + k) ys (sect D s ?l) = patch ?off (patch k ys (root_entry (sect D s) i)) (sect D s ?l)"
    unfolding root_entry_def using patch_inside [OF _ n] root_place_fits [of i] len by simp
  then have x: "put_slice (?off + k) ys (sect D s ?l) = Some (patch ?off (patch k ys (root_entry (sect D s) i)) (sect D s ?l))"
    using fits len by (simp add: put_slice_def)
  have "length (patch ?off (patch k ys (root_entry (sect D s) i)) (sect D s ?l)) = SECTOR_BYTES"
    using n len root_place_fits [of i] root_entry_length [OF sized_sect [OF w], of i] by simp
  from edit_works [where edit = "put_slice (?off + k) ys", OF w small_lba(1) [OF i] x this] show ?thesis
    by (simp add: root_upd_def case_prod_beta)
qed

definition new_entry :: "u8 list \<Rightarrow> u16 \<Rightarrow> u32 \<Rightarrow> u8 \<Rightarrow> u8 list" where
  "new_entry name c z a = put_entry name c z a (replicate DIR_ENTRY 0)"

lemma put_entry_new: "length e = DIR_ENTRY \<Longrightarrow> put_entry name c z a e = new_entry name c z a"
  by (simp add: new_entry_def put_entry_def)

lemma length_new_entry [simp]: "length name = 11 \<Longrightarrow> length (new_entry name c z a) = DIR_ENTRY"
  by (simp add: new_entry_def length_put_entry)

lemma edit_entry_Some:
  assumes "off + DIR_ENTRY \<le> length x" and "length name = 11"
  shows "edit_entry off (put_entry name c z a) x = Some (patch off (new_entry name c z a) x)"
  using assms put_entry_new [of "slice off DIR_ENTRY x"] by (simp add: edit_entry_def take_slice_def put_slice_def)

lemma write_dir_works:
  assumes w: "working D s" and i: "i < ROOT_ENTRIES" and n: "length name = 11"
  shows "works D s (write_dir i name c z a s) (root_upd i (new_entry name c z a) (sect D s)) True"
proof -
  let ?l = "fst (root_place i)" and ?off = "snd (root_place i)"
  have len: "length (sect D s ?l) = SECTOR_BYTES" using w by simp
  have x: "edit_entry ?off (put_entry name c z a) (sect D s ?l) = Some (patch ?off (new_entry name c z a) (sect D s ?l))"
    by (rule edit_entry_Some) (use root_place_fits [of i] len n in simp_all)
  have "length (patch ?off (new_entry name c z a) (sect D s ?l)) = SECTOR_BYTES"
    using root_place_fits [of i] len n by simp
  from edit_works [where edit = "edit_entry ?off (put_entry name c z a)", OF w small_lba(1) [OF i] x this] show ?thesis
    by (simp add: write_dir_def root_upd_def case_prod_beta)
qed

lemma update_size_works:
  assumes "working D s" and "i < ROOT_ENTRIES"
  shows "works D s (update_size 0 i z s) (root_upd i (patch 28 (le32 z) (root_entry (sect D s) i)) (sect D s)) True"
  using edit_root_works [OF assms, of 28 "le32 z"] by (simp add: update_size_def DIR_ENTRY_def)

lemma rename_entry_works:
  assumes "working D s" and "i < ROOT_ENTRIES" and "length name = 11"
  shows "works D s (rename_entry i name s) (root_upd i (patch 0 name (root_entry (sect D s) i)) (sect D s)) True"
  using edit_root_works [OF assms(1,2), of 0 name] assms(3) by (simp add: rename_entry_def DIR_ENTRY_def)

lemma mark_deleted_works:
  assumes "working D s" and "i < ROOT_ENTRIES"
  shows "works D s (mark_deleted i s) (root_upd i (patch 0 [0xe5] (root_entry (sect D s) i)) (sect D s)) True"
  using edit_root_works [OF assms, of 0 "[0xe5]"] by (simp add: mark_deleted_def DIR_ENTRY_def)

lemma edit_data_works:
  assumes "working D s" and "2 \<le> c" "c < CLUSTER_SCAN" and "edit (sect D s (data_lba c)) = Some x" "length x = SECTOR_BYTES"
  shows "works D s (edit_sector (data_lba c) edit s) ((sect D s)(data_lba c := x)) True"
  using edit_works [where edit = edit, OF assms(1) small_lba(2) [OF assms(2,3)] assms(4,5)] .

lemma set_fat_works:
  assumes w: "working D s" and c: "c < CLUSTER_SCAN"
  shows "works D s (set_fat c v s) (fat_upd c v (sect D s)) True"
proof -
  have fits: "unat c * 2 + 2 \<le> SECTOR_BYTES" using fat_place_fits [of c] c by (simp add: fat_place_small)
  have p: "put_slice (unat c * 2) (le16 v) (sect D s' l) = Some (patch (unat c * 2) (le16 v) (sect D s' l))"
      "length (patch (unat c * 2) (le16 v) (sect D s' l)) = SECTOR_BYTES" if "working D s'" for s' l
    using that fits by (simp_all add: put_slice_def)
  let ?V = "(sect D s)(FAT1_LBA := patch (unat c * 2) (le16 v) (sect D s FAT1_LBA))"
  have 1: "works D s (edit_sector FAT1_LBA (put_slice (unat c * 2) (le16 v)) s) ?V True"
    using edit_works [where edit = "put_slice (unat c * 2) (le16 v)", OF w small_lba(3) p [OF w]] .
  have 2: "works D s' (edit_sector FAT2_LBA (put_slice (unat c * 2) (le16 v)) s')
      (?V(FAT2_LBA := patch (unat c * 2) (le16 v) (?V FAT2_LBA))) True" if "working D s'" "sect D s' = ?V" for s'
    using edit_works [where edit = "put_slice (unat c * 2) (le16 v)", OF that(1) small_lba(4) p [OF that(1)]] that(2) by simp
  show ?thesis
    unfolding set_fat_def fat_place_small [OF c] fat_upd_def Let_def prod.case add_0_right
  proof (rule works_bind [OF 1], simp only: not_True_eq_False if_False, rule works_bind [OF 2])
  qed (simp_all add: works_return)
qed

lemma format_directory_works:
  assumes w: "working D s" and c: "2 \<le> c" "c < CLUSTER_SCAN"
  shows "works D s (format_directory c s) ((sect D s)(data_lba c :=
    patch 32 (new_entry (dot_name 2) 0 0 ATTR_DIR) (patch 0 (new_entry (dot_name 1) c 0 ATTR_DIR) (replicate SECTOR_BYTES 0)))) True"
  unfolding format_directory_def cluster_lba_data [OF c(1)] bind.bind_lunit
  by (rule edit_data_works [OF w c])
    (use w in \<open>simp_all add: edit_entry_Some SECTOR_BYTES_def DIR_ENTRY_def\<close>)

lemma write_in_cluster_works:
  assumes w: "working D s" and p: "2 \<le> p" "p < CLUSTER_SCAN" and j: "j < ENTRIES_PER_SECTOR" and n: "length name = 11"
  shows "works D s (write_in_cluster p j name c z a s) (sub_upd p j (new_entry name c z a) (sect D s)) True"
proof -
  have "write_in_cluster p j name c z a s = edit_sector (data_lba p) (edit_entry (unat j * DIR_ENTRY) (put_entry name c z a)) s"
    using cluster_lba_data [OF p(1)] p(1) j leD [OF p(1)] by (auto simp: write_in_cluster_def)
  then show ?thesis
    using edit_data_works [OF w p, of "edit_entry (unat j * DIR_ENTRY) (put_entry name c z a)"
        "patch (unat j * DIR_ENTRY) (new_entry name c z a) (sect D s (data_lba p))"] w n small_place_fits [OF j]
    by (simp add: edit_entry_Some sub_upd_def)
qed

lemma all_ok_works:
  "working D s \<Longrightarrow> sect D s = V \<Longrightarrow> works D s (all_ok [] s) V True"
  "works D s (m s) V True \<Longrightarrow>
    (\<And>s'. working D s' \<Longrightarrow> frame s s' \<Longrightarrow> sect D s' = V \<Longrightarrow> works D s' (all_ok ms s') V' True) \<Longrightarrow>
    works D s (all_ok (m # ms) s) V' True"
  by (simp_all add: all_ok.simps works_return) (rule works_bind, assumption, simp)

subsection \<open>The scans\<close>

definition live :: "u8 list \<Rightarrow> bool" where
  "live e \<longleftrightarrow> e ! 0 \<noteq> 0 \<and> e ! 0 \<noteq> 0xe5"

fun find_spec :: "(u16 \<Rightarrow> u8 list) \<Rightarrow> u8 list \<Rightarrow> u16 list \<Rightarrow> DirHit Scan" where
  "find_spec ent name [] = Missing"
| "find_spec ent name (i # is) =
     (if ent i ! 0 = 0 then Missing
      else if live (ent i) \<and> take 11 (ent i) = name then Hit (hit_from i (ent i))
      else find_spec ent name is)"

fun free_spec :: "(u16 \<Rightarrow> u8 list) \<Rightarrow> u16 list \<Rightarrow> u16 Scan" where
  "free_spec ent [] = Missing"
| "free_spec ent (i # is) = (if live (ent i) then free_spec ent is else Hit i)"

fun empty_spec :: "(u16 \<Rightarrow> u8 list) \<Rightarrow> u16 list \<Rightarrow> bool" where
  "empty_spec ent [] = True"
| "empty_spec ent (i # is) =
     (if ent i ! 0 = 0 then True else if ent i ! 0 = 0xe5 \<or> is_dot (ent i) then empty_spec ent is else False)"

fun alloc_spec :: "volume \<Rightarrow> u16 list \<Rightarrow> u16 Scan" where
  "alloc_spec V [] = Missing"
| "alloc_spec V (c # cs) = (if fat_entry V c = 0 then Hit c else alloc_spec V cs)"

abbreviation root_indices :: "u16 list" where "root_indices \<equiv> u16_range 0 ROOT_ENTRIES"
abbreviation sub_indices :: "u16 list" where "sub_indices \<equiv> u16_range 0 ENTRIES_PER_SECTOR"

lemma find_name_works:
  assumes "working D s"
  shows "works D s (find_name name s) (sect D s) (find_spec (root_entry (sect D s)) name root_indices)"
proof -
  have "works D s (find_name_loop name is s) V (find_spec (root_entry V) name is)"
    if "working D s" "sect D s = V" "\<forall>i\<in>set is. i < ROOT_ENTRIES" for V and "is" and s :: "'a fat"
    using that
  proof (induction "is" arbitrary: s)
    case (Cons i "is")
    have r: "works D s (read_entry i s) V (Some (root_entry V i))"
      using read_entry_works [OF Cons.prems(1), of i] Cons.prems by simp
    show ?case
      unfolding find_name_loop.simps by (rule works_bind [OF r]) (use Cons in \<open>auto simp: live_def works_return\<close>)
  qed (simp add: works_return)
  then show ?thesis using assms by (auto simp: find_name_def dest: u16_range_less)
qed

lemma find_free_works:
  assumes "working D s"
  shows "works D s (find_free s) (sect D s) (free_spec (root_entry (sect D s)) root_indices)"
proof -
  have "works D s (find_free_loop is s) V (free_spec (root_entry V) is)"
    if "working D s" "sect D s = V" "\<forall>i\<in>set is. i < ROOT_ENTRIES" for V and "is" and s :: "'a fat"
    using that
  proof (induction "is" arbitrary: s)
    case (Cons i "is")
    have r: "works D s (read_entry i s) V (Some (root_entry V i))"
      using read_entry_works [OF Cons.prems(1), of i] Cons.prems by simp
    show ?case
      unfolding find_free_loop.simps by (rule works_bind [OF r]) (use Cons in \<open>auto simp: live_def works_return\<close>)
  qed (simp add: works_return)
  then show ?thesis using assms by (auto simp: find_free_def dest: u16_range_less)
qed

lemma find_in_cluster_works:
  assumes "working D s" and c: "2 \<le> c" "c < CLUSTER_SCAN"
  shows "works D s (find_in_cluster c name s) (sect D s) (find_spec (sub_entry (sect D s) c) name sub_indices)"
proof -
  have "works D s (find_in_cluster_loop c name is s) V (find_spec (sub_entry V c) name is)"
    if "working D s" "sect D s = V" "\<forall>i\<in>set is. i < ENTRIES_PER_SECTOR" for V and "is" and s :: "'a fat"
    using that
  proof (induction "is" arbitrary: s)
    case (Cons i "is")
    have r: "works D s (read_placed c i s) V (Some (sub_entry V c i))"
      using read_placed_works [OF Cons.prems(1) c, of i] Cons.prems by simp
    show ?case
      unfolding find_in_cluster_loop.simps by (rule works_bind [OF r]) (use Cons in \<open>auto simp: live_def works_return\<close>)
  qed (simp add: works_return)
  then show ?thesis using assms by (auto simp: find_in_cluster_def not_less dest: u16_range_less)
qed

lemma find_free_in_cluster_works:
  assumes "working D s" and c: "2 \<le> c" "c < CLUSTER_SCAN"
  shows "works D s (find_free_in_cluster c s) (sect D s) (free_spec (sub_entry (sect D s) c) sub_indices)"
proof -
  have "works D s (find_free_in_cluster_loop c is s) V (free_spec (sub_entry V c) is)"
    if "working D s" "sect D s = V" "\<forall>i\<in>set is. i < ENTRIES_PER_SECTOR" for V and "is" and s :: "'a fat"
    using that
  proof (induction "is" arbitrary: s)
    case (Cons i "is")
    have r: "works D s (read_placed c i s) V (Some (sub_entry V c i))"
      using read_placed_works [OF Cons.prems(1) c, of i] Cons.prems by simp
    show ?case
      unfolding find_free_in_cluster_loop.simps by (rule works_bind [OF r]) (use Cons in \<open>auto simp: live_def works_return\<close>)
  qed (simp add: works_return)
  then show ?thesis using assms by (auto simp: find_free_in_cluster_def not_less dest: u16_range_less)
qed

lemma directory_empty_works:
  assumes "working D s" and c: "2 \<le> c" "c < CLUSTER_SCAN"
  shows "works D s (directory_empty c s) (sect D s) (Hit (empty_spec (sub_entry (sect D s) c) sub_indices))"
proof -
  have "works D s (directory_empty_loop c is s) V (Hit (empty_spec (sub_entry V c) is))"
    if "working D s" "sect D s = V" "\<forall>i\<in>set is. i < ENTRIES_PER_SECTOR" for V and "is" and s :: "'a fat"
    using that
  proof (induction "is" arbitrary: s)
    case (Cons i "is")
    have r: "works D s (read_placed c i s) V (Some (sub_entry V c i))"
      using read_placed_works [OF Cons.prems(1) c, of i] Cons.prems by simp
    show ?case
      unfolding directory_empty_loop.simps by (rule works_bind [OF r]) (use Cons in \<open>auto simp: works_return\<close>)
  qed (simp add: works_return)
  then show ?thesis using assms by (auto simp: directory_empty_def not_less dest: u16_range_less)
qed

lemma alloc_cluster_works:
  assumes "working D s"
  shows "works D s (alloc_cluster s) (sect D s) (alloc_spec (sect D s) (u16_range 2 CLUSTER_SCAN))"
proof -
  have "works D s (alloc_cluster_loop cs s) V (alloc_spec V cs)"
    if "working D s" "sect D s = V" "\<forall>c\<in>set cs. c < CLUSTER_SCAN" for V and cs and s :: "'a fat"
    using that
  proof (induction cs arbitrary: s)
    case (Cons c cs)
    have r: "works D s (read_fat c s) V (Hit (fat_entry V c))"
      using read_fat_works [OF Cons.prems(1), of c] Cons.prems by simp
    show ?case
      unfolding alloc_cluster_loop.simps by (rule works_bind [OF r]) (use Cons in \<open>auto simp: works_return\<close>)
  qed (simp add: works_return)
  then show ?thesis using assms by (auto simp: alloc_cluster_def dest: u16_range_less)
qed

end
