(* ===== verification/FatSound.thy ===== *)
theory FatSound
  imports FatVolume
begin

text \<open>
  Soundness of the volume. Every present file and directory has its own data cluster, which the
  allocation table marks as used; names in the root directory are distinct; the end marker of a
  directory has no entry behind it; a file is at most one sector long; the two copies of the
  table agree. The changes the handlers make keep this, as long as no name starts with one of
  the two marker bytes.
\<close>

subsection \<open>Fields of an entry\<close>

definition ent_cluster :: "u8 list \<Rightarrow> u16" where "ent_cluster e = from_le16 (slice 26 2 e)"
definition ent_size :: "u8 list \<Rightarrow> u32" where "ent_size e = from_le32 (slice 28 4 e)"
definition ent_attr :: "u8 list \<Rightarrow> u8" where "ent_attr e = e ! 11"
definition ent_name :: "u8 list \<Rightarrow> u8 list" where "ent_name e = take 11 e"

lemma hit_from_fields [simp]:
  "hit_cluster (hit_from i e) = ent_cluster e" "hit_size (hit_from i e) = ent_size e"
  "hit_attr (hit_from i e) = ent_attr e" "hit_index (hit_from i e) = i"
  by (simp_all add: hit_from_def ent_cluster_def ent_size_def ent_attr_def)

lemma slice_update_apart: "i < off \<or> off + n \<le> i \<Longrightarrow> slice off n (xs[i := x]) = slice off n xs"
  by (auto simp: slice_def drop_update_swap)

lemma take_slice0: "take n xs = slice 0 n xs"
  by (simp add: slice_def)

lemma new_entry_fields:
  assumes "length name = 11"
  shows "ent_name (new_entry name c z a) = name" "ent_cluster (new_entry name c z a) = c"
    "ent_size (new_entry name c z a) = z" "ent_attr (new_entry name c z a) = a"
    "new_entry name c z a ! 0 = name ! 0"
proof -
  let ?e = "(patch 0 name (replicate DIR_ENTRY 0))[11 := a]"
  have e: "new_entry name c z a = patch 28 (le32 z) (patch 26 (le16 c) ?e)" and len: "length ?e = 32"
    using assms by (simp_all add: new_entry_def put_entry_def Let_def DIR_ENTRY_def)
  show "ent_size (new_entry name c z a) = z"
    using slice_patch_same [of 28 "le32 z" "patch 26 (le16 c) ?e"] len by (simp add: e ent_size_def)
  show "ent_cluster (new_entry name c z a) = c"
    using slice_patch_same [of 26 "le16 c" ?e] len by (simp add: e ent_cluster_def slice_patch_apart)
  show "ent_name (new_entry name c z a) = name"
    using slice_patch_same [of 0 name "replicate 32 0"] assms len
    by (simp add: e ent_name_def take_slice0 slice_patch_apart slice_update_apart DIR_ENTRY_def)
  show "ent_attr (new_entry name c z a) = a"
    using len assms by (simp add: e ent_attr_def nth_patch DIR_ENTRY_def)
  show "new_entry name c z a ! 0 = name ! 0"
    using len assms by (simp add: e nth_patch DIR_ENTRY_def)
qed

lemma sized_entry_fields:
  assumes "length e = DIR_ENTRY"
  shows "ent_name (patch 28 (le32 z) e) = ent_name e" "ent_cluster (patch 28 (le32 z) e) = ent_cluster e"
    "ent_size (patch 28 (le32 z) e) = z" "ent_attr (patch 28 (le32 z) e) = ent_attr e" "patch 28 (le32 z) e ! 0 = e ! 0"
  using slice_patch_same [of 28 "le32 z" e] assms
  by (simp_all add: ent_name_def ent_cluster_def ent_size_def ent_attr_def take_slice0 slice_patch_apart nth_patch DIR_ENTRY_def)

lemma renamed_entry_fields:
  assumes "length e = DIR_ENTRY" and "length name = 11"
  shows "ent_name (patch 0 name e) = name" "ent_cluster (patch 0 name e) = ent_cluster e"
    "ent_size (patch 0 name e) = ent_size e" "ent_attr (patch 0 name e) = ent_attr e" "patch 0 name e ! 0 = name ! 0"
  using slice_patch_same [of 0 name e] assms
  by (simp_all add: ent_name_def ent_cluster_def ent_size_def ent_attr_def take_slice0 slice_patch_apart nth_patch DIR_ENTRY_def)

lemma deleted_entry: "length e = DIR_ENTRY \<Longrightarrow> patch 0 [0xe5] e ! 0 = 0xe5"
  by (simp add: nth_patch DIR_ENTRY_def)

subsection \<open>Scans of a terminated directory\<close>

definition terminated :: "(u16 \<Rightarrow> u8 list) \<Rightarrow> u16 \<Rightarrow> bool" where
  "terminated ent n \<longleftrightarrow> (\<forall>i j. i < j \<longrightarrow> j < n \<longrightarrow> ent i ! 0 = 0 \<longrightarrow> ent j ! 0 = 0)"

lemma terminated_before: "terminated ent n \<Longrightarrow> i < n \<Longrightarrow> ent i ! 0 \<noteq> 0 \<Longrightarrow> \<forall>j<i. ent j ! 0 \<noteq> 0"
  unfolding terminated_def by blast

lemma terminated_change:
  assumes "terminated ent n" and "\<forall>j<i. ent j ! 0 \<noteq> 0" and "e ! 0 \<noteq> 0"
    and "\<And>j. j < n \<Longrightarrow> ent' j = (if j = i then e else ent j)"
  shows "terminated ent' n"
  unfolding terminated_def
proof (intro allI impI)
  fix j k assume jk: "j < k" "k < n" and z: "ent' j ! 0 = 0"
  have "j < n" using jk by (rule less_trans)
  then have j: "j \<noteq> i" "ent j ! 0 = 0" using assms(3) assms(4) [of j] z by (auto split: if_splits)
  have "k \<noteq> i" using j(2) jk(1) assms(2) by auto
  then show "ent' k ! 0 = 0" using assms(1) assms(4) [OF jk(2)] j(2) jk by (simp add: terminated_def)
qed

lemma u16_range_set: "set (u16_range a b) = {i. a \<le> i \<and> i < b}"
proof -
  have "i \<in> set (u16_range a b)" if "a \<le> i" "i < b" for i
    using that by (auto simp: u16_range_def word_le_nat_alt word_less_nat_alt intro!: image_eqI [of _ _ "unat i"])
  then show ?thesis using u16_range_less by blast
qed

lemma u16_range_sorted: "sorted_wrt (<) (u16_range a b)"
proof -
  have "unat (of_nat n :: u16) = n" if "n < unat b" for n
    using that unat_less_exp [of b] by (simp add: unat_of_nat)
  then show ?thesis
    by (auto simp: u16_range_def sorted_wrt_map word_less_nat_alt intro: sorted_wrt_mono_rel [OF _ sorted_wrt_upt])
qed

lemma find_spec_hit:
  "find_spec ent name is = Hit h \<Longrightarrow> \<exists>i\<in>set is. h = hit_from i (ent i) \<and> live (ent i) \<and> ent_name (ent i) = name"
  by (induction "is") (auto simp: ent_name_def split: if_splits)

lemma find_spec_not_failed [simp]: "find_spec ent name is \<noteq> Failed"
  by (induction "is") auto

lemma find_spec_missing:
  assumes "find_spec ent name is = Missing" and "sorted_wrt (<) is" and "\<forall>i\<in>set is. i < n" and "terminated ent n"
  shows "\<forall>i\<in>set is. \<not> (live (ent i) \<and> ent_name (ent i) = name)"
  using assms
proof (induction "is")
  case (Cons i "is")
  show ?case
  proof (cases "ent i ! 0 = 0")
    case True
    then have "\<forall>j\<in>set is. ent j ! 0 = 0" using Cons.prems(2-4) by (auto simp: terminated_def)
    then show ?thesis using True by (simp add: live_def)
  next
    case False
    then show ?thesis using Cons by (auto simp: ent_name_def split: if_splits)
  qed
qed simp

lemma find_root_missing:
  "find_spec ent name (u16_range 0 n) = Missing \<Longrightarrow> terminated ent n \<Longrightarrow> i < n \<Longrightarrow> live (ent i) \<Longrightarrow> ent_name (ent i) \<noteq> name"
  using find_spec_missing [OF _ u16_range_sorted, of ent name 0 n n] by (auto simp: u16_range_set)

lemma find_root_hit:
  assumes "terminated ent n" and i: "i < n" "live (ent i)" "ent_name (ent i) = name"
    and unique: "\<And>j. j < n \<Longrightarrow> live (ent j) \<Longrightarrow> ent_name (ent j) = name \<Longrightarrow> j = i"
  shows "find_spec ent name (u16_range 0 n) = Hit (hit_from i (ent i))"
proof (cases "find_spec ent name (u16_range 0 n)")
  case (Hit h)
  then obtain j where "j < n" "h = hit_from j (ent j)" "live (ent j)" "ent_name (ent j) = name"
    using find_spec_hit [OF Hit] by (auto simp: u16_range_set)
  then show ?thesis using unique Hit by metis
next
  case Missing
  then show ?thesis using find_root_missing [OF Missing assms(1) i(1,2)] i(3) by simp
qed simp

lemma free_spec_hit:
  assumes "free_spec ent is = Hit i" and "sorted_wrt (<) is"
  shows "i \<in> set is \<and> \<not> live (ent i) \<and> (\<forall>j\<in>set is. j < i \<longrightarrow> live (ent j))"
  using assms by (induction "is") (auto split: if_splits dest: less_asym)

lemma free_spec_not_failed [simp]: "free_spec ent is \<noteq> Failed"
  by (induction "is") auto

lemma free_root_hit:
  "free_spec ent (u16_range 0 n) = Hit i \<Longrightarrow> i < n \<and> \<not> live (ent i) \<and> (\<forall>j<i. live (ent j))"
  using free_spec_hit [OF _ u16_range_sorted, of ent 0 n i] by (auto simp: u16_range_set)

lemma empty_spec_none:
  assumes "empty_spec ent is" and "sorted_wrt (<) is" and "\<forall>i\<in>set is. i < n" and "terminated ent n"
  shows "\<forall>i\<in>set is. live (ent i) \<longrightarrow> is_dot (ent i)"
  using assms
proof (induction "is")
  case (Cons i "is")
  show ?case
  proof (cases "ent i ! 0 = 0")
    case True
    then have "\<forall>j\<in>set is. ent j ! 0 = 0" using Cons.prems(2-4) by (auto simp: terminated_def)
    then show ?thesis using True by (simp add: live_def)
  next
    case False
    then show ?thesis using Cons by (auto simp: live_def split: if_splits)
  qed
qed simp

lemma empty_sub_none:
  "empty_spec ent (u16_range 0 n) \<Longrightarrow> terminated ent n \<Longrightarrow> j < n \<Longrightarrow> live (ent j) \<Longrightarrow> is_dot (ent j)"
  using empty_spec_none [OF _ u16_range_sorted, of ent 0 n n] by (auto simp: u16_range_set)

lemma alloc_spec_hit: "alloc_spec V cs = Hit c \<Longrightarrow> c \<in> set cs \<and> fat_entry V c = 0"
  by (induction cs) (auto split: if_splits)

lemma alloc_spec_not_failed [simp]: "alloc_spec V cs \<noteq> Failed"
  by (induction cs) auto

lemma alloc_hit: "alloc_spec V (u16_range 2 CLUSTER_SCAN) = Hit c \<Longrightarrow> 2 \<le> c \<and> c < CLUSTER_SCAN \<and> fat_entry V c = 0"
  using alloc_spec_hit u16_range_less by blast

subsection \<open>Sound volumes\<close>

datatype place = Root u16 | Sub u16 u16

fun entry_at :: "volume \<Rightarrow> place \<Rightarrow> u8 list" where
  "entry_at V (Root i) = root_entry V i"
| "entry_at V (Sub c j) = sub_entry V c j"

definition dir_at :: "volume \<Rightarrow> u16 \<Rightarrow> u16 \<Rightarrow> bool" where
  "dir_at V i c \<longleftrightarrow> i < ROOT_ENTRIES \<and> live (root_entry V i) \<and> is_dir (ent_attr (root_entry V i))
     \<and> ent_cluster (root_entry V i) = c"

fun present :: "volume \<Rightarrow> place \<Rightarrow> bool" where
  "present V (Root i) \<longleftrightarrow> i < ROOT_ENTRIES \<and> live (root_entry V i)"
| "present V (Sub c j) \<longleftrightarrow> (\<exists>i. dir_at V i c) \<and> j < ENTRIES_PER_SECTOR \<and> live (sub_entry V c j) \<and> \<not> is_dot (sub_entry V c j)"

definition cluster_at :: "volume \<Rightarrow> place \<Rightarrow> u16" where
  "cluster_at V p = ent_cluster (entry_at V p)"

definition contents :: "volume \<Rightarrow> place \<Rightarrow> u8 list" where
  "contents V p = take (unat (ent_size (entry_at V p))) (V (data_lba (cluster_at V p)))"

definition volume_sound :: "volume \<Rightarrow> bool" where
  "volume_sound V \<longleftrightarrow> sized V \<and> mirrored V \<and> terminated (root_entry V) ROOT_ENTRIES
     \<and> (\<forall>i c. dir_at V i c \<longrightarrow> terminated (sub_entry V c) ENTRIES_PER_SECTOR)
     \<and> (\<forall>i j. present V (Root i) \<and> present V (Root j) \<and> ent_name (root_entry V i) = ent_name (root_entry V j) \<longrightarrow> i = j)
     \<and> (\<forall>p. present V p \<longrightarrow> 2 \<le> cluster_at V p \<and> cluster_at V p < CLUSTER_SCAN \<and> fat_entry V (cluster_at V p) \<noteq> 0
         \<and> unat (ent_size (entry_at V p)) \<le> SECTOR_BYTES)
     \<and> (\<forall>c j. present V (Sub c j) \<longrightarrow> \<not> is_dir (ent_attr (sub_entry V c j)))
     \<and> (\<forall>p q. present V p \<and> present V q \<and> cluster_at V p = cluster_at V q \<longrightarrow> p = q)"

lemma soundD:
  assumes "volume_sound V"
  shows "sized V" "mirrored V" "terminated (root_entry V) ROOT_ENTRIES"
    "dir_at V i c \<Longrightarrow> terminated (sub_entry V c) ENTRIES_PER_SECTOR"
    "present V (Root i) \<Longrightarrow> present V (Root j) \<Longrightarrow> ent_name (root_entry V i) = ent_name (root_entry V j) \<Longrightarrow> i = j"
    "present V p \<Longrightarrow> 2 \<le> cluster_at V p" "present V p \<Longrightarrow> cluster_at V p < CLUSTER_SCAN"
    "present V p \<Longrightarrow> fat_entry V (cluster_at V p) \<noteq> 0" "present V p \<Longrightarrow> unat (ent_size (entry_at V p)) \<le> SECTOR_BYTES"
    "present V (Sub c j') \<Longrightarrow> \<not> is_dir (ent_attr (sub_entry V c j'))"
    "present V p \<Longrightarrow> present V q \<Longrightarrow> cluster_at V p = cluster_at V q \<Longrightarrow> p = q"
  using assms unfolding volume_sound_def by blast+

lemma dir_at_present: "dir_at V i c \<longleftrightarrow> present V (Root i) \<and> is_dir (ent_attr (root_entry V i)) \<and> cluster_at V (Root i) = c"
  by (auto simp: dir_at_def cluster_at_def)

lemma sub_same: "V (data_lba c) = V' (data_lba c) \<Longrightarrow> sub_entry V c = sub_entry V' c"
  by (simp add: sub_entry_def fun_eq_iff)

text \<open>A new entry in the root, in a free slot and with a free cluster.\<close>

lemma sound_add:
  assumes V: "volume_sound V" and V': "sized V'" "mirrored V'"
    and i: "i < ROOT_ENTRIES" "\<not> live (root_entry V i)" "\<forall>j<i. root_entry V j ! 0 \<noteq> 0"
    and c: "2 \<le> c" "c < CLUSTER_SCAN" "fat_entry V c = 0"
    and roots: "\<And>j. j < ROOT_ENTRIES \<Longrightarrow> root_entry V' j = (if j = i then e else root_entry V j)"
    and table: "\<And>d. d < CLUSTER_SCAN \<Longrightarrow> fat_entry V' d = (if d = c then 0xffff else fat_entry V d)"
    and sectors: "\<And>d. 2 \<le> d \<Longrightarrow> d \<noteq> c \<Longrightarrow> V' (data_lba d) = V (data_lba d)"
    and e: "live e" "ent_cluster e = c" "ent_size e = 0"
    and name: "\<And>j. present V (Root j) \<Longrightarrow> ent_name (root_entry V j) \<noteq> ent_name e"
    and dir: "is_dir (ent_attr e) \<Longrightarrow> (\<forall>j<ENTRIES_PER_SECTOR. live (sub_entry V' c j) \<longrightarrow> is_dot (sub_entry V' c j))
      \<and> terminated (sub_entry V' c) ENTRIES_PER_SECTOR"
  shows "volume_sound V'" and "\<And>p. present V' p \<longleftrightarrow> p = Root i \<or> present V p"
    and "\<And>p. present V p \<Longrightarrow> entry_at V' p = entry_at V p \<and> contents V' p = contents V p"
proof -
  have free: "cluster_at V p \<noteq> c" if "present V p" for p
    using soundD(8) [OF V that] c(3) by auto
  have sub: "sub_entry V' d = sub_entry V d" if "dir_at V j d" for j d
    using sectors [of d] soundD(6) [OF V, of "Root j"] free [of "Root j"] that
    by (auto simp: dir_at_present intro!: sub_same)
  have dirs: "dir_at V' j d \<longleftrightarrow> (if j = i then is_dir (ent_attr e) \<and> d = c else dir_at V j d)" for j d
    using i(1) roots [of j] e by (auto simp: dir_at_def)
  have dirs_i: "\<not> dir_at V i d" for d using i(2) by (simp add: dir_at_def)
  have newdir: "\<not> present V' (Sub c j)" for j
  proof
    assume "present V' (Sub c j)"
    then obtain k where k: "dir_at V' k c" "j < ENTRIES_PER_SECTOR" "live (sub_entry V' c j)" "\<not> is_dot (sub_entry V' c j)"
      by auto
    then have "k \<noteq> i \<Longrightarrow> dir_at V k c" by (simp add: dirs)
    then have "k = i" using free [of "Root k"] by (auto simp: dir_at_present)
    then show False using k dir by (auto simp: dirs)
  qed
  have subdirs: "(\<exists>k. dir_at V' k d) \<longleftrightarrow> (\<exists>k. dir_at V k d)" if "d \<noteq> c" for d
    using that dirs dirs_i by metis
  have nodir_c: "\<not> dir_at V k c" for k using free [of "Root k"] by (auto simp: dir_at_present)
  show pres: "present V' p \<longleftrightarrow> p = Root i \<or> present V p" for p
  proof (cases p)
    case (Root j)
    then show ?thesis using i(1) roots [of j] e(1) by auto
  next
    case (Sub d j)
    show ?thesis
    proof (cases "d = c")
      case True
      then show ?thesis using newdir Sub nodir_c by auto
    next
      case False
      then show ?thesis using subdirs [OF False] sub unfolding Sub by auto
    qed
  qed
  have ent: "entry_at V' p = entry_at V p" if "present V p" for p
    using that i(2) roots sub by (cases p) auto
  then have clu: "cluster_at V' p = cluster_at V p" if "present V p" for p using that by (simp add: cluster_at_def)
  show "entry_at V' p = entry_at V p \<and> contents V' p = contents V p" if "present V p" for p
    using ent [OF that] clu [OF that] sectors [OF soundD(6) [OF V that] free [OF that]] by (simp add: contents_def)
  have clu_i: "cluster_at V' (Root i) = c" using roots [of i] i(1) e(2) by (simp add: cluster_at_def)
  have ended: "terminated (root_entry V') ROOT_ENTRIES"
    by (rule terminated_change [OF soundD(3) [OF V] i(3) _ roots]) (use e(1) in \<open>simp_all add: live_def\<close>)
  show "volume_sound V'"
    unfolding volume_sound_def
  proof (intro conjI allI impI, goal_cases)
    case (4 j d)
    then show ?case using dirs sub dir soundD(4) [OF V] by (metis (full_types))
  next
    case (5 j k)
    then show ?case using pres roots name i(1) soundD(5) [OF V, of j k] by (metis present.simps(1))
  next
    case (6 p) then show ?case using pres clu clu_i c(1) soundD(6) [OF V] by metis
  next
    case (7 p) then show ?case using pres clu clu_i c(2) soundD(7) [OF V] by metis
  next
    case (8 p)
    then show ?case
      using pres [of p] clu [of p] clu_i c(2) free [of p] soundD(7,8) [OF V, of p] table by auto
  next
    case (9 p)
    then show ?case using pres [of p] ent [of p] e(3) roots [of i] i(1) soundD(9) [OF V, of p] by auto
  next
    case (10 d j)
    then have "present V (Sub d j)" using pres by blast
    then show ?case using soundD(10) [OF V] ent by fastforce
  next
    case (11 p q)
    then show ?case using pres clu clu_i free soundD(11) [OF V] by metis
  qed (use V' ended in auto)
qed

text \<open>A changed entry that keeps its cluster and its kind: a new name, or a new size together
  with new bytes in the data sector of a file.\<close>

lemma sound_change:
  assumes V: "volume_sound V" and V': "sized V'" "mirrored V'"
    and i: "present V (Root i)" and c: "c = cluster_at V (Root i)"
    and roots: "\<And>j. j < ROOT_ENTRIES \<Longrightarrow> root_entry V' j = (if j = i then e else root_entry V j)"
    and table: "\<And>d. d < CLUSTER_SCAN \<Longrightarrow> fat_entry V' d = fat_entry V d"
    and sectors: "\<And>d. 2 \<le> d \<Longrightarrow> d \<noteq> c \<or> is_dir (ent_attr e) \<Longrightarrow> V' (data_lba d) = V (data_lba d)"
    and e: "live e" "ent_cluster e = c" "ent_attr e = ent_attr (root_entry V i)" "unat (ent_size e) \<le> SECTOR_BYTES"
    and name: "\<And>j. present V (Root j) \<Longrightarrow> j \<noteq> i \<Longrightarrow> ent_name (root_entry V j) \<noteq> ent_name e"
  shows "volume_sound V'" and "\<And>p. present V' p \<longleftrightarrow> present V p"
    and "\<And>p. present V p \<Longrightarrow> p \<noteq> Root i \<Longrightarrow> entry_at V' p = entry_at V p \<and> contents V' p = contents V p"
proof -
  have i512: "i < ROOT_ENTRIES" and livei: "live (root_entry V i)" using i by simp_all
  have dirs: "dir_at V' j d \<longleftrightarrow> dir_at V j d" for j d
    using i512 livei roots [of j] e c by (cases "j = i") (auto simp: dir_at_def cluster_at_def)
  have sub: "sub_entry V' d = sub_entry V d" if "dir_at V j d" for j d
  proof (rule sub_same, rule sectors)
    show "2 \<le> d" using soundD(6) [OF V, of "Root j"] that by (auto simp: dir_at_present)
    show "d \<noteq> c \<or> is_dir (ent_attr e)"
    proof (cases "d = c")
      case True
      have "present V (Root j)" "cluster_at V (Root j) = c" "is_dir (ent_attr (root_entry V j))"
        using that True unfolding dir_at_present by blast+
      then have "Root j = Root i" using soundD(11) [OF V _ i] c by metis
      then show ?thesis using that e(3) by (simp add: dir_at_def)
    qed simp
  qed
  show pres: "present V' p \<longleftrightarrow> present V p" for p
    using i512 livei roots e(1) sub dirs by (cases p) (auto split: if_splits)
  have ent: "entry_at V' p = entry_at V p" if "present V p" "p \<noteq> Root i" for p
    using that roots sub by (cases p) auto
  have clu_i: "cluster_at V' (Root i) = c" using roots [OF i512] e(2) by (simp add: cluster_at_def)
  then have clu: "cluster_at V' p = cluster_at V p" if "present V p" for p
    using that ent [OF that] c by (cases "p = Root i") (auto simp: cluster_at_def)
  show "entry_at V' p = entry_at V p \<and> contents V' p = contents V p" if "present V p" "p \<noteq> Root i" for p
  proof -
    have "cluster_at V p \<noteq> c" using soundD(11) [OF V that(1) i] that(2) c by auto
    then show ?thesis using ent [OF that] clu [OF that(1)] sectors [OF soundD(6) [OF V that(1)]] by (simp add: contents_def)
  qed
  have ended: "terminated (root_entry V') ROOT_ENTRIES"
    by (rule terminated_change [OF soundD(3) [OF V] terminated_before [OF soundD(3) [OF V] i512] _ roots])
      (use livei e(1) in \<open>simp_all add: live_def\<close>)
  show "volume_sound V'"
    unfolding volume_sound_def
  proof (intro conjI allI impI, goal_cases)
    case (4 j d)
    then show ?case using dirs sub soundD(4) [OF V] by metis
  next
    case (5 j k)
    then show ?case using pres roots name soundD(5) [OF V, of j k] by (metis present.simps(1))
  next
    case (6 p) then show ?case using pres clu soundD(6) [OF V] by metis
  next
    case (7 p) then show ?case using pres clu soundD(7) [OF V] by metis
  next
    case (8 p) then show ?case using pres clu soundD(7,8) [OF V] table by metis
  next
    case (9 p)
    then show ?case using pres [of p] ent [of p] e(4) roots [OF i512] soundD(9) [OF V, of p] by (cases "p = Root i") auto
  next
    case (10 d j)
    then have "present V (Sub d j)" using pres by blast
    then show ?case using soundD(10) [OF V] ent by fastforce
  next
    case (11 p q)
    then show ?case using pres clu soundD(11) [OF V] by metis
  qed (use V' ended in auto)
qed

text \<open>A removed entry, its cluster free again; a removed directory was empty.\<close>

lemma sound_remove:
  assumes V: "volume_sound V" and V': "sized V'" "mirrored V'"
    and i: "present V (Root i)" and c: "c = cluster_at V (Root i)"
    and empty: "is_dir (ent_attr (root_entry V i)) \<Longrightarrow> \<forall>j<ENTRIES_PER_SECTOR. live (sub_entry V c j) \<longrightarrow> is_dot (sub_entry V c j)"
    and roots: "\<And>j. j < ROOT_ENTRIES \<Longrightarrow> root_entry V' j = (if j = i then e else root_entry V j)"
    and table: "\<And>d. d < CLUSTER_SCAN \<Longrightarrow> fat_entry V' d = (if d = c then 0 else fat_entry V d)"
    and sectors: "\<And>d. 2 \<le> d \<Longrightarrow> V' (data_lba d) = V (data_lba d)"
    and e: "e ! 0 = 0xe5"
  shows "volume_sound V'" and "\<And>p. present V' p \<longleftrightarrow> present V p \<and> p \<noteq> Root i"
    and "\<And>p. present V p \<Longrightarrow> p \<noteq> Root i \<Longrightarrow> entry_at V' p = entry_at V p \<and> contents V' p = contents V p"
proof -
  have i512: "i < ROOT_ENTRIES" and livei: "live (root_entry V i)" using i by simp_all
  have other: "cluster_at V p \<noteq> c" if "present V p" "p \<noteq> Root i" for p
    using soundD(11) [OF V that(1) i] that(2) c by auto
  have dead: "\<not> live e" using e by (simp add: live_def)
  have dirs: "dir_at V' j d \<longleftrightarrow> dir_at V j d \<and> j \<noteq> i" for j d
    using i512 roots [of j] dead by (cases "j = i") (auto simp: dir_at_def)
  have sub: "sub_entry V' d = sub_entry V d" if "dir_at V j d" for j d
    using soundD(6) [OF V, of "Root j"] that by (auto simp: dir_at_present intro!: sub_same sectors)
  have gone: "\<not> present V (Sub c k)" if "is_dir (ent_attr (root_entry V i))" for k
    using empty [OF that] by auto
  have same_dir: "j = i" if "dir_at V j c" for j
    using that other [of "Root j"] by (auto simp: dir_at_present)
  have sub_i: "d \<noteq> c" if p: "present V (Sub d k)" for d k
  proof
    assume dc: "d = c"
    obtain j where j: "dir_at V j c" using p dc by auto
    then have "is_dir (ent_attr (root_entry V i))" using same_dir [OF j] by (simp add: dir_at_def)
    then show False using gone p dc by blast
  qed
  show pres: "present V' p \<longleftrightarrow> present V p \<and> p \<noteq> Root i" for p
  proof (cases p)
    case (Root j)
    then show ?thesis using roots [of j] dead by (cases "j = i") auto
  next
    case (Sub d k)
    have "(\<exists>j. dir_at V j d \<and> j \<noteq> i) \<longleftrightarrow> (\<exists>j. dir_at V j d)" if "d \<noteq> c"
      using that c by (auto simp: dir_at_present)
    moreover have "\<not> present V' (Sub c k)" using dirs same_dir by auto
    ultimately show ?thesis using sub_i [of d k] sub dirs unfolding Sub by auto
  qed
  have ent: "entry_at V' p = entry_at V p" if "present V p" "p \<noteq> Root i" for p
    using that roots sub by (cases p) auto
  then have clu: "cluster_at V' p = cluster_at V p" if "present V p" "p \<noteq> Root i" for p using that by (simp add: cluster_at_def)
  show "entry_at V' p = entry_at V p \<and> contents V' p = contents V p" if "present V p" "p \<noteq> Root i" for p
    using ent [OF that] clu [OF that] sectors [OF soundD(6) [OF V that(1)]] by (simp add: contents_def)
  have ended: "terminated (root_entry V') ROOT_ENTRIES"
    by (rule terminated_change [OF soundD(3) [OF V] terminated_before [OF soundD(3) [OF V] i512] _ roots])
      (use livei e in \<open>simp_all add: live_def\<close>)
  show "volume_sound V'"
    unfolding volume_sound_def
  proof (intro conjI allI impI, goal_cases)
    case (4 j d)
    then show ?case using dirs sub soundD(4) [OF V] by metis
  next
    case (5 j k)
    then show ?case using pres roots soundD(5) [OF V, of j k] by (metis present.simps(1))
  next
    case (6 p) then show ?case using pres clu soundD(6) [OF V] by metis
  next
    case (7 p) then show ?case using pres clu soundD(7) [OF V] by metis
  next
    case (8 p) then show ?case using pres clu other soundD(7,8) [OF V] table by metis
  next
    case (9 p) then show ?case using pres [of p] ent [of p] soundD(9) [OF V, of p] by auto
  next
    case (10 d j)
    then have "present V (Sub d j)" using pres by blast
    then show ?case using soundD(10) [OF V] ent by fastforce
  next
    case (11 p q)
    then show ?case using pres clu soundD(11) [OF V] by metis
  qed (use V' ended in auto)
qed

end
