(* ===== verification/FatFiles.thy ===== *)
theory FatFiles
  imports FatSound
begin

text \<open>
  The handlers of the file server over a sound volume and a working device: no handler gives up,
  the volume stays sound, the open file stays a file of the volume, and the commands do to the
  files what their names say.
\<close>

subsection \<open>Names\<close>

definition marker :: "u8 \<Rightarrow> bool" where
  "marker b \<longleftrightarrow> b = 0 \<or> b = 0xe5"

lemma upper_marker: "marker (upper b) \<longleftrightarrow> marker b"
proof -
  have "b - 0x20 \<noteq> 0 \<and> b - 0x20 \<noteq> 0xe5" if "0x61 \<le> b" "b \<le> 0x7a"
  proof -
    have "unat b \<ge> 97" "unat b \<le> 122" using that by (simp_all add: word_le_nat_alt)
    moreover have "unat (b - 0x20) = unat b - 32"
      using that(1) by (subst unat_sub) (auto simp: word_le_nat_alt)
    ultimately have "unat (b - 0x20) \<noteq> 0 \<and> unat (b - 0x20) \<noteq> unat (0xe5 :: u8)" by simp
    then show ?thesis by (metis unat_0)
  qed
  moreover have "b \<noteq> 0 \<and> b \<noteq> 0xe5" if "0x61 \<le> b" "b \<le> 0x7a"
    using that by (auto simp: word_le_nat_alt)
  ultimately show ?thesis by (auto simp: upper_def marker_def)
qed

lemma position_0: "position p xs = Some 0 \<longleftrightarrow> xs \<noteq> [] \<and> p (hd xs)"
  by (cases xs) auto

lemma pack_name_first: "pack_name raw = Some name \<Longrightarrow> raw \<noteq> [] \<and> name ! 0 = upper (raw ! 0)"
  by (auto simp: pack_name_def Let_def nth_patch split: if_splits option.splits dest: position_less)

lemma live_name: "length name = 11 \<Longrightarrow> ent_name e = name \<Longrightarrow> live e \<longleftrightarrow> \<not> marker (name ! 0)"
  by (auto simp: live_def marker_def ent_name_def)

definition plain_path :: "fs_buffer_t \<Rightarrow> 'd fat \<Rightarrow> bool" where
  "plain_path path s \<longleftrightarrow> \<not> marker (sh_share (ft_shared s) (unat (fb_offset path)))"

lemma mem_get_first: "mem_get off n m \<noteq> [] \<Longrightarrow> mem_get off n m ! 0 = m off"
  by (cases n) (auto simp: mem_get_def nth_append)

lemma plain_name:
  assumes "read_packed_name path s = Some name" and "plain_path path s"
  shows "\<not> marker (name ! 0)"
proof -
  obtain raw where raw: "copy_share (fb_offset path) (unat (fb_size path)) s = Some raw" "pack_name raw = Some name"
    using assms(1) by (auto simp: read_packed_name_def bind_eq_Some_conv split: if_splits)
  have "raw \<noteq> []" "name ! 0 = upper (raw ! 0)" using pack_name_first [OF raw(2)] by auto
  moreover have "raw ! 0 = sh_share (ft_shared s) (unat (fb_offset path))"
    using raw(1) \<open>raw \<noteq> []\<close> by (auto simp: copy_share_def mem_get_first split: if_splits)
  ultimately show ?thesis using assms(2) by (simp add: upper_marker plain_path_def)
qed

subsection \<open>Healthy states\<close>

definition file_place :: "volume \<Rightarrow> OpenFile \<Rightarrow> place \<Rightarrow> bool" where
  "file_place V f p \<longleftrightarrow> present V p \<and> \<not> is_dir (ent_attr (entry_at V p)) \<and> cluster_at V p = fl_cluster f
     \<and> ent_size (entry_at V p) = fl_size f
     \<and> (case p of Root i \<Rightarrow> fl_parent f = 0 \<and> fl_dir_index f = i | Sub c j \<Rightarrow> fl_parent f = c \<and> fl_dir_index f = j)"

definition file_sound :: "volume \<Rightarrow> OpenFile \<Rightarrow> bool" where
  "file_sound V f \<longleftrightarrow> (\<exists>p. file_place V f p)"

definition dir_sound :: "OpenDir \<Rightarrow> bool" where
  "dir_sound d \<longleftrightarrow> dr_cluster d = 0 \<and> dr_limit d \<le> ROOT_ENTRIES
     \<or> 2 \<le> dr_cluster d \<and> dr_cluster d < CLUSTER_SCAN \<and> dr_limit d \<le> ENTRIES_PER_SECTOR"

definition healthy :: "'d dev \<Rightarrow> 'd fat \<Rightarrow> bool" where
  "healthy D s \<longleftrightarrow> working D s \<and> volume_sound (sect D s) \<and> (\<forall>f. ft_file s = Some f \<longrightarrow> file_sound (sect D s) f)
     \<and> (\<forall>d. ft_dir s = Some d \<longrightarrow> dir_sound d)"

definition stable :: "'d dev \<Rightarrow> 'd fat \<Rightarrow> bool" where
  "stable D s \<longleftrightarrow> healthy D s \<and> room s"

lemma sect_cong:
  "block_valid s' = block_valid s \<Longrightarrow> block_no s' = block_no s \<Longrightarrow> block s' = block s \<Longrightarrow>
    sh_peers (ft_shared s') = sh_peers (ft_shared s) \<Longrightarrow> sect D s' = sect D s"
  by (simp add: sect_def vol_def fun_eq_iff)

lemma sect_fields [simp]:
  "sect D (s\<lparr>ft_file := x\<rparr>) = sect D s" "sect D (s\<lparr>ft_dir := y\<rparr>) = sect D s"
  "sect D (put_share_bytes off bytes s) = sect D s" "sect D (set_open_size z s) = sect D s"
  "sect D (set_dir_index i s) = sect D s" "sect D (forget_removed i s) = sect D s"
  by (auto intro!: sect_cong simp: put_share_bytes_def set_open_size_def set_dir_index_def forget_removed_def split: option.splits)

lemma working_fields [simp]:
  "working D (s\<lparr>ft_file := x\<rparr>) = working D s" "working D (s\<lparr>ft_dir := y\<rparr>) = working D s"
  "working D (put_share_bytes off bytes s) = working D s" "working D (set_open_size z s) = working D s"
  "working D (set_dir_index i s) = working D s" "working D (forget_removed i s) = working D s"
  by (auto simp: working_def steady_def alive_def tidy_def calm_def peers_ok_def put_share_bytes_def set_open_size_def
      set_dir_index_def forget_removed_def split: option.splits)

lemma room_fields [simp]:
  "room (s\<lparr>ft_file := x\<rparr>) = room s" "room (s\<lparr>ft_dir := y\<rparr>) = room s"
  "room (put_share_bytes off bytes s) = room s" "room (set_open_size z s) = room s"
  "room (set_dir_index i s) = room s" "room (forget_removed i s) = room s"
  by (auto simp: room_def put_share_bytes_def set_open_size_def set_dir_index_def forget_removed_def split: option.splits)

lemma room_frame: "room s \<Longrightarrow> frame s s' \<Longrightarrow> room s'"
  by (auto simp: room_def frame_def client_step_def fs_left_def)

text \<open>Completing changes neither the volume nor the handles.\<close>

lemma complete_works:
  assumes w: "working D s" and r: "room s"
  obtains s' where "complete rid st d s = (True, s')" "working D s'" "sect D s' = sect D s"
    "ft_file s' = ft_file s" "ft_dir s' = ft_dir s" "sh_share (ft_shared s') = sh_share (ft_shared s)"
    "ft_wait s' = ft_wait s" "ft_past s' = ft_past s" "sh_commands (ft_shared s') = sh_commands (ft_shared s)"
    "cmpl_items (sh_completions (ft_shared s')) = cmpl_items (sh_completions (ft_shared s))
      @ [\<lparr>cmpl_id = rid, cmpl_status = st, cmpl_data = completion_word d\<rparr>]"
proof -
  let ?q = "sh_completions (ft_shared s)" and ?c = "\<lparr>cmpl_id = rid, cmpl_status = st, cmpl_data = completion_word d\<rparr>"
  have "fs_queue_wf ?q" and p: "peers_ok (dv_disk D) (ft_shared s)"
    using w by (simp_all add: working_def steady_def alive_def tidy_def peers_ok_def)
  then obtain q' where q': "fs_completion_enqueue ?q ?c = (0, q')" "fs_queue_wf q'" "cmpl_items q' = cmpl_items ?q @ [?c]"
    using completion_appended [of ?q ?c] r by (auto simp: room_def)
  let ?s = "s\<lparr>ft_shared := (ft_shared s)\<lparr>sh_completions := q'\<rparr>, ft_notes := ft_notes s @ [FS_CH]\<rparr>"
  have "steady D ?s"
    by (rule steady_shared) (use w p q'(2) in \<open>simp_all add: peers_ok_completions\<close>)
  then show ?thesis
    using that [of ?s] w q' by (simp add: complete_def notify_def working_def calm_def sect_def vol_def fun_eq_iff)
qed

lemma stable_scan:
  "stable D s \<Longrightarrow> working D s' \<Longrightarrow> frame s s' \<Longrightarrow> sect D s' = sect D s \<Longrightarrow> stable D s'"
  by (auto simp: stable_def healthy_def room_frame) (simp_all add: frame_def)

lemma stable_working [simp]: "stable D s \<Longrightarrow> working D s"
  by (simp add: stable_def healthy_def)

lemma stable_sound [simp]: "stable D s \<Longrightarrow> volume_sound (sect D s)"
  by (simp add: stable_def healthy_def)

subsection \<open>Changes of a sound volume\<close>

lemma present_root: "i < ROOT_ENTRIES \<Longrightarrow> live (root_entry V i) \<Longrightarrow> present V (Root i)"
  by simp

text \<open>An open file of the volume, by its place.\<close>

lemma file_place_same:
  "file_place V f p \<Longrightarrow> present V' p \<Longrightarrow> entry_at V' p = entry_at V p \<Longrightarrow> file_place V' f p"
  by (simp add: file_place_def cluster_at_def)

lemma create_sound:
  assumes V: "volume_sound V" and i: "i < ROOT_ENTRIES" "\<not> live (root_entry V i)" "\<forall>j<i. live (root_entry V j)"
    and c: "2 \<le> c" "c < CLUSTER_SCAN" "fat_entry V c = 0" and n: "length name = 11" "\<not> marker (name ! 0)"
    and new: "\<forall>j. present V (Root j) \<longrightarrow> ent_name (root_entry V j) \<noteq> name"
    and V': "V' = root_upd i (new_entry name c 0 ATTR_ARCHIVE) (fat_upd c 0xffff V)"
  shows "volume_sound V'" and "\<And>p. present V' p \<longleftrightarrow> p = Root i \<or> present V p"
    and "\<And>p. present V p \<Longrightarrow> entry_at V' p = entry_at V p \<and> contents V' p = contents V p"
    and "root_entry V' i = new_entry name c 0 ATTR_ARCHIVE"
proof -
  let ?e = "new_entry name c 0 ATTR_ARCHIVE"
  have sz: "sized V" "sized (fat_upd c 0xffff V)" using soundD(1) [OF V] by auto
  have roots: "root_entry V' j = (if j = i then ?e else root_entry V j)" if "j < ROOT_ENTRIES" for j
    using root_entry_root_upd [OF sz(2) _ i(1) that, of ?e] n c(2) that by (simp add: V')
  have table: "fat_entry V' d = (if d = c then 0xffff else fat_entry V d)" if "d < CLUSTER_SCAN" for d
    using fat_entry_fat_upd [OF sz(1) c(2) that] that i(1) by (simp add: V')
  have sectors: "V' (data_lba d) = V (data_lba d)" if "2 \<le> d" for d using that i(1) c(2) by (simp add: V')
  have ok: "sized V'" "mirrored V'"
    using sz n soundD(2) [OF V] c i(1) unfolding V' by (auto intro!: mirrored_upd)
  have before: "\<forall>j<i. root_entry V j ! 0 \<noteq> 0" using i(3) by (simp add: live_def)
  have e: "live ?e" "ent_cluster ?e = c" "ent_size ?e = 0" "ent_name ?e = name" "\<not> is_dir (ent_attr ?e)"
    using n live_name [OF n(1), of ?e] by (simp_all add: new_entry_fields is_dir_def ATTR_ARCHIVE_def ATTR_DIR_def)
  note add = sound_add [OF V ok i(1,2) before c roots table sectors e(1-3)]
  show "volume_sound V'" "\<And>p. present V' p \<longleftrightarrow> p = Root i \<or> present V p"
    "\<And>p. present V p \<Longrightarrow> entry_at V' p = entry_at V p \<and> contents V' p = contents V p"
    by (rule add; use new e in simp)+
  show "root_entry V' i = ?e" using roots [OF i(1)] by simp
qed

text \<open>The sector \<open>format_directory\<close> writes.\<close>

definition fresh_dir :: "u16 \<Rightarrow> u8 list" where
  "fresh_dir c = patch 32 (new_entry (dot_name 2) 0 0 ATTR_DIR)
     (patch 0 (new_entry (dot_name 1) c 0 ATTR_DIR) (replicate SECTOR_BYTES 0))"

lemma length_fresh_dir [simp]: "length (fresh_dir c) = SECTOR_BYTES"
  by (simp add: fresh_dir_def SECTOR_BYTES_def DIR_ENTRY_def)

lemma fresh_dir_entry:
  assumes "j < ENTRIES_PER_SECTOR" and "V (data_lba c) = fresh_dir c"
  shows "sub_entry V c j = (if j = 0 then new_entry (dot_name 1) c 0 ATTR_DIR
    else if j = 1 then new_entry (dot_name 2) 0 0 ATTR_DIR else replicate DIR_ENTRY 0)"
proof -
  have j: "unat j < 16" using assms(1) by (simp add: ENTRIES_PER_SECTOR_def word_less_nat_alt)
  let ?a = "new_entry (dot_name 1) c 0 ATTR_DIR" and ?b = "new_entry (dot_name 2) 0 0 ATTR_DIR"
  have len: "length ?a = 32" "length ?b = 32" by (simp_all add: DIR_ENTRY_def)
  consider "unat j = 0" | "unat j = 1" | "2 \<le> unat j" by linarith
  then show ?thesis
  proof cases
    case 1
    then have "j = 0" by (metis unat_0 unsigned_word_eqI)
    then show ?thesis
      using slice_patch_same [of 0 ?a "replicate SECTOR_BYTES 0"] len assms(2)
      by (simp add: sub_entry_def fresh_dir_def slice_patch_apart SECTOR_BYTES_def DIR_ENTRY_def)
  next
    case 2
    then have "j = 1" by (metis unat_1 unsigned_word_eqI)
    then show ?thesis
      using slice_patch_same [of 32 ?b "patch 0 ?a (replicate SECTOR_BYTES 0)"] len assms(2)
      by (simp add: sub_entry_def fresh_dir_def SECTOR_BYTES_def DIR_ENTRY_def)
  next
    case 3
    then have "j \<noteq> 0" "j \<noteq> 1" by auto
    then show ?thesis
      using 3 j len assms(2)
      by (simp add: sub_entry_def fresh_dir_def slice_patch_apart SECTOR_BYTES_def DIR_ENTRY_def)
  qed
qed

lemma dot_entry: "n = 1 \<or> n = 2 \<Longrightarrow> is_dot (new_entry (dot_name n) c z a)"
proof -
  assume n: "n = 1 \<or> n = 2"
  let ?e = "new_entry (dot_name n) c z a"
  have "ent_name ?e = dot_name n" using n by (intro new_entry_fields) auto
  then have "?e ! 0 = dot_name n ! 0" "?e ! 1 = dot_name n ! 1"
    unfolding ent_name_def by (metis nth_take numeral_eq_one_iff one_less_numeral_iff zero_less_numeral semiring_norm(76)
        semiring_norm(77) less_numeral_extra(1))+
  then show ?thesis using n by (auto simp: is_dot_def dot_name_def numeral_eq_Suc)
qed

lemma fresh_dir_empty:
  assumes "V (data_lba c) = fresh_dir c"
  shows "\<forall>j<ENTRIES_PER_SECTOR. live (sub_entry V c j) \<longrightarrow> is_dot (sub_entry V c j)"
    and "terminated (sub_entry V c) ENTRIES_PER_SECTOR"
proof -
  show "\<forall>j<ENTRIES_PER_SECTOR. live (sub_entry V c j) \<longrightarrow> is_dot (sub_entry V c j)"
    using fresh_dir_entry [where V = V and c = c, OF _ assms] dot_entry by (auto simp: live_def DIR_ENTRY_def)
  show "terminated (sub_entry V c) ENTRIES_PER_SECTOR"
    unfolding terminated_def
  proof (intro allI impI)
    fix i j assume ij: "i < j" "j < ENTRIES_PER_SECTOR" and z: "sub_entry V c i ! 0 = 0"
    have "i < ENTRIES_PER_SECTOR" using ij by (rule less_trans)
    then have "i \<noteq> 0 \<and> i \<noteq> 1"
      using z fresh_dir_entry [of i V c, OF _ assms] dot_entry by (auto simp: is_dot_def split: if_splits)
    then have "j \<noteq> 0 \<and> j \<noteq> 1" using ij(1) by (auto simp: word_less_nat_alt unsigned_eq_0_iff)
    then show "sub_entry V c j ! 0 = 0" using fresh_dir_entry [of j V c, OF ij(2) assms] by (simp add: DIR_ENTRY_def)
  qed
qed

lemma mkdir_sound:
  assumes V: "volume_sound V" and i: "i < ROOT_ENTRIES" "\<not> live (root_entry V i)" "\<forall>j<i. live (root_entry V j)"
    and c: "2 \<le> c" "c < CLUSTER_SCAN" "fat_entry V c = 0" and n: "length name = 11" "\<not> marker (name ! 0)"
    and new: "\<forall>j. present V (Root j) \<longrightarrow> ent_name (root_entry V j) \<noteq> name"
    and V': "V' = root_upd i (new_entry name c 0 ATTR_DIR) ((fat_upd c 0xffff V)(data_lba c := fresh_dir c))"
  shows "volume_sound V'" and "\<And>p. present V' p \<longleftrightarrow> p = Root i \<or> present V p"
    and "\<And>p. present V p \<Longrightarrow> entry_at V' p = entry_at V p \<and> contents V' p = contents V p"
    and "root_entry V' i = new_entry name c 0 ATTR_DIR"
proof -
  let ?e = "new_entry name c 0 ATTR_DIR" and ?W = "(fat_upd c 0xffff V)(data_lba c := fresh_dir c)"
  have sz: "sized V" "sized ?W" using soundD(1) [OF V] by auto
  have roots: "root_entry V' j = (if j = i then ?e else root_entry V j)" if "j < ROOT_ENTRIES" for j
    using root_entry_root_upd [OF sz(2) _ i(1) that, of ?e] n c that by (simp add: V')
  have table: "fat_entry V' d = (if d = c then 0xffff else fat_entry V d)" if "d < CLUSTER_SCAN" for d
    using fat_entry_fat_upd [OF sz(1) c(2) that] that i(1) c(1) by (simp add: V')
  have sectors: "V' (data_lba d) = V (data_lba d)" if "2 \<le> d" "d \<noteq> c" for d
    using that i(1) c data_lba_inj [of d c] by (simp add: V')
  have ok: "sized V'" "mirrored V'"
    using sz n soundD(2) [OF V] c i(1) unfolding V' by (auto intro!: mirrored_upd)
  have before: "\<forall>j<i. root_entry V j ! 0 \<noteq> 0" using i(3) by (simp add: live_def)
  have e: "live ?e" "ent_cluster ?e = c" "ent_size ?e = 0" "ent_name ?e = name"
    using n live_name [OF n(1), of ?e] by (simp_all add: new_entry_fields)
  have dir: "V' (data_lba c) = fresh_dir c" using c(1) i(1) by (simp add: V')
  note add = sound_add [OF V ok i(1,2) before c roots table sectors e(1-3)]
  show "volume_sound V'" "\<And>p. present V' p \<longleftrightarrow> p = Root i \<or> present V p"
    "\<And>p. present V p \<Longrightarrow> entry_at V' p = entry_at V p \<and> contents V' p = contents V p"
    by (rule add; use new e fresh_dir_empty [of V' c, OF dir] in simp)+
  show "root_entry V' i = ?e" using roots [OF i(1)] by simp
qed

text \<open>Writing replaces the contents of one file and leaves every other place as it was.\<close>

lemma write_sound:
  assumes V: "volume_sound V" and i: "present V (Root i)" "\<not> is_dir (ent_attr (root_entry V i))"
    and c: "c = cluster_at V (Root i)" and b: "length bytes \<le> SECTOR_BYTES"
    and V1: "V1 = V(data_lba c := patch 0 bytes (V (data_lba c)))"
    and V': "V' = root_upd i (patch 28 (le32 (of_nat (length bytes))) (root_entry V1 i)) V1"
  shows "volume_sound V'" and "\<And>p. present V' p \<longleftrightarrow> present V p"
    and "\<And>p. present V p \<Longrightarrow> p \<noteq> Root i \<Longrightarrow> entry_at V' p = entry_at V p \<and> contents V' p = contents V p"
    and "contents V' (Root i) = bytes" and "ent_name (root_entry V' i) = ent_name (root_entry V i)"
    and "root_entry V' i = patch 28 (le32 (of_nat (length bytes))) (root_entry V i)"
proof -
  have i512: "i < ROOT_ENTRIES" using i(1) by simp
  have c2: "2 \<le> c" "c < CLUSTER_SCAN" using soundD(6,7) [OF V i(1)] c by simp_all
  have sz: "sized V" "sized V1" using soundD(1) [OF V] b unfolding V1 by (auto simp: sized_def)
  have V1r: "root_entry V1 j = root_entry V j" if "j < ROOT_ENTRIES" for j using that c2 by (simp add: V1)
  let ?e = "patch 28 (le32 (of_nat (length bytes))) (root_entry V i)"
  have len: "length (root_entry V i) = DIR_ENTRY" using root_entry_length [OF sz(1)] .
  have lene: "length ?e = DIR_ENTRY" using len by (simp add: DIR_ENTRY_def)
  have V'e: "V' = root_upd i ?e V1" using V1r [OF i512] by (simp add: V')
  have roots: "root_entry V' j = (if j = i then ?e else root_entry V j)" if "j < ROOT_ENTRIES" for j
    using root_entry_root_upd [OF sz(2) lene i512 that] V1r [OF that] by (simp add: V'e)
  have table: "fat_entry V' d = fat_entry V d" if "d < CLUSTER_SCAN" for d
    using that i512 c2 by (simp add: V'e V1)
  have sectors: "V' (data_lba d) = V (data_lba d)" if "2 \<le> d" "d \<noteq> c \<or> is_dir (ent_attr ?e)" for d
    using that i512 i(2) c2 data_lba_inj [of d c] sized_entry_fields(4) [OF len] by (auto simp: V'e V1)
  have ok: "sized V'" "mirrored V'"
    using sz lene soundD(2) [OF V] c2 i512 unfolding V'e V1 by (auto intro!: mirrored_upd)
  have small: "unat (of_nat (length bytes) :: u32) = length bytes" using b by (simp add: SECTOR_BYTES_def unat_of_nat)
  have e: "live ?e" "ent_cluster ?e = c" "ent_attr ?e = ent_attr (root_entry V i)" "unat (ent_size ?e) \<le> SECTOR_BYTES"
    using i(1) c b small by (simp_all add: sized_entry_fields [OF len] live_def cluster_at_def)
  have name: "ent_name (root_entry V j) \<noteq> ent_name ?e" if "present V (Root j)" "j \<noteq> i" for j
    using soundD(5) [OF V that(1) i(1)] that(2) by (auto simp: sized_entry_fields [OF len])
  note change = sound_change [OF V ok i(1) c roots table sectors e name]
  show "volume_sound V'" "\<And>p. present V' p \<longleftrightarrow> present V p"
    "\<And>p. present V p \<Longrightarrow> p \<noteq> Root i \<Longrightarrow> entry_at V' p = entry_at V p \<and> contents V' p = contents V p"
    by (rule change; simp)+
  show re: "root_entry V' i = ?e" using roots [OF i512] by simp
  show "ent_name (root_entry V' i) = ent_name (root_entry V i)" by (simp add: re sized_entry_fields [OF len])
  have "V' (data_lba c) = patch 0 bytes (V (data_lba c))" using c2 i512 by (simp add: V'e V1)
  then show "contents V' (Root i) = bytes"
    using small e(2) by (simp add: contents_def cluster_at_def re sized_entry_fields [OF len]) (simp add: patch_def)
qed

lemma rename_sound:
  assumes V: "volume_sound V" and i: "present V (Root i)" and n: "length name = 11" "\<not> marker (name ! 0)"
    and new: "\<forall>j. present V (Root j) \<and> j \<noteq> i \<longrightarrow> ent_name (root_entry V j) \<noteq> name"
    and V': "V' = root_upd i (patch 0 name (root_entry V i)) V"
  shows "volume_sound V'" and "\<And>p. present V' p \<longleftrightarrow> present V p"
    and "\<And>p. present V p \<Longrightarrow> p \<noteq> Root i \<Longrightarrow> entry_at V' p = entry_at V p \<and> contents V' p = contents V p"
    and "contents V' (Root i) = contents V (Root i)" and "root_entry V' i = patch 0 name (root_entry V i)"
proof -
  have i512: "i < ROOT_ENTRIES" using i(1) by simp
  have sz: "sized V" using soundD(1) [OF V] .
  let ?e = "patch 0 name (root_entry V i)"
  have len: "length (root_entry V i) = DIR_ENTRY" using root_entry_length [OF sz] .
  have lene: "length ?e = DIR_ENTRY" using len n by (simp add: DIR_ENTRY_def)
  have roots: "root_entry V' j = (if j = i then ?e else root_entry V j)" if "j < ROOT_ENTRIES" for j
    using root_entry_root_upd [OF sz lene i512 that] by (simp add: V')
  have table: "fat_entry V' d = fat_entry V d" if "d < CLUSTER_SCAN" for d using that i512 by (simp add: V')
  have sectors: "V' (data_lba d) = V (data_lba d)" if "2 \<le> d" for d using that i512 by (simp add: V')
  have ok: "sized V'" "mirrored V'" using sz lene soundD(2) [OF V] i512 unfolding V' by (auto intro!: mirrored_upd)
  have e: "live ?e" "ent_cluster ?e = cluster_at V (Root i)" "ent_attr ?e = ent_attr (root_entry V i)"
    "unat (ent_size ?e) \<le> SECTOR_BYTES" "ent_name ?e = name"
    using soundD(9) [OF V i] live_name [OF n(1), of ?e] n(2) by (simp_all add: renamed_entry_fields [OF len n(1)] cluster_at_def)
  note change = sound_change [OF V ok i(1) refl roots table sectors e(1-4)]
  show "volume_sound V'" "\<And>p. present V' p \<longleftrightarrow> present V p"
    "\<And>p. present V p \<Longrightarrow> p \<noteq> Root i \<Longrightarrow> entry_at V' p = entry_at V p \<and> contents V' p = contents V p"
    by (rule change; use new e(5) in simp)+
  show re: "root_entry V' i = ?e" using roots [OF i512] by simp
  have "2 \<le> cluster_at V (Root i)" using soundD(6) [OF V i] .
  then show "contents V' (Root i) = contents V (Root i)"
    using sectors by (simp add: contents_def cluster_at_def re renamed_entry_fields [OF len n(1)])
qed

lemma remove_sound:
  assumes V: "volume_sound V" and i: "present V (Root i)" and c: "c = cluster_at V (Root i)"
    and empty: "is_dir (ent_attr (root_entry V i)) \<longrightarrow> empty_spec (sub_entry V c) sub_indices"
    and V': "V' = root_upd i (patch 0 [0xe5] (root_entry V i)) (fat_upd c 0 V)"
  shows "volume_sound V'" and "\<And>p. present V' p \<longleftrightarrow> present V p \<and> p \<noteq> Root i"
    and "\<And>p. present V p \<Longrightarrow> p \<noteq> Root i \<Longrightarrow> entry_at V' p = entry_at V p \<and> contents V' p = contents V p"
proof -
  have i512: "i < ROOT_ENTRIES" using i(1) by simp
  have c2: "2 \<le> c" "c < CLUSTER_SCAN" using soundD(6,7) [OF V i(1)] c by simp_all
  have sz: "sized V" "sized (fat_upd c 0 V)" using soundD(1) [OF V] by auto
  let ?e = "patch 0 [0xe5] (root_entry V i)"
  have len: "length (root_entry V i) = DIR_ENTRY" using root_entry_length [OF sz(1)] .
  have lene: "length ?e = DIR_ENTRY" using len by (simp add: DIR_ENTRY_def)
  have roots: "root_entry V' j = (if j = i then ?e else root_entry V j)" if "j < ROOT_ENTRIES" for j
    using root_entry_root_upd [OF sz(2) lene i512 that] c2 that by (simp add: V')
  have table: "fat_entry V' d = (if d = c then 0 else fat_entry V d)" if "d < CLUSTER_SCAN" for d
    using fat_entry_fat_upd [OF sz(1) c2(2) that] that i512 by (simp add: V')
  have sectors: "V' (data_lba d) = V (data_lba d)" if "2 \<le> d" for d using that i512 c2 by (simp add: V')
  have ok: "sized V'" "mirrored V'"
    using sz lene soundD(2) [OF V] c2 i512 unfolding V' by (auto intro!: mirrored_upd)
  have none: "\<forall>j<ENTRIES_PER_SECTOR. live (sub_entry V c j) \<longrightarrow> is_dot (sub_entry V c j)"
    if "is_dir (ent_attr (root_entry V i))"
    using empty_sub_none [OF mp [OF empty that] soundD(4) [OF V, of i c]] i c that by (auto simp: dir_at_present)
  note remove = sound_remove [OF V ok i c none roots table sectors deleted_entry [OF len]]
  show "volume_sound V'" "\<And>p. present V' p \<longleftrightarrow> present V p \<and> p \<noteq> Root i"
    "\<And>p. present V p \<Longrightarrow> p \<noteq> Root i \<Longrightarrow> entry_at V' p = entry_at V p \<and> contents V' p = contents V p"
    by (rule remove; simp)+
qed

end
