(* ===== verification/FatTree.thy ===== *)
theory FatTree
  imports FatFiles
begin

text \<open>
  What a volume means: a finite tree of named files and directories, two levels deep. \<open>tree V\<close>
  maps the packed names of the root directory to files with their bytes and to directories with
  the files in them. The lemmas say how the tree changes under the changes of \<open>FatFiles\<close>.
\<close>

datatype node = File "u8 list" | Dir "u8 list \<rightharpoonup> u8 list"

definition children :: "volume \<Rightarrow> u16 \<Rightarrow> u8 list \<rightharpoonup> u8 list" where
  "children V c = (\<lambda>n. case find_spec (sub_entry V c) n sub_indices of
     Hit k \<Rightarrow> if is_dot (sub_entry V c (hit_index k)) then None
       else Some (take (unat (hit_size k)) (V (data_lba (hit_cluster k))))
   | _ \<Rightarrow> None)"

definition node_at :: "volume \<Rightarrow> u16 \<Rightarrow> node" where
  "node_at V i = (if is_dir (ent_attr (root_entry V i)) then Dir (children V (cluster_at V (Root i)))
     else File (contents V (Root i)))"

definition tree :: "volume \<Rightarrow> u8 list \<rightharpoonup> node" where
  "tree V n = (case find_spec (root_entry V) n root_indices of Hit h \<Rightarrow> Some (node_at V (hit_index h)) | _ \<Rightarrow> None)"

subsection \<open>Finding names\<close>

lemma find_sound_hit:
  assumes V: "volume_sound V" and i: "present V (Root i)" "ent_name (root_entry V i) = n"
  shows "find_spec (root_entry V) n root_indices = Hit (hit_from i (root_entry V i))"
proof (rule find_root_hit [OF soundD(3) [OF V]])
  show "j = i" if "j < ROOT_ENTRIES" "live (root_entry V j)" "ent_name (root_entry V j) = n" for j
    using soundD(5) [OF V, of j i] i that by simp
qed (use i in simp_all)

lemma find_sound_missing:
  assumes V: "volume_sound V" and none: "\<And>i. present V (Root i) \<Longrightarrow> ent_name (root_entry V i) \<noteq> n"
  shows "find_spec (root_entry V) n root_indices = Missing"
proof (cases "find_spec (root_entry V) n root_indices")
  case (Hit h)
  then obtain i where "i < ROOT_ENTRIES" "live (root_entry V i)" "ent_name (root_entry V i) = n"
    using find_spec_hit [OF Hit] by (auto simp: u16_range_set)
  then show ?thesis using none [of i] by simp
qed simp_all

lemma find_sound_cases:
  assumes V: "volume_sound V"
  obtains i where "present V (Root i)" "ent_name (root_entry V i) = n"
      "find_spec (root_entry V) n root_indices = Hit (hit_from i (root_entry V i))" "tree V n = Some (node_at V i)"
  | "\<And>i. present V (Root i) \<Longrightarrow> ent_name (root_entry V i) \<noteq> n" "find_spec (root_entry V) n root_indices = Missing"
      "tree V n = None"
proof (cases "\<exists>i. present V (Root i) \<and> ent_name (root_entry V i) = n")
  case True
  then obtain i where i: "present V (Root i)" "ent_name (root_entry V i) = n" by blast
  show ?thesis by (rule that(1) [OF i]) (simp_all add: find_sound_hit [OF V i] tree_def)
next
  case False
  then have none: "\<And>i. present V (Root i) \<Longrightarrow> ent_name (root_entry V i) \<noteq> n" by blast
  have m: "find_spec (root_entry V) n root_indices = Missing" using V none by (rule find_sound_missing)
  show ?thesis by (rule that(2) [OF none]) (simp_all add: m tree_def)
qed

lemma tree_at: "volume_sound V \<Longrightarrow> present V (Root i) \<Longrightarrow> tree V (ent_name (root_entry V i)) = Some (node_at V i)"
  by (simp add: tree_def find_sound_hit)

subsection \<open>Changes\<close>

lemma children_same:
  assumes V: "volume_sound V" and d: "dir_at V i c" and s: "V' (data_lba c) = V (data_lba c)"
    and p: "\<And>c j. present V (Sub c j) \<Longrightarrow> entry_at V' (Sub c j) = entry_at V (Sub c j) \<and> contents V' (Sub c j) = contents V (Sub c j)"
  shows "children V' c = children V c"
proof (rule ext)
  fix n
  have sub: "sub_entry V' c = sub_entry V c" using sub_same [of V' c V, OF s] .
  show "children V' c n = children V c n"
  proof (cases "find_spec (sub_entry V c) n sub_indices")
    case (Hit k)
    then obtain j where j: "j < ENTRIES_PER_SECTOR" "k = hit_from j (sub_entry V c j)" "live (sub_entry V c j)"
      using find_spec_hit [OF Hit] by (auto simp: u16_range_set)
    have "contents V' (Sub c j) = contents V (Sub c j)" if "\<not> is_dot (sub_entry V c j)"
      using p [of c j] d j that by auto
    then show ?thesis
      using Hit j(2) by (auto simp: children_def sub contents_def cluster_at_def)
  qed (simp_all add: children_def sub)
qed

lemma node_same:
  assumes V: "volume_sound V" and i: "present V (Root i)"
    and e: "root_entry V' i = root_entry V i" "contents V' (Root i) = contents V (Root i)"
    and s: "\<And>c. dir_at V i c \<Longrightarrow> V' (data_lba c) = V (data_lba c)"
    and p: "\<And>c j. present V (Sub c j) \<Longrightarrow> entry_at V' (Sub c j) = entry_at V (Sub c j) \<and> contents V' (Sub c j) = contents V (Sub c j)"
  shows "node_at V' i = node_at V i"
proof (cases "is_dir (ent_attr (root_entry V i))")
  case True
  then have d: "dir_at V i (cluster_at V (Root i))" using i by (simp add: dir_at_present)
  then show ?thesis using True children_same [OF V d s [OF d] p] e(1) by (simp add: node_at_def cluster_at_def)
qed (simp add: node_at_def e)

text \<open>A volume that differs from a sound one in one root entry.\<close>

lemma tree_add:
  assumes V: "volume_sound V" and V': "volume_sound V'"
    and pres: "\<And>j. present V' (Root j) \<longleftrightarrow> j = i \<or> present V (Root j)" and i: "\<not> present V (Root i)"
    and same: "\<And>j. present V (Root j) \<Longrightarrow> root_entry V' j = root_entry V j \<and> node_at V' j = node_at V j"
    and n: "ent_name (root_entry V' i) = n"
  shows "tree V' = (tree V)(n \<mapsto> node_at V' i)"
proof (rule ext)
  fix m
  have pi: "present V' (Root i)" using pres by simp
  show "tree V' m = ((tree V)(n \<mapsto> node_at V' i)) m"
  proof (cases "m = n")
    case True
    then show ?thesis using tree_at [OF V' pi] n by simp
  next
    case False
    show ?thesis
    proof (rule find_sound_cases [OF V, of m])
      fix j assume j: "present V (Root j)" "ent_name (root_entry V j) = m" "tree V m = Some (node_at V j)"
      then have "tree V' m = Some (node_at V' j)" using tree_at [OF V', of j] same [OF j(1)] pres [of j] by simp
      then show ?thesis using False j(3) same [OF j(1)] by simp
    next
      assume none: "\<And>j. present V (Root j) \<Longrightarrow> ent_name (root_entry V j) \<noteq> m" and t: "tree V m = None"
      have "ent_name (root_entry V' j) \<noteq> m" if "present V' (Root j)" for j
        using that pres same none n False by metis
      then show ?thesis using t False find_sound_missing [OF V', of m] by (simp add: tree_def)
    qed
  qed
qed

lemma tree_remove:
  assumes V: "volume_sound V" and V': "volume_sound V'"
    and pres: "\<And>j. present V' (Root j) \<longleftrightarrow> present V (Root j) \<and> j \<noteq> i" and i: "present V (Root i)"
    and same: "\<And>j. present V (Root j) \<Longrightarrow> j \<noteq> i \<Longrightarrow> root_entry V' j = root_entry V j \<and> node_at V' j = node_at V j"
  shows "tree V' = (tree V)(ent_name (root_entry V i) := None)"
proof (rule ext)
  fix m
  show "tree V' m = ((tree V)(ent_name (root_entry V i) := None)) m"
  proof (rule find_sound_cases [OF V, of m])
    fix j assume j: "present V (Root j)" "ent_name (root_entry V j) = m" "tree V m = Some (node_at V j)"
    show ?thesis
    proof (cases "j = i")
      case True
      have "ent_name (root_entry V' k) \<noteq> m" if "present V' (Root k)" for k
        using that pres same soundD(5) [OF V, of k i] i j True by metis
      then show ?thesis using j(2) True find_sound_missing [OF V', of m] by (simp add: tree_def)
    next
      case False
      then have "tree V' m = Some (node_at V' j)" using tree_at [OF V', of j] same [OF j(1)] pres [of j] j by simp
      moreover have "m \<noteq> ent_name (root_entry V i)" using soundD(5) [OF V j(1) i] j(2) False by auto
      ultimately show ?thesis using False j(3) same [OF j(1)] by simp
    qed
  next
    assume none: "\<And>j. present V (Root j) \<Longrightarrow> ent_name (root_entry V j) \<noteq> m" and t: "tree V m = None"
    have "ent_name (root_entry V' j) \<noteq> m" if "present V' (Root j)" for j using that pres same none by metis
    then show ?thesis using t find_sound_missing [OF V', of m] by (simp add: tree_def)
  qed
qed

lemma tree_change:
  assumes V: "volume_sound V" and V': "volume_sound V'"
    and pres: "\<And>j. present V' (Root j) \<longleftrightarrow> present V (Root j)" and i: "present V (Root i)"
    and same: "\<And>j. present V (Root j) \<Longrightarrow> j \<noteq> i \<Longrightarrow> root_entry V' j = root_entry V j \<and> node_at V' j = node_at V j"
  shows "tree V' = (tree V)(ent_name (root_entry V i) := None, ent_name (root_entry V' i) \<mapsto> node_at V' i)"
proof (rule ext)
  fix m
  have pi: "present V' (Root i)" using pres i by blast
  show "tree V' m = ((tree V)(ent_name (root_entry V i) := None, ent_name (root_entry V' i) \<mapsto> node_at V' i)) m"
  proof (cases "m = ent_name (root_entry V' i)")
    case True
    then show ?thesis using tree_at [OF V' pi] by simp
  next
    case m': False
    show ?thesis
    proof (rule find_sound_cases [OF V, of m])
      fix j assume j: "present V (Root j)" "ent_name (root_entry V j) = m" "tree V m = Some (node_at V j)"
      show ?thesis
      proof (cases "j = i")
        case True
        have "ent_name (root_entry V' k) \<noteq> m" if "present V' (Root k)" for k
          using that pres same soundD(5) [OF V, of k i] i j True m' by metis
        then show ?thesis using j(2) True m' find_sound_missing [OF V', of m] by (simp add: tree_def)
      next
        case False
        then have "tree V' m = Some (node_at V' j)" using tree_at [OF V', of j] same [OF j(1)] pres [of j] j by simp
        moreover have "m \<noteq> ent_name (root_entry V i)" using soundD(5) [OF V j(1) i] j(2) False by auto
        ultimately show ?thesis using False j(3) m' same [OF j(1)] by simp
      qed
    next
      assume none: "\<And>j. present V (Root j) \<Longrightarrow> ent_name (root_entry V j) \<noteq> m" and t: "tree V m = None"
      have "ent_name (root_entry V' j) \<noteq> m" if "present V' (Root j)" for j using that pres same none m' by metis
      then show ?thesis using t m' find_sound_missing [OF V', of m] by (simp add: tree_def)
    qed
  qed
qed

lemma create_tree:
  assumes V: "volume_sound V" and i: "i < ROOT_ENTRIES" "\<not> live (root_entry V i)" "\<forall>j<i. live (root_entry V j)"
    and c: "2 \<le> c" "c < CLUSTER_SCAN" "fat_entry V c = 0" and n: "length name = 11" "\<not> marker (name ! 0)"
    and new: "\<forall>j. present V (Root j) \<longrightarrow> ent_name (root_entry V j) \<noteq> name"
    and V': "V' = root_upd i (new_entry name c 0 ATTR_ARCHIVE) (fat_upd c 0xffff V)"
  shows "tree V' = (tree V)(name \<mapsto> File [])"
proof -
  note cs = create_sound [OF V i c n new V']
  have s: "V' (data_lba d) = V (data_lba d)" if "2 \<le> d" for d using that i(1) c(2) by (simp add: V')
  have d2: "2 \<le> d" if "dir_at V j d" for j d using soundD(6) [OF V, of "Root j"] that by (auto simp: dir_at_present)
  have node: "node_at V' j = node_at V j" "root_entry V' j = root_entry V j" if "present V (Root j)" for j
    using cs(3) [OF that] cs(3) s d2 by (auto intro!: node_same [OF V that])
  have pres: "present V' (Root j) \<longleftrightarrow> j = i \<or> present V (Root j)" for j
    using cs(2) [of "Root j"] by (simp del: present.simps)
  have ni: "\<not> present V (Root i)" using i(2) by simp
  have "node_at V' i = File []"
    using n by (simp add: node_at_def cs(4) new_entry_fields is_dir_def ATTR_ARCHIVE_def ATTR_DIR_def contents_def)
  then show ?thesis
    using tree_add [OF V cs(1) pres ni _ refl] cs(4) node n by (simp add: new_entry_fields)
qed

lemma fresh_dir_children: "V (data_lba c) = fresh_dir c \<Longrightarrow> children V c = Map.empty"
proof -
  assume s: "V (data_lba c) = fresh_dir c"
  have "is_dot (sub_entry V c (hit_index h))" if "find_spec (sub_entry V c) n sub_indices = Hit h" for n h
    using find_spec_hit [OF that] fresh_dir_empty(1) [of V c, OF s] by (auto simp: u16_range_set)
  then show ?thesis by (auto simp: children_def fun_eq_iff split: Scan.splits)
qed

lemma mkdir_tree:
  assumes V: "volume_sound V" and i: "i < ROOT_ENTRIES" "\<not> live (root_entry V i)" "\<forall>j<i. live (root_entry V j)"
    and c: "2 \<le> c" "c < CLUSTER_SCAN" "fat_entry V c = 0" and n: "length name = 11" "\<not> marker (name ! 0)"
    and new: "\<forall>j. present V (Root j) \<longrightarrow> ent_name (root_entry V j) \<noteq> name"
    and V': "V' = root_upd i (new_entry name c 0 ATTR_DIR) ((fat_upd c 0xffff V)(data_lba c := fresh_dir c))"
  shows "tree V' = (tree V)(name \<mapsto> Dir Map.empty)"
proof -
  note cs = mkdir_sound [OF V i c n new V']
  have s: "V' (data_lba d) = V (data_lba d)" if "dir_at V j d" for j d
  proof -
    have p: "present V (Root j)" "cluster_at V (Root j) = d" using that by (simp_all add: dir_at_present)
    then have "2 \<le> d" "d \<noteq> c" using soundD(6,8) [OF V p(1)] c(3) by auto
    then show ?thesis using i(1) c data_lba_inj [of d c] by (simp add: V')
  qed
  have node: "node_at V' j = node_at V j" "root_entry V' j = root_entry V j" if "present V (Root j)" for j
    using cs(3) [OF that] cs(3) s by (auto intro!: node_same [OF V that])
  have pres: "present V' (Root j) \<longleftrightarrow> j = i \<or> present V (Root j)" for j
    using cs(2) [of "Root j"] by (simp del: present.simps)
  have ni: "\<not> present V (Root i)" using i(2) by simp
  have "V' (data_lba c) = fresh_dir c" using c(1) i(1) by (simp add: V')
  then have "node_at V' i = Dir Map.empty"
    using n by (simp add: node_at_def cs(4) new_entry_fields is_dir_def ATTR_DIR_def cluster_at_def fresh_dir_children)
  then show ?thesis
    using tree_add [OF V cs(1) pres ni _ refl] cs(4) node n by (simp add: new_entry_fields)
qed

lemma write_tree:
  assumes V: "volume_sound V" and i: "present V (Root i)" "\<not> is_dir (ent_attr (root_entry V i))"
    and c: "c = cluster_at V (Root i)" and b: "length bytes \<le> SECTOR_BYTES"
    and V1: "V1 = V(data_lba c := patch 0 bytes (V (data_lba c)))"
    and V': "V' = root_upd i (patch 28 (le32 (of_nat (length bytes))) (root_entry V1 i)) V1"
  shows "tree V' = (tree V)(ent_name (root_entry V i) \<mapsto> File bytes)"
proof -
  note cs = write_sound [OF V i c b V1 V']
  have i512: "i < ROOT_ENTRIES" using i(1) by simp
  have s: "V' (data_lba d) = V (data_lba d)" if "dir_at V j d" for j d
  proof -
    have p: "present V (Root j)" "cluster_at V (Root j) = d" "is_dir (ent_attr (root_entry V j))"
      using that by (simp_all add: dir_at_present)
    have d: "2 \<le> d" "d \<noteq> c" using soundD(6) [OF V p(1)] soundD(11) [OF V p(1) i(1)] i(2) p c by auto
    then show ?thesis using i512 soundD(6) [OF V i(1)] data_lba_inj [of d c] by (simp add: V' V1 c)
  qed
  have node: "node_at V' j = node_at V j" "root_entry V' j = root_entry V j" if "present V (Root j)" "j \<noteq> i" for j
    using cs(3) [OF that(1)] cs(3) s that(2) by (auto intro!: node_same [OF V that(1)])
  have len: "length (root_entry V i) = DIR_ENTRY" using root_entry_length [OF soundD(1) [OF V]] .
  have "node_at V' i = File bytes"
    using i(2) cs(4) by (simp add: node_at_def cs(6) sized_entry_fields [OF len])
  then show ?thesis
    using tree_change [OF V cs(1) cs(2) i(1)] cs(5) node by simp
qed

lemma rename_tree:
  assumes V: "volume_sound V" and i: "present V (Root i)" and n: "length name = 11" "\<not> marker (name ! 0)"
    and new: "\<forall>j. present V (Root j) \<and> j \<noteq> i \<longrightarrow> ent_name (root_entry V j) \<noteq> name"
    and V': "V' = root_upd i (patch 0 name (root_entry V i)) V"
  shows "tree V' = (tree V)(ent_name (root_entry V i) := None, name := tree V (ent_name (root_entry V i)))"
proof -
  note cs = rename_sound [OF V i n new V']
  have i512: "i < ROOT_ENTRIES" using i(1) by simp
  have s: "V' (data_lba d) = V (data_lba d)" if "2 \<le> d" for d using that i512 by (simp add: V')
  have d2: "2 \<le> d" if "dir_at V j d" for j d using soundD(6) [OF V, of "Root j"] that by (auto simp: dir_at_present)
  have node: "node_at V' j = node_at V j" "root_entry V' j = root_entry V j" if "present V (Root j)" "j \<noteq> i" for j
    using cs(3) [OF that(1)] cs(3) s d2 that(2) by (auto intro!: node_same [OF V that(1)])
  have len: "length (root_entry V i) = DIR_ENTRY" using root_entry_length [OF soundD(1) [OF V]] .
  have "node_at V' i = node_at V i"
  proof (cases "is_dir (ent_attr (root_entry V i))")
    case True
    then have d: "dir_at V i (cluster_at V (Root i))" using i by (simp add: dir_at_present)
    have "children V' (cluster_at V (Root i)) = children V (cluster_at V (Root i))"
      by (rule children_same [where V' = V', OF V d s [OF d2 [OF d]]]) (use cs(3) in blast)
    then show ?thesis using True by (simp add: node_at_def cluster_at_def cs(5) renamed_entry_fields [OF len n(1)])
  next
    case False
    then show ?thesis using cs(4) by (simp add: node_at_def cs(5) renamed_entry_fields [OF len n(1)])
  qed
  then show ?thesis
    using tree_change [OF V cs(1) cs(2) i] node tree_at [OF V i] renamed_entry_fields(1) [OF len n(1)] cs(5) by simp
qed

lemma remove_tree:
  assumes V: "volume_sound V" and i: "present V (Root i)" and c: "c = cluster_at V (Root i)"
    and empty: "is_dir (ent_attr (root_entry V i)) \<longrightarrow> empty_spec (sub_entry V c) sub_indices"
    and V': "V' = root_upd i (patch 0 [0xe5] (root_entry V i)) (fat_upd c 0 V)"
  shows "tree V' = (tree V)(ent_name (root_entry V i) := None)"
proof -
  note cs = remove_sound [OF V i c empty V']
  have i512: "i < ROOT_ENTRIES" using i(1) by simp
  have c2: "c < CLUSTER_SCAN" using soundD(7) [OF V i(1)] c by simp
  have s: "V' (data_lba d) = V (data_lba d)" if "2 \<le> d" for d using that i512 c2 by (simp add: V')
  have d2: "2 \<le> d" if "dir_at V j d" for j d using soundD(6) [OF V, of "Root j"] that by (auto simp: dir_at_present)
  have node: "node_at V' j = node_at V j" "root_entry V' j = root_entry V j" if "present V (Root j)" "j \<noteq> i" for j
    using cs(3) [OF that(1)] cs(3) s d2 that(2) by (auto intro!: node_same [OF V that(1)])
  have pres: "present V' (Root j) \<longleftrightarrow> present V (Root j) \<and> j \<noteq> i" for j
    using cs(2) [of "Root j"] by (simp del: present.simps)
  show ?thesis by (rule tree_remove [OF V cs(1) pres i]) (use node in blast)
qed

text \<open>The emptiness test agrees with the tree.\<close>

lemma empty_children:
  assumes "terminated (sub_entry V c) ENTRIES_PER_SECTOR"
  shows "empty_spec (sub_entry V c) sub_indices \<longleftrightarrow> children V c = Map.empty"
proof
  assume e: "empty_spec (sub_entry V c) sub_indices"
  have "is_dot (sub_entry V c (hit_index h))" if "find_spec (sub_entry V c) n sub_indices = Hit h" for n h
    using find_spec_hit [OF that] empty_sub_none [OF e assms] by (auto simp: u16_range_set)
  then show "children V c = Map.empty" by (auto simp: children_def fun_eq_iff split: Scan.splits)
next
  assume e: "children V c = Map.empty"
  have *: "empty_spec ent is" if "\<forall>j\<in>set is. live (ent j) \<longrightarrow> is_dot (ent j)" for ent "is"
    using that by (induction "is") (auto simp: live_def)
  have "is_dot (sub_entry V c j)" if j: "j < ENTRIES_PER_SECTOR" "live (sub_entry V c j)" for j
  proof (cases "find_spec (sub_entry V c) (ent_name (sub_entry V c j)) sub_indices")
    case (Hit k)
    then obtain l where l: "l < ENTRIES_PER_SECTOR" "k = hit_from l (sub_entry V c l)" "ent_name (sub_entry V c l) = ent_name (sub_entry V c j)"
      using find_spec_hit [OF Hit] by (auto simp: u16_range_set)
    have "is_dot (sub_entry V c l)"
      using fun_cong [OF e, of "ent_name (sub_entry V c j)"] Hit l(2) by (auto simp: children_def split: if_splits)
    moreover have "sub_entry V c l ! 0 = sub_entry V c j ! 0" "sub_entry V c l ! 1 = sub_entry V c j ! 1"
      using l(3) unfolding ent_name_def by (metis nth_take zero_less_numeral, metis nth_take one_less_numeral_iff semiring_norm(77))
    ultimately show ?thesis by (simp add: is_dot_def)
  next
    case Missing
    then show ?thesis using find_root_missing [OF Missing assms j] by simp
  qed simp
  then show "empty_spec (sub_entry V c) sub_indices" by (intro *) (auto simp: u16_range_set)
qed

end
