(* ===== verification/FatRun.thy ===== *)
theory FatRun
  imports FatTree
begin

text \<open>
  The handlers as operations on the tree of files, over a working device. \<open>result\<close> says that a
  handler returns \<open>true\<close> (the worker goes on), leaves the server healthy and puts exactly one
  completion on the ring, whose status and data satisfy the specification; a completion with an error
  carries no data.
\<close>

definition result :: "'d dev \<Rightarrow> 'd fat \<Rightarrow> u64 \<Rightarrow> (bool \<times> 'd fat) option \<Rightarrow> (u64 \<Rightarrow> u64 \<Rightarrow> 'd fat \<Rightarrow> bool) \<Rightarrow> bool" where
  "result D s rid r Q \<longleftrightarrow> finishes r (\<lambda>ok s'. ok \<and> healthy D s' \<and>
     (\<exists>n st w. cmpl_items (sh_completions (ft_shared s')) = drop n (cmpl_items (sh_completions (ft_shared s)))
        @ [\<lparr>cmpl_id = rid, cmpl_status = st, cmpl_data = w\<rparr>] \<and> (st \<noteq> FS_STATUS_SUCCESS \<longrightarrow> w = 0) \<and> Q st w s'))"

lemma result_mono: "result D s rid r Q \<Longrightarrow> (\<And>st w s'. Q st w s' \<Longrightarrow> R st w s') \<Longrightarrow> result D s rid r R"
  unfolding result_def by (auto elim!: finishes_mono)

lemma result_zero: "result D s rid r Q \<Longrightarrow> (\<And>st w s'. Q st w s' \<Longrightarrow> st \<noteq> FS_STATUS_SUCCESS \<longrightarrow> w = 0 \<Longrightarrow> R st w s') \<Longrightarrow> result D s rid r R"
  unfolding result_def by (auto elim!: finishes_mono)

lemma result_complete:
  assumes h: "healthy D s1" "room s1" and q: "sh_completions (ft_shared s1) = sh_completions (ft_shared s)"
    and Q: "\<And>s'. sect D s' = sect D s1 \<Longrightarrow> ft_file s' = ft_file s1 \<Longrightarrow> ft_dir s' = ft_dir s1 \<Longrightarrow>
      sh_share (ft_shared s') = sh_share (ft_shared s1) \<Longrightarrow> ft_past s' = ft_past s1 \<Longrightarrow> Q st (completion_word d) s'"
    and z: "st \<noteq> FS_STATUS_SUCCESS \<longrightarrow> completion_word d = 0"
  shows "result D s rid (Some (complete rid st d s1)) Q"
proof -
  have w: "working D s1" using h(1) by (simp add: healthy_def)
  obtain s' where s': "complete rid st d s1 = (True, s')" "working D s'" "sect D s' = sect D s1"
    "ft_file s' = ft_file s1" "ft_dir s' = ft_dir s1" "sh_share (ft_shared s') = sh_share (ft_shared s1)" "ft_past s' = ft_past s1"
    "cmpl_items (sh_completions (ft_shared s')) = cmpl_items (sh_completions (ft_shared s1))
      @ [\<lparr>cmpl_id = rid, cmpl_status = st, cmpl_data = completion_word d\<rparr>]"
    using complete_works [OF w h(2)] by metis
  have "healthy D s'" using h(1) s'(2-5) by (simp add: healthy_def)
  moreover have "\<exists>n st' w. cmpl_items (sh_completions (ft_shared s')) = drop n (cmpl_items (sh_completions (ft_shared s)))
      @ [\<lparr>cmpl_id = rid, cmpl_status = st', cmpl_data = w\<rparr>] \<and> (st' \<noteq> FS_STATUS_SUCCESS \<longrightarrow> w = 0) \<and> Q st' w s'"
    by (rule exI [of _ 0], rule exI [of _ st], rule exI [of _ "completion_word d"])
      (use Q [OF s'(3-7)] s'(8) q z in simp)
  ultimately show ?thesis by (simp add: result_def s'(1))
qed

lemma result_reply:
  assumes "stable D s"
    and "\<And>s'. sect D s' = sect D s \<Longrightarrow> ft_file s' = ft_file s \<Longrightarrow> ft_dir s' = ft_dir s \<Longrightarrow> Q st 0 s'"
  shows "result D s rid (reply rid st s) Q"
  unfolding reply_def by (rule result_complete) (use assms in \<open>auto simp: stable_def\<close>)

lemma result_edit:
  assumes "works D s r V x"
    and f: "\<And>s'. working D s' \<Longrightarrow> frame s s' \<Longrightarrow> sect D s' = V \<Longrightarrow> result D s' rid (f x s') Q"
  shows "result D s rid (r \<bind> (\<lambda>(x, s). f x s)) Q"
  unfolding result_def
proof (rule finishes_bindI, rule assms(1) [unfolded works_def], elim conjE)
  fix x' s' assume w: "working D s'" and fr: "frame s s'" and v: "sect D s' = V" and x: "x' = x"
  have "result D s' rid (f x s') Q" using w fr v by (rule f)
  moreover obtain n where "cmpl_items (sh_completions (ft_shared s')) = drop n (cmpl_items (sh_completions (ft_shared s)))"
    using fr by (auto simp: frame_def client_step_def)
  ultimately show "finishes (f x' s') (\<lambda>ok s'. ok \<and> healthy D s' \<and>
     (\<exists>n st w. cmpl_items (sh_completions (ft_shared s')) = drop n (cmpl_items (sh_completions (ft_shared s)))
        @ [\<lparr>cmpl_id = rid, cmpl_status = st, cmpl_data = w\<rparr>] \<and> (st \<noteq> FS_STATUS_SUCCESS \<longrightarrow> w = 0) \<and> Q st w s'))"
    unfolding result_def x by (auto elim!: finishes_mono)
qed

lemma result_scan:
  assumes "stable D s" and "works D s r (sect D s) x"
    and "\<And>s'. stable D s' \<Longrightarrow> sect D s' = sect D s \<Longrightarrow> ft_file s' = ft_file s \<Longrightarrow> ft_dir s' = ft_dir s \<Longrightarrow>
      ft_past s' = ft_past s \<Longrightarrow> result D s' rid (f x s') Q"
  shows "result D s rid (r \<bind> (\<lambda>(x, s). f x s)) Q"
  by (rule result_edit [OF assms(2)], rule assms(3))
    (use assms(1) stable_scan in \<open>auto simp: frame_def\<close>)

abbreviation files :: "'d dev \<Rightarrow> 'd fat \<Rightarrow> u8 list \<rightharpoonup> node" where
  "files D s \<equiv> tree (sect D s)"

definition silent :: "'d dev \<Rightarrow> 'd fat \<Rightarrow> 'd fat \<Rightarrow> bool" where
  "silent D s s' \<longleftrightarrow> sect D s' = sect D s \<and> ft_file s' = ft_file s \<and> ft_dir s' = ft_dir s"

subsection \<open>Opening\<close>

lemma healthy_file:
  "healthy D s \<Longrightarrow> (\<forall>f. x = Some f \<longrightarrow> file_sound (sect D s) f) \<Longrightarrow> healthy D (s\<lparr>ft_file := x\<rparr>)"
  by (simp add: healthy_def)

lemma healthy_dir: "healthy D s \<Longrightarrow> (\<forall>d. x = Some d \<longrightarrow> dir_sound d) \<Longrightarrow> healthy D (s\<lparr>ft_dir := x\<rparr>)"
  by (simp add: healthy_def)

definition open_spec :: "(u8 list \<rightharpoonup> node) \<Rightarrow> u8 list \<Rightarrow> bool \<Rightarrow> u64 \<Rightarrow> bool" where
  "open_spec t name busy st \<longleftrightarrow>
     (if busy then st = FS_STATUS_TOO_MANY_OPEN_FILES
      else case t name of None \<Rightarrow> st = FS_STATUS_NO_FILE | Some (Dir _) \<Rightarrow> st = FS_STATUS_ERROR
        | Some (File _) \<Rightarrow> st = FS_STATUS_SUCCESS)"

text \<open>The open file is the one of that name.\<close>

definition opened :: "'d dev \<Rightarrow> u8 list \<Rightarrow> 'd fat \<Rightarrow> bool" where
  "opened D name s \<longleftrightarrow> (\<exists>f i. ft_file s = Some f \<and> file_place (sect D s) f (Root i) \<and> ent_name (root_entry (sect D s) i) = name)"

lemma open_read_result:
  assumes st: "stable D s"
  shows "result D s rid (open_read rid name s) (\<lambda>st w s'. sect D s' = sect D s \<and> ft_dir s' = ft_dir s \<and>
    open_spec (files D s) name (ft_file s \<noteq> None) st \<and>
    (if st = FS_STATUS_SUCCESS then w = FD_FILE \<and> opened D name s' else ft_file s' = ft_file s))"
proof (cases "file_busy s")
  case True
  then show ?thesis
    using st by (auto simp: open_read_def file_busy_def open_spec_def fs_status_defs intro!: result_reply)
next
  case False
  have V: "volume_sound (sect D s)" using st by simp
  show ?thesis
    unfolding open_read_def using False
  proof (simp only: if_False, intro result_scan [OF st find_name_works], goal_cases)
    case (2 s')
    show ?case
    proof (rule find_sound_cases [OF V, of name])
      fix i assume i: "present (sect D s) (Root i)" "ent_name (root_entry (sect D s) i) = name"
        "find_spec (root_entry (sect D s)) name root_indices = Hit (hit_from i (root_entry (sect D s) i))"
        "tree (sect D s) name = Some (node_at (sect D s) i)"
      have c: "\<not> ent_cluster (root_entry (sect D s) i) < 2"
        using soundD(6) [OF V i(1)] by (simp add: cluster_at_def not_less)
      show ?thesis
      proof (cases "is_dir (ent_attr (root_entry (sect D s) i))")
        case True
        then show ?thesis
          using 2 i False by (auto intro!: result_reply simp: open_spec_def node_at_def file_busy_def fs_status_defs)
      next
        case nd: False
        let ?f = "\<lparr>fl_cluster = ent_cluster (root_entry (sect D s) i), fl_size = ent_size (root_entry (sect D s) i),
          fl_dir_index = i, fl_parent = 0\<rparr>"
        have p: "file_place (sect D s) ?f (Root i)" using i nd by (simp add: file_place_def cluster_at_def)
        then have "healthy D (s'\<lparr>ft_file := Some ?f\<rparr>)"
          using 2 by (intro healthy_file) (auto simp: stable_def file_sound_def)
        then show ?thesis
          using 2 i nd c p False
          by (auto intro!: result_complete simp: stable_def open_spec_def node_at_def file_busy_def opened_def fs_status_defs)
      qed
    next
      assume "find_spec (root_entry (sect D s)) name root_indices = Missing" "tree (sect D s) name = None"
      then show ?thesis using 2 False by (auto intro!: result_reply simp: open_spec_def file_busy_def fs_status_defs)
    qed
  qed (use st in simp)
qed

subsection \<open>Creating\<close>

text \<open>No free slot in the root directory or no free cluster.\<close>

definition volume_full :: "volume \<Rightarrow> bool" where
  "volume_full V \<longleftrightarrow> free_spec (root_entry V) root_indices = Missing \<or> alloc_spec V (u16_range 2 CLUSTER_SCAN) = Missing"

text \<open>A free slot and a free cluster for a new name.\<close>

definition reserved :: "volume \<Rightarrow> u8 list \<Rightarrow> u16 \<Rightarrow> u16 \<Rightarrow> bool" where
  "reserved V name i c \<longleftrightarrow> \<not> volume_full V \<and> i < ROOT_ENTRIES \<and> \<not> live (root_entry V i) \<and> (\<forall>j<i. live (root_entry V j))
     \<and> 2 \<le> c \<and> c < CLUSTER_SCAN \<and> fat_entry V c = 0 \<and> (\<forall>j. present V (Root j) \<longrightarrow> ent_name (root_entry V j) \<noteq> name)"

lemma reserve_result:
  assumes st: "stable D s"
    and exists: "\<And>s'. silent D s s' \<Longrightarrow> files D s name \<noteq> None \<Longrightarrow> Q FS_STATUS_ALREADY_EXISTS 0 s'"
    and full: "\<And>s'. silent D s s' \<Longrightarrow> files D s name = None \<Longrightarrow> volume_full (sect D s) \<Longrightarrow> Q FS_STATUS_DIRECTORY_IS_FULL 0 s'"
    and f: "\<And>i c s'. stable D s' \<Longrightarrow> silent D s s' \<Longrightarrow> files D s name = None \<Longrightarrow> reserved (sect D s) name i c \<Longrightarrow>
      result D s' rid (f i c s') Q"
  shows "result D s rid (reserve_file rid name s \<bind>
    (\<lambda>(r, s). case r of Inl done \<Rightarrow> Some (done, s) | Inr (slot, c) \<Rightarrow> f slot c s)) Q"
proof -
  let ?k = "\<lambda>(r, s). case r of Inl done \<Rightarrow> Some (done, s) | Inr (slot, c) \<Rightarrow> f slot c s"
  have stop: "stop_with r \<bind> ?k = r" for r
    by (cases r) (auto simp: stop_with_def)
  have V: "volume_sound (sect D s)" using st by simp
  let ?V = "sect D s"
  have "reserve_file rid name s \<bind> ?k = find_name name s \<bind> (\<lambda>(r, s). case r of
       Hit _ \<Rightarrow> reply rid FS_STATUS_ALREADY_EXISTS s | Failed \<Rightarrow> give_up rid s
     | Missing \<Rightarrow> find_free s \<bind> (\<lambda>(r, s). case r of
         Missing \<Rightarrow> reply rid FS_STATUS_DIRECTORY_IS_FULL s | Failed \<Rightarrow> give_up rid s
       | Hit slot \<Rightarrow> alloc_cluster s \<bind> (\<lambda>(r, s). case r of
           Hit cluster \<Rightarrow> f slot cluster s
         | Missing \<Rightarrow> reply rid FS_STATUS_DIRECTORY_IS_FULL s | Failed \<Rightarrow> give_up rid s)))"
    unfolding reserve_file_def
    by (auto intro!: Option.bind_cong [OF refl] simp: bind_assoc stop split: Scan.split)
  also have "result D s rid \<dots> Q"
  proof (rule result_scan [OF st find_name_works [OF stable_working [OF st]]])
    fix s1 assume s1: "stable D s1" "sect D s1 = ?V" "ft_file s1 = ft_file s" "ft_dir s1 = ft_dir s"
    show "result D s1 rid (case find_spec (root_entry ?V) name root_indices of
       Hit _ \<Rightarrow> reply rid FS_STATUS_ALREADY_EXISTS s1 | Failed \<Rightarrow> give_up rid s1
     | Missing \<Rightarrow> find_free s1 \<bind> (\<lambda>(r, s). case r of
         Missing \<Rightarrow> reply rid FS_STATUS_DIRECTORY_IS_FULL s | Failed \<Rightarrow> give_up rid s
       | Hit slot \<Rightarrow> alloc_cluster s \<bind> (\<lambda>(r, s). case r of
           Hit cluster \<Rightarrow> f slot cluster s
         | Missing \<Rightarrow> reply rid FS_STATUS_DIRECTORY_IS_FULL s | Failed \<Rightarrow> give_up rid s))) Q"
    proof (rule find_sound_cases [OF V, of name], goal_cases)
      case (1 i)
      then show ?case using s1 exists by (auto intro!: result_reply simp: silent_def)
    next
      case 2
      show ?case
        unfolding 2(2)
      proof (simp, intro result_scan [OF s1(1) find_free_works [OF stable_working [OF s1(1)]]], goal_cases)
        case (1 s2)
        show ?case
        proof (cases "free_spec (root_entry (sect D s1)) root_indices")
          case (Hit i)
          have i: "i < ROOT_ENTRIES" "\<not> live (root_entry ?V i)" "\<forall>j<i. live (root_entry ?V j)"
            using free_root_hit [OF Hit] s1(2) by simp_all
          show ?thesis
            unfolding Hit
          proof (simp, intro result_scan [OF 1(1) alloc_cluster_works [OF stable_working [OF 1(1)]]], goal_cases)
            case (1 s3)
            show ?case
            proof (cases "alloc_spec (sect D s2) (u16_range 2 CLUSTER_SCAN)")
              case (Hit c)
              have "reserved ?V name i c"
                using i alloc_hit [OF Hit] Hit \<open>free_spec (root_entry (sect D s1)) root_indices = Hit i\<close> 2(1)
                  \<open>sect D s2 = sect D s1\<close> s1(2) by (simp add: reserved_def volume_full_def)
              then show ?thesis
                unfolding Hit using 1 \<open>sect D s2 = sect D s1\<close> \<open>ft_file s2 = ft_file s1\<close> \<open>ft_dir s2 = ft_dir s1\<close> s1 2(3)
                by (auto intro!: f simp: silent_def)
            next
              case Missing
              then show ?thesis
                using 1 \<open>sect D s2 = sect D s1\<close> \<open>ft_file s2 = ft_file s1\<close> \<open>ft_dir s2 = ft_dir s1\<close> s1 2(3)
                by (auto intro!: result_reply full simp: silent_def volume_full_def)
            qed simp
          qed
        next
          case Missing
          then show ?thesis using 1 s1 2(3) by (auto intro!: result_reply full simp: silent_def volume_full_def)
        qed simp
      qed
    qed
  qed
  finally show ?thesis .
qed

definition add_spec :: "bool \<Rightarrow> (u8 list \<rightharpoonup> node) \<Rightarrow> u8 list \<Rightarrow> node \<Rightarrow> u64 \<Rightarrow> (u8 list \<rightharpoonup> node) \<Rightarrow> bool" where
  "add_spec full t name x st t' \<longleftrightarrow>
     (if t name \<noteq> None then st = FS_STATUS_ALREADY_EXISTS \<and> t' = t
      else if full then st = FS_STATUS_DIRECTORY_IS_FULL \<and> t' = t
      else st = FS_STATUS_SUCCESS \<and> t' = t(name \<mapsto> x))"

definition plain :: "u8 list \<Rightarrow> bool" where
  "plain name \<longleftrightarrow> length name = 11 \<and> \<not> marker (name ! 0)"

lemma stable_file:
  assumes "stable D s" and "ft_file s = Some f"
  obtains p where "file_place (sect D s) f p" "present (sect D s) p"
  using assms unfolding stable_def healthy_def file_sound_def file_place_def by blast

lemma file_sound_kept:
  "file_place V f p \<Longrightarrow> present V' p \<Longrightarrow> entry_at V' p = entry_at V p \<Longrightarrow> file_sound V' f"
  using file_place_same unfolding file_sound_def by blast

lemma changed_state:
  assumes "stable D s" and "working D s'" and "frame s s'"
  shows "room s'" and "\<forall>d. ft_dir s' = Some d \<longrightarrow> dir_sound d" and "working D s'"
proof -
  show "room s'" using room_frame assms unfolding stable_def by blast
  have "ft_dir s' = ft_dir s" using assms(3) by (simp add: frame_def)
  then show "\<forall>d. ft_dir s' = Some d \<longrightarrow> dir_sound d" using assms(1) unfolding stable_def healthy_def by simp
qed (fact assms(2))

lemma create_file_result:
  assumes st: "stable D s" and n: "plain name"
  shows "result D s rid (create_file rid name s) (\<lambda>st w s'. ft_dir s' = ft_dir s \<and>
    (if ft_file s \<noteq> None then st = FS_STATUS_TOO_MANY_OPEN_FILES \<and> sect D s' = sect D s
     else add_spec (volume_full (sect D s)) (files D s) name (File []) st (files D s')) \<and>
    (if st = FS_STATUS_SUCCESS then w = FD_FILE \<and> opened D name s' else ft_file s' = ft_file s))"
proof (cases "file_busy s")
  case True
  then show ?thesis using st by (auto simp: create_file_def file_busy_def fs_status_defs intro!: result_reply)
next
  case False
  then have none: "ft_file s = None" by (simp add: file_busy_def)
  have len: "length name = 11" and mk: "\<not> marker (name ! 0)" using n by (simp_all add: plain_def)
  show ?thesis
    unfolding create_file_def if_not_P [OF False]
  proof (rule reserve_result [OF st], goal_cases)
    case (3 i c s')
    let ?V = "sect D s"
    let ?V' = "root_upd i (new_entry name c 0 ATTR_ARCHIVE) (fat_upd c 0xffff ?V)"
    have V: "volume_sound ?V" using st by simp
    have s': "sect D s' = ?V" "ft_file s' = None" "ft_dir s' = ft_dir s" using 3(2) none by (simp_all add: silent_def)
    have r: "i < ROOT_ENTRIES" "\<not> live (root_entry ?V i)" "\<forall>j<i. live (root_entry ?V j)" "2 \<le> c" "c < CLUSTER_SCAN"
      "fat_entry ?V c = 0" "\<forall>j. present ?V (Root j) \<longrightarrow> ent_name (root_entry ?V j) \<noteq> name"
      using 3(4) by (simp_all add: reserved_def)
    note cs = create_sound [OF V r(1-6) len mk r(7) refl] and ct = create_tree [OF V r(1-6) len mk r(7) refl]
    have w: "works D s' (all_ok [set_fat c 0xffff, write_dir i name c 0 ATTR_ARCHIVE, flush_block] s') ?V' True"
      using stable_working [OF 3(1)] s'(1) r len set_fat_works [of D s' c "0xffff"]
      by (auto intro!: all_ok_works write_dir_works [THEN back_subst [of "\<lambda>V. works _ _ _ V True"]]
          flush_works [THEN back_subst [of "\<lambda>V. works _ _ _ V True"]] simp del: fun_upd_apply)
    show ?case
    proof (rule result_edit [OF w])
      fix s2 assume s2: "working D s2" "frame s' s2" "sect D s2 = ?V'"
      let ?f = "\<lparr>fl_cluster = c, fl_size = 0, fl_dir_index = i, fl_parent = 0\<rparr>"
      have p: "file_place ?V' ?f (Root i)"
        using cs(2) [of "Root i"] cs(4) len
        by (simp add: file_place_def cluster_at_def new_entry_fields is_dir_def ATTR_ARCHIVE_def ATTR_DIR_def)
      have h: "healthy D (s2\<lparr>ft_file := Some ?f\<rparr>)" "room (s2\<lparr>ft_file := Some ?f\<rparr>)"
        using changed_state [OF 3(1) s2(1,2)] s2(3) cs(1) p by (auto simp: healthy_def file_sound_def)
      show "result D s2 rid (if \<not> True then give_up rid s2 else Some (complete rid FS_STATUS_SUCCESS (CFd FD_FILE)
          (s2\<lparr>ft_file := Some ?f\<rparr>))) (\<lambda>st w s'. ft_dir s' = ft_dir s \<and>
          (if ft_file s \<noteq> None then st = FS_STATUS_TOO_MANY_OPEN_FILES \<and> sect D s' = sect D s
           else add_spec (volume_full (sect D s)) (files D s) name (File []) st (files D s')) \<and>
          (if st = FS_STATUS_SUCCESS then w = FD_FILE \<and> opened D name s' else ft_file s' = ft_file s))"
      proof (simp, rule result_complete [OF h], goal_cases)
        case (2 s3)
        then have "opened D name s3" "files D s3 = (files D s)(name \<mapsto> File [])"
          using p cs(4) len s2(3) ct by (auto simp: opened_def new_entry_fields intro!: exI [of _ ?f])
        then show ?case using 2 none 3(3) s2(2) s'(3) using 3(4) by (simp add: add_spec_def frame_def reserved_def)
      qed simp_all
    qed
  qed (use none in \<open>auto simp: add_spec_def silent_def fs_status_defs\<close>)
qed

text \<open>The chains of edits of the handlers, as changes of the volume.\<close>

lemma works_eq: "works D s r V x \<Longrightarrow> V = V' \<Longrightarrow> works D s r V' x"
  by simp

lemma mkdir_chain:
  assumes "working D s" and "sect D s = V" and "i < ROOT_ENTRIES" and "2 \<le> c" "c < CLUSTER_SCAN" and "length name = 11"
  shows "works D s (all_ok [set_fat c 0xffff, format_directory c, write_dir i name c 0 ATTR_DIR, flush_block] s)
    (root_upd i (new_entry name c 0 ATTR_DIR) ((fat_upd c 0xffff V)(data_lba c := fresh_dir c))) True"
  using assms
  by (auto intro!: all_ok_works set_fat_works [THEN works_eq] format_directory_works [THEN works_eq]
      write_dir_works [THEN works_eq] flush_works [THEN works_eq] simp: fresh_dir_def simp del: fun_upd_apply)

lemma write_chain:
  assumes "working D s" and "sect D s = V" and "i < ROOT_ENTRIES"
  shows "works D s (all_ok [update_size 0 i z, flush_block] s) (root_upd i (patch 28 (le32 z) (root_entry V i)) V) True"
  using assms
  by (auto intro!: all_ok_works update_size_works [THEN works_eq] flush_works [THEN works_eq])

lemma rename_chain:
  assumes "working D s" and "sect D s = V" and "i < ROOT_ENTRIES" and "length name = 11"
  shows "works D s (all_ok [rename_entry i name, flush_block] s) (root_upd i (patch 0 name (root_entry V i)) V) True"
  using assms
  by (auto intro!: all_ok_works rename_entry_works [THEN works_eq] flush_works [THEN works_eq])

lemma remove_chain:
  assumes "working D s" and "sect D s = V" and "i < ROOT_ENTRIES" and "2 \<le> c" "c < CLUSTER_SCAN"
  shows "works D s (all_ok [\<lambda>s. if 2 \<le> c then set_fat c 0 s else Some (True, s), mark_deleted i, flush_block] s)
    (root_upd i (patch 0 [0xe5] (root_entry V i)) (fat_upd c 0 V)) True"
  using assms
  by (auto intro!: all_ok_works set_fat_works [THEN works_eq] mark_deleted_works [THEN works_eq] flush_works [THEN works_eq])

text \<open>A handler that ends with an edited volume and a completion.\<close>

lemma result_finish:
  assumes st: "stable D s" and w: "works D s r V' x" and V': "volume_sound V'"
    and fok: "\<And>f. ft_file s = Some f \<Longrightarrow> file_sound V' f"
    and Q: "\<And>s'. sect D s' = V' \<Longrightarrow> ft_file s' = ft_file s \<Longrightarrow> ft_dir s' = ft_dir s \<Longrightarrow> Q status (completion_word d) s'"
    and f: "\<And>s'. f x s' = Some (complete rid status d s')" and z: "status \<noteq> FS_STATUS_SUCCESS \<longrightarrow> completion_word d = 0"
  shows "result D s rid (r \<bind> (\<lambda>(x, s). f x s)) Q"
proof (rule result_edit [OF w], unfold f)
  fix s2 assume s2: "working D s2" "frame s s2" "sect D s2 = V'"
  have fr: "ft_file s2 = ft_file s" "ft_dir s2 = ft_dir s" using s2(2) by (simp_all add: frame_def)
  have "healthy D s2" using changed_state [OF st s2(1,2)] s2(3) V' fok fr by (auto simp: healthy_def)
  then show "result D s2 rid (Some (complete rid status d s2)) Q"
    by (rule result_complete) (use changed_state(1) [OF st s2(1,2)] Q s2(3) fr z in simp_all)
qed

lemma handle_mkdir_result:
  assumes st: "stable D s" and n: "read_packed_name path s = Some name" "plain_path path s"
  shows "result D s rid (handle_mkdir rid path s) (\<lambda>st w s'. ft_dir s' = ft_dir s \<and> ft_file s' = ft_file s \<and> w = 0 \<and>
    add_spec (volume_full (sect D s)) (files D s) name (Dir Map.empty) st (files D s'))"
proof -
  have len: "length name = 11" and mk: "\<not> marker (name ! 0)"
    using read_packed_length [OF n(1)] plain_name [OF n] by simp_all
  have eq: "handle_mkdir rid path s = reserve_file rid name s \<bind> (\<lambda>(r, s). case r of Inl done \<Rightarrow> Some (done, s)
      | Inr (slot, cluster) \<Rightarrow> all_ok [set_fat cluster 0xffff, format_directory cluster, write_dir slot name cluster 0 ATTR_DIR,
          flush_block] s \<bind> (\<lambda>(ok, s). if \<not> ok then give_up rid s else reply rid FS_STATUS_SUCCESS s))"
    by (simp add: handle_mkdir_def n(1))
  show ?thesis
    unfolding eq
  proof (rule reserve_result [OF st], goal_cases)
    case (3 i c s')
    let ?V = "sect D s"
    let ?V' = "root_upd i (new_entry name c 0 ATTR_DIR) ((fat_upd c 0xffff ?V)(data_lba c := fresh_dir c))"
    have V: "volume_sound ?V" using st by simp
    have s': "sect D s' = ?V" "ft_file s' = ft_file s" "ft_dir s' = ft_dir s" using 3(2) by (simp_all add: silent_def)
    have r: "i < ROOT_ENTRIES" "\<not> live (root_entry ?V i)" "\<forall>j<i. live (root_entry ?V j)" "2 \<le> c" "c < CLUSTER_SCAN"
      "fat_entry ?V c = 0" "\<forall>j. present ?V (Root j) \<longrightarrow> ent_name (root_entry ?V j) \<noteq> name"
      using 3(4) by (simp_all add: reserved_def)
    note cs = mkdir_sound [OF V r(1-6) len mk r(7) refl] and ct = mkdir_tree [OF V r(1-6) len mk r(7) refl]
    have fok: "file_sound ?V' f" if f: "ft_file s = Some f" for f
    proof -
      obtain p where p: "file_place ?V f p" "present ?V p" using stable_file [OF st f] .
      then show ?thesis using cs(2) [of p] cs(3) [OF p(2)] file_sound_kept by blast
    qed
    show ?case
      by (rule result_finish [OF 3(1) mkdir_chain [OF stable_working [OF 3(1)] s'(1) r(1,4,5) len] cs(1),
            where status = FS_STATUS_SUCCESS and d = CEmpty])
        (use fok s' 3(3,4) ct in \<open>auto simp: add_spec_def reply_def reserved_def\<close>)
  qed (auto simp: add_spec_def silent_def)
qed

definition rename_spec :: "(u8 list \<rightharpoonup> node) \<Rightarrow> u8 list \<Rightarrow> u8 list \<Rightarrow> u64 \<Rightarrow> (u8 list \<rightharpoonup> node) \<Rightarrow> bool" where
  "rename_spec t old new st t' \<longleftrightarrow>
     (if t old = None then st = FS_STATUS_NO_FILE \<and> t' = t
      else if old \<noteq> new \<and> t new \<noteq> None then st = FS_STATUS_ALREADY_EXISTS \<and> t' = t
      else st = FS_STATUS_SUCCESS \<and> t' = t(old := None, new := t old))"

lemma finish_rename_result:
  assumes st: "stable D s" and i: "present (sect D s) (Root i)" and n: "length new = 11" "\<not> marker (new ! 0)"
    and fresh: "\<forall>j. present (sect D s) (Root j) \<and> j \<noteq> i \<longrightarrow> ent_name (root_entry (sect D s) j) \<noteq> new"
    and old: "ent_name (root_entry (sect D s) i) = old"
  shows "result D s rid (finish_rename rid i new s) (\<lambda>st w s'. ft_dir s' = ft_dir s \<and> ft_file s' = ft_file s \<and> w = 0 \<and>
    st = FS_STATUS_SUCCESS \<and> files D s' = (files D s)(old := None, new := files D s old))"
proof -
  let ?V = "sect D s" and ?V' = "root_upd i (patch 0 new (root_entry (sect D s) i)) (sect D s)"
  have V: "volume_sound ?V" using st by simp
  have i512: "i < ROOT_ENTRIES" using i by simp
  note cs = rename_sound [OF V i n fresh refl] and ct = rename_tree [OF V i n fresh refl]
  have len: "length (root_entry ?V i) = DIR_ENTRY" using root_entry_length [OF soundD(1) [OF V]] .
  have fok: "file_sound ?V' f" if f: "ft_file s = Some f" for f
  proof -
    obtain p where p: "file_place ?V f p" "present ?V p" using stable_file [OF st f] .
    show ?thesis
    proof (cases "p = Root i")
      case True
      then have "file_place ?V' f p"
        using p(1) cs(2) [of p] cs(5) by (simp add: file_place_def cluster_at_def renamed_entry_fields [OF len n(1)])
      then show ?thesis unfolding file_sound_def by blast
    next
      case False
      then show ?thesis using p cs(2) [of p] cs(3) [OF p(2)] file_sound_kept by blast
    qed
  qed
  show ?thesis
    unfolding finish_rename_def
    by (rule result_finish [OF st rename_chain [OF stable_working [OF st] refl i512 n(1)] cs(1),
          where status = FS_STATUS_SUCCESS and d = CEmpty])
      (use fok ct old in \<open>auto simp: reply_def\<close>)
qed

lemma handle_rename_result:
  assumes st: "stable D s" and o: "read_packed_name old_path s = Some old"
    and n: "read_packed_name new_path s = Some new" "plain_path new_path s"
  shows "result D s rid (handle_rename rid old_path new_path s) (\<lambda>st w s'. ft_dir s' = ft_dir s \<and> ft_file s' = ft_file s \<and> w = 0 \<and>
    rename_spec (files D s) old new st (files D s'))"
proof -
  have V: "volume_sound (sect D s)" using st by simp
  have len: "length new = 11" and mk: "\<not> marker (new ! 0)"
    using read_packed_length [OF n(1)] plain_name [OF n] by simp_all
  show ?thesis
    unfolding handle_rename_def o n(1) option.case
  proof (rule result_scan [OF st find_name_works [OF stable_working [OF st]]], goal_cases)
    case (1 s1)
    then show ?case
    proof (rule_tac find_sound_cases [OF V, of old], goal_cases)
      case (2)
      then show ?case by (auto intro!: result_reply simp: rename_spec_def)
    next
      case (1 i)
      have fin: "result D s2 rid (finish_rename rid i new s2) (\<lambda>st w s'. ft_dir s' = ft_dir s \<and> ft_file s' = ft_file s \<and> w = 0 \<and>
          rename_spec (files D s) old new st (files D s'))"
        if "stable D s2" "sect D s2 = sect D s" "ft_file s2 = ft_file s" "ft_dir s2 = ft_dir s"
          "old = new \<or> (\<forall>j. present (sect D s) (Root j) \<longrightarrow> ent_name (root_entry (sect D s) j) \<noteq> new)" "old \<noteq> new \<longrightarrow> files D s new = None" for s2
      proof (rule result_mono [OF finish_rename_result [OF that(1) _ len mk _ refl]])
        show "present (sect D s2) (Root i)" using 1 that(2) by simp
        show "\<forall>j. present (sect D s2) (Root j) \<and> j \<noteq> i \<longrightarrow> ent_name (root_entry (sect D s2) j) \<noteq> new"
          using that(2,5) soundD(5) [OF V _ 1(6)] 1(7) by metis
      qed (use that 1 in \<open>auto simp: rename_spec_def\<close>)
      show ?case
      proof (cases "old = new")
        case True
        then show ?thesis using fin [OF 1(1-4)] 1(8) by simp
      next
        case False
        then show ?thesis
          unfolding 1(8) Scan.case
        proof (simp, intro result_scan [OF 1(1) find_name_works [OF stable_working [OF 1(1)]]], goal_cases)
          case (1 s2)
          note s1 = \<open>sect D s1 = sect D s\<close> \<open>ft_file s1 = ft_file s\<close> \<open>ft_dir s1 = ft_dir s\<close>
          show ?case
          proof (rule find_sound_cases [OF V, of new], goal_cases)
            case (1 k)
            then show ?case
              using False s1 \<open>stable D s2\<close> \<open>sect D s2 = sect D s1\<close> \<open>ft_file s2 = ft_file s1\<close> \<open>ft_dir s2 = ft_dir s1\<close> \<open>files D s old = Some (node_at (sect D s) i)\<close>
              by (auto intro!: result_reply simp: rename_spec_def)
          next
            case 2
            then show ?case
              using fin [of s2] s1 \<open>stable D s2\<close> \<open>sect D s2 = sect D s1\<close> \<open>ft_file s2 = ft_file s1\<close> \<open>ft_dir s2 = ft_dir s1\<close> by simp
          qed
        qed
      qed
    qed
  qed
qed

subsection \<open>Removing\<close>

definition remove_spec :: "(u8 list \<rightharpoonup> node) \<Rightarrow> u8 list \<Rightarrow> u64 \<Rightarrow> (u8 list \<rightharpoonup> node) \<Rightarrow> bool" where
  "remove_spec t name st t' \<longleftrightarrow>
     (case t name of None \<Rightarrow> st = FS_STATUS_NO_FILE \<and> t' = t
      | Some (File _) \<Rightarrow> st = FS_STATUS_SUCCESS \<and> t' = t(name := None)
      | Some (Dir m) \<Rightarrow> if m = Map.empty then st = FS_STATUS_SUCCESS \<and> t' = t(name := None)
          else st = FS_STATUS_NOT_EMPTY \<and> t' = t)"

lemma finish_remove_result:
  assumes st: "stable D s" and i: "present (sect D s) (Root i)"
    and empty: "is_dir (ent_attr (root_entry (sect D s) i)) \<longrightarrow> empty_spec (sub_entry (sect D s) (cluster_at (sect D s) (Root i))) sub_indices"
    and old: "ent_name (root_entry (sect D s) i) = name"
  shows "result D s rid (finish_remove rid (hit_from i (root_entry (sect D s) i)) s) (\<lambda>st w s'. ft_dir s' = ft_dir s \<and>
    st = FS_STATUS_SUCCESS \<and> w = 0 \<and> files D s' = (files D s)(name := None) \<and>
    ft_file s' = (if opened D name s then None else ft_file s))"
proof -
  let ?V = "sect D s" and ?c = "cluster_at (sect D s) (Root i)"
  let ?V' = "root_upd i (patch 0 [0xe5] (root_entry ?V i)) (fat_upd ?c 0 ?V)"
  have V: "volume_sound ?V" using st by simp
  have i512: "i < ROOT_ENTRIES" using i by simp
  note cs = remove_sound [OF V i refl empty refl] and ct = remove_tree [OF V i refl empty refl]
  have c: "2 \<le> ?c" "?c < CLUSTER_SCAN" using soundD(6,7) [OF V i] by simp_all
  let ?forget = "\<lambda>f. fl_parent f = 0 \<and> fl_dir_index f = i"
  have forget: "opened D name s \<longleftrightarrow> (\<exists>f. ft_file s = Some f \<and> ?forget f)"
  proof
    assume "opened D name s"
    then obtain f j where f: "ft_file s = Some f" "file_place ?V f (Root j)" "ent_name (root_entry ?V j) = name"
      by (auto simp: opened_def)
    then have "j = i" using soundD(5) [OF V _ i, of j] old by (auto simp: file_place_def)
    then show "\<exists>f. ft_file s = Some f \<and> ?forget f" using f by (auto simp: file_place_def)
  next
    assume "\<exists>f. ft_file s = Some f \<and> ?forget f"
    then obtain f where f: "ft_file s = Some f" "?forget f" by blast
    obtain p where p: "file_place ?V f p" "present ?V p" using stable_file [OF st f(1)] .
    have "p = Root i"
    proof (cases p)
      case (Sub d j)
      then have "d = 0" using p(1) f(2) by (simp add: file_place_def)
      then obtain k where "dir_at ?V k 0" using p(2) Sub by auto
      then have "2 \<le> (0 :: u16)" using soundD(6) [OF V, of "Root k"] by (auto simp: dir_at_present)
      then show ?thesis by simp
    qed (use p(1) f(2) in \<open>simp add: file_place_def\<close>)
    then show "opened D name s" using p(1) f(1) old by (auto simp: opened_def)
  qed
  have hc: "hit_cluster (hit_from i (root_entry ?V i)) = ?c" by (simp add: cluster_at_def)
  have w: "works D s (all_ok [\<lambda>s. if 2 \<le> hit_cluster (hit_from i (root_entry ?V i)) then
      set_fat (hit_cluster (hit_from i (root_entry ?V i))) 0 s else Some (True, s), mark_deleted (hit_index (hit_from i (root_entry ?V i))), flush_block] s) ?V' True"
    using remove_chain [OF stable_working [OF st] refl i512 c] unfolding hc hit_from_fields(4) .
  show ?thesis
    unfolding finish_remove_def
  proof (rule result_edit [OF w])
    fix s2 assume s2: "working D s2" "frame s s2" "sect D s2 = ?V'"
    let ?s = "forget_removed i s2"
    have fr: "ft_file s2 = ft_file s" "ft_dir s2 = ft_dir s" using s2(2) by (simp_all add: frame_def)
    have ff: "ft_file ?s = (if opened D name s then None else ft_file s)" "ft_dir ?s = ft_dir s"
      using fr forget by (auto simp: forget_removed_def split: option.splits)
    have fok: "file_sound ?V' f" if f: "ft_file s = Some f" "\<not> opened D name s" for f
    proof -
      obtain p where p: "file_place ?V f p" "present ?V p" using stable_file [OF st f(1)] .
      then have "p \<noteq> Root i" using f old by (auto simp: opened_def)
      then show ?thesis using p cs(2) [of p] cs(3) [OF p(2)] file_sound_kept by blast
    qed
    have h: "healthy D ?s" "room ?s"
      using changed_state [OF st s2(1,2)] s2(3) cs(1) fok ff fr(2) by (auto simp: healthy_def)
    show "result D s2 rid (if \<not> True then give_up rid s2 else reply rid FS_STATUS_SUCCESS
        (forget_removed (hit_index (hit_from i (root_entry ?V i))) s2)) (\<lambda>st w s'. ft_dir s' = ft_dir s \<and>
      st = FS_STATUS_SUCCESS \<and> w = 0 \<and> files D s' = (files D s)(name := None) \<and> ft_file s' = (if opened D name s then None else ft_file s))"
      unfolding reply_def hit_from_fields(4) not_True_eq_False if_False
      by (rule result_complete [OF h]) (use ff s2(3) ct old in auto)
  qed
qed

lemma handle_remove_result:
  assumes st: "stable D s" and n: "read_packed_name path s = Some name"
  shows "result D s rid (handle_remove rid path s) (\<lambda>st w s'. ft_dir s' = ft_dir s \<and> w = 0 \<and> remove_spec (files D s) name st (files D s') \<and>
    ft_file s' = (if st = FS_STATUS_SUCCESS \<and> opened D name s then None else ft_file s))"
proof -
  let ?V = "sect D s"
  have V: "volume_sound ?V" using st by simp
  show ?thesis
    unfolding handle_remove_def n option.case
  proof (rule result_scan [OF st find_name_works [OF stable_working [OF st]]], goal_cases)
    case (1 s1)
    then have s1: "sect D s1 = ?V" "ft_file s1 = ft_file s" "ft_dir s1 = ft_dir s" "opened D name s1 = opened D name s"
      by (simp_all add: opened_def)
    show ?case
    proof (rule find_sound_cases [OF V, of name], goal_cases)
      case 2
      then show ?case using 1(1) s1 by (auto intro!: result_reply simp: remove_spec_def fs_status_defs)
    next
      case i: (1 i)
      have fin: "result D s2 rid (finish_remove rid (hit_from i (root_entry ?V i)) s2) (\<lambda>st w s'. ft_dir s' = ft_dir s \<and> w = 0 \<and>
          remove_spec (files D s) name st (files D s') \<and> ft_file s' = (if st = FS_STATUS_SUCCESS \<and> opened D name s then None else ft_file s))"
        if s2: "stable D s2" "sect D s2 = ?V" "ft_file s2 = ft_file s" "ft_dir s2 = ft_dir s"
          "is_dir (ent_attr (root_entry ?V i)) \<longrightarrow> empty_spec (sub_entry ?V (cluster_at ?V (Root i))) sub_indices" for s2
      proof -
        have "opened D name s2 = opened D name s" using s2 by (simp add: opened_def)
        moreover have "is_dir (ent_attr (root_entry ?V i)) \<longrightarrow> children ?V (cluster_at ?V (Root i)) = Map.empty"
          using s2(5) empty_children soundD(4) [OF V, of i] i(1) by (auto simp: dir_at_present)
        ultimately show ?thesis
          using finish_remove_result [OF s2(1), of i name rid] s2 i
          by (auto elim!: result_mono simp: remove_spec_def node_at_def)
      qed
      show ?case
      proof (cases "is_dir (ent_attr (root_entry ?V i))")
        case False
        then show ?thesis using fin [OF 1(1) s1(1-3)] i(3) by simp
      next
        case True
        let ?c = "cluster_at ?V (Root i)"
        have c: "2 \<le> ?c" "?c < CLUSTER_SCAN" using soundD(6,7) [OF V i(1)] by simp_all
        have w: "works D s1 (directory_empty (hit_cluster (hit_from i (root_entry ?V i))) s1) (sect D s1)
            (Hit (empty_spec (sub_entry ?V ?c) sub_indices))"
          using directory_empty_works [OF stable_working [OF 1(1)] c] s1(1) by (simp add: cluster_at_def)
        have ne: "node_at ?V i = Dir (children ?V ?c)" using True by (simp add: node_at_def)
        have ec: "empty_spec (sub_entry ?V ?c) sub_indices \<longleftrightarrow> children ?V ?c = Map.empty"
          using empty_children soundD(4) [OF V, of i] True i(1) by (auto simp: dir_at_present)
        show ?thesis
          using True unfolding i(3)
        proof (simp del: hit_from_fields add: hit_from_fields(3), intro result_scan [OF 1(1) w], goal_cases)
          case (1 s2)
          then show ?case
            using fin [of s2] s1 i(4) ne ec
            by (cases "empty_spec (sub_entry ?V ?c) sub_indices")
              (auto intro!: result_reply simp: remove_spec_def fs_status_defs)
        qed
      qed
    qed
  qed
qed

end
