(* ===== verification/FatHandlers.thy ===== *)
theory FatHandlers
  imports FatRun
begin

text \<open>
  The rest of the handlers over a working device: writing and reading the open file, opening,
  closing, status and directory listing; and the server as a whole, whose volume stays sound
  whatever commands it serves.
\<close>

subsection \<open>Writing and reading the open file\<close>

definition open_contents :: "volume \<Rightarrow> OpenFile \<Rightarrow> u8 list" where
  "open_contents V f = take (unat (fl_size f)) (V (data_lba (fl_cluster f)))"

lemma open_contents_place: "file_place V f p \<Longrightarrow> open_contents V f = contents V p"
  by (auto simp: open_contents_def file_place_def contents_def)

lemma not_root_file:
  assumes V: "volume_sound V" and p: "file_place V f p" and z: "fl_parent f = 0"
  shows "\<exists>i. p = Root i"
proof (cases p)
  case (Sub d j)
  then have "d = 0" "\<exists>k. dir_at V k d" using p z by (auto simp: file_place_def)
  then obtain k where "dir_at V k 0" by blast
  then have "2 \<le> (0 :: u16)" using soundD(6) [OF V, of "Root k"] by (auto simp: dir_at_present)
  then show ?thesis by simp
qed simp

definition write_ok :: "'d fat \<Rightarrow> u64 \<Rightarrow> u64 \<Rightarrow> fs_buffer_t \<Rightarrow> bool" where
  "write_ok s fd off buf \<longleftrightarrow> (\<exists>f. ft_file s = Some f \<and> fl_parent f = 0) \<and> fd = FD_FILE \<and> off = 0
     \<and> 0 < fb_size buf \<and> unat (fb_size buf) \<le> SECTOR_BYTES \<and> in_share (fb_offset buf) (unat (fb_size buf))"

lemma stage_write_result:
  assumes st: "stable D s" and f: "ft_file s = Some f" "file_place (sect D s) f (Root i)"
    and name: "ent_name (root_entry (sect D s) i) = name"
    and b: "bytes = mem_get (unat (fb_offset buf)) (unat (fb_size buf)) (sh_share (ft_shared s))"
      "unat (fb_size buf) \<le> SECTOR_BYTES"
  shows "result D s rid (edit_sector (data_lba (fl_cluster f)) (put_slice 0 bytes) s \<bind> (\<lambda>(ok, s).
      if \<not> ok then give_up rid s
      else all_ok [update_size 0 i (ucast (fb_size buf)), flush_block] s \<bind> (\<lambda>(ok, s).
        if \<not> ok then give_up rid s
        else Some (complete rid FS_STATUS_SUCCESS (CWrite (fb_size buf)) (set_open_size (ucast (fb_size buf)) s)))))
    (\<lambda>st w s'. ft_dir s' = ft_dir s \<and> st = FS_STATUS_SUCCESS \<and> w = fb_size buf \<and> opened D name s' \<and>
      files D s' = (files D s)(name \<mapsto> File bytes))"
proof -
  let ?V = "sect D s" and ?c = "fl_cluster f" and ?z = "ucast (fb_size buf) :: u32"
  let ?V1 = "?V(data_lba ?c := patch 0 bytes (?V (data_lba ?c)))"
  let ?V' = "root_upd i (patch 28 (le32 ?z) (root_entry ?V1 i)) ?V1"
  have V: "volume_sound ?V" using st by simp
  have i: "present ?V (Root i)" "\<not> is_dir (ent_attr (root_entry ?V i))" "?c = cluster_at ?V (Root i)" "i < ROOT_ENTRIES"
    "fl_parent f = 0" "fl_dir_index f = i"
    using f(2) by (auto simp: file_place_def)
  have c: "2 \<le> ?c" "?c < CLUSTER_SCAN" using soundD(6,7) [OF V i(1)] i(3) by simp_all
  have len: "length bytes = unat (fb_size buf)" "length (?V (data_lba ?c)) = SECTOR_BYTES"
    using b(1) soundD(1) [OF V] by (simp_all add: sized_def)
  have "ucast (fb_size buf) = (of_nat (unat (fb_size buf)) :: u32)" by simp
  then have z: "?z = of_nat (length bytes)" by (simp add: len(1))
  note cs = write_sound [OF V i(1-3) _ refl refl, of bytes, folded z]
    and ct = write_tree [OF V i(1-3) _ refl refl, of bytes, folded z]
  have w1: "works D s (edit_sector (data_lba ?c) (put_slice 0 bytes) s) ?V1 True"
    by (rule edit_data_works [OF stable_working [OF st] c]) (use len b(2) in \<open>simp_all add: put_slice_def\<close>)
  show ?thesis
  proof (rule result_edit [OF w1], simp only: not_True_eq_False if_False, goal_cases)
    case (1 s1)
    show ?case
    proof (rule result_edit [OF write_chain [OF 1(1,3) i(4)]], simp only: not_True_eq_False if_False, goal_cases)
      case (1 s2)
      let ?s = "set_open_size ?z s2"
      have fr: "frame s s2" using \<open>frame s s1\<close> 1(2) by (rule frame_trans)
      have ff: "ft_file ?s = Some (f\<lparr>fl_size := ?z\<rparr>)" "ft_dir ?s = ft_dir s"
        using fr f(1) by (simp_all add: set_open_size_def frame_def)
      have fp: "file_place ?V' (f\<lparr>fl_size := ?z\<rparr>) (Root i)"
        using cs(2) [of "Root i"] cs(6) i b(2) len(1) soundD(1) [OF V]
        by (simp add: file_place_def cluster_at_def sized_entry_fields [OF root_entry_length])
      have "healthy D ?s" "room ?s"
        using changed_state [OF st 1(1) fr] 1(3) cs(1) fp ff b(2) len(1) fr by (auto simp: healthy_def file_sound_def frame_def)
      then show ?case
      proof (rule result_complete, goal_cases)
        case (2 s3)
        have "ent_name (root_entry ?V' i) = name" using cs(5) name b(2) len(1) by simp
        then have "opened D name s3" using 2 1(3) ff(1) fp by (auto simp: opened_def)
        then show ?case using 2 1(3) ff(2) ct name b(2) len(1) by simp
      qed (simp_all add: set_open_size_def)
    qed
  qed
qed

lemma handle_write_result:
  assumes st: "stable D s"
  shows "result D s rid (handle_write rid fd off buf s) (\<lambda>st w s'. ft_dir s' = ft_dir s \<and>
    (if write_ok s fd off buf then st = FS_STATUS_SUCCESS \<and> w = fb_size buf \<and>
       (\<exists>name. opened D name s \<and> opened D name s' \<and> files D s' = (files D s)(name \<mapsto>
          File (mem_get (unat (fb_offset buf)) (unat (fb_size buf)) (sh_share (ft_shared s)))))
     else st \<noteq> FS_STATUS_SUCCESS \<and> sect D s' = sect D s \<and> ft_file s' = ft_file s))"
proof (cases "write_ok s fd off buf")
  case False
  then show ?thesis
    using st by (auto simp: handle_write_def write_ok_def copy_share_def fs_status_defs Let_def word_gt_0
        intro!: result_reply split: option.split)
next
  case True
  then obtain f where f: "ft_file s = Some f" "fl_parent f = 0" by (auto simp: write_ok_def)
  obtain p where p: "file_place (sect D s) f p" "present (sect D s) p" using stable_file [OF st f(1)] .
  obtain i where i: "p = Root i" using not_root_file [OF stable_sound [OF st] p(1) f(2)] by blast
  let ?name = "ent_name (root_entry (sect D s) i)"
  have c: "cluster_lba (fl_cluster f) = Some (data_lba (fl_cluster f))" "fl_dir_index f = i" "opened D ?name s"
    using p i f(1) soundD(6) [OF stable_sound [OF st] p(2)]
    by (auto simp: file_place_def opened_def intro!: cluster_lba_data)
  have b: "unat (fb_size buf) \<le> SECTOR_BYTES" using True by (simp add: write_ok_def)
  have eq: "handle_write rid fd off buf s = edit_sector (data_lba (fl_cluster f))
      (put_slice 0 (mem_get (unat (fb_offset buf)) (unat (fb_size buf)) (sh_share (ft_shared s)))) s \<bind> (\<lambda>(ok, s).
      if \<not> ok then give_up rid s
      else all_ok [update_size 0 i (ucast (fb_size buf)), flush_block] s \<bind> (\<lambda>(ok, s).
        if \<not> ok then give_up rid s
        else Some (complete rid FS_STATUS_SUCCESS (CWrite (fb_size buf)) (set_open_size (ucast (fb_size buf)) s))))"
    using True f c b by (simp add: handle_write_def write_ok_def copy_share_def Let_def word_gt_0 cong: if_cong)
  show ?thesis
    unfolding eq
    by (rule result_mono [OF stage_write_result [OF st f(1) p(1) [unfolded i] refl refl b]]) (use True c(3) in auto)
qed

lemma result_framed: "result D s' rid r Q \<Longrightarrow> frame s s' \<Longrightarrow> result D s rid r Q"
  unfolding result_def frame_def client_step_def by (fastforce elim!: finishes_mono)

lemma result_load:
  assumes st: "stable D s" and l: "l < 8192"
    and f: "\<And>s'. stable D s' \<Longrightarrow> sect D s' = sect D s \<Longrightarrow> ft_file s' = ft_file s \<Longrightarrow> ft_dir s' = ft_dir s \<Longrightarrow>
      length (block s') = TRANSFER \<Longrightarrow>
      slice (unat (l mod SECTORS_PER_TRANSFER) * SECTOR_BYTES) SECTOR_BYTES (block s') = sect D s l \<Longrightarrow>
      result D s' rid (f True s') Q"
  shows "result D s rid (load_block (ucast (l div SECTORS_PER_TRANSFER)) s \<bind> (\<lambda>(ok, s). f ok s)) Q"
  unfolding result_def
proof (rule finishes_bindI [OF steady_load [OF working_steady [OF stable_working [OF st]], of l]], elim conjE, goal_cases)
  case (1 ok s')
  have w: "working D s'" and ok
    using 1 stable_working [OF st] good_lba_small [OF stable_working [OF st] l] by (auto simp: working_def)
  have "stable D s'" using stable_scan [OF st w 1(2,3)] .
  then have "result D s' rid (f True s') Q" using 1 \<open>ok\<close> by (intro f) (auto simp: frame_def)
  then show ?case using result_framed [OF _ 1(2)] \<open>ok\<close> unfolding result_def by simp
qed

lemma block_bytes_sector:
  assumes "length (block s) = TRANSFER" and "off + SECTOR_BYTES \<le> TRANSFER" and "n \<le> SECTOR_BYTES"
  shows "block_bytes off n s = take n (slice off SECTOR_BYTES (block s))"
proof (rule nth_equalityI)
  show "length (block_bytes off n s) = length (take n (slice off SECTOR_BYTES (block s)))"
    using assms by (simp add: block_bytes_def)
next
  fix i assume "i < length (block_bytes off n s)"
  then have i: "i < n" by (simp add: block_bytes_def)
  then have "off + i < length (block s)" "i < SECTOR_BYTES" using assms by simp_all
  then show "block_bytes off n s ! i = take n (slice off SECTOR_BYTES (block s)) ! i"
    using i assms(1,2) by (simp add: block_bytes_def nth_slice)
qed

lemma put_share_fields [simp]:
  "ft_file (put_share_bytes off bytes s) = ft_file s" "ft_dir (put_share_bytes off bytes s) = ft_dir s"
  "sh_completions (ft_shared (put_share_bytes off bytes s)) = sh_completions (ft_shared s)"
  "sh_share (ft_shared (put_share_bytes off bytes s)) = mem_put off bytes (sh_share (ft_shared s))"
  by (simp_all add: put_share_bytes_def)

lemma put_share_nil: "put_share_bytes off [] s = s"
proof -
  have "mem_put off [] m = m" for m by (rule ext) (auto simp: mem_put_def)
  then show ?thesis by (simp add: put_share_bytes_def)
qed

lemma stable_put_share: "stable D (put_share_bytes off bytes s) = stable D s"
  unfolding stable_def healthy_def by simp

definition read_ok :: "'d fat \<Rightarrow> u64 \<Rightarrow> u64 \<Rightarrow> fs_buffer_t \<Rightarrow> bool" where
  "read_ok s fd off buf \<longleftrightarrow> ft_file s \<noteq> None \<and> fd = FD_FILE \<and> off = 0 \<and> in_share (fb_offset buf) (unat (fb_size buf))"

lemma handle_read_loads:
  assumes "read_ok s fd off buf" and "ft_file s = Some f" and "min (unat (fb_size buf)) (unat (fl_size f)) \<noteq> 0"
    and "cluster_lba (fl_cluster f) = Some l"
  shows "handle_read rid fd off buf s = load_block (ucast (l div SECTORS_PER_TRANSFER)) s \<bind> (\<lambda>(ok, s).
    if \<not> ok then give_up rid s
    else Some (complete rid FS_STATUS_SUCCESS (CRead (of_nat (min (unat (fb_size buf)) (unat (fl_size f)))))
      (put_share_bytes (unat (fb_offset buf))
        (block_bytes (unat (l mod SECTORS_PER_TRANSFER) * SECTOR_BYTES) (min (unat (fb_size buf)) (unat (fl_size f))) s) s)))"
  using assms
  by (auto simp: handle_read_def read_ok_def share_span_def stage_file_bytes_def stop_with_def give_up_def bind_assoc Let_def
      intro!: Option.bind_cong [OF refl])

lemma handle_read_result:
  assumes st: "stable D s"
  shows "result D s rid (handle_read rid fd off buf s) (\<lambda>st w s'. sect D s' = sect D s \<and> ft_dir s' = ft_dir s \<and>
    ft_file s' = ft_file s \<and>
    (if read_ok s fd off buf then
       let bytes = take (unat (fb_size buf)) (open_contents (sect D s) (the (ft_file s)))
       in st = FS_STATUS_SUCCESS \<and> w = of_nat (length bytes) \<and>
          mem_get (unat (fb_offset buf)) (length bytes) (sh_share (ft_shared s')) = bytes
     else st \<noteq> FS_STATUS_SUCCESS))"
proof (cases "read_ok s fd off buf")
  case False
  then show ?thesis
    using st by (auto simp: handle_read_def read_ok_def share_span_def fs_status_defs Let_def
        intro!: result_reply split: option.split)
next
  case True
  then obtain f where f: "ft_file s = Some f" by (auto simp: read_ok_def)
  obtain p where p: "file_place (sect D s) f p" "present (sect D s) p" using stable_file [OF st f] .
  have V: "volume_sound (sect D s)" using st by simp
  have c: "2 \<le> fl_cluster f" "fl_cluster f < CLUSTER_SCAN" "unat (fl_size f) \<le> SECTOR_BYTES"
    using p soundD(6,7,9) [OF V p(2)] by (auto simp: file_place_def)
  have lba: "cluster_lba (fl_cluster f) = Some (data_lba (fl_cluster f))" "data_lba (fl_cluster f) < 8192"
    using c cluster_lba_data small_lba(2) by simp_all
  let ?n = "min (unat (fb_size buf)) (unat (fl_size f))" and ?l = "data_lba (fl_cluster f)"
  let ?bytes = "take (unat (fb_size buf)) (open_contents (sect D s) f)"
  have len: "length (sect D s ?l) = SECTOR_BYTES" using soundD(1) [OF V] by (simp add: sized_def)
  then have b: "?bytes = take ?n (sect D s ?l)" "length ?bytes = ?n" using c(3) by (simp_all add: open_contents_def)
  have fin: "result D s1 rid (Some (complete rid FS_STATUS_SUCCESS (CRead (of_nat ?n))
      (put_share_bytes (unat (fb_offset buf)) ?bytes s1))) (\<lambda>st w s'. sect D s' = sect D s \<and> ft_dir s' = ft_dir s \<and>
        ft_file s' = ft_file s \<and> st = FS_STATUS_SUCCESS \<and> w = of_nat (length ?bytes) \<and>
        mem_get (unat (fb_offset buf)) (length ?bytes) (sh_share (ft_shared s')) = ?bytes)"
    if s1: "stable D s1" "sect D s1 = sect D s" "ft_file s1 = ft_file s" "ft_dir s1 = ft_dir s" for s1
  proof (rule result_complete, goal_cases)
    case (4 s')
    then show ?case
      using s1 b(2) mem_get_put [OF refl, of "unat (fb_offset buf)" ?bytes "sh_share (ft_shared s1)"]
      by (simp del: length_take)
  qed (use s1(1) stable_put_share in \<open>auto simp: stable_def\<close>)
  have "result D s rid (handle_read rid fd off buf s) (\<lambda>st w s'. sect D s' = sect D s \<and> ft_dir s' = ft_dir s \<and>
        ft_file s' = ft_file s \<and> st = FS_STATUS_SUCCESS \<and> w = of_nat (length ?bytes) \<and>
        mem_get (unat (fb_offset buf)) (length ?bytes) (sh_share (ft_shared s')) = ?bytes)"
  proof (cases "?n = 0")
    case z: True
    then have "?bytes = []" using b(2) by (metis length_0_conv)
    then have "put_share_bytes (unat (fb_offset buf)) ?bytes s = s" by (simp only: put_share_nil)
    moreover have "handle_read rid fd off buf s = Some (complete rid FS_STATUS_SUCCESS (CRead (of_nat ?n)) s)"
      using True f z by (simp add: handle_read_def read_ok_def share_span_def del: min_less_iff_conj)
    ultimately show ?thesis using fin [OF st refl refl refl] by simp
  next
    case nz: False
    have "handle_read rid fd off buf s = load_block (ucast (?l div SECTORS_PER_TRANSFER)) s \<bind> (\<lambda>(ok, s).
        if \<not> ok then give_up rid s else Some (complete rid FS_STATUS_SUCCESS (CRead (of_nat ?n)) (put_share_bytes (unat (fb_offset buf))
          (block_bytes (unat (?l mod SECTORS_PER_TRANSFER) * SECTOR_BYTES) ?n s) s)))"
      using handle_read_loads [OF True f nz lba(1)] .
    also have "result D s rid \<dots> (\<lambda>st w s'. sect D s' = sect D s \<and> ft_dir s' = ft_dir s \<and>
        ft_file s' = ft_file s \<and> st = FS_STATUS_SUCCESS \<and> w = of_nat (length ?bytes) \<and>
        mem_get (unat (fb_offset buf)) (length ?bytes) (sh_share (ft_shared s')) = ?bytes)"
    proof (rule result_load [OF st lba(2)], simp only: not_True_eq_False if_False, goal_cases)
      case (1 s1)
      have "block_bytes (unat (?l mod SECTORS_PER_TRANSFER) * SECTOR_BYTES) ?n s1 = ?bytes"
        using block_bytes_sector [OF 1(5) sector_fits, of ?n ?l] 1(6) b(1) c(3) by simp
      then show ?case using fin [OF 1(1-4)] by simp
    qed
    finally show ?thesis .
  qed
  then show ?thesis using True f by (auto simp: Let_def elim!: result_mono)
qed

subsection \<open>Listing a directory\<close>

definition dir_entry :: "volume \<Rightarrow> u16 \<Rightarrow> u16 \<Rightarrow> u8 list" where
  "dir_entry V c j = (if c = 0 then root_entry V j else sub_entry V c j)"

definition within_dir :: "u16 \<Rightarrow> u16 \<Rightarrow> bool" where
  "within_dir c limit \<longleftrightarrow> c = 0 \<and> limit \<le> ROOT_ENTRIES \<or> 2 \<le> c \<and> c < CLUSTER_SCAN \<and> limit \<le> ENTRIES_PER_SECTOR"

lemma dir_sound_within: "dir_sound d \<longleftrightarrow> within_dir (dr_cluster d) (dr_limit d)"
  by (simp add: dir_sound_def within_dir_def)

lemma read_dir_works:
  assumes w: "working D s" and d: "within_dir c limit" and i: "i < limit"
  shows "works D s (read_placed c i s) (sect D s) (Some (dir_entry (sect D s) c i))"
    and "length (dir_entry (sect D s) c i) = DIR_ENTRY"
  using read_entry_works [OF w, of i] read_placed_works [OF w, of c i] d i root_entry_length [OF sized_sect [OF w]]
    sub_entry_length [OF sized_sect [OF w]]
  by (auto simp: within_dir_def dir_entry_def read_placed_def)

text \<open>The first index with a file or directory of the listing.\<close>

fun dir_scan :: "(u16 \<Rightarrow> u8 list) \<Rightarrow> u16 list \<Rightarrow> u16 option" where
  "dir_scan ent [] = None"
| "dir_scan ent (i # is) =
     (if ent i ! 0 = 0 then None else if ent i ! 0 = 0xe5 \<or> is_dot (ent i) then dir_scan ent is else Some i)"

lemma u16_range_step: "i < b \<Longrightarrow> u16_range i b = i # u16_range (i + 1) b"
proof -
  assume i: "i < b"
  then have "unat (i + 1) = unat i + 1"
    using unat_less_exp [of b] by (simp add: word_less_nat_alt word_neq_max_Suc)
  then show ?thesis using i by (simp add: u16_range_def word_less_nat_alt upt_conv_Cons)
qed

lemma u16_range_end: "\<not> i < b \<Longrightarrow> u16_range i b = []"
  by (simp add: u16_range_def word_less_nat_alt)

definition listed :: "volume \<Rightarrow> fs_buffer_t \<Rightarrow> u16 \<Rightarrow> u16 list \<Rightarrow> u64 \<Rightarrow> u64 \<Rightarrow> OpenDir option \<Rightarrow> 'd fat \<Rightarrow> bool" where
  "listed V buf c is st w d s' \<longleftrightarrow>
     (case dir_scan (dir_entry V c) is of
        None \<Rightarrow> st = FS_STATUS_END_OF_DIRECTORY \<and> w = 0
      | Some i \<Rightarrow>
          (case display_name (dir_entry V c i) of
             None \<Rightarrow> False
           | Some (shown, len) \<Rightarrow>
               if unat (fb_size buf) < len \<or> \<not> in_share (fb_offset buf) (length (take len shown)) then
                 st = FS_STATUS_INVALID_BUFFER \<and> ft_dir s' = d
               else st = FS_STATUS_SUCCESS \<and> w = of_nat len \<and> ft_dir s' = map_option (\<lambda>d. d\<lparr>dr_index := i + 1\<rparr>) d
                 \<and> mem_get (unat (fb_offset buf)) (length (take len shown)) (sh_share (ft_shared s')) = take len shown))"

lemma stable_dir_index:
  assumes "stable D s" shows "stable D (set_dir_index i s)"
proof -
  have "\<forall>d. ft_dir (set_dir_index i s) = Some d \<longrightarrow> dir_sound d"
    using assms unfolding stable_def healthy_def by (auto simp: set_dir_index_def dir_sound_def)
  moreover have "ft_file (set_dir_index i s) = ft_file s" by (simp add: set_dir_index_def)
  ultimately show ?thesis using assms unfolding stable_def healthy_def by simp
qed

lemma stableD: "stable D s \<Longrightarrow> healthy D s" "stable D s \<Longrightarrow> room s"
  unfolding stable_def by simp_all

lemma set_dir_fields [simp]:
  "ft_file (set_dir_index i s) = ft_file s" "ft_shared (set_dir_index i s) = ft_shared s"
  "ft_dir (set_dir_index i s) = map_option (\<lambda>d. d\<lparr>dr_index := i\<rparr>) (ft_dir s)"
  by (simp_all add: set_dir_index_def)

lemma dir_read_result:
  assumes "stable D s" and "within_dir c limit"
  shows "result D s rid (dir_read_loop rid buf c limit i s) (\<lambda>st w s'. sect D s' = sect D s \<and> ft_file s' = ft_file s \<and>
    listed (sect D s) buf c (u16_range i limit) st w (ft_dir s) s')"
  using assms
proof (induction "unat limit - unat i" arbitrary: i s rule: less_induct)
  case less
  note st = less.prems(1)
  show ?case
  proof (cases "i < limit")
    case False
    then show ?thesis
      using result_complete [OF stableD [OF st] refl, where d = "CDirRead 0" and st = FS_STATUS_END_OF_DIRECTORY]
      by (simp add: dir_read_loop.simps [of rid buf c limit i s] listed_def u16_range_end)
  next
    case True
    then have step: "unat limit - unat (i + 1) < unat limit - unat i"
      using unat_less_exp [of limit] by (simp add: word_less_nat_alt word_neq_max_Suc)
    note rd = read_dir_works [OF stable_working [OF st] less.prems(2) True]
    let ?e = "dir_entry (sect D s) c i"
    obtain shown len where d: "display_name ?e = Some (shown, len)" using display_name_total [OF rd(2)] by blast
    show ?thesis
      unfolding dir_read_loop.simps [of rid buf c limit i s]
    proof (simp only: True not_True_eq_False if_False, rule result_scan [OF st rd(1)], goal_cases)
      case (1 s1)
      note ih = less.hyps [OF step 1(1) less.prems(2)]
      have fin: "result D s1 rid (Some (complete rid st' k (set_dir_index (i + 1) s2))) Q"
        if "stable D s2" "sh_completions (ft_shared s2) = sh_completions (ft_shared s1)"
          "\<And>s'. sect D s' = sect D s2 \<Longrightarrow> ft_file s' = ft_file s2 \<Longrightarrow> ft_dir s' = map_option (\<lambda>d. d\<lparr>dr_index := i + 1\<rparr>) (ft_dir s2) \<Longrightarrow>
             sh_share (ft_shared s') = sh_share (ft_shared s2) \<Longrightarrow> Q st' (completion_word k) s'"
          "st' \<noteq> FS_STATUS_SUCCESS \<longrightarrow> completion_word k = 0" for s2 st' k Q
        by (rule result_complete) (use that stableD [OF stable_dir_index [OF that(1)]] in simp_all)
      consider (stop) "?e ! 0 = 0" | (skip) "?e ! 0 \<noteq> 0" "?e ! 0 = 0xe5 \<or> is_dot ?e"
        | (show_it) "?e ! 0 \<noteq> 0" "\<not> (?e ! 0 = 0xe5 \<or> is_dot ?e)" by blast
      then show ?case
      proof cases
        case stop
        then show ?thesis using 1 True by (auto simp: listed_def u16_range_step intro!: fin)
      next
        case skip
        then show ?thesis using ih 1 True by (auto simp: listed_def u16_range_step elim!: result_mono)
      next
        case show_it
        have dec: "dir_scan (dir_entry (sect D s) c) (u16_range i limit) = Some i"
          using show_it True by (simp add: u16_range_step)
        let ?bytes = "take len shown" and ?off = "unat (fb_offset buf)"
        show ?thesis
        proof (cases "unat (fb_size buf) < len \<or> \<not> in_share (fb_offset buf) (length ?bytes)")
          case True
          then show ?thesis
            using 1 show_it dec d by (auto simp: listed_def copy_to_share_def intro!: result_reply)
        next
          case False
          have "result D s1 rid (Some (complete rid FS_STATUS_SUCCESS (CDirRead (of_nat len))
              (set_dir_index (i + 1) (put_share_bytes ?off ?bytes s1)))) (\<lambda>st w s'. sect D s' = sect D s \<and>
              ft_file s' = ft_file s \<and> listed (sect D s) buf c (u16_range i limit) st w (ft_dir s) s')"
            using 1 False dec d mem_get_put [OF refl, of ?off ?bytes "sh_share (ft_shared s1)"]
            by (intro fin) (simp_all add: listed_def stable_put_share)
          then show ?thesis using False show_it d by (simp add: copy_to_share_def)
        qed
      qed
    qed
  qed
qed

lemma handle_dir_read_result:
  assumes st: "stable D s"
  shows "result D s rid (handle_dir_read rid fd buf s) (\<lambda>st w s'. sect D s' = sect D s \<and> ft_file s' = ft_file s \<and>
    (case ft_dir s of Some d \<Rightarrow> if fd = FD_DIR
         then listed (sect D s) buf (dr_cluster d) (u16_range (dr_index d) (dr_limit d)) st w (ft_dir s) s'
         else st = FS_STATUS_INVALID_FD
     | None \<Rightarrow> st = FS_STATUS_INVALID_FD))"
proof (cases "ft_dir s")
  case (Some d)
  then have "dir_sound d" using st unfolding stable_def healthy_def by simp
  then show ?thesis
    using dir_read_result [OF st, of "dr_cluster d" "dr_limit d" rid buf "dr_index d"] Some st
    by (auto simp: handle_dir_read_def dir_sound_within intro!: result_reply)
qed (use st in \<open>auto simp: handle_dir_read_def intro!: result_reply\<close>)

lemma handle_dir_close_result:
  assumes st: "stable D s"
  shows "result D s rid (handle_dir_close rid fd s) (\<lambda>st w s'. sect D s' = sect D s \<and> ft_file s' = ft_file s \<and>
    (if fd = FD_DIR \<and> ft_dir s \<noteq> None then st = FS_STATUS_SUCCESS \<and> w = 0 \<and> ft_dir s' = None
     else st = FS_STATUS_INVALID_FD \<and> ft_dir s' = ft_dir s))"
  using st healthy_dir [OF stableD(1) [OF st], of None] stableD(2) [OF st]
  by (auto simp: handle_dir_close_def reply_def stableD intro!: result_complete)

lemma handle_close_result:
  assumes st: "stable D s"
  shows "result D s rid (handle_close rid fd s) (\<lambda>st w s'. sect D s' = sect D s \<and> ft_dir s' = ft_dir s \<and>
    (if fd = FD_FILE \<and> ft_file s \<noteq> None then st = FS_STATUS_SUCCESS \<and> w = 0 \<and> ft_file s' = None
     else st = FS_STATUS_INVALID_FD \<and> ft_file s' = ft_file s))"
  using st healthy_file [OF stableD(1) [OF st], of None] stableD(2) [OF st]
  by (auto simp: handle_close_def reply_def stableD intro!: result_complete)

lemma finish_stat_result:
  assumes st: "stable D s" and sz: "STAT_BYTES \<le> unat (fb_size buf)"
  shows "result D s rid (finish_stat rid buf hit s) (\<lambda>st w s'. sect D s' = sect D s \<and> ft_file s' = ft_file s \<and> ft_dir s' = ft_dir s \<and>
    (if in_share (fb_offset buf) STAT_BYTES then st = FS_STATUS_SUCCESS \<and> w = 0 \<and>
       mem_get (unat (fb_offset buf)) STAT_BYTES (sh_share (ft_shared s')) = concat (map le64 (stat_words hit))
     else st = FS_STATUS_INVALID_BUFFER))"
proof -
  let ?raw = "concat (map le64 (stat_words hit))" and ?off = "unat (fb_offset buf)"
  have len: "length ?raw = STAT_BYTES" by (auto simp: stat_words_def STAT_BYTES_def split: option.split)
  show ?thesis
  proof (cases "in_share (fb_offset buf) STAT_BYTES")
    case True
    have "result D s rid (reply rid FS_STATUS_SUCCESS (put_share_bytes ?off ?raw s)) (\<lambda>st w s'. sect D s' = sect D s \<and>
        ft_file s' = ft_file s \<and> ft_dir s' = ft_dir s \<and> st = FS_STATUS_SUCCESS \<and> w = 0 \<and>
        mem_get ?off STAT_BYTES (sh_share (ft_shared s')) = ?raw)"
      unfolding reply_def
      by (rule result_complete)
        (use stableD [of D "put_share_bytes ?off ?raw s"] st mem_get_put [OF len] in \<open>simp_all add: stable_put_share\<close>)
    then show ?thesis using True sz len by (simp add: finish_stat_def write_share_def)
  next
    case False
    then show ?thesis using st sz len by (auto simp: finish_stat_def write_share_def intro!: result_reply)
  qed
qed

subsection \<open>Status and opening\<close>

text \<open>A command that is refused with a status changes neither the tree nor the handles.\<close>

definition refused :: "'d dev \<Rightarrow> 'd fat \<Rightarrow> u64 \<Rightarrow> u64 \<Rightarrow> u64 \<Rightarrow> 'd fat \<Rightarrow> bool" where
  "refused D s code st w s' \<longleftrightarrow> st = code \<and> w = 0 \<and> files D s' = files D s \<and> ft_file s' = ft_file s \<and> ft_dir s' = ft_dir s"

lemma result_refused: "stable D s' \<Longrightarrow> silent D s s' \<Longrightarrow> result D s' rid (reply rid code s') (refused D s code)"
  by (auto simp: refused_def silent_def intro!: result_reply)

lemma silent_refl [simp]: "silent D s s"
  by (simp add: silent_def)

lemma find_name_cases:
  assumes st: "stable D s"
    and hit: "\<And>i s'. stable D s' \<Longrightarrow> silent D s s' \<Longrightarrow> present (sect D s) (Root i) \<Longrightarrow>
      ent_name (root_entry (sect D s) i) = name \<Longrightarrow> files D s name = Some (node_at (sect D s) i) \<Longrightarrow>
      result D s' rid (f (Hit (hit_from i (root_entry (sect D s) i))) s') Q"
    and missing: "\<And>s'. stable D s' \<Longrightarrow> silent D s s' \<Longrightarrow> files D s name = None \<Longrightarrow> result D s' rid (f Missing s') Q"
  shows "result D s rid (find_name name s \<bind> (\<lambda>(r, s). f r s)) Q"
proof (rule result_scan [OF st find_name_works [OF stable_working [OF st]]], goal_cases)
  case (1 s')
  then have "silent D s s'" by (simp add: silent_def)
  then show ?case
    using find_sound_cases [OF stable_sound [OF st], of name] hit [OF 1(1)] missing [OF 1(1)] by metis
qed

text \<open>The record that describes a node of the tree: a number, the kind in the mode, and the size. The
  root directory has the number 1.\<close>

definition node_stat :: "node \<Rightarrow> u64 \<Rightarrow> u64 \<Rightarrow> u64 list" where
  "node_stat x number sz =
     [0, number, (case x of File _ \<Rightarrow> S_IFREG OR MODE_BITS | Dir _ \<Rightarrow> S_IFDIR OR MODE_BITS), 0, 0, 0, 0, sz, 512, 0, 0, 0, 0, 0, 0, 0, 0]"

definition stat_answer :: "'d dev \<Rightarrow> 'd fat \<Rightarrow> fs_buffer_t \<Rightarrow> u64 list \<Rightarrow> u64 \<Rightarrow> u64 \<Rightarrow> 'd fat \<Rightarrow> bool" where
  "stat_answer D s buf words st w s' \<longleftrightarrow>
     (if \<not> in_share (fb_offset buf) STAT_BYTES then refused D s FS_STATUS_INVALID_BUFFER st w s'
      else st = FS_STATUS_SUCCESS \<and> w = 0 \<and> files D s' = files D s \<and> ft_file s' = ft_file s \<and> ft_dir s' = ft_dir s
        \<and> mem_get (unat (fb_offset buf)) STAT_BYTES (sh_share (ft_shared s')) = concat (map le64 words))"

definition stat_spec :: "'d dev \<Rightarrow> fs_buffer_t \<Rightarrow> fs_buffer_t \<Rightarrow> 'd fat \<Rightarrow> u64 \<Rightarrow> u64 \<Rightarrow> 'd fat \<Rightarrow> bool" where
  "stat_spec D path buf s st w s' \<longleftrightarrow>
     (if unat (fb_size buf) < STAT_BYTES then refused D s FS_STATUS_INVALID_BUFFER st w s'
      else if is_root_path_buf path s then stat_answer D s buf (node_stat (Dir Map.empty) 1 0) st w s'
      else case read_packed_name path s of
          None \<Rightarrow> refused D s FS_STATUS_INVALID_NAME st w s'
        | Some name \<Rightarrow>
            (case files D s name of
               None \<Rightarrow> refused D s FS_STATUS_NO_FILE st w s'
             | Some x \<Rightarrow> \<exists>i sz. (\<forall>bytes. x = File bytes \<longrightarrow> sz = of_nat (length bytes)) \<and>
                 stat_answer D s buf (node_stat x (ucast (i :: u16) + 2) sz) st w s'))"

lemma stat_words_node:
  assumes V: "volume_sound V" and i: "present V (Root i)"
  defines "sz \<equiv> ucast (ent_size (root_entry V i)) :: u64"
  shows "stat_words (Some (hit_from i (root_entry V i))) = node_stat (node_at V i) (ucast i + 2) sz"
    and "node_at V i = File bytes \<Longrightarrow> sz = of_nat (length bytes)"
proof -
  show "stat_words (Some (hit_from i (root_entry V i))) = node_stat (node_at V i) (ucast i + 2) sz"
    by (simp add: stat_words_def node_stat_def node_at_def sz_def SECTOR_BYTES_def)
  have "length (contents V (Root i)) = unat (ent_size (root_entry V i))"
    using soundD(9) [OF V i] soundD(1) [OF V] by (simp add: contents_def sized_def)
  then show "sz = of_nat (length bytes)" if "node_at V i = File bytes"
    using that by (auto simp: node_at_def sz_def split: if_splits)
qed

lemma finish_stat_answer:
  assumes "stable D s'" and "silent D s s'" and "\<not> unat (fb_size buf) < STAT_BYTES"
  shows "result D s' rid (finish_stat rid buf hit s') (stat_answer D s buf (stat_words hit))"
proof (rule result_zero [OF finish_stat_result [OF assms(1)]])
  show "STAT_BYTES \<le> unat (fb_size buf)" using assms(3) by simp
qed (use assms(2) in \<open>auto simp: stat_answer_def refused_def silent_def fs_status_defs split: if_splits\<close>)

lemma handle_stat_result:
  assumes st: "stable D s"
  shows "result D s rid (handle_stat rid path buf s) (stat_spec D path buf s)"
proof (cases "unat (fb_size buf) < STAT_BYTES \<or> is_root_path_buf path s \<or> read_packed_name path s = None")
  case True
  have root: "stat_words None = node_stat (Dir Map.empty) 1 0" by (simp add: stat_words_def node_stat_def SECTOR_BYTES_def)
  consider "unat (fb_size buf) < STAT_BYTES" | "\<not> unat (fb_size buf) < STAT_BYTES" "is_root_path_buf path s"
    | "\<not> unat (fb_size buf) < STAT_BYTES" "\<not> is_root_path_buf path s" "read_packed_name path s = None"
    using True by argo
  then show ?thesis
    by cases (auto simp: handle_stat_def stat_spec_def root intro!: result_mono [OF result_refused [OF st silent_refl]]
        result_mono [OF finish_stat_answer [OF st silent_refl]])
next
  case False
  then obtain name where c: "\<not> unat (fb_size buf) < STAT_BYTES" "\<not> is_root_path_buf path s" "read_packed_name path s = Some name" by auto
  have eq: "handle_stat rid path buf s = find_name name s \<bind> (\<lambda>(r, s). case r of
      Hit hit \<Rightarrow> finish_stat rid buf (Some hit) s | Missing \<Rightarrow> reply rid FS_STATUS_NO_FILE s | Failed \<Rightarrow> give_up rid s)"
    using c by (simp add: handle_stat_def)
  show ?thesis
    unfolding eq
  proof (rule find_name_cases [OF st], goal_cases)
    case (1 i s')
    note sw = stat_words_node [OF stable_sound [OF st] 1(3)]
    show ?case
      unfolding Scan.case
      by (rule result_mono [OF finish_stat_answer [OF 1(1,2) c(1)]])
        (use c 1(5) sw in \<open>auto simp: stat_spec_def intro!: exI [of _ i]\<close>)
  next
    case (2 s')
    then show ?case using c by (auto simp: stat_spec_def intro!: result_mono [OF result_refused])
  qed
qed

text \<open>Opening a directory: the handle stands at the first entry of the directory.\<close>

definition dir_open_spec :: "'d dev \<Rightarrow> fs_buffer_t \<Rightarrow> 'd fat \<Rightarrow> u64 \<Rightarrow> u64 \<Rightarrow> 'd fat \<Rightarrow> bool" where
  "dir_open_spec D path s st w s' \<longleftrightarrow>
     (let opens = (\<lambda>d. st = FS_STATUS_SUCCESS \<and> w = FD_DIR \<and> files D s' = files D s \<and> ft_file s' = ft_file s \<and> ft_dir s' = Some d)
      in if ft_dir s \<noteq> None then refused D s FS_STATUS_TOO_MANY_OPEN_FILES st w s'
         else if is_root_path_buf path s then opens \<lparr>dr_cluster = 0, dr_index = 0, dr_limit = ROOT_ENTRIES\<rparr>
         else case read_packed_name path s of
             None \<Rightarrow> refused D s FS_STATUS_INVALID_NAME st w s'
           | Some name \<Rightarrow>
               (case files D s name of
                  Some (Dir m) \<Rightarrow> \<exists>i c. dir_at (sect D s) i c \<and> ent_name (root_entry (sect D s) i) = name \<and> m = children (sect D s) c \<and>
                    opens \<lparr>dr_cluster = c, dr_index = 0, dr_limit = ENTRIES_PER_SECTOR\<rparr>
                | _ \<Rightarrow> refused D s FS_STATUS_NO_FILE st w s'))"

lemma open_dir_result:
  assumes st: "stable D s'" "silent D s s'" and d: "dir_sound d"
  shows "result D s' rid (Some (complete rid FS_STATUS_SUCCESS (CFd FD_DIR) (s'\<lparr>ft_dir := Some d\<rparr>))) (\<lambda>st w s'.
    st = FS_STATUS_SUCCESS \<and> w = FD_DIR \<and> files D s' = files D s \<and> ft_file s' = ft_file s \<and> ft_dir s' = Some d)"
proof -
  have "healthy D (s'\<lparr>ft_dir := Some d\<rparr>)" by (rule healthy_dir [OF stableD(1) [OF st(1)]]) (use d in simp)
  then show ?thesis using st stableD(2) [OF st(1)] by (auto simp: silent_def intro!: result_complete)
qed

lemma handle_dir_open_result:
  assumes st: "stable D s"
  shows "result D s rid (handle_dir_open rid path s) (dir_open_spec D path s)"
proof (cases "ft_dir s \<noteq> None \<or> is_root_path_buf path s \<or> read_packed_name path s = None")
  case True
  have "dir_sound \<lparr>dr_cluster = 0, dr_index = 0, dr_limit = ROOT_ENTRIES\<rparr>" by (simp add: dir_sound_def)
  note root = open_dir_result [OF st silent_refl this, of rid]
  consider "ft_dir s \<noteq> None" | "ft_dir s = None" "is_root_path_buf path s" | "ft_dir s = None" "\<not> is_root_path_buf path s" "read_packed_name path s = None"
    using True by argo
  then show ?thesis
    by cases (auto simp: handle_dir_open_def dir_open_spec_def Let_def intro!: result_mono [OF result_refused [OF st silent_refl]] result_mono [OF root])
next
  case False
  then obtain name where c: "ft_dir s = None" "\<not> is_root_path_buf path s" "read_packed_name path s = Some name" by auto
  let ?d = "\<lambda>c. \<lparr>dr_cluster = c, dr_index = 0, dr_limit = ENTRIES_PER_SECTOR\<rparr>"
  have eq: "handle_dir_open rid path s = find_name name s \<bind> (\<lambda>(r, s). case r of
      Hit hit \<Rightarrow> if is_dir (hit_attr hit) \<and> 2 \<le> hit_cluster hit then
          Some (complete rid FS_STATUS_SUCCESS (CFd FD_DIR) (s\<lparr>ft_dir := Some (?d (hit_cluster hit))\<rparr>))
        else reply rid FS_STATUS_NO_FILE s
    | Missing \<Rightarrow> reply rid FS_STATUS_NO_FILE s | Failed \<Rightarrow> give_up rid s)"
    using c by (simp add: handle_dir_open_def)
  show ?thesis
    unfolding eq
  proof (rule find_name_cases [OF st], goal_cases)
    case (1 i s')
    let ?c = "ent_cluster (root_entry (sect D s) i)"
    have k: "2 \<le> ?c" "?c < CLUSTER_SCAN" using soundD(6,7) [OF stable_sound [OF st] 1(3)] by (simp_all add: cluster_at_def)
    show ?case
    proof (cases "is_dir (ent_attr (root_entry (sect D s) i))")
      case True
      then have h: "is_dir (ent_attr (root_entry (sect D s) i)) \<and> 2 \<le> ?c" using k by simp
      have d: "dir_at (sect D s) i ?c" using True 1(3) by (simp add: dir_at_def)
      have "dir_sound (?d ?c)" using k by (simp add: dir_sound_def)
      from open_dir_result [OF 1(1,2) this] show ?thesis
        unfolding Scan.case hit_from_fields if_P [OF h]
        by (rule result_mono) (use True d c 1(4,5) in \<open>auto simp: dir_open_spec_def node_at_def cluster_at_def Let_def\<close>)
    next
      case False
      then show ?thesis
        using c 1 by (auto simp: dir_open_spec_def node_at_def intro!: result_mono [OF result_refused])
    qed
  next
    case (2 s')
    then show ?case using c by (auto simp: dir_open_spec_def intro!: result_mono [OF result_refused])
  qed
qed

lemma pack_name_not_dot: "pack_name raw = Some name \<Longrightarrow> name ! 0 \<noteq> 0x2e"
proof
  assume n: "pack_name raw = Some name" and dot: "name ! 0 = 0x2e"
  have raw: "raw \<noteq> []" "upper (raw ! 0) = 0x2e" using pack_name_first [OF n] dot by simp_all
  have "raw ! 0 = 0x2e"
  proof (rule ccontr)
    assume ne: "raw ! 0 \<noteq> 0x2e"
    then have r: "0x61 \<le> raw ! 0" "raw ! 0 \<le> 0x7a" "raw ! 0 - 0x20 = 0x2e"
      using raw(2) by (auto simp: upper_def split: if_splits)
    then have "raw ! 0 = 0x2e + 0x20" by (metis diff_add_cancel)
    then show False using r(1) by (simp add: word_le_nat_alt)
  qed
  then have "position (\<lambda>b. b = 0x2e) raw = Some 0" using raw(1) by (simp add: position_0 hd_conv_nth)
  then show False using n by (simp add: pack_name_def split: if_splits)
qed

definition nested_spec :: "(u8 list \<rightharpoonup> node) \<Rightarrow> u8 list \<Rightarrow> u8 list \<Rightarrow> bool \<Rightarrow> u64 \<Rightarrow> bool" where
  "nested_spec t dir name busy st \<longleftrightarrow>
     (if busy then st = FS_STATUS_TOO_MANY_OPEN_FILES
      else case t dir of None \<Rightarrow> st = FS_STATUS_NO_FILE | Some (File _) \<Rightarrow> st = FS_STATUS_ERROR
        | Some (Dir m) \<Rightarrow> st = (if m name = None then FS_STATUS_NO_FILE else FS_STATUS_SUCCESS))"

definition nested_open :: "(u8 list \<rightharpoonup> node) \<Rightarrow> u8 list \<Rightarrow> u8 list \<Rightarrow> volume \<Rightarrow> OpenFile option \<Rightarrow> bool" where
  "nested_open t dir name V f \<longleftrightarrow> (\<exists>m g. t dir = Some (Dir m) \<and> f = Some g \<and> m name = Some (open_contents V g))"

lemma open_in_result:
  assumes st: "stable D s" and d: "dir_at (sect D s) i c" and n: "name ! 0 \<noteq> 0x2e" "length name = 11"
  shows "result D s rid (find_in_cluster c name s \<bind> (\<lambda>(r, s). case r of
       Hit hit \<Rightarrow> if is_dir (hit_attr hit) \<or> hit_cluster hit < 2 then reply rid FS_STATUS_ERROR s
         else Some (complete rid FS_STATUS_SUCCESS (CFd FD_FILE)
           (s\<lparr>ft_file := Some \<lparr>fl_cluster = hit_cluster hit, fl_size = hit_size hit, fl_dir_index = hit_index hit, fl_parent = c\<rparr>\<rparr>))
     | Missing \<Rightarrow> reply rid FS_STATUS_NO_FILE s | Failed \<Rightarrow> give_up rid s))
    (\<lambda>st w s'. sect D s' = sect D s \<and> ft_dir s' = ft_dir s \<and>
      (case children (sect D s) c name of None \<Rightarrow> st = FS_STATUS_NO_FILE \<and> ft_file s' = ft_file s
       | Some bytes \<Rightarrow> st = FS_STATUS_SUCCESS \<and> w = FD_FILE \<and>
           (\<exists>f. ft_file s' = Some f \<and> open_contents (sect D s) f = bytes)))"
proof -
  let ?V = "sect D s"
  have V: "volume_sound ?V" using st by simp
  have c: "2 \<le> c" "c < CLUSTER_SCAN" using soundD(6,7) [OF V, of "Root i"] d by (auto simp: dir_at_present)
  show ?thesis
  proof (rule result_scan [OF st find_in_cluster_works [OF stable_working [OF st] c]], goal_cases)
    case (1 s')
    show ?case
    proof (cases "find_spec (sub_entry ?V c) name sub_indices")
      case (Hit h)
      obtain j where j: "j < ENTRIES_PER_SECTOR" "h = hit_from j (sub_entry ?V c j)" "live (sub_entry ?V c j)"
        "ent_name (sub_entry ?V c j) = name"
        using find_spec_hit [OF Hit] by (auto simp: u16_range_set)
      have "\<not> is_dot (sub_entry ?V c j)" using n j(4) by (auto simp: is_dot_def ent_name_def)
      then have p: "present ?V (Sub c j)" using d j by auto
      let ?f = "\<lparr>fl_cluster = hit_cluster h, fl_size = hit_size h, fl_dir_index = hit_index h, fl_parent = c\<rparr>"
      have nd: "\<not> is_dir (ent_attr (sub_entry ?V c j))" "\<not> ent_cluster (sub_entry ?V c j) < 2"
        using soundD(10) [OF V p] soundD(6) [OF V p] by (simp_all add: cluster_at_def not_less)
      have fp: "file_place ?V ?f (Sub c j)" using p nd j(2) by (auto simp: file_place_def cluster_at_def)
      have "healthy D (s'\<lparr>ft_file := Some ?f\<rparr>)"
        by (rule healthy_file [OF stableD(1) [OF 1(1)]]) (use fp 1(2) in \<open>auto simp: file_sound_def\<close>)
      moreover have "children ?V c name = Some (open_contents ?V ?f)"
        using Hit j \<open>\<not> is_dot (sub_entry ?V c j)\<close> by (simp add: children_def open_contents_def)
      ultimately show ?thesis
        using 1 nd j(2) stableD(2) [OF 1(1)] unfolding Hit by (auto intro!: result_complete)
    next
      case Missing
      then show ?thesis using 1 by (auto simp: children_def intro!: result_reply)
    qed simp
  qed
qed

lemma open_nested_result:
  assumes st: "stable D s" and n: "name ! 0 \<noteq> 0x2e" "length name = 11"
  shows "result D s rid (open_nested_read rid dir name s) (\<lambda>st w s'. sect D s' = sect D s \<and> ft_dir s' = ft_dir s \<and>
    nested_spec (files D s) dir name (ft_file s \<noteq> None) st \<and>
    (if st = FS_STATUS_SUCCESS then w = FD_FILE \<and> nested_open (files D s) dir name (sect D s) (ft_file s') else ft_file s' = ft_file s))"
proof (cases "file_busy s")
  case True
  then show ?thesis
    using st by (auto simp: open_nested_read_def file_busy_def nested_spec_def fs_status_defs intro!: result_reply)
next
  case False
  then have nb: "ft_file s = None" by (simp add: file_busy_def)
  show ?thesis
    unfolding open_nested_read_def if_not_P [OF False]
  proof (rule find_name_cases [OF st], goal_cases)
    case (1 i s')
    let ?e = "root_entry (sect D s) i"
    have c: "2 \<le> ent_cluster ?e" using soundD(6) [OF stable_sound [OF st] 1(3)] by (simp add: cluster_at_def)
    show ?case
    proof (cases "is_dir (ent_attr ?e)")
      case False
      then show ?thesis using 1 nb by (auto simp: silent_def nested_spec_def node_at_def fs_status_defs intro!: result_reply)
    next
      case True
      then have d: "dir_at (sect D s') i (ent_cluster ?e)" using 1(2,3) by (simp add: dir_at_def silent_def)
      have h: "is_dir (ent_attr ?e) \<and> 2 \<le> ent_cluster ?e" using True c by simp
      show ?thesis
        unfolding Scan.case hit_from_fields if_P [OF h]
        by (rule result_mono [OF open_in_result [OF 1(1) d n]])
          (use True 1 nb in \<open>auto simp: silent_def nested_spec_def nested_open_def node_at_def cluster_at_def fs_status_defs
            split: option.splits\<close>)
    qed
  qed (use nb in \<open>auto simp: silent_def nested_spec_def fs_status_defs intro!: result_reply\<close>)
qed

text \<open>What the path and the flags of an open command ask for: a status that refuses it at once, or the
  directory, if any, and the name of the file.\<close>

abbreviation create_flags :: u64 where
  "create_flags \<equiv> FS_OPEN_FLAGS_CREATE OR FS_OPEN_FLAGS_WRITE_ONLY"

definition open_target :: "fs_buffer_t \<Rightarrow> u64 \<Rightarrow> 'd fat \<Rightarrow> u64 + u8 list option \<times> u8 list" where
  "open_target path flags s =
     (let sz = unat (fb_size path); raw = mem_get (unat (fb_offset path)) sz (sh_share (ft_shared s))
      in if 24 < sz then Inl FS_STATUS_INVALID_NAME
         else if 0 < sz \<and> \<not> in_share (fb_offset path) sz then Inl FS_STATUS_INVALID_BUFFER
         else if 0x2f \<in> set raw then
           if flags \<noteq> FS_OPEN_FLAGS_READ_ONLY then Inl FS_STATUS_ERROR
           else (case two_components raw of
               None \<Rightarrow> Inl FS_STATUS_INVALID_NAME
             | Some (dir, file) \<Rightarrow>
                 (case (pack_name dir, pack_name file) of
                    (Some dir_name, Some name) \<Rightarrow> Inr (Some dir_name, name) | _ \<Rightarrow> Inl FS_STATUS_INVALID_NAME))
         else if 11 < sz \<or> pack_name raw = None then Inl FS_STATUS_INVALID_NAME
         else if flags \<notin> {create_flags, FS_OPEN_FLAGS_READ_ONLY} then Inl FS_STATUS_ERROR
         else Inr (None, the (pack_name raw)))"

lemma handle_open_target:
  "handle_open rid path flags s =
    (case open_target path flags s of
       Inl code \<Rightarrow> reply rid code s
     | Inr (Some dir, name) \<Rightarrow> open_nested_read rid dir name s
     | Inr (None, name) \<Rightarrow> if flags = create_flags then create_file rid name s else open_read rid name s)"
proof -
  let ?sz = "unat (fb_size path)"
  let ?raw = "mem_get (unat (fb_offset path)) ?sz (sh_share (ft_shared s))"
  have copied: "(if 0 < ?sz then copy_share (fb_offset path) ?sz s else Some []) =
      (if 0 < ?sz \<and> \<not> in_share (fb_offset path) ?sz then None else Some ?raw)"
    by (auto simp: copy_share_def mem_get_def)
  show ?thesis
    unfolding handle_open_def open_target_def Let_def copied PATH_MAX_def
    by (simp split: option.split prod.split)
qed

lemma pack_name_nil: "pack_name [] = None"
  using pack_name_first [of "[]"] by (cases "pack_name []") auto

lemma open_target_names:
  assumes "open_target path flags s = Inr (dir, name)"
  shows "name ! 0 \<noteq> 0x2e" "length name = 11" "flags = create_flags \<Longrightarrow> dir = None"
    "dir = None \<Longrightarrow> flags \<noteq> create_flags \<Longrightarrow> flags = FS_OPEN_FLAGS_READ_ONLY"
    "dir = None \<Longrightarrow> read_packed_name path s = Some name"
  using assms pack_name_not_dot pack_name_length pack_name_first pack_name_nil
  by (auto simp: open_target_def Let_def read_packed_name_def copy_share_def word_less_nat_alt FS_OPEN_FLAGS_CREATE_def FS_OPEN_FLAGS_WRITE_ONLY_def FS_OPEN_FLAGS_READ_ONLY_def mem_get_def
      split: if_splits option.splits prod.splits)

text \<open>Opening: at most one file is open. A new file is empty; an open file of the root directory is the
  one of that name, and one of a subdirectory reads as the file of the tree.\<close>

definition open_file_spec :: "'d dev \<Rightarrow> fs_buffer_t \<Rightarrow> u64 \<Rightarrow> 'd fat \<Rightarrow> u64 \<Rightarrow> u64 \<Rightarrow> 'd fat \<Rightarrow> bool" where
  "open_file_spec D path flags s st w s' \<longleftrightarrow>
     (let t = files D s;
        opens = (\<lambda>t'. st = FS_STATUS_SUCCESS \<and> w = FD_FILE \<and> files D s' = t' \<and> ft_dir s' = ft_dir s \<and> ft_file s' \<noteq> None)
      in case open_target path flags s of
           Inl code \<Rightarrow> refused D s code st w s'
         | Inr (dir, name) \<Rightarrow>
             if ft_file s \<noteq> None then refused D s FS_STATUS_TOO_MANY_OPEN_FILES st w s'
             else (case dir of
                 None \<Rightarrow>
                   if flags = create_flags then
                     if t name \<noteq> None then refused D s FS_STATUS_ALREADY_EXISTS st w s'
                     else if volume_full (sect D s) then refused D s FS_STATUS_DIRECTORY_IS_FULL st w s'
                     else opens (t(name \<mapsto> File [])) \<and> opened D name s'
                   else (case t name of
                       None \<Rightarrow> refused D s FS_STATUS_NO_FILE st w s'
                     | Some (Dir _) \<Rightarrow> refused D s FS_STATUS_ERROR st w s'
                     | Some (File _) \<Rightarrow> opens t \<and> opened D name s')
               | Some d \<Rightarrow>
                   (case t d of
                      None \<Rightarrow> refused D s FS_STATUS_NO_FILE st w s'
                    | Some (File _) \<Rightarrow> refused D s FS_STATUS_ERROR st w s'
                    | Some (Dir m) \<Rightarrow>
                        (case m name of
                           None \<Rightarrow> refused D s FS_STATUS_NO_FILE st w s'
                         | Some bytes \<Rightarrow> opens t \<and> open_contents (sect D s') (the (ft_file s')) = bytes))))"

lemma handle_open_result:
  assumes st: "stable D s" and p: "flags = create_flags \<longrightarrow> plain_path path s"
  shows "result D s rid (handle_open rid path flags s) (open_file_spec D path flags s)"
proof (cases "open_target path flags s")
  case (Inl code)
  then show ?thesis
    unfolding handle_open_target by (auto simp: open_file_spec_def intro!: result_mono [OF result_refused [OF st silent_refl]])
next
  case (Inr r)
  obtain dir name where r: "open_target path flags s = Inr (dir, name)" using Inr by (cases r) auto
  note n = open_target_names [OF r]
  let ?t = "files D s"
  show ?thesis
  proof (cases dir)
    case (Some d)
    note spec = open_file_spec_def [of D path flags s, unfolded r Some Let_def sum.case prod.case option.case]
    show ?thesis
      unfolding handle_open_target r Some sum.case prod.case option.case
    proof (rule result_zero [OF open_nested_result [OF st n(1,2)]], goal_cases)
      case (1 st' w s')
      consider "ft_file s \<noteq> None" | "ft_file s = None" "?t d = None" | x where "ft_file s = None" "?t d = Some (File x)"
        | m where "ft_file s = None" "?t d = Some (Dir m)" "m name = None"
        | m x where "ft_file s = None" "?t d = Some (Dir m)" "m name = Some x" by (metis not_None_eq node.exhaust)
      then show ?case
        using 1 by cases (auto simp: spec refused_def nested_spec_def nested_open_def fs_status_defs)
    qed
  next
    case None
    note spec = open_file_spec_def [of D path flags s, unfolded r None Let_def sum.case prod.case option.case]
    have op: "opened D name s' \<Longrightarrow> ft_file s' \<noteq> None" for s' by (auto simp: opened_def)
    show ?thesis
    proof (cases "flags = create_flags")
      case True
      have "plain name" using p True n(2) plain_name [OF n(5) [OF None]] by (simp add: plain_def)
      show ?thesis
        unfolding handle_open_target r None sum.case prod.case option.case if_P [OF True]
      proof (rule result_zero [OF create_file_result [OF st \<open>plain name\<close>]], goal_cases)
        case (1 st' w s')
        consider "ft_file s \<noteq> None" | "ft_file s = None" "?t name \<noteq> None" | "ft_file s = None" "?t name = None" "volume_full (sect D s)"
          | "ft_file s = None" "?t name = None" "\<not> volume_full (sect D s)" by argo
        then show ?case
          using 1 op [of s'] True unfolding spec by cases (auto simp: refused_def add_spec_def fs_status_defs)
      qed
    next
      case False
      show ?thesis
        unfolding handle_open_target r None sum.case prod.case option.case if_not_P [OF False]
      proof (rule result_zero [OF open_read_result [OF st]], goal_cases)
        case (1 st' w s')
        consider "ft_file s \<noteq> None" | "ft_file s = None" "?t name = None" | x where "ft_file s = None" "?t name = Some (File x)"
          | m where "ft_file s = None" "?t name = Some (Dir m)" by (metis not_None_eq node.exhaust)
        then show ?case
          using 1 op [of s'] False by cases (auto simp: spec refused_def open_spec_def fs_status_defs)
      qed
    qed
  qed
qed

end
