(* ===== verification/FatServe.thy ===== *)
theory FatServe
  imports FatHandlers
begin

text \<open>
  The commands of the file server as steps on the tree of files, the runs of its worker, and a
  disk in memory as the device behind the block queues.
\<close>

subsection \<open>Commands\<close>

definition plain_command :: "fs_cmd_t \<Rightarrow> 'd fat \<Rightarrow> bool" where
  "plain_command cmd s \<longleftrightarrow>
     (let ps = cmd_params cmd; ty = cmd_type cmd
      in (ty = FS_CMD_FILE_OPEN \<and> param_word ps 2 = create_flags \<or> ty = FS_CMD_DIR_CREATE \<longrightarrow> plain_path (param_buffer ps 0) s)
         \<and> (ty = FS_CMD_RENAME \<longrightarrow> plain_path (param_buffer ps 2) s))"

text \<open>The bytes of the open file. They are those of the tree when it is a file of the root directory.\<close>

definition open_bytes :: "'d dev \<Rightarrow> 'd fat \<Rightarrow> u8 list" where
  "open_bytes D s = open_contents (sect D s) (the (ft_file s))"

lemma opened_bytes:
  assumes "stable D s" and "opened D name s"
  shows "files D s name = Some (File (open_bytes D s))"
proof -
  obtain f i where f: "ft_file s = Some f" "file_place (sect D s) f (Root i)" "ent_name (root_entry (sect D s) i) = name"
    using assms(2) by (auto simp: opened_def)
  have "present (sect D s) (Root i)" "\<not> is_dir (ent_attr (root_entry (sect D s) i))" using f(2) by (simp_all add: file_place_def)
  then show ?thesis
    using tree_at [OF stable_sound [OF assms(1)]] f open_contents_place [OF f(2)] by (auto simp: node_at_def open_bytes_def)
qed

definition unchanged :: "'d dev \<Rightarrow> 'd fat \<Rightarrow> 'd fat \<Rightarrow> bool" where
  "unchanged D s s' \<longleftrightarrow> files D s' = files D s \<and> ft_file s' = ft_file s \<and> ft_dir s' = ft_dir s"

text \<open>Writing replaces the contents of the open file, which must be one of the root directory, with up to
  one sector of bytes from the share; reading copies the bytes of the open file to the share.\<close>

definition write_spec :: "'d dev \<Rightarrow> u64 \<Rightarrow> u64 \<Rightarrow> fs_buffer_t \<Rightarrow> 'd fat \<Rightarrow> u64 \<Rightarrow> u64 \<Rightarrow> 'd fat \<Rightarrow> bool" where
  "write_spec D fd off buf s st w s' \<longleftrightarrow>
     (let n = unat (fb_size buf)
      in if ft_file s = None \<or> fd \<noteq> FD_FILE then refused D s FS_STATUS_INVALID_FD st w s'
         else if (\<nexists>name. opened D name s) \<or> off \<noteq> 0 \<or> n = 0 \<or> 512 < n then refused D s FS_STATUS_INVALID_WRITE st w s'
         else if \<not> in_share (fb_offset buf) n then refused D s FS_STATUS_INVALID_BUFFER st w s'
         else st = FS_STATUS_SUCCESS \<and> w = fb_size buf \<and> ft_dir s' = ft_dir s \<and> (\<exists>name. opened D name s \<and> opened D name s' \<and>
           files D s' = (files D s)(name \<mapsto> File (mem_get (unat (fb_offset buf)) n (sh_share (ft_shared s))))))"

definition read_spec :: "'d dev \<Rightarrow> u64 \<Rightarrow> u64 \<Rightarrow> fs_buffer_t \<Rightarrow> 'd fat \<Rightarrow> u64 \<Rightarrow> u64 \<Rightarrow> 'd fat \<Rightarrow> bool" where
  "read_spec D fd off buf s st w s' \<longleftrightarrow>
     (if ft_file s = None \<or> fd \<noteq> FD_FILE then refused D s FS_STATUS_INVALID_FD st w s'
      else if off \<noteq> 0 then refused D s FS_STATUS_INVALID_READ st w s'
      else if \<not> in_share (fb_offset buf) (unat (fb_size buf)) then refused D s FS_STATUS_INVALID_BUFFER st w s'
      else let bytes = take (unat (fb_size buf)) (open_bytes D s)
        in st = FS_STATUS_SUCCESS \<and> w = of_nat (length bytes) \<and> unchanged D s s' \<and>
           mem_get (unat (fb_offset buf)) (length bytes) (sh_share (ft_shared s')) = bytes \<and>
           (\<forall>name. opened D name s \<longrightarrow> files D s name = Some (File (open_bytes D s))))"

lemma opened_parent:
  assumes "stable D s" and "ft_file s = Some f"
  shows "(\<exists>name. opened D name s) \<longleftrightarrow> fl_parent f = 0"
proof
  assume "\<exists>name. opened D name s"
  then show "fl_parent f = 0" using assms(2) by (auto simp: opened_def file_place_def)
next
  assume z: "fl_parent f = 0"
  obtain p where p: "file_place (sect D s) f p" using stable_file [OF assms] by blast
  then show "\<exists>name. opened D name s" using not_root_file [OF stable_sound [OF assms(1)] p z] assms(2) by (auto simp: opened_def)
qed

lemma write_step:
  assumes st: "stable D s"
  shows "result D s rid (handle_write rid fd off buf s) (write_spec D fd off buf s)"
proof (cases "write_ok s fd off buf")
  case True
  then obtain f where f: "ft_file s = Some f" "fl_parent f = 0" by (auto simp: write_ok_def)
  then have "\<exists>name. opened D name s" using opened_parent [OF st] by blast
  then show ?thesis
    using True f by (auto intro!: result_mono [OF handle_write_result [OF st]] simp: write_spec_def write_ok_def SECTOR_BYTES_def word_gt_0_no Let_def unat_eq_zero)
next
  case False
  note ref = result_mono [OF result_refused [OF st silent_refl]]
  show ?thesis
  proof (cases "ft_file s")
    case None
    then show ?thesis by (auto simp: handle_write_def write_spec_def Let_def intro!: ref)
  next
    case (Some f)
    note op = opened_parent [OF st Some]
    have "\<not> (fl_parent f = 0 \<and> fd = FD_FILE \<and> off = 0 \<and> fb_size buf \<noteq> 0 \<and> \<not> 512 < unat (fb_size buf) \<and> in_share (fb_offset buf) (unat (fb_size buf)))"
      using False Some by (auto simp: write_ok_def word_gt_0 SECTOR_BYTES_def not_less)
    then consider "fd \<noteq> FD_FILE" | "fd = FD_FILE" "fl_parent f \<noteq> 0 \<or> off \<noteq> 0 \<or> fb_size buf = 0 \<or> 512 < unat (fb_size buf)"
      | "fd = FD_FILE" "fl_parent f = 0" "off = 0" "fb_size buf \<noteq> 0" "\<not> 512 < unat (fb_size buf)" "\<not> in_share (fb_offset buf) (unat (fb_size buf))"
      by argo
    then show ?thesis
      using Some op
      by cases (auto simp: handle_write_def write_spec_def copy_share_def SECTOR_BYTES_def Let_def unat_eq_zero intro!: ref)
  qed
qed

lemma read_step:
  assumes st: "stable D s"
  shows "result D s rid (handle_read rid fd off buf s) (read_spec D fd off buf s)"
proof (cases "read_ok s fd off buf")
  case True
  then show ?thesis
    using opened_bytes [OF st]
    by (auto intro!: result_mono [OF handle_read_result [OF st]] simp: read_spec_def read_ok_def unchanged_def open_bytes_def Let_def)
next
  case False
  then show ?thesis
    by (cases "ft_file s")
      (auto simp: handle_read_def read_spec_def read_ok_def share_span_def intro!: result_mono [OF result_refused [OF st silent_refl]])
qed

text \<open>Closing, and listing the entries of the open directory from the handle on.\<close>

definition close_spec :: "'d dev \<Rightarrow> u64 \<Rightarrow> 'd fat \<Rightarrow> u64 \<Rightarrow> u64 \<Rightarrow> 'd fat \<Rightarrow> bool" where
  "close_spec D fd s st w s' \<longleftrightarrow>
     (if ft_file s = None \<or> fd \<noteq> FD_FILE then refused D s FS_STATUS_INVALID_FD st w s'
      else st = FS_STATUS_SUCCESS \<and> w = 0 \<and> files D s' = files D s \<and> ft_file s' = None \<and> ft_dir s' = ft_dir s)"

definition dir_close_spec :: "'d dev \<Rightarrow> u64 \<Rightarrow> 'd fat \<Rightarrow> u64 \<Rightarrow> u64 \<Rightarrow> 'd fat \<Rightarrow> bool" where
  "dir_close_spec D fd s st w s' \<longleftrightarrow>
     (if ft_dir s = None \<or> fd \<noteq> FD_DIR then refused D s FS_STATUS_INVALID_FD st w s'
      else st = FS_STATUS_SUCCESS \<and> w = 0 \<and> files D s' = files D s \<and> ft_file s' = ft_file s \<and> ft_dir s' = None)"

definition dir_read_spec :: "'d dev \<Rightarrow> u64 \<Rightarrow> fs_buffer_t \<Rightarrow> 'd fat \<Rightarrow> u64 \<Rightarrow> u64 \<Rightarrow> 'd fat \<Rightarrow> bool" where
  "dir_read_spec D fd buf s st w s' \<longleftrightarrow>
     (case ft_dir s of
        None \<Rightarrow> refused D s FS_STATUS_INVALID_FD st w s'
      | Some d \<Rightarrow>
          if fd \<noteq> FD_DIR then refused D s FS_STATUS_INVALID_FD st w s'
          else files D s' = files D s \<and> ft_file s' = ft_file s \<and>
            listed (sect D s) buf (dr_cluster d) (u16_range (dr_index d) (dr_limit d)) st w (ft_dir s) s')"

lemma close_step: "stable D s \<Longrightarrow> result D s rid (handle_close rid fd s) (close_spec D fd s)"
  by (rule result_zero [OF handle_close_result]) (auto simp: close_spec_def refused_def fs_status_defs split: if_splits)

lemma dir_close_step: "stable D s \<Longrightarrow> result D s rid (handle_dir_close rid fd s) (dir_close_spec D fd s)"
  by (rule result_zero [OF handle_dir_close_result]) (auto simp: dir_close_spec_def refused_def fs_status_defs split: if_splits)

lemma dir_read_step:
  assumes st: "stable D s"
  shows "result D s rid (handle_dir_read rid fd buf s) (dir_read_spec D fd buf s)"
proof (cases "ft_dir s = None \<or> fd \<noteq> FD_DIR")
  case True
  then show ?thesis
    by (cases "ft_dir s") (auto simp: handle_dir_read_def dir_read_spec_def intro!: result_mono [OF result_refused [OF st silent_refl]])
next
  case False
  then show ?thesis
    by (auto intro!: result_mono [OF handle_dir_read_result [OF st]] simp: dir_read_spec_def)
qed

text \<open>Changes of the tree. Removing the file that is open closes it.\<close>

definition change_spec :: "'d dev \<Rightarrow> 'd fat \<Rightarrow> (u64 \<Rightarrow> (u8 list \<rightharpoonup> node) \<Rightarrow> bool) \<Rightarrow> u64 \<Rightarrow> u64 \<Rightarrow> 'd fat \<Rightarrow> bool" where
  "change_spec D s P st w s' \<longleftrightarrow> w = 0 \<and> ft_file s' = ft_file s \<and> ft_dir s' = ft_dir s \<and> P st (files D s')"

definition remove_file_spec :: "'d dev \<Rightarrow> 'd fat \<Rightarrow> u8 list \<Rightarrow> u64 \<Rightarrow> u64 \<Rightarrow> 'd fat \<Rightarrow> bool" where
  "remove_file_spec D s name st w s' \<longleftrightarrow> w = 0 \<and> remove_spec (files D s) name st (files D s') \<and> ft_dir s' = ft_dir s \<and>
     ft_file s' = (if st = FS_STATUS_SUCCESS \<and> opened D name s then None else ft_file s)"

text \<open>The specification of every command: the status and the data of its completion, the tree and the
  handles afterwards.\<close>

definition tree_step :: "'d dev \<Rightarrow> fs_cmd_t \<Rightarrow> 'd fat \<Rightarrow> u64 \<Rightarrow> u64 \<Rightarrow> 'd fat \<Rightarrow> bool" where
  "tree_step D cmd s =
     (let t = files D s; ps = cmd_params cmd; ty = cmd_type cmd
      in if ty = FS_CMD_FILE_OPEN then open_file_spec D (param_buffer ps 0) (param_word ps 2) s
         else if ty = FS_CMD_FILE_CLOSE then close_spec D (param_word ps 0) s
         else if ty = FS_CMD_FILE_WRITE then write_spec D (param_word ps 0) (param_word ps 1) (param_buffer ps 2) s
         else if ty = FS_CMD_FILE_READ then read_spec D (param_word ps 0) (param_word ps 1) (param_buffer ps 2) s
         else if ty = FS_CMD_STAT then stat_spec D (param_buffer ps 0) (param_buffer ps 2) s
         else if ty = FS_CMD_RENAME then
           (case (read_packed_name (param_buffer ps 0) s, read_packed_name (param_buffer ps 2) s) of
              (Some old, Some new) \<Rightarrow> change_spec D s (rename_spec t old new)
            | _ \<Rightarrow> refused D s FS_STATUS_INVALID_NAME)
         else if ty = FS_CMD_FILE_REMOVE then
           (case read_packed_name (param_buffer ps 0) s of
              Some name \<Rightarrow> remove_file_spec D s name | None \<Rightarrow> refused D s FS_STATUS_INVALID_NAME)
         else if ty = FS_CMD_DIR_CREATE then
           (case read_packed_name (param_buffer ps 0) s of
              Some name \<Rightarrow> change_spec D s (add_spec (volume_full (sect D s)) t name (Dir Map.empty))
            | None \<Rightarrow> refused D s FS_STATUS_INVALID_NAME)
         else if ty = FS_CMD_DIR_OPEN then dir_open_spec D (param_buffer ps 0) s
         else if ty = FS_CMD_DIR_READ then dir_read_spec D (param_word ps 0) (param_buffer ps 1) s
         else if ty = FS_CMD_DIR_CLOSE then dir_close_spec D (param_word ps 0) s
         else refused D s FS_STATUS_INVALID_COMMAND)"

lemma rename_step:
  assumes st: "stable D s" and p: "plain_path new_path s"
  shows "result D s rid (handle_rename rid old_path new_path s)
    (case (read_packed_name old_path s, read_packed_name new_path s) of
       (Some old, Some new) \<Rightarrow> change_spec D s (rename_spec (files D s) old new)
     | _ \<Rightarrow> refused D s FS_STATUS_INVALID_NAME)"
proof (cases "read_packed_name old_path s = None \<or> read_packed_name new_path s = None")
  case True
  then show ?thesis
    by (auto simp: handle_rename_def intro!: result_refused [OF st] split: option.split)
next
  case False
  then obtain old new where n: "read_packed_name old_path s = Some old" "read_packed_name new_path s = Some new" by auto
  show ?thesis
    unfolding n option.case prod.case
    by (rule result_mono [OF handle_rename_result [OF st n p]]) (simp add: change_spec_def)
qed

lemma remove_step:
  assumes st: "stable D s"
  shows "result D s rid (handle_remove rid path s) (case read_packed_name path s of
      Some name \<Rightarrow> remove_file_spec D s name | None \<Rightarrow> refused D s FS_STATUS_INVALID_NAME)"
proof (cases "read_packed_name path s")
  case None
  then show ?thesis by (auto simp: handle_remove_def intro!: result_refused [OF st])
next
  case (Some name)
  then show ?thesis by (auto intro!: result_mono [OF handle_remove_result [OF st Some]] simp: remove_file_spec_def)
qed

lemma mkdir_step:
  assumes st: "stable D s" and p: "plain_path path s"
  shows "result D s rid (handle_mkdir rid path s) (case read_packed_name path s of
      Some name \<Rightarrow> change_spec D s (add_spec (volume_full (sect D s)) (files D s) name (Dir Map.empty))
    | None \<Rightarrow> refused D s FS_STATUS_INVALID_NAME)"
proof (cases "read_packed_name path s")
  case None
  then show ?thesis by (auto simp: handle_mkdir_def intro!: result_refused [OF st])
next
  case (Some name)
  then show ?thesis by (auto intro!: result_mono [OF handle_mkdir_result [OF st Some p]] simp: change_spec_def)
qed

lemma dispatch_steps:
  assumes st: "stable D s" and p: "plain_command cmd s"
  shows "result D s (cmd_id cmd) (dispatch cmd s) (tree_step D cmd s)"
  using p
    handle_open_result [OF st, of "param_word (cmd_params cmd) 2" "param_buffer (cmd_params cmd) 0" "cmd_id cmd"]
    rename_step [OF st, of "param_buffer (cmd_params cmd) 2" "cmd_id cmd" "param_buffer (cmd_params cmd) 0"]
    mkdir_step [OF st, of "param_buffer (cmd_params cmd) 0" "cmd_id cmd"]
  unfolding dispatch_def tree_step_def plain_command_def Let_def
  by (simp add: close_step [OF st] write_step [OF st] read_step [OF st] handle_stat_result [OF st] remove_step [OF st]
      handle_dir_open_result [OF st] dir_read_step [OF st] dir_close_step [OF st] result_refused [OF st])

subsection \<open>Serving\<close>

lemma command_fields:
  fixes q :: fs_queue_t and s :: "'d fat"
  defines "s' \<equiv> s\<lparr>ft_shared := (ft_shared s)\<lparr>sh_commands := q\<rparr>\<rparr>"
  shows "sect D s' = sect D s" "tree_step D cmd s' = tree_step D cmd s" "plain_command cmd s' = plain_command cmd s"
    "fs_queue_wf q \<Longrightarrow> stable D s \<Longrightarrow> stable D s'"
proof -
  show sec: "sect D s' = sect D s" by (rule sect_cong) (simp_all add: s'_def)
  have ft: "ft_file s' = ft_file s" "ft_dir s' = ft_dir s" by (simp_all add: s'_def)
  have op: "opened D n s' = opened D n s" for n by (simp add: opened_def sec ft)
  have sh: "sh_share (ft_shared s') = sh_share (ft_shared s)" by (simp add: s'_def)
  have rd: "read_packed_name b s' = read_packed_name b s" "is_root_path_buf b s' = is_root_path_buf b s"
    "open_target b fl s' = open_target b fl s" for b fl
    by (simp_all add: read_packed_name_def is_root_path_buf_def open_target_def copy_share_def sh)
  have rf: "refused D s' = refused D s" by (simp add: refused_def fun_eq_iff sec ft)
  have sa: "stat_answer D s' = stat_answer D s" by (simp add: stat_answer_def fun_eq_iff sec ft rf)
  have "open_file_spec D b fl s' = open_file_spec D b fl s" "close_spec D fd s' = close_spec D fd s" "write_spec D fd off b s' = write_spec D fd off b s"
    "read_spec D fd off b s' = read_spec D fd off b s" "stat_spec D b b' s' = stat_spec D b b' s" "remove_file_spec D s' n = remove_file_spec D s n"
    "change_spec D s' P = change_spec D s P" "dir_open_spec D b s' = dir_open_spec D b s" "dir_read_spec D fd b s' = dir_read_spec D fd b s"
    "dir_close_spec D fd s' = dir_close_spec D fd s" for b b' fl fd off n P
    by (intro ext; simp only: open_file_spec_def close_spec_def write_spec_def read_spec_def stat_spec_def remove_file_spec_def change_spec_def
        dir_open_spec_def dir_read_spec_def dir_close_spec_def unchanged_def open_bytes_def sec ft op sh rd rf sa)+
  then show "tree_step D cmd s' = tree_step D cmd s" by (simp only: tree_step_def sec rd rf)
  show "plain_command cmd s' = plain_command cmd s" by (simp add: plain_command_def plain_path_def s'_def Let_def)
  show "stable D s'" if "fs_queue_wf q" "stable D s"
    using that sec ft unfolding stable_def healthy_def
    by (auto simp: working_def steady_def alive_def tidy_def peers_ok_def calm_def room_def s'_def)
qed

lemma serve_one_steps:
  assumes st: "stable D s" and items: "cmd_items (sh_commands (ft_shared s)) = cmd # cmds" and p: "plain_command cmd s"
  shows "result D s (cmd_id cmd) (serve_one s) (tree_step D cmd s)"
proof -
  have wf: "fs_queue_wf (sh_commands (ft_shared s))"
    using stable_working [OF st] by (simp add: working_def steady_def alive_def tidy_def peers_ok_def)
  obtain msg q where q: "fs_message_dequeue (sh_commands (ft_shared s)) (replicate 8 0) = (0, msg, q)"
    "msg_cmd msg = cmd" "fs_queue_wf q"
    using command_taken [OF wf items, of "replicate 8 0"] by auto
  let ?s = "s\<lparr>ft_shared := (ft_shared s)\<lparr>sh_commands := q\<rparr>\<rparr>"
  have "result D ?s (cmd_id cmd) (dispatch cmd ?s) (tree_step D cmd ?s)"
    using st p q(3) by (intro dispatch_steps) (simp_all add: command_fields)
  then have "result D ?s (cmd_id cmd) (dispatch cmd ?s) (tree_step D cmd s)"
    by (simp only: command_fields)
  then show ?thesis using q by (simp add: serve_one_def result_def)
qed

text \<open>The runs of the worker: it waits for its client, which leaves the block queues and the device
  alone and keeps room for the next completion, and serves the next command.\<close>

definition client_turn :: "'d fat \<Rightarrow> 'd shared \<Rightarrow> bool" where
  "client_turn s w \<longleftrightarrow> ft_wait s FS_CH (ft_shared s) = Some w \<and> sh_blk w = sh_blk (ft_shared s) \<and> sh_peers w = sh_peers (ft_shared s)
     \<and> TRANSFER \<le> length (sh_data w) \<and> fs_queue_wf (sh_commands w) \<and> fs_queue_wf (sh_completions w)
     \<and> room (s\<lparr>ft_shared := w\<rparr>)
     \<and> (case cmd_items (sh_commands w) of [] \<Rightarrow> True | cmd # _ \<Rightarrow> plain_command cmd (s\<lparr>ft_shared := w\<rparr>))"

inductive fat_run :: "'d fat \<Rightarrow> 'd fat \<Rightarrow> bool" for s0 where
  start: "fat_run s0 s0"
| serve: "fat_run s0 s \<Longrightarrow> client_turn s w \<Longrightarrow> serve_one (s\<lparr>ft_shared := w\<rparr>) = Some (ok, s') \<Longrightarrow> fat_run s0 s'"

lemma client_turn_stable: "healthy D s \<Longrightarrow> client_turn s w \<Longrightarrow> stable D (s\<lparr>ft_shared := w\<rparr>)"
proof -
  assume h: "healthy D s" and t: "client_turn s w"
  have "sect D (s\<lparr>ft_shared := w\<rparr>) = sect D s" by (rule sect_cong) (use t in \<open>simp_all add: client_turn_def\<close>)
  then show ?thesis
    using h t unfolding stable_def healthy_def client_turn_def
    by (auto simp: working_def steady_def alive_def tidy_def peers_ok_def calm_def)
qed

lemma serve_one_idle:
  assumes st: "stable D s" and items: "cmd_items (sh_commands (ft_shared s)) = []"
  shows "\<exists>s'. serve_one s = Some (True, s') \<and> healthy D s'"
proof -
  let ?q = "sh_commands (ft_shared s)"
  have wf: "fs_queue_wf ?q"
    using stable_working [OF st] by (simp add: working_def steady_def alive_def tidy_def peers_ok_def)
  have "fs_message_dequeue ?q (replicate 8 0) = (-1, replicate 8 0, ?q)"
    using items by (simp add: cmd_items_def fs_items_def ring_items_Nil_iff fs_message_dequeue_def ring_is_empty_def)
  then show ?thesis using stableD(1) [OF command_fields(4) [OF wf st]] by (simp add: serve_one_def)
qed

lemma serve_one_healthy:
  assumes h: "healthy D s" and t: "client_turn s w"
  shows "\<exists>s'. serve_one (s\<lparr>ft_shared := w\<rparr>) = Some (True, s') \<and> healthy D s'"
proof (cases "cmd_items (sh_commands w)")
  case Nil
  then show ?thesis using serve_one_idle [OF client_turn_stable [OF h t]] by simp
next
  case (Cons cmd cmds)
  then have "plain_command cmd (s\<lparr>ft_shared := w\<rparr>)" using t by (simp add: client_turn_def)
  then show ?thesis
    using serve_one_steps [OF client_turn_stable [OF h t], of cmd cmds] Cons
    by (auto simp: result_def elim!: finishesE)
qed

lemma fat_run_healthy: "fat_run s0 s \<Longrightarrow> healthy D s0 \<Longrightarrow> healthy D s"
  by (induction rule: fat_run.induct) (use serve_one_healthy in fastforce)+

subsection \<open>A disk in memory\<close>

text \<open>The device of the examples: it serves the one request that is outstanding at once.\<close>

definition disk_serve :: "(u64 \<Rightarrow> u8 list) shared \<Rightarrow> (u64 \<Rightarrow> u8 list) shared option" where
  "disk_serve w =
     (case blk_dequeue_req (sh_blk w) zero_req of (_, r, h) \<Rightarrow>
        case blk_enqueue_resp h BLK_RESP_OK 1 (req_id r) of (_, h) \<Rightarrow>
          let n = req_block_number r
          in Some (if req_code r = BLK_REQ_READ then w\<lparr>sh_blk := h, sh_data := patch 0 (sh_peers w n) (sh_data w)\<rparr>
            else w\<lparr>sh_blk := h, sh_peers := (sh_peers w)(n := take TRANSFER (sh_data w))\<rparr>))"

lemma disk_serve_peer: "block_peer (\<lambda>d. d) (\<lambda>_. 0) (\<lambda>_. True) disk_serve"
  unfolding block_peer_def
proof (intro allI impI, elim conjE)
  fix w :: "(u64 \<Rightarrow> u8 list) shared" and r
  assume ok: "peers_ok (\<lambda>d. d) w" and items: "req_items (sh_blk w) = [r]" "resp_items (sh_blk w) = []" and one: "one_block r"
  have rd: "blk_ready (sh_blk w)" and len: "TRANSFER \<le> length (sh_data w)" "\<forall>b. length (sh_peers w b) = TRANSFER"
    using ok by (simp_all add: peers_ok_def)
  obtain h1 where h1: "blk_dequeue_req (sh_blk w) zero_req = (0, r, h1)" "blk_ready h1" "req_items h1 = []"
    "resp_queue h1 = resp_queue (sh_blk w)" "bq_capacity h1 = bq_capacity (sh_blk w)"
    using blk_dequeue_req_first [OF rd items(1)] by auto
  have "resp_items h1 = []" using blk_items_cong(1) [OF h1(4,5)] items(2) by simp
  let ?p = "\<lparr>resp_status = BLK_RESP_OK, resp_success_count = 1, resp_id = req_id r\<rparr>"
  have "length (resp_items h1) < unat (bq_capacity h1)"
    using \<open>resp_items h1 = []\<close> h1(2) by (auto simp: blk_ready_def blk_handle_wf_def ring_wf_def ring_ok_def)
  then obtain h2 where h2: "blk_enqueue_resp h1 BLK_RESP_OK 1 (req_id r) = (0, h2)" "blk_ready h2" "resp_items h2 = [?p]"
    "req_queue h2 = req_queue h1" "bq_capacity h2 = bq_capacity h1"
    using blk_enqueue_resp_room [OF h1(2), of ?p] \<open>resp_items h1 = []\<close> by auto
  have r2: "req_items h2 = []" using blk_items_cong(2) [OF h2(4,5)] h1(3) by simp
  let ?w = "if req_code r = BLK_REQ_READ then w\<lparr>sh_blk := h2, sh_data := patch 0 (sh_peers w (req_block_number r)) (sh_data w)\<rparr>
    else w\<lparr>sh_blk := h2, sh_peers := (sh_peers w)(req_block_number r := take TRANSFER (sh_data w))\<rparr>"
  have "disk_serve w = Some ?w" using h1(1) h2(1) by (simp add: disk_serve_def)
  moreover have "peers_ok (\<lambda>d. d) ?w" using ok h2(2) len by (auto simp: peers_ok_def)
  moreover have "client_step w ?w" by (auto simp: client_step_def intro: exI [of _ 0])
  moreover have "req_items (sh_blk ?w) = []" "resp_items (sh_blk ?w) = [?p]" "success ?p r" using r2 h2(3) by (auto simp: success_def)
  moreover have "transferred (\<lambda>d. d) r True w ?w" using len by (auto simp: transferred_def transfer_done_def patch_def)
  ultimately show "\<exists>w'. disk_serve w = Some w' \<and> peers_ok (\<lambda>d. d) w' \<and> client_step w w' \<and>
      (req_items (sh_blk w') = [r] \<and> resp_items (sh_blk w') = [] \<and> sh_data w' = sh_data w \<and> sh_peers w' = sh_peers w
         \<and> (0 :: nat) < 0 \<or> req_items (sh_blk w') = [] \<and> (\<exists>p. resp_items (sh_blk w') = [p] \<and> resp_id p = req_id r
         \<and> (True \<longrightarrow> success p r) \<and> transferred (\<lambda>d. d) r (success p r) w w'))"
    by (intro exI [of _ ?w]) auto
qed

end
