(* ===== verification/FatPrepare.thy ===== *)
theory FatPrepare
  imports FatServe
begin

text \<open>
  The start of the worker: a volume without a boot signature is formatted, and the file
  \<open>config/hostname\<close> is created when it is missing.
\<close>

subsection \<open>A new entry in a subdirectory\<close>

lemma find_spec_add:
  assumes "sorted_wrt (<) is" and "\<forall>i\<in>set is. i < n" and "terminated ent n" and "k < n" and "\<not> live (ent k)" and "live e"
    and "\<And>j. j < n \<Longrightarrow> ent' j = (if j = k then e else ent j)" and "ent_name e \<noteq> m"
  shows "find_spec ent' m is = find_spec ent m is"
  using assms(1,2)
proof (induction "is")
  case (Cons i "is")
  then have ih: "find_spec ent' m is = find_spec ent m is" by simp
  show ?case
  proof (cases "i = k")
    case True
    have z: "find_spec ent m is = Missing" if "ent k ! 0 = 0"
    proof (cases "is")
      case (Cons j js)
      then have "ent j ! 0 = 0" using assms(3) that Cons.prems True by (auto simp: terminated_def)
      then show ?thesis using Cons by simp
    qed simp
    have "e ! 0 \<noteq> 0" "take 11 e \<noteq> m" using assms(6,8) by (auto simp: live_def ent_name_def)
    then show ?thesis using True ih z assms(4,5) assms(7) [of k] by (auto simp: live_def)
  next
    case False
    then show ?thesis using ih Cons.prems assms(7) [of i] by simp
  qed
qed simp

lemma sound_add_sub:
  assumes V: "volume_sound V" and V': "sized V'" "mirrored V'" and d: "dir_at V i p"
    and k: "k < ENTRIES_PER_SECTOR" "\<not> live (sub_entry V p k)" "\<forall>j<k. sub_entry V p j ! 0 \<noteq> 0"
    and c: "2 \<le> c" "c < CLUSTER_SCAN" "fat_entry V c = 0"
    and roots: "\<And>j. j < ROOT_ENTRIES \<Longrightarrow> root_entry V' j = root_entry V j"
    and subs: "\<And>j. j < ENTRIES_PER_SECTOR \<Longrightarrow> sub_entry V' p j = (if j = k then e else sub_entry V p j)"
    and table: "\<And>d. d < CLUSTER_SCAN \<Longrightarrow> fat_entry V' d = (if d = c then 0xffff else fat_entry V d)"
    and sectors: "\<And>d. 2 \<le> d \<Longrightarrow> d \<noteq> c \<Longrightarrow> d \<noteq> p \<Longrightarrow> V' (data_lba d) = V (data_lba d)"
    and e: "live e" "ent_cluster e = c" "unat (ent_size e) \<le> SECTOR_BYTES" "\<not> is_dot e" "\<not> is_dir (ent_attr e)"
  shows "volume_sound V'" and "\<And>q. present V' q \<longleftrightarrow> q = Sub p k \<or> present V q"
    and "\<And>q. present V q \<Longrightarrow> entry_at V' q = entry_at V q"
    and "\<And>q. present V q \<Longrightarrow> q \<noteq> Root i \<Longrightarrow> contents V' q = contents V q"
proof -
  have free: "cluster_at V q \<noteq> c" if "present V q" for q using soundD(8) [OF V that] c(3) by auto
  have pi: "present V (Root i)" "cluster_at V (Root i) = p" using d by (simp_all add: dir_at_present)
  have dirs: "dir_at V' j d \<longleftrightarrow> dir_at V j d" for j d using roots [of j] by (auto simp: dir_at_def)
  have sub: "sub_entry V' d = sub_entry V d" if "dir_at V j d" "d \<noteq> p" for j d
    using sectors [of d] soundD(6) [OF V, of "Root j"] free [of "Root j"] that
    by (auto simp: dir_at_present intro!: sub_same)
  show pres: "present V' q \<longleftrightarrow> q = Sub p k \<or> present V q" for q
  proof (cases q)
    case (Root j)
    then show ?thesis using roots [of j] by auto
  next
    case (Sub a j)
    show ?thesis
    proof (cases "a = p")
      case True
      then show ?thesis using Sub d dirs subs [of j] e(1,4) k(1) by (auto split: if_splits)
    next
      case False
      then show ?thesis using Sub dirs sub by auto
    qed
  qed
  show ent: "entry_at V' q = entry_at V q" if q: "present V q" for q
  proof (cases q)
    case (Root j)
    then show ?thesis using q roots by simp
  next
    case (Sub a j)
    then obtain b where "dir_at V b a" "j < ENTRIES_PER_SECTOR" "live (sub_entry V a j)" using q by auto
    then show ?thesis using Sub sub [of b a] subs [of j] k(2) by (cases "a = p") auto
  qed
  then have clu: "cluster_at V' q = cluster_at V q" if "present V q" for q using that by (simp add: cluster_at_def)
  show "contents V' q = contents V q" if q: "present V q" "q \<noteq> Root i" for q
  proof -
    have "cluster_at V q \<noteq> p" using soundD(11) [OF V q(1) pi(1)] pi(2) q(2) by auto
    then show ?thesis
      using ent [OF q(1)] clu [OF q(1)] sectors [OF soundD(6) [OF V q(1)] free [OF q(1)]] by (simp add: contents_def)
  qed
  have clu_k: "cluster_at V' (Sub p k) = c" "entry_at V' (Sub p k) = e" using subs [OF k(1)] e(2) by (simp_all add: cluster_at_def)
  have ended: "terminated (sub_entry V' p) ENTRIES_PER_SECTOR"
    by (rule terminated_change [OF soundD(4) [OF V d] k(3) _ subs]) (use e(1) in \<open>simp_all add: live_def\<close>)
  have rended: "terminated (root_entry V') ROOT_ENTRIES"
    using soundD(3) [OF V] roots unfolding terminated_def by (metis order.strict_trans)
  show "volume_sound V'"
    unfolding volume_sound_def
  proof (intro conjI allI impI, goal_cases)
    case (4 j a)
    then show ?case using dirs sub ended soundD(4) [OF V] by metis
  next
    case (5 j l)
    then show ?case using pres roots soundD(5) [OF V, of j l] by auto
  next
    case (6 q) then show ?case using pres clu clu_k c(1) soundD(6) [OF V] by metis
  next
    case (7 q) then show ?case using pres clu clu_k c(2) soundD(7) [OF V] by metis
  next
    case (8 q)
    then show ?case using pres [of q] clu [of q] clu_k c(2) free [of q] soundD(7,8) [OF V, of q] table by auto
  next
    case (9 q)
    then show ?case using pres [of q] ent [of q] clu_k(2) e(3) soundD(9) [OF V, of q] by metis
  next
    case (10 a j)
    then have "Sub a j = Sub p k \<or> present V (Sub a j)" using pres by blast
    then show ?case using ent clu_k(2) e(5) soundD(10) [OF V, of a j] by (metis entry_at.simps(2))
  next
    case (11 q r)
    then show ?case using pres clu clu_k free soundD(11) [OF V] by metis
  qed (use V' rended in auto)
qed

lemma sub_entry_sub_upd:
  assumes V: "sized V" and e: "length e = DIR_ENTRY" and k: "k < ENTRIES_PER_SECTOR" and j: "j < ENTRIES_PER_SECTOR"
  shows "sub_entry (sub_upd c k e V) c j = (if j = k then e else sub_entry V c j)"
proof -
  have len: "length (V (data_lba c)) = 512" using V by (simp add: sized_def SECTOR_BYTES_def)
  have kj: "unat k < 16" "unat j < 16" using k j by (simp_all add: ENTRIES_PER_SECTOR_def word_less_nat_alt)
  show ?thesis
  proof (cases "j = k")
    case True
    then show ?thesis
      using slice_patch_same [of "unat k * 32" e "V (data_lba c)"] kj e len by (simp add: sub_entry_def sub_upd_def DIR_ENTRY_def)
  next
    case False
    then have "unat j \<noteq> unat k" by (metis unsigned_word_eqI)
    then have "unat j * 32 + 32 \<le> unat k * 32 \<or> unat k * 32 + 32 \<le> unat j * 32" by linarith
    then show ?thesis
      using False kj e len by (auto simp: sub_entry_def sub_upd_def DIR_ENTRY_def intro!: slice_patch_apart)
  qed
qed

lemma sub_upd_other [simp]:
  "2 \<le> c \<Longrightarrow> i < ROOT_ENTRIES \<Longrightarrow> root_entry (sub_upd c k e V) i = root_entry V i"
  "2 \<le> c \<Longrightarrow> d < CLUSTER_SCAN \<Longrightarrow> fat_entry (sub_upd c k e V) d = fat_entry V d"
  "2 \<le> c \<Longrightarrow> 2 \<le> d \<Longrightarrow> d \<noteq> c \<Longrightarrow> sub_upd c k e V (data_lba d) = V (data_lba d)"
  "2 \<le> c \<Longrightarrow> mirrored V \<Longrightarrow> mirrored (sub_upd c k e V)"
  using data_lba_inj [of d c] by (simp_all add: sub_upd_def mirrored_upd)

definition seeded_sector :: "u8 list" where
  "seeded_sector = patch 0 seed_bytes (replicate SECTOR_BYTES 0)"

definition seed_volume :: "u16 \<Rightarrow> u16 \<Rightarrow> u8 list \<Rightarrow> u16 \<Rightarrow> volume \<Rightarrow> volume" where
  "seed_volume p k name c V = sub_upd p k (new_entry name c (of_nat (length seed_bytes)) ATTR_ARCHIVE)
     ((fat_upd c 0xffff V)(data_lba c := seeded_sector))"

lemma seed_tree:
  assumes V: "volume_sound V" and d: "dir_at V i p"
    and k: "k < ENTRIES_PER_SECTOR" "\<not> live (sub_entry V p k)" "\<forall>j<k. live (sub_entry V p j)"
    and c: "2 \<le> c" "c < CLUSTER_SCAN" "fat_entry V c = 0"
    and n: "length name = 11" "\<not> marker (name ! 0)" "name ! 0 \<noteq> 0x2e"
    and missing: "find_spec (sub_entry V p) name sub_indices = Missing"
  shows "volume_sound (seed_volume p k name c V)"
    and "tree (seed_volume p k name c V) = (tree V)(ent_name (root_entry V i) \<mapsto> Dir ((children V p)(name \<mapsto> seed_bytes)))"
proof -
  let ?V' = "seed_volume p k name c V" and ?e = "new_entry name c (of_nat (length seed_bytes)) ATTR_ARCHIVE"
  let ?W = "(fat_upd c 0xffff V)(data_lba c := seeded_sector)"
  have pi: "present V (Root i)" "cluster_at V (Root i) = p" using d by (simp_all add: dir_at_present)
  have p: "2 \<le> p" "p < CLUSTER_SCAN" "p \<noteq> c" using soundD(6,7,8) [OF V pi(1)] pi(2) c(3) by auto
  have x: "length seeded_sector = SECTOR_BYTES" by (simp add: seeded_sector_def seed_bytes_def SECTOR_BYTES_def)
  have sz: "sized V" "sized ?W" using soundD(1) [OF V] x by auto
  have e: "live ?e" "ent_cluster ?e = c" "ent_name ?e = name" "ent_size ?e = 5" "\<not> is_dot ?e" "\<not> is_dir (ent_attr ?e)" "length ?e = DIR_ENTRY"
    using n live_name [OF n(1), of ?e]
    by (simp_all add: new_entry_fields is_dir_def is_dot_def ATTR_ARCHIVE_def ATTR_DIR_def seed_bytes_def)
  have other: "sub_entry ?W p = sub_entry V p"
    by (rule sub_same) (use p c data_lba_inj [of p c] in simp)
  have subs: "sub_entry ?V' p j = (if j = k then ?e else sub_entry V p j)" if "j < ENTRIES_PER_SECTOR" for j
    using sub_entry_sub_upd [OF sz(2) e(7) k(1) that, of p] other by (simp add: seed_volume_def)
  have roots: "root_entry ?V' j = root_entry V j" if "j < ROOT_ENTRIES" for j using that p c by (simp add: seed_volume_def)
  have table: "fat_entry ?V' d = (if d = c then 0xffff else fat_entry V d)" if "d < CLUSTER_SCAN" for d
    using fat_entry_fat_upd [OF sz(1) c(2) that] that p c by (simp add: seed_volume_def)
  have sectors: "?V' (data_lba d) = V (data_lba d)" if "2 \<le> d" "d \<noteq> c" "d \<noteq> p" for d
    using that p c data_lba_inj [of d c] by (simp add: seed_volume_def)
  have ok: "sized ?V'" "mirrored ?V'"
    using sz e(7) k(1) soundD(2) [OF V] p c unfolding seed_volume_def by (auto intro!: mirrored_upd sub_upd_other(4))
  have before: "\<forall>j<k. sub_entry V p j ! 0 \<noteq> 0" using k(3) by (simp add: live_def)
  have size5: "unat (ent_size ?e) \<le> SECTOR_BYTES" using e(4) by (simp add: SECTOR_BYTES_def)
  note add = sound_add_sub [OF V ok d k(1,2) before c roots subs table sectors e(1,2) size5 e(5,6)]
  show sound: "volume_sound ?V'" by (rule add(1))
  have kept: "present V q \<Longrightarrow> entry_at ?V' q = entry_at V q"
    "present V q \<Longrightarrow> q \<noteq> Root i \<Longrightarrow> contents ?V' q = contents V q" for q
    by (rule add(3,4); assumption)+
  have pres: "present ?V' (Root j) \<longleftrightarrow> present V (Root j)" for j using roots [of j] by auto
  have dir': "dir_at ?V' i p" using d roots [of i] by (auto simp: dir_at_def)
  have kids: "children ?V' p = (children V p)(name \<mapsto> seed_bytes)"
  proof (rule ext)
    fix m
    show "children ?V' p m = ((children V p)(name \<mapsto> seed_bytes)) m"
    proof (cases "m = name")
      case True
      have "find_spec (sub_entry ?V' p) name sub_indices = Hit (hit_from k (sub_entry ?V' p k))"
      proof (rule find_root_hit [OF soundD(4) [OF sound dir'] k(1)])
        show "j = k" if "j < ENTRIES_PER_SECTOR" "live (sub_entry ?V' p j)" "ent_name (sub_entry ?V' p j) = name" for j
          using find_root_missing [OF missing soundD(4) [OF V d] that(1)] that subs [OF that(1)] by (auto split: if_splits)
      qed (use subs [OF k(1)] e in simp_all)
      moreover have "take 5 (?V' (data_lba c)) = seed_bytes"
        using p c data_lba_inj [of c p] by (simp add: seed_volume_def seeded_sector_def patch_def seed_bytes_def)
      ultimately show ?thesis using True subs [OF k(1)] e by (simp add: children_def)
    next
      case False
      have f: "find_spec (sub_entry ?V' p) m sub_indices = find_spec (sub_entry V p) m sub_indices"
        by (rule find_spec_add [OF u16_range_sorted _ soundD(4) [OF V d] k(1,2) e(1) subs])
          (use False e(3) in \<open>auto simp: u16_range_set\<close>)
      show ?thesis
      proof (cases "find_spec (sub_entry V p) m sub_indices")
        case (Hit h)
        obtain j where j: "j < ENTRIES_PER_SECTOR" "h = hit_from j (sub_entry V p j)" "live (sub_entry V p j)"
          using find_spec_hit [OF Hit] by (auto simp: u16_range_set)
        have "sub_entry ?V' p j = sub_entry V p j" using subs [OF j(1)] j(3) k(2) by auto
        moreover have "contents ?V' (Sub p j) = contents V (Sub p j)" if "\<not> is_dot (sub_entry V p j)"
          using kept(2) [of "Sub p j"] d j that by auto
        ultimately show ?thesis using False f Hit j(2) by (auto simp: children_def contents_def cluster_at_def)
      qed (use False f in \<open>simp_all add: children_def\<close>)
    qed
  qed
  have same: "root_entry ?V' j = root_entry V j \<and> node_at ?V' j = node_at V j" if j: "present V (Root j)" "j \<noteq> i" for j
  proof
    show "root_entry ?V' j = root_entry V j" using j(1) roots by simp
    show "node_at ?V' j = node_at V j"
    proof (rule node_same [OF V j(1)])
      show "?V' (data_lba a) = V (data_lba a)" if "dir_at V j a" for a
        using that sectors [of a] soundD(6,8) [OF V j(1)] soundD(11) [OF V j(1) pi(1)] pi(2) j(2) c(3)
        by (auto simp: dir_at_present)
      show "entry_at ?V' (Sub a b) = entry_at V (Sub a b) \<and> contents ?V' (Sub a b) = contents V (Sub a b)"
        if "present V (Sub a b)" for a b
        using kept(1) [OF that] kept(2) [OF that] by simp
      show "contents ?V' (Root j) = contents V (Root j)" using kept(2) [OF j(1)] j(2) by simp
    qed (use roots j in simp)
  qed
  show "tree ?V' = (tree V)(ent_name (root_entry V i) \<mapsto> Dir ((children V p)(name \<mapsto> seed_bytes)))"
    using tree_change [OF V sound pres pi(1) same] roots [of i] pi d kids
    by (simp add: node_at_def dir_at_def cluster_at_def)
qed

subsection \<open>Seeding the host name\<close>

lemma write_seed_chain:
  assumes w: "working D s" and V: "sect D s = V" and p: "2 \<le> p" "p < CLUSTER_SCAN" and k: "k < ENTRIES_PER_SECTOR"
    and c: "2 \<le> c" "c < CLUSTER_SCAN" and n: "length name = 11"
  shows "works D s (all_ok [set_fat c 0xffff,
      edit_sector (data_lba c) (\<lambda>sector. put_slice 0 seed_bytes (replicate (length sector) 0)),
      write_in_cluster p k name c (of_nat (length seed_bytes)) ATTR_ARCHIVE, flush_block] s) (seed_volume p k name c V) True"
proof -
  have ed: "works D s' (edit_sector (data_lba c) (\<lambda>sector. put_slice 0 seed_bytes (replicate (length sector) 0)) s')
      ((sect D s')(data_lba c := seeded_sector)) True" if "working D s'" for s'
    by (rule edit_data_works [OF that c])
      (use sized_sect [OF that] in \<open>simp_all add: sized_def seeded_sector_def put_slice_def seed_bytes_def SECTOR_BYTES_def\<close>)
  show ?thesis
    unfolding seed_volume_def
    using assms
    by (auto intro!: all_ok_works set_fat_works [THEN works_eq] ed [THEN works_eq] write_in_cluster_works [THEN works_eq]
        flush_works [THEN works_eq] simp del: fun_upd_apply)
qed

definition config_name :: "u8 list" where "config_name = map upper config_bytes @ replicate 5 0x20"
definition host_name :: "u8 list" where "host_name = map upper hostname_bytes @ replicate 3 0x20"

lemma seed_names:
  "pack_name config_bytes = Some config_name" "pack_name hostname_bytes = Some host_name"
  "length config_name = 11" "\<not> marker (config_name ! 0)" "length host_name = 11" "\<not> marker (host_name ! 0)" "host_name ! 0 \<noteq> 0x2e"
  by (simp_all add: pack_name_def config_bytes_def hostname_bytes_def config_name_def host_name_def patch_def upper_def marker_def)

text \<open>A volume right after formatting: no entry, and every cluster free.\<close>

definition blank :: "volume \<Rightarrow> bool" where
  "blank V \<longleftrightarrow> sized V \<and> mirrored V \<and> (\<forall>i<ROOT_ENTRIES. root_entry V i ! 0 = 0) \<and> (\<forall>c<CLUSTER_SCAN. 2 \<le> c \<longrightarrow> fat_entry V c = 0)"

lemma blank_sound:
  assumes "blank V" shows "volume_sound V" and "tree V = Map.empty"
proof -
  have none: "\<not> present V p" for p
    using assms by (cases p) (auto simp: blank_def live_def dir_at_def)
  then have nd: "\<not> dir_at V i c" for i c unfolding dir_at_present by blast
  show s: "volume_sound V"
    using assms none nd by (simp add: volume_sound_def blank_def terminated_def del: present.simps)
  show "tree V = Map.empty"
  proof
    fix n
    have "find_spec (root_entry V) n root_indices = Missing" by (rule find_sound_missing [OF s]) (use none in blast)
    then show "tree V n = None" by (simp add: tree_def)
  qed
qed

definition seeded :: "(u8 list \<rightharpoonup> node) \<Rightarrow> (u8 list \<rightharpoonup> node) \<Rightarrow> bool" where
  "seeded t t' \<longleftrightarrow>
     (case t config_name of
        None \<Rightarrow> t' = t(config_name \<mapsto> Dir [host_name \<mapsto> seed_bytes])
      | Some (Dir m) \<Rightarrow> t' = t(config_name \<mapsto> Dir (if m host_name = None then m(host_name \<mapsto> seed_bytes) else m))
      | Some (File _) \<Rightarrow> False)"

text \<open>Whether there is room for what is missing: an entry of the root directory and two clusters for the
  directory and the file, or an entry of the directory and a cluster for the file.\<close>

definition free_cluster :: "volume \<Rightarrow> u16 \<Rightarrow> bool" where
  "free_cluster V c \<longleftrightarrow> 2 \<le> c \<and> c < CLUSTER_SCAN \<and> fat_entry V c = 0"

definition can_seed :: "volume \<Rightarrow> bool" where
  "can_seed V \<longleftrightarrow>
     (case tree V config_name of
        None \<Rightarrow> (\<exists>i<ROOT_ENTRIES. \<not> live (root_entry V i)) \<and> (\<exists>c d. c \<noteq> d \<and> free_cluster V c \<and> free_cluster V d)
      | Some (Dir m) \<Rightarrow> m host_name \<noteq> None \<or>
          (\<exists>i p. dir_at V i p \<and> ent_name (root_entry V i) = config_name \<and> (\<exists>k<ENTRIES_PER_SECTOR. \<not> live (sub_entry V p k)))
            \<and> (\<exists>c. free_cluster V c)
      | Some (File _) \<Rightarrow> False)"

lemma free_spec_hits: "(\<exists>i. free_spec ent (u16_range 0 n) = Hit i) \<longleftrightarrow> (\<exists>i<n. \<not> live (ent i))"
proof -
  have "(\<exists>i. free_spec ent is = Hit i) \<longleftrightarrow> (\<exists>i\<in>set is. \<not> live (ent i))" for "is" by (induction "is") auto
  then show ?thesis by (auto simp: u16_range_set)
qed

lemma alloc_spec_hits: "(\<exists>c. alloc_spec V (u16_range 2 CLUSTER_SCAN) = Hit c) \<longleftrightarrow> (\<exists>c. free_cluster V c)"
proof -
  have "(\<exists>c. alloc_spec V cs = Hit c) \<longleftrightarrow> (\<exists>c\<in>set cs. fat_entry V c = 0)" for cs by (induction cs) auto
  then show ?thesis by (auto simp: u16_range_set free_cluster_def)
qed

text \<open>The boot sector is apart from everything else.\<close>

lemma boot_sector_apart [simp]:
  "c < CLUSTER_SCAN \<Longrightarrow> fat_upd c v V 0 = V 0" "i < ROOT_ENTRIES \<Longrightarrow> root_upd i e V 0 = V 0"
  "2 \<le> d \<Longrightarrow> sub_upd d j e V 0 = V 0" "2 \<le> d \<Longrightarrow> data_lba d \<noteq> 0"
  using lba_ranges(1) [of i] lba_ranges(2) [of d]
  by (auto simp: fat_upd_def root_upd_def sub_upd_def fat_place_small FAT1_LBA_def FAT2_LBA_def Let_def)

lemma seed_in_works:
  assumes w: "working D s" and V: "volume_sound (sect D s)" and d: "dir_at (sect D s) i p"
  shows "\<exists>V' ok. works D s (seed_in host_name p s) V' ok \<and> volume_sound V' \<and> V' 0 = sect D s 0 \<and>
    (ok \<longrightarrow> tree V' = (tree (sect D s))(ent_name (root_entry (sect D s) i) \<mapsto>
       Dir (let m = children (sect D s) p in if m host_name = None then m(host_name \<mapsto> seed_bytes) else m))) \<and>
    (ok \<longleftrightarrow> children (sect D s) p host_name \<noteq> None \<or>
     (\<exists>k. free_spec (sub_entry (sect D s) p) sub_indices = Hit k) \<and> (\<exists>c. alloc_spec (sect D s) (u16_range 2 CLUSTER_SCAN) = Hit c))"
proof -
  let ?V = "sect D s"
  have pi: "present ?V (Root i)" "cluster_at ?V (Root i) = p" "is_dir (ent_attr (root_entry ?V i))" using d by (simp_all add: dir_at_present)
  have p: "2 \<le> p" "p < CLUSTER_SCAN" using soundD(6,7) [OF V pi(1)] pi(2) by simp_all
  have t: "tree ?V (ent_name (root_entry ?V i)) = Some (Dir (children ?V p))"
    using tree_at [OF V pi(1)] pi(2,3) by (simp add: node_at_def)
  note find = find_in_cluster_works [OF w p, of host_name]
  show ?thesis
  proof (cases "find_spec (sub_entry ?V p) host_name sub_indices")
    case (Hit h)
    obtain j where j: "j < ENTRIES_PER_SECTOR" "h = hit_from j (sub_entry ?V p j)" "live (sub_entry ?V p j)"
      "ent_name (sub_entry ?V p j) = host_name"
      using find_spec_hit [OF Hit] by (auto simp: u16_range_set)
    have "sub_entry ?V p j ! 0 = host_name ! 0" using j(4) by (metis ent_name_def nth_take zero_less_numeral)
    then have "\<not> is_dot (sub_entry ?V p j)" using seed_names(7) by (simp add: is_dot_def)
    then have "children ?V p host_name \<noteq> None" using Hit j(2) by (simp add: children_def)
    moreover have "works D s (seed_in host_name p s) ?V True"
      unfolding seed_in_def by (rule works_bind [OF find]) (simp add: Hit works_return)
    ultimately show ?thesis using V t Hit by (intro exI [of _ ?V] exI [of _ True]) (auto simp: fun_upd_idem)
  next
    case Missing
    then have none: "children ?V p host_name = None" by (simp add: children_def)
    show ?thesis
    proof (cases "\<exists>k c. free_spec (sub_entry ?V p) sub_indices = Hit k \<and> alloc_spec ?V (u16_range 2 CLUSTER_SCAN) = Hit c")
      case True
      then obtain k c where kc: "free_spec (sub_entry ?V p) sub_indices = Hit k" "alloc_spec ?V (u16_range 2 CLUSTER_SCAN) = Hit c" by blast
      have k: "k < ENTRIES_PER_SECTOR" "\<not> live (sub_entry ?V p k)" "\<forall>j<k. live (sub_entry ?V p j)"
        using free_root_hit [OF kc(1)] by simp_all
      have c: "2 \<le> c" "c < CLUSTER_SCAN" "fat_entry ?V c = 0" using alloc_hit [OF kc(2)] by simp_all
      note st = seed_tree [OF V d k c seed_names(5-7) Missing]
      have "works D s (seed_in host_name p s) (seed_volume p k host_name c ?V) True"
        unfolding seed_in_def
      proof (rule works_bind [OF find], simp add: Missing write_seed_file_def, goal_cases)
        case (1 s1)
        show ?case
        proof (rule works_bind [OF find_free_in_cluster_works [OF 1(1) p]], simp add: 1(3) kc(1), goal_cases)
          case (1 s2)
          show ?case
            by (rule works_bind [OF alloc_cluster_works [OF 1(1)]])
              (use 1 kc(2) c p k(1) seed_names in \<open>simp add: cluster_lba_data write_seed_chain\<close>)
        qed
      qed
      moreover have "seed_volume p k host_name c ?V 0 = ?V 0" using p c by (simp add: seed_volume_def)
      ultimately show ?thesis using st none kc by (intro exI [of _ "seed_volume p k host_name c ?V"] exI [of _ True]) simp
    next
      case False
      have "works D s (seed_in host_name p s) ?V False"
        unfolding seed_in_def
      proof (rule works_bind [OF find], simp add: Missing write_seed_file_def, goal_cases)
        case (1 s1)
        show ?case
        proof (rule works_bind [OF find_free_in_cluster_works [OF 1(1) p]], goal_cases)
          case (1 s2)
          show ?case
          proof (cases "free_spec (sub_entry ?V p) sub_indices")
            case (Hit k)
            then have "alloc_spec ?V (u16_range 2 CLUSTER_SCAN) = Missing"
              using False alloc_spec_not_failed by (cases "alloc_spec ?V (u16_range 2 CLUSTER_SCAN)") auto
            then show ?thesis
              using Hit 1 \<open>sect D s1 = ?V\<close> by (auto intro!: works_bind [OF alloc_cluster_works [OF 1(1)]] simp: works_return)
          next
            case Missing
            then show ?thesis using 1 \<open>sect D s1 = ?V\<close> by (simp add: works_return)
          qed simp
        qed
      qed
      then show ?thesis using V False none by (intro exI [of _ ?V] exI [of _ False]) auto
    qed
  qed simp
qed

lemma sub_indices_eq: "sub_indices = 0 # 1 # 2 # u16_range 3 ENTRIES_PER_SECTOR"
  using u16_range_step [of 0 ENTRIES_PER_SECTOR] u16_range_step [of 1 ENTRIES_PER_SECTOR] u16_range_step [of 2 ENTRIES_PER_SECTOR]
  by (simp add: ENTRIES_PER_SECTOR_def)

lemma fresh_dir_scans:
  assumes "V (data_lba c) = fresh_dir c"
  shows "find_spec (sub_entry V c) host_name sub_indices = Missing" "free_spec (sub_entry V c) sub_indices = Hit 2"
proof -
  have e: "sub_entry V c 0 = new_entry (dot_name 1) c 0 ATTR_DIR" "sub_entry V c 1 = new_entry (dot_name 2) 0 0 ATTR_DIR"
    "sub_entry V c 2 = replicate DIR_ENTRY 0"
    using fresh_dir_entry [where c = c and V = V, OF _ assms] by (simp_all add: ENTRIES_PER_SECTOR_def)
  have d: "new_entry (dot_name 1) c 0 ATTR_DIR ! 0 = 0x2e" "new_entry (dot_name 2) 0 0 ATTR_DIR ! 0 = 0x2e"
    using dot_entry by (auto simp: is_dot_def)
  have "take 11 x \<noteq> host_name" if "x ! 0 = 0x2e" for x using that seed_names(7) by (metis nth_take zero_less_numeral)
  then show "find_spec (sub_entry V c) host_name sub_indices = Missing" "free_spec (sub_entry V c) sub_indices = Hit 2"
    using e d by (auto simp: sub_indices_eq live_def DIR_ENTRY_def)
qed

lemma blank_reserves:
  assumes "blank V"
  shows "free_spec (root_entry V) root_indices = Hit 0" "alloc_spec V (u16_range 2 CLUSTER_SCAN) = Hit 2"
    "sized V' \<Longrightarrow> (\<And>d. d < CLUSTER_SCAN \<Longrightarrow> fat_entry V' d = (if d = 2 then 0xffff else fat_entry V d)) \<Longrightarrow>
      alloc_spec V' (u16_range 2 CLUSTER_SCAN) = Hit 3"
  using assms u16_range_step [of 0 ROOT_ENTRIES] u16_range_step [of 2 CLUSTER_SCAN] u16_range_step [of 3 CLUSTER_SCAN]
  by (simp_all add: blank_def live_def ROOT_ENTRIES_def CLUSTER_SCAN_def)

abbreviation made_dir :: "u16 \<Rightarrow> u8 list \<Rightarrow> u16 \<Rightarrow> volume \<Rightarrow> volume" where
  "made_dir i name c V \<equiv> root_upd i (new_entry name c 0 ATTR_DIR) ((fat_upd c 0xffff V)(data_lba c := fresh_dir c))"

lemma create_directory_works:
  assumes w: "working D s" and n: "length name = 11"
  shows "free_spec (root_entry (sect D s)) root_indices = Hit i \<Longrightarrow> alloc_spec (sect D s) (u16_range 2 CLUSTER_SCAN) = Hit c \<Longrightarrow>
      works D s (create_directory name s) (made_dir i name c (sect D s)) (Some c)"
    and "free_spec (root_entry (sect D s)) root_indices = Missing \<or> alloc_spec (sect D s) (u16_range 2 CLUSTER_SCAN) = Missing \<Longrightarrow>
      works D s (create_directory name s) (sect D s) None"
proof -
  let ?V = "sect D s"
  assume ic: "free_spec (root_entry ?V) root_indices = Hit i" "alloc_spec ?V (u16_range 2 CLUSTER_SCAN) = Hit c"
  have i: "i < ROOT_ENTRIES" using free_root_hit [OF ic(1)] by simp
  have c: "2 \<le> c" "c < CLUSTER_SCAN" using alloc_hit [OF ic(2)] by simp_all
  show "works D s (create_directory name s) (made_dir i name c ?V) (Some c)"
    unfolding create_directory_def
  proof (rule works_bind [OF find_free_works [OF w]], simp add: ic(1), goal_cases)
    case (1 s1)
    show ?case
    proof (rule works_bind [OF alloc_cluster_works [OF 1(1)]], simp add: 1(3) ic(2), goal_cases)
      case (1 s2)
      show ?case
        by (rule works_bind [OF mkdir_chain [OF 1(1,3) i c n]]) (simp add: works_return)
    qed
  qed
next
  let ?V = "sect D s"
  assume m: "free_spec (root_entry ?V) root_indices = Missing \<or> alloc_spec ?V (u16_range 2 CLUSTER_SCAN) = Missing"
  show "works D s (create_directory name s) ?V None"
    unfolding create_directory_def
  proof (rule works_bind [OF find_free_works [OF w]], goal_cases)
    case (1 s1)
    then show ?case
      using m free_spec_not_failed [of "root_entry ?V" root_indices]
      by (cases "free_spec (root_entry ?V) root_indices")
        (auto intro!: works_bind [OF alloc_cluster_works [OF 1(1)]] simp: works_return)
  qed
qed

definition seeding :: "'d dev \<Rightarrow> 'd fat \<Rightarrow> (bool \<times> 'd fat) option \<Rightarrow> bool" where
  "seeding D s r \<longleftrightarrow> (\<exists>V' ok. works D s r V' ok \<and> volume_sound V' \<and> V' 0 = sect D s 0 \<and>
     (ok \<longleftrightarrow> can_seed (sect D s)) \<and> (ok \<longrightarrow> seeded (tree (sect D s)) (tree V')))"

lemma bind_seeding:
  assumes r: "works D s r V x"
    and f: "\<And>s'. working D s' \<Longrightarrow> frame s s' \<Longrightarrow> sect D s' = V \<Longrightarrow>
      \<exists>V' ok. works D s' (f x s') V' ok \<and> volume_sound V' \<and> V' 0 = sect D s 0 \<and>
        (ok \<longleftrightarrow> can_seed (sect D s)) \<and> (ok \<longrightarrow> seeded (tree (sect D s)) (tree V'))"
  shows "seeding D s (r \<bind> (\<lambda>(x, s). f x s))"
proof -
  obtain s' where s': "r = Some (x, s')" "working D s'" "frame s s'" "sect D s' = V"
    using r unfolding works_def by (auto elim!: finishesE)
  obtain V' ok where "works D s' (f x s') V' ok" "volume_sound V'" "V' 0 = sect D s 0"
    "ok \<longleftrightarrow> can_seed (sect D s)" "ok \<longrightarrow> seeded (tree (sect D s)) (tree V')"
    using f [OF s'(2-4)] by blast
  moreover then have "works D s (r \<bind> (\<lambda>(x, s). f x s)) V' ok"
    using s'(1,3) by (auto simp: works_def finishes_def intro: frame_trans)
  ultimately show ?thesis unfolding seeding_def by blast
qed

lemma config_unique:
  assumes "volume_sound V" "dir_at V i p" "ent_name (root_entry V i) = n" "dir_at V j q" "ent_name (root_entry V j) = n"
  shows "q = p"
  using soundD(5) [OF assms(1), of i j] assms(2-5) by (auto simp: dir_at_present)

lemma blank_can_seed: "blank V \<Longrightarrow> can_seed V"
proof -
  assume b: "blank V"
  then have "free_cluster V 2" "free_cluster V 3" by (simp_all add: free_cluster_def blank_def CLUSTER_SCAN_def)
  moreover have "0 < ROOT_ENTRIES" "\<not> live (root_entry V 0)" using b by (auto simp: blank_def live_def ROOT_ENTRIES_def)
  moreover have "(2 :: u16) \<noteq> 3" by simp
  ultimately show ?thesis unfolding can_seed_def blank_sound(2) [OF b] option.case by blast
qed

lemma seed_hostname_works:
  assumes w: "working D s" and V: "volume_sound (sect D s)"
  shows "seeding D s (seed_hostname s)"
  unfolding seed_hostname_def seed_names(1,2) option.case
proof (rule bind_seeding [OF find_name_works [OF w]], goal_cases)
  case (1 s1)
  let ?V = "sect D s"
  note w1 = 1(1) and V1 = 1(3)
  show ?case
  proof (rule find_sound_cases [OF V, of config_name], goal_cases)
    case i: (1 i)
    let ?p = "ent_cluster (root_entry ?V i)"
    have c: "\<not> ?p < 2" using soundD(6) [OF V i(1)] by (simp add: cluster_at_def not_less)
    show ?case
    proof (cases "is_dir (ent_attr (root_entry ?V i))")
      case False
      then have "\<not> can_seed ?V" using i(4) by (simp add: can_seed_def node_at_def)
      then show ?thesis
        using False i(3) w1 V1 V by (intro exI [of _ ?V] exI [of _ False]) (simp add: works_return)
    next
      case True
      then have d: "dir_at (sect D s1) i ?p" "dir_at ?V i ?p" using i(1) V1 by (simp_all add: dir_at_def)
      have t: "tree ?V config_name = Some (Dir (children ?V ?p))" using i(4) True by (simp add: node_at_def cluster_at_def)
      obtain V' ok where V': "works D s1 (seed_in host_name ?p s1) V' ok" "volume_sound V'" "V' 0 = ?V 0"
        "ok \<longrightarrow> tree V' = (tree ?V)(config_name \<mapsto> Dir (let m = children ?V ?p
          in if m host_name = None then m(host_name \<mapsto> seed_bytes) else m))"
        "ok \<longleftrightarrow> children ?V ?p host_name \<noteq> None \<or> (\<exists>k. free_spec (sub_entry ?V ?p) sub_indices = Hit k)
          \<and> (\<exists>c. alloc_spec ?V (u16_range 2 CLUSTER_SCAN) = Hit c)"
        using seed_in_works [OF w1 _ d(1)] V V1 i(2) by auto
      have "(\<exists>j p. dir_at ?V j p \<and> ent_name (root_entry ?V j) = config_name \<and> (\<exists>k<ENTRIES_PER_SECTOR. \<not> live (sub_entry ?V p k)))
          \<longleftrightarrow> (\<exists>k<ENTRIES_PER_SECTOR. \<not> live (sub_entry ?V ?p k))"
        using d(2) i(2) config_unique [OF V d(2) i(2)] by metis
      then have "ok \<longleftrightarrow> can_seed ?V"
        using V'(5) unfolding can_seed_def free_spec_hits alloc_spec_hits t option.case node.case by simp
      then show ?thesis
        using True c i(3) V' t by (intro exI [of _ V'] exI [of _ ok]) (auto simp: seeded_def Let_def)
    qed
  next
    case m: 2
    show ?case
    proof (cases "\<exists>i c. free_spec (root_entry ?V) root_indices = Hit i \<and> alloc_spec ?V (u16_range 2 CLUSTER_SCAN) = Hit c")
      case False
      then have no: "free_spec (root_entry ?V) root_indices = Missing \<or> alloc_spec ?V (u16_range 2 CLUSTER_SCAN) = Missing"
        using free_spec_not_failed alloc_spec_not_failed by (metis Scan.exhaust)
      have "works D s1 (create_directory config_name s1 \<bind> (\<lambda>(c, s). case c of Some cluster \<Rightarrow> seed_in host_name cluster s
          | None \<Rightarrow> Some (False, s))) ?V False"
        by (rule works_bind [OF create_directory_works(2) [OF w1 seed_names(3)]]) (use no V1 in \<open>simp_all add: works_return\<close>)
      moreover have "\<not> can_seed ?V"
        using False m(3) free_spec_hits [of "root_entry ?V" ROOT_ENTRIES] alloc_spec_hits [of ?V] by (auto simp: can_seed_def)
      ultimately show ?thesis
        using m(2) V by (intro exI [of _ ?V] exI [of _ False]) auto
    next
      case True
      then obtain i c where ic: "free_spec (root_entry ?V) root_indices = Hit i" "alloc_spec ?V (u16_range 2 CLUSTER_SCAN) = Hit c" by blast
      have i: "i < ROOT_ENTRIES" "\<not> live (root_entry ?V i)" "\<forall>j<i. live (root_entry ?V j)" using free_root_hit [OF ic(1)] by simp_all
      have c: "2 \<le> c" "c < CLUSTER_SCAN" "fat_entry ?V c = 0" using alloc_hit [OF ic(2)] by simp_all
      have new: "\<forall>j. present ?V (Root j) \<longrightarrow> ent_name (root_entry ?V j) \<noteq> config_name" using m(1) by blast
      let ?W = "made_dir i config_name c ?V"
      note ms = mkdir_sound [OF V i c seed_names(3,4) new refl] and mt = mkdir_tree [OF V i c seed_names(3,4) new refl]
      have fd: "?W (data_lba c) = fresh_dir c" using c(1) i(1) by simp
      have cr: "works D s1 (create_directory config_name s1) ?W (Some c)"
        using create_directory_works(1) [OF w1 seed_names(3), of i c] ic V1 by simp
      obtain s2 where s2: "create_directory config_name s1 = Some (Some c, s2)" "working D s2" "frame s1 s2" "sect D s2 = ?W"
        using cr unfolding works_def by (auto elim!: finishesE)
      have d: "dir_at (sect D s2) i c"
        using s2(4) ms(4) i(1) ms(2) [of "Root i"]
        by (simp add: dir_at_def new_entry_fields seed_names(3) is_dir_def ATTR_DIR_def)
      have boot: "?W 0 = ?V 0" using i(1) c by simp
      have kids: "children ?W c = Map.empty" by (rule fresh_dir_children [where V = ?W, OF fd])
      have "fat_entry ?W d = (if d = c then 0xffff else fat_entry ?V d)" if "d < CLUSTER_SCAN" for d
        using fat_entry_fat_upd [OF soundD(1) [OF V] c(2) that, of "0xffff"] that i(1) c(1) by simp
      then have "free_cluster ?W d \<longleftrightarrow> d \<noteq> c \<and> free_cluster ?V d" for d by (auto simp: free_cluster_def split: if_splits)
      moreover have "free_cluster ?V c" using c by (simp add: free_cluster_def)
      ultimately have room: "(\<exists>d. free_cluster ?W d) \<longleftrightarrow> (\<exists>a b. a \<noteq> b \<and> free_cluster ?V a \<and> free_cluster ?V b)" by metis
      obtain V' ok where V': "works D s2 (seed_in host_name c s2) V' ok" "volume_sound V'" "V' 0 = ?V 0"
        and t': "ok \<longrightarrow> tree V' = (tree ?W)(ent_name (root_entry ?W i) \<mapsto> Dir (let m = children ?W c
          in if m host_name = None then m(host_name \<mapsto> seed_bytes) else m))"
        and b: "ok \<longleftrightarrow> (\<exists>d. free_cluster ?W d)"
        using seed_in_works [OF s2(2) _ d] s2(4) ms(1) boot kids fresh_dir_scans [where V = ?W, OF fd] alloc_spec_hits [of ?W] by auto
      from V'(1) have "works D s1 (create_directory config_name s1 \<bind> (\<lambda>(c, s). case c of Some cluster \<Rightarrow> seed_in host_name cluster s
          | None \<Rightarrow> Some (False, s))) V' ok"
        using s2(1,3) by (auto simp: works_def finishes_def intro: frame_trans)
      moreover have "ok \<longrightarrow> tree V' = (tree ?V)(config_name \<mapsto> Dir [host_name \<mapsto> seed_bytes])"
        using t' mt ms(4) kids by (simp add: new_entry_fields seed_names(3))
      moreover have "ok \<longleftrightarrow> can_seed ?V" using b room m(3) i(1,2) by (auto simp: can_seed_def)
      ultimately show ?thesis
        using m(2,3) V'(2,3) by (intro exI [of _ V'] exI [of _ ok]) (auto simp: seeded_def)
    qed
  qed
qed

subsection \<open>Formatting\<close>

abbreviation zeros :: "u8 list" where "zeros \<equiv> replicate TRANSFER 0"

text \<open>The blocks of the volume while a block is staged in the cache.\<close>

definition staged :: "'d dev \<Rightarrow> 'd fat \<Rightarrow> (u64 \<Rightarrow> u8 list) \<Rightarrow> u64 \<Rightarrow> 'd fat \<Rightarrow> bool" where
  "staged D s0 X n s \<longleftrightarrow> working D s \<and> frame s0 s \<and> vol (dv_disk D) s = X \<and> block_valid s \<and> block_dirty s \<and> block_no s = n"

lemma stage_zero_staged:
  assumes w: "working D s" and n: "unat n < 1024"
  shows "finishes (stage_zero n s) (\<lambda>ok s'. ok \<and> staged D s ((vol (dv_disk D) s)(n := zeros)) n s')"
proof -
  have p: "block_peer (dv_disk D) (dv_pend D) (dv_good D) (ft_wait s BLK_CH)" and al: "alive (dv_disk D) s"
    and g: "block_dirty s \<longrightarrow> dv_good D (block_no s)" "\<forall>b. unat b < 1024 \<longrightarrow> dv_good D b"
    using w by (simp_all add: working_def steady_def calm_def)
  show ?thesis
    unfolding stage_zero_def
  proof (rule finishes_bindI [OF flush_block_runs [OF p al]], elim conjE, goal_cases)
    case (1 ok s1)
    then have ok: ok and d: "device (dv_disk D) s1 = vol (dv_disk D) s" using g(1) by simp_all
    have len: "length (block s1) = TRANSFER" using 1(1) by (simp add: alive_def tidy_def)
    let ?s = "s1\<lparr>block_no := n, block_valid := True, block_dirty := True, block := zeros\<rparr>"
    have "vol (dv_disk D) ?s = (vol (dv_disk D) s)(n := zeros)" using d by (auto simp: vol_def fun_eq_iff)
    moreover have "frame s ?s" using 1(2) by (simp add: frame_def)
    moreover have "working D ?s"
      using 1(1,2) p g(2) n by (auto simp: working_def steady_def calm_def alive_def tidy_def frame_def)
    ultimately show ?case using ok len by (simp add: staged_def)
  qed
qed

lemma edit_block_staged:
  assumes "staged D s0 X n s" and "length (f (X n)) = TRANSFER"
  shows "finishes (edit_block f s) (\<lambda>ok s'. ok \<and> staged D s0 (X(n := f (X n))) n s')"
proof -
  have b: "block s = X n" using assms(1) by (auto simp: staged_def vol_def)
  have "vol (dv_disk D) (s\<lparr>block := f (block s)\<rparr>) b = (X(n := f (X n))) b" for b
    using assms(1) b fun_cong [of "vol (dv_disk D) s" X b] by (auto simp: staged_def vol_def split: if_splits)
  then have "vol (dv_disk D) (s\<lparr>block := f (block s)\<rparr>) = X(n := f (X n))" by (rule ext)
  then show ?thesis
    using assms b by (auto simp: edit_block_def staged_def working_def steady_def calm_def alive_def tidy_def frame_def)
qed

lemma all_ok_finishes:
  assumes "finishes (m s) (\<lambda>ok s'. ok \<and> P s')" and "\<And>s'. P s' \<Longrightarrow> finishes (all_ok ms s') Q"
  shows "finishes (all_ok (m # ms) s) Q"
  unfolding all_ok.simps by (rule finishes_bindI [OF assms(1)]) (use assms(2) in auto)

lemma stage_step:
  assumes "working D s" "frame s0 s" "vol (dv_disk D) s = X" "unat n < 1024"
    and "\<And>s'. staged D s0 (X(n := zeros)) n s' \<Longrightarrow> finishes (all_ok ms s') Q"
  shows "finishes (all_ok (stage_zero n # ms) s) Q"
proof (rule all_ok_finishes)
  show "finishes (stage_zero n s) (\<lambda>ok s'. ok \<and> staged D s0 (X(n := zeros)) n s')"
    by (rule finishes_mono [OF stage_zero_staged [OF assms(1,4)]])
      (use assms(2,3) in \<open>auto simp: staged_def intro: frame_trans\<close>)
qed (fact assms(5))

lemma edit_step:
  assumes "staged D s0 X n s" "length (f (X n)) = TRANSFER"
    and "\<And>s'. staged D s0 (X(n := f (X n))) n s' \<Longrightarrow> finishes (all_ok ms s') Q"
  shows "finishes (all_ok (edit_block f # ms) s) Q"
  by (rule all_ok_finishes [where P = "staged D s0 (X(n := f (X n))) n"]) (use edit_block_staged assms in blast)+

definition zeroed :: "u64 list \<Rightarrow> (u64 \<Rightarrow> u8 list) \<Rightarrow> u64 \<Rightarrow> u8 list" where
  "zeroed ns X b = (if b \<in> set ns then zeros else X b)"

lemma stages:
  assumes "staged D s0 X n s" and "\<forall>m\<in>set ns. unat m < 1024"
    and "\<And>s' n'. staged D s0 (zeroed ns X) n' s' \<Longrightarrow> finishes (all_ok ms s') Q"
  shows "finishes (all_ok (map stage_zero ns @ ms) s) Q"
  using assms
proof (induction ns arbitrary: X n s)
  case Nil
  have "zeroed [] X = X" by (rule ext) (simp add: zeroed_def)
  then show ?case using Nil by simp
next
  case (Cons m ns)
  have w: "working D s" "frame s0 s" "vol (dv_disk D) s = X" using Cons.prems(1) by (simp_all add: staged_def)
  have eq: "zeroed ns (X(m := zeros)) = zeroed (m # ns) X" by (rule ext) (simp add: zeroed_def)
  show ?case
    unfolding list.map append_Cons
  proof (rule stage_step [OF w], goal_cases)
    case (2 s')
    show ?case by (rule Cons.IH [OF 2, unfolded eq]) (use Cons.prems(2,3) in auto)
  qed (use Cons.prems(2) in simp)
qed

definition boot_block :: "u8 list" where
  "boot_block = patch SECTOR_BYTES write_fat_header (patch 0 (write_boot (take SECTOR_BYTES zeros)) zeros)"

definition fat2_block :: "u8 list" where
  "fat2_block = patch SECTOR_BYTES write_fat_header zeros"

definition formatted :: "(u64 \<Rightarrow> u8 list) \<Rightarrow> u64 \<Rightarrow> u8 list" where
  "formatted X = zeroed [5, 6, 7, 8, 9, 10, 11, 12] ((zeroed [1, 2, 3] (X(0 := boot_block)))(4 := fat2_block))"

lemma write_lengths: "length (write_boot (take SECTOR_BYTES zeros)) = SECTOR_BYTES" "length write_fat_header = 4"
  by (simp_all add: write_boot_def write_fat_header_def SECTOR_BYTES_def TRANSFER_def Let_def)

lemma format_volume_runs:
  assumes w: "working D s"
  shows "finishes (format_volume s) (\<lambda>ok s'. ok \<and> working D s' \<and> frame s s' \<and> vol (dv_disk D) s' = formatted (vol (dv_disk D) s))"
proof -
  let ?X = "vol (dv_disk D) s" and ?Y = "zeroed [1, 2, 3] ((vol (dv_disk D) s)(0 := boot_block))"
  show ?thesis
    unfolding format_volume_def append_Cons append_Nil
  proof (rule stage_step [OF w frame_refl refl], simp, rule edit_step, assumption, goal_cases)
    case (2 s1 s2)
    show ?case
    proof (rule edit_step [OF 2(2)], goal_cases)
      case (2 s3)
      then have s3: "staged D s (?X(0 := boot_block)) 0 s3" by (simp add: boot_block_def)
      show ?case
      proof (rule stages [OF s3], simp, goal_cases)
        case (1 s4 n4)
        show ?case
        proof (rule stage_step [of D s4 s ?Y], goal_cases)
          case (5 s5)
          show ?case
          proof (rule edit_step [OF 5], goal_cases)
            case (2 s6)
            then have s6: "staged D s (?Y(4 := fat2_block)) 4 s6" by (simp add: fat2_block_def)
            show ?case
            proof (rule stages [OF s6], simp, goal_cases)
              case (1 s7 n7)
              then have s7: "working D s7" "frame s s7" "vol (dv_disk D) s7 = formatted ?X" by (simp_all add: staged_def formatted_def)
              have p: "block_peer (dv_disk D) (dv_pend D) (dv_good D) (ft_wait s7 BLK_CH)" and al: "alive (dv_disk D) s7"
                and g: "block_dirty s7 \<longrightarrow> dv_good D (block_no s7)" "\<forall>b. unat b < 1024 \<longrightarrow> dv_good D b"
                using s7(1) by (simp_all add: working_def steady_def calm_def)
              show ?case
                by (rule all_ok_finishes [where P = "\<lambda>s'. working D s' \<and> frame s s' \<and> vol (dv_disk D) s' = formatted ?X"])
                  (rule finishes_mono [OF flush_block_runs [OF p al]],
                    use s7 p g in \<open>auto simp: working_def steady_def calm_def frame_def all_ok.simps intro: client_step_trans\<close>)
            qed
          qed (use write_lengths in \<open>simp add: SECTOR_BYTES_def TRANSFER_def\<close>)
        qed (use 1 in \<open>simp_all add: staged_def\<close>)
      qed
    qed (use write_lengths in \<open>simp add: SECTOR_BYTES_def TRANSFER_def\<close>)
  qed (use write_lengths in \<open>simp add: SECTOR_BYTES_def TRANSFER_def\<close>)
qed

lemma zero_slices: "off + n \<le> TRANSFER \<Longrightarrow> slice off n zeros = replicate n 0"
  by (simp del: replicate.simps)

lemma header_sector:
  "slice SECTOR_BYTES SECTOR_BYTES boot_block = patch 0 write_fat_header (replicate SECTOR_BYTES 0)"
  "slice SECTOR_BYTES SECTOR_BYTES fat2_block = patch 0 write_fat_header (replicate SECTOR_BYTES 0)"
proof -
  let ?h = write_fat_header
  have "slice SECTOR_BYTES SECTOR_BYTES (patch SECTOR_BYTES ?h x) = patch 0 ?h (slice SECTOR_BYTES SECTOR_BYTES x)" if "length x = TRANSFER" for x
    using that write_lengths(2) by (auto simp: slice_def patch_def SECTOR_BYTES_def TRANSFER_def min_def drop_take)
  moreover have "slice SECTOR_BYTES SECTOR_BYTES (patch 0 (write_boot (take SECTOR_BYTES zeros)) zeros) = slice SECTOR_BYTES SECTOR_BYTES zeros"
    using write_lengths(1) by (intro slice_patch_apart) (simp_all add: SECTOR_BYTES_def TRANSFER_def)
  ultimately show "slice SECTOR_BYTES SECTOR_BYTES boot_block = patch 0 ?h (replicate SECTOR_BYTES 0)"
    "slice SECTOR_BYTES SECTOR_BYTES fat2_block = patch 0 ?h (replicate SECTOR_BYTES 0)"
    using write_lengths(1) by (simp_all add: boot_block_def fat2_block_def zero_slices TRANSFER_def SECTOR_BYTES_def)
qed

lemma formatted_blocks:
  "formatted X 0 = boot_block" "formatted X 4 = fat2_block" "8 \<le> unat b \<Longrightarrow> unat b \<le> 12 \<Longrightarrow> formatted X b = zeros"
proof -
  show "formatted X 0 = boot_block" "formatted X 4 = fat2_block" by (simp_all add: formatted_def zeroed_def)
  assume "8 \<le> unat b" "unat b \<le> 12"
  then have "unat b \<in> {8, 9, 10, 11, 12}" by auto
  moreover have "b = of_nat (unat b)" by simp
  ultimately have "b \<in> of_nat ` {8, 9, 10, 11, 12}" by (metis image_eqI)
  then show "formatted X b = zeros" by (auto simp: formatted_def zeroed_def)
qed

lemma formatted_blank:
  assumes w: "working D s" and v: "vol (dv_disk D) s = formatted X"
  shows "blank (sect D s)"
proof -
  have fats: "sect D s FAT1_LBA = patch 0 write_fat_header (replicate SECTOR_BYTES 0)"
    "sect D s FAT2_LBA = patch 0 write_fat_header (replicate SECTOR_BYTES 0)"
    using header_sector formatted_blocks(1,2)
    by (simp_all add: sect_def v FAT1_LBA_def FAT2_LBA_def SECTORS_PER_TRANSFER_def)
  have "root_entry (sect D s) i ! 0 = 0" if i: "i < ROOT_ENTRIES" for i
  proof -
    let ?l = "fst (root_place i)"
    have u: "unat ?l = 65 + unat i div 16" and i512: "unat i < 512"
      using unat_root_lba [OF i] i by (simp_all add: ROOT_ENTRIES_def word_less_nat_alt)
    have "unat (ucast (?l div SECTORS_PER_TRANSFER) :: u64) = unat ?l div 8"
      by (simp add: unat_ucast_up SECTORS_PER_TRANSFER_def unat_div)
    then have "vol (dv_disk D) s (ucast (?l div SECTORS_PER_TRANSFER)) = zeros"
      unfolding v using u i512 by (intro formatted_blocks(3)) auto
    then have "sect D s ?l = replicate SECTOR_BYTES 0"
      using zero_slices [OF sector_fits [of ?l]] by (simp add: sect_def)
    then have "root_entry (sect D s) i = replicate DIR_ENTRY 0"
      using i512 by (simp add: root_entry_def root_off SECTOR_BYTES_def DIR_ENTRY_def)
    then show ?thesis by (simp add: DIR_ENTRY_def)
  qed
  moreover have "fat_entry (sect D s) c = 0" if c: "c < CLUSTER_SCAN" "2 \<le> c" for c
  proof -
    have u: "unat c < 64" "2 \<le> unat c" using c by (simp_all add: CLUSTER_SCAN_def word_less_nat_alt word_le_nat_alt)
    have "slice (unat c * 2) 2 (patch 0 write_fat_header (replicate SECTOR_BYTES 0)) = replicate 2 0"
      using u write_lengths(2) by (subst slice_patch_apart) (auto simp: SECTOR_BYTES_def)
    then show ?thesis using fats(1) by (simp add: fat_entry_def fat_place_small [OF c(1)] from_le16_def numeral_eq_Suc)
  qed
  ultimately show ?thesis using fats sized_sect [OF w] by (simp add: blank_def mirrored_def)
qed

subsection \<open>Preparing the volume\<close>

definition bootable :: "u8 list \<Rightarrow> bool" where
  "bootable b \<longleftrightarrow> b ! 510 = 0x55 \<and> b ! 511 = 0xaa \<and> from_le16 (slice 11 2 b) = of_nat SECTOR_BYTES"

lemma volume_ok_bootable: "volume_ok s = bootable (block s)"
  by (simp add: volume_ok_def bootable_def)

lemma bootable_sector: "working D s \<Longrightarrow> bootable (vol (dv_disk D) s 0) \<longleftrightarrow> bootable (sect D s 0)"
  using vol_length [of "dv_disk D" s 0] by (simp add: working_def steady_def bootable_def sect_def slice_def SECTOR_BYTES_def TRANSFER_def drop_take min_def)

lemma patch_nth:
  "off + length x \<le> length xs \<Longrightarrow> i < length xs \<Longrightarrow>
    patch off x xs ! i = (if off \<le> i \<and> i < off + length x then x ! (i - off) else xs ! i)"
  by (auto simp: patch_def nth_append not_less min_def)

lemma write_boot_nth:
  assumes "length x = SECTOR_BYTES"
  shows "write_boot x ! 510 = 0x55" "write_boot x ! 511 = 0xaa" "write_boot x ! 11 = 0" "write_boot x ! 12 = 2"
  using assms by (simp_all add: write_boot_def patch_nth SECTOR_BYTES_def le16_def Let_def)

lemma boot_block_bootable: "bootable boot_block"
proof -
  let ?x = "take SECTOR_BYTES zeros"
  have len: "length ?x = SECTOR_BYTES" by (simp add: SECTOR_BYTES_def TRANSFER_def)
  have n: "boot_block ! i = write_boot ?x ! i" if "i < 512" for i
    using that write_lengths by (simp add: boot_block_def patch_nth SECTOR_BYTES_def TRANSFER_def)
  have "slice 11 2 boot_block = [boot_block ! 11, boot_block ! 12]"
    using write_lengths by (intro nth_equalityI) (auto simp: slice_def boot_block_def SECTOR_BYTES_def TRANSFER_def less_Suc_eq numeral_2_eq_2)
  then show ?thesis using n write_boot_nth [OF len] by (simp add: bootable_def from_le16_def SECTOR_BYTES_def)
qed

lemma prepare_result:
  assumes w: "working D s" and rdy: "blk_storage_is_ready (ft_storage s)"
    and boot: "bootable (vol (dv_disk D) s 0) \<Longrightarrow> volume_sound (sect D s)"
  shows "finishes (prepare s) (\<lambda>ok s'. working D s' \<and> frame s s' \<and> volume_sound (sect D s') \<and> bootable (vol (dv_disk D) s' 0) \<and>
    (ok \<longleftrightarrow> (bootable (vol (dv_disk D) s 0) \<longrightarrow> can_seed (sect D s))) \<and>
    (ok \<longrightarrow> seeded (if bootable (vol (dv_disk D) s 0) then files D s else Map.empty) (files D s')))"
proof -
  have p: "block_peer (dv_disk D) (dv_pend D) (dv_good D) (ft_wait s BLK_CH)" and al: "alive (dv_disk D) s"
    and g: "block_dirty s \<longrightarrow> dv_good D (block_no s)" "\<forall>b. unat b < 1024 \<longrightarrow> dv_good D b"
    using w by (simp_all add: working_def steady_def calm_def)
  let ?boot = "bootable (vol (dv_disk D) s 0)"
  let ?fmt = "\<lambda>s. if volume_ok s then Some (True, s) else format_volume s"
  let ?P1 = "\<lambda>s'. working D s' \<and> frame s s' \<and> sect D s' = sect D s \<and> volume_ok s' = ?boot"
  let ?P2 = "\<lambda>s'. working D s' \<and> frame s s' \<and> volume_sound (sect D s') \<and> bootable (sect D s' 0) \<and>
    (if ?boot then sect D s' = sect D s else blank (sect D s'))"
  let ?Q = "\<lambda>ok s'. working D s' \<and> frame s s' \<and> volume_sound (sect D s') \<and> bootable (vol (dv_disk D) s' 0) \<and>
    (ok \<longleftrightarrow> (?boot \<longrightarrow> can_seed (sect D s))) \<and> (ok \<longrightarrow> seeded (if ?boot then files D s else Map.empty) (files D s'))"
  have load: "finishes (load_block 0 s) (\<lambda>ok s'. ok \<and> ?P1 s')"
    by (rule finishes_mono [OF load_block_runs [OF p al]])
      (use p g in \<open>auto simp: working_def steady_def calm_def frame_def volume_ok_bootable intro: sect_vol\<close>)
  have fmt: "finishes (?fmt s1) (\<lambda>ok s'. ok \<and> ?P2 s')" if s1: "?P1 s1" for s1
  proof (cases "volume_ok s1")
    case True
    then show ?thesis using s1 boot bootable_sector [OF w] by auto
  next
    case False
    then have nb: "\<not> ?boot" using s1 by simp
    show ?thesis
      unfolding if_not_P [OF False]
      by (rule finishes_mono [OF format_volume_runs [of D s1]])
        (use s1 nb formatted_blank blank_sound formatted_blocks(1) boot_block_bootable in \<open>auto simp flip: bootable_sector intro: frame_trans\<close>)
  qed
  have seed: "finishes (all_ok [seed_hostname] s2) ?Q" if s2: "?P2 s2" for s2
  proof -
    have "seeding D s2 (seed_hostname s2)" using s2 by (intro seed_hostname_works) simp_all
    then obtain s3 ok where s3: "seed_hostname s2 = Some (ok, s3)" "working D s3" "frame s2 s3" "volume_sound (sect D s3)"
      "sect D s3 0 = sect D s2 0" "ok \<longleftrightarrow> can_seed (sect D s2)" "ok \<longrightarrow> seeded (files D s2) (files D s3)"
      unfolding seeding_def works_def by (auto elim!: finishesE)
    have "?Q ok s3"
      using s2 s3 bootable_sector [OF s3(2)] blank_can_seed [of "sect D s2"] blank_sound(2) [of "sect D s2"]
      by (auto intro: frame_trans split: if_splits)
    then show ?thesis using s3(1) by (cases ok) (auto simp: all_ok.simps)
  qed
  show ?thesis
    unfolding prepare_def using rdy
    by (simp only: not_True_eq_False if_False)
      (rule all_ok_finishes [where m = "load_block 0" and P = ?P1, OF load],
        rule all_ok_finishes [where m = ?fmt and P = ?P2, OF fmt], assumption, rule seed)
qed

end
