(* ===== verification/FatClaims.thy ===== *)
theory FatClaims
  imports FatPrepare
begin

text \<open>
  The properties of the file server, with a server over an empty disk in memory as the example.
\<close>

subsection \<open>An example server\<close>

definition fs_ring :: "fs_cmd_t list \<Rightarrow> fs_queue_t" where
  "fs_ring cmds = \<lparr>fq_head = 0, fq_tail = of_nat (length cmds),
     fq_buffer = map msg_of_cmd cmds @ replicate (511 - length cmds) (replicate 8 0)\<rparr>"

lemma fs_ring_wf:
  "fs_queue_wf (fs_ring [])" "cmd_items (fs_ring []) = []" "cmpl_items (fs_ring []) = []" "0 < fs_left (fs_ring [])"
  "fs_queue_wf (fs_ring [c])" "cmd_items (fs_ring [c]) = [c]"
  by (simp_all add: fs_ring_def fs_queue_wf_def ring_wf_def ring_ok_def cmd_items_def cmpl_items_def fs_items_def ring_items_def
      FS_QUEUE_CAPACITY_def fs_left_def ring_left_def ring_divides_def ring_slot_def zero_enat_def)

definition sample_disk :: "u64 \<Rightarrow> u8 list" where "sample_disk = (\<lambda>_. zeros)"

definition sample_shared :: "fs_cmd_t list \<Rightarrow> mem \<Rightarrow> (u64 \<Rightarrow> u8 list) shared" where
  "sample_shared cmds share = \<lparr>sh_blk = blk_handle_sample, sh_data = zeros, sh_commands = fs_ring cmds,
     sh_completions = fs_ring [], sh_share = share, sh_peers = sample_disk\<rparr>"

definition sample_fat :: "fs_cmd_t list \<Rightarrow> mem \<Rightarrow> (u64 \<Rightarrow> u8 list) fat" where
  "sample_fat cmds share = \<lparr>ft_shared = sample_shared cmds share,
     ft_wait = (\<lambda>ch w. if ch = BLK_CH then disk_serve w else Some w), ft_past = (\<lambda>_. 0),
     ft_storage = \<lparr>si_serial_number = [], si_read_only = False, si_ready = True, si_sector_size = 512, si_block_size = 1,
       si_queue_depth = 1, si_cylinders = 0, si_heads = 0, si_blocks = 0, si_capacity = 1024\<rparr>, block_no = 0, block_valid = False, block_dirty = False, block = zeros,
     ft_file = None, ft_dir = None, ft_notes = []\<rparr>"

definition sample_dev :: "(u64 \<Rightarrow> u8 list) dev" where
  "sample_dev = \<lparr>dv_disk = (\<lambda>d. d), dv_pend = (\<lambda>_. 0), dv_good = (\<lambda>_. True)\<rparr>"

lemma sample_working:
  assumes "cmds = [] \<or> (\<exists>c. cmds = [c])"
  shows "working sample_dev (sample_fat cmds share)" "room (sample_fat cmds share)"
proof -
  have "blk_ready blk_handle_sample" "req_items blk_handle_sample = []" "resp_items blk_handle_sample = []"
    by (simp_all add: blk_ready_def blk_handle_wf_def blk_handle_sample_def ring_wf_def ring_ok_def ring_divides_def req_items_def
        resp_items_def ring_items_def Let_def)
  then show "working sample_dev (sample_fat cmds share)"
    using disk_serve_peer assms fs_ring_wf
    by (auto simp: working_def steady_def calm_def alive_def tidy_def peers_ok_def drained_def sample_dev_def sample_fat_def
        sample_shared_def sample_disk_def simp del: replicate.simps)
  show "room (sample_fat cmds share)"
    using fs_ring_wf by (simp add: room_def sample_fat_def sample_shared_def FS_QUEUE_CAPACITY_def)
qed

lemma sample_blank: "blank (sect sample_dev (sample_fat cmds share))"
proof -
  let ?s = "sample_fat cmds share"
  have v: "vol (dv_disk sample_dev) ?s = (\<lambda>_. zeros)"
    by (simp add: vol_def sample_fat_def sample_dev_def sample_shared_def sample_disk_def del: replicate.simps)
  have sec: "sect sample_dev ?s l = replicate SECTOR_BYTES 0" for l
    using zero_slices [OF sector_fits [of l]] by (simp add: sect_def v)
  have "root_entry (sect sample_dev ?s) i = replicate DIR_ENTRY 0" for i
    using root_place_fits [of i] by (simp add: root_entry_def sec)
  moreover have "fat_entry (sect sample_dev ?s) c = 0" if "c < CLUSTER_SCAN" for c
  proof -
    have "unat c < 64" using that by (simp add: CLUSTER_SCAN_def word_less_nat_alt)
    then have "slice (unat c * 2) 2 (replicate SECTOR_BYTES (0 :: u8)) = replicate 2 0"
      by (intro slice_replicate) (simp add: SECTOR_BYTES_def)
    then show ?thesis using that by (simp add: fat_entry_def fat_place_small sec from_le16_def numeral_2_eq_2)
  qed
  ultimately show ?thesis by (simp add: blank_def sized_def mirrored_def sec DIR_ENTRY_def)
qed

lemma sample_healthy:
  assumes "cmds = [] \<or> (\<exists>c. cmds = [c])"
  shows "stable sample_dev (sample_fat cmds share)" "healthy sample_dev (sample_fat cmds share)"
    "files sample_dev (sample_fat cmds share) = Map.empty"
proof -
  have f: "ft_file (sample_fat cmds share) = None" "ft_dir (sample_fat cmds share) = None" by (simp_all add: sample_fat_def)
  then show h: "healthy sample_dev (sample_fat cmds share)"
    using sample_working(1) [OF assms] blank_sound(1) [OF sample_blank] unfolding healthy_def by simp
  then show "stable sample_dev (sample_fat cmds share)" using sample_working(2) [OF assms] unfolding stable_def by simp
  show "files sample_dev (sample_fat cmds share) = Map.empty" by (rule blank_sound(2) [OF sample_blank])
qed

definition sample_mkdir :: fs_cmd_t where
  "sample_mkdir = \<lparr>cmd_id = 7, cmd_type = FS_CMD_DIR_CREATE, cmd_params = [0, 1, 0, 0, 0, 0]\<rparr>"

text \<open>The share of the example holds the letter \<open>a\<close> everywhere.\<close>

abbreviation letters :: mem where "letters \<equiv> (\<lambda>_. 0x61)"

lemma sample_plain: "plain_command sample_mkdir (sample_fat cmds letters)"
  by (simp add: plain_command_def sample_mkdir_def plain_path_def sample_fat_def sample_shared_def param_buffer_def marker_def Let_def fs_cmd_defs)

lemma sample_commands: "cmd_items (sh_commands (ft_shared (sample_fat [c] share))) = [c]"
  by (simp add: sample_fat_def sample_shared_def fs_ring_wf)

subsection \<open>Serving\<close>

text \<open>C15: The file server answers every command exactly once. When it takes a command from the ring,
  whatever the command, provided the device answers each request (with success or with failure) and the
  completion ring has room, \<open>serve_one\<close> neither panics nor hangs: it adds one completion with the id of
  the command behind those the client has not consumed yet, and takes no other command.\<close>

theorem fat_answers_every_command:
  assumes "ready D s" and "cmd_items (sh_commands (ft_shared s)) = cmd # cmds"
  shows "\<exists>ok s' n c new. serve_one s = Some (ok, s') \<and> cmpl_id c = cmd_id cmd \<and>
    cmpl_items (sh_completions (ft_shared s')) = drop n (cmpl_items (sh_completions (ft_shared s))) @ [c] \<and>
    cmd_items (sh_commands (ft_shared s')) = cmds @ new"
  using serve_one_serves [OF assms] by (auto simp: finishes_def)

theorem fat_answers_every_command_witness:
  "\<exists>ok s' n c new. serve_one (sample_fat [sample_mkdir] letters) = Some (ok, s') \<and> cmpl_id c = 7 \<and>
    cmpl_items (sh_completions (ft_shared s')) =
      drop n (cmpl_items (sh_completions (ft_shared (sample_fat [sample_mkdir] letters)))) @ [c] \<and>
    cmd_items (sh_commands (ft_shared s')) = [] @ new"
proof -
  have "ready sample_dev (sample_fat [sample_mkdir] letters)"
    using sample_working [of "[sample_mkdir]"] by (auto simp: ready_def handles_ok_def) (simp_all add: sample_fat_def)
  then show ?thesis
    using fat_answers_every_command [OF _ sample_commands, of sample_dev sample_mkdir letters] by (simp add: sample_mkdir_def)
qed

text \<open>C14: The volume stays sound. Over a working device and starting from a sound volume, after any number
  of commands of any kind whose new names do not begin with one of the two directory markers (bytes 0
  and 0xE5), sent by a client that leaves the block queues alone and keeps room for the completions, the
  volume is sound: both copies of the allocation table agree, directories end properly, names are
  unique, every file and directory owns an allocated cluster of its own, and no file is longer than its
  sector. The worker never gives up.\<close>

theorem fat_volume_stays_sound:
  assumes "healthy D s0" and "fat_run s0 s"
  shows "volume_sound (sect D s) \<and> (\<forall>w. client_turn s w \<longrightarrow> (\<exists>s'. serve_one (s\<lparr>ft_shared := w\<rparr>) = Some (True, s')))"
proof -
  have h: "healthy D s" using fat_run_healthy [OF assms(2,1)] .
  then show ?thesis using serve_one_healthy [OF h] unfolding healthy_def by blast
qed

lemma sample_turn: "client_turn (sample_fat [sample_mkdir] letters) (sample_shared [sample_mkdir] letters)"
proof -
  have "sample_fat [sample_mkdir] letters\<lparr>ft_shared := sample_shared [sample_mkdir] letters\<rparr> = sample_fat [sample_mkdir] letters"
    by (simp add: sample_fat_def)
  then show ?thesis
    using sample_working(2) [of "[sample_mkdir]"] sample_plain fs_ring_wf
    by (simp add: client_turn_def) (simp add: sample_fat_def sample_shared_def BLK_CH_def FS_CH_def del: replicate.simps)
qed

theorem fat_volume_stays_sound_witness:
  "\<exists>s. serve_one (sample_fat [sample_mkdir] letters) = Some (True, s) \<and> fat_run (sample_fat [sample_mkdir] letters) s \<and>
    volume_sound (sect sample_dev s)"
proof -
  let ?s = "sample_fat [sample_mkdir] letters"
  have h: "healthy sample_dev ?s" by (rule sample_healthy) simp
  have eq: "?s\<lparr>ft_shared := sample_shared [sample_mkdir] letters\<rparr> = ?s" by (simp add: sample_fat_def)
  obtain s where s: "serve_one ?s = Some (True, s)"
    using fat_volume_stays_sound [OF h fat_run.start] sample_turn eq by metis
  then have "fat_run ?s s" using fat_run.serve [OF fat_run.start sample_turn] eq by metis
  then show ?thesis using s fat_volume_stays_sound [OF h] by blast
qed


lemma pack_a: "pack_name [0x61] = Some (0x41 # replicate 10 0x20)"
  by (simp add: pack_name_def upper_def patch_def)

lemma sample_not_full: "\<not> volume_full (sect sample_dev (sample_fat cmds share))"
  using blank_reserves(1,2) [OF sample_blank, of cmds share] by (simp add: volume_full_def)


text \<open>C16: Bytes written are read back. When the open file is written with up to 512 bytes of the
  share and the client has made room for another completion, a read into any part of the share that is
  long enough puts exactly those bytes there.\<close>

theorem fat_write_then_read:
  assumes "stable D s" and "write_ok s FD_FILE 0 buf"
    and "bytes = mem_get (unat (fb_offset buf)) (unat (fb_size buf)) (sh_share (ft_shared s))"
  shows "\<exists>s1. handle_write rid FD_FILE 0 buf s = Some (True, s1) \<and>
    (\<forall>rid' buf'. room s1 \<and> in_share (fb_offset buf') (unat (fb_size buf')) \<and> fb_size buf \<le> fb_size buf' \<longrightarrow>
      (\<exists>s2. handle_read rid' FD_FILE 0 buf' s1 = Some (True, s2) \<and>
        mem_get (unat (fb_offset buf')) (length bytes) (sh_share (ft_shared s2)) = bytes))"
proof -
  obtain s1 name where s1: "handle_write rid FD_FILE 0 buf s = Some (True, s1)" "healthy D s1" "opened D name s1"
    "files D s1 name = Some (File bytes)"
    using handle_write_result [OF assms(1), of rid FD_FILE 0 buf] assms(2,3) by (auto simp: result_def finishes_def)
  obtain f i where f: "ft_file s1 = Some f" "file_place (sect D s1) f (Root i)" "ent_name (root_entry (sect D s1) i) = name"
    using s1(3) by (auto simp: opened_def)
  have V: "volume_sound (sect D s1)" using s1(2) unfolding healthy_def by simp
  have "present (sect D s1) (Root i)" "\<not> is_dir (ent_attr (root_entry (sect D s1) i))" using f(2) by (simp_all add: file_place_def)
  then have oc: "open_contents (sect D s1) f = bytes"
    using tree_at [OF V] f(3) s1(4) open_contents_place [OF f(2)] by (auto simp: node_at_def)
  have len: "length bytes = unat (fb_size buf)" using assms(3) by simp
  show ?thesis
  proof (rule exI [of _ s1], intro conjI allI impI, rule s1(1), elim conjE)
    fix rid' and buf' :: fs_buffer_t
    assume r: "room s1" "in_share (fb_offset buf') (unat (fb_size buf'))" "fb_size buf \<le> fb_size buf'"
    have st: "stable D s1" using s1(2) r(1) unfolding stable_def by simp
    have ok: "read_ok s1 FD_FILE 0 buf'" using f(1) r(2) by (simp add: read_ok_def)
    have "take (unat (fb_size buf')) bytes = bytes" using len r(3) by (simp add: word_le_nat_alt)
    then show "\<exists>s2. handle_read rid' FD_FILE 0 buf' s1 = Some (True, s2) \<and>
        mem_get (unat (fb_offset buf')) (length bytes) (sh_share (ft_shared s2)) = bytes"
      using handle_read_result [OF st, of rid' FD_FILE 0 buf'] ok f(1) oc by (auto simp: result_def finishes_def Let_def)
  qed
qed

text \<open>The client consumes the completions.\<close>

abbreviation consumed :: "'d fat \<Rightarrow> 'd fat" where
  "consumed s \<equiv> s\<lparr>ft_shared := (ft_shared s)\<lparr>sh_completions := fs_ring []\<rparr>\<rparr>"

lemma consumed_stable: "healthy D s \<Longrightarrow> stable D (consumed s)"
proof -
  assume h: "healthy D s"
  have sec: "sect D (consumed s) = sect D s" by (rule sect_cong) simp_all
  show ?thesis
    using h sec fs_ring_wf unfolding stable_def healthy_def
    by (auto simp: working_def steady_def alive_def tidy_def peers_ok_def calm_def room_def FS_QUEUE_CAPACITY_def)
qed

lemma sample_created:
  "\<exists>s. create_file 1 (0x41 # replicate 10 0x20) (sample_fat [] letters) = Some (True, s) \<and> healthy sample_dev s \<and>
    opened sample_dev (0x41 # replicate 10 0x20) s"
proof -
  let ?s = "sample_fat [] letters" and ?n = "0x41 # replicate 10 0x20 :: u8 list"
  have "plain ?n" by (simp add: plain_def marker_def)
  moreover have "ft_file ?s = None" by (simp add: sample_fat_def)
  ultimately show ?thesis
    using create_file_result [of sample_dev ?s ?n 1] sample_healthy [of "[]" letters] sample_not_full [of "[]" letters]
    by (auto simp: result_def finishes_def add_spec_def)
qed

theorem fat_write_then_read_witness:
  "\<exists>s s1. create_file 1 (0x41 # replicate 10 0x20) (sample_fat [] letters) = Some (True, s) \<and>
    handle_write 2 FD_FILE 0 \<lparr>fb_offset = 0, fb_size = 3\<rparr> (consumed s) = Some (True, s1) \<and>
    (\<forall>rid' buf'. room s1 \<and> in_share (fb_offset buf') (unat (fb_size buf')) \<and> fb_size \<lparr>fb_offset = 0, fb_size = 3\<rparr> \<le> fb_size buf' \<longrightarrow>
      (\<exists>s2. handle_read rid' FD_FILE 0 buf' s1 = Some (True, s2)))"
proof -
  let ?buf = "\<lparr>fb_offset = 0, fb_size = 3\<rparr> :: fs_buffer_t"
  obtain s where s: "create_file 1 (0x41 # replicate 10 0x20) (sample_fat [] letters) = Some (True, s)" "healthy sample_dev s"
    "opened sample_dev (0x41 # replicate 10 0x20) s" using sample_created by blast
  obtain f where "ft_file s = Some f" "fl_parent f = 0" using s(3) by (auto simp: opened_def file_place_def)
  then have ok: "write_ok (consumed s) FD_FILE 0 ?buf"
    by (simp add: write_ok_def in_share_def FS_REGION_SIZE_def SECTOR_BYTES_def)
  obtain s1 where s1: "handle_write 2 FD_FILE 0 ?buf (consumed s) = Some (True, s1)"
    "\<And>rid' buf'. room s1 \<and> in_share (fb_offset buf') (unat (fb_size buf')) \<and> fb_size ?buf \<le> fb_size buf' \<Longrightarrow>
      \<exists>s2. handle_read rid' FD_FILE 0 buf' s1 = Some (True, s2)"
    using fat_write_then_read [OF consumed_stable [OF s(2)] ok refl, of 2] by fast
  show ?thesis
    by (rule exI [of _ s], rule exI [of _ s1], rule conjI [OF s(1)], rule conjI [OF s1(1)], intro allI impI) (rule s1(2))
qed

subsection \<open>Starting\<close>


lemma sample_prepared:
  "\<exists>s. prepare (sample_fat [] letters) = Some (True, s) \<and> working sample_dev s \<and> frame (sample_fat [] letters) s \<and>
    volume_sound (sect sample_dev s) \<and> bootable (vol (dv_disk sample_dev) s 0) \<and>
    files sample_dev s = [config_name \<mapsto> Dir [host_name \<mapsto> seed_bytes]]"
proof -
  let ?s = "sample_fat [] letters"
  have v: "vol (dv_disk sample_dev) ?s 0 = zeros"
    by (simp add: vol_def sample_fat_def sample_dev_def sample_shared_def sample_disk_def del: replicate.simps)
  have nb: "\<not> bootable (vol (dv_disk sample_dev) ?s 0)" unfolding v by (simp add: bootable_def TRANSFER_def)
  have "blk_storage_is_ready (ft_storage ?s)" by (simp add: sample_fat_def blk_storage_is_ready_def)
  then show ?thesis
    using prepare_result [OF sample_working(1), of "[]" letters] nb by (auto simp: finishes_def seeded_def)
qed


subsection \<open>The block cache\<close>

type_synonym sector_edit = "u32 \<times> (u8 list \<Rightarrow> u8 list option)"

definition edit_through_cache :: "sector_edit list \<Rightarrow> 'd fat \<Rightarrow> (bool \<times> 'd fat) option" where
  "edit_through_cache es = all_ok (map (\<lambda>(l, e). edit_sector l e) es @ [flush_block])"

fun edit_directly :: "sector_edit list \<Rightarrow> volume \<Rightarrow> volume" where
  "edit_directly [] V = V"
| "edit_directly ((l, e) # es) V = edit_directly es (V(l := the (e (V l))))"

definition device_sector :: "'d dev \<Rightarrow> 'd fat \<Rightarrow> volume" where
  "device_sector D s l = slice (unat (l mod SECTORS_PER_TRANSFER) * SECTOR_BYTES) SECTOR_BYTES
     (device (dv_disk D) s (ucast (l div SECTORS_PER_TRANSFER)))"

definition good_edit :: "sector_edit \<Rightarrow> bool" where
  "good_edit le \<longleftrightarrow> fst le < 8192 \<and> (\<forall>x. length x = SECTOR_BYTES \<longrightarrow> (\<exists>y. snd le x = Some y \<and> length y = SECTOR_BYTES))"

lemma edits_run:
  assumes "working D s" and "\<forall>le\<in>set es. good_edit le"
  shows "finishes (edit_through_cache es s) (\<lambda>ok s'. ok \<and> working D s' \<and> sect D s' = edit_directly es (sect D s)
    \<and> device_sector D s' = sect D s')"
  using assms
proof (induction es arbitrary: s)
  case Nil
  show ?case
    unfolding edit_through_cache_def list.map append_Nil
  proof (rule all_ok_finishes [where P = "\<lambda>s'. working D s' \<and> sect D s' = sect D s \<and> device_sector D s' = sect D s'"])
    show "finishes (flush_block s) (\<lambda>ok s'. ok \<and> working D s' \<and> sect D s' = sect D s \<and> device_sector D s' = sect D s')"
      by (rule finishes_mono [OF steady_flush [OF working_steady [OF Nil(1)]]])
        (use Nil(1) in \<open>auto simp: working_def device_sector_def sect_def fun_eq_iff\<close>)
  qed (simp add: all_ok.simps)
next
  case (Cons le es)
  obtain l e where le: "le = (l, e)" by (cases le)
  have "length (sect D s l) = SECTOR_BYTES" using sized_sect [OF Cons.prems(1)] by (simp add: sized_def)
  then obtain y where y: "e (sect D s l) = Some y" "length y = SECTOR_BYTES" and l: "l < 8192"
    using Cons.prems(2) le by (auto simp: good_edit_def)
  have "finishes (edit_sector l e s) (\<lambda>ok s'. ok \<and> (working D s' \<and> sect D s' = (sect D s)(l := y)))"
    using edit_works [where edit = e, OF Cons.prems(1) l y] unfolding works_def by (rule finishes_mono) simp
  then show ?case
    unfolding edit_through_cache_def list.map append_Cons le case_prod_conv
  proof (rule all_ok_finishes [where m = "edit_sector l e" and P = "\<lambda>s'. working D s' \<and> sect D s' = (sect D s)(l := y)"])
    fix s' assume "working D s' \<and> sect D s' = (sect D s)(l := y)"
    then show "finishes (all_ok (map (\<lambda>(l, e). edit_sector l e) es @ [flush_block]) s') (\<lambda>ok s'. ok \<and> working D s'
        \<and> sect D s' = edit_directly ((l, e) # es) (sect D s) \<and> device_sector D s' = sect D s')"
      using Cons.IH [of s'] Cons.prems(2) y(1) unfolding edit_through_cache_def by (simp del: fun_upd_apply)
  qed
qed

text \<open>C18: The write-back cache is transparent. Any sequence of sector edits through the one-block
  cache followed by a flush leaves on the device exactly what the edits leave when they are applied
  directly to its sectors, whichever blocks they hit and in whatever order; the server sees the same
  sectors.\<close>

theorem block_cache_is_transparent:
  assumes "working D s" and "\<forall>le\<in>set es. good_edit le"
  shows "\<exists>s'. edit_through_cache es s = Some (True, s') \<and> device_sector D s' = edit_directly es (sect D s) \<and>
    sect D s' = device_sector D s'"
  using edits_run [OF assms] by (auto simp: finishes_def)

theorem block_cache_is_transparent_witness:
  "\<exists>s'. edit_through_cache [(0, put_slice 0 [1]), (9, put_slice 3 [2]), (0, put_slice 1 [3])] (sample_fat [] letters) = Some (True, s') \<and>
    device_sector sample_dev s' 0 ! 0 = 1 \<and> device_sector sample_dev s' 0 ! 1 = 3 \<and> device_sector sample_dev s' 9 ! 3 = 2"
proof -
  let ?es = "[(0, put_slice 0 [1]), (9, put_slice 3 [2]), (0, put_slice 1 [3])] :: sector_edit list"
  let ?V = "sect sample_dev (sample_fat [] letters)"
  have w: "working sample_dev (sample_fat [] letters)" by (rule sample_working) simp
  have len: "length (?V l) = 512" for l using sized_sect [OF w] by (simp add: sized_def SECTOR_BYTES_def)
  have "\<forall>le\<in>set ?es. good_edit le" by (simp add: good_edit_def put_slice_def SECTOR_BYTES_def)
  then obtain s' where "edit_through_cache ?es (sample_fat [] letters) = Some (True, s')" "device_sector sample_dev s' = edit_directly ?es ?V"
    using block_cache_is_transparent [OF w] by blast
  then show ?thesis by (simp add: put_slice_def len nth_patch)
qed

subsection \<open>Names\<close>

text \<open>The characters that survive packing: no space, dot or slash.\<close>

definition name_part :: "u8 list \<Rightarrow> bool" where
  "name_part xs \<longleftrightarrow> (\<forall>b\<in>set xs. b \<noteq> 0x20 \<and> b \<noteq> 0x2e)"

lemma position_None: "\<forall>x\<in>set xs. \<not> p x \<Longrightarrow> position p xs = None"
  by (induction xs) auto

lemma position_append: "\<forall>x\<in>set xs. \<not> p x \<Longrightarrow> p y \<Longrightarrow> position p (xs @ y # ys) = Some (length xs)"
  by (induction xs) auto

lemma upper_space: "upper b = 0x20 \<longleftrightarrow> b = 0x20"
proof -
  have "b - 0x20 \<noteq> 0x20" "b \<noteq> 0x20" if b: "0x61 \<le> b" "b \<le> 0x7a"
  proof -
    have "97 \<le> unat b" using b(1) by (simp add: word_le_nat_alt)
    moreover have "unat (b - 0x20) = unat b - 32" using b(1) by (subst unat_sub) (auto simp: word_le_nat_alt)
    ultimately have "unat (b - 0x20) \<noteq> unat (0x20 :: u8)" "unat b \<noteq> unat (0x20 :: u8)" by simp_all
    then show "b - 0x20 \<noteq> 0x20" "b \<noteq> 0x20" by auto
  qed
  then show ?thesis by (auto simp: upper_def)
qed

lemma patch_Cons: "off < length xs \<Longrightarrow> patch (Suc off) bs (xs[off := b]) = patch off (b # bs) xs"
  by (simp add: patch_def take_Suc_conv_app_nth)

lemma show_part_copies:
  assumes "\<forall>b\<in>set bs. b \<noteq> 0x20" and "len + length bs \<le> length shown" and "rest = [] \<or> hd rest = 0x20"
  shows "show_part (bs @ rest) shown len = Some (patch len bs shown, len + length bs)"
  using assms
proof (induction bs arbitrary: shown len)
  case Nil
  then show ?case by (cases rest) (auto simp: patch_def)
next
  case (Cons b bs)
  then show ?case using patch_Cons [of len shown bs b] by simp
qed

lemma map_upper_part: "name_part xs \<Longrightarrow> \<forall>b\<in>set (map upper xs). b \<noteq> 0x20"
  by (auto simp: name_part_def upper_space)

lemma pack_name_parts:
  assumes "name_part base" "base \<noteq> []" "length base \<le> 8" "name_part ext" "length ext \<le> 3"
    and "length raw \<le> 11" and "raw = base @ (if ext = [] then [] else 0x2e # ext)"
  shows "pack_name raw = Some (map upper base @ replicate (8 - length base) 0x20 @ map upper ext @ replicate (3 - length ext) 0x20)"
proof -
  have nd: "\<forall>b\<in>set base. \<not> b = 0x2e" using assms(1) by (simp add: name_part_def)
  show ?thesis
  proof (cases "ext = []")
    case True
    then have "position (\<lambda>byte. byte = 0x2e) raw = None" using nd assms(7) by (simp add: position_None)
    then show ?thesis using True assms by (simp add: pack_name_def patch_def replicate_add [symmetric])
  next
    case False
    then have "position (\<lambda>byte. byte = 0x2e) raw = Some (length base)" using nd assms(7) position_append [of base] by simp
    then show ?thesis using False assms by (simp add: pack_name_def patch_def)
  qed
qed

lemma blanks: "replicate n x = [] \<or> hd (replicate n x) = x"
  by (cases n) simp_all

lemma display_parts:
  assumes bs: "\<forall>b\<in>set bs. b \<noteq> 0x20" "length bs \<le> 8" and es: "\<forall>b\<in>set es. b \<noteq> 0x20" "length es \<le> 3"
    and t: "take 11 e = bs @ replicate (8 - length bs) 0x20 @ es @ replicate (3 - length es) 0x20"
  shows "\<exists>shown. display_name e = Some (shown, length (bs @ (if es = [] then [] else 0x2e # es))) \<and>
    take (length (bs @ (if es = [] then [] else 0x2e # es))) shown = bs @ (if es = [] then [] else 0x2e # es)"
proof -
  let ?s = "patch 0 bs (replicate 12 0)"
  have t8: "take 8 e = bs @ replicate (8 - length bs) 0x20" using arg_cong [OF t, of "take 8"] bs(2) by simp
  have s8: "slice 8 3 e = es @ replicate (3 - length es) 0x20"
    using arg_cong [OF t, of "drop 8"] bs(2) by (simp add: slice_def drop_take)
  have e8: "e ! 8 = (es @ replicate (3 - length es) 0x20) ! 0"
    using arg_cong [OF t, of "\<lambda>xs. xs ! 8"] bs(2) by (simp add: nth_append)
  have base: "show_part (take 8 e) (replicate 12 0) 0 = Some (?s, length bs)"
    using show_part_copies [OF bs(1) _ blanks, of 0 "replicate 12 0" "8 - length bs"] bs(2) by (simp add: t8)
  show ?thesis
  proof (cases "es = []")
    case True
    then show ?thesis using base e8 bs(2) by (simp add: display_name_def patch_def)
  next
    case False
    then have "e ! 8 \<noteq> 0x20" using e8 es(1) by (cases es) auto
    moreover have "show_part (slice 8 3 e) (?s[length bs := 0x2e]) (length bs + 1)
        = Some (patch (length bs) (0x2e # es) ?s, length bs + 1 + length es)"
      using show_part_copies [OF es(1) _ blanks, of "length bs + 1" "?s[length bs := 0x2e]" "3 - length es"]
        bs(2) es(2) patch_Cons [of "length bs" ?s es "0x2e"] by (simp add: s8)
    ultimately show ?thesis using base False bs(2) es(2) by (simp add: display_name_def patch_def)
  qed
qed

lemma display_put_entry:
  assumes "\<forall>b\<in>set bs. b \<noteq> 0x20" "length bs \<le> 8" "\<forall>b\<in>set es. b \<noteq> 0x20" "length es \<le> 3"
    and "name = bs @ replicate (8 - length bs) 0x20 @ es @ replicate (3 - length es) 0x20"
  shows "\<exists>shown. display_name (put_entry name c z a (replicate DIR_ENTRY 0)) = Some (shown, length (bs @ (if es = [] then [] else 0x2e # es))) \<and>
    take (length (bs @ (if es = [] then [] else 0x2e # es))) shown = bs @ (if es = [] then [] else 0x2e # es)"
proof (rule display_parts [OF assms(1-4)])
  have "length name = 11" using assms(2,4,5) by simp
  then show "take 11 (put_entry name c z a (replicate DIR_ENTRY 0)) = bs @ replicate (8 - length bs) 0x20 @ es @ replicate (3 - length es) 0x20"
    using new_entry_fields(1) [of name c z a] assms(5) by (simp add: new_entry_def ent_name_def)
qed

text \<open>Listed names are the names files were created under. A name of at most eleven characters,
  with a base of one to eight and an extension of up to three characters, is packed into a directory
  entry from which the listing shows the same name in capitals.\<close>

theorem name_shown_as_packed:
  assumes "name_part base" "base \<noteq> []" "length base \<le> 8" "name_part ext" "length ext \<le> 3"
    and "length raw \<le> 11" and "raw = base @ (if ext = [] then [] else 0x2e # ext)"
  shows "\<exists>name. pack_name raw = Some name \<and> (\<exists>shown. display_name (put_entry name c z a (replicate DIR_ENTRY 0)) = Some (shown, length raw) \<and>
    take (length raw) shown = map upper raw)"
proof -
  have "map upper raw = map upper base @ (if map upper ext = [] then [] else 0x2e # map upper ext)"
    using assms(7) by (simp add: upper_def)
  then show ?thesis
    using pack_name_parts [OF assms] assms(3,5,7)
      display_put_entry [OF map_upper_part [OF assms(1)] _ map_upper_part [OF assms(4)] _ refl, of c z a]
    by (simp split: if_splits)
qed

theorem name_shown_as_packed_witness:
  "\<exists>name. pack_name [0x61, 0x2e, 0x62] = Some name \<and> (\<exists>shown.
    display_name (put_entry name 2 0 0 (replicate DIR_ENTRY 0)) = Some (shown, length [0x61 :: u8, 0x2e, 0x62]) \<and>
    take (length [0x61 :: u8, 0x2e, 0x62]) shown = map upper [0x61, 0x2e, 0x62])"
  by (rule name_shown_as_packed [of "[0x61]" "[0x62]"]) (simp_all add: name_part_def)

text \<open>A full 8.3 name is refused. The listing can show names of twelve characters (a base of eight,
  a dot and an extension of three), but no command accepts them: \<open>pack_name\<close> refuses every name
  longer than eleven characters, so a file of a foreign volume with such a name is listed and cannot be
  opened.\<close>

theorem full_names_are_refused:
  assumes "name_part base" "length base = 8" "name_part ext" "length ext = 3"
  shows "(\<exists>shown. display_name (put_entry (base @ ext) c z a (replicate DIR_ENTRY 0)) = Some (shown, 12) \<and>
      take 12 shown = base @ 0x2e # ext) \<and> pack_name (base @ 0x2e # ext) = None"
proof -
  have "\<forall>b\<in>set base. b \<noteq> 0x20" "\<forall>b\<in>set ext. b \<noteq> 0x20" "ext \<noteq> []" using assms by (auto simp: name_part_def)
  then show ?thesis using display_put_entry [of base ext "base @ ext" c z a] assms(2,4) by (simp add: pack_name_def)
qed

theorem full_names_are_refused_witness:
  "pack_name (replicate 8 0x41 @ 0x2e # replicate 3 0x42) = None"
  using full_names_are_refused [of "replicate 8 0x41" "replicate 3 0x42"] by (simp add: name_part_def)

subsection \<open>Directory markers\<close>

lemma reserve_works:
  assumes w: "working D s" "sect D s = V" and m: "find_spec (root_entry V) name root_indices = Missing"
    and i: "free_spec (root_entry V) root_indices = Hit i" and c: "alloc_spec V (u16_range 2 CLUSTER_SCAN) = Hit c"
  shows "works D s (reserve_file rid name s) V (Inr (i, c))"
  unfolding reserve_file_def
proof (rule works_bind [OF find_name_works [OF w(1), unfolded w(2)]])
  fix s1 assume s1: "working D s1" "sect D s1 = V"
  show "works D s1 (case find_spec (root_entry V) name root_indices of
      Hit _ \<Rightarrow> stop_with (reply rid FS_STATUS_ALREADY_EXISTS s1) | Failed \<Rightarrow> stop_with (give_up rid s1)
    | Missing \<Rightarrow> find_free s1 \<bind> (\<lambda>(r, s). case r of
        Missing \<Rightarrow> stop_with (reply rid FS_STATUS_DIRECTORY_IS_FULL s) | Failed \<Rightarrow> stop_with (give_up rid s)
      | Hit slot \<Rightarrow> alloc_cluster s \<bind> (\<lambda>(r, s). case r of
          Hit cluster \<Rightarrow> Some (Inr (slot, cluster), s)
        | Missing \<Rightarrow> stop_with (reply rid FS_STATUS_DIRECTORY_IS_FULL s) | Failed \<Rightarrow> stop_with (give_up rid s)))) V (Inr (i, c))"
    unfolding m Scan.case
  proof (rule works_bind [OF find_free_works [OF s1(1), unfolded s1(2)]])
    fix s2 assume s2: "working D s2" "sect D s2 = V"
    show "works D s2 (case free_spec (root_entry V) root_indices of
        Missing \<Rightarrow> stop_with (reply rid FS_STATUS_DIRECTORY_IS_FULL s2) | Failed \<Rightarrow> stop_with (give_up rid s2)
      | Hit slot \<Rightarrow> alloc_cluster s2 \<bind> (\<lambda>(r, s). case r of
          Hit cluster \<Rightarrow> Some (Inr (slot, cluster), s)
        | Missing \<Rightarrow> stop_with (reply rid FS_STATUS_DIRECTORY_IS_FULL s) | Failed \<Rightarrow> stop_with (give_up rid s))) V (Inr (i, c))"
      unfolding i Scan.case
      by (rule works_bind [OF alloc_cluster_works [OF s2(1), unfolded s2(2)]]) (simp add: c works_return)
  qed
qed

lemma tree_no_marker:
  assumes "length name = 11" and "marker (name ! 0)"
  shows "find_spec (root_entry V) name root_indices = Missing" and "tree V name = None"
proof -
  have "\<not> (live (root_entry V i) \<and> ent_name (root_entry V i) = name)" for i
    using live_name [OF assms(1), of "root_entry V i"] assms(2) by auto
  then show "find_spec (root_entry V) name root_indices = Missing"
    using find_spec_hit [of "root_entry V" name root_indices] by (cases "find_spec (root_entry V) name root_indices") auto
  then show "tree V name = None" by (simp add: tree_def)
qed

lemma create_steps:
  assumes st: "stable D s" and none: "ft_file s = None" and len: "length name = 11"
    and m: "find_spec (root_entry (sect D s)) name root_indices = Missing"
    and i: "free_spec (root_entry (sect D s)) root_indices = Hit i" and c: "alloc_spec (sect D s) (u16_range 2 CLUSTER_SCAN) = Hit c"
  obtains s' n where "create_file rid name s = Some (True, s')"
    "sect D s' = root_upd i (new_entry name c 0 ATTR_ARCHIVE) (fat_upd c 0xffff (sect D s))" "ft_file s' \<noteq> None"
    "cmpl_items (sh_completions (ft_shared s')) = drop n (cmpl_items (sh_completions (ft_shared s)))
      @ [\<lparr>cmpl_id = rid, cmpl_status = FS_STATUS_SUCCESS, cmpl_data = FD_FILE\<rparr>]"
proof -
  let ?V' = "root_upd i (new_entry name c 0 ATTR_ARCHIVE) (fat_upd c 0xffff (sect D s))"
  have r: "i < ROOT_ENTRIES" "2 \<le> c" "c < CLUSTER_SCAN" using free_root_hit [OF i] alloc_hit [OF c] by simp_all
  obtain s1 where s1: "reserve_file rid name s = Some (Inr (i, c), s1)" "working D s1" "frame s s1" "sect D s1 = sect D s"
    using reserve_works [OF stable_working [OF st] refl m i c] by (auto simp: works_def finishes_def)
  have w: "works D s1 (all_ok [set_fat c 0xffff, write_dir i name c 0 ATTR_ARCHIVE, flush_block] s1) ?V' True"
    using s1 r len by (auto intro!: all_ok_works set_fat_works [THEN works_eq] write_dir_works [THEN works_eq]
      flush_works [THEN works_eq] simp del: fun_upd_apply)
  then obtain s2 where s2: "all_ok [set_fat c 0xffff, write_dir i name c 0 ATTR_ARCHIVE, flush_block] s1 = Some (True, s2)"
    "working D s2" "frame s1 s2" "sect D s2 = ?V'" by (auto simp: works_def finishes_def)
  have fr: "frame s s2" using s1(3) s2(3) by (rule frame_trans)
  then obtain n where n: "cmpl_items (sh_completions (ft_shared s2)) = drop n (cmpl_items (sh_completions (ft_shared s)))"
    by (auto simp: frame_def client_step_def)
  let ?f = "s2\<lparr>ft_file := Some \<lparr>fl_cluster = c, fl_size = 0, fl_dir_index = i, fl_parent = 0\<rparr>\<rparr>"
  have "working D ?f" "room ?f" using s2(2) changed_state(1) [OF st s2(2) fr] by simp_all
  then obtain s3 where s3: "complete rid FS_STATUS_SUCCESS (CFd FD_FILE) ?f = (True, s3)" "sect D s3 = sect D ?f" "ft_file s3 = ft_file ?f"
    "cmpl_items (sh_completions (ft_shared s3)) = cmpl_items (sh_completions (ft_shared ?f))
      @ [\<lparr>cmpl_id = rid, cmpl_status = FS_STATUS_SUCCESS, cmpl_data = completion_word (CFd FD_FILE)\<rparr>]"
    using complete_works by metis
  show ?thesis
    by (rule that [of s3 n])
      (use none s1(1) s2(1,4) s3 n in \<open>simp_all add: create_file_def file_busy_def\<close>)
qed

text \<open>C19: A file whose name begins with a directory marker is lost. When a client creates a file under
  a name whose first byte is 0 or 0xE5, the server answers with success and an open file, but no file of
  that name exists afterwards: the entry reads as the end of the directory or as deleted, while its
  cluster stays allocated.\<close>

theorem marker_name_loses_the_file:
  assumes "stable D s" and "ft_file s = None" and "\<not> volume_full (sect D s)" and "length name = 11" and "marker (name ! 0)"
  shows "\<exists>s' n c. create_file rid name s = Some (True, s') \<and>
    cmpl_items (sh_completions (ft_shared s')) = drop n (cmpl_items (sh_completions (ft_shared s)))
      @ [\<lparr>cmpl_id = rid, cmpl_status = FS_STATUS_SUCCESS, cmpl_data = FD_FILE\<rparr>] \<and>
    ft_file s' \<noteq> None \<and> files D s' name = None \<and> fat_entry (sect D s) c = 0 \<and> fat_entry (sect D s') c = 0xffff"
proof -
  obtain i c where ic: "free_spec (root_entry (sect D s)) root_indices = Hit i" "alloc_spec (sect D s) (u16_range 2 CLUSTER_SCAN) = Hit c"
    using assms(3) unfolding volume_full_def
    by (cases "free_spec (root_entry (sect D s)) root_indices"; cases "alloc_spec (sect D s) (u16_range 2 CLUSTER_SCAN)") auto
  have c: "c < CLUSTER_SCAN" "fat_entry (sect D s) c = 0" using alloc_hit [OF ic(2)] by simp_all
  show ?thesis
  proof (rule create_steps [OF assms(1,2,4) tree_no_marker(1) [OF assms(4,5)] ic, of rid])
    fix s' n
    assume s': "sect D s' = root_upd i (new_entry name c 0 ATTR_ARCHIVE) (fat_upd c 0xffff (sect D s))"
      "create_file rid name s = Some (True, s')" "ft_file s' \<noteq> None"
      "cmpl_items (sh_completions (ft_shared s')) = drop n (cmpl_items (sh_completions (ft_shared s)))
        @ [\<lparr>cmpl_id = rid, cmpl_status = FS_STATUS_SUCCESS, cmpl_data = FD_FILE\<rparr>]"
    have "sized (sect D s)" using sized_sect [OF stable_working [OF assms(1)]] .
    then have "fat_entry (sect D s') c = 0xffff"
      using s'(1) c(1) fat_entry_fat_upd [OF _ c(1) c(1), of "sect D s"] free_root_hit [OF ic(1)] by simp
    then show ?thesis using s'(2-4) c(2) tree_no_marker(2) [OF assms(4,5)] by blast
  qed
qed

theorem marker_name_loses_the_file_witness:
  "\<exists>s'. create_file 7 (0xe5 # replicate 10 0x20) (sample_fat [] letters) = Some (True, s') \<and>
    ft_file s' \<noteq> None \<and> files sample_dev s' (0xe5 # replicate 10 0x20) = None"
  using marker_name_loses_the_file [OF sample_healthy(1), of "[]" letters "0xe5 # replicate 10 0x20" 7] sample_not_full [of "[]" letters]
  by (auto simp: marker_def) (auto simp: sample_fat_def)

subsection \<open>Reading a file of a foreign volume\<close>

text \<open>C20: A read can run past the cached block. The server takes the size of an opened file from the
  volume and only ever loads one block of 4096 bytes for a read. When that size and the buffer of the
  client are larger than what is left of the block, the read succeeds and the share receives the
  server's own memory behind the block.\<close>

theorem read_runs_past_the_block:
  assumes "working D s" and "room s" and "ft_file s = Some f" and "2 \<le> fl_cluster f" and "fl_cluster f < CLUSTER_SCAN"
    and "in_share (fb_offset buf) (unat (fb_size buf))"
    and "from = unat (data_lba (fl_cluster f) mod SECTORS_PER_TRANSFER) * SECTOR_BYTES"
    and "k < unat (fb_size buf)" and "k < unat (fl_size f)" and "TRANSFER \<le> from + k"
  shows "\<exists>s'. handle_read rid FD_FILE 0 buf s = Some (True, s') \<and>
    sh_share (ft_shared s') (unat (fb_offset buf) + k) = ft_past s (from + k - TRANSFER)"
proof -
  let ?l = "data_lba (fl_cluster f)" and ?n = "min (unat (fb_size buf)) (unat (fl_size f))"
  have lba: "cluster_lba (fl_cluster f) = Some ?l" "?l < 8192" using assms(4,5) cluster_lba_data small_lba(2) by simp_all
  have ok: "read_ok s FD_FILE 0 buf" using assms(3,6) by (simp add: read_ok_def)
  have n: "?n \<noteq> 0" using assms(8,9) by simp
  obtain s1 where s1: "load_block (ucast (?l div SECTORS_PER_TRANSFER)) s = Some (True, s1)" "working D s1" "frame s s1" "length (block s1) = TRANSFER"
    using steady_load [OF working_steady [OF assms(1)], of ?l] assms(1) good_lba_small [OF assms(1) lba(2)]
    by (auto simp: finishes_def working_def)
  let ?s2 = "put_share_bytes (unat (fb_offset buf)) (block_bytes from ?n s1) s1"
  have "working D ?s2" "room ?s2" using s1(2) room_frame [OF assms(2) s1(3)] by simp_all
  then obtain s' where s': "complete rid FS_STATUS_SUCCESS (CRead (of_nat ?n)) ?s2 = (True, s')" "sh_share (ft_shared s') = sh_share (ft_shared ?s2)"
    using complete_works by metis
  have "block_bytes from ?n s1 ! k = ft_past s1 (from + k - TRANSFER)" "length (block_bytes from ?n s1) = ?n"
    using assms(8-10) s1(4) by (simp_all add: block_bytes_def)
  moreover have "ft_past s1 = ft_past s" using s1(3) by (simp add: frame_def)
  ultimately have "sh_share (ft_shared ?s2) (unat (fb_offset buf) + k) = ft_past s (from + k - TRANSFER)"
    using assms(8,9) by (simp add: put_share_bytes_def mem_put_def)
  then show ?thesis
    using s' s1(1) assms(7) by (simp add: handle_read_loads [OF ok assms(3) n lba(1)])
qed

theorem read_runs_past_the_block_witness:
  "\<exists>s'. handle_read 7 FD_FILE 0 \<lparr>fb_offset = 0, fb_size = 8192\<rparr>
      ((sample_fat [] letters)\<lparr>ft_file := Some \<lparr>fl_cluster = 2, fl_size = 8192, fl_dir_index = 0, fl_parent = 0\<rparr>,
        ft_past := (\<lambda>_. 42)\<rparr>) = Some (True, s') \<and> sh_share (ft_shared s') 8191 = 42"
proof -
  let ?s = "(sample_fat [] letters)\<lparr>ft_file := Some \<lparr>fl_cluster = 2, fl_size = 8192, fl_dir_index = 0, fl_parent = 0\<rparr>,
    ft_past := (\<lambda>_. 42)\<rparr>"
  have "working sample_dev ?s" "room ?s" using sample_working [of "[]" letters]
    by (simp_all add: working_def steady_def alive_def tidy_def calm_def peers_ok_def room_def)
  from read_runs_past_the_block [OF this, of _ "\<lparr>fb_offset = 0, fb_size = 8192\<rparr>" _ 8191 7]
  show ?thesis
    by (simp add: in_share_def FS_REGION_SIZE_def CLUSTER_SCAN_def TRANSFER_def)
qed

end
