(* ===== verification/PosixFat.thy ===== *)
theory PosixFat
  imports PosixRun FatClaims
begin

text \<open>
  The file client of \<open>lerux-posix\<close> in front of the file server of \<open>sddf-fatfs\<close>. The locale
  \<open>file_server\<close> is what the client relies on: a server that answers every command it is allowed to
  send, with an answer that satisfies a specification, and is good for the next one. Inside it each
  call of the client is reduced to the command it sends. The file server is an instance: its commands
  are specified by \<open>tree_step\<close>.

  The wake function of the client hands the command and the share to the server and waits for the
  completion. The client is blocked meanwhile and has consumed all earlier completions, so the server
  finds one command and an empty completion ring.
\<close>

subsection \<open>A client of a file server\<close>

definition linked :: "(fs_cmd_t \<Rightarrow> mem \<Rightarrow> 'cx \<Rightarrow> u64 \<times> u64 \<times> mem \<times> 'cx) \<Rightarrow> ('cx \<Rightarrow> bool) \<Rightarrow> Slot list \<Rightarrow> 'cx Files \<Rightarrow> bool" where
  "linked h good t s \<longleftrightarrow> kept t s \<and> served_by h s \<and> good (w_cx (f_world s))"

abbreviation share_of :: "'cx Files \<Rightarrow> mem" where "share_of s \<equiv> w_share (f_world s)"
abbreviation peer_of :: "'cx Files \<Rightarrow> 'cx" where "peer_of s \<equiv> w_cx (f_world s)"

lemma linked_fields:
  "linked h good t s \<Longrightarrow> linked h good t (put_share pos bytes s)"
  "linked h good t s \<Longrightarrow> linked h good t' (s\<lparr>f_slots := t'\<rparr>) = (length t' = TABLE_LEN)"
proof -
  show "linked h good t s \<Longrightarrow> linked h good t (put_share pos bytes s)" by (simp add: linked_def)
  show "linked h good t s \<Longrightarrow> linked h good t' (s\<lparr>f_slots := t'\<rparr>) = (length t' = TABLE_LEN)"
    by (auto simp: linked_def kept_def files_inv_def served_by_def)
qed

locale file_server =
  fixes h :: "fs_cmd_t \<Rightarrow> mem \<Rightarrow> 'cx \<Rightarrow> u64 \<times> u64 \<times> mem \<times> 'cx" and good :: "'cx \<Rightarrow> bool"
    and allowed :: "fs_cmd_t \<Rightarrow> mem \<Rightarrow> 'cx \<Rightarrow> bool"
    and spec :: "fs_cmd_t \<Rightarrow> mem \<Rightarrow> 'cx \<Rightarrow> u64 \<Rightarrow> u64 \<Rightarrow> mem \<Rightarrow> 'cx \<Rightarrow> bool"
  assumes answers: "good cx \<Longrightarrow> allowed c m cx \<Longrightarrow> h c m cx = (st, w, m', cx') \<Longrightarrow> good cx' \<and> spec c m cx st w m' cx'"
begin

lemma exchange_answered:
  assumes "linked h good t s" and "allowed (cmd\<lparr>cmd_id := f_next_id s\<rparr>) (share_of s) (peer_of s)"
  obtains s' st w where "exchange cmd s = Some (Inr \<lparr>cmpl_id = f_next_id s, cmpl_status = st, cmpl_data = w\<rparr>, s')"
    "linked h good t s'" "spec (cmd\<lparr>cmd_id := f_next_id s\<rparr>) (share_of s) (peer_of s) st w (share_of s') (peer_of s')"
proof -
  obtain st w m' cx' where a: "h (cmd\<lparr>cmd_id := f_next_id s\<rparr>) (share_of s) (peer_of s) = (st, w, m', cx')"
    by (cases "h (cmd\<lparr>cmd_id := f_next_id s\<rparr>) (share_of s) (peer_of s)") auto
  have sv: "served_by h s" "kept t s" "good (peer_of s)" using assms(1) by (simp_all add: linked_def)
  obtain s' where "exchange cmd s = Some (Inr \<lparr>cmpl_id = f_next_id s, cmpl_status = st, cmpl_data = w\<rparr>, s')"
    "served_by h s'" "kept t s'" "share_of s' = m'" "peer_of s' = cx'"
    by (rule exchange_served [OF sv(1,2) a])
  then show ?thesis using that answers [OF sv(3) assms(2) a] by (simp add: linked_def)
qed

lemma open_answered:
  assumes l: "linked h good t s" and i: "first_free t i" and p: "length path \<le> PATH_LIMIT"
    and ok: "\<And>n. allowed ((open_command \<lparr>fb_offset = 0, fb_size = of_nat (length path)\<rparr> (wire_flags how))\<lparr>cmd_id := n\<rparr>)
      (mem_put 0 path (share_of s)) (peer_of s)"
  obtains n s' st w m' cx' where
    "spec ((open_command \<lparr>fb_offset = 0, fb_size = of_nat (length path)\<rparr> (wire_flags how))\<lparr>cmd_id := n\<rparr>)
      (mem_put 0 path (share_of s)) (peer_of s) st w m' cx'"
    "st = FS_STATUS_SUCCESS \<Longrightarrow> Files_open path how s = Some (Inr (Fd (of_nat (i + 3))), s') \<and>
      linked h good (t[i := Slot.File w (access_of how) 0]) s' \<and> peer_of s' = cx'"
proof -
  let ?s = "put_share 0 path s" and ?p = "\<lparr>fb_offset = 0, fb_size = of_nat (length path)\<rparr>"
  have k: "kept t s" and ft: "f_flight s = Idle" and sz: "SHARE_MIN \<le> f_share_len s"
    using l by (auto simp: linked_def kept_def files_inv_def)
  have e: "first_empty s = Some i"
  proof (cases "first_empty s")
    case None
    then show ?thesis using i k by (simp add: first_empty_None first_free_def kept_def) (metis nth_mem)
  next
    case (Some j)
    then show ?thesis using first_free_unique [OF i] first_empty_Some [OF Some] k by (simp add: kept_def)
  qed
  have i125: "i < 125" using i k by (auto simp: first_free_def kept_def files_inv_def)
  have pl: "place path PATH_A s = ok ?p ?s" using p sz by (simp add: place_def PATH_LIMIT_def PATH_A_def SHARE_MIN_def)
  obtain s1 st w where x: "exchange (open_command ?p (wire_flags how)) ?s
      = Some (Inr \<lparr>cmpl_id = f_next_id ?s, cmpl_status = st, cmpl_data = w\<rparr>, s1)"
    "linked h good t s1" "spec ((open_command ?p (wire_flags how))\<lparr>cmd_id := f_next_id ?s\<rparr>) (share_of ?s) (peer_of ?s) st w (share_of s1) (peer_of s1)"
    by (rule exchange_answered [OF linked_fields(1) [OF l, of 0 path], of "open_command ?p (wire_flags how)"]) (use ok in simp_all)
  let ?t = "t[i := Slot.File w (access_of how) 0]"
  have t: "length ?t = TABLE_LEN" "f_slots s1 = t" using k x(2) by (auto simp: linked_def kept_def files_inv_def)
  show ?thesis
  proof (rule that [of "f_next_id ?s" st w "share_of s1" "peer_of s1" "s1\<lparr>f_slots := ?t\<rparr>"])
    assume "st = FS_STATUS_SUCCESS"
    then have "Files_open path how s = Some (Inr (Fd (of_nat (i + 3))), s1\<lparr>f_slots := ?t\<rparr>)"
      using x(1) e pl ft i125 t(2)
      by (simp add: Files_open_def and_then_def idle_def claim_slot_def ok_def store_slot_def modify_def fd_of_def checked_def)
    then show "Files_open path how s = Some (Inr (Fd (of_nat (i + 3))), s1\<lparr>f_slots := ?t\<rparr>) \<and>
      linked h good ?t (s1\<lparr>f_slots := ?t\<rparr>) \<and> peer_of (s1\<lparr>f_slots := ?t\<rparr>) = peer_of s1"
      using linked_fields(2) [OF x(2), of ?t] t(1) by simp
  qed (use x(3) in simp)
qed

lemma close_answered:
  assumes l: "linked h good t s" and fd: "fd_ok fd" and slot: "t ! slot_of fd = Slot.File sv a cur"
    and ok: "\<And>n. allowed ((close_command sv)\<lparr>cmd_id := n\<rparr>) (share_of s) (peer_of s)"
  obtains n s' st w m' cx' where "spec ((close_command sv)\<lparr>cmd_id := n\<rparr>) (share_of s) (peer_of s) st w m' cx'"
    "st = FS_STATUS_SUCCESS \<Longrightarrow> Files_close fd s = Some (Inr (), s') \<and> linked h good (t[slot_of fd := Empty]) s' \<and> peer_of s' = cx'"
proof -
  have k: "kept t s" and ft: "f_flight s = Idle" using l by (auto simp: linked_def kept_def files_inv_def)
  obtain s1 st w where x: "exchange (close_command sv) s = Some (Inr \<lparr>cmpl_id = f_next_id s, cmpl_status = st, cmpl_data = w\<rparr>, s1)"
    "linked h good t s1" "spec ((close_command sv)\<lparr>cmd_id := f_next_id s\<rparr>) (share_of s) (peer_of s) st w (share_of s1) (peer_of s1)"
    by (rule exchange_answered [OF l ok])
  let ?t = "t[slot_of fd := Empty]"
  have t: "length ?t = TABLE_LEN" "f_slots s1 = t" "f_slots s = t" "slot_of fd < length t"
    using k x(2) kept_slot [OF k fd] by (auto simp: linked_def kept_def files_inv_def)
  show ?thesis
  proof (rule that [of "f_next_id s" st w "share_of s1" "peer_of s1" "s1\<lparr>f_slots := ?t\<rparr>"])
    assume "st = FS_STATUS_SUCCESS"
    then have "Files_close fd s = Some (Inr (), s1\<lparr>f_slots := ?t\<rparr>)"
      using x(1) ft t slot index_slot [OF fd]
      by (simp add: Files_close_def and_then_def idle_def slot_at_def set_slot_def ok_def checked_def)
    then show "Files_close fd s = Some (Inr (), s1\<lparr>f_slots := ?t\<rparr>) \<and> linked h good ?t (s1\<lparr>f_slots := ?t\<rparr>) \<and>
        peer_of (s1\<lparr>f_slots := ?t\<rparr>) = peer_of s1"
      using linked_fields(2) [OF x(2), of ?t] t(1) by simp
  qed (rule x(3))
qed

text \<open>A buffer that fits the data window is written with one command, and read with one.\<close>

lemma write_answered:
  assumes l: "linked h good t s" and fd: "fd_ok fd" and slot: "t ! slot_of fd = Slot.File sv a cur" "can_write a"
    and buf: "buf \<noteq> []" "length buf \<le> DATA_LEN"
    and ok: "\<And>n. allowed ((write_command sv cur (data_window (length buf)))\<lparr>cmd_id := n\<rparr>) (mem_put DATA_AT buf (share_of s)) (peer_of s)"
  obtains n s' st w m' cx' where
    "spec ((write_command sv cur (data_window (length buf)))\<lparr>cmd_id := n\<rparr>) (mem_put DATA_AT buf (share_of s)) (peer_of s) st w m' cx'"
    "st = FS_STATUS_SUCCESS \<Longrightarrow> w = of_nat (length buf) \<Longrightarrow> Files_write fd buf s = Some (Inr (length buf), s') \<and>
      linked h good (t[slot_of fd := Slot.File sv a (cur + of_nat (length buf))]) s' \<and> peer_of s' = cx'"
proof -
  let ?n = "length buf" and ?s = "put_share DATA_AT buf s"
  have k: "kept t s" using l by (simp add: linked_def)
  obtain s1 st w where x: "exchange (write_command sv cur (data_window ?n)) ?s
      = Some (Inr \<lparr>cmpl_id = f_next_id ?s, cmpl_status = st, cmpl_data = w\<rparr>, s1)" "linked h good t s1"
    "spec ((write_command sv cur (data_window ?n))\<lparr>cmd_id := f_next_id ?s\<rparr>) (share_of ?s) (peer_of ?s) st w (share_of s1) (peer_of s1)"
    by (rule exchange_answered [OF linked_fields(1) [OF l, of DATA_AT buf], of "write_command sv cur (data_window ?n)"]) (use ok in simp_all)
  have k1: "kept t s1" "served_by h s1" "good (peer_of s1)" using x(2) by (simp_all add: linked_def)
  obtain s2 where s2: "set_cursor fd (cur + of_nat ?n) s1 = Some (Inr (), s2)"
    "kept (t[slot_of fd := Slot.File sv a (cur + of_nat ?n)]) s2" "served_by h s2" "peer_of s2 = peer_of s1"
    by (rule set_cursor_served [OF fd slot(1) k1(1,2)])
  show ?thesis
  proof (rule that [of "f_next_id ?s" st w "share_of s1" "peer_of s1" s2])
    assume c: "st = FS_STATUS_SUCCESS" "w = of_nat ?n"
    have "write_loop fd sv cur 0 buf s = write_loop fd sv (cur + of_nat ?n) ?n buf s2"
      using buf x(1) s2(1) c completed_len_small [of ?n ?n] by (simp add: write_loop.simps [of fd sv cur 0 buf s] Let_def min_def)
    then have "write_loop fd sv cur 0 buf s = Some (Inr ?n, s2)" by (simp add: write_loop.simps [of fd sv _ ?n buf s2])
    then have "Files_write fd buf s = Some (Inr ?n, s2)" using slot buf(1) live_kept [OF fd k] by (simp add: write_live)
    then show "Files_write fd buf s = Some (Inr ?n, s2) \<and>
        linked h good (t[slot_of fd := Slot.File sv a (cur + of_nat ?n)]) s2 \<and> peer_of s2 = peer_of s1"
      using s2 k1(3) by (simp add: linked_def)
  qed (use x(3) in simp)
qed

lemma read_answered:
  assumes l: "linked h good t s" and fd: "fd_ok fd" and slot: "t ! slot_of fd = Slot.File sv a cur" "can_read a"
    and buf: "buf \<noteq> []" "length buf \<le> DATA_LEN"
    and ok: "\<And>n. allowed ((read_command sv cur (data_window (length buf)))\<lparr>cmd_id := n\<rparr>) (share_of s) (peer_of s)"
  obtains n s' st w m' cx' where
    "spec ((read_command sv cur (data_window (length buf)))\<lparr>cmd_id := n\<rparr>) (share_of s) (peer_of s) st w m' cx'"
    "\<And>k. st = FS_STATUS_SUCCESS \<Longrightarrow> w = of_nat k \<Longrightarrow> k \<le> length buf \<Longrightarrow>
      Files_read fd buf s = Some (Inr k, mem_get DATA_AT k m' @ drop k buf, s') \<and> peer_of s' = cx'"
proof -
  let ?n = "length buf"
  have k: "kept t s" using l by (simp add: linked_def)
  obtain s1 st w where x: "exchange (read_command sv cur (data_window ?n)) s
      = Some (Inr \<lparr>cmpl_id = f_next_id s, cmpl_status = st, cmpl_data = w\<rparr>, s1)" "linked h good t s1"
    "spec ((read_command sv cur (data_window ?n))\<lparr>cmd_id := f_next_id s\<rparr>) (share_of s) (peer_of s) st w (share_of s1) (peer_of s1)"
    by (rule exchange_answered [OF l ok])
  have k1: "kept t s1" "served_by h s1" using x(2) by (simp_all add: linked_def)
  obtain s2 where s2: "set_cursor fd (cur + w) s1 = Some (Inr (), s2)" "peer_of s2 = peer_of s1"
    by (rule set_cursor_served [OF fd slot(1) k1])
  show ?thesis
  proof (rule that [of "f_next_id s" st w "share_of s1" "peer_of s1" s2])
    fix j assume c: "st = FS_STATUS_SUCCESS" "w = of_nat j" "j \<le> ?n"
    have len: "completed_len w ?n = Some j" using c completed_len_small [of j ?n] buf(2) by simp
    let ?b = "copy_out 0 j buf s1"
    have b: "?b = mem_get DATA_AT j (share_of s1) @ drop j buf" "length ?b = ?n" using c(3) by (simp_all add: copy_out_def)
    have "read_loop fd sv cur 0 buf s = (if j < ?n then Some (Inr j, ?b, s2) else read_loop fd sv (cur + w) j ?b s2)"
      using buf x(1) s2(1) c len by (simp add: read_loop.simps [of fd sv cur 0 buf s] Let_def min_def)
    moreover have "read_loop fd sv (cur + w) j ?b s2 = Some (Inr j, ?b, s2)" if "\<not> j < ?n"
      using that c(3) b(2) by (subst read_loop.simps) simp
    ultimately have "read_loop fd sv cur 0 buf s = Some (Inr j, ?b, s2)" by simp
    then show "Files_read fd buf s = Some (Inr j, mem_get DATA_AT j (share_of s1) @ drop j buf, s2) \<and> peer_of s2 = peer_of s1"
      using slot buf(1) live_kept [OF fd k] b(1) s2(2) by (simp add: Files_read_def)
  qed (rule x(3))
qed

end

subsection \<open>The file server behind the client\<close>

definition fat_turn :: "fs_cmd_t \<Rightarrow> mem \<Rightarrow> 'd fat \<Rightarrow> 'd fat" where
  "fat_turn c m s = s\<lparr>ft_shared := (ft_shared s)\<lparr>sh_commands := fs_ring [c], sh_completions := fs_ring [], sh_share := m\<rparr>\<rparr>"

definition fat_handler :: "fs_cmd_t \<Rightarrow> mem \<Rightarrow> 'd fat \<Rightarrow> u64 \<times> u64 \<times> mem \<times> 'd fat" where
  "fat_handler c m s =
     (case serve_one (fat_turn c m s) of
        None \<Rightarrow> (FS_STATUS_ERROR, 0, m, s)
      | Some (_, s') \<Rightarrow>
          let cmpl = last (cmpl_items (sh_completions (ft_shared s')))
          in (cmpl_status cmpl, cmpl_data cmpl, sh_share (ft_shared s'), s'))"

definition fat_spec :: "'d dev \<Rightarrow> fs_cmd_t \<Rightarrow> mem \<Rightarrow> 'd fat \<Rightarrow> u64 \<Rightarrow> u64 \<Rightarrow> mem \<Rightarrow> 'd fat \<Rightarrow> bool" where
  "fat_spec D c m s st w m' s' \<longleftrightarrow> tree_step D c (fat_turn c m s) st w s' \<and> m' = sh_share (ft_shared s')"

lemma fat_turn_fields [simp]:
  "sect D (fat_turn c m s) = sect D s" "ft_file (fat_turn c m s) = ft_file s" "ft_dir (fat_turn c m s) = ft_dir s"
  "sh_share (ft_shared (fat_turn c m s)) = m"
proof -
  show "sect D (fat_turn c m s) = sect D s" by (rule sect_cong) (simp_all add: fat_turn_def)
qed (simp_all add: fat_turn_def)

lemma opened_turn [simp]: "FatRun.opened D name (fat_turn c m s) = FatRun.opened D name s"
  by (simp add: FatRun.opened_def)

lemma fat_turn_stable:
  assumes "healthy D s"
  shows "stable D (fat_turn c m s)"
  using assms fs_ring_wf fat_turn_fields(1) [of D c m s] unfolding stable_def healthy_def
  by (auto simp: working_def steady_def alive_def tidy_def peers_ok_def calm_def room_def FS_QUEUE_CAPACITY_def)
    (auto simp: fat_turn_def)

lemma fat_handler_answers:
  assumes "healthy D s" and "plain_command c (fat_turn c m s)" and "fat_handler c m s = (st, w, m', s')"
  shows "healthy D s' \<and> fat_spec D c m s st w m' s'"
proof -
  have items: "cmd_items (sh_commands (ft_shared (fat_turn c m s))) = [c]" "cmpl_items (sh_completions (ft_shared (fat_turn c m s))) = []"
    by (simp_all add: fat_turn_def fs_ring_wf)
  have "result D (fat_turn c m s) (cmd_id c) (serve_one (fat_turn c m s)) (tree_step D c (fat_turn c m s))"
    by (rule serve_one_steps [OF fat_turn_stable [OF assms(1)] items(1) assms(2)])
  then show ?thesis
    using assms(3) items(2) by (auto simp: result_def finishes_def fat_handler_def fat_spec_def)
qed

interpretation fat: file_server fat_handler "healthy D" "\<lambda>c m s. plain_command c (fat_turn c m s)" "fat_spec D" for D :: "'d dev"
  by unfold_locales (rule fat_handler_answers)

subsection \<open>Calls on files of the root directory\<close>

lemma command_words:
  "cmd_type ((open_command p flags)\<lparr>cmd_id := n\<rparr>) = FS_CMD_FILE_OPEN"
  "param_buffer (cmd_params ((open_command p flags)\<lparr>cmd_id := n\<rparr>)) 0 = p"
  "param_word (cmd_params ((open_command p flags)\<lparr>cmd_id := n\<rparr>)) 2 = flags"
  "cmd_type ((close_command sv)\<lparr>cmd_id := n\<rparr>) = FS_CMD_FILE_CLOSE" "param_word (cmd_params ((close_command sv)\<lparr>cmd_id := n\<rparr>)) 0 = sv"
  "cmd_type ((write_command sv cur b)\<lparr>cmd_id := n\<rparr>) = FS_CMD_FILE_WRITE" "param_word (cmd_params ((write_command sv cur b)\<lparr>cmd_id := n\<rparr>)) 0 = sv"
  "param_word (cmd_params ((write_command sv cur b)\<lparr>cmd_id := n\<rparr>)) 1 = cur" "param_buffer (cmd_params ((write_command sv cur b)\<lparr>cmd_id := n\<rparr>)) 2 = b"
  "cmd_type ((read_command sv cur b)\<lparr>cmd_id := n\<rparr>) = FS_CMD_FILE_READ" "param_word (cmd_params ((read_command sv cur b)\<lparr>cmd_id := n\<rparr>)) 0 = sv"
  "param_word (cmd_params ((read_command sv cur b)\<lparr>cmd_id := n\<rparr>)) 1 = cur" "param_buffer (cmd_params ((read_command sv cur b)\<lparr>cmd_id := n\<rparr>)) 2 = b"
  by (simp_all add: open_command_def close_command_def write_command_def read_command_def with_params_def buffer_words_def
      zeroed_params_def param_word_def param_buffer_def numeral_eq_Suc)

lemma command_plain:
  "flags \<noteq> create_flags \<Longrightarrow> plain_command ((open_command p flags)\<lparr>cmd_id := n\<rparr>) s"
  "\<not> marker (sh_share (ft_shared s) (unat (fb_offset p))) \<Longrightarrow> plain_command ((open_command p flags)\<lparr>cmd_id := n\<rparr>) s"
  "plain_command ((close_command sv)\<lparr>cmd_id := n\<rparr>) s" "plain_command ((write_command sv cur b)\<lparr>cmd_id := n\<rparr>) s"
  "plain_command ((read_command sv cur b)\<lparr>cmd_id := n\<rparr>) s"
  unfolding plain_command_def command_words plain_path_def Let_def by (simp_all add: fs_cmd_defs)

lemma command_steps:
  "tree_step D ((open_command p flags)\<lparr>cmd_id := n\<rparr>) s = open_file_spec D p flags s"
  "tree_step D ((close_command sv)\<lparr>cmd_id := n\<rparr>) s = close_spec D sv s"
  "tree_step D ((write_command sv cur b)\<lparr>cmd_id := n\<rparr>) s = write_spec D sv cur b s"
  "tree_step D ((read_command sv cur b)\<lparr>cmd_id := n\<rparr>) s = read_spec D sv cur b s"
  unfolding tree_step_def command_words Let_def by (simp_all add: fs_cmd_defs)

text \<open>A path that names a file of the root directory, and its name in the directory.\<close>

definition root_path :: "u8 list \<Rightarrow> u8 list \<Rightarrow> bool" where
  "root_path path name \<longleftrightarrow> length path \<le> 11 \<and> 0x2f \<notin> set path \<and> pack_name path = Some name \<and> \<not> marker (path ! 0)"

lemma root_path_target:
  assumes "root_path path name" and "flags \<in> {create_flags, FS_OPEN_FLAGS_READ_ONLY}"
  shows "open_target \<lparr>fb_offset = 0, fb_size = of_nat (length path)\<rparr> flags (fat_turn c (mem_put 0 path m) s) = Inr (None, name)"
proof -
  have n: "unat (of_nat (length path) :: u64) = length path" using assms(1) by (simp add: root_path_def unat_of_nat)
  show ?thesis
    using assms mem_get_put [OF refl, of 0 path m]
    by (auto simp: open_target_def n root_path_def in_share_def FS_REGION_SIZE_def Let_def)
qed

lemma root_path_plain:
  assumes "root_path path name"
  shows "plain_command ((open_command \<lparr>fb_offset = 0, fb_size = k\<rparr> flags)\<lparr>cmd_id := n\<rparr>) (fat_turn c (mem_put 0 path m) s)"
proof (rule command_plain(2))
  have "path \<noteq> []" using assms pack_name_first [of path name] by (simp add: root_path_def)
  then have "mem_put 0 path m 0 = path ! 0" by (simp add: mem_put_def)
  then show "\<not> marker (sh_share (ft_shared (fat_turn c (mem_put 0 path m) s)) (unat (fb_offset \<lparr>fb_offset = 0, fb_size = k\<rparr>)))"
    using assms by (simp add: root_path_def)
qed

lemma create_on_fat:
  assumes l: "linked fat_handler (healthy D) t s" and i: "first_free t i" and p: "root_path path name"
    and "ft_file (peer_of s) = None" and "files D (peer_of s) name = None" and "\<not> volume_full (sect D (peer_of s))"
  obtains s' where "Files_open path CreateWrite s = Some (Inr (Fd (of_nat (i + 3))), s')"
    "linked fat_handler (healthy D) (t[i := Slot.File FD_FILE AWrite 0]) s'" "FatRun.opened D name (peer_of s')"
    "files D (peer_of s') = (files D (peer_of s))(name \<mapsto> node.File [])"
proof (rule fat.open_answered [OF l i, of path CreateWrite])
  show "length path \<le> PATH_LIMIT" using p by (simp add: root_path_def PATH_LIMIT_def)
  fix n s' st w m' cx'
  assume sp: "fat_spec D ((open_command \<lparr>fb_offset = 0, fb_size = of_nat (length path)\<rparr> (wire_flags CreateWrite))\<lparr>cmd_id := n\<rparr>)
      (mem_put 0 path (share_of s)) (peer_of s) st w m' cx'"
    and fin: "st = FS_STATUS_SUCCESS \<Longrightarrow> Files_open path CreateWrite s = Some (Inr (Fd (of_nat (i + 3))), s') \<and>
      linked fat_handler (healthy D) (t[i := Slot.File w (access_of CreateWrite) 0]) s' \<and> peer_of s' = cx'"
  have "st = FS_STATUS_SUCCESS \<and> w = FD_FILE \<and> FatRun.opened D name cx' \<and> files D cx' = (files D (peer_of s))(name \<mapsto> node.File [])"
    using sp assms(4-6) unfolding fat_spec_def command_steps open_file_spec_def
    by (simp add: root_path_target [OF p] Let_def)
  then show thesis using fin that by simp
qed (rule root_path_plain [OF p])

lemma reopen_on_fat:
  assumes l: "linked fat_handler (healthy D) t s" and i: "first_free t i" and p: "root_path path name"
    and "ft_file (peer_of s) = None" and "files D (peer_of s) name = Some (node.File bytes)"
  obtains s' where "Files_open path Read s = Some (Inr (Fd (of_nat (i + 3))), s')"
    "linked fat_handler (healthy D) (t[i := Slot.File FD_FILE ARead 0]) s'" "FatRun.opened D name (peer_of s')"
    "files D (peer_of s') = files D (peer_of s)"
proof (rule fat.open_answered [OF l i, of path Read])
  show "length path \<le> PATH_LIMIT" using p by (simp add: root_path_def PATH_LIMIT_def)
  have fl: "FS_OPEN_FLAGS_READ_ONLY \<noteq> create_flags"
    by (simp add: FS_OPEN_FLAGS_CREATE_def FS_OPEN_FLAGS_WRITE_ONLY_def FS_OPEN_FLAGS_READ_ONLY_def)
  fix n s' st w m' cx'
  assume sp: "fat_spec D ((open_command \<lparr>fb_offset = 0, fb_size = of_nat (length path)\<rparr> (wire_flags Read))\<lparr>cmd_id := n\<rparr>)
      (mem_put 0 path (share_of s)) (peer_of s) st w m' cx'"
    and fin: "st = FS_STATUS_SUCCESS \<Longrightarrow> Files_open path Read s = Some (Inr (Fd (of_nat (i + 3))), s') \<and>
      linked fat_handler (healthy D) (t[i := Slot.File w (access_of Read) 0]) s' \<and> peer_of s' = cx'"
  have "st = FS_STATUS_SUCCESS \<and> w = FD_FILE \<and> FatRun.opened D name cx' \<and> files D cx' = files D (peer_of s)"
    using sp assms(4,5) fl unfolding fat_spec_def command_steps open_file_spec_def
    by (simp add: root_path_target [OF p] Let_def)
  then show thesis using fin that by simp
qed (rule root_path_plain [OF p])

lemma close_on_fat:
  assumes l: "linked fat_handler (healthy D) t s" and fd: "fd_ok fd" "t ! slot_of fd = Slot.File FD_FILE a cur"
    and o: "FatRun.opened D name (peer_of s)"
  obtains s' where "Files_close fd s = Some (Inr (), s')" "linked fat_handler (healthy D) (t[slot_of fd := Empty]) s'"
    "ft_file (peer_of s') = None" "files D (peer_of s') = files D (peer_of s)"
proof (rule fat.close_answered [OF l fd])
  fix n s' st w m' cx'
  assume sp: "fat_spec D ((close_command FD_FILE)\<lparr>cmd_id := n\<rparr>) (share_of s) (peer_of s) st w m' cx'"
    and fin: "st = FS_STATUS_SUCCESS \<Longrightarrow> Files_close fd s = Some (Inr (), s') \<and>
      linked fat_handler (healthy D) (t[slot_of fd := Empty]) s' \<and> peer_of s' = cx'"
  have "ft_file (peer_of s) \<noteq> None" using o by (auto simp: FatRun.opened_def)
  then have "st = FS_STATUS_SUCCESS \<and> ft_file cx' = None \<and> files D cx' = files D (peer_of s)"
    using sp unfolding fat_spec_def command_steps close_spec_def by simp
  then show thesis using fin that by simp
qed (rule command_plain(3))

lemma data_window_fields:
  assumes "k \<le> DATA_LEN"
  shows "unat (fb_offset (data_window k)) = DATA_AT" "unat (fb_size (data_window k)) = k" "in_share (fb_offset (data_window k)) k"
  using assms unat_small(1) [OF assms] unat_small(2) by (simp_all add: data_window_def in_share_def FS_REGION_SIZE_def DATA_AT_def DATA_LEN_def SHARE_MIN_def)

lemma opened_unique:
  assumes "healthy D s" and "FatRun.opened D a s" and "FatRun.opened D b s"
  shows "a = b"
  using assms(2,3) by (auto simp: FatRun.opened_def file_place_def)

lemma write_on_fat:
  assumes l: "linked fat_handler (healthy D) t s" and fd: "fd_ok fd" "t ! slot_of fd = Slot.File FD_FILE a 0" "can_write a"
    and o: "FatRun.opened D name (peer_of s)" and b: "bytes \<noteq> []" "length bytes \<le> 512"
  obtains s' where "Files_write fd bytes s = Some (Inr (length bytes), s')"
    "linked fat_handler (healthy D) (t[slot_of fd := Slot.File FD_FILE a (of_nat (length bytes))]) s'"
    "FatRun.opened D name (peer_of s')" "files D (peer_of s') = (files D (peer_of s))(name \<mapsto> node.File bytes)"
proof -
  have len: "length bytes \<le> DATA_LEN" using b(2) by (simp add: DATA_LEN_def SHARE_MIN_def DATA_AT_def)
  note dw = data_window_fields [OF len]
  have h: "healthy D (peer_of s)" "ft_file (peer_of s) \<noteq> None" using l o by (auto simp: linked_def FatRun.opened_def)
  show ?thesis
  proof (rule fat.write_answered [OF l fd b(1) len])
    fix n s' st w m' cx'
    assume sp: "fat_spec D ((write_command FD_FILE 0 (data_window (length bytes)))\<lparr>cmd_id := n\<rparr>) (mem_put DATA_AT bytes (share_of s)) (peer_of s) st w m' cx'"
      and fin: "st = FS_STATUS_SUCCESS \<Longrightarrow> w = of_nat (length bytes) \<Longrightarrow> Files_write fd bytes s = Some (Inr (length bytes), s') \<and>
        linked fat_handler (healthy D) (t[slot_of fd := Slot.File FD_FILE a (0 + of_nat (length bytes))]) s' \<and> peer_of s' = cx'"
    have "\<not> (\<nexists>n. FatRun.opened D n (peer_of s))" using o by blast
    then have "st = FS_STATUS_SUCCESS \<and> w = fb_size (data_window (length bytes)) \<and> (\<exists>n. FatRun.opened D n (peer_of s) \<and> FatRun.opened D n cx' \<and>
        files D cx' = (files D (peer_of s))(n \<mapsto> node.File bytes))"
      using sp h(2) o b dw mem_get_put [OF refl, of DATA_AT bytes "share_of s"]
      unfolding fat_spec_def command_steps write_spec_def by (auto simp: Let_def)
    then show ?thesis
      using fin that opened_unique [OF h(1) o] by (auto simp: data_window_def)
  qed (rule command_plain(4))
qed

lemma read_on_fat:
  assumes l: "linked fat_handler (healthy D) t s" and fd: "fd_ok fd" "t ! slot_of fd = Slot.File FD_FILE a 0" "can_read a"
    and o: "FatRun.opened D name (peer_of s)" and f: "files D (peer_of s) name = Some (node.File bytes)"
    and b: "length bytes \<le> length out" "out \<noteq> []" "length out \<le> DATA_LEN"
  obtains s' where "Files_read fd out s = Some (Inr (length bytes), bytes @ drop (length bytes) out, s')"
    "files D (peer_of s') = files D (peer_of s)"
proof -
  note dw = data_window_fields [OF b(3)]
  have h: "healthy D (peer_of s)" "ft_file (peer_of s) \<noteq> None" using l o by (auto simp: linked_def FatRun.opened_def)
  show ?thesis
  proof (rule fat.read_answered [OF l fd b(2,3)])
    fix n s' st w m' cx'
    assume sp: "fat_spec D ((read_command FD_FILE 0 (data_window (length out)))\<lparr>cmd_id := n\<rparr>) (share_of s) (peer_of s) st w m' cx'"
      and fin: "\<And>k. st = FS_STATUS_SUCCESS \<Longrightarrow> w = of_nat k \<Longrightarrow> k \<le> length out \<Longrightarrow>
        Files_read fd out s = Some (Inr k, mem_get DATA_AT k m' @ drop k out, s') \<and> peer_of s' = cx'"
    let ?s = "fat_turn ((read_command FD_FILE 0 (data_window (length out)))\<lparr>cmd_id := n\<rparr>) (share_of s) (peer_of s)"
    have "files D ?s name = Some (node.File (open_bytes D ?s))" using opened_bytes [OF fat_turn_stable [OF h(1)]] o by simp
    then have ob: "open_bytes D ?s = bytes" using f by simp
    have "st = FS_STATUS_SUCCESS \<and> w = of_nat (length bytes) \<and> files D cx' = files D (peer_of s) \<and> mem_get DATA_AT (length bytes) m' = bytes"
      using sp h(2) dw b(1) ob unfolding fat_spec_def command_steps read_spec_def by (auto simp: Let_def unchanged_def)
    then show ?thesis using fin [of "length bytes"] that b(1) by simp
  qed (rule command_plain(5))
qed

subsection \<open>A session\<close>

text \<open>C7: A file written through the POSIX calls is kept by the file server. A client whose file server runs
  over a sound volume on a working device and has no file open can create a file, write up to 512 bytes,
  close it, open it for reading and read: every call succeeds, the read returns exactly the bytes
  written, and the tree of files on the volume has gained exactly this file. The path must name a new
  file of the root directory whose first byte is no directory marker, and the volume, the descriptor
  table and the reader's buffer must have room.\<close>

theorem posix_files_are_kept_on_fat:
  assumes "files_inv s" and "served_by fat_handler s" and "healthy D (peer_of s)" and "ft_file (peer_of s) = None"
    and "Empty \<in> set (f_slots s)" and "root_path path name" and "files D (peer_of s) name = None" and "\<not> volume_full (sect D (peer_of s))"
    and "bytes \<noteq> []" and "length bytes \<le> 512" and "length bytes \<le> length out" and "length out \<le> DATA_LEN"
  shows "\<exists>fd s1 s2 s3 fd' s4 s5. Files_open path CreateWrite s = Some (Inr fd, s1) \<and>
    Files_write fd bytes s1 = Some (Inr (length bytes), s2) \<and> Files_close fd s2 = Some (Inr (), s3) \<and>
    Files_open path Read s3 = Some (Inr fd', s4) \<and>
    Files_read fd' out s4 = Some (Inr (length bytes), bytes @ drop (length bytes) out, s5) \<and>
    files D (peer_of s5) = (files D (peer_of s))(name \<mapsto> node.File bytes)"
proof -
  let ?t = "f_slots s"
  have l: "linked fat_handler (healthy D) ?t s" using assms(1-3) by (simp add: linked_def kept_def)
  obtain i where "first_empty s = Some i" using assms(5) by (cases "first_empty s") (simp_all add: first_empty_None)
  then have i: "first_free ?t i" by (rule first_empty_Some)
  then have i125: "i < 125" "i < length ?t" using assms(1) by (auto simp: first_free_def files_inv_def)
  let ?fd = "Fd (of_nat (i + 3))"
  note fd = fd_number [OF i125(1)]
  obtain s1 where s1: "Files_open path CreateWrite s = Some (Inr ?fd, s1)"
    "linked fat_handler (healthy D) (?t[i := Slot.File FD_FILE AWrite 0]) s1" "FatRun.opened D name (peer_of s1)"
    "files D (peer_of s1) = (files D (peer_of s))(name \<mapsto> node.File [])"
    by (rule create_on_fat [OF l i assms(6,4,7,8)])
  obtain s2 where s2: "Files_write ?fd bytes s1 = Some (Inr (length bytes), s2)"
    "linked fat_handler (healthy D) (?t[i := Slot.File FD_FILE AWrite 0, i := Slot.File FD_FILE AWrite (of_nat (length bytes))]) s2"
    "FatRun.opened D name (peer_of s2)" "files D (peer_of s2) = (files D (peer_of s1))(name \<mapsto> node.File bytes)"
    by (rule write_on_fat [OF s1(2) fd(1) _ _ s1(3) assms(9,10), of AWrite]) (use fd(2) i125 in \<open>simp_all add: can_write_def\<close>)
  obtain s3 where s3: "Files_close ?fd s2 = Some (Inr (), s3)" "linked fat_handler (healthy D) (?t[i := Empty]) s3"
    "ft_file (peer_of s3) = None" "files D (peer_of s3) = files D (peer_of s2)"
    by (rule close_on_fat [OF s2(2) fd(1) _ s2(3)]) (use fd(2) i125 in simp_all)
  have "?t[i := Empty] = ?t" using i by (metis first_free_def list_update_id)
  then have l3: "linked fat_handler (healthy D) ?t s3" using s3(2) by simp
  have f3: "files D (peer_of s3) name = Some (node.File bytes)" using s3(4) s2(4) by simp
  obtain s4 where s4: "Files_open path Read s3 = Some (Inr ?fd, s4)"
    "linked fat_handler (healthy D) (?t[i := Slot.File FD_FILE ARead 0]) s4" "FatRun.opened D name (peer_of s4)"
    "files D (peer_of s4) = files D (peer_of s3)"
    by (rule reopen_on_fat [OF l3 i assms(6) s3(3) f3])
  have f4: "files D (peer_of s4) name = Some (node.File bytes)" using s4(4) f3 by simp
  have out: "out \<noteq> []" using assms(9,11) by auto
  obtain s5 where s5: "Files_read ?fd out s4 = Some (Inr (length bytes), bytes @ drop (length bytes) out, s5)"
    "files D (peer_of s5) = files D (peer_of s4)"
    by (rule read_on_fat [OF s4(2) fd(1) _ _ s4(3) f4 assms(11) out assms(12), of ARead]) (use fd(2) i125 in \<open>simp_all add: can_read_def\<close>)
  have "files D (peer_of s5) = (files D (peer_of s))(name \<mapsto> node.File bytes)" using s5(2) s4(4) s3(4) s2(4) s1(4) by simp
  then show ?thesis using s1(1) s2(1) s3(1) s4(1) s5(1) by blast
qed

text \<open>A client in front of the sample server writes three bytes to \<open>a\<close> and reads them into a buffer of
  five.\<close>

definition sample_client :: "(u64 \<Rightarrow> u8 list) fat Files" where
  "sample_client = \<lparr>f_world = \<lparr>w_command = fs_queue_empty, w_completion = fs_queue_empty, w_share = (\<lambda>_. 0),
      w_cx = sample_fat [] letters\<rparr>,
    f_share_len = 0x8000, f_wake = serve fat_handler, f_next_id = 1, f_flight = Idle, f_slots = replicate 125 Empty\<rparr>"

theorem posix_files_are_kept_on_fat_witness:
  "\<exists>fd s1 s2 s3 fd' s4 s5. Files_open [0x61] CreateWrite sample_client = Some (Inr fd, s1) \<and>
    Files_write fd [1, 2, 3] s1 = Some (Inr 3, s2) \<and> Files_close fd s2 = Some (Inr (), s3) \<and>
    Files_open [0x61] Read s3 = Some (Inr fd', s4) \<and> Files_read fd' [0, 0, 0, 0, 0] s4 = Some (Inr 3, [1, 2, 3, 0, 0], s5) \<and>
    files sample_dev (peer_of s5) = [0x41 # replicate 10 0x20 \<mapsto> node.File [1, 2, 3]]"
proof -
  let ?s = sample_client and ?f = "sample_fat [] letters"
  have f: "peer_of ?s = ?f" by (simp add: sample_client_def)
  have h: "healthy sample_dev ?f" "files sample_dev ?f = Map.empty" using sample_healthy [of "[]" letters] by simp_all
  have p: "root_path [0x61] (0x41 # replicate 10 0x20)" using pack_a by (simp add: root_path_def marker_def)
  have inv: "files_inv ?s" "served_by fat_handler ?s" "Empty \<in> set (f_slots ?s)"
    by (simp_all add: sample_client_def files_inv_def SHARE_MIN_def served_by_def ring_idle_def fs_queue_empty_def)
  have nf: "ft_file (peer_of ?s) = None" "\<not> volume_full (sect sample_dev (peer_of ?s))"
    using sample_not_full [of "[]" letters] by (simp_all add: f) (simp add: sample_fat_def)
  have "\<exists>fd s1 s2 s3 fd' s4 s5. Files_open [0x61] CreateWrite ?s = Some (Inr fd, s1) \<and>
    Files_write fd [1, 2, 3] s1 = Some (Inr (length [1 :: u8, 2, 3]), s2) \<and> Files_close fd s2 = Some (Inr (), s3) \<and>
    Files_open [0x61] Read s3 = Some (Inr fd', s4) \<and>
    Files_read fd' [0, 0, 0, 0, 0] s4 = Some (Inr (length [1 :: u8, 2, 3]), [1, 2, 3] @ drop (length [1 :: u8, 2, 3]) [0, 0, 0, 0, 0], s5) \<and>
    files sample_dev (peer_of s5) = (files sample_dev (peer_of ?s))(0x41 # replicate 10 0x20 \<mapsto> node.File [1, 2, 3])"
    by (rule posix_files_are_kept_on_fat [OF inv(1,2) _ nf(1) inv(3) p _ nf(2)])
      (use h f in \<open>simp_all add: DATA_LEN_def SHARE_MIN_def DATA_AT_def\<close>)
  then show ?thesis using h(2) by (simp add: f numeral_3_eq_3)
qed

end
