(* ===== verification/Calc.thy ===== *)
theory Calc
  imports Prelude "HOL-Library.Signed_Division"
begin

text \<open>
  The integer calculator \<open>lerux-calc/src/lib.rs\<close>: a recursive descent parser that evaluates while
  it reads, and the decimal printer. An \<open>i64\<close> is an \<open>int\<close> in its range; the saturating operations
  write the bounds out. \<open>Inl Error\<close> is the \<open>Err\<close> of the source and \<open>Inl Panic\<close> a panic (the
  division of the smallest number by -1 overflows, which \<open>/\<close> checks in every build).

  The specification is the grammar of the crate's documentation: expressions as datatypes, the texts
  of an expression with spaces before every token, and the value of an expression.
\<close>

subsection \<open>Arithmetic\<close>

definition i64_MIN :: int where "i64_MIN = - (2 ^ 63)"
definition i64_MAX :: int where "i64_MAX = 2 ^ 63 - 1"

definition is_i64 :: "int \<Rightarrow> bool" where "is_i64 v \<longleftrightarrow> i64_MIN \<le> v \<and> v \<le> i64_MAX"

definition saturate :: "int \<Rightarrow> int" where
  "saturate v = (if v < i64_MIN then i64_MIN else if v > i64_MAX then i64_MAX else v)"

definition saturating_add :: "int \<Rightarrow> int \<Rightarrow> int" where "saturating_add a b = saturate (a + b)"
definition saturating_sub :: "int \<Rightarrow> int \<Rightarrow> int" where "saturating_sub a b = saturate (a - b)"
definition saturating_mul :: "int \<Rightarrow> int \<Rightarrow> int" where "saturating_mul a b = saturate (a * b)"
definition saturating_neg :: "int \<Rightarrow> int" where "saturating_neg a = saturate (- a)"

datatype stop = Error | Panic

text \<open>\<open>if right == 0 { return Err(Error) } value /= right\<close>\<close>

definition divide_i64 :: "int \<Rightarrow> int \<Rightarrow> stop + int" where
  "divide_i64 v right =
     (if right = 0 then Inl Error
      else if v = i64_MIN \<and> right = -1 then Inl Panic
      else Inr (v sdiv right))"

subsection \<open>The parser\<close>

record Parser =
  p_s :: "u8 list"
  p_i :: nat

function skip :: "Parser \<Rightarrow> Parser" where
  "skip p = (if p_i p < length (p_s p) \<and> p_s p ! p_i p = 0x20 then skip (p\<lparr>p_i := p_i p + 1\<rparr>) else p)"
  by pat_completeness auto

termination skip
  by (relation "measure (\<lambda>p. length (p_s p) - p_i p)") auto

declare skip.simps [simp del]

definition peek :: "Parser \<Rightarrow> u8 option \<times> Parser" where
  "peek p = (let p = skip p in (if p_i p < length (p_s p) then Some (p_s p ! p_i p) else None, p))"

definition bump :: "Parser \<Rightarrow> u8 option \<times> Parser" where
  "bump p = (case peek p of (None, p) \<Rightarrow> (None, p) | (Some byte, p) \<Rightarrow> (Some byte, p\<lparr>p_i := p_i p + 1\<rparr>))"

definition is_digit :: "u8 \<Rightarrow> bool" where "is_digit b \<longleftrightarrow> 0x30 \<le> b \<and> b \<le> 0x39"

definition digit :: "u8 \<Rightarrow> int" where "digit b = uint (b - 0x30)"

function number_loop :: "int \<Rightarrow> bool \<Rightarrow> Parser \<Rightarrow> int \<times> bool \<times> Parser" where
  "number_loop v saw p =
     (if p_i p < length (p_s p) \<and> is_digit (p_s p ! p_i p)
      then number_loop (saturating_add (saturating_mul v 10) (digit (p_s p ! p_i p))) True (p\<lparr>p_i := p_i p + 1\<rparr>)
      else (v, saw, p))"
  by pat_completeness auto

termination number_loop
  by (relation "measure (\<lambda>(v, saw, p). length (p_s p) - p_i p)") auto

declare number_loop.simps [simp del]

definition parse_number :: "Parser \<Rightarrow> stop + int \<times> Parser" where
  "parse_number p = (case number_loop 0 False p of (v, saw, p) \<Rightarrow> if saw then Inr (v, p) else Inl Error)"

text \<open>The bytes the parser has not read.\<close>

definition rest :: "Parser \<Rightarrow> u8 list" where "rest p = drop (p_i p) (p_s p)"

definition spaces :: "u8 list \<Rightarrow> bool" where "spaces w \<longleftrightarrow> (\<forall>b\<in>set w. b = 0x20)"

lemma rest_step:
  "rest (p\<lparr>p_i := p_i p + 1\<rparr>) = tl (rest p)"
  by (simp add: rest_def drop_Suc tl_drop)

lemma rest_at: "p_i p < length (p_s p) \<longleftrightarrow> rest p \<noteq> []" "p_i p < length (p_s p) \<Longrightarrow> p_s p ! p_i p = hd (rest p)"
  by (auto simp: rest_def hd_drop_conv_nth)

lemma skip_rest: "rest (skip p) = dropWhile (\<lambda>b. b = 0x20) (rest p)" "p_s (skip p) = p_s p"
proof (induction p rule: skip.induct)
  case (1 p)
  have "rest (skip p) = dropWhile (\<lambda>b. b = 0x20) (rest p) \<and> p_s (skip p) = p_s p"
  proof (cases "p_i p < length (p_s p) \<and> p_s p ! p_i p = 0x20")
    case True
    then obtain b bs where "rest p = b # bs" "b = 0x20" using rest_at [of p] by (cases "rest p") auto
    then show ?thesis using 1 True rest_step [of p] by (subst (1 2) skip.simps) simp
  next
    case False
    then have "rest p = [] \<or> hd (rest p) \<noteq> 0x20" using rest_at [of p] by auto
    then show ?thesis using False by (subst (1 2) skip.simps) (cases "rest p"; auto)
  qed
  then show "rest (skip p) = dropWhile (\<lambda>b. b = 0x20) (rest p)" "p_s (skip p) = p_s p" by simp_all
qed

abbreviation trim :: "u8 list \<Rightarrow> u8 list" where "trim xs \<equiv> dropWhile (\<lambda>b. b = 0x20) xs"

definition first :: "u8 list \<Rightarrow> u8 option" where "first xs = (case xs of [] \<Rightarrow> None | b # _ \<Rightarrow> Some b)"

lemma first_simps [simp]: "first [] = None" "first (b # bs) = Some b"
  by (simp_all add: first_def)

lemma trim_trim [simp]: "trim (trim xs) = trim xs"
  by (induction xs) auto

lemma peek_rest [simp]: "fst (peek p) = first (trim (rest p))" "rest (snd (peek p)) = trim (rest p)" "p_s (snd (peek p)) = p_s p"
proof -
  have "fst (peek p) = first (rest (skip p))"
    using rest_at [of "skip p"] by (cases "rest (skip p)") (auto simp: peek_def Let_def)
  then show "fst (peek p) = first (trim (rest p))" by (simp add: skip_rest)
qed (simp_all add: peek_def Let_def skip_rest)

lemma bump_rest [simp]: "fst (bump p) = first (trim (rest p))" "rest (snd (bump p)) = tl (trim (rest p))" "p_s (snd (bump p)) = p_s p"
  using peek_rest [of p] rest_step [of "snd (peek p)"]
  by (cases "peek p"; cases "trim (rest p)"; auto simp: bump_def split: option.split)+

function parse_expr :: "Parser \<Rightarrow> stop + int \<times> Parser"
  and expr_loop :: "int \<Rightarrow> Parser \<Rightarrow> stop + int \<times> Parser"
  and parse_term :: "Parser \<Rightarrow> stop + int \<times> Parser"
  and term_loop :: "int \<Rightarrow> Parser \<Rightarrow> stop + int \<times> Parser"
  and parse_factor :: "Parser \<Rightarrow> stop + int \<times> Parser" where
  "parse_expr p = (case parse_term p of Inl e \<Rightarrow> Inl e | Inr (v, p) \<Rightarrow> expr_loop v p)"
| "expr_loop v p =
     (case peek p of (byte, p) \<Rightarrow>
        if byte = Some 0x2b then
          (case parse_term (snd (bump p)) of Inl e \<Rightarrow> Inl e | Inr (w, p) \<Rightarrow> expr_loop (saturating_add v w) p)
        else if byte = Some 0x2d then
          (case parse_term (snd (bump p)) of Inl e \<Rightarrow> Inl e | Inr (w, p) \<Rightarrow> expr_loop (saturating_sub v w) p)
        else Inr (v, p))"
| "parse_term p = (case parse_factor p of Inl e \<Rightarrow> Inl e | Inr (v, p) \<Rightarrow> term_loop v p)"
| "term_loop v p =
     (case peek p of (byte, p) \<Rightarrow>
        if byte = Some 0x2a then
          (case parse_factor (snd (bump p)) of Inl e \<Rightarrow> Inl e | Inr (w, p) \<Rightarrow> term_loop (saturating_mul v w) p)
        else if byte = Some 0x2f then
          (case parse_factor (snd (bump p)) of Inl e \<Rightarrow> Inl e
           | Inr (right, p) \<Rightarrow> (case divide_i64 v right of Inl e \<Rightarrow> Inl e | Inr w \<Rightarrow> term_loop w p))
        else Inr (v, p))"
| "parse_factor p =
     (case peek p of (byte, p) \<Rightarrow>
        (case byte of None \<Rightarrow> Inl Error
         | Some b \<Rightarrow>
             if b = 0x28 then
               (case parse_expr (snd (bump p)) of Inl e \<Rightarrow> Inl e
                | Inr (v, p) \<Rightarrow> (case bump p of (c, p) \<Rightarrow> if c \<noteq> Some 0x29 then Inl Error else Inr (v, p)))
             else if b = 0x2b then parse_factor (snd (bump p))
             else if b = 0x2d then
               (case parse_factor (snd (bump p)) of Inl e \<Rightarrow> Inl e | Inr (v, p) \<Rightarrow> Inr (saturating_neg v, p))
             else if is_digit b then parse_number p
             else Inl Error))"
  by pat_completeness auto

lemma number_loop_rest:
  "number_loop v saw p = (w, saw', p') \<Longrightarrow> rest p' = dropWhile is_digit (rest p) \<and> p_s p' = p_s p
    \<and> (saw' \<longleftrightarrow> saw \<or> takeWhile is_digit (rest p) \<noteq> [])
    \<and> w = fold (\<lambda>b v. saturating_add (saturating_mul v 10) (digit b)) (takeWhile is_digit (rest p)) v"
proof (induction v saw p rule: number_loop.induct)
  case (1 v saw p)
  show ?case
  proof (cases "p_i p < length (p_s p) \<and> is_digit (p_s p ! p_i p)")
    case True
    then obtain b bs where "rest p = b # bs" "is_digit b" "p_s p ! p_i p = b" using rest_at [of p] by (cases "rest p") auto
    then show ?thesis using 1 True rest_step [of p] by (simp add: number_loop.simps [of v saw p])
  next
    case False
    then have "rest p = [] \<or> \<not> is_digit (hd (rest p))" using rest_at [of p] by auto
    then show ?thesis using False 1(2) by (cases "rest p") (auto simp: number_loop.simps [of v saw p])
  qed
qed

lemma parse_number_shrinks: "parse_number p = Inr (v, p') \<Longrightarrow> length (rest p') \<le> length (rest p)"
  using number_loop_rest [of 0 False p] by (auto simp: parse_number_def length_dropWhile_le split: prod.splits if_splits)

lemma trim_length: "length (trim xs) \<le> length xs"
  by (rule length_dropWhile_le)

lemma tl_trim_length: "first (trim xs) = Some b \<Longrightarrow> length (tl (trim xs)) < length xs"
  using trim_length [of xs] by (cases "trim xs") auto

definition shrinks :: "Parser \<Rightarrow> stop + int \<times> Parser \<Rightarrow> bool" where
  "shrinks p r \<longleftrightarrow> (\<forall>v p'. r = Inr (v, p') \<longrightarrow> length (rest p') \<le> length (rest p))"

lemma shrinks_simps [simp]: "shrinks p (Inl e)" "shrinks p (Inr (v, p')) \<longleftrightarrow> length (rest p') \<le> length (rest p)"
  by (simp_all add: shrinks_def)

lemma shrinks_trans: "shrinks p' r \<Longrightarrow> length (rest p') \<le> length (rest p) \<Longrightarrow> shrinks p r"
  by (auto simp: shrinks_def intro: le_trans)

lemma shrinks_bind:
  "shrinks p' r \<Longrightarrow> length (rest p') \<le> length (rest p) \<Longrightarrow>
    (\<And>v q. r = Inr (v, q) \<Longrightarrow> length (rest q) \<le> length (rest p) \<Longrightarrow> shrinks q (f v q)) \<Longrightarrow>
    shrinks p (case r of Inl e \<Rightarrow> Inl e | Inr (v, q) \<Rightarrow> f v q)"
  by (cases r) (auto intro: shrinks_trans)

lemma shrinks_div:
  "(\<And>w. divide_i64 v right = Inr w \<Longrightarrow> shrinks p (g w)) \<Longrightarrow>
    shrinks p (case divide_i64 v right of Inl e \<Rightarrow> Inl e | Inr w \<Rightarrow> g w)"
  by (cases "divide_i64 v right") auto

lemma peek_bump_length:
  assumes "peek p = (b, q)"
  shows "length (rest q) \<le> length (rest p)" "length (rest (snd (bump q))) \<le> length (rest p)"
proof -
  have "rest q = trim (rest p)" using peek_rest(2) [of p] assms by simp
  then show "length (rest q) \<le> length (rest p)" "length (rest (snd (bump q))) \<le> length (rest p)"
    using trim_length [of "rest p"] by simp_all
qed

lemma number_shrinks: "shrinks p (parse_number p)"
  using parse_number_shrinks by (auto simp: shrinks_def)

lemma close_shrinks: "shrinks p (case bump p of (c, p) \<Rightarrow> if c \<noteq> Some 0x29 then Inl Error else Inr (v, p))"
proof -
  have "length (rest (snd (bump p))) \<le> length (rest p)" using trim_length [of "rest p"] by simp
  then show ?thesis by (simp add: split_beta del: bump_rest)
qed

lemma peek_some_length: "(Some b, q) = peek p \<Longrightarrow> length (trim (rest q)) - Suc 0 < length (rest p)"
  using peek_rest(1,2) [of p] tl_trim_length [of "rest p" b] by (simp add: prod_eq_iff) 

lemma parse_shrinks:
  "parse_expr_expr_loop_parse_term_term_loop_parse_factor_dom (Inl (Inl p1)) \<Longrightarrow> shrinks p1 (parse_expr p1)"
  "parse_expr_expr_loop_parse_term_term_loop_parse_factor_dom (Inl (Inr (v2, p2))) \<Longrightarrow> shrinks p2 (expr_loop v2 p2)"
  "parse_expr_expr_loop_parse_term_term_loop_parse_factor_dom (Inr (Inl p3)) \<Longrightarrow> shrinks p3 (parse_term p3)"
  "parse_expr_expr_loop_parse_term_term_loop_parse_factor_dom (Inr (Inr (Inl (v4, p4)))) \<Longrightarrow> shrinks p4 (term_loop v4 p4)"
  "parse_expr_expr_loop_parse_term_term_loop_parse_factor_dom (Inr (Inr (Inr p5))) \<Longrightarrow> shrinks p5 (parse_factor p5)"
proof (induction p1 and v2 p2 and p3 and v4 p4 and p5 rule: parse_expr_expr_loop_parse_term_term_loop_parse_factor.pinduct)
  case (1 p)
  then show ?case by (auto simp: parse_expr.psimps intro!: shrinks_bind [of p])
next
  case (2 v p)
  obtain b q where q: "peek p = (b, q)" by fastforce
  show ?case
    using 2 q peek_bump_length [OF q]
    by (auto simp: expr_loop.psimps simp del: bump_rest intro!: shrinks_bind [of "snd (bump q)"])
next
  case (3 p)
  then show ?case by (auto simp: parse_term.psimps intro!: shrinks_bind [of p])
next
  case (4 v p)
  obtain b q where q: "peek p = (b, q)" by fastforce
  show ?case
    using 4 q peek_bump_length [OF q]
    by (auto simp: term_loop.psimps simp del: bump_rest intro!: shrinks_bind [of "snd (bump q)"] shrinks_div)
next
  case (5 p)
  obtain b q where q: "peek p = (b, q)" by fastforce
  note len = peek_bump_length [OF q]
  have eq: "parse_factor p = (case b of None \<Rightarrow> Inl Error
    | Some b \<Rightarrow>
        if b = 0x28 then
          (case parse_expr (snd (bump q)) of Inl e \<Rightarrow> Inl e
           | Inr (v, p) \<Rightarrow> (case bump p of (c, p) \<Rightarrow> if c \<noteq> Some 0x29 then Inl Error else Inr (v, p)))
        else if b = 0x2b then parse_factor (snd (bump q))
        else if b = 0x2d then
          (case parse_factor (snd (bump q)) of Inl e \<Rightarrow> Inl e | Inr (v, p) \<Rightarrow> Inr (saturating_neg v, p))
        else if is_digit b then parse_number q
        else Inl Error)"
    by (simp add: parse_factor.psimps [OF 5(1)] q)
  show ?case
  proof (cases b)
    case None
    then show ?thesis by (simp add: eq)
  next
    case (Some c)
    consider "c = 0x28" | "c \<noteq> 0x28" "c = 0x2b" | "c \<noteq> 0x28" "c \<noteq> 0x2b" "c = 0x2d" | "c \<noteq> 0x28" "c \<noteq> 0x2b" "c \<noteq> 0x2d" by blast
    then show ?thesis
    proof cases
      case 1
      then show ?thesis using 5(2) [of b q c] q len Some by (auto simp: eq simp del: bump_rest intro!: shrinks_bind [of "snd (bump q)"] close_shrinks)
    next
      case 2
      then show ?thesis using 5(3) [of b q c] q len Some by (auto simp: eq simp del: bump_rest intro: shrinks_trans)
    next
      case 3
      then show ?thesis using 5(4) [of b q c] q len Some by (auto simp: eq simp del: bump_rest intro!: shrinks_bind [of "snd (bump q)"])
    next
      case 4
      then show ?thesis using len Some number_shrinks [of q] by (auto simp: eq intro: shrinks_trans)
    qed
  qed
qed

termination parse_expr
proof (relation "measures [\<lambda>x. case x of Inl (Inl p) \<Rightarrow> length (rest p) | Inl (Inr (v, p)) \<Rightarrow> length (rest p)
      | Inr (Inl p) \<Rightarrow> length (rest p) | Inr (Inr (Inl (v, p))) \<Rightarrow> length (rest p) | Inr (Inr (Inr p)) \<Rightarrow> length (rest p),
    \<lambda>x. case x of Inl (Inl p) \<Rightarrow> 3 | Inl (Inr (v, p)) \<Rightarrow> 0 | Inr (Inl p) \<Rightarrow> 2 | Inr (Inr (Inl (v, p))) \<Rightarrow> 0 | Inr (Inr (Inr p)) \<Rightarrow> 1]",
    goal_cases)
  case 1
  show ?case by simp
qed (auto dest!: parse_shrinks simp: shrinks_def dest: peek_some_length elim!: le_less_trans)

declare parse_expr.simps [simp del] expr_loop.simps [simp del] parse_term.simps [simp del] term_loop.simps [simp del]
  parse_factor.simps [simp del]

definition eval :: "u8 list \<Rightarrow> stop + int" where
  "eval input =
     (case parse_expr \<lparr>p_s = input, p_i = 0\<rparr> of
        Inl e \<Rightarrow> Inl e
      | Inr (v, p) \<Rightarrow> let p = skip p in if p_i p \<noteq> length (p_s p) then Inl Error else Inr v)"

subsection \<open>The printer\<close>

text \<open>The loop of \<open>write_u64\<close> fills a scratch array of 20 bytes from its end; \<open>digits\<close> is the part
  from \<open>index\<close> on.\<close>

function u64_digits :: "nat \<Rightarrow> u8 list \<Rightarrow> u8 list" where
  "u64_digits v digits =
     (let digits = (0x30 + of_nat (v mod 10)) # digits; v = v div 10
      in if v = 0 then digits else u64_digits v digits)"
  by pat_completeness auto

termination u64_digits
  by (relation "measure fst") auto

declare u64_digits.simps [simp del]

text \<open>\<open>buf[..digits.len()].copy_from_slice(digits)\<close> panics when the buffer is too short.\<close>

definition write_u64 :: "u8 list \<Rightarrow> nat \<Rightarrow> (nat \<times> u8 list) option" where
  "write_u64 buf v =
     (let digits = u64_digits v []
      in if length digits \<le> length buf then Some (length digits, digits @ drop (length digits) buf) else None)"

definition write_i64 :: "u8 list \<Rightarrow> int \<Rightarrow> (nat \<times> u8 list) option" where
  "write_i64 buf v =
     (if v < 0 then
        (case buf of [] \<Rightarrow> None
         | _ # buf \<Rightarrow> map_option (\<lambda>(n, buf). (1 + n, 0x2d # buf)) (write_u64 buf (nat (- v))))
      else write_u64 buf (nat v))"

subsection \<open>The grammar\<close>

datatype factor = Number "u8 list" | Paren sum_expr | Pos factor | Neg factor
and product_expr = Product factor product_tail
and product_tail = PEnd | Times factor product_tail | Over factor product_tail
and sum_expr = Sum product_expr sum_tail
and sum_tail = SEnd | Add product_expr sum_tail | Sub product_expr sum_tail

definition then_value :: "stop + int \<Rightarrow> (int \<Rightarrow> stop + int) \<Rightarrow> stop + int" where
  "then_value r f = (case r of Inl e \<Rightarrow> Inl e | Inr v \<Rightarrow> f v)"

lemma then_value_simps [simp]: "then_value (Inl e) f = Inl e" "then_value (Inr v) f = f v"
  by (simp_all add: then_value_def)

fun decimal :: "int \<Rightarrow> u8 list \<Rightarrow> int" where
  "decimal n [] = n"
| "decimal n (d # ds) = decimal (10 * n + digit d) ds"

primrec factor_value :: "factor \<Rightarrow> stop + int"
  and product_value :: "product_expr \<Rightarrow> stop + int"
  and product_tail_value :: "product_tail \<Rightarrow> int \<Rightarrow> stop + int"
  and sum_value :: "sum_expr \<Rightarrow> stop + int"
  and sum_tail_value :: "sum_tail \<Rightarrow> int \<Rightarrow> stop + int" where
  "factor_value (Number ds) = Inr (saturate (decimal 0 ds))"
| "factor_value (Paren e) = sum_value e"
| "factor_value (Pos f) = factor_value f"
| "factor_value (Neg f) = then_value (factor_value f) (\<lambda>v. Inr (saturating_neg v))"
| "product_value (Product f t) = then_value (factor_value f) (product_tail_value t)"
| "product_tail_value PEnd = Inr"
| "product_tail_value (Times f t) = (\<lambda>v. then_value (factor_value f) (\<lambda>w. product_tail_value t (saturating_mul v w)))"
| "product_tail_value (Over f t) = (\<lambda>v. then_value (factor_value f) (\<lambda>w. then_value (divide_i64 v w) (product_tail_value t)))"
| "sum_value (Sum e t) = then_value (product_value e) (sum_tail_value t)"
| "sum_tail_value SEnd = Inr"
| "sum_tail_value (Add e t) = (\<lambda>v. then_value (product_value e) (\<lambda>w. sum_tail_value t (saturating_add v w)))"
| "sum_tail_value (Sub e t) = (\<lambda>v. then_value (product_value e) (\<lambda>w. sum_tail_value t (saturating_sub v w)))"

inductive factor_text :: "factor \<Rightarrow> u8 list \<Rightarrow> bool"
  and product_text :: "product_expr \<Rightarrow> u8 list \<Rightarrow> bool"
  and product_tail_text :: "product_tail \<Rightarrow> u8 list \<Rightarrow> bool"
  and sum_text :: "sum_expr \<Rightarrow> u8 list \<Rightarrow> bool"
  and sum_tail_text :: "sum_tail \<Rightarrow> u8 list \<Rightarrow> bool" where
  number: "spaces w \<Longrightarrow> ds \<noteq> [] \<Longrightarrow> \<forall>d\<in>set ds. is_digit d \<Longrightarrow> factor_text (Number ds) (w @ ds)"
| paren: "spaces w \<Longrightarrow> sum_text e t \<Longrightarrow> spaces w' \<Longrightarrow> factor_text (Paren e) (w @ 0x28 # t @ w' @ [0x29])"
| pos: "spaces w \<Longrightarrow> factor_text f t \<Longrightarrow> factor_text (Pos f) (w @ 0x2b # t)"
| neg: "spaces w \<Longrightarrow> factor_text f t \<Longrightarrow> factor_text (Neg f) (w @ 0x2d # t)"
| product: "factor_text f t \<Longrightarrow> product_tail_text l t' \<Longrightarrow> product_text (Product f l) (t @ t')"
| pend: "product_tail_text PEnd []"
| times: "spaces w \<Longrightarrow> factor_text f t \<Longrightarrow> product_tail_text l t' \<Longrightarrow> product_tail_text (Times f l) (w @ 0x2a # t @ t')"
| over: "spaces w \<Longrightarrow> factor_text f t \<Longrightarrow> product_tail_text l t' \<Longrightarrow> product_tail_text (Over f l) (w @ 0x2f # t @ t')"
| sum: "product_text e t \<Longrightarrow> sum_tail_text l t' \<Longrightarrow> sum_text (Sum e l) (t @ t')"
| send: "sum_tail_text SEnd []"
| add: "spaces w \<Longrightarrow> product_text e t \<Longrightarrow> sum_tail_text l t' \<Longrightarrow> sum_tail_text (Add e l) (w @ 0x2b # t @ t')"
| sub: "spaces w \<Longrightarrow> product_text e t \<Longrightarrow> sum_tail_text l t' \<Longrightarrow> sum_tail_text (Sub e l) (w @ 0x2d # t @ t')"

lemmas text_intros = factor_text_product_text_product_tail_text_sum_text_sum_tail_text.intros

subsection \<open>Numbers\<close>

lemma saturate_in [simp]: "is_i64 (saturate v)"
  by (simp add: saturate_def is_i64_def i64_MIN_def i64_MAX_def)

lemma saturate_id: "is_i64 v \<Longrightarrow> saturate v = v"
  by (simp add: saturate_def is_i64_def)

lemma digit_range: "is_digit b \<Longrightarrow> 0 \<le> digit b \<and> digit b \<le> 9"
proof -
  assume b: "is_digit b"
  have "unat (b - 0x30) = unat b - 48" using b by (subst unat_sub) (auto simp: is_digit_def word_le_nat_alt)
  moreover have "unat b \<le> 57" using b by (simp add: is_digit_def word_le_nat_alt)
  ultimately show ?thesis by (simp add: digit_def uint_nat)
qed

lemma saturate_step:
  assumes "0 \<le> n" and "is_digit b"
  shows "saturating_add (saturating_mul (saturate n) 10) (digit b) = saturate (10 * n + digit b)"
  using digit_range [OF assms(2)] assms(1)
  by (auto simp: saturating_add_def saturating_mul_def saturate_def i64_MIN_def i64_MAX_def)

lemma number_value:
  assumes "\<forall>b\<in>set ds. is_digit b" and "0 \<le> n"
  shows "fold (\<lambda>b v. saturating_add (saturating_mul v 10) (digit b)) ds (saturate n) = saturate (decimal n ds)"
  using assms digit_range by (induction ds arbitrary: n) (auto simp: saturate_step)

subsection \<open>The parser reads every text of the grammar\<close>

definition inside :: "Parser \<Rightarrow> bool" where "inside p \<longleftrightarrow> p_i p \<le> length (p_s p)"

lemma skip_inside: "inside p \<Longrightarrow> inside (skip p)"
  by (induction p rule: skip.induct) (subst skip.simps, auto simp: inside_def)

lemma peek_inside: "inside p \<Longrightarrow> inside (snd (peek p))"
  by (simp add: peek_def Let_def skip_inside)

lemma bump_inside: "inside p \<Longrightarrow> inside (snd (bump p))"
  using peek_inside [of p] by (auto simp: bump_def peek_def Let_def inside_def split: option.split if_splits)

lemma number_loop_inside: "number_loop v saw p = (w, saw', p') \<Longrightarrow> inside p \<Longrightarrow> inside p'"
proof (induction v saw p rule: number_loop.induct)
  case (1 v saw p)
  then show ?case
    by (cases "p_i p < length (p_s p) \<and> is_digit (p_s p ! p_i p)") (auto simp: number_loop.simps [of v saw p] inside_def)
qed

lemma trim_spaces: "spaces w \<Longrightarrow> trim (w @ xs) = trim xs"
  by (induction w) (auto simp: spaces_def)

lemma trim_token: "spaces w \<Longrightarrow> b \<noteq> 0x20 \<Longrightarrow> trim (w @ b # xs) = b # xs"
  by (simp add: trim_spaces)

definition no_digit :: "u8 list \<Rightarrow> bool" where "no_digit r \<longleftrightarrow> (\<forall>b. first r = Some b \<longrightarrow> \<not> is_digit b)"
definition no_mul :: "u8 list \<Rightarrow> bool" where "no_mul r \<longleftrightarrow> first (trim r) \<notin> {Some 0x2a, Some 0x2f}"
definition no_add :: "u8 list \<Rightarrow> bool" where "no_add r \<longleftrightarrow> first (trim r) \<notin> {Some 0x2b, Some 0x2d}"

lemma no_digit_token:
  assumes "spaces w" and "\<not> is_digit b" shows "no_digit (w @ b # xs)"
  using assms by (cases w) (auto simp: no_digit_def spaces_def is_digit_def)

definition gives :: "Parser \<Rightarrow> stop + int \<times> Parser \<Rightarrow> stop + int \<Rightarrow> u8 list \<Rightarrow> bool" where
  "gives p r v xs \<longleftrightarrow>
     (case v of Inl e \<Rightarrow> r = Inl e
      | Inr v \<Rightarrow> \<exists>p'. r = Inr (v, p') \<and> rest p' = xs \<and> p_s p' = p_s p \<and> inside p')"

lemma gives_return: "rest p' = xs \<Longrightarrow> p_s p' = p_s p \<Longrightarrow> inside p' \<Longrightarrow> gives p (Inr (v, p')) (Inr v) xs"
  by (simp add: gives_def)

lemma gives_bind:
  assumes "gives q r v xs" and "p_s q = p_s p"
    and "\<And>w p'. rest p' = xs \<Longrightarrow> inside p' \<Longrightarrow> gives p' (f w p') (g w) ys"
  shows "gives p (case r of Inl e \<Rightarrow> Inl e | Inr (w, p') \<Rightarrow> f w p') (then_value v g) ys"
proof (cases v)
  case (Inl e)
  then show ?thesis using assms(1) by (simp add: gives_def)
next
  case (Inr w)
  then obtain p' where p': "r = Inr (w, p')" "rest p' = xs" "p_s p' = p_s q" "inside p'" using assms(1) by (auto simp: gives_def)
  then show ?thesis using assms(3) [OF p'(2,4), of w] assms(2) Inr by (cases "g w") (auto simp: gives_def)
qed

lemma gives_div:
  "(\<And>w. gives p (f w) (g w) xs) \<Longrightarrow> gives p (case divide_i64 v d of Inl e \<Rightarrow> Inl e | Inr w \<Rightarrow> f w) (then_value (divide_i64 v d) g) xs"
  by (cases "divide_i64 v d") (auto simp: gives_def)

text \<open>What the parser does at a token.\<close>

declare bump_rest [simp del]

lemma at_token:
  assumes "trim (rest p) = trim (w @ b # xs)" and "spaces w" and "b \<noteq> 0x20" and "inside p"
  shows "\<exists>q. peek p = (Some b, q) \<and> rest q = b # xs \<and> inside q \<and> p_s q = p_s p \<and>
    rest (snd (bump q)) = xs \<and> inside (snd (bump q)) \<and> p_s (snd (bump q)) = p_s p"
proof -
  have t: "trim (rest p) = b # xs" using assms(1-3) by (simp add: trim_token)
  then have "peek p = (Some b, snd (peek p))" using peek_rest(1) [of p] by (simp add: prod_eq_iff)
  moreover have "trim (b # xs) = b # xs" using assms(3) by simp
  then have "rest (snd (bump (snd (peek p)))) = xs" "p_s (snd (bump (snd (peek p)))) = p_s p"
    using t by (simp_all add: bump_rest)
  ultimately show ?thesis
    using t peek_inside [OF assms(4)] bump_inside [OF peek_inside [OF assms(4)]]
    by (intro exI [of _ "snd (peek p)"]) simp
qed

lemma at_end:
  assumes "inside p" and "trim (rest p) = trim r"
  shows "\<exists>q. peek p = (first (trim r), q) \<and> rest q = trim r \<and> inside q \<and> p_s q = p_s p"
  using assms peek_inside [OF assms(1)] peek_rest [of p] by (intro exI [of _ "snd (peek p)"]) (simp add: prod_eq_iff)

lemma number_gives:
  assumes "rest q = ds @ r" and "inside q" and "ds \<noteq> []" "\<forall>d\<in>set ds. is_digit d" and "no_digit r"
  shows "gives q (parse_number q) (Inr (saturate (decimal 0 ds))) r"
proof -
  obtain v saw p where n: "number_loop 0 False q = (v, saw, p)" by (cases "number_loop 0 False q")
  have "takeWhile is_digit r = [] \<and> dropWhile is_digit r = r" using assms(5) by (cases r) (auto simp: no_digit_def)
  then have tk: "takeWhile is_digit (ds @ r) = ds" "dropWhile is_digit (ds @ r) = r"
    using assms(4) by (simp_all add: takeWhile_append2 dropWhile_append2)
  have "saturate 0 = 0" by (simp add: saturate_def i64_MIN_def i64_MAX_def)
  then show ?thesis
    using number_loop_rest [OF n] number_loop_inside [OF n assms(2)] tk assms(1,3) number_value [OF assms(4), of 0]
    by (simp add: gives_def parse_number_def n)
qed

lemma parser_complete:
  "factor_text f t1 \<Longrightarrow> inside p \<Longrightarrow> trim (rest p) = trim (t1 @ r) \<Longrightarrow> no_digit r \<Longrightarrow>
    gives p (parse_factor p) (factor_value f) r"
  "product_text e t2 \<Longrightarrow> inside p \<Longrightarrow> trim (rest p) = trim (t2 @ r) \<Longrightarrow> no_digit r \<Longrightarrow> no_mul r \<Longrightarrow>
    gives p (parse_term p) (product_value e) (trim r)"
  "product_tail_text l t3 \<Longrightarrow> (no_digit r \<longrightarrow> no_digit (t3 @ r)) \<and>
    (inside p \<longrightarrow> trim (rest p) = trim (t3 @ r) \<longrightarrow> no_digit r \<longrightarrow> no_mul r \<longrightarrow>
      gives p (term_loop v p) (product_tail_value l v) (trim r))"
  "sum_text se t4 \<Longrightarrow> inside p \<Longrightarrow> trim (rest p) = trim (t4 @ r) \<Longrightarrow> no_digit r \<Longrightarrow> no_mul r \<Longrightarrow> no_add r \<Longrightarrow>
    gives p (parse_expr p) (sum_value se) (trim r)"
  "sum_tail_text sl t5 \<Longrightarrow> (no_digit r \<longrightarrow> no_digit (t5 @ r)) \<and> (no_mul r \<longrightarrow> no_mul (t5 @ r)) \<and>
    (inside p \<longrightarrow> trim (rest p) = trim (t5 @ r) \<longrightarrow> no_digit r \<longrightarrow> no_mul r \<longrightarrow> no_add r \<longrightarrow>
      gives p (expr_loop v p) (sum_tail_value sl v) (trim r))"
proof (induction arbitrary: p r and p r and p r v and p r and p r v
    rule: factor_text_product_text_product_tail_text_sum_text_sum_tail_text.inducts)
  case (number w ds)
  then obtain d ds' where ds: "ds = d # ds'" "is_digit d" by (cases ds) auto
  then have d: "d \<noteq> 0x20" "d \<noteq> 0x28" "d \<noteq> 0x2b" "d \<noteq> 0x2d" by (auto simp: is_digit_def)
  obtain q where "peek p = (Some d, q)" "rest q = ds @ r" "inside q" "p_s q = p_s p"
    using at_token [of p w d "ds' @ r"] number ds d by auto
  then show ?case using number_gives [of q ds r] number ds(2) d by (simp add: parse_factor.simps [of p] gives_def)
next
  case (paren w e t w')
  obtain q where q: "peek p = (Some 0x28, q)" "rest (snd (bump q)) = t @ w' @ 0x29 # r" "inside (snd (bump q))" "p_s (snd (bump q)) = p_s p"
    using at_token [of p w "0x28" "t @ w' @ 0x29 # r"] paren by auto
  have r: "no_digit (w' @ 0x29 # r)" "no_mul (w' @ 0x29 # r)" "no_add (w' @ 0x29 # r)"
    using paren(3) by (auto simp: no_mul_def no_add_def trim_token is_digit_def intro!: no_digit_token)
  have tr: "trim (w' @ 0x29 # r) = 0x29 # r" using paren(3) by (simp add: trim_token)
  note e = paren.IH [OF q(3) _ r, unfolded tr, simplified q(2)]
  have "gives p (case parse_expr (snd (bump q)) of Inl e \<Rightarrow> Inl e
      | Inr (v, p) \<Rightarrow> (case bump p of (c, p) \<Rightarrow> if c \<noteq> Some 0x29 then Inl Error else Inr (v, p))) (then_value (sum_value e) Inr) r"
  proof (rule gives_bind [OF e q(4)])
    fix v p' assume "rest p' = 0x29 # r" "inside p'"
    then show "gives p' (case bump p' of (c, p) \<Rightarrow> if c \<noteq> Some 0x29 then Inl Error else Inr (v, p)) (Inr v) r"
      using bump_inside by (simp add: split_beta gives_return bump_rest)
  qed simp
  moreover have "then_value (sum_value e) Inr = sum_value e" by (cases "sum_value e") simp_all
  ultimately show ?case by (simp add: parse_factor.simps [of p] q(1))
next
  case (pos w f t)
  obtain q where q: "peek p = (Some 0x2b, q)" "rest (snd (bump q)) = t @ r" "inside (snd (bump q))" "p_s (snd (bump q)) = p_s p"
    using at_token [of p w "0x2b" "t @ r"] pos by auto
  have g: "gives (snd (bump q)) (parse_factor (snd (bump q))) (factor_value f) r" by (rule pos.IH [OF q(3)]) (use q(2) pos in simp_all)
  show ?case using g q(1,4) by (cases "factor_value f") (auto simp: parse_factor.simps [of p] gives_def)
next
  case (neg w f t)
  obtain q where q: "peek p = (Some 0x2d, q)" "rest (snd (bump q)) = t @ r" "inside (snd (bump q))" "p_s (snd (bump q)) = p_s p"
    using at_token [of p w "0x2d" "t @ r"] neg by auto
  have g: "gives (snd (bump q)) (parse_factor (snd (bump q))) (factor_value f) r" by (rule neg.IH [OF q(3)]) (use q(2) neg in simp_all)
  show ?case
    using q(1,4) by (auto simp: parse_factor.simps [of p] intro!: gives_bind [OF g] gives_return)
next
  case (product f t l t')
  have g: "gives p (parse_factor p) (factor_value f) (t' @ r)" using product by (intro product.IH(1)) auto
  show ?case using product by (auto simp: parse_term.simps [of p] intro!: gives_bind [OF g refl])
next
  case pend
  then show ?case using at_end [of p r] by (auto simp: term_loop.simps [of v p] no_mul_def intro!: gives_return)
next
  case (times w f t l t')
  have "gives p (term_loop v p) (product_tail_value (Times f l) v) (trim r)"
    if a: "inside p" "trim (rest p) = trim ((w @ 0x2a # t @ t') @ r)" "no_digit r" "no_mul r"
  proof -
    obtain q where q: "peek p = (Some 0x2a, q)" "rest (snd (bump q)) = t @ t' @ r" "inside (snd (bump q))" "p_s (snd (bump q)) = p_s p"
      using at_token [of p w "0x2a" "t @ t' @ r"] times(1) a by auto
    have g: "gives (snd (bump q)) (parse_factor (snd (bump q))) (factor_value f) (t' @ r)"
      using times a q by (intro times.IH(1)) auto
    show ?thesis using times a q(1) by (auto simp: term_loop.simps [of v p] intro!: gives_bind [OF g q(4)])
  qed
  then show ?case using times(1) by (auto simp: no_digit_token is_digit_def)
next
  case (over w f t l t')
  have "gives p (term_loop v p) (product_tail_value (Over f l) v) (trim r)"
    if a: "inside p" "trim (rest p) = trim ((w @ 0x2f # t @ t') @ r)" "no_digit r" "no_mul r"
  proof -
    obtain q where q: "peek p = (Some 0x2f, q)" "rest (snd (bump q)) = t @ t' @ r" "inside (snd (bump q))" "p_s (snd (bump q)) = p_s p"
      using at_token [of p w "0x2f" "t @ t' @ r"] over(1) a by auto
    have g: "gives (snd (bump q)) (parse_factor (snd (bump q))) (factor_value f) (t' @ r)"
      using over a q by (intro over.IH(1)) auto
    show ?thesis using over a q(1) by (auto simp: term_loop.simps [of v p] intro!: gives_bind [OF g q(4)] gives_div)
  qed
  then show ?case using over(1) by (auto simp: no_digit_token is_digit_def)
next
  case (sum e t l t')
  have g: "gives p (parse_term p) (product_value e) (trim (t' @ r))" using sum by (intro sum.IH(1)) auto
  show ?case using sum by (auto simp: parse_expr.simps [of p] intro!: gives_bind [OF g refl])
next
  case send
  then show ?case using at_end [of p r] by (auto simp: expr_loop.simps [of v p] no_add_def intro!: gives_return)
next
  case (add w e t l t')
  have "gives p (expr_loop v p) (sum_tail_value (Add e l) v) (trim r)"
    if a: "inside p" "trim (rest p) = trim ((w @ 0x2b # t @ t') @ r)" "no_digit r" "no_mul r" "no_add r"
  proof -
    obtain q where q: "peek p = (Some 0x2b, q)" "rest (snd (bump q)) = t @ t' @ r" "inside (snd (bump q))" "p_s (snd (bump q)) = p_s p"
      using at_token [of p w "0x2b" "t @ t' @ r"] add(1) a by auto
    have g: "gives (snd (bump q)) (parse_term (snd (bump q))) (product_value e) (trim (t' @ r))"
      using add a q by (intro add.IH(1)) auto
    show ?thesis using add a q(1) by (auto simp: expr_loop.simps [of v p] intro!: gives_bind [OF g q(4)])
  qed
  then show ?case using add(1) by (auto simp: no_digit_token is_digit_def no_mul_def trim_token)
next
  case (sub w e t l t')
  have "gives p (expr_loop v p) (sum_tail_value (Sub e l) v) (trim r)"
    if a: "inside p" "trim (rest p) = trim ((w @ 0x2d # t @ t') @ r)" "no_digit r" "no_mul r" "no_add r"
  proof -
    obtain q where q: "peek p = (Some 0x2d, q)" "rest (snd (bump q)) = t @ t' @ r" "inside (snd (bump q))" "p_s (snd (bump q)) = p_s p"
      using at_token [of p w "0x2d" "t @ t' @ r"] sub(1) a by auto
    have g: "gives (snd (bump q)) (parse_term (snd (bump q))) (product_value e) (trim (t' @ r))"
      using sub a q by (intro sub.IH(1)) auto
    show ?thesis using sub a q(1) by (auto simp: expr_loop.simps [of v p] intro!: gives_bind [OF g q(4)])
  qed
  then show ?case using sub(1) by (auto simp: no_digit_token is_digit_def no_mul_def trim_token)
qed

subsection \<open>The parser accepts only texts of the grammar\<close>

lemma spaces_append [simp]: "spaces (w @ w') \<longleftrightarrow> spaces w \<and> spaces w'"
  by (auto simp: spaces_def)

lemma trimmed: "\<exists>w. spaces w \<and> xs = w @ trim xs"
  by (rule exI [of _ "takeWhile (\<lambda>b. b = 0x20) xs"]) (auto simp: spaces_def dest: set_takeWhileD)

lemma peek_read: "peek p = (b, q) \<Longrightarrow> \<exists>w. spaces w \<and> rest p = w @ rest q"
  using trimmed [of "rest p"] peek_rest(2) [of p] by simp

lemma token_read:
  assumes "peek p = (Some b, q)"
  shows "\<exists>w. spaces w \<and> rest p = w @ b # rest (snd (bump q)) \<and> rest q = b # rest (snd (bump q))"
proof -
  have q: "rest q = trim (rest p)" "first (trim (rest p)) = Some b" using peek_rest(1,2) [of p] assms by simp_all
  then obtain xs where xs: "trim (rest p) = b # xs" by (cases "trim (rest p)") auto
  have "trim (rest q) = rest q" using q(1) by simp
  then have "rest (snd (bump q)) = xs" using xs q(1) by (simp add: bump_rest)
  then show ?thesis using trimmed [of "rest p"] xs q(1) by auto
qed

lemma tail_after_spaces:
  "product_tail_text l t \<Longrightarrow> spaces w \<Longrightarrow> (l = PEnd \<and> t = []) \<or> product_tail_text l (w @ t)"
  "sum_tail_text sl t \<Longrightarrow> spaces w \<Longrightarrow> (sl = SEnd \<and> t = []) \<or> sum_tail_text sl (w @ t)"
proof -
  assume l: "product_tail_text l t" and w: "spaces w"
  from l show "(l = PEnd \<and> t = []) \<or> product_tail_text l (w @ t)"
  proof cases
    case (times w' f u l' u')
    then show ?thesis using factor_text_product_text_product_tail_text_sum_text_sum_tail_text.times [of "w @ w'" f u l' u'] w by simp
  next
    case (over w' f u l' u')
    then show ?thesis using factor_text_product_text_product_tail_text_sum_text_sum_tail_text.over [of "w @ w'" f u l' u'] w by simp
  qed simp
next
  assume l: "sum_tail_text sl t" and w: "spaces w"
  from l show "(sl = SEnd \<and> t = []) \<or> sum_tail_text sl (w @ t)"
  proof cases
    case (add w' f u l' u')
    then show ?thesis using factor_text_product_text_product_tail_text_sum_text_sum_tail_text.add [of "w @ w'" f u l' u'] w by simp
  next
    case (sub w' f u l' u')
    then show ?thesis using factor_text_product_text_product_tail_text_sum_text_sum_tail_text.sub [of "w @ w'" f u l' u'] w by simp
  qed simp
qed

definition reads :: "('e \<Rightarrow> u8 list \<Rightarrow> bool) \<Rightarrow> ('e \<Rightarrow> stop + int) \<Rightarrow> u8 list \<Rightarrow> int \<Rightarrow> u8 list \<Rightarrow> bool" where
  "reads txt val xs v ys \<longleftrightarrow> (\<exists>e t w. txt e t \<and> spaces w \<and> xs = t @ w @ ys \<and> val e = Inr v)"

lemma reads_absorb:
  assumes "spaces w" and "reads sum_tail_text val zs v ys"
  shows "reads sum_tail_text val (w @ zs) v ys"
proof -
  obtain l u w' where l: "sum_tail_text l u" "spaces w'" "zs = u @ w' @ ys" "val l = Inr v"
    using assms(2) unfolding reads_def by blast
  from tail_after_spaces(2) [OF l(1) assms(1)] show ?thesis
  proof
    assume "sum_tail_text l (w @ u)"
    then show ?thesis using l unfolding reads_def by (intro exI [of _ l] exI [of _ "w @ u"] exI [of _ w']) simp
  next
    assume "l = SEnd \<and> u = []"
    then show ?thesis using l assms(1) unfolding reads_def by (intro exI [of _ l] exI [of _ u] exI [of _ "w @ w'"]) simp
  qed
qed

lemma readsI: "txt e t \<Longrightarrow> spaces w \<Longrightarrow> xs = t @ w @ ys \<Longrightarrow> val e = Inr v \<Longrightarrow> reads txt val xs v ys"
  unfolding reads_def by blast

lemma readsE:
  assumes "reads txt val xs v ys"
  obtains e t w where "txt e t" "spaces w" "xs = t @ w @ ys" "val e = Inr v"
  using assms unfolding reads_def by blast

lemma factor_then:
  assumes "factor_text f t" "factor_value f = Inr x" and "reads product_tail_text val xs v' ys"
    and "\<And>l u. product_tail_text l u \<Longrightarrow> val l = Inr v' \<Longrightarrow> txt (k l) (b @ t @ u) \<and> val' (k l) = Inr v'"
  shows "reads txt val' (b @ t @ xs) v' ys"
  using assms(3) by (rule readsE) (use assms(4) in \<open>auto intro!: readsI\<close>)

lemma product_then:
  assumes "reads product_text product_value xs x zs" and "reads sum_tail_text val zs v' ys"
    and "\<And>e t l u. product_text e t \<Longrightarrow> product_value e = Inr x \<Longrightarrow> sum_tail_text l u \<Longrightarrow> val l = Inr v' \<Longrightarrow>
      txt (k e l) (b @ t @ u) \<and> val' (k e l) = Inr v'"
  shows "reads txt val' (b @ xs) v' ys"
proof -
  obtain e t w where e: "product_text e t" "spaces w" "xs = t @ w @ zs" "product_value e = Inr x" using assms(1) by (rule readsE)
  obtain l u w' where l: "sum_tail_text l u" "spaces w'" "w @ zs = u @ w' @ ys" "val l = Inr v'"
    using reads_absorb [OF e(2) assms(2)] by (rule readsE)
  have "b @ xs = (b @ t @ u) @ w' @ ys" using e(3) l(3) by simp
  then show ?thesis using assms(3) [OF e(1,4) l(1,4)] l(2) by (auto intro: readsI)
qed

lemma product_reads:
  assumes "factor_text f t" "factor_value f = Inr v" and "reads product_tail_text (\<lambda>l. product_tail_value l v) xs v' ys"
  shows "reads product_text product_value (t @ xs) v' ys"
  using factor_then [OF assms, of product_text "Product f" "[]" product_value] assms by (simp add: text_intros)

lemma times_reads:
  assumes "spaces w" "factor_text f t" "factor_value f = Inr x" and "reads product_tail_text (\<lambda>l. product_tail_value l (saturating_mul v x)) xs v' ys"
  shows "reads product_tail_text (\<lambda>l. product_tail_value l v) (w @ 0x2a # t @ xs) v' ys"
  using factor_then [OF assms(2-4), of product_tail_text "Times f" "w @ [0x2a]" "\<lambda>l. product_tail_value l v"] assms(1-3) by (simp add: text_intros)

lemma over_reads:
  assumes "spaces w" "factor_text f t" "factor_value f = Inr x" and "divide_i64 v x = Inr y"
    and "reads product_tail_text (\<lambda>l. product_tail_value l y) xs v' ys"
  shows "reads product_tail_text (\<lambda>l. product_tail_value l v) (w @ 0x2f # t @ xs) v' ys"
  using factor_then [OF assms(2,3,5), of product_tail_text "Over f" "w @ [0x2f]" "\<lambda>l. product_tail_value l v"] assms(1-4) by (simp add: text_intros)

lemma sum_reads:
  assumes "reads product_text product_value xs v zs" and "reads sum_tail_text (\<lambda>l. sum_tail_value l v) zs v' ys"
  shows "reads sum_text sum_value xs v' ys"
  using product_then [OF assms, of sum_text Sum "[]" sum_value] by (simp add: text_intros)

lemma add_reads:
  assumes "spaces w" "reads product_text product_value xs x zs" and "reads sum_tail_text (\<lambda>l. sum_tail_value l (saturating_add v x)) zs v' ys"
  shows "reads sum_tail_text (\<lambda>l. sum_tail_value l v) (w @ 0x2b # xs) v' ys"
  using product_then [OF assms(2,3), of sum_tail_text Add "w @ [0x2b]" "\<lambda>l. sum_tail_value l v"] assms(1) by (simp add: text_intros)

lemma sub_reads:
  assumes "spaces w" "reads product_text product_value xs x zs" and "reads sum_tail_text (\<lambda>l. sum_tail_value l (saturating_sub v x)) zs v' ys"
  shows "reads sum_tail_text (\<lambda>l. sum_tail_value l v) (w @ 0x2d # xs) v' ys"
  using product_then [OF assms(2,3), of sum_tail_text Sub "w @ [0x2d]" "\<lambda>l. sum_tail_value l v"] assms(1) by (simp add: text_intros)

lemma end_reads:
  "spaces w \<Longrightarrow> reads product_tail_text (\<lambda>l. product_tail_value l v) (w @ ys) v ys"
  "spaces w \<Longrightarrow> reads sum_tail_text (\<lambda>l. sum_tail_value l v) (w @ ys) v ys"
  by (auto intro!: readsI [where t = "[]"] text_intros)

lemma sum_parsed: "(case r of Inl e \<Rightarrow> Inl e | Inr (v, p) \<Rightarrow> f v p) = Inr x \<longleftrightarrow> (\<exists>v p. r = Inr (v, p) \<and> f v p = Inr x)"
  for r :: "stop + int \<times> Parser" and f :: "int \<Rightarrow> Parser \<Rightarrow> stop + 'a"
  by (cases r) auto

lemma divided: "(case divide_i64 v w of Inl e \<Rightarrow> Inl e | Inr y \<Rightarrow> f y) = Inr x \<longleftrightarrow> (\<exists>y. divide_i64 v w = Inr y \<and> f y = Inr x)"
  by (cases "divide_i64 v w") auto

lemma number_read:
  assumes "parse_number p = Inr (v, p')" and "spaces u"
  shows "\<exists>f. factor_text f (u @ takeWhile is_digit (rest p)) \<and> rest p = takeWhile is_digit (rest p) @ rest p' \<and> factor_value f = Inr v"
proof -
  let ?ds = "takeWhile is_digit (rest p)"
  obtain w saw q where n: "number_loop 0 False p = (w, saw, q)" by (cases "number_loop 0 False p")
  have d: "\<forall>b\<in>set ?ds. is_digit b" by (auto dest: set_takeWhileD)
  have "saturate 0 = 0" by (simp add: saturate_def i64_MIN_def i64_MAX_def)
  then have w: "w = saturate (decimal 0 ?ds)" "saw = (?ds \<noteq> [])" "rest q = dropWhile is_digit (rest p)"
    using number_loop_rest [OF n] number_value [OF d, of 0] by simp_all
  have s: "saw" "w = v" "q = p'" using assms(1) by (auto simp: parse_number_def n split: if_splits)
  have "factor_text (Number ?ds) (u @ ?ds)" using d s(1) w(2) assms(2) by (intro text_intros) auto
  then show ?thesis using s w by (intro exI [of _ "Number ?ds"]) simp
qed

lemma parser_sound:
  "parse_expr p1 = Inr (v', p') \<Longrightarrow> reads sum_text sum_value (rest p1) v' (rest p')"
  "expr_loop v2 p2 = Inr (v', p') \<Longrightarrow> reads sum_tail_text (\<lambda>l. sum_tail_value l v2) (rest p2) v' (rest p')"
  "parse_term p3 = Inr (v', p') \<Longrightarrow> reads product_text product_value (rest p3) v' (rest p')"
  "term_loop v4 p4 = Inr (v', p') \<Longrightarrow> reads product_tail_text (\<lambda>l. product_tail_value l v4) (rest p4) v' (rest p')"
  "parse_factor p5 = Inr (v', p') \<Longrightarrow> \<exists>f t. factor_text f t \<and> rest p5 = t @ rest p' \<and> factor_value f = Inr v'"
proof (induction p1 and v2 p2 and p3 and v4 p4 and p5 arbitrary: v' p' and v' p' and v' p' and v' p' and v' p'
    rule: parse_expr_expr_loop_parse_term_term_loop_parse_factor.induct)
  case (1 p)
  then show ?case by (auto simp: parse_expr.simps [of p] sum_parsed intro: sum_reads)
next
  case (2 v p)
  obtain b q where q: "peek p = (b, q)" by fastforce
  obtain w where w: "spaces w" "rest p = w @ rest q" using peek_read [OF q] by blast
  consider "b = Some 0x2b" | "b = Some 0x2d" | "b \<noteq> Some 0x2b" "b \<noteq> Some 0x2d" by blast
  then show ?case
  proof cases
    case b: 1
    obtain w where w: "spaces w" "rest p = w @ 0x2b # rest (snd (bump q))" using token_read [of p "0x2b" q] q b by auto
    obtain x pa where x: "parse_term (snd (bump q)) = Inr (x, pa)" "expr_loop (saturating_add v x) pa = Inr (v', p')"
      using 2(5) q b by (auto simp: expr_loop.simps [of v p] sum_parsed)
    show ?thesis
      unfolding w(2) by (rule add_reads [OF w(1) 2(1) [OF q [symmetric] b x(1)] 2(2) [OF q [symmetric] b x(1) refl x(2)]])
  next
    case b: 2
    then have n: "b \<noteq> Some 0x2b" by simp
    obtain w where w: "spaces w" "rest p = w @ 0x2d # rest (snd (bump q))" using token_read [of p "0x2d" q] q b by auto
    obtain x pa where x: "parse_term (snd (bump q)) = Inr (x, pa)" "expr_loop (saturating_sub v x) pa = Inr (v', p')"
      using 2(5) q b by (auto simp: expr_loop.simps [of v p] sum_parsed)
    show ?thesis
      unfolding w(2) by (rule sub_reads [OF w(1) 2(3) [OF q [symmetric] n b x(1)] 2(4) [OF q [symmetric] n b x(1) refl x(2)]])
  next
    case 3
    then show ?thesis using 2(5) q w by (auto simp: expr_loop.simps [of v p] intro: end_reads)
  qed
next
  case (3 p)
  then show ?case by (fastforce simp: parse_term.simps [of p] sum_parsed intro: product_reads)
next
  case (4 v p)
  obtain b q where q: "peek p = (b, q)" by fastforce
  obtain w where w: "spaces w" "rest p = w @ rest q" using peek_read [OF q] by blast
  consider "b = Some 0x2a" | "b = Some 0x2f" | "b \<noteq> Some 0x2a" "b \<noteq> Some 0x2f" by blast
  then show ?case
  proof cases
    case b: 1
    obtain w where w: "spaces w" "rest p = w @ 0x2a # rest (snd (bump q))" using token_read [of p "0x2a" q] q b by auto
    obtain x pa where x: "parse_factor (snd (bump q)) = Inr (x, pa)" "term_loop (saturating_mul v x) pa = Inr (v', p')"
      using 4(5) q b by (auto simp: term_loop.simps [of v p] sum_parsed)
    obtain f t where f: "factor_text f t" "rest (snd (bump q)) = t @ rest pa" "factor_value f = Inr x"
      using 4(1) [OF q [symmetric] b x(1)] by blast
    show ?thesis
      unfolding w(2) f(2) by (rule times_reads [OF w(1) f(1,3) 4(2) [OF q [symmetric] b x(1) refl x(2)]])
  next
    case b: 2
    then have n: "b \<noteq> Some 0x2a" by simp
    obtain w where w: "spaces w" "rest p = w @ 0x2f # rest (snd (bump q))" using token_read [of p "0x2f" q] q b by auto
    obtain x y pa where x: "parse_factor (snd (bump q)) = Inr (x, pa)" "divide_i64 v x = Inr y" "term_loop y pa = Inr (v', p')"
      using 4(5) q b by (auto simp: term_loop.simps [of v p] sum_parsed divided)
    obtain f t where f: "factor_text f t" "rest (snd (bump q)) = t @ rest pa" "factor_value f = Inr x"
      using 4(3) [OF q [symmetric] n b x(1)] by blast
    show ?thesis
      unfolding w(2) f(2) by (rule over_reads [OF w(1) f(1,3) x(2) 4(4) [OF q [symmetric] n b x(1) refl x(2,3)]])
  next
    case 3
    then show ?thesis using 4(5) q w by (auto simp: term_loop.simps [of v p] intro: end_reads)
  qed
next
  case (5 p)
  obtain b q where q: "peek p = (b, q)" by fastforce
  obtain c where c: "b = Some c" using 5(4) q by (cases b) (auto simp: parse_factor.simps [of p])
  obtain w where w: "spaces w" "rest p = w @ c # rest (snd (bump q))" "rest q = c # rest (snd (bump q))"
    using token_read [of p c q] q c by auto
  consider "c = 0x28" | "c = 0x2b" | "c = 0x2d" | "c \<noteq> 0x28" "c \<noteq> 0x2b" "c \<noteq> 0x2d" by blast
  then show ?case
  proof cases
    case b: 1
    obtain pa where x: "parse_expr (snd (bump q)) = Inr (v', pa)" "fst (bump pa) = Some 0x29" "p' = snd (bump pa)"
      using 5(4) q c b by (auto simp: parse_factor.simps [of p] sum_parsed split_beta split: if_splits)
    obtain e t w' where e: "sum_text e t" "spaces w'" "rest (snd (bump q)) = t @ w' @ rest pa" "sum_value e = Inr v'"
      using 5(1) [OF q [symmetric] c b x(1)] by (rule readsE)
    obtain w2 where w2: "spaces w2" "rest pa = w2 @ 0x29 # rest p'"
      using trimmed [of "rest pa"] x(2,3) by (cases "trim (rest pa)") (auto simp: bump_rest)
    have "factor_text (Paren e) (w @ 0x28 # t @ (w' @ w2) @ [0x29])" using w(1) e(1,2) w2(1) by (intro text_intros) simp_all
    then show ?thesis using e(3,4) w(2) w2(2) b by (intro exI [of _ "Paren e"] exI [of _ "w @ 0x28 # t @ (w' @ w2) @ [0x29]"]) simp
  next
    case b: 2
    then have n: "c \<noteq> 0x28" by simp
    have x: "parse_factor (snd (bump q)) = Inr (v', p')" using 5(4) q c b by (simp add: parse_factor.simps [of p])
    obtain f t where f: "factor_text f t" "rest (snd (bump q)) = t @ rest p'" "factor_value f = Inr v'"
      using 5(2) [OF q [symmetric] c n b x] by blast
    have "factor_text (Pos f) (w @ 0x2b # t)" using w(1) f(1) by (intro text_intros)
    then show ?thesis using f w(2) b by (intro exI [of _ "Pos f"] exI [of _ "w @ 0x2b # t"]) simp
  next
    case b: 3
    then have n: "c \<noteq> 0x28" "c \<noteq> 0x2b" by simp_all
    obtain v where x: "parse_factor (snd (bump q)) = Inr (v, p')" "v' = saturating_neg v"
      using 5(4) q c b by (auto simp: parse_factor.simps [of p] sum_parsed)
    obtain f t where f: "factor_text f t" "rest (snd (bump q)) = t @ rest p'" "factor_value f = Inr v"
      using 5(3) [OF q [symmetric] c n b x(1)] by blast
    have "factor_text (Neg f) (w @ 0x2d # t)" using w(1) f(1) by (intro text_intros)
    then show ?thesis using f w(2) b x(2) by (intro exI [of _ "Neg f"] exI [of _ "w @ 0x2d # t"]) simp
  next
    case b: 4
    then have "parse_number q = Inr (v', p')" using 5(4) q c by (auto simp: parse_factor.simps [of p] split: if_splits)
    then obtain ds f where f: "factor_text f (w @ ds)" "rest q = ds @ rest p'" "factor_value f = Inr v'"
      using number_read [OF _ w(1), of q v' p'] by blast
    then show ?thesis using f w by (intro exI [of _ f] exI [of _ "w @ ds"]) simp
  qed
qed

subsection \<open>Evaluation\<close>

lemma all_spaces: "trim xs = [] \<longleftrightarrow> spaces xs"
  by (auto simp: spaces_def)

lemma eval_text:
  assumes "sum_text e t" and "spaces w"
  shows "eval (t @ w) = sum_value e"
proof -
  let ?p = "\<lparr>p_s = t @ w, p_i = 0\<rparr>"
  have w: "trim w = []" using assms(2) by (simp only: all_spaces)
  have "first w = None \<or> first w = Some 0x20" using assms(2) by (cases w) (auto simp: spaces_def)
  then have r: "no_digit w" "no_mul w" "no_add w" unfolding no_digit_def no_mul_def no_add_def w by (auto simp: is_digit_def)
  have "gives ?p (parse_expr ?p) (sum_value e) (trim w)"
    by (rule parser_complete(4) [OF assms(1) _ _ r]) (simp_all add: inside_def rest_def)
  then show ?thesis
  proof (cases "sum_value e")
    case (Inr v)
    then obtain p where p: "parse_expr ?p = Inr (v, p)" "rest p = []" "inside p"
      using \<open>gives ?p _ _ _\<close> w by (auto simp: gives_def)
    have "rest (skip p) = []" "inside (skip p)" using p(2,3) skip_rest(1) [of p] skip_inside by simp_all
    then have "p_i (skip p) = length (p_s (skip p))" by (simp add: rest_def inside_def)
    then show ?thesis using p Inr by (simp add: eval_def)
  qed (simp add: gives_def eval_def)
qed

lemma eval_reads:
  assumes "eval input = Inr v"
  obtains e t w where "sum_text e t" "spaces w" "input = t @ w" "sum_value e = Inr v"
proof -
  let ?p = "\<lparr>p_s = input, p_i = 0\<rparr>"
  obtain p where p: "parse_expr ?p = Inr (v, p)" "p_i (skip p) = length (p_s (skip p))"
    using assms by (auto simp: eval_def sum_parsed Let_def split: if_splits)
  then have "spaces (rest p)" using skip_rest(1) [of p] all_spaces [of "rest p"] by (simp add: rest_def)
  moreover obtain e t w where "sum_text e t" "spaces w" "input = t @ w @ rest p" "sum_value e = Inr v"
    using parser_sound(1) [OF p(1)] by (auto simp: rest_def elim!: readsE)
  ultimately show ?thesis using that [of e t "w @ rest p"] by simp
qed

lemma sdiv_range:
  assumes "is_i64 v" and "divide_i64 v d = Inr w"
  shows "is_i64 w"
proof -
  have d: "d \<noteq> 0" "\<not> (v = i64_MIN \<and> d = -1)" and w: "w = sgn v * sgn d * (\<bar>v\<bar> div \<bar>d\<bar>)"
    using assms(2) by (auto simp: divide_i64_def signed_divide_int_def split: if_splits)
  have le: "\<bar>v\<bar> div \<bar>d\<bar> \<le> \<bar>v\<bar>" "0 \<le> \<bar>v\<bar> div \<bar>d\<bar>" using d(1) zdiv_mono2 [of "\<bar>v\<bar>" 1 "\<bar>d\<bar>"] by (auto simp: pos_imp_zdiv_nonneg_iff)
  have b: "\<bar>v\<bar> \<le> 2 ^ 63" using assms(1) by (auto simp: is_i64_def i64_MIN_def i64_MAX_def)
  have sign: "0 \<le> k \<Longrightarrow> sgn x * sgn y * k = 2 ^ 63 \<Longrightarrow> k = 2 ^ 63" for k x y :: int by (auto simp: sgn_if split: if_splits)
  have "w \<noteq> 2 ^ 63"
  proof
    assume w63: "w = 2 ^ 63"
    then have "\<bar>v\<bar> div \<bar>d\<bar> = 2 ^ 63" using w le sign [of "\<bar>v\<bar> div \<bar>d\<bar>" v d] by simp
    then have e: "\<bar>v\<bar> = 2 ^ 63" "\<bar>v\<bar> div \<bar>d\<bar> = \<bar>v\<bar>" using le b by linarith+
    then have v: "v = i64_MIN" using assms(1) by (auto simp: is_i64_def i64_MIN_def i64_MAX_def)
    have "\<not> 1 < \<bar>d\<bar>" using e int_div_less_self [of "\<bar>v\<bar>" "\<bar>d\<bar>"] by auto
    then have "d = 1 \<or> d = -1" using d(1) by linarith
    then have "d = 1" using d(2) v by simp
    then show False using w w63 v by (simp add: i64_MIN_def)
  qed
  moreover have "\<bar>w\<bar> \<le> 2 ^ 63" using w le b by (auto simp: abs_mult sgn_if)
  ultimately show ?thesis by (auto simp: is_i64_def i64_MIN_def i64_MAX_def)
qed

lemma value_range:
  "factor_value f = Inr v \<Longrightarrow> is_i64 v"
  "product_value e = Inr v \<Longrightarrow> is_i64 v"
  "product_tail_value l u = Inr v \<Longrightarrow> is_i64 u \<Longrightarrow> is_i64 v"
  "sum_value s = Inr v \<Longrightarrow> is_i64 v"
  "sum_tail_value sl u = Inr v \<Longrightarrow> is_i64 u \<Longrightarrow> is_i64 v"
proof (induction f and e and l and s and sl arbitrary: v and v and u v and v and u v)
qed (auto simp: then_value_def saturating_add_def saturating_sub_def saturating_mul_def saturating_neg_def
      dest: sdiv_range split: sum.splits)

lemma digits_facts:
  "\<exists>ds. u64_digits v acc = ds @ acc \<and> ds \<noteq> [] \<and> (\<forall>d\<in>set ds. is_digit d) \<and>
    (\<forall>n. decimal n ds = n * 10 ^ length ds + int v) \<and> (\<forall>k>0. v < 10 ^ k \<longrightarrow> length ds \<le> k)"
proof (induction v acc rule: u64_digits.induct)
  case (1 v acc)
  let ?d = "0x30 + of_nat (v mod 10) :: u8"
  have u: "unat (of_nat (v mod 10) :: u8) = v mod 10" by (simp add: unat_of_nat)
  then have "unat ?d = 48 + v mod 10" by (subst unat_add_lem [THEN iffD1]) simp_all
  then have d: "is_digit ?d" by (simp add: is_digit_def word_le_nat_alt)
  have g: "digit ?d = int (v mod 10)" using u by (simp add: digit_def uint_nat)
  show ?case
  proof (cases "v div 10 = 0")
    case True
    then have "u64_digits v acc = [?d] @ acc" by (subst u64_digits.simps) simp
    moreover have "v mod 10 = v" using True by (simp add: div_eq_0_iff)
    ultimately show ?thesis using d g by (intro exI [of _ "[?d]"]) auto
  next
    case False
    then have eq: "u64_digits v acc = u64_digits (v div 10) (?d # acc)" by (subst u64_digits.simps) (simp add: Let_def)
    obtain ds where ds: "u64_digits (v div 10) (?d # acc) = ds @ ?d # acc" "\<forall>d\<in>set ds. is_digit d"
      "\<forall>n. decimal n ds = n * 10 ^ length ds + int (v div 10)" "\<forall>k>0. v div 10 < 10 ^ k \<longrightarrow> length ds \<le> k"
      using 1 [OF refl refl False] by blast
    have dec: "decimal n (ds @ [x]) = 10 * decimal n ds + digit x" for n x by (induction ds arbitrary: n) auto
    have len: "length (ds @ [?d]) \<le> k" if k: "0 < k" "v < 10 ^ k" for k
    proof (cases k)
      case (Suc j)
      then have "v div 10 < 10 ^ j" using k(2) by (auto simp: less_mult_imp_div_less)
      moreover have "0 < j" using False calculation by (cases j) auto
      ultimately show ?thesis using ds(4) Suc by simp
    qed (use k in simp)
    have "decimal n (ds @ [?d]) = n * 10 ^ length (ds @ [?d]) + int v" for n
      using ds(3) g by (simp add: dec zmod_int zdiv_int)
    then show ?thesis using eq ds(1,2) d len by (intro exI [of _ "ds @ [?d]"]) auto
  qed
qed

subsection \<open>Properties\<close>

text \<open>Every expression of the documented grammar evaluates to its value. Whatever spaces stand
  before its tokens and behind it, the text of an expression is read with the usual precedence and
  from left to right, and \<open>eval\<close> returns its value with saturating \<open>+\<close>, \<open>-\<close> and \<open>*\<close> and truncating
  division, or the error of a division by zero.\<close>

theorem calc_evaluates_expressions:
  assumes "sum_text e t" and "spaces w"
  shows "eval (t @ w) = sum_value e"
  using assms by (rule eval_text)

abbreviation num :: "u8 \<Rightarrow> product_expr" where "num d \<equiv> Product (Number [d]) PEnd"

definition sample_expr :: sum_expr where
  "sample_expr = Sum (Product (Paren (Sum (num 0x31) (Add (num 0x32) SEnd))) (Times (Number [0x33]) PEnd)) SEnd"

lemma digit_text: "is_digit d \<Longrightarrow> factor_text (Number [d]) [d]" "is_digit d \<Longrightarrow> product_text (num d) [d]"
  using text_intros(1) [of "[]" "[d]"] text_intros(5) [OF _ text_intros(6), of "Number [d]" "[d]"] by (simp_all add: spaces_def)

lemma sample_text: "sum_text sample_expr [0x28, 0x31, 0x2b, 0x32, 0x29, 0x20, 0x2a, 0x33]"
proof -
  have "sum_tail_text (Add (num 0x32) SEnd) [0x2b, 0x32]"
    using text_intros(11) [of "[]" "num 0x32" "[0x32]" SEnd "[]"] digit_text text_intros(10) by (simp add: spaces_def is_digit_def)
  then have "sum_text (Sum (num 0x31) (Add (num 0x32) SEnd)) [0x31, 0x2b, 0x32]"
    using text_intros(9) [of "num 0x31" "[0x31]"] digit_text(2) [of "0x31"] by (simp add: is_digit_def)
  then have "factor_text (Paren (Sum (num 0x31) (Add (num 0x32) SEnd))) [0x28, 0x31, 0x2b, 0x32, 0x29]"
    using text_intros(2) [of "[]" _ "[0x31, 0x2b, 0x32]" "[]"] by (simp add: spaces_def)
  moreover have "product_tail_text (Times (Number [0x33]) PEnd) [0x20, 0x2a, 0x33]"
    using text_intros(7) [of "[0x20]" "Number [0x33]" "[0x33]" PEnd "[]"] digit_text text_intros(6) by (simp add: spaces_def is_digit_def)
  ultimately show ?thesis
    using text_intros(9) [OF text_intros(5) text_intros(10)] by (fastforce simp: sample_expr_def)
qed

lemma sample_value: "sum_value sample_expr = Inr 9"
  by (simp add: sample_expr_def digit_def saturate_def saturating_add_def saturating_mul_def i64_MIN_def i64_MAX_def)

theorem calc_evaluates_expressions_witness: "eval [0x28, 0x31, 0x2b, 0x32, 0x29, 0x20, 0x2a, 0x33, 0x20] = Inr 9"
  using calc_evaluates_expressions [OF sample_text, of "[0x20]"] sample_value by (simp add: spaces_def)

text \<open>C21: The calculator accepts exactly the grammar. \<open>eval\<close> returns a number for an input if and
  only if the input is a text of an expression with that value, followed by spaces.\<close>

theorem calc_accepts_exactly_the_grammar:
  "eval input = Inr v \<longleftrightarrow> (\<exists>e t w. sum_text e t \<and> spaces w \<and> input = t @ w \<and> sum_value e = Inr v)"
  using eval_text eval_reads by metis

lemma number_text:
  assumes "ds \<noteq> []" and "\<forall>d\<in>set ds. is_digit d"
  shows "sum_text (Sum (Product (Number ds) PEnd) SEnd) ds" "sum_text (Sum (Product (Neg (Number ds)) PEnd) SEnd) (0x2d # ds)"
proof -
  have n: "factor_text (Number ds) ds" using text_intros(1) [of "[]" ds] assms by (simp add: spaces_def)
  then have "factor_text (Neg (Number ds)) (0x2d # ds)" using text_intros(4) [of "[]"] by (simp add: spaces_def)
  with n show "sum_text (Sum (Product (Number ds) PEnd) SEnd) ds" "sum_text (Sum (Product (Neg (Number ds)) PEnd) SEnd) (0x2d # ds)"
    using text_intros(9) [OF text_intros(5) [OF _ text_intros(6)] text_intros(10)] by fastforce+
qed

lemma write_u64_facts:
  assumes "v \<le> 2 ^ 63" and "19 \<le> length buf"
  shows "\<exists>ds. write_u64 buf v = Some (length ds, ds @ drop (length ds) buf) \<and> length ds \<le> 19 \<and>
    eval ds = Inr (saturate (int v)) \<and> eval (0x2d # ds) = Inr (saturating_neg (saturate (int v)))"
proof -
  obtain ds where ds: "u64_digits v [] = ds" "ds \<noteq> []" "\<forall>d\<in>set ds. is_digit d" "decimal 0 ds = int v"
    "v < 10 ^ 19 \<longrightarrow> length ds \<le> 19" using digits_facts [of v "[]"] by (auto simp del: power_numeral)
  have "length ds \<le> 19" using ds(5) assms(1) by simp
  moreover have "eval ds = Inr (saturate (int v))" "eval (0x2d # ds) = Inr (saturating_neg (saturate (int v)))"
    using eval_text [OF number_text(1) [OF ds(2,3)], of "[]"] eval_text [OF number_text(2) [OF ds(2,3)], of "[]"] ds(4)
    by (simp_all add: spaces_def)
  ultimately show ?thesis using assms(2) ds(1) by (intro exI [of _ ds]) (simp add: write_u64_def)
qed

text \<open>Printed numbers are read back. A buffer of 20 bytes holds the decimal form of every 64-bit
  integer, \<open>write_i64\<close> does not panic, and the calculator evaluates the form to the same integer. The
  one exception is the smallest integer, whose digits exceed the largest integer and saturate before
  the sign is applied.\<close>

theorem calc_reads_back_written_numbers:
  assumes "is_i64 v" and "20 \<le> length buf"
  shows "\<exists>n buf'. write_i64 buf v = Some (n, buf') \<and> length buf' = length buf \<and>
    eval (take n buf') = Inr (if v = i64_MIN then i64_MIN + 1 else v)"
proof (cases "v < 0")
  case True
  obtain b bs where b: "buf = b # bs" "19 \<le> length bs" using assms(2) by (cases buf) auto
  have n: "nat (- v) \<le> 2 ^ 63" using assms(1) by (auto simp: is_i64_def i64_MIN_def nat_le_iff)
  obtain ds where ds: "write_u64 bs (nat (- v)) = Some (length ds, ds @ drop (length ds) bs)" "length ds \<le> 19"
    "eval (0x2d # ds) = Inr (saturating_neg (saturate (int (nat (- v)))))"
    using write_u64_facts [OF n b(2)] by blast
  have "saturating_neg (saturate (int (nat (- v)))) = (if v = i64_MIN then i64_MIN + 1 else v)"
    using True assms(1) by (simp add: saturating_neg_def saturate_def is_i64_def i64_MIN_def i64_MAX_def)
  then show ?thesis using True b ds by (simp add: write_i64_def)
next
  case False
  have n: "nat v \<le> 2 ^ 63" using assms(1) by (auto simp: is_i64_def i64_MAX_def nat_le_iff)
  obtain ds where ds: "write_u64 buf (nat v) = Some (length ds, ds @ drop (length ds) buf)" "length ds \<le> 19"
    "eval ds = Inr (saturate (int (nat v)))" using write_u64_facts [OF n, of buf] assms(2) by auto
  have "saturate (int (nat v)) = v" using False assms(1) by (simp add: saturate_id)
  moreover have "v \<noteq> i64_MIN" using False by (simp add: i64_MIN_def)
  ultimately show ?thesis using False ds assms(2) by (simp add: write_i64_def)
qed

theorem calc_reads_back_written_numbers_witness:
  "\<exists>n buf'. write_i64 (replicate 20 0) (-12) = Some (n, buf') \<and> eval (take n buf') = Inr (-12)"
  using calc_reads_back_written_numbers [of "-12" "replicate 20 0"] by (auto simp: is_i64_def i64_MIN_def i64_MAX_def)

text \<open>C22: One division panics. An expression whose dividend is the smallest 64-bit integer and whose
  divisor is -1 does not return an error and does not saturate: the division overflows and the program
  stops. The input \<open>(-9223372036854775807-1)/-1\<close> is such an expression.\<close>

theorem calc_division_panics:
  assumes "factor_text f t" "factor_value f = Inr i64_MIN" "factor_text g u" "factor_value g = Inr (-1)"
  shows "eval (t @ 0x2f # u) = Inl Panic"
proof -
  have "product_tail_text (Over g PEnd) (0x2f # u)"
    using text_intros(8) [OF _ assms(3) text_intros(6), of "[]"] by (simp add: spaces_def)
  then have "sum_text (Sum (Product f (Over g PEnd)) SEnd) (t @ 0x2f # u)"
    using text_intros(9) [OF text_intros(5) [OF assms(1)] text_intros(10)] by fastforce
  from eval_text [OF this, of "[]"] show ?thesis
    using assms(2,4) by (simp add: spaces_def divide_i64_def)
qed

definition largest_digits :: "u8 list" where
  "largest_digits = [0x39, 0x32, 0x32, 0x33, 0x33, 0x37, 0x32, 0x30, 0x33, 0x36, 0x38, 0x35, 0x34, 0x37, 0x37, 0x35, 0x38, 0x30, 0x37]"

abbreviation least_factor :: factor where
  "least_factor \<equiv> Paren (Sum (Product (Neg (Number largest_digits)) PEnd) (Sub (num 0x31) SEnd))"

lemma least_factor_text:
  "factor_text least_factor (0x28 # (0x2d # largest_digits) @ [0x2d, 0x31, 0x29])"
  "factor_value least_factor = Inr i64_MIN"
proof -
  have n: "factor_text (Neg (Number largest_digits)) (0x2d # largest_digits)"
    using text_intros(4) [of "[]" "Number largest_digits" largest_digits] text_intros(1) [of "[]" largest_digits]
    by (simp add: spaces_def largest_digits_def is_digit_def)
  have "sum_tail_text (Sub (num 0x31) SEnd) [0x2d, 0x31]"
    using text_intros(12) [of "[]" "num 0x31" "[0x31]" SEnd "[]"] digit_text text_intros(10) by (simp add: spaces_def is_digit_def)
  with n have "sum_text (Sum (Product (Neg (Number largest_digits)) PEnd) (Sub (num 0x31) SEnd)) ((0x2d # largest_digits) @ [0x2d, 0x31])"
    using text_intros(9) [OF text_intros(5) [OF n text_intros(6)]] by simp
  then show "factor_text least_factor (0x28 # (0x2d # largest_digits) @ [0x2d, 0x31, 0x29])"
    using text_intros(2) [of "[]" _ "(0x2d # largest_digits) @ [0x2d, 0x31]" "[]"] by (simp add: spaces_def)
  show "factor_value least_factor = Inr i64_MIN"
    by (simp add: largest_digits_def digit_def saturate_def saturating_sub_def saturating_neg_def i64_MIN_def i64_MAX_def)
qed

theorem calc_division_panics_witness:
  "eval ((0x28 # (0x2d # largest_digits) @ [0x2d, 0x31, 0x29]) @ 0x2f # [0x2d, 0x31]) = Inl Panic"
proof (rule calc_division_panics [OF least_factor_text])
  show "factor_text (Neg (Number [0x31])) [0x2d, 0x31]"
    using text_intros(4) [of "[]" "Number [0x31]" "[0x31]"] digit_text(1) [of "0x31"] by (simp add: spaces_def is_digit_def)
  show "factor_value (Neg (Number [0x31])) = Inr (-1)"
    by (simp add: digit_def saturate_def saturating_neg_def i64_MIN_def i64_MAX_def)
qed

end
