(* ===== verification/SerialDriver.thy ===== *)
theory SerialDriver
  imports SerialQueue
begin

text \<open>
  The serial driver \<open>pds/sddf-serial-driver\<close> above its UART. The UART itself (a driver of another
  project for the PL011, registers for the NS16550) is the record \<open>uart\<close>: what \<open>read\<close>, \<open>write\<close> and
  \<open>handle_interrupt\<close> do with its state, where \<open>None\<close> of \<open>read\<close> is \<open>WouldBlock\<close> and \<open>None\<close> of
  \<open>write\<close> an error, which the driver does not expect. The functions return \<open>None\<close> when an
  assertion fails.
\<close>

record 'u uart =
  uart_read :: "'u \<Rightarrow> u8 option \<times> 'u"
  uart_write :: "u8 \<Rightarrow> 'u \<Rightarrow> 'u option"
  uart_handle_interrupt :: "'u \<Rightarrow> 'u"

record serial_connection_resource_t =
  sc_queue :: serial_queue_t
  sc_data :: "u8 list"
  sc_data_size :: u64
  sc_id :: u8

definition serial_handle_of :: "serial_connection_resource_t \<Rightarrow> serial_queue_handle_t" where
  "serial_handle_of conn = serial_handle_from_connection (sc_queue conn) (sc_data conn) (sc_data_size conn)"

definition SDDF_SERIAL_MAGIC :: "u8 list" where "SDDF_SERIAL_MAGIC = [0x73, 0x44, 0x44, 0x46, 0x03]"

text \<open>The two virtualisers share the bound on their clients and the unused handle.\<close>

definition SDDF_SERIAL_MAX_CLIENTS :: nat where "SDDF_SERIAL_MAX_CLIENTS = 64"

definition empty_handle :: serial_queue_handle_t where
  "empty_handle = \<lparr>sq_queue = \<lparr>sq_tail = 0, sq_head = 0, sq_producer_signalled = 0\<rparr>, sq_capacity = 0, sq_data = []\<rparr>"

text \<open>The bytes of one client in a list of tagged bytes.\<close>

definition of_client :: "nat \<Rightarrow> (nat \<times> u8) list \<Rightarrow> u8 list" where
  "of_client i ms = map snd (filter (\<lambda>m. fst m = i) ms)"

lemma of_client_append [simp]: "of_client i (xs @ ys) = of_client i xs @ of_client i ys" "of_client i [] = []"
  by (simp_all add: of_client_def)

lemma of_client_tag: "of_client i (map (Pair j) bs) = (if i = j then bs else [])"
  by (induction bs) (auto simp: of_client_def)

definition DRIVER_IRQ_CHANNEL :: u8 where "DRIVER_IRQ_CHANNEL = 0"

record serial_driver_config_t =
  sdc_magic :: "u8 list"
  sdc_rx :: serial_connection_resource_t
  sdc_tx :: serial_connection_resource_t
  sdc_default_baud :: u64
  sdc_rx_enabled :: bool

text \<open>\<open>sd_notes\<close> lists the channels that were notified and \<open>sd_acks\<close> counts the acknowledged
  interrupts.\<close>

record 'u serial_driver =
  sd_uart :: 'u
  sd_irq :: nat
  sd_tx :: serial_queue_handle_t
  sd_tx_ch :: nat
  sd_rx :: serial_queue_handle_t
  sd_rx_ch :: nat
  sd_rx_enabled :: bool
  sd_notes :: "nat list"
  sd_acks :: nat

definition serial_driver_init :: "serial_driver_config_t \<Rightarrow> 'u \<Rightarrow> 'u serial_driver option" where
  "serial_driver_init config open_uart =
     (if sdc_magic config \<noteq> SDDF_SERIAL_MAGIC then None
      else Some \<lparr>sd_uart = open_uart, sd_irq = unat DRIVER_IRQ_CHANNEL,
        sd_tx = serial_handle_of (sdc_tx config), sd_tx_ch = unat (sc_id (sdc_tx config)),
        sd_rx = serial_handle_of (sdc_rx config), sd_rx_ch = unat (sc_id (sdc_rx config)),
        sd_rx_enabled = sdc_rx_enabled config, sd_notes = [], sd_acks = 0\<rparr>)"

definition sd_notify :: "nat \<Rightarrow> 'u serial_driver \<Rightarrow> 'u serial_driver" where
  "sd_notify ch s = s\<lparr>sd_notes := sd_notes s @ [ch]\<rparr>"

lemma serial_dequeue_shrinks:
  "serial_dequeue h out = (0, b, h') \<Longrightarrow> unat (sq_tail (sq_queue h') - sq_head (sq_queue h')) < unat (sq_tail (sq_queue h) - sq_head (sq_queue h))"
  using unat_diff_pred [of "sq_tail (sq_queue h)" "sq_head (sq_queue h)"]
  by (auto simp: serial_dequeue_def Let_def ring_is_empty_def ring_advance_head_def ring_advance_def split: if_splits)

function drain_tx_loop :: "'u uart \<Rightarrow> bool \<Rightarrow> 'u serial_driver \<Rightarrow> (bool \<times> 'u serial_driver) option" where
  "drain_tx_loop U transferred s =
     (case serial_dequeue (sd_tx s) 0 of (e, byte, h) \<Rightarrow>
        if e \<noteq> 0 then Some (transferred, s)
        else case uart_write U byte (sd_uart s) of
               None \<Rightarrow> None
             | Some u \<Rightarrow> drain_tx_loop U True (s\<lparr>sd_tx := h, sd_uart := u\<rparr>))"
  by pat_completeness auto

termination drain_tx_loop
  by (relation "measure (\<lambda>(U, t, s). unat (sq_tail (sq_queue (sd_tx s)) - sq_head (sq_queue (sd_tx s))))")
    (auto dest: serial_dequeue_shrinks [OF sym])

declare drain_tx_loop.simps [simp del]

definition drain_tx :: "'u uart \<Rightarrow> 'u serial_driver \<Rightarrow> 'u serial_driver option" where
  "drain_tx U s =
     (case drain_tx_loop U False s of
        None \<Rightarrow> None
      | Some (transferred, s) \<Rightarrow>
          Some (if transferred \<and> serial_require_consumer_signal (sd_tx s)
            then sd_notify (sd_tx_ch s) (s\<lparr>sd_tx := serial_cancel_consumer_signal (sd_tx s)\<rparr>)
            else s))"

lemma serial_enqueue_free:
  assumes "serial_queue_free h \<noteq> 0" and "serial_enqueue h b = (e, h')"
  shows "e = 0" and "unat (serial_queue_free h') < unat (serial_queue_free h)"
proof -
  let ?t = "sq_tail (sq_queue h)" and ?h = "sq_head (sq_queue h)"
  have n: "sq_capacity h - (?t - ?h) \<noteq> 0"
    using assms(1) by (simp add: serial_queue_free_def serial_queue_length_producer_def ring_len_def)
  then have nf: "\<not> ring_is_full ?t ?h (sq_capacity h)" by (auto simp: ring_simps)
  then show "e = 0" using assms(2) by (simp add: serial_enqueue_def Let_def)
  have h': "sq_capacity h' = sq_capacity h" "sq_tail (sq_queue h') = ?t + 1" "sq_head (sq_queue h') = ?h"
    using nf assms(2) by (auto simp: serial_enqueue_def Let_def ring_advance_tail_def ring_advance_def)
  have "serial_queue_free h' = (sq_capacity h - (?t - ?h)) - 1"
    by (simp add: serial_queue_free_def serial_queue_length_producer_def ring_len_def h' algebra_simps)
  then show "unat (serial_queue_free h') < unat (serial_queue_free h)"
    using n measure_unat [OF n] by (simp add: serial_queue_free_def serial_queue_length_producer_def ring_len_def)
qed

text \<open>The result of the loop says whether a byte was enqueued and whether the queue was full.\<close>

function drain_rx_loop :: "'u uart \<Rightarrow> bool \<Rightarrow> 'u serial_driver \<Rightarrow> (bool \<times> bool \<times> 'u serial_driver) option" where
  "drain_rx_loop U enqueued s =
     (if serial_queue_free (sd_rx s) = 0 then
        Some (enqueued, True, s\<lparr>sd_rx := serial_request_consumer_signal (sd_rx s)\<rparr>)
      else case uart_read U (sd_uart s) of
             (None, u) \<Rightarrow> Some (enqueued, False, s\<lparr>sd_uart := u\<rparr>)
           | (Some byte, u) \<Rightarrow>
               (case serial_enqueue (sd_rx s) byte of (status, h) \<Rightarrow>
                  if status \<noteq> 0 then None else drain_rx_loop U True (s\<lparr>sd_uart := u, sd_rx := h\<rparr>)))"
  by pat_completeness auto

termination drain_rx_loop
  by (relation "measure (\<lambda>(U, t, s). unat (serial_queue_free (sd_rx s)))") (auto dest: serial_enqueue_free(2) [OF _ sym])

declare drain_rx_loop.simps [simp del]

definition drain_rx :: "'u uart \<Rightarrow> 'u serial_driver \<Rightarrow> 'u serial_driver option" where
  "drain_rx U s =
     (if \<not> sd_rx_enabled s then Some s
      else case drain_rx_loop U False s of
             None \<Rightarrow> None
           | Some (enqueued, blocked, s) \<Rightarrow>
               let s = (if enqueued then sd_notify (sd_rx_ch s) s else s)
               in Some (if enqueued \<and> \<not> blocked then s\<lparr>sd_rx := serial_cancel_consumer_signal (sd_rx s)\<rparr> else s))"

definition serial_driver_notified :: "'u uart \<Rightarrow> nat set \<Rightarrow> 'u serial_driver \<Rightarrow> 'u serial_driver option" where
  "serial_driver_notified U channels s =
     do {
       s \<leftarrow> (if sd_irq s \<in> channels then do {
          s \<leftarrow> drain_rx U s;
          s \<leftarrow> drain_tx U s;
          s \<leftarrow> Some (s\<lparr>sd_uart := uart_handle_interrupt U (sd_uart s)\<rparr>);
          s \<leftarrow> drain_rx U s;
          s \<leftarrow> drain_tx U s;
          Some (s\<lparr>sd_acks := sd_acks s + 1\<rparr>)
        } else Some s);
       s \<leftarrow> (if sd_tx_ch s \<in> channels then drain_tx U s else Some s);
       if sd_rx_ch s \<in> channels then drain_rx U s else Some s
     }"

subsection \<open>What the driver does\<close>

text \<open>A UART that sends every byte it is given and receives the bytes on its line in order.\<close>

definition uart_ok :: "'u uart \<Rightarrow> ('u \<Rightarrow> u8 list) \<Rightarrow> ('u \<Rightarrow> u8 list) \<Rightarrow> bool" where
  "uart_ok U inp out \<longleftrightarrow>
     (\<forall>b u. \<exists>u'. uart_write U b u = Some u' \<and> out u' = out u @ [b] \<and> inp u' = inp u)
     \<and> (\<forall>u. case uart_read U u of (None, u') \<Rightarrow> inp u = [] \<and> inp u' = [] \<and> out u' = out u
          | (Some b, u') \<Rightarrow> inp u = b # inp u' \<and> out u' = out u)
     \<and> (\<forall>u. out (uart_handle_interrupt U u) = out u \<and> inp (uart_handle_interrupt U u) = inp u)"

text \<open>The channels and the other direction stay as they are.\<close>

definition sd_frame :: "'u serial_driver \<Rightarrow> 'u serial_driver \<Rightarrow> bool" where
  "sd_frame s s' \<longleftrightarrow> sd_irq s' = sd_irq s \<and> sd_tx_ch s' = sd_tx_ch s \<and> sd_rx_ch s' = sd_rx_ch s
     \<and> sd_rx_enabled s' = sd_rx_enabled s"

lemma drain_tx_loop_sends:
  assumes U: "uart_ok U inp out" and r: "serial_ready (sd_tx s)"
  shows "\<exists>s'. drain_tx_loop U t s = Some (t \<or> serial_items (sd_tx s) \<noteq> [], s') \<and> serial_ready (sd_tx s') \<and>
    serial_items (sd_tx s') = [] \<and> same_side (sd_tx s) (sd_tx s') \<and> out (sd_uart s') = out (sd_uart s) @ serial_items (sd_tx s) \<and>
    inp (sd_uart s') = inp (sd_uart s) \<and> sd_rx s' = sd_rx s \<and> sd_notes s' = sd_notes s \<and> sd_frame s s'"
  using r
proof (induction "serial_items (sd_tx s)" arbitrary: s t)
  case Nil
  then show ?case by (simp add: drain_tx_loop.simps [of U t s] serial_dequeue_none sd_frame_def same_side_def)
next
  case (Cons b bs)
  obtain h where h: "serial_dequeue (sd_tx s) 0 = (0, b, h)" "serial_ready h" "serial_items h = bs" "same_side (sd_tx s) h"
    using serial_dequeue_ready [OF Cons.prems Cons.hyps(2) [symmetric]] by blast
  obtain u where u: "uart_write U b (sd_uart s) = Some u" "out u = out (sd_uart s) @ [b]" "inp u = inp (sd_uart s)"
    using U unfolding uart_ok_def by blast
  show ?case
    using Cons.hyps(1) [of "s\<lparr>sd_tx := h, sd_uart := u\<rparr>" True] h u Cons.hyps(2) [symmetric]
    by (auto simp: drain_tx_loop.simps [of U t s] sd_frame_def same_side_def)
qed

lemma drain_tx_sends:
  assumes "uart_ok U inp out" and "serial_ready (sd_tx s)"
  shows "\<exists>s'. drain_tx U s = Some s' \<and> serial_ready (sd_tx s') \<and> serial_items (sd_tx s') = [] \<and>
    sq_capacity (sd_tx s') = sq_capacity (sd_tx s) \<and> out (sd_uart s') = out (sd_uart s) @ serial_items (sd_tx s) \<and>
    inp (sd_uart s') = inp (sd_uart s) \<and> sd_rx s' = sd_rx s \<and> sd_frame s s' \<and>
    sd_notes s' = sd_notes s @ (if serial_items (sd_tx s) \<noteq> [] \<and> serial_require_consumer_signal (sd_tx s) then [sd_tx_ch s] else [])"
  using drain_tx_loop_sends [OF assms, of False]
  by (auto simp: drain_tx_def sd_notify_def same_side_def serial_require_consumer_signal_def sd_frame_def)

lemma drain_rx_loop_receives:
  assumes U: "uart_ok U inp out" and r: "serial_ready (sd_rx s)"
  shows "\<exists>e b s'. drain_rx_loop U t s = Some (e, b, s') \<and> serial_ready (sd_rx s') \<and> (e \<longleftrightarrow> t \<or> inp (sd_uart s') \<noteq> inp (sd_uart s)) \<and>
    serial_items (sd_rx s) @ inp (sd_uart s) = serial_items (sd_rx s') @ inp (sd_uart s') \<and>
    (if b then serial_require_consumer_signal (sd_rx s') \<and> length (serial_items (sd_rx s')) = unat (sq_capacity (sd_rx s')) else inp (sd_uart s') = []) \<and>
    length (inp (sd_uart s')) \<le> length (inp (sd_uart s)) \<and> out (sd_uart s') = out (sd_uart s) \<and>
    sq_capacity (sd_rx s') = sq_capacity (sd_rx s) \<and> sd_tx s' = sd_tx s \<and> sd_notes s' = sd_notes s \<and> sd_frame s s'"
  using r
proof (induction "inp (sd_uart s)" arbitrary: s t)
  case Nil
  note len = serial_lengths [OF Nil.prems]
  obtain c u where u: "uart_read U (sd_uart s) = (c, u)" by fastforce
  have "case (c, u) of (None, u') \<Rightarrow> inp (sd_uart s) = [] \<and> inp u' = [] \<and> out u' = out (sd_uart s)
      | (Some b, u') \<Rightarrow> inp (sd_uart s) = b # inp u' \<and> out u' = out (sd_uart s)" using U u unfolding uart_ok_def by metis
  then have "c = None" "inp u = []" "out u = out (sd_uart s)" using Nil.hyps by (auto split: option.splits)
  moreover have "serial_queue_free (sd_rx s) = 0 \<longleftrightarrow> length (serial_items (sd_rx s)) = unat (sq_capacity (sd_rx s))"
    using len(2,3) by (metis diff_is_0_eq le_antisym order_refl unat_eq_zero)
  ultimately show ?case
    using Nil u by (auto simp: drain_rx_loop.simps [of U t s] sd_frame_def)
next
  case (Cons b bs)
  note len = serial_lengths [OF Cons.prems]
  have full: "serial_queue_free (sd_rx s) = 0 \<longleftrightarrow> length (serial_items (sd_rx s)) = unat (sq_capacity (sd_rx s))"
    using len(2,3) by (metis diff_is_0_eq le_antisym order_refl unat_eq_zero)
  show ?case
  proof (cases "serial_queue_free (sd_rx s) = 0")
    case True
    then show ?thesis using full Cons by (auto simp: drain_rx_loop.simps [of U t s] sd_frame_def)
  next
    case False
    obtain c u where cu: "uart_read U (sd_uart s) = (c, u)" by fastforce
    have "case (c, u) of (None, u') \<Rightarrow> inp (sd_uart s) = [] \<and> inp u' = [] \<and> out u' = out (sd_uart s)
        | (Some b, u') \<Rightarrow> inp (sd_uart s) = b # inp u' \<and> out u' = out (sd_uart s)" using U cu unfolding uart_ok_def by metis
    then have u: "c = Some b" "inp u = bs" "out u = out (sd_uart s)" using Cons.hyps(2) [symmetric] by (auto split: option.splits)
    obtain h where h: "serial_enqueue (sd_rx s) b = (0, h)" "serial_ready h" "serial_items h = serial_items (sd_rx s) @ [b]" "same_side (sd_rx s) h"
      using serial_enqueue_ready [OF Cons.prems, of b] full False len(3) by fastforce
    let ?s = "s\<lparr>sd_uart := u, sd_rx := h\<rparr>"
    obtain e b' s' where s': "drain_rx_loop U True ?s = Some (e, b', s')" "serial_ready (sd_rx s')" "e"
      "serial_items (sd_rx s) @ b # bs = serial_items (sd_rx s') @ inp (sd_uart s')"
      "if b' then serial_require_consumer_signal (sd_rx s') \<and> length (serial_items (sd_rx s')) = unat (sq_capacity (sd_rx s')) else inp (sd_uart s') = []"
      "length (inp (sd_uart s')) \<le> length bs" "out (sd_uart s') = out (sd_uart s)"
      "sq_capacity (sd_rx s') = sq_capacity (sd_rx s)" "sd_tx s' = sd_tx s" "sd_notes s' = sd_notes s" "sd_frame s s'"
      using Cons.hyps(1) [of ?s True] u h by (auto simp: sd_frame_def same_side_def)
    have "inp (sd_uart s') \<noteq> b # bs" using s'(6) by auto
    then show ?thesis
      using s' cu u(1) h(1) False Cons.hyps(2) [symmetric]
      by (intro exI [of _ e] exI [of _ b'] exI [of _ s']) (simp add: drain_rx_loop.simps [of U t s])
  qed
qed

text \<open>How a step of the driver treats its two queues.\<close>

definition driver_step :: "('u \<Rightarrow> u8 list) \<Rightarrow> ('u \<Rightarrow> u8 list) \<Rightarrow> 'u serial_driver \<Rightarrow> 'u serial_driver \<Rightarrow> bool" where
  "driver_step inp out s s' \<longleftrightarrow> serial_ready (sd_tx s') \<and> serial_ready (sd_rx s') \<and> sd_frame s s'
     \<and> sq_capacity (sd_tx s') = sq_capacity (sd_tx s) \<and> sq_capacity (sd_rx s') = sq_capacity (sd_rx s)
     \<and> out (sd_uart s') @ serial_items (sd_tx s') = out (sd_uart s) @ serial_items (sd_tx s)
     \<and> serial_items (sd_rx s') @ inp (sd_uart s') = serial_items (sd_rx s) @ inp (sd_uart s)
     \<and> (\<exists>n. sd_notes s' = sd_notes s @ n)
     \<and> (sd_tx s' = sd_tx s \<or> serial_items (sd_tx s) \<noteq> [] \<and> serial_items (sd_tx s') = []
          \<and> (serial_require_consumer_signal (sd_tx s) \<longrightarrow> sd_tx_ch s \<in> set (sd_notes s')))
     \<and> (inp (sd_uart s') \<noteq> inp (sd_uart s) \<longrightarrow> sd_rx_ch s \<in> set (sd_notes s'))"

lemma driver_step_refl: "serial_ready (sd_tx s) \<Longrightarrow> serial_ready (sd_rx s) \<Longrightarrow> driver_step inp out s s"
  by (simp add: driver_step_def sd_frame_def)

lemma driver_step_trans: "driver_step inp out s s' \<Longrightarrow> driver_step inp out s' s'' \<Longrightarrow> driver_step inp out s s''"
  unfolding driver_step_def sd_frame_def by auto

lemma drain_tx_step:
  assumes "uart_ok U inp out" and "serial_ready (sd_tx s)" and "serial_ready (sd_rx s)"
  shows "\<exists>s'. drain_tx U s = Some s' \<and> driver_step inp out s s' \<and> serial_items (sd_tx s') = []"
proof -
  obtain s' where s': "drain_tx U s = Some s'" "serial_ready (sd_tx s')" "serial_items (sd_tx s') = []"
    "sq_capacity (sd_tx s') = sq_capacity (sd_tx s)" "out (sd_uart s') = out (sd_uart s) @ serial_items (sd_tx s)"
    "inp (sd_uart s') = inp (sd_uart s)" "sd_rx s' = sd_rx s" "sd_frame s s'"
    "sd_notes s' = sd_notes s @ (if serial_items (sd_tx s) \<noteq> [] \<and> serial_require_consumer_signal (sd_tx s) then [sd_tx_ch s] else [])"
    using drain_tx_sends [OF assms(1,2)] by blast
  have "sd_tx s' = sd_tx s" if "serial_items (sd_tx s) = []"
    using s'(1) that by (auto simp: drain_tx_def drain_tx_loop.simps [of U False s] serial_dequeue_none)
  then have "driver_step inp out s s'" using s' assms(3) unfolding driver_step_def by (auto split: if_splits)
  then show ?thesis using s'(1,3) by blast
qed

lemma drain_rx_step:
  assumes "uart_ok U inp out" and "serial_ready (sd_tx s)" and "serial_ready (sd_rx s)"
  shows "\<exists>s'. drain_rx U s = Some s' \<and> driver_step inp out s s' \<and> sd_tx s' = sd_tx s"
proof (cases "sd_rx_enabled s")
  case True
  then show ?thesis
    using drain_rx_loop_receives [OF assms(1,3), of False] assms(2)
    by (auto simp: drain_rx_def driver_step_def sd_notify_def sd_frame_def Let_def split: if_splits)
next
  case False
  then show ?thesis using driver_step_refl [OF assms(2,3)] by (simp add: drain_rx_def)
qed

lemma interrupt_step:
  "uart_ok U inp out \<Longrightarrow> serial_ready (sd_tx s) \<Longrightarrow> serial_ready (sd_rx s) \<Longrightarrow>
    driver_step inp out s (s\<lparr>sd_uart := uart_handle_interrupt U (sd_uart s)\<rparr>)"
  by (simp add: uart_ok_def driver_step_def sd_frame_def)

lemma driver_step_ready: "driver_step inp out s s' \<Longrightarrow> serial_ready (sd_tx s') \<and> serial_ready (sd_rx s')"
  by (simp add: driver_step_def)

lemma driver_step_ack: "driver_step inp out s s' \<Longrightarrow> driver_step inp out s (s'\<lparr>sd_acks := n\<rparr>)"
  by (simp add: driver_step_def sd_frame_def)

lemma driver_interrupted:
  assumes U: "uart_ok U inp out" and r: "serial_ready (sd_tx s)" "serial_ready (sd_rx s)"
  shows "\<exists>s'. do {
          s \<leftarrow> drain_rx U s;
          s \<leftarrow> drain_tx U s;
          s \<leftarrow> Some (s\<lparr>sd_uart := uart_handle_interrupt U (sd_uart s)\<rparr>);
          s \<leftarrow> drain_rx U s;
          s \<leftarrow> drain_tx U s;
          Some (s\<lparr>sd_acks := sd_acks s + 1\<rparr>)
        } = Some s' \<and> driver_step inp out s s' \<and> serial_items (sd_tx s') = []"
proof -
  obtain s1 where s1: "drain_rx U s = Some s1" "driver_step inp out s s1" using drain_rx_step [OF U r] by blast
  obtain s2 where s2: "drain_tx U s1 = Some s2" "driver_step inp out s1 s2"
    using drain_tx_step [OF U, of s1] driver_step_ready [OF s1(2)] by blast
  let ?s3 = "s2\<lparr>sd_uart := uart_handle_interrupt U (sd_uart s2)\<rparr>"
  have s3: "driver_step inp out s2 ?s3" using interrupt_step [OF U] driver_step_ready [OF s2(2)] by blast
  obtain s4 where s4: "drain_rx U ?s3 = Some s4" "driver_step inp out ?s3 s4"
    using drain_rx_step [OF U, of ?s3] driver_step_ready [OF s3] by blast
  obtain s5 where s5: "drain_tx U s4 = Some s5" "driver_step inp out s4 s5" "serial_items (sd_tx s5) = []"
    using drain_tx_step [OF U, of s4] driver_step_ready [OF s4(2)] by blast
  have "driver_step inp out s s5"
    using driver_step_trans [OF driver_step_trans [OF driver_step_trans [OF s1(2) s2(2)] s3] driver_step_trans [OF s4(2) s5(2)]] .
  then show ?thesis using s1(1) s2(1) s4(1) s5 driver_step_ack by simp
qed

lemma serial_driver_runs:
  assumes U: "uart_ok U inp out" and r: "serial_ready (sd_tx s)" "serial_ready (sd_rx s)"
  shows "\<exists>s'. serial_driver_notified U chs s = Some s' \<and> driver_step inp out s s' \<and>
    (sd_irq s \<in> chs \<or> sd_tx_ch s \<in> chs \<longrightarrow> serial_items (sd_tx s') = [])"
proof -
  obtain s1 where s1: "(if sd_irq s \<in> chs then do {
          s \<leftarrow> drain_rx U s;
          s \<leftarrow> drain_tx U s;
          s \<leftarrow> Some (s\<lparr>sd_uart := uart_handle_interrupt U (sd_uart s)\<rparr>);
          s \<leftarrow> drain_rx U s;
          s \<leftarrow> drain_tx U s;
          Some (s\<lparr>sd_acks := sd_acks s + 1\<rparr>)
        } else Some s) = Some s1" "driver_step inp out s s1" "sd_irq s \<in> chs \<longrightarrow> serial_items (sd_tx s1) = []"
    using driver_interrupted [OF U r] driver_step_refl [OF r] by (cases "sd_irq s \<in> chs") auto
  have ch: "sd_tx_ch s1 = sd_tx_ch s" using s1(2) by (simp add: driver_step_def sd_frame_def)
  obtain s2 where s2: "(if sd_tx_ch s1 \<in> chs then drain_tx U s1 else Some s1) = Some s2" "driver_step inp out s1 s2"
    "sd_tx_ch s \<in> chs \<longrightarrow> serial_items (sd_tx s2) = []" "serial_items (sd_tx s1) = [] \<longrightarrow> serial_items (sd_tx s2) = []"
    using drain_tx_step [OF U, of s1] driver_step_ready [OF s1(2)] driver_step_refl ch by (cases "sd_tx_ch s1 \<in> chs") auto
  obtain s3 where s3: "(if sd_rx_ch s2 \<in> chs then drain_rx U s2 else Some s2) = Some s3" "driver_step inp out s2 s3" "sd_tx s3 = sd_tx s2"
    using drain_rx_step [OF U, of s2] driver_step_ready [OF s2(2)] driver_step_refl by (cases "sd_rx_ch s2 \<in> chs") auto
  have "serial_driver_notified U chs s = Some s3" unfolding serial_driver_notified_def s1(1) using s2(1) s3(1) by simp
  then show ?thesis
    using driver_step_trans [OF driver_step_trans [OF s1(2) s2(2)] s3(2)] s1(3) s2(3,4) s3(3) by auto
qed

end
