(* ===== verification/SerialVirtTx.thy ===== *)
theory SerialVirtTx
  imports SerialDriver
begin

text \<open>
  The transmit virtualiser \<open>pds/sddf-serial-virt-tx\<close>: it moves the bytes of up to 64 clients into
  the queue of the driver. A client's bytes move all at once or not at all; a client whose bytes do not
  fit is marked and moved when the driver has made room. \<open>None\<close> is a failed assertion,
  \<open>tx_notes\<close> the list of the channels that were notified. A handler runs here without
  interference; theory \<open>SerialPath\<close> puts the domains together.
\<close>

record serial_virt_tx_client_config_t =
  stcc_conn :: serial_connection_resource_t
  stcc_name :: "u8 list"

record serial_virt_tx_config_t =
  stc_magic :: "u8 list"
  stc_driver :: serial_connection_resource_t
  stc_clients :: "serial_virt_tx_client_config_t list"
  stc_num_clients :: u8
  stc_begin_str :: "u8 list"
  stc_enable_colour :: bool
  stc_enable_rx :: bool

record serial_virt_tx =
  tx_driver :: serial_queue_handle_t
  tx_driver_ch :: nat
  tx_clients :: "serial_queue_handle_t list"
  tx_client_ch :: "nat list"
  tx_pending :: "bool list"
  tx_num_clients :: nat
  tx_notes :: "nat list"

definition client_handles :: "serial_virt_tx_config_t \<Rightarrow> nat \<Rightarrow> serial_queue_handle_t list \<times> nat list" where
  "client_handles config num_clients =
     fold (\<lambda>i (clients, client_ch).
         let conn = stcc_conn (stc_clients config ! i)
         in (clients[i := serial_handle_of conn], client_ch[i := unat (sc_id conn)]))
       [0..<num_clients]
       (replicate SDDF_SERIAL_MAX_CLIENTS empty_handle, replicate SDDF_SERIAL_MAX_CLIENTS 0)"

fun enqueue_all :: "u8 list \<Rightarrow> serial_queue_handle_t \<Rightarrow> serial_queue_handle_t option" where
  "enqueue_all [] h = Some h"
| "enqueue_all (b # bs) h = (case serial_enqueue h b of (status, h) \<Rightarrow> if status \<noteq> 0 then None else enqueue_all bs h)"

text \<open>The queue after the begin string, and whether the driver is notified.\<close>

definition publish_begin :: "serial_virt_tx_config_t \<Rightarrow> serial_queue_handle_t \<Rightarrow> (bool \<times> serial_queue_handle_t) option" where
  "publish_begin config driver =
     (if stc_enable_rx config then
        let begin_str = takeWhile (\<lambda>b. b \<noteq> 0) (stc_begin_str config)
        in map_option (\<lambda>driver. (begin_str \<noteq> [], driver)) (enqueue_all begin_str driver)
      else Some (False, driver))"

definition serial_virt_tx_init :: "serial_virt_tx_config_t \<Rightarrow> serial_virt_tx option" where
  "serial_virt_tx_init config =
     (if stc_magic config \<noteq> SDDF_SERIAL_MAGIC \<or> stc_enable_colour config then None
      else
        let num_clients = unat (stc_num_clients config)
        in if \<not> (num_clients \<ge> 1 \<and> num_clients \<le> SDDF_SERIAL_MAX_CLIENTS) then None
           else
             let driver = serial_handle_of (stc_driver config); driver_ch = unat (sc_id (stc_driver config));
               (clients, client_ch) = client_handles config num_clients
             in case publish_begin config driver of
                  None \<Rightarrow> None
                | Some (noted, driver) \<Rightarrow>
                    Some \<lparr>tx_driver = driver, tx_driver_ch = driver_ch, tx_clients = clients, tx_client_ch = client_ch,
                      tx_pending = replicate SDDF_SERIAL_MAX_CLIENTS False, tx_num_clients = num_clients,
                      tx_notes = (if noted then [driver_ch] else [])\<rparr>)"

definition tx_notify :: "nat \<Rightarrow> serial_virt_tx \<Rightarrow> serial_virt_tx" where
  "tx_notify ch s = s\<lparr>tx_notes := tx_notes s @ [ch]\<rparr>"

text \<open>\<open>for _ in 0..length\<close>\<close>

fun move_bytes :: "nat \<Rightarrow> nat \<Rightarrow> serial_virt_tx \<Rightarrow> serial_virt_tx option" where
  "move_bytes 0 client s = Some s"
| "move_bytes (Suc n) client s =
     (case serial_dequeue (tx_clients s ! client) 0 of (got, byte, h) \<Rightarrow>
        if got \<noteq> 0 then None
        else case serial_enqueue (tx_driver s) byte of (put, d) \<Rightarrow>
          if put \<noteq> 0 then None
          else move_bytes n client (s\<lparr>tx_clients := (tx_clients s)[client := h], tx_driver := d\<rparr>))"

definition move_client :: "nat \<Rightarrow> serial_virt_tx \<Rightarrow> (bool \<times> serial_virt_tx) option" where
  "move_client client s =
     (let length = serial_queue_length_consumer (tx_clients s ! client)
      in if length = 0 then Some (False, s)
         else
           let s = (if length > serial_queue_free (tx_driver s)
             then s\<lparr>tx_driver := serial_request_consumer_signal (tx_driver s)\<rparr> else s)
           in if length > serial_queue_free (tx_driver s)
              then Some (False, s\<lparr>tx_pending := (tx_pending s)[client := True]\<rparr>)
              else map_option (\<lambda>s. (True, s)) (move_bytes (unat length) client s))"

definition wake_client :: "nat \<Rightarrow> serial_virt_tx \<Rightarrow> serial_virt_tx" where
  "wake_client client s =
     (if serial_require_consumer_signal (tx_clients s ! client)
      then tx_notify (tx_client_ch s ! client)
        (s\<lparr>tx_clients := (tx_clients s)[client := serial_cancel_consumer_signal (tx_clients s ! client)]\<rparr>)
      else s)"

definition tx_provide :: "nat \<Rightarrow> serial_virt_tx \<Rightarrow> serial_virt_tx option" where
  "tx_provide client s =
     (case move_client client s of
        None \<Rightarrow> None
      | Some (moved, s) \<Rightarrow> Some (if moved then wake_client client (tx_notify (tx_driver_ch s) s) else s))"

text \<open>The first loop of \<open>resume_pending\<close> with the set of the clients it moved, then the second.\<close>

fun resume_moves :: "nat list \<Rightarrow> serial_virt_tx \<Rightarrow> (nat list \<times> serial_virt_tx) option" where
  "resume_moves [] s = Some ([], s)"
| "resume_moves (client # cs) s =
     (if \<not> tx_pending s ! client then resume_moves cs s
      else case move_client client (s\<lparr>tx_pending := (tx_pending s)[client := False]\<rparr>) of
             None \<Rightarrow> None
           | Some (m, s) \<Rightarrow>
               map_option (\<lambda>(moved, s). (if m then client # moved else moved, s)) (resume_moves cs s))"

definition resume_pending :: "serial_virt_tx \<Rightarrow> serial_virt_tx option" where
  "resume_pending s =
     (case resume_moves [0..<tx_num_clients s] s of
        None \<Rightarrow> None
      | Some (moved, s) \<Rightarrow>
          Some (fold wake_client moved (if moved \<noteq> [] then tx_notify (tx_driver_ch s) s else s)))"

fun provide_clients :: "nat set \<Rightarrow> nat list \<Rightarrow> serial_virt_tx \<Rightarrow> serial_virt_tx option" where
  "provide_clients channels [] s = Some s"
| "provide_clients channels (client # cs) s =
     (if tx_client_ch s ! client \<in> channels
      then (case tx_provide client s of None \<Rightarrow> None | Some s \<Rightarrow> provide_clients channels cs s)
      else provide_clients channels cs s)"

definition serial_virt_tx_notified :: "nat set \<Rightarrow> serial_virt_tx \<Rightarrow> serial_virt_tx option" where
  "serial_virt_tx_notified channels s =
     (case (if tx_driver_ch s \<in> channels then resume_pending s else Some s) of
        None \<Rightarrow> None
      | Some s \<Rightarrow> provide_clients channels [0..<tx_num_clients s] s)"

subsection \<open>Moving a client's bytes\<close>

abbreviation tx_items :: "serial_virt_tx \<Rightarrow> nat \<Rightarrow> u8 list" where
  "tx_items s i \<equiv> serial_items (tx_clients s ! i)"

definition tx_wf :: "serial_virt_tx \<Rightarrow> bool" where
  "tx_wf s \<longleftrightarrow> serial_ready (tx_driver s) \<and> tx_num_clients s \<le> length (tx_clients s) \<and> tx_num_clients s \<le> length (tx_pending s)
     \<and> (\<forall>i<tx_num_clients s. serial_ready (tx_clients s ! i) \<and> unat (sq_capacity (tx_clients s ! i)) \<le> unat (sq_capacity (tx_driver s)))"

lemma move_bytes_ok:
  assumes "serial_ready (tx_driver s)" and "serial_ready (tx_clients s ! c)" and "c < length (tx_clients s)"
    and "tx_items s c = bs @ cs" and "length (serial_items (tx_driver s)) + length bs \<le> unat (sq_capacity (tx_driver s))"
  shows "\<exists>h d. move_bytes (length bs) c s = Some (s\<lparr>tx_clients := (tx_clients s)[c := h], tx_driver := d\<rparr>) \<and>
    serial_ready h \<and> serial_items h = cs \<and> same_side (tx_clients s ! c) h \<and>
    serial_ready d \<and> serial_items d = serial_items (tx_driver s) @ bs \<and> same_side (tx_driver s) d"
  using assms
proof (induction bs arbitrary: s)
  case Nil
  then show ?case
    by (intro exI [of _ "tx_clients s ! c"] exI [of _ "tx_driver s"]) (simp add: same_side_def)
next
  case (Cons b bs)
  obtain h where h: "serial_dequeue (tx_clients s ! c) 0 = (0, b, h)" "serial_ready h" "serial_items h = bs @ cs" "same_side (tx_clients s ! c) h"
    using serial_dequeue_ready [OF Cons.prems(2), of b "bs @ cs"] Cons.prems(4) by auto
  obtain d where d: "serial_enqueue (tx_driver s) b = (0, d)" "serial_ready d" "serial_items d = serial_items (tx_driver s) @ [b]"
      "same_side (tx_driver s) d"
    using serial_enqueue_ready [OF Cons.prems(1), of b] Cons.prems(5) by auto
  let ?s = "s\<lparr>tx_clients := (tx_clients s)[c := h], tx_driver := d\<rparr>"
  obtain h' d' where "move_bytes (length bs) c ?s = Some (?s\<lparr>tx_clients := (tx_clients ?s)[c := h'], tx_driver := d'\<rparr>)"
    "serial_ready h'" "serial_items h' = cs" "same_side h h'" "serial_ready d'" "serial_items d' = serial_items d @ bs" "same_side d d'"
    using Cons.IH [of ?s] Cons.prems(3,5) h d by (auto simp: same_side_def)
  then show ?case
    using h d by (intro exI [of _ h'] exI [of _ d']) (simp add: same_side_def)
qed

lemma move_client_ok:
  assumes wf: "tx_wf s" and c: "c < tx_num_clients s"
  shows "(tx_items s c = [] \<and> move_client c s = Some (False, s)) \<or>
    (tx_items s c \<noteq> [] \<and> serial_items (tx_driver s) \<noteq> [] \<and> move_client c s = Some (False,
       s\<lparr>tx_driver := serial_request_consumer_signal (tx_driver s), tx_pending := (tx_pending s)[c := True]\<rparr>)) \<or>
    (tx_items s c \<noteq> [] \<and> (\<exists>h d. move_client c s = Some (True, s\<lparr>tx_clients := (tx_clients s)[c := h], tx_driver := d\<rparr>) \<and>
       serial_ready h \<and> serial_items h = [] \<and> same_side (tx_clients s ! c) h \<and>
       serial_ready d \<and> serial_items d = serial_items (tx_driver s) @ tx_items s c \<and> same_side (tx_driver s) d))"
proof -
  have r: "serial_ready (tx_driver s)" "serial_ready (tx_clients s ! c)" "c < length (tx_clients s)"
    "unat (sq_capacity (tx_clients s ! c)) \<le> unat (sq_capacity (tx_driver s))" using assms by (auto simp: tx_wf_def)
  let ?n = "serial_queue_length_consumer (tx_clients s ! c)"
  note ln = serial_lengths [OF r(2)] and ld = serial_lengths [OF r(1)]
  have z: "?n = 0 \<longleftrightarrow> tx_items s c = []" using ln(1) by (metis length_0_conv unat_eq_zero)
  have g: "?n > serial_queue_free (tx_driver s) \<longleftrightarrow> unat (sq_capacity (tx_driver s)) - length (serial_items (tx_driver s)) < length (tx_items s c)"
    by (simp add: word_less_nat_alt ln(1) ld(2))
  consider "tx_items s c = []" | "tx_items s c \<noteq> []" "?n > serial_queue_free (tx_driver s)" | "tx_items s c \<noteq> []" "\<not> ?n > serial_queue_free (tx_driver s)"
    by blast
  then show ?thesis
  proof cases
    case 2
    then have "serial_items (tx_driver s) \<noteq> []" using g r(4) ln(3) by auto
    then show ?thesis using 2 z by (simp add: move_client_def)
  next
    case 3
    have "length (serial_items (tx_driver s)) + length (tx_items s c) \<le> unat (sq_capacity (tx_driver s))" using 3(2) g ld(3) by linarith
    from move_bytes_ok [OF r(1-3) _ this, of "[]"] show ?thesis
      using 3 z ln(1) by (auto simp: move_client_def)
  qed (use z in \<open>simp add: move_client_def\<close>)
qed

subsection \<open>What a handler moves\<close>

text \<open>\<open>ms\<close> lists the bytes that moved, each with its client.\<close>

definition tx_moves :: "serial_virt_tx \<Rightarrow> serial_virt_tx \<Rightarrow> (nat \<times> u8) list \<Rightarrow> bool" where
  "tx_moves s s' ms \<longleftrightarrow> tx_wf s' \<and> tx_num_clients s' = tx_num_clients s \<and> tx_driver_ch s' = tx_driver_ch s
     \<and> tx_client_ch s' = tx_client_ch s \<and> sq_capacity (tx_driver s') = sq_capacity (tx_driver s)
     \<and> serial_items (tx_driver s') = serial_items (tx_driver s) @ map snd ms
     \<and> (\<forall>i<tx_num_clients s. of_client i ms @ tx_items s' i = tx_items s i) \<and> (\<forall>m\<in>set ms. fst m < tx_num_clients s)
     \<and> (\<exists>ns. tx_notes s' = tx_notes s @ ns)
     \<and> (serial_require_consumer_signal (tx_driver s) \<longrightarrow> serial_require_consumer_signal (tx_driver s'))"

lemma tx_moves_refl: "tx_wf s \<Longrightarrow> tx_moves s s []"
  by (simp add: tx_moves_def)

lemma tx_moves_trans:
  assumes "tx_moves s s' ms" and "tx_moves s' s'' ms'"
  shows "tx_moves s s'' (ms @ ms')"
proof -
  have "of_client i (ms @ ms') @ tx_items s'' i = tx_items s i" if "i < tx_num_clients s" for i
  proof -
    have "of_client i ms' @ tx_items s'' i = tx_items s' i" "of_client i ms @ tx_items s' i = tx_items s i"
      using assms that unfolding tx_moves_def by simp_all
    then show ?thesis by simp
  qed
  then show ?thesis using assms unfolding tx_moves_def by auto
qed

text \<open>Whether the clients outside \<open>rest\<close> that wait for the driver will be woken, and whether every
  client that has bytes waits for the driver or is in \<open>noted\<close>.\<close>

definition waits_ok :: "nat set \<Rightarrow> serial_virt_tx \<Rightarrow> bool" where
  "waits_ok rest s \<longleftrightarrow> (\<forall>i<tx_num_clients s. i \<notin> rest \<longrightarrow> tx_pending s ! i \<longrightarrow>
     serial_require_consumer_signal (tx_driver s) \<and> serial_items (tx_driver s) \<noteq> [])"

definition noticed :: "nat set \<Rightarrow> serial_virt_tx \<Rightarrow> bool" where
  "noticed noted s \<longleftrightarrow> (\<forall>i<tx_num_clients s. tx_items s i \<noteq> [] \<longrightarrow> tx_pending s ! i \<or> i \<in> noted)"

lemma waits_mono: "waits_ok A s \<Longrightarrow> A \<subseteq> B \<Longrightarrow> waits_ok B s"
  by (auto simp: waits_ok_def)

lemma noticed_mono: "noticed A s \<Longrightarrow> A \<subseteq> B \<Longrightarrow> noticed B s"
  by (auto simp: noticed_def)

lemma same_side_require: "same_side h h' \<Longrightarrow> serial_require_consumer_signal h' = serial_require_consumer_signal h"
  by (simp add: same_side_def serial_require_consumer_signal_def)

lemma move_client_moves:
  assumes wf: "tx_wf s" and c: "c < tx_num_clients s"
  shows "\<exists>m s' ms. move_client c s = Some (m, s') \<and> tx_moves s s' ms \<and> (m \<longleftrightarrow> ms \<noteq> []) \<and> tx_notes s' = tx_notes s \<and>
    (tx_items s' c \<noteq> [] \<longrightarrow> tx_pending s' ! c) \<and>
    (\<forall>i. i \<noteq> c \<longrightarrow> tx_pending s' ! i = tx_pending s ! i) \<and>
    (\<forall>A. waits_ok A s \<longrightarrow> waits_ok A s') \<and> (\<forall>A. \<not> tx_pending s ! c \<longrightarrow> waits_ok (insert c A) s \<longrightarrow> waits_ok A s')"
proof -
  have l: "c < length (tx_clients s)" "c < length (tx_pending s)" using assms by (auto simp: tx_wf_def)
  consider "move_client c s = Some (False, s)" "tx_items s c = []"
    | "serial_items (tx_driver s) \<noteq> []" "move_client c s = Some (False,
        s\<lparr>tx_driver := serial_request_consumer_signal (tx_driver s), tx_pending := (tx_pending s)[c := True]\<rparr>)"
    | h d where "tx_items s c \<noteq> []" "move_client c s = Some (True, s\<lparr>tx_clients := (tx_clients s)[c := h], tx_driver := d\<rparr>)"
       "serial_ready h" "serial_items h = []" "same_side (tx_clients s ! c) h"
       "serial_ready d" "serial_items d = serial_items (tx_driver s) @ tx_items s c" "same_side (tx_driver s) d"
    using move_client_ok [OF assms] by blast
  then show ?thesis
  proof cases
    case 1
    then show ?thesis using tx_moves_refl [OF wf] by (intro exI [of _ False] exI [of _ s] exI [of _ "[]"]) (auto simp: waits_ok_def)
  next
    case 2
    let ?s = "s\<lparr>tx_driver := serial_request_consumer_signal (tx_driver s), tx_pending := (tx_pending s)[c := True]\<rparr>"
    have "tx_moves s ?s []" using wf by (simp add: tx_moves_def tx_wf_def)
    moreover have "waits_ok A ?s" for A using 2(1) by (simp add: waits_ok_def)
    ultimately show ?thesis using 2 l by (intro exI [of _ False] exI [of _ ?s] exI [of _ "[]"]) simp
  next
    case 3
    let ?s = "s\<lparr>tx_clients := (tx_clients s)[c := h], tx_driver := d\<rparr>" and ?ms = "map (Pair c) (tx_items s c)"
    have "tx_wf ?s" using wf 3(3,5,6,8) l by (auto simp: tx_wf_def same_side_def nth_list_update)
    moreover have "of_client i ?ms @ tx_items ?s i = tx_items s i" for i
      using 3(4) l by (auto simp: of_client_tag nth_list_update)
    ultimately have "tx_moves s ?s ?ms"
      using 3(7,8) same_side_require [OF 3(8)] c by (auto simp: tx_moves_def same_side_def comp_def)
    moreover have "waits_ok A s \<longrightarrow> waits_ok A ?s" "\<not> tx_pending s ! c \<longrightarrow> waits_ok (insert c A) s \<longrightarrow> waits_ok A ?s" for A
      using 3(1,7) same_side_require [OF 3(8)] by (auto simp: waits_ok_def)
    ultimately show ?thesis using 3(1,2,4) l by (intro exI [of _ True] exI [of _ ?s] exI [of _ ?ms]) simp
  qed
qed

lemma move_noticed:
  assumes "tx_moves s s' ms" and "noticed (insert c N) s" and "tx_items s' c \<noteq> [] \<longrightarrow> tx_pending s' ! c"
    and "\<forall>i. i \<noteq> c \<longrightarrow> tx_pending s' ! i = tx_pending s ! i"
  shows "noticed N s'"
  unfolding noticed_def
proof (intro allI impI)
  fix i assume i: "i < tx_num_clients s'" "tx_items s' i \<noteq> []"
  have "of_client i ms @ tx_items s' i = tx_items s i" "i < tx_num_clients s" using assms(1) i(1) unfolding tx_moves_def by auto
  then have "tx_items s i \<noteq> []" using i(2) by auto
  then show "tx_pending s' ! i \<or> i \<in> N"
    using assms(2-4) i \<open>i < tx_num_clients s\<close> by (cases "i = c") (auto simp: noticed_def)
qed

lemma wake_client_moves:
  assumes "tx_wf s" and "c < tx_num_clients s"
  shows "tx_moves s (wake_client c s) []" "tx_pending (wake_client c s) = tx_pending s" "tx_driver (wake_client c s) = tx_driver s"
    "tx_items (wake_client c s) i = tx_items s i" "tx_num_clients (wake_client c s) = tx_num_clients s"
  using assms
  by (auto simp: wake_client_def tx_notify_def tx_moves_def tx_wf_def nth_list_update serial_cancel_consumer_signal_def
      serial_items_def serial_ready_def serial_handle_wf_def)

lemma wake_keeps:
  assumes "tx_wf s" and "c < tx_num_clients s"
  shows "waits_ok A (wake_client c s) = waits_ok A s" "noticed N (wake_client c s) = noticed N s"
  using wake_client_moves [OF assms] by (simp_all add: waits_ok_def noticed_def)

lemma notify_moves: "tx_wf s \<Longrightarrow> tx_moves s (tx_notify ch s) []"
  by (simp add: tx_moves_def tx_notify_def tx_wf_def)

lemma notify_keeps [simp]:
  "waits_ok A (tx_notify ch s) = waits_ok A s" "noticed N (tx_notify ch s) = noticed N s" "tx_num_clients (tx_notify ch s) = tx_num_clients s"
  "tx_wf (tx_notify ch s) = tx_wf s" "tx_driver_ch (tx_notify ch s) = tx_driver_ch s"
  by (simp_all add: waits_ok_def noticed_def tx_notify_def tx_wf_def)

lemma tx_moves_wf: "tx_moves s s' ms \<Longrightarrow> tx_wf s' \<and> tx_num_clients s' = tx_num_clients s \<and> tx_driver_ch s' = tx_driver_ch s
    \<and> tx_client_ch s' = tx_client_ch s \<and> set (tx_notes s) \<subseteq> set (tx_notes s')"
  by (auto simp: tx_moves_def)

definition handled :: "nat set \<Rightarrow> serial_virt_tx \<Rightarrow> serial_virt_tx \<Rightarrow> bool" where
  "handled N s s' \<longleftrightarrow> (\<exists>ms. tx_moves s s' ms \<and> (ms \<noteq> [] \<longrightarrow> tx_driver_ch s \<in> set (tx_notes s'))) \<and> waits_ok {} s' \<and> noticed N s'"

lemma handled_trans: "handled M s s' \<Longrightarrow> handled N s' s'' \<Longrightarrow> handled N s s''"
  unfolding handled_def using tx_moves_trans tx_moves_wf by (metis append_Nil append_Nil2 subsetD)

lemma tx_provide_ok:
  assumes wf: "tx_wf s" and c: "c < tx_num_clients s" and w: "waits_ok {} s" and n: "noticed (insert c N) s"
  shows "\<exists>s'. tx_provide c s = Some s' \<and> handled N s s'"
proof -
  obtain m s1 ms where m: "move_client c s = Some (m, s1)" "tx_moves s s1 ms" "m \<longleftrightarrow> ms \<noteq> []"
    "tx_items s1 c \<noteq> [] \<longrightarrow> tx_pending s1 ! c" "\<forall>i. i \<noteq> c \<longrightarrow> tx_pending s1 ! i = tx_pending s ! i" "waits_ok {} s1"
    using move_client_moves [OF wf c] w by blast
  have n1: "noticed N s1" using move_noticed [OF m(2) n m(4,5)] .
  show ?thesis
  proof (cases m)
    case True
    let ?s = "tx_notify (tx_driver_ch s1) s1"
    have s1: "tx_wf ?s" "c < tx_num_clients ?s" "tx_driver_ch s1 = tx_driver_ch s" using tx_moves_wf [OF m(2)] c by simp_all
    have mv: "tx_moves s (wake_client c ?s) ms"
      using tx_moves_trans [OF tx_moves_trans [OF m(2) notify_moves] wake_client_moves(1) [OF s1(1,2)]] tx_moves_wf [OF m(2)] by simp
    have "tx_driver_ch s \<in> set (tx_notes (wake_client c ?s))"
      using tx_moves_wf [OF wake_client_moves(1) [OF s1(1,2)]] s1(3) by (auto simp: tx_notify_def)
    then have "handled N s (wake_client c ?s)" using mv wake_keeps [OF s1(1,2)] m(6) n1 unfolding handled_def by auto
    then show ?thesis using True m(1) by (simp add: tx_provide_def)
  next
    case False
    then have "handled N s s1" using m(2,3,6) n1 unfolding handled_def by auto
    then show ?thesis using False m(1) by (simp add: tx_provide_def)
  qed
qed

lemma resume_moves_ok:
  assumes "tx_wf s" and "\<forall>c\<in>set cs. c < tx_num_clients s" and "waits_ok (set cs) s" and "noticed N s"
  shows "\<exists>moved s' ms. resume_moves cs s = Some (moved, s') \<and> tx_moves s s' ms \<and> (moved \<noteq> [] \<longleftrightarrow> ms \<noteq> []) \<and> set moved \<subseteq> set cs \<and>
    waits_ok {} s' \<and> noticed N s'"
  using assms
proof (induction cs arbitrary: s)
  case Nil
  then show ?case using tx_moves_refl by (intro exI [of _ "[]"] exI [of _ s]) simp
next
  case (Cons c cs)
  show ?case
  proof (cases "tx_pending s ! c")
    case False
    then have "waits_ok (set cs) s" using Cons.prems(3) by (auto simp: waits_ok_def)
    then obtain moved s' ms where "resume_moves cs s = Some (moved, s')" "tx_moves s s' ms" "moved \<noteq> [] \<longleftrightarrow> ms \<noteq> []"
      "set moved \<subseteq> set cs" "waits_ok {} s'" "noticed N s'" using Cons.IH [of s] Cons.prems by auto
    then show ?thesis using False by (intro exI [of _ moved] exI [of _ s'] exI [of _ ms]) auto
  next
    case True
    let ?s = "s\<lparr>tx_pending := (tx_pending s)[c := False]\<rparr>"
    have l: "c < tx_num_clients s" "c < length (tx_pending s)" using Cons.prems(1,2) by (auto simp: tx_wf_def)
    have s: "tx_wf ?s" "tx_moves s ?s []" using Cons.prems(1) by (simp_all add: tx_wf_def tx_moves_def)
    have n: "tx_num_clients ?s = tx_num_clients s" by simp
    have w: "waits_ok (insert c (set cs)) ?s" "noticed (insert c N) ?s" "\<not> tx_pending ?s ! c"
      using Cons.prems(3,4) l by (auto simp: waits_ok_def noticed_def nth_list_update)
    obtain m s1 ms where m: "move_client c ?s = Some (m, s1)" "tx_moves ?s s1 ms" "m \<longleftrightarrow> ms \<noteq> []"
      "tx_items s1 c \<noteq> [] \<longrightarrow> tx_pending s1 ! c" "\<forall>i. i \<noteq> c \<longrightarrow> tx_pending s1 ! i = tx_pending ?s ! i" "waits_ok (set cs) s1"
      using move_client_moves [OF s(1), of c, unfolded n] l(1) w(1,3) by blast
    have n1: "noticed N s1" using move_noticed [OF m(2) w(2) m(4,5)] .
    have "tx_wf s1" "\<forall>c\<in>set cs. c < tx_num_clients s1" using tx_moves_wf [OF m(2)] Cons.prems(2) by auto
    then obtain moved s' ms' where r: "resume_moves cs s1 = Some (moved, s')" "tx_moves s1 s' ms'" "moved \<noteq> [] \<longleftrightarrow> ms' \<noteq> []"
      "set moved \<subseteq> set cs" "waits_ok {} s'" "noticed N s'" using Cons.IH [of s1] m(6) n1 by blast
    have "tx_moves s s' (ms @ ms')" using tx_moves_trans [OF tx_moves_trans [OF s(2) m(2)] r(2)] by simp
    then show ?thesis
      using True m(1,3) r by (intro exI [of _ "if m then c # moved else moved"] exI [of _ s'] exI [of _ "ms @ ms'"]) auto
  qed
qed

lemma wake_all:
  assumes "tx_wf s" and "\<forall>c\<in>set cs. c < tx_num_clients s" and "waits_ok {} s" and "noticed N s"
  shows "tx_moves s (fold wake_client cs s) [] \<and> waits_ok {} (fold wake_client cs s) \<and> noticed N (fold wake_client cs s)"
  using assms
proof (induction cs arbitrary: s)
  case (Cons c cs)
  have c: "c < tx_num_clients s" using Cons.prems(2) by simp
  have "tx_wf (wake_client c s)" using tx_moves_wf [OF wake_client_moves(1) [OF Cons.prems(1) c]] by simp
  then show ?case
    using Cons.IH [of "wake_client c s"] Cons.prems wake_keeps [OF Cons.prems(1) c] wake_client_moves(5) [OF Cons.prems(1) c]
      tx_moves_trans [OF wake_client_moves(1) [OF Cons.prems(1) c]] by fastforce
qed (simp add: tx_moves_refl)

lemma resume_pending_ok:
  assumes "tx_wf s" and "noticed N s"
  shows "\<exists>s'. resume_pending s = Some s' \<and> handled N s s'"
proof -
  have "waits_ok (set [0..<tx_num_clients s]) s" by (simp add: waits_ok_def)
  then obtain moved s1 ms where r: "resume_moves [0..<tx_num_clients s] s = Some (moved, s1)" "tx_moves s s1 ms"
    "moved \<noteq> [] \<longleftrightarrow> ms \<noteq> []" "set moved \<subseteq> set [0..<tx_num_clients s]" "waits_ok {} s1" "noticed N s1"
    using resume_moves_ok [OF assms(1) _ _ assms(2), of "[0..<tx_num_clients s]"] by auto
  let ?s = "if moved \<noteq> [] then tx_notify (tx_driver_ch s1) s1 else s1"
  have s1: "tx_wf s1" "tx_num_clients s1 = tx_num_clients s" "tx_driver_ch s1 = tx_driver_ch s" using tx_moves_wf [OF r(2)] by simp_all
  have st: "tx_moves s ?s ms" using tx_moves_trans [OF r(2) notify_moves [OF s1(1)]] r(2) by simp
  have lt: "\<forall>c\<in>set moved. c < tx_num_clients s" using r(4) by auto
  have w: "tx_moves ?s (fold wake_client moved ?s) []" "waits_ok {} (fold wake_client moved ?s)" "noticed N (fold wake_client moved ?s)"
    using wake_all [of ?s moved N] r(4-6) s1 lt by auto
  have "tx_driver_ch s \<in> set (tx_notes (fold wake_client moved ?s))" if "ms \<noteq> []"
    using tx_moves_wf [OF w(1)] that r(3) s1(3) by (auto simp: tx_notify_def)
  then have "handled N s (fold wake_client moved ?s)"
    unfolding handled_def using tx_moves_trans [OF st w(1)] w(2,3) by (intro conjI exI [of _ ms]) auto
  then show ?thesis by (simp add: resume_pending_def r(1))
qed

lemma provide_clients_ok:
  assumes "tx_wf s" and "\<forall>c\<in>set cs. c < tx_num_clients s" and "waits_ok {} s"
    and "noticed (N \<union> {c \<in> set cs. tx_client_ch s ! c \<in> chs}) s"
  shows "\<exists>s'. provide_clients chs cs s = Some s' \<and> handled N s s'"
  using assms
proof (induction cs arbitrary: s)
  case Nil
  then have "handled N s s" using tx_moves_refl unfolding handled_def by auto
  then show ?case by simp
next
  case (Cons c cs)
  show ?case
  proof (cases "tx_client_ch s ! c \<in> chs")
    case True
    let ?N = "N \<union> {c \<in> set cs. tx_client_ch s ! c \<in> chs}"
    have "noticed (insert c ?N) s" using Cons.prems(4) by (rule noticed_mono) auto
    then obtain s1 where s1: "tx_provide c s = Some s1" "handled ?N s s1" using tx_provide_ok [of s c ?N] Cons.prems by auto
    then obtain ms where ms: "tx_moves s s1 ms" "waits_ok {} s1" "noticed ?N s1" unfolding handled_def by blast
    obtain s' where "provide_clients chs cs s1 = Some s'" "handled N s1 s'"
      using Cons.IH [of s1] tx_moves_wf [OF ms(1)] ms(2,3) Cons.prems(2) by auto
    then show ?thesis using True s1 handled_trans by auto
  next
    case False
    have "noticed (N \<union> {c \<in> set cs. tx_client_ch s ! c \<in> chs}) s" using Cons.prems(4) False by (auto simp: noticed_def)
    then show ?thesis using False Cons.IH [of s] Cons.prems by simp
  qed
qed

text \<open>The handler: \<open>noted\<close> are the clients with an outstanding notification; the driver's channel has to
  be in the set when a client waits that the driver would not wake any more.\<close>

lemma serial_virt_tx_runs:
  assumes wf: "tx_wf s" and w: "tx_driver_ch s \<notin> chs \<Longrightarrow> waits_ok {} s"
    and n: "noticed (N \<union> {c. tx_client_ch s ! c \<in> chs}) s"
  shows "\<exists>s'. serial_virt_tx_notified chs s = Some s' \<and> handled N s s'"
proof -
  let ?M = "N \<union> {c. tx_client_ch s ! c \<in> chs}"
  obtain s1 where s1: "(if tx_driver_ch s \<in> chs then resume_pending s else Some s) = Some s1" "handled ?M s s1"
    using resume_pending_ok [OF wf n] tx_moves_refl [OF wf] w n unfolding handled_def by (cases "tx_driver_ch s \<in> chs") auto
  then obtain ms where ms: "tx_moves s s1 ms" "waits_ok {} s1" "noticed ?M s1" unfolding handled_def by blast
  note f = tx_moves_wf [OF ms(1)]
  have "noticed (N \<union> {c \<in> set [0..<tx_num_clients s1]. tx_client_ch s1 ! c \<in> chs}) s1" using ms(3) f by (auto simp: noticed_def)
  then obtain s' where "provide_clients chs [0..<tx_num_clients s1] s1 = Some s'" "handled N s1 s'"
    using provide_clients_ok [of s1 "[0..<tx_num_clients s1]" N chs] f ms(2) by auto
  then show ?thesis using s1 handled_trans by (auto simp: serial_virt_tx_notified_def)
qed

end
