(* ===== verification/SerialPath.thy ===== *)
theory SerialPath
  imports SerialVirtTx
begin

text \<open>
  The transmit path of the serial line: clients, the transmit virtualiser and the driver with its UART.
  The driver's queue is shared memory, so a turn of one domain is seen by the other. The system keeps
  which notifications are outstanding: \<open>ts_noted\<close> are the clients whose notification the virtualiser
  has not seen, \<open>ts_to_virt\<close> and \<open>ts_to_driver\<close> the two directions between virtualiser and driver. A
  domain receives all its outstanding notifications at once. \<open>ts_sent\<close> records what each client wrote.
\<close>

record 'u tx_sys =
  ts_virt :: serial_virt_tx
  ts_drv :: "'u serial_driver"
  ts_sent :: "nat \<Rightarrow> u8 list"
  ts_noted :: "nat set"
  ts_to_virt :: bool
  ts_to_driver :: bool

definition client_writes :: "nat \<Rightarrow> u8 \<Rightarrow> 'u tx_sys \<Rightarrow> 'u tx_sys option" where
  "client_writes i b s =
     (if i < tx_num_clients (ts_virt s) then
        (case serial_enqueue (tx_clients (ts_virt s) ! i) b of (e, h) \<Rightarrow>
           if e \<noteq> 0 then None
           else Some (s\<lparr>ts_virt := (ts_virt s)\<lparr>tx_clients := (tx_clients (ts_virt s))[i := h]\<rparr>,
             ts_sent := (ts_sent s)(i := ts_sent s i @ [b]), ts_noted := insert i (ts_noted s)\<rparr>))
      else None)"

definition virt_turn :: "'u tx_sys \<Rightarrow> 'u tx_sys option" where
  "virt_turn s =
     (let v = ts_virt s;
        chs = (if ts_to_virt s then {tx_driver_ch v} else {}) \<union> (\<lambda>i. tx_client_ch v ! i) ` ts_noted s
      in case serial_virt_tx_notified chs (v\<lparr>tx_notes := []\<rparr>) of
           None \<Rightarrow> None
         | Some v' \<Rightarrow> Some (s\<lparr>ts_virt := v', ts_drv := (ts_drv s)\<lparr>sd_tx := tx_driver v'\<rparr>, ts_noted := {}, ts_to_virt := False,
             ts_to_driver := ts_to_driver s \<or> tx_driver_ch v \<in> set (tx_notes v')\<rparr>))"

definition driver_turn :: "'u uart \<Rightarrow> nat set \<Rightarrow> 'u tx_sys \<Rightarrow> 'u tx_sys option" where
  "driver_turn U chs s =
     (case serial_driver_notified U chs ((ts_drv s)\<lparr>sd_notes := []\<rparr>) of
        None \<Rightarrow> None
      | Some d \<Rightarrow> Some (s\<lparr>ts_drv := d, ts_virt := (ts_virt s)\<lparr>tx_driver := sd_tx d\<rparr>,
          ts_to_virt := ts_to_virt s \<or> sd_tx_ch (ts_drv s) \<in> set (sd_notes d),
          ts_to_driver := ts_to_driver s \<and> sd_tx_ch (ts_drv s) \<notin> chs\<rparr>))"

text \<open>The driver may also run for an interrupt or for the receive direction.\<close>

inductive tx_run :: "'u uart \<Rightarrow> 'u tx_sys \<Rightarrow> 'u tx_sys \<Rightarrow> bool" for U and s0 where
  start: "tx_run U s0 s0"
| client: "tx_run U s0 s \<Longrightarrow> client_writes i b s = Some s' \<Longrightarrow> tx_run U s0 s'"
| virt: "tx_run U s0 s \<Longrightarrow> virt_turn s = Some s' \<Longrightarrow> tx_run U s0 s'"
| driver: "tx_run U s0 s \<Longrightarrow> driver_turn U chs s = Some s' \<Longrightarrow> tx_run U s0 s'"

definition tx_start :: "'u tx_sys \<Rightarrow> bool" where
  "tx_start s \<longleftrightarrow> tx_wf (ts_virt s) \<and> serial_ready (sd_rx (ts_drv s)) \<and> tx_driver (ts_virt s) = sd_tx (ts_drv s)
     \<and> (\<forall>i<tx_num_clients (ts_virt s). tx_items (ts_virt s) i = [] \<and> \<not> tx_pending (ts_virt s) ! i \<and> ts_sent s i = [])
     \<and> (serial_items (sd_tx (ts_drv s)) \<noteq> [] \<longrightarrow> ts_to_driver s)"

text \<open>What the driver has sent and still has to send, in order.\<close>

definition line :: "('u \<Rightarrow> u8 list) \<Rightarrow> 'u tx_sys \<Rightarrow> u8 list" where
  "line out s = out (sd_uart (ts_drv s)) @ serial_items (sd_tx (ts_drv s))"

definition accounted :: "('u \<Rightarrow> u8 list) \<Rightarrow> 'u tx_sys \<Rightarrow> 'u tx_sys \<Rightarrow> bool" where
  "accounted out s0 s \<longleftrightarrow> (\<exists>ms. line out s = line out s0 @ map snd ms \<and> (\<forall>m\<in>set ms. fst m < tx_num_clients (ts_virt s))
     \<and> (\<forall>i<tx_num_clients (ts_virt s). of_client i ms @ tx_items (ts_virt s) i = ts_sent s i))"

definition tx_inv :: "('u \<Rightarrow> u8 list) \<Rightarrow> 'u tx_sys \<Rightarrow> 'u tx_sys \<Rightarrow> bool" where
  "tx_inv out s0 s \<longleftrightarrow> tx_wf (ts_virt s) \<and> serial_ready (sd_rx (ts_drv s)) \<and> tx_driver (ts_virt s) = sd_tx (ts_drv s)
     \<and> tx_num_clients (ts_virt s) = tx_num_clients (ts_virt s0)
     \<and> accounted out s0 s \<and> noticed (ts_noted s) (ts_virt s) \<and> (\<not> ts_to_virt s \<longrightarrow> waits_ok {} (ts_virt s))
     \<and> (serial_items (sd_tx (ts_drv s)) \<noteq> [] \<longrightarrow> ts_to_driver s)"

lemma tx_inv_start: "tx_start s \<Longrightarrow> tx_inv out s s"
  by (auto simp: tx_start_def tx_inv_def accounted_def noticed_def waits_ok_def intro!: exI [of _ "[]"])

lemma client_keeps:
  assumes I: "tx_inv out s0 s" and c: "client_writes i b s = Some s'"
  shows "tx_inv out s0 s'"
proof -
  let ?v = "ts_virt s"
  obtain h where h: "i < tx_num_clients ?v" "serial_enqueue (tx_clients ?v ! i) b = (0, h)"
    "s' = s\<lparr>ts_virt := ?v\<lparr>tx_clients := (tx_clients ?v)[i := h]\<rparr>, ts_sent := (ts_sent s)(i := ts_sent s i @ [b]), ts_noted := insert i (ts_noted s)\<rparr>"
    using c by (auto simp: client_writes_def split: prod.splits if_splits)
  have r: "serial_ready (tx_clients ?v ! i)" "i < length (tx_clients ?v)" using I h(1) by (auto simp: tx_inv_def tx_wf_def)
  have "length (serial_items (tx_clients ?v ! i)) < unat (sq_capacity (tx_clients ?v ! i))"
  proof (rule ccontr)
    assume "\<not> ?thesis"
    then have "unat (sq_tail (sq_queue (tx_clients ?v ! i)) - sq_head (sq_queue (tx_clients ?v ! i))) = unat (sq_capacity (tx_clients ?v ! i))"
      using serial_lengths(3) [OF r(1)] by (simp add: serial_items_def)
    then show False using h(2) by (simp add: serial_enqueue_def Let_def ring_simps unsigned_word_eqI)
  qed
  then have h': "serial_ready h" "serial_items h = tx_items ?v i @ [b]" "sq_capacity h = sq_capacity (tx_clients ?v ! i)"
    using serial_enqueue_ready [OF r(1), of b] h(2) by (auto simp: same_side_def)
  obtain ms where ms: "line out s = line out s0 @ map snd ms" "\<forall>m\<in>set ms. fst m < tx_num_clients ?v" "\<forall>j<tx_num_clients ?v. of_client j ms @ tx_items ?v j = ts_sent s j"
    using I unfolding tx_inv_def accounted_def by blast
  have "\<forall>j<tx_num_clients ?v. of_client j ms @ tx_items (ts_virt s') j = ts_sent s' j"
    using ms(3) r(2) h(3) h'(2) by (auto simp: nth_list_update simp flip: append_assoc)
  moreover have "tx_wf (ts_virt s')" using I h(3) h' r(2) by (auto simp: tx_inv_def tx_wf_def nth_list_update)
  moreover have "noticed (ts_noted s') (ts_virt s')" using I h(3) r(2) by (auto simp: tx_inv_def noticed_def nth_list_update)
  moreover have "waits_ok {} (ts_virt s') = waits_ok {} ?v" using h(3) by (simp add: waits_ok_def)
  moreover have "accounted out s0 s'"
    unfolding accounted_def using ms(1,2) calculation(1) h(3) by (intro exI [of _ ms]) (simp add: line_def)
  ultimately show ?thesis using I h(3) unfolding tx_inv_def by simp
qed

lemma virt_returns:
  assumes I: "tx_inv out s0 s"
  shows "\<exists>s' ms. virt_turn s = Some s' \<and> tx_inv out s0 s' \<and> line out s' = line out s @ map snd ms \<and> ts_sent s' = ts_sent s \<and>
    (\<forall>m\<in>set ms. fst m < tx_num_clients (ts_virt s)) \<and> (\<forall>i<tx_num_clients (ts_virt s). of_client i ms @ tx_items (ts_virt s') i = tx_items (ts_virt s) i) \<and>
    noticed {} (ts_virt s') \<and> waits_ok {} (ts_virt s') \<and> sd_tx_ch (ts_drv s') = sd_tx_ch (ts_drv s) \<and> sd_rx (ts_drv s') = sd_rx (ts_drv s)"
proof -
  let ?v = "ts_virt s"
  let ?chs = "(if ts_to_virt s then {tx_driver_ch ?v} else {}) \<union> (\<lambda>i. tx_client_ch ?v ! i) ` ts_noted s" and ?w = "?v\<lparr>tx_notes := []\<rparr>"
  have w: "tx_wf ?w" "tx_driver_ch ?w \<notin> ?chs \<Longrightarrow> waits_ok {} ?w" "noticed ({} \<union> {c. tx_client_ch ?w ! c \<in> ?chs}) ?w"
    using I by (auto simp: tx_inv_def tx_wf_def waits_ok_def noticed_def)
  obtain v' where v': "serial_virt_tx_notified ?chs ?w = Some v'" "handled {} ?w v'" using serial_virt_tx_runs [OF w] by blast
  then obtain ms where ms: "tx_moves ?w v' ms" "ms \<noteq> [] \<longrightarrow> tx_driver_ch ?v \<in> set (tx_notes v')" "waits_ok {} v'" "noticed {} v'"
    by (auto simp: handled_def)
  let ?s = "s\<lparr>ts_virt := v', ts_drv := (ts_drv s)\<lparr>sd_tx := tx_driver v'\<rparr>, ts_noted := {}, ts_to_virt := False,
    ts_to_driver := ts_to_driver s \<or> tx_driver_ch ?v \<in> set (tx_notes v')\<rparr>"
  have t: "virt_turn s = Some ?s" using v'(1) by (simp add: virt_turn_def Let_def)
  have m: "tx_wf v'" "tx_num_clients v' = tx_num_clients ?v" "serial_items (tx_driver v') = serial_items (tx_driver ?v) @ map snd ms"
    "\<forall>i<tx_num_clients ?v. of_client i ms @ tx_items v' i = tx_items ?v i"
    "\<forall>m\<in>set ms. fst m < tx_num_clients ?v" using ms(1) by (simp_all add: tx_moves_def)
  have d: "tx_driver ?v = sd_tx (ts_drv s)" using I by (simp add: tx_inv_def)
  have l: "line out ?s = line out s @ map snd ms" using m(3) d by (simp add: line_def)
  obtain ms0 where ms0: "line out s = line out s0 @ map snd ms0" "\<forall>m\<in>set ms0. fst m < tx_num_clients ?v" "\<forall>i<tx_num_clients ?v. of_client i ms0 @ tx_items ?v i = ts_sent s i"
    using I unfolding tx_inv_def accounted_def by blast
  have "of_client i (ms0 @ ms) @ tx_items v' i = ts_sent s i" if "i < tx_num_clients ?v" for i
    using ms0(3) m(4) that by (metis append_assoc of_client_append(1))
  then have "accounted out s0 ?s"
    unfolding accounted_def using m(2,5) ms0(1,2) l by (intro exI [of _ "ms0 @ ms"]) auto
  moreover have "serial_items (tx_driver v') \<noteq> [] \<longrightarrow> ts_to_driver s \<or> tx_driver_ch ?v \<in> set (tx_notes v')"
    using I m(3) ms(2) d unfolding tx_inv_def by auto
  ultimately have "tx_inv out s0 ?s" using I m(1,2) ms(3,4) unfolding tx_inv_def by simp
  then show ?thesis using t l m(2,4,5) ms(3,4) by (intro exI [of _ ?s] exI [of _ ms]) simp
qed

lemma driver_returns:
  assumes U: "uart_ok U inp out" and I: "tx_inv out s0 s"
  shows "\<exists>s'. driver_turn U chs s = Some s' \<and> tx_inv out s0 s' \<and> line out s' = line out s \<and> ts_sent s' = ts_sent s \<and>
    (\<forall>i. tx_items (ts_virt s') i = tx_items (ts_virt s) i) \<and> (sd_tx_ch (ts_drv s) \<in> chs \<longrightarrow> serial_items (sd_tx (ts_drv s')) = [])"
proof -
  let ?d = "(ts_drv s)\<lparr>sd_notes := []\<rparr>" and ?v = "ts_virt s"
  have r: "serial_ready (sd_tx ?d)" "serial_ready (sd_rx ?d)" "tx_driver ?v = sd_tx (ts_drv s)"
    using I by (auto simp: tx_inv_def tx_wf_def)
  obtain d where d: "serial_driver_notified U chs ?d = Some d" "driver_step inp out ?d d" "sd_tx_ch (ts_drv s) \<in> chs \<longrightarrow> serial_items (sd_tx d) = []"
    using serial_driver_runs [OF U r(1,2), of chs] by auto
  let ?s = "s\<lparr>ts_drv := d, ts_virt := ?v\<lparr>tx_driver := sd_tx d\<rparr>, ts_to_virt := ts_to_virt s \<or> sd_tx_ch (ts_drv s) \<in> set (sd_notes d),
    ts_to_driver := ts_to_driver s \<and> sd_tx_ch (ts_drv s) \<notin> chs\<rparr>"
  have st: "serial_ready (sd_tx d)" "serial_ready (sd_rx d)" "sq_capacity (sd_tx d) = sq_capacity (sd_tx (ts_drv s))"
    "line out ?s = line out s" using d(2) by (simp_all add: driver_step_def line_def)
  have ch: "sd_tx d = sd_tx (ts_drv s) \<or> serial_items (sd_tx (ts_drv s)) \<noteq> [] \<and> serial_items (sd_tx d) = []
      \<and> (serial_require_consumer_signal (sd_tx (ts_drv s)) \<longrightarrow> sd_tx_ch (ts_drv s) \<in> set (sd_notes d))"
    using d(2) by (simp add: driver_step_def)
  have "waits_ok {} (?v\<lparr>tx_driver := sd_tx d\<rparr>)" if "\<not> ts_to_virt s" "sd_tx_ch (ts_drv s) \<notin> set (sd_notes d)"
    using I ch that r(3) unfolding tx_inv_def by (auto simp: waits_ok_def)
  moreover have "tx_wf (?v\<lparr>tx_driver := sd_tx d\<rparr>)" using I st(1,3) r(3) by (auto simp: tx_inv_def tx_wf_def)
  moreover have "serial_items (sd_tx d) \<noteq> [] \<longrightarrow> ts_to_driver s \<and> sd_tx_ch (ts_drv s) \<notin> chs"
    using I ch d(3) by (auto simp: tx_inv_def)
  moreover have "accounted out s0 s" using I by (simp add: tx_inv_def)
  then have "accounted out s0 ?s" unfolding accounted_def st(4) by simp
  ultimately have "tx_inv out s0 ?s" using I st(2) unfolding tx_inv_def by (simp add: noticed_def)
  then show ?thesis using d(1,3) st(4) by (intro exI [of _ ?s]) (simp add: driver_turn_def)
qed

lemma tx_run_inv:
  assumes U: "uart_ok U inp out" and r: "tx_run U s0 s" and s0: "tx_start s0"
  shows "tx_inv out s0 s"
  using r
proof (induction rule: tx_run.induct)
  case start
  show ?case using tx_inv_start [OF s0] .
next
  case (client s i b s')
  then show ?case using client_keeps by blast
next
  case (virt s s')
  then show ?case using virt_returns [OF virt.IH] by auto
next
  case (driver s chs s')
  then show ?case using driver_returns [OF U driver.IH, of chs] by auto
qed

subsection \<open>Delivery\<close>

definition waiting :: "'u tx_sys \<Rightarrow> nat" where
  "waiting s = (\<Sum>i<tx_num_clients (ts_virt s). length (tx_items (ts_virt s) i))"

text \<open>A turn of the virtualiser and a turn of the driver, as often as given. Each domain sees only the
  notifications that are outstanding, so a signal that one of them fails to give is not made up for.\<close>

definition tx_round :: "'u uart \<Rightarrow> 'u tx_sys \<Rightarrow> 'u tx_sys option" where
  "tx_round U s = do { s \<leftarrow> virt_turn s; driver_turn U (if ts_to_driver s then {sd_tx_ch (ts_drv s)} else {}) s }"

fun tx_rounds :: "'u uart \<Rightarrow> nat \<Rightarrow> 'u tx_sys \<Rightarrow> 'u tx_sys option" where
  "tx_rounds U 0 s = Some s"
| "tx_rounds U (Suc k) s = do { s \<leftarrow> tx_round U s; tx_rounds U k s }"

lemma moved_waiting:
  assumes "\<forall>i<n. of_client i ms @ f i = g i" and "\<forall>m\<in>set ms. fst m < n"
  shows "(\<Sum>i<n. length (f i)) \<le> (\<Sum>i<n. length (g i))" and "ms \<noteq> [] \<Longrightarrow> (\<Sum>i<n. length (f i)) < (\<Sum>i<n. length (g i))"
proof -
  have le: "length (f i) \<le> length (g i)" if "i < n" for i using assms(1) that by (metis le_add2 length_append)
  then show "(\<Sum>i<n. length (f i)) \<le> (\<Sum>i<n. length (g i))" by (intro sum_mono) simp
  assume "ms \<noteq> []"
  then obtain m where m: "m \<in> set ms" by (cases ms) auto
  then have "of_client (fst m) ms \<noteq> []" "fst m < n" using assms(2) by (auto simp: of_client_def filter_empty_conv)
  then have "length (f (fst m)) < length (g (fst m))"
    using assms(1) [rule_format, of "fst m"] by (metis length_append length_greater_0_conv less_add_same_cancel2)
  then show "(\<Sum>i<n. length (f i)) < (\<Sum>i<n. length (g i))"
    using le \<open>fst m < n\<close> by (intro sum_strict_mono_ex1) auto
qed

lemma tx_round_progress:
  assumes U: "uart_ok U inp out" and I: "tx_inv out s0 s"
  shows "\<exists>s'. tx_round U s = Some s' \<and> tx_inv out s0 s' \<and> serial_items (sd_tx (ts_drv s')) = [] \<and> ts_sent s' = ts_sent s \<and>
    waiting s' \<le> waiting s \<and> (serial_items (sd_tx (ts_drv s)) = [] \<longrightarrow> waiting s \<noteq> 0 \<longrightarrow> waiting s' < waiting s)"
proof -
  obtain s1 ms where v: "virt_turn s = Some s1" "tx_inv out s0 s1" "line out s1 = line out s @ map snd ms" "ts_sent s1 = ts_sent s"
    "\<forall>m\<in>set ms. fst m < tx_num_clients (ts_virt s)"
    "\<forall>i<tx_num_clients (ts_virt s). of_client i ms @ tx_items (ts_virt s1) i = tx_items (ts_virt s) i"
    "noticed {} (ts_virt s1)" "waits_ok {} (ts_virt s1)" "sd_uart (ts_drv s1) = sd_uart (ts_drv s)"
    using virt_returns [OF I] by (auto simp: virt_turn_def Let_def split: option.splits)
  let ?chs = "if ts_to_driver s1 then {sd_tx_ch (ts_drv s1)} else {}"
  obtain s2 where d: "driver_turn U ?chs s1 = Some s2" "tx_inv out s0 s2" "ts_sent s2 = ts_sent s1"
    "\<forall>i. tx_items (ts_virt s2) i = tx_items (ts_virt s1) i" "sd_tx_ch (ts_drv s1) \<in> ?chs \<longrightarrow> serial_items (sd_tx (ts_drv s2)) = []"
    using driver_returns [OF U v(2), of ?chs] by blast
  have empty: "serial_items (sd_tx (ts_drv s2)) = []"
  proof (rule ccontr)
    assume ne: "\<not> ?thesis"
    then have "ts_to_driver s2" using d(2) by (simp add: tx_inv_def)
    then show False using d(1,5) ne by (auto simp: driver_turn_def split: option.splits if_splits)
  qed
  have n: "tx_num_clients (ts_virt s1) = tx_num_clients (ts_virt s)" "tx_num_clients (ts_virt s2) = tx_num_clients (ts_virt s)"
    using I v(2) d(2) by (simp_all add: tx_inv_def)
  have w2: "waiting s2 = waiting s1" using d(4) n by (simp add: waiting_def)
  have le: "waiting s1 \<le> waiting s" "ms \<noteq> [] \<Longrightarrow> waiting s1 < waiting s"
    using moved_waiting [OF v(6,5)] n(1) by (simp_all add: waiting_def)
  have "ms \<noteq> []" if e: "serial_items (sd_tx (ts_drv s)) = []" "waiting s \<noteq> 0"
  proof
    assume ms: "ms = []"
    obtain i where i: "i < tx_num_clients (ts_virt s)" "tx_items (ts_virt s) i \<noteq> []" using e(2) by (auto simp: waiting_def)
    then have "tx_items (ts_virt s1) i \<noteq> []" using v(6) ms by simp
    then have "serial_items (tx_driver (ts_virt s1)) \<noteq> []" using v(7,8) i(1) n(1) by (auto simp: noticed_def waits_ok_def)
    moreover have "serial_items (sd_tx (ts_drv s1)) = []" using v(3,9) ms e(1) by (simp add: line_def)
    ultimately show False using v(2) by (simp add: tx_inv_def)
  qed
  then show ?thesis using v(1,4) d empty w2 le by (intro exI [of _ s2]) (auto simp: tx_round_def)
qed

lemma tx_rounds_deliver:
  assumes U: "uart_ok U inp out"
  shows "tx_inv out s0 s \<Longrightarrow> serial_items (sd_tx (ts_drv s)) = [] \<Longrightarrow> waiting s \<le> k \<Longrightarrow>
    \<exists>s'. tx_rounds U k s = Some s' \<and> tx_inv out s0 s' \<and> serial_items (sd_tx (ts_drv s')) = [] \<and> waiting s' = 0 \<and> ts_sent s' = ts_sent s"
proof (induction k arbitrary: s)
  case (Suc k)
  obtain s1 where s1: "tx_round U s = Some s1" "tx_inv out s0 s1" "serial_items (sd_tx (ts_drv s1)) = []" "ts_sent s1 = ts_sent s"
    "waiting s1 \<le> waiting s" "waiting s \<noteq> 0 \<longrightarrow> waiting s1 < waiting s" using tx_round_progress [OF U Suc.prems(1)] Suc.prems(2) by auto
  have "waiting s1 \<le> k" using s1(5,6) Suc.prems(3) by linarith
  then show ?case using Suc.IH [OF s1(2,3)] s1(1,4) by auto
qed simp

subsection \<open>Start-up\<close>

definition fresh :: "serial_connection_resource_t \<Rightarrow> bool" where
  "fresh conn \<longleftrightarrow> serial_ready (serial_handle_of conn) \<and> serial_items (serial_handle_of conn) = []"

definition begin_bytes :: "serial_virt_tx_config_t \<Rightarrow> u8 list" where
  "begin_bytes cfg = (if stc_enable_rx cfg then takeWhile (\<lambda>b. b \<noteq> 0) (stc_begin_str cfg) else [])"

definition tx_config_ok :: "serial_virt_tx_config_t \<Rightarrow> bool" where
  "tx_config_ok cfg \<longleftrightarrow> stc_magic cfg = SDDF_SERIAL_MAGIC \<and> \<not> stc_enable_colour cfg
     \<and> 1 \<le> unat (stc_num_clients cfg) \<and> unat (stc_num_clients cfg) \<le> SDDF_SERIAL_MAX_CLIENTS \<and> fresh (stc_driver cfg)
     \<and> length (begin_bytes cfg) \<le> unat (sq_capacity (serial_handle_of (stc_driver cfg)))
     \<and> (\<forall>i<unat (stc_num_clients cfg). fresh (stcc_conn (stc_clients cfg ! i))
          \<and> unat (sq_capacity (serial_handle_of (stcc_conn (stc_clients cfg ! i)))) \<le> unat (sq_capacity (serial_handle_of (stc_driver cfg))))"

lemma client_handles_ok:
  "n \<le> SDDF_SERIAL_MAX_CLIENTS \<Longrightarrow> \<exists>hs chs. client_handles cfg n = (hs, chs) \<and> length hs = SDDF_SERIAL_MAX_CLIENTS \<and>
    (\<forall>i<n. hs ! i = serial_handle_of (stcc_conn (stc_clients cfg ! i)))"
proof (induction n)
  case 0
  show ?case by (simp add: client_handles_def)
next
  case (Suc n)
  then obtain hs chs where h: "client_handles cfg n = (hs, chs)" "length hs = SDDF_SERIAL_MAX_CLIENTS"
    "\<forall>i<n. hs ! i = serial_handle_of (stcc_conn (stc_clients cfg ! i))" by auto
  let ?c = "stcc_conn (stc_clients cfg ! n)"
  have "client_handles cfg (Suc n) = (hs[n := serial_handle_of ?c], chs[n := unat (sc_id ?c)])"
    using h(1) by (simp add: client_handles_def Let_def)
  then show ?case using h(2,3) Suc.prems by (auto simp: nth_list_update less_Suc_eq)
qed

lemma enqueue_all_ok:
  assumes "serial_ready h" and "length (serial_items h) + length bs \<le> unat (sq_capacity h)"
  shows "\<exists>h'. enqueue_all bs h = Some h' \<and> serial_ready h' \<and> serial_items h' = serial_items h @ bs \<and> same_side h h'"
  using assms
proof (induction bs arbitrary: h)
  case Nil
  then show ?case by (simp add: same_side_def)
next
  case (Cons b bs)
  obtain h1 where h1: "serial_enqueue h b = (0, h1)" "serial_ready h1" "serial_items h1 = serial_items h @ [b]" "same_side h h1"
    using serial_enqueue_ready [OF Cons.prems(1), of b] Cons.prems(2) by auto
  then show ?case using Cons.IH [of h1] Cons.prems(2) by (auto simp: same_side_def)
qed

lemma serial_virt_tx_init_ok:
  assumes "tx_config_ok cfg"
  shows "\<exists>v. serial_virt_tx_init cfg = Some v \<and> tx_wf v \<and> tx_num_clients v = unat (stc_num_clients cfg) \<and>
    serial_items (tx_driver v) = begin_bytes cfg \<and> (begin_bytes cfg \<noteq> [] \<longrightarrow> tx_driver_ch v \<in> set (tx_notes v)) \<and>
    (\<forall>i<tx_num_clients v. tx_items v i = [] \<and> \<not> tx_pending v ! i)"
proof -
  let ?n = "unat (stc_num_clients cfg)" and ?d = "serial_handle_of (stc_driver cfg)"
  obtain hs chs where h: "client_handles cfg ?n = (hs, chs)" "length hs = SDDF_SERIAL_MAX_CLIENTS"
    "\<forall>i<?n. hs ! i = serial_handle_of (stcc_conn (stc_clients cfg ! i))"
    using client_handles_ok [of ?n cfg] assms by (auto simp: tx_config_ok_def)
  obtain d where d: "publish_begin cfg ?d = Some (begin_bytes cfg \<noteq> [], d)" "serial_ready d" "serial_items d = begin_bytes cfg" "same_side ?d d"
  proof (cases "stc_enable_rx cfg")
    case True
    obtain d where "enqueue_all (begin_bytes cfg) ?d = Some d" "serial_ready d" "serial_items d = begin_bytes cfg" "same_side ?d d"
      using enqueue_all_ok [of ?d "begin_bytes cfg"] assms by (auto simp: tx_config_ok_def fresh_def)
    then show ?thesis using that True by (simp add: publish_begin_def begin_bytes_def Let_def)
  next
    case False
    then show ?thesis using that [of ?d] assms by (simp add: publish_begin_def begin_bytes_def tx_config_ok_def fresh_def same_side_def)
  qed
  then show ?thesis
    using assms h by (auto simp: serial_virt_tx_init_def tx_config_ok_def fresh_def tx_wf_def same_side_def Let_def)
qed

definition tx_boot :: "serial_virt_tx \<Rightarrow> 'u serial_driver \<Rightarrow> 'u tx_sys" where
  "tx_boot v d = \<lparr>ts_virt = v, ts_drv = d\<lparr>sd_tx := tx_driver v\<rparr>, ts_sent = (\<lambda>_. []), ts_noted = {}, ts_to_virt = False,
     ts_to_driver = (tx_driver_ch v \<in> set (tx_notes v))\<rparr>"

lemma boot_inv:
  assumes "tx_config_ok cfg" and "serial_virt_tx_init cfg = Some v" and "serial_ready (sd_rx d)" and "uart_ok U inp out"
    and "tx_run U (tx_boot v d) s"
  shows "tx_inv out (tx_boot v d) s" and "line out (tx_boot v d) = out (sd_uart d) @ begin_bytes cfg"
    and "tx_num_clients (ts_virt s) = unat (stc_num_clients cfg)"
proof -
  have v: "tx_wf v" "tx_num_clients v = unat (stc_num_clients cfg)" "serial_items (tx_driver v) = begin_bytes cfg"
    "begin_bytes cfg \<noteq> [] \<longrightarrow> tx_driver_ch v \<in> set (tx_notes v)" "\<forall>i<tx_num_clients v. tx_items v i = [] \<and> \<not> tx_pending v ! i"
    using serial_virt_tx_init_ok [OF assms(1)] assms(2) by auto
  then have "tx_start (tx_boot v d)" using assms(3) by (simp add: tx_start_def tx_boot_def)
  then show i: "tx_inv out (tx_boot v d) s" using tx_run_inv [OF assms(4,5)] by simp
  show "line out (tx_boot v d) = out (sd_uart d) @ begin_bytes cfg" using v(3) by (simp add: line_def tx_boot_def)
  show "tx_num_clients (ts_virt s) = unat (stc_num_clients cfg)" using i v(2) by (simp add: tx_inv_def tx_boot_def)
qed

subsection \<open>An example\<close>

text \<open>One client, and a UART whose line is two lists of bytes.\<close>

definition sample_uart :: "(u8 list \<times> u8 list) uart" where
  "sample_uart = \<lparr>uart_read = (\<lambda>(i, out). case i of [] \<Rightarrow> (None, ([], out)) | b # bs \<Rightarrow> (Some b, (bs, out))),
     uart_write = (\<lambda>b (i, out). Some (i, out @ [b])), uart_handle_interrupt = (\<lambda>u. u)\<rparr>"

definition sample_serial_conn :: "u8 \<Rightarrow> serial_connection_resource_t" where
  "sample_serial_conn ch = \<lparr>sc_queue = \<lparr>sq_tail = 0, sq_head = 0, sq_producer_signalled = 0\<rparr>, sc_data = replicate 0x1000 0,
     sc_data_size = 0x1000, sc_id = ch\<rparr>"

definition sample_tx_config :: serial_virt_tx_config_t where
  "sample_tx_config = \<lparr>stc_magic = SDDF_SERIAL_MAGIC, stc_driver = sample_serial_conn 0,
     stc_clients = [\<lparr>stcc_conn = sample_serial_conn 1, stcc_name = []\<rparr>], stc_num_clients = 1, stc_begin_str = [],
     stc_enable_colour = False, stc_enable_rx = False\<rparr>"

definition sample_driver :: "(u8 list \<times> u8 list) serial_driver" where
  "sample_driver = \<lparr>sd_uart = ([], []), sd_irq = 0, sd_tx = serial_handle_of (sample_serial_conn 0), sd_tx_ch = 1,
     sd_rx = serial_handle_of (sample_serial_conn 2), sd_rx_ch = 2, sd_rx_enabled = True, sd_notes = [], sd_acks = 0\<rparr>"

lemma sample_uart_ok: "uart_ok sample_uart fst snd"
  by (auto simp: uart_ok_def sample_uart_def split: list.split)

lemma sample_serial_fresh: "fresh (sample_serial_conn ch)" "sq_capacity (serial_handle_of (sample_serial_conn ch)) = 0x1000"
proof -
  have h: "serial_handle_of (sample_serial_conn ch) = serial_handle_at 0x1000 0"
    by (simp add: serial_handle_of_def serial_handle_from_connection_def serial_queue_init_def sample_serial_conn_def serial_handle_at_def Let_def
        del: replicate.simps)
  show "fresh (sample_serial_conn ch)" "sq_capacity (serial_handle_of (sample_serial_conn ch)) = 0x1000"
    unfolding fresh_def h
    by (simp_all add: serial_handle_at_def serial_ready_def serial_handle_wf_def serial_items_def ring_wf_def ring_ok_def ring_divides_def
        del: replicate.simps)
qed

lemma sample_tx_ok: "tx_config_ok sample_tx_config" "serial_ready (sd_rx sample_driver)" "begin_bytes sample_tx_config = []"
  using sample_serial_fresh
  by (simp_all add: tx_config_ok_def sample_tx_config_def begin_bytes_def SDDF_SERIAL_MAX_CLIENTS_def sample_driver_def fresh_def)

lemma sample_tx_run:
  assumes "serial_virt_tx_init sample_tx_config = Some v"
  shows "\<exists>s. tx_run sample_uart (tx_boot v sample_driver) s \<and> ts_sent s 0 = [0x68]"
proof -
  have v: "tx_wf v" "tx_num_clients v = 1" "tx_items v 0 = []" using serial_virt_tx_init_ok [OF sample_tx_ok(1)] assms
    by (auto simp: sample_tx_config_def)
  then have r: "serial_ready (tx_clients v ! 0)" by (simp add: tx_wf_def)
  then have "0 < unat (sq_capacity (tx_clients v ! 0))" by (simp add: serial_ready_def serial_handle_wf_def ring_wf_def ring_ok_def)
  then obtain h where "serial_enqueue (tx_clients v ! 0) 0x68 = (0, h)" using serial_enqueue_ready [OF r, of "0x68"] v(3) by auto
  then obtain s where s: "client_writes 0 0x68 (tx_boot v sample_driver) = Some s" "ts_sent s 0 = [0x68]"
    using v(2) by (auto simp: client_writes_def tx_boot_def)
  then show ?thesis using tx_run.client [OF tx_run.start] by blast
qed

subsection \<open>Properties\<close>

text \<open>C24: The serial output is an interleaving of what the clients wrote. However the clients, the
  transmit virtualiser and the driver take turns from start-up on, no assertion of the two domains fails,
  and the bytes that were sent or wait in the driver's queue are the begin string followed by bytes of
  the clients: those of each client in the order it wrote them, none lost and none duplicated, the rest
  of them still in its own queue.\<close>

theorem serial_output_interleaves:
  assumes "tx_config_ok cfg" and "serial_virt_tx_init cfg = Some v" and "serial_ready (sd_rx d)" and "uart_ok U inp out"
    and "tx_run U (tx_boot v d) s"
  shows "(\<exists>s'. virt_turn s = Some s') \<and> (\<forall>chs. \<exists>s'. driver_turn U chs s = Some s') \<and>
    (\<exists>ms. line out s = out (sd_uart d) @ begin_bytes cfg @ map snd ms \<and> (\<forall>m\<in>set ms. fst m < unat (stc_num_clients cfg)) \<and>
      (\<forall>i<unat (stc_num_clients cfg). of_client i ms @ tx_items (ts_virt s) i = ts_sent s i))"
proof -
  note b = boot_inv [OF assms]
  have "accounted out (tx_boot v d) s" using b(1) by (simp add: tx_inv_def)
  then obtain ms where ms: "line out s = line out (tx_boot v d) @ map snd ms" "\<forall>m\<in>set ms. fst m < tx_num_clients (ts_virt s)"
    "\<forall>i<tx_num_clients (ts_virt s). of_client i ms @ tx_items (ts_virt s) i = ts_sent s i" unfolding accounted_def by blast
  show ?thesis
    using virt_returns [OF b(1)] driver_returns [OF assms(4) b(1)] ms b(2,3) by (metis append_assoc)
qed

theorem serial_output_interleaves_witness:
  "\<exists>v s ms. serial_virt_tx_init sample_tx_config = Some v \<and> tx_run sample_uart (tx_boot v sample_driver) s \<and>
    (\<exists>s'. virt_turn s = Some s') \<and> of_client 0 ms @ tx_items (ts_virt s) 0 = [0x68]"
proof -
  obtain v where v: "serial_virt_tx_init sample_tx_config = Some v" using serial_virt_tx_init_ok [OF sample_tx_ok(1)] by blast
  obtain s where s: "tx_run sample_uart (tx_boot v sample_driver) s" "ts_sent s 0 = [0x68]" using sample_tx_run [OF v] by blast
  have "unat (stc_num_clients sample_tx_config) = 1" by (simp add: sample_tx_config_def)
  then show ?thesis
    using serial_output_interleaves [OF sample_tx_ok(1) v sample_tx_ok(2) sample_uart_ok s(1)] v s by auto
qed

text \<open>C23: Every byte is sent. In every state the system can reach, letting the virtualiser and the
  driver take turns as often as there are bytes in the clients' queues, and once more, empties all queues:
  the notifications that are outstanding are enough to keep the two domains going, and the UART has
  sent all that each client wrote.\<close>

theorem serial_output_is_sent:
  assumes "tx_config_ok cfg" and "serial_virt_tx_init cfg = Some v" and "serial_ready (sd_rx d)" and "uart_ok U inp out"
    and "tx_run U (tx_boot v d) s"
  shows "\<exists>s' ms. tx_rounds U (Suc (waiting s)) s = Some s' \<and> out (sd_uart (ts_drv s')) = out (sd_uart d) @ begin_bytes cfg @ map snd ms \<and>
    (\<forall>m\<in>set ms. fst m < unat (stc_num_clients cfg)) \<and> (\<forall>i<unat (stc_num_clients cfg). of_client i ms = ts_sent s i)"
proof -
  note b = boot_inv [OF assms]
  obtain s1 where s1: "tx_round U s = Some s1" "tx_inv out (tx_boot v d) s1" "serial_items (sd_tx (ts_drv s1)) = []" "ts_sent s1 = ts_sent s"
    "waiting s1 \<le> waiting s" using tx_round_progress [OF assms(4) b(1)] by auto
  obtain s2 where s2: "tx_rounds U (waiting s) s1 = Some s2" "tx_inv out (tx_boot v d) s2" "serial_items (sd_tx (ts_drv s2)) = []"
    "waiting s2 = 0" "ts_sent s2 = ts_sent s1" using tx_rounds_deliver [OF assms(4) s1(2,3,5)] by auto
  have n: "tx_num_clients (ts_virt s2) = unat (stc_num_clients cfg)" using b(1,3) s2(2) by (simp add: tx_inv_def)
  have "accounted out (tx_boot v d) s2" using s2(2) by (simp add: tx_inv_def)
  then obtain ms where ms: "line out s2 = line out (tx_boot v d) @ map snd ms" "\<forall>m\<in>set ms. fst m < tx_num_clients (ts_virt s2)"
    "\<forall>i<tx_num_clients (ts_virt s2). of_client i ms @ tx_items (ts_virt s2) i = ts_sent s2 i" unfolding accounted_def by blast
  have "tx_items (ts_virt s2) i = []" if "i < tx_num_clients (ts_virt s2)" for i using s2(4) that by (simp add: waiting_def)
  then show ?thesis
    using s1(1,4) s2(1,3,5) ms b(2) n by (intro exI [of _ s2] exI [of _ ms]) (simp add: line_def)
qed

theorem serial_output_is_sent_witness:
  "\<exists>v s s'. serial_virt_tx_init sample_tx_config = Some v \<and> tx_run sample_uart (tx_boot v sample_driver) s \<and>
    tx_rounds sample_uart (Suc (waiting s)) s = Some s' \<and> snd (sd_uart (ts_drv s')) = [0x68]"
proof -
  obtain v where v: "serial_virt_tx_init sample_tx_config = Some v" using serial_virt_tx_init_ok [OF sample_tx_ok(1)] by blast
  obtain s where s: "tx_run sample_uart (tx_boot v sample_driver) s" "ts_sent s 0 = [0x68]" using sample_tx_run [OF v] by blast
  have n: "unat (stc_num_clients sample_tx_config) = 1" "snd (sd_uart sample_driver) = []"
    by (simp_all add: sample_tx_config_def sample_driver_def)
  obtain s' ms where ms: "tx_rounds sample_uart (Suc (waiting s)) s = Some s'" "snd (sd_uart (ts_drv s')) = map snd ms"
    "\<forall>m\<in>set ms. fst m < 1" "of_client 0 ms = [0x68]"
    using serial_output_is_sent [OF sample_tx_ok(1) v sample_tx_ok(2) sample_uart_ok s(1)] s(2) n sample_tx_ok(3) by auto
  have "filter (\<lambda>m. fst m = 0) ms = ms" using ms(3) by (auto simp: filter_id_conv)
  then show ?thesis using v s(1) ms(1,2,4) by (auto simp: of_client_def)
qed

end
