(* ===== verification/SerialVirtRx.thy ===== *)
theory SerialVirtRx
  imports SerialDriver
begin

text \<open>
  The receive virtualiser \<open>pds/sddf-serial-virt-rx\<close>: it hands the bytes of the line to the current
  client. The switch character followed by a decimal number and the terminating character selects
  another client; the switch character twice is that character itself. Bytes are staged behind a local
  tail and published when the handler ends or the client changes; the handler passes the local tail and
  the flag \<open>transferred\<close> along. \<open>None\<close> is a panic: an index out of range.

  \<open>demux\<close> is the specification: what a stream of bytes delivers to whom, without queues.
\<close>

definition MAX_CLI_BASE_10 :: nat where "MAX_CLI_BASE_10 = 4"

datatype Mode = Normal | Switched | Number

record serial_virt_rx_config_t =
  src_magic :: "u8 list"
  src_driver :: serial_connection_resource_t
  src_clients :: "serial_connection_resource_t list"
  src_num_clients :: u8
  src_switch_char :: u8
  src_terminate_num_char :: u8

record serial_virt_rx =
  rx_driver :: serial_queue_handle_t
  rx_driver_ch :: nat
  rx_clients :: "serial_queue_handle_t list"
  rx_client_ch :: "nat list"
  rx_num_clients :: nat
  rx_mode :: Mode
  rx_current :: nat
  rx_digits :: "u8 list"
  rx_digit_len :: nat
  rx_switch_char :: u8
  rx_terminate :: u8
  rx_notes :: "nat list"

definition serial_virt_rx_init :: "serial_virt_rx_config_t \<Rightarrow> serial_virt_rx option" where
  "serial_virt_rx_init config =
     (let num_clients = unat (src_num_clients config)
      in if src_magic config \<noteq> SDDF_SERIAL_MAGIC \<or> \<not> (num_clients \<ge> 1 \<and> num_clients \<le> SDDF_SERIAL_MAX_CLIENTS) then None
         else
           let (clients, client_ch) = fold (\<lambda>i (clients, client_ch).
               (clients[i := serial_handle_of (src_clients config ! i)], client_ch[i := unat (sc_id (src_clients config ! i))]))
             [0..<num_clients] (replicate SDDF_SERIAL_MAX_CLIENTS empty_handle, replicate SDDF_SERIAL_MAX_CLIENTS 0)
           in Some \<lparr>rx_driver = serial_handle_of (src_driver config), rx_driver_ch = unat (sc_id (src_driver config)),
                rx_clients = clients, rx_client_ch = client_ch, rx_num_clients = num_clients, rx_mode = Normal, rx_current = 0,
                rx_digits = replicate MAX_CLI_BASE_10 0, rx_digit_len = 0, rx_switch_char = src_switch_char config,
                rx_terminate = src_terminate_num_char config, rx_notes = []\<rparr>)"

definition is_ascii_digit :: "u8 \<Rightarrow> bool" where "is_ascii_digit b \<longleftrightarrow> 0x30 \<le> b \<and> b \<le> 0x39"

text \<open>The checked operations on \<open>usize\<close>.\<close>

fun parse_digits :: "nat \<Rightarrow> u8 list \<Rightarrow> nat option" where
  "parse_digits v [] = Some v"
| "parse_digits v (d # ds) =
     (if \<not> is_ascii_digit d then None
      else if \<not> v * 10 < 2 ^ 64 then None
      else if \<not> v * 10 + unat (d - 0x30) < 2 ^ 64 then None
      else parse_digits (v * 10 + unat (d - 0x30)) ds)"

definition parse_client_index :: "u8 list \<Rightarrow> nat option" where
  "parse_client_index digits = (if digits = [] then None else parse_digits 0 digits)"

definition driver_queue_full :: "serial_queue_handle_t \<Rightarrow> bool" where
  "driver_queue_full h = serial_queue_full h (sq_tail (sq_queue h))"

definition rx_notify :: "nat \<Rightarrow> serial_virt_rx \<Rightarrow> serial_virt_rx" where
  "rx_notify ch s = s\<lparr>rx_notes := rx_notes s @ [ch]\<rparr>"

type_synonym rx_local = "serial_virt_rx \<times> u32 \<times> bool"

definition rx_reset :: "serial_virt_rx \<Rightarrow> serial_virt_rx" where
  "rx_reset s = s\<lparr>rx_digits := replicate MAX_CLI_BASE_10 0, rx_digit_len := 0, rx_mode := Normal\<rparr>"

definition enqueue_current :: "u8 \<Rightarrow> rx_local \<Rightarrow> rx_local" where
  "enqueue_current byte = (\<lambda>(s, local_tail, transferred).
     case serial_enqueue_local (rx_clients s ! rx_current s) local_tail byte of (status, local_tail, h) \<Rightarrow>
       (s\<lparr>rx_clients := (rx_clients s)[rx_current s := h]\<rparr>, local_tail, if status = 0 then True else transferred))"

definition push_digit :: "u8 \<Rightarrow> serial_virt_rx \<Rightarrow> serial_virt_rx option" where
  "push_digit byte s =
     (if rx_digit_len s < length (rx_digits s)
      then Some (s\<lparr>rx_digits := (rx_digits s)[rx_digit_len s := byte], rx_digit_len := rx_digit_len s + 1\<rparr>)
      else None)"

definition accept_normal :: "u8 \<Rightarrow> rx_local \<Rightarrow> rx_local option" where
  "accept_normal byte = (\<lambda>(s, local_tail, transferred).
     if byte = rx_switch_char s then Some (s\<lparr>rx_mode := Switched\<rparr>, local_tail, transferred)
     else Some (enqueue_current byte (s, local_tail, transferred)))"

definition accept_switched :: "u8 \<Rightarrow> rx_local \<Rightarrow> rx_local option" where
  "accept_switched byte = (\<lambda>(s, local_tail, transferred).
     if is_ascii_digit byte then
       map_option (\<lambda>s. (s\<lparr>rx_mode := Number\<rparr>, local_tail, transferred)) (push_digit byte s)
     else
       let (s, local_tail, transferred) =
         (if byte = rx_switch_char s then enqueue_current byte (s, local_tail, transferred) else (s, local_tail, transferred))
       in Some (rx_reset s, local_tail, transferred))"

definition commit_number :: "rx_local \<Rightarrow> rx_local option" where
  "commit_number = (\<lambda>(s, local_tail, transferred).
     if \<not> rx_digit_len s \<le> length (rx_digits s) then None
     else case parse_client_index (take (rx_digit_len s) (rx_digits s)) of
            None \<Rightarrow> Some (rx_reset s, local_tail, transferred)
          | Some next_client \<Rightarrow>
              if next_client < rx_num_clients s then
                let current = rx_current s;
                  s = (if transferred
                    then rx_notify (rx_client_ch s ! current)
                      (s\<lparr>rx_clients := (rx_clients s)[current := serial_update_shared_tail (rx_clients s ! current) local_tail]\<rparr>)
                    else s);
                  s = s\<lparr>rx_current := next_client\<rparr>
                in Some (rx_reset s, sq_tail (sq_queue (rx_clients s ! next_client)), False)
              else Some (rx_reset s, local_tail, transferred))"

definition accept_number :: "u8 \<Rightarrow> rx_local \<Rightarrow> rx_local option" where
  "accept_number byte = (\<lambda>(s, local_tail, transferred).
     if byte = rx_terminate s then commit_number (s, local_tail, transferred)
     else if rx_digit_len s < MAX_CLI_BASE_10 \<and> is_ascii_digit byte then
       map_option (\<lambda>s. (s, local_tail, transferred)) (push_digit byte s)
     else Some (rx_reset s, local_tail, transferred))"

definition accept_byte :: "u8 \<Rightarrow> rx_local \<Rightarrow> rx_local option" where
  "accept_byte byte l =
     (case rx_mode (fst l) of
        Normal \<Rightarrow> accept_normal byte l
      | Switched \<Rightarrow> accept_switched byte l
      | Number \<Rightarrow> accept_number byte l)"

text \<open>No step but the dequeue itself touches the driver's queue, so the loop ends.\<close>

lemma enqueue_current_fields:
  "enqueue_current b (s, t, x) = (s', t', x') \<Longrightarrow> rx_driver s' = rx_driver s"
  by (auto simp: enqueue_current_def split: prod.splits)

lemma accept_byte_driver: "accept_byte b (s, t, x) = Some (s', t', x') \<Longrightarrow> rx_driver s' = rx_driver s"
  by (auto simp: accept_byte_def accept_normal_def accept_switched_def accept_number_def commit_number_def push_digit_def rx_reset_def
      rx_notify_def Let_def dest: enqueue_current_fields split: Mode.splits if_splits option.splits prod.splits)

function rx_loop :: "rx_local \<Rightarrow> rx_local option" where
  "rx_loop (s, local_tail, transferred) =
     (case serial_dequeue (rx_driver s) 0 of (e, byte, h) \<Rightarrow>
        if e \<noteq> 0 then Some (s, local_tail, transferred)
        else case accept_byte byte (s\<lparr>rx_driver := h\<rparr>, local_tail, transferred) of
               None \<Rightarrow> None
             | Some l \<Rightarrow> rx_loop l)"
  by pat_completeness auto

termination rx_loop
  by (relation "measure (\<lambda>(s, t, x). unat (sq_tail (sq_queue (rx_driver s)) - sq_head (sq_queue (rx_driver s))))")
    (auto dest!: accept_byte_driver dest: serial_dequeue_shrinks [OF sym])

declare rx_loop.simps [simp del]

definition serial_rx_return :: "serial_virt_rx \<Rightarrow> serial_virt_rx option" where
  "serial_rx_return s =
     (case rx_loop (s, sq_tail (sq_queue (rx_clients s ! rx_current s)), False) of
        None \<Rightarrow> None
      | Some (s, local_tail, transferred) \<Rightarrow>
          let current = rx_current s;
            s = s\<lparr>rx_clients := (rx_clients s)[current := serial_update_shared_tail (rx_clients s ! current) local_tail]\<rparr>;
            s = (if \<not> driver_queue_full (rx_driver s) \<and> serial_require_consumer_signal (rx_driver s)
              then rx_notify (rx_driver_ch s) (s\<lparr>rx_driver := serial_cancel_consumer_signal (rx_driver s)\<rparr>) else s)
          in Some (if transferred then rx_notify (rx_client_ch s ! rx_current s) s else s))"

definition serial_virt_rx_notified :: "nat set \<Rightarrow> serial_virt_rx \<Rightarrow> serial_virt_rx option" where
  "serial_virt_rx_notified channels s = (if rx_driver_ch s \<in> channels then serial_rx_return s else Some s)"

subsection \<open>The specification\<close>

text \<open>Mode, current client and the digits read so far.\<close>

type_synonym line_state = "Mode \<times> nat \<times> u8 list"

text \<open>The next state and the byte, if any, for the current client.\<close>

fun demux_step :: "u8 \<Rightarrow> u8 \<Rightarrow> nat \<Rightarrow> line_state \<Rightarrow> u8 \<Rightarrow> line_state \<times> u8 list" where
  "demux_step sw tm n (Normal, c, ds) b = (if b = sw then ((Switched, c, []), []) else ((Normal, c, []), [b]))"
| "demux_step sw tm n (Switched, c, ds) b =
     (if is_ascii_digit b then ((Number, c, [b]), []) else ((Normal, c, []), if b = sw then [b] else []))"
| "demux_step sw tm n (Number, c, ds) b =
     (if b = tm then ((Normal, case parse_client_index ds of None \<Rightarrow> c | Some k \<Rightarrow> if k < n then k else c, []), [])
      else if length ds < MAX_CLI_BASE_10 \<and> is_ascii_digit b then ((Number, c, ds @ [b]), [])
      else ((Normal, c, []), []))"

fun demux :: "u8 \<Rightarrow> u8 \<Rightarrow> nat \<Rightarrow> line_state \<Rightarrow> u8 list \<Rightarrow> line_state \<times> (nat \<times> u8) list" where
  "demux sw tm n st [] = (st, [])"
| "demux sw tm n st (b # bs) =
     (case demux_step sw tm n st b of (st', out) \<Rightarrow>
        case demux sw tm n st' bs of (st'', ms) \<Rightarrow> (st'', map (Pair (fst (snd st))) out @ ms))"

text \<open>A queue that is full drops what comes.\<close>

fun deliver :: "nat \<Rightarrow> u8 list \<Rightarrow> u8 list \<Rightarrow> u8 list" where
  "deliver cap q [] = q"
| "deliver cap q (b # bs) = deliver cap (if length q < cap then q @ [b] else q) bs"

lemma deliver_append: "deliver cap q (xs @ ys) = deliver cap (deliver cap q xs) ys"
  by (induction xs arbitrary: q) auto

lemma deliver_room: "length q + length bs \<le> cap \<Longrightarrow> deliver cap q bs = q @ bs"
  by (induction bs arbitrary: q) auto

subsection \<open>Refinement\<close>

definition staged_ready :: "serial_queue_handle_t \<Rightarrow> u32 \<Rightarrow> bool" where
  "staged_ready h t \<longleftrightarrow> serial_ready (serial_update_shared_tail h t)"

fun rx_ok :: "rx_local \<Rightarrow> bool" where
  "rx_ok (s, t, x) \<longleftrightarrow> serial_ready (rx_driver s) \<and> rx_num_clients s \<le> length (rx_clients s) \<and> rx_current s < rx_num_clients s
     \<and> (\<forall>i<rx_num_clients s. i \<noteq> rx_current s \<longrightarrow> serial_ready (rx_clients s ! i)) \<and> staged_ready (rx_clients s ! rx_current s) t
     \<and> (\<not> x \<longrightarrow> t = sq_tail (sq_queue (rx_clients s ! rx_current s)))
     \<and> length (rx_digits s) = MAX_CLI_BASE_10 \<and> rx_digit_len s \<le> MAX_CLI_BASE_10 \<and> (rx_mode s \<noteq> Number \<longrightarrow> rx_digit_len s = 0)"

fun rx_abs :: "rx_local \<Rightarrow> line_state" where
  "rx_abs (s, t, x) = (rx_mode s, rx_current s, take (rx_digit_len s) (rx_digits s))"

fun queue_of :: "rx_local \<Rightarrow> nat \<Rightarrow> u8 list" where
  "queue_of (s, t, x) i = (if i = rx_current s then staged_items (rx_clients s ! i) t else serial_items (rx_clients s ! i))"

fun told :: "rx_local \<Rightarrow> nat \<Rightarrow> bool" where
  "told (s, t, x) i \<longleftrightarrow> i = rx_current s \<and> x \<or> rx_client_ch s ! i \<in> set (rx_notes s)"

definition rx_kept :: "serial_virt_rx \<Rightarrow> serial_virt_rx \<Rightarrow> bool" where
  "rx_kept s s' \<longleftrightarrow> rx_num_clients s' = rx_num_clients s \<and> rx_switch_char s' = rx_switch_char s
     \<and> rx_terminate s' = rx_terminate s \<and> rx_client_ch s' = rx_client_ch s \<and> rx_driver_ch s' = rx_driver_ch s
     \<and> (\<forall>i. sq_capacity (rx_clients s' ! i) = sq_capacity (rx_clients s ! i))"

fun rx_frame :: "rx_local \<Rightarrow> rx_local \<Rightarrow> bool" where
  "rx_frame (s, t, x) (s', t', x') \<longleftrightarrow> rx_kept s s' \<and> rx_driver s' = rx_driver s"

lemma staged_here: "staged_items h (sq_tail (sq_queue h)) = serial_items h" "staged_ready h (sq_tail (sq_queue h)) = serial_ready h"
  by (simp_all add: staged_items_def staged_ready_def serial_update_shared_tail_def)

lemma staged_length: "staged_ready h t \<Longrightarrow> length (staged_items h t) \<le> unat (sq_capacity h)"
  using serial_lengths(3) [of "serial_update_shared_tail h t"] by (simp add: staged_ready_def staged_items_def serial_update_shared_tail_def)

lemma enqueue_current_ok:
  assumes "staged_ready h t" and "\<not> x \<longrightarrow> t = sq_tail (sq_queue h)"
  shows "\<exists>e t' h'. serial_enqueue_local h t b = (e, t', h') \<and> staged_ready h' t' \<and>
    staged_items h' t' = deliver (unat (sq_capacity h)) (staged_items h t) [b] \<and> sq_capacity h' = sq_capacity h \<and>
    (e \<noteq> 0 \<longrightarrow> h' = h \<and> t' = t)"
proof (cases "serial_queue_full h t")
  case True
  then have "length (staged_items h t) = unat (sq_capacity h)"
    by (simp add: staged_full staged_items_def serial_items_def serial_update_shared_tail_def)
  then show ?thesis using True assms(1) by (simp add: serial_enqueue_local_full)
next
  case False
  have "length (staged_items h t) \<noteq> unat (sq_capacity h)"
    using False by (simp add: staged_full staged_items_def serial_items_def serial_update_shared_tail_def)
  then have l: "length (staged_items h t) < unat (sq_capacity h)" using staged_length [OF assms(1)] by simp
  have ok: "staged_ok h t" and d: "ring_divides t (unat (sq_capacity h))" using assms(1)
    by (simp_all add: staged_ready_def staged_ok_def serial_ready_def serial_update_shared_tail_def)
  obtain h' where h': "serial_enqueue_local h t b = (0, t + 1, h')" "staged_ok h' (t + 1)" "staged_items h' (t + 1) = staged_items h t @ [b]"
    "sq_capacity h' = sq_capacity h" using serial_enqueue_local_append [OF ok False, of b] d by (auto simp: ring_left_def)
  have "staged_ready h' (t + 1)"
    using h'(2,4) d by (simp add: staged_ready_def staged_ok_def serial_ready_def serial_update_shared_tail_def ring_divides_def)
  then show ?thesis using h' l by simp
qed

text \<open>A step from \<open>l\<close> to \<open>l'\<close> that goes to the abstract state \<open>st\<close> and gives \<open>out\<close> to the current client.\<close>

definition rx_moves :: "rx_local \<Rightarrow> rx_local \<Rightarrow> line_state \<Rightarrow> u8 list \<Rightarrow> bool" where
  "rx_moves l l' st out \<longleftrightarrow> rx_ok l' \<and> rx_frame l l' \<and> rx_abs l' = st
     \<and> (\<forall>i<rx_num_clients (fst l). queue_of l' i =
          (if i = rx_current (fst l) then deliver (unat (sq_capacity (rx_clients (fst l) ! i))) (queue_of l i) out else queue_of l i))
     \<and> (\<forall>i<rx_num_clients (fst l). told l i \<or> queue_of l' i \<noteq> queue_of l i \<longrightarrow> told l' i)"

lemma enqueue_moves:
  assumes ok: "rx_ok (s, t, x)" and m: "rx_digit_len s = 0"
  shows "case enqueue_current b (s, t, x) of (s', t', x') \<Rightarrow>
    rx_moves (s, t, x) (s', t', x') (rx_mode s, rx_current s, []) [b] \<and> rx_digit_len s' = 0 \<and> rx_digits s' = rx_digits s"
proof -
  let ?c = "rx_current s"
  have c: "?c < length (rx_clients s)" using ok by simp
  obtain e t' h where e: "serial_enqueue_local (rx_clients s ! ?c) t b = (e, t', h)" "staged_ready h t'"
    "staged_items h t' = deliver (unat (sq_capacity (rx_clients s ! ?c))) (staged_items (rx_clients s ! ?c) t) [b]"
    "sq_capacity h = sq_capacity (rx_clients s ! ?c)" "e \<noteq> 0 \<longrightarrow> h = rx_clients s ! ?c \<and> t' = t"
    using enqueue_current_ok [of "rx_clients s ! ?c" t x b] ok by auto
  let ?s = "s\<lparr>rx_clients := (rx_clients s)[?c := h]\<rparr>"
  have eq: "enqueue_current b (s, t, x) = (?s, t', if e = 0 then True else x)" using e(1) by (simp add: enqueue_current_def)
  have cap: "sq_capacity ((rx_clients s)[?c := h] ! i) = sq_capacity (rx_clients s ! i)" for i
    using e(4) c by (cases "i = ?c") simp_all
  have "rx_moves (s, t, x) (?s, t', if e = 0 then True else x) (rx_mode s, ?c, []) [b]"
    using ok m c e(2,3,5) cap unfolding rx_moves_def by (auto simp: nth_list_update rx_kept_def)
  then show ?thesis unfolding eq using m by simp
qed

lemma accept_normal_ok:
  assumes "rx_ok (s, t, x)" and "rx_mode s = Normal" and "demux_step (rx_switch_char s) (rx_terminate s) (rx_num_clients s) (rx_abs (s, t, x)) b = (st, out)"
  shows "\<exists>l. accept_normal b (s, t, x) = Some l \<and> rx_moves (s, t, x) l st out"
proof (cases "b = rx_switch_char s")
  case True
  then show ?thesis using assms by (auto simp: accept_normal_def rx_moves_def rx_kept_def)
next
  case False
  have z: "rx_digit_len s = 0" using assms(1,2) by simp
  show ?thesis using False enqueue_moves [OF assms(1) z, of b] assms(2,3) by (auto simp: accept_normal_def split: prod.splits)
qed

lemma rx_moves_silent:
  assumes "rx_ok l'" and "rx_frame l l'" and "rx_abs l' = st" and "\<And>i. i < rx_num_clients (fst l) \<Longrightarrow> queue_of l' i = queue_of l i"
    and "\<And>i. told l i \<Longrightarrow> told l' i"
  shows "rx_moves l l' st []"
  using assms by (simp add: rx_moves_def)

lemma reset_moves:
  assumes "rx_ok (s, t, x)"
  shows "rx_moves (s, t, x) (rx_reset s, t, x) (Normal, rx_current s, []) []"
  using assms by (simp add: rx_moves_def rx_reset_def rx_kept_def)

lemma reset_after:
  assumes "rx_moves l (s, t, x) (m, c, ds) out"
  shows "rx_moves l (rx_reset s, t, x) (Normal, c, []) out"
proof -
  have eq: "queue_of (rx_reset s, t, x) = queue_of (s, t, x)" "told (rx_reset s, t, x) = told (s, t, x)" by (auto simp: fun_eq_iff rx_reset_def)
  have "rx_ok (s, t, x)" "rx_frame l (s, t, x)" "rx_current s = c" using assms by (auto simp: rx_moves_def simp del: rx_ok.simps)
  then have "rx_ok (rx_reset s, t, x)" "rx_frame l (rx_reset s, t, x)" "rx_abs (rx_reset s, t, x) = (Normal, c, [])"
    by (cases l; simp add: rx_reset_def rx_kept_def)+
  then show ?thesis using assms unfolding rx_moves_def eq by blast
qed

lemma accept_switched_ok:
  assumes ok: "rx_ok (s, t, x)" and m: "rx_mode s = Switched"
    and st: "demux_step (rx_switch_char s) (rx_terminate s) (rx_num_clients s) (rx_abs (s, t, x)) b = (st, out)"
  shows "\<exists>l. accept_switched b (s, t, x) = Some l \<and> rx_moves (s, t, x) l st out"
proof -
  have z: "rx_digit_len s = 0" "0 < length (rx_digits s)" using ok m by (simp_all add: MAX_CLI_BASE_10_def)
  consider "is_ascii_digit b" | "\<not> is_ascii_digit b" "b = rx_switch_char s" | "\<not> is_ascii_digit b" "b \<noteq> rx_switch_char s" by blast
  then show ?thesis
  proof cases
    case 1
    have "take (Suc 0) ((rx_digits s)[0 := b]) = [b]" using z(2) by (cases "rx_digits s") simp_all
    then show ?thesis
      using 1 ok m st z by (auto simp: accept_switched_def push_digit_def rx_moves_def rx_kept_def MAX_CLI_BASE_10_def)
  next
    case 2
    obtain s' t' x' where e: "enqueue_current b (s, t, x) = (s', t', x')" by (cases "enqueue_current b (s, t, x)") auto
    then have mv: "rx_moves (s, t, x) (s', t', x') (Switched, rx_current s, []) [b]" using enqueue_moves [OF ok z(1), of b] m by simp
    then have "rx_moves (s, t, x) (rx_reset s', t', x') (Normal, rx_current s, []) [b]" by (rule reset_after)
    then show ?thesis using 2 e m st by (auto simp: accept_switched_def Let_def)
  next
    case 3
    then show ?thesis using reset_moves [OF ok] m st by (auto simp: accept_switched_def)
  qed
qed

lemma commit_number_ok:
  assumes ok: "rx_ok (s, t, x)"
  shows "\<exists>l. commit_number (s, t, x) = Some l \<and> rx_moves (s, t, x) l
    (Normal, case parse_client_index (take (rx_digit_len s) (rx_digits s)) of None \<Rightarrow> rx_current s
      | Some k \<Rightarrow> if k < rx_num_clients s then k else rx_current s, []) []"
proof (cases "\<exists>k. parse_client_index (take (rx_digit_len s) (rx_digits s)) = Some k \<and> k < rx_num_clients s")
  case False
  then show ?thesis using reset_moves [OF ok] ok by (auto simp: commit_number_def split: option.splits)
next
  case True
  then obtain k where k: "parse_client_index (take (rx_digit_len s) (rx_digits s)) = Some k" "k < rx_num_clients s" by blast
  let ?c = "rx_current s" and ?h = "serial_update_shared_tail (rx_clients s ! rx_current s) t"
  define s1 where "s1 = (if x then rx_notify (rx_client_ch s ! ?c) (s\<lparr>rx_clients := (rx_clients s)[?c := ?h]\<rparr>) else s)"
  let ?l = "(rx_reset (s1\<lparr>rx_current := k\<rparr>), sq_tail (sq_queue (rx_clients s1 ! k)), False)"
  have eq: "commit_number (s, t, x) = Some ?l" using k ok by (simp add: commit_number_def Let_def s1_def)
  have c: "?c < length (rx_clients s)" "?c < rx_num_clients s" using ok by simp_all
  have r: "serial_ready (rx_clients s1 ! i)" "serial_items (rx_clients s1 ! i) = queue_of (s, t, x) i" if "i < rx_num_clients s" for i
    using ok c that staged_here [of "rx_clients s ! ?c"]
    by (cases x; cases "i = ?c"; simp add: s1_def rx_notify_def staged_ready_def staged_items_def serial_update_shared_tail_def)+
  have cap: "sq_capacity (rx_clients s1 ! i) = sq_capacity (rx_clients s ! i)" for i
    using c by (cases x; cases "i = ?c"; simp add: s1_def rx_notify_def serial_update_shared_tail_def)
  have f: "rx_num_clients s1 = rx_num_clients s" "rx_switch_char s1 = rx_switch_char s" "rx_terminate s1 = rx_terminate s"
    "rx_client_ch s1 = rx_client_ch s" "rx_driver_ch s1 = rx_driver_ch s" "rx_driver s1 = rx_driver s"
    "length (rx_clients s1) = length (rx_clients s)" "set (rx_notes s) \<subseteq> set (rx_notes s1)" "x \<longrightarrow> rx_client_ch s ! ?c \<in> set (rx_notes s1)"
    by (auto simp: s1_def rx_notify_def)
  have q: "queue_of ?l i = queue_of (s, t, x) i" if "i < rx_num_clients s" for i
    using r(2) [OF that, symmetric] staged_here(1) [of "rx_clients s1 ! k"] by (simp add: rx_reset_def)
  have told: "told ?l i" if "told (s, t, x) i" for i using that f by (auto simp: rx_reset_def)
  have "rx_ok ?l" using ok k(2) r(1) f staged_here(2) [of "rx_clients s1 ! k"] by (simp add: rx_reset_def)
  moreover have "rx_frame (s, t, x) ?l" using f cap by (simp add: rx_reset_def rx_kept_def)
  moreover have "rx_abs ?l = (Normal, k, [])" by (simp add: rx_reset_def)
  ultimately have "rx_moves (s, t, x) ?l (Normal, k, []) []"
    by (rule rx_moves_silent) (use q told in \<open>simp_all only: fst_conv\<close>)
  then show ?thesis using eq k by simp
qed

lemma accept_number_ok:
  assumes ok: "rx_ok (s, t, x)" and m: "rx_mode s = Number"
    and st: "demux_step (rx_switch_char s) (rx_terminate s) (rx_num_clients s) (rx_abs (s, t, x)) b = (st, out)"
  shows "\<exists>l. accept_number b (s, t, x) = Some l \<and> rx_moves (s, t, x) l st out"
proof -
  have len: "length (take (rx_digit_len s) (rx_digits s)) = rx_digit_len s" using ok by simp
  consider "b = rx_terminate s" | "b \<noteq> rx_terminate s" "rx_digit_len s < MAX_CLI_BASE_10" "is_ascii_digit b"
    | "b \<noteq> rx_terminate s" "\<not> (rx_digit_len s < MAX_CLI_BASE_10 \<and> is_ascii_digit b)" by blast
  then show ?thesis
  proof cases
    case 1
    then show ?thesis using commit_number_ok [OF ok] m st by (auto simp: accept_number_def)
  next
    case 2
    have "take (Suc (rx_digit_len s)) ((rx_digits s)[rx_digit_len s := b]) = take (rx_digit_len s) (rx_digits s) @ [b]"
      using 2(2) ok by (simp add: take_Suc_conv_app_nth)
    then show ?thesis using 2 ok m st len by (auto simp: accept_number_def push_digit_def rx_moves_def rx_kept_def)
  next
    case 3
    then show ?thesis using reset_moves [OF ok] m st len by (auto simp: accept_number_def)
  qed
qed

lemma accept_byte_ok:
  assumes "rx_ok (s, t, x)" and "demux_step (rx_switch_char s) (rx_terminate s) (rx_num_clients s) (rx_abs (s, t, x)) b = (st, out)"
  shows "\<exists>l. accept_byte b (s, t, x) = Some l \<and> rx_moves (s, t, x) l st out"
  using accept_normal_ok [OF assms(1) _ assms(2)] accept_switched_ok [OF assms(1) _ assms(2)] accept_number_ok [OF assms(1) _ assms(2)]
  by (cases "rx_mode s") (simp_all add: accept_byte_def)

text \<open>A run of steps delivers the tagged bytes \<open>ms\<close>.\<close>

definition rx_does :: "rx_local \<Rightarrow> rx_local \<Rightarrow> line_state \<Rightarrow> (nat \<times> u8) list \<Rightarrow> bool" where
  "rx_does l l' st ms \<longleftrightarrow> rx_ok l' \<and> rx_kept (fst l) (fst l') \<and> rx_abs l' = st
     \<and> (\<forall>i<rx_num_clients (fst l). queue_of l' i = deliver (unat (sq_capacity (rx_clients (fst l) ! i))) (queue_of l i) (of_client i ms))
     \<and> (\<forall>i<rx_num_clients (fst l). told l i \<or> queue_of l' i \<noteq> queue_of l i \<longrightarrow> told l' i)"

lemma rx_moves_does: "rx_moves l l' st out \<Longrightarrow> rx_does l l' st (map (Pair (rx_current (fst l))) out)"
  unfolding rx_moves_def rx_does_def by (cases l; cases l') (auto simp: of_client_tag simp del: rx_ok.simps queue_of.simps told.simps rx_abs.simps)

lemma rx_does_trans:
  assumes "rx_does l l' st ms" and "rx_does l' l'' st' ms'"
  shows "rx_does l l'' st' (ms @ ms')"
proof -
  have k: "rx_kept (fst l) (fst l')" "rx_kept (fst l') (fst l'')" using assms by (auto simp: rx_does_def)
  then have n: "rx_num_clients (fst l') = rx_num_clients (fst l)" "rx_kept (fst l) (fst l'')" by (auto simp: rx_kept_def)
  have cap: "sq_capacity (rx_clients (fst l') ! i) = sq_capacity (rx_clients (fst l) ! i)" for i using k by (simp add: rx_kept_def)
  show ?thesis using assms n unfolding rx_does_def by (metis cap deliver_append of_client_append(1))
qed

lemma rx_does_nil: "rx_ok l \<Longrightarrow> rx_does l l (rx_abs l) []"
  by (simp add: rx_does_def rx_kept_def)

lemma rx_driver_irrelevant:
  "rx_does (s\<lparr>rx_driver := h\<rparr>, t, x) l st ms \<longleftrightarrow> rx_does (s, t, x) l st ms"
  by (simp add: rx_does_def rx_kept_def)

lemma rx_loop_ok:
  assumes "rx_ok (s, t, x)" and "demux (rx_switch_char s) (rx_terminate s) (rx_num_clients s) (rx_abs (s, t, x)) (serial_items (rx_driver s)) = (st, ms)"
  shows "\<exists>s' t' x'. rx_loop (s, t, x) = Some (s', t', x') \<and> rx_does (s, t, x) (s', t', x') st ms \<and>
    serial_items (rx_driver s') = [] \<and> same_side (rx_driver s) (rx_driver s')"
  using assms
proof (induction "serial_items (rx_driver s)" arbitrary: s t x ms)
  case Nil
  then show ?case
    using rx_does_nil [OF Nil.prems(1)] by (simp add: rx_loop.simps [of s t x] serial_dequeue_none same_side_def)
next
  case (Cons b bs)
  have r: "serial_ready (rx_driver s)" using Cons.prems(1) by simp
  obtain h where h: "serial_dequeue (rx_driver s) 0 = (0, b, h)" "serial_ready h" "serial_items h = bs" "same_side (rx_driver s) h"
    using serial_dequeue_ready [OF r Cons.hyps(2) [symmetric]] by blast
  let ?s = "s\<lparr>rx_driver := h\<rparr>"
  have ok: "rx_ok (?s, t, x)" using Cons.prems(1) h(2) by simp
  obtain st1 out where st1: "demux_step (rx_switch_char s) (rx_terminate s) (rx_num_clients s) (rx_abs (s, t, x)) b = (st1, out)" by fastforce
  obtain s1 t1 x1 where l: "accept_byte b (?s, t, x) = Some (s1, t1, x1)" "rx_moves (?s, t, x) (s1, t1, x1) st1 out"
    using accept_byte_ok [OF ok, of b st1 out] st1 by auto
  have a: "rx_ok (s1, t1, x1)" "rx_abs (s1, t1, x1) = st1" "rx_driver s1 = h" "rx_kept s s1" using l(2) 
    by (auto simp: rx_moves_def rx_kept_def simp del: rx_ok.simps rx_abs.simps)
  then have f: "rx_switch_char s1 = rx_switch_char s" "rx_terminate s1 = rx_terminate s" "rx_num_clients s1 = rx_num_clients s"
    by (simp_all add: rx_kept_def)
  obtain ms' where ms': "demux (rx_switch_char s) (rx_terminate s) (rx_num_clients s) st1 bs = (st, ms')"
    "ms = map (Pair (rx_current s)) out @ ms'"
    using Cons.prems(2) st1 Cons.hyps(2) [symmetric] by (auto split: prod.splits)
  obtain s2 t2 x2 where s2: "rx_loop (s1, t1, x1) = Some (s2, t2, x2)" "rx_does (s1, t1, x1) (s2, t2, x2) st ms'"
    "serial_items (rx_driver s2) = []" "same_side h (rx_driver s2)"
    using Cons.hyps(1) [of s1 t1 x1 ms'] a h(3) ms'(1) f by auto
  have "rx_does (s, t, x) (s2, t2, x2) st ms"
    using rx_does_trans [OF rx_moves_does [OF l(2)] s2(2)] ms'(2) by (simp add: rx_driver_irrelevant)
  moreover have "same_side (rx_driver s) (rx_driver s2)" using h(4) s2(4) by (simp add: same_side_def)
  ultimately show ?case using s2(1,3) h(1) l(1) by (simp add: rx_loop.simps [of s t x])
qed

text \<open>Between two calls nothing is staged.\<close>

definition rx_idle :: "serial_virt_rx \<Rightarrow> rx_local" where
  "rx_idle s = (s, sq_tail (sq_queue (rx_clients s ! rx_current s)), False)"

definition rx_wf :: "serial_virt_rx \<Rightarrow> bool" where "rx_wf s \<longleftrightarrow> rx_ok (rx_idle s)"

definition rx_line :: "serial_virt_rx \<Rightarrow> line_state" where
  "rx_line s = (rx_mode s, rx_current s, take (rx_digit_len s) (rx_digits s))"

definition rx_demux :: "serial_virt_rx \<Rightarrow> u8 list \<Rightarrow> line_state \<times> (nat \<times> u8) list" where
  "rx_demux s bs = demux (rx_switch_char s) (rx_terminate s) (rx_num_clients s) (rx_line s) bs"

lemma rx_idle_simps: "queue_of (rx_idle s) i = serial_items (rx_clients s ! i)" "rx_abs (rx_idle s) = rx_line s" "fst (rx_idle s) = s"
  "told (rx_idle s) i \<longleftrightarrow> rx_client_ch s ! i \<in> set (rx_notes s)"
  by (auto simp: rx_idle_def rx_line_def staged_here)

lemma rx_wfD: "rx_wf s \<Longrightarrow> i < rx_num_clients s \<Longrightarrow> serial_ready (rx_clients s ! i)"
  using staged_here(2) [of "rx_clients s ! rx_current s"] by (cases "i = rx_current s") (auto simp: rx_wf_def rx_idle_def)

text \<open>Publishing the staged bytes at the end of the handler.\<close>

abbreviation rx_publish :: "u32 \<Rightarrow> serial_virt_rx \<Rightarrow> serial_virt_rx" where
  "rx_publish t s \<equiv> s\<lparr>rx_clients := (rx_clients s)[rx_current s := serial_update_shared_tail (rx_clients s ! rx_current s) t]\<rparr>"

lemma publish_idle:
  assumes "rx_ok (s, t, x)"
  shows "rx_wf (rx_publish t s)" and "serial_items (rx_clients (rx_publish t s) ! i) = queue_of (s, t, x) i"
    and "sq_capacity (rx_clients (rx_publish t s) ! i) = sq_capacity (rx_clients s ! i)"
proof -
  let ?s = "rx_publish t s"
  let ?h = "serial_update_shared_tail (rx_clients s ! rx_current s) t"
  have c: "rx_current s < length (rx_clients s)" and r: "serial_ready ?h" using assms by (simp_all add: staged_ready_def)
  then have "staged_ready ?h (sq_tail (sq_queue ?h))" by (simp add: staged_here)
  then show "rx_wf ?s" using assms c by (simp add: rx_wf_def rx_idle_def)
  show "serial_items (rx_clients ?s ! i) = queue_of (s, t, x) i" using c by (cases "i = rx_current s") (simp_all add: staged_items_def)
  show "sq_capacity (rx_clients ?s ! i) = sq_capacity (rx_clients s ! i)"
    using c by (cases "i = rx_current s") (simp_all add: serial_update_shared_tail_def)
qed

lemma rx_wf_cong:
  "rx_wf (rx_notify ch s) = rx_wf s" "rx_wf (s\<lparr>rx_driver := serial_cancel_consumer_signal (rx_driver s)\<rparr>) = rx_wf s"
  by (simp_all add: rx_wf_def rx_idle_def rx_notify_def)

text \<open>How a call of the handler leaves the domain.\<close>

definition rx_returns :: "serial_virt_rx \<Rightarrow> serial_virt_rx \<Rightarrow> line_state \<Rightarrow> (nat \<times> u8) list \<Rightarrow> bool" where
  "rx_returns s s' st ms \<longleftrightarrow> rx_wf s' \<and> rx_kept s s' \<and> rx_line s' = st \<and> serial_items (rx_driver s') = []
     \<and> sq_capacity (rx_driver s') = sq_capacity (rx_driver s) \<and> \<not> serial_require_consumer_signal (rx_driver s')
     \<and> (serial_require_consumer_signal (rx_driver s) \<longrightarrow> rx_driver_ch s \<in> set (rx_notes s'))
     \<and> (\<forall>i<rx_num_clients s. serial_items (rx_clients s' ! i) =
          deliver (unat (sq_capacity (rx_clients s ! i))) (serial_items (rx_clients s ! i)) (of_client i ms))
     \<and> (\<forall>i<rx_num_clients s. rx_client_ch s ! i \<in> set (rx_notes s) \<or> serial_items (rx_clients s' ! i) \<noteq> serial_items (rx_clients s ! i)
          \<longrightarrow> rx_client_ch s ! i \<in> set (rx_notes s'))"

lemma serial_rx_return_ok:
  assumes wf: "rx_wf s" and dm: "rx_demux s (serial_items (rx_driver s)) = (st, ms)"
  shows "\<exists>s'. serial_rx_return s = Some s' \<and> rx_returns s s' st ms"
proof -
  obtain s1 t x where s1: "rx_loop (rx_idle s) = Some (s1, t, x)" "rx_does (rx_idle s) (s1, t, x) st ms"
    "serial_items (rx_driver s1) = []" "same_side (rx_driver s) (rx_driver s1)"
    using rx_loop_ok [OF wf [unfolded rx_wf_def rx_idle_def]] dm rx_idle_simps(2) [of s] unfolding rx_demux_def rx_idle_def by auto
  have ok: "rx_ok (s1, t, x)" and kept: "rx_kept s s1" using s1(2) by (simp_all add: rx_does_def rx_idle_simps del: rx_ok.simps)
  let ?p = "rx_publish t s1"
  note p = publish_idle [OF ok]
  have "serial_ready (rx_driver s1)" using ok by simp
  then have nf: "\<not> driver_queue_full (rx_driver s1)"
    using s1(3) by (simp add: driver_queue_full_def staged_full serial_ready_def serial_handle_wf_def ring_wf_def ring_ok_def serial_items_def
      ring_items_Nil_iff)
  define q where "q = (if serial_require_consumer_signal (rx_driver ?p)
    then rx_notify (rx_driver_ch ?p) (?p\<lparr>rx_driver := serial_cancel_consumer_signal (rx_driver ?p)\<rparr>) else ?p)"
  define s' where "s' = (if x then rx_notify (rx_client_ch q ! rx_current q) q else q)"
  have "serial_rx_return s = Some s'"
    using s1(1) nf unfolding s'_def q_def by (simp add: serial_rx_return_def rx_idle_def Let_def)
  moreover have "rx_returns s s' st ms"
  proof -
    have side: "sq_capacity (rx_driver s1) = sq_capacity (rx_driver s)"
      "serial_require_consumer_signal (rx_driver s1) = serial_require_consumer_signal (rx_driver s)"
      using s1(4) by (simp_all add: same_side_def serial_require_consumer_signal_def)
    have kp: "rx_kept s ?p" using kept p(3) by (simp add: rx_kept_def)
    have q: "rx_clients q = rx_clients ?p" "rx_client_ch q = rx_client_ch s" "rx_current q = rx_current s1" "rx_line q = rx_line s1"
      "rx_kept s q" "set (rx_notes s1) \<subseteq> set (rx_notes q)"
      using kept kp by (auto simp: q_def rx_notify_def rx_line_def rx_kept_def)
    have d: "serial_items (rx_driver q) = []" "sq_capacity (rx_driver q) = sq_capacity (rx_driver s)"
      "\<not> serial_require_consumer_signal (rx_driver q)" "serial_require_consumer_signal (rx_driver s) \<longrightarrow> rx_driver_ch s \<in> set (rx_notes q)"
      using s1(3) side kept by (auto simp: q_def rx_notify_def rx_kept_def)
    have wq: "rx_wf q" using p(1) rx_wf_cong(2) [of ?p] by (simp add: q_def rx_wf_cong(1))
    have e: "rx_clients s' = rx_clients ?p" "rx_kept s s'" "rx_line s' = rx_line s1" "rx_driver s' = rx_driver q" "set (rx_notes q) \<subseteq> set (rx_notes s')"
      "rx_wf s'" "x \<longrightarrow> rx_client_ch s ! rx_current s1 \<in> set (rx_notes s')"
      using q wq unfolding s'_def by (auto simp: rx_notify_def rx_kept_def rx_line_def rx_wf_cong(1) [unfolded rx_notify_def])
    have items: "serial_items (rx_clients s' ! i) = queue_of (s1, t, x) i" for i using p(2) [of i] e(1) by simp
    have line: "rx_line s1 = st" using s1(2) by (simp add: rx_does_def rx_line_def del: rx_ok.simps)
    have tells: "rx_client_ch s ! i \<in> set (rx_notes s')" if "told (s1, t, x) i" for i
      using that e(5,7) q(6) kept by (auto simp: rx_kept_def)
    show ?thesis
      using s1(2) d e line items tells unfolding rx_does_def rx_returns_def rx_idle_simps by auto
  qed
  ultimately show ?thesis by blast
qed

end
