(* ===== verification/SerialRxPath.thy ===== *)
theory SerialRxPath
  imports SerialVirtRx SerialPath "HOL-Library.Sublist"
begin

text \<open>
  The receive path of the serial line: the driver with its UART, the receive virtualiser and its
  clients. The driver's receive queue is shared memory. Every domain may run at any time and with any
  set of notifications. \<open>rs_line\<close> records what arrived on the line and \<open>rs_read\<close> what each client has
  taken from its queue.
\<close>

record 'u rx_sys =
  rs_virt :: serial_virt_rx
  rs_drv :: "'u serial_driver"
  rs_line :: "u8 list"
  rs_read :: "nat \<Rightarrow> u8 list"

definition client_reads :: "nat \<Rightarrow> 'u rx_sys \<Rightarrow> 'u rx_sys option" where
  "client_reads i s =
     (if i < rx_num_clients (rs_virt s) then
        (case serial_dequeue (rx_clients (rs_virt s) ! i) 0 of (e, b, h) \<Rightarrow>
           if e \<noteq> 0 then None
           else Some (s\<lparr>rs_virt := (rs_virt s)\<lparr>rx_clients := (rx_clients (rs_virt s))[i := h]\<rparr>,
             rs_read := (rs_read s)(i := rs_read s i @ [b])\<rparr>))
      else None)"

definition rx_virt_turn :: "nat set \<Rightarrow> 'u rx_sys \<Rightarrow> 'u rx_sys option" where
  "rx_virt_turn chs s =
     map_option (\<lambda>v. s\<lparr>rs_virt := v, rs_drv := (rs_drv s)\<lparr>sd_rx := rx_driver v\<rparr>\<rparr>) (serial_virt_rx_notified chs (rs_virt s))"

definition rx_driver_turn :: "'u uart \<Rightarrow> nat set \<Rightarrow> 'u rx_sys \<Rightarrow> 'u rx_sys option" where
  "rx_driver_turn U chs s =
     map_option (\<lambda>d. s\<lparr>rs_drv := d, rs_virt := (rs_virt s)\<lparr>rx_driver := sd_rx d\<rparr>\<rparr>) (serial_driver_notified U chs (rs_drv s))"

text \<open>Bytes arrive when the input of the UART grows.\<close>

definition arrives :: "('u \<Rightarrow> u8 list) \<Rightarrow> u8 list \<Rightarrow> 'u \<Rightarrow> 'u rx_sys \<Rightarrow> 'u rx_sys option" where
  "arrives inp bs u s =
     (if inp u = inp (sd_uart (rs_drv s)) @ bs
      then Some (s\<lparr>rs_drv := (rs_drv s)\<lparr>sd_uart := u\<rparr>, rs_line := rs_line s @ bs\<rparr>) else None)"

inductive rx_run :: "'u uart \<Rightarrow> ('u \<Rightarrow> u8 list) \<Rightarrow> 'u rx_sys \<Rightarrow> 'u rx_sys \<Rightarrow> bool" for U inp s0 where
  start: "rx_run U inp s0 s0"
| arrival: "rx_run U inp s0 s \<Longrightarrow> arrives inp bs u s = Some s' \<Longrightarrow> rx_run U inp s0 s'"
| driver: "rx_run U inp s0 s \<Longrightarrow> rx_driver_turn U chs s = Some s' \<Longrightarrow> rx_run U inp s0 s'"
| virt: "rx_run U inp s0 s \<Longrightarrow> rx_virt_turn chs s = Some s' \<Longrightarrow> rx_run U inp s0 s'"
| client: "rx_run U inp s0 s \<Longrightarrow> client_reads i s = Some s' \<Longrightarrow> rx_run U inp s0 s'"

subsection \<open>Start-up\<close>

definition rx_config_ok :: "serial_virt_rx_config_t \<Rightarrow> bool" where
  "rx_config_ok cfg \<longleftrightarrow> src_magic cfg = SDDF_SERIAL_MAGIC \<and> 1 \<le> unat (src_num_clients cfg)
     \<and> unat (src_num_clients cfg) \<le> SDDF_SERIAL_MAX_CLIENTS \<and> fresh (src_driver cfg)
     \<and> (\<forall>i<unat (src_num_clients cfg). fresh (src_clients cfg ! i))"

lemma rx_handles_ok:
  "n \<le> SDDF_SERIAL_MAX_CLIENTS \<Longrightarrow> \<exists>hs chs. fold (\<lambda>i (clients, client_ch).
      (clients[i := serial_handle_of (cs ! i)], client_ch[i := unat (sc_id (cs ! i))]))
    [0..<n] (replicate SDDF_SERIAL_MAX_CLIENTS empty_handle, replicate SDDF_SERIAL_MAX_CLIENTS (0::nat)) = (hs, chs) \<and>
    length hs = SDDF_SERIAL_MAX_CLIENTS \<and> (\<forall>i<n. hs ! i = serial_handle_of (cs ! i))"
proof (induction n)
  case 0
  show ?case by simp
next
  case (Suc n)
  then show ?case by (auto simp: nth_list_update less_Suc_eq)
qed

lemma serial_virt_rx_init_ok:
  assumes "rx_config_ok cfg"
  shows "\<exists>v. serial_virt_rx_init cfg = Some v \<and> rx_wf v \<and> rx_num_clients v = unat (src_num_clients cfg) \<and>
    rx_switch_char v = src_switch_char cfg \<and> rx_terminate v = src_terminate_num_char cfg \<and> rx_line v = (Normal, 0, []) \<and>
    rx_driver v = serial_handle_of (src_driver cfg) \<and> (\<forall>i<rx_num_clients v. rx_clients v ! i = serial_handle_of (src_clients cfg ! i))"
proof -
  let ?n = "unat (src_num_clients cfg)"
  obtain hs chs where h: "fold (\<lambda>i (clients, client_ch).
      (clients[i := serial_handle_of (src_clients cfg ! i)], client_ch[i := unat (sc_id (src_clients cfg ! i))]))
    [0..<?n] (replicate SDDF_SERIAL_MAX_CLIENTS empty_handle, replicate SDDF_SERIAL_MAX_CLIENTS 0) = (hs, chs)"
    "length hs = SDDF_SERIAL_MAX_CLIENTS" "\<forall>i<?n. hs ! i = serial_handle_of (src_clients cfg ! i)"
    using rx_handles_ok [of ?n "src_clients cfg"] assms by (auto simp: rx_config_ok_def)
  have "serial_ready (hs ! 0)" "\<forall>i<?n. serial_ready (hs ! i)" using h(3) assms by (auto simp: rx_config_ok_def fresh_def)
  then show ?thesis
    using assms h staged_here(2) [of "hs ! 0"]
    by (auto simp: serial_virt_rx_init_def rx_config_ok_def fresh_def rx_wf_def rx_idle_def rx_line_def Let_def MAX_CLI_BASE_10_def)
qed

subsection \<open>The invariant\<close>

lemma demux_append:
  "demux sw tm n st (xs @ ys) = (case demux sw tm n st xs of (st1, ms) \<Rightarrow> case demux sw tm n st1 ys of (st2, ms') \<Rightarrow> (st2, ms @ ms'))"
  by (induction xs arbitrary: st) (auto split: prod.splits)

lemma deliver_subseq: "\<exists>cs. deliver cap q bs = q @ cs \<and> subseq cs bs"
proof (induction bs arbitrary: q)
  case (Cons b bs)
  show ?case using Cons [of "q @ [b]"] Cons [of q] by auto
qed simp

text \<open>The virtualiser has taken \<open>taken\<close> off the driver's queue, which means \<open>ms\<close>.\<close>

definition received :: "('u \<Rightarrow> u8 list) \<Rightarrow> 'u rx_sys \<Rightarrow> 'u rx_sys \<Rightarrow> u8 list \<Rightarrow> (nat \<times> u8) list \<Rightarrow> bool" where
  "received inp s0 s taken ms \<longleftrightarrow> rs_line s = taken @ serial_items (sd_rx (rs_drv s)) @ inp (sd_uart (rs_drv s))
     \<and> rx_demux (rs_virt s0) taken = (rx_line (rs_virt s), ms)
     \<and> (\<forall>i<rx_num_clients (rs_virt s). subseq (rs_read s i @ serial_items (rx_clients (rs_virt s) ! i)) (of_client i ms))"

definition rx_inv :: "('u \<Rightarrow> u8 list) \<Rightarrow> 'u rx_sys \<Rightarrow> 'u rx_sys \<Rightarrow> bool" where
  "rx_inv inp s0 s \<longleftrightarrow> rx_wf (rs_virt s) \<and> serial_ready (sd_tx (rs_drv s)) \<and> rx_driver (rs_virt s) = sd_rx (rs_drv s)
     \<and> rx_kept (rs_virt s0) (rs_virt s) \<and> (\<exists>taken ms. received inp s0 s taken ms)"

lemma rx_wf_driver: "rx_wf v \<Longrightarrow> serial_ready h \<Longrightarrow> rx_wf (v\<lparr>rx_driver := h\<rparr>)"
  by (simp add: rx_wf_def rx_idle_def)

lemma rx_demux_cong: "rx_kept v0 v \<Longrightarrow> rx_demux v bs = demux (rx_switch_char v0) (rx_terminate v0) (rx_num_clients v0) (rx_line v) bs"
  by (simp add: rx_demux_def rx_kept_def)

lemma driver_keeps:
  assumes U: "uart_ok U inp out" and I: "rx_inv inp s0 s"
  shows "\<exists>s'. rx_driver_turn U chs s = Some s' \<and> rx_inv inp s0 s'"
proof -
  let ?d = "rs_drv s" and ?v = "rs_virt s"
  have r: "serial_ready (sd_tx ?d)" "serial_ready (sd_rx ?d)" using I by (auto simp: rx_inv_def rx_wf_def rx_idle_def)
  obtain d where d: "serial_driver_notified U chs ?d = Some d" "driver_step inp out ?d d" using serial_driver_runs [OF U r] by blast
  let ?s = "s\<lparr>rs_drv := d, rs_virt := ?v\<lparr>rx_driver := sd_rx d\<rparr>\<rparr>"
  have "serial_items (sd_rx d) @ inp (sd_uart d) = serial_items (sd_rx ?d) @ inp (sd_uart ?d)" using d(2) by (simp add: driver_step_def)
  then have "received inp s0 ?s = received inp s0 s" by (auto simp: fun_eq_iff received_def rx_line_def)
  then have "rx_inv inp s0 ?s"
    using I driver_step_ready [OF d(2)] rx_wf_driver [of ?v "sd_rx d"] by (simp add: rx_inv_def rx_kept_def)
  then show ?thesis using d(1) by (simp add: rx_driver_turn_def)
qed

lemma virt_takes:
  assumes I: "rx_inv inp s0 s"
  shows "\<exists>s'. rx_virt_turn chs s = Some s' \<and> rx_inv inp s0 s'"
proof (cases "rx_driver_ch (rs_virt s) \<in> chs")
  case False
  then show ?thesis using I by (auto simp: rx_virt_turn_def serial_virt_rx_notified_def rx_inv_def received_def)
next
  case True
  let ?v = "rs_virt s" and ?d = "rs_drv s"
  have wf: "rx_wf ?v" and k: "rx_kept (rs_virt s0) ?v" and sh: "rx_driver ?v = sd_rx ?d" using I by (simp_all add: rx_inv_def)
  obtain taken ms where m: "received inp s0 s taken ms" using I by (auto simp: rx_inv_def)
  obtain st ms' where st: "rx_demux ?v (serial_items (rx_driver ?v)) = (st, ms')" by fastforce
  obtain v where v: "serial_rx_return ?v = Some v" "rx_returns ?v v st ms'" using serial_rx_return_ok [OF wf st] by blast
  let ?s = "s\<lparr>rs_virt := v, rs_drv := ?d\<lparr>sd_rx := rx_driver v\<rparr>\<rparr>"
  have n: "rx_num_clients v = rx_num_clients ?v" using v(2) by (simp add: rx_returns_def rx_kept_def)
  have "subseq (rs_read s i @ serial_items (rx_clients v ! i)) (of_client i (ms @ ms'))" if i: "i < rx_num_clients ?v" for i
  proof -
    obtain cs where cs: "serial_items (rx_clients v ! i) = serial_items (rx_clients ?v ! i) @ cs" "subseq cs (of_client i ms')"
      using deliver_subseq i v(2) unfolding rx_returns_def by metis
    have "subseq (rs_read s i @ serial_items (rx_clients ?v ! i)) (of_client i ms)" using m i by (simp add: received_def)
    then show ?thesis using list_emb_append_mono [OF _ cs(2)] cs(1) by fastforce
  qed
  moreover have "rx_demux (rs_virt s0) (taken @ serial_items (sd_rx ?d)) = (rx_line v, ms @ ms')"
    using m st [unfolded rx_demux_cong [OF k]] v(2) sh by (simp add: received_def rx_returns_def rx_demux_def demux_append)
  ultimately have "received inp s0 ?s (taken @ serial_items (sd_rx ?d)) (ms @ ms')"
    using m v(2) n by (simp add: received_def rx_returns_def)
  then have "\<exists>taken ms. received inp s0 ?s taken ms" by blast
  moreover have "rx_kept (rs_virt s0) v" using k v(2) by (simp add: rx_returns_def rx_kept_def)
  ultimately have "rx_inv inp s0 ?s" using I v(2) by (simp add: rx_inv_def rx_returns_def)
  then show ?thesis using v(1) True by (simp add: rx_virt_turn_def serial_virt_rx_notified_def)
qed

lemma arrival_keeps: "rx_inv inp s0 s \<Longrightarrow> arrives inp bs u s = Some s' \<Longrightarrow> rx_inv inp s0 s'"
  by (auto simp: arrives_def rx_inv_def received_def split: if_splits)

lemma rx_wf_client:
  assumes "rx_wf v" and "i < rx_num_clients v" and "serial_ready h"
  shows "rx_wf (v\<lparr>rx_clients := (rx_clients v)[i := h]\<rparr>)"
  using assms staged_here(2) [of h] by (auto simp: rx_wf_def rx_idle_def nth_list_update)

lemma reading_keeps:
  assumes I: "rx_inv inp s0 s" and c: "client_reads i s = Some s'"
  shows "rx_inv inp s0 s'"
proof -
  let ?v = "rs_virt s" and ?h = "rx_clients (rs_virt s) ! i"
  have i: "i < rx_num_clients ?v" using c by (simp add: client_reads_def split: if_splits)
  have wf: "rx_wf ?v" using I by (simp add: rx_inv_def)
  then have r: "serial_ready ?h" "i < length (rx_clients ?v)" using rx_wfD [OF wf i] i by (auto simp: rx_wf_def rx_idle_def)
  obtain b bs where b: "serial_items ?h = b # bs"
    using c i serial_dequeue_none [of ?h 0] by (cases "serial_items ?h") (auto simp: client_reads_def)
  obtain h where h: "serial_dequeue ?h 0 = (0, b, h)" "serial_ready h" "serial_items h = bs" "same_side ?h h"
    using serial_dequeue_ready [OF r(1) b] by blast
  let ?v' = "?v\<lparr>rx_clients := (rx_clients ?v)[i := h]\<rparr>"
  have s': "s' = s\<lparr>rs_virt := ?v', rs_read := (rs_read s)(i := rs_read s i @ [b])\<rparr>" using c i h(1) by (simp add: client_reads_def)
  obtain taken ms where m: "received inp s0 s taken ms" using I by (auto simp: rx_inv_def)
  have "received inp s0 s' taken ms" using m h(3) b r(2) s' by (auto simp: received_def nth_list_update rx_line_def)
  moreover have "rx_kept (rs_virt s0) ?v'" using I h(4) r(2) by (auto simp: rx_inv_def rx_kept_def same_side_def nth_list_update)
  ultimately show ?thesis using I s' rx_wf_client [OF wf i h(2)] by (auto simp: rx_inv_def)
qed

lemma rx_run_inv:
  assumes "uart_ok U inp out" and "rx_run U inp s0 s" and "rx_inv inp s0 s0"
  shows "rx_inv inp s0 s"
  using assms(2)
proof (induction)
  case (driver s chs s')
  then show ?case using driver_keeps [OF assms(1), of s0 s chs] by auto
next
  case (virt s chs s')
  then show ?case using virt_takes [of inp s0 s chs] by auto
qed (use assms(3) in \<open>auto intro: arrival_keeps reading_keeps\<close>)

definition rx_boot :: "serial_virt_rx \<Rightarrow> 'u serial_driver \<Rightarrow> 'u rx_sys" where
  "rx_boot v d = \<lparr>rs_virt = v, rs_drv = d\<lparr>sd_rx := rx_driver v\<rparr>, rs_line = [], rs_read = (\<lambda>_. [])\<rparr>"

lemma rx_boot_inv:
  assumes "rx_config_ok cfg" and "serial_virt_rx_init cfg = Some v" and "serial_ready (sd_tx d)" and "inp (sd_uart d) = []"
  shows "rx_inv inp (rx_boot v d) (rx_boot v d)"
proof -
  have v: "rx_wf v" "rx_line v = (Normal, 0, [])" "serial_items (rx_driver v) = []" "\<forall>i<rx_num_clients v. serial_items (rx_clients v ! i) = []"
    using serial_virt_rx_init_ok [OF assms(1)] assms(1,2) by (auto simp: rx_config_ok_def fresh_def)
  have "received inp (rx_boot v d) (rx_boot v d) [] []" using v assms(4) by (simp add: received_def rx_boot_def rx_demux_def)
  then show ?thesis using v(1) assms(3) by (auto simp: rx_inv_def rx_boot_def rx_kept_def)
qed

subsection \<open>Addressing a client\<close>

text \<open>What a sender on the line types for \<open>bs\<close> to reach client \<open>c\<close>.\<close>

fun decimal :: "nat \<Rightarrow> u8 list" where
  "decimal n = (if n < 10 then [] else decimal (n div 10)) @ [0x30 + of_nat (n mod 10)]"

declare decimal.simps [simp del]

definition escape :: "u8 \<Rightarrow> u8 list \<Rightarrow> u8 list" where
  "escape sw bs = concat (map (\<lambda>b. if b = sw then [sw, sw] else [b]) bs)"

fun address :: "u8 \<Rightarrow> u8 \<Rightarrow> nat \<times> u8 list \<Rightarrow> u8 list" where
  "address sw tm (c, bs) = sw # decimal c @ tm # escape sw bs"

lemma digit_word:
  assumes "d < 10"
  shows "is_ascii_digit (0x30 + of_nat d)" and "unat ((0x30 + of_nat d :: u8) - 0x30) = d"
proof -
  have "unat (of_nat d :: u8) = d" using assms by (simp add: unat_of_nat)
  moreover have "unat (0x30 + of_nat d :: u8) = 0x30 + d" using assms by (simp add: unat_word_ariths unat_of_nat)
  ultimately show "is_ascii_digit (0x30 + of_nat d)" "unat ((0x30 + of_nat d :: u8) - 0x30) = d"
    using assms by (simp_all add: is_ascii_digit_def word_le_nat_alt)
qed

lemma decimal_digits: "\<forall>b\<in>set (decimal n). is_ascii_digit b"
proof (induction n rule: decimal.induct)
  case (1 n)
  then show ?case using digit_word(1) [of "n mod 10"] by (auto simp: decimal.simps [of n])
qed

lemma decimal_length: "n < 10 ^ Suc k \<Longrightarrow> length (decimal n) \<le> Suc k"
proof (induction k arbitrary: n)
  case 0
  then show ?case by (simp add: decimal.simps)
next
  case (Suc k)
  then have "n div 10 < 10 ^ Suc k" by (simp add: less_mult_imp_div_less mult.commute)
  then show ?case using Suc.IH [of "n div 10"] by (simp add: decimal.simps [of n])
qed

lemma parse_digits_append: "parse_digits v (xs @ ys) = Option.bind (parse_digits v xs) (\<lambda>w. parse_digits w ys)"
  by (induction xs arbitrary: v) auto

lemma parse_decimal: "n < 2 ^ 64 \<Longrightarrow> parse_digits 0 (decimal n) = Some n"
proof (induction n rule: decimal.induct)
  case (1 n)
  have "parse_digits 0 (if n < 10 then [] else decimal (n div 10)) = Some (n div 10)" using 1 by auto
  moreover have "n div 10 * 10 < 2 ^ 64" using 1(2) by simp
  ultimately show ?case
    using 1(2) digit_word [of "n mod 10"] by (simp add: decimal.simps [of n] parse_digits_append)
qed

lemma demux_digits:
  assumes "\<forall>b\<in>set bs. is_ascii_digit b" and "\<not> is_ascii_digit tm" and "length ds + length bs \<le> MAX_CLI_BASE_10"
  shows "demux sw tm n (Number, c, ds) bs = ((Number, c, ds @ bs), [])"
  using assms
proof (induction bs arbitrary: ds)
  case (Cons b bs)
  then have "b \<noteq> tm" by auto
  then show ?case using Cons.prems Cons.IH [of "ds @ [b]"] by simp
qed simp

lemma demux_escape:
  assumes "\<not> is_ascii_digit sw"
  shows "demux sw tm n (Normal, c, []) (escape sw bs) = ((Normal, c, []), map (Pair c) bs)"
  using assms by (induction bs) (auto simp: escape_def)

lemma demux_address:
  assumes "\<not> is_ascii_digit sw" and "\<not> is_ascii_digit tm" and "c < n" and "n \<le> SDDF_SERIAL_MAX_CLIENTS"
  shows "demux sw tm n (Normal, c0, []) (address sw tm (c, bs)) = ((Normal, c, []), map (Pair c) bs)"
proof -
  have c: "c < 10 ^ Suc 1" "c < 2 ^ 64" using assms(3,4) by (simp_all add: SDDF_SERIAL_MAX_CLIENTS_def)
  obtain d ds where d: "decimal c = d # ds" by (cases "decimal c") (simp_all add: decimal.simps [of c])
  have dg: "is_ascii_digit d" "\<forall>b\<in>set ds. is_ascii_digit b" using decimal_digits [of c] d by auto
  have "length [d] + length ds \<le> MAX_CLI_BASE_10" using decimal_length [OF c(1)] d by (simp add: MAX_CLI_BASE_10_def)
  from demux_digits [OF dg(2) assms(2) this]
  have "demux sw tm n (Switched, c0, []) (decimal c) = ((Number, c0, decimal c), [])" using d dg(1) by simp
  moreover have "parse_client_index (decimal c) = Some c" using parse_decimal [OF c(2)] d by (simp add: parse_client_index_def)
  ultimately show ?thesis using assms(3) demux_escape [OF assms(1)] by (simp add: demux_append)
qed

lemma demux_addresses:
  assumes "\<not> is_ascii_digit sw" and "\<not> is_ascii_digit tm" and "n \<le> SDDF_SERIAL_MAX_CLIENTS" and "\<forall>(c, bs)\<in>set segs. c < n"
  shows "\<exists>c. demux sw tm n (Normal, c0, []) (concat (map (address sw tm) segs)) =
    ((Normal, c, []), concat (map (\<lambda>(c, bs). map (Pair c) bs) segs))"
  using assms(4)
proof (induction segs arbitrary: c0)
  case (Cons seg segs)
  obtain c bs where seg: "seg = (c, bs)" by fastforce
  then have "c < n" using Cons.prems by auto
  then show ?case
    using Cons.IH [of c] Cons.prems demux_address [OF assms(1,2) _ assms(3), of c c0 bs] seg
    by (auto simp: demux_append simp del: address.simps)
qed simp

text \<open>The bytes that the segments address to client \<open>i\<close>.\<close>

definition addressed :: "nat \<Rightarrow> (nat \<times> u8 list) list \<Rightarrow> u8 list" where
  "addressed i segs = concat (map snd (filter (\<lambda>seg. fst seg = i) segs))"

lemma of_client_segments: "of_client i (concat (map (\<lambda>(c, bs). map (Pair c) bs) segs)) = addressed i segs"
  by (induction segs) (auto simp: addressed_def of_client_tag)

subsection \<open>An example\<close>

text \<open>Two clients; the switch character is control-backslash and the number ends with a carriage return.\<close>

definition sample_rx_config :: serial_virt_rx_config_t where
  "sample_rx_config = \<lparr>src_magic = SDDF_SERIAL_MAGIC, src_driver = sample_serial_conn 0, src_clients = [sample_serial_conn 1, sample_serial_conn 2],
     src_num_clients = 2, src_switch_char = 0x1C, src_terminate_num_char = 0x0D\<rparr>"

lemma sample_rx_ok: "rx_config_ok sample_rx_config" "serial_ready (sd_tx sample_driver)" "fst (sd_uart sample_driver) = []"
  using sample_serial_fresh
  by (simp_all add: rx_config_ok_def sample_rx_config_def SDDF_SERIAL_MAX_CLIENTS_def sample_driver_def fresh_def nth_Cons split: nat.split)

text \<open>The virtualiser after start-up with \<open>bs\<close> in the driver's queue.\<close>

lemma sample_rx_queue:
  assumes "length bs \<le> 0x1000" and "serial_virt_rx_init sample_rx_config = Some v"
  shows "\<exists>h. rx_wf (v\<lparr>rx_driver := h\<rparr>) \<and> serial_items h = bs"
proof -
  have v: "rx_wf v" "rx_driver v = serial_handle_of (sample_serial_conn 0)"
    using serial_virt_rx_init_ok [OF sample_rx_ok(1)] assms(2) by (auto simp: sample_rx_config_def)
  obtain h where "serial_ready h" "serial_items h = bs"
    using enqueue_all_ok [of "serial_handle_of (sample_serial_conn 0)" bs] sample_serial_fresh [of 0] assms(1) by (auto simp: fresh_def)
  then show ?thesis using rx_wf_driver [OF v(1)] by blast
qed

subsection \<open>Properties\<close>

text \<open>C25: One call of the receive virtualiser. It never indexes out of range, empties the driver's queue
  and leaves the domain ready for the next call; the bytes change its mode, current client and digits as
  the specification \<open>demux\<close> says and each client's queue gets the bytes \<open>demux\<close> gives to that client, in
  order, up to its capacity; every client whose queue changed is notified, and a driver that asked for it
  is woken.\<close>

theorem serial_rx_return_refines_demux:
  assumes "rx_wf s" and "rx_demux s (serial_items (rx_driver s)) = (st, ms)"
  shows "\<exists>s'. serial_rx_return s = Some s' \<and> rx_wf s' \<and> rx_line s' = st \<and> serial_items (rx_driver s') = [] \<and>
    (\<forall>i<rx_num_clients s. serial_items (rx_clients s' ! i) =
       deliver (unat (sq_capacity (rx_clients s ! i))) (serial_items (rx_clients s ! i)) (of_client i ms)) \<and>
    (\<forall>i<rx_num_clients s. serial_items (rx_clients s' ! i) \<noteq> serial_items (rx_clients s ! i) \<longrightarrow> rx_client_ch s ! i \<in> set (rx_notes s')) \<and>
    (serial_require_consumer_signal (rx_driver s) \<longrightarrow> rx_driver_ch s \<in> set (rx_notes s')) \<and> \<not> serial_require_consumer_signal (rx_driver s')"
  using serial_rx_return_ok [OF assms] unfolding rx_returns_def by blast

theorem serial_rx_return_refines_demux_witness:
  "\<exists>v h s'. serial_virt_rx_init sample_rx_config = Some v \<and> serial_items h = [0x41] \<and>
    serial_rx_return (v\<lparr>rx_driver := h\<rparr>) = Some s' \<and> serial_items (rx_clients s' ! 0) = [0x41]"
proof -
  obtain v where v: "serial_virt_rx_init sample_rx_config = Some v" "rx_num_clients v = 2" "rx_switch_char v = 0x1C" "rx_line v = (Normal, 0, [])"
    "rx_clients v ! 0 = serial_handle_of (sample_serial_conn 1)"
    using serial_virt_rx_init_ok [OF sample_rx_ok(1)] by (auto simp: sample_rx_config_def)
  obtain h where h: "rx_wf (v\<lparr>rx_driver := h\<rparr>)" "serial_items h = [0x41]" using sample_rx_queue [OF _ v(1), of "[0x41]"] by auto
  have "rx_demux (v\<lparr>rx_driver := h\<rparr>) (serial_items (rx_driver (v\<lparr>rx_driver := h\<rparr>))) = ((Normal, 0, []), [(0, 0x41)])"
    using v(3,4) h(2) by (simp add: rx_demux_def rx_line_def)
  from serial_rx_return_refines_demux [OF h(1) this] show ?thesis
    using v(1,2,5) h(2) sample_serial_fresh [of 1] by (fastforce simp: of_client_def fresh_def)
qed

text \<open>C26: Addressing works. Whatever clients are addressed, with the switch character, the client's decimal
  number and the terminating character before its bytes and every switch character in them doubled, one
  call of the virtualiser appends to each client's queue exactly the bytes addressed to it, as far as the
  queue has room for them, and to no other.\<close>

theorem serial_input_reaches_the_addressed_client:
  assumes "rx_wf s" and "rx_mode s = Normal" and "rx_num_clients s \<le> SDDF_SERIAL_MAX_CLIENTS"
    and "\<not> is_ascii_digit (rx_switch_char s)" and "\<not> is_ascii_digit (rx_terminate s)"
    and "\<forall>(c, bs)\<in>set segs. c < rx_num_clients s"
    and "serial_items (rx_driver s) = concat (map (address (rx_switch_char s) (rx_terminate s)) segs)"
    and "\<forall>i<rx_num_clients s. length (serial_items (rx_clients s ! i)) + length (addressed i segs) \<le> unat (sq_capacity (rx_clients s ! i))"
  shows "\<exists>s'. serial_rx_return s = Some s' \<and> rx_mode s' = Normal \<and>
    (\<forall>i<rx_num_clients s. serial_items (rx_clients s' ! i) = serial_items (rx_clients s ! i) @ addressed i segs)"
proof -
  have "rx_line s = (Normal, rx_current s, [])" using assms(1,2) by (simp add: rx_wf_def rx_idle_def rx_line_def)
  then obtain c where "rx_demux s (serial_items (rx_driver s)) = ((Normal, c, []), concat (map (\<lambda>(c, bs). map (Pair c) bs) segs))"
    using demux_addresses [OF assms(4,5,3,6)] assms(7) by (auto simp: rx_demux_def)
  from serial_rx_return_ok [OF assms(1) this] obtain s' where s': "serial_rx_return s = Some s'" "rx_line s' = (Normal, c, [])"
    "\<forall>i<rx_num_clients s. serial_items (rx_clients s' ! i) =
       deliver (unat (sq_capacity (rx_clients s ! i))) (serial_items (rx_clients s ! i)) (addressed i segs)"
    by (auto simp: rx_returns_def of_client_segments)
  then show ?thesis using assms(8) deliver_room by (auto simp: rx_line_def)
qed

theorem serial_input_reaches_the_addressed_client_witness:
  "\<exists>v h s'. serial_virt_rx_init sample_rx_config = Some v \<and> serial_items h = [0x1C, 0x31, 0x0D, 0x41, 0x1C, 0x1C] \<and>
    serial_rx_return (v\<lparr>rx_driver := h\<rparr>) = Some s' \<and> serial_items (rx_clients s' ! 0) = [] \<and> serial_items (rx_clients s' ! 1) = [0x41, 0x1C]"
proof -
  obtain v where v: "serial_virt_rx_init sample_rx_config = Some v" "rx_num_clients v = 2" "rx_switch_char v = 0x1C" "rx_terminate v = 0x0D"
    "rx_mode v = Normal" "rx_clients v ! 0 = serial_handle_of (sample_serial_conn 1)" "rx_clients v ! 1 = serial_handle_of (sample_serial_conn 2)"
    using serial_virt_rx_init_ok [OF sample_rx_ok(1)] by (auto simp: sample_rx_config_def rx_line_def)
  have a: "concat (map (address 0x1C 0x0D) [(1, [0x41, 0x1C])]) = [0x1C, 0x31, 0x0D, 0x41, 0x1C, 0x1C]"
    by (simp add: decimal.simps escape_def)
  obtain h where h: "rx_wf (v\<lparr>rx_driver := h\<rparr>)" "serial_items h = [0x1C, 0x31, 0x0D, 0x41, 0x1C, 0x1C]"
    using sample_rx_queue [OF _ v(1), of "[0x1C, 0x31, 0x0D, 0x41, 0x1C, 0x1C]"] by auto
  have f: "serial_items (rx_clients v ! 0) = []" "serial_items (rx_clients v ! 1) = []"
    "sq_capacity (rx_clients v ! 0) = 0x1000" "sq_capacity (rx_clients v ! 1) = 0x1000"
    using sample_serial_fresh v(6,7) by (simp_all add: fresh_def)
  then have "\<exists>s'. serial_rx_return (v\<lparr>rx_driver := h\<rparr>) = Some s' \<and> rx_mode s' = Normal \<and>
    (\<forall>i<rx_num_clients (v\<lparr>rx_driver := h\<rparr>). serial_items (rx_clients s' ! i) =
       serial_items (rx_clients (v\<lparr>rx_driver := h\<rparr>) ! i) @ addressed i [(1, [0x41, 0x1C])])"
    using h(2) v a
    by (intro serial_input_reaches_the_addressed_client [OF h(1), of "[(1, [0x41, 0x1C])]"])
      (auto simp: SDDF_SERIAL_MAX_CLIENTS_def is_ascii_digit_def addressed_def less_2_cases_iff)
  then show ?thesis using v(1,2) h(2) f by (fastforce simp: addressed_def)
qed

text \<open>C27: The receive path as a whole. However bytes arrive and the driver, the virtualiser and the
  clients take turns from start-up on, neither domain panics, and what a client has read together with what
  waits in its queue is, in order, a part of the bytes that the input so far addresses to this client: no
  byte is duplicated, reordered or given to another client; the rest of the input waits in the driver's
  queue and in the UART.\<close>

theorem serial_input_is_not_misdirected:
  assumes "rx_config_ok cfg" and "serial_virt_rx_init cfg = Some v" and "serial_ready (sd_tx d)" and "uart_ok U inp out"
    and "inp (sd_uart d) = []" and "rx_run U inp (rx_boot v d) s"
  shows "(\<forall>chs. \<exists>s'. rx_virt_turn chs s = Some s') \<and> (\<forall>chs. \<exists>s'. rx_driver_turn U chs s = Some s') \<and>
    (\<exists>taken ms. rs_line s = taken @ serial_items (sd_rx (rs_drv s)) @ inp (sd_uart (rs_drv s)) \<and>
      demux (src_switch_char cfg) (src_terminate_num_char cfg) (unat (src_num_clients cfg)) (Normal, 0, []) taken = (rx_line (rs_virt s), ms) \<and>
      (\<forall>i<unat (src_num_clients cfg). subseq (rs_read s i @ serial_items (rx_clients (rs_virt s) ! i)) (of_client i ms)))"
proof -
  have I: "rx_inv inp (rx_boot v d) s" using rx_run_inv [OF assms(4,6)] rx_boot_inv [where inp = inp, OF assms(1-3,5)] by blast
  have v: "rx_num_clients v = unat (src_num_clients cfg)" "rx_switch_char v = src_switch_char cfg" "rx_terminate v = src_terminate_num_char cfg"
    "rx_line v = (Normal, 0, [])" using serial_virt_rx_init_ok [OF assms(1)] assms(2) by auto
  obtain taken ms where m: "received inp (rx_boot v d) s taken ms" using I by (auto simp: rx_inv_def)
  have n: "rx_num_clients (rs_virt s) = unat (src_num_clients cfg)" using I v(1) by (simp add: rx_inv_def rx_kept_def rx_boot_def)
  have "demux (src_switch_char cfg) (src_terminate_num_char cfg) (unat (src_num_clients cfg)) (Normal, 0, []) taken = (rx_line (rs_virt s), ms)"
    using m v by (simp add: received_def rx_demux_def rx_boot_def)
  then show ?thesis
    using virt_takes [OF I] driver_keeps [OF assms(4) I] m [unfolded received_def n] by blast
qed

theorem serial_input_is_not_misdirected_witness:
  "\<exists>v s s' ms. serial_virt_rx_init sample_rx_config = Some v \<and> rx_run sample_uart fst (rx_boot v sample_driver) s \<and> rs_line s = [0x41] \<and>
    rx_virt_turn {} s = Some s' \<and> subseq (rs_read s 0 @ serial_items (rx_clients (rs_virt s) ! 0)) (of_client 0 ms)"
proof -
  obtain v where v: "serial_virt_rx_init sample_rx_config = Some v" using serial_virt_rx_init_ok [OF sample_rx_ok(1)] by blast
  obtain s where s: "arrives fst [0x41] ([0x41], []) (rx_boot v sample_driver) = Some s" "rs_line s = [0x41]"
    by (auto simp: arrives_def rx_boot_def sample_driver_def)
  have r: "rx_run sample_uart fst (rx_boot v sample_driver) s" using rx_run.arrival [OF rx_run.start s(1)] .
  have "unat (src_num_clients sample_rx_config) = 2" by (simp add: sample_rx_config_def)
  then show ?thesis
    using serial_input_is_not_misdirected [OF sample_rx_ok(1) v sample_rx_ok(2) sample_uart_ok sample_rx_ok(3) r] v r s(2)
    by (metis zero_less_numeral)
qed

end
