(* ===== verification/NetVirtTx.thy ===== *)
theory NetVirtTx
  imports NetVirtRx
begin

text \<open>
  The transmit virtualiser \<open>pds/sddf-net-virt-tx\<close>: it checks every descriptor of its client, turns
  the offset in the client's region into the address the device uses and passes it to the driver; the
  buffers the driver returns go back to the client. The configuration the build embeds is the argument
  \<open>cfg\<close>, and \<open>vt_notes\<close> lists the channels that were notified. \<open>None\<close> is a failed assertion or an
  index out of range. A handler runs here without interference; theory \<open>NetTxPath\<close> interleaves the
  steps of client, virtualiser and driver.
\<close>

record net_virt_tx_data_region_t =
  vtr_io_addr :: u64
  vtr_num_buffers :: u32

record net_virt_tx_client_config_t =
  vtcc_conn :: net_connection_resource_t
  vtcc_regions :: "net_virt_tx_data_region_t list"
  vtcc_num_regions :: u8

record net_virt_tx_config_t =
  vtc_magic :: "u8 list"
  vtc_driver :: net_connection_resource_t
  vtc_clients :: "net_virt_tx_client_config_t list"
  vtc_num_clients :: u8

record net_virt_tx =
  vt_driver :: net_queue_handle_t
  vt_client :: net_queue_handle_t
  vt_driver_ch :: u8
  vt_client_ch :: u8
  vt_notes :: "u8 list"

definition vt_notify :: "u8 \<Rightarrow> net_virt_tx \<Rightarrow> net_virt_tx" where
  "vt_notify ch s = s\<lparr>vt_notes := vt_notes s @ [ch]\<rparr>"

definition buffer_ok :: "net_virt_tx_config_t \<Rightarrow> net_buff_desc_t \<Rightarrow> bool option" where
  "buffer_ok cfg buffer =
     (let client = vtc_clients cfg ! 0; oid = unat (net_buff_desc_oid buffer)
      in if nb_len buffer = 0 \<or> ucast (nb_len buffer) > NET_BUFFER_SIZE then Some False
         else if oid \<ge> unat (vtcc_num_regions client) then Some False
         else if \<not> oid < length (vtcc_regions client) then None
         else
           let region = vtcc_regions client ! oid
           in Some (nb_io_or_offset buffer mod buf_size = 0
                \<and> nb_io_or_offset buffer < buf_size * ucast (vtr_num_buffers region)))"

definition extract_offset :: "net_virt_tx_config_t \<Rightarrow> u64 \<Rightarrow> (u8 \<times> u64) option" where
  "extract_offset cfg offset =
     (let region = vtcc_regions (vtc_clients cfg ! 0) ! 0; start = vtr_io_addr region;
        end_addr = start + ucast (vtr_num_buffers region) * buf_size
      in if \<not> (offset \<ge> start \<and> offset < end_addr) then None else Some (0, offset - start))"

text \<open>The body of the inner loop of \<open>tx_provide\<close> after its two tests; the flags say what it did: a
  buffer was enqueued for the driver, a buffer went back to the client.\<close>

definition tx_provide_one :: "net_virt_tx_config_t \<Rightarrow> net_virt_tx \<Rightarrow> (bool \<times> bool \<times> net_virt_tx) option" where
  "tx_provide_one cfg s =
     (case net_dequeue_active (vt_client s) (net_buff_desc_new 0 0 0) of (e, buffer, h) \<Rightarrow>
        let s = s\<lparr>vt_client := h\<rparr>
        in if e \<noteq> 0 then None
           else case buffer_ok cfg buffer of
             None \<Rightarrow> None
           | Some False \<Rightarrow>
               (case net_enqueue_free (vt_client s) buffer of (e, h) \<Rightarrow>
                  if e \<noteq> 0 then None else Some (False, True, s\<lparr>vt_client := h\<rparr>))
           | Some True \<Rightarrow>
               let region = vtcc_regions (vtc_clients cfg ! 0) ! unat (net_buff_desc_oid buffer);
                 buffer = buffer\<lparr>nb_io_or_offset := nb_io_or_offset buffer + vtr_io_addr region\<rparr>
               in case net_enqueue_active (vt_driver s) buffer of (e, h) \<Rightarrow>
                    if e \<noteq> 0 then None else Some (True, False, s\<lparr>vt_driver := h\<rparr>))"

lemma tx_provide_one_pending:
  "tx_provide_one cfg s = Some (e, n, s') \<Longrightarrow> active_pending (vt_client s') < active_pending (vt_client s)"
  by (auto simp: tx_provide_one_def Let_def dest!: net_enqueue_pending(1) dest: net_dequeue_pending(1)
      split: prod.splits if_splits option.splits bool.splits)

function tx_provide_all :: "net_virt_tx_config_t \<Rightarrow> bool \<Rightarrow> bool \<Rightarrow> net_virt_tx \<Rightarrow> (bool \<times> bool \<times> net_virt_tx) option" where
  "tx_provide_all cfg enqueued notify_client s =
     (if net_queue_empty_active (vt_client s) \<or> net_queue_full_active (vt_driver s) then Some (enqueued, notify_client, s)
      else case tx_provide_one cfg s of
             None \<Rightarrow> None
           | Some (e, n, s') \<Rightarrow> tx_provide_all cfg (enqueued \<or> e) (notify_client \<or> n) s')"
  by pat_completeness auto

termination tx_provide_all
  by (relation "measure (\<lambda>(cfg, e, n, s). active_pending (vt_client s))") (auto dest: tx_provide_one_pending)

declare tx_provide_all.simps [simp del]

lemma tx_provide_all_ends:
  "tx_provide_all cfg e n s = Some (e', n', s') \<Longrightarrow> net_queue_empty_active (vt_client s') \<or> net_queue_full_active (vt_driver s')"
  by (induction cfg e n s rule: tx_provide_all.induct)
    (auto simp: tx_provide_all.simps split: if_splits option.splits prod.splits)

text \<open>The outer loop: ask to be signalled, then look once more before sleeping.\<close>

function tx_reprocess_active :: "net_virt_tx_config_t \<Rightarrow> bool \<Rightarrow> bool \<Rightarrow> net_virt_tx \<Rightarrow> (bool \<times> bool \<times> net_virt_tx) option" where
  "tx_reprocess_active cfg enqueued notify_client s =
     (case tx_provide_all cfg enqueued notify_client s of
        None \<Rightarrow> None
      | Some (e, n, s1) \<Rightarrow>
          let s2 = s1\<lparr>vt_client := net_request_signal_active (vt_client s1)\<rparr>
          in if \<not> net_queue_empty_active (vt_client s2) \<and> \<not> net_queue_full_active (vt_driver s2) then
               tx_reprocess_active cfg e n (s2\<lparr>vt_client := net_cancel_signal_active (vt_client s2)\<rparr>)
             else Some (e, n, s2))"
  by pat_completeness auto

termination tx_reprocess_active
  by (relation "{}") (auto dest: tx_provide_all_ends)

declare tx_reprocess_active.simps [simp del]

definition net_tx_provide :: "net_virt_tx_config_t \<Rightarrow> net_virt_tx \<Rightarrow> net_virt_tx option" where
  "net_tx_provide cfg s =
     (case tx_reprocess_active cfg False False s of
        None \<Rightarrow> None
      | Some (enqueued, notify_client, s) \<Rightarrow>
          let s = (if notify_client \<and> net_require_signal_free (vt_client s)
            then vt_notify (vt_client_ch s) (s\<lparr>vt_client := net_cancel_signal_free (vt_client s)\<rparr>) else s)
          in Some (if enqueued \<and> net_require_signal_active (vt_driver s)
            then vt_notify (vt_driver_ch s) (s\<lparr>vt_driver := net_cancel_signal_active (vt_driver s)\<rparr>) else s))"

text \<open>The body of the inner loop of \<open>tx_return\<close>.\<close>

definition tx_return_one :: "net_virt_tx_config_t \<Rightarrow> net_virt_tx \<Rightarrow> net_virt_tx option" where
  "tx_return_one cfg s =
     (case net_dequeue_free (vt_driver s) (net_buff_desc_new 0 0 0) of (e, buffer, h) \<Rightarrow>
        let s = s\<lparr>vt_driver := h\<rparr>
        in if e \<noteq> 0 then None
           else case extract_offset cfg (nb_io_or_offset buffer) of
             None \<Rightarrow> None
           | Some (oid, offset) \<Rightarrow>
               let buffer = net_buff_desc_set_oid (buffer\<lparr>nb_io_or_offset := offset\<rparr>) oid
               in case net_enqueue_free (vt_client s) buffer of (e, h) \<Rightarrow>
                    if e \<noteq> 0 then None else Some (s\<lparr>vt_client := h\<rparr>))"

lemma tx_return_one_pending: "tx_return_one cfg s = Some s' \<Longrightarrow> free_pending (vt_driver s') < free_pending (vt_driver s)"
  by (auto simp: tx_return_one_def Let_def dest: net_dequeue_pending(2) split: prod.splits if_splits option.splits)

function tx_return_all :: "net_virt_tx_config_t \<Rightarrow> bool \<Rightarrow> net_virt_tx \<Rightarrow> (bool \<times> net_virt_tx) option" where
  "tx_return_all cfg notify_client s =
     (if net_queue_empty_free (vt_driver s) then Some (notify_client, s)
      else case tx_return_one cfg s of None \<Rightarrow> None | Some s' \<Rightarrow> tx_return_all cfg True s')"
  by pat_completeness auto

termination tx_return_all
  by (relation "measure (\<lambda>(cfg, n, s). free_pending (vt_driver s))") (auto dest: tx_return_one_pending)

declare tx_return_all.simps [simp del]

lemma tx_return_all_drains: "tx_return_all cfg n s = Some (n', s') \<Longrightarrow> net_queue_empty_free (vt_driver s')"
  by (induction cfg n s rule: tx_return_all.induct) (auto simp: tx_return_all.simps split: if_splits option.splits)

function tx_reprocess_free :: "net_virt_tx_config_t \<Rightarrow> bool \<Rightarrow> net_virt_tx \<Rightarrow> (bool \<times> net_virt_tx) option" where
  "tx_reprocess_free cfg notify_client s =
     (case tx_return_all cfg notify_client s of
        None \<Rightarrow> None
      | Some (n, s1) \<Rightarrow>
          let s2 = s1\<lparr>vt_driver := net_request_signal_free (vt_driver s1)\<rparr>
          in if \<not> net_queue_empty_free (vt_driver s2) then
               tx_reprocess_free cfg n (s2\<lparr>vt_driver := net_cancel_signal_free (vt_driver s2)\<rparr>)
             else Some (n, s2))"
  by pat_completeness auto

termination tx_reprocess_free
  by (relation "{}") (auto dest: tx_return_all_drains)

declare tx_reprocess_free.simps [simp del]

definition net_tx_return :: "net_virt_tx_config_t \<Rightarrow> net_virt_tx \<Rightarrow> net_virt_tx option" where
  "net_tx_return cfg s =
     (case tx_reprocess_free cfg False s of
        None \<Rightarrow> None
      | Some (notify_client, s) \<Rightarrow>
          Some (if notify_client \<and> net_require_signal_free (vt_client s)
            then vt_notify (vt_client_ch s) (s\<lparr>vt_client := net_cancel_signal_free (vt_client s)\<rparr>) else s))"

definition net_virt_tx_notified :: "net_virt_tx_config_t \<Rightarrow> net_virt_tx \<Rightarrow> net_virt_tx option" where
  "net_virt_tx_notified cfg s = (case net_tx_return cfg s of None \<Rightarrow> None | Some s \<Rightarrow> net_tx_provide cfg s)"

definition net_virt_tx_init :: "net_virt_tx_config_t \<Rightarrow> net_virt_tx option" where
  "net_virt_tx_init cfg =
     (if vtc_magic cfg \<noteq> SDDF_NET_MAGIC then None
      else if vtc_num_clients cfg \<noteq> 1 then None
      else if vtcc_num_regions (vtc_clients cfg ! 0) \<noteq> 1 then None
      else net_tx_provide cfg
             \<lparr>vt_driver = net_queue_from (vtc_driver cfg), vt_client = net_queue_from (vtcc_conn (vtc_clients cfg ! 0)),
              vt_driver_ch = conn_id (vtc_driver cfg), vt_client_ch = conn_id (vtcc_conn (vtc_clients cfg ! 0)), vt_notes = []\<rparr>)"

end
