(* ===== verification/NetTxPath.thy ===== *)
theory NetTxPath
  imports NetVirtTx NetRxPath
begin

text \<open>
  The transmit path of the network: client, transmit virtualiser and driver in any interleaving of their
  single steps, over queues of sixteen slots. The client is not trusted with the contents of its
  descriptors: it may send anything, but only as many descriptors as it has taken from its free queue. The
  driver returns the buffers it took. \<open>np_sent\<close> and \<open>np_taken\<close> record what the client sent and what the
  driver took.
\<close>

definition region_start :: "net_virt_tx_config_t \<Rightarrow> u64" where
  "region_start cfg = vtr_io_addr (vtcc_regions (vtc_clients cfg ! 0) ! 0)"

definition region_size :: "net_virt_tx_config_t \<Rightarrow> nat" where
  "region_size cfg = 2048 * unat (vtr_num_buffers (vtcc_regions (vtc_clients cfg ! 0) ! 0))"

definition ntx_cfg_ok :: "net_virt_tx_config_t \<Rightarrow> bool" where
  "ntx_cfg_ok cfg \<longleftrightarrow> vtcc_num_regions (vtc_clients cfg ! 0) = 1 \<and> vtcc_regions (vtc_clients cfg ! 0) \<noteq> []
     \<and> unat (region_start cfg) + region_size cfg < 2 ^ 64"

text \<open>An address of a buffer in the client's region, and a frame that may be sent.\<close>

definition in_region :: "net_virt_tx_config_t \<Rightarrow> net_buff_desc_t \<Rightarrow> bool" where
  "in_region cfg b \<longleftrightarrow> unat (region_start cfg) \<le> unat (nb_io_or_offset b)
     \<and> unat (nb_io_or_offset b) < unat (region_start cfg) + region_size cfg
     \<and> (unat (nb_io_or_offset b) - unat (region_start cfg)) mod 2048 = 0"

definition frame_fits :: "net_buff_desc_t \<Rightarrow> bool" where
  "frame_fits b \<longleftrightarrow> 0 < unat (nb_len b) \<and> unat (nb_len b) \<le> 2048"

definition valid :: "net_virt_tx_config_t \<Rightarrow> net_buff_desc_t \<Rightarrow> bool" where
  "valid cfg b \<longleftrightarrow> frame_fits b \<and> net_buff_desc_oid b = 0 \<and> unat (nb_io_or_offset b) mod 2048 = 0
     \<and> unat (nb_io_or_offset b) < region_size cfg"

definition to_device :: "net_virt_tx_config_t \<Rightarrow> net_buff_desc_t \<Rightarrow> net_buff_desc_t" where
  "to_device cfg b = b\<lparr>nb_io_or_offset := nb_io_or_offset b + region_start cfg\<rparr>"

definition from_device :: "net_virt_tx_config_t \<Rightarrow> net_buff_desc_t \<Rightarrow> net_buff_desc_t" where
  "from_device cfg b = net_buff_desc_set_oid (b\<lparr>nb_io_or_offset := nb_io_or_offset b - region_start cfg\<rparr>) 0"

subsection \<open>Checking and translating descriptors\<close>

lemma buffer_ok_valid:
  assumes "ntx_cfg_ok cfg"
  shows "buffer_ok cfg b = Some (valid cfg b)"
proof -
  let ?n = "vtr_num_buffers (vtcc_regions (vtc_clients cfg ! 0) ! 0)"
  have len: "nb_len b = 0 \<longleftrightarrow> unat (nb_len b) = 0" "NET_BUFFER_SIZE < ucast (nb_len b) \<longleftrightarrow> 2048 < unat (nb_len b)"
    by (simp_all add: NET_BUFFER_SIZE_def word_less_nat_alt unat_eq_zero unat_ucast_up)
  have "unat (nb_io_or_offset b mod 2048) = unat (nb_io_or_offset b) mod 2048" by (simp add: unat_mod)
  then have al: "nb_io_or_offset b mod buf_size = 0 \<longleftrightarrow> unat (nb_io_or_offset b) mod 2048 = 0" by (metis buf_size_2048 unat_eq_zero)
  have "unat ?n < 2 ^ 32" using unsigned_less [of ?n, where ?'a = nat] by simp
  then have "2048 * unat ?n < 2 ^ 64" by simp
  then have "unat (buf_size * ucast ?n :: u64) = region_size cfg" by (simp add: region_size_def unat_word_ariths unat_ucast_up)
  then have rg: "nb_io_or_offset b < buf_size * ucast ?n \<longleftrightarrow> unat (nb_io_or_offset b) < region_size cfg" by (simp add: word_less_nat_alt)
  have oid: "unat (net_buff_desc_oid b) \<ge> 1 \<longleftrightarrow> net_buff_desc_oid b \<noteq> 0" by (simp add: Suc_le_eq unat_gt_0)
  show ?thesis
    using assms al rg len oid by (auto simp: buffer_ok_def valid_def frame_fits_def ntx_cfg_ok_def Let_def)
qed

lemma valid_to_device:
  assumes "ntx_cfg_ok cfg" and "valid cfg b"
  shows "in_region cfg (to_device cfg b)" and "frame_fits (to_device cfg b)" and "nb_io_or_offset (from_device cfg (to_device cfg b)) = nb_io_or_offset b"
proof -
  have "unat (nb_io_or_offset b + region_start cfg) = unat (nb_io_or_offset b) + unat (region_start cfg)"
    using assms by (simp add: unat_plus_simple [THEN iffD1] ntx_cfg_ok_def valid_def unat_word_ariths)
  then show "in_region cfg (to_device cfg b)" "frame_fits (to_device cfg b)"
    using assms by (simp_all add: in_region_def to_device_def valid_def frame_fits_def)
  show "nb_io_or_offset (from_device cfg (to_device cfg b)) = nb_io_or_offset b"
    by (simp add: from_device_def to_device_def net_buff_desc_set_oid_def)
qed

lemma extract_in_region:
  assumes "ntx_cfg_ok cfg" and "in_region cfg b"
  shows "extract_offset cfg (nb_io_or_offset b) = Some (0, nb_io_or_offset b - region_start cfg)"
proof -
  let ?n = "vtr_num_buffers (vtcc_regions (vtc_clients cfg ! 0) ! 0)"
  have "unat (region_start cfg + ucast ?n * buf_size) = unat (region_start cfg) + region_size cfg"
    using assms(1) by (simp add: ntx_cfg_ok_def region_size_def unat_word_ariths unat_ucast_up mult.commute)
  then show ?thesis
    using assms(2) by (simp add: extract_offset_def in_region_def region_start_def word_le_nat_alt word_less_nat_alt Let_def)
qed

subsection \<open>Steps of the virtualiser\<close>

text \<open>\<open>k\<close> buffers are with the client or the driver.\<close>

definition vt_inv :: "net_virt_tx_config_t \<Rightarrow> nat \<Rightarrow> net_virt_tx \<Rightarrow> bool" where
  "vt_inv cfg k v \<longleftrightarrow> handle16 (vt_client v) \<and> handle16 (vt_driver v)
     \<and> length (free_items (vt_client v)) + length (active_items (vt_client v)) + length (active_items (vt_driver v))
         + length (free_items (vt_driver v)) + k = 16
     \<and> (\<forall>b\<in>set (free_items (vt_driver v)). in_region cfg b)"

lemma tx_provide_one_ok:
  assumes cfg: "ntx_cfg_ok cfg" and inv: "vt_inv cfg k v" and ne: "active_items (vt_client v) = b # bs"
  shows "\<exists>v'. tx_provide_one cfg v = Some (valid cfg b, \<not> valid cfg b, v') \<and> vt_inv cfg k v' \<and> active_items (vt_client v') = bs \<and>
    active_items (vt_driver v') = active_items (vt_driver v) @ (if valid cfg b then [to_device cfg b] else []) \<and>
    free_items (vt_client v') = free_items (vt_client v) @ (if valid cfg b then [] else [b]) \<and>
    free_items (vt_driver v') = free_items (vt_driver v) \<and> vt_notes v' = vt_notes v"
proof -
  have h: "handle16 (vt_client v)" "handle16 (vt_driver v)" and room: "length (free_items (vt_client v)) < 16" "length (active_items (vt_driver v)) < 16"
    using inv ne by (auto simp: vt_inv_def)
  obtain hc where hc: "net_dequeue_active (vt_client v) (net_buff_desc_new 0 0 0) = (0, b, hc)" "handle16 hc" "active_items hc = bs"
    "free_items hc = free_items (vt_client v)" using h(1) ne by (rule deq_active16)
  show ?thesis
  proof (cases "valid cfg b")
    case True
    then have oid: "net_buff_desc_oid b = 0" by (simp add: valid_def)
    obtain hd where hd: "net_enqueue_active (vt_driver v) (to_device cfg b) = (0, hd)" "handle16 hd"
      "active_items hd = active_items (vt_driver v) @ [to_device cfg b]" "free_items hd = free_items (vt_driver v)"
      using h(2) room(2) by (rule enq_active16)
    have "tx_provide_one cfg v = Some (True, False, v\<lparr>vt_client := hc, vt_driver := hd\<rparr>)"
      using hc(1) hd(1) True oid by (simp add: tx_provide_one_def buffer_ok_valid [OF cfg] to_device_def region_start_def)
    then show ?thesis using hc hd True inv ne by (auto simp: vt_inv_def)
  next
    case False
    obtain h2 where h2: "net_enqueue_free hc b = (0, h2)" "handle16 h2" "free_items h2 = free_items hc @ [b]" "active_items h2 = active_items hc"
      using enq_free16 [OF hc(2), of b] room(1) hc(4) by metis
    have "tx_provide_one cfg v = Some (False, True, v\<lparr>vt_client := h2\<rparr>)"
      using hc(1) h2(1) False by (simp add: tx_provide_one_def buffer_ok_valid [OF cfg])
    then show ?thesis using hc h2 False inv ne by (auto simp: vt_inv_def)
  qed
qed

lemma tx_return_one_ok:
  assumes cfg: "ntx_cfg_ok cfg" and inv: "vt_inv cfg k v" and ne: "free_items (vt_driver v) = b # bs"
  shows "\<exists>v'. tx_return_one cfg v = Some v' \<and> vt_inv cfg k v' \<and> free_items (vt_driver v') = bs \<and>
    free_items (vt_client v') = free_items (vt_client v) @ [from_device cfg b] \<and>
    active_items (vt_client v') = active_items (vt_client v) \<and> active_items (vt_driver v') = active_items (vt_driver v) \<and> vt_notes v' = vt_notes v"
proof -
  have h: "handle16 (vt_client v)" "handle16 (vt_driver v)" and room: "length (free_items (vt_client v)) < 16" and b: "in_region cfg b"
    using inv ne by (auto simp: vt_inv_def)
  obtain hd where hd: "net_dequeue_free (vt_driver v) (net_buff_desc_new 0 0 0) = (0, b, hd)" "handle16 hd" "free_items hd = bs"
    "active_items hd = active_items (vt_driver v)" using h(2) ne by (rule deq_free16)
  obtain hc where hc: "net_enqueue_free (vt_client v) (from_device cfg b) = (0, hc)" "handle16 hc"
    "free_items hc = free_items (vt_client v) @ [from_device cfg b]" "active_items hc = active_items (vt_client v)"
    using h(1) room by (rule enq_free16)
  have "tx_return_one cfg v = Some (v\<lparr>vt_driver := hd, vt_client := hc\<rparr>)"
    using hd(1) hc(1) extract_in_region [OF cfg b] by (simp add: tx_return_one_def from_device_def Let_def)
  then show ?thesis using hd hc inv ne by (auto simp: vt_inv_def)
qed

subsection \<open>Whole handlers\<close>

lemma tx_provide_all_ok:
  assumes cfg: "ntx_cfg_ok cfg" and inv: "vt_inv cfg k v"
  shows "\<exists>v'. tx_provide_all cfg e n v = Some (e \<or> (\<exists>b\<in>set (active_items (vt_client v)). valid cfg b),
      n \<or> (\<exists>b\<in>set (active_items (vt_client v)). \<not> valid cfg b), v') \<and>
    vt_inv cfg k v' \<and> active_items (vt_client v') = [] \<and>
    active_items (vt_driver v') = active_items (vt_driver v) @ map (to_device cfg) (filter (valid cfg) (active_items (vt_client v))) \<and>
    free_items (vt_client v') = free_items (vt_client v) @ filter (\<lambda>b. \<not> valid cfg b) (active_items (vt_client v)) \<and>
    free_items (vt_driver v') = free_items (vt_driver v)"
  using inv
proof (induction "active_items (vt_client v)" arbitrary: v e n)
  case Nil
  then show ?case by (simp add: tx_provide_all.simps [of cfg e n v] net_empty_full_iff)
next
  case (Cons b bs)
  obtain v1 where v1: "tx_provide_one cfg v = Some (valid cfg b, \<not> valid cfg b, v1)" "vt_inv cfg k v1" "active_items (vt_client v1) = bs"
    "active_items (vt_driver v1) = active_items (vt_driver v) @ (if valid cfg b then [to_device cfg b] else [])"
    "free_items (vt_client v1) = free_items (vt_client v) @ (if valid cfg b then [] else [b])"
    "free_items (vt_driver v1) = free_items (vt_driver v)"
    using tx_provide_one_ok [OF cfg Cons.prems Cons.hyps(2) [symmetric]] by blast
  have "length (active_items (vt_driver v)) < 16" "nq_capacity (vt_driver v) = 16"
    using Cons.prems Cons.hyps(2) [symmetric] by (simp_all add: vt_inv_def handle16_def)
  then have "\<not> net_queue_full_active (vt_driver v)" "\<not> net_queue_empty_active (vt_client v)"
    using Cons.hyps(2) [symmetric] by (simp_all add: net_empty_full_iff)
  then have "tx_provide_all cfg e n v = tx_provide_all cfg (e \<or> valid cfg b) (n \<or> \<not> valid cfg b) v1"
    using v1(1) by (simp add: tx_provide_all.simps [of cfg e n v])
  then show ?case
    using Cons.hyps(1) [OF v1(3) [symmetric] v1(2), of "e \<or> valid cfg b" "n \<or> \<not> valid cfg b"] v1(3-6) Cons.hyps(2) [symmetric]
    by (cases "valid cfg b") simp_all
qed

lemma tx_return_all_ok:
  assumes cfg: "ntx_cfg_ok cfg" and inv: "vt_inv cfg k v"
  shows "\<exists>v'. tx_return_all cfg n v = Some (n \<or> free_items (vt_driver v) \<noteq> [], v') \<and> vt_inv cfg k v' \<and> free_items (vt_driver v') = [] \<and>
    free_items (vt_client v') = free_items (vt_client v) @ map (from_device cfg) (free_items (vt_driver v)) \<and>
    active_items (vt_client v') = active_items (vt_client v) \<and> active_items (vt_driver v') = active_items (vt_driver v)"
  using inv
proof (induction "free_items (vt_driver v)" arbitrary: v n)
  case Nil
  then show ?case by (simp add: tx_return_all.simps [of cfg n v] net_empty_full_iff)
next
  case (Cons b bs)
  obtain v1 where v1: "tx_return_one cfg v = Some v1" "vt_inv cfg k v1" "free_items (vt_driver v1) = bs"
    "free_items (vt_client v1) = free_items (vt_client v) @ [from_device cfg b]"
    "active_items (vt_client v1) = active_items (vt_client v)" "active_items (vt_driver v1) = active_items (vt_driver v)"
    using tx_return_one_ok [OF cfg Cons.prems Cons.hyps(2) [symmetric]] by blast
  then have "tx_return_all cfg n v = tx_return_all cfg True v1"
    using Cons.hyps(2) [symmetric] by (simp add: tx_return_all.simps [of cfg n v] net_empty_full_iff)
  then show ?case
    using Cons.hyps(1) [OF v1(3) [symmetric] v1(2), of True] v1(3-6) Cons.hyps(2) [symmetric] by simp
qed

lemma vt_inv_signal [simp]:
  "vt_inv cfg k (v\<lparr>vt_client := net_request_signal_active (vt_client v)\<rparr>) = vt_inv cfg k v"
  "vt_inv cfg k (v\<lparr>vt_client := net_cancel_signal_free (vt_client v)\<rparr>) = vt_inv cfg k v"
  "vt_inv cfg k (v\<lparr>vt_driver := net_request_signal_free (vt_driver v)\<rparr>) = vt_inv cfg k v"
  "vt_inv cfg k (v\<lparr>vt_driver := net_cancel_signal_active (vt_driver v)\<rparr>) = vt_inv cfg k v"
  "vt_inv cfg k (vt_notify ch v) = vt_inv cfg k v"
  by (simp_all add: vt_inv_def handle16_def vt_notify_def)

lemma vt_signal_items [simp]:
  "active_items (vt_client (vt_notify ch v)) = active_items (vt_client v)" "free_items (vt_client (vt_notify ch v)) = free_items (vt_client v)"
  "active_items (vt_driver (vt_notify ch v)) = active_items (vt_driver v)" "free_items (vt_driver (vt_notify ch v)) = free_items (vt_driver v)"
  by (simp_all add: vt_notify_def)

lemma net_tx_provide_ok:
  assumes cfg: "ntx_cfg_ok cfg" and inv: "vt_inv cfg k v"
  shows "\<exists>v'. net_tx_provide cfg v = Some v' \<and> vt_inv cfg k v' \<and> active_items (vt_client v') = [] \<and>
    active_items (vt_driver v') = active_items (vt_driver v) @ map (to_device cfg) (filter (valid cfg) (active_items (vt_client v))) \<and>
    free_items (vt_client v') = free_items (vt_client v) @ filter (\<lambda>b. \<not> valid cfg b) (active_items (vt_client v)) \<and>
    free_items (vt_driver v') = free_items (vt_driver v)"
proof -
  obtain e n v1 where v1: "tx_provide_all cfg False False v = Some (e, n, v1)" "vt_inv cfg k v1" "active_items (vt_client v1) = []"
    "active_items (vt_driver v1) = active_items (vt_driver v) @ map (to_device cfg) (filter (valid cfg) (active_items (vt_client v)))"
    "free_items (vt_client v1) = free_items (vt_client v) @ filter (\<lambda>b. \<not> valid cfg b) (active_items (vt_client v))"
    "free_items (vt_driver v1) = free_items (vt_driver v)"
    using tx_provide_all_ok [OF cfg inv, of False False] by blast
  let ?v = "v1\<lparr>vt_client := net_request_signal_active (vt_client v1)\<rparr>"
  have r: "tx_reprocess_active cfg False False v = Some (e, n, ?v)"
    using v1(1,3) by (simp add: tx_reprocess_active.simps [of cfg False False v] net_empty_full_iff Let_def)
  have "vt_inv cfg k ?v" using v1(2) by simp
  then show ?thesis
    using v1(3-6) by (auto simp: net_tx_provide_def r Let_def) (auto simp: vt_inv_def handle16_def vt_notify_def)
qed

lemma net_tx_return_ok:
  assumes cfg: "ntx_cfg_ok cfg" and inv: "vt_inv cfg k v"
  shows "\<exists>v'. net_tx_return cfg v = Some v' \<and> vt_inv cfg k v' \<and> free_items (vt_driver v') = [] \<and>
    free_items (vt_client v') = free_items (vt_client v) @ map (from_device cfg) (free_items (vt_driver v)) \<and>
    active_items (vt_client v') = active_items (vt_client v) \<and> active_items (vt_driver v') = active_items (vt_driver v)"
proof -
  obtain n v1 where v1: "tx_return_all cfg False v = Some (n, v1)" "vt_inv cfg k v1" "free_items (vt_driver v1) = []"
    "free_items (vt_client v1) = free_items (vt_client v) @ map (from_device cfg) (free_items (vt_driver v))"
    "active_items (vt_client v1) = active_items (vt_client v)" "active_items (vt_driver v1) = active_items (vt_driver v)"
    using tx_return_all_ok [OF cfg inv, of False] by blast
  let ?v = "v1\<lparr>vt_driver := net_request_signal_free (vt_driver v1)\<rparr>"
  have r: "tx_reprocess_free cfg False v = Some (n, ?v)"
    using v1(1,3) by (simp add: tx_reprocess_free.simps [of cfg False v] net_empty_full_iff Let_def)
  have "vt_inv cfg k ?v" using v1(2) by simp
  then show ?thesis
    using v1(3-6) by (auto simp: net_tx_return_def r Let_def) (auto simp: vt_inv_def handle16_def vt_notify_def)
qed

subsection \<open>Interleaved runs\<close>

record ntx_path =
  np_virt :: net_virt_tx
  np_cli_held :: nat
  np_drv_held :: "net_buff_desc_t list"
  np_sent :: "net_buff_desc_t list"
  np_taken :: "net_buff_desc_t list"

definition np_client :: "net_queue_handle_t \<Rightarrow> ntx_path \<Rightarrow> ntx_path" where
  "np_client h s = s\<lparr>np_virt := (np_virt s)\<lparr>vt_client := h\<rparr>\<rparr>"

definition np_driver :: "net_queue_handle_t \<Rightarrow> ntx_path \<Rightarrow> ntx_path" where
  "np_driver h s = s\<lparr>np_virt := (np_virt s)\<lparr>vt_driver := h\<rparr>\<rparr>"

inductive ntx_step :: "net_virt_tx_config_t \<Rightarrow> ntx_path \<Rightarrow> ntx_path \<Rightarrow> bool" for cfg where
  provide: "\<not> net_queue_empty_active (vt_client (np_virt s)) \<Longrightarrow> \<not> net_queue_full_active (vt_driver (np_virt s)) \<Longrightarrow>
    tx_provide_one cfg (np_virt s) = Some (e, n, v) \<Longrightarrow> ntx_step cfg s (s\<lparr>np_virt := v\<rparr>)"
| give_back: "\<not> net_queue_empty_free (vt_driver (np_virt s)) \<Longrightarrow>
    tx_return_one cfg (np_virt s) = Some v \<Longrightarrow> ntx_step cfg s (s\<lparr>np_virt := v\<rparr>)"
| client_take: "net_dequeue_free (vt_client (np_virt s)) (net_buff_desc_new 0 0 0) = (0, b, h) \<Longrightarrow>
    ntx_step cfg s ((np_client h s)\<lparr>np_cli_held := Suc (np_cli_held s)\<rparr>)"
| client_send: "np_cli_held s = Suc k \<Longrightarrow> net_enqueue_active (vt_client (np_virt s)) b = (0, h) \<Longrightarrow>
    ntx_step cfg s ((np_client h s)\<lparr>np_cli_held := k, np_sent := np_sent s @ [b]\<rparr>)"
| driver_take: "net_dequeue_active (vt_driver (np_virt s)) (net_buff_desc_new 0 0 0) = (0, b, h) \<Longrightarrow>
    ntx_step cfg s ((np_driver h s)\<lparr>np_drv_held := np_drv_held s @ [b], np_taken := np_taken s @ [b]\<rparr>)"
| driver_return: "np_drv_held s = hs @ b # hs' \<Longrightarrow> net_enqueue_free (vt_driver (np_virt s)) (b\<lparr>nb_len := len\<rparr>) = (0, h) \<Longrightarrow>
    ntx_step cfg s ((np_driver h s)\<lparr>np_drv_held := hs @ hs'\<rparr>)"
| signal_client: "f \<in> signal_ops \<Longrightarrow> ntx_step cfg s (np_client (f (vt_client (np_virt s))) s)"
| signal_driver: "f \<in> signal_ops \<Longrightarrow> ntx_step cfg s (np_driver (f (vt_driver (np_virt s))) s)"

text \<open>The descriptors \<open>handled\<close> are done with: the valid ones went to the driver, in order.\<close>

definition ntx_flow :: "net_virt_tx_config_t \<Rightarrow> ntx_path \<Rightarrow> bool" where
  "ntx_flow cfg s \<longleftrightarrow> (\<exists>handled. np_sent s = handled @ active_items (vt_client (np_virt s)) \<and>
     np_taken s @ active_items (vt_driver (np_virt s)) = map (to_device cfg) (filter (valid cfg) handled))"

definition ntx_inv :: "net_virt_tx_config_t \<Rightarrow> ntx_path \<Rightarrow> bool" where
  "ntx_inv cfg s \<longleftrightarrow> vt_inv cfg (np_cli_held s + length (np_drv_held s)) (np_virt s) \<and> (\<forall>b\<in>set (np_drv_held s). in_region cfg b)
     \<and> ntx_flow cfg s"

lemma flow_active: "ntx_cfg_ok cfg \<Longrightarrow> ntx_flow cfg s \<Longrightarrow> b \<in> set (np_taken s @ active_items (vt_driver (np_virt s))) \<Longrightarrow>
    in_region cfg b \<and> frame_fits b"
  unfolding ntx_flow_def using valid_to_device by fastforce

lemma provide_flow:
  assumes "ntx_flow cfg s" and "active_items (vt_client (np_virt s)) = b # bs" and "active_items (vt_client v) = bs"
    and "active_items (vt_driver v) = active_items (vt_driver (np_virt s)) @ (if valid cfg b then [to_device cfg b] else [])"
  shows "ntx_flow cfg (s\<lparr>np_virt := v\<rparr>)"
proof -
  obtain hd where "np_sent s = hd @ b # bs" "np_taken s @ active_items (vt_driver (np_virt s)) = map (to_device cfg) (filter (valid cfg) hd)"
    using assms(1,2) by (auto simp: ntx_flow_def)
  then show ?thesis unfolding ntx_flow_def using assms(3,4) by (intro exI [of _ "hd @ [b]"]) (simp flip: append_assoc)
qed

lemma ntx_step_inv:
  assumes "ntx_step cfg s s'" and cfg: "ntx_cfg_ok cfg" and inv: "ntx_inv cfg s"
  shows "ntx_inv cfg s'"
  using assms(1)
proof cases
  let ?v = "np_virt s"
  have v: "vt_inv cfg (np_cli_held s + length (np_drv_held s)) ?v" and fl: "ntx_flow cfg s" and held: "\<forall>b\<in>set (np_drv_held s). in_region cfg b"
    and h: "handle16 (vt_client ?v)" "handle16 (vt_driver ?v)" using inv by (simp_all add: ntx_inv_def vt_inv_def)
  {
    case (provide e n w)
    obtain b bs where b: "active_items (vt_client ?v) = b # bs" using provide(2) by (auto simp: net_empty_full_iff neq_Nil_conv)
    then have "vt_inv cfg (np_cli_held s + length (np_drv_held s)) w" "ntx_flow cfg (s\<lparr>np_virt := w\<rparr>)"
      using tx_provide_one_ok [OF cfg v b] provide(4) provide_flow [OF fl b, of w] by auto
    then show ?thesis using provide(1) held by (simp add: ntx_inv_def)
  next
    case (give_back w)
    obtain b bs where b: "free_items (vt_driver ?v) = b # bs" using give_back(2) by (auto simp: net_empty_full_iff neq_Nil_conv)
    then have "vt_inv cfg (np_cli_held s + length (np_drv_held s)) w" "ntx_flow cfg (s\<lparr>np_virt := w\<rparr>)"
      using tx_return_one_ok [OF cfg v b] give_back(3) fl by (auto simp: ntx_flow_def)
    then show ?thesis using give_back(1) held by (simp add: ntx_inv_def)
  next
    case (client_take b h')
    then show ?thesis using v fl held dequeued16(1) [OF h(1) client_take(2)]
      by (auto simp: ntx_inv_def vt_inv_def ntx_flow_def np_client_def)
  next
    case (client_send k b h')
    have "length (active_items (vt_client ?v)) < 16" using v client_send(2) by (simp add: vt_inv_def)
    note e = enqueued16(2) [OF h(1) client_send(3) this]
    show ?thesis using v fl held e client_send(1,2) by (auto simp: ntx_inv_def vt_inv_def ntx_flow_def np_client_def)
  next
    case (driver_take b h')
    note d = dequeued16(2) [OF h(2) driver_take(2)]
    have "in_region cfg b" using flow_active [OF cfg fl, of b] d by simp
    then show ?thesis using v fl held d driver_take(1) by (auto simp: ntx_inv_def vt_inv_def ntx_flow_def np_driver_def)
  next
    case (driver_return hs b hs' len h')
    have "length (free_items (vt_driver ?v)) < 16" using v driver_return(2) by (simp add: vt_inv_def)
    note e = enqueued16(1) [OF h(2) driver_return(3) this]
    have "in_region cfg (b\<lparr>nb_len := len\<rparr>)" using held driver_return(2) by (simp add: in_region_def)
    then show ?thesis using v fl held e driver_return(1,2) by (auto simp: ntx_inv_def vt_inv_def ntx_flow_def np_driver_def)
  next
    case (signal_client f)
    then show ?thesis using v fl held by (simp add: ntx_inv_def vt_inv_def ntx_flow_def np_client_def)
  next
    case (signal_driver f)
    then show ?thesis using v fl held by (simp add: ntx_inv_def vt_inv_def ntx_flow_def np_driver_def)
  }
qed

text \<open>A step of the virtualiser fails.\<close>

definition ntx_panics :: "net_virt_tx_config_t \<Rightarrow> ntx_path \<Rightarrow> bool" where
  "ntx_panics cfg s \<longleftrightarrow>
     \<not> net_queue_empty_active (vt_client (np_virt s)) \<and> \<not> net_queue_full_active (vt_driver (np_virt s)) \<and> tx_provide_one cfg (np_virt s) = None \<or>
     \<not> net_queue_empty_free (vt_driver (np_virt s)) \<and> tx_return_one cfg (np_virt s) = None"

lemma ntx_inv_no_panic:
  assumes "ntx_cfg_ok cfg" and "ntx_inv cfg s"
  shows "\<not> ntx_panics cfg s"
proof -
  have v: "vt_inv cfg (np_cli_held s + length (np_drv_held s)) (np_virt s)" using assms(2) by (simp add: ntx_inv_def)
  have "tx_provide_one cfg (np_virt s) \<noteq> None" if "active_items (vt_client (np_virt s)) = b # bs" for b bs
    using tx_provide_one_ok [OF assms(1) v that] by fastforce
  moreover have "tx_return_one cfg (np_virt s) \<noteq> None" if "free_items (vt_driver (np_virt s)) = b # bs" for b bs
    using tx_return_one_ok [OF assms(1) v that] by fastforce
  ultimately show ?thesis unfolding ntx_panics_def net_empty_full_iff by (metis neq_Nil_conv)
qed

subsection \<open>Start-up\<close>

text \<open>The client fills its free queue with the buffers of its region.\<close>

definition ntx_started :: "net_virt_tx_config_t \<Rightarrow> ntx_path \<Rightarrow> bool" where
  "ntx_started cfg s \<longleftrightarrow> fresh_conn (vtc_driver cfg) \<and> fresh_conn (vtcc_conn (vtc_clients cfg ! 0)) \<and>
     (\<exists>v. net_virt_tx_init cfg = Some v \<and>
       s = \<lparr>np_virt = v\<lparr>vt_client := net_buffers_init (vt_client v) 0\<rparr>, np_cli_held = 0, np_drv_held = [], np_sent = [], np_taken = []\<rparr>)"

lemma net_virt_tx_init_state:
  assumes "fresh_conn (vtc_driver cfg)" and "fresh_conn (vtcc_conn (vtc_clients cfg ! 0))" and "net_virt_tx_init cfg = Some v"
  shows "handle16 (vt_client v)" and "handle16 (vt_driver v)" and "free_items (vt_client v) = []" and "active_items (vt_client v) = []"
    and "free_items (vt_driver v) = []" and "active_items (vt_driver v) = []"
proof -
  let ?d = "net_queue_from (vtc_driver cfg)" and ?c = "net_queue_from (vtcc_conn (vtc_clients cfg ! 0))"
  let ?v = "\<lparr>vt_driver = ?d, vt_client = ?c, vt_driver_ch = conn_id (vtc_driver cfg), vt_client_ch = conn_id (vtcc_conn (vtc_clients cfg ! 0)), vt_notes = []\<rparr>"
  have e: "active_items ?c = []" "free_items ?c = []" "active_items ?d = []" "free_items ?d = []" "handle16 ?c" "handle16 ?d"
    using assms(1,2) by (simp_all add: fresh_conn_def)
  have "net_tx_provide cfg ?v = Some (?v\<lparr>vt_client := net_request_signal_active ?c\<rparr>)"
    using e(1) by (simp add: net_tx_provide_def tx_reprocess_active.simps tx_provide_all.simps net_empty_full_iff Let_def)
  then have "v = ?v\<lparr>vt_client := net_request_signal_active ?c\<rparr>" using assms(3) by (simp add: net_virt_tx_init_def split: if_splits)
  then show "handle16 (vt_client v)" "handle16 (vt_driver v)" "free_items (vt_client v) = []" "active_items (vt_client v) = []"
    "free_items (vt_driver v) = []" "active_items (vt_driver v) = []" using e by (simp_all add: handle16_def)
qed

lemma ntx_started_state:
  assumes "ntx_started cfg s"
  shows "handle16 (vt_client (np_virt s))" and "handle16 (vt_driver (np_virt s))" and "active_items (vt_client (np_virt s)) = []"
    and "active_items (vt_driver (np_virt s)) = []" and "free_items (vt_driver (np_virt s)) = []"
    and "free_items (vt_client (np_virt s)) = map (net_buffer 0) [0..<16]"
    and "np_cli_held s = 0" and "np_drv_held s = []" and "np_sent s = []" and "np_taken s = []"
proof -
  obtain v where v: "fresh_conn (vtc_driver cfg)" "fresh_conn (vtcc_conn (vtc_clients cfg ! 0))" "net_virt_tx_init cfg = Some v"
    "s = \<lparr>np_virt = v\<lparr>vt_client := net_buffers_init (vt_client v) 0\<rparr>, np_cli_held = 0, np_drv_held = [], np_sent = [], np_taken = []\<rparr>"
    using assms unfolding ntx_started_def by blast
  note i = net_virt_tx_init_state [OF v(1-3)]
  show "handle16 (vt_client (np_virt s))" "handle16 (vt_driver (np_virt s))" "active_items (vt_client (np_virt s)) = []"
    "active_items (vt_driver (np_virt s)) = []" "free_items (vt_driver (np_virt s)) = []"
    "free_items (vt_client (np_virt s)) = map (net_buffer 0) [0..<16]"
    using i(2,4-6) buffers_init16 [OF i(1,3), of 0] v(4) by simp_all
  show "np_cli_held s = 0" "np_drv_held s = []" "np_sent s = []" "np_taken s = []" using v(4) by simp_all
qed

lemma ntx_started_inv: "ntx_started cfg s \<Longrightarrow> ntx_inv cfg s"
  using ntx_started_state [of cfg s] by (simp add: ntx_inv_def vt_inv_def ntx_flow_def del: map_map)

lemma ntx_reachable_inv:
  assumes "ntx_cfg_ok cfg" and "ntx_started cfg s0" and "(ntx_step cfg)\<^sup>*\<^sup>* s0 s"
  shows "ntx_inv cfg s"
  using assms(3) by (induction rule: rtranclp_induct) (auto intro: ntx_started_inv assms ntx_step_inv)

subsection \<open>An example\<close>

definition sample_tx_cfg :: net_virt_tx_config_t where
  "sample_tx_cfg = \<lparr>vtc_magic = SDDF_NET_MAGIC, vtc_driver = sample_conn 0,
     vtc_clients = [\<lparr>vtcc_conn = sample_conn 1, vtcc_regions = [\<lparr>vtr_io_addr = 0x40000000, vtr_num_buffers = 16\<rparr>], vtcc_num_regions = 1\<rparr>],
     vtc_num_clients = 1\<rparr>"

lemma sample_tx_cfg_ok: "ntx_cfg_ok sample_tx_cfg"
  by (simp add: ntx_cfg_ok_def sample_tx_cfg_def region_start_def region_size_def)

lemma sample_tx_started: "\<exists>s. ntx_started sample_tx_cfg s"
proof -
  have f: "fresh_conn (vtc_driver sample_tx_cfg)" "fresh_conn (vtcc_conn (vtc_clients sample_tx_cfg ! 0))"
    using sample_conn_fresh by (simp_all add: sample_tx_cfg_def)
  have "\<exists>v. net_virt_tx_init sample_tx_cfg = Some v"
    using f(2) by (simp add: net_virt_tx_init_def net_tx_provide_def tx_reprocess_active.simps tx_provide_all.simps net_empty_full_iff Let_def
      fresh_conn_def) (simp add: sample_tx_cfg_def)
  then show ?thesis using f by (auto simp: ntx_started_def)
qed

text \<open>The client takes a buffer and sends a frame of sixty bytes in it.\<close>

lemma sample_tx_frame:
  assumes "ntx_started sample_tx_cfg s0"
  shows "\<exists>s. (ntx_step sample_tx_cfg)\<^sup>*\<^sup>* s0 s \<and> np_sent s = [net_buff_desc_new 0 60 0] \<and>
    active_items (vt_client (np_virt s)) = [net_buff_desc_new 0 60 0] \<and> active_items (vt_driver (np_virt s)) = []"
proof -
  let ?v = "np_virt s0" and ?b = "net_buff_desc_new 0 60 0"
  note s0 = ntx_started_state [OF assms]
  have "free_items (vt_client ?v) \<noteq> []" unfolding s0(6) by simp
  then obtain b bs where b: "free_items (vt_client ?v) = b # bs" by (auto simp: neq_Nil_conv)
  obtain h where h: "net_dequeue_free (vt_client ?v) (net_buff_desc_new 0 0 0) = (0, b, h)" "handle16 h" "active_items h = []"
    using deq_free16 [OF s0(1) b] s0(3) by metis
  obtain h2 where h2: "net_enqueue_active h ?b = (0, h2)" "active_items h2 = [?b]" using enq_active16 [OF h(2), of ?b] h(3) by auto
  let ?s1 = "(np_client h s0)\<lparr>np_cli_held := Suc (np_cli_held s0)\<rparr>" 
  let ?s2 = "(np_client h2 ?s1)\<lparr>np_cli_held := np_cli_held s0, np_sent := np_sent ?s1 @ [?b]\<rparr>"
  have "ntx_step sample_tx_cfg s0 ?s1" using h(1) by (rule client_take)
  moreover have "ntx_step sample_tx_cfg ?s1 ?s2" using h2(1) by (intro client_send) (simp_all add: np_client_def)
  ultimately have "(ntx_step sample_tx_cfg)\<^sup>*\<^sup>* s0 ?s2" by (meson converse_rtranclp_into_rtranclp rtranclp.rtrancl_refl)
  then show ?thesis using h2(2) s0(4,9) by (intro exI [of _ ?s2]) (simp add: np_client_def)
qed

subsection \<open>Properties\<close>

text \<open>C28: A client that sends no more descriptors than it took from its free queue can neither use the
  transmit virtualiser to reach memory outside its region nor stop it. Whatever the descriptors hold and
  however the steps of client, virtualiser and driver interleave, no assertion of the virtualiser fails;
  every descriptor the driver is given names a buffer of the client's region and a length between 1 and
  2048; and the driver gets exactly the acceptable descriptors the client sent, in order, with the offset
  turned into the device's address.\<close>

theorem net_transmit_path_isolates_the_client:
  assumes "ntx_cfg_ok cfg" and "ntx_started cfg s0" and "(ntx_step cfg)\<^sup>*\<^sup>* s0 s"
  shows "\<not> ntx_panics cfg s \<and>
    (\<forall>b\<in>set (np_taken s @ active_items (vt_driver (np_virt s))). in_region cfg b \<and> frame_fits b) \<and>
    (\<exists>handled. np_sent s = handled @ active_items (vt_client (np_virt s)) \<and>
      np_taken s @ active_items (vt_driver (np_virt s)) = map (to_device cfg) (filter (valid cfg) handled))"
proof -
  have I: "ntx_inv cfg s" using ntx_reachable_inv [OF assms] .
  then have "ntx_flow cfg s" by (simp add: ntx_inv_def)
  then show ?thesis using ntx_inv_no_panic [OF assms(1) I] flow_active [OF assms(1)] unfolding ntx_flow_def by blast
qed

theorem net_transmit_path_isolates_the_client_witness:
  "\<exists>s0 s. ntx_started sample_tx_cfg s0 \<and> (ntx_step sample_tx_cfg)\<^sup>*\<^sup>* s0 s \<and> np_sent s = [net_buff_desc_new 0 60 0] \<and> \<not> ntx_panics sample_tx_cfg s"
proof -
  obtain s0 where s0: "ntx_started sample_tx_cfg s0" using sample_tx_started by blast
  obtain s where s: "(ntx_step sample_tx_cfg)\<^sup>*\<^sup>* s0 s" "np_sent s = [net_buff_desc_new 0 60 0]" using sample_tx_frame [OF s0] by blast
  show ?thesis using net_transmit_path_isolates_the_client [OF sample_tx_cfg_ok s0 s(1)] s0 s by blast
qed

text \<open>C29: The handler of the transmit virtualiser returns and leaves nothing behind. In every reachable
  state it hands all acceptable frames of the client to the driver, in order, gives the rejected ones back,
  and returns all buffers the driver has finished with, with the offset in the region that the client
  used.\<close>

theorem net_virt_tx_works_off_its_queues:
  assumes "ntx_cfg_ok cfg" and "ntx_started cfg s0" and "(ntx_step cfg)\<^sup>*\<^sup>* s0 s"
  shows "\<exists>v. net_virt_tx_notified cfg (np_virt s) = Some v \<and> active_items (vt_client v) = [] \<and> free_items (vt_driver v) = [] \<and>
    active_items (vt_driver v) = active_items (vt_driver (np_virt s)) @ map (to_device cfg) (filter (valid cfg) (active_items (vt_client (np_virt s)))) \<and>
    free_items (vt_client v) = free_items (vt_client (np_virt s)) @ map (from_device cfg) (free_items (vt_driver (np_virt s)))
      @ filter (\<lambda>b. \<not> valid cfg b) (active_items (vt_client (np_virt s))) \<and>
    (\<forall>b\<in>set (active_items (vt_client (np_virt s))). valid cfg b \<longrightarrow> nb_io_or_offset (from_device cfg (to_device cfg b)) = nb_io_or_offset b)"
proof -
  have v: "vt_inv cfg (np_cli_held s + length (np_drv_held s)) (np_virt s)" using ntx_reachable_inv [OF assms] by (simp add: ntx_inv_def)
  obtain v1 where v1: "net_tx_return cfg (np_virt s) = Some v1" "vt_inv cfg (np_cli_held s + length (np_drv_held s)) v1"
    "free_items (vt_driver v1) = []"
    "free_items (vt_client v1) = free_items (vt_client (np_virt s)) @ map (from_device cfg) (free_items (vt_driver (np_virt s)))"
    "active_items (vt_client v1) = active_items (vt_client (np_virt s))" "active_items (vt_driver v1) = active_items (vt_driver (np_virt s))"
    using net_tx_return_ok [OF assms(1) v] by blast
  show ?thesis
    using net_tx_provide_ok [OF assms(1) v1(2)] v1 valid_to_device(3) [OF assms(1)] by (auto simp: net_virt_tx_notified_def)
qed

theorem net_virt_tx_works_off_its_queues_witness:
  "\<exists>s0 s v. ntx_started sample_tx_cfg s0 \<and> (ntx_step sample_tx_cfg)\<^sup>*\<^sup>* s0 s \<and> net_virt_tx_notified sample_tx_cfg (np_virt s) = Some v \<and>
    active_items (vt_driver v) = [net_buff_desc_new 0x40000000 60 0]"
proof -
  obtain s0 where s0: "ntx_started sample_tx_cfg s0" using sample_tx_started by blast
  obtain s where s: "(ntx_step sample_tx_cfg)\<^sup>*\<^sup>* s0 s" "active_items (vt_client (np_virt s)) = [net_buff_desc_new 0 60 0]"
    "active_items (vt_driver (np_virt s)) = []" using sample_tx_frame [OF s0] by blast
  have "valid sample_tx_cfg (net_buff_desc_new 0 60 0)"
    by (simp add: valid_def frame_fits_def net_buff_desc_new_def net_buff_desc_oid_def region_size_def sample_tx_cfg_def)
  moreover have "to_device sample_tx_cfg (net_buff_desc_new 0 60 0) = net_buff_desc_new 0x40000000 60 0"
    by (simp add: to_device_def net_buff_desc_new_def region_start_def sample_tx_cfg_def)
  ultimately show ?thesis
    using net_virt_tx_works_off_its_queues [OF sample_tx_cfg_ok s0 s(1)] s0 s by auto
qed

text \<open>C30: The assertion on rejected buffers relies on the client keeping count. In every reachable state in
  which the client's free queue is full, a client that sends one more descriptor without having taken one
  stops the virtualiser when the descriptor is not acceptable, of length zero for instance: there is no
  room to give it back, and the handler panics.\<close>

theorem surplus_descriptor_stops_the_virtualiser:
  assumes "ntx_cfg_ok cfg" and "ntx_started cfg s0" and "(ntx_step cfg)\<^sup>*\<^sup>* s0 s"
    and "length (free_items (vt_client (np_virt s))) = 16" and "\<not> valid cfg b"
  shows "\<exists>h. net_enqueue_active (vt_client (np_virt s)) b = (0, h) \<and>
    net_virt_tx_notified cfg ((np_virt s)\<lparr>vt_client := h\<rparr>) = None"
proof -
  let ?v = "np_virt s"
  have v: "vt_inv cfg (np_cli_held s + length (np_drv_held s)) ?v" using ntx_reachable_inv [OF assms(1-3)] by (simp add: ntx_inv_def)
  then have e: "handle16 (vt_client ?v)" "active_items (vt_client ?v) = []" "active_items (vt_driver ?v) = []" "free_items (vt_driver ?v) = []"
    using assms(4) by (auto simp: vt_inv_def)
  obtain h where h: "net_enqueue_active (vt_client ?v) b = (0, h)" "handle16 h" "active_items h = [b]" "free_items h = free_items (vt_client ?v)"
    using enq_active16 [OF e(1), of b] e(2) by auto
  obtain h2 where h2: "net_dequeue_active h (net_buff_desc_new 0 0 0) = (0, b, h2)" "handle16 h2" "free_items h2 = free_items h"
    using deq_active16 [OF h(2,3)] by metis
  let ?w = "?v\<lparr>vt_client := h, vt_driver := net_request_signal_free (vt_driver ?v)\<rparr>"
  have "net_enqueue_free h2 b = (-1, h2)"
    using h2(2,3) h(4) assms(4) by (simp add: net_enqueue_free_def net_enqueue_def net_empty_full_iff handle16_def)
  then have "tx_provide_one cfg ?w = None"
    using h2(1) by (simp add: tx_provide_one_def buffer_ok_valid [OF assms(1)] assms(5))
  moreover have "nq_capacity (vt_driver ?v) = 16" using v by (simp add: vt_inv_def handle16_def)
  ultimately have "net_tx_provide cfg ?w = None"
    using h(3) e(3) by (simp add: net_tx_provide_def tx_reprocess_active.simps [of cfg False False ?w] tx_provide_all.simps [of cfg False False ?w] net_empty_full_iff)
  moreover have "net_tx_return cfg (?v\<lparr>vt_client := h\<rparr>) = Some ?w"
    using e(4) by (simp add: net_tx_return_def tx_reprocess_free.simps [of cfg False "?v\<lparr>vt_client := h\<rparr>"] tx_return_all.simps net_empty_full_iff Let_def)
  ultimately show ?thesis using h(1) by (intro exI [of _ h]) (simp add: net_virt_tx_notified_def)
qed

theorem surplus_descriptor_stops_the_virtualiser_witness:
  "\<exists>s h. ntx_started sample_tx_cfg s \<and> net_enqueue_active (vt_client (np_virt s)) (net_buff_desc_new 0 0 0) = (0, h) \<and>
    net_virt_tx_notified sample_tx_cfg ((np_virt s)\<lparr>vt_client := h\<rparr>) = None"
proof -
  obtain s where s: "ntx_started sample_tx_cfg s" using sample_tx_started by blast
  have "length (free_items (vt_client (np_virt s))) = 16" unfolding ntx_started_state(6) [OF s] by simp
  moreover have "\<not> valid sample_tx_cfg (net_buff_desc_new 0 0 0)" by (simp add: valid_def frame_fits_def net_buff_desc_new_def)
  ultimately show ?thesis
    using surplus_descriptor_stops_the_virtualiser [OF sample_tx_cfg_ok s rtranclp.rtrancl_refl] s by blast
qed

end
