(* ===== verification/Url.thy ===== *)
theory Url
  imports Prelude
begin

text \<open>
  The addresses of the desktop, \<open>lerux-desk/src/url.rs\<close>: normalising what was typed, splitting and
  rendering an \<open>https\<close> address, and resolving the target of a link against the page it is on.

  A \<open>str\<close> is the list of its bytes, and \<open>from_utf8\<close> accepts what \<open>utf8_ok\<close> describes. The
  functions return \<open>Result<_, ()>\<close>, here \<open>None\<close> for \<open>Err(())\<close>. Output is written to an array of
  \<open>LINE_CAP\<close> bytes; the model keeps the part that has been written. Slices are taken at the positions
  of ASCII characters that were found before, with one exception in \<open>resolve_href\<close>, whose result is
  \<open>None\<close> when the slice cuts a character and the program panics.
\<close>

subsection \<open>Text\<close>

definition ascii :: "string \<Rightarrow> u8 list" where "ascii s = map of_char s"

definition continuation :: "u8 \<Rightarrow> bool" where "continuation b \<longleftrightarrow> 0x80 \<le> b \<and> b \<le> 0xBF"

fun utf8_ok :: "u8 list \<Rightarrow> bool" where
  "utf8_ok [] = True"
| "utf8_ok (a # bs) =
     (if a < 0x80 then utf8_ok bs
      else if 0xC2 \<le> a \<and> a \<le> 0xDF then
        (case bs of b # rest \<Rightarrow> continuation b \<and> utf8_ok rest | _ \<Rightarrow> False)
      else if 0xE0 \<le> a \<and> a \<le> 0xEF then
        (case bs of b # c # rest \<Rightarrow>
             continuation b \<and> (a = 0xE0 \<longrightarrow> 0xA0 \<le> b) \<and> (a = 0xED \<longrightarrow> b \<le> 0x9F) \<and> continuation c \<and> utf8_ok rest
         | _ \<Rightarrow> False)
      else if 0xF0 \<le> a \<and> a \<le> 0xF4 then
        (case bs of b # c # d # rest \<Rightarrow>
             continuation b \<and> (a = 0xF0 \<longrightarrow> 0x90 \<le> b) \<and> (a = 0xF4 \<longrightarrow> b \<le> 0x8F) \<and> continuation c \<and> continuation d \<and> utf8_ok rest
         | _ \<Rightarrow> False)
      else False)"

definition char_boundary :: "nat \<Rightarrow> u8 list \<Rightarrow> bool" where
  "char_boundary i s \<longleftrightarrow> i = length s \<or> i < length s \<and> \<not> continuation (s ! i)"

definition lower :: "u8 \<Rightarrow> u8" where "lower b = (if 0x41 \<le> b \<and> b \<le> 0x5A then b + 0x20 else b)"

definition eq_ignore_ascii_case :: "u8 list \<Rightarrow> u8 list \<Rightarrow> bool" where
  "eq_ignore_ascii_case a b \<longleftrightarrow> map lower a = map lower b"

definition digit_byte :: "u8 \<Rightarrow> bool" where "digit_byte b \<longleftrightarrow> 0x30 \<le> b \<and> b \<le> 0x39"

definition alphanumeric :: "u8 \<Rightarrow> bool" where
  "alphanumeric b \<longleftrightarrow> digit_byte b \<or> 0x41 \<le> b \<and> b \<le> 0x5A \<or> 0x61 \<le> b \<and> b \<le> 0x7A"

definition whitespace :: "u8 \<Rightarrow> bool" where "whitespace b \<longleftrightarrow> b \<in> {0x20, 0x09, 0x0A, 0x0C, 0x0D}"

definition starts_with :: "u8 list \<Rightarrow> u8 list \<Rightarrow> bool" where "starts_with p s \<longleftrightarrow> take (length p) s = p"

definition ends_with_byte :: "u8 \<Rightarrow> u8 list \<Rightarrow> bool" where "ends_with_byte b s \<longleftrightarrow> s \<noteq> [] \<and> last s = b"

fun find_str :: "u8 list \<Rightarrow> u8 list \<Rightarrow> nat option" where
  "find_str p [] = (if p = [] then Some 0 else None)"
| "find_str p (x # xs) = (if starts_with p (x # xs) then Some 0 else map_option Suc (find_str p xs))"

fun split_on :: "u8 \<Rightarrow> u8 list \<Rightarrow> u8 list list" where
  "split_on c [] = [[]]"
| "split_on c (x # xs) = (if x = c then [] # split_on c xs else (case split_on c xs of [] \<Rightarrow> [[x]] | p # ps \<Rightarrow> (x # p) # ps))"

definition rsplit_once :: "u8 \<Rightarrow> u8 list \<Rightarrow> (u8 list \<times> u8 list) option" where
  "rsplit_once c s =
     (if c \<in> set s
      then Some (rev (tl (dropWhile (\<lambda>b. b \<noteq> c) (rev s))), rev (takeWhile (\<lambda>b. b \<noteq> c) (rev s)))
      else None)"

definition trim_matches :: "(u8 \<Rightarrow> bool) \<Rightarrow> u8 list \<Rightarrow> u8 list" where
  "trim_matches f s = rev (dropWhile f (rev (dropWhile f s)))"

abbreviation (input) slash :: u8 where "slash \<equiv> 0x2F"
abbreviation (input) question :: u8 where "question \<equiv> 0x3F"
abbreviation (input) hash :: u8 where "hash \<equiv> 0x23"
abbreviation (input) colon :: u8 where "colon \<equiv> 0x3A"
abbreviation (input) dot :: u8 where "dot \<equiv> 0x2E"
abbreviation (input) hyphen :: u8 where "hyphen \<equiv> 0x2D"

subsection \<open>Normalised addresses\<close>

definition LINE_CAP :: nat where "LINE_CAP = 256"

datatype NamePolicy = Public | DemoHost

record HttpsUrl =
  hu_bytes :: "u8 list"
  hu_len :: u16

definition from_bytes :: "u8 list \<Rightarrow> HttpsUrl option" where
  "from_bytes bytes =
     (if length bytes > LINE_CAP \<or> \<not> utf8_ok bytes then None
      else Some \<lparr>hu_bytes = bytes @ replicate (LINE_CAP - length bytes) 0, hu_len = of_nat (length bytes)\<rparr>)"

definition as_str :: "HttpsUrl \<Rightarrow> u8 list" where
  "as_str u = (let slice = take (unat (hu_len u)) (hu_bytes u) in if utf8_ok slice then slice else [])"

definition push :: "u8 list \<Rightarrow> u8 list \<Rightarrow> u8 list option" where
  "push out bytes = (if length out + length bytes \<le> LINE_CAP then Some (out @ bytes) else None)"

text \<open>\<open>push_u16\<close> fills an array of five digits from its end; \<open>buf\<close> is the filled part.\<close>

function u16_digits :: "nat \<Rightarrow> u8 list \<Rightarrow> u8 list" where
  "u16_digits rest buf =
     (let buf = (0x30 + of_nat (rest mod 10)) # buf; rest = rest div 10
      in if rest = 0 then buf else u16_digits rest buf)"
  by pat_completeness auto

termination u16_digits
  by (relation "measure fst") auto

declare u16_digits.simps [simp del]

definition push_u16 :: "u8 list \<Rightarrow> u16 \<Rightarrow> u8 list option" where
  "push_u16 out v = push out (u16_digits (unat v) [])"

definition is_octet :: "u8 list \<Rightarrow> bool" where
  "is_octet part \<longleftrightarrow> part \<noteq> [] \<and> length part \<le> 3 \<and> list_all digit_byte part
     \<and> foldl (\<lambda>v b. v * 10 + unat (b - 0x30)) 0 part \<le> 255"

fun ipv4_loop :: "nat \<Rightarrow> u8 list list \<Rightarrow> bool" where
  "ipv4_loop count [] \<longleftrightarrow> count = 4"
| "ipv4_loop count (part # parts) \<longleftrightarrow> (if count = 4 \<or> \<not> is_octet part then False else ipv4_loop (count + 1) parts)"

definition is_ipv4 :: "u8 list \<Rightarrow> bool" where "is_ipv4 host = ipv4_loop 0 (split_on dot host)"

text \<open>The loop of \<open>is_dns_name\<close>. A label of one byte ends it.\<close>

fun dns_loop :: "bool \<Rightarrow> u8 list list \<Rightarrow> bool" where
  "dns_loop any [] = any"
| "dns_loop any (label # labels) =
     (if label = [] \<or> length label > 63 then False
      else case tl label of
             [] \<Rightarrow> alphanumeric (hd label)
           | t # ts \<Rightarrow>
               if \<not> alphanumeric (hd label) \<or> \<not> alphanumeric (last (t # ts)) then False
               else if \<not> list_all (\<lambda>b. alphanumeric b \<or> b = hyphen) (butlast (t # ts)) then False
               else dns_loop True labels)"

definition is_dns_name :: "u8 list \<Rightarrow> bool" where
  "is_dns_name host = (if host = [] \<or> length host > 253 then False else dns_loop False (split_on dot host))"

definition parse_port :: "u8 list \<Rightarrow> u16 option" where
  "parse_port text =
     (if text = [] \<or> length text > 5 \<or> \<not> list_all digit_byte text then None
      else let v = foldl (\<lambda>v b. v * 10 + unat (b - 0x30)) 0 text
           in if v = 0 \<or> v > 65535 then None else Some (of_nat v))"

definition https_rest :: "u8 list \<Rightarrow> u8 list option" where
  "https_rest text =
     (case find_str (ascii ''://'') text of
        None \<Rightarrow> Some text
      | Some idx \<Rightarrow>
          if idx = 0 then None
          else if eq_ignore_ascii_case (take idx text) (ascii ''https'') then Some (drop (idx + 3) text)
          else None)"

abbreviation (input) ends_authority :: "u8 \<Rightarrow> bool" where "ends_authority b \<equiv> b = slash \<or> b = question \<or> b = hash"

definition host_and_port :: "u8 list \<Rightarrow> u8 list \<times> u8 list option" where
  "host_and_port authority =
     (case rsplit_once colon authority of Some (host, port) \<Rightarrow> (host, Some port) | None \<Rightarrow> (authority, None))"

definition normalize_structure :: "u8 list \<Rightarrow> HttpsUrl option" where
  "normalize_structure text =
     do {
       rest \<leftarrow> https_rest text;
       let authority = takeWhile (\<lambda>b. \<not> ends_authority b) rest;
       let tail = dropWhile (\<lambda>b. \<not> ends_authority b) rest;
       if authority = [] \<or> 0x40 \<in> set authority \<or> hd authority = 0x5B then None
       else case host_and_port authority of (host_raw, port_text) \<Rightarrow>
         if host_raw = [] \<or> length host_raw > 253 then None
         else let host = map lower host_raw
           in if \<not> utf8_ok host then None
              else if is_ipv4 host \<or> \<not> is_dns_name host then None
              else do {
                port \<leftarrow> (case port_text of Some text \<Rightarrow> map_option Some (parse_port text) | None \<Rightarrow> Some None);
                out \<leftarrow> push [] (ascii ''https://'');
                out \<leftarrow> push out host;
                out \<leftarrow> (case port of
                    Some port \<Rightarrow> do { out \<leftarrow> push out (ascii '':''); push_u16 out port }
                  | None \<Rightarrow> Some out);
                out \<leftarrow> push out tail;
                from_bytes out
              }
     }"

definition host_from_url :: "u8 list \<Rightarrow> u8 list option" where
  "host_from_url text =
     (if \<not> starts_with (ascii ''https://'') text then None
      else let rest = drop 8 text; authority = takeWhile (\<lambda>b. \<not> ends_authority b) rest;
             host = fst (host_and_port authority)
           in if host = [] then None else Some host)"

definition policy_allows :: "HttpsUrl \<Rightarrow> NamePolicy \<Rightarrow> bool" where
  "policy_allows url policy =
     (case host_from_url (as_str url) of
        None \<Rightarrow> False
      | Some host \<Rightarrow> (case policy of DemoHost \<Rightarrow> host = ascii ''host'' | Public \<Rightarrow> host \<noteq> ascii ''host''))"

definition normalize :: "u8 list \<Rightarrow> NamePolicy \<Rightarrow> HttpsUrl option" where
  "normalize text policy =
     (case normalize_structure text of None \<Rightarrow> None | Some url \<Rightarrow> if policy_allows url policy then Some url else None)"

subsection \<open>Links\<close>

datatype HrefIntent = Fetch HttpsUrl | Fragment HttpsUrl | Already | Script | Rejected

record UrlParts =
  up_authority :: "u8 list"
  up_path :: "u8 list"
  up_query :: "u8 list option"
  up_fragment :: "u8 list option"

text \<open>The query and the fragment at the start of \<open>rest\<close>, a part of both splitting functions.\<close>

definition query_fragment :: "u8 list \<Rightarrow> u8 list option \<times> u8 list option" where
  "query_fragment rest =
     (let (query, rest) = (case rest of
          b # after \<Rightarrow> if b = question then (Some (takeWhile (\<lambda>b. b \<noteq> hash) after), dropWhile (\<lambda>b. b \<noteq> hash) after) else (None, rest)
        | [] \<Rightarrow> (None, rest));
        fragment = (case rest of b # after \<Rightarrow> if b = hash then Some after else None | [] \<Rightarrow> None)
      in (query, fragment))"

abbreviation (input) ends_path :: "u8 \<Rightarrow> bool" where "ends_path b \<equiv> b = question \<or> b = hash"

definition split_path_query_fragment :: "u8 list \<Rightarrow> u8 list \<times> u8 list option \<times> u8 list option" where
  "split_path_query_fragment tail =
     (if tail = [] then (ascii ''/'', None, None)
      else let path = takeWhile (\<lambda>b. \<not> ends_path b) tail; path = (if path = [] then ascii ''/'' else path)
           in (path, query_fragment (dropWhile (\<lambda>b. \<not> ends_path b) tail)))"

definition split_url :: "u8 list \<Rightarrow> UrlParts option" where
  "split_url text =
     (if \<not> starts_with (ascii ''https://'') text then None
      else let rest = drop 8 text; authority = takeWhile (\<lambda>b. \<not> ends_authority b) rest;
             tail = dropWhile (\<lambda>b. \<not> ends_authority b) rest
           in case split_path_query_fragment tail of (path, query, fragment) \<Rightarrow>
                Some \<lparr>up_authority = authority, up_path = path, up_query = query, up_fragment = fragment\<rparr>)"

definition render_url :: "u8 list \<Rightarrow> u8 list \<Rightarrow> u8 list option \<Rightarrow> u8 list option \<Rightarrow> HttpsUrl option" where
  "render_url authority path query fragment =
     do {
       out \<leftarrow> push [] (ascii ''https://'');
       out \<leftarrow> push out authority;
       out \<leftarrow> push out path;
       out \<leftarrow> (case query of Some q \<Rightarrow> do { out \<leftarrow> push out (ascii ''?''); push out q } | None \<Rightarrow> Some out);
       out \<leftarrow> (case fragment of
           Some f \<Rightarrow> if f \<noteq> [] then do { out \<leftarrow> push out (ascii ''#''); push out f } else Some out
         | None \<Rightarrow> Some out);
       from_bytes out
     }"

definition push_path_segment :: "u8 list \<Rightarrow> u8 list list \<Rightarrow> u8 list list option" where
  "push_path_segment seg segments =
     (if seg = [] \<or> seg = ascii ''.'' then Some segments
      else if seg = ascii ''..'' then Some (butlast segments)
      else if length segments \<ge> 64 then None
      else Some (segments @ [seg]))"

fun push_path_segments :: "u8 list list \<Rightarrow> u8 list list \<Rightarrow> u8 list list option" where
  "push_path_segments [] segments = Some segments"
| "push_path_segments (seg # segs) segments =
     (case push_path_segment seg segments of None \<Rightarrow> None | Some segments \<Rightarrow> push_path_segments segs segments)"

fun push_segments :: "u8 list list \<Rightarrow> u8 list \<Rightarrow> u8 list option" where
  "push_segments [] out = Some out"
| "push_segments (segment # segments) out =
     do {
       out \<leftarrow> push out segment;
       out \<leftarrow> (if segments \<noteq> [] then push out (ascii ''/'') else Some out);
       push_segments segments out
     }"

definition merge_path_segments :: "u8 list \<Rightarrow> u8 list \<Rightarrow> HttpsUrl option" where
  "merge_path_segments base_dir href_path =
     do {
       segments \<leftarrow> (if base_dir \<noteq> ascii ''/''
         then push_path_segments (split_on slash (trim_matches (\<lambda>b. b = slash) base_dir)) [] else Some []);
       segments \<leftarrow> push_path_segments (split_on slash href_path) segments;
       out \<leftarrow> push [] (ascii ''/'');
       if segments = [] then from_bytes out
       else do { out \<leftarrow> push_segments segments out; from_bytes out }
     }"

text \<open>The loop of \<open>normalize_path_segments\<close>.\<close>

fun path_loop :: "u8 list list \<Rightarrow> u8 list list \<Rightarrow> u8 list list option" where
  "path_loop [] segments = Some segments"
| "path_loop (seg # segs) segments =
     (if seg = [] \<or> seg = ascii ''.'' then path_loop segs segments
      else if seg = ascii ''..'' then path_loop segs (butlast segments)
      else if length segments \<ge> 64 then None
      else path_loop segs (segments @ [seg]))"

definition normalize_path_segments :: "u8 list \<Rightarrow> bool \<Rightarrow> HttpsUrl option" where
  "normalize_path_segments path keep_trailing_slash =
     (let trailing = keep_trailing_slash \<or> ends_with_byte slash path
      in do {
        segments \<leftarrow> path_loop (split_on slash path) [];
        out \<leftarrow> push [] (ascii ''/'');
        if segments = [] then from_bytes out
        else do {
          out \<leftarrow> push_segments segments out;
          out \<leftarrow> (if trailing \<and> \<not> ends_with_byte slash out then push out (ascii ''/'') else Some out);
          from_bytes out
        }
      })"

definition base_directory :: "u8 list \<Rightarrow> u8 list" where
  "base_directory path =
     (if path = ascii ''/'' then ascii ''/''
      else case rsplit_once slash path of
             None \<Rightarrow> ascii ''/''
           | Some (dir, _) \<Rightarrow> if dir = [] then ascii ''/'' else dir @ [slash])"

definition merge_relative_path :: "u8 list \<Rightarrow> u8 list \<Rightarrow> HttpsUrl option" where
  "merge_relative_path base_path href_path =
     do {
       merged \<leftarrow> merge_path_segments (base_directory base_path) href_path;
       normalize_path_segments (as_str merged) (ends_with_byte slash href_path)
     }"

definition split_href_tail :: "u8 list \<Rightarrow> u8 list \<times> u8 list option \<times> u8 list option" where
  "split_href_tail href =
     (if starts_with (ascii ''#'') href then (ascii ''/'', None, Some (drop 1 href))
      else if starts_with (ascii ''?'') href then
        let rest = drop 1 href
        in (ascii ''/'', Some (takeWhile (\<lambda>b. b \<noteq> hash) rest),
            if hash \<in> set rest then Some (drop 1 (dropWhile (\<lambda>b. b \<noteq> hash) rest)) else None)
      else (takeWhile (\<lambda>b. \<not> ends_path b) href, query_fragment (dropWhile (\<lambda>b. \<not> ends_path b) href)))"

definition join_to_base :: "HttpsUrl \<Rightarrow> u8 list \<Rightarrow> HttpsUrl option" where
  "join_to_base base href =
     do {
       parts \<leftarrow> split_url (as_str base);
       case split_href_tail href of (href_path, href_query, href_fragment) \<Rightarrow>
       do {
         path_url \<leftarrow> (if starts_with (ascii ''#'') href \<or> starts_with (ascii ''?'') href then Some None
           else if starts_with (ascii ''/'') href then map_option Some (normalize_path_segments href_path (ends_with_byte slash href_path))
           else map_option Some (merge_relative_path (up_path parts) href_path));
         let path = (case path_url of None \<Rightarrow> up_path parts | Some u \<Rightarrow> as_str u);
         let query = (if starts_with (ascii ''#'') href then up_query parts else if question \<in> set href then href_query else None);
         let fragment = (if hash \<in> set href then href_fragment else None);
         render_url (up_authority parts) path query fragment
       }
     }"

definition classify_against_base :: "HttpsUrl \<Rightarrow> HttpsUrl \<Rightarrow> HrefIntent" where
  "classify_against_base base url =
     (if as_str url = as_str base then Already
      else case (split_url (as_str base), split_url (as_str url)) of
             (Some base_parts, Some url_parts) \<Rightarrow>
               if up_authority base_parts = up_authority url_parts \<and> up_path base_parts = up_path url_parts
                 \<and> up_query base_parts = up_query url_parts
               then if up_fragment base_parts = None \<and> up_fragment url_parts = None then Already else Fragment url
               else Fetch url
           | _ \<Rightarrow> Fetch url)"

definition finish_intent :: "HttpsUrl \<Rightarrow> u8 list \<Rightarrow> HrefIntent" where
  "finish_intent base absolute =
     (case normalize_structure absolute of None \<Rightarrow> Rejected | Some url \<Rightarrow> classify_against_base base url)"

definition empty_href_intent :: "HttpsUrl \<Rightarrow> HrefIntent" where
  "empty_href_intent base =
     (case split_url (as_str base) of
        None \<Rightarrow> Rejected
      | Some parts \<Rightarrow>
          if up_fragment parts = None then Already
          else (case render_url (up_authority parts) (up_path parts) (up_query parts) None of
                  Some url \<Rightarrow> Fragment url
                | None \<Rightarrow> Rejected))"

definition trim_ascii :: "u8 list \<Rightarrow> u8 list" where "trim_ascii s = trim_matches whitespace s"

definition resolve_href :: "HttpsUrl \<Rightarrow> u8 list \<Rightarrow> HrefIntent option" where
  "resolve_href base href =
     (let href = trim_ascii href
      in if href = [] then Some (empty_href_intent base)
         else if length href \<ge> 11 \<and> \<not> char_boundary 11 href then None
         else if length href \<ge> 11 \<and> eq_ignore_ascii_case (take 11 href) (ascii ''javascript:'') then Some Script
         else case find_str (ascii ''://'') href of
                Some idx \<Rightarrow>
                  Some (if \<not> eq_ignore_ascii_case (take idx href) (ascii ''https'') then Rejected else finish_intent base href)
              | None \<Rightarrow>
                  if starts_with (ascii ''//'') href then
                    let absolute = ascii ''https:'' @ href
                    in Some (if length absolute > LINE_CAP + 6 then Rejected
                         else finish_intent base (if utf8_ok absolute then absolute else []))
                  else Some (case join_to_base base href of
                         Some text \<Rightarrow> finish_intent base (as_str text)
                       | None \<Rightarrow> Rejected))"

end
