(* ===== verification/UrlNormal.thy ===== *)
theory UrlNormal
  imports Url
begin

text \<open>
  The shape of normalised addresses: \<open>normalize_structure\<close> returns exactly the addresses built from a
  lower-case host, an optional port and a rest, and such an address is its own normal form. The
  properties of \<open>url.rs\<close> in theory \<open>UrlClaims\<close> rest on this.
\<close>

subsection \<open>Bytes and text\<close>

lemma unat_lower: "unat (lower b) = (if 0x41 \<le> unat b \<and> unat b \<le> 0x5A then unat b + 0x20 else unat b)"
proof -
  have "unat (b + 0x20) = unat b + 0x20" if "unat b \<le> 0x5A" using that by (simp add: unat_word_ariths)
  then show ?thesis by (simp add: lower_def word_le_nat_alt)
qed

lemma byte_eq_iff: "(a :: u8) = b \<longleftrightarrow> unat a = unat b"
  by (simp add: word_unat_eq_iff)

lemma lower_facts [simp]:
  "lower (lower b) = lower b" "lower b = 0x2F \<longleftrightarrow> b = 0x2F" "lower b = 0x3F \<longleftrightarrow> b = 0x3F" "lower b = 0x23 \<longleftrightarrow> b = 0x23"
  "lower b = 0x3A \<longleftrightarrow> b = 0x3A" "lower b = 0x40 \<longleftrightarrow> b = 0x40" "lower b = 0x5B \<longleftrightarrow> b = 0x5B"
  by (auto simp: byte_eq_iff unat_lower)

lemma ascii_simps:
  "ascii ''https://'' = [0x68, 0x74, 0x74, 0x70, 0x73, 0x3A, 0x2F, 0x2F]" "ascii ''://'' = [0x3A, 0x2F, 0x2F]" "ascii ''https'' = [0x68, 0x74, 0x74, 0x70, 0x73]"
  "ascii '':'' = [0x3A]" "ascii ''/'' = [0x2F]" "ascii ''?'' = [0x3F]" "ascii ''#'' = [0x23]" "ascii ''.'' = [0x2E]" "ascii ''..'' = [0x2E, 0x2E]"
  "ascii ''//'' = [0x2F, 0x2F]" "ascii ''https:'' = [0x68, 0x74, 0x74, 0x70, 0x73, 0x3A]"
  by (simp_all add: ascii_def)

lemma https_rest_prefix: "https_rest (ascii ''https://'' @ r) = Some r"
  by (simp add: https_rest_def ascii_simps starts_with_def eq_ignore_ascii_case_def)

lemma as_str_from_bytes:
  assumes "from_bytes bs = Some u"
  shows "as_str u = bs" and "length bs \<le> LINE_CAP" and "utf8_ok bs"
proof -
  have l: "length bs \<le> 256" and v: "utf8_ok bs" using assms by (auto simp: from_bytes_def LINE_CAP_def split: if_splits)
  then have "unat (of_nat (length bs) :: u16) = length bs" by (simp add: unat_of_nat)
  then show "as_str u = bs" using assms v by (auto simp: from_bytes_def as_str_def split: if_splits)
  show "length bs \<le> LINE_CAP" "utf8_ok bs" using l v by (simp_all add: LINE_CAP_def)
qed

lemma from_bytes_as_str: "from_bytes bs = Some u \<Longrightarrow> from_bytes (as_str u) = Some u"
  by (simp add: as_str_from_bytes)

lemma push_Some: "push out bs = Some out' \<longleftrightarrow> out' = out @ bs \<and> length out + length bs \<le> LINE_CAP"
  by (auto simp: push_def)

lemma rsplit_once_last:
  assumes "c \<notin> set post"
  shows "rsplit_once c (pre @ c # post) = Some (pre, post)"
proof -
  have "takeWhile (\<lambda>b. b \<noteq> c) (rev post @ c # rev pre) = rev post" "dropWhile (\<lambda>b. b \<noteq> c) (rev post @ c # rev pre) = c # rev pre"
    using assms by (subst takeWhile_append2 dropWhile_append2; auto)+
  then show ?thesis by (simp add: rsplit_once_def)
qed

lemma rsplit_once_cases:
  "case rsplit_once c s of None \<Rightarrow> c \<notin> set s | Some (pre, post) \<Rightarrow> s = pre @ c # post \<and> c \<notin> set post"
proof (cases "c \<in> set s")
  case True
  then obtain pre post where "s = pre @ c # post" "c \<notin> set post" by (meson split_list_last)
  then show ?thesis by (simp add: rsplit_once_last)
qed (simp add: rsplit_once_def)

subsection \<open>Ports\<close>

lemma digit_byte_of_nat:
  assumes "d < 10"
  shows "digit_byte (0x30 + of_nat d)" and "unat ((0x30 + of_nat d :: u8) - 0x30) = d"
proof -
  have "unat (0x30 + of_nat d :: u8) = 0x30 + d" using assms by (simp add: unat_word_ariths unat_of_nat)
  then show "digit_byte (0x30 + of_nat d)" using assms by (simp add: digit_byte_def word_le_nat_alt)
  show "unat ((0x30 + of_nat d :: u8) - 0x30) = d" using assms by (simp add: unat_of_nat)
qed

abbreviation (input) port_value :: "u8 list \<Rightarrow> nat" where "port_value bs \<equiv> foldl (\<lambda>v b. v * 10 + unat (b - 0x30)) 0 bs"

text \<open>The digits of a number, appended to those already written.\<close>

lemma u16_digits_facts:
  "\<exists>ds. u16_digits n acc = ds @ acc \<and> ds \<noteq> [] \<and> list_all digit_byte ds \<and> port_value ds = n \<and> (\<forall>k. 0 < k \<and> n < 10 ^ k \<longrightarrow> length ds \<le> k)"
proof (induction n acc rule: u16_digits.induct)
  case (1 n acc)
  let ?d = "0x30 + of_nat (n mod 10) :: u8"
  have d: "digit_byte ?d" "unat (?d - 0x30) = n mod 10" using digit_byte_of_nat [of "n mod 10"] by simp_all
  show ?case
  proof (cases "n div 10 = 0")
    case True
    then show ?thesis using d by (intro exI [of _ "[?d]"]) (simp add: u16_digits.simps [of n acc])
  next
    case False
    then obtain ds where ds: "u16_digits (n div 10) (?d # acc) = ds @ ?d # acc" "ds \<noteq> []" "list_all digit_byte ds" "port_value ds = n div 10"
      "\<forall>k. 0 < k \<and> n div 10 < 10 ^ k \<longrightarrow> length ds \<le> k" using 1 [OF refl refl] by auto
    have "length (ds @ [?d]) \<le> k" if "0 < k" "n < 10 ^ k" for k
    proof (cases k)
      case (Suc j)
      then have "n div 10 < 10 ^ j" using that(2) by (simp add: less_mult_imp_div_less mult.commute)
      moreover from this False have "0 < j" by (cases j) simp_all
      ultimately show ?thesis using ds(5) Suc by simp
    qed (use that in simp)
    moreover have "port_value (ds @ [?d]) = n" using ds(4) d(2) by simp
    ultimately show ?thesis using False ds d(1) by (intro exI [of _ "ds @ [?d]"]) (simp add: u16_digits.simps [of n acc])
  qed
qed

lemma port_digits:
  assumes "p \<noteq> 0"
  shows "parse_port (u16_digits (unat p) []) = Some p" and "list_all digit_byte (u16_digits (unat p) [])"
proof -
  obtain ds where ds: "u16_digits (unat p) [] = ds" "ds \<noteq> []" "list_all digit_byte ds" "port_value ds = unat p"
    "\<forall>k. 0 < k \<and> unat p < 10 ^ k \<longrightarrow> length ds \<le> k" using u16_digits_facts [of "unat p" "[]"] by auto
  have p: "unat p < 65536" "unat p \<noteq> 0" using unsigned_less [of p, where ?'a = nat] assms by (simp_all add: unat_eq_zero)
  then have "length ds \<le> 5" using ds(5) [rule_format, of 5] by simp
  then show "parse_port (u16_digits (unat p) []) = Some p" using ds(1-4) p by (simp add: parse_port_def Let_def)
  show "list_all digit_byte (u16_digits (unat p) [])" using ds by simp
qed

lemma parse_port_nonzero: "parse_port text = Some p \<Longrightarrow> p \<noteq> 0"
proof
  assume "parse_port text = Some p" "p = 0"
  then have v: "(of_nat (port_value text) :: u16) = 0" "port_value text \<noteq> 0" "port_value text \<le> 65535"
    by (auto simp: parse_port_def Let_def split: if_splits)
  have "unat (of_nat (port_value text) :: u16) = port_value text" using v(3) by (simp add: unat_of_nat)
  then have "port_value text = 0" unfolding v(1) by simp
  then show False using v(2) by simp
qed

lemma digit_not_special: "digit_byte b \<Longrightarrow> b \<noteq> 0x2F \<and> b \<noteq> 0x3F \<and> b \<noteq> 0x23 \<and> b \<noteq> 0x3A \<and> b \<noteq> 0x40"
  by (auto simp: digit_byte_def)

subsection \<open>The normal form\<close>

definition port_text :: "u16 option \<Rightarrow> u8 list" where
  "port_text port = (case port of None \<Rightarrow> [] | Some p \<Rightarrow> ascii '':'' @ u16_digits (unat p) [])"

definition normal :: "u8 list \<Rightarrow> u16 option \<Rightarrow> u8 list \<Rightarrow> bool" where
  "normal host port tail \<longleftrightarrow> host \<noteq> [] \<and> length host \<le> 253 \<and> map lower host = host \<and> utf8_ok host
     \<and> (\<forall>b\<in>set host. \<not> ends_authority b \<and> b \<noteq> 0x40) \<and> hd host \<noteq> 0x5B \<and> \<not> is_ipv4 host \<and> is_dns_name host
     \<and> port \<noteq> Some 0 \<and> (port = None \<longrightarrow> colon \<notin> set host) \<and> (tail = [] \<or> ends_authority (hd tail))"

definition address_text :: "u8 list \<Rightarrow> u16 option \<Rightarrow> u8 list \<Rightarrow> u8 list" where
  "address_text host port tail = ascii ''https://'' @ host @ port_text port @ tail"

lemma split_authority:
  assumes "\<forall>b\<in>set auth. \<not> ends_authority b" and "tail = [] \<or> ends_authority (hd tail)"
  shows "takeWhile (\<lambda>b. \<not> ends_authority b) (auth @ tail) = auth" and "dropWhile (\<lambda>b. \<not> ends_authority b) (auth @ tail) = tail"
  using assms by (cases tail; auto simp: takeWhile_append dropWhile_append)+

lemma port_text_facts:
  assumes "port \<noteq> Some 0"
  shows "\<forall>b\<in>set (port_text port). \<not> ends_authority b \<and> b \<noteq> 0x40"
    and "port = None \<longrightarrow> colon \<notin> set host \<Longrightarrow> host_and_port (host @ port_text port) = (host, map_option (\<lambda>p. u16_digits (unat p) []) port)"
proof -
  have d: "list_all digit_byte (u16_digits (unat p) [])" if "port = Some p" for p using port_digits(2) that assms by auto
  then show "\<forall>b\<in>set (port_text port). \<not> ends_authority b \<and> b \<noteq> 0x40"
    using digit_not_special by (cases port) (auto simp: port_text_def ascii_simps list_all_iff)
  show "host_and_port (host @ port_text port) = (host, map_option (\<lambda>p. u16_digits (unat p) []) port)" if "port = None \<longrightarrow> colon \<notin> set host"
  proof (cases port)
    case None
    then show ?thesis using that by (simp add: host_and_port_def port_text_def rsplit_once_def)
  next
    case (Some p)
    then have "colon \<notin> set (u16_digits (unat p) [])" using d [OF Some] digit_not_special by (auto simp: list_all_iff)
    then show ?thesis using Some by (simp add: host_and_port_def port_text_def ascii_simps rsplit_once_last)
  qed
qed

lemma normalize_normal:
  assumes n: "normal host port tail" and u: "from_bytes (address_text host port tail) = Some u"
  shows "normalize_structure (address_text host port tail) = Some u"
proof -
  let ?auth = "host @ port_text port"
  have h: "host \<noteq> []" "length host \<le> 253" "map lower host = host" "utf8_ok host" "hd host \<noteq> 0x5B" "\<not> is_ipv4 host" "is_dns_name host"
    "port \<noteq> Some 0" "tail = [] \<or> ends_authority (hd tail)" "\<forall>b\<in>set host. \<not> ends_authority b \<and> b \<noteq> 0x40"
    "port = None \<longrightarrow> colon \<notin> set host" using n by (simp_all add: normal_def)
  have a: "\<forall>b\<in>set ?auth. \<not> ends_authority b \<and> b \<noteq> 0x40" using h(10) port_text_facts(1) [OF h(8)] by auto
  note sp = split_authority [of ?auth tail, simplified append_assoc]
  have s: "takeWhile (\<lambda>b. \<not> ends_authority b) (host @ port_text port @ tail) = ?auth"
    "dropWhile (\<lambda>b. \<not> ends_authority b) (host @ port_text port @ tail) = tail" using sp a h(9) by blast+
  have hp: "host_and_port ?auth = (host, map_option (\<lambda>p. u16_digits (unat p) []) port)" using port_text_facts(2) [OF h(8,11)] .
  have len: "length (address_text host port tail) \<le> LINE_CAP" using as_str_from_bytes(2) [OF u] .
  have pp: "(case map_option (\<lambda>p. u16_digits (unat p) []) port of Some text \<Rightarrow> map_option Some (parse_port text) | None \<Rightarrow> Some None) = Some port"
    using h(8) by (cases port) (auto simp: port_digits)
  have "hd ?auth \<noteq> 0x5B" "?auth \<noteq> []" "0x40 \<notin> set ?auth" using h(1,5) a by auto
  then have "normalize_structure (address_text host port tail) =
    do { out \<leftarrow> push [] (ascii ''https://''); out \<leftarrow> push out host;
         out \<leftarrow> (case port of Some port \<Rightarrow> do { out \<leftarrow> push out (ascii '':''); push_u16 out port } | None \<Rightarrow> Some out);
         out \<leftarrow> push out tail; from_bytes out }"
    using h s hp pp by (simp add: normalize_structure_def address_text_def https_rest_prefix Let_def)
  also have "\<dots> = from_bytes (address_text host port tail)"
    using len by (cases port) (simp_all add: address_text_def port_text_def push_def push_u16_def)
  finally show ?thesis using u by simp
qed

lemma normalize_structure_shape:
  assumes "normalize_structure text = Some u"
  shows "\<exists>host port tail. normal host port tail \<and> from_bytes (address_text host port tail) = Some u"
proof -
  obtain rest where r: "https_rest text = Some rest" using assms by (cases "https_rest text") (simp_all add: normalize_structure_def)
  let ?auth = "takeWhile (\<lambda>b. \<not> ends_authority b) rest" and ?tail = "dropWhile (\<lambda>b. \<not> ends_authority b) rest"
  obtain raw pt where hp: "host_and_port ?auth = (raw, pt)" by fastforce
  have a: "?auth \<noteq> []" "0x40 \<notin> set ?auth" "hd ?auth \<noteq> 0x5B" "raw \<noteq> []" "length raw \<le> 253" "utf8_ok (map lower raw)"
    "\<not> is_ipv4 (map lower raw)" "is_dns_name (map lower raw)"
    using assms r hp by (auto simp: normalize_structure_def Let_def split: if_splits)
  obtain port where port: "(case pt of Some text \<Rightarrow> map_option Some (parse_port text) | None \<Rightarrow> Some None) = Some port"
    using assms r hp a by (cases pt) (auto simp: normalize_structure_def Let_def split: if_splits bind_splits)
  have "do { out \<leftarrow> push [] (ascii ''https://''); out \<leftarrow> push out (map lower raw);
         out \<leftarrow> (case port of Some port \<Rightarrow> do { out \<leftarrow> push out (ascii '':''); push_u16 out port } | None \<Rightarrow> Some out);
         out \<leftarrow> push out ?tail; from_bytes out } = Some u"
    using assms r hp a port by (simp add: normalize_structure_def Let_def)
  then have u: "from_bytes (address_text (map lower raw) port ?tail) = Some u"
    by (cases port) (auto simp: address_text_def port_text_def push_def push_u16_def split: if_splits)
  have sp: "raw @ (case pt of None \<Rightarrow> [] | Some p \<Rightarrow> colon # p) = ?auth" "pt = None \<longrightarrow> colon \<notin> set ?auth"
    using rsplit_once_cases [of colon ?auth] hp by (auto simp: host_and_port_def split: option.splits)
  have "set raw \<subseteq> set ?auth" using arg_cong [OF sp(1), of set] by auto
  moreover have "\<forall>b\<in>set ?auth. \<not> ends_authority b \<and> b \<noteq> 0x40"
  proof
    fix b
    assume "b \<in> set ?auth"
    then show "\<not> ends_authority b \<and> b \<noteq> 0x40" using a(2) set_takeWhileD [of b "\<lambda>b. \<not> ends_authority b" rest] by blast
  qed
  ultimately have "\<forall>b\<in>set raw. \<not> ends_authority b \<and> b \<noteq> 0x40" by blast
  then have s: "\<forall>b\<in>set (map lower raw). \<not> ends_authority b \<and> b \<noteq> 0x40" by simp
  have "hd raw = hd ?auth" using sp(1) a(4) by (metis hd_append2)
  then have hd: "hd (map lower raw) \<noteq> 0x5B" using a(3,4) by (simp add: hd_map)
  have pz: "port \<noteq> Some 0" "port = None \<longrightarrow> pt = None" using port parse_port_nonzero by (auto split: option.splits)
  have "colon \<notin> set (map lower raw)" if "port = None"
  proof -
    have "colon \<notin> set raw" using sp pz(2) that by auto
    then show ?thesis using lower_facts(5) by (metis (no_types) ex_map_conv image_iff set_map)
  qed
  moreover have "?tail = [] \<or> ends_authority (hd ?tail)" using hd_dropWhile [of "\<lambda>b. \<not> ends_authority b" rest] by blast
  ultimately have "normal (map lower raw) port ?tail"
    using a s hd pz(1) unfolding normal_def by (simp add: comp_def)
  then show ?thesis using u by blast
qed

lemma normalize_structure_idem: "normalize_structure text = Some u \<Longrightarrow> normalize_structure (as_str u) = Some u"
  using normalize_structure_shape normalize_normal as_str_from_bytes(1) by metis

end
