(* ===== verification/UrlClaims.thy ===== *)
theory UrlClaims
  imports UrlNormal
begin

text \<open>
  Properties of the addresses of the desktop: normal forms, host names, paths without dot segments, and
  links that stay on the host of their page.
\<close>

subsection \<open>Paths\<close>

lemma split_on_nonempty [simp]: "split_on c s \<noteq> []"
  by (induction s) (auto split: list.splits)

lemma split_on_no_sep: "seg \<in> set (split_on c s) \<Longrightarrow> c \<notin> set seg"
  by (induction s arbitrary: seg) (auto split: list.splits if_splits)

lemma split_on_plain: "c \<notin> set s \<Longrightarrow> split_on c s = [s]"
  by (induction s) auto

lemma split_on_append: "c \<notin> set s \<Longrightarrow> split_on c (s @ c # t) = s # split_on c t"
  by (induction s) auto

text \<open>What the segments of a path come to: a stack that \<open>..\<close> pops.\<close>

fun resolve_dots :: "u8 list list \<Rightarrow> u8 list list \<Rightarrow> u8 list list" where
  "resolve_dots [] acc = acc"
| "resolve_dots (s # ss) acc =
     resolve_dots ss (if s = [] \<or> s = ascii ''.'' then acc else if s = ascii ''..'' then butlast acc else acc @ [s])"

definition plain_segment :: "u8 list \<Rightarrow> bool" where
  "plain_segment s \<longleftrightarrow> s \<noteq> [] \<and> s \<noteq> ascii ''.'' \<and> s \<noteq> ascii ''..'' \<and> slash \<notin> set s"

fun join_segments :: "u8 list list \<Rightarrow> u8 list" where
  "join_segments [] = []"
| "join_segments [s] = s"
| "join_segments (s # t # ss) = s @ slash # join_segments (t # ss)"

lemma path_loop_resolves:
  assumes "path_loop segs acc = Some out"
  shows "out = resolve_dots segs acc" and "length acc \<le> 64 \<Longrightarrow> length out \<le> 64"
  using assms by (induction segs acc rule: path_loop.induct) (auto split: if_splits)

lemma path_loop_segments:
  assumes "path_loop segs acc = Some out" and "\<forall>s\<in>set segs. slash \<notin> set s" and "\<forall>s\<in>set acc. plain_segment s"
  shows "\<forall>s\<in>set out. plain_segment s"
  using assms
proof (induction segs acc rule: path_loop.induct)
  case (2 seg segs acc)
  consider "seg = [] \<or> seg = ascii ''.''" | "\<not> (seg = [] \<or> seg = ascii ''.'')" "seg = ascii ''..''"
    | "\<not> (seg = [] \<or> seg = ascii ''.'')" "seg \<noteq> ascii ''..''" by blast
  then show ?case
  proof cases
    case 1
    then show ?thesis using 2 by simp
  next
    case 2
    have "\<forall>s\<in>set (butlast acc). plain_segment s" using "2.prems"(3) by (meson in_set_butlastD)
    then show ?thesis using 2 "2.IH"(2) "2.prems" by simp
  next
    case 3
    then have l: "\<not> 64 \<le> length acc" "path_loop segs (acc @ [seg]) = Some out" using "2.prems"(1) by (simp_all split: if_splits)
    have "plain_segment seg" using 3 "2.prems"(2) by (simp add: plain_segment_def)
    then have p: "\<forall>s\<in>set (acc @ [seg]). plain_segment s" using "2.prems"(3) by simp
    have "\<forall>s\<in>set segs. slash \<notin> set s" using "2.prems"(2) by simp
    then show ?thesis using "2.IH"(3) [OF 3 l(1,2) _ p] by blast
  qed
qed simp

lemma path_loop_plain:
  assumes "\<forall>s\<in>set segs. plain_segment s" and "length acc + length segs \<le> 64"
  shows "path_loop segs acc = Some (acc @ segs)"
  using assms by (induction segs arbitrary: acc) (auto simp: plain_segment_def)

lemma push_segments_join:
  "push_segments segs out = Some out' \<longleftrightarrow> out' = out @ join_segments segs \<and> (segs = [] \<or> length out + length (join_segments segs) \<le> LINE_CAP)"
proof (induction segs arbitrary: out rule: join_segments.induct)
  case (3 s t ss)
  have "push_segments (s # t # ss) out = (if length out + length s + 1 \<le> LINE_CAP then push_segments (t # ss) (out @ s @ [slash]) else None)"
    by (subst push_segments.simps) (simp add: push_def ascii_simps del: push_segments.simps)
  then show ?case using 3 [of "out @ s @ [slash]"] by (auto simp del: push_segments.simps)
qed (auto simp: push_def)

lemma join_segments_last:
  assumes "\<forall>s\<in>set segs. plain_segment s" and "segs \<noteq> []"
  shows "join_segments segs \<noteq> []" and "last (join_segments segs) \<noteq> slash"
  using assms by (induction segs rule: join_segments.induct) (auto simp: plain_segment_def dest: last_in_set)

lemma split_join:
  assumes "\<forall>s\<in>set segs. plain_segment s" and "segs \<noteq> []"
  shows "split_on slash (join_segments segs) = segs" and "split_on slash (join_segments segs @ [slash]) = segs @ [[]]"
  using assms by (induction segs rule: join_segments.induct) (auto simp: plain_segment_def split_on_plain split_on_append)

text \<open>The text of a path.\<close>

definition path_text :: "u8 list list \<Rightarrow> bool \<Rightarrow> u8 list" where
  "path_text segs trailing = slash # join_segments segs @ (if trailing \<and> segs \<noteq> [] then [slash] else [])"

lemma normalize_path_shape:
  assumes "normalize_path_segments path keep = Some u"
  shows "\<exists>segs. segs = resolve_dots (split_on slash path) [] \<and> length segs \<le> 64 \<and> (\<forall>s\<in>set segs. plain_segment s)
    \<and> from_bytes (path_text segs (keep \<or> ends_with_byte slash path)) = Some u"
proof -
  obtain segs where l: "path_loop (split_on slash path) [] = Some segs"
    using assms by (cases "path_loop (split_on slash path) []") (simp_all add: normalize_path_segments_def)
  note r = path_loop_resolves [OF l]
  have p: "\<forall>s\<in>set segs. plain_segment s" using path_loop_segments [OF l] split_on_no_sep by simp
  have "from_bytes (path_text segs (keep \<or> ends_with_byte slash path)) = Some u"
  proof (cases "segs = []")
    case True
    then show ?thesis using assms l by (simp add: normalize_path_segments_def push_def path_text_def ascii_simps LINE_CAP_def)
  next
    case False
    note last = join_segments_last [OF p False]
    have e: "\<not> ends_with_byte slash (slash # join_segments segs)" using last by (simp add: ends_with_byte_def)
    have "push [] (ascii ''/'') = Some [slash]" by (simp add: push_def ascii_simps LINE_CAP_def)
    then have n: "normalize_path_segments path keep = push_segments segs [slash] \<bind> (\<lambda>out.
        (if (keep \<or> ends_with_byte slash path) \<and> \<not> ends_with_byte slash out then push out (ascii ''/'') else Some out) \<bind> from_bytes)"
      using l False by (simp add: normalize_path_segments_def Let_def)
    then obtain out where o: "push_segments segs [slash] = Some out" using assms by (cases "push_segments segs [slash]") simp_all
    then have out: "out = slash # join_segments segs" by (simp add: push_segments_join)
    have "(if keep \<or> ends_with_byte slash path then push out (ascii ''/'') else Some out) \<bind> from_bytes = Some u"
      using n o assms e unfolding out by simp
    then show ?thesis
      using False unfolding out by (cases "keep \<or> ends_with_byte slash path") (simp_all add: path_text_def push_def ascii_simps split: if_splits)
  qed
  then show ?thesis using r p by (intro exI [of _ segs]) simp
qed

lemma resolve_dots_plain: "\<forall>s\<in>set segs. plain_segment s \<Longrightarrow> resolve_dots (segs @ rest) acc = resolve_dots rest (acc @ segs)"
proof (induction segs arbitrary: acc)
  case (Cons s segs)
  have "plain_segment s" "\<forall>s\<in>set segs. plain_segment s" using Cons.prems by simp_all
  then show ?case using Cons.IH [of "acc @ [s]"] by (simp add: plain_segment_def)
qed simp

lemma path_text_segments:
  assumes "\<forall>s\<in>set segs. plain_segment s"
  shows "split_on slash (path_text segs trailing) = [] # (if segs = [] then [[]] else if trailing then segs @ [[]] else segs)"
  using split_join [OF assms] by (simp add: path_text_def)

lemma normalize_path_idem:
  assumes "normalize_path_segments path keep = Some u"
  shows "normalize_path_segments (as_str u) False = Some u"
proof -
  obtain segs where s: "length segs \<le> 64" "\<forall>s\<in>set segs. plain_segment s"
    "from_bytes (path_text segs (keep \<or> ends_with_byte slash path)) = Some u" using normalize_path_shape [OF assms] by blast
  let ?t = "keep \<or> ends_with_byte slash path"
  have u: "as_str u = path_text segs ?t" using as_str_from_bytes(1) [OF s(3)] .
  have len: "length (path_text segs ?t) \<le> LINE_CAP" using as_str_from_bytes(2) [OF s(3)] .
  have pl: "path_loop (segs @ [[]]) [] = Some segs" "path_loop segs [] = Some segs" if "segs \<noteq> []"
  proof -
    show "path_loop segs [] = Some segs" using path_loop_plain [OF s(2), of "[]"] s(1) by simp
    have "path_loop (ss @ [[]]) acc = path_loop ss acc" for ss acc by (induction ss acc rule: path_loop.induct) simp_all
    then show "path_loop (segs @ [[]]) [] = Some segs" using path_loop_plain [OF s(2), of "[]"] s(1) by simp
  qed
  have l: "path_loop (split_on slash (path_text segs ?t)) [] = Some segs" using path_text_segments [OF s(2), of ?t] pl by simp
  have p0: "push [] (ascii ''/'') = Some [slash]" by (simp add: push_def ascii_simps LINE_CAP_def)
  show ?thesis
  proof (cases "segs = []")
    case True
    then show ?thesis using l p0 s(3) unfolding u by (simp add: normalize_path_segments_def path_text_def)
  next
    case False
    note last = join_segments_last [OF s(2) False]
    have e: "\<not> ends_with_byte slash (slash # join_segments segs)" "ends_with_byte slash (path_text segs ?t) \<longleftrightarrow> ?t"
      using last False by (auto simp: ends_with_byte_def path_text_def)
    have ps: "push_segments segs [slash] = Some (slash # join_segments segs)"
      using len False by (simp add: push_segments_join path_text_def split: if_splits)
    have "normalize_path_segments (as_str u) False =
        (if ?t then push (slash # join_segments segs) (ascii ''/'') else Some (slash # join_segments segs)) \<bind> from_bytes"
      using l p0 ps e False unfolding u by (simp add: normalize_path_segments_def)
    then show ?thesis using s(3) len False by (cases ?t) (simp_all add: path_text_def push_def ascii_simps)
  qed
qed

subsection \<open>Host names\<close>

text \<open>A label of a host name.\<close>

definition valid_label :: "u8 list \<Rightarrow> bool" where
  "valid_label l \<longleftrightarrow> l \<noteq> [] \<and> length l \<le> 63 \<and> alphanumeric (hd l) \<and> alphanumeric (last l) \<and> list_all (\<lambda>b. alphanumeric b \<or> b = hyphen) l"

lemma list_all_butlast: "xs \<noteq> [] \<Longrightarrow> list_all P xs \<longleftrightarrow> list_all P (butlast xs) \<and> P (last xs)"
  by (induction xs) auto

lemma dns_label:
  assumes "label = a # t # ts"
  shows "dns_loop any (label # labels) \<longleftrightarrow> valid_label label \<and> dns_loop True labels"
proof -
  let ?P = "\<lambda>b. alphanumeric b \<or> b = hyphen" and ?t = "t # ts"
  have l: "list_all ?P ?t \<longleftrightarrow> list_all ?P (butlast ?t) \<and> ?P (last ?t)" by (rule list_all_butlast) simp
  have v: "valid_label label \<longleftrightarrow> length label \<le> 63 \<and> alphanumeric a \<and> alphanumeric (last ?t) \<and> list_all ?P ?t"
    using assms by (auto simp: valid_label_def)
  have "dns_loop any (label # labels) \<longleftrightarrow> \<not> 63 < length label \<and> alphanumeric a \<and> alphanumeric (last ?t) \<and> list_all ?P (butlast ?t) \<and> dns_loop True labels"
    unfolding assms by (simp del: butlast.simps last.simps list.pred_inject length_Cons) blast
  then show ?thesis using v l by (simp only: not_less) blast
qed

lemma dns_loop_labels:
  assumes "labels \<noteq> []" and "\<forall>l\<in>set (butlast labels). length l \<noteq> 1"
  shows "dns_loop any labels \<longleftrightarrow> list_all valid_label labels"
  using assms
proof (induction labels arbitrary: any)
  case (Cons label labels)
  consider "label = []" | a where "label = [a]" | a t ts where "label = a # t # ts" by (metis list.exhaust)
  then show ?case
  proof cases
    case 1
    then show ?thesis by (simp add: valid_label_def)
  next
    case (2 a)
    then have "labels = []" using Cons.prems(2) by (auto split: if_splits)
    then show ?thesis using 2 by (auto simp: valid_label_def)
  next
    case (3 a t ts)
    show ?thesis
    proof (cases "labels = []")
      case False
      then have "\<forall>l\<in>set (butlast labels). length l \<noteq> 1" using Cons.prems(2) by simp
      then show ?thesis using Cons.IH [OF False, of True] dns_label [OF 3, of any labels] by simp
    next
      case True
      then show ?thesis using dns_label [OF 3, of any "[]"] by simp
    qed
  qed
qed simp

subsection \<open>Links\<close>

lemma split_url_normal:
  assumes "normal host port tail"
  shows "split_url (address_text host port tail) = (case split_path_query_fragment tail of (path, query, fragment) \<Rightarrow>
    Some \<lparr>up_authority = host @ port_text port, up_path = path, up_query = query, up_fragment = fragment\<rparr>)"
proof -
  have n: "port \<noteq> Some 0" "tail = [] \<or> ends_authority (hd tail)" "\<forall>b\<in>set host. \<not> ends_authority b \<and> b \<noteq> 0x40" using assms by (simp_all add: normal_def)
  have "\<forall>b\<in>set (host @ port_text port). \<not> ends_authority b" using n(3) port_text_facts(1) [OF n(1)] by auto
  note sp = split_authority [OF this n(2), simplified append_assoc]
  have "starts_with (ascii ''https://'') (address_text host port tail)" "drop 8 (address_text host port tail) = host @ port_text port @ tail"
    by (simp_all add: address_text_def ascii_simps starts_with_def)
  then show ?thesis using sp by (simp add: split_url_def Let_def)
qed

lemma split_path_slash:
  assumes "tail = [] \<or> ends_authority (hd tail)" and "split_path_query_fragment tail = (path, query, fragment)"
  shows "\<exists>rest. path = slash # rest"
proof (cases tail)
  case Nil
  then show ?thesis using assms(2) by (auto simp: split_path_query_fragment_def ascii_simps)
next
  case (Cons b bs)
  then show ?thesis using assms by (auto simp: split_path_query_fragment_def ascii_simps Let_def split: if_splits)
qed

definition tail_text :: "u8 list \<Rightarrow> u8 list option \<Rightarrow> u8 list option \<Rightarrow> u8 list" where
  "tail_text path query fragment = path @ (case query of None \<Rightarrow> [] | Some q \<Rightarrow> ascii ''?'' @ q)
     @ (case fragment of None \<Rightarrow> [] | Some f \<Rightarrow> if f = [] then [] else ascii ''#'' @ f)"

lemma render_url_text: "render_url authority path query fragment = from_bytes (ascii ''https://'' @ authority @ tail_text path query fragment)"
  by (cases query; cases fragment) (auto simp: render_url_def push_def from_bytes_def tail_text_def ascii_simps)

lemma render_normal:
  assumes "normal host port tail" and "path = slash # p" and "render_url (host @ port_text port) path query fragment = Some u"
  shows "normal host port (tail_text path query fragment)" and "from_bytes (address_text host port (tail_text path query fragment)) = Some u"
    and "normalize_structure (as_str u) = Some u"
proof -
  show n: "normal host port (tail_text path query fragment)" using assms(1,2) by (simp add: normal_def tail_text_def)
  show f: "from_bytes (address_text host port (tail_text path query fragment)) = Some u" using assms(3) by (simp add: render_url_text address_text_def)
  show "normalize_structure (as_str u) = Some u" using normalize_normal [OF n f] as_str_from_bytes(1) [OF f] by simp
qed

lemma normalize_path_slash: "normalize_path_segments path keep = Some u \<Longrightarrow> \<exists>p. as_str u = slash # p"
  using normalize_path_shape [of path keep u] as_str_from_bytes(1) by (fastforce simp: path_text_def)

text \<open>A link without a host of its own is joined to the host of its page.\<close>

lemma join_normal:
  assumes n: "normal host port tail" and b: "as_str base = address_text host port tail" and j: "join_to_base base href = Some t"
  shows "\<exists>tail'. normal host port tail' \<and> from_bytes (address_text host port tail') = Some t"
proof -
  obtain path0 q0 f0 where sp: "split_path_query_fragment tail = (path0, q0, f0)" by (cases "split_path_query_fragment tail")
  have su: "split_url (as_str base) = Some \<lparr>up_authority = host @ port_text port, up_path = path0, up_query = q0, up_fragment = f0\<rparr>"
    using split_url_normal [OF n] b sp by simp
  have "tail = [] \<or> ends_authority (hd tail)" using n by (simp add: normal_def)
  then obtain r0 where r0: "path0 = slash # r0" using split_path_slash sp by blast
  obtain hp hq hf where sh: "split_href_tail href = (hp, hq, hf)" by (cases "split_href_tail href")
  have "\<exists>path q f r. path = slash # r \<and> render_url (host @ port_text port) path q f = Some t"
  proof (cases "starts_with (ascii ''#'') href \<or> starts_with (ascii ''?'') href")
    case True
    then show ?thesis using j su sh r0 by (auto simp: join_to_base_def Let_def)
  next
    case False
    let ?u = "if starts_with (ascii ''/'') href then normalize_path_segments hp (ends_with_byte slash hp) else merge_relative_path path0 hp"
    obtain u where u: "?u = Some u" using j su sh False by (cases ?u) (auto simp: join_to_base_def split: if_splits)
    have "\<exists>path keep. normalize_path_segments path keep = Some u"
      using u by (auto simp: merge_relative_path_def bind_eq_Some_conv split: if_splits)
    then have "\<exists>p. as_str u = slash # p" using normalize_path_slash by blast
    then show ?thesis using j su sh False u by (auto simp: join_to_base_def Let_def split: if_splits)
  qed
  then show ?thesis using render_normal [OF n] by blast
qed

definition same_host :: "HttpsUrl \<Rightarrow> HttpsUrl \<Rightarrow> bool" where
  "same_host a b \<longleftrightarrow> (\<exists>p q. split_url (as_str a) = Some p \<and> split_url (as_str b) = Some q \<and> up_authority p = up_authority q)"

lemma same_host_normal:
  assumes "normal host port tail" "from_bytes (address_text host port tail) = Some a" "normal host port tail'" "from_bytes (address_text host port tail') = Some b"
  shows "same_host a b"
  using split_url_normal [OF assms(1)] split_url_normal [OF assms(3)] as_str_from_bytes(1) [OF assms(2)] as_str_from_bytes(1) [OF assms(4)]
  by (auto simp: same_host_def split: prod.splits)

lemma classify_result: "classify_against_base base url = Fetch u \<or> classify_against_base base url = Fragment u \<Longrightarrow> u = url"
  by (auto simp: classify_against_base_def split: if_splits option.splits)

lemma finish_result:
  "finish_intent base text = Fetch u \<or> finish_intent base text = Fragment u \<Longrightarrow> normalize_structure text = Some u"
  using classify_result by (auto simp: finish_intent_def split: option.splits)

lemma resolve_cases:
  assumes "resolve_href base href = Some i" and "i = Fetch u \<or> i = Fragment u"
  shows "(trim_ascii href = [] \<and> empty_href_intent base = Fragment u)
    \<or> (\<exists>text. normalize_structure text = Some u)
      \<and> (find_str (ascii ''://'') (trim_ascii href) = None \<and> \<not> starts_with (ascii ''//'') (trim_ascii href) \<longrightarrow>
          (\<exists>t. join_to_base base (trim_ascii href) = Some t \<and> normalize_structure (as_str t) = Some u))"
proof -
  have e: "empty_href_intent base \<noteq> Fetch u" by (auto simp: empty_href_intent_def split: option.splits)
  show ?thesis
    using assms e finish_result unfolding resolve_href_def Let_def by (auto split: if_splits option.splits)
qed

lemma resolve_ok:
  assumes b: "normalize_structure text = Some base" and r: "resolve_href base href = Some i" "i = Fetch u \<or> i = Fragment u"
  shows "normalize_structure (as_str u) = Some u"
    and "find_str (ascii ''://'') (trim_ascii href) = None \<Longrightarrow> \<not> starts_with (ascii ''//'') (trim_ascii href) \<Longrightarrow> same_host base u"
proof -
  obtain host port tail where n: "normal host port tail" "from_bytes (address_text host port tail) = Some base" using normalize_structure_shape [OF b] by blast
  have ab: "as_str base = address_text host port tail" using as_str_from_bytes(1) [OF n(2)] .
  have emp: "normalize_structure (as_str u) = Some u \<and> same_host base u" if e: "empty_href_intent base = Fragment u"
  proof -
    obtain path q f where sp: "split_path_query_fragment tail = (path, q, f)" by (cases "split_path_query_fragment tail")
    have "tail = [] \<or> ends_authority (hd tail)" using n(1) by (simp add: normal_def)
    then obtain p where p: "path = slash # p" using split_path_slash sp by blast
    have "render_url (host @ port_text port) path q None = Some u"
      using e split_url_normal [OF n(1)] sp ab by (auto simp: empty_href_intent_def split: if_splits option.splits)
    note rn = render_normal [OF n(1) p this]
    show ?thesis using rn(3) same_host_normal [OF n rn(1,2)] by blast
  qed
  note rc = resolve_cases [OF r]
  then show "normalize_structure (as_str u) = Some u" using emp normalize_structure_idem by blast
  show "same_host base u" if rel: "find_str (ascii ''://'') (trim_ascii href) = None" "\<not> starts_with (ascii ''//'') (trim_ascii href)"
  proof (cases "trim_ascii href = [] \<and> empty_href_intent base = Fragment u")
    case False
    then obtain t where t: "join_to_base base (trim_ascii href) = Some t" "normalize_structure (as_str t) = Some u" using rc rel by blast
    obtain tail' where t': "normal host port tail'" "from_bytes (address_text host port tail') = Some t" using join_normal [OF n(1) ab t(1)] by blast
    have "t = u" using normalize_normal [OF t'] t(2) as_str_from_bytes(1) [OF t'(2)] by simp
    then show ?thesis using same_host_normal [OF n t'] by simp
  qed (use emp in blast)
qed

subsection \<open>Properties\<close>

text \<open>C33: A normalised address is a normal form. What \<open>normalize\<close> accepts is shown as at most 256 bytes:
  \<open>https://\<close>, a lower-case host, the port in decimal without leading zeros if one was given, and the rest
  unchanged; and normalising the shown address gives the same address again.\<close>

theorem normalized_addresses_are_normal_forms:
  assumes "normalize text policy = Some u"
  shows "normalize (as_str u) policy = Some u \<and> length (as_str u) \<le> LINE_CAP \<and>
    (\<exists>host port tail. as_str u = ascii ''https://'' @ host @ port_text port @ tail \<and> normal host port tail)"
proof -
  have u: "normalize_structure text = Some u" "policy_allows u policy" using assms by (auto simp: normalize_def split: option.splits if_splits)
  obtain host port tail where n: "normal host port tail" "from_bytes (address_text host port tail) = Some u" using normalize_structure_shape [OF u(1)] by blast
  have a: "as_str u = ascii ''https://'' @ host @ port_text port @ tail" using as_str_from_bytes(1) [OF n(2)] by (simp add: address_text_def)
  have "length (as_str u) \<le> LINE_CAP" using as_str_from_bytes(1,2) [OF n(2)] by simp
  moreover have "normalize (as_str u) policy = Some u" using normalize_structure_idem [OF u(1)] u(2) by (simp add: normalize_def)
  ultimately show ?thesis using n(1) a by blast
qed

theorem normalized_addresses_are_normal_forms_witness:
  "\<exists>u. normalize (ascii ''HTTPS://Host/a'') DemoHost = Some u \<and> normalize (as_str u) DemoHost = Some u"
proof -
  have "normalize (ascii ''HTTPS://Host/a'') DemoHost \<noteq> None" by code_simp
  then obtain u where "normalize (ascii ''HTTPS://Host/a'') DemoHost = Some u" by blast
  then show ?thesis using normalized_addresses_are_normal_forms by blast
qed

text \<open>C32: Links lead to normalised \<open>https\<close> addresses, and a link without a host of its own stays on the host
  and port of its page. Whatever the page contains as the target of a link, an address that the desktop
  fetches or moves to is in normal form; unless the target names a scheme or begins with two slashes, its
  authority is the one of the page.\<close>

theorem links_stay_on_the_host:
  assumes "normalize text policy = Some base" and "resolve_href base href = Some i" and "i = Fetch u \<or> i = Fragment u"
  shows "normalize_structure (as_str u) = Some u \<and>
    (find_str (ascii ''://'') (trim_ascii href) = None \<and> \<not> starts_with (ascii ''//'') (trim_ascii href) \<longrightarrow> same_host base u)"
proof -
  have "normalize_structure text = Some base" using assms(1) by (auto simp: normalize_def split: option.splits if_splits)
  then show ?thesis using resolve_ok [OF _ assms(2,3)] by blast
qed

theorem links_stay_on_the_host_witness:
  "\<exists>base u. normalize (ascii ''host/dir/page'') DemoHost = Some base \<and> resolve_href base (ascii ''../x?q=1'') = Some (Fetch u) \<and> same_host base u"
proof -
  have "case normalize (ascii ''host/dir/page'') DemoHost of None \<Rightarrow> False
      | Some base \<Rightarrow> (case resolve_href base (ascii ''../x?q=1'') of Some (Fetch u) \<Rightarrow> True | _ \<Rightarrow> False)" by code_simp
  then obtain base u where b: "normalize (ascii ''host/dir/page'') DemoHost = Some base" "resolve_href base (ascii ''../x?q=1'') = Some (Fetch u)"
    by (auto split: option.splits HrefIntent.splits)
  have "find_str (ascii ''://'') (trim_ascii (ascii ''../x?q=1'')) = None" "\<not> starts_with (ascii ''//'') (trim_ascii (ascii ''../x?q=1''))"
    by code_simp+
  then show ?thesis using links_stay_on_the_host [OF b] b by blast
qed

text \<open>A link can stop the desktop. \<open>resolve_href\<close> cuts the trimmed target after eleven bytes to compare
  it with \<open>javascript:\<close> and panics exactly when the twelfth byte continues a character that is longer than
  one byte.\<close>

theorem resolve_href_panics_inside_a_character:
  "resolve_href base href = None \<longleftrightarrow> 11 < length (trim_ascii href) \<and> continuation (trim_ascii href ! 11)"
  by (auto simp: resolve_href_def Let_def char_boundary_def split: option.splits)

text \<open>Host names are checked label by label. Provided no label but the last has a single byte, a name is
  accepted exactly when it has at most 253 bytes and every label has 1 to 63 letters, digits and hyphens,
  neither first nor last a hyphen.\<close>

theorem dns_names_are_checked_by_label:
  assumes "\<forall>label\<in>set (butlast (split_on 0x2E host)). length label \<noteq> 1"
  shows "is_dns_name host \<longleftrightarrow> host \<noteq> [] \<and> length host \<le> 253 \<and> (\<forall>label\<in>set (split_on 0x2E host). valid_label label)"
  using dns_loop_labels [OF _ assms, of False] by (auto simp: is_dns_name_def list_all_iff)

theorem dns_names_are_checked_by_label_witness: "is_dns_name (ascii ''example.com'')"
proof -
  have "\<forall>label\<in>set (butlast (split_on 0x2E (ascii ''example.com''))). length label \<noteq> 1" by code_simp
  moreover have "ascii ''example.com'' \<noteq> [] \<and> length (ascii ''example.com'') \<le> 253 \<and> (\<forall>label\<in>set (split_on 0x2E (ascii ''example.com'')). valid_label label)"
    by code_simp
  ultimately show ?thesis using dns_names_are_checked_by_label by blast
qed

text \<open>C35: A label of one byte ends the check. A host name that begins with a single letter or digit and a dot
  is accepted whatever bytes follow the dot.\<close>

theorem a_short_label_ends_the_check:
  assumes "alphanumeric b" and "length rest \<le> 251"
  shows "is_dns_name (b # 0x2E # rest)"
proof -
  have "b \<noteq> 0x2E" using assms(1) by (auto simp: alphanumeric_def digit_byte_def)
  then show ?thesis using assms by (simp add: is_dns_name_def)
qed

theorem a_short_label_ends_the_check_witness: "is_dns_name (0x61 # 0x2E # ascii ''<b>..'')"
  by (rule a_short_label_ends_the_check) code_simp+

text \<open>C34: Paths are freed of dot segments. The path of a link is the stack of its segments in which \<open>..\<close>
  removes the one before it, if any, and empty segments and \<open>.\<close> are dropped: no such segment is left, the
  path begins with a slash, and normalising it again changes nothing.\<close>

theorem paths_are_freed_of_dot_segments:
  assumes "normalize_path_segments path keep = Some u"
  shows "as_str u = path_text (resolve_dots (split_on 0x2F path) []) (keep \<or> ends_with_byte 0x2F path) \<and>
    (\<forall>s\<in>set (resolve_dots (split_on 0x2F path) []). plain_segment s) \<and> normalize_path_segments (as_str u) False = Some u"
  using normalize_path_shape [OF assms] normalize_path_idem [OF assms] as_str_from_bytes(1) by blast

theorem paths_are_freed_of_dot_segments_witness:
  "\<exists>u. normalize_path_segments (ascii ''/a/./b/../c/'') False = Some u \<and> as_str u = ascii ''/a/c/''"
proof -
  have "normalize_path_segments (ascii ''/a/./b/../c/'') False \<noteq> None" by code_simp
  then obtain u where u: "normalize_path_segments (ascii ''/a/./b/../c/'') False = Some u" by blast
  have "path_text (resolve_dots (split_on 0x2F (ascii ''/a/./b/../c/'')) []) (False \<or> ends_with_byte 0x2F (ascii ''/a/./b/../c/'')) = ascii ''/a/c/''"
    by code_simp
  then show ?thesis using paths_are_freed_of_dot_segments [OF u] u by simp
qed

end
