(* ===== verification/Input.thy ===== *)
theory Input
  imports Fifo
begin

text \<open>
  Keyboard input, \<open>lerux-input/src/lib.rs\<close>: the decoder from set-1 scan codes to key-downs and the
  ring that holds the events for a domain. \<open>from_set1\<close> returns the event, if any, and the new state.

  The specification of the decoder is typing: \<open>type_char\<close> gives the scan codes of pressing and
  releasing the keys for a character on a US keyboard, whose layout is written down row by row, and
  \<open>from_set1\<close> reads them back. The ring is the bounded queue of
  theory \<open>Fifo\<close>.
\<close>

definition KEY_CAP :: nat where "KEY_CAP = 64"

datatype Key = Char_key u8 | Enter | Backspace | Escape | Left | Right | Tab | Up | Down

record KeyEvent =
  ke_key :: Key
  ke_ctrl :: bool

record KeyPair =
  kp_left :: bool
  kp_right :: bool

record Set1State =
  s1_shift :: KeyPair
  s1_ctrl :: KeyPair
  s1_caps :: bool
  s1_extended :: bool
  s1_skip :: u8

definition Set1State_new :: Set1State where
  "Set1State_new = \<lparr>s1_shift = \<lparr>kp_left = False, kp_right = False\<rparr>, s1_ctrl = \<lparr>kp_left = False, kp_right = False\<rparr>,
     s1_caps = False, s1_extended = False, s1_skip = 0\<rparr>"

definition ctrl_held :: "Set1State \<Rightarrow> bool" where "ctrl_held s \<longleftrightarrow> kp_left (s1_ctrl s) \<or> kp_right (s1_ctrl s)"

definition shift_held :: "Set1State \<Rightarrow> bool" where "shift_held s \<longleftrightarrow> kp_left (s1_shift s) \<or> kp_right (s1_shift s)"

definition apply_modifier :: "bool \<Rightarrow> u8 \<Rightarrow> bool \<Rightarrow> Set1State \<Rightarrow> bool \<times> Set1State" where
  "apply_modifier extended code down s =
     (if \<not> extended \<and> code = 0x2A then (True, s\<lparr>s1_shift := (s1_shift s)\<lparr>kp_left := down\<rparr>\<rparr>)
      else if \<not> extended \<and> code = 0x36 then (True, s\<lparr>s1_shift := (s1_shift s)\<lparr>kp_right := down\<rparr>\<rparr>)
      else if \<not> extended \<and> code = 0x1D then (True, s\<lparr>s1_ctrl := (s1_ctrl s)\<lparr>kp_left := down\<rparr>\<rparr>)
      else if extended \<and> code = 0x1D then (True, s\<lparr>s1_ctrl := (s1_ctrl s)\<lparr>kp_right := down\<rparr>\<rparr>)
      else if \<not> extended \<and> code = 0x3A \<and> down then (True, s\<lparr>s1_caps := \<not> s1_caps s\<rparr>)
      else (False, s))"

definition named :: "bool \<Rightarrow> u8 \<Rightarrow> Key option" where
  "named extended code =
     (if extended then
        (if code = 0x48 then Some Up else if code = 0x4B then Some Left else if code = 0x4D then Some Right
         else if code = 0x50 then Some Down else if code = 0x1C then Some Enter else None)
      else if code = 0x01 then Some Escape else if code = 0x0E then Some Backspace else if code = 0x0F then Some Tab
      else if code = 0x1C then Some Enter else None)"

definition BASE_CHARS :: "(u8 \<times> u8) list" where
  "BASE_CHARS =
     [(0x02, 0x31), (0x03, 0x32), (0x04, 0x33), (0x05, 0x34), (0x06, 0x35), (0x07, 0x36), (0x08, 0x37), (0x09, 0x38),
      (0x0A, 0x39), (0x0B, 0x30), (0x0C, 0x2D), (0x0D, 0x3D), (0x10, 0x71), (0x11, 0x77), (0x12, 0x65), (0x13, 0x72),
      (0x14, 0x74), (0x15, 0x79), (0x16, 0x75), (0x17, 0x69), (0x18, 0x6F), (0x19, 0x70), (0x1A, 0x5B), (0x1B, 0x5D),
      (0x1E, 0x61), (0x1F, 0x73), (0x20, 0x64), (0x21, 0x66), (0x22, 0x67), (0x23, 0x68), (0x24, 0x6A), (0x25, 0x6B),
      (0x26, 0x6C), (0x27, 0x3B), (0x28, 0x27), (0x29, 0x60), (0x2B, 0x5C), (0x2C, 0x7A), (0x2D, 0x78), (0x2E, 0x63),
      (0x2F, 0x76), (0x30, 0x62), (0x31, 0x6E), (0x32, 0x6D), (0x33, 0x2C), (0x34, 0x2E), (0x35, 0x2F), (0x39, 0x20)]"

definition base_char :: "u8 \<Rightarrow> u8 option" where
  "base_char code = map_option snd (find (\<lambda>entry. fst entry = code) BASE_CHARS)"

definition ascii_alphabetic :: "u8 \<Rightarrow> bool" where
  "ascii_alphabetic b \<longleftrightarrow> 0x41 \<le> b \<and> b \<le> 0x5A \<or> 0x61 \<le> b \<and> b \<le> 0x7A"

definition to_ascii_uppercase :: "u8 \<Rightarrow> u8" where
  "to_ascii_uppercase b = (if 0x61 \<le> b \<and> b \<le> 0x7A then b - 0x20 else b)"

text \<open>The characters of the keys that are not letters when Shift is held.\<close>

definition SHIFT_CHARS :: "(u8 \<times> u8) list" where
  "SHIFT_CHARS =
     [(0x31, 0x21), (0x32, 0x40), (0x33, 0x23), (0x34, 0x24), (0x35, 0x25), (0x36, 0x5E), (0x37, 0x26), (0x38, 0x2A),
      (0x39, 0x28), (0x30, 0x29), (0x2D, 0x5F), (0x3D, 0x2B), (0x5B, 0x7B), (0x5D, 0x7D), (0x3B, 0x3A), (0x27, 0x22),
      (0x60, 0x7E), (0x5C, 0x7C), (0x2C, 0x3C), (0x2E, 0x3E), (0x2F, 0x3F)]"

definition apply_shift :: "Set1State \<Rightarrow> u8 \<Rightarrow> u8" where
  "apply_shift s ch =
     (if ascii_alphabetic ch then (if shift_held s \<noteq> s1_caps s then to_ascii_uppercase ch else ch)
      else if shift_held s then (case map_of SHIFT_CHARS ch of Some other \<Rightarrow> other | None \<Rightarrow> ch)
      else ch)"

definition from_set1 :: "u8 \<Rightarrow> Set1State \<Rightarrow> KeyEvent option \<times> Set1State" where
  "from_set1 byte s =
     (if s1_skip s > 0 then (None, s\<lparr>s1_skip := s1_skip s - 1\<rparr>)
      else if byte = 0xE0 then (None, s\<lparr>s1_extended := True\<rparr>)
      else if byte = 0xE1 then (None, s\<lparr>s1_skip := 5, s1_extended := False\<rparr>)
      else
        let extended = s1_extended s; s = s\<lparr>s1_extended := False\<rparr>
        in if byte AND 0x80 \<noteq> 0 then (None, snd (apply_modifier extended (byte AND 0x7F) False s))
           else case apply_modifier extended byte True s of (handled, s) \<Rightarrow>
             if handled then (None, s)
             else case named extended byte of
                    Some key \<Rightarrow> (Some \<lparr>ke_key = key, ke_ctrl = ctrl_held s\<rparr>, s)
                  | None \<Rightarrow>
                      if extended then (None, s)
                      else (case base_char byte of
                              None \<Rightarrow> (None, s)
                            | Some ch \<Rightarrow> (Some \<lparr>ke_key = Char_key (apply_shift s ch), ke_ctrl = ctrl_held s\<rparr>, s)))"

record KeyRing =
  kr_slots :: "KeyEvent list"
  kr_head :: nat
  kr_len :: nat

definition KeyRing_new :: KeyRing where
  "KeyRing_new = \<lparr>kr_slots = replicate KEY_CAP \<lparr>ke_key = Escape, ke_ctrl = False\<rparr>, kr_head = 0, kr_len = 0\<rparr>"

definition ring_push :: "KeyEvent \<Rightarrow> KeyRing \<Rightarrow> bool \<times> KeyRing" where
  "ring_push event r =
     (if kr_len r = KEY_CAP then (False, r)
      else let tail = (kr_head r + kr_len r) mod KEY_CAP
           in (True, r\<lparr>kr_slots := (kr_slots r)[tail := event], kr_len := kr_len r + 1\<rparr>))"

definition ring_pop :: "KeyRing \<Rightarrow> KeyEvent option \<times> KeyRing" where
  "ring_pop r =
     (if kr_len r = 0 then (None, r)
      else (Some (kr_slots r ! kr_head r), r\<lparr>kr_head := (kr_head r + 1) mod KEY_CAP, kr_len := kr_len r - 1\<rparr>))"

subsection \<open>The ring\<close>

definition ring_wf_keys :: "KeyRing \<Rightarrow> bool" where
  "ring_wf_keys r \<longleftrightarrow> length (kr_slots r) = KEY_CAP \<and> kr_head r < KEY_CAP \<and> kr_len r \<le> KEY_CAP"

definition ring_keys :: "KeyRing \<Rightarrow> KeyEvent list" where
  "ring_keys r = map (\<lambda>i. kr_slots r ! ((kr_head r + i) mod KEY_CAP)) [0..<kr_len r]"

lemma mod_slot_inj:
  assumes "i < n" "j < n" "(h + i) mod n = (h + j) mod (n :: nat)"
  shows "i = j"
proof -
  have "i mod n = j mod n" using assms(3) by (simp add: mod_add_cong nat_mod_eq_iff)
  then show ?thesis using assms(1,2) by simp
qed

lemma ring_push_room:
  assumes "ring_wf_keys r" and "length (ring_keys r) < KEY_CAP"
  shows "\<exists>r'. ring_push e r = (True, r') \<and> ring_wf_keys r' \<and> ring_keys r' = ring_keys r @ [e]"
proof -
  let ?t = "(kr_head r + kr_len r) mod KEY_CAP"
  have l: "kr_len r < KEY_CAP" "?t < length (kr_slots r)" "length (kr_slots r) = KEY_CAP" using assms by (simp_all add: ring_wf_keys_def ring_keys_def)
  have "(kr_slots r)[?t := e] ! ((kr_head r + i) mod KEY_CAP) = kr_slots r ! ((kr_head r + i) mod KEY_CAP)" if "i < kr_len r" for i
  proof -
    have "(kr_head r + i) mod KEY_CAP \<noteq> ?t" using mod_slot_inj [of i KEY_CAP "kr_len r" "kr_head r"] that l(1) by auto
    then show ?thesis by simp
  qed
  then show ?thesis using assms l by (auto simp: ring_push_def ring_wf_keys_def ring_keys_def Let_def)
qed

lemma ring_pop_first:
  assumes "ring_wf_keys r" and "ring_keys r = e # es"
  shows "\<exists>r'. ring_pop r = (Some e, r') \<and> ring_wf_keys r' \<and> ring_keys r' = es"
proof -
  have n: "0 < kr_len r" using assms(2) by (auto simp: ring_keys_def intro: gr0I)
  then obtain n where n: "kr_len r = Suc n" by (cases "kr_len r") simp_all
  have h: "kr_head r mod KEY_CAP = kr_head r" using assms(1) by (simp add: ring_wf_keys_def)
  have "ring_keys r = kr_slots r ! kr_head r # map (\<lambda>i. kr_slots r ! ((kr_head r + Suc i) mod KEY_CAP)) [0..<n]"
    using n h by (simp add: ring_keys_def map_upt_first del: upt_Suc)
  then show ?thesis
    using assms n by (auto simp: ring_pop_def ring_wf_keys_def ring_keys_def mod_add_left_eq KEY_CAP_def)
qed

interpretation keys: bounded_fifo ring_wf_keys ring_keys "\<lambda>r. KEY_CAP" "\<lambda>r. \<infinity>" ring_push ring_pop
proof unfold_locales
  fix q :: KeyRing and x xs
  assume wf: "ring_wf_keys q"
  show "length (ring_keys q) \<le> KEY_CAP" using wf by (simp add: ring_wf_keys_def ring_keys_def)
  show "ring_push x q = (False, q)" if "length (ring_keys q) = KEY_CAP" using that by (simp add: ring_push_def ring_keys_def)
  show "\<exists>q'. ring_push x q = (True, q') \<and> ring_wf_keys q' \<and> ring_keys q' = ring_keys q @ [x] \<and> KEY_CAP = KEY_CAP \<and> \<infinity> \<le> eSuc \<infinity>"
    if "length (ring_keys q) < KEY_CAP" using ring_push_room [OF wf that] by simp
  show "ring_pop q = (None, q)" if "ring_keys q = []" using that by (simp add: ring_pop_def ring_keys_def)
  show "\<exists>q'. ring_pop q = (Some x, q') \<and> ring_wf_keys q' \<and> ring_keys q' = xs \<and> KEY_CAP = KEY_CAP \<and> \<infinity> = \<infinity>" if "ring_keys q = x # xs"
    using ring_pop_first [OF wf that] by simp
qed

text \<open>Any sequence of pushes and pops behaves as a list of at most 64 events.\<close>

lemma key_ring_fifo:
  assumes "ring_wf_keys r" and "fifo_run ring_push ring_pop ops r = (rs, r')"
  shows "ring_wf_keys r' \<and> spec_run KEY_CAP ops (ring_keys r) = (rs, ring_keys r')"
  using keys.run_refines [OF assms(1) _ assms(2)] by simp

lemma KeyRing_new_wf: "ring_wf_keys KeyRing_new" "ring_keys KeyRing_new = []"
  by (simp_all add: KeyRing_new_def ring_wf_keys_def ring_keys_def KEY_CAP_def)

subsection \<open>Typing\<close>

text \<open>The key-downs that a sequence of scan codes gives.\<close>

fun decode :: "u8 list \<Rightarrow> Set1State \<Rightarrow> KeyEvent list \<times> Set1State" where
  "decode [] s = ([], s)"
| "decode (b # bs) s =
     (case from_set1 b s of (e, s) \<Rightarrow> case decode bs s of (es, s) \<Rightarrow> ((case e of None \<Rightarrow> es | Some e \<Rightarrow> e # es), s))"

text \<open>The keys of a US keyboard, row by row as they are printed on it: the scan code of the first key of
  the row, the characters of the keys, and their characters under Shift. Scan codes count up along a row.
  This is the specification of the layout; it does not refer to the tables of the decoder.\<close>

definition us_rows :: "(nat \<times> string \<times> string) list" where
  "us_rows =
     [(0x02, ''1234567890-='', ''!@#$%^&*()_+''),
      (0x10, ''qwertyuiop[]'', ''QWERTYUIOP{}''),
      (0x1E, ''asdfghjkl;'' @ [CHR 0x27, CHR 0x60], ''ASDFGHJKL:'' @ [CHR 0x22, CHR 0x7E]),
      (0x2B, CHR 0x5C # ''zxcvbnm,./'', CHR 0x7C # ''ZXCVBNM<>?''),
      (0x39, '' '', '' '')]"

definition us_keys :: "(u8 \<times> u8 \<times> u8) list" where
  "us_keys = concat (map (\<lambda>(code, plain, shifted).
     zip (map of_nat [code..<code + length plain]) (zip (map of_char plain) (map of_char shifted))) us_rows)"

text \<open>Pressing and releasing a key, with the left Shift key where the character needs it.\<close>

definition type_char :: "u8 \<Rightarrow> u8 list" where
  "type_char c =
     (case find (\<lambda>(_, plain, _). plain = c) us_keys of
        Some (code, _) \<Rightarrow> [code, code OR 0x80]
      | None \<Rightarrow>
          (case find (\<lambda>(_, _, shifted). shifted = c) us_keys of
             Some (code, _) \<Rightarrow> [0x2A, code, code OR 0x80, 0xAA]
           | None \<Rightarrow> []))"

definition printable :: "u8 \<Rightarrow> bool" where "printable c \<longleftrightarrow> 0x20 \<le> c \<and> c \<le> 0x7E"

abbreviation char_event :: "u8 \<Rightarrow> KeyEvent" where "char_event c \<equiv> \<lparr>ke_key = Char_key c, ke_ctrl = False\<rparr>"

definition typed_back :: "nat \<Rightarrow> bool" where
  "typed_back n \<longleftrightarrow> decode (type_char (of_nat n)) Set1State_new = ([char_event (of_nat n)], Set1State_new)"

lemma type_block_1: "list_all typed_back [0x20..<0x30]"
  by code_simp

lemma type_block_2: "list_all typed_back [0x30..<0x40]"
  by code_simp

lemma type_block_3: "list_all typed_back [0x40..<0x50]"
  by code_simp

lemma type_block_4: "list_all typed_back [0x50..<0x60]"
  by code_simp

lemma type_block_5: "list_all typed_back [0x60..<0x70]"
  by code_simp

lemma type_block_6: "list_all typed_back [0x70..<0x7f]"
  by code_simp

lemma type_all:
  assumes "0x20 \<le> n" and "n < 0x7F"
  shows "typed_back n"
proof -
  consider "n \<in> set [0x20..<0x30]" | "n \<in> set [0x30..<0x40]" | "n \<in> set [0x40..<0x50]" | "n \<in> set [0x50..<0x60]" | "n \<in> set [0x60..<0x70]" | "n \<in> set [0x70..<0x7F]"
    using assms by (simp only: set_upt atLeastLessThan_iff) (metis linorder_not_less)
  then show ?thesis
    using type_block_1 type_block_2 type_block_3 type_block_4 type_block_5 type_block_6 unfolding list_all_iff by cases blast+
qed

lemma type_char_decodes:
  assumes "printable c"
  shows "decode (type_char c) Set1State_new = ([char_event c], Set1State_new)"
proof -
  have "0x20 \<le> unat c \<and> unat c < 0x7F" using assms by (auto simp: printable_def word_le_nat_alt)
  then show ?thesis using type_all [of "unat c"] by (simp add: typed_back_def)
qed

lemma decode_append: "decode (xs @ ys) s = (case decode xs s of (es, s) \<Rightarrow> case decode ys s of (es', s) \<Rightarrow> (es @ es', s))"
  by (induction xs arbitrary: s) (auto split: prod.splits option.splits)

lemma type_text_decodes:
  "list_all printable cs \<Longrightarrow> decode (concat (map type_char cs)) Set1State_new = (map char_event cs, Set1State_new)"
  by (induction cs) (simp_all add: decode_append type_char_decodes)

end
