(* ===== verification/Chrome.thy ===== *)
theory Chrome
  imports Input UrlClaims
begin

text \<open>
  The address line of the desktop, \<open>lerux-desk/src/lib.rs\<close>: the state machine \<open>Chrome\<close> with its line
  editor, loads in flight and the page or failure on screen. Keys come from theory \<open>Input\<close> and addresses
  from theory \<open>Url\<close>. \<open>None\<close> of an operation is a panic: a copy out of range in the line editor, or the
  resolution of a link. A load id is the \<open>u64\<close> inside \<open>LoadId\<close>.
\<close>

definition LoadId_from_raw :: "u64 \<Rightarrow> u64 option" where
  "LoadId_from_raw raw = (if raw = 0 then None else Some raw)"

datatype FetchFail = NameLookup | Certificate | Connection | CouldNotPaint

datatype FailLine = Fetch_fail FetchFail | NotPublicHttps

definition fail_text :: "FailLine \<Rightarrow> u8 list" where
  "fail_text line =
     (case line of
        Fetch_fail NameLookup \<Rightarrow> ascii ''name lookup failed''
      | Fetch_fail Certificate \<Rightarrow> ascii ''certificate rejected''
      | Fetch_fail Connection \<Rightarrow> ascii ''connection failed''
      | Fetch_fail CouldNotPaint \<Rightarrow> ascii ''page could not be painted''
      | NotPublicHttps \<Rightarrow> ascii ''not a public https address'')"

datatype Classify = Empty_text | Url_text HttpsUrl | Rejected_text FailLine

definition classify :: "u8 list \<Rightarrow> NamePolicy \<Rightarrow> Classify" where
  "classify text policy =
     (if text = [] then Empty_text
      else case normalize text policy of Some url \<Rightarrow> Url_text url | None \<Rightarrow> Rejected_text NotPublicHttps)"

subsection \<open>The line editor\<close>

datatype Selection = Caret | All_selected

record LineEdit =
  le_bytes :: "u8 list"
  le_len :: u16
  le_cursor :: u16
  le_selection :: Selection

definition LineEdit_empty :: LineEdit where
  "LineEdit_empty = \<lparr>le_bytes = replicate LINE_CAP 0, le_len = 0, le_cursor = 0, le_selection = Caret\<rparr>"

text \<open>\<open>self.bytes[..n].copy_from_slice(..)\<close>\<close>

definition put_front :: "u8 list \<Rightarrow> u8 list \<Rightarrow> u8 list" where
  "put_front bs dst = bs @ drop (length bs) dst"

definition from_url :: "HttpsUrl \<Rightarrow> Selection \<Rightarrow> LineEdit" where
  "from_url url selection =
     (let bytes = as_str url; len = min (length bytes) LINE_CAP
      in LineEdit_empty\<lparr>le_bytes := put_front (take len bytes) (le_bytes LineEdit_empty), le_len := of_nat len, le_selection := selection,
           le_cursor := (case selection of All_selected \<Rightarrow> 0 | Caret \<Rightarrow> of_nat len)\<rparr>)"

definition set_text :: "u8 list \<Rightarrow> LineEdit \<Rightarrow> LineEdit" where
  "set_text text e =
     (if length text > LINE_CAP then e
      else e\<lparr>le_bytes := put_front text (le_bytes e), le_len := of_nat (length text), le_cursor := of_nat (length text), le_selection := Caret\<rparr>)"

definition line_text :: "LineEdit \<Rightarrow> u8 list" where
  "line_text e = (let slice = take (unat (le_len e)) (le_bytes e) in if utf8_ok slice then slice else [])"

definition copy_within :: "nat \<Rightarrow> nat \<Rightarrow> nat \<Rightarrow> u8 list \<Rightarrow> u8 list option" where
  "copy_within from to dest bs =
     (if from \<le> to \<and> to \<le> length bs \<and> dest + (to - from) \<le> length bs
      then Some (take dest bs @ take (to - from) (drop from bs) @ drop (dest + (to - from)) bs) else None)"

definition insert_char :: "u8 \<Rightarrow> LineEdit \<Rightarrow> LineEdit option" where
  "insert_char ch e =
     (if le_selection e = All_selected then
        Some (e\<lparr>le_bytes := (le_bytes e)[0 := ch], le_len := 1, le_cursor := 1, le_selection := Caret\<rparr>)
      else let len = unat (le_len e)
        in if len \<ge> LINE_CAP then Some e
           else let pos = min (unat (le_cursor e)) len
             in case copy_within pos len (pos + 1) (le_bytes e) of
                  None \<Rightarrow> None
                | Some bytes \<Rightarrow> Some (e\<lparr>le_bytes := bytes[pos := ch], le_len := le_len e + 1, le_cursor := of_nat (pos + 1)\<rparr>))"

definition backspace :: "LineEdit \<Rightarrow> LineEdit option" where
  "backspace e =
     (if le_selection e = All_selected then Some (e\<lparr>le_len := 0, le_cursor := 0, le_selection := Caret\<rparr>)
      else if le_cursor e = 0 then Some e
      else let pos = unat (le_cursor e); len = unat (le_len e)
        in case copy_within pos len (pos - 1) (le_bytes e) of
             None \<Rightarrow> None
           | Some bytes \<Rightarrow> Some (e\<lparr>le_bytes := bytes, le_len := le_len e - 1, le_cursor := le_cursor e - 1\<rparr>))"

definition cursor_left :: "LineEdit \<Rightarrow> LineEdit" where
  "cursor_left e =
     (if le_selection e = All_selected then e\<lparr>le_cursor := 0, le_selection := Caret\<rparr>
      else if le_cursor e > 0 then e\<lparr>le_cursor := le_cursor e - 1\<rparr> else e)"

definition cursor_right :: "LineEdit \<Rightarrow> LineEdit" where
  "cursor_right e =
     (if le_selection e = All_selected then e\<lparr>le_cursor := le_len e, le_selection := Caret\<rparr>
      else if le_cursor e < le_len e then e\<lparr>le_cursor := le_cursor e + 1\<rparr> else e)"

subsection \<open>The state machine\<close>

datatype Shown = Shown_Blank | Shown_Failed FailLine | Shown_Page HttpsUrl

datatype Flight = Idle | InFlight HttpsUrl u64

datatype LinkFocus = No_link | Link_index u16

definition focus_clamp :: "nat \<Rightarrow> LinkFocus \<Rightarrow> LinkFocus" where
  "focus_clamp count f = (case f of Link_index i \<Rightarrow> if unat i < count then f else No_link | No_link \<Rightarrow> No_link)"

definition focus_next :: "nat \<Rightarrow> LinkFocus \<Rightarrow> LinkFocus" where
  "focus_next count f =
     (if count = 0 then No_link
      else let n = (if count < 2 ^ 16 then of_nat count else -1)
           in case focus_clamp count f of No_link \<Rightarrow> Link_index 0 | Link_index i \<Rightarrow> Link_index ((i + 1) mod n))"

datatype ChromeInner = Line LineEdit Shown Flight | Loading HttpsUrl u64 Shown LinkFocus | Reading HttpsUrl LinkFocus

record Chrome =
  ch_inner :: ChromeInner
  ch_next_id :: u64

datatype Effect = Effect_None | Commit HttpsUrl u64 | Drop_load u64 | PageKey KeyEvent

datatype Present = Present_Page | Present_Failure FailLine | Hold

datatype PaintOutcome = Painted HttpsUrl | Paint_failed FetchFail

definition Chrome_fresh :: Chrome where
  "Chrome_fresh = \<lparr>ch_inner = Line LineEdit_empty Shown_Blank Idle, ch_next_id = 1\<rparr>"

definition alloc_id :: "Chrome \<Rightarrow> u64 \<times> Chrome" where
  "alloc_id c = (ch_next_id c, c\<lparr>ch_next_id := (if ch_next_id c + 1 = 0 then 1 else ch_next_id c + 1)\<rparr>)"

definition start_load :: "HttpsUrl \<Rightarrow> Shown \<Rightarrow> Chrome \<Rightarrow> Chrome \<times> Effect" where
  "start_load url shown c =
     (case alloc_id c of (i, c) \<Rightarrow> (c\<lparr>ch_inner := Loading url i shown No_link\<rparr>, Commit url i))"

definition reject_line :: "Chrome \<Rightarrow> Chrome \<times> Effect" where
  "reject_line c =
     (case ch_inner c of
        Line edit _ flight \<Rightarrow>
          (c\<lparr>ch_inner := Line edit (Shown_Failed NotPublicHttps) Idle\<rparr>,
           case flight of InFlight _ i \<Rightarrow> Drop_load i | Idle \<Rightarrow> Effect_None)
      | _ \<Rightarrow> (c, Effect_None))"

definition boot_load :: "u8 list \<Rightarrow> NamePolicy \<Rightarrow> Chrome \<times> Effect" where
  "boot_load text policy =
     (case classify text policy of
        Empty_text \<Rightarrow> (Chrome_fresh, Effect_None)
      | Rejected_text _ \<Rightarrow> reject_line (Chrome_fresh\<lparr>ch_inner := Line (set_text text LineEdit_empty) Shown_Blank Idle\<rparr>)
      | Url_text url \<Rightarrow> start_load url Shown_Blank Chrome_fresh)"

definition enter :: "NamePolicy \<Rightarrow> Chrome \<Rightarrow> Chrome \<times> Effect" where
  "enter policy c =
     (case ch_inner c of
        Line edit shown _ \<Rightarrow>
          let owned = take (min (unat (le_len edit)) LINE_CAP) (le_bytes edit); text = (if utf8_ok owned then owned else [])
          in (case classify text policy of
                Empty_text \<Rightarrow> (c, Effect_None)
              | Rejected_text _ \<Rightarrow> reject_line c
              | Url_text url \<Rightarrow> start_load url shown c)
      | _ \<Rightarrow> (c, Effect_None))"

definition edit_key :: "Key \<Rightarrow> LineEdit \<Rightarrow> LineEdit option" where
  "edit_key key edit =
     (case key of
        Backspace \<Rightarrow> backspace edit
      | Left \<Rightarrow> Some (cursor_left edit)
      | Right \<Rightarrow> Some (cursor_right edit)
      | Char_key ch \<Rightarrow> if 0x20 \<le> ch \<and> ch \<le> 0x7E then insert_char ch edit else Some edit
      | _ \<Rightarrow> Some edit)"

definition on_line_key :: "KeyEvent \<Rightarrow> NamePolicy \<Rightarrow> Chrome \<Rightarrow> (Chrome \<times> Effect) option" where
  "on_line_key event policy c =
     (if ke_ctrl event then Some (c, Effect_None)
      else if ke_key event = Enter then Some (enter policy c)
      else case ch_inner c of
             Line edit shown flight \<Rightarrow>
               map_option (\<lambda>edit. (c\<lparr>ch_inner := Line edit shown flight\<rparr>, Effect_None)) (edit_key (ke_key event) edit)
           | _ \<Rightarrow> Some (c, Effect_None))"

definition focus_line :: "Chrome \<Rightarrow> Chrome" where
  "focus_line c = c\<lparr>ch_inner := (case ch_inner c of
       Line edit shown flight \<Rightarrow> Line (edit\<lparr>le_selection := All_selected, le_cursor := 0\<rparr>) shown flight
     | Loading target i shown _ \<Rightarrow> Line (from_url target All_selected) shown (InFlight target i)
     | Reading page _ \<Rightarrow> Line (from_url page All_selected) (Shown_Page page) Idle)\<rparr>"

definition after_escape :: "Shown \<Rightarrow> LineEdit \<Rightarrow> ChromeInner" where
  "after_escape shown edit = (case shown of Shown_Page page \<Rightarrow> Reading page No_link | other \<Rightarrow> Line edit other Idle)"

definition escape_key :: "Chrome \<Rightarrow> Chrome \<times> Effect" where
  "escape_key c =
     (case ch_inner c of
        Reading _ _ \<Rightarrow> (c, Effect_None)
      | Loading target i shown _ \<Rightarrow> (c\<lparr>ch_inner := after_escape shown (from_url target Caret)\<rparr>, Drop_load i)
      | Line edit shown (InFlight _ i) \<Rightarrow> (c\<lparr>ch_inner := after_escape shown edit\<rparr>, Drop_load i)
      | Line edit shown Idle \<Rightarrow> (c\<lparr>ch_inner := after_escape shown edit\<rparr>, Effect_None))"

definition reject_from_page :: "u8 list \<Rightarrow> Chrome \<Rightarrow> Chrome \<times> Effect" where
  "reject_from_page attempted c =
     (\<lparr>ch_inner = Line (set_text attempted LineEdit_empty) (Shown_Failed NotPublicHttps) Idle, ch_next_id = ch_next_id c\<rparr>, Effect_None)"

definition activate_focused_link :: "HttpsUrl \<Rightarrow> u8 list \<Rightarrow> Shown \<Rightarrow> NamePolicy \<Rightarrow> Chrome \<Rightarrow> (Chrome \<times> Effect) option" where
  "activate_focused_link base href shown policy c =
     (let trimmed = trim_matches whitespace href
      in case resolve_href base href of
           None \<Rightarrow> None
         | Some intent \<Rightarrow> Some (case intent of
               Script \<Rightarrow> (c, Effect_None)
             | Already \<Rightarrow> (c, Effect_None)
             | Rejected \<Rightarrow> reject_from_page trimmed c
             | Fetch url \<Rightarrow>
                 (case normalize (as_str url) policy of
                    None \<Rightarrow> reject_from_page trimmed c
                  | Some url \<Rightarrow> if as_str url = as_str base then (c, Effect_None) else start_load url shown c)
             | Fragment url \<Rightarrow>
                 (case normalize (as_str url) policy of
                    None \<Rightarrow> reject_from_page trimmed c
                  | Some url \<Rightarrow> (c\<lparr>ch_inner := Reading url No_link\<rparr>, Effect_None))))"

definition tab_focus :: "u8 list list \<Rightarrow> Chrome \<Rightarrow> Chrome" where
  "tab_focus links c =
     (case ch_inner c of Reading page focus \<Rightarrow> c\<lparr>ch_inner := Reading page (focus_next (length links) focus)\<rparr> | _ \<Rightarrow> c)"

definition on_page_key :: "KeyEvent \<Rightarrow> NamePolicy \<Rightarrow> u8 list list \<Rightarrow> Chrome \<Rightarrow> (Chrome \<times> Effect) option" where
  "on_page_key event policy links c =
     (case ch_inner c of
        Loading _ _ _ _ \<Rightarrow> Some (if ke_key event = Tab \<or> ke_key event = Enter then (c, Effect_None) else (c, PageKey event))
      | Reading page focus \<Rightarrow>
          if ke_key event = Tab then Some (tab_focus links c, Effect_None)
          else if ke_key event = Enter then
            (case focus of
               No_link \<Rightarrow> Some (c, Effect_None)
             | Link_index i \<Rightarrow>
                 if unat i < length links then activate_focused_link page (links ! unat i) (Shown_Page page) policy c
                 else Some (c, Effect_None))
          else Some (c, PageKey event)
      | Line _ _ _ \<Rightarrow> Some (c, PageKey event))"

definition on_key :: "KeyEvent \<Rightarrow> NamePolicy \<Rightarrow> u8 list list \<Rightarrow> Chrome \<Rightarrow> (Chrome \<times> Effect) option" where
  "on_key event policy links c =
     (if ke_ctrl event \<and> (ke_key event = Char_key 0x6C \<or> ke_key event = Char_key 0x4C) then Some (focus_line c, Effect_None)
      else if ke_key event = Escape then Some (escape_key c)
      else case ch_inner c of
             Line _ _ _ \<Rightarrow> on_line_key event policy c
           | _ \<Rightarrow> on_page_key event policy links c)"

definition link_focus :: "Chrome \<Rightarrow> u16 option" where
  "link_focus c = (case ch_inner c of Reading _ (Link_index i) \<Rightarrow> Some i | _ \<Rightarrow> None)"

definition land :: "LineEdit option \<Rightarrow> HttpsUrl \<Rightarrow> PaintOutcome \<Rightarrow> Chrome \<Rightarrow> Chrome \<times> Present" where
  "land edit flight_url outcome c =
     (case outcome of
        Painted url \<Rightarrow>
          (c\<lparr>ch_inner := (case edit of Some edit \<Rightarrow> Line edit (Shown_Page url) Idle | None \<Rightarrow> Reading url No_link)\<rparr>, Present_Page)
      | Paint_failed fail \<Rightarrow>
          let reason = Fetch_fail fail;
            edit = (case edit of Some edit \<Rightarrow> set_text (as_str flight_url) edit | None \<Rightarrow> from_url flight_url All_selected)
          in (c\<lparr>ch_inner := Line edit (Shown_Failed reason) Idle\<rparr>, Present_Failure reason))"

definition accept_paint :: "u64 \<Rightarrow> PaintOutcome \<Rightarrow> Chrome \<Rightarrow> Chrome \<times> Present" where
  "accept_paint i outcome c =
     (case ch_inner c of
        Loading target inflight _ _ \<Rightarrow> if inflight = i then land None target outcome c else (c, Hold)
      | Line edit _ (InFlight url inflight) \<Rightarrow> if inflight = i then land (Some edit) url outcome c else (c, Hold)
      | _ \<Rightarrow> (c, Hold))"

record LineView =
  lv_text :: "u8 list"
  lv_cursor :: "u16 option"
  lv_selected :: bool

datatype PageView = View_Blank | View_Failure FailLine | View_Page HttpsUrl

definition line_view :: "Chrome \<Rightarrow> LineView" where
  "line_view c =
     (case ch_inner c of
        Line edit _ _ \<Rightarrow> \<lparr>lv_text = line_text edit, lv_cursor = Some (le_cursor edit), lv_selected = (le_selection edit = All_selected)\<rparr>
      | Loading target _ _ _ \<Rightarrow> \<lparr>lv_text = as_str target, lv_cursor = None, lv_selected = False\<rparr>
      | Reading page _ \<Rightarrow> \<lparr>lv_text = as_str page, lv_cursor = None, lv_selected = False\<rparr>)"

definition view_of :: "Shown \<Rightarrow> PageView" where
  "view_of shown = (case shown of Shown_Blank \<Rightarrow> View_Blank | Shown_Failed reason \<Rightarrow> View_Failure reason | Shown_Page url \<Rightarrow> View_Page url)"

definition page_view :: "Chrome \<Rightarrow> PageView" where
  "page_view c =
     (case ch_inner c of Reading page _ \<Rightarrow> View_Page page | Loading _ _ shown _ \<Rightarrow> view_of shown | Line _ shown _ \<Rightarrow> view_of shown)"

definition loaded_address :: "Chrome \<Rightarrow> HttpsUrl option" where
  "loaded_address c = (case page_view c of View_Page url \<Rightarrow> Some url | _ \<Rightarrow> None)"

end
