(* ===== verification/ChromeClaims.thy ===== *)
theory ChromeClaims
  imports Chrome
begin

text \<open>
  Properties of the address line: the line editor refines editing a list of bytes, the state machine
  keeps its invariant and panics on one kind of link only, what it loads is normalised, paints of loads that
  are no longer in flight are ignored, and an address that is typed on the keyboard is loaded.
\<close>

subsection \<open>The line editor\<close>

definition edit_wf :: "LineEdit \<Rightarrow> bool" where
  "edit_wf e \<longleftrightarrow> length (le_bytes e) = LINE_CAP \<and> unat (le_len e) \<le> LINE_CAP \<and> le_cursor e \<le> le_len e
     \<and> (le_selection e = All_selected \<longrightarrow> le_cursor e = 0)"

text \<open>Text, cursor and whether everything is selected.\<close>

type_synonym line_abs = "u8 list \<times> nat \<times> bool"

definition edit_abs :: "LineEdit \<Rightarrow> line_abs" where
  "edit_abs e = (take (unat (le_len e)) (le_bytes e), unat (le_cursor e), le_selection e = All_selected)"

fun ed_insert :: "u8 \<Rightarrow> line_abs \<Rightarrow> line_abs" where
  "ed_insert ch (t, c, sel) =
     (if sel then ([ch], 1, False) else if length t \<ge> LINE_CAP then (t, c, False) else (take c t @ ch # drop c t, c + 1, False))"

fun ed_backspace :: "line_abs \<Rightarrow> line_abs" where
  "ed_backspace (t, c, sel) = (if sel then ([], 0, False) else if c = 0 then (t, c, False) else (take (c - 1) t @ drop c t, c - 1, False))"

fun ed_left :: "line_abs \<Rightarrow> line_abs" where
  "ed_left (t, c, sel) = (t, if sel then 0 else c - 1, False)"

fun ed_right :: "line_abs \<Rightarrow> line_abs" where
  "ed_right (t, c, sel) = (t, if sel then length t else min (c + 1) (length t), False)"

definition ed_key :: "Key \<Rightarrow> line_abs \<Rightarrow> line_abs" where
  "ed_key key l =
     (case key of Backspace \<Rightarrow> ed_backspace l | Left \<Rightarrow> ed_left l | Right \<Rightarrow> ed_right l
      | Char_key ch \<Rightarrow> if printable ch then ed_insert ch l else l | _ \<Rightarrow> l)"

lemma edit_wf_facts:
  assumes "edit_wf e"
  shows "length (le_bytes e) = 256" and "unat (le_len e) \<le> 256" and "unat (le_cursor e) \<le> unat (le_len e)"
    and "le_selection e = All_selected \<Longrightarrow> unat (le_cursor e) = 0"
  using assms by (auto simp: edit_wf_def LINE_CAP_def word_le_nat_alt)

lemma small_u16: "n \<le> 256 \<Longrightarrow> unat (of_nat n :: u16) = n"
  by (simp add: unat_of_nat)

lemma insert_char_refines:
  assumes wf: "edit_wf e"
  shows "\<exists>e'. insert_char ch e = Some e' \<and> edit_wf e' \<and> edit_abs e' = ed_insert ch (edit_abs e)"
proof -
  note f = edit_wf_facts [OF wf]
  consider "le_selection e = All_selected" | "le_selection e = Caret" "unat (le_len e) = 256" | "le_selection e = Caret" "unat (le_len e) < 256"
    using f(2) by (cases "le_selection e") linarith+
  then show ?thesis
  proof cases
    case 1
    then have "take 1 ((le_bytes e)[0 := ch]) = [ch]" using f(1) by (cases "le_bytes e") simp_all
    then show ?thesis using 1 f wf by (simp add: insert_char_def edit_wf_def edit_abs_def LINE_CAP_def word_le_nat_alt)
  next
    case 2
    then show ?thesis using f wf by (simp add: insert_char_def edit_abs_def LINE_CAP_def)
  next
    case 3
    let ?p = "unat (le_cursor e)" and ?n = "unat (le_len e)" and ?b = "le_bytes e"
    have cw: "copy_within ?p ?n (?p + 1) ?b = Some (take (?p + 1) ?b @ take (?n - ?p) (drop ?p ?b) @ drop (?n + 1) ?b)"
      using f 3 by (simp add: copy_within_def)
    let ?b' = "take ?p ?b @ ch # take (?n - ?p) (drop ?p ?b) @ drop (?n + 1) ?b"
    have b': "(take (?p + 1) ?b @ take (?n - ?p) (drop ?p ?b) @ drop (?n + 1) ?b)[?p := ch] = ?b'"
      using f 3 by (simp add: take_Suc_conv_app_nth list_update_append)
    have len: "unat (le_len e + 1) = ?n + 1" using 3 by (simp add: word_neq_max_Suc)
    have cur: "unat (of_nat (?p + 1) :: u16) = ?p + 1" using f 3 by (intro small_u16) simp
    let ?e = "e\<lparr>le_bytes := ?b', le_len := le_len e + 1, le_cursor := of_nat (?p + 1)\<rparr>"
    have "insert_char ch e = Some ?e" using 3 cw f(3) b' by (simp add: insert_char_def LINE_CAP_def min_absorb1 Let_def)
    moreover have "length ?b' = 256" using f 3 by simp
    then have "edit_wf ?e" using f 3 len cur by (simp add: edit_wf_def LINE_CAP_def word_le_nat_alt)
    moreover have "take (?n + 1) ?b' = take ?p (take ?n ?b) @ ch # drop ?p (take ?n ?b)"
      using f 3 by (simp add: drop_take min_absorb1 Suc_diff_le)
    then have "edit_abs ?e = ed_insert ch (edit_abs e)" using 3 f len cur by (simp add: edit_abs_def LINE_CAP_def)
    ultimately show ?thesis by blast
  qed
qed

lemma backspace_refines:
  assumes wf: "edit_wf e"
  shows "\<exists>e'. backspace e = Some e' \<and> edit_wf e' \<and> edit_abs e' = ed_backspace (edit_abs e)"
proof -
  note f = edit_wf_facts [OF wf]
  consider "le_selection e = All_selected" | "le_selection e = Caret" "le_cursor e = 0" | "le_selection e = Caret" "0 < unat (le_cursor e)"
    by (cases "le_selection e"; cases "le_cursor e = 0") (auto simp: unat_gt_0)
  then show ?thesis
  proof cases
    case 1
    then show ?thesis using f by (simp add: backspace_def edit_wf_def edit_abs_def LINE_CAP_def)
  next
    case 2
    then show ?thesis using wf by (simp add: backspace_def edit_abs_def)
  next
    case 3
    let ?p = "unat (le_cursor e)" and ?n = "unat (le_len e)" and ?b = "le_bytes e"
    let ?b' = "take (?p - 1) ?b @ take (?n - ?p) (drop ?p ?b) @ drop (?p - 1 + (?n - ?p)) ?b"
    have cw: "copy_within ?p ?n (?p - 1) ?b = Some ?b'" using f by (simp add: copy_within_def)
    have nz: "le_cursor e \<noteq> 0" "le_len e \<noteq> 0" using 3 f(3) by auto
    have u: "unat (le_len e - 1) = ?n - 1" "unat (le_cursor e - 1) = ?p - 1" using nz by (simp_all add: unat_minus_one)
    let ?e = "e\<lparr>le_bytes := ?b', le_len := le_len e - 1, le_cursor := le_cursor e - 1\<rparr>"
    have "backspace e = Some ?e" using 3 cw nz by (simp add: backspace_def Let_def)
    moreover have "length ?b' = 256" using f 3 by simp
    then have "edit_wf ?e" using f 3 u by (simp add: edit_wf_def LINE_CAP_def word_le_nat_alt) arith
    moreover have "take (?n - 1) ?b' = take (?p - 1) (take ?n ?b) @ drop ?p (take ?n ?b)"
      using f 3 by (simp add: drop_take min_absorb1 min_absorb2)
    then have "edit_abs ?e = ed_backspace (edit_abs e)" using 3 u by (simp add: edit_abs_def)
    ultimately show ?thesis by blast
  qed
qed

lemma cursor_refines:
  assumes wf: "edit_wf e"
  shows "edit_wf (cursor_left e)" and "edit_abs (cursor_left e) = ed_left (edit_abs e)"
    and "edit_wf (cursor_right e)" and "edit_abs (cursor_right e) = ed_right (edit_abs e)"
proof -
  note f = edit_wf_facts [OF wf]
  have l: "unat (le_cursor e - 1) = unat (le_cursor e) - 1" if "le_cursor e > 0" using that by (simp add: unat_minus_one word_gt_0)
  have r: "unat (le_cursor e + 1) = unat (le_cursor e) + 1" if "le_cursor e < le_len e"
    using that f(2) by (intro word_neq_max_Suc) (simp add: word_less_nat_alt)
  show "edit_wf (cursor_left e)" "edit_abs (cursor_left e) = ed_left (edit_abs e)"
    using wf f l by (auto simp: cursor_left_def edit_wf_def edit_abs_def word_le_nat_alt word_gt_0 unat_eq_zero)
  show "edit_wf (cursor_right e)" "edit_abs (cursor_right e) = ed_right (edit_abs e)"
    using wf f r by (auto simp: cursor_right_def edit_wf_def edit_abs_def word_le_nat_alt word_less_nat_alt)
qed

lemma edit_key_refines:
  assumes "edit_wf e"
  shows "\<exists>e'. edit_key key e = Some e' \<and> edit_wf e' \<and> edit_abs e' = ed_key key (edit_abs e)"
  using insert_char_refines [OF assms] backspace_refines [OF assms] cursor_refines [OF assms] assms
  by (cases key) (simp_all add: edit_key_def ed_key_def printable_def)

lemma set_text_wf: "edit_wf e \<Longrightarrow> edit_wf (set_text t e)"
  using small_u16 [of "length t"] by (auto simp: set_text_def edit_wf_def put_front_def LINE_CAP_def word_le_nat_alt)

lemma empty_wf: "edit_wf LineEdit_empty"
  by (simp add: LineEdit_empty_def edit_wf_def)

lemma from_url_wf: "edit_wf (from_url url sel)"
  using small_u16 [of "min (length (as_str url)) 256"]
  by (auto simp: from_url_def edit_wf_def LineEdit_empty_def put_front_def LINE_CAP_def Let_def word_le_nat_alt split: Selection.split)

subsection \<open>Invariant and panics\<close>

definition inner_wf :: "ChromeInner \<Rightarrow> bool" where
  "inner_wf inner \<longleftrightarrow>
     (case inner of
        Line e _ flight \<Rightarrow> edit_wf e \<and> (case flight of Idle \<Rightarrow> True | InFlight _ i \<Rightarrow> i \<noteq> 0)
      | Loading _ i _ _ \<Rightarrow> i \<noteq> 0
      | Reading _ focus \<Rightarrow> focus \<noteq> Link_index (-1))"

definition chrome_wf :: "Chrome \<Rightarrow> bool" where
  "chrome_wf c \<longleftrightarrow> ch_next_id c \<noteq> 0 \<and> inner_wf (ch_inner c)"

lemmas inner_wf_simps = inner_wf_def [of "Line e s f" for e s f, simplified] inner_wf_def [of "Loading u i s f" for u i s f, simplified]
  inner_wf_def [of "Reading u f" for u f, simplified]

lemma focus_next_bound: "focus_next count f \<noteq> Link_index (-1)"
proof -
  have b: "unat x mod unat n < 2 ^ 16 - 1" if "n \<noteq> 0" for x n :: u16
  proof -
    have "unat x mod unat n < unat n" using that by (simp add: unat_gt_0)
    moreover have "unat n < 2 ^ LENGTH(16)" by (rule unsigned_less)
    ultimately show ?thesis by simp
  qed
  have m: "x mod n \<noteq> -1" if "n \<noteq> 0" for x n :: u16
  proof
    assume "x mod n = -1"
    then have "unat x mod unat n = unat (-1 :: u16)" by (metis unat_mod)
    then show False using b [OF that, of x] by (simp add: unsigned_minus_1_eq_mask mask_eq_exp_minus_1)
  qed
  have "unat (of_nat count :: u16) = count" if "count < 2 ^ 16" using that by (simp add: unat_of_nat)
  then have "of_nat count \<noteq> (0 :: u16)" if "count \<noteq> 0" "count < 2 ^ 16" using that by (metis unsigned_0)
  moreover obtain n :: u16 where n: "n = (if count < 2 ^ 16 then of_nat count else -1)" by blast
  ultimately have "n \<noteq> 0" if "count \<noteq> 0" using that by simp
  then show ?thesis using m unfolding focus_next_def Let_def n [symmetric] by (simp split: LinkFocus.split)
qed

lemma start_load_wf: "ch_next_id c \<noteq> 0 \<Longrightarrow> chrome_wf (fst (start_load url shown c))"
  by (simp add: start_load_def alloc_id_def chrome_wf_def inner_wf_simps)

lemma reject_line_wf: "chrome_wf c \<Longrightarrow> chrome_wf (fst (reject_line c))"
  by (auto simp: reject_line_def chrome_wf_def inner_wf_simps split: ChromeInner.split)

lemma enter_wf: "chrome_wf c \<Longrightarrow> chrome_wf (fst (enter policy c))"
  using start_load_wf reject_line_wf by (auto simp: enter_def Let_def chrome_wf_def split: ChromeInner.split Classify.split)

lemma focus_line_wf: "chrome_wf c \<Longrightarrow> chrome_wf (focus_line c)"
  using from_url_wf by (auto simp: focus_line_def chrome_wf_def inner_wf_simps edit_wf_def split: ChromeInner.split Flight.splits)

lemma after_escape_wf: "edit_wf e \<Longrightarrow> inner_wf (after_escape shown e)"
  by (auto simp: after_escape_def inner_wf_simps split: Shown.split)

lemma escape_wf: "chrome_wf c \<Longrightarrow> chrome_wf (fst (escape_key c))"
  using after_escape_wf from_url_wf by (auto simp: escape_key_def chrome_wf_def inner_wf_simps split: ChromeInner.split Flight.splits)

lemma reject_from_page_wf: "ch_next_id c \<noteq> 0 \<Longrightarrow> chrome_wf (fst (reject_from_page t c))"
  using set_text_wf [OF empty_wf] by (simp add: reject_from_page_def chrome_wf_def inner_wf_simps)

lemma accept_paint_wf: "chrome_wf c \<Longrightarrow> chrome_wf (fst (accept_paint i out c))"
  using set_text_wf from_url_wf
  by (auto simp: accept_paint_def land_def Let_def chrome_wf_def inner_wf_simps split: ChromeInner.split Flight.splits PaintOutcome.split)

lemma boot_load_wf: "chrome_wf (fst (boot_load text policy))"
  using start_load_wf [of Chrome_fresh] reject_line_wf empty_wf set_text_wf [OF empty_wf]
  by (auto simp: boot_load_def Chrome_fresh_def chrome_wf_def inner_wf_simps reject_line_def split: Classify.split)

text \<open>The one panic: Enter on a link whose target has a character across its eleventh and twelfth byte.\<close>

definition cut_href :: "u8 list \<Rightarrow> bool" where
  "cut_href href \<longleftrightarrow> 11 < length (trim_ascii href) \<and> continuation (trim_ascii href ! 11)"

lemma resolve_href_None: "resolve_href base href = None \<longleftrightarrow> cut_href href"
  using resolve_href_panics_inside_a_character by (simp add: cut_href_def)

definition opens_cut_link :: "KeyEvent \<Rightarrow> u8 list list \<Rightarrow> Chrome \<Rightarrow> bool" where
  "opens_cut_link event links c \<longleftrightarrow>
     ke_key event = Enter \<and> (case link_focus c of None \<Rightarrow> False | Some i \<Rightarrow> unat i < length links \<and> cut_href (links ! unat i))"

lemma activate_cases:
  assumes "ch_next_id c \<noteq> 0" and "chrome_wf c"
  shows "case activate_focused_link base href shown policy c of None \<Rightarrow> cut_href href | Some r \<Rightarrow> \<not> cut_href href \<and> chrome_wf (fst r)"
proof (cases "resolve_href base href")
  case None
  then show ?thesis using resolve_href_None [of base href] by (simp add: activate_focused_link_def Let_def)
next
  case (Some intent)
  then have "\<not> cut_href href" by (metis option.distinct(1) resolve_href_None)
  then show ?thesis
    using Some start_load_wf [OF assms(1)] reject_from_page_wf [OF assms(1)] assms
    by (auto simp: activate_focused_link_def Let_def chrome_wf_def inner_wf_simps split: HrefIntent.split option.split)
qed

lemma on_line_key_ok:
  assumes "chrome_wf c"
  shows "case on_line_key event policy c of None \<Rightarrow> False | Some r \<Rightarrow> chrome_wf (fst r)"
proof (cases "ch_inner c")
  case (Line e shown flight)
  then obtain e' where "edit_key (ke_key event) e = Some e'" "edit_wf e'"
    using edit_key_refines [of e "ke_key event"] assms by (auto simp: chrome_wf_def inner_wf_simps)
  then show ?thesis using assms enter_wf [OF assms] Line by (auto simp: on_line_key_def chrome_wf_def inner_wf_simps)
qed (use assms enter_wf in \<open>auto simp: on_line_key_def\<close>)

lemma on_page_key_ok:
  assumes "chrome_wf c"
  shows "case on_page_key event policy links c of None \<Rightarrow> opens_cut_link event links c | Some r \<Rightarrow> \<not> opens_cut_link event links c \<and> chrome_wf (fst r)"
proof (cases "ch_inner c")
  case (Reading page focus)
  have "chrome_wf (tab_focus links c)" using assms focus_next_bound by (simp add: tab_focus_def Reading chrome_wf_def inner_wf_simps)
  moreover have "opens_cut_link event links c \<longleftrightarrow> ke_key event = Enter \<and> (\<exists>i. focus = Link_index i \<and> unat i < length links \<and> cut_href (links ! unat i))"
    by (auto simp: opens_cut_link_def link_focus_def Reading split: LinkFocus.split)
  ultimately show ?thesis
    using assms activate_cases [of c "links ! unat (case focus of Link_index i \<Rightarrow> i | No_link \<Rightarrow> 0)" page "Shown_Page page" policy] Reading
    by (cases focus) (auto simp: on_page_key_def chrome_wf_def split: option.splits)
qed (use assms in \<open>auto simp: on_page_key_def opens_cut_link_def link_focus_def\<close>)

lemma on_key_ok:
  assumes "chrome_wf c"
  shows "case on_key event policy links c of None \<Rightarrow> opens_cut_link event links c | Some r \<Rightarrow> \<not> opens_cut_link event links c \<and> chrome_wf (fst r)"
proof (cases "ch_inner c")
  case (Line e shown flight)
  then have "\<not> opens_cut_link event links c" by (simp add: opens_cut_link_def link_focus_def)
  then show ?thesis using on_line_key_ok [OF assms, of event policy] focus_line_wf [OF assms] escape_wf [OF assms] Line by (auto simp: on_key_def split: option.splits)
qed (use on_page_key_ok [OF assms, where event = event and policy = policy and links = links] focus_line_wf [OF assms] escape_wf [OF assms] in
    \<open>auto simp: on_key_def opens_cut_link_def link_focus_def split: option.splits\<close>)

subsection \<open>Runs\<close>

text \<open>What the desktop feeds to the state machine: keys, with the links of the page, and paints. The log has the
  effect of every key and what every paint changed.\<close>

datatype happening = Pressed KeyEvent NamePolicy "u8 list list" | Paint u64 PaintOutcome

datatype reaction = Did Effect | Showed u64 Present

definition chrome_step :: "happening \<Rightarrow> Chrome \<Rightarrow> (Chrome \<times> reaction) option" where
  "chrome_step h c =
     (case h of
        Pressed event policy links \<Rightarrow> map_option (\<lambda>(c, e). (c, Did e)) (on_key event policy links c)
      | Paint i out \<Rightarrow> (case accept_paint i out c of (c, p) \<Rightarrow> Some (c, Showed i p)))"

fun chrome_run :: "happening list \<Rightarrow> Chrome \<Rightarrow> (Chrome \<times> reaction list) option" where
  "chrome_run [] c = Some (c, [])"
| "chrome_run (h # hs) c =
     (case chrome_step h c of None \<Rightarrow> None
      | Some (c, r) \<Rightarrow> map_option (\<lambda>(c, rs). (c, r # rs)) (chrome_run hs c))"

text \<open>The ids that were committed, and the load that is open: committed last, not dropped and not painted.\<close>

fun committed :: "reaction list \<Rightarrow> u64 list" where
  "committed [] = []"
| "committed (Did (Commit _ i) # rs) = i # committed rs"
| "committed (_ # rs) = committed rs"

fun open_after :: "u64 option \<Rightarrow> reaction \<Rightarrow> u64 option" where
  "open_after p (Did (Commit _ i)) = Some i"
| "open_after p (Did (Drop_load i)) = (if p = Some i then None else p)"
| "open_after p (Did _) = p"
| "open_after p (Showed i Hold) = p"
| "open_after p (Showed i _) = None"

definition open_load :: "reaction list \<Rightarrow> u64 option" where
  "open_load rs = fold (\<lambda>r p. open_after p r) rs None"

definition inflight :: "Chrome \<Rightarrow> u64 option" where
  "inflight c = (case ch_inner c of Line _ _ (InFlight _ i) \<Rightarrow> Some i | Loading _ i _ _ \<Rightarrow> Some i | _ \<Rightarrow> None)"

definition next_raw :: "u64 \<Rightarrow> u64" where "next_raw i = (if i + 1 = 0 then 1 else i + 1)"

text \<open>One reaction: ids are allocated in turn, only an open load is dropped, and the open load is the one in flight.\<close>

definition reacts :: "Chrome \<Rightarrow> Chrome \<Rightarrow> Effect \<Rightarrow> bool" where
  "reacts c c' e \<longleftrightarrow>
     inflight c' = open_after (inflight c) (Did e)
     \<and> (case e of Commit _ i \<Rightarrow> i = ch_next_id c \<and> ch_next_id c' = next_raw i
        | Drop_load i \<Rightarrow> inflight c = Some i \<and> ch_next_id c' = ch_next_id c
        | _ \<Rightarrow> ch_next_id c' = ch_next_id c)"

lemma start_load_reacts: "start_load url shown c = (c', e) \<Longrightarrow> reacts c c' e"
  by (auto simp: start_load_def alloc_id_def reacts_def inflight_def next_raw_def)

lemma reject_line_reacts: "reject_line c = (c', e) \<Longrightarrow> reacts c c' e"
  by (auto simp: reject_line_def reacts_def inflight_def split: ChromeInner.splits Flight.splits)

lemma same_reacts: "reacts c c Effect_None" "reacts c c (PageKey k)"
  by (simp_all add: reacts_def)

lemma enter_reacts: "enter policy c = (c', e) \<Longrightarrow> reacts c c' e"
  using start_load_reacts reject_line_reacts same_reacts
  by (auto simp: enter_def Let_def split: ChromeInner.splits Classify.splits)

lemma on_line_key_reacts: "on_line_key event policy c = Some (c', e) \<Longrightarrow> reacts c c' e"
  using enter_reacts same_reacts
  by (auto simp: on_line_key_def reacts_def inflight_def split: if_splits ChromeInner.splits)

lemma escape_reacts: "escape_key c = (c', e) \<Longrightarrow> reacts c c' e"
  by (auto simp: escape_key_def after_escape_def reacts_def inflight_def split: ChromeInner.splits Flight.splits Shown.splits)

lemma focus_line_reacts: "reacts c (focus_line c) Effect_None"
  by (auto simp: focus_line_def reacts_def inflight_def split: ChromeInner.splits)

lemma activate_reacts:
  assumes "ch_inner c = Reading page focus" and "activate_focused_link base href shown policy c = Some (c', e)"
  shows "reacts c c' e"
proof -
  have "reacts c (fst (reject_from_page t c)) (snd (reject_from_page t c))" for t
    using assms(1) by (simp add: reject_from_page_def reacts_def inflight_def)
  moreover have "reacts c (c\<lparr>ch_inner := Reading url No_link\<rparr>) Effect_None" for url
    using assms(1) by (simp add: reacts_def inflight_def)
  ultimately show ?thesis
    using assms(2) start_load_reacts same_reacts(1)
    by (auto simp: activate_focused_link_def Let_def split: option.splits HrefIntent.splits if_splits) (metis fst_conv snd_conv)+
qed

lemma tab_focus_reacts: "reacts c (tab_focus links c) Effect_None"
  by (auto simp: tab_focus_def reacts_def inflight_def split: ChromeInner.splits)

lemma on_page_key_reacts: "on_page_key event policy links c = Some (c', e) \<Longrightarrow> reacts c c' e"
  using activate_reacts same_reacts tab_focus_reacts
  by (auto simp: on_page_key_def split: ChromeInner.splits LinkFocus.splits if_splits)

lemma on_key_reacts: "on_key event policy links c = Some (c', e) \<Longrightarrow> reacts c c' e"
  using on_page_key_reacts on_line_key_reacts escape_reacts focus_line_reacts
  by (auto simp: on_key_def split: if_splits ChromeInner.splits)

lemma accept_paint_inflight:
  "inflight c = Some i \<Longrightarrow> snd (accept_paint i out c) \<noteq> Hold \<and> inflight (fst (accept_paint i out c)) = None \<and> ch_next_id (fst (accept_paint i out c)) = ch_next_id c"
  "inflight c \<noteq> Some i \<Longrightarrow> accept_paint i out c = (c, Hold)"
  by (auto simp: inflight_def accept_paint_def land_def Let_def split: ChromeInner.splits Flight.splits PaintOutcome.splits)

lemma step_reacts:
  assumes "chrome_step h c = Some (c', r)"
  shows "inflight c' = open_after (inflight c) r"
    and "ch_next_id c' = (next_raw ^^ length (committed [r])) (ch_next_id c)" and "committed [r] = [] \<or> committed [r] = [ch_next_id c]"
    and "r = Did (Drop_load i) \<Longrightarrow> inflight c = Some i"
proof -
  have "inflight c' = open_after (inflight c) r \<and> ch_next_id c' = (next_raw ^^ length (committed [r])) (ch_next_id c)
    \<and> (committed [r] = [] \<or> committed [r] = [ch_next_id c]) \<and> (\<forall>i. r = Did (Drop_load i) \<longrightarrow> inflight c = Some i)"
  proof (cases h)
    case (Pressed event policy links)
    then obtain e where "on_key event policy links c = Some (c', e)" "r = Did e" using assms by (auto simp: chrome_step_def)
    then show ?thesis using on_key_reacts [of event policy links c c' e] by (cases e) (auto simp: reacts_def)
  next
    case (Paint i out)
    then obtain p where p: "accept_paint i out c = (c', p)" "r = Showed i p" using assms by (auto simp: chrome_step_def split: prod.splits)
    show ?thesis
      using p accept_paint_inflight(1) [of c i out] accept_paint_inflight(2) [of c i out]
      by (cases "inflight c = Some i"; cases p) auto
  qed
  then show "inflight c' = open_after (inflight c) r" "ch_next_id c' = (next_raw ^^ length (committed [r])) (ch_next_id c)"
    "committed [r] = [] \<or> committed [r] = [ch_next_id c]" "r = Did (Drop_load i) \<Longrightarrow> inflight c = Some i" by blast+
qed

lemma committed_Cons: "committed (r # rs) = committed [r] @ committed rs"
  by (cases r rule: reaction.exhaust) (auto, metis committed.simps Effect.exhaust append.simps)

lemma ids_Cons:
  assumes "m = (next_raw ^^ length (committed [r])) n" and "committed [r] = [] \<or> committed [r] = [n]"
    and ids: "committed rs = map (\<lambda>k. (next_raw ^^ k) m) [0..<length (committed rs)]"
  shows "committed (r # rs) = map (\<lambda>k. (next_raw ^^ k) n) [0..<length (committed (r # rs))]"
  using assms(2)
proof
  assume "committed [r] = []"
  then have e: "committed (r # rs) = committed rs" "n = m" using assms(1) by (simp_all add: committed_Cons [of r rs])
  show ?thesis unfolding e by (rule ids)
next
  assume k: "committed [r] = [n]"
  then have e: "m = next_raw n" using assms(1) by simp
  have "committed rs = map (\<lambda>k. (next_raw ^^ k) (next_raw n)) [0..<length (committed rs)]" by (rule ids [unfolded e])
  also have "\<dots> = map (\<lambda>k. (next_raw ^^ Suc k) n) [0..<length (committed rs)]" by (simp add: funpow_Suc_right del: funpow.simps)
  finally have "committed (r # rs) = n # \<dots>" using k by (simp add: committed_Cons [of r rs])
  moreover have "length (committed (r # rs)) = Suc (length (committed rs))" using k by (simp add: committed_Cons [of r rs])
  ultimately show ?thesis by (simp add: map_upt_Suc del: upt_Suc)
qed

lemma run_reacts:
  assumes "chrome_run hs c = Some (c', rs)"
  shows "inflight c' = fold (\<lambda>r p. open_after p r) rs (inflight c)"
    and "committed rs = map (\<lambda>k. (next_raw ^^ k) (ch_next_id c)) [0..<length (committed rs)]"
proof -
  have "inflight c' = fold (\<lambda>r p. open_after p r) rs (inflight c)
     \<and> committed rs = map (\<lambda>k. (next_raw ^^ k) (ch_next_id c)) [0..<length (committed rs)]"
    using assms
  proof (induction hs arbitrary: c rs)
    case (Cons h hs)
    then obtain c1 r rs1 where st: "chrome_step h c = Some (c1, r)" and run: "chrome_run hs c1 = Some (c', rs1)" and rs: "rs = r # rs1"
      by (auto split: option.splits)
    note s = step_reacts(1-3) [OF st] and ih = Cons.IH [OF run]
    show ?case using ids_Cons [OF s(2,3)] ih s(1) unfolding rs by simp
  qed simp
  then show "inflight c' = fold (\<lambda>r p. open_after p r) rs (inflight c)"
    "committed rs = map (\<lambda>k. (next_raw ^^ k) (ch_next_id c)) [0..<length (committed rs)]" by blast+
qed

lemma next_raw_ids: "k < 2 ^ 64 - 1 \<Longrightarrow> unat ((next_raw ^^ k) 1) = k + 1"
proof (induction k)
  case (Suc k)
  then have "unat ((next_raw ^^ k) 1) = k + 1" by simp
  moreover from this have "unat ((next_raw ^^ k) 1 + 1) = k + 2" using Suc.prems by (simp add: word_neq_max_Suc)
  moreover from this have "(next_raw ^^ k) 1 + 1 \<noteq> 0" by auto
  then have "(next_raw ^^ Suc k) 1 = (next_raw ^^ k) 1 + 1" by (simp add: next_raw_def [of "(next_raw ^^ k) 1"])
  ultimately show ?case by simp
qed simp

lemma boot_reacts: "boot_load text policy = (c, e) \<Longrightarrow> reacts Chrome_fresh c e"
  using start_load_reacts same_reacts(1)
  by (auto simp: boot_load_def reject_line_def Chrome_fresh_def reacts_def inflight_def split: Classify.splits)

lemma run_wf: "chrome_wf c \<Longrightarrow> chrome_run hs c = Some (c', rs) \<Longrightarrow> chrome_wf c'"
proof (induction hs arbitrary: c rs)
  case (Cons h hs)
  then obtain c1 r rs1 where st: "chrome_step h c = Some (c1, r)" and run: "chrome_run hs c1 = Some (c', rs1)" by (auto split: option.splits)
  have "chrome_wf c1"
  proof (cases h)
    case (Pressed event policy links)
    then show ?thesis using st on_key_ok [OF Cons.prems(1), where event = event and policy = policy and links = links] by (auto simp: chrome_step_def)
  next
    case (Paint i out)
    then show ?thesis using st accept_paint_wf [OF Cons.prems(1), of i out] by (auto simp: chrome_step_def split: prod.splits)
  qed
  then show ?case using Cons.IH run by blast
qed simp

subsection \<open>What is loaded\<close>

lemma normalize_again: "normalize text policy = Some u \<Longrightarrow> normalize (as_str u) policy = Some u"
  using normalize_structure_idem by (auto simp: normalize_def split: option.splits if_splits)

lemma start_load_commits:
  "start_load url shown c = (c', Commit u i) \<Longrightarrow> normalize text policy = Some url \<Longrightarrow> normalize (as_str u) policy = Some u"
  using normalize_again by (simp add: start_load_def alloc_id_def)

lemma enter_commits: "enter policy c = (c', Commit u i) \<Longrightarrow> normalize (as_str u) policy = Some u"
  by (auto dest: start_load_commits simp: enter_def classify_def reject_line_def Let_def split: ChromeInner.splits option.splits if_splits Flight.splits)

lemma activate_commits: "activate_focused_link base href shown policy c = Some (c', Commit u i) \<Longrightarrow> normalize (as_str u) policy = Some u"
  by (auto dest: start_load_commits simp: activate_focused_link_def reject_from_page_def Let_def split: option.splits if_splits HrefIntent.splits)

lemma on_key_commits:
  assumes "on_key event policy links c = Some (c', Commit u i)"
  shows "normalize (as_str u) policy = Some u"
proof -
  have "escape_key c \<noteq> (c', Commit u i)" by (auto simp: escape_key_def split: ChromeInner.splits Flight.splits)
  then show ?thesis
    using assms activate_commits enter_commits
    by (auto simp: on_key_def on_line_key_def on_page_key_def split: if_splits ChromeInner.splits LinkFocus.splits)
qed

lemma run_commits:
  "chrome_run hs c = Some (c', rs) \<Longrightarrow> Did (Commit u i) \<in> set rs \<Longrightarrow>
     \<exists>event policy links. Pressed event policy links \<in> set hs \<and> normalize (as_str u) policy = Some u"
proof (induction hs arbitrary: c rs)
  case (Cons h hs)
  then obtain c1 r rs1 where st: "chrome_step h c = Some (c1, r)" and run: "chrome_run hs c1 = Some (c', rs1)" and rs: "rs = r # rs1"
    by (auto split: option.splits)
  show ?case
  proof (cases "r = Did (Commit u i)")
    case True
    then show ?thesis using st on_key_commits by (fastforce simp: chrome_step_def split: happening.splits prod.splits)
  next
    case False
    then show ?thesis using Cons.IH [OF run] Cons.prems(2) rs by auto
  qed
qed simp

lemma boot_commits: "boot_load text policy = (c, Commit u i) \<Longrightarrow> normalize (as_str u) policy = Some u"
  by (auto dest: start_load_commits simp: boot_load_def classify_def reject_line_def split: option.splits if_splits)

subsection \<open>Typing an address\<close>

lemma run_append:
  "chrome_run (hs @ hs') c = (case chrome_run hs c of None \<Rightarrow> None | Some (c, rs) \<Rightarrow> map_option (\<lambda>(c, rs'). (c, rs @ rs')) (chrome_run hs' c))"
proof (induction hs arbitrary: c)
  case Nil
  show ?case by (cases "chrome_run hs' c") auto
next
  case (Cons h hs)
  show ?case by (auto simp: Cons.IH option.map_comp comp_def intro!: option.map_cong split: option.splits prod.splits)
qed

lemma printable_step:
  assumes "ch_inner c = Line e shown flight" and "edit_wf e" and "printable ch"
  shows "\<exists>e'. chrome_step (Pressed (char_event ch) policy links) c = Some (c\<lparr>ch_inner := Line e' shown flight\<rparr>, Did Effect_None)
    \<and> edit_wf e' \<and> edit_abs e' = ed_insert ch (edit_abs e)"
  using assms edit_key_refines [OF assms(2), of "Char_key ch"]
  by (auto simp: chrome_step_def on_key_def on_line_key_def ed_key_def)

lemma printable_run:
  assumes "list_all printable cs" and "ch_inner c = Line e shown flight" and "edit_wf e" and "edit_abs e = (t, length t, False)"
    and "length t + length cs \<le> LINE_CAP"
  shows "\<exists>e'. chrome_run (map (\<lambda>ch. Pressed (char_event ch) policy links) cs) c
      = Some (c\<lparr>ch_inner := Line e' shown flight\<rparr>, replicate (length cs) (Did Effect_None))
    \<and> edit_wf e' \<and> edit_abs e' = (t @ cs, length (t @ cs), False)"
  using assms
proof (induction cs arbitrary: c e t)
  case Nil
  then show ?case by (intro exI [of _ e]) (cases c, simp)
next
  case (Cons a cs)
  obtain e1 where st: "chrome_step (Pressed (char_event a) policy links) c = Some (c\<lparr>ch_inner := Line e1 shown flight\<rparr>, Did Effect_None)"
    and e1: "edit_wf e1" "edit_abs e1 = (t @ [a], length (t @ [a]), False)"
    using printable_step [OF Cons.prems(2,3), of a policy links] Cons.prems by auto
  obtain e' where "chrome_run (map (\<lambda>ch. Pressed (char_event ch) policy links) cs) (c\<lparr>ch_inner := Line e1 shown flight\<rparr>)
      = Some (c\<lparr>ch_inner := Line e' shown flight\<rparr>, replicate (length cs) (Did Effect_None))"
    and "edit_wf e'" "edit_abs e' = ((t @ [a]) @ cs, length ((t @ [a]) @ cs), False)"
    using Cons.IH [of "c\<lparr>ch_inner := Line e1 shown flight\<rparr>" e1 "t @ [a]"] Cons.prems e1 by auto
  then show ?case using st by auto
qed

lemma selected_run:
  assumes "list_all printable cs" and "cs \<noteq> []" and "length cs \<le> LINE_CAP"
    and "ch_inner c = Line e shown flight" and "edit_wf e" and "le_selection e = All_selected"
  shows "\<exists>e'. chrome_run (map (\<lambda>ch. Pressed (char_event ch) policy links) cs) c
      = Some (c\<lparr>ch_inner := Line e' shown flight\<rparr>, replicate (length cs) (Did Effect_None))
    \<and> edit_wf e' \<and> edit_abs e' = (cs, length cs, False)"
proof -
  obtain a as where cs: "cs = a # as" using assms(2) by (cases cs) auto
  obtain e1 where st: "chrome_step (Pressed (char_event a) policy links) c = Some (c\<lparr>ch_inner := Line e1 shown flight\<rparr>, Did Effect_None)"
    and e1: "edit_wf e1" "edit_abs e1 = ([a], length [a], False)"
    using printable_step [OF assms(4,5), of a policy links] assms(1,6) cs by (auto simp: edit_abs_def)
  show ?thesis
    using printable_run [of as "c\<lparr>ch_inner := Line e1 shown flight\<rparr>" e1 shown flight "[a]" policy links] st e1 assms(1,3)
    by (auto simp: cs)
qed

lemma printable_utf8: "list_all printable cs \<Longrightarrow> utf8_ok cs"
proof (induction cs)
  case (Cons a cs)
  then have "a < 0x80" by (auto simp: printable_def word_le_nat_alt word_less_nat_alt)
  then show ?case using Cons by simp
qed simp

lemma from_url_selection: "le_selection (from_url url sel) = sel"
  by (simp add: from_url_def Let_def)

lemma focus_line_shape:
  assumes "chrome_wf c"
  shows "\<exists>e shown flight. focus_line c = c\<lparr>ch_inner := Line e shown flight\<rparr> \<and> edit_wf e \<and> le_selection e = All_selected \<and> view_of shown = page_view c"
proof (cases "ch_inner c")
  case (Line e shown flight)
  then have "edit_wf (e\<lparr>le_selection := All_selected, le_cursor := 0\<rparr>)" using assms by (simp add: chrome_wf_def inner_wf_simps edit_wf_def)
  then show ?thesis using Line by (intro exI) (auto simp: focus_line_def page_view_def)
next
  case (Loading target i shown focus)
  then show ?thesis using from_url_wf by (intro exI) (auto simp: focus_line_def page_view_def from_url_selection)
next
  case (Reading page focus)
  then show ?thesis using from_url_wf by (intro exI) (auto simp: focus_line_def page_view_def view_of_def from_url_selection)
qed

lemma enter_typed:
  assumes "ch_inner c = Line e shown flight" and "edit_abs e = (cs, length cs, False)" and "list_all printable cs" and "edit_wf e"
    and "cs \<noteq> []" and "normalize cs policy = Some url"
  shows "enter policy c = start_load url shown c"
proof -
  have "take (unat (le_len e)) (le_bytes e) = cs" using assms(2) by (simp add: edit_abs_def)
  moreover have "min (unat (le_len e)) LINE_CAP = unat (le_len e)" using assms(4) by (simp add: edit_wf_def)
  ultimately have "take (min (unat (le_len e)) LINE_CAP) (le_bytes e) = cs" by simp
  then show ?thesis using assms printable_utf8 by (simp add: enter_def classify_def)
qed

lemma decode_three: "decode xs s = (a, s) \<Longrightarrow> decode ys s = (b, s) \<Longrightarrow> decode zs s = (c, s) \<Longrightarrow> decode (xs @ ys @ zs) s = (a @ b @ c, s)"
  by (simp add: decode_append)

lemma ctrl_l_decodes: "decode [0x1D, 0x26, 0xA6, 0x9D] Set1State_new = ([\<lparr>ke_key = Char_key 0x6C, ke_ctrl = True\<rparr>], Set1State_new)"
  by code_simp

lemma enter_decodes: "decode [0x1C, 0x9C] Set1State_new = ([\<lparr>ke_key = Enter, ke_ctrl = False\<rparr>], Set1State_new)"
  by code_simp

lemma normalize_empty: "normalize [] policy = None"
  by (cases policy) code_simp+

subsection \<open>Properties\<close>

text \<open>C38: The line editor edits a list of bytes. On a well-formed editor, every key other than Enter and
  Escape succeeds, keeps the editor well formed and does what it does to the text, the cursor and the
  selection: a printable character is inserted at the cursor or replaces a selected line, and is dropped when the
  line holds 256 bytes, Backspace removes the byte before the cursor or the selected line, and Left and Right
  move the cursor within the text or to an end of a selected line.\<close>

theorem line_editor_refines_byte_list:
  assumes "ch_inner c = Line e shown flight" and "edit_wf e" and "\<not> ke_ctrl event" and "ke_key event \<noteq> Enter" and "ke_key event \<noteq> Escape"
  shows "\<exists>e'. on_key event policy links c = Some (c\<lparr>ch_inner := Line e' shown flight\<rparr>, Effect_None)
    \<and> edit_wf e' \<and> edit_abs e' = ed_key (ke_key event) (edit_abs e)"
  using assms edit_key_refines [OF assms(2), of "ke_key event"] by (auto simp: on_key_def on_line_key_def)

theorem line_editor_refines_byte_list_witness:
  "\<exists>e'. on_key (char_event 0x68) DemoHost [] Chrome_fresh = Some (Chrome_fresh\<lparr>ch_inner := Line e' Shown_Blank Idle\<rparr>, Effect_None)
    \<and> edit_wf e' \<and> edit_abs e' = ([0x68], 1, False)"
proof -
  have "edit_abs LineEdit_empty = ([], 0, False)" by (simp add: LineEdit_empty_def edit_abs_def)
  moreover have "printable 0x68" by code_simp
  ultimately show ?thesis
    using line_editor_refines_byte_list [of Chrome_fresh LineEdit_empty Shown_Blank Idle "char_event 0x68" DemoHost "[]"] empty_wf
    by (simp add: Chrome_fresh_def ed_key_def LINE_CAP_def)
qed

text \<open>C39: The address line keeps its invariant, and one kind of key stops it. After any sequence of keys and
  paints since the start, the editor is within its 256 bytes, no load id is 0 and the link index cannot
  overflow; the next key panics exactly when it is Enter on a link whose target has a character across its
  eleventh and twelfth byte.\<close>

theorem desktop_keeps_its_invariant:
  assumes "chrome_run hs (fst (boot_load text policy)) = Some (c, rs)"
  shows "chrome_wf c \<and> (on_key event policy' links c = None \<longleftrightarrow> opens_cut_link event links c)"
proof -
  have wf: "chrome_wf c" using run_wf [OF boot_load_wf assms] .
  then show ?thesis using on_key_ok [OF wf, where event = event and policy = policy' and links = links] by (auto split: option.splits)
qed

theorem desktop_keeps_its_invariant_witness:
  "\<exists>c rs. chrome_run [Pressed \<lparr>ke_key = Escape, ke_ctrl = False\<rparr> DemoHost []] (fst (boot_load [] DemoHost)) = Some (c, rs)
    \<and> on_key \<lparr>ke_key = Enter, ke_ctrl = False\<rparr> DemoHost [] c \<noteq> None"
proof -
  obtain c rs where run: "chrome_run [Pressed \<lparr>ke_key = Escape, ke_ctrl = False\<rparr> DemoHost []] (fst (boot_load [] DemoHost)) = Some (c, rs)"
    by (cases "escape_key (fst (boot_load [] DemoHost))") (simp add: chrome_step_def on_key_def)
  have "\<not> opens_cut_link \<lparr>ke_key = Enter, ke_ctrl = False\<rparr> [] c" by (simp add: opens_cut_link_def split: option.split)
  then show ?thesis using desktop_keeps_its_invariant [OF run, of "\<lparr>ke_key = Enter, ke_ctrl = False\<rparr>" DemoHost "[]"] run by blast
qed

text \<open>C37: Only the open load paints. Loads are numbered 1, 2, 3 and so on; for fewer than \<open>2\<^sup>64 - 1\<close> of them
  the numbers are distinct, and after any sequence of keys and paints since the start a paint changes the
  screen exactly when its id is that of the last load committed, not dropped since and not painted before. Any
  other paint leaves the state as it is.\<close>

theorem only_the_open_load_paints:
  assumes "boot_load text policy = (c0, e0)" and "chrome_run hs c0 = Some (c, rs)" and "length (committed (Did e0 # rs)) < 2 ^ 64 - 1"
  shows "map unat (committed (Did e0 # rs)) = [1..<length (committed (Did e0 # rs)) + 1]
    \<and> (snd (accept_paint i out c) \<noteq> Hold \<longleftrightarrow> open_load (Did e0 # rs) = Some i)
    \<and> (open_load (Did e0 # rs) \<noteq> Some i \<longrightarrow> accept_paint i out c = (c, Hold))"
proof -
  let ?log = "Did e0 # rs"
  have b: "inflight c0 = open_after None (Did e0)" "ch_next_id c0 = (next_raw ^^ length (committed [Did e0])) 1"
    "committed [Did e0] = [] \<or> committed [Did e0] = [1]"
    using boot_reacts [OF assms(1)] by (cases e0; simp add: reacts_def Chrome_fresh_def inflight_def)+
  have "committed ?log = map (\<lambda>k. (next_raw ^^ k) 1) [0..<length (committed ?log)]"
    using ids_Cons [OF b(2,3) run_reacts(2) [OF assms(2)]] .
  from arg_cong [OF this, of "map unat"] have "map unat (committed ?log) = map (\<lambda>k. k + 1) [0..<length (committed ?log)]"
    using next_raw_ids assms(3) by (simp add: comp_def)
  moreover have "map (\<lambda>k. k + 1) [0..<n] = [1..<n + 1]" for n by (simp add: map_Suc_upt)
  moreover have "inflight c = open_load ?log" using run_reacts(1) [OF assms(2)] b(1) by (simp add: open_load_def)
  moreover have "snd (accept_paint i out c) \<noteq> Hold \<longleftrightarrow> inflight c = Some i"
    using accept_paint_inflight [of c i out] by (cases "inflight c = Some i") simp_all
  ultimately show ?thesis using accept_paint_inflight(2) [of c i out] by metis
qed

theorem only_the_open_load_paints_witness:
  "\<exists>c0 url c rs. boot_load (ascii ''host/a'') DemoHost = (c0, Commit url 1)
    \<and> chrome_run [Pressed \<lparr>ke_key = Escape, ke_ctrl = False\<rparr> DemoHost []] c0 = Some (c, [Did (Drop_load 1)])
    \<and> accept_paint 1 (Paint_failed Connection) c = (c, Hold)"
proof -
  have "normalize (ascii ''host/a'') DemoHost \<noteq> None" "ascii ''host/a'' \<noteq> []" by code_simp+
  then obtain url where u: "normalize (ascii ''host/a'') DemoHost = Some url" "ascii ''host/a'' \<noteq> []" by blast
  let ?start = "Chrome_fresh\<lparr>ch_inner := Loading url 1 Shown_Blank No_link, ch_next_id := 2\<rparr>"
  have b: "boot_load (ascii ''host/a'') DemoHost = (?start, Commit url 1)"
    using u by (simp add: boot_load_def classify_def start_load_def alloc_id_def Chrome_fresh_def)
  let ?stopped = "?start\<lparr>ch_inner := Line (from_url url Caret) Shown_Blank Idle\<rparr>"
  have r: "chrome_run [Pressed \<lparr>ke_key = Escape, ke_ctrl = False\<rparr> DemoHost []] ?start = Some (?stopped, [Did (Drop_load 1)])"
    by (simp add: chrome_step_def on_key_def escape_key_def after_escape_def Chrome_fresh_def)
  have "open_load [Did (Commit url 1), Did (Drop_load 1)] = None" by (simp add: open_load_def)
  moreover have "length (committed [Did (Commit url 1), Did (Drop_load 1)]) < 2 ^ 64 - 1" by simp
  ultimately have "accept_paint 1 (Paint_failed Connection) ?stopped = (?stopped, Hold)"
    using only_the_open_load_paints [OF b r, of 1 "Paint_failed Connection"] by (metis option.distinct(1))
  then show ?thesis using b r by blast
qed

text \<open>C40: A load is a normalised public address. Whatever keys are pressed on whatever pages, every address that the
  desktop asks to load is its own normal form under the name policy.\<close>

theorem loads_are_normalised:
  assumes "boot_load text policy = (c0, e0)" and "chrome_run hs c0 = Some (c, rs)"
    and "\<forall>event policy' links. Pressed event policy' links \<in> set hs \<longrightarrow> policy' = policy" and "Did (Commit url i) \<in> set (Did e0 # rs)"
  shows "normalize (as_str url) policy = Some url"
proof (cases "Did (Commit url i) \<in> set rs")
  case True
  then show ?thesis using run_commits [OF assms(2) True] assms(3) by blast
next
  case False
  then show ?thesis using boot_commits [of "text" policy c0 url i] assms(1,4) by auto
qed

theorem loads_are_normalised_witness:
  "\<exists>url. boot_load (ascii ''HOST'') DemoHost = (fst (boot_load (ascii ''HOST'') DemoHost), Commit url 1) \<and> normalize (as_str url) DemoHost = Some url"
proof -
  have "normalize (ascii ''HOST'') DemoHost \<noteq> None" "ascii ''HOST'' \<noteq> []" by code_simp+
  then obtain url where u: "normalize (ascii ''HOST'') DemoHost = Some url" "ascii ''HOST'' \<noteq> []" by blast
  then have b: "boot_load (ascii ''HOST'') DemoHost = (fst (boot_load (ascii ''HOST'') DemoHost), Commit url 1)"
    by (simp add: boot_load_def classify_def start_load_def alloc_id_def Chrome_fresh_def)
  show ?thesis using loads_are_normalised [OF b, of "[]" _ "[]" url 1] b by auto
qed

text \<open>C36: An address that is typed is loaded. In every state of the desktop, the scan codes of Ctrl+L, of
  printable characters that normalise to an address and of Enter make the desktop commit the load of that
  address under a fresh id, with nothing else done on the way and the page on screen kept; the paint of that
  id then shows the page.\<close>

theorem typed_address_is_loaded:
  assumes "chrome_wf c" and "list_all printable cs" and "length cs \<le> LINE_CAP" and "normalize cs policy = Some url"
  shows "\<exists>evs c'. decode ([0x1D, 0x26, 0xA6, 0x9D] @ concat (map type_char cs) @ [0x1C, 0x9C]) Set1State_new = (evs, Set1State_new)
    \<and> chrome_run (map (\<lambda>ev. Pressed ev policy links) evs) c
        = Some (c', replicate (length cs + 1) (Did Effect_None) @ [Did (Commit url (ch_next_id c))])
    \<and> page_view c' = page_view c \<and> lv_text (line_view c') = as_str url
    \<and> loaded_address (fst (accept_paint (ch_next_id c) (Painted page) c')) = Some page"
proof -
  have ne: "cs \<noteq> []" using assms(4) normalize_empty by auto
  let ?l = "\<lparr>ke_key = Char_key 0x6C, ke_ctrl = True\<rparr>" and ?enter = "\<lparr>ke_key = Enter, ke_ctrl = False\<rparr>"
  let ?evs = "[?l] @ map char_event cs @ [?enter]"
  have d: "decode ([0x1D, 0x26, 0xA6, 0x9D] @ concat (map type_char cs) @ [0x1C, 0x9C]) Set1State_new = (?evs, Set1State_new)"
    by (rule decode_three [OF ctrl_l_decodes type_text_decodes [OF assms(2)] enter_decodes])
  obtain e shown flight where f: "focus_line c = c\<lparr>ch_inner := Line e shown flight\<rparr>" "edit_wf e" "le_selection e = All_selected" "view_of shown = page_view c"
    using focus_line_shape [OF assms(1)] by blast
  let ?c1 = "c\<lparr>ch_inner := Line e shown flight\<rparr>"
  obtain e' where t: "chrome_run (map (\<lambda>ch. Pressed (char_event ch) policy links) cs) ?c1
      = Some (c\<lparr>ch_inner := Line e' shown flight\<rparr>, replicate (length cs) (Did Effect_None))" "edit_wf e'" "edit_abs e' = (cs, length cs, False)"
    using selected_run [OF assms(2) ne assms(3), of ?c1 e shown flight policy links] f by auto
  let ?c2 = "c\<lparr>ch_inner := Line e' shown flight\<rparr>"
  obtain c' where c': "start_load url shown ?c2 = (c', Commit url (ch_next_id c))" "ch_inner c' = Loading url (ch_next_id c) shown No_link"
    by (simp add: start_load_def alloc_id_def)
  have "chrome_step (Pressed ?l policy links) c = Some (?c1, Did Effect_None)" using f(1) by (simp add: chrome_step_def on_key_def)
  moreover have "chrome_step (Pressed ?enter policy links) ?c2 = Some (c', Did (Commit url (ch_next_id c)))"
    using enter_typed [of ?c2 e' shown flight cs policy url] t assms(2,4) ne c'(1) by (simp add: chrome_step_def on_key_def on_line_key_def)
  ultimately have "chrome_run (map (\<lambda>ev. Pressed ev policy links) ?evs) c
      = Some (c', replicate (length cs + 1) (Did Effect_None) @ [Did (Commit url (ch_next_id c))])"
    using t(1) by (simp add: run_append comp_def)
  moreover have "page_view c' = page_view c" "lv_text (line_view c') = as_str url" using c'(2) f(4) by (simp_all add: page_view_def line_view_def)
  moreover have "loaded_address (fst (accept_paint (ch_next_id c) (Painted page) c')) = Some page"
    using c'(2) by (simp add: accept_paint_def land_def loaded_address_def page_view_def)
  ultimately show ?thesis using d by blast
qed

theorem typed_address_is_loaded_witness:
  "\<exists>url evs c'. normalize (ascii ''host/A?b'') DemoHost = Some url
    \<and> decode ([0x1D, 0x26, 0xA6, 0x9D] @ concat (map type_char (ascii ''host/A?b'')) @ [0x1C, 0x9C]) Set1State_new = (evs, Set1State_new)
    \<and> chrome_run (map (\<lambda>ev. Pressed ev DemoHost []) evs) Chrome_fresh = Some (c', replicate 9 (Did Effect_None) @ [Did (Commit url 1)])"
proof -
  have "normalize (ascii ''host/A?b'') DemoHost \<noteq> None" by code_simp
  then obtain url where u: "normalize (ascii ''host/A?b'') DemoHost = Some url" by blast
  have "chrome_wf Chrome_fresh" using empty_wf by (simp add: Chrome_fresh_def chrome_wf_def inner_wf_simps)
  moreover have p: "list_all printable (ascii ''host/A?b'')" "length (ascii ''host/A?b'') = 8" by code_simp+
  then have "length (ascii ''host/A?b'') \<le> LINE_CAP" by (simp add: LINE_CAP_def)
  moreover have "length (ascii ''host/A?b'') + 1 = 9" "ch_next_id Chrome_fresh = 1" using p by (simp_all add: Chrome_fresh_def)
  ultimately show ?thesis using typed_address_is_loaded [of Chrome_fresh "ascii ''host/A?b''" DemoHost url "[]"] u p(1) by metis
qed

end
