(* ===== verification/Spec2Isabelle.thy ===== *)
theory Spec2Isabelle
  imports BlkVirt NetQueue SerialQueue ByteQueue FsQueue CothreadRun Gate PosixRun Sockets NetRxPath FatClaims PosixFat
    Calc SerialPath SerialRxPath NetTxPath UrlClaims ChromeClaims
begin

text \<open>
  Verification of lerux, a Rust userspace on the seL4 microkernel. The system is a set of
  protection domains that share memory and notify each other over channels. The development
  covers the parts every service of the system stands on, the services built from them, and the
  logic of the desktop on top.

  \<^bold>\<open>The parts and how they interact.\<close> Ring buffers with free-running counters
  (\<open>lerux-ring\<close>) carry requests between domains: block requests and responses, network buffer
  descriptors, serial bytes, filesystem commands and completions (\<open>lerux-sddf\<close>). Virtualisers
  stand between clients and drivers: \<open>sddf-blk-virt\<close> for the disk, \<open>sddf-net-virt-rx\<close> and
  \<open>sddf-net-virt-tx\<close> for the network, \<open>sddf-serial-virt-rx\<close> and \<open>sddf-serial-virt-tx\<close> for the
  serial line, whose driver is \<open>sddf-serial-driver\<close>; a copier moves received frames into client
  buffers (\<open>sddf-net-copy\<close>). A cothread runtime (\<open>lerux-cothread\<close>) lets a domain wait for a channel
  in the middle of a function. The FAT file server (\<open>sddf-fatfs\<close>) runs as such a cothread: it takes
  filesystem commands and issues block requests. \<open>lerux-posix\<close> is the client side: file calls over
  the command ring, sockets over a TCP interface. \<open>lerux-gate\<close> is the checked way to claim memory
  windows. The desktop decodes the keyboard (\<open>lerux-input\<close>), edits and normalises addresses and
  commits loads of pages (\<open>lerux-desk\<close>); \<open>lerux-calc\<close> is its calculator.

  \<^bold>\<open>The theories.\<close>

  \<^item> \<open>Prelude\<close>, \<open>Ring\<close>, \<open>Fifo\<close>, \<open>RingQueue\<close>: shared lemmas; \<open>lerux-ring/src/lib.rs\<close> for every
    counter width; the bounded list as the specification of a queue, with the locale of a queue
    that refines it and the locale of a queue built on a ring.
  \<^item> \<open>BlkQueue\<close>, \<open>NetQueue\<close>, \<open>SerialQueue\<close>, \<open>ByteQueue\<close>, \<open>FsQueue\<close>: the queues of
    \<open>lerux-sddf/src\<close> and \<open>lerux-serial-queue\<close>; each interprets the locales of the queue, so that
    every run of enqueues and dequeues behaves like the bounded list, over the wrap of its counters.
    For the network queue this needs a capacity that divides 65536; \<open>NetQueue\<close> shows what happens
    with every other one.
  \<^item> \<open>BlkVirt\<close>: \<open>sddf-blk-virt\<close>; order, completeness and notifications of forwarding.
  \<^item> \<open>NetVirtRx\<close>, \<open>NetCopy\<close>, \<open>NetRxPath\<close>: the receive path of the network; its composition with
    a driver and a client as a step relation whose invariant is the conservation of buffers, the
    handler that works off its queues, and the frame that reaches the client unchanged.
  \<^item> \<open>NetVirtTx\<close>, \<open>NetTxPath\<close>: the transmit path. The contents of the client's descriptors are
    arbitrary, but the client sends no more of them than it took from its free queue; the driver gets
    only buffers of the client's region. A last theorem shows that the bound on the number is needed.
  \<^item> \<open>SerialDriver\<close>, \<open>SerialVirtTx\<close>, \<open>SerialPath\<close>: the transmit path of the serial line with its
    outstanding notifications as part of the state: the output is an interleaving of what the clients
    wrote, and rounds in which a domain sees nothing but its outstanding notifications send all of it.
  \<^item> \<open>SerialVirtRx\<close>, \<open>SerialRxPath\<close>: the receive path, against a specification that
    demultiplexes the line without queues.
  \<^item> \<open>Cothread\<close>, \<open>CothreadInv\<close>, \<open>CothreadRun\<close>: \<open>lerux-cothread\<close>; the scheduler as a state
    machine, its invariant, and when its operations panic: exactly when the documented contract
    (\<open>co_contract\<close>) is broken, except that the root may take a signal that is already set
    (\<open>root_takes_signal\<close>). Contexts are those of the processor in \<open>rt_arch\<close>, one of the three that
    \<open>switch.rs\<close> supports.
  \<^item> \<open>Gate\<close>: \<open>lerux-gate\<close>; \<open>Outcome\<close>, \<open>Posix\<close>, \<open>PosixInv\<close>, \<open>PosixRun\<close>, \<open>Sockets\<close>:
    \<open>lerux-posix\<close>, against an arbitrary peer and an arbitrary TCP stack.
  \<^item> \<open>Bytes\<close>, \<open>Fat\<close>, \<open>FatServer\<close>: \<open>sddf-fatfs/src/main.rs\<close>, every function of it; \<open>FatCache\<close>
    the write-back block cache against a device; \<open>FatAnswer\<close> that every command is answered even
    over a failing device; \<open>FatVolume\<close>, \<open>FatSound\<close>, \<open>FatFiles\<close>, \<open>FatTree\<close> the volume as
    directory entries, allocation table and data sectors, the soundness invariant and the tree of
    files it represents; \<open>FatRun\<close>, \<open>FatHandlers\<close> each handler as an operation on that tree, with the
    status and the data it answers; \<open>FatServe\<close> the worker serving command after command and the
    specification \<open>tree_step\<close> of all commands; \<open>FatPrepare\<close> formatting and seeding a volume;
    \<open>FatClaims\<close> the properties with an example server over a disk in memory.
  \<^item> \<open>PosixFat\<close>: the file client in front of the file server. The locale \<open>file_server\<close> states what
    the client relies on; the FAT server is its interpretation, and a file written through the
    POSIX calls is read back through them.
  \<^item> \<open>Calc\<close>: \<open>lerux-calc\<close>; the evaluator against the grammar as an inductive predicate.
  \<^item> \<open>Url\<close>, \<open>UrlNormal\<close>, \<open>UrlClaims\<close>: \<open>lerux-desk/src/url.rs\<close>; the shape of normalised addresses,
    links, paths without dot segments, host names.
  \<^item> \<open>Input\<close>, \<open>Chrome\<close>, \<open>ChromeClaims\<close>: the scan code decoder of \<open>lerux-input\<close>, with a layout of the
    keyboard given row by row as its specification, and the address line, line editor and loads of
    \<open>lerux-desk/src/lib.rs\<close>; the editor refines a list of bytes, and an address that is typed is
    loaded.

  \<^bold>\<open>Hypotheses of the file server.\<close> Commands refine operations on the tree over a sound volume
  (\<open>volume_sound\<close>) and a device that carries out every transfer (\<open>working\<close>), with room in the completion ring
  and when a command that makes a new entry names it with a first byte that is no directory marker
  (\<open>plain_command\<close>). The marker names are the subject of a theorem of their own, which shows the file
  lost. That every command is answered needs neither a sound volume nor a device that succeeds, only one
  that answers.

  \<^bold>\<open>State, errors and loops.\<close> A structure is a record, an enum a datatype, a machine integer
  a word of its width. Memory shared between domains is part of the state that the functions pass
  along. A panic is \<open>None\<close> (\<open>Outcome\<close> tells a panic from waiting forever where both occur).
  Loops over queues end because a queue gets shorter (\<open>function\<close> with its measure); loops that
  wait for another domain are \<open>partial_function (option)\<close> and are shown to return under a
  hypothesis on the peer that bounds its silence. What the other side of a channel does is a
  parameter (\<open>ft_wait\<close>, the wake function of \<open>Files\<close>, the trait \<open>Tcp\<close>, the registers of the UART)
  with hypotheses on it; each is instantiated by a concrete peer in the witness of the property.

  \<^bold>\<open>Not modelled.\<close> The kernel and the Microkit library; device drivers other than the serial one,
  whose effects are volatile register accesses against hardware that the repository does not describe;
  the GPU queues and virtualiser; the planted registers and the register swap of
  \<open>lerux-cothread/src/switch.rs\<close>; the framebuffer and the drawing of the desktop; applications and
  third-party stacks (TLS, TCP, WebAssembly, HTML); logging; the host tools that build and test images.
  The address and channel constants of the images are parameters of the functions that read them.
\<close>

end
